(* ===== verification/HS_Prelude.thy ===== *)
theory HS_Prelude
  imports Main "HOL-Library.Word"
begin

unbundle bit_operations_syntax

text \<open>
  The shared vocabulary of the development: machine integers, the bounded vector and the
  iterator idioms the Rust sources use, little-endian byte strings, the convention for
  methods that mutate their receiver and may fail, and the generic lemmas on them.

  Conventions.
  \<^item> \<open>u8\<close>, \<open>u16\<close>, \<open>u32\<close> and \<open>u64\<close> are words of that width. A signed \<open>i8\<close> or
    \<open>i16\<close> is the word with its bit pattern, read through \<open>sint\<close>; an \<open>i32\<close> counter is
    an \<open>int\<close> whose range is written out where the code checks or saturates it.
  \<^item> A \<open>heapless::Vec<T, N>\<close> is a list together with its capacity; pushing onto a
    full vector fails and leaves it unchanged. A fixed array of \<open>Option\<close> entries is a
    list of options of fixed length.
  \<^item> A method \<open>fn f(&mut self, ..) -> Result<T, E>\<close> is a function that returns the
    receiver as the method leaves it, together with \<open>Inl\<close> the error or \<open>Inr\<close> the
    value: what a failing method leaves behind is part of the model.
\<close>

section \<open>Types\<close>

type_synonym u8 = "8 word"
type_synonym u16 = "16 word"
type_synonym u32 = "32 word"
type_synonym u64 = "64 word"
type_synonym i8 = "8 word"
type_synonym i16 = "16 word"

type_synonym bytes = "u8 list"

type_synonym ('s, 'e, 'a) outcome = "'s \<times> ('e + 'a)"

named_theorems model_defs \<open>definitions unfolded together in component proofs\<close>
named_theorems inv_intros \<open>preservation facts of component invariants\<close>

section \<open>Results\<close>

text \<open>The \<open>?\<close> operator on a result, and sequencing of fallible methods on one receiver.\<close>

definition bindE :: "'e + 'a \<Rightarrow> ('a \<Rightarrow> 'e + 'b) \<Rightarrow> 'e + 'b" where
  "bindE r f = (case r of Inl e \<Rightarrow> Inl e | Inr x \<Rightarrow> f x)"

lemma bindE_simps [simp]:
  "bindE (Inl e) f = Inl e"
  "bindE (Inr x) f = f x"
  by (simp_all add: bindE_def)

lemma bindE_Inr_iff: "bindE r f = Inr y \<longleftrightarrow> (\<exists>x. r = Inr x \<and> f x = Inr y)"
  by (cases r) simp_all

lemma bindE_Inl_iff:
  "bindE r f = Inl e \<longleftrightarrow> r = Inl e \<or> (\<exists>x. r = Inr x \<and> f x = Inl e)"
  by (cases r) auto

definition andThen :: "('s, 'e, 'a) outcome \<Rightarrow> ('a \<Rightarrow> 's \<Rightarrow> ('s, 'e, 'b) outcome) \<Rightarrow> ('s, 'e, 'b) outcome" where
  "andThen r f = (case r of (s, Inl e) \<Rightarrow> (s, Inl e) | (s, Inr x) \<Rightarrow> f x s)"

lemma andThen_simps [simp]:
  "andThen (s, Inl e) f = (s, Inl e)"
  "andThen (s, Inr x) f = f x s"
  by (simp_all add: andThen_def)

lemma andThen_Inr_iff:
  "andThen r f = (t, Inr y) \<longleftrightarrow> (\<exists>s x. r = (s, Inr x) \<and> f x s = (t, Inr y))"
  by (cases r; cases "snd r") auto

lemma andThen_cases:
  assumes "andThen r f = z"
  obtains (err) s e where "r = (s, Inl e)" and "z = (s, Inl e)"
    | (ok) s x where "r = (s, Inr x)" and "f x s = z"
  using assms by (cases r; cases "snd r") auto

text \<open>An invariant of the receiver is kept by a sequence if each step keeps it.\<close>

lemma andThen_inv:
  assumes "P (fst r)" and "\<And>s x. r = (s, Inr x) \<Longrightarrow> P s \<Longrightarrow> P (fst (f x s))"
  shows "P (fst (andThen r f))"
  using assms by (cases r; cases "snd r") auto

definition is_ok :: "('s, 'e, 'a) outcome \<Rightarrow> bool" where
  "is_ok r = (case snd r of Inl _ \<Rightarrow> False | Inr _ \<Rightarrow> True)"

lemma is_ok_simps [simp]:
  "\<not> is_ok (s, Inl e)"
  "is_ok (s, Inr x)"
  by (simp_all add: is_ok_def)

section \<open>Bounded vectors, arrays of options and iterator searches\<close>

definition vec_push :: "nat \<Rightarrow> 'a list \<Rightarrow> 'a \<Rightarrow> 'a list option" where
  "vec_push cap xs x = (if length xs < cap then Some (xs @ [x]) else None)"

lemma vec_push_Some_iff [simp]:
  "vec_push cap xs x = Some ys \<longleftrightarrow> length xs < cap \<and> ys = xs @ [x]"
  by (auto simp: vec_push_def)

lemma vec_push_None_iff [simp]: "vec_push cap xs x = None \<longleftrightarrow> cap \<le> length xs"
  by (auto simp: vec_push_def)

text \<open>\<open>Iterator::position\<close>: the index of the first element that satisfies the test.\<close>

fun position :: "('a \<Rightarrow> bool) \<Rightarrow> 'a list \<Rightarrow> nat option" where
  "position p [] = None"
| "position p (x # xs) = (if p x then Some 0 else map_option Suc (position p xs))"

lemma position_None_iff: "position p xs = None \<longleftrightarrow> (\<forall>x\<in>set xs. \<not> p x)"
  by (induction xs) auto

lemma position_Some_iff:
  "position p xs = Some i \<longleftrightarrow> i < length xs \<and> p (xs ! i) \<and> (\<forall>j<i. \<not> p (xs ! j))"
proof (induction xs arbitrary: i)
  case Nil
  then show ?case by simp
next
  case (Cons x xs)
  show ?case
  proof (cases i)
    case 0
    then show ?thesis by (auto simp: map_option_case split: option.splits)
  next
    case (Suc k)
    then show ?thesis
      using Cons.IH[of k] by (auto simp: less_Suc_eq_0_disj)
  qed
qed

lemma position_SomeD:
  assumes "position p xs = Some i"
  shows "i < length xs" and "p (xs ! i)" and "\<And>j. j < i \<Longrightarrow> \<not> p (xs ! j)"
  using assms by (simp_all add: position_Some_iff)

lemma position_cong:
  "(\<And>x. x \<in> set xs \<Longrightarrow> p x = q x) \<Longrightarrow> position p xs = position q xs"
  by (induction xs) auto

lemma find_Some_iff_position:
  "find p xs = map_option (\<lambda>i. xs ! i) (position p xs)"
  by (induction xs) (auto simp: option.map_comp comp_def)

lemma list_ex_eq_image: "list_ex (\<lambda>q. f q = x) xs \<longleftrightarrow> x \<in> f ` set xs"
  by (induction xs) auto

text \<open>\<open>Vec::swap_remove\<close>: the last element takes the place of the removed one.\<close>

definition swap_remove :: "nat \<Rightarrow> 'a list \<Rightarrow> 'a list" where
  "swap_remove i xs = butlast (xs[i := last xs])"

lemma length_swap_remove [simp]: "length (swap_remove i xs) = length xs - 1"
  by (simp add: swap_remove_def)



lemma set_swap_remove:
  assumes "distinct xs" and "i < length xs"
  shows "set (swap_remove i xs) = set xs - {xs ! i}" and "distinct (swap_remove i xs)"
proof -
  obtain ys y where xs: "xs = ys @ [y]"
    using assms(2) by (cases xs rule: rev_cases) auto
  have d: "distinct ys" "y \<notin> set ys" using assms(1) xs by simp_all
  have "set (swap_remove i xs) = set xs - {xs ! i} \<and> distinct (swap_remove i xs)"
  proof (cases "i < length ys")
    case True
    then have eq: "swap_remove i (ys @ [y]) = ys[i := y]"
      by (simp add: swap_remove_def list_update_append)
    have "set (ys[i := y]) = insert y (set ys - {ys ! i})"
      using True d by (simp add: set_update_distinct)
    moreover have "distinct (ys[i := y])"
      using d by (intro distinct_list_update) auto
    moreover have "y \<noteq> ys ! i" using True d by (metis nth_mem)
    ultimately have "set (swap_remove i (ys @ [y])) = set (ys @ [y]) - {(ys @ [y]) ! i} \<and>
        distinct (swap_remove i (ys @ [y]))"
      using True by (simp add: eq nth_append insert_Diff_if)
    then show ?thesis by (simp only: xs)
  next
    case False
    then have i: "i = length ys" using assms(2) xs by simp
    have "swap_remove (length ys) (ys @ [y]) = ys"
      by (simp add: swap_remove_def)
    then show ?thesis using d by (simp add: i xs)
  qed
  then show "set (swap_remove i xs) = set xs - {xs ! i}" and "distinct (swap_remove i xs)"
    by simp_all
qed

lemma set_swap_remove_subset:
  assumes "i < length xs"
  shows "set (swap_remove i xs) \<subseteq> set xs"
proof -
  have "set (swap_remove i xs) \<subseteq> set (xs[i := last xs])"
    by (auto simp: swap_remove_def dest: in_set_butlastD)
  also have "\<dots> \<subseteq> insert (last xs) (set xs)" by (rule set_update_subset_insert)
  also have "\<dots> \<subseteq> set xs" using assms by (cases xs) auto
  finally show ?thesis .
qed

lemma map_swap_remove:
  "i < length xs \<Longrightarrow> map f (swap_remove i xs) = swap_remove i (map f xs)"
  by (cases xs rule: rev_cases) (auto simp: swap_remove_def map_update map_butlast last_map)

section \<open>Saturating and checked arithmetic\<close>

definition sat_add :: "'a::len word \<Rightarrow> 'a word \<Rightarrow> 'a word" where
  "sat_add a b = (if unat a + unat b < 2 ^ LENGTH('a) then a + b else - 1)"

definition sat_sub :: "'a::len word \<Rightarrow> 'a word \<Rightarrow> 'a word" where
  "sat_sub a b = (if b \<le> a then a - b else 0)"

definition checked_sub :: "'a::len word \<Rightarrow> 'a word \<Rightarrow> 'a word option" where
  "checked_sub a b = (if b \<le> a then Some (a - b) else None)"

lemma unat_sat_add:
  "unat (sat_add a (b :: 'a::len word)) = min (unat a + unat b) (2 ^ LENGTH('a) - 1)"
  by (auto simp: sat_add_def unat_word_ariths unsigned_minus_1_eq_mask mask_eq_exp_minus_1)

lemma unat_sat_sub: "unat (sat_sub a b) = unat a - unat b"
  by (auto simp: sat_sub_def unat_sub word_le_nat_alt)

lemma sat_add_ge: "a \<le> sat_add a (b :: 'a::len word)"
proof -
  have "unat a < 2 ^ LENGTH('a)" by (rule unsigned_less)
  then have "unat a \<le> 2 ^ LENGTH('a) - 1" by linarith
  then show ?thesis by (simp add: word_le_nat_alt unat_sat_add)
qed

text \<open>Signed thirty-two bit counters, kept as integers with their range written out.\<close>

abbreviation i32_min :: int where "i32_min \<equiv> - (2 ^ 31)"
abbreviation i32_max :: int where "i32_max \<equiv> 2 ^ 31 - 1"

definition clampi :: "int \<Rightarrow> int \<Rightarrow> int \<Rightarrow> int" where
  "clampi lo hi v = (if v < lo then lo else if hi < v then hi else v)"

definition i32_checked_add :: "int \<Rightarrow> int \<Rightarrow> int option" where
  "i32_checked_add a b = (if i32_min \<le> a + b \<and> a + b \<le> i32_max then Some (a + b) else None)"

definition i32_saturating_add :: "int \<Rightarrow> int \<Rightarrow> int" where
  "i32_saturating_add a b = clampi i32_min i32_max (a + b)"

lemma clampi_bounds: "lo \<le> hi \<Longrightarrow> lo \<le> clampi lo hi v \<and> clampi lo hi v \<le> hi"
  by (simp add: clampi_def)

lemma clampi_id: "lo \<le> v \<Longrightarrow> v \<le> hi \<Longrightarrow> clampi lo hi v = v"
  by (simp add: clampi_def)

section \<open>Words\<close>

lemma xor_cancel_right: "a XOR c = b XOR c \<longleftrightarrow> a = (b :: 'a::len word)"
  by (auto simp: bit_eq_iff bit_xor_iff)

lemma xor_cancel_left: "c XOR a = c XOR b \<longleftrightarrow> a = (b :: 'a::len word)"
  by (auto simp: bit_eq_iff bit_xor_iff)

lemma unat_of_nat_small: "n < 2 ^ LENGTH('a) \<Longrightarrow> unat (of_nat n :: 'a::len word) = n"
  by (simp add: unsigned_of_nat take_bit_nat_eq_self)

lemma unat_ucast_up: "LENGTH('a) \<le> LENGTH('b) \<Longrightarrow> unat (ucast (a :: 'a::len word) :: 'b::len word) = unat a"
proof -
  assume len: "LENGTH('a) \<le> LENGTH('b)"
  have "unat a < 2 ^ LENGTH('a)" by (rule unsigned_less)
  also have "\<dots> \<le> 2 ^ LENGTH('b)" using len by simp
  finally show ?thesis by (simp add: unsigned_ucast_eq take_bit_nat_eq_self)
qed

lemma ucast_up_inject:
  "LENGTH('a) \<le> LENGTH('b) \<Longrightarrow> (ucast a :: 'b::len word) = ucast b \<longleftrightarrow> a = (b :: 'a::len word)"
  by (metis unat_ucast_up word_unat_eq_iff)

lemma sint_clamp16: "sint (word_of_int (clampi (- 32768) 32767 v) :: i16) = clampi (- 32768) 32767 v"
  by (auto simp: clampi_def sint_sbintrunc' signed_take_bit_int_eq_self)

lemma sint_clamp8: "sint (word_of_int (clampi (- 128) 127 v) :: i8) = clampi (- 128) 127 v"
  by (auto simp: clampi_def sint_sbintrunc' signed_take_bit_int_eq_self)

section \<open>Little-endian byte strings\<close>

text \<open>\<open>to_le n w\<close> is the first \<open>n\<close> bytes of \<open>to_le_bytes\<close>, \<open>from_le\<close> is \<open>from_le_bytes\<close>.\<close>

primrec to_le :: "nat \<Rightarrow> 'a::len word \<Rightarrow> bytes" where
  "to_le 0 w = []"
| "to_le (Suc n) w = ucast w # to_le n (drop_bit 8 w)"

primrec from_le :: "bytes \<Rightarrow> 'a::len word" where
  "from_le [] = 0"
| "from_le (b # bs) = ucast b OR push_bit 8 (from_le bs)"

lemma length_to_le [simp]: "length (to_le n w) = n"
  by (induction n arbitrary: w) auto

lemma from_le_to_le_take: "from_le (to_le n w) = take_bit (8 * n) (w :: 'a::len word)"
proof (induction n arbitrary: w)
  case 0
  then show ?case by simp
next
  case (Suc n)
  show ?case
    by (rule bit_word_eqI)
      (auto simp: Suc.IH bit_simps not_le add.commute)
qed

lemma from_le_to_le: "8 * n = LENGTH('a) \<Longrightarrow> from_le (to_le n w) = (w :: 'a::len word)"
  by (simp add: from_le_to_le_take)

lemma from_le_bit_high:
  "8 * length bs \<le> k \<Longrightarrow> \<not> bit (from_le bs :: 'a::len word) k"
proof (induction bs arbitrary: k)
  case Nil
  then show ?case by simp
next
  case (Cons b bs)
  then have "8 \<le> k" and "8 * length bs \<le> k - 8" by simp_all
  then show ?case
    using Cons.IH[of "k - 8"] by (auto simp: bit_simps dest: bit_imp_le_length)
qed

lemma to_le_from_le:
  "8 * length bs \<le> LENGTH('a) \<Longrightarrow> to_le (length bs) (from_le bs :: 'a::len word) = bs"
proof (induction bs)
  case Nil
  then show ?case by simp
next
  case (Cons b bs)
  have 1: "ucast (ucast b OR push_bit 8 (from_le bs) :: 'a word) = b"
    using Cons.prems by (intro bit_word_eqI) (auto simp: bit_simps)
  have 2: "drop_bit 8 (ucast b OR push_bit 8 (from_le bs) :: 'a word) = from_le bs"
  proof (rule bit_word_eqI)
    fix n
    assume n: "n < LENGTH('a)"
    have hi: "\<not> bit (from_le bs :: 'a word) n" if "LENGTH('a) \<le> 8 + n"
      using that Cons.prems by (intro from_le_bit_high) simp
    have "\<not> bit b (8 + n)" by (auto dest: bit_imp_le_length)
    then show "bit (drop_bit 8 (ucast b OR push_bit 8 (from_le bs) :: 'a word)) n =
        bit (from_le bs :: 'a word) n"
      using hi n by (cases "8 + n < LENGTH('a)") (simp_all add: bit_simps)
  qed
  have "to_le (Suc (length bs)) (from_le (b # bs) :: 'a word) = b # bs"
    unfolding from_le.simps to_le.simps 1 2 using Cons by simp
  then show ?case by (simp only: length_Cons)
qed

section \<open>Slices\<close>

text \<open>\<open>xs[a..b]\<close> for bounds inside the slice.\<close>

definition subslice :: "nat \<Rightarrow> nat \<Rightarrow> 'a list \<Rightarrow> 'a list" where
  "subslice a b xs = take (b - a) (drop a xs)"

lemma subslice_append_left: "b \<le> length xs \<Longrightarrow> subslice a b (xs @ ys) = subslice a b xs"
  by (simp add: subslice_def)

lemma subslice_append_right: "length xs \<le> a \<Longrightarrow> subslice a b (xs @ ys) = subslice (a - length xs) (b - length xs) ys"
  by (simp add: subslice_def)

lemma subslice_all: "length xs = n \<Longrightarrow> subslice 0 n xs = xs"
  by (simp add: subslice_def)

lemma subslice_shift: "length pre = n \<Longrightarrow> subslice (n + a) (n + b) (pre @ xs) = subslice a b xs"
  by (simp add: subslice_append_right)

lemma length_subslice: "b \<le> length xs \<Longrightarrow> length (subslice a b xs) = b - a"
  by (simp add: subslice_def)

lemma subslice_update_other:
  "i < a \<or> b \<le> i \<Longrightarrow> subslice a b (xs[i := c]) = subslice a b xs"
  unfolding subslice_def drop_take[symmetric] by (auto simp: take_update_swap list_update_beyond)

lemma subslice_update_inside:
  assumes "a \<le> i" and "i < b" and "b \<le> length xs" and "c \<noteq> xs ! i"
  shows "subslice a b (xs[i := c]) \<noteq> subslice a b xs"
proof
  assume "subslice a b (xs[i := c]) = subslice a b xs"
  then have "subslice a b (xs[i := c]) ! (i - a) = subslice a b xs ! (i - a)" by simp
  then show False using assms by (simp add: subslice_def)
qed

end
