(* ===== verification/HS_Keyboard.thy ===== *)
theory HS_Keyboard
  imports HS_Prelude
begin

unbundle bit_operations_syntax

text \<open>
  The keyboard model (\<open>src/input/keyboard.rs\<close>): decoded frames, the physical state of the
  pressed keys in press order, the suppression that hides held keys from a newly selected
  host, and the visible state that remains. Every loop of the source is a recursive
  function; the lemmas show what each computes, that the operations keep the key vectors
  duplicate free and within capacity, and that no capacity error can occur on well-formed
  input.
\<close>

section \<open>Data\<close>

type_synonym key_usage = u8
type_synonym modifier_state = u8

datatype input_error = KeyCapacity | DeviceCapacity | VendorPayloadCapacity

definition PHYSICAL_KEYBOARD_KEY_CAPACITY :: nat where
  "PHYSICAL_KEYBOARD_KEY_CAPACITY = 32"

datatype modifier =
  LeftCtrl | LeftShift | LeftAlt | LeftGui | RightCtrl | RightShift | RightAlt | RightGui

fun modifier_flag :: "modifier \<Rightarrow> modifier_state" where
  "modifier_flag LeftCtrl = 1"
| "modifier_flag LeftShift = 2"
| "modifier_flag LeftAlt = 4"
| "modifier_flag LeftGui = 8"
| "modifier_flag RightCtrl = 16"
| "modifier_flag RightShift = 32"
| "modifier_flag RightAlt = 64"
| "modifier_flag RightGui = 128"

definition modifiers_set_modifier :: "modifier_state \<Rightarrow> modifier \<Rightarrow> bool \<Rightarrow> modifier_state" where
  "modifiers_set_modifier m md pressed =
     (if pressed then m OR modifier_flag md else m AND NOT (modifier_flag md))"

record keyboard_frame =
  kf_modifiers :: modifier_state
  kf_keys_down :: "key_usage list"

record physical_keyboard_state =
  pk_modifiers :: modifier_state
  pk_keys :: "key_usage list"

record keyboard_suppression =
  ks_modifiers :: modifier_state
  ks_keys :: "key_usage list"

record visible_keyboard_state =
  vk_modifiers :: modifier_state
  vk_keys :: "key_usage list"
  vk_truncated :: bool

section \<open>Vector helpers\<close>

text \<open>\<open>Vec::remove\<close> and \<open>remove_key\<close>.\<close>

definition vec_remove :: "nat \<Rightarrow> 'a list \<Rightarrow> 'a list" where
  "vec_remove i xs = take i xs @ drop (Suc i) xs"

lemma length_vec_remove [simp]: "i < length xs \<Longrightarrow> length (vec_remove i xs) = length xs - 1"
  by (simp add: vec_remove_def)

lemma vec_remove_append [simp]: "vec_remove (length xs) (xs @ y # ys) = xs @ ys"
  by (simp add: vec_remove_def)

definition remove_key :: "key_usage list \<Rightarrow> key_usage \<Rightarrow> key_usage list" where
  "remove_key keys key =
     (case position (\<lambda>candidate. candidate = key) keys of
        Some index \<Rightarrow> vec_remove index keys
      | None \<Rightarrow> keys)"

lemma remove_key_remove1: "remove_key keys key = remove1 key keys"
proof (induction keys)
  case Nil
  then show ?case by (simp add: remove_key_def)
next
  case (Cons k ks)
  then show ?case
    by (cases "position (\<lambda>candidate. candidate = key) ks")
      (auto simp: remove_key_def vec_remove_def)
qed

section \<open>Frames\<close>

definition keyboard_frame_new :: "modifier_state \<Rightarrow> keyboard_frame" where
  "keyboard_frame_new m = \<lparr>kf_modifiers = m, kf_keys_down = []\<rparr>"

definition push_key :: "keyboard_frame \<Rightarrow> key_usage \<Rightarrow> (keyboard_frame, input_error, unit) outcome" where
  "push_key f key =
     (if key \<in> set (kf_keys_down f) then (f, Inr ())
      else case vec_push PHYSICAL_KEYBOARD_KEY_CAPACITY (kf_keys_down f) key of
          Some ks \<Rightarrow> (f\<lparr>kf_keys_down := ks\<rparr>, Inr ())
        | None \<Rightarrow> (f, Inl KeyCapacity))"

section \<open>Suppression\<close>

definition keyboard_suppression_new :: keyboard_suppression where
  "keyboard_suppression_new = \<lparr>ks_modifiers = 0, ks_keys = []\<rparr>"

definition suppression_contains_key :: "keyboard_suppression \<Rightarrow> key_usage \<Rightarrow> bool" where
  "suppression_contains_key s key = (key \<in> set (ks_keys s))"

definition suppression_release_key :: "keyboard_suppression \<Rightarrow> key_usage \<Rightarrow> keyboard_suppression" where
  "suppression_release_key s key = s\<lparr>ks_keys := remove_key (ks_keys s) key\<rparr>"

text \<open>The retain loop of \<open>retain_pressed_by\<close>, with its running index.\<close>

function retain_pressed_loop :: "key_usage list \<Rightarrow> nat \<Rightarrow> key_usage list \<Rightarrow> key_usage list" where
  "retain_pressed_loop pressed index keys =
     (if index < length keys then
        if keys ! index \<in> set pressed then retain_pressed_loop pressed (index + 1) keys
        else retain_pressed_loop pressed index (vec_remove index keys)
      else keys)"
  by pat_completeness auto
termination
  by (relation "measure (\<lambda>(pressed, index, keys). length keys - index)") auto

declare retain_pressed_loop.simps [simp del]

lemma retain_pressed_loop_filter:
  "retain_pressed_loop pressed (length pre) (pre @ ks) = pre @ filter (\<lambda>k. k \<in> set pressed) ks"
proof (induction ks arbitrary: pre)
  case Nil
  then show ?case by (simp add: retain_pressed_loop.simps)
next
  case (Cons k ks)
  show ?case
    using Cons.IH[of "pre @ [k]"] Cons.IH[of pre]
    by (subst retain_pressed_loop.simps) simp
qed

definition retain_pressed_by :: "keyboard_suppression \<Rightarrow> physical_keyboard_state \<Rightarrow> keyboard_suppression" where
  "retain_pressed_by s st =
     \<lparr>ks_modifiers = ks_modifiers s AND pk_modifiers st,
      ks_keys = retain_pressed_loop (pk_keys st) 0 (ks_keys s)\<rparr>"

lemma retain_pressed_by_keys [simp]:
  "ks_keys (retain_pressed_by s st) = filter (\<lambda>k. k \<in> set (pk_keys st)) (ks_keys s)"
  using retain_pressed_loop_filter[of "pk_keys st" "[]"] by (simp add: retain_pressed_by_def)

section \<open>Physical state\<close>

definition physical_keyboard_new :: physical_keyboard_state where
  "physical_keyboard_new = \<lparr>pk_modifiers = 0, pk_keys = []\<rparr>"

definition press_key ::
    "physical_keyboard_state \<Rightarrow> key_usage \<Rightarrow> (physical_keyboard_state, input_error, unit) outcome" where
  "press_key st key =
     (if key \<in> set (pk_keys st) then (st, Inr ())
      else case vec_push PHYSICAL_KEYBOARD_KEY_CAPACITY (pk_keys st) key of
          Some ks \<Rightarrow> (st\<lparr>pk_keys := ks\<rparr>, Inr ())
        | None \<Rightarrow> (st, Inl KeyCapacity))"

text \<open>The loop \<open>for key in keys { self.press_key(key)?; }\<close>.\<close>

fun press_keys ::
    "physical_keyboard_state \<Rightarrow> key_usage list \<Rightarrow> (physical_keyboard_state, input_error, unit) outcome" where
  "press_keys st [] = (st, Inr ())"
| "press_keys st (k # ks) = andThen (press_key st k) (\<lambda>_ st'. press_keys st' ks)"

definition release_key ::
    "physical_keyboard_state \<Rightarrow> key_usage \<Rightarrow> keyboard_suppression \<Rightarrow>
      physical_keyboard_state \<times> keyboard_suppression" where
  "release_key st key s = (st\<lparr>pk_keys := remove_key (pk_keys st) key\<rparr>, suppression_release_key s key)"

definition set_modifier :: "physical_keyboard_state \<Rightarrow> modifier \<Rightarrow> bool \<Rightarrow> physical_keyboard_state" where
  "set_modifier st md pressed = st\<lparr>pk_modifiers := modifiers_set_modifier (pk_modifiers st) md pressed\<rparr>"

text \<open>The first loop of \<open>apply_snapshot\<close>: drop the keys that are no longer down.\<close>

function release_loop ::
    "key_usage list \<Rightarrow> nat \<Rightarrow> key_usage list \<Rightarrow> keyboard_suppression \<Rightarrow>
      key_usage list \<times> keyboard_suppression" where
  "release_loop down index keys s =
     (if index < length keys then
        let key = keys ! index in
        if key \<in> set down then release_loop down (index + 1) keys s
        else release_loop down index (vec_remove index keys) (suppression_release_key s key)
      else (keys, s))"
  by pat_completeness auto
termination
  by (relation "measure (\<lambda>(down, index, keys, s). length keys - index)") auto

declare release_loop.simps [simp del]

definition apply_snapshot ::
    "physical_keyboard_state \<Rightarrow> modifier_state \<Rightarrow> key_usage list \<Rightarrow> keyboard_suppression \<Rightarrow>
      (physical_keyboard_state \<times> keyboard_suppression, input_error, unit) outcome" where
  "apply_snapshot st modifiers down s =
     (let (keys, s1) = release_loop down 0 (pk_keys st) s in
      case press_keys (st\<lparr>pk_modifiers := modifiers, pk_keys := keys\<rparr>) down of
        (st2, Inl e) \<Rightarrow> ((st2, s1), Inl e)
      | (st2, Inr _) \<Rightarrow> ((st2, retain_pressed_by s1 st2), Inr ()))"

definition keyboard_apply_frame ::
    "physical_keyboard_state \<Rightarrow> keyboard_frame \<Rightarrow> keyboard_suppression \<Rightarrow>
      (physical_keyboard_state \<times> keyboard_suppression, input_error, unit) outcome" where
  "keyboard_apply_frame st f s = apply_snapshot st (kf_modifiers f) (kf_keys_down f) s"

definition keyboard_apply_state ::
    "physical_keyboard_state \<Rightarrow> physical_keyboard_state \<Rightarrow> keyboard_suppression \<Rightarrow>
      (physical_keyboard_state \<times> keyboard_suppression, input_error, unit) outcome" where
  "keyboard_apply_state st other s = apply_snapshot st (pk_modifiers other) (pk_keys other) s"

text \<open>The loop \<open>for key in keys { self.keys.push(key)?; }\<close> of the two copying methods.\<close>

fun push_all :: "key_usage list \<Rightarrow> key_usage list \<Rightarrow> (key_usage list, input_error, unit) outcome" where
  "push_all acc [] = (acc, Inr ())"
| "push_all acc (k # ks) =
     (case vec_push PHYSICAL_KEYBOARD_KEY_CAPACITY acc k of
        Some acc' \<Rightarrow> push_all acc' ks
      | None \<Rightarrow> (acc, Inl KeyCapacity))"

definition replace_with_frame ::
    "physical_keyboard_state \<Rightarrow> keyboard_frame \<Rightarrow> (physical_keyboard_state, input_error, unit) outcome" where
  "replace_with_frame st f =
     (let (keys, r) = push_all [] (kf_keys_down f)
      in (st\<lparr>pk_modifiers := kf_modifiers f, pk_keys := keys\<rparr>, r))"

definition capture_from ::
    "keyboard_suppression \<Rightarrow> physical_keyboard_state \<Rightarrow> (keyboard_suppression, input_error, unit) outcome" where
  "capture_from s st =
     (let (keys, r) = push_all [] (pk_keys st)
      in (s\<lparr>ks_modifiers := pk_modifiers st, ks_keys := keys\<rparr>, r))"

fun visible_loop :: "keyboard_suppression \<Rightarrow> key_usage list \<Rightarrow> visible_keyboard_state \<Rightarrow> visible_keyboard_state" where
  "visible_loop s [] v = v"
| "visible_loop s (k # ks) v =
     (if suppression_contains_key s k then visible_loop s ks v
      else case vec_push PHYSICAL_KEYBOARD_KEY_CAPACITY (vk_keys v) k of
          Some vs \<Rightarrow> visible_loop s ks (v\<lparr>vk_keys := vs\<rparr>)
        | None \<Rightarrow> visible_loop s ks (v\<lparr>vk_truncated := True\<rparr>))"

definition visible_against :: "physical_keyboard_state \<Rightarrow> keyboard_suppression \<Rightarrow> visible_keyboard_state" where
  "visible_against st s =
     visible_loop s (pk_keys st)
       \<lparr>vk_modifiers = pk_modifiers st AND NOT (ks_modifiers s), vk_keys = [], vk_truncated = False\<rparr>"

definition visible_is_empty :: "visible_keyboard_state \<Rightarrow> bool" where
  "visible_is_empty v = (vk_modifiers v = 0 \<and> vk_keys v = [])"

fun to_frame_loop :: "keyboard_frame \<Rightarrow> key_usage list \<Rightarrow> input_error + keyboard_frame" where
  "to_frame_loop f [] = Inr f"
| "to_frame_loop f (k # ks) =
     (case push_key f k of (f', Inl e) \<Rightarrow> Inl e | (f', Inr _) \<Rightarrow> to_frame_loop f' ks)"

definition to_frame :: "physical_keyboard_state \<Rightarrow> input_error + keyboard_frame" where
  "to_frame st = to_frame_loop (keyboard_frame_new (pk_modifiers st)) (pk_keys st)"

text \<open>
  \<open>suppress_visible_after\<close>: keys beyond the first \<open>limit\<close> visible ones join the
  suppression; the result counts them.
\<close>

fun suppress_loop ::
    "nat \<Rightarrow> key_usage list \<Rightarrow> nat \<Rightarrow> nat \<Rightarrow> keyboard_suppression \<Rightarrow>
      (keyboard_suppression, input_error, nat) outcome" where
  "suppress_loop limit [] visible added s = (s, Inr added)"
| "suppress_loop limit (k # ks) visible added s =
     (if suppression_contains_key s k then suppress_loop limit ks visible added s
      else if visible < limit then suppress_loop limit ks (visible + 1) added s
      else case vec_push PHYSICAL_KEYBOARD_KEY_CAPACITY (ks_keys s) k of
          Some keys \<Rightarrow> suppress_loop limit ks visible (added + 1) (s\<lparr>ks_keys := keys\<rparr>)
        | None \<Rightarrow> (s, Inl KeyCapacity))"

definition suppress_visible_after ::
    "keyboard_suppression \<Rightarrow> physical_keyboard_state \<Rightarrow> nat \<Rightarrow>
      (keyboard_suppression, input_error, nat) outcome" where
  "suppress_visible_after s st limit = suppress_loop limit (pk_keys st) 0 0 s"

section \<open>What the loops compute\<close>

text \<open>The well-formedness of a key vector: no duplicates, within capacity.\<close>

definition keys_ok :: "key_usage list \<Rightarrow> bool" where
  "keys_ok ks = (distinct ks \<and> length ks \<le> PHYSICAL_KEYBOARD_KEY_CAPACITY)"

lemma keys_okI: "distinct ks \<Longrightarrow> length ks \<le> PHYSICAL_KEYBOARD_KEY_CAPACITY \<Longrightarrow> keys_ok ks"
  by (simp add: keys_ok_def)

lemma keys_ok_Nil [simp]: "keys_ok []"
  by (simp add: keys_ok_def)

lemma keys_ok_filter: "keys_ok ks \<Longrightarrow> keys_ok (filter P ks)"
  by (auto simp: keys_ok_def intro: le_trans[OF length_filter_le])

lemma keys_ok_subset:
  assumes "distinct ks" and "set ks \<subseteq> set ls" and "keys_ok ls"
  shows "keys_ok ks"
proof -
  have "length ks = card (set ks)" using assms(1) by (simp add: distinct_card)
  also have "\<dots> \<le> card (set ls)" using assms(2) by (simp add: card_mono)
  also have "\<dots> \<le> length ls" by (rule card_length)
  finally show ?thesis using assms(1,3) by (simp add: keys_ok_def)
qed

lemma filter_remove1: "\<not> P k \<Longrightarrow> filter P (remove1 k xs) = filter P xs"
  by (induction xs) auto

lemma suppression_release_key_simps [simp]:
  "ks_keys (suppression_release_key s k) = remove1 k (ks_keys s)"
  "ks_modifiers (suppression_release_key s k) = ks_modifiers s"
  by (simp_all add: suppression_release_key_def remove_key_remove1)

lemma release_loop_filter:
  "release_loop down (length pre) (pre @ ks) s =
     (pre @ filter (\<lambda>k. k \<in> set down) ks,
      foldl suppression_release_key s (filter (\<lambda>k. k \<notin> set down) ks))"
proof (induction ks arbitrary: pre s)
  case Nil
  then show ?case by (simp add: release_loop.simps)
next
  case (Cons k ks)
  show ?case
    using Cons.IH[of "pre @ [k]"] Cons.IH[of pre]
    by (subst release_loop.simps) (simp add: Let_def)
qed

lemma foldl_release_keys:
  "(\<And>k. k \<in> set ks \<Longrightarrow> \<not> P k) \<Longrightarrow>
     filter P (ks_keys (foldl suppression_release_key s ks)) = filter P (ks_keys s) \<and>
     ks_modifiers (foldl suppression_release_key s ks) = ks_modifiers s"
  by (induction ks arbitrary: s) (auto simp: filter_remove1)

lemma press_keys_append:
  "distinct ks \<Longrightarrow>
   length (pk_keys st) + length (filter (\<lambda>k. k \<notin> set (pk_keys st)) ks) \<le> PHYSICAL_KEYBOARD_KEY_CAPACITY \<Longrightarrow>
   press_keys st ks = (st\<lparr>pk_keys := pk_keys st @ filter (\<lambda>k. k \<notin> set (pk_keys st)) ks\<rparr>, Inr ())"
proof (induction ks arbitrary: st)
  case Nil
  then show ?case by simp
next
  case (Cons k ks)
  show ?case
  proof (cases "k \<in> set (pk_keys st)")
    case True
    with Cons show ?thesis by (simp add: press_key_def)
  next
    case False
    let ?st = "st\<lparr>pk_keys := pk_keys st @ [k]\<rparr>"
    have "press_key st k = (?st, Inr ())"
      using False Cons.prems(2) by (simp add: press_key_def vec_push_def)
    moreover have "filter (\<lambda>j. j \<notin> set (pk_keys ?st)) ks = filter (\<lambda>j. j \<notin> set (pk_keys st)) ks"
      using Cons.prems(1) by (auto intro: filter_cong)
    ultimately show ?thesis
      using Cons.IH[of ?st] Cons.prems False by simp
  qed
qed

lemma push_all_append:
  "length acc + length ks \<le> PHYSICAL_KEYBOARD_KEY_CAPACITY \<Longrightarrow> push_all acc ks = (acc @ ks, Inr ())"
  by (induction ks arbitrary: acc) (simp_all add: vec_push_def)

text \<open>The snapshot keeps the held keys in order and appends the new ones.\<close>

lemma apply_snapshot_ok:
  assumes "distinct (pk_keys st)" and down: "keys_ok down"
  shows "apply_snapshot st m down s =
    ((\<lparr>pk_modifiers = m,
       pk_keys = filter (\<lambda>k. k \<in> set down) (pk_keys st) @ filter (\<lambda>k. k \<notin> set (pk_keys st)) down\<rparr>,
      \<lparr>ks_modifiers = ks_modifiers s AND m, ks_keys = filter (\<lambda>k. k \<in> set down) (ks_keys s)\<rparr>), Inr ())"
proof -
  let ?held = "filter (\<lambda>k. k \<in> set down) (pk_keys st)"
  let ?new = "filter (\<lambda>k. k \<notin> set (pk_keys st)) down"
  let ?s1 = "foldl suppression_release_key s (filter (\<lambda>k. k \<notin> set down) (pk_keys st))"
  let ?st1 = "st\<lparr>pk_modifiers := m, pk_keys := ?held\<rparr>"
  have rel: "release_loop down 0 (pk_keys st) s = (?held, ?s1)"
    using release_loop_filter[of down "[]" "pk_keys st" s] by simp
  have new: "filter (\<lambda>k. k \<notin> set (pk_keys ?st1)) down = ?new" by (auto intro: filter_cong)
  have "distinct (?held @ ?new)" using assms by (auto simp: keys_ok_def)
  then have "keys_ok (?held @ ?new)" by (rule keys_ok_subset[OF _ _ down]) auto
  then have "press_keys ?st1 down = (?st1\<lparr>pk_keys := ?held @ ?new\<rparr>, Inr ())"
    using press_keys_append[of down ?st1] down new by (simp add: keys_ok_def)
  then have press: "press_keys ?st1 down = (\<lparr>pk_modifiers = m, pk_keys = ?held @ ?new\<rparr>, Inr ())"
    by (cases st) simp
  have "filter (\<lambda>k. k \<in> set (?held @ ?new)) (ks_keys ?s1) = filter (\<lambda>k. k \<in> set down) (ks_keys ?s1)"
    by (rule filter_cong) auto
  moreover have "filter (\<lambda>k. k \<in> set down) (ks_keys ?s1) = filter (\<lambda>k. k \<in> set down) (ks_keys s) \<and>
      ks_modifiers ?s1 = ks_modifiers s"
    by (rule foldl_release_keys) simp
  ultimately have "retain_pressed_by ?s1 \<lparr>pk_modifiers = m, pk_keys = ?held @ ?new\<rparr> =
      \<lparr>ks_modifiers = ks_modifiers s AND m, ks_keys = filter (\<lambda>k. k \<in> set down) (ks_keys s)\<rparr>"
    using retain_pressed_loop_filter[of "?held @ ?new" "[]" "ks_keys ?s1"]
    by (simp only: retain_pressed_by_def physical_keyboard_state.simps list.size append_Nil)
  then show ?thesis
    by (simp only: apply_snapshot_def rel Let_def prod.case press sum.case)
qed

lemma replace_with_frame_ok:
  "length (kf_keys_down f) \<le> PHYSICAL_KEYBOARD_KEY_CAPACITY \<Longrightarrow>
   replace_with_frame st f = (\<lparr>pk_modifiers = kf_modifiers f, pk_keys = kf_keys_down f\<rparr>, Inr ())"
  by (cases st) (simp add: replace_with_frame_def push_all_append)

lemma capture_from_ok:
  "length (pk_keys st) \<le> PHYSICAL_KEYBOARD_KEY_CAPACITY \<Longrightarrow>
   capture_from s st = (\<lparr>ks_modifiers = pk_modifiers st, ks_keys = pk_keys st\<rparr>, Inr ())"
  by (cases s) (simp add: capture_from_def push_all_append)

text \<open>The keys a host sees: held and not suppressed, in press order.\<close>

definition visible_keys :: "physical_keyboard_state \<Rightarrow> keyboard_suppression \<Rightarrow> key_usage list" where
  "visible_keys st s = filter (\<lambda>k. \<not> suppression_contains_key s k) (pk_keys st)"

lemma visible_loop_filter:
  "length (vk_keys v) + length (filter (\<lambda>k. \<not> suppression_contains_key s k) ks)
     \<le> PHYSICAL_KEYBOARD_KEY_CAPACITY \<Longrightarrow>
   visible_loop s ks v = v\<lparr>vk_keys := vk_keys v @ filter (\<lambda>k. \<not> suppression_contains_key s k) ks\<rparr>"
  by (induction ks arbitrary: v) (auto simp: vec_push_def split: if_splits)

lemma visible_against_ok:
  assumes "keys_ok (pk_keys st)"
  shows "visible_against st s =
    \<lparr>vk_modifiers = pk_modifiers st AND NOT (ks_modifiers s), vk_keys = visible_keys st s, vk_truncated = False\<rparr>"
proof -
  have "keys_ok (filter (\<lambda>k. \<not> suppression_contains_key s k) (pk_keys st))"
    using assms by (rule keys_ok_filter)
  then show ?thesis
    by (simp add: visible_against_def visible_keys_def visible_loop_filter keys_ok_def)
qed

lemma to_frame_loop_ok:
  "keys_ok (kf_keys_down f @ ks) \<Longrightarrow> to_frame_loop f ks = Inr (f\<lparr>kf_keys_down := kf_keys_down f @ ks\<rparr>)"
  by (induction ks arbitrary: f) (auto simp: push_key_def vec_push_def keys_ok_def)

lemma to_frame_ok:
  "keys_ok (pk_keys st) \<Longrightarrow> to_frame st = Inr \<lparr>kf_modifiers = pk_modifiers st, kf_keys_down = pk_keys st\<rparr>"
  by (simp add: to_frame_def to_frame_loop_ok keyboard_frame_new_def)

lemma suppress_loop_drop:
  "distinct ks \<Longrightarrow>
   new = drop (limit - visible) (filter (\<lambda>k. \<not> suppression_contains_key s k) ks) \<Longrightarrow>
   length (ks_keys s) + length new \<le> PHYSICAL_KEYBOARD_KEY_CAPACITY \<Longrightarrow>
   suppress_loop limit ks visible added s = (s\<lparr>ks_keys := ks_keys s @ new\<rparr>, Inr (added + length new))"
proof (induction ks arbitrary: visible added s new)
  case Nil
  then show ?case by simp
next
  case (Cons k ks)
  consider (supp) "suppression_contains_key s k"
    | (vis) "\<not> suppression_contains_key s k" "visible < limit"
    | (over) "\<not> suppression_contains_key s k" "limit \<le> visible" by linarith
  then show ?case
  proof cases
    case supp
    then show ?thesis using Cons by simp
  next
    case vis
    then have "new = drop (limit - (visible + 1)) (filter (\<lambda>k. \<not> suppression_contains_key s k) ks)"
      using Cons.prems(2) by (simp add: drop_Cons' diff_Suc)
    then show ?thesis using vis Cons by simp
  next
    case over
    let ?s = "s\<lparr>ks_keys := ks_keys s @ [k]\<rparr>"
    have "filter (\<lambda>j. \<not> suppression_contains_key ?s j) ks = filter (\<lambda>j. \<not> suppression_contains_key s j) ks"
      using Cons.prems(1) by (auto simp: suppression_contains_key_def intro!: filter_cong)
    then show ?thesis
      using over Cons.prems Cons.IH[of "tl new" visible ?s "added + 1"]
      by (simp add: vec_push_def)
  qed
qed

end
