(* ===== verification/HS_Reports.thy ===== *)
theory HS_Reports
  imports HS_Keyboard
begin

unbundle bit_operations_syntax

text \<open>
  Mouse, consumer and LED state (\<open>src/input/mouse.rs\<close>, \<open>consumer.rs\<close>, \<open>leds.rs\<close>) and the
  HID reports built from the input state (\<open>src/reports/\<close>): the eight byte six-key
  keyboard report, the seven byte mouse report with little-endian axes and its three byte
  boot form, the two byte consumer report, and the keyboard LED output report.
\<close>

section \<open>Mouse and consumer state\<close>

type_synonym mouse_buttons = u8

datatype mouse_button = Left | Right | Middle | Back | Forward

fun mouse_button_mask :: "mouse_button \<Rightarrow> u8" where
  "mouse_button_mask Left = 1"
| "mouse_button_mask Right = 2"
| "mouse_button_mask Middle = 4"
| "mouse_button_mask Back = 8"
| "mouse_button_mask Forward = 16"

definition buttons_from_bits_truncate :: "u8 \<Rightarrow> mouse_buttons" where
  "buttons_from_bits_truncate bits = bits AND 0x1f"

definition buttons_contains :: "mouse_buttons \<Rightarrow> mouse_button \<Rightarrow> bool" where
  "buttons_contains b m = (b AND mouse_button_mask m \<noteq> 0)"

definition buttons_without :: "mouse_buttons \<Rightarrow> mouse_buttons \<Rightarrow> mouse_buttons" where
  "buttons_without b suppressed = b AND NOT suppressed"

definition buttons_intersection :: "mouse_buttons \<Rightarrow> mouse_buttons \<Rightarrow> mouse_buttons" where
  "buttons_intersection a b = a AND b"

definition buttons_set :: "mouse_buttons \<Rightarrow> mouse_button \<Rightarrow> bool \<Rightarrow> mouse_buttons" where
  "buttons_set b m pressed = (if pressed then b OR mouse_button_mask m else b AND NOT (mouse_button_mask m))"

record mouse_movement =
  mm_x :: i16
  mm_y :: i16
  mm_wheel :: i8
  mm_pan :: i8

definition movement_neutral :: mouse_movement where
  "movement_neutral = \<lparr>mm_x = 0, mm_y = 0, mm_wheel = 0, mm_pan = 0\<rparr>"

record mouse_frame =
  mf_buttons :: mouse_buttons
  mf_movement :: mouse_movement

record mouse_input_report =
  mi_buttons :: mouse_buttons
  mi_x :: i16
  mi_y :: i16
  mi_wheel :: i8
  mi_pan :: i8

definition mouse_input_neutral :: mouse_input_report where
  "mouse_input_neutral = \<lparr>mi_buttons = 0, mi_x = 0, mi_y = 0, mi_wheel = 0, mi_pan = 0\<rparr>"

record physical_mouse_state =
  pm_buttons :: mouse_buttons

definition physical_mouse_new :: physical_mouse_state where
  "physical_mouse_new = \<lparr>pm_buttons = 0\<rparr>"

definition mouse_apply_frame :: "physical_mouse_state \<Rightarrow> mouse_frame \<Rightarrow> physical_mouse_state" where
  "mouse_apply_frame st f = st\<lparr>pm_buttons := mf_buttons f\<rparr>"

type_synonym consumer_usage = u16

record consumer_frame =
  cf_active :: "consumer_usage option"

record consumer_state =
  cs_active :: "consumer_usage option"

definition consumer_state_new :: consumer_state where
  "consumer_state_new = \<lparr>cs_active = None\<rparr>"

definition consumer_apply_frame :: "consumer_state \<Rightarrow> consumer_frame \<Rightarrow> consumer_state" where
  "consumer_apply_frame st f = st\<lparr>cs_active := cf_active f\<rparr>"

text \<open>Keyboard LEDs are three flag bits; \<open>from_bits_truncate\<close> keeps exactly those.\<close>

type_synonym keyboard_led_state = u8

definition leds_from_bits_truncate :: "u8 \<Rightarrow> keyboard_led_state" where
  "leds_from_bits_truncate bits = bits AND 7"

section \<open>Keyboard report\<close>

definition KEYBOARD_REPORT_LEN :: nat where "KEYBOARD_REPORT_LEN = 8"
definition KEYBOARD_6KRO_KEY_CAPACITY :: nat where "KEYBOARD_6KRO_KEY_CAPACITY = 6"

type_synonym keyboard_report = bytes
type_synonym mouse_report = bytes
type_synonym consumer_report = bytes

record keyboard_report_build =
  kb_report :: keyboard_report
  kb_truncated :: bool

definition keyboard_report_release :: keyboard_report where
  "keyboard_report_release = replicate KEYBOARD_REPORT_LEN 0"

fun visible_report_loop :: "nat \<Rightarrow> key_usage list \<Rightarrow> bytes \<Rightarrow> bool \<Rightarrow> bytes \<times> bool" where
  "visible_report_loop index [] bs truncated = (bs, truncated)"
| "visible_report_loop index (k # ks) bs truncated =
     (if index < KEYBOARD_6KRO_KEY_CAPACITY
      then visible_report_loop (index + 1) ks (bs[2 + index := k]) truncated
      else visible_report_loop (index + 1) ks bs True)"

definition from_visible_state :: "visible_keyboard_state \<Rightarrow> keyboard_report_build" where
  "from_visible_state v =
     (let bs = (replicate KEYBOARD_REPORT_LEN 0)[0 := vk_modifiers v];
          (bs', truncated) = visible_report_loop 0 (vk_keys v) bs (vk_truncated v)
      in \<lparr>kb_report = bs', kb_truncated = truncated\<rparr>)"

fun physical_report_loop :: "keyboard_suppression \<Rightarrow> key_usage list \<Rightarrow> nat \<Rightarrow> bytes \<Rightarrow> bytes \<times> nat" where
  "physical_report_loop s [] visible bs = (bs, visible)"
| "physical_report_loop s (k # ks) visible bs =
     (if suppression_contains_key s k then physical_report_loop s ks visible bs
      else physical_report_loop s ks (visible + 1)
             (if visible < KEYBOARD_6KRO_KEY_CAPACITY then bs[2 + visible := k] else bs))"

definition from_physical_state :: "physical_keyboard_state \<Rightarrow> keyboard_suppression \<Rightarrow> keyboard_report_build" where
  "from_physical_state st s =
     (let bs = (replicate KEYBOARD_REPORT_LEN 0)[0 := pk_modifiers st AND NOT (ks_modifiers s)];
          (bs', visible) = physical_report_loop s (pk_keys st) 0 bs
      in \<lparr>kb_report = bs', kb_truncated = (visible > KEYBOARD_6KRO_KEY_CAPACITY)\<rparr>)"

section \<open>Mouse, consumer and LED reports\<close>

definition MOUSE_REPORT_LEN :: nat where "MOUSE_REPORT_LEN = 7"
definition CONSUMER_REPORT_LEN :: nat where "CONSUMER_REPORT_LEN = 2"

definition mouse_report_from_mouse :: "mouse_input_report \<Rightarrow> mouse_report" where
  "mouse_report_from_mouse r =
     (let x = to_le 2 (mi_x r); y = to_le 2 (mi_y r)
      in [mi_buttons r, x ! 0, x ! 1, y ! 0, y ! 1, mi_wheel r, mi_pan r])"

definition mouse_report_from_frame :: "mouse_buttons \<Rightarrow> mouse_movement \<Rightarrow> mouse_report" where
  "mouse_report_from_frame buttons m =
     (let x = to_le 2 (mm_x m); y = to_le 2 (mm_y m)
      in [buttons, x ! 0, x ! 1, y ! 0, y ! 1, mm_wheel m, mm_pan m])"

definition mouse_report_release_buttons :: mouse_report where
  "mouse_report_release_buttons = replicate MOUSE_REPORT_LEN 0"

definition mouse_report_buttons :: "mouse_report \<Rightarrow> u8" where
  "mouse_report_buttons r = r ! 0"

definition mouse_report_movement :: "mouse_report \<Rightarrow> mouse_movement" where
  "mouse_report_movement r =
     \<lparr>mm_x = from_le [r ! 1, r ! 2], mm_y = from_le [r ! 3, r ! 4], mm_wheel = r ! 5, mm_pan = r ! 6\<rparr>"

definition clamp_i16_to_i8 :: "i16 \<Rightarrow> i8" where
  "clamp_i16_to_i8 v = (if sint v > 127 then 127 else if sint v < - 128 then - 128 else ucast v)"

definition mouse_report_boot_bytes :: "mouse_report \<Rightarrow> bytes" where
  "mouse_report_boot_bytes r =
     (let m = mouse_report_movement r
      in [mouse_report_buttons r, clamp_i16_to_i8 (mm_x m), clamp_i16_to_i8 (mm_y m)])"

definition consumer_report_from_usage :: "consumer_usage \<Rightarrow> consumer_report" where
  "consumer_report_from_usage u = to_le 2 u"

definition consumer_report_release :: consumer_report where
  "consumer_report_release = replicate CONSUMER_REPORT_LEN 0"

datatype ble_keyboard_output_error = InvalidOutputLength

definition led_output_from_bytes :: "bytes \<Rightarrow> ble_keyboard_output_error + keyboard_led_state" where
  "led_output_from_bytes bs =
     (case bs of [bits] \<Rightarrow> Inr (leds_from_bits_truncate (bits AND (1 OR 2 OR 4)))
      | _ \<Rightarrow> Inl InvalidOutputLength)"

section \<open>Report sum types\<close>

datatype report_kind = RkKeyboard | RkMouse | RkConsumer | RkKeyboardOutput

datatype standard_hid_report =
    KeyboardReport keyboard_report
  | MouseReport mouse_report
  | ConsumerReport consumer_report

fun report_kind_of :: "standard_hid_report \<Rightarrow> report_kind" where
  "report_kind_of (KeyboardReport _) = RkKeyboard"
| "report_kind_of (MouseReport _) = RkMouse"
| "report_kind_of (ConsumerReport _) = RkConsumer"

fun has_activity :: "standard_hid_report \<Rightarrow> bool" where
  "has_activity (KeyboardReport r) = list_ex (\<lambda>b. b \<noteq> 0) r"
| "has_activity (MouseReport r) = list_ex (\<lambda>b. b \<noteq> 0) r"
| "has_activity (ConsumerReport r) = list_ex (\<lambda>b. b \<noteq> 0) r"

section \<open>What the report loops compute\<close>

text \<open>The report a list of visible keys should give: modifiers, reserved byte, six key slots.\<close>

definition kro_image :: "modifier_state \<Rightarrow> key_usage list \<Rightarrow> bytes" where
  "kro_image m ks = [m, 0] @ take 6 ks @ replicate (6 - length ks) 0"

lemma length_kro_image [simp]: "length (kro_image m ks) = 8"
  by (simp add: kro_image_def min_def)

lemma kro_image_snoc:
  "length ks < 6 \<Longrightarrow> (kro_image m ks)[2 + length ks := k] = kro_image m (ks @ [k])"
proof -
  assume "length ks < 6"
  then obtain r where r: "6 - length ks = Suc r" by (metis Suc_diff_Suc)
  then have "6 - length (ks @ [k]) = r" by simp
  then show ?thesis
    using \<open>length ks < 6\<close> r by (simp add: kro_image_def list_update_append)
qed

lemma kro_image_full: "6 \<le> length ks \<Longrightarrow> kro_image m (ks @ ls) = kro_image m ks"
  by (simp add: kro_image_def)

lemma kro_image_Nil: "(replicate KEYBOARD_REPORT_LEN 0)[0 := m] = kro_image m []"
  by (simp add: kro_image_def KEYBOARD_REPORT_LEN_def numeral_eq_Suc)

lemma physical_report_loop_eq:
  "physical_report_loop s ks (length acc) (kro_image m acc) =
     (let vis = filter (\<lambda>k. \<not> suppression_contains_key s k) ks
      in (kro_image m (acc @ vis), length acc + length vis))"
proof (induction ks arbitrary: acc)
  case Nil
  then show ?case by simp
next
  case (Cons k ks)
  show ?case
  proof (cases "length acc < 6")
    case True
    then show ?thesis
      using Cons.IH[of acc] Cons.IH[of "acc @ [k]"]
      by (simp add: Let_def KEYBOARD_6KRO_KEY_CAPACITY_def kro_image_snoc[simplified])
  next
    case False
    then show ?thesis
      using Cons.IH[of acc] Cons.IH[of "acc @ [k]"]
      by (simp add: Let_def KEYBOARD_6KRO_KEY_CAPACITY_def kro_image_full)
  qed
qed

lemma visible_report_loop_eq:
  "visible_report_loop (length acc) ks (kro_image m acc) t =
     (kro_image m (acc @ ks), t \<or> (ks \<noteq> [] \<and> 6 < length acc + length ks))"
proof (induction ks arbitrary: acc t)
  case Nil
  then show ?case by simp
next
  case (Cons k ks)
  show ?case
  proof (cases "length acc < 6")
    case True
    then show ?thesis
      using Cons.IH[of "acc @ [k]"] by (auto simp: KEYBOARD_6KRO_KEY_CAPACITY_def kro_image_snoc[simplified])
  next
    case False
    then show ?thesis
      using Cons.IH[of "acc @ [k]"] by (auto simp: KEYBOARD_6KRO_KEY_CAPACITY_def kro_image_full)
  qed
qed

lemma from_physical_state_eq:
  "from_physical_state st s =
     \<lparr>kb_report = kro_image (pk_modifiers st AND NOT (ks_modifiers s)) (visible_keys st s),
      kb_truncated = (6 < length (visible_keys st s))\<rparr>"
  using physical_report_loop_eq[of s "pk_keys st" "[]"]
  by (simp add: from_physical_state_def kro_image_Nil Let_def visible_keys_def KEYBOARD_6KRO_KEY_CAPACITY_def)

lemma from_visible_state_eq:
  "from_visible_state v =
     \<lparr>kb_report = kro_image (vk_modifiers v) (vk_keys v),
      kb_truncated = (vk_truncated v \<or> 6 < length (vk_keys v))\<rparr>"
  using visible_report_loop_eq[of "[]" "vk_keys v"]
  by (auto simp: from_visible_state_def kro_image_Nil Let_def)

lemma le2_bytes: "[to_le 2 (w :: u16) ! 0, to_le 2 w ! 1] = to_le 2 w"
  by (simp add: numeral_2_eq_2)

lemma from_le_le2: "from_le [to_le 2 (w :: u16) ! 0, to_le 2 w ! 1] = w"
  unfolding le2_bytes by (rule from_le_to_le) simp

lemma mouse_report_decode:
  "mouse_report_movement (mouse_report_from_frame b m) = m"
  "mouse_report_buttons (mouse_report_from_frame b m) = b"
  "length (mouse_report_from_frame b m) = MOUSE_REPORT_LEN"
  using from_le_le2[of "mm_x m"] from_le_le2[of "mm_y m"]
  by (cases m;
      simp add: mouse_report_movement_def mouse_report_from_frame_def mouse_report_buttons_def
        MOUSE_REPORT_LEN_def Let_def del: from_le.simps)+

lemma ucast_scast_narrow: "(ucast (v :: i16) :: i8) = scast v"
  by (rule bit_word_eqI) (simp add: bit_simps)

section \<open>The six-key window\<close>

lemma suppress_visible_after_ok:
  assumes "keys_ok (pk_keys st)" and "distinct (ks_keys s)" and "set (ks_keys s) \<subseteq> set (pk_keys st)"
  shows "suppress_visible_after s st limit =
    (s\<lparr>ks_keys := ks_keys s @ drop limit (visible_keys st s)\<rparr>, Inr (length (drop limit (visible_keys st s))))"
proof -
  let ?new = "drop limit (visible_keys st s)"
  have "set ?new \<subseteq> set (visible_keys st s)" by (rule set_drop_subset)
  then have sub: "set ?new \<subseteq> set (pk_keys st) - set (ks_keys s)"
    by (auto simp: visible_keys_def suppression_contains_key_def)
  have "distinct (ks_keys s @ ?new)"
    using assms sub by (auto simp: visible_keys_def keys_ok_def)
  then have "keys_ok (ks_keys s @ ?new)"
    using assms(1,3) sub by (intro keys_ok_subset[OF _ _ assms(1)]) auto
  then show ?thesis
    using suppress_loop_drop[of "pk_keys st" ?new limit 0 s 0] assms(1)
    by (simp add: suppress_visible_after_def visible_keys_def keys_ok_def)
qed

lemma visible_keys_after_suppress:
  assumes "distinct (pk_keys st)"
  shows "visible_keys st (s\<lparr>ks_keys := ks_keys s @ drop n (visible_keys st s)\<rparr>) = take n (visible_keys st s)"
proof -
  let ?v = "visible_keys st s"
  have dis: "distinct ?v" using assms by (simp add: visible_keys_def)
  have "visible_keys st (s\<lparr>ks_keys := ks_keys s @ drop n ?v\<rparr>) = filter (\<lambda>k. k \<notin> set (drop n ?v)) ?v"
    by (simp add: visible_keys_def suppression_contains_key_def conj_commute)
  also have "\<dots> = filter (\<lambda>k. k \<notin> set (drop n ?v)) (take n ?v @ drop n ?v)" by simp
  also have "\<dots> = filter (\<lambda>k. k \<notin> set (drop n ?v)) (take n ?v)"
    unfolding filter_append by (simp add: filter_empty_conv)
  also have "\<dots> = take n ?v"
    using dis set_take_disj_set_drop_if_distinct[of ?v n n] by (auto simp: filter_id_conv)
  finally show ?thesis .
qed

lemma keyboard_apply_state_ok:
  assumes "keys_ok (pk_keys st)" and "keys_ok (pk_keys agg)" and "distinct (ks_keys s)"
    and "keyboard_apply_state st agg s = ((st1, s1), r1)"
  shows "r1 = Inr ()" and "pk_modifiers st1 = pk_modifiers agg" and "set (pk_keys st1) = set (pk_keys agg)"
    and "keys_ok (pk_keys st1)" and "distinct (ks_keys s1)" and "set (ks_keys s1) \<subseteq> set (pk_keys st1)"
    and "ks_modifiers s1 = ks_modifiers s AND pk_modifiers agg"
    and "visible_keys st1 s1 =
      filter (\<lambda>k. k \<in> set (pk_keys agg)) (visible_keys st s) @
      filter (\<lambda>k. k \<notin> set (pk_keys st) \<and> \<not> suppression_contains_key s k) (pk_keys agg)"
    and "set (ks_keys s1) = set (ks_keys s) \<inter> set (pk_keys agg)"
proof -
  have d: "distinct (pk_keys st)" using assms(1) by (simp add: keys_ok_def)
  note eq = assms(4)[unfolded keyboard_apply_state_def apply_snapshot_ok[OF d assms(2)]]
  then have st1: "st1 = \<lparr>pk_modifiers = pk_modifiers agg, pk_keys = filter (\<lambda>k. k \<in> set (pk_keys agg)) (pk_keys st) @
      filter (\<lambda>k. k \<notin> set (pk_keys st)) (pk_keys agg)\<rparr>"
    and s1: "s1 = \<lparr>ks_modifiers = ks_modifiers s AND pk_modifiers agg, ks_keys = filter (\<lambda>k. k \<in> set (pk_keys agg)) (ks_keys s)\<rparr>"
    and r1: "r1 = Inr ()" by simp_all
  show "r1 = Inr ()" "pk_modifiers st1 = pk_modifiers agg" "ks_modifiers s1 = ks_modifiers s AND pk_modifiers agg"
    by (simp_all add: r1 st1 s1)
  show set: "set (pk_keys st1) = set (pk_keys agg)" by (auto simp: st1)
  have "distinct (pk_keys st1)" using d assms(2) by (auto simp: st1 keys_ok_def)
  then show "keys_ok (pk_keys st1)" by (rule keys_ok_subset[OF _ _ assms(2)]) (simp add: set)
  show "distinct (ks_keys s1)" and "set (ks_keys s1) \<subseteq> set (pk_keys st1)"
    and "set (ks_keys s1) = set (ks_keys s) \<inter> set (pk_keys agg)"
    using assms(3) by (auto simp: s1 st1)
  show "visible_keys st1 s1 =
      filter (\<lambda>k. k \<in> set (pk_keys agg)) (visible_keys st s) @
      filter (\<lambda>k. k \<notin> set (pk_keys st) \<and> \<not> suppression_contains_key s k) (pk_keys agg)"
    unfolding visible_keys_def suppression_contains_key_def st1 s1
    by (auto simp: conj_ac intro!: arg_cong2[of _ _ _ _ append] filter_cong)
qed

section \<open>Properties\<close>

text \<open>
  C3: the report the hot path fills directly from the pressed keys and the suppression is
  the one obtained by first computing the visible state and then encoding it, the truncation
  flag included, for every well-formed key vector.
\<close>

theorem report_paths_agree:
  assumes "keys_ok (pk_keys st)"
  shows "from_visible_state (visible_against st s) = from_physical_state st s"
  using assms by (simp add: visible_against_ok from_visible_state_eq from_physical_state_eq)

theorem report_paths_agree_witness:
  "from_visible_state (visible_against \<lparr>pk_modifiers = 3, pk_keys = [4, 5, 6]\<rparr> \<lparr>ks_modifiers = 1, ks_keys = [5]\<rparr>)
     = from_physical_state \<lparr>pk_modifiers = 3, pk_keys = [4, 5, 6]\<rparr> \<lparr>ks_modifiers = 1, ks_keys = [5]\<rparr>"
  by (rule report_paths_agree) (simp add: keys_ok_def PHYSICAL_KEYBOARD_KEY_CAPACITY_def)

text \<open>
  C4: the six-key window is stable. Updating the keyboard to a new aggregate and then
  suppressing what exceeds six visible keys never fails, tracks exactly the keys the
  aggregate holds, shows at most six of them, keeps every visible key visible while it is
  held, and never reveals a held key that was suppressed.
\<close>

theorem key_window_stable:
  assumes st: "keys_ok (pk_keys st)" and agg: "keys_ok (pk_keys agg)" and s: "distinct (ks_keys s)"
    and six: "length (visible_keys st s) \<le> KEYBOARD_6KRO_KEY_CAPACITY"
    and ap: "keyboard_apply_state st agg s = ((st1, s1), r1)"
    and sup: "suppress_visible_after s1 st1 KEYBOARD_6KRO_KEY_CAPACITY = (s2, r2)"
  shows "r1 = Inr () \<and> (\<exists>n. r2 = Inr n) \<and>
    set (pk_keys st1) = set (pk_keys agg) \<and>
    length (visible_keys st1 s2) \<le> KEYBOARD_6KRO_KEY_CAPACITY \<and>
    set (visible_keys st s) \<inter> set (pk_keys agg) \<subseteq> set (visible_keys st1 s2) \<and>
    set (ks_keys s) \<inter> set (visible_keys st1 s2) = {}"
proof -
  note A = keyboard_apply_state_ok[OF st agg s ap]
  have s2: "s2 = s1\<lparr>ks_keys := ks_keys s1 @ drop 6 (visible_keys st1 s1)\<rparr>" and r2: "\<exists>n. r2 = Inr n"
    using sup suppress_visible_after_ok[OF A(4) A(5) A(6)] by (auto simp: KEYBOARD_6KRO_KEY_CAPACITY_def)
  have vis: "visible_keys st1 s2 = take 6 (visible_keys st1 s1)"
    unfolding s2 using A(4) by (intro visible_keys_after_suppress) (simp add: keys_ok_def)
  have held: "length (filter (\<lambda>k. k \<in> set (pk_keys agg)) (visible_keys st s)) \<le> 6"
    using six unfolding KEYBOARD_6KRO_KEY_CAPACITY_def by (rule le_trans[OF length_filter_le])
  have "set (visible_keys st s) \<inter> set (pk_keys agg) \<subseteq> set (visible_keys st1 s2)"
    unfolding vis A(8) using held by auto
  moreover have "set (visible_keys st1 s2) \<subseteq> set (visible_keys st1 s1)"
    unfolding vis by (rule set_take_subset)
  then have "set (ks_keys s) \<inter> set (visible_keys st1 s2) = {}"
    unfolding A(8) by (auto simp: visible_keys_def suppression_contains_key_def)
  ultimately show ?thesis
    using A(1,3) r2 vis by (simp add: KEYBOARD_6KRO_KEY_CAPACITY_def)
qed

theorem key_window_stable_witness:
  "\<exists>st1 s1 s2 r2.
     keyboard_apply_state \<lparr>pk_modifiers = 0, pk_keys = [4, 5]\<rparr> \<lparr>pk_modifiers = 0, pk_keys = [5, 6, 7, 8, 9, 10, 11]\<rparr>
       \<lparr>ks_modifiers = 0, ks_keys = [4]\<rparr> = ((st1, s1), Inr ()) \<and>
     suppress_visible_after s1 st1 KEYBOARD_6KRO_KEY_CAPACITY = (s2, r2) \<and>
     5 \<in> set (visible_keys st1 s2) \<and> length (visible_keys st1 s2) \<le> KEYBOARD_6KRO_KEY_CAPACITY"
proof -
  let ?st = "\<lparr>pk_modifiers = 0, pk_keys = [4, 5]\<rparr>"
    and ?agg = "\<lparr>pk_modifiers = 0, pk_keys = [5, 6, 7, 8, 9, 10, 11]\<rparr>"
    and ?s = "\<lparr>ks_modifiers = 0, ks_keys = [4]\<rparr>"
  obtain st1 s1 r1 where a: "keyboard_apply_state ?st ?agg ?s = ((st1, s1), r1)" by (metis prod.exhaust)
  obtain s2 r2 where b: "suppress_visible_after s1 st1 KEYBOARD_6KRO_KEY_CAPACITY = (s2, r2)"
    by (metis prod.exhaust)
  have "r1 = Inr () \<and> (\<exists>n. r2 = Inr n) \<and> set (pk_keys st1) = set (pk_keys ?agg) \<and>
    length (visible_keys st1 s2) \<le> KEYBOARD_6KRO_KEY_CAPACITY \<and>
    set (visible_keys ?st ?s) \<inter> set (pk_keys ?agg) \<subseteq> set (visible_keys st1 s2) \<and>
    set (ks_keys ?s) \<inter> set (visible_keys st1 s2) = {}"
    by (rule key_window_stable[OF _ _ _ _ a b])
      (simp_all add: keys_ok_def PHYSICAL_KEYBOARD_KEY_CAPACITY_def KEYBOARD_6KRO_KEY_CAPACITY_def
        visible_keys_def suppression_contains_key_def)
  with a b show ?thesis
    by (auto simp: visible_keys_def suppression_contains_key_def)
qed

text \<open>
  A mouse report carries its buttons and all four movement axes without loss: decoding
  the seven bytes gives back the signed values that were encoded.
\<close>

theorem mouse_report_roundtrip:
  "mouse_report_movement (mouse_report_from_frame b m) = m \<and>
   mouse_report_buttons (mouse_report_from_frame b m) = b \<and>
   length (mouse_report_from_frame b m) = MOUSE_REPORT_LEN"
  by (simp add: mouse_report_decode)

text \<open>
  The boot protocol report saturates each sixteen bit axis to the signed eight bit range
  instead of wrapping it.
\<close>

theorem boot_bytes_saturate:
  "mouse_report_boot_bytes (mouse_report_from_frame b m) =
     [b, word_of_int (clampi (- 128) 127 (sint (mm_x m))), word_of_int (clampi (- 128) 127 (sint (mm_y m)))]"
proof -
  have "clamp_i16_to_i8 v = word_of_int (clampi (- 128) 127 (sint v))" for v
    by (simp add: clamp_i16_to_i8_def clampi_def ucast_scast_narrow)
  then show ?thesis by (simp add: mouse_report_boot_bytes_def mouse_report_decode)
qed

end
