(* ===== verification/HS_Slots.thy ===== *)
theory HS_Slots
  imports HS_Prelude
begin

text \<open>
  Fixed arrays of optional entries that are searched by a key field. The input aggregator
  keeps its interfaces and the host state machine its hosts this way: a fixed number of
  \<open>Option\<close> slots, a search by \<open>position\<close>, and an insertion into the first empty slot.
  The locale \<open>slot_table\<close> states what both searches promise and proves once what both
  components rely on.
\<close>

text \<open>\<open>iter().flatten()\<close>: the occupied entries in slot order.\<close>

fun flatten :: "'a option list \<Rightarrow> 'a list" where
  "flatten [] = []"
| "flatten (None # es) = flatten es"
| "flatten (Some x # es) = x # flatten es"

lemma set_flatten [simp]: "x \<in> set (flatten es) \<longleftrightarrow> Some x \<in> set es"
  by (induction es rule: flatten.induct) auto

lemma length_flatten_le: "length (flatten es) \<le> length es"
  by (induction es rule: flatten.induct) auto

lemma flatten_replicate_None [simp]: "flatten (replicate n None) = []"
  by (induction n) auto

lemma length_flatten_insert:
  "i < length es \<Longrightarrow> es ! i = None \<Longrightarrow> length (flatten (es[i := Some x])) = Suc (length (flatten es))"
proof (induction es arbitrary: i)
  case Nil
  then show ?case by simp
next
  case (Cons e es)
  then show ?case by (cases i; cases e) auto
qed

lemma length_flatten_replace:
  "i < length es \<Longrightarrow> es ! i = Some y \<Longrightarrow> length (flatten (es[i := Some x])) = length (flatten es)"
proof (induction es arbitrary: i)
  case Nil
  then show ?case by simp
next
  case (Cons e es)
  then show ?case by (cases i; cases e) auto
qed

lemma flatten_append [simp]: "flatten (xs @ ys) = flatten xs @ flatten ys"
  by (induction xs rule: flatten.induct) auto

lemma flatten_map_Some: "flatten (map (\<lambda>x. Some (f x)) xs) = map f xs"
  by (induction xs) simp_all

definition opt_list :: "'a option \<Rightarrow> 'a list" where
  "opt_list e = (case e of None \<Rightarrow> [] | Some x \<Rightarrow> [x])"

lemma flatten_split:
  assumes "i < length es"
  shows "flatten es = flatten (take i es) @ opt_list (es ! i) @ flatten (drop (Suc i) es)"
proof -
  have "flatten es = flatten (take i es @ es ! i # drop (Suc i) es)"
    using assms by (simp add: id_take_nth_drop[symmetric])
  also have "\<dots> = flatten (take i es) @ opt_list (es ! i) @ flatten (drop (Suc i) es)"
    by (cases "es ! i") (simp_all add: opt_list_def)
  finally show ?thesis .
qed

lemma flatten_update:
  assumes "i < length es"
  shows "flatten (es[i := e]) = flatten (take i es) @ opt_list e @ flatten (drop (Suc i) es)"
  using flatten_split[of i "es[i := e]"] assms by simp

lemma nth_update_in: "j < length es \<Longrightarrow> es[i := e] ! j = (if i = j then e else es ! j)"
  by (cases "i < length es") (simp_all add: nth_list_update list_update_beyond)

lemma in_set_update_iff:
  "z \<in> set (es[i := e]) \<longleftrightarrow>
     (i < length es \<and> z = e) \<or> (\<exists>j<length es. j \<noteq> i \<and> es ! j = z)"
proof
  assume "z \<in> set (es[i := e])"
  then obtain j where "j < length es" "es[i := e] ! j = z" by (auto simp: in_set_conv_nth)
  then show "(i < length es \<and> z = e) \<or> (\<exists>j<length es. j \<noteq> i \<and> es ! j = z)"
    by (auto simp: nth_update_in split: if_splits)
next
  assume "(i < length es \<and> z = e) \<or> (\<exists>j<length es. j \<noteq> i \<and> es ! j = z)"
  then obtain j where "j < length es" "es[i := e] ! j = z" by (auto simp: nth_update_in)
  then show "z \<in> set (es[i := e])" by (auto simp: in_set_conv_nth)
qed

lemma in_set_update_other: "q \<in> set es \<Longrightarrow> q \<noteq> es ! i \<Longrightarrow> q \<in> set (es[i := e])"
  unfolding in_set_update_iff by (metis in_set_conv_nth)

lemma in_set_update_lost: "q \<in> set es \<Longrightarrow> q \<notin> set (es[i := e]) \<Longrightarrow> q = es ! i"
  using in_set_update_other by metis

text \<open>No two occupied slots carry the same key.\<close>

definition unique_keys :: "('e \<Rightarrow> 'k) \<Rightarrow> 'e option list \<Rightarrow> bool" where
  "unique_keys key es = distinct (map key (flatten es))"

lemma unique_keys_iff:
  "unique_keys key es \<longleftrightarrow>
     (\<forall>i<length es. \<forall>j<length es. \<forall>x y. es ! i = Some x \<longrightarrow> es ! j = Some y \<longrightarrow> key x = key y \<longrightarrow> i = j)"
proof (induction es)
  case Nil
  then show ?case by (simp add: unique_keys_def)
next
  case (Cons e es)
  show ?case
  proof (cases e)
    case None
    then show ?thesis
      using Cons.IH by (simp add: unique_keys_def All_less_Suc2)
  next
    case (Some x)
    have *: "key x \<notin> key ` set (flatten es) \<longleftrightarrow> (\<forall>j<length es. \<forall>y. es ! j = Some y \<longrightarrow> key x \<noteq> key y)"
      (is "?l \<longleftrightarrow> ?r")
    proof
      assume ?l
      then show ?r by (metis image_eqI nth_mem set_flatten)
    next
      assume ?r
      then show ?l unfolding image_iff set_flatten Bex_def in_set_conv_nth [of "Some _"] by blast
    qed
    show ?thesis
      using Cons.IH unfolding Some unique_keys_def All_less_Suc2 list.size flatten.simps list.map
        distinct.simps set_map *
      by (simp add: All_less_Suc2) (rule iffI; elim conjE; intro conjI allI impI; force)
  qed
qed

lemma unique_keysD:
  "unique_keys key es \<Longrightarrow> Some x \<in> set es \<Longrightarrow> Some y \<in> set es \<Longrightarrow> key x = key y \<Longrightarrow> x = y"
proof -
  assume u: "unique_keys key es" and k: "key x = key y"
  assume "Some x \<in> set es" and "Some y \<in> set es"
  then obtain i j where "i < length es" "es ! i = Some x" "j < length es" "es ! j = Some y"
    by (auto simp: in_set_conv_nth)
  moreover from this have "i = j" using u k unfolding unique_keys_iff by blast
  ultimately show "x = y" by simp
qed

lemma unique_keys_replicate [simp]: "unique_keys key (replicate n None)"
  by (simp add: unique_keys_def)

lemma unique_keys_remove: "unique_keys key es \<Longrightarrow> unique_keys key (es[i := None])"
  unfolding unique_keys_iff by (auto simp: nth_update_in split: if_splits)

text \<open>What a search returns, as the entry rather than its position.\<close>

definition slot_get :: "('e option list \<Rightarrow> 'k \<Rightarrow> nat option) \<Rightarrow> 'e option list \<Rightarrow> 'k \<Rightarrow> 'e option" where
  "slot_get index es k = (case index es k of None \<Rightarrow> None | Some i \<Rightarrow> es ! i)"

locale slot_table =
  fixes key :: "'e \<Rightarrow> 'k"
    and index :: "'e option list \<Rightarrow> 'k \<Rightarrow> nat option"
  assumes index_position:
    "index es k = position (\<lambda>e. case e of None \<Rightarrow> False | Some x \<Rightarrow> key x = k) es"
begin

lemma index_SomeE:
  assumes "index es k = Some i"
  obtains x where "i < length es" and "es ! i = Some x" and "key x = k"
proof -
  have pos: "position (\<lambda>e. case e of None \<Rightarrow> False | Some x \<Rightarrow> key x = k) es = Some i"
    using assms unfolding index_position .
  show thesis
    using position_SomeD(1,2)[OF pos] by (auto split: option.splits intro: that)
qed

lemma index_None_iff: "index es k = None \<longleftrightarrow> (\<forall>x. Some x \<in> set es \<longrightarrow> key x \<noteq> k)"
  unfolding index_position position_None_iff by (auto split: option.splits)

lemma get_SomeD: "slot_get index es k = Some x \<Longrightarrow> Some x \<in> set es \<and> key x = k"
  unfolding slot_get_def by (auto split: option.splits elim!: index_SomeE intro: nth_mem simp: in_set_conv_nth)

lemma get_None_iff: "slot_get index es k = None \<longleftrightarrow> (\<forall>x. Some x \<in> set es \<longrightarrow> key x \<noteq> k)"
  using index_None_iff[of es k]
  by (auto simp: slot_get_def in_set_conv_nth split: option.splits elim!: index_SomeE)

lemma get_Some_iff:
  assumes "unique_keys key es"
  shows "slot_get index es k = Some x \<longleftrightarrow> Some x \<in> set es \<and> key x = k"
  using get_SomeD[of es k] get_None_iff[of es k] unique_keysD[OF assms]
  by (cases "slot_get index es k") auto

lemma replace_unique:
  assumes "unique_keys key es" and "index es k = Some i" and "key y = k"
  shows "unique_keys key (es[i := Some y])"
  using assms(2)
proof (rule index_SomeE)
  fix x
  assume "i < length es" "es ! i = Some x" "key x = k"
  then show ?thesis
    using assms(1,3) unfolding unique_keys_iff
    by (auto simp: nth_update_in split: if_splits)
qed

lemma insert_unique:
  assumes "unique_keys key es" and "index es k = None" and "key y = k"
  shows "unique_keys key (es[i := Some y])"
  unfolding unique_keys_iff
proof (intro allI impI)
  fix a b u v
  assume *: "a < length (es[i := Some y])" "b < length (es[i := Some y])"
    "es[i := Some y] ! a = Some u" "es[i := Some y] ! b = Some v" "key u = key v"
  have none: "es ! c \<noteq> Some w" if "c < length es" "key w = k" for c w
    using assms(2) that unfolding index_None_iff by (metis nth_mem)
  show "a = b"
    using * none assms(1,3) unfolding unique_keys_iff
    by (auto simp: nth_update_in split: if_splits)
qed

lemma get_update_same:
  assumes "unique_keys key (es[i := Some y])" and "i < length es"
  shows "slot_get index (es[i := Some y]) (key y) = Some y"
  using assms get_Some_iff[OF assms(1)] by (auto simp: set_update_memI)

lemma get_update_other:
  assumes "unique_keys key es" and "unique_keys key (es[i := Some y])"
    and "i < length es" and "es ! i = None \<or> (\<exists>x. es ! i = Some x \<and> key x = key y)"
    and "k \<noteq> key y"
  shows "slot_get index (es[i := Some y]) k = slot_get index es k"
proof -
  have "Some x \<in> set (es[i := Some y]) \<longleftrightarrow> Some x \<in> set es" if "key x = k" for x
    using assms(3-5) that unfolding in_set_update_iff by (metis in_set_conv_nth option.distinct(1) option.inject)
  then have "slot_get index (es[i := Some y]) k = Some x \<longleftrightarrow> slot_get index es k = Some x" for x
    using get_Some_iff[OF assms(1)] get_Some_iff[OF assms(2)] by metis
  then show ?thesis by (metis not_Some_eq)
qed

lemma mem_remove:
  assumes "unique_keys key es" and "index es k = Some i"
  shows "Some z \<in> set (es[i := None]) \<longleftrightarrow> Some z \<in> set es \<and> key z \<noteq> k"
  using assms(2)
proof (rule index_SomeE)
  fix x
  assume x: "i < length es" "es ! i = Some x" "key x = k"
  show ?thesis
  proof
    assume "Some z \<in> set (es[i := None])"
    then obtain j where j: "j < length es" "j \<noteq> i" "es ! j = Some z"
      unfolding in_set_update_iff by auto
    then have "key z \<noteq> k" using assms(1) x unfolding unique_keys_iff by blast
    with j show "Some z \<in> set es \<and> key z \<noteq> k" by (metis nth_mem)
  next
    assume "Some z \<in> set es \<and> key z \<noteq> k"
    then show "Some z \<in> set (es[i := None])"
      using x unfolding in_set_update_iff by (metis in_set_conv_nth option.inject)
  qed
qed

lemma get_remove:
  assumes "unique_keys key es" and "index es k = Some i"
  shows "slot_get index (es[i := None]) k' = (if k' = k then None else slot_get index es k')"
proof -
  have u: "unique_keys key (es[i := None])" using assms(1) by (rule unique_keys_remove)
  have "slot_get index (es[i := None]) k' = Some z \<longleftrightarrow>
      (if k' = k then None else slot_get index es k') = Some z" for z
    using get_Some_iff[OF assms(1)] get_Some_iff[OF u] mem_remove[OF assms] by auto
  then show ?thesis by (metis not_Some_eq)
qed

end

end
