(* ===== verification/HS_Checksum.thy ===== *)
theory HS_Checksum
  imports HS_Prelude
begin

unbundle bit_operations_syntax

text \<open>
  Identifiers (\<open>src/ids.rs\<close>) and checksums (\<open>src/checksum.rs\<close>).

  A host identifier is a byte of which only the values 1 to 4 name a slot. The two
  checksums are computed bit by bit as in the source. The lemmas show that the streaming
  CRC-32 agrees with the one-shot one however the input is cut into chunks, and that the
  register update is injective, so that a corruption confined to one byte never goes
  unnoticed.
\<close>

section \<open>Identifiers\<close>

type_synonym host_id = u8
type_synonym host_slot = u8
type_synonym device_id = u8
type_synonym interface_id = u8
type_synonym report_id = u8

definition HOST_SLOT_MIN :: u8 where "HOST_SLOT_MIN = 1"
definition HOST_SLOT_MAX :: u8 where "HOST_SLOT_MAX = 4"
definition HOST_SLOT_COUNT :: nat where "HOST_SLOT_COUNT = unat (HOST_SLOT_MAX - HOST_SLOT_MIN + 1)"

lemma HOST_SLOT_COUNT_eq [simp]: "HOST_SLOT_COUNT = 4"
  by (simp add: HOST_SLOT_COUNT_def HOST_SLOT_MAX_def HOST_SLOT_MIN_def)

text \<open>\<open>HostSlot::try_from\<close> and \<open>HostId::validated\<close>; the error carries the rejected byte.\<close>

definition host_slot_try_from :: "u8 \<Rightarrow> u8 + host_slot" where
  "host_slot_try_from value =
     (if HOST_SLOT_MIN \<le> value \<and> value \<le> HOST_SLOT_MAX then Inr value else Inl value)"

definition host_id_validated :: "host_id \<Rightarrow> u8 + host_slot" where
  "host_id_validated h = host_slot_try_from h"

lemma host_id_validated_simps:
  "host_id_validated h = (if 1 \<le> h \<and> h \<le> 4 then Inr h else Inl h)"
  by (simp add: host_id_validated_def host_slot_try_from_def HOST_SLOT_MIN_def HOST_SLOT_MAX_def)

lemma valid_host_cases: "(1 :: u8) \<le> h \<and> h \<le> 4 \<longleftrightarrow> h \<in> {1, 2, 3, 4}"
  by (auto simp: word_le_nat_alt word_unat_eq_iff)

section \<open>CRC-16/CCITT-FALSE\<close>

definition crc16_bit :: "u16 \<Rightarrow> u16" where
  "crc16_bit crc = (if crc AND 0x8000 \<noteq> 0 then push_bit 1 crc XOR 0x1021 else push_bit 1 crc)"

definition crc16_byte :: "u16 \<Rightarrow> u8 \<Rightarrow> u16" where
  "crc16_byte crc byte = (crc16_bit ^^ 8) (crc XOR push_bit 8 (ucast byte))"

definition crc16_ccitt_false :: "bytes \<Rightarrow> u16" where
  "crc16_ccitt_false bs = foldl crc16_byte 0xffff bs"

section \<open>CRC-32\<close>

text \<open>One shift of the register; the conditional xor is branchless in the source.\<close>

definition crc32_bit :: "u32 \<Rightarrow> u32" where
  "crc32_bit s = (let mask = - (s AND 1) in drop_bit 1 s XOR (0xedb88320 AND mask))"

definition crc32_byte :: "u32 \<Rightarrow> u8 \<Rightarrow> u32" where
  "crc32_byte s byte = (crc32_bit ^^ 8) (s XOR ucast byte)"

definition crc32_new :: u32 where
  "crc32_new = 0xffffffff"

definition crc32_update :: "u32 \<Rightarrow> bytes \<Rightarrow> u32" where
  "crc32_update s bs = foldl crc32_byte s bs"

definition crc32_finalize :: "u32 \<Rightarrow> u32" where
  "crc32_finalize s = NOT s"

definition crc32_ieee :: "bytes \<Rightarrow> u32" where
  "crc32_ieee bs = crc32_finalize (crc32_update crc32_new bs)"

lemma crc32_update_append [simp]:
  "crc32_update s (xs @ ys) = crc32_update (crc32_update s xs) ys"
  by (simp add: crc32_update_def)

lemma crc32_update_Nil [simp]: "crc32_update s [] = s"
  by (simp add: crc32_update_def)

lemma crc32_update_Cons [simp]: "crc32_update s (b # bs) = crc32_update (crc32_byte s b) bs"
  by (simp add: crc32_update_def)

lemma crc32_finalize_inject [simp]: "crc32_finalize a = crc32_finalize b \<longleftrightarrow> a = b"
  by (auto simp: crc32_finalize_def dest: arg_cong[of _ _ "\<lambda>x. NOT x"])

text \<open>The masked xor is the textbook conditional one.\<close>

lemma crc32_bit_cond: "crc32_bit s = drop_bit 1 s XOR (if bit s 0 then 0xedb88320 else 0)"
proof (cases "bit s 0")
  case True
  then have "s AND 1 = 1" by (simp add: bit_0 and_one_eq odd_iff_mod_2_eq_one)
  with True show ?thesis by (simp add: crc32_bit_def)
next
  case False
  then have "s AND 1 = 0" by (simp add: bit_0 and_one_eq even_iff_mod_2_eq_zero)
  with False show ?thesis by (simp add: crc32_bit_def)
qed

lemma crc32_bit_top: "bit (crc32_bit s) 31 \<longleftrightarrow> bit s 0"
proof -
  have "\<not> bit (drop_bit 1 s) 31" by (auto simp: bit_drop_bit_eq dest: bit_imp_le_length)
  moreover have "bit (0xedb88320 :: u32) 31" by simp
  ultimately show ?thesis by (simp add: crc32_bit_cond bit_xor_iff)
qed

lemma inj_crc32_bit: "inj crc32_bit"
proof (rule injI)
  fix s t
  assume eq: "crc32_bit s = crc32_bit t"
  then have b0: "bit s 0 = bit t 0" by (metis crc32_bit_top)
  with eq have "drop_bit 1 s = drop_bit 1 t"
    by (simp add: crc32_bit_cond xor_cancel_right split: if_splits)
  then have "bit s n = bit t n" for n
    using b0 bit_drop_bit_eq[of 1 s] bit_drop_bit_eq[of 1 t] by (cases n) (simp_all add: fun_eq_iff)
  then show "s = t" by (simp add: bit_eq_iff)
qed

lemma inj_funpow: "inj f \<Longrightarrow> inj (f ^^ n)" for f :: "'a \<Rightarrow> 'a"
  by (induction n) (auto simp: inj_compose)

text \<open>
  What both checksums rest on: a register that takes in one byte at a time, each step injective
  in the register and in the byte. Then no change confined to one byte goes unnoticed.
\<close>

locale byte_register =
  fixes absorb :: "'s \<Rightarrow> u8 \<Rightarrow> 's"
  assumes state_inject: "absorb s b = absorb t b \<longleftrightarrow> s = t"
    and data_inject: "absorb s a = absorb s b \<longleftrightarrow> a = b"
begin

lemma fold_state_inject: "foldl absorb s bs = foldl absorb t bs \<longleftrightarrow> s = t"
  by (induction bs arbitrary: s t) (simp_all add: state_inject)

lemma single_byte:
  assumes "i < length bs" and "c \<noteq> bs ! i"
  shows "foldl absorb s (bs[i := c]) \<noteq> foldl absorb s bs"
proof -
  let ?pre = "take i bs" and ?post = "drop (Suc i) bs"
  have bs: "bs = ?pre @ bs ! i # ?post" using assms(1) by (simp add: id_take_nth_drop)
  have upd: "bs[i := c] = ?pre @ c # ?post" using assms(1) by (simp add: upd_conv_take_nth_drop)
  show ?thesis
    unfolding upd by (subst bs) (use assms(2) in \<open>simp add: fold_state_inject data_inject\<close>)
qed

end

interpretation crc32: byte_register crc32_byte
  unfolding crc32_byte_def
  by unfold_locales
    (simp_all add: inj_eq[OF inj_funpow[OF inj_crc32_bit]] xor_cancel_right xor_cancel_left ucast_up_inject)

lemma crc32_update_state_inject: "crc32_update s bs = crc32_update t bs \<longleftrightarrow> s = t"
  by (simp add: crc32_update_def crc32.fold_state_inject)

lemma crc32_update_single_byte:
  "i < length bs \<Longrightarrow> c \<noteq> bs ! i \<Longrightarrow> crc32_update s (bs[i := c]) \<noteq> crc32_update s bs"
  by (simp add: crc32_update_def crc32.single_byte)

text \<open>The sixteen bit checksum shifts the other way; its feedback sets the lowest bit.\<close>

lemma crc16_bit_low: "bit (crc16_bit s) 0 \<longleftrightarrow> bit s 15"
proof -
  have "s AND 0x8000 \<noteq> 0 \<longleftrightarrow> bit s 15"
    using and_exp_eq_0_iff_not_bit[of s 15] by simp
  moreover have "\<not> bit (push_bit 1 s) 0" unfolding bit_push_bit_iff by auto
  ultimately show ?thesis by (simp add: crc16_bit_def bit_xor_iff)
qed

lemma inj_crc16_bit: "inj crc16_bit"
proof (rule injI)
  fix s t
  assume eq: "crc16_bit s = crc16_bit t"
  then have top: "bit s 15 = bit t 15" by (metis crc16_bit_low)
  then have "(s AND 0x8000 \<noteq> 0) = (t AND 0x8000 \<noteq> 0)"
    using and_exp_eq_0_iff_not_bit[of s 15] and_exp_eq_0_iff_not_bit[of t 15] by simp
  with eq have push: "push_bit 1 s = push_bit 1 t"
    by (simp add: crc16_bit_def xor_cancel_right split: if_splits)
  show "s = t"
  proof (rule bit_word_eqI)
    fix n
    assume n: "n < LENGTH(16)"
    show "bit s n = bit t n"
    proof (cases "n = 15")
      case False
      then have "bit (push_bit 1 s) (Suc n) = bit s n" "bit (push_bit 1 t) (Suc n) = bit t n"
        unfolding bit_push_bit_iff using n False by auto
      then show ?thesis using push by simp
    qed (use top in simp)
  qed
qed

interpretation crc16: byte_register crc16_byte
proof unfold_locales
  have push: "(push_bit 8 (ucast a :: u16) = push_bit 8 (ucast b)) = (a = b)" for a b :: u8
  proof
    assume eq: "push_bit 8 (ucast a :: u16) = push_bit 8 (ucast b)"
    have "bit a n = bit b n" if "n < 8" for n
      using arg_cong[OF eq, of "\<lambda>x. bit x (n + 8)"] that by (simp add: bit_simps)
    then show "a = b" by (intro bit_word_eqI) simp
  qed simp
  show "crc16_byte s b = crc16_byte t b \<longleftrightarrow> s = t" for s t b
    by (simp add: crc16_byte_def inj_eq[OF inj_funpow[OF inj_crc16_bit]] xor_cancel_right)
  show "crc16_byte s a = crc16_byte s b \<longleftrightarrow> a = b" for s a b
    by (simp add: crc16_byte_def inj_eq[OF inj_funpow[OF inj_crc16_bit]] xor_cancel_left push)
qed

lemma crc16_single_byte:
  "i < length bs \<Longrightarrow> c \<noteq> bs ! i \<Longrightarrow> crc16_ccitt_false (bs[i := c]) \<noteq> crc16_ccitt_false bs"
  by (simp add: crc16_ccitt_false_def crc16.single_byte)

section \<open>Properties\<close>

text \<open>
  Feeding the streaming checksum any sequence of chunks gives the checksum of their
  concatenation, so the receiver of a fragmented transfer may accumulate it as data arrives.
\<close>

theorem crc32_chunked:
  "crc32_finalize (foldl crc32_update crc32_new chunks) = crc32_ieee (concat chunks)"
proof -
  have "foldl crc32_update s chunks = crc32_update s (concat chunks)" for s
    by (induction chunks arbitrary: s) simp_all
  then show ?thesis by (simp add: crc32_ieee_def)
qed

text \<open>
  A message in which exactly one byte has been altered never has the checksum of the
  original: every corruption confined to one byte is detected.
\<close>

theorem crc32_detects_single_byte:
  assumes "i < length bs" and "c \<noteq> bs ! i"
  shows "crc32_ieee (bs[i := c]) \<noteq> crc32_ieee bs"
  using crc32_update_single_byte[OF assms] by (simp add: crc32_ieee_def)

theorem crc32_detects_single_byte_witness:
  "crc32_ieee ([0x31, 0x32, 0x33][1 := 0x30]) \<noteq> crc32_ieee [0x31, 0x32, 0x33]"
  by (rule crc32_detects_single_byte) simp_all

end
