(* ===== verification/HS_Runs.thy ===== *)
theory HS_Runs
  imports HS_Prelude
begin

text \<open>
  Sequences of operations on one component. A component's public methods are collected in a
  datatype of operations; \<open>run\<close> executes a list of them from left to right. The locale
  \<open>op_system\<close> is the contract of an inductive invariant: it holds initially and every
  admissible operation keeps it; \<open>op_system_error\<close> adds that a failing operation leaves
  the receiver alone, so that a run has the same effect as the run of its successful
  operations.
\<close>

definition run :: "('op \<Rightarrow> 's \<Rightarrow> 's) \<Rightarrow> 'op list \<Rightarrow> 's \<Rightarrow> 's" where
  "run step ops s = fold step ops s"

lemma run_simps [simp]:
  "run step [] s = s"
  "run step (x # xs) s = run step xs (step x s)"
  "run step (xs @ ys) s = run step ys (run step xs s)"
  by (simp_all add: run_def)

locale op_system =
  fixes step :: "'op \<Rightarrow> 's \<Rightarrow> 's" and adm :: "'op \<Rightarrow> bool" and inv :: "'s \<Rightarrow> bool"
  assumes step_inv: "inv s \<Longrightarrow> adm x \<Longrightarrow> inv (step x s)"
begin

lemma run_inv: "inv s \<Longrightarrow> list_all adm ops \<Longrightarrow> inv (run step ops s)"
  by (induction ops arbitrary: s) (simp_all add: step_inv)

lemma run_prefix_inv: "inv s \<Longrightarrow> list_all adm (xs @ ys) \<Longrightarrow> inv (run step xs s)"
  by (simp add: run_inv)

end

locale op_system_error = op_system step adm inv
  for step :: "'op \<Rightarrow> 's \<Rightarrow> 's" and adm :: "'op \<Rightarrow> bool" and inv :: "'s \<Rightarrow> bool" +
  fixes fails :: "'op \<Rightarrow> 's \<Rightarrow> bool"
  assumes fails_id: "inv s \<Longrightarrow> fails x s \<Longrightarrow> step x s = s"
begin

fun successes :: "'op list \<Rightarrow> 's \<Rightarrow> 'op list" where
  "successes [] s = []"
| "successes (x # xs) s = (if fails x s then successes xs s else x # successes xs (step x s))"

lemma run_successes:
  "inv s \<Longrightarrow> list_all adm ops \<Longrightarrow> run step (successes ops s) s = run step ops s"
  by (induction ops arbitrary: s) (auto simp: fails_id step_inv)

end

end
