(* ===== verification/HS_Aggregator.thy ===== *)
theory HS_Aggregator
  imports HS_Reports HS_Slots HS_Checksum HS_Runs
begin

unbundle bit_operations_syntax

text \<open>
  The input aggregator (\<open>src/input/aggregator.rs\<close>, with the frame types of
  \<open>src/input/mod.rs\<close> and \<open>vendor.rs\<close>): one record per USB interface in a fixed array, and
  the combined state of all of them. Frames are applied in two phases, a fallible
  \<open>prepare_frame\<close> that computes the next entry and aggregate and an infallible
  \<open>commit_frame\<close>. The aggregate is updated incrementally; the lemmas show that it always
  equals a rebuild from the devices, which is what the removal paths compute.
\<close>

section \<open>Frames and input state\<close>

record physical_input_state =
  pi_keyboard :: physical_keyboard_state
  pi_mouse :: physical_mouse_state
  pi_consumer :: consumer_state

definition physical_input_new :: physical_input_state where
  "physical_input_new =
     \<lparr>pi_keyboard = physical_keyboard_new, pi_mouse = physical_mouse_new, pi_consumer = consumer_state_new\<rparr>"

record standard_input_frame =
  sf_device_id :: device_id
  sf_interface_id :: interface_id
  sf_keyboard :: "keyboard_frame option"
  sf_mouse :: "mouse_frame option"
  sf_consumer :: "consumer_frame option"

definition MAX_VENDOR_REPORT_SIZE :: nat where "MAX_VENDOR_REPORT_SIZE = 64"

datatype hid_direction = DirInput | DirOutput | DirFeature

record vendor_hid_frame =
  vf_device_id :: device_id
  vf_interface_id :: interface_id
  vf_usage_page :: u16
  vf_report_id :: "report_id option"
  vf_direction :: hid_direction
  vf_payload :: bytes

definition vendor_hid_frame_new ::
    "device_id \<Rightarrow> interface_id \<Rightarrow> u16 \<Rightarrow> report_id option \<Rightarrow> hid_direction \<Rightarrow> bytes \<Rightarrow>
      input_error + vendor_hid_frame" where
  "vendor_hid_frame_new d i page rid dir payload =
     (if length payload \<le> MAX_VENDOR_REPORT_SIZE
      then Inr \<lparr>vf_device_id = d, vf_interface_id = i, vf_usage_page = page, vf_report_id = rid,
                vf_direction = dir, vf_payload = payload\<rparr>
      else Inl VendorPayloadCapacity)"

datatype input_frame = StandardFrame standard_input_frame | VendorFrame vendor_hid_frame

section \<open>Aggregator state\<close>

record device_input_state =
  di_device_id :: device_id
  di_interface_id :: interface_id
  di_keyboard :: physical_keyboard_state
  di_mouse_buttons :: mouse_buttons
  di_consumer :: consumer_state
  di_consumer_generation :: u64

definition device_input_new :: "device_id \<Rightarrow> interface_id \<Rightarrow> device_input_state" where
  "device_input_new d i =
     \<lparr>di_device_id = d, di_interface_id = i, di_keyboard = physical_keyboard_new, di_mouse_buttons = 0,
      di_consumer = consumer_state_new, di_consumer_generation = 0\<rparr>"

record input_aggregator =
  ia_devices :: "device_input_state option list"
  ia_aggregate :: physical_input_state
  ia_active_devices :: nat
  ia_next_consumer_generation :: u64

record prepared_input_frame =
  pf_index :: "nat option"
  pf_entry :: "device_input_state option"
  pf_aggregate :: "physical_input_state option"
  pf_active_devices :: nat
  pf_next_consumer_generation :: u64

definition aggregator_new :: "nat \<Rightarrow> input_aggregator" where
  "aggregator_new n =
     \<lparr>ia_devices = replicate n None, ia_aggregate = physical_input_new, ia_active_devices = 0,
      ia_next_consumer_generation = 1\<rparr>"

definition prepared_aggregate :: "prepared_input_frame \<Rightarrow> input_aggregator \<Rightarrow> physical_input_state" where
  "prepared_aggregate p current = (case pf_aggregate p of None \<Rightarrow> ia_aggregate current | Some a \<Rightarrow> a)"

definition interface_index :: "device_input_state option list \<Rightarrow> interface_id \<Rightarrow> nat option" where
  "interface_index devices i =
     position (\<lambda>e. case e of Some entry \<Rightarrow> di_interface_id entry = i | None \<Rightarrow> False) devices"

definition generation_is_newer_or_equal64 :: "u64 \<Rightarrow> u64 \<Rightarrow> bool" where
  "generation_is_newer_or_equal64 l r = (l - r < 2 ^ 63)"

section \<open>Rebuilding\<close>

definition takes_consumer :: "device_input_state \<Rightarrow> u64 option \<Rightarrow> bool" where
  "takes_consumer e newest =
     (cs_active (di_consumer e) \<noteq> None \<and>
      (case newest of None \<Rightarrow> True
       | Some g \<Rightarrow> generation_is_newer_or_equal64 (di_consumer_generation e) g))"

fun rebuild_loop ::
    "device_input_state list \<Rightarrow> physical_input_state \<Rightarrow> u64 option \<Rightarrow> input_error + physical_input_state" where
  "rebuild_loop [] a newest = Inr a"
| "rebuild_loop (e # es) a newest =
     (let kb = pi_keyboard a;
          kb1 = kb\<lparr>pk_modifiers := pk_modifiers kb OR pk_modifiers (di_keyboard e)\<rparr>
      in case press_keys kb1 (pk_keys (di_keyboard e)) of
           (_, Inl err) \<Rightarrow> Inl err
         | (kb2, Inr _) \<Rightarrow>
             let a1 = a\<lparr>pi_keyboard := kb2,
                        pi_mouse := \<lparr>pm_buttons = buttons_from_bits_truncate (pm_buttons (pi_mouse a) OR di_mouse_buttons e)\<rparr>\<rparr>
             in if takes_consumer e newest
                then rebuild_loop es (a1\<lparr>pi_consumer := di_consumer e\<rparr>) (Some (di_consumer_generation e))
                else rebuild_loop es a1 newest)"

definition rebuild_aggregate :: "device_input_state option list \<Rightarrow> input_error + physical_input_state" where
  "rebuild_aggregate devices = rebuild_loop (flatten devices) physical_input_new None"

text \<open>
  The three partial rebuilds run over the slots with one entry replaced. \<open>slot_entry\<close> is
  the choice at the head of each loop body.
\<close>

definition slot_entry ::
    "nat \<Rightarrow> nat \<Rightarrow> device_input_state \<Rightarrow> device_input_state option \<Rightarrow> device_input_state option" where
  "slot_entry index ri r stored = (if index = ri then Some r else stored)"

fun rebuild_keyboard_loop ::
    "nat \<Rightarrow> nat \<Rightarrow> device_input_state \<Rightarrow> device_input_state option list \<Rightarrow> physical_keyboard_state \<Rightarrow>
      input_error + physical_keyboard_state" where
  "rebuild_keyboard_loop index ri r [] kb = Inr kb"
| "rebuild_keyboard_loop index ri r (stored # rest) kb =
     (case slot_entry index ri r stored of
        None \<Rightarrow> rebuild_keyboard_loop (index + 1) ri r rest kb
      | Some e \<Rightarrow>
          (case press_keys (kb\<lparr>pk_modifiers := pk_modifiers kb OR pk_modifiers (di_keyboard e)\<rparr>) (pk_keys (di_keyboard e)) of
             (_, Inl err) \<Rightarrow> Inl err
           | (kb2, Inr _) \<Rightarrow> rebuild_keyboard_loop (index + 1) ri r rest kb2))"

definition rebuild_keyboard_replacing ::
    "device_input_state option list \<Rightarrow> nat \<Rightarrow> device_input_state \<Rightarrow> physical_input_state \<Rightarrow>
      input_error + physical_input_state" where
  "rebuild_keyboard_replacing devices ri r a =
     bindE (rebuild_keyboard_loop 0 ri r devices physical_keyboard_new) (\<lambda>kb. Inr (a\<lparr>pi_keyboard := kb\<rparr>))"

fun rebuild_mouse_loop ::
    "nat \<Rightarrow> nat \<Rightarrow> device_input_state \<Rightarrow> device_input_state option list \<Rightarrow> mouse_buttons \<Rightarrow> mouse_buttons" where
  "rebuild_mouse_loop index ri r [] b = b"
| "rebuild_mouse_loop index ri r (stored # rest) b =
     (case slot_entry index ri r stored of
        None \<Rightarrow> rebuild_mouse_loop (index + 1) ri r rest b
      | Some e \<Rightarrow> rebuild_mouse_loop (index + 1) ri r rest (buttons_from_bits_truncate (b OR di_mouse_buttons e)))"

definition rebuild_mouse_buttons_replacing ::
    "device_input_state option list \<Rightarrow> nat \<Rightarrow> device_input_state \<Rightarrow> physical_input_state \<Rightarrow> physical_input_state" where
  "rebuild_mouse_buttons_replacing devices ri r a =
     a\<lparr>pi_mouse := \<lparr>pm_buttons = rebuild_mouse_loop 0 ri r devices 0\<rparr>\<rparr>"

fun rebuild_consumer_loop ::
    "nat \<Rightarrow> nat \<Rightarrow> device_input_state \<Rightarrow> device_input_state option list \<Rightarrow> consumer_state \<Rightarrow> u64 option \<Rightarrow>
      consumer_state" where
  "rebuild_consumer_loop index ri r [] c newest = c"
| "rebuild_consumer_loop index ri r (stored # rest) c newest =
     (case slot_entry index ri r stored of
        None \<Rightarrow> rebuild_consumer_loop (index + 1) ri r rest c newest
      | Some e \<Rightarrow>
          if takes_consumer e newest
          then rebuild_consumer_loop (index + 1) ri r rest (di_consumer e) (Some (di_consumer_generation e))
          else rebuild_consumer_loop (index + 1) ri r rest c newest)"

definition rebuild_consumer_replacing ::
    "device_input_state option list \<Rightarrow> nat \<Rightarrow> device_input_state \<Rightarrow> physical_input_state \<Rightarrow> physical_input_state" where
  "rebuild_consumer_replacing devices ri r a =
     a\<lparr>pi_consumer := rebuild_consumer_loop 0 ri r devices consumer_state_new None\<rparr>"

section \<open>Operations\<close>

text \<open>
  \<open>prepare_frame\<close> in the order of the source: whether the mouse buttons change, the slot,
  the next entry of that slot, the next aggregate, and the prepared record.
\<close>

definition frame_buttons_changed :: "input_aggregator \<Rightarrow> standard_input_frame \<Rightarrow> bool" where
  "frame_buttons_changed ia f =
     (let existing_index = interface_index (ia_devices ia) (sf_interface_id f);
          existing_buttons =
            (case Option.bind existing_index (\<lambda>i. ia_devices ia ! i) of None \<Rightarrow> 0 | Some e \<Rightarrow> di_mouse_buttons e)
      in case sf_mouse f of None \<Rightarrow> False | Some m \<Rightarrow> mf_buttons m \<noteq> existing_buttons)"

definition frame_slot :: "input_aggregator \<Rightarrow> standard_input_frame \<Rightarrow> input_error + nat" where
  "frame_slot ia f =
     (case interface_index (ia_devices ia) (sf_interface_id f) of
        Some i \<Rightarrow> Inr i
      | None \<Rightarrow> (case position (\<lambda>e. e = None) (ia_devices ia) of
                  Some i \<Rightarrow> Inr i | None \<Rightarrow> Inl DeviceCapacity))"

definition frame_entry ::
    "input_aggregator \<Rightarrow> standard_input_frame \<Rightarrow> nat \<Rightarrow> input_error + device_input_state" where
  "frame_entry ia f index =
     (let entry0 = (case ia_devices ia ! index of
                      Some e \<Rightarrow> e | None \<Rightarrow> device_input_new (sf_device_id f) (sf_interface_id f))
      in bindE (case sf_keyboard f of
                  None \<Rightarrow> Inr entry0
                | Some kf \<Rightarrow>
                    (case replace_with_frame (di_keyboard entry0) kf of
                       (_, Inl err) \<Rightarrow> Inl err
                     | (kb, Inr _) \<Rightarrow> Inr (entry0\<lparr>di_keyboard := kb\<rparr>))) (\<lambda>entry1.
         let entry2 = (case sf_mouse f of None \<Rightarrow> entry1 | Some m \<Rightarrow> entry1\<lparr>di_mouse_buttons := mf_buttons m\<rparr>)
         in Inr (case sf_consumer f of
                   None \<Rightarrow> entry2
                 | Some c \<Rightarrow> entry2\<lparr>di_consumer := \<lparr>cs_active = cf_active c\<rparr>,
                                   di_consumer_generation := ia_next_consumer_generation ia\<rparr>)))"

definition frame_aggregate ::
    "input_aggregator \<Rightarrow> standard_input_frame \<Rightarrow> nat \<Rightarrow> device_input_state \<Rightarrow> input_error + physical_input_state" where
  "frame_aggregate ia f index next_entry =
     (let is_only = (ia_active_devices ia = 0 \<or>
            (ia_active_devices ia = 1 \<and> interface_index (ia_devices ia) (sf_interface_id f) \<noteq> None))
      in bindE (if sf_keyboard f \<noteq> None then
                  if is_only then Inr ((ia_aggregate ia)\<lparr>pi_keyboard := di_keyboard next_entry\<rparr>)
                  else rebuild_keyboard_replacing (ia_devices ia) index next_entry (ia_aggregate ia)
                else Inr (ia_aggregate ia)) (\<lambda>agg1.
         let agg2 = (if frame_buttons_changed ia f then
                       if is_only then agg1\<lparr>pi_mouse := \<lparr>pm_buttons = di_mouse_buttons next_entry\<rparr>\<rparr>
                       else rebuild_mouse_buttons_replacing (ia_devices ia) index next_entry agg1
                     else agg1)
         in Inr (if sf_consumer f \<noteq> None then
                   if is_only then agg2\<lparr>pi_consumer := di_consumer next_entry\<rparr>
                   else rebuild_consumer_replacing (ia_devices ia) index next_entry agg2
                 else agg2)))"

definition prepare_frame :: "input_aggregator \<Rightarrow> standard_input_frame \<Rightarrow> input_error + prepared_input_frame" where
  "prepare_frame ia f =
     (if sf_keyboard f = None \<and> sf_consumer f = None \<and> \<not> frame_buttons_changed ia f
      then Inr \<lparr>pf_index = None, pf_entry = None, pf_aggregate = None,
                pf_active_devices = ia_active_devices ia,
                pf_next_consumer_generation = ia_next_consumer_generation ia\<rparr>
      else
        bindE (frame_slot ia f) (\<lambda>index.
        bindE (frame_entry ia f index) (\<lambda>next_entry.
        bindE (frame_aggregate ia f index next_entry) (\<lambda>aggregate.
        Inr \<lparr>pf_index = Some index, pf_entry = Some next_entry, pf_aggregate = Some aggregate,
             pf_active_devices = ia_active_devices ia +
               (if interface_index (ia_devices ia) (sf_interface_id f) = None then 1 else 0),
             pf_next_consumer_generation =
               (if sf_consumer f \<noteq> None then ia_next_consumer_generation ia + 1
                else ia_next_consumer_generation ia)\<rparr>))))"

definition commit_frame :: "input_aggregator \<Rightarrow> prepared_input_frame \<Rightarrow> input_aggregator" where
  "commit_frame ia p =
     \<lparr>ia_devices = (case pf_index p of None \<Rightarrow> ia_devices ia | Some i \<Rightarrow> (ia_devices ia)[i := pf_entry p]),
      ia_aggregate = (case pf_aggregate p of None \<Rightarrow> ia_aggregate ia | Some a \<Rightarrow> a),
      ia_active_devices = pf_active_devices p,
      ia_next_consumer_generation = pf_next_consumer_generation p\<rparr>"

definition aggregator_apply_frame ::
    "input_aggregator \<Rightarrow> standard_input_frame \<Rightarrow> (input_aggregator, input_error, unit) outcome" where
  "aggregator_apply_frame ia f =
     (case prepare_frame ia f of Inl e \<Rightarrow> (ia, Inl e) | Inr p \<Rightarrow> (commit_frame ia p, Inr ()))"

definition remove_entries ::
    "input_aggregator \<Rightarrow> device_input_state option list \<Rightarrow> input_aggregator \<times> bool" where
  "remove_entries ia devices =
     (case rebuild_aggregate devices of
        Inl _ \<Rightarrow> (ia, False)
      | Inr aggregate \<Rightarrow>
          (ia\<lparr>ia_devices := devices, ia_aggregate := aggregate,
              ia_active_devices := length (flatten devices)\<rparr>, True))"

definition remove_device :: "input_aggregator \<Rightarrow> device_id \<Rightarrow> input_aggregator \<times> bool" where
  "remove_device ia d =
     (if \<not> list_ex (\<lambda>e. di_device_id e = d) (flatten (ia_devices ia)) then (ia, False)
      else remove_entries ia
             (map (\<lambda>e. case e of Some x \<Rightarrow> if di_device_id x = d then None else e | None \<Rightarrow> None)
                (ia_devices ia)))"

definition remove_interface :: "input_aggregator \<Rightarrow> interface_id \<Rightarrow> input_aggregator \<times> bool" where
  "remove_interface ia i =
     (case interface_index (ia_devices ia) i of
        None \<Rightarrow> (ia, False)
      | Some index \<Rightarrow> remove_entries ia ((ia_devices ia)[index := None]))"

interpretation device_slots: slot_table di_interface_id interface_index
  by unfold_locales (simp add: interface_index_def option.case_distrib cong: option.case_cong)

section \<open>What the rebuild loops compute\<close>

text \<open>The three component folds over a list of entries.\<close>

fun kb_fold :: "device_input_state list \<Rightarrow> physical_keyboard_state \<Rightarrow> input_error + physical_keyboard_state" where
  "kb_fold [] kb = Inr kb"
| "kb_fold (e # es) kb =
     (case press_keys (kb\<lparr>pk_modifiers := pk_modifiers kb OR pk_modifiers (di_keyboard e)\<rparr>) (pk_keys (di_keyboard e)) of
        (_, Inl err) \<Rightarrow> Inl err
      | (kb2, Inr _) \<Rightarrow> kb_fold es kb2)"

definition mouse_fold :: "device_input_state list \<Rightarrow> mouse_buttons \<Rightarrow> mouse_buttons" where
  "mouse_fold es b = foldl (\<lambda>b e. buttons_from_bits_truncate (b OR di_mouse_buttons e)) b es"

definition consumer_step :: "consumer_state \<times> u64 option \<Rightarrow> device_input_state \<Rightarrow> consumer_state \<times> u64 option" where
  "consumer_step cg e =
     (if takes_consumer e (snd cg) then (di_consumer e, Some (di_consumer_generation e)) else cg)"

definition consumer_fold :: "device_input_state list \<Rightarrow> consumer_state \<times> u64 option \<Rightarrow> consumer_state \<times> u64 option" where
  "consumer_fold es cg = foldl consumer_step cg es"

lemma mouse_fold_simps [simp]:
  "mouse_fold [] b = b"
  "mouse_fold (e # es) b = mouse_fold es (buttons_from_bits_truncate (b OR di_mouse_buttons e))"
  "mouse_fold (es @ fs) b = mouse_fold fs (mouse_fold es b)"
  by (simp_all add: mouse_fold_def)

lemma consumer_fold_simps [simp]:
  "consumer_fold [] cg = cg"
  "consumer_fold (e # es) cg = consumer_fold es (consumer_step cg e)"
  "consumer_fold (es @ fs) cg = consumer_fold fs (consumer_fold es cg)"
  by (simp_all add: consumer_fold_def)

lemma kb_fold_append [simp]: "kb_fold (es @ fs) kb = bindE (kb_fold es kb) (kb_fold fs)"
  by (induction es arbitrary: kb) (auto split: prod.splits sum.splits)

lemma kb_fold_append_fun: "kb_fold (es @ fs) = (\<lambda>kb. bindE (kb_fold es kb) (kb_fold fs))"
  by (simp add: fun_eq_iff)

lemma rebuild_loop_folds:
  "rebuild_loop es a g =
     bindE (kb_fold es (pi_keyboard a)) (\<lambda>kb. Inr
       \<lparr>pi_keyboard = kb, pi_mouse = \<lparr>pm_buttons = mouse_fold es (pm_buttons (pi_mouse a))\<rparr>,
        pi_consumer = fst (consumer_fold es (pi_consumer a, g))\<rparr>)"
proof (induction es arbitrary: a g)
  case Nil
  then show ?case by simp
next
  case (Cons e es)
  show ?case
    by (simp add: Let_def Cons.IH consumer_step_def split: prod.splits sum.splits)
qed

lemma rebuild_aggregate_folds:
  "rebuild_aggregate devices =
     bindE (kb_fold (flatten devices) physical_keyboard_new) (\<lambda>kb. Inr
       \<lparr>pi_keyboard = kb, pi_mouse = \<lparr>pm_buttons = mouse_fold (flatten devices) 0\<rparr>,
        pi_consumer = fst (consumer_fold (flatten devices) (consumer_state_new, None))\<rparr>)"
  by (simp add: rebuild_aggregate_def rebuild_loop_folds physical_input_new_def physical_mouse_new_def)

text \<open>The entries a replacing loop visits from slot \<open>index\<close> on.\<close>

definition replaced :: "nat \<Rightarrow> nat \<Rightarrow> device_input_state \<Rightarrow> device_input_state option list \<Rightarrow> device_input_state list" where
  "replaced index ri r ds = (if index \<le> ri then flatten (ds[ri - index := Some r]) else flatten ds)"

lemma replaced_Cons:
  "replaced index ri r (d # ds) = opt_list (slot_entry index ri r d) @ replaced (index + 1) ri r ds"
proof -
  consider "index < ri" | "index = ri" | "ri < index" by linarith
  then show ?thesis
  proof cases
    case 1
    then have "ri - index = Suc (ri - (index + 1))" by simp
    then show ?thesis using 1 by (cases d) (simp_all add: replaced_def slot_entry_def opt_list_def)
  qed (cases d; simp add: replaced_def slot_entry_def opt_list_def)+
qed

lemma replaced_0 [simp]: "replaced 0 ri r ds = flatten (ds[ri := Some r])"
  by (simp add: replaced_def)

lemma rebuild_keyboard_loop_fold:
  "rebuild_keyboard_loop index ri r ds kb = kb_fold (replaced index ri r ds) kb"
  by (induction ds arbitrary: index kb)
    (auto simp: replaced_Cons opt_list_def replaced_def[of _ _ _ "[]"] split: option.splits prod.splits sum.splits)

lemma rebuild_mouse_loop_fold:
  "rebuild_mouse_loop index ri r ds b = mouse_fold (replaced index ri r ds) b"
  by (induction ds arbitrary: index b)
    (auto simp: replaced_Cons opt_list_def replaced_def[of _ _ _ "[]"] split: option.splits)

lemma rebuild_consumer_loop_fold:
  "rebuild_consumer_loop index ri r ds c g = fst (consumer_fold (replaced index ri r ds) (c, g))"
  by (induction ds arbitrary: index c g)
    (auto simp: replaced_Cons opt_list_def replaced_def[of _ _ _ "[]"] consumer_step_def split: option.splits)

text \<open>Changing one slot leaves a fold alone when the entry's component does not change.\<close>

lemma kb_fold_update:
  assumes "i < length ds" and "kb_fold (opt_list e) = kb_fold (opt_list (ds ! i))"
  shows "kb_fold (flatten (ds[i := e])) kb = kb_fold (flatten ds) kb"
  using assms flatten_split[OF assms(1)]
  by (simp add: flatten_update kb_fold_append_fun del: kb_fold_append)

lemma mouse_fold_update:
  assumes "i < length ds" and "mouse_fold (opt_list e) = mouse_fold (opt_list (ds ! i))"
  shows "mouse_fold (flatten (ds[i := e])) b = mouse_fold (flatten ds) b"
  using assms flatten_split[OF assms(1)] by (simp add: flatten_update)

lemma consumer_fold_update:
  assumes "i < length ds" and "consumer_fold (opt_list e) = consumer_fold (opt_list (ds ! i))"
  shows "consumer_fold (flatten (ds[i := e])) cg = consumer_fold (flatten ds) cg"
  using assms flatten_split[OF assms(1)] by (simp add: flatten_update)

section \<open>Key sets of the keyboard fold\<close>

lemma press_keys_Inr:
  assumes "press_keys st ks = (st', Inr u)" and "distinct ks" and "keys_ok (pk_keys st)"
  shows "st' = st\<lparr>pk_keys := pk_keys st @ filter (\<lambda>k. k \<notin> set (pk_keys st)) ks\<rparr> \<and> keys_ok (pk_keys st')"
  using assms
proof (induction ks arbitrary: st)
  case Nil
  then show ?case by simp
next
  case (Cons k ks)
  show ?case
  proof (cases "k \<in> set (pk_keys st)")
    case True
    with Cons show ?thesis by (simp add: press_key_def)
  next
    case False
    let ?st = "st\<lparr>pk_keys := pk_keys st @ [k]\<rparr>"
    have len: "length (pk_keys st) < PHYSICAL_KEYBOARD_KEY_CAPACITY"
      and rest: "press_keys ?st ks = (st', Inr u)"
      using Cons.prems(1) False by (auto simp: press_key_def vec_push_def split: if_splits)
    have "keys_ok (pk_keys ?st)" using Cons.prems(3) False len by (simp add: keys_ok_def)
    moreover have "filter (\<lambda>j. j \<notin> set (pk_keys ?st)) ks = filter (\<lambda>j. j \<notin> set (pk_keys st)) ks"
      using Cons.prems(2) by (auto intro: filter_cong)
    ultimately show ?thesis
      using Cons.IH[OF rest] Cons.prems(2) False by auto
  qed
qed

lemma length_union_card:
  "distinct ks \<Longrightarrow> distinct ls \<Longrightarrow>
   length ks + length (filter (\<lambda>k. k \<notin> set ks) ls) = card (set ks \<union> set ls)"
proof -
  assume "distinct ks" "distinct ls"
  then have "distinct (ks @ filter (\<lambda>k. k \<notin> set ks) ls)" by auto
  then have "length (ks @ filter (\<lambda>k. k \<notin> set ks) ls) = card (set (ks @ filter (\<lambda>k. k \<notin> set ks) ls))"
    by (simp only: distinct_card)
  also have "set (ks @ filter (\<lambda>k. k \<notin> set ks) ls) = set ks \<union> set ls" by auto
  finally show ?thesis by simp
qed

definition entry_keys :: "device_input_state list \<Rightarrow> key_usage set" where
  "entry_keys es = (\<Union>e\<in>set es. set (pk_keys (di_keyboard e)))"

lemma entry_keys_simps [simp]:
  "entry_keys [] = {}"
  "entry_keys (e # es) = set (pk_keys (di_keyboard e)) \<union> entry_keys es"
  by (simp_all add: entry_keys_def)

lemma finite_entry_keys [simp]: "finite (entry_keys es)"
  by (simp add: entry_keys_def)

lemma entry_keys_mono: "set es \<subseteq> set fs \<Longrightarrow> entry_keys es \<subseteq> entry_keys fs"
  by (auto simp: entry_keys_def)

lemma kb_fold_Inr:
  assumes "kb_fold es kb = Inr kb'" and "\<And>e. e \<in> set es \<Longrightarrow> keys_ok (pk_keys (di_keyboard e))"
    and "keys_ok (pk_keys kb)"
  shows "keys_ok (pk_keys kb') \<and> set (pk_keys kb') = set (pk_keys kb) \<union> entry_keys es"
  using assms
proof (induction es arbitrary: kb)
  case Nil
  then show ?case by simp
next
  case (Cons e es)
  let ?kb = "kb\<lparr>pk_modifiers := pk_modifiers kb OR pk_modifiers (di_keyboard e)\<rparr>"
  obtain kb2 u where p: "press_keys ?kb (pk_keys (di_keyboard e)) = (kb2, Inr u)"
    and rest: "kb_fold es kb2 = Inr kb'"
    using Cons.prems(1) by (auto split: prod.splits sum.splits)
  have d: "distinct (pk_keys (di_keyboard e))" using Cons.prems(2)[of e] by (simp add: keys_ok_def)
  have "kb2 = ?kb\<lparr>pk_keys := pk_keys kb @ filter (\<lambda>k. k \<notin> set (pk_keys kb)) (pk_keys (di_keyboard e))\<rparr>"
    and ok: "keys_ok (pk_keys kb2)"
    using press_keys_Inr[OF p d] Cons.prems(3) by auto
  then have "set (pk_keys kb2) = set (pk_keys kb) \<union> set (pk_keys (di_keyboard e))" by auto
  then show ?case using Cons.IH[OF rest _ ok] Cons.prems(2) by auto
qed

lemma kb_fold_total:
  assumes "\<And>e. e \<in> set es \<Longrightarrow> keys_ok (pk_keys (di_keyboard e))" and "keys_ok (pk_keys kb)"
    and "card (set (pk_keys kb) \<union> entry_keys es) \<le> PHYSICAL_KEYBOARD_KEY_CAPACITY"
  shows "\<exists>kb'. kb_fold es kb = Inr kb'"
  using assms
proof (induction es arbitrary: kb)
  case Nil
  then show ?case by simp
next
  case (Cons e es)
  let ?kb = "kb\<lparr>pk_modifiers := pk_modifiers kb OR pk_modifiers (di_keyboard e)\<rparr>"
  let ?ks = "pk_keys (di_keyboard e)"
  let ?kb2 = "?kb\<lparr>pk_keys := pk_keys kb @ filter (\<lambda>k. k \<notin> set (pk_keys kb)) ?ks\<rparr>"
  have d: "distinct ?ks" "distinct (pk_keys kb)"
    using Cons.prems(1)[of e] Cons.prems(2) by (simp_all add: keys_ok_def)
  have "card (set (pk_keys kb) \<union> set ?ks) \<le> card (set (pk_keys kb) \<union> entry_keys (e # es))"
    by (intro card_mono) auto
  then have len: "length (pk_keys kb) + length (filter (\<lambda>k. k \<notin> set (pk_keys kb)) ?ks) \<le> PHYSICAL_KEYBOARD_KEY_CAPACITY"
    using Cons.prems(3) length_union_card[OF d(2) d(1)] by simp
  then have p: "press_keys ?kb ?ks = (?kb2, Inr ())"
    using press_keys_append[of ?ks ?kb] d by simp
  have "keys_ok (pk_keys ?kb2)" using len d by (auto simp: keys_ok_def)
  moreover have "set (pk_keys ?kb2) \<union> entry_keys es = set (pk_keys kb) \<union> entry_keys (e # es)" by auto
  ultimately obtain kb' where "kb_fold es ?kb2 = Inr kb'"
    using Cons.IH[of ?kb2] Cons.prems(1,3) by (metis list.set_intros(2))
  then show ?case using p by simp
qed

section \<open>Invariant\<close>

text \<open>
  What a decoded frame satisfies: its key vector is duplicate free and within capacity and
  its buttons are the five the type can hold.
\<close>

definition buttons_ok :: "mouse_buttons \<Rightarrow> bool" where
  "buttons_ok b = (b AND 0x1f = b)"

definition frame_ok :: "standard_input_frame \<Rightarrow> bool" where
  "frame_ok f =
     ((case sf_keyboard f of None \<Rightarrow> True | Some kf \<Rightarrow> keys_ok (kf_keys_down kf)) \<and>
      (case sf_mouse f of None \<Rightarrow> True | Some m \<Rightarrow> buttons_ok (mf_buttons m)))"

definition entry_ok :: "device_input_state \<Rightarrow> bool" where
  "entry_ok e = (keys_ok (pk_keys (di_keyboard e)) \<and> buttons_ok (di_mouse_buttons e))"

definition aggregator_inv :: "input_aggregator \<Rightarrow> bool" where
  "aggregator_inv ia =
     (unique_keys di_interface_id (ia_devices ia) \<and>
      ia_active_devices ia = length (flatten (ia_devices ia)) \<and>
      list_all entry_ok (flatten (ia_devices ia)) \<and>
      rebuild_aggregate (ia_devices ia) = Inr (ia_aggregate ia))"

lemma buttons_ok_0 [simp]: "buttons_ok 0"
  by (simp add: buttons_ok_def)

lemma aggregator_inv_new: "aggregator_inv (aggregator_new n)"
  by (simp add: aggregator_inv_def aggregator_new_def rebuild_aggregate_def)

lemma entry_ok_new: "entry_ok (device_input_new d i)"
  by (simp add: entry_ok_def device_input_new_def physical_keyboard_new_def)

text \<open>The next entry, field by field.\<close>

lemma frame_entry_Inr:
  assumes "frame_entry ia f index = Inr e" and "frame_ok f"
  defines "e0 \<equiv> (case ia_devices ia ! index of Some e \<Rightarrow> e | None \<Rightarrow> device_input_new (sf_device_id f) (sf_interface_id f))"
  shows "di_interface_id e = di_interface_id e0"
    and "di_keyboard e = (case sf_keyboard f of None \<Rightarrow> di_keyboard e0
           | Some kf \<Rightarrow> \<lparr>pk_modifiers = kf_modifiers kf, pk_keys = kf_keys_down kf\<rparr>)"
    and "di_mouse_buttons e = (case sf_mouse f of None \<Rightarrow> di_mouse_buttons e0 | Some m \<Rightarrow> mf_buttons m)"
    and "sf_consumer f = None \<Longrightarrow> di_consumer e = di_consumer e0 \<and> di_consumer_generation e = di_consumer_generation e0"
    and "entry_ok e0 \<Longrightarrow> entry_ok e"
proof -
  have kb: "replace_with_frame (di_keyboard e0) kf = (\<lparr>pk_modifiers = kf_modifiers kf, pk_keys = kf_keys_down kf\<rparr>, Inr ())"
    if "sf_keyboard f = Some kf" for kf
    using assms(2) that by (intro replace_with_frame_ok) (simp add: frame_ok_def keys_ok_def)
  show 1: "di_interface_id e = di_interface_id e0"
    and 2: "di_keyboard e = (case sf_keyboard f of None \<Rightarrow> di_keyboard e0
           | Some kf \<Rightarrow> \<lparr>pk_modifiers = kf_modifiers kf, pk_keys = kf_keys_down kf\<rparr>)"
    and 3: "di_mouse_buttons e = (case sf_mouse f of None \<Rightarrow> di_mouse_buttons e0 | Some m \<Rightarrow> mf_buttons m)"
    and "sf_consumer f = None \<Longrightarrow> di_consumer e = di_consumer e0 \<and> di_consumer_generation e = di_consumer_generation e0"
    using assms(1) kb unfolding frame_entry_def e0_def[symmetric]
    by (auto simp: Let_def split: option.splits)
  show "entry_ok e" if "entry_ok e0"
    using that assms(2) by (auto simp: entry_ok_def 2 3 frame_ok_def split: option.splits)
qed

lemma kb_fold_single:
  assumes "keys_ok (pk_keys (di_keyboard e))"
  shows "kb_fold [e] physical_keyboard_new = Inr (di_keyboard e)"
proof -
  have "press_keys (physical_keyboard_new\<lparr>pk_modifiers := pk_modifiers (di_keyboard e)\<rparr>) (pk_keys (di_keyboard e)) =
      (\<lparr>pk_modifiers = pk_modifiers (di_keyboard e), pk_keys = pk_keys (di_keyboard e)\<rparr>, Inr ())"
    using assms by (subst press_keys_append) (auto simp: physical_keyboard_new_def keys_ok_def)
  then show ?thesis by (simp add: physical_keyboard_new_def)
qed

lemma mouse_fold_single: "buttons_ok (di_mouse_buttons e) \<Longrightarrow> mouse_fold [e] 0 = di_mouse_buttons e"
  by (simp add: buttons_ok_def buttons_from_bits_truncate_def)

lemma consumer_fold_single: "fst (consumer_fold [e] (consumer_state_new, None)) = di_consumer e"
  by (cases "di_consumer e") (simp add: consumer_step_def takes_consumer_def consumer_state_new_def)

lemma kb_fold_neutral:
  "di_keyboard e = physical_keyboard_new \<Longrightarrow> kb_fold [e] = kb_fold []"
  by (rule ext) (simp add: physical_keyboard_new_def)

text \<open>On well-formed entries the truncation never drops a bit: the mouse fold is a plain disjunction.\<close>

definition buttons_or :: "device_input_state list \<Rightarrow> mouse_buttons \<Rightarrow> mouse_buttons" where
  "buttons_or es b = foldl (\<lambda>b e. b OR di_mouse_buttons e) b es"

lemma buttons_or_simps [simp]:
  "buttons_or [] b = b"
  "buttons_or (e # es) b = buttons_or es (b OR di_mouse_buttons e)"
  "buttons_or (es @ fs) b = buttons_or fs (buttons_or es b)"
  by (simp_all add: buttons_or_def)

lemma buttons_ok_or: "buttons_ok a \<Longrightarrow> buttons_ok b \<Longrightarrow> buttons_ok (a OR b)"
  by (simp add: buttons_ok_def bit.conj_disj_distrib2)

lemma mouse_fold_or: "buttons_ok b \<Longrightarrow> list_all entry_ok es \<Longrightarrow> mouse_fold es b = buttons_or es b"
  by (induction es arbitrary: b)
    (simp_all add: entry_ok_def buttons_ok_or, simp add: buttons_ok_def buttons_from_bits_truncate_def
      bit.conj_disj_distrib2)

lemma buttons_or_update:
  assumes "i < length ds" and "buttons_or (opt_list e) = buttons_or (opt_list (ds ! i))"
  shows "buttons_or (flatten (ds[i := e])) b = buttons_or (flatten ds) b"
  using assms flatten_split[OF assms(1)] by (simp add: flatten_update)

lemma frame_slotE:
  assumes "frame_slot ia f = Inr i"
  obtains (existing) x where "interface_index (ia_devices ia) (sf_interface_id f) = Some i"
      and "i < length (ia_devices ia)" and "ia_devices ia ! i = Some x" and "di_interface_id x = sf_interface_id f"
    | (fresh) "interface_index (ia_devices ia) (sf_interface_id f) = None"
      and "i < length (ia_devices ia)" and "ia_devices ia ! i = None"
proof (cases "interface_index (ia_devices ia) (sf_interface_id f)")
  case None
  then have "position (\<lambda>e. e = None) (ia_devices ia) = Some i"
    using assms by (simp add: frame_slot_def split: option.splits)
  then show thesis using None fresh position_SomeD(1,2)[of "\<lambda>e. e = None" "ia_devices ia" i] by simp
next
  case (Some j)
  then have "j = i" using assms by (simp add: frame_slot_def)
  from Some show thesis
    by (rule device_slots.index_SomeE) (use Some \<open>j = i\<close> existing in simp)
qed

lemma flatten_single:
  assumes "length (flatten es) = 1" and "Some x \<in> set es"
  shows "flatten es = [x]"
proof -
  obtain y where y: "flatten es = [y]" using assms(1) by (auto simp: length_Suc_conv)
  have "x \<in> set (flatten es)" using assms(2) by simp
  then show ?thesis using y by simp
qed

lemma aggregator_inv_folds:
  assumes "aggregator_inv ia"
  shows "kb_fold (flatten (ia_devices ia)) physical_keyboard_new = Inr (pi_keyboard (ia_aggregate ia))"
    and "pi_mouse (ia_aggregate ia) = \<lparr>pm_buttons = mouse_fold (flatten (ia_devices ia)) 0\<rparr>"
    and "pi_consumer (ia_aggregate ia) = fst (consumer_fold (flatten (ia_devices ia)) (consumer_state_new, None))"
proof -
  obtain kb where kb: "kb_fold (flatten (ia_devices ia)) physical_keyboard_new = Inr kb"
    and a: "ia_aggregate ia = \<lparr>pi_keyboard = kb, pi_mouse = \<lparr>pm_buttons = mouse_fold (flatten (ia_devices ia)) 0\<rparr>,
        pi_consumer = fst (consumer_fold (flatten (ia_devices ia)) (consumer_state_new, None))\<rparr>"
    using assms by (auto simp: aggregator_inv_def rebuild_aggregate_folds bindE_Inr_iff)
  show "kb_fold (flatten (ia_devices ia)) physical_keyboard_new = Inr (pi_keyboard (ia_aggregate ia))"
    and "pi_mouse (ia_aggregate ia) = \<lparr>pm_buttons = mouse_fold (flatten (ia_devices ia)) 0\<rparr>"
    and "pi_consumer (ia_aggregate ia) = fst (consumer_fold (flatten (ia_devices ia)) (consumer_state_new, None))"
    by (simp_all add: kb a)
qed

text \<open>The slot a frame goes to, its previous entry \<open>x\<close> (a fresh one if empty) and its next entry.\<close>

definition frame_context :: "input_aggregator \<Rightarrow> standard_input_frame \<Rightarrow> nat \<Rightarrow> device_input_state \<Rightarrow> device_input_state \<Rightarrow> bool" where
  "frame_context ia f i x e =
     (i < length (ia_devices ia) \<and>
      (interface_index (ia_devices ia) (sf_interface_id f) = Some i \<and> ia_devices ia ! i = Some x \<or>
       interface_index (ia_devices ia) (sf_interface_id f) = None \<and> ia_devices ia ! i = None \<and>
       x = device_input_new (sf_device_id f) (sf_interface_id f)) \<and>
      di_interface_id e = sf_interface_id f \<and> entry_ok x \<and> entry_ok e \<and>
      (sf_keyboard f = None \<longrightarrow> di_keyboard e = di_keyboard x) \<and>
      di_mouse_buttons e = (case sf_mouse f of None \<Rightarrow> di_mouse_buttons x | Some m \<Rightarrow> mf_buttons m) \<and>
      (sf_consumer f = None \<longrightarrow>
        di_consumer e = di_consumer x \<and> di_consumer_generation e = di_consumer_generation x))"

lemma frame_context_ex:
  assumes inv: "aggregator_inv ia" and f: "frame_ok f" and slot: "frame_slot ia f = Inr i"
    and ent: "frame_entry ia f i = Inr e"
  shows "\<exists>x. frame_context ia f i x e"
  using slot
proof (cases rule: frame_slotE)
  case (existing x)
  have "x \<in> set (flatten (ia_devices ia))" using existing by (metis nth_mem set_flatten)
  then have x: "entry_ok x" using inv by (simp add: aggregator_inv_def list_all_iff)
  show ?thesis
    using frame_entry_Inr[OF ent f] existing x unfolding frame_context_def
    by (intro exI[of _ x]) (auto split: option.splits)
next
  case fresh
  let ?x = "device_input_new (sf_device_id f) (sf_interface_id f)"
  have "di_interface_id ?x = sf_interface_id f" by (simp add: device_input_new_def)
  then show ?thesis
    using frame_entry_Inr[OF ent f] fresh entry_ok_new unfolding frame_context_def
    by (intro exI[of _ ?x]) (auto split: option.splits)
qed

definition only_interface :: "input_aggregator \<Rightarrow> standard_input_frame \<Rightarrow> bool" where
  "only_interface ia f =
     (ia_active_devices ia = 0 \<or> (ia_active_devices ia = 1 \<and> interface_index (ia_devices ia) (sf_interface_id f) \<noteq> None))"

lemma frame_table:
  assumes inv: "aggregator_inv ia" and ctx: "frame_context ia f i x e"
  shows "unique_keys di_interface_id ((ia_devices ia)[i := Some e])"
    and "length (flatten ((ia_devices ia)[i := Some e])) =
      ia_active_devices ia + (if interface_index (ia_devices ia) (sf_interface_id f) = None then 1 else 0)"
    and "list_all entry_ok (flatten ((ia_devices ia)[i := Some e]))"
    and "only_interface ia f \<Longrightarrow> flatten ((ia_devices ia)[i := Some e]) = [e]"
proof -
  let ?ds = "ia_devices ia"
  have uniq: "unique_keys di_interface_id ?ds" and act: "ia_active_devices ia = length (flatten ?ds)"
    and ok: "list_all entry_ok (flatten ?ds)"
    using inv by (simp_all add: aggregator_inv_def)
  have i: "i < length ?ds" and id: "di_interface_id e = sf_interface_id f" and e: "entry_ok e"
    using ctx by (simp_all add: frame_context_def)
  consider "interface_index ?ds (sf_interface_id f) = Some i" "?ds ! i = Some x"
    | "interface_index ?ds (sf_interface_id f) = None" "?ds ! i = None"
    using ctx by (auto simp: frame_context_def)
  then show len: "length (flatten (?ds[i := Some e])) =
      ia_active_devices ia + (if interface_index ?ds (sf_interface_id f) = None then 1 else 0)"
    and "unique_keys di_interface_id (?ds[i := Some e])"
    using device_slots.replace_unique[OF uniq _ id] device_slots.insert_unique[OF uniq _ id] i
    by (cases; simp add: act length_flatten_insert length_flatten_replace)+
  show "list_all entry_ok (flatten (?ds[i := Some e]))"
    using ok e flatten_split[OF i] unfolding flatten_update[OF i] by (simp add: opt_list_def)
  show "flatten (?ds[i := Some e]) = [e]" if "only_interface ia f"
  proof (rule flatten_single)
    show mem: "Some e \<in> set (?ds[i := Some e])" using i by (rule set_update_memI)
    then have "e \<in> set (flatten (?ds[i := Some e]))" by simp
    then have "length (flatten (?ds[i := Some e])) \<noteq> 0" by force
    then show "length (flatten (?ds[i := Some e])) = 1"
      using that len by (auto simp: only_interface_def split: if_splits)
  qed
qed

lemma frame_aggregate_keyboard:
  assumes inv: "aggregator_inv ia" and ctx: "frame_context ia f i x e" and agg: "frame_aggregate ia f i e = Inr a"
  shows "kb_fold (flatten ((ia_devices ia)[i := Some e])) physical_keyboard_new = Inr (pi_keyboard a)"
proof -
  have i: "i < length (ia_devices ia)" using ctx by (simp add: frame_context_def)
  consider (none) "sf_keyboard f = None" | (only) "sf_keyboard f \<noteq> None" "only_interface ia f"
    | (many) "sf_keyboard f \<noteq> None" "\<not> only_interface ia f" by blast
  then show ?thesis
  proof cases
    case none
    then have "kb_fold (opt_list (Some e)) = kb_fold (opt_list (ia_devices ia ! i))"
      using ctx kb_fold_neutral[of e]
      by (auto simp: frame_context_def opt_list_def fun_eq_iff device_input_new_def)
    then have "kb_fold (flatten ((ia_devices ia)[i := Some e])) physical_keyboard_new =
        kb_fold (flatten (ia_devices ia)) physical_keyboard_new"
      by (rule kb_fold_update[OF i])
    moreover have "pi_keyboard a = pi_keyboard (ia_aggregate ia)"
      using agg none by (auto simp: frame_aggregate_def Let_def rebuild_mouse_buttons_replacing_def
          rebuild_consumer_replacing_def)
    ultimately show ?thesis using aggregator_inv_folds(1)[OF inv] by simp
  next
    case only
    then have "pi_keyboard a = di_keyboard e"
      using agg by (auto simp: frame_aggregate_def Let_def only_interface_def)
    moreover have "keys_ok (pk_keys (di_keyboard e))" using ctx by (simp add: frame_context_def entry_ok_def)
    ultimately show ?thesis using frame_table(4)[OF inv ctx only(2)] by (simp only: kb_fold_single)
  next
    case many
    then have "bindE (rebuild_keyboard_loop 0 i e (ia_devices ia) physical_keyboard_new)
        (\<lambda>kb. Inr kb) = Inr (pi_keyboard a)"
      using agg by (auto simp: frame_aggregate_def Let_def only_interface_def rebuild_keyboard_replacing_def
          bindE_Inr_iff rebuild_mouse_buttons_replacing_def rebuild_consumer_replacing_def)
    then show ?thesis by (simp add: rebuild_keyboard_loop_fold bindE_Inr_iff)
  qed
qed

lemma frame_aggregate_mouse:
  assumes inv: "aggregator_inv ia" and ctx: "frame_context ia f i x e" and agg: "frame_aggregate ia f i e = Inr a"
  shows "pi_mouse a = \<lparr>pm_buttons = mouse_fold (flatten ((ia_devices ia)[i := Some e])) 0\<rparr>"
proof -
  have i: "i < length (ia_devices ia)" using ctx by (simp add: frame_context_def)
  consider (none) "\<not> frame_buttons_changed ia f" | (only) "frame_buttons_changed ia f" "only_interface ia f"
    | (many) "frame_buttons_changed ia f" "\<not> only_interface ia f" by blast
  then show ?thesis
  proof cases
    case none
    then have "di_mouse_buttons e = di_mouse_buttons x"
      using ctx by (auto simp: frame_context_def frame_buttons_changed_def device_input_new_def Let_def split: option.splits)
    then have "buttons_or (opt_list (Some e)) = buttons_or (opt_list (ia_devices ia ! i))"
      using ctx by (auto simp: frame_context_def opt_list_def fun_eq_iff device_input_new_def)
    then have "buttons_or (flatten ((ia_devices ia)[i := Some e])) 0 = buttons_or (flatten (ia_devices ia)) 0"
      by (rule buttons_or_update[OF i])
    moreover have "list_all entry_ok (flatten (ia_devices ia))" using inv by (simp add: aggregator_inv_def)
    moreover have "pi_mouse a = pi_mouse (ia_aggregate ia)"
      using agg none by (auto simp: frame_aggregate_def Let_def bindE_Inr_iff rebuild_keyboard_replacing_def
          rebuild_consumer_replacing_def split: if_splits)
    ultimately show ?thesis
      using aggregator_inv_folds(2)[OF inv] frame_table(3)[OF inv ctx] by (simp add: mouse_fold_or)
  next
    case only
    then have "pi_mouse a = \<lparr>pm_buttons = di_mouse_buttons e\<rparr>"
      using agg by (auto simp: frame_aggregate_def Let_def only_interface_def bindE_Inr_iff split: if_splits)
    moreover have "entry_ok e" using ctx unfolding frame_context_def by (elim conjE)
    then have "buttons_ok (di_mouse_buttons e)" by (simp add: entry_ok_def)
    ultimately show ?thesis using frame_table(4)[OF inv ctx only(2)] mouse_fold_single by simp
  next
    case many
    then show ?thesis
      using agg by (auto simp: frame_aggregate_def Let_def only_interface_def bindE_Inr_iff rebuild_mouse_loop_fold
          rebuild_mouse_buttons_replacing_def rebuild_consumer_replacing_def split: if_splits)
  qed
qed

lemma frame_aggregate_consumer:
  assumes inv: "aggregator_inv ia" and ctx: "frame_context ia f i x e" and agg: "frame_aggregate ia f i e = Inr a"
  shows "pi_consumer a = fst (consumer_fold (flatten ((ia_devices ia)[i := Some e])) (consumer_state_new, None))"
proof -
  have i: "i < length (ia_devices ia)" using ctx by (simp add: frame_context_def)
  consider (none) "sf_consumer f = None" | (only) "sf_consumer f \<noteq> None" "only_interface ia f"
    | (many) "sf_consumer f \<noteq> None" "\<not> only_interface ia f" by blast
  then show ?thesis
  proof cases
    case none
    then have eq: "di_consumer e = di_consumer x" "di_consumer_generation e = di_consumer_generation x"
      using ctx by (simp_all add: frame_context_def)
    have "consumer_step cg e = consumer_step cg x" for cg
      by (simp only: consumer_step_def takes_consumer_def eq)
    moreover have "consumer_step cg (device_input_new d j) = cg" for cg d j
      by (simp add: consumer_step_def takes_consumer_def device_input_new_def consumer_state_new_def)
    ultimately have "consumer_fold (opt_list (Some e)) = consumer_fold (opt_list (ia_devices ia ! i))"
      using ctx unfolding frame_context_def opt_list_def fun_eq_iff by auto
    then have "consumer_fold (flatten ((ia_devices ia)[i := Some e])) cg = consumer_fold (flatten (ia_devices ia)) cg" for cg
      by (rule consumer_fold_update[OF i])
    moreover have "pi_consumer a = pi_consumer (ia_aggregate ia)"
      using agg none by (auto simp: frame_aggregate_def Let_def bindE_Inr_iff rebuild_keyboard_replacing_def
          rebuild_mouse_buttons_replacing_def split: if_splits)
    ultimately show ?thesis using aggregator_inv_folds(3)[OF inv] by simp
  next
    case only
    then have "pi_consumer a = di_consumer e"
      using agg by (auto simp: frame_aggregate_def Let_def only_interface_def bindE_Inr_iff split: if_splits)
    then show ?thesis using frame_table(4)[OF inv ctx only(2)] consumer_fold_single by simp
  next
    case many
    then show ?thesis
      using agg by (auto simp: frame_aggregate_def Let_def only_interface_def bindE_Inr_iff rebuild_consumer_loop_fold
          rebuild_consumer_replacing_def split: if_splits)
  qed
qed

lemma aggregator_inv_frame:
  assumes inv: "aggregator_inv ia" and f: "frame_ok f"
  shows "aggregator_inv (fst (aggregator_apply_frame ia f))"
proof (cases "prepare_frame ia f")
  case (Inl err)
  then show ?thesis using inv by (simp add: aggregator_apply_frame_def)
next
  case (Inr p)
  show ?thesis
  proof (cases "pf_index p")
    case None
    then have "commit_frame ia p = ia"
      using Inr by (cases ia) (auto simp: prepare_frame_def commit_frame_def bindE_Inr_iff split: if_splits)
    then show ?thesis using inv Inr by (simp add: aggregator_apply_frame_def)
  next
    case (Some i)
    then obtain e a g where slot: "frame_slot ia f = Inr i" and ent: "frame_entry ia f i = Inr e"
      and agg: "frame_aggregate ia f i e = Inr a"
      and p: "p = \<lparr>pf_index = Some i, pf_entry = Some e, pf_aggregate = Some a,
             pf_active_devices = ia_active_devices ia +
               (if interface_index (ia_devices ia) (sf_interface_id f) = None then 1 else 0),
             pf_next_consumer_generation = g\<rparr>"
      using Inr by (auto simp: prepare_frame_def bindE_Inr_iff split: if_splits)
    obtain x where ctx: "frame_context ia f i x e" using frame_context_ex[OF inv f slot ent] ..
    have "rebuild_aggregate ((ia_devices ia)[i := Some e]) = Inr a"
      using frame_aggregate_keyboard[OF inv ctx agg] frame_aggregate_mouse[OF inv ctx agg]
        frame_aggregate_consumer[OF inv ctx agg]
      by (cases a) (simp add: rebuild_aggregate_folds)
    then show ?thesis
      using frame_table[OF inv ctx] Inr p
      by (simp add: aggregator_apply_frame_def commit_frame_def aggregator_inv_def)
  qed
qed

section \<open>Removal\<close>

lemma aggregate_keys:
  assumes "aggregator_inv ia"
  shows "set (pk_keys (pi_keyboard (ia_aggregate ia))) = entry_keys (flatten (ia_devices ia))"
    and "keys_ok (pk_keys (pi_keyboard (ia_aggregate ia)))"
proof -
  have "keys_ok (pk_keys (di_keyboard e))" if "e \<in> set (flatten (ia_devices ia))" for e
    using assms that by (auto simp: aggregator_inv_def list_all_iff entry_ok_def)
  from kb_fold_Inr[OF aggregator_inv_folds(1)[OF assms] this]
  show "set (pk_keys (pi_keyboard (ia_aggregate ia))) = entry_keys (flatten (ia_devices ia))"
    and "keys_ok (pk_keys (pi_keyboard (ia_aggregate ia)))"
    by (auto simp: physical_keyboard_new_def)
qed

lemma rebuild_subset_total:
  assumes inv: "aggregator_inv ia" and sub: "set (flatten ds) \<subseteq> set (flatten (ia_devices ia))"
  shows "\<exists>a. rebuild_aggregate ds = Inr a"
proof -
  have "card (entry_keys (flatten ds)) \<le> card (set (pk_keys (pi_keyboard (ia_aggregate ia))))"
    using entry_keys_mono[OF sub] by (intro card_mono) (simp_all add: aggregate_keys(1)[OF inv])
  also have "\<dots> \<le> PHYSICAL_KEYBOARD_KEY_CAPACITY"
    using aggregate_keys(2)[OF inv] card_length[of "pk_keys (pi_keyboard (ia_aggregate ia))"]
    unfolding keys_ok_def by linarith
  finally have "\<exists>kb. kb_fold (flatten ds) physical_keyboard_new = Inr kb"
    using inv sub by (intro kb_fold_total)
      (auto simp: aggregator_inv_def list_all_iff entry_ok_def physical_keyboard_new_def)
  then show ?thesis by (auto simp: rebuild_aggregate_folds)
qed

lemma remove_entries_ok:
  assumes inv: "aggregator_inv ia" and sub: "set (flatten ds) \<subseteq> set (flatten (ia_devices ia))"
    and uniq: "unique_keys di_interface_id ds"
  shows "snd (remove_entries ia ds)" and "ia_devices (fst (remove_entries ia ds)) = ds"
    and "aggregator_inv (fst (remove_entries ia ds))"
proof -
  obtain a where a: "rebuild_aggregate ds = Inr a" using rebuild_subset_total[OF inv sub] ..
  then show "snd (remove_entries ia ds)" and "ia_devices (fst (remove_entries ia ds)) = ds"
    by (simp_all add: remove_entries_def)
  show "aggregator_inv (fst (remove_entries ia ds))"
    using inv sub uniq a by (auto simp: remove_entries_def aggregator_inv_def list_all_iff)
qed

definition drop_device :: "device_id \<Rightarrow> device_input_state option list \<Rightarrow> device_input_state option list" where
  "drop_device d = map (\<lambda>e. case e of Some x \<Rightarrow> if di_device_id x = d then None else e | None \<Rightarrow> None)"

lemma flatten_drop_device: "flatten (drop_device d es) = filter (\<lambda>e. di_device_id e \<noteq> d) (flatten es)"
  by (induction es rule: flatten.induct) (auto simp: drop_device_def)

lemma remove_device_alt:
  "remove_device ia d =
     (if \<not> list_ex (\<lambda>e. di_device_id e = d) (flatten (ia_devices ia)) then (ia, False)
      else remove_entries ia (drop_device d (ia_devices ia)))"
  by (simp add: remove_device_def drop_device_def)

lemma remove_device_ok:
  assumes "aggregator_inv ia"
  shows "aggregator_inv (fst (remove_device ia d))"
    and "snd (remove_device ia d) \<longleftrightarrow> (\<exists>e. Some e \<in> set (ia_devices ia) \<and> di_device_id e = d)"
    and "flatten (ia_devices (fst (remove_device ia d))) = filter (\<lambda>e. di_device_id e \<noteq> d) (flatten (ia_devices ia))"
proof -
  let ?ds = "drop_device d (ia_devices ia)"
  have sub: "set (flatten ?ds) \<subseteq> set (flatten (ia_devices ia))"
    unfolding flatten_drop_device by auto
  have uniq: "unique_keys di_interface_id ?ds"
    using assms by (auto simp: aggregator_inv_def unique_keys_def flatten_drop_device distinct_map inj_on_def)
  note R = remove_entries_ok[OF assms sub uniq]
  show "aggregator_inv (fst (remove_device ia d))" using R(3) assms by (simp add: remove_device_alt)
  show "snd (remove_device ia d) \<longleftrightarrow> (\<exists>e. Some e \<in> set (ia_devices ia) \<and> di_device_id e = d)"
    using R(1) by (auto simp: remove_device_alt list_ex_iff)
  show "flatten (ia_devices (fst (remove_device ia d))) = filter (\<lambda>e. di_device_id e \<noteq> d) (flatten (ia_devices ia))"
    using R(2) by (auto simp: remove_device_alt flatten_drop_device list_ex_iff intro!: sym[OF filter_True])
qed

lemma remove_interface_ok:
  assumes "aggregator_inv ia"
  shows "aggregator_inv (fst (remove_interface ia i)) \<and>
    (snd (remove_interface ia i) \<longleftrightarrow> interface_index (ia_devices ia) i \<noteq> None) \<and>
    (\<forall>e. Some e \<in> set (ia_devices (fst (remove_interface ia i))) \<longleftrightarrow>
      Some e \<in> set (ia_devices ia) \<and> di_interface_id e \<noteq> i)"
proof (cases "interface_index (ia_devices ia) i")
  case None
  then show ?thesis
    using assms device_slots.index_None_iff[of "ia_devices ia" i] by (auto simp: remove_interface_def)
next
  case (Some j)
  let ?ds = "(ia_devices ia)[j := None]"
  have uniq: "unique_keys di_interface_id (ia_devices ia)" using assms by (simp add: aggregator_inv_def)
  note mem = device_slots.mem_remove[OF uniq Some]
  have "set (flatten ?ds) \<subseteq> set (flatten (ia_devices ia))" using mem by auto
  note R = remove_entries_ok[OF assms this unique_keys_remove[OF uniq]]
  show ?thesis using R mem by (simp add: remove_interface_def Some)
qed

section \<open>Sequences of operations\<close>

datatype aggregator_op = AggFrame standard_input_frame | AggRemoveDevice device_id | AggRemoveInterface interface_id

fun aggregator_step :: "aggregator_op \<Rightarrow> input_aggregator \<Rightarrow> input_aggregator" where
  "aggregator_step (AggFrame f) ia = fst (aggregator_apply_frame ia f)"
| "aggregator_step (AggRemoveDevice d) ia = fst (remove_device ia d)"
| "aggregator_step (AggRemoveInterface i) ia = fst (remove_interface ia i)"

fun aggregator_op_ok :: "aggregator_op \<Rightarrow> bool" where
  "aggregator_op_ok (AggFrame f) = frame_ok f"
| "aggregator_op_ok _ = True"

fun aggregator_op_fails :: "aggregator_op \<Rightarrow> input_aggregator \<Rightarrow> bool" where
  "aggregator_op_fails (AggFrame f) ia = (\<not> is_ok (aggregator_apply_frame ia f))"
| "aggregator_op_fails (AggRemoveDevice d) ia = (\<not> snd (remove_device ia d))"
| "aggregator_op_fails (AggRemoveInterface i) ia = (\<not> snd (remove_interface ia i))"

lemma remove_entries_fails: "\<not> snd (remove_entries ia ds) \<Longrightarrow> fst (remove_entries ia ds) = ia"
  by (auto simp: remove_entries_def split: sum.splits)

interpretation agg: op_system_error aggregator_step aggregator_op_ok aggregator_inv aggregator_op_fails
proof
  fix s x
  assume "aggregator_inv s" and "aggregator_op_ok x"
  then show "aggregator_inv (aggregator_step x s)"
    by (cases x) (simp_all add: aggregator_inv_frame remove_device_ok remove_interface_ok)
next
  fix s x
  assume "aggregator_op_fails x s"
  then show "aggregator_step x s = s"
    by (cases x) (auto simp: aggregator_apply_frame_def remove_device_def remove_interface_def
        remove_entries_fails split: sum.splits option.splits if_splits)
qed

lemma buttons_or_bit:
  "bit (buttons_or es b) n \<longleftrightarrow> bit b n \<or> (\<exists>e\<in>set es. bit (di_mouse_buttons e) n)"
  by (induction es arbitrary: b) (auto simp: bit_or_iff)

lemma press_keys_modifiers: "pk_modifiers (fst (press_keys st ks)) = pk_modifiers st"
proof (induction ks arbitrary: st)
  case Nil
  then show ?case by simp
next
  case (Cons k ks)
  have "pk_modifiers (fst (press_key st k)) = pk_modifiers st"
    by (auto simp: press_key_def split: option.splits)
  then show ?case using Cons.IH by (cases "press_key st k"; cases "snd (press_key st k)") auto
qed

lemma kb_fold_modifiers:
  assumes "kb_fold es kb = Inr kb'"
  shows "bit (pk_modifiers kb') n \<longleftrightarrow> bit (pk_modifiers kb) n \<or> (\<exists>e\<in>set es. bit (pk_modifiers (di_keyboard e)) n)"
  using assms
proof (induction es arbitrary: kb)
  case Nil
  then show ?case by simp
next
  case (Cons e es)
  let ?kb = "kb\<lparr>pk_modifiers := pk_modifiers kb OR pk_modifiers (di_keyboard e)\<rparr>"
  obtain kb2 u where p: "press_keys ?kb (pk_keys (di_keyboard e)) = (kb2, Inr u)"
    and rest: "kb_fold es kb2 = Inr kb'"
    using Cons.prems by (auto split: prod.splits sum.splits)
  have "pk_modifiers (fst (press_keys ?kb (pk_keys (di_keyboard e)))) = pk_modifiers ?kb"
    by (rule press_keys_modifiers)
  then have "pk_modifiers kb2 = pk_modifiers kb OR pk_modifiers (di_keyboard e)" using p by simp
  then show ?case using Cons.IH[OF rest] by (auto simp: bit_or_iff)
qed

text \<open>
  The abstract table of interfaces: what a search by interface finds. A frame that changes
  something rewrites exactly its own interface's row, from the fields it carries.
\<close>

definition interface_view :: "input_aggregator \<Rightarrow> interface_id \<Rightarrow> device_input_state option" where
  "interface_view ia i = slot_get interface_index (ia_devices ia) i"

definition row_after :: "input_aggregator \<Rightarrow> standard_input_frame \<Rightarrow> device_input_state" where
  "row_after ia f =
     (let x = (case interface_view ia (sf_interface_id f) of
                 Some x \<Rightarrow> x | None \<Rightarrow> device_input_new (sf_device_id f) (sf_interface_id f))
      in x\<lparr>di_keyboard := (case sf_keyboard f of None \<Rightarrow> di_keyboard x
              | Some kf \<Rightarrow> \<lparr>pk_modifiers = kf_modifiers kf, pk_keys = kf_keys_down kf\<rparr>),
           di_mouse_buttons := (case sf_mouse f of None \<Rightarrow> di_mouse_buttons x | Some m \<Rightarrow> mf_buttons m),
           di_consumer := (case sf_consumer f of None \<Rightarrow> di_consumer x | Some c \<Rightarrow> \<lparr>cs_active = cf_active c\<rparr>),
           di_consumer_generation :=
             (if sf_consumer f = None then di_consumer_generation x else ia_next_consumer_generation ia)\<rparr>)"

definition frame_changes :: "input_aggregator \<Rightarrow> standard_input_frame \<Rightarrow> bool" where
  "frame_changes ia f \<longleftrightarrow> sf_keyboard f \<noteq> None \<or> sf_consumer f \<noteq> None \<or> frame_buttons_changed ia f"

lemma frame_entry_row:
  assumes "frame_slot ia f = Inr i" and "frame_entry ia f i = Inr e" and "frame_ok f"
  shows "e = row_after ia f"
proof -
  let ?x = "case interface_view ia (sf_interface_id f) of
      Some x \<Rightarrow> x | None \<Rightarrow> device_input_new (sf_device_id f) (sf_interface_id f)"
  have x: "(case ia_devices ia ! i of Some x \<Rightarrow> x | None \<Rightarrow> device_input_new (sf_device_id f) (sf_interface_id f)) = ?x"
    using assms(1) by (cases rule: frame_slotE) (simp_all add: interface_view_def slot_get_def)
  have kb: "replace_with_frame (di_keyboard ?x) kf = (\<lparr>pk_modifiers = kf_modifiers kf, pk_keys = kf_keys_down kf\<rparr>, Inr ())"
    if "sf_keyboard f = Some kf" for kf
    using assms(3) that by (intro replace_with_frame_ok) (simp add: frame_ok_def keys_ok_def)
  show ?thesis
    using assms(2) kb unfolding frame_entry_def x row_after_def Let_def
    by (cases "sf_keyboard f"; cases "sf_mouse f"; cases "sf_consumer f") auto
qed

lemma interface_view_frame:
  assumes inv: "aggregator_inv ia" and f: "frame_ok f" and ok: "is_ok (aggregator_apply_frame ia f)"
  shows "interface_view (fst (aggregator_apply_frame ia f)) =
    (if frame_changes ia f then (interface_view ia)(sf_interface_id f \<mapsto> row_after ia f) else interface_view ia)"
proof -
  obtain p where p: "prepare_frame ia f = Inr p"
    using ok by (auto simp: aggregator_apply_frame_def split: sum.splits)
  show ?thesis
  proof (cases "frame_changes ia f")
    case False
    then have "commit_frame ia p = ia"
      using p by (cases ia) (auto simp: prepare_frame_def commit_frame_def frame_changes_def)
    then show ?thesis using False p by (simp add: aggregator_apply_frame_def)
  next
    case True
    then obtain i e where slot: "frame_slot ia f = Inr i" and ent: "frame_entry ia f i = Inr e"
      and p': "pf_index p = Some i" "pf_entry p = Some e"
      using p by (auto simp: prepare_frame_def frame_changes_def bindE_Inr_iff split: if_splits)
    obtain x where ctx: "frame_context ia f i x e" using frame_context_ex[OF inv f slot ent] ..
    let ?ds = "(ia_devices ia)[i := Some e]"
    have e: "e = row_after ia f" using frame_entry_row[OF slot ent f] .
    have u: "unique_keys di_interface_id (ia_devices ia)" using inv by (simp add: aggregator_inv_def)
    have u': "unique_keys di_interface_id ?ds" by (rule frame_table(1)[OF inv ctx])
    have i: "i < length (ia_devices ia)" and id: "di_interface_id e = sf_interface_id f"
      using ctx by (simp_all add: frame_context_def)
    have prev: "ia_devices ia ! i = None \<or> (\<exists>y. ia_devices ia ! i = Some y \<and> di_interface_id y = di_interface_id e)"
      using slot by (cases rule: frame_slotE) (simp_all add: id)
    have "slot_get interface_index ?ds k = ((interface_view ia)(sf_interface_id f \<mapsto> e)) k" for k
      using device_slots.get_update_same[OF u' i] device_slots.get_update_other[OF u u' i prev, of k]
      by (auto simp: id interface_view_def)
    then have "slot_get interface_index ?ds = (interface_view ia)(sf_interface_id f \<mapsto> e)" by (rule ext)
    then show ?thesis
      using True p p' unfolding e
      by (simp add: aggregator_apply_frame_def commit_frame_def interface_view_def[abs_def])
  qed
qed

section \<open>Properties\<close>

abbreviation after_ops :: "nat \<Rightarrow> aggregator_op list \<Rightarrow> input_aggregator" where
  "after_ops n ops \<equiv> run aggregator_step ops (aggregator_new n)"

lemmas after_ops_inv = agg.run_inv[OF aggregator_inv_new]

text \<open>
  C1: the incremental update is equivalent to the full rebuild. After any sequence of frames,
  device removals and interface removals on a new aggregator, failing ones included, the
  stored aggregate is what \<open>rebuild_aggregate\<close> computes from the stored devices, the
  count of active devices is right and no interface occurs twice.
\<close>

theorem aggregate_is_rebuild:
  assumes "list_all aggregator_op_ok ops"
  shows "rebuild_aggregate (ia_devices (after_ops n ops)) = Inr (ia_aggregate (after_ops n ops)) \<and>
    ia_active_devices (after_ops n ops) = length (flatten (ia_devices (after_ops n ops))) \<and>
    distinct (map di_interface_id (flatten (ia_devices (after_ops n ops))))"
  using after_ops_inv[OF assms] by (simp add: aggregator_inv_def unique_keys_def)

definition sample_frame :: "interface_id \<Rightarrow> key_usage list \<Rightarrow> mouse_buttons \<Rightarrow> standard_input_frame" where
  "sample_frame i ks b =
     \<lparr>sf_device_id = 1, sf_interface_id = i, sf_keyboard = Some \<lparr>kf_modifiers = 2, kf_keys_down = ks\<rparr>,
      sf_mouse = Some \<lparr>mf_buttons = b, mf_movement = movement_neutral\<rparr>, sf_consumer = None\<rparr>"

definition sample_ops :: "aggregator_op list" where
  "sample_ops = [AggFrame (sample_frame 1 [4, 5] 1), AggFrame (sample_frame 2 [5, 6] 2), AggRemoveInterface 1]"

lemma sample_ops_ok: "list_all aggregator_op_ok sample_ops"
  by (simp add: sample_ops_def sample_frame_def frame_ok_def keys_ok_def buttons_ok_def
      PHYSICAL_KEYBOARD_KEY_CAPACITY_def)

theorem aggregate_is_rebuild_witness:
  "list_all aggregator_op_ok sample_ops \<and>
   rebuild_aggregate (ia_devices (after_ops 4 sample_ops)) = Inr (ia_aggregate (after_ops 4 sample_ops))"
  using aggregate_is_rebuild[OF sample_ops_ok, of 4] sample_ops_ok by simp

text \<open>
  C2: the aggregate holds the union of the connected devices' input. After any sequence of
  operations a key is held in the aggregate exactly if some interface holds it, and the same
  for every modifier bit and every mouse button bit; no key is listed twice and the key list
  is within its capacity.
\<close>

theorem aggregate_is_union:
  assumes "list_all aggregator_op_ok ops"
  shows "let devices = set (flatten (ia_devices (after_ops n ops))); a = ia_aggregate (after_ops n ops) in
    set (pk_keys (pi_keyboard a)) = (\<Union>e\<in>devices. set (pk_keys (di_keyboard e))) \<and>
    (\<forall>k. bit (pk_modifiers (pi_keyboard a)) k \<longleftrightarrow> (\<exists>e\<in>devices. bit (pk_modifiers (di_keyboard e)) k)) \<and>
    (\<forall>k. bit (pm_buttons (pi_mouse a)) k \<longleftrightarrow> (\<exists>e\<in>devices. bit (di_mouse_buttons e) k)) \<and>
    distinct (pk_keys (pi_keyboard a)) \<and> length (pk_keys (pi_keyboard a)) \<le> PHYSICAL_KEYBOARD_KEY_CAPACITY"
proof -
  note inv = after_ops_inv[OF assms(1), of n]
  note folds = aggregator_inv_folds[OF inv]
  have "list_all entry_ok (flatten (ia_devices (after_ops n ops)))" using inv by (simp add: aggregator_inv_def)
  then show ?thesis
    using aggregate_keys[OF inv] kb_fold_modifiers[OF folds(1)] folds(2)
    by (simp add: Let_def entry_keys_def keys_ok_def physical_keyboard_new_def mouse_fold_or buttons_or_bit)
qed

theorem aggregate_is_union_witness:
  "list_all aggregator_op_ok sample_ops \<and>
   set (pk_keys (pi_keyboard (ia_aggregate (after_ops 4 sample_ops)))) =
     (\<Union>e\<in>set (flatten (ia_devices (after_ops 4 sample_ops))). set (pk_keys (di_keyboard e)))"
  using aggregate_is_union[OF sample_ops_ok, of 4] sample_ops_ok by (simp add: Let_def)

text \<open>
  An accepted frame rewrites exactly the row of its own interface. Seen as a finite map from
  interfaces to their input state, an accepted frame is a single map update with the fields
  the frame carries, or no update when it changes neither keyboard, consumer control nor
  buttons; a rejected frame leaves the aggregator as it was.
\<close>

theorem frame_updates_one_row:
  assumes "list_all aggregator_op_ok ops" and "frame_ok f"
  shows "let ia = after_ops n ops in
    case aggregator_apply_frame ia f of
      (ia', Inl _) \<Rightarrow> ia' = ia
    | (ia', Inr _) \<Rightarrow> interface_view ia' =
        (if frame_changes ia f then (interface_view ia)(sf_interface_id f \<mapsto> row_after ia f) else interface_view ia)"
proof (cases "prepare_frame (after_ops n ops) f")
  case (Inl e)
  then show ?thesis by (simp add: aggregator_apply_frame_def)
next
  case (Inr p)
  then have ok: "is_ok (aggregator_apply_frame (after_ops n ops) f)" by (simp add: aggregator_apply_frame_def)
  from interface_view_frame[OF after_ops_inv[OF assms(1)] assms(2) ok] Inr
  show ?thesis by (simp add: aggregator_apply_frame_def)
qed

theorem frame_updates_one_row_witness:
  "case aggregator_apply_frame (after_ops 4 sample_ops) (sample_frame 3 [7] 0) of
      (ia', Inl _) \<Rightarrow> ia' = after_ops 4 sample_ops
    | (ia', Inr _) \<Rightarrow> interface_view ia' =
        (if frame_changes (after_ops 4 sample_ops) (sample_frame 3 [7] 0)
         then (interface_view (after_ops 4 sample_ops))(3 \<mapsto> row_after (after_ops 4 sample_ops) (sample_frame 3 [7] 0))
         else interface_view (after_ops 4 sample_ops))"
proof -
  have ok: "frame_ok (sample_frame 3 [7] 0)"
    by (simp add: sample_frame_def frame_ok_def keys_ok_def PHYSICAL_KEYBOARD_KEY_CAPACITY_def)
  have "sf_interface_id (sample_frame 3 [7] 0) = 3" by (simp add: sample_frame_def)
  then show ?thesis using frame_updates_one_row[OF sample_ops_ok ok, of 4] by (simp only: Let_def)
qed

text \<open>
  Removal never fails and is exact. After any sequence of operations, removing a device
  reports success exactly if some interface of it is stored (the rebuild inside cannot run
  out of key capacity), and afterwards the stored entries are those of the other devices, in
  their order.
\<close>

theorem removal_is_exact:
  assumes "list_all aggregator_op_ok ops"
  shows "let ia = after_ops n ops; es = flatten (ia_devices ia) in
    snd (remove_device ia d) = list_ex (\<lambda>e. di_device_id e = d) es \<and>
    flatten (ia_devices (fst (remove_device ia d))) = filter (\<lambda>e. di_device_id e \<noteq> d) es \<and>
    snd (remove_interface ia i) = (interface_view ia i \<noteq> None) \<and>
    set (flatten (ia_devices (fst (remove_interface ia i)))) = {e \<in> set es. di_interface_id e \<noteq> i}"
proof -
  note inv = after_ops_inv[OF assms(1), of n]
  show ?thesis
    using remove_device_ok[OF inv] remove_interface_ok[OF inv, of i]
      device_slots.get_None_iff[of "ia_devices (after_ops n ops)" i]
      device_slots.index_None_iff[of "ia_devices (after_ops n ops)" i]
    by (auto simp: interface_view_def list_ex_iff Let_def)
qed

theorem removal_is_exact_witness:
  "snd (remove_device (after_ops 4 sample_ops) 1) =
     list_ex (\<lambda>e. di_device_id e = 1) (flatten (ia_devices (after_ops 4 sample_ops)))"
  using removal_is_exact[OF sample_ops_ok, of 4 1 1] by (simp only: Let_def)

end
