(* ===== verification/HS_Movement.thy ===== *)
theory HS_Movement
  imports HS_Aggregator
begin

text \<open>
  Coalescing of relative mouse movement, before the bridge (\<open>src/input/movement_queue.rs\<close>,
  one slot per USB interface) and after it (\<open>src/mouse_accumulator.rs\<close>, one slot per
  host). Both keep four thirty-two bit axis counters per slot, add to them with saturation
  that is counted, and drain them in report-sized parts. The locale \<open>axis_ops\<close> is what
  both sets of axis helpers promise; conservation of movement is proved in it once.
\<close>

section \<open>Axis counters\<close>

record movement_stats =
  ms_reports_coalesced :: u32
  ms_movement_saturated :: u32

definition movement_stats_new :: movement_stats where
  "movement_stats_new = \<lparr>ms_reports_coalesced = 0, ms_movement_saturated = 0\<rparr>"

record pending_axes =
  pa_x :: int
  pa_y :: int
  pa_wheel :: int
  pa_pan :: int

type_synonym axis_add = "int \<Rightarrow> int \<Rightarrow> movement_stats \<Rightarrow> int \<times> movement_stats"

text \<open>The four additions at the end of both \<open>push\<close> methods.\<close>

definition add_movement ::
    "axis_add \<Rightarrow> 'a pending_axes_scheme \<Rightarrow> mouse_movement \<Rightarrow> movement_stats \<Rightarrow>
      'a pending_axes_scheme \<times> movement_stats" where
  "add_movement add p m st =
     (let (x, st1) = add (pa_x p) (sint (mm_x m)) st;
          (y, st2) = add (pa_y p) (sint (mm_y m)) st1;
          (wheel, st3) = add (pa_wheel p) (sint (mm_wheel m)) st2;
          (pan, st4) = add (pa_pan p) (sint (mm_pan m)) st3
      in (p\<lparr>pa_x := x, pa_y := y, pa_wheel := wheel, pa_pan := pan\<rparr>, st4))"

text \<open>The four parts both \<open>take_next\<close> methods take.\<close>

definition take_movement ::
    "(int \<Rightarrow> i16 \<times> int) \<Rightarrow> (int \<Rightarrow> i8 \<times> int) \<Rightarrow> 'a pending_axes_scheme \<Rightarrow>
      mouse_movement \<times> 'a pending_axes_scheme" where
  "take_movement take16 take8 p =
     (let (x, rx) = take16 (pa_x p);
          (y, ry) = take16 (pa_y p);
          (wheel, rw) = take8 (pa_wheel p);
          (pan, rp) = take8 (pa_pan p)
      in (\<lparr>mm_x = x, mm_y = y, mm_wheel = wheel, mm_pan = pan\<rparr>,
          p\<lparr>pa_x := rx, pa_y := ry, pa_wheel := rw, pa_pan := rp\<rparr>))"

definition axes_nonzero :: "'a pending_axes_scheme \<Rightarrow> bool" where
  "axes_nonzero p = (pa_x p \<noteq> 0 \<or> pa_y p \<noteq> 0 \<or> pa_wheel p \<noteq> 0 \<or> pa_pan p \<noteq> 0)"

section \<open>The USB movement coalescer\<close>

record pending_movement = pending_axes +
  pv_device_id :: device_id
  pv_interface_id :: interface_id
  pv_buttons :: mouse_buttons
  pv_pending :: bool

datatype coalescer_error = NotMovementOnly | InterfaceCapacity

record movement_coalescer =
  mc_pending :: "pending_movement list"
  mc_stats :: movement_stats

definition pending_movement_new :: pending_movement where
  "pending_movement_new =
     \<lparr>pa_x = 0, pa_y = 0, pa_wheel = 0, pa_pan = 0, pv_device_id = 0, pv_interface_id = 0,
      pv_buttons = 0, pv_pending = False\<rparr>"

definition coalescer_new :: "nat \<Rightarrow> movement_coalescer" where
  "coalescer_new n = \<lparr>mc_pending = replicate n pending_movement_new, mc_stats = movement_stats_new\<rparr>"

definition add_axis :: axis_add where
  "add_axis current delta st =
     (case i32_checked_add current delta of
        Some v \<Rightarrow> (v, st)
      | None \<Rightarrow> (i32_saturating_add current delta,
                 st\<lparr>ms_movement_saturated := sat_add (ms_movement_saturated st) 1\<rparr>))"

definition take_axis_i16 :: "int \<Rightarrow> i16 \<times> int" where
  "take_axis_i16 value =
     (let output = word_of_int (clampi (- 32768) 32767 value) in (output, value - sint output))"

definition take_axis_i8 :: "int \<Rightarrow> i8 \<times> int" where
  "take_axis_i8 value =
     (let output = word_of_int (clampi (- 128) 127 value) in (output, value - sint output))"

definition coalescer_slot :: "movement_coalescer \<Rightarrow> interface_id \<Rightarrow> nat option" where
  "coalescer_slot mc i =
     (case position (\<lambda>p. pv_pending p \<and> pv_interface_id p = i) (mc_pending mc) of
        Some j \<Rightarrow> Some j
      | None \<Rightarrow> position (\<lambda>p. \<not> pv_pending p) (mc_pending mc))"

definition coalescer_push ::
    "movement_coalescer \<Rightarrow> standard_input_frame \<Rightarrow> (movement_coalescer, coalescer_error, unit) outcome" where
  "coalescer_push mc f =
     (case sf_mouse f of
        None \<Rightarrow> (mc, Inl NotMovementOnly)
      | Some mouse \<Rightarrow>
          if sf_keyboard f \<noteq> None \<or> sf_consumer f \<noteq> None \<or> mf_movement mouse = movement_neutral
          then (mc, Inl NotMovementOnly)
          else (case coalescer_slot mc (sf_interface_id f) of
                  None \<Rightarrow> (mc, Inl InterfaceCapacity)
                | Some index \<Rightarrow>
                    let p = mc_pending mc ! index in
                    if pv_pending p \<and> (pv_device_id p \<noteq> sf_device_id f \<or> pv_buttons p \<noteq> mf_buttons mouse)
                    then (mc, Inl NotMovementOnly)
                    else
                      let st = (if pv_pending p
                                then (mc_stats mc)\<lparr>ms_reports_coalesced := sat_add (ms_reports_coalesced (mc_stats mc)) 1\<rparr>
                                else mc_stats mc);
                          p1 = (if pv_pending p then p
                                else p\<lparr>pv_device_id := sf_device_id f, pv_interface_id := sf_interface_id f,
                                       pv_buttons := mf_buttons mouse, pv_pending := True\<rparr>);
                          (p2, st2) = add_movement add_axis p1 (mf_movement mouse) st
                      in (\<lparr>mc_pending = (mc_pending mc)[index := p2], mc_stats = st2\<rparr>, Inr ())))"

definition coalescer_take_next :: "movement_coalescer \<Rightarrow> movement_coalescer \<times> standard_input_frame option" where
  "coalescer_take_next mc =
     (case position pv_pending (mc_pending mc) of
        None \<Rightarrow> (mc, None)
      | Some index \<Rightarrow>
          let p = mc_pending mc ! index;
              (movement, p1) = take_movement take_axis_i16 take_axis_i8 p;
              p2 = p1\<lparr>pv_pending := axes_nonzero p1\<rparr>
          in (mc\<lparr>mc_pending := (mc_pending mc)[index := p2]\<rparr>,
              Some \<lparr>sf_device_id = pv_device_id p, sf_interface_id = pv_interface_id p, sf_keyboard = None,
                    sf_mouse = Some \<lparr>mf_buttons = pv_buttons p, mf_movement = movement\<rparr>, sf_consumer = None\<rparr>))"

section \<open>The per-host mouse accumulator\<close>

record pending_mouse_state = pending_axes +
  ph_buttons :: u8
  ph_pending :: bool

record mouse_accumulator =
  ma_hosts :: "pending_mouse_state list"
  ma_stats :: movement_stats

definition pending_mouse_default :: pending_mouse_state where
  "pending_mouse_default =
     \<lparr>pa_x = 0, pa_y = 0, pa_wheel = 0, pa_pan = 0, ph_buttons = 0, ph_pending = False\<rparr>"

definition accumulator_new :: "nat \<Rightarrow> mouse_accumulator" where
  "accumulator_new n = \<lparr>ma_hosts = replicate n pending_mouse_default, ma_stats = movement_stats_new\<rparr>"

definition accumulator_host_index :: "nat \<Rightarrow> host_id \<Rightarrow> nat option" where
  "accumulator_host_index n host =
     Option.bind (checked_sub host 1) (\<lambda>w. let index = unat w in if index < n then Some index else None)"

definition acc_saturating_add :: axis_add where
  "acc_saturating_add current delta st =
     (case i32_checked_add current delta of
        Some v \<Rightarrow> (v, st)
      | None \<Rightarrow> (i32_saturating_add current delta,
                 st\<lparr>ms_movement_saturated := sat_add (ms_movement_saturated st) 1\<rparr>))"

definition acc_take_axis_i16 :: "int \<Rightarrow> i16 \<times> int" where
  "acc_take_axis_i16 value =
     (let part = word_of_int (clampi (- 32768) 32767 value) in (part, value - sint part))"

definition acc_take_axis_i8 :: "int \<Rightarrow> i8 \<times> int" where
  "acc_take_axis_i8 value =
     (let part = word_of_int (clampi (- 128) 127 value) in (part, value - sint part))"

definition accumulator_push :: "mouse_accumulator \<Rightarrow> host_id \<Rightarrow> mouse_report \<Rightarrow> mouse_accumulator \<times> bool" where
  "accumulator_push ma host report =
     (case accumulator_host_index (length (ma_hosts ma)) host of
        None \<Rightarrow> (ma, False)
      | Some index \<Rightarrow>
          let movement = mouse_report_movement report;
              s = ma_hosts ma ! index
          in if mouse_report_buttons report \<noteq> ph_buttons s \<and> ph_pending s then (ma, False)
             else
               let s1 = (if mouse_report_buttons report \<noteq> ph_buttons s
                         then s\<lparr>ph_buttons := mouse_report_buttons report\<rparr> else s);
                   st = (if ph_pending s1
                         then (ma_stats ma)\<lparr>ms_reports_coalesced := sat_add (ms_reports_coalesced (ma_stats ma)) 1\<rparr>
                         else ma_stats ma);
                   (s2, st2) = add_movement acc_saturating_add s1 movement st
               in (\<lparr>ma_hosts = (ma_hosts ma)[index := s2\<lparr>ph_pending := True\<rparr>], ma_stats = st2\<rparr>, True))"

definition accumulator_set_buttons :: "mouse_accumulator \<Rightarrow> host_id \<Rightarrow> u8 \<Rightarrow> mouse_accumulator \<times> bool" where
  "accumulator_set_buttons ma host b =
     (case accumulator_host_index (length (ma_hosts ma)) host of
        None \<Rightarrow> (ma, False)
      | Some index \<Rightarrow>
          (ma\<lparr>ma_hosts := (ma_hosts ma)[index := (ma_hosts ma ! index)\<lparr>ph_buttons := b\<rparr>]\<rparr>, True))"

definition accumulator_buttons :: "mouse_accumulator \<Rightarrow> host_id \<Rightarrow> u8 option" where
  "accumulator_buttons ma host =
     map_option (\<lambda>index. ph_buttons (ma_hosts ma ! index)) (accumulator_host_index (length (ma_hosts ma)) host)"

definition accumulator_take_next :: "mouse_accumulator \<Rightarrow> host_id \<Rightarrow> mouse_accumulator \<times> mouse_report option" where
  "accumulator_take_next ma host =
     (case accumulator_host_index (length (ma_hosts ma)) host of
        None \<Rightarrow> (ma, None)
      | Some index \<Rightarrow>
          let s = ma_hosts ma ! index in
          if \<not> ph_pending s then (ma, None)
          else
            let (movement, s1) = take_movement acc_take_axis_i16 acc_take_axis_i8 s;
                s2 = s1\<lparr>ph_pending := axes_nonzero s1\<rparr>
            in (ma\<lparr>ma_hosts := (ma_hosts ma)[index := s2]\<rparr>,
                Some (mouse_report_from_frame (buttons_from_bits_truncate (ph_buttons s)) movement)))"

definition accumulator_discard :: "mouse_accumulator \<Rightarrow> host_id \<Rightarrow> mouse_accumulator" where
  "accumulator_discard ma host =
     (case accumulator_host_index (length (ma_hosts ma)) host of
        None \<Rightarrow> ma
      | Some index \<Rightarrow> ma\<lparr>ma_hosts := (ma_hosts ma)[index := pending_mouse_default]\<rparr>)"

definition accumulator_discard_all :: "mouse_accumulator \<Rightarrow> mouse_accumulator" where
  "accumulator_discard_all ma = ma\<lparr>ma_hosts := replicate (length (ma_hosts ma)) pending_mouse_default\<rparr>"

definition accumulator_is_pending :: "mouse_accumulator \<Rightarrow> host_id \<Rightarrow> bool" where
  "accumulator_is_pending ma host =
     (case accumulator_host_index (length (ma_hosts ma)) host of
        None \<Rightarrow> False | Some index \<Rightarrow> ph_pending (ma_hosts ma ! index))"

section \<open>The axis contract\<close>

datatype axis = AxX | AxY | AxWheel | AxPan

fun axis_of :: "axis \<Rightarrow> 'a pending_axes_scheme \<Rightarrow> int" where
  "axis_of AxX p = pa_x p"
| "axis_of AxY p = pa_y p"
| "axis_of AxWheel p = pa_wheel p"
| "axis_of AxPan p = pa_pan p"

fun movement_axis :: "axis \<Rightarrow> mouse_movement \<Rightarrow> int" where
  "movement_axis AxX m = sint (mm_x m)"
| "movement_axis AxY m = sint (mm_y m)"
| "movement_axis AxWheel m = sint (mm_wheel m)"
| "movement_axis AxPan m = sint (mm_pan m)"

definition axes_in_range :: "'a pending_axes_scheme \<Rightarrow> bool" where
  "axes_in_range p = (\<forall>a. i32_min \<le> axis_of a p \<and> axis_of a p \<le> i32_max)"

lemma axis_of_more [simp]:
  "axis_of a (p\<lparr>pv_pending := b\<rparr>) = axis_of a p"
  "axis_of a (p\<lparr>pv_device_id := d\<rparr>) = axis_of a p"
  "axis_of a (p\<lparr>pv_interface_id := i\<rparr>) = axis_of a p"
  "axis_of a (p\<lparr>pv_buttons := bs\<rparr>) = axis_of a p"
  "axis_of a (q\<lparr>ph_pending := b\<rparr>) = axis_of a q"
  "axis_of a (q\<lparr>ph_buttons := u\<rparr>) = axis_of a q"
  by (cases a; simp)+

lemma axes_nonzero_iff: "axes_nonzero p \<longleftrightarrow> (\<exists>a. axis_of a p \<noteq> 0)"
proof
  assume "axes_nonzero p"
  then show "\<exists>a. axis_of a p \<noteq> 0"
    unfolding axes_nonzero_def by (metis axis_of.simps)
next
  assume "\<exists>a. axis_of a p \<noteq> 0"
  then obtain a where "axis_of a p \<noteq> 0" ..
  then show "axes_nonzero p" by (cases a) (simp_all add: axes_nonzero_def)
qed

locale axis_ops =
  fixes add :: axis_add and take16 :: "int \<Rightarrow> i16 \<times> int" and take8 :: "int \<Rightarrow> i8 \<times> int"
  assumes add_exact: "i32_min \<le> c + d \<Longrightarrow> c + d \<le> i32_max \<Longrightarrow> add c d st = (c + d, st)"
    and add_clip: "\<not> (i32_min \<le> c + d \<and> c + d \<le> i32_max) \<Longrightarrow>
      add c d st = (clampi i32_min i32_max (c + d), st\<lparr>ms_movement_saturated := sat_add (ms_movement_saturated st) 1\<rparr>)"
    and take16_part: "sint (fst (take16 v)) = clampi (- 32768) 32767 v"
    and take16_rest: "snd (take16 v) = v - sint (fst (take16 v))"
    and take8_part: "sint (fst (take8 v)) = clampi (- 128) 127 v"
    and take8_rest: "snd (take8 v) = v - sint (fst (take8 v))"
begin

lemma add_range: "i32_min \<le> fst (add c d st) \<and> fst (add c d st) \<le> i32_max"
  by (cases "i32_min \<le> c + d \<and> c + d \<le> i32_max") (auto simp: add_exact add_clip clampi_def)

lemma add_saturated_mono: "ms_movement_saturated st \<le> ms_movement_saturated (snd (add c d st))"
  by (cases "i32_min \<le> c + d \<and> c + d \<le> i32_max") (auto simp: add_exact add_clip sat_add_ge)

lemma add_sum:
  assumes "ms_movement_saturated (snd (add c d st)) = 0"
  shows "fst (add c d st) = c + d" and "ms_movement_saturated st = 0"
proof -
  have "unat (sat_add (ms_movement_saturated st) 1) \<noteq> 0" by (simp add: unat_sat_add)
  then have "sat_add (ms_movement_saturated st) 1 \<noteq> 0" by auto
  then have "i32_min \<le> c + d \<and> c + d \<le> i32_max" using assms by (rule_tac ccontr) (simp add: add_clip)
  then show "fst (add c d st) = c + d" and "ms_movement_saturated st = 0"
    using assms by (simp_all add: add_exact)
qed

lemma add_movement_range: "axes_in_range (fst (add_movement add p m st))"
  unfolding axes_in_range_def
proof (rule allI)
  fix a
  show "i32_min \<le> axis_of a (fst (add_movement add p m st)) \<and> axis_of a (fst (add_movement add p m st)) \<le> i32_max"
    using add_range by (cases a) (simp_all add: add_movement_def Let_def case_prod_beta)
qed

lemma add_movement_sum:
  assumes "ms_movement_saturated (snd (add_movement add p m st)) = 0"
  shows "axis_of a (fst (add_movement add p m st)) = axis_of a p + movement_axis a m"
    and "ms_movement_saturated st = 0"
proof -
  have 4: "ms_movement_saturated (snd (add (pa_pan p) (sint (mm_pan m)) (snd (add (pa_wheel p) (sint (mm_wheel m))
      (snd (add (pa_y p) (sint (mm_y m)) (snd (add (pa_x p) (sint (mm_x m)) st)))))))) = 0"
    using assms by (simp add: add_movement_def Let_def case_prod_beta)
  note 3 = add_sum(2)[OF 4] note 2 = add_sum(2)[OF 3] note 1 = add_sum(2)[OF 2]
  show "axis_of a (fst (add_movement add p m st)) = axis_of a p + movement_axis a m"
    using add_sum(1)[OF 4] add_sum(1)[OF 3] add_sum(1)[OF 2] add_sum(1)[OF 1]
    by (cases a) (simp_all add: add_movement_def Let_def case_prod_beta)
  show "ms_movement_saturated st = 0" using add_sum(2)[OF 1] .
qed

lemma take_movement_sum:
  "axis_of a (snd (take_movement take16 take8 p)) + movement_axis a (fst (take_movement take16 take8 p)) = axis_of a p"
  by (cases a) (simp_all add: take_movement_def Let_def case_prod_beta take16_rest take8_rest)

lemma take_movement_shrinks:
  "\<bar>axis_of a (snd (take_movement take16 take8 p))\<bar> \<le> max 0 (\<bar>axis_of a p\<bar> - 127)"
  by (cases a) (simp_all add: take_movement_def Let_def case_prod_beta take16_rest take8_rest take16_part
      take8_part clampi_def)

end

interpretation coalescer_axes: axis_ops add_axis take_axis_i16 take_axis_i8
  by unfold_locales
    (auto simp: add_axis_def take_axis_i16_def take_axis_i8_def i32_checked_add_def i32_saturating_add_def
      sint_clamp16 sint_clamp8 Let_def)

interpretation accumulator_axes: axis_ops acc_saturating_add acc_take_axis_i16 acc_take_axis_i8
  by unfold_locales
    (auto simp: acc_saturating_add_def acc_take_axis_i16_def acc_take_axis_i8_def i32_checked_add_def
      i32_saturating_add_def sint_clamp16 sint_clamp8 Let_def)

lemma add_movement_fields:
  "pv_pending (fst (add_movement f p m st)) = pv_pending p"
  "pv_device_id (fst (add_movement f p m st)) = pv_device_id p"
  "pv_interface_id (fst (add_movement f p m st)) = pv_interface_id p"
  "pv_buttons (fst (add_movement f p m st)) = pv_buttons p"
  "ph_pending (fst (add_movement f q m st)) = ph_pending q"
  "ph_buttons (fst (add_movement f q m st)) = ph_buttons q"
  by (simp_all add: add_movement_def Let_def case_prod_beta)

lemma take_movement_fields:
  "pv_device_id (snd (take_movement f g p)) = pv_device_id p"
  "pv_interface_id (snd (take_movement f g p)) = pv_interface_id p"
  "pv_buttons (snd (take_movement f g p)) = pv_buttons p"
  "ph_buttons (snd (take_movement f g q)) = ph_buttons q"
  by (simp_all add: take_movement_def Let_def case_prod_beta)

lemma sum_list_map_update:
  "j < length ps \<Longrightarrow> sum_list (map g (ps[j := p])) = sum_list (map g ps) - g (ps ! j) + (g p :: int)"
proof (induction ps arbitrary: j)
  case Nil
  then show ?case by simp
next
  case (Cons q ps)
  then show ?case by (cases j) auto
qed

section \<open>Conservation in the coalescer\<close>

text \<open>
  A ledger of what the coalescer accepted and what it handed out, for every axis and every
  combination of device, interface and button state.
\<close>

type_synonym movement_key = "device_id \<times> interface_id \<times> mouse_buttons"

datatype coalescer_op = CoPush standard_input_frame | CoTake

record coalescer_ledger =
  cl_state :: movement_coalescer
  cl_accepted :: "movement_key \<Rightarrow> axis \<Rightarrow> int"
  cl_emitted :: "movement_key \<Rightarrow> axis \<Rightarrow> int"

definition credit ::
    "standard_input_frame \<Rightarrow> (movement_key \<Rightarrow> axis \<Rightarrow> int) \<Rightarrow> movement_key \<Rightarrow> axis \<Rightarrow> int" where
  "credit f t k a =
     t k a + (case sf_mouse f of None \<Rightarrow> 0
              | Some m \<Rightarrow> if k = (sf_device_id f, sf_interface_id f, mf_buttons m)
                         then movement_axis a (mf_movement m) else 0)"

fun coalescer_step :: "coalescer_op \<Rightarrow> coalescer_ledger \<Rightarrow> coalescer_ledger" where
  "coalescer_step (CoPush f) l =
     (case coalescer_push (cl_state l) f of
        (mc, Inl _) \<Rightarrow> l\<lparr>cl_state := mc\<rparr>
      | (mc, Inr _) \<Rightarrow> l\<lparr>cl_state := mc, cl_accepted := credit f (cl_accepted l)\<rparr>)"
| "coalescer_step CoTake l =
     (case coalescer_take_next (cl_state l) of
        (mc, None) \<Rightarrow> l\<lparr>cl_state := mc\<rparr>
      | (mc, Some f) \<Rightarrow> l\<lparr>cl_state := mc, cl_emitted := credit f (cl_emitted l)\<rparr>)"

definition ledger_new :: "nat \<Rightarrow> coalescer_ledger" where
  "ledger_new n = \<lparr>cl_state = coalescer_new n, cl_accepted = (\<lambda>_ _. 0), cl_emitted = (\<lambda>_ _. 0)\<rparr>"

definition slot_share :: "movement_key \<Rightarrow> axis \<Rightarrow> pending_movement \<Rightarrow> int" where
  "slot_share k a p =
     (if pv_pending p \<and> k = (pv_device_id p, pv_interface_id p, pv_buttons p) then axis_of a p else 0)"

definition still_pending :: "movement_key \<Rightarrow> axis \<Rightarrow> movement_coalescer \<Rightarrow> int" where
  "still_pending k a mc = sum_list (map (slot_share k a) (mc_pending mc))"

definition slot_clean :: "pending_movement \<Rightarrow> bool" where
  "slot_clean p = ((\<not> pv_pending p \<longrightarrow> \<not> axes_nonzero p) \<and> axes_in_range p)"

definition ledger_inv :: "coalescer_ledger \<Rightarrow> bool" where
  "ledger_inv l =
     ((\<forall>p\<in>set (mc_pending (cl_state l)). slot_clean p) \<and>
      (ms_movement_saturated (mc_stats (cl_state l)) = 0 \<longrightarrow>
        (\<forall>k a. cl_accepted l k a = cl_emitted l k a + still_pending k a (cl_state l))))"

lemma ledger_inv_new: "ledger_inv (ledger_new n)"
proof -
  have "axis_of a pending_movement_new = 0" for a by (cases a) (simp_all add: pending_movement_new_def)
  then have "slot_clean pending_movement_new"
    by (simp add: slot_clean_def axes_nonzero_iff axes_in_range_def)
  moreover have "\<not> pv_pending pending_movement_new" by (simp add: pending_movement_new_def)
  ultimately show ?thesis
    by (simp add: ledger_inv_def ledger_new_def coalescer_new_def still_pending_def slot_share_def sum_list_replicate)
qed

lemma coalescer_slot_Some:
  assumes "coalescer_slot mc i = Some j"
  shows "j < length (mc_pending mc)"
    and "pv_pending (mc_pending mc ! j) \<Longrightarrow> pv_interface_id (mc_pending mc ! j) = i"
  using assms unfolding coalescer_slot_def by (auto split: option.splits simp: position_Some_iff)

lemma coalescer_push_Inr:
  assumes "coalescer_push mc f = (mc', Inr u)"
  obtains m j p1 st where "sf_mouse f = Some m" and "j < length (mc_pending mc)" and "pv_pending p1"
    and "(pv_device_id p1, pv_interface_id p1, pv_buttons p1) = (sf_device_id f, sf_interface_id f, mf_buttons m)"
    and "pv_pending (mc_pending mc ! j) \<Longrightarrow> p1 = mc_pending mc ! j"
    and "\<And>a. axis_of a p1 = axis_of a (mc_pending mc ! j)"
    and "ms_movement_saturated st = ms_movement_saturated (mc_stats mc)"
    and "mc' = \<lparr>mc_pending = (mc_pending mc)[j := fst (add_movement add_axis p1 (mf_movement m) st)],
                mc_stats = snd (add_movement add_axis p1 (mf_movement m) st)\<rparr>"
proof -
  obtain m where m: "sf_mouse f = Some m"
    using assms by (auto simp: coalescer_push_def split: option.splits)
  obtain j where j: "coalescer_slot mc (sf_interface_id f) = Some j"
    using assms m by (auto simp: coalescer_push_def split: option.splits if_splits)
  let ?p = "mc_pending mc ! j"
  let ?p1 = "if pv_pending ?p then ?p
     else ?p\<lparr>pv_device_id := sf_device_id f, pv_interface_id := sf_interface_id f, pv_buttons := mf_buttons m, pv_pending := True\<rparr>"
  let ?st = "if pv_pending ?p then (mc_stats mc)\<lparr>ms_reports_coalesced := sat_add (ms_reports_coalesced (mc_stats mc)) 1\<rparr>
     else mc_stats mc"
  have same: "\<not> (pv_pending ?p \<and> (pv_device_id ?p \<noteq> sf_device_id f \<or> pv_buttons ?p \<noteq> mf_buttons m))"
    and mc': "mc' = \<lparr>mc_pending = (mc_pending mc)[j := fst (add_movement add_axis ?p1 (mf_movement m) ?st)],
                mc_stats = snd (add_movement add_axis ?p1 (mf_movement m) ?st)\<rparr>"
    using assms m j by (auto simp: coalescer_push_def Let_def case_prod_beta split: if_splits)
  show thesis
    using coalescer_slot_Some[OF j] same
    by (intro that[of m j ?p1 ?st]) (auto simp: m mc')
qed

lemma ledger_inv_push:
  assumes inv: "ledger_inv l" and push: "coalescer_push (cl_state l) f = (mc', Inr u)"
  shows "ledger_inv (l\<lparr>cl_state := mc', cl_accepted := credit f (cl_accepted l)\<rparr>)"
  using push
proof (rule coalescer_push_Inr)
  let ?ps = "mc_pending (cl_state l)"
  fix m j p1 st
  assume m: "sf_mouse f = Some m" and j: "j < length ?ps" and p1: "pv_pending p1"
    and key: "(pv_device_id p1, pv_interface_id p1, pv_buttons p1) = (sf_device_id f, sf_interface_id f, mf_buttons m)"
    and old: "pv_pending (?ps ! j) \<Longrightarrow> p1 = ?ps ! j" and ax: "\<And>a. axis_of a p1 = axis_of a (?ps ! j)"
    and st: "ms_movement_saturated st = ms_movement_saturated (mc_stats (cl_state l))"
    and mc': "mc' = \<lparr>mc_pending = ?ps[j := fst (add_movement add_axis p1 (mf_movement m) st)],
                mc_stats = snd (add_movement add_axis p1 (mf_movement m) st)\<rparr>"
  let ?p2 = "fst (add_movement add_axis p1 (mf_movement m) st)"
  have clean: "slot_clean (?ps ! j)" using inv j by (simp add: ledger_inv_def)
  have p2: "slot_clean ?p2"
    using p1 coalescer_axes.add_movement_range by (simp add: slot_clean_def add_movement_fields)
  have sum: "cl_accepted l k a + (if k = (sf_device_id f, sf_interface_id f, mf_buttons m) then movement_axis a (mf_movement m) else 0) =
      cl_emitted l k a + still_pending k a mc'"
    if "ms_movement_saturated (mc_stats mc') = 0" for k a
  proof -
    have sat: "ms_movement_saturated (snd (add_movement add_axis p1 (mf_movement m) st)) = 0"
      using that mc' by simp
    have "cl_accepted l k a = cl_emitted l k a + still_pending k a (cl_state l)"
      using inv coalescer_axes.add_movement_sum(2)[OF sat] st unfolding ledger_inv_def by metis
    moreover have "slot_share k a ?p2 = slot_share k a (?ps ! j) +
        (if k = (sf_device_id f, sf_interface_id f, mf_buttons m) then movement_axis a (mf_movement m) else 0)"
      using clean old p1 key ax coalescer_axes.add_movement_sum(1)[OF sat, of a]
      by (cases "pv_pending (?ps ! j)") (auto simp: slot_share_def add_movement_fields slot_clean_def axes_nonzero_iff)
    ultimately show ?thesis by (simp add: mc' still_pending_def sum_list_map_update[OF j])
  qed
  have "\<forall>p\<in>set (mc_pending mc'). slot_clean p"
    using inv p2 by (auto simp: mc' ledger_inv_def dest!: subsetD[OF set_update_subset_insert])
  then show ?thesis using sum by (simp add: ledger_inv_def credit_def m)
qed

lemma ledger_inv_take:
  assumes inv: "ledger_inv l" and take: "coalescer_take_next (cl_state l) = (mc', Some f)"
  shows "ledger_inv (l\<lparr>cl_state := mc', cl_emitted := credit f (cl_emitted l)\<rparr>)"
proof -
  let ?ps = "mc_pending (cl_state l)"
  obtain j where pos: "position pv_pending ?ps = Some j"
    using take by (auto simp: coalescer_take_next_def split: option.splits)
  have j: "j < length ?ps" and pend: "pv_pending (?ps ! j)" using position_SomeD[OF pos] by simp_all
  let ?mp = "take_movement take_axis_i16 take_axis_i8 (?ps ! j)"
  let ?p2 = "(snd ?mp)\<lparr>pv_pending := axes_nonzero (snd ?mp)\<rparr>"
  have mc': "mc' = (cl_state l)\<lparr>mc_pending := ?ps[j := ?p2]\<rparr>"
    and f: "sf_mouse f = Some \<lparr>mf_buttons = pv_buttons (?ps ! j), mf_movement = fst ?mp\<rparr>"
      "sf_device_id f = pv_device_id (?ps ! j)" "sf_interface_id f = pv_interface_id (?ps ! j)"
    using take pos by (auto simp: coalescer_take_next_def Let_def case_prod_beta)
  have clean: "slot_clean (?ps ! j)" using inv j by (simp add: ledger_inv_def)
  have range: "i32_min \<le> axis_of a (snd ?mp) \<and> axis_of a (snd ?mp) \<le> i32_max" for a
  proof -
    have "i32_min \<le> axis_of a (?ps ! j)" "axis_of a (?ps ! j) \<le> i32_max"
      using clean by (simp_all add: slot_clean_def axes_in_range_def)
    then show ?thesis using coalescer_axes.take_movement_shrinks[of a "?ps ! j"] by linarith
  qed
  then have p2: "slot_clean ?p2"
    by (simp add: slot_clean_def axes_in_range_def axes_nonzero_iff)
  have share: "slot_share k a ?p2 = slot_share k a (?ps ! j) -
      (if k = (pv_device_id (?ps ! j), pv_interface_id (?ps ! j), pv_buttons (?ps ! j)) then movement_axis a (fst ?mp) else 0)" for k a
    using pend coalescer_axes.take_movement_sum[of a "?ps ! j"]
    by (auto simp: slot_share_def take_movement_fields axes_nonzero_iff)
  have "\<forall>p\<in>set (mc_pending mc'). slot_clean p"
    using inv p2 by (auto simp: mc' ledger_inv_def dest!: subsetD[OF set_update_subset_insert])
  then show ?thesis
    using inv share by (simp add: ledger_inv_def mc' credit_def f still_pending_def sum_list_map_update[OF j])
qed

interpretation coalescer: op_system coalescer_step "\<lambda>_. True" ledger_inv
proof
  fix l x
  assume inv: "ledger_inv l"
  have fail: "mc = cl_state l" if "coalescer_push (cl_state l) f = (mc, Inl e)" for f mc e
    using that by (auto simp: coalescer_push_def Let_def case_prod_beta split: option.splits if_splits)
  have none: "mc = cl_state l" if "coalescer_take_next (cl_state l) = (mc, None)" for mc
    using that by (auto simp: coalescer_take_next_def Let_def case_prod_beta split: option.splits)
  show "ledger_inv (coalescer_step x l)"
  proof (cases x)
    case (CoPush f)
    then show ?thesis using inv fail ledger_inv_push[OF inv, of f]
      by (auto split: prod.splits sum.splits) (metis coalescer_ledger.surjective coalescer_ledger.update_convs(1))
  next
    case CoTake
    then show ?thesis using inv none ledger_inv_take[OF inv] by (auto split: prod.splits option.splits)
  qed
qed

section \<open>Conservation in the accumulator\<close>

datatype accumulator_op =
  AcPush host_id mouse_report | AcSetButtons host_id u8 | AcTake host_id | AcDiscard host_id | AcDiscardAll

definition host_pending :: "mouse_accumulator \<Rightarrow> host_id \<Rightarrow> axis \<Rightarrow> int" where
  "host_pending ma h a =
     (case accumulator_host_index (length (ma_hosts ma)) h of None \<Rightarrow> 0 | Some i \<Rightarrow> axis_of a (ma_hosts ma ! i))"

record accumulator_ledger =
  al_state :: mouse_accumulator
  al_accepted :: "host_id \<Rightarrow> axis \<Rightarrow> int"
  al_emitted :: "host_id \<Rightarrow> axis \<Rightarrow> int"
  al_discarded :: "host_id \<Rightarrow> axis \<Rightarrow> int"

definition book :: "host_id \<Rightarrow> (axis \<Rightarrow> int) \<Rightarrow> (host_id \<Rightarrow> axis \<Rightarrow> int) \<Rightarrow> host_id \<Rightarrow> axis \<Rightarrow> int" where
  "book h d t h' a = t h' a + (if h' = h then d a else 0)"

fun accumulator_step :: "accumulator_op \<Rightarrow> accumulator_ledger \<Rightarrow> accumulator_ledger" where
  "accumulator_step (AcPush h r) l =
     (let (ma, ok) = accumulator_push (al_state l) h r
      in if ok then l\<lparr>al_state := ma, al_accepted := book h (\<lambda>a. movement_axis a (mouse_report_movement r)) (al_accepted l)\<rparr>
         else l\<lparr>al_state := ma\<rparr>)"
| "accumulator_step (AcSetButtons h b) l = l\<lparr>al_state := fst (accumulator_set_buttons (al_state l) h b)\<rparr>"
| "accumulator_step (AcTake h) l =
     (case accumulator_take_next (al_state l) h of
        (ma, None) \<Rightarrow> l\<lparr>al_state := ma\<rparr>
      | (ma, Some r) \<Rightarrow>
          l\<lparr>al_state := ma, al_emitted := book h (\<lambda>a. movement_axis a (mouse_report_movement r)) (al_emitted l)\<rparr>)"
| "accumulator_step (AcDiscard h) l =
     l\<lparr>al_state := accumulator_discard (al_state l) h,
       al_discarded := book h (host_pending (al_state l) h) (al_discarded l)\<rparr>"
| "accumulator_step AcDiscardAll l =
     l\<lparr>al_state := accumulator_discard_all (al_state l),
       al_discarded := (\<lambda>h a. al_discarded l h a + host_pending (al_state l) h a)\<rparr>"

definition accumulator_ledger_new :: "nat \<Rightarrow> accumulator_ledger" where
  "accumulator_ledger_new n =
     \<lparr>al_state = accumulator_new n, al_accepted = (\<lambda>_ _. 0), al_emitted = (\<lambda>_ _. 0), al_discarded = (\<lambda>_ _. 0)\<rparr>"

definition host_clean :: "pending_mouse_state \<Rightarrow> bool" where
  "host_clean s = ((\<not> ph_pending s \<longrightarrow> \<not> axes_nonzero s) \<and> axes_in_range s)"

definition balanced :: "accumulator_ledger \<Rightarrow> bool" where
  "balanced l =
     (\<forall>h a. al_accepted l h a = al_emitted l h a + al_discarded l h a + host_pending (al_state l) h a)"

definition accumulator_inv :: "mouse_accumulator \<Rightarrow> bool" where
  "accumulator_inv ma = (\<forall>s\<in>set (ma_hosts ma). host_clean s)"

definition accumulator_ledger_inv :: "accumulator_ledger \<Rightarrow> bool" where
  "accumulator_ledger_inv l =
     (accumulator_inv (al_state l) \<and>
      (ms_movement_saturated (ma_stats (al_state l)) = 0 \<longrightarrow> balanced l))"

lemma axis_of_default [simp]: "axis_of a pending_mouse_default = 0"
  by (cases a) (simp_all add: pending_mouse_default_def)

lemma host_clean_default [simp]: "host_clean pending_mouse_default"
  by (simp add: host_clean_def axes_nonzero_iff axes_in_range_def)

lemma accumulator_host_index_Some:
  "accumulator_host_index n h = Some i \<longleftrightarrow> i < n \<and> unat h = Suc i"
proof
  assume "accumulator_host_index n h = Some i"
  then show "i < n \<and> unat h = Suc i"
    by (auto simp: accumulator_host_index_def checked_sub_def bind_eq_Some_conv Let_def unat_sub
        word_le_nat_alt split: if_splits)
next
  assume "i < n \<and> unat h = Suc i"
  then show "accumulator_host_index n h = Some i"
    by (auto simp: accumulator_host_index_def checked_sub_def Let_def unat_sub word_le_nat_alt)
qed

lemma host_index_inj:
  assumes "accumulator_host_index n h = Some i" and "accumulator_host_index n h' = Some i"
  shows "h = h'"
  using assms by (simp add: accumulator_host_index_Some word_unat_eq_iff)

lemma stats_irrelevant [simp]:
  "host_pending (ma\<lparr>ma_stats := st\<rparr>) = host_pending ma"
  "accumulator_inv (ma\<lparr>ma_stats := st\<rparr>) = accumulator_inv ma"
  "host_pending (ma\<lparr>ma_hosts := hs, ma_stats := st\<rparr>) = host_pending (ma\<lparr>ma_hosts := hs\<rparr>)"
  "accumulator_inv (ma\<lparr>ma_hosts := hs, ma_stats := st\<rparr>) = accumulator_inv (ma\<lparr>ma_hosts := hs\<rparr>)"
  by (simp_all add: fun_eq_iff host_pending_def accumulator_inv_def split: option.splits)

lemma host_pending_update:
  assumes "accumulator_host_index (length (ma_hosts ma)) h = Some i"
  shows "host_pending (ma\<lparr>ma_hosts := (ma_hosts ma)[i := s]\<rparr>) h' a =
    (if h' = h then axis_of a s else host_pending ma h' a)"
proof (cases "accumulator_host_index (length (ma_hosts ma)) h'")
  case None
  then show ?thesis using assms by (auto simp: host_pending_def)
next
  case (Some j)
  have i: "i < length (ma_hosts ma)" using assms accumulator_host_index_Some by simp
  show ?thesis
  proof (cases "i = j")
    case True
    then have "h' = h" using Some assms by (intro host_index_inj) simp_all
    then show ?thesis using i by (simp add: host_pending_def assms)
  next
    case False
    then have "h' \<noteq> h" using Some assms by auto
    then show ?thesis using False by (simp add: host_pending_def Some)
  qed
qed

lemma accumulator_inv_update:
  "accumulator_inv ma \<Longrightarrow> host_clean s \<Longrightarrow> accumulator_inv (ma\<lparr>ma_hosts := (ma_hosts ma)[i := s]\<rparr>)"
  by (auto simp: accumulator_inv_def dest!: subsetD[OF set_update_subset_insert])

lemma accumulator_push_cases:
  assumes "accumulator_push ma h r = (ma', ok)"
  obtains (rejected) "\<not> ok" and "ma' = ma"
    | (accepted) i s1 st where "ok" and "accumulator_host_index (length (ma_hosts ma)) h = Some i"
      and "\<And>a. axis_of a s1 = axis_of a (ma_hosts ma ! i)"
      and "ms_movement_saturated st = ms_movement_saturated (ma_stats ma)"
      and "ma' = ma\<lparr>ma_hosts := (ma_hosts ma)[i := (fst (add_movement acc_saturating_add s1 (mouse_report_movement r) st))\<lparr>ph_pending := True\<rparr>],
             ma_stats := snd (add_movement acc_saturating_add s1 (mouse_report_movement r) st)\<rparr>"
proof (cases "accumulator_host_index (length (ma_hosts ma)) h")
  case None
  then show thesis using assms rejected by (simp add: accumulator_push_def)
next
  case (Some i)
  let ?s = "ma_hosts ma ! i"
  let ?s1 = "if mouse_report_buttons r \<noteq> ph_buttons ?s then ?s\<lparr>ph_buttons := mouse_report_buttons r\<rparr> else ?s"
  let ?st = "if ph_pending ?s1 then (ma_stats ma)\<lparr>ms_reports_coalesced := sat_add (ms_reports_coalesced (ma_stats ma)) 1\<rparr>
     else ma_stats ma"
  show thesis
  proof (cases "mouse_report_buttons r \<noteq> ph_buttons ?s \<and> ph_pending ?s")
    case True
    then show thesis using assms rejected Some by (simp add: accumulator_push_def Let_def)
  next
    case False
    then show thesis
      using assms Some by (intro accepted[of i ?s1 ?st]) (auto simp: accumulator_push_def Let_def case_prod_beta)
  qed
qed

lemma accumulator_ledger_inv_push:
  assumes inv: "accumulator_ledger_inv l" and push: "accumulator_push (al_state l) h r = (ma, ok)"
  shows "accumulator_ledger_inv (if ok
     then l\<lparr>al_state := ma, al_accepted := book h (\<lambda>a. movement_axis a (mouse_report_movement r)) (al_accepted l)\<rparr>
     else l\<lparr>al_state := ma\<rparr>)"
  using push
proof (cases rule: accumulator_push_cases)
  case rejected
  then show ?thesis using inv by simp
next
  case (accepted i s1 st)
  let ?m = "mouse_report_movement r"
  let ?s2 = "(fst (add_movement acc_saturating_add s1 ?m st))\<lparr>ph_pending := True\<rparr>"
  have clean: "host_clean ?s2"
    using accumulator_axes.add_movement_range[of s1 ?m st] by (simp add: host_clean_def axes_in_range_def)
  have "balanced (l\<lparr>al_state := ma, al_accepted := book h (\<lambda>a. movement_axis a ?m) (al_accepted l)\<rparr>)"
    if "ms_movement_saturated (ma_stats ma) = 0"
  proof -
    have sat: "ms_movement_saturated (snd (add_movement acc_saturating_add s1 ?m st)) = 0"
      using that accepted(5) by simp
    note sum = accumulator_axes.add_movement_sum[OF sat]
    have "host_pending (al_state l) h a = axis_of a s1" for a
      by (simp add: host_pending_def accepted(2,3))
    moreover have "balanced l" using inv sum(2) accepted(4) by (simp add: accumulator_ledger_inv_def)
    ultimately show ?thesis
      by (simp add: balanced_def book_def accepted(5) host_pending_update[OF accepted(2)] sum(1))
  qed
  then show ?thesis
    using inv accepted(1) accumulator_inv_update[OF _ clean]
    by (simp add: accumulator_ledger_inv_def accepted(5))
qed

lemma accumulator_take_cases:
  assumes "accumulator_take_next ma h = (ma', res)"
  obtains (none) "res = None" and "ma' = ma"
    | (some) i r where "res = Some r" and "accumulator_host_index (length (ma_hosts ma)) h = Some i"
      and "ph_pending (ma_hosts ma ! i)"
      and "mouse_report_movement r = fst (take_movement acc_take_axis_i16 acc_take_axis_i8 (ma_hosts ma ! i))"
      and "ma' = ma\<lparr>ma_hosts := (ma_hosts ma)[i := (snd (take_movement acc_take_axis_i16 acc_take_axis_i8 (ma_hosts ma ! i)))
             \<lparr>ph_pending := axes_nonzero (snd (take_movement acc_take_axis_i16 acc_take_axis_i8 (ma_hosts ma ! i)))\<rparr>],
             ma_stats := ma_stats ma\<rparr>"
proof (cases "accumulator_host_index (length (ma_hosts ma)) h")
  case None
  then show thesis using assms none by (simp add: accumulator_take_next_def)
next
  case (Some i)
  show thesis
  proof (cases "ph_pending (ma_hosts ma ! i)")
    case True
    then show thesis
      using assms Some some by (auto simp: accumulator_take_next_def Let_def case_prod_beta mouse_report_decode)
  next
    case False
    then show thesis using assms Some none by (simp add: accumulator_take_next_def Let_def)
  qed
qed

lemma axes_in_range_take:
  assumes "axes_in_range s"
  shows "axes_in_range (snd (take_movement acc_take_axis_i16 acc_take_axis_i8 s))"
  unfolding axes_in_range_def
proof
  fix a
  have "i32_min \<le> axis_of a s" "axis_of a s \<le> i32_max" using assms by (simp_all add: axes_in_range_def)
  then show "i32_min \<le> axis_of a (snd (take_movement acc_take_axis_i16 acc_take_axis_i8 s)) \<and>
      axis_of a (snd (take_movement acc_take_axis_i16 acc_take_axis_i8 s)) \<le> i32_max"
    using accumulator_axes.take_movement_shrinks[of a s] by linarith
qed

lemma host_clean_take:
  assumes "host_clean s"
  defines "s' \<equiv> snd (take_movement acc_take_axis_i16 acc_take_axis_i8 s)"
  shows "host_clean (s'\<lparr>ph_pending := axes_nonzero s'\<rparr>)"
  using assms axes_in_range_take[of s] by (simp add: host_clean_def axes_nonzero_iff axes_in_range_def)

lemma accumulator_ledger_inv_take:
  assumes inv: "accumulator_ledger_inv l" and take: "accumulator_take_next (al_state l) h = (ma, res)"
  shows "accumulator_ledger_inv (case res of None \<Rightarrow> l\<lparr>al_state := ma\<rparr>
      | Some r \<Rightarrow> l\<lparr>al_state := ma, al_emitted := book h (\<lambda>a. movement_axis a (mouse_report_movement r)) (al_emitted l)\<rparr>)"
  using take
proof (cases rule: accumulator_take_cases)
  case none
  then show ?thesis using inv by simp
next
  case (some i r)
  let ?s = "ma_hosts (al_state l) ! i"
  have "i < length (ma_hosts (al_state l))" using some(2) accumulator_host_index_Some by simp
  then have "host_clean ?s" using inv by (simp add: accumulator_ledger_inv_def accumulator_inv_def)
  note clean = host_clean_take[OF this]
  have pend: "host_pending (al_state l) h a = axis_of a ?s" for a by (simp add: host_pending_def some(2))
  have "balanced (l\<lparr>al_state := ma, al_emitted := book h (\<lambda>a. movement_axis a (mouse_report_movement r)) (al_emitted l)\<rparr>)"
    if "balanced l"
    using that pend accumulator_axes.take_movement_sum[of _ ?s]
    by (simp add: balanced_def book_def some(4,5) host_pending_update[OF some(2)] algebra_simps)
  then show ?thesis
    using inv some(1) accumulator_inv_update[OF _ clean]
    by (auto simp: accumulator_ledger_inv_def some(5))
qed

lemma accumulator_ledger_inv_replace:
  assumes inv: "accumulator_ledger_inv l" and h: "accumulator_host_index (length (ma_hosts (al_state l))) h = Some i"
    and "host_clean s" and "\<And>a. host_pending (al_state l) h a = axis_of a s + d a"
  shows "accumulator_ledger_inv (l\<lparr>al_state := (al_state l)\<lparr>ma_hosts := (ma_hosts (al_state l))[i := s]\<rparr>,
    al_discarded := book h d (al_discarded l)\<rparr>)"
  using assms accumulator_inv_update[of "al_state l" s i]
  by (auto simp: accumulator_ledger_inv_def balanced_def book_def host_pending_update)

interpretation accumulator: op_system accumulator_step "\<lambda>_. True" accumulator_ledger_inv
proof
  fix l x
  assume inv: "accumulator_ledger_inv l"
  have none: "book h (\<lambda>_. 0) t = t" for h t by (simp add: book_def fun_eq_iff)
  show "accumulator_ledger_inv (accumulator_step x l)"
  proof (cases x)
    case (AcPush h r)
    show ?thesis using accumulator_ledger_inv_push[OF inv, of h r]
      by (simp add: AcPush Let_def case_prod_beta split: prod.splits)
  next
    case (AcTake h)
    show ?thesis using accumulator_ledger_inv_take[OF inv, of h]
      by (simp add: AcTake split: prod.splits option.splits)
  next
    case (AcSetButtons h b)
    show ?thesis
    proof (cases "accumulator_host_index (length (ma_hosts (al_state l))) h")
      case None
      then show ?thesis using inv by (simp add: AcSetButtons accumulator_set_buttons_def)
    next
      case (Some i)
      let ?s = "(ma_hosts (al_state l) ! i)\<lparr>ph_buttons := b\<rparr>"
      have "i < length (ma_hosts (al_state l))" using Some accumulator_host_index_Some by simp
      then have "host_clean ?s"
        using inv by (simp add: accumulator_ledger_inv_def accumulator_inv_def host_clean_def axes_nonzero_iff axes_in_range_def)
      from accumulator_ledger_inv_replace[OF inv Some this, of "\<lambda>_. 0"] show ?thesis
        by (simp add: AcSetButtons accumulator_set_buttons_def Some host_pending_def none)
    qed
  next
    case (AcDiscard h)
    show ?thesis
    proof (cases "accumulator_host_index (length (ma_hosts (al_state l))) h")
      case None
      then have "host_pending (al_state l) h = (\<lambda>_. 0)" by (simp add: host_pending_def fun_eq_iff)
      then show ?thesis using inv None by (simp add: AcDiscard accumulator_discard_def none)
    next
      case (Some i)
      from accumulator_ledger_inv_replace[OF inv Some host_clean_default, of "host_pending (al_state l) h"]
      show ?thesis by (simp add: AcDiscard accumulator_discard_def Some)
    qed
  next
    case AcDiscardAll
    have "host_pending (accumulator_discard_all (al_state l)) h a = 0" for h a
      by (simp add: host_pending_def accumulator_discard_all_def accumulator_host_index_Some split: option.splits)
    then show ?thesis
      using inv by (simp add: AcDiscardAll accumulator_ledger_inv_def balanced_def accumulator_inv_def)
        (simp add: accumulator_discard_all_def)
  qed
qed

lemma accumulator_ledger_inv_new: "accumulator_ledger_inv (accumulator_ledger_new n)"
  by (simp add: accumulator_ledger_inv_def accumulator_ledger_new_def accumulator_new_def accumulator_inv_def
      balanced_def host_pending_def accumulator_host_index_Some split: option.splits)

section \<open>Draining\<close>

definition drain_step :: "host_id \<Rightarrow> mouse_accumulator \<Rightarrow> mouse_accumulator" where
  "drain_step h ma = fst (accumulator_take_next ma h)"

text \<open>Enough reports to hand out a full thirty-two bit counter in parts of at least 127.\<close>

definition drain_bound :: nat where "drain_bound = 2 ^ 31 div 127 + 1"

lemma drain_step_shrinks:
  assumes "accumulator_inv ma"
  shows "\<bar>host_pending (drain_step h ma) h a\<bar> \<le> max 0 (\<bar>host_pending ma h a\<bar> - 127)"
    and "accumulator_is_pending (drain_step h ma) h \<Longrightarrow> \<exists>b. host_pending (drain_step h ma) h b \<noteq> 0"
    and "accumulator_inv (drain_step h ma)"
proof -
  obtain ma' res where take: "accumulator_take_next ma h = (ma', res)" by (metis prod.exhaust)
  have "\<bar>host_pending ma' h a\<bar> \<le> max 0 (\<bar>host_pending ma h a\<bar> - 127) \<and>
    (accumulator_is_pending ma' h \<longrightarrow> (\<exists>b. host_pending ma' h b \<noteq> 0)) \<and> accumulator_inv ma'"
    using take
  proof (cases rule: accumulator_take_cases)
    case none
    have np: "\<not> accumulator_is_pending ma h"
      using take none by (auto simp: accumulator_is_pending_def accumulator_take_next_def Let_def case_prod_beta
          split: option.splits if_splits)
    have "host_pending ma h a = 0"
    proof (cases "accumulator_host_index (length (ma_hosts ma)) h")
      case None
      then show ?thesis by (simp add: host_pending_def)
    next
      case (Some i)
      then have "i < length (ma_hosts ma)" using accumulator_host_index_Some by simp
      then have "host_clean (ma_hosts ma ! i)" using assms by (simp add: accumulator_inv_def)
      then show ?thesis using np Some by (simp add: host_pending_def accumulator_is_pending_def host_clean_def axes_nonzero_iff)
    qed
    then show ?thesis using none np assms by simp
  next
    case (some i r)
    have i: "i < length (ma_hosts ma)" using some(2) accumulator_host_index_Some by simp
    then have "host_clean (ma_hosts ma ! i)" using assms by (simp add: accumulator_inv_def)
    note clean = host_clean_take[OF this]
    show ?thesis
      using accumulator_axes.take_movement_shrinks[of a "ma_hosts ma ! i"] assms accumulator_inv_update[OF _ clean] i
      by (simp add: some(5) host_pending_update[OF some(2)] accumulator_is_pending_def some(2) axes_nonzero_iff)
        (simp add: host_pending_def some(2))
  qed
  then show "\<bar>host_pending (drain_step h ma) h a\<bar> \<le> max 0 (\<bar>host_pending ma h a\<bar> - 127)"
    and "accumulator_is_pending (drain_step h ma) h \<Longrightarrow> \<exists>b. host_pending (drain_step h ma) h b \<noteq> 0"
    and "accumulator_inv (drain_step h ma)"
    by (simp_all add: drain_step_def take)
qed

lemma drain_steps:
  assumes "accumulator_inv ma"
  shows "accumulator_inv ((drain_step h ^^ k) ma) \<and>
    \<bar>host_pending ((drain_step h ^^ k) ma) h a\<bar> \<le> max 0 (\<bar>host_pending ma h a\<bar> - 127 * int k)"
proof (induction k)
  case 0
  then show ?case using assms by simp
next
  case (Suc k)
  let ?m = "(drain_step h ^^ k) ma"
  have "\<bar>host_pending (drain_step h ?m) h a\<bar> \<le> max 0 (\<bar>host_pending ?m h a\<bar> - 127)"
    using Suc by (intro drain_step_shrinks(1)) simp
  then have "\<bar>host_pending (drain_step h ?m) h a\<bar> \<le> max 0 (\<bar>host_pending ma h a\<bar> - 127 * int (Suc k))"
    using Suc by (simp add: max_def split: if_splits)
  then show ?case using Suc drain_step_shrinks(3)[of ?m] by simp
qed

lemma host_pending_bound:
  assumes "accumulator_inv ma"
  shows "\<bar>host_pending ma h a\<bar> \<le> 2 ^ 31"
proof (cases "accumulator_host_index (length (ma_hosts ma)) h")
  case None
  then show ?thesis by (simp add: host_pending_def)
next
  case (Some i)
  then have "i < length (ma_hosts ma)" using accumulator_host_index_Some by simp
  then have "axes_in_range (ma_hosts ma ! i)" using assms by (simp add: accumulator_inv_def host_clean_def)
  then have "i32_min \<le> axis_of a (ma_hosts ma ! i)" "axis_of a (ma_hosts ma ! i) \<le> i32_max"
    by (simp_all add: axes_in_range_def)
  then show ?thesis using Some by (simp add: host_pending_def)
qed

section \<open>Properties\<close>

text \<open>
  The USB coalescer neither loses nor invents movement and never moves it across a button
  change. Over any sequence of pushes and takes on a new coalescer, rejected pushes
  included, and as long as no axis counter was clipped (the saturation statistic is zero),
  for every device, interface and button state and for each of the four axes the movement
  accepted is the movement handed out plus the movement still pending.
\<close>

theorem coalescer_conserves_movement:
  assumes "ms_movement_saturated (mc_stats (cl_state (run coalescer_step ops (ledger_new n)))) = 0"
  shows "let l = run coalescer_step ops (ledger_new n) in
    cl_accepted l key a = cl_emitted l key a + still_pending key a (cl_state l)"
  using coalescer.run_inv[OF ledger_inv_new, of ops n] assms
  unfolding ledger_inv_def Let_def list_all_iff by blast

definition sample_move :: "interface_id \<Rightarrow> i16 \<Rightarrow> standard_input_frame" where
  "sample_move i x =
     \<lparr>sf_device_id = 1, sf_interface_id = i, sf_keyboard = None,
      sf_mouse = Some \<lparr>mf_buttons = 1, mf_movement = movement_neutral\<lparr>mm_x := x\<rparr>\<rparr>, sf_consumer = None\<rparr>"

theorem coalescer_conserves_movement_witness:
  "let l = run coalescer_step [CoPush (sample_move 1 30000), CoPush (sample_move 1 30000), CoTake] (ledger_new 1) in
    cl_accepted l (1, 1, 1) AxX = cl_emitted l (1, 1, 1) AxX + still_pending (1, 1, 1) AxX (cl_state l)"
  by (rule coalescer_conserves_movement)
    (simp add: sample_move_def ledger_new_def coalescer_new_def movement_stats_new_def pending_movement_new_def
      coalescer_push_def coalescer_slot_def coalescer_take_next_def movement_neutral_def add_movement_def
      add_axis_def i32_checked_add_def take_movement_def take_axis_i16_def take_axis_i8_def clampi_def
      axes_nonzero_def Let_def)

text \<open>
  C5: the per-host accumulator conserves movement. Over any sequence of pushes, button updates,
  takes and discards on a new accumulator, and as long as no counter was clipped, for every
  host and axis the accepted movement is what was handed out in reports, plus what a discard
  dropped, plus what is pending; a report refused because its buttons differ from pending
  movement contributes nothing.
\<close>

theorem accumulator_conserves_movement:
  assumes "ms_movement_saturated (ma_stats (al_state (run accumulator_step ops (accumulator_ledger_new n)))) = 0"
  shows "let l = run accumulator_step ops (accumulator_ledger_new n) in
    al_accepted l h a = al_emitted l h a + al_discarded l h a + host_pending (al_state l) h a"
  using accumulator.run_inv[OF accumulator_ledger_inv_new, of ops n] assms
  unfolding accumulator_ledger_inv_def balanced_def Let_def list_all_iff by blast

theorem accumulator_conserves_movement_witness:
  "let l = run accumulator_step [AcPush 1 [1, 0x30, 0x75, 0, 0, 0, 0], AcPush 1 [1, 0x30, 0x75, 0, 0, 0, 0],
      AcPush 1 [0, 5, 0, 0, 0, 0, 0], AcTake 1] (accumulator_ledger_new 2) in
    al_accepted l 1 AxX = al_emitted l 1 AxX + al_discarded l 1 AxX + host_pending (al_state l) 1 AxX"
  by (rule accumulator_conserves_movement)
    (simp add: accumulator_ledger_new_def accumulator_new_def movement_stats_new_def pending_mouse_default_def
      accumulator_push_def accumulator_host_index_def checked_sub_def mouse_report_movement_def
      mouse_report_buttons_def accumulator_take_next_def add_movement_def acc_saturating_add_def
      i32_checked_add_def take_movement_def acc_take_axis_i16_def acc_take_axis_i8_def clampi_def
      axes_nonzero_def Let_def)

text \<open>
  C6: pending movement always drains. From any reachable accumulator, taking reports for a host
  a bounded number of times (a full counter in parts of at least 127) leaves that host with
  nothing pending, whatever was pushed before, clipped counters included.
\<close>

theorem accumulator_drains:
  "\<not> accumulator_is_pending
      ((drain_step h ^^ drain_bound) (al_state (run accumulator_step ops (accumulator_ledger_new n)))) h"
proof
  let ?ma = "al_state (run accumulator_step ops (accumulator_ledger_new n))"
  let ?m = "(drain_step h ^^ (drain_bound - 1)) ?ma"
  assume pend: "accumulator_is_pending ((drain_step h ^^ drain_bound) ?ma) h"
  have inv: "accumulator_inv ?ma"
    using accumulator.run_inv[OF accumulator_ledger_inv_new, of ops n]
    by (simp add: accumulator_ledger_inv_def list_all_iff)
  have last: "(drain_step h ^^ drain_bound) ?ma = drain_step h ?m"
  proof -
    have "drain_bound = Suc (drain_bound - 1)" by (simp add: drain_bound_def)
    then show ?thesis by (metis funpow.simps(2) comp_apply)
  qed
  then obtain b where b: "host_pending ((drain_step h ^^ drain_bound) ?ma) h b \<noteq> 0"
    using drain_step_shrinks(2)[of ?m h] drain_steps[OF inv] pend by auto
  have "127 * int drain_bound \<ge> 2 ^ 31" by (simp add: drain_bound_def)
  then have "host_pending ((drain_step h ^^ drain_bound) ?ma) h b = 0"
    using drain_steps[OF inv, of drain_bound h b] host_pending_bound[OF inv, of h b] by linarith
  with b show False by simp
qed

end
