(* ===== verification/HS_Routing.thy ===== *)
theory HS_Routing
  imports HS_Checksum HS_Runs
begin

unbundle bit_operations_syntax

text \<open>
  Output targets and routing (\<open>src/output_target.rs\<close>, \<open>src/routing.rs\<close>): the target the
  user selected and the one reports go to, the order in which a target button cycles through
  ready computers, the USB presentation that follows, the stored identity of a mirrored
  device, and the slot router. Both cycling loops are instances of the locale
  \<open>cyclic_scan\<close>.
\<close>

section \<open>Output targets\<close>

datatype output_target = Wired | Ble host_id

datatype output_target_error = InvalidBleHost

fun output_target_validate :: "output_target \<Rightarrow> output_target_error + output_target" where
  "output_target_validate Wired = Inr Wired"
| "output_target_validate (Ble host) =
     (if host \<ge> 1 \<and> unat host \<le> HOST_SLOT_COUNT then Inr (Ble host) else Inl InvalidBleHost)"

definition ble_host_ready :: "u8 \<Rightarrow> host_id \<Rightarrow> bool" where
  "ble_host_ready ready_mask host =
     (host \<ge> 1 \<and> host \<le> of_nat HOST_SLOT_COUNT \<and> ready_mask AND push_bit (unat (host - 1)) 1 \<noteq> 0)"

definition selected_index :: "output_target \<Rightarrow> host_id option \<Rightarrow> nat" where
  "selected_index selected wired_ble_host =
     (case selected of
        Wired \<Rightarrow> 0
      | Ble host \<Rightarrow> if Some host = wired_ble_host then 0 else unat (min host (of_nat HOST_SLOT_COUNT)))"

fun next_target_loop ::
    "nat \<Rightarrow> bool \<Rightarrow> u8 \<Rightarrow> host_id option \<Rightarrow> nat list \<Rightarrow> output_target option" where
  "next_target_loop sel wired_ready ready_mask wired_ble_host [] = None"
| "next_target_loop sel wired_ready ready_mask wired_ble_host (offset # rest) =
     (let index = (sel + offset) mod (HOST_SLOT_COUNT + 1) in
      if index = 0 then
        if wired_ready then Some Wired
        else (case wired_ble_host of
                Some host \<Rightarrow> if ble_host_ready ready_mask host then Some (Ble host)
                             else next_target_loop sel wired_ready ready_mask wired_ble_host rest
              | None \<Rightarrow> next_target_loop sel wired_ready ready_mask wired_ble_host rest)
      else
        let host = of_nat index in
        if Some host \<noteq> wired_ble_host \<and> ble_host_ready ready_mask host then Some (Ble host)
        else next_target_loop sel wired_ready ready_mask wired_ble_host rest)"

definition next_ready_computer_target ::
    "output_target \<Rightarrow> bool \<Rightarrow> u8 \<Rightarrow> host_id option \<Rightarrow> output_target option" where
  "next_ready_computer_target selected wired_ready ready_mask wired_ble_host =
     next_target_loop (selected_index selected wired_ble_host) wired_ready ready_mask wired_ble_host
       [1..<HOST_SLOT_COUNT + 1]"

datatype output_target_availability = Ready | ConnectedNotReady | Unavailable

datatype ble_target_readiness_policy = KeyboardRequired | AllStandardReports | AnyReport

fun policy_is_ready :: "ble_target_readiness_policy \<Rightarrow> bool \<Rightarrow> bool \<Rightarrow> bool \<Rightarrow> bool" where
  "policy_is_ready KeyboardRequired keyboard mouse consumer = keyboard"
| "policy_is_ready AllStandardReports keyboard mouse consumer = (keyboard \<and> mouse \<and> consumer)"
| "policy_is_ready AnyReport keyboard mouse consumer = (keyboard \<or> mouse \<or> consumer)"

definition BLE_TARGET_READINESS_POLICY :: ble_target_readiness_policy where
  "BLE_TARGET_READINESS_POLICY = KeyboardRequired"

record output_target_state =
  ot_selected :: output_target
  ot_active :: "output_target option"
  ot_availability :: output_target_availability
  ot_transition_operation_id :: u32

definition output_target_state_new :: output_target_state where
  "output_target_state_new =
     \<lparr>ot_selected = Wired, ot_active = None, ot_availability = Unavailable, ot_transition_operation_id = 0\<rparr>"

definition output_select ::
    "output_target_state \<Rightarrow> output_target \<Rightarrow> (output_target_state, output_target_error, u32) outcome" where
  "output_select st target =
     (case output_target_validate target of
        Inl e \<Rightarrow> (st, Inl e)
      | Inr _ \<Rightarrow>
          let st' = st\<lparr>ot_selected := target, ot_active := None, ot_availability := Unavailable,
                       ot_transition_operation_id := ot_transition_operation_id st + 1\<rparr>
          in (st', Inr (ot_transition_operation_id st')))"

definition output_set_availability :: "output_target_state \<Rightarrow> output_target_availability \<Rightarrow> output_target_state" where
  "output_set_availability st availability =
     st\<lparr>ot_availability := availability,
        ot_active := (case availability of Ready \<Rightarrow> Some (ot_selected st) | ConnectedNotReady \<Rightarrow> None | Unavailable \<Rightarrow> None)\<rparr>"

definition output_begin_transition :: "output_target_state \<Rightarrow> output_target_state \<times> u32" where
  "output_begin_transition st =
     (let st' = st\<lparr>ot_active := None, ot_availability := ConnectedNotReady,
                   ot_transition_operation_id := ot_transition_operation_id st + 1\<rparr>
      in (st', ot_transition_operation_id st'))"

type_synonym mirror_candidate_id = u8

datatype mirror_configuration = MirrorDisabled | MirrorSelected mirror_candidate_id

datatype usb_presentation = PresentFallback | PresentMirror mirror_candidate_id

definition effective_presentation ::
    "output_target \<Rightarrow> mirror_configuration \<Rightarrow> bool \<Rightarrow> usb_presentation" where
  "effective_presentation target mirror available =
     (case (target, mirror, available) of
        (Wired, MirrorSelected candidate, True) \<Rightarrow> PresentMirror candidate
      | _ \<Rightarrow> PresentFallback)"

datatype stored_output_target = StoredWired | StoredBle host_slot

fun as_output_target :: "stored_output_target \<Rightarrow> output_target" where
  "as_output_target StoredWired = Wired"
| "as_output_target (StoredBle slot) = Ble slot"

section \<open>Stored mirror identity\<close>

definition MIRROR_PORT_PATH_MAX_LEN :: nat where "MIRROR_PORT_PATH_MAX_LEN = 8"

record mirror_stable_id =
  si_vendor_id :: u16
  si_product_id :: u16
  si_serial_hash :: "u32 option"
  si_descriptor_hash :: u32
  si_port_path_len :: u8
  si_port_path :: bytes

datatype mirror_stable_id_error = MissingPhysicalLocation | PortPathTooLong

definition mirror_stable_id_new ::
    "u16 \<Rightarrow> u16 \<Rightarrow> u32 option \<Rightarrow> u32 \<Rightarrow> bytes \<Rightarrow> mirror_stable_id_error + mirror_stable_id" where
  "mirror_stable_id_new vendor product serial descriptor path =
     (if length path > MIRROR_PORT_PATH_MAX_LEN then Inl PortPathTooLong
      else if serial = None \<and> path = [] then Inl MissingPhysicalLocation
      else Inr \<lparr>si_vendor_id = vendor, si_product_id = product, si_serial_hash = serial,
                si_descriptor_hash = descriptor, si_port_path_len = of_nat (length path),
                si_port_path = path @ replicate (MIRROR_PORT_PATH_MAX_LEN - length path) 0\<rparr>)"

definition mirror_stable_id_synthetic :: "u32 \<Rightarrow> mirror_stable_id" where
  "mirror_stable_id_synthetic descriptor =
     \<lparr>si_vendor_id = 0xcafe, si_product_id = 0, si_serial_hash = Some descriptor,
      si_descriptor_hash = descriptor, si_port_path_len = 0,
      si_port_path = replicate MIRROR_PORT_PATH_MAX_LEN 0\<rparr>"

definition mirror_port_path :: "mirror_stable_id \<Rightarrow> bytes" where
  "mirror_port_path m = take (unat (si_port_path_len m)) (si_port_path m)"

record stored_presentation_config =
  sp_output_target :: stored_output_target
  sp_wired_ble_host :: "host_slot option"
  sp_mirror_target :: "mirror_stable_id option"

definition presentation_default :: stored_presentation_config where
  "presentation_default =
     \<lparr>sp_output_target = StoredWired, sp_wired_ble_host = None, sp_mirror_target = None\<rparr>"

section \<open>The slot router\<close>

datatype active_target_error = CapacityZero | OutOfRange | HostNotFound

record host_router =
  hr_active_index :: nat
  hr_hosts :: "host_id option list"

definition router_new :: "nat \<Rightarrow> host_router" where
  "router_new n = \<lparr>hr_active_index = 0, hr_hosts = replicate n None\<rparr>"

definition router_active :: "host_router \<Rightarrow> host_id option" where
  "router_active r = (if length (hr_hosts r) = 0 then None else hr_hosts r ! hr_active_index r)"

definition router_active_slot :: "host_router \<Rightarrow> nat option" where
  "router_active_slot r = (if length (hr_hosts r) = 0 then None else Some (hr_active_index r))"

definition router_host :: "host_router \<Rightarrow> nat \<Rightarrow> active_target_error + host_id option" where
  "router_host r slot = (if slot \<ge> length (hr_hosts r) then Inl OutOfRange else Inr (hr_hosts r ! slot))"

definition router_set_host :: "host_router \<Rightarrow> nat \<Rightarrow> host_id \<Rightarrow> (host_router, active_target_error, unit) outcome" where
  "router_set_host r slot host =
     (if slot \<ge> length (hr_hosts r) then (r, Inl OutOfRange)
      else (r\<lparr>hr_hosts := (hr_hosts r)[slot := Some host]\<rparr>, Inr ()))"

definition router_clear_host :: "host_router \<Rightarrow> nat \<Rightarrow> (host_router, active_target_error, unit) outcome" where
  "router_clear_host r slot =
     (if slot \<ge> length (hr_hosts r) then (r, Inl OutOfRange)
      else (r\<lparr>hr_hosts := (hr_hosts r)[slot := None]\<rparr>, Inr ()))"

definition router_set_active_slot :: "host_router \<Rightarrow> nat \<Rightarrow> (host_router, active_target_error, unit) outcome" where
  "router_set_active_slot r slot =
     (if length (hr_hosts r) = 0 then (r, Inl CapacityZero)
      else if slot \<ge> length (hr_hosts r) then (r, Inl OutOfRange)
      else (r\<lparr>hr_active_index := slot\<rparr>, Inr ()))"

definition slot_for_host :: "host_router \<Rightarrow> host_id \<Rightarrow> nat option" where
  "slot_for_host r host = position (\<lambda>c. c = Some host) (hr_hosts r)"

definition router_set_active_host :: "host_router \<Rightarrow> host_id \<Rightarrow> (host_router, active_target_error, nat) outcome" where
  "router_set_active_host r host =
     (if length (hr_hosts r) = 0 then (r, Inl CapacityZero)
      else (case slot_for_host r host of
              None \<Rightarrow> (r, Inl HostNotFound)
            | Some slot \<Rightarrow> (r\<lparr>hr_active_index := slot\<rparr>, Inr slot)))"

definition router_next_slot :: "host_router \<Rightarrow> (host_router, active_target_error, nat) outcome" where
  "router_next_slot r =
     (if length (hr_hosts r) = 0 then (r, Inl CapacityZero)
      else let index = (hr_active_index r + 1) mod length (hr_hosts r)
           in (r\<lparr>hr_active_index := index\<rparr>, Inr index))"

fun next_populated_loop :: "host_router \<Rightarrow> nat list \<Rightarrow> host_router \<times> nat option" where
  "next_populated_loop r [] = (r, None)"
| "next_populated_loop r (offset # rest) =
     (let slot = (hr_active_index r + offset) mod length (hr_hosts r) in
      if hr_hosts r ! slot \<noteq> None then (r\<lparr>hr_active_index := slot\<rparr>, Some slot)
      else next_populated_loop r rest)"

definition router_next_populated_slot :: "host_router \<Rightarrow> (host_router, active_target_error, nat option) outcome" where
  "router_next_populated_slot r =
     (if length (hr_hosts r) = 0 then (r, Inl CapacityZero)
      else if list_all (\<lambda>h. h = None) (hr_hosts r) then (r, Inr None)
      else let (r', res) = next_populated_loop r [1..<length (hr_hosts r) + 1] in (r', Inr res))"

section \<open>Cyclic scans\<close>

text \<open>
  A cursor on a ring of positions that moves to the nearest ready position ahead of it reaches
  every ready position.
\<close>

locale cyclic_scan =
  fixes ring :: "'s \<Rightarrow> nat" and cursor :: "'s \<Rightarrow> nat" and ready :: "'s \<Rightarrow> nat \<Rightarrow> bool"
    and valid :: "'s \<Rightarrow> bool" and advance :: "'s \<Rightarrow> 's"
  assumes cursor_less: "valid s \<Longrightarrow> cursor s < ring s"
    and advance_frame: "valid s \<Longrightarrow> valid (advance s) \<and> ring (advance s) = ring s \<and> ready (advance s) = ready s"
    and advance_nearest: "valid s \<Longrightarrow> 0 < d \<Longrightarrow> d < ring s \<Longrightarrow> ready s ((cursor s + d) mod ring s) \<Longrightarrow>
      (\<And>e. 0 < e \<Longrightarrow> e < d \<Longrightarrow> \<not> ready s ((cursor s + e) mod ring s)) \<Longrightarrow>
      cursor (advance s) = (cursor s + d) mod ring s"
begin

lemma reaches_offset:
  "valid s \<Longrightarrow> 0 < d \<Longrightarrow> d < ring s \<Longrightarrow> ready s ((cursor s + d) mod ring s) \<Longrightarrow>
   \<exists>k. 0 < k \<and> k \<le> d \<and> cursor ((advance ^^ k) s) = (cursor s + d) mod ring s"
proof (induction d arbitrary: s rule: less_induct)
  case (less d)
  let ?P = "\<lambda>e. 0 < e \<and> ready s ((cursor s + e) mod ring s)"
  define e where "e = (LEAST e. ?P e)"
  have P: "?P e" unfolding e_def by (rule LeastI[of ?P d]) (use less.prems in simp)
  have least: "\<not> ?P e'" if "e' < e" for e' using that unfolding e_def by (rule not_less_Least)
  have le: "e \<le> d" unfolding e_def by (rule Least_le) (use less.prems in simp)
  have cur: "cursor (advance s) = (cursor s + e) mod ring s"
    by (rule advance_nearest) (use less.prems(1,3) P least le in auto)
  show ?case
  proof (cases "e = d")
    case True
    then show ?thesis using cur less.prems(2) by (intro exI[of _ 1]) simp
  next
    case False
    let ?d = "d - e"
    have frame: "valid (advance s)" "ring (advance s) = ring s" "ready (advance s) = ready s"
      using advance_frame[OF less.prems(1)] by simp_all
    have "(cursor (advance s) + ?d) mod ring s = ((cursor s + e) + ?d) mod ring s"
      by (simp only: cur mod_add_left_eq)
    then have sum: "(cursor (advance s) + ?d) mod ring s = (cursor s + d) mod ring s"
      using le by simp
    have "\<exists>k. 0 < k \<and> k \<le> ?d \<and> cursor ((advance ^^ k) (advance s)) = (cursor (advance s) + ?d) mod ring (advance s)"
      by (rule less.IH) (use less.prems P le False frame sum in auto)
    then obtain k where "0 < k" "k \<le> ?d" "cursor ((advance ^^ k) (advance s)) = (cursor s + d) mod ring s"
      using sum frame by auto
    then show ?thesis
      using P[THEN conjunct1] le by (intro exI[of _ "Suc k"]) (auto simp: funpow_Suc_right simp del: funpow.simps)
  qed
qed

lemma reaches:
  assumes "valid s" and "p < ring s" and "ready s p" and "p \<noteq> cursor s"
  shows "\<exists>k<ring s. cursor ((advance ^^ k) s) = p"
proof -
  let ?c = "cursor s" and ?n = "ring s"
  have c: "?c < ?n" using assms(1) by (rule cursor_less)
  define d where "d = (p + ?n - ?c) mod ?n"
  have "?c + d = p \<or> ?c + d = p + ?n"
    using c assms(2) by (cases "?c \<le> p") (auto simp: d_def mod_if)
  then have sum: "(?c + d) mod ?n = p" using assms(2) by auto
  have d: "d < ?n" using c by (simp add: d_def)
  have "d \<noteq> 0" using sum assms(4) c by (auto intro: ccontr)
  then show ?thesis
    using reaches_offset[OF assms(1), of d] d sum assms(3) by (metis le_less_trans neq0_conv)
qed

end

text \<open>The ring of computers: position zero is the wired computer with its associated BLE host.\<close>

definition computer_ready :: "bool \<Rightarrow> u8 \<Rightarrow> host_id option \<Rightarrow> nat \<Rightarrow> bool" where
  "computer_ready wired_ready ready_mask wired_ble_host index =
     (if index = 0 then wired_ready \<or> (\<exists>h. wired_ble_host = Some h \<and> ble_host_ready ready_mask h)
      else Some (of_nat index) \<noteq> wired_ble_host \<and> ble_host_ready ready_mask (of_nat index))"

definition target_at :: "bool \<Rightarrow> host_id option \<Rightarrow> nat \<Rightarrow> output_target" where
  "target_at wired_ready wired_ble_host index =
     (if index = 0 then if wired_ready then Wired else Ble (the wired_ble_host) else Ble (of_nat index))"

lemma next_target_loop_find:
  "next_target_loop sel wr m wb offsets =
     map_option (\<lambda>d. target_at wr wb ((sel + d) mod (HOST_SLOT_COUNT + 1)))
       (find (\<lambda>d. computer_ready wr m wb ((sel + d) mod (HOST_SLOT_COUNT + 1))) offsets)"
  by (induction offsets) (auto simp: Let_def computer_ready_def target_at_def split: option.splits)

lemma find_upt_Some:
  "find P [Suc 0..<n] = Some d \<longleftrightarrow> 0 < d \<and> d < n \<and> P d \<and> (\<forall>e. 0 < e \<longrightarrow> e < d \<longrightarrow> \<not> P e)"
proof -
  have "find P [1..<n] = Some d \<longleftrightarrow> (\<exists>i<length [1..<n]. P ([1..<n] ! i) \<and> d = [1..<n] ! i \<and> (\<forall>j<i. \<not> P ([1..<n] ! j)))"
    by (rule find_Some_iff)
  also have "\<dots> \<longleftrightarrow> 0 < d \<and> d < n \<and> P d \<and> (\<forall>e. 0 < e \<longrightarrow> e < d \<longrightarrow> \<not> P e)"
  proof
    assume "\<exists>i<length [1..<n]. P ([1..<n] ! i) \<and> d = [1..<n] ! i \<and> (\<forall>j<i. \<not> P ([1..<n] ! j))"
    then obtain i where i: "i < n - 1" "P (Suc i)" "d = Suc i" "\<And>j. j < i \<Longrightarrow> \<not> P (Suc j)" by auto
    then show "0 < d \<and> d < n \<and> P d \<and> (\<forall>e. 0 < e \<longrightarrow> e < d \<longrightarrow> \<not> P e)"
      by (metis Suc_less_eq Suc_pred gr_implies_not0 less_diff_conv add.commute plus_1_eq_Suc zero_less_Suc)
  next
    assume "0 < d \<and> d < n \<and> P d \<and> (\<forall>e. 0 < e \<longrightarrow> e < d \<longrightarrow> \<not> P e)"
    then show "\<exists>i<length [1..<n]. P ([1..<n] ! i) \<and> d = [1..<n] ! i \<and> (\<forall>j<i. \<not> P ([1..<n] ! j))"
      by (intro exI[of _ "d - 1"]) auto
  qed
  finally show ?thesis by simp
qed

lemma selected_index_less: "selected_index t wb < 5"
proof -
  have "unat (min h (4 :: u8)) < 5" for h :: u8 by (simp add: min_def word_le_nat_alt)
  then show ?thesis
    by (auto simp: selected_index_def HOST_SLOT_COUNT_eq split: output_target.splits)
qed

lemma selected_index_target_at:
  assumes "i < 5" and "computer_ready wr m wb i"
  shows "selected_index (target_at wr wb i) wb = i"
proof (cases "i = 0")
  case True
  then show ?thesis using assms(2) by (auto simp: target_at_def selected_index_def computer_ready_def)
next
  case False
  then have "unat (of_nat i :: u8) = i" using assms(1) by (simp add: unat_of_nat)
  moreover from this have "(of_nat i :: u8) \<le> 4" using assms(1) by (simp add: word_le_nat_alt)
  ultimately show ?thesis
    using False assms(2) by (auto simp: target_at_def selected_index_def computer_ready_def HOST_SLOT_COUNT_eq min_def)
qed

lemma next_ready_Some:
  assumes "next_ready_computer_target sel wr m wb = Some t"
  obtains d where "0 < d" and "d < 5" and "computer_ready wr m wb ((selected_index sel wb + d) mod 5)"
    and "\<And>e. 0 < e \<Longrightarrow> e < d \<Longrightarrow> \<not> computer_ready wr m wb ((selected_index sel wb + e) mod 5)"
    and "t = target_at wr wb ((selected_index sel wb + d) mod 5)"
  using assms unfolding next_ready_computer_target_def next_target_loop_find
  by (auto simp: HOST_SLOT_COUNT_eq find_upt_Some simp del: upt_rec_numeral upt_Suc)

lemma next_ready_find:
  assumes "0 < d" and "d < 5" and "computer_ready wr m wb ((selected_index sel wb + d) mod 5)"
    and "\<And>e. 0 < e \<Longrightarrow> e < d \<Longrightarrow> \<not> computer_ready wr m wb ((selected_index sel wb + e) mod 5)"
  shows "next_ready_computer_target sel wr m wb = Some (target_at wr wb ((selected_index sel wb + d) mod 5))"
proof -
  have "find (\<lambda>d. computer_ready wr m wb ((selected_index sel wb + d) mod 5)) [Suc 0..<5] = Some d"
    unfolding find_upt_Some using assms by blast
  then show ?thesis
    by (simp add: next_ready_computer_target_def next_target_loop_find HOST_SLOT_COUNT_eq
        del: upt_rec_numeral upt_Suc)
qed

type_synonym cycle_state = "output_target \<times> bool \<times> u8 \<times> host_id option"

fun cycle_target :: "cycle_state \<Rightarrow> cycle_state" where
  "cycle_target (sel, wr, m, wb) =
     (case next_ready_computer_target sel wr m wb of Some t \<Rightarrow> t | None \<Rightarrow> sel, wr, m, wb)"

interpretation target_cycle: cyclic_scan "\<lambda>_. 5" "\<lambda>(sel, wr, m, wb). selected_index sel wb"
  "\<lambda>(sel, wr, m, wb). computer_ready wr m wb" "\<lambda>_. True" cycle_target
proof (unfold_locales, goal_cases)
  case (1 s)
  then show ?case using selected_index_less by (cases s) simp
next
  case (2 s)
  then show ?case by (cases s) simp
next
  case (3 s d)
  obtain sel wr m wb where s: "s = (sel, wr, m, wb)" by (cases s)
  have "next_ready_computer_target sel wr m wb = Some (target_at wr wb ((selected_index sel wb + d) mod 5))"
    by (rule next_ready_find) (use 3 s in auto)
  then show ?case using 3 s selected_index_target_at[of "(selected_index sel wb + d) mod 5"] by simp
qed

lemma no_other_ready:
  "next_ready_computer_target sel wr m wb = None \<longleftrightarrow>
     (\<forall>i<5. i \<noteq> selected_index sel wb \<longrightarrow> \<not> computer_ready wr m wb i)"
proof
  assume none: "next_ready_computer_target sel wr m wb = None"
  have "(cycle_target ^^ k) (sel, wr, m, wb) = (sel, wr, m, wb)" for k
    by (induction k) (simp_all add: none)
  then show "\<forall>i<5. i \<noteq> selected_index sel wb \<longrightarrow> \<not> computer_ready wr m wb i"
    using target_cycle.reaches[where s = "(sel, wr, m, wb)"] by auto
next
  assume *: "\<forall>i<5. i \<noteq> selected_index sel wb \<longrightarrow> \<not> computer_ready wr m wb i"
  show "next_ready_computer_target sel wr m wb = None"
  proof (rule ccontr)
    assume "next_ready_computer_target sel wr m wb \<noteq> None"
    then obtain t where "next_ready_computer_target sel wr m wb = Some t" by blast
    then show False
    proof (rule next_ready_Some)
      fix d
      assume d: "0 < d" "d < 5" "computer_ready wr m wb ((selected_index sel wb + d) mod 5)"
      have "(selected_index sel wb + d) mod 5 \<noteq> selected_index sel wb"
        using d selected_index_less[of sel wb] by (auto simp: mod_if split: if_splits)
      then show False using * d by simp
    qed
  qed
qed

section \<open>Selection state\<close>

datatype output_op = OpSelect output_target | OpAvailability output_target_availability | OpBeginTransition

fun output_step :: "output_op \<Rightarrow> output_target_state \<Rightarrow> output_target_state" where
  "output_step (OpSelect t) st = fst (output_select st t)"
| "output_step (OpAvailability a) st = output_set_availability st a"
| "output_step OpBeginTransition st = fst (output_begin_transition st)"

definition output_inv :: "output_target_state \<Rightarrow> bool" where
  "output_inv st =
     (ot_active st = (if ot_availability st = Ready then Some (ot_selected st) else None) \<and>
      output_target_validate (ot_selected st) = Inr (ot_selected st))"

interpretation output_ops: op_system output_step "\<lambda>_. True" output_inv
proof
  fix st x
  assume "output_inv st"
  moreover have "output_target_validate t = Inr u \<Longrightarrow> output_target_validate t = Inr t" for t u
    by (cases t) (auto split: if_splits)
  ultimately show "output_inv (output_step x st)"
    by (cases x) (auto simp: output_inv_def output_select_def output_set_availability_def
        output_begin_transition_def Let_def split: sum.splits output_target_availability.splits)
qed

section \<open>Router\<close>

datatype router_op = RtSetHost nat host_id | RtClearHost nat | RtSetActiveSlot nat | RtSetActiveHost host_id
  | RtNextSlot | RtNextPopulated

fun router_step :: "router_op \<Rightarrow> host_router \<Rightarrow> host_router" where
  "router_step (RtSetHost i h) r = fst (router_set_host r i h)"
| "router_step (RtClearHost i) r = fst (router_clear_host r i)"
| "router_step (RtSetActiveSlot i) r = fst (router_set_active_slot r i)"
| "router_step (RtSetActiveHost h) r = fst (router_set_active_host r h)"
| "router_step RtNextSlot r = fst (router_next_slot r)"
| "router_step RtNextPopulated r = fst (router_next_populated_slot r)"

definition router_inv :: "host_router \<Rightarrow> bool" where
  "router_inv r = (hr_hosts r \<noteq> [] \<longrightarrow> hr_active_index r < length (hr_hosts r))"

lemma next_populated_loop_find:
  "next_populated_loop r offsets =
     (case find (\<lambda>d. hr_hosts r ! ((hr_active_index r + d) mod length (hr_hosts r)) \<noteq> None) offsets of
        None \<Rightarrow> (r, None)
      | Some d \<Rightarrow> (r\<lparr>hr_active_index := (hr_active_index r + d) mod length (hr_hosts r)\<rparr>,
                   Some ((hr_active_index r + d) mod length (hr_hosts r))))"
  by (induction offsets) (auto simp: Let_def)

lemma next_populated_keeps:
  "hr_hosts (fst (router_next_populated_slot r)) = hr_hosts r"
  "router_inv r \<Longrightarrow> router_inv (fst (router_next_populated_slot r))"
  by (auto simp: router_next_populated_slot_def Let_def case_prod_beta next_populated_loop_find router_inv_def
      split: option.splits)

interpretation router_ops: op_system router_step "\<lambda>_. True" router_inv
proof
  fix r x
  assume inv: "router_inv r"
  show "router_inv (router_step x r)"
  proof (cases "x = RtNextPopulated")
    case True
    then show ?thesis using next_populated_keeps(2)[OF inv] by simp
  next
    case False
    then show ?thesis
      using inv by (cases x) (auto simp: router_inv_def router_set_host_def router_clear_host_def
          router_set_active_slot_def router_set_active_host_def router_next_slot_def slot_for_host_def Let_def
          split: option.splits dest: position_SomeD(1))
  qed
qed

interpretation router_cycle: cyclic_scan "\<lambda>r. length (hr_hosts r)" hr_active_index
  "\<lambda>r i. hr_hosts r ! i \<noteq> None" "\<lambda>r. router_inv r \<and> hr_hosts r \<noteq> []" "\<lambda>r. fst (router_next_populated_slot r)"
proof (unfold_locales, goal_cases)
  case (1 r)
  then show ?case by (simp add: router_inv_def)
next
  case (2 r)
  then show ?case by (simp add: next_populated_keeps)
next
  case (3 r d)
  let ?P = "\<lambda>d. hr_hosts r ! ((hr_active_index r + d) mod length (hr_hosts r)) \<noteq> None"
  have "find ?P [Suc 0..<length (hr_hosts r) + 1] = Some d"
    unfolding find_upt_Some using 3 by auto
  moreover have "\<not> list_all (\<lambda>h. h = None) (hr_hosts r)"
    using 3 nth_mem[of "(hr_active_index r + d) mod length (hr_hosts r)" "hr_hosts r"]
    unfolding list_all_iff by (metis length_greater_0_conv mod_less_divisor)
  ultimately show ?case
    using 3 by (simp add: router_next_populated_slot_def Let_def next_populated_loop_find del: upt_Suc)
qed

section \<open>Properties\<close>

text \<open>
  What the target button selects. The scan returns nothing exactly if no other computer is
  ready; otherwise it returns a target that is really usable (the wired one only with the
  wired link ready, a BLE one only if its ready bit is set), of a different computer than the
  current selection, and no computer between the two in cycling order is ready. A computer
  reachable over both transports is one position of the cycle.
\<close>

theorem target_cycle_nearest:
  "case next_ready_computer_target selected wired_ready ready_mask wired_ble_host of
     None \<Rightarrow> \<forall>i<5. i \<noteq> selected_index selected wired_ble_host \<longrightarrow>
       \<not> computer_ready wired_ready ready_mask wired_ble_host i
   | Some t \<Rightarrow>
       (t = Wired \<and> wired_ready \<or> (\<exists>h. t = Ble h \<and> ble_host_ready ready_mask h)) \<and>
       (\<exists>d. 0 < d \<and> d < 5 \<and>
         selected_index t wired_ble_host = (selected_index selected wired_ble_host + d) mod 5 \<and>
         (\<forall>e. 0 < e \<and> e < d \<longrightarrow>
           \<not> computer_ready wired_ready ready_mask wired_ble_host ((selected_index selected wired_ble_host + e) mod 5)))"
proof (cases "next_ready_computer_target selected wired_ready ready_mask wired_ble_host")
  case None
  then show ?thesis using no_other_ready[of selected wired_ready ready_mask wired_ble_host] by simp
next
  case (Some t)
  from Some show ?thesis
  proof (rule next_ready_Some)
    fix d
    let ?i = "(selected_index selected wired_ble_host + d) mod 5"
    assume d: "0 < d" "d < 5" "computer_ready wired_ready ready_mask wired_ble_host ?i"
      "\<And>e. 0 < e \<Longrightarrow> e < d \<Longrightarrow>
        \<not> computer_ready wired_ready ready_mask wired_ble_host ((selected_index selected wired_ble_host + e) mod 5)"
      and t: "t = target_at wired_ready wired_ble_host ?i"
    have "selected_index t wired_ble_host = ?i"
      unfolding t by (rule selected_index_target_at) (use d in auto)
    moreover have "t = Wired \<and> wired_ready \<or> (\<exists>h. t = Ble h \<and> ble_host_ready ready_mask h)"
      using d(3) by (auto simp: t target_at_def computer_ready_def split: if_splits)
    ultimately show ?thesis using Some d(1,2,4) by auto
  qed
qed

theorem target_cycle_nearest_witness:
  "next_ready_computer_target (Ble 3) False 0b0101 (Some 1) = Some (Ble 1) \<and>
   (\<exists>d. 0 < d \<and> d < 5 \<and> selected_index (Ble 1) (Some 1) = (selected_index (Ble 3) (Some 1) + d) mod 5)"
proof -
  have "next_ready_computer_target (Ble 3) False 0b0101 (Some 1) = Some (Ble 1)" by code_simp
  then show ?thesis using target_cycle_nearest[where selected = "Ble 3" and wired_ready = False and ready_mask = "0b0101" and wired_ble_host = "Some 1"]
    by auto
qed

text \<open>
  The cycle is fair. While readiness does not change, every ready computer other than the
  current one is selected after at most four presses of the target button.
\<close>

theorem target_cycle_reaches:
  assumes "i < 5" and "computer_ready wired_ready ready_mask wired_ble_host i"
    and "i \<noteq> selected_index selected wired_ble_host"
  shows "\<exists>k<5. selected_index (fst ((cycle_target ^^ k) (selected, wired_ready, ready_mask, wired_ble_host)))
    (snd (snd (snd ((cycle_target ^^ k) (selected, wired_ready, ready_mask, wired_ble_host))))) = i"
  using target_cycle.reaches[where s = "(selected, wired_ready, ready_mask, wired_ble_host)" and p = i] assms
  by (auto simp: case_prod_beta)

theorem target_cycle_reaches_witness:
  "\<exists>k<5. selected_index (fst ((cycle_target ^^ k) (Wired, True, 0b1010, Some 1)))
    (snd (snd (snd ((cycle_target ^^ k) (Wired, True, 0b1010, Some 1))))) = 4"
proof (rule target_cycle_reaches)
  show "(4 :: nat) < 5" by simp
  show "computer_ready True 0b1010 (Some 1) 4" by code_simp
  show "4 \<noteq> selected_index Wired (Some 1)" by (simp add: selected_index_def)
qed

text \<open>
  Reports are only ever routed to the selected target while it is ready. After any sequence
  of selections, availability changes and transitions on a new state, the active target is
  the selected one if the target is ready and absent otherwise, and the selected target is
  valid; a rejected selection changes nothing.
\<close>

theorem active_follows_selection:
  "let st = run output_step ops output_target_state_new in
   ot_active st = (if ot_availability st = Ready then Some (ot_selected st) else None) \<and>
   output_target_validate (ot_selected st) = Inr (ot_selected st) \<and>
   (case output_select st t of
      (st', Inl _) \<Rightarrow> st' = st
    | (st', Inr operation) \<Rightarrow> ot_selected st' = t \<and> ot_active st' = None \<and> operation = ot_transition_operation_id st + 1)"
proof -
  have "output_inv output_target_state_new"
    by (simp add: output_inv_def output_target_state_new_def)
  then have "output_inv (run output_step ops output_target_state_new)"
    by (rule output_ops.run_inv) (simp add: list_all_iff)
  then show ?thesis
    by (auto simp: Let_def output_inv_def output_select_def split: sum.splits)
qed

text \<open>
  The slot router never indexes outside its table and its button reaches every paired host.
  After any sequence of operations the active index is in range (or there are no slots), and
  cycling through populated slots reaches each populated slot other than the active one in
  fewer steps than there are slots.
\<close>

theorem router_reaches_populated:
  assumes "i < n" and "hr_hosts (run router_step ops (router_new n)) ! i \<noteq> None"
    and "i \<noteq> hr_active_index (run router_step ops (router_new n))"
  shows "hr_active_index (run router_step ops (router_new n)) < n \<and>
    (\<exists>k<n. hr_active_index (((\<lambda>r. fst (router_next_populated_slot r)) ^^ k) (run router_step ops (router_new n))) = i)"
proof -
  let ?r = "run router_step ops (router_new n)"
  have inv: "router_inv ?r"
    by (rule router_ops.run_inv) (simp_all add: router_inv_def router_new_def list_all_iff)
  have step: "length (hr_hosts (router_step x r)) = length (hr_hosts r)" for x r
    by (cases x) (auto simp: router_set_host_def router_clear_host_def router_set_active_slot_def
        router_set_active_host_def router_next_slot_def next_populated_keeps Let_def split: option.splits)
  have "length (hr_hosts (run router_step ops r)) = length (hr_hosts r)" for r
    by (induction ops arbitrary: r) (simp_all add: step)
  then have len: "length (hr_hosts ?r) = n" by (simp add: router_new_def)
  then have ne: "hr_hosts ?r \<noteq> []" using assms(1) by auto
  then show ?thesis
    using router_cycle.reaches[of ?r i] inv assms len by (auto simp: router_inv_def)
qed

theorem router_reaches_populated_witness:
  "\<exists>k<4. hr_active_index (((\<lambda>r. fst (router_next_populated_slot r)) ^^ k)
     (run router_step [RtSetHost 0 10, RtSetHost 2 12] (router_new 4))) = 2"
  by (rule router_reaches_populated[THEN conjunct2])
    (simp_all add: router_new_def router_set_host_def eval_nat_numeral)

end
