(* ===== verification/HS_Profiles.thy ===== *)
theory HS_Profiles
  imports HS_Movement "HOL-Library.Signed_Division"
begin

unbundle bit_operations_syntax

text \<open>
  Settings (\<open>src/settings.rs\<close>) and per-device input profiles
  (\<open>src/domain/input_profile.rs\<close>): the settings schema with its ranges, the global and
  input settings, keyboard shortcuts and their packed form, the identity of an input device,
  the transforms a profile applies to its frames before aggregation, the target switch
  shortcut, and the registry of profiles with its least-recently-seen eviction.
\<close>

section \<open>Settings schema\<close>

datatype setting_value_kind = KindBool | KindInteger | KindChoice | KindHidUsage | KindKeyboardShortcut

datatype setting_scope = ScopeGlobal | ScopeInput

datatype setting_id =
  BootTarget | RestoreLastTarget | AutoReconnect | SwitchReleaseDelayMs | ButtonShortAction
  | ButtonLongAction | ButtonVeryLongAction | KeyboardLayout | RemapFromUsage | RemapToUsage
  | MouseSensitivityPercent | ScrollMultiplierPercent | ConsumerFromUsage | ConsumerToUsage
  | LogLevel | TargetSwitchShortcut

fun setting_id_u16 :: "setting_id \<Rightarrow> u16" where
  "setting_id_u16 BootTarget = 1"
| "setting_id_u16 RestoreLastTarget = 2"
| "setting_id_u16 AutoReconnect = 3"
| "setting_id_u16 SwitchReleaseDelayMs = 4"
| "setting_id_u16 ButtonShortAction = 5"
| "setting_id_u16 ButtonLongAction = 6"
| "setting_id_u16 ButtonVeryLongAction = 7"
| "setting_id_u16 KeyboardLayout = 8"
| "setting_id_u16 RemapFromUsage = 9"
| "setting_id_u16 RemapToUsage = 10"
| "setting_id_u16 MouseSensitivityPercent = 11"
| "setting_id_u16 ScrollMultiplierPercent = 12"
| "setting_id_u16 ConsumerFromUsage = 13"
| "setting_id_u16 ConsumerToUsage = 14"
| "setting_id_u16 LogLevel = 15"
| "setting_id_u16 TargetSwitchShortcut = 16"

text \<open>The wire-relevant fields of a descriptor; its display texts (label, description, unit, choice labels) are left out.\<close>

record setting_descriptor =
  sd_id :: setting_id
  sd_key :: string
  sd_kind :: setting_value_kind
  sd_scope :: setting_scope
  sd_default :: int
  sd_min :: int
  sd_max :: int
  sd_step :: u16
  sd_choices :: "int list"
  sd_restart_required :: bool

definition descriptor ::
    "setting_id \<Rightarrow> string \<Rightarrow> setting_value_kind \<Rightarrow> setting_scope \<Rightarrow> int \<Rightarrow> int \<Rightarrow> int \<Rightarrow> u16 \<Rightarrow>
      int list \<Rightarrow> bool \<Rightarrow> setting_descriptor" where
  "descriptor i key kind scope dflt lo hi step choices restart =
     \<lparr>sd_id = i, sd_key = key, sd_kind = kind, sd_scope = scope, sd_default = dflt, sd_min = lo,
      sd_max = hi, sd_step = step, sd_choices = choices, sd_restart_required = restart\<rparr>"

definition SETTING_DESCRIPTORS :: "setting_descriptor list" where
  "SETTING_DESCRIPTORS =
     [descriptor BootTarget ''boot_target'' KindChoice ScopeGlobal 0 0 4 1 [0, 1, 2, 3, 4] False,
      descriptor RestoreLastTarget ''restore_last_target'' KindBool ScopeGlobal 1 0 1 1 [] False,
      descriptor AutoReconnect ''auto_reconnect'' KindBool ScopeGlobal 1 0 1 1 [] True,
      descriptor SwitchReleaseDelayMs ''switch_release_delay_ms'' KindInteger ScopeGlobal 20 0 1000 5 [] False,
      descriptor ButtonShortAction ''button_short_action'' KindChoice ScopeGlobal 1 0 3 1 [0, 1, 2, 3] False,
      descriptor ButtonLongAction ''button_long_action'' KindChoice ScopeGlobal 2 0 3 1 [0, 1, 2, 3] False,
      descriptor ButtonVeryLongAction ''button_very_long_action'' KindChoice ScopeGlobal 3 0 3 1 [0, 1, 2, 3] False,
      descriptor KeyboardLayout ''keyboard_layout'' KindChoice ScopeInput 0 0 2 1 [0, 1, 2] False,
      descriptor RemapFromUsage ''remap_from_usage'' KindHidUsage ScopeInput 0 0 255 1 [] False,
      descriptor RemapToUsage ''remap_to_usage'' KindHidUsage ScopeInput 0 0 255 1 [] False,
      descriptor MouseSensitivityPercent ''mouse_sensitivity_percent'' KindInteger ScopeInput 100 10 400 5 [] False,
      descriptor ScrollMultiplierPercent ''scroll_multiplier_percent'' KindInteger ScopeInput 100 10 400 5 [] False,
      descriptor ConsumerFromUsage ''consumer_from_usage'' KindHidUsage ScopeInput 0 0 1023 1 [] False,
      descriptor ConsumerToUsage ''consumer_to_usage'' KindHidUsage ScopeInput 0 0 1023 1 [] False,
      descriptor LogLevel ''log_level'' KindChoice ScopeGlobal 2 0 2 1 [0, 1, 2] False,
      descriptor TargetSwitchShortcut ''target_switch_shortcut'' KindKeyboardShortcut ScopeInput 0 0 65535 1 [] False]"

definition setting_id_from_u16 :: "u16 \<Rightarrow> setting_id option" where
  "setting_id_from_u16 v =
     (if v = 1 then Some BootTarget else if v = 2 then Some RestoreLastTarget
      else if v = 3 then Some AutoReconnect else if v = 4 then Some SwitchReleaseDelayMs
      else if v = 5 then Some ButtonShortAction else if v = 6 then Some ButtonLongAction
      else if v = 7 then Some ButtonVeryLongAction else if v = 8 then Some KeyboardLayout
      else if v = 9 then Some RemapFromUsage else if v = 10 then Some RemapToUsage
      else if v = 11 then Some MouseSensitivityPercent else if v = 12 then Some ScrollMultiplierPercent
      else if v = 13 then Some ConsumerFromUsage else if v = 14 then Some ConsumerToUsage
      else if v = 15 then Some LogLevel else if v = 16 then Some TargetSwitchShortcut else None)"

definition setting_descriptor_of :: "setting_id \<Rightarrow> setting_descriptor" where
  "setting_descriptor_of i =
     (case find (\<lambda>d. setting_id_u16 (sd_id d) = setting_id_u16 i) SETTING_DESCRIPTORS of
        Some d \<Rightarrow> d | None \<Rightarrow> SETTING_DESCRIPTORS ! 0)"

definition setting_by_key :: "string \<Rightarrow> setting_descriptor option" where
  "setting_by_key key = find (\<lambda>d. sd_key d = key) SETTING_DESCRIPTORS"

definition validate_setting_value :: "setting_id \<Rightarrow> int \<Rightarrow> bool" where
  "validate_setting_value i v = (let d = setting_descriptor_of i in v \<ge> sd_min d \<and> v \<le> sd_max d)"

definition schema_hash_byte :: "u32 \<Rightarrow> u8 \<Rightarrow> u32" where
  "schema_hash_byte hash b = (hash XOR ucast b) * 0x01000193"

definition schema_hash_bytes :: "u32 \<Rightarrow> bytes \<Rightarrow> u32" where
  "schema_hash_bytes hash bs = foldl schema_hash_byte hash bs"

fun setting_kind_byte :: "setting_value_kind \<Rightarrow> u8" where
  "setting_kind_byte KindBool = 0"
| "setting_kind_byte KindInteger = 1"
| "setting_kind_byte KindChoice = 2"
| "setting_kind_byte KindHidUsage = 3"
| "setting_kind_byte KindKeyboardShortcut = 4"

definition i32_bytes :: "int \<Rightarrow> bytes" where
  "i32_bytes v = to_le 4 (word_of_int v :: u32)"

definition schema_hash_descriptor :: "u32 \<Rightarrow> setting_descriptor \<Rightarrow> u32" where
  "schema_hash_descriptor h0 d =
     (let h1 = schema_hash_bytes h0 (to_le 2 (setting_id_u16 (sd_id d)));
          h2 = schema_hash_bytes h1 (map of_char (sd_key d));
          h3 = schema_hash_byte h2 0;
          h4 = schema_hash_byte h3 (setting_kind_byte (sd_kind d));
          h5 = schema_hash_byte h4 (if sd_scope d = ScopeGlobal then 0 else 1);
          h6 = schema_hash_bytes h5 (i32_bytes (sd_default d));
          h7 = schema_hash_bytes h6 (i32_bytes (sd_min d));
          h8 = schema_hash_bytes h7 (i32_bytes (sd_max d));
          h9 = schema_hash_bytes h8 (to_le 2 (sd_step d));
          h10 = schema_hash_byte h9 (if sd_restart_required d then 1 else 0);
          h11 = schema_hash_bytes h10 (to_le 2 (of_nat (length (sd_choices d)) :: u16))
      in foldl (\<lambda>h c. schema_hash_bytes h (i32_bytes c)) h11 (sd_choices d))"

definition settings_schema_hash :: "u16 \<Rightarrow> setting_descriptor list \<Rightarrow> u32" where
  "settings_schema_hash version ds =
     foldl schema_hash_descriptor
       (schema_hash_bytes (schema_hash_bytes 0x811c9dc5 (to_le 2 version)) (to_le 2 (of_nat (length ds) :: u16))) ds"

section \<open>Keyboard shortcuts\<close>

record keyboard_shortcut =
  sc_modifiers :: modifier_state
  sc_key :: key_usage

definition shortcut_disabled :: keyboard_shortcut where
  "shortcut_disabled = \<lparr>sc_modifiers = 0, sc_key = 0\<rparr>"

definition shortcut_new :: "modifier_state \<Rightarrow> key_usage \<Rightarrow> keyboard_shortcut option" where
  "shortcut_new m k =
     (if k = 0 \<or> (k \<ge> 0xe0 \<and> k \<le> 0xe7) then None else Some \<lparr>sc_modifiers = m, sc_key = k\<rparr>)"

definition shortcut_from_packed :: "u16 \<Rightarrow> keyboard_shortcut option" where
  "shortcut_from_packed v =
     (let key = (ucast v :: u8) in
      if key = 0 then Some shortcut_disabled else shortcut_new (ucast (drop_bit 8 v)) key)"

definition shortcut_packed :: "keyboard_shortcut \<Rightarrow> u16" where
  "shortcut_packed s = from_le [sc_key s, sc_modifiers s]"

definition shortcut_is_enabled :: "keyboard_shortcut \<Rightarrow> bool" where
  "shortcut_is_enabled s = (sc_key s \<noteq> 0)"

section \<open>Settings records\<close>

record global_settings =
  gs_boot_target :: u8
  gs_restore_last_target :: bool
  gs_auto_reconnect :: bool
  gs_switch_release_delay_ms :: u16
  gs_button_short_action :: u8
  gs_button_long_action :: u8
  gs_button_very_long_action :: u8
  gs_log_level :: u8

definition global_settings_default :: global_settings where
  "global_settings_default =
     \<lparr>gs_boot_target = 0, gs_restore_last_target = True, gs_auto_reconnect = True,
      gs_switch_release_delay_ms = 20, gs_button_short_action = 1, gs_button_long_action = 2,
      gs_button_very_long_action = 3, gs_log_level = 2\<rparr>"

record input_settings =
  is_keyboard_layout :: u8
  is_remap_from_usage :: u8
  is_remap_to_usage :: u8
  is_mouse_sensitivity_percent :: u16
  is_scroll_multiplier_percent :: u16
  is_consumer_from_usage :: u16
  is_consumer_to_usage :: u16
  is_target_switch_shortcut :: keyboard_shortcut

definition input_settings_default :: input_settings where
  "input_settings_default =
     \<lparr>is_keyboard_layout = 0, is_remap_from_usage = 0, is_remap_to_usage = 0,
      is_mouse_sensitivity_percent = 100, is_scroll_multiplier_percent = 100,
      is_consumer_from_usage = 0, is_consumer_to_usage = 0, is_target_switch_shortcut = shortcut_disabled\<rparr>"

section \<open>Input identity\<close>

definition INPUT_PROFILE_CAPACITY :: nat where "INPUT_PROFILE_CAPACITY = 8"

type_synonym input_profile_id = u8

definition input_profile_id_new :: "u8 \<Rightarrow> input_profile_id option" where
  "input_profile_id_new v = (if v \<ge> 1 \<and> v \<le> of_nat INPUT_PROFILE_CAPACITY then Some v else None)"

record input_identity =
  ii_vendor_id :: u16
  ii_product_id :: u16
  ii_instance_hash :: u64

definition identity_hash_byte :: "u64 \<Rightarrow> u8 \<Rightarrow> u64" where
  "identity_hash_byte hash b = (hash XOR ucast b) * 0x100000001b3"

definition identity_hash_start :: "u8 \<Rightarrow> u64" where
  "identity_hash_start kind = identity_hash_byte 0xcbf29ce484222325 kind"

definition identity_hash :: "u8 \<Rightarrow> bytes \<Rightarrow> u64" where
  "identity_hash kind bs = foldl identity_hash_byte (identity_hash_start kind) bs"

definition identity_from_serial :: "u16 \<Rightarrow> u16 \<Rightarrow> bytes \<Rightarrow> input_identity option" where
  "identity_from_serial v p serial =
     (if serial = [] then None
      else Some \<lparr>ii_vendor_id = v, ii_product_id = p, ii_instance_hash = identity_hash 0x53 serial\<rparr>)"

definition identity_from_serial_utf16 :: "u16 \<Rightarrow> u16 \<Rightarrow> u16 list \<Rightarrow> input_identity option" where
  "identity_from_serial_utf16 v p serial =
     (if serial = [] then None
      else Some \<lparr>ii_vendor_id = v, ii_product_id = p,
                 ii_instance_hash = foldl (\<lambda>h u. foldl identity_hash_byte h (to_le 2 u)) (identity_hash_start 0x53) serial\<rparr>)"

definition identity_from_port_path :: "u16 \<Rightarrow> u16 \<Rightarrow> bytes \<Rightarrow> input_identity" where
  "identity_from_port_path v p path =
     \<lparr>ii_vendor_id = v, ii_product_id = p, ii_instance_hash = identity_hash 0x50 path\<rparr>"

section \<open>Profiles\<close>

record mouse_scale_remainders =
  mr_x :: int
  mr_y :: int
  mr_wheel :: int
  mr_pan :: int

definition remainders_zero :: mouse_scale_remainders where
  "remainders_zero = \<lparr>mr_x = 0, mr_y = 0, mr_wheel = 0, mr_pan = 0\<rparr>"

record input_profile =
  ip_id :: input_profile_id
  ip_identity :: input_identity
  ip_connected :: bool
  ip_last_seen :: u64
  ip_settings :: input_settings
  ip_mouse_remainders :: mouse_scale_remainders
  ip_shortcut_armed :: bool

definition profile_restored :: "input_profile_id \<Rightarrow> input_identity \<Rightarrow> u64 \<Rightarrow> input_settings \<Rightarrow> input_profile" where
  "profile_restored i identity last_seen settings =
     \<lparr>ip_id = i, ip_identity = identity, ip_connected = False, ip_last_seen = last_seen,
      ip_settings = settings, ip_mouse_remainders = remainders_zero, ip_shortcut_armed = True\<rparr>"

definition scale_i16_with_remainder :: "i16 \<Rightarrow> u16 \<Rightarrow> int \<Rightarrow> i16 \<times> int" where
  "scale_i16_with_remainder v percent remainder =
     (let scaled = sint v * uint percent + remainder
      in (word_of_int (clampi (- 32768) 32767 (scaled sdiv 100)), scaled smod 100))"

definition scale_i8_with_remainder :: "i8 \<Rightarrow> u16 \<Rightarrow> int \<Rightarrow> i8 \<times> int" where
  "scale_i8_with_remainder v percent remainder =
     (let scaled = sint v * uint percent + remainder
      in (word_of_int (clampi (- 128) 127 (scaled sdiv 100)), scaled smod 100))"

definition map_key :: "input_settings \<Rightarrow> key_usage \<Rightarrow> key_usage" where
  "map_key s key =
     (let layout_key = (if is_keyboard_layout s = 1 \<and> key = 0x89 then 0x35
                        else if is_keyboard_layout s = 2 \<and> key = 0x35 then 0x89 else key)
      in if is_remap_from_usage s \<noteq> 0 \<and> layout_key = is_remap_from_usage s then is_remap_to_usage s
         else layout_key)"

text \<open>The loops that rebuild a keyboard frame and ignore a failing \<open>push_key\<close>.\<close>

fun push_keys_lossy :: "keyboard_frame \<Rightarrow> key_usage list \<Rightarrow> keyboard_frame" where
  "push_keys_lossy f [] = f"
| "push_keys_lossy f (k # ks) = push_keys_lossy (fst (push_key f k)) ks"

definition transform_mouse :: "input_profile \<Rightarrow> mouse_frame \<Rightarrow> input_profile \<times> mouse_frame" where
  "transform_mouse p mouse =
     (let s = ip_settings p; m = mf_movement mouse; r = ip_mouse_remainders p;
          (x, rx) = scale_i16_with_remainder (mm_x m) (is_mouse_sensitivity_percent s) (mr_x r);
          (y, ry) = scale_i16_with_remainder (mm_y m) (is_mouse_sensitivity_percent s) (mr_y r);
          (w, rw) = scale_i8_with_remainder (mm_wheel m) (is_scroll_multiplier_percent s) (mr_wheel r);
          (pan, rp) = scale_i8_with_remainder (mm_pan m) (is_scroll_multiplier_percent s) (mr_pan r)
      in (p\<lparr>ip_mouse_remainders := \<lparr>mr_x = rx, mr_y = ry, mr_wheel = rw, mr_pan = rp\<rparr>\<rparr>,
          mouse\<lparr>mf_movement := \<lparr>mm_x = x, mm_y = y, mm_wheel = w, mm_pan = pan\<rparr>\<rparr>))"

definition profile_transform :: "input_profile \<Rightarrow> standard_input_frame \<Rightarrow> input_profile \<times> standard_input_frame" where
  "profile_transform p f =
     (let s = ip_settings p;
          f1 = (case sf_keyboard f of
                  None \<Rightarrow> f
                | Some kf \<Rightarrow> f\<lparr>sf_keyboard := Some (push_keys_lossy (keyboard_frame_new (kf_modifiers kf))
                                (map (map_key s) (kf_keys_down kf)))\<rparr>);
          (p2, f2) = (case sf_mouse f1 of
                        None \<Rightarrow> (p, f1)
                      | Some mouse \<Rightarrow> let (p', mouse') = transform_mouse p mouse in (p', f1\<lparr>sf_mouse := Some mouse'\<rparr>));
          f3 = (case sf_consumer f2 of
                  None \<Rightarrow> f2
                | Some c \<Rightarrow>
                    (case cf_active c of
                       None \<Rightarrow> f2
                     | Some active \<Rightarrow>
                         if is_consumer_from_usage s \<noteq> 0 \<and> active = is_consumer_from_usage s
                         then f2\<lparr>sf_consumer := Some (c\<lparr>cf_active := Some (is_consumer_to_usage s)\<rparr>)\<rparr>
                         else f2))
      in (p2, f3))"

definition capture_target_switch_shortcut ::
    "input_profile \<Rightarrow> standard_input_frame \<Rightarrow> (input_profile \<times> standard_input_frame) \<times> bool" where
  "capture_target_switch_shortcut p f =
     (let shortcut = is_target_switch_shortcut (ip_settings p) in
      case sf_keyboard f of
        None \<Rightarrow> ((p, f), False)
      | Some keyboard \<Rightarrow>
          if \<not> shortcut_is_enabled shortcut then ((p\<lparr>ip_shortcut_armed := True\<rparr>, f), False)
          else
            let key_down = (sc_key shortcut \<in> set (kf_keys_down keyboard));
                components_released = (\<not> key_down \<and> kf_modifiers keyboard AND sc_modifiers shortcut = 0);
                armed1 = (if components_released then True else ip_shortcut_armed p);
                triggered = (armed1 \<and> key_down \<and> kf_modifiers keyboard = sc_modifiers shortcut \<and>
                             length (kf_keys_down keyboard) = 1);
                armed2 = (if triggered then False else armed1);
                keyboard' = (if triggered \<or> \<not> armed2
                             then push_keys_lossy (keyboard_frame_new (kf_modifiers keyboard AND NOT (sc_modifiers shortcut)))
                                    (filter (\<lambda>k. k \<noteq> sc_key shortcut) (kf_keys_down keyboard))
                             else keyboard)
            in ((p\<lparr>ip_shortcut_armed := armed2\<rparr>, f\<lparr>sf_keyboard := Some keyboard'\<rparr>), triggered))"

definition target_switch_shortcut_would_trigger :: "input_profile \<Rightarrow> standard_input_frame \<Rightarrow> bool" where
  "target_switch_shortcut_would_trigger p f =
     (let shortcut = is_target_switch_shortcut (ip_settings p) in
      case sf_keyboard f of
        None \<Rightarrow> False
      | Some keyboard \<Rightarrow>
          ip_shortcut_armed p \<and> shortcut_is_enabled shortcut \<and>
          kf_modifiers keyboard = sc_modifiers shortcut \<and> kf_keys_down keyboard = [sc_key shortcut])"

definition reset_transform_state :: "input_profile \<Rightarrow> input_profile" where
  "reset_transform_state p = p\<lparr>ip_mouse_remainders := remainders_zero, ip_shortcut_armed := True\<rparr>"

section \<open>Registry\<close>

datatype input_profile_error =
  RegistryFullWithConnectedProfiles | UnknownProfile | DuplicateProfileId | DuplicateIdentity

record input_profile_registry =
  pr_profiles :: "input_profile list"
  pr_next_sequence :: u64

definition registry_new :: input_profile_registry where
  "registry_new = \<lparr>pr_profiles = [], pr_next_sequence = 1\<rparr>"

definition registry_restore ::
    "input_profile_registry \<Rightarrow> input_profile \<Rightarrow> (input_profile_registry, input_profile_error, unit) outcome" where
  "registry_restore r p =
     (if list_ex (\<lambda>q. ip_id q = ip_id p) (pr_profiles r) then (r, Inl DuplicateProfileId)
      else if list_ex (\<lambda>q. ip_identity q = ip_identity p) (pr_profiles r) then (r, Inl DuplicateIdentity)
      else
        let r1 = r\<lparr>pr_next_sequence := max (pr_next_sequence r) (ip_last_seen p + 1)\<rparr>
        in case vec_push INPUT_PROFILE_CAPACITY (pr_profiles r) p of
             Some ps \<Rightarrow> (r1\<lparr>pr_profiles := ps\<rparr>, Inr ())
           | None \<Rightarrow> (r1, Inl RegistryFullWithConnectedProfiles))"

text \<open>\<open>enumerate().filter(..).min_by_key(..)\<close>: the first of the least recently seen disconnected profiles.\<close>

fun oldest_disconnected :: "nat \<Rightarrow> input_profile list \<Rightarrow> (nat \<times> u64) option \<Rightarrow> (nat \<times> u64) option" where
  "oldest_disconnected i [] best = best"
| "oldest_disconnected i (p # ps) best =
     oldest_disconnected (i + 1) ps
       (if ip_connected p then best
        else case best of
               None \<Rightarrow> Some (i, ip_last_seen p)
             | Some (j, seen) \<Rightarrow> if ip_last_seen p < seen then Some (i, ip_last_seen p) else best)"

definition free_profile_id :: "input_profile list \<Rightarrow> input_profile_id option" where
  "free_profile_id ps =
     find (\<lambda>i. input_profile_id_new i = Some i \<and> \<not> list_ex (\<lambda>p. ip_id p = i) ps)
       (map of_nat [1..<INPUT_PROFILE_CAPACITY + 1])"

definition registry_observe ::
    "input_profile_registry \<Rightarrow> input_identity \<Rightarrow> (input_profile_registry, input_profile_error, input_profile_id) outcome" where
  "registry_observe r identity =
     (let sequence = pr_next_sequence r;
          r1 = r\<lparr>pr_next_sequence := sequence + 1\<rparr>;
          ps = pr_profiles r
      in case position (\<lambda>p. ip_identity p = identity) ps of
           Some i \<Rightarrow>
             (r1\<lparr>pr_profiles := ps[i := (ps ! i)\<lparr>ip_connected := True, ip_last_seen := sequence\<rparr>]\<rparr>, Inr (ip_id (ps ! i)))
         | None \<Rightarrow>
             if length ps = INPUT_PROFILE_CAPACITY then
               (case oldest_disconnected 0 ps None of
                  None \<Rightarrow> (r1, Inl RegistryFullWithConnectedProfiles)
                | Some (i, _) \<Rightarrow>
                    let k = ip_id (ps ! i)
                    in (r1\<lparr>pr_profiles :=
                           ps[i := (profile_restored k identity sequence input_settings_default)\<lparr>ip_connected := True\<rparr>]\<rparr>,
                        Inr k))
             else
               (case free_profile_id ps of
                  None \<Rightarrow> (r1, Inl RegistryFullWithConnectedProfiles)
                | Some k \<Rightarrow>
                    (case vec_push INPUT_PROFILE_CAPACITY ps
                            ((profile_restored k identity sequence input_settings_default)\<lparr>ip_connected := True\<rparr>) of
                       Some ps' \<Rightarrow> (r1\<lparr>pr_profiles := ps'\<rparr>, Inr k)
                     | None \<Rightarrow> (r1, Inl RegistryFullWithConnectedProfiles))))"

definition registry_get :: "input_profile_registry \<Rightarrow> input_profile_id \<Rightarrow> input_profile option" where
  "registry_get r i = find (\<lambda>p. ip_id p = i) (pr_profiles r)"

definition registry_disconnect ::
    "input_profile_registry \<Rightarrow> input_profile_id \<Rightarrow> (input_profile_registry, input_profile_error, unit) outcome" where
  "registry_disconnect r i =
     (let sequence = pr_next_sequence r;
          r1 = r\<lparr>pr_next_sequence := sequence + 1\<rparr>;
          ps = pr_profiles r
      in case position (\<lambda>p. ip_id p = i) ps of
           None \<Rightarrow> (r1, Inl UnknownProfile)
         | Some j \<Rightarrow>
             (r1\<lparr>pr_profiles :=
                ps[j := reset_transform_state ((ps ! j)\<lparr>ip_connected := False, ip_last_seen := sequence\<rparr>)]\<rparr>, Inr ()))"

section \<open>Scaling with remainder\<close>

text \<open>What both scaling helpers promise for a value range.\<close>

locale scaler =
  fixes scale :: "'v \<Rightarrow> u16 \<Rightarrow> int \<Rightarrow> 'v \<times> int" and val :: "'v \<Rightarrow> int" and lo hi :: int
  assumes val_range: "lo \<le> val v \<and> val v \<le> hi"
    and bounds: "lo \<le> 0 \<and> 0 \<le> hi \<and> lo \<ge> - 32768 \<and> hi \<le> 32767"
    and scale_out: "val (fst (scale v percent r)) = clampi lo hi ((val v * uint percent + r) sdiv 100)"
    and scale_rem: "snd (scale v percent r) = (val v * uint percent + r) smod 100"
begin

lemma rem_small: "\<bar>snd (scale v percent r)\<bar> < 100"
  using smod_int_range[of 100 "val v * uint percent + r"] by (simp add: scale_rem abs_less_iff)

text \<open>The intermediate product fits a signed thirty-two bit integer for every percentage.\<close>

lemma no_overflow:
  fixes percent :: u16
  assumes "\<bar>r\<bar> < 100"
  shows "i32_min \<le> val v * uint percent + r \<and> val v * uint percent + r \<le> i32_max"
proof -
  have "uint percent < 2 ^ 16" by (rule order_less_le_trans[OF uint_bounded]) simp
  then have p: "0 \<le> uint percent" "uint percent \<le> 65535" by simp_all
  have v: "- 32768 \<le> val v" "val v \<le> 32767" using val_range[of v] bounds by linarith+
  have "val v * uint percent \<le> 32767 * 65535" "- 32768 * 65535 \<le> val v * uint percent"
    using mult_right_mono[OF v(2) p(1)] mult_right_mono[OF v(1) p(1)] p(2) by linarith+
  then show ?thesis using assms by (simp add: abs_less_iff)
qed

lemma small_percent_exact:
  assumes "uint percent \<le> 100" and "\<bar>r\<bar> < 100"
  shows "100 * val (fst (scale v percent r)) + snd (scale v percent r) = val v * uint percent + r"
proof -
  let ?s = "val v * uint percent + r"
  have p: "0 \<le> uint percent" by simp
  have "val v * uint percent \<le> hi * 100"
  proof (cases "0 \<le> val v")
    case True
    then show ?thesis using mult_mono[of "val v" hi "uint percent" 100] val_range[of v] assms(1) by simp
  next
    case False
    then have "val v * uint percent \<le> 0" using p by (simp add: mult_nonpos_nonneg)
    then show ?thesis using bounds by linarith
  qed
  moreover have "lo * 100 \<le> val v * uint percent"
  proof (cases "0 \<le> val v")
    case True
    then have "0 \<le> val v * uint percent" using p by simp
    then show ?thesis using bounds by linarith
  next
    case False
    then have "(- val v) * uint percent \<le> (- lo) * 100"
      using mult_mono[of "- val v" "- lo" "uint percent" 100] val_range[of v] assms(1) by simp
    then show ?thesis by simp
  qed
  ultimately have s: "lo * 100 - 100 < ?s" "?s < hi * 100 + 100" using assms(2) by (simp_all add: abs_less_iff)
  have "lo \<le> ?s sdiv 100 \<and> ?s sdiv 100 \<le> hi"
    using s bounds by (auto simp: signed_divide_int_def sgn_if)
  then show ?thesis using mult_sdiv_smod_eq[of 100 ?s] by (simp add: scale_out scale_rem clampi_id)
qed

end

lemma sint_range16: "- 32768 \<le> sint (v :: i16) \<and> sint v \<le> 32767"
  using sint_greater_eq[of v] sint_less[of v] by simp

lemma sint_range8: "- 128 \<le> sint (v :: i8) \<and> sint v \<le> 127"
  using sint_greater_eq[of v] sint_less[of v] by simp

interpretation scale16: scaler scale_i16_with_remainder sint "- 32768" 32767
  by unfold_locales (simp_all add: sint_range16 scale_i16_with_remainder_def Let_def sint_clamp16)

interpretation scale8: scaler scale_i8_with_remainder sint "- 128" 127
  by unfold_locales (simp_all add: sint_range8 scale_i8_with_remainder_def Let_def sint_clamp8)

section \<open>Shortcuts\<close>

definition shortcut_ok :: "keyboard_shortcut \<Rightarrow> bool" where
  "shortcut_ok s = (s = shortcut_disabled \<or> shortcut_new (sc_modifiers s) (sc_key s) = Some s)"

lemma shortcut_packed_parts:
  "(ucast (shortcut_packed s) :: u8) = sc_key s" "(ucast (drop_bit 8 (shortcut_packed s)) :: u8) = sc_modifiers s"
proof -
  show "(ucast (shortcut_packed s) :: u8) = sc_key s"
    by (rule bit_word_eqI) (auto simp: shortcut_packed_def bit_simps)
  show "(ucast (drop_bit 8 (shortcut_packed s)) :: u8) = sc_modifiers s"
    by (rule bit_word_eqI) (auto simp: shortcut_packed_def bit_simps dest: bit_imp_le_length)
qed

lemma shortcut_roundtrip: "shortcut_ok s \<Longrightarrow> shortcut_from_packed (shortcut_packed s) = Some s"
proof -
  assume ok: "shortcut_ok s"
  show ?thesis
  proof (cases "sc_key s = 0")
    case True
    then have "s = shortcut_disabled" using ok by (auto simp: shortcut_ok_def shortcut_new_def split: if_splits)
    then show ?thesis using True by (simp add: shortcut_from_packed_def shortcut_packed_parts Let_def)
  next
    case False
    then have "shortcut_new (sc_modifiers s) (sc_key s) = Some s"
      using ok by (auto simp: shortcut_ok_def shortcut_disabled_def)
    then show ?thesis using False by (simp add: shortcut_from_packed_def shortcut_packed_parts Let_def)
  qed
qed

lemma shortcut_from_packed_ok: "shortcut_from_packed v = Some s \<Longrightarrow> shortcut_ok s"
  by (auto simp: shortcut_from_packed_def shortcut_ok_def Let_def shortcut_new_def split: if_splits)

lemma push_keys_lossy_keys:
  assumes "keys_ok (kf_keys_down f)" and "length (kf_keys_down f) + length ks \<le> PHYSICAL_KEYBOARD_KEY_CAPACITY"
  shows "keys_ok (kf_keys_down (push_keys_lossy f ks)) \<and>
    set (kf_keys_down (push_keys_lossy f ks)) = set (kf_keys_down f) \<union> set ks \<and>
    kf_modifiers (push_keys_lossy f ks) = kf_modifiers f"
  using assms
proof (induction ks arbitrary: f)
  case Nil
  then show ?case by simp
next
  case (Cons k ks)
  let ?f = "fst (push_key f k)"
  have len: "length (kf_keys_down ?f) \<le> length (kf_keys_down f) + 1"
    and keys: "set (kf_keys_down ?f) = insert k (set (kf_keys_down f))"
    and ok: "keys_ok (kf_keys_down ?f)" and md: "kf_modifiers ?f = kf_modifiers f"
    using Cons.prems by (auto simp: push_key_def vec_push_def keys_ok_def)
  show ?case using Cons.IH[OF ok] len keys md Cons.prems(2) by auto
qed

lemma rebuilt_frame:
  assumes "length ks \<le> PHYSICAL_KEYBOARD_KEY_CAPACITY"
  shows "keys_ok (kf_keys_down (push_keys_lossy (keyboard_frame_new m) ks))"
    and "set (kf_keys_down (push_keys_lossy (keyboard_frame_new m) ks)) = set ks"
    and "kf_modifiers (push_keys_lossy (keyboard_frame_new m) ks) = m"
  using push_keys_lossy_keys[of "keyboard_frame_new m" ks] assms by (simp_all add: keyboard_frame_new_def)

text \<open>Frames stay well formed through the device-owned transforms, as the aggregator requires.\<close>

lemma transform_frame_ok:
  assumes "frame_ok f"
  shows "frame_ok (snd (profile_transform p f))" and "frame_ok (snd (fst (capture_target_switch_shortcut p f)))"
proof -
  have len: "length (kf_keys_down kf) \<le> PHYSICAL_KEYBOARD_KEY_CAPACITY" if "sf_keyboard f = Some kf" for kf
    using assms that by (simp add: frame_ok_def keys_ok_def)
  have btn: "mf_buttons (snd (transform_mouse p m)) = mf_buttons m" for m
    by (simp add: transform_mouse_def Let_def case_prod_beta)
  show "frame_ok (snd (profile_transform p f))"
    using assms len by (auto simp: profile_transform_def frame_ok_def Let_def case_prod_beta btn
        intro!: rebuilt_frame(1) split: option.splits)
  have "length (filter P (kf_keys_down kf)) \<le> PHYSICAL_KEYBOARD_KEY_CAPACITY" if "sf_keyboard f = Some kf" for kf P
    using len[OF that] by (rule le_trans[OF length_filter_le])
  then show "frame_ok (snd (fst (capture_target_switch_shortcut p f)))"
    using assms by (auto simp: capture_target_switch_shortcut_def frame_ok_def Let_def
        intro!: rebuilt_frame(1) split: option.splits)
qed

lemma capture_iff_would_trigger:
  "snd (capture_target_switch_shortcut p f) \<longleftrightarrow> target_switch_shortcut_would_trigger p f"
proof -
  have single: "(x \<in> set ks \<and> length ks = 1) \<longleftrightarrow> ks = [x]" for x :: key_usage and ks
    by (cases ks) auto
  show ?thesis
    by (auto simp: capture_target_switch_shortcut_def target_switch_shortcut_would_trigger_def Let_def
        split: option.splits if_splits dest: single[THEN iffD1, OF conjI])
qed

section \<open>Once per press\<close>

text \<open>A frame that releases every component of the shortcut.\<close>

definition releases_shortcut :: "keyboard_shortcut \<Rightarrow> standard_input_frame \<Rightarrow> bool" where
  "releases_shortcut s f =
     (case sf_keyboard f of None \<Rightarrow> False
      | Some kf \<Rightarrow> sc_key s \<notin> set (kf_keys_down kf) \<and> kf_modifiers kf AND sc_modifiers s = 0)"

fun capture_run :: "input_profile \<Rightarrow> standard_input_frame list \<Rightarrow> input_profile \<times> bool list" where
  "capture_run p [] = (p, [])"
| "capture_run p (f # fs) =
     (let ((p', _), t) = capture_target_switch_shortcut p f; (p'', ts) = capture_run p' fs in (p'', t # ts))"

lemma capture_settings: "ip_settings (fst (fst (capture_target_switch_shortcut p f))) = ip_settings p"
  by (auto simp: capture_target_switch_shortcut_def Let_def split: option.splits)

lemma capture_disarms:
  assumes "snd (capture_target_switch_shortcut p f)"
  shows "\<not> ip_shortcut_armed (fst (fst (capture_target_switch_shortcut p f)))"
    and "shortcut_is_enabled (is_target_switch_shortcut (ip_settings p))"
  using assms by (auto simp: capture_target_switch_shortcut_def Let_def split: option.splits if_splits)

lemma disarmed_stays:
  assumes "\<not> ip_shortcut_armed p" and "shortcut_is_enabled (is_target_switch_shortcut (ip_settings p))"
    and "\<not> releases_shortcut (is_target_switch_shortcut (ip_settings p)) f"
  shows "\<not> ip_shortcut_armed (fst (fst (capture_target_switch_shortcut p f)))"
    and "\<not> snd (capture_target_switch_shortcut p f)"
  using assms by (auto simp: capture_target_switch_shortcut_def releases_shortcut_def Let_def split: option.splits)

lemma disarmed_run:
  assumes "\<not> ip_shortcut_armed p" and "shortcut_is_enabled (is_target_switch_shortcut (ip_settings p))"
    and "\<And>f. f \<in> set fs \<Longrightarrow> \<not> releases_shortcut (is_target_switch_shortcut (ip_settings p)) f"
  shows "True \<notin> set (snd (capture_run p fs))"
  using assms
proof (induction fs arbitrary: p)
  case Nil
  then show ?case by simp
next
  case (Cons f fs)
  let ?c = "capture_target_switch_shortcut p f"
  have rel: "\<not> releases_shortcut (is_target_switch_shortcut (ip_settings p)) f" using Cons.prems(3) by simp
  note d = disarmed_stays[OF Cons.prems(1,2) rel]
  have "True \<notin> set (snd (capture_run (fst (fst ?c)) fs))"
    using d(1) Cons.prems(2,3) by (intro Cons.IH) (simp_all add: capture_settings)
  then show ?case using d(2) by (simp add: Let_def case_prod_beta)
qed

section \<open>Registry invariant\<close>

definition registry_inv :: "input_profile_registry \<Rightarrow> bool" where
  "registry_inv r =
     (distinct (map ip_id (pr_profiles r)) \<and> distinct (map ip_identity (pr_profiles r)) \<and>
      list_all (\<lambda>p. input_profile_id_new (ip_id p) = Some (ip_id p)) (pr_profiles r) \<and>
      length (pr_profiles r) \<le> INPUT_PROFILE_CAPACITY)"

lemma oldest_disconnected_None:
  "oldest_disconnected n ps best = None \<longleftrightarrow> best = None \<and> (\<forall>p\<in>set ps. ip_connected p)"
  by (induction ps arbitrary: n best) (auto split: option.splits)

lemma oldest_disconnected_Some:
  assumes "oldest_disconnected n ps best = Some (i, seen)"
  shows "(best = Some (i, seen) \<or>
      (n \<le> i \<and> i < n + length ps \<and> \<not> ip_connected (ps ! (i - n)) \<and> ip_last_seen (ps ! (i - n)) = seen)) \<and>
    (\<forall>p\<in>set ps. \<not> ip_connected p \<longrightarrow> seen \<le> ip_last_seen p) \<and> (\<forall>j t. best = Some (j, t) \<longrightarrow> seen \<le> t)"
  using assms
proof (induction ps arbitrary: n best)
  case Nil
  then show ?case by simp
next
  case (Cons p ps)
  let ?best = "if ip_connected p then best else case best of None \<Rightarrow> Some (n, ip_last_seen p)
     | Some (j, t) \<Rightarrow> if ip_last_seen p < t then Some (n, ip_last_seen p) else best"
  have "oldest_disconnected (n + 1) ps ?best = Some (i, seen)" using Cons.prems by simp
  note IH = Cons.IH[OF this]
  have shift: "(p # ps) ! (i - n) = ps ! (i - (n + 1))" if "n + 1 \<le> i" using that by (simp add: nth_Cons')
  show ?case
    using IH shift by (auto split: if_splits option.splits)
qed

lemma oldest_disconnected_spec:
  assumes "oldest_disconnected 0 ps None = Some (i, seen)"
  shows "i < length ps" and "\<not> ip_connected (ps ! i)"
    and "\<And>p. p \<in> set ps \<Longrightarrow> \<not> ip_connected p \<Longrightarrow> ip_last_seen (ps ! i) \<le> ip_last_seen p"
  using oldest_disconnected_Some[OF assms] by auto

lemma free_profile_id_Some:
  assumes "free_profile_id ps = Some k"
  shows "input_profile_id_new k = Some k" and "k \<notin> ip_id ` set ps"
  using assms by (auto simp: free_profile_id_def find_Some_iff list_ex_iff)

lemma free_profile_id_exists:
  assumes "length ps < INPUT_PROFILE_CAPACITY"
  shows "\<exists>k. free_profile_id ps = Some k"
proof (rule ccontr)
  let ?ids = "map of_nat [1..<INPUT_PROFILE_CAPACITY + 1] :: u8 list"
  assume "\<nexists>k. free_profile_id ps = Some k"
  then have "free_profile_id ps = None" by simp
  moreover have valid: "\<forall>i\<in>set ?ids. input_profile_id_new i = Some i"
    by (auto simp: input_profile_id_new_def INPUT_PROFILE_CAPACITY_def word_le_nat_alt unat_of_nat)
  ultimately have "set ?ids \<subseteq> ip_id ` set ps"
    unfolding free_profile_id_def find_None_iff list_ex_iff by (metis image_eqI subsetI)
  then have "card (set ?ids) \<le> card (ip_id ` set ps)" by (rule card_mono[rotated]) simp
  also have "\<dots> \<le> length ps" using card_image_le[of "set ps" ip_id] card_length[of ps] by simp
  also have "card (set ?ids) = 8"
  proof -
    have "distinct ?ids" unfolding INPUT_PROFILE_CAPACITY_def by code_simp
    then show ?thesis by (simp only: distinct_card) (simp add: INPUT_PROFILE_CAPACITY_def)
  qed
  finally show False using assms by (simp add: INPUT_PROFILE_CAPACITY_def)
qed

lemma distinct_map_update:
  assumes "distinct (map f ps)" and "i < length ps" and "f q = f (ps ! i) \<or> f q \<notin> f ` set ps"
  shows "distinct (map f (ps[i := q]))"
proof -
  have "map f (ps[i := q]) = (map f ps)[i := f q]" by (simp add: map_update)
  moreover have "f q \<notin> set (map f ps) - {map f ps ! i}" using assms(2,3) by auto
  ultimately show ?thesis using assms(1) by (simp add: distinct_list_update)
qed

lemma registry_inv_update:
  assumes "registry_inv r" and "i < length (pr_profiles r)" and "ip_id q = ip_id (pr_profiles r ! i)"
    and "ip_identity q = ip_identity (pr_profiles r ! i) \<or> ip_identity q \<notin> ip_identity ` set (pr_profiles r)"
  shows "registry_inv (r\<lparr>pr_next_sequence := n, pr_profiles := (pr_profiles r)[i := q]\<rparr>)"
  using assms distinct_map_update[of ip_id "pr_profiles r" i q] distinct_map_update[of ip_identity "pr_profiles r" i q]
  by (auto simp: registry_inv_def list_all_iff dest!: subsetD[OF set_update_subset_insert])

lemma registry_inv_push:
  assumes "registry_inv r" and "length (pr_profiles r) < INPUT_PROFILE_CAPACITY"
    and "ip_id q \<notin> ip_id ` set (pr_profiles r)" and "ip_identity q \<notin> ip_identity ` set (pr_profiles r)"
    and "input_profile_id_new (ip_id q) = Some (ip_id q)"
  shows "registry_inv (r\<lparr>pr_next_sequence := n, pr_profiles := pr_profiles r @ [q]\<rparr>)"
  using assms by (auto simp: registry_inv_def)

lemma registry_inv_sequence [simp]: "registry_inv (r\<lparr>pr_next_sequence := n\<rparr>) = registry_inv r"
  by (simp add: registry_inv_def)

text \<open>The four outcomes of \<open>observe\<close>.\<close>

lemma observe_cases:
  assumes "registry_inv r"
  obtains (known) i where "i < length (pr_profiles r)" and "ip_identity (pr_profiles r ! i) = d"
      and "registry_observe r d = (r\<lparr>pr_next_sequence := pr_next_sequence r + 1,
        pr_profiles := (pr_profiles r)[i := (pr_profiles r ! i)\<lparr>ip_connected := True, ip_last_seen := pr_next_sequence r\<rparr>]\<rparr>,
        Inr (ip_id (pr_profiles r ! i)))"
    | (added) k where "d \<notin> ip_identity ` set (pr_profiles r)" and "length (pr_profiles r) < INPUT_PROFILE_CAPACITY"
      and "input_profile_id_new k = Some k" and "k \<notin> ip_id ` set (pr_profiles r)"
      and "registry_observe r d = (r\<lparr>pr_next_sequence := pr_next_sequence r + 1, pr_profiles := pr_profiles r @
        [(profile_restored k d (pr_next_sequence r) input_settings_default)\<lparr>ip_connected := True\<rparr>]\<rparr>, Inr k)"
    | (evicted) i where "d \<notin> ip_identity ` set (pr_profiles r)" and "length (pr_profiles r) = INPUT_PROFILE_CAPACITY"
      and "i < length (pr_profiles r)" and "\<not> ip_connected (pr_profiles r ! i)"
      and "\<And>p. p \<in> set (pr_profiles r) \<Longrightarrow> \<not> ip_connected p \<Longrightarrow> ip_last_seen (pr_profiles r ! i) \<le> ip_last_seen p"
      and "registry_observe r d = (r\<lparr>pr_next_sequence := pr_next_sequence r + 1, pr_profiles := (pr_profiles r)
        [i := (profile_restored (ip_id (pr_profiles r ! i)) d (pr_next_sequence r) input_settings_default)\<lparr>ip_connected := True\<rparr>]\<rparr>,
        Inr (ip_id (pr_profiles r ! i)))"
    | (full) "d \<notin> ip_identity ` set (pr_profiles r)" and "length (pr_profiles r) = INPUT_PROFILE_CAPACITY"
      and "\<forall>p\<in>set (pr_profiles r). ip_connected p"
      and "registry_observe r d = (r\<lparr>pr_next_sequence := pr_next_sequence r + 1\<rparr>, Inl RegistryFullWithConnectedProfiles)"
proof (cases "position (\<lambda>p. ip_identity p = d) (pr_profiles r)")
  case (Some i)
  show thesis
    by (rule known[of i]) (use position_SomeD[OF Some] Some in \<open>simp_all add: registry_observe_def Let_def\<close>)
next
  case None
  then have new: "d \<notin> ip_identity ` set (pr_profiles r)" by (auto simp: position_None_iff)
  show thesis
  proof (cases "length (pr_profiles r) = INPUT_PROFILE_CAPACITY")
    case full_len: True
    show thesis
    proof (cases "oldest_disconnected 0 (pr_profiles r) None")
      case old: None
      show thesis
        by (rule full) (use old new None full_len oldest_disconnected_None[of 0 "pr_profiles r" None] in
          \<open>simp_all add: registry_observe_def Let_def\<close>)
    next
      case old: (Some b)
      obtain i seen where b: "b = (i, seen)" by (cases b)
      note spec = oldest_disconnected_spec[OF old[unfolded b]]
      show thesis
        by (rule evicted[of i]) (use spec new None full_len old b in \<open>simp_all add: registry_observe_def Let_def\<close>)
    qed
  next
    case False
    then have lt: "length (pr_profiles r) < INPUT_PROFILE_CAPACITY" using assms by (simp add: registry_inv_def)
    obtain k where k: "free_profile_id (pr_profiles r) = Some k" using free_profile_id_exists[OF lt] ..
    show thesis
      by (rule added[of k]) (use free_profile_id_Some[OF k] new None lt k in
        \<open>simp_all add: registry_observe_def Let_def vec_push_def\<close>)
  qed
qed

datatype registry_op = RgObserve input_identity | RgDisconnect input_profile_id | RgRestore input_profile

fun registry_step :: "registry_op \<Rightarrow> input_profile_registry \<Rightarrow> input_profile_registry" where
  "registry_step (RgObserve d) r = fst (registry_observe r d)"
| "registry_step (RgDisconnect i) r = fst (registry_disconnect r i)"
| "registry_step (RgRestore p) r = fst (registry_restore r p)"

fun registry_op_ok :: "registry_op \<Rightarrow> bool" where
  "registry_op_ok (RgRestore p) = (input_profile_id_new (ip_id p) = Some (ip_id p))"
| "registry_op_ok _ = True"

lemma registry_inv_observe:
  assumes "registry_inv r"
  shows "registry_inv (fst (registry_observe r d))"
  using assms
proof (cases rule: observe_cases[where d = d])
  case (known i)
  then show ?thesis using registry_inv_update[OF assms known(1)] by simp
next
  case (added k)
  then show ?thesis using registry_inv_push[OF assms added(2)] by (simp add: profile_restored_def)
next
  case (evicted i)
  then show ?thesis using registry_inv_update[OF assms evicted(3)] by (simp add: profile_restored_def)
next
  case full
  then show ?thesis using assms by simp
qed

interpretation registry: op_system registry_step registry_op_ok registry_inv
proof
  fix r x
  assume inv: "registry_inv r" and ok: "registry_op_ok x"
  show "registry_inv (registry_step x r)"
  proof (cases x)
    case (RgObserve d)
    then show ?thesis using registry_inv_observe[OF inv] by simp
  next
    case (RgDisconnect i)
    show ?thesis
    proof (cases "position (\<lambda>p. ip_id p = i) (pr_profiles r)")
      case None
      then show ?thesis using inv by (simp add: RgDisconnect registry_disconnect_def Let_def)
    next
      case (Some j)
      then show ?thesis
        using registry_inv_update[OF inv position_SomeD(1)[OF Some]]
        by (simp add: RgDisconnect registry_disconnect_def Let_def reset_transform_state_def)
    qed
  next
    case (RgRestore p)
    show ?thesis
      using inv ok RgRestore registry_inv_push[OF inv, of p]
      by (auto simp: list_ex_eq_image registry_restore_def Let_def vec_push_def split: if_splits)
  qed
qed

lemma registry_inv_new: "registry_inv registry_new"
  by (simp add: registry_inv_def registry_new_def)

lemma registry_get_unique:
  assumes "registry_inv r"
  shows "registry_get r k = Some p \<longleftrightarrow> p \<in> set (pr_profiles r) \<and> ip_id p = k"
proof
  assume "registry_get r k = Some p"
  then show "p \<in> set (pr_profiles r) \<and> ip_id p = k"
    by (auto simp: registry_get_def find_Some_iff)
next
  assume p: "p \<in> set (pr_profiles r) \<and> ip_id p = k"
  then obtain q where q: "registry_get r k = Some q"
    by (cases "registry_get r k") (auto simp: registry_get_def find_None_iff)
  then have "q \<in> set (pr_profiles r)" "ip_id q = k" by (auto simp: registry_get_def find_Some_iff)
  moreover have "inj_on ip_id (set (pr_profiles r))" using assms by (simp add: registry_inv_def distinct_map)
  ultimately show "registry_get r k = Some p" using p q by (auto dest: inj_onD)
qed

section \<open>Runs of frames\<close>

fun axis_percent :: "axis \<Rightarrow> input_settings \<Rightarrow> u16" where
  "axis_percent AxX s = is_mouse_sensitivity_percent s"
| "axis_percent AxY s = is_mouse_sensitivity_percent s"
| "axis_percent AxWheel s = is_scroll_multiplier_percent s"
| "axis_percent AxPan s = is_scroll_multiplier_percent s"

fun axis_rem :: "axis \<Rightarrow> mouse_scale_remainders \<Rightarrow> int" where
  "axis_rem AxX r = mr_x r"
| "axis_rem AxY r = mr_y r"
| "axis_rem AxWheel r = mr_wheel r"
| "axis_rem AxPan r = mr_pan r"

definition frame_axis :: "axis \<Rightarrow> standard_input_frame \<Rightarrow> int" where
  "frame_axis a f = (case sf_mouse f of None \<Rightarrow> 0 | Some m \<Rightarrow> movement_axis a (mf_movement m))"

fun transform_run :: "input_profile \<Rightarrow> standard_input_frame list \<Rightarrow> input_profile \<times> standard_input_frame list" where
  "transform_run p [] = (p, [])"
| "transform_run p (f # fs) =
     (let (p1, f') = profile_transform p f; (p2, fs') = transform_run p1 fs in (p2, f' # fs'))"

text \<open>The range a report has for an axis: sixteen bits for the pointer, eight for the wheels.\<close>

fun axis_clip :: "axis \<Rightarrow> int \<Rightarrow> int" where
  "axis_clip AxX v = clampi (- 32768) 32767 v"
| "axis_clip AxY v = clampi (- 32768) 32767 v"
| "axis_clip AxWheel v = clampi (- 128) 127 v"
| "axis_clip AxPan v = clampi (- 128) 127 v"

text \<open>
  One frame: there is an exact quotient whose clipped value comes out, and what it leaves over is
  the new remainder. Without magnification nothing is clipped.
\<close>

lemma transform_mouse_axis:
  assumes "\<bar>axis_rem a (ip_mouse_remainders p)\<bar> < 100"
  obtains q where "movement_axis a (mf_movement (snd (transform_mouse p m))) = axis_clip a q"
    and "100 * q + axis_rem a (ip_mouse_remainders (fst (transform_mouse p m))) =
      uint (axis_percent a (ip_settings p)) * movement_axis a (mf_movement m) + axis_rem a (ip_mouse_remainders p)"
    and "uint (axis_percent a (ip_settings p)) \<le> 100 \<Longrightarrow> axis_clip a q = q"
    and "\<bar>axis_rem a (ip_mouse_remainders (fst (transform_mouse p m)))\<bar> < 100"
    and "ip_settings (fst (transform_mouse p m)) = ip_settings p"
proof
  let ?v = "uint (axis_percent a (ip_settings p)) * movement_axis a (mf_movement m) + axis_rem a (ip_mouse_remainders p)"
  show out: "movement_axis a (mf_movement (snd (transform_mouse p m))) = axis_clip a (?v sdiv 100)"
    by (cases a) (simp_all add: transform_mouse_def Let_def case_prod_beta scale16.scale_out scale8.scale_out mult.commute)
  show eq: "100 * (?v sdiv 100) + axis_rem a (ip_mouse_remainders (fst (transform_mouse p m))) = ?v"
    using mult_sdiv_smod_eq[of 100 ?v]
    by (cases a) (simp_all add: transform_mouse_def Let_def case_prod_beta scale16.scale_rem scale8.scale_rem mult.commute)
  show "axis_clip a (?v sdiv 100) = ?v sdiv 100" if "uint (axis_percent a (ip_settings p)) \<le> 100"
  proof -
    have "100 * movement_axis a (mf_movement (snd (transform_mouse p m))) +
        axis_rem a (ip_mouse_remainders (fst (transform_mouse p m))) = ?v"
      using that assms
      by (cases a; simp add: transform_mouse_def Let_def case_prod_beta scale16.small_percent_exact
          scale8.small_percent_exact mult.commute)
    then show ?thesis using out eq by linarith
  qed
  show "\<bar>axis_rem a (ip_mouse_remainders (fst (transform_mouse p m)))\<bar> < 100"
    "ip_settings (fst (transform_mouse p m)) = ip_settings p"
    by (cases a; simp add: transform_mouse_def Let_def case_prod_beta scale16.rem_small scale8.rem_small)+
qed

lemma profile_transform_mouse:
  "sf_mouse (snd (profile_transform p f)) = map_option (\<lambda>m. snd (transform_mouse p m)) (sf_mouse f)"
  "fst (profile_transform p f) = (case sf_mouse f of None \<Rightarrow> p | Some m \<Rightarrow> fst (transform_mouse p m))"
  by (auto simp: profile_transform_def Let_def case_prod_beta split: option.splits)

lemma profile_transform_axis:
  assumes "\<bar>axis_rem a (ip_mouse_remainders p)\<bar> < 100"
  obtains q where "frame_axis a (snd (profile_transform p f)) = axis_clip a q"
    and "100 * q + axis_rem a (ip_mouse_remainders (fst (profile_transform p f))) =
      uint (axis_percent a (ip_settings p)) * frame_axis a f + axis_rem a (ip_mouse_remainders p)"
    and "uint (axis_percent a (ip_settings p)) \<le> 100 \<Longrightarrow> axis_clip a q = q"
    and "\<bar>axis_rem a (ip_mouse_remainders (fst (profile_transform p f)))\<bar> < 100"
    and "ip_settings (fst (profile_transform p f)) = ip_settings p"
proof (cases "sf_mouse f")
  case None
  have z: "axis_clip a 0 = 0" by (cases a) (simp_all add: clampi_id)
  show thesis by (rule that[of 0]) (simp_all add: None z frame_axis_def profile_transform_mouse assms)
next
  case (Some m)
  show thesis
    by (rule transform_mouse_axis[OF assms, of m]; rule that) (simp_all add: Some frame_axis_def profile_transform_mouse)
qed

lemma transform_run_axis:
  assumes "\<bar>axis_rem a (ip_mouse_remainders p)\<bar> < 100"
  shows "\<exists>qs. map (frame_axis a) (snd (transform_run p fs)) = map (axis_clip a) qs \<and>
    100 * sum_list qs + axis_rem a (ip_mouse_remainders (fst (transform_run p fs))) =
      uint (axis_percent a (ip_settings p)) * sum_list (map (frame_axis a) fs) + axis_rem a (ip_mouse_remainders p) \<and>
    (\<forall>n. \<bar>uint (axis_percent a (ip_settings p)) * sum_list (take n (map (frame_axis a) fs)) + axis_rem a (ip_mouse_remainders p)
         - 100 * sum_list (take n qs)\<bar> < 100) \<and>
    (uint (axis_percent a (ip_settings p)) \<le> 100 \<longrightarrow> map (axis_clip a) qs = qs)"
  using assms
proof (induction fs arbitrary: p)
  case Nil
  then show ?case by (intro exI[of _ "[]"]) simp
next
  case (Cons f fs)
  let ?p = "fst (profile_transform p f)" and ?c = "uint (axis_percent a (ip_settings p))"
  obtain q where q: "frame_axis a (snd (profile_transform p f)) = axis_clip a q"
    "100 * q + axis_rem a (ip_mouse_remainders ?p) = ?c * frame_axis a f + axis_rem a (ip_mouse_remainders p)"
    "?c \<le> 100 \<Longrightarrow> axis_clip a q = q" "\<bar>axis_rem a (ip_mouse_remainders ?p)\<bar> < 100" "ip_settings ?p = ip_settings p"
    using profile_transform_axis[OF Cons.prems, of f] by blast
  obtain qs where qs: "map (frame_axis a) (snd (transform_run ?p fs)) = map (axis_clip a) qs"
    "100 * sum_list qs + axis_rem a (ip_mouse_remainders (fst (transform_run ?p fs))) =
       ?c * sum_list (map (frame_axis a) fs) + axis_rem a (ip_mouse_remainders ?p)"
    "\<And>n. \<bar>?c * sum_list (take n (map (frame_axis a) fs)) + axis_rem a (ip_mouse_remainders ?p) - 100 * sum_list (take n qs)\<bar> < 100"
    "?c \<le> 100 \<longrightarrow> map (axis_clip a) qs = qs"
    using Cons.IH[OF q(4)] unfolding q(5) by blast
  have prefix: "\<bar>?c * sum_list (take n (map (frame_axis a) (f # fs))) + axis_rem a (ip_mouse_remainders p) - 100 * sum_list (take n (q # qs))\<bar> < 100" for n
  proof (cases n)
    case (Suc m)
    have "?c * (frame_axis a f + sum_list (take m (map (frame_axis a) fs))) + axis_rem a (ip_mouse_remainders p) - 100 * (q + sum_list (take m qs)) =
      ?c * sum_list (take m (map (frame_axis a) fs)) + axis_rem a (ip_mouse_remainders ?p) - 100 * sum_list (take m qs)"
      using q(2) by (simp add: algebra_simps)
    then show ?thesis using qs(3)[of m] Suc by simp
  qed (simp add: Cons.prems)
  show ?case
  proof (intro exI[of _ "q # qs"] conjI allI)
    show "100 * sum_list (q # qs) + axis_rem a (ip_mouse_remainders (fst (transform_run p (f # fs)))) =
        ?c * sum_list (map (frame_axis a) (f # fs)) + axis_rem a (ip_mouse_remainders p)"
      using q(2) qs(2) by (simp add: Let_def case_prod_beta algebra_simps)
  qed (use q(1,3) qs(1,4) prefix in \<open>simp_all add: Let_def case_prod_beta\<close>)
qed

lemma identity_hash_byte_inject:
  "identity_hash_byte g b = identity_hash_byte h b \<longleftrightarrow> g = h"
proof -
  have "(0x100000001b3 :: u64) * 0xce965057aff6957b = 1" by simp
  then have inv: "(x * 0x100000001b3) * 0xce965057aff6957b = (x :: u64)" for x
    by (simp only: mult.assoc mult_1_right)
  show ?thesis
    unfolding identity_hash_byte_def by (metis inv xor_cancel_right)
qed

lemma foldl_identity_inject:
  "foldl identity_hash_byte g bs = foldl identity_hash_byte h bs \<longleftrightarrow> g = h"
  by (induction bs arbitrary: g h) (simp_all add: identity_hash_byte_inject)

lemma foldl_concat: "foldl (\<lambda>h u. foldl f h (g u)) a us = foldl f a (concat (map g us))"
  by (induction us arbitrary: a) simp_all

section \<open>Properties\<close>

text \<open>
  C13: Scaled movement never drifts. For every percentage, over any sequence of frames through a
  profile and for each axis, there is an unclipped movement per frame such that what comes out is
  that movement, cut to the range of the report where it does not fit; after every number of
  frames a hundred times the unclipped movement so far differs from the percentage times the
  movement that went in by less than one step, the difference at the end being the remainder kept;
  and up to a hundred percent nothing is cut.
\<close>

theorem scaling_never_drifts:
  assumes "\<bar>axis_rem a (ip_mouse_remainders p)\<bar> < 100"
  shows "let (p', fs') = transform_run p fs; percent = uint (axis_percent a (ip_settings p)); r = axis_rem a (ip_mouse_remainders p) in
    \<exists>qs. map (frame_axis a) fs' = map (axis_clip a) qs \<and>
      100 * sum_list qs + axis_rem a (ip_mouse_remainders p') = percent * sum_list (map (frame_axis a) fs) + r \<and>
      (\<forall>n. \<bar>percent * sum_list (take n (map (frame_axis a) fs)) + r - 100 * sum_list (take n qs)\<bar> < 100) \<and>
      (percent \<le> 100 \<longrightarrow> map (frame_axis a) fs' = qs)"
proof -
  obtain qs where "map (frame_axis a) (snd (transform_run p fs)) = map (axis_clip a) qs \<and>
    100 * sum_list qs + axis_rem a (ip_mouse_remainders (fst (transform_run p fs))) =
      uint (axis_percent a (ip_settings p)) * sum_list (map (frame_axis a) fs) + axis_rem a (ip_mouse_remainders p) \<and>
    (\<forall>n. \<bar>uint (axis_percent a (ip_settings p)) * sum_list (take n (map (frame_axis a) fs)) + axis_rem a (ip_mouse_remainders p)
         - 100 * sum_list (take n qs)\<bar> < 100) \<and>
    (uint (axis_percent a (ip_settings p)) \<le> 100 \<longrightarrow> map (axis_clip a) qs = qs)"
    using transform_run_axis[OF assms, of fs] by blast
  then show ?thesis unfolding Let_def case_prod_beta by (intro exI[of _ qs]) presburger
qed

definition sample_profile :: "u16 \<Rightarrow> input_profile" where
  "sample_profile percent =
     profile_restored 1 (identity_from_port_path 1 2 [3]) 0
       (input_settings_default\<lparr>is_mouse_sensitivity_percent := percent,
          is_target_switch_shortcut := \<lparr>sc_modifiers = 1, sc_key = 0x2b\<rparr>\<rparr>)"

theorem scaling_never_drifts_witness:
  "(let (p', fs') = transform_run (sample_profile 33) [sample_move 1 10, sample_move 1 (- 3)] in
     100 * sum_list (map (frame_axis AxX) fs') + axis_rem AxX (ip_mouse_remainders p') = 33 * 7) \<and>
   (let (p', fs') = transform_run (sample_profile 400) [sample_move 1 20000] in
     \<exists>q. map (frame_axis AxX) fs' = [clampi (- 32768) 32767 q] \<and> \<bar>400 * 20000 - 100 * q\<bar> < 100)"
proof
  have r: "mr_x (ip_mouse_remainders (sample_profile c)) = 0" "is_mouse_sensitivity_percent (ip_settings (sample_profile c)) = c" for c
    by (simp_all add: sample_profile_def profile_restored_def remainders_zero_def)
  have pre: "\<bar>axis_rem AxX (ip_mouse_remainders (sample_profile c))\<bar> < 100" for c by (simp add: r)
  have x: "frame_axis AxX (sample_move 1 10) = 10" "frame_axis AxX (sample_move 1 (- 3)) = - 3" "frame_axis AxX (sample_move 1 20000) = 20000"
    by (simp_all add: frame_axis_def sample_move_def)
  show "let (p', fs') = transform_run (sample_profile 33) [sample_move 1 10, sample_move 1 (- 3)] in
     100 * sum_list (map (frame_axis AxX) fs') + axis_rem AxX (ip_mouse_remainders p') = 33 * 7"
    using scaling_never_drifts[OF pre, of 33 "[sample_move 1 10, sample_move 1 (- 3)]"]
    by (auto simp: r x Let_def case_prod_beta simp del: transform_run.simps)
  obtain qs where qs: "map (frame_axis AxX) (snd (transform_run (sample_profile 400) [sample_move 1 20000])) = map (axis_clip AxX) qs"
    "\<And>n. \<bar>400 * sum_list (take n [20000]) - 100 * sum_list (take n qs)\<bar> < 100"
    using scaling_never_drifts[OF pre, of 400 "[sample_move 1 20000]"]
    by (auto simp: r x Let_def case_prod_beta simp del: transform_run.simps)
  have "length qs = 1" using arg_cong[OF qs(1), of length] by (simp add: Let_def case_prod_beta)
  then obtain q where "qs = [q]" by (cases qs) auto
  then have "map (frame_axis AxX) (snd (transform_run (sample_profile 400) [sample_move 1 20000])) = [clampi (- 32768) 32767 q]"
    "\<bar>400 * 20000 - 100 * q\<bar> < 100" using qs(1) qs(2)[of 1] by simp_all
  then show "let (p', fs') = transform_run (sample_profile 400) [sample_move 1 20000] in
     \<exists>q. map (frame_axis AxX) fs' = [clampi (- 32768) 32767 q] \<and> \<bar>400 * 20000 - 100 * q\<bar> < 100"
    by (auto simp: case_prod_beta simp del: transform_run.simps)
qed

text \<open>
  Scaling cannot overflow. For every percentage a setting can hold and every remainder a
  previous step can leave, the thirty-two bit product in both scaling helpers is in range,
  and the remainder they leave is again below one hundred.
\<close>

theorem scaling_fits_i32:
  assumes "\<bar>r\<bar> < 100"
  shows "(i32_min \<le> sint (v :: i16) * uint percent + r \<and> sint v * uint percent + r \<le> i32_max) \<and>
    (i32_min \<le> sint (w :: i8) * uint percent + r \<and> sint w * uint percent + r \<le> i32_max) \<and>
    \<bar>snd (scale_i16_with_remainder v percent r)\<bar> < 100 \<and> \<bar>snd (scale_i8_with_remainder w percent r)\<bar> < 100"
  using scale16.no_overflow[OF assms] scale8.no_overflow[OF assms] scale16.rem_small scale8.rem_small by blast

theorem scaling_fits_i32_witness:
  "i32_min \<le> sint (0x8000 :: i16) * uint (0xffff :: u16) + (- 99) \<and>
   \<bar>snd (scale_i16_with_remainder 0x8000 0xffff (- 99))\<bar> < 100"
  using scaling_fits_i32[of "- 99" "0x8000" "0xffff" 0] by simp

text \<open>
  C12: the target switch shortcut fires once per press. It fires exactly when the read-only
  test says so; the frame passed on then contains neither the shortcut's key nor any of its
  modifiers; and it does not fire again before a frame in which the key and all its modifiers
  are released, whatever other frames come in between.
\<close>

theorem shortcut_fires_once:
  assumes "frame_ok f" and "target_switch_shortcut_would_trigger p f"
    and "\<forall>g\<in>set fs. \<not> releases_shortcut (is_target_switch_shortcut (ip_settings p)) g"
  shows "case capture_target_switch_shortcut p f of ((p', f'), fired) \<Rightarrow>
    fired \<and> True \<notin> set (snd (capture_run p' fs)) \<and>
    (\<exists>kf. sf_keyboard f' = Some kf \<and> sc_key (is_target_switch_shortcut (ip_settings p)) \<notin> set (kf_keys_down kf) \<and>
      kf_modifiers kf AND sc_modifiers (is_target_switch_shortcut (ip_settings p)) = 0)"
proof -
  let ?c = "capture_target_switch_shortcut p f" and ?s = "is_target_switch_shortcut (ip_settings p)"
  have fired: "snd ?c" using assms(2) by (simp add: capture_iff_would_trigger)
  have run: "True \<notin> set (snd (capture_run (fst (fst ?c)) fs))"
    by (rule disarmed_run) (use capture_disarms[OF fired] assms(3) in \<open>simp_all add: capture_settings\<close>)
  obtain kf where kf: "sf_keyboard f = Some kf" using assms(2)
    by (auto simp: target_switch_shortcut_would_trigger_def Let_def split: option.splits)
  let ?ks = "filter (\<lambda>k. k \<noteq> sc_key ?s) (kf_keys_down kf)" and ?m = "kf_modifiers kf AND NOT (sc_modifiers ?s)"
  have len: "length ?ks \<le> PHYSICAL_KEYBOARD_KEY_CAPACITY"
    using assms(1) kf by (intro le_trans[OF length_filter_le]) (simp add: frame_ok_def keys_ok_def)
  have "sf_keyboard (snd (fst ?c)) = Some (push_keys_lossy (keyboard_frame_new ?m) ?ks)"
    using fired kf by (auto simp: capture_target_switch_shortcut_def Let_def split: if_splits)
  moreover have "?m AND sc_modifiers ?s = 0" by (simp add: and.assoc)
  ultimately show ?thesis
    unfolding case_prod_beta using fired run rebuilt_frame(2,3)[OF len, of ?m]
    by (intro conjI exI[of _ "push_keys_lossy (keyboard_frame_new ?m) ?ks"]) simp_all
qed

definition sample_chord :: "key_usage list \<Rightarrow> standard_input_frame" where
  "sample_chord ks =
     \<lparr>sf_device_id = 1, sf_interface_id = 1, sf_keyboard = Some \<lparr>kf_modifiers = 1, kf_keys_down = ks\<rparr>,
      sf_mouse = None, sf_consumer = None\<rparr>"

theorem shortcut_fires_once_witness:
  "case capture_target_switch_shortcut (sample_profile 100) (sample_chord [0x2b]) of ((p', f'), fired) \<Rightarrow>
    fired \<and> True \<notin> set (snd (capture_run p' [sample_chord [0x2b], sample_chord [], sample_chord [0x2b]])) \<and>
    (\<exists>kf. sf_keyboard f' = Some kf \<and> 0x2b \<notin> set (kf_keys_down kf) \<and> kf_modifiers kf AND 1 = 0)"
proof -
  have s: "is_target_switch_shortcut (ip_settings (sample_profile 100)) = \<lparr>sc_modifiers = 1, sc_key = 0x2b\<rparr>"
    by (simp add: sample_profile_def profile_restored_def)
  have "frame_ok (sample_chord [0x2b])"
    by (simp add: sample_chord_def frame_ok_def keys_ok_def PHYSICAL_KEYBOARD_KEY_CAPACITY_def)
  moreover have "target_switch_shortcut_would_trigger (sample_profile 100) (sample_chord [0x2b])"
    by (simp add: target_switch_shortcut_would_trigger_def s sample_chord_def shortcut_is_enabled_def
        sample_profile_def profile_restored_def)
  moreover have "\<forall>g\<in>set [sample_chord [0x2b], sample_chord [], sample_chord [0x2b]].
      \<not> releases_shortcut (is_target_switch_shortcut (ip_settings (sample_profile 100))) g"
    by (simp add: releases_shortcut_def s sample_chord_def)
  ultimately show ?thesis
    using shortcut_fires_once[of "sample_chord [0x2b]" "sample_profile 100"
        "[sample_chord [0x2b], sample_chord [], sample_chord [0x2b]]"]
    by (simp only: s keyboard_shortcut.simps)
qed

lemma observe_kept:
  assumes inv: "registry_inv r" and obs: "registry_observe r d = (r', Inr k)"
  shows "\<exists>p. registry_get r' k = Some p \<and> ip_connected p \<and> ip_identity p = d \<and>
      (\<forall>q\<in>set (pr_profiles r). ip_identity q = d \<longrightarrow> ip_id q = k \<and> ip_settings p = ip_settings q)"
    and "\<forall>q\<in>set (pr_profiles r) - set (pr_profiles r'). ip_identity q \<noteq> d \<longrightarrow> \<not> ip_connected q \<and>
      (\<forall>x\<in>set (pr_profiles r). \<not> ip_connected x \<longrightarrow> ip_last_seen q \<le> ip_last_seen x)"
proof -
  let ?ps = "pr_profiles r"
  have inv': "registry_inv r'" using registry_inv_observe[OF inv, of d] obs by simp
  have inj: "inj_on ip_identity (set ?ps)" using inv by (simp add: registry_inv_def distinct_map)
  have get: "registry_get r' (ip_id q) = Some q" if "q \<in> set (pr_profiles r')" for q
    using that registry_get_unique[OF inv'] by simp
  from inv have "(\<exists>p. registry_get r' k = Some p \<and> ip_connected p \<and> ip_identity p = d \<and>
      (\<forall>q\<in>set ?ps. ip_identity q = d \<longrightarrow> ip_id q = k \<and> ip_settings p = ip_settings q)) \<and>
    (\<forall>q\<in>set ?ps - set (pr_profiles r'). ip_identity q \<noteq> d \<longrightarrow> \<not> ip_connected q \<and>
      (\<forall>x\<in>set ?ps. \<not> ip_connected x \<longrightarrow> ip_last_seen q \<le> ip_last_seen x))"
  proof (cases rule: observe_cases[where d = d])
    case (known i)
    let ?q = "(?ps ! i)\<lparr>ip_connected := True, ip_last_seen := pr_next_sequence r\<rparr>"
    have ps': "pr_profiles r' = ?ps[i := ?q]" and k: "k = ip_id ?q" using known(3) obs by auto
    have mem: "?q \<in> set (pr_profiles r')" unfolding ps' by (rule set_update_memI[OF known(1)])
    have "q = ?ps ! i" if "q \<in> set ?ps" "ip_identity q = d" for q
      using that inj known(1,2) by (auto dest: inj_onD)
    then show ?thesis
      using get[OF mem] known(2) k by (intro conjI exI[of _ ?q]) (auto simp: ps' dest: in_set_update_lost)
  next
    case (added j)
    let ?q = "(profile_restored j d (pr_next_sequence r) input_settings_default)\<lparr>ip_connected := True\<rparr>"
    have ps': "pr_profiles r' = ?ps @ [?q]" and k: "k = ip_id ?q"
      using added(5) obs by (auto simp: profile_restored_def)
    then show ?thesis
      using get[of ?q] added(1) by (intro conjI exI[of _ ?q]) (auto simp: profile_restored_def)
  next
    case (evicted i)
    let ?q = "(profile_restored (ip_id (?ps ! i)) d (pr_next_sequence r) input_settings_default)\<lparr>ip_connected := True\<rparr>"
    have ps': "pr_profiles r' = ?ps[i := ?q]" and k: "k = ip_id ?q"
      using evicted(6) obs by (auto simp: profile_restored_def)
    have mem: "?q \<in> set (pr_profiles r')" unfolding ps' by (rule set_update_memI[OF evicted(3)])
    have "q = ?ps ! i" if "q \<in> set ?ps - set (pr_profiles r')" for q
      using that in_set_update_lost[of q ?ps i] unfolding ps' by blast
    then have "\<forall>q\<in>set ?ps - set (pr_profiles r'). \<not> ip_connected q \<and>
        (\<forall>x\<in>set ?ps. \<not> ip_connected x \<longrightarrow> ip_last_seen q \<le> ip_last_seen x)"
      using evicted(4,5) by blast
    moreover have "ip_connected ?q" "ip_identity ?q = d" by (simp_all add: profile_restored_def)
    moreover have "\<forall>q\<in>set ?ps. ip_identity q \<noteq> d" using evicted(1) by blast
    ultimately show ?thesis using get[OF mem] k by blast
  next
    case full
    then show ?thesis using obs by simp
  qed
  then show "\<exists>p. registry_get r' k = Some p \<and> ip_connected p \<and> ip_identity p = d \<and>
      (\<forall>q\<in>set (pr_profiles r). ip_identity q = d \<longrightarrow> ip_id q = k \<and> ip_settings p = ip_settings q)"
    and "\<forall>q\<in>set (pr_profiles r) - set (pr_profiles r'). ip_identity q \<noteq> d \<longrightarrow> \<not> ip_connected q \<and>
      (\<forall>x\<in>set (pr_profiles r). \<not> ip_connected x \<longrightarrow> ip_last_seen q \<le> ip_last_seen x)"
    by blast+
qed

lemma observe_full:
  assumes inv: "registry_inv r" and obs: "registry_observe r d = (r', Inl e)"
  shows "d \<notin> ip_identity ` set (pr_profiles r) \<and> length (pr_profiles r) = INPUT_PROFILE_CAPACITY \<and>
    (\<forall>p\<in>set (pr_profiles r). ip_connected p) \<and> pr_profiles r' = pr_profiles r"
  using inv by (cases rule: observe_cases[where d = d]) (use obs in auto)

text \<open>
  The profile registry never gives up a connected device. After any sequence of restores,
  observations and disconnections, observing a device fails only if the device is unknown and
  all eight profiles are connected; otherwise the returned id belongs to a connected profile
  with the device's identity, every other connected profile is kept as it is, a known
  identity keeps its settings, and a profile that had to make room was disconnected and the
  least recently seen of the disconnected ones.
\<close>

theorem observe_keeps_connected:
  assumes "list_all registry_op_ok ops"
  shows "let r = run registry_step ops registry_new in
    case registry_observe r d of
      (r', Inl _) \<Rightarrow> d \<notin> ip_identity ` set (pr_profiles r) \<and> length (pr_profiles r) = INPUT_PROFILE_CAPACITY \<and>
        (\<forall>p\<in>set (pr_profiles r). ip_connected p) \<and> pr_profiles r' = pr_profiles r
    | (r', Inr k) \<Rightarrow>
        (\<exists>p. registry_get r' k = Some p \<and> ip_connected p \<and> ip_identity p = d \<and>
          (\<forall>q\<in>set (pr_profiles r). ip_identity q = d \<longrightarrow> ip_id q = k \<and> ip_settings p = ip_settings q)) \<and>
        (\<forall>q\<in>set (pr_profiles r) - set (pr_profiles r'). ip_identity q \<noteq> d \<longrightarrow> \<not> ip_connected q \<and>
          (\<forall>x\<in>set (pr_profiles r). \<not> ip_connected x \<longrightarrow> ip_last_seen q \<le> ip_last_seen x))"
proof -
  have inv: "registry_inv (run registry_step ops registry_new)"
    by (rule registry.run_inv[OF registry_inv_new assms])
  obtain r' res where obs: "registry_observe (run registry_step ops registry_new) d = (r', res)"
    by (metis prod.exhaust)
  show ?thesis
  proof (cases res)
    case (Inl e)
    then show ?thesis using observe_full[OF inv obs[unfolded Inl]] obs by (simp add: Let_def)
  next
    case (Inr k)
    then show ?thesis using observe_kept[OF inv obs[unfolded Inr]] obs by (simp only: Let_def prod.case sum.case)
  qed
qed

theorem observe_keeps_connected_witness:
  "let r = run registry_step [RgObserve (identity_from_port_path 1 1 [1]), RgDisconnect 1] registry_new in
    case registry_observe r (identity_from_port_path 1 1 [1]) of
      (r', Inl _) \<Rightarrow> False
    | (r', Inr k) \<Rightarrow> \<exists>p. registry_get r' k = Some p \<and> ip_connected p \<and> ip_identity p = identity_from_port_path 1 1 [1]"
proof -
  let ?ops = "[RgObserve (identity_from_port_path 1 1 [1]), RgDisconnect 1]"
  have "list_all registry_op_ok ?ops" by simp
  from observe_keeps_connected[OF this, of "identity_from_port_path 1 1 [1]"]
  show ?thesis
    by (auto simp: Let_def registry_new_def registry_observe_def registry_disconnect_def free_profile_id_def
        input_profile_id_new_def INPUT_PROFILE_CAPACITY_def profile_restored_def vec_push_def upt_rec
        reset_transform_state_def split: prod.splits sum.splits)
qed

text \<open>
  Identities from a serial number and from a port path never coincide for the same bytes,
  and a serial given as UTF-16 units identifies like its little-endian bytes.
\<close>

theorem identity_sources_distinct:
  "identity_from_serial v p bs \<noteq> Some (identity_from_port_path v p bs) \<and>
   identity_from_serial_utf16 v p units = identity_from_serial v p (concat (map (to_le 2) units))"
proof -
  have "identity_hash_start 0x53 \<noteq> identity_hash_start 0x50"
    by (simp add: identity_hash_start_def identity_hash_byte_def)
  moreover have "(concat (map (to_le 2) units) = []) = (units = [])"
    by (cases units) (simp_all add: numeral_2_eq_2)
  ultimately show ?thesis
    by (simp add: identity_from_serial_def identity_from_port_path_def identity_from_serial_utf16_def
        identity_hash_def foldl_identity_inject foldl_concat)
qed

text \<open>
  The settings schema is consistent. Every setting id survives the trip through its wire
  number, is described by exactly the descriptor looked up by id and by key, and its default
  is a valid value; every value of a choice setting has a choice.
\<close>

theorem settings_schema_consistent:
  "setting_id_from_u16 (setting_id_u16 i) = Some i \<and> sd_id (setting_descriptor_of i) = i \<and>
   setting_by_key (sd_key (setting_descriptor_of i)) = Some (setting_descriptor_of i) \<and>
   validate_setting_value i (sd_default (setting_descriptor_of i)) \<and>
   sd_choices (setting_descriptor_of i) =
     (if sd_kind (setting_descriptor_of i) = KindChoice
      then [sd_min (setting_descriptor_of i)..sd_max (setting_descriptor_of i)] else [])"
  by (cases i) (simp_all add: setting_id_from_u16_def setting_descriptor_of_def setting_by_key_def
      validate_setting_value_def SETTING_DESCRIPTORS_def descriptor_def upto_rec1)

end
