(* ===== verification/HS_StorageCodec.thy ===== *)
theory HS_StorageCodec
  imports HS_Profiles HS_Routing
begin

unbundle bit_operations_syntax

text \<open>
  The stored state and its flash image (the data types and the codec of
  \<open>src/storage.rs\<close>): host profiles with their bonds, global settings, input profiles and, in
  the wired build, the output presentation, in a checksummed image of 1024 bytes. The
  argument \<open>w\<close> of the codec says whether the program is built with the feature
  \<open>dual-s3-wired\<close>.
\<close>

section \<open>Stored data\<close>

definition MAX_HOST_NAME_LEN :: nat where "MAX_HOST_NAME_LEN = 32"
definition STORED_HOSTS_MAX :: nat where "STORED_HOSTS_MAX = HOST_SLOT_COUNT"
definition STORAGE_MAGIC :: bytes where "STORAGE_MAGIC = [0x45, 0x33, 0x32, 0x42]"
definition STORAGE_SCHEMA_VERSION :: u16 where "STORAGE_SCHEMA_VERSION = 1"
definition STORAGE_IMAGE_LEN :: nat where "STORAGE_IMAGE_LEN = 1024"
definition STORAGE_HEADER_LEN :: nat where "STORAGE_HEADER_LEN = 16"
definition STORAGE_BODY_PREFIX_LEN :: nat where "STORAGE_BODY_PREFIX_LEN = 352"
definition STORED_INPUT_PROFILE_LEN :: nat where "STORED_INPUT_PROFILE_LEN = 36"
definition STORED_HOST_RECORD_LEN :: nat where "STORED_HOST_RECORD_LEN = 88"
definition STORED_BOND_LEN :: nat where "STORED_BOND_LEN = 48"

lemmas storage_consts =
  MAX_HOST_NAME_LEN_def STORED_HOSTS_MAX_def STORAGE_IMAGE_LEN_def STORAGE_HEADER_LEN_def
  STORAGE_BODY_PREFIX_LEN_def STORED_INPUT_PROFILE_LEN_def STORED_HOST_RECORD_LEN_def STORED_BOND_LEN_def

record fixed_name =
  fn_len :: u8
  fn_bytes :: bytes

definition fixed_name_empty :: fixed_name where
  "fixed_name_empty = \<lparr>fn_len = 0, fn_bytes = replicate MAX_HOST_NAME_LEN 0\<rparr>"

definition fixed_name_from_ascii :: "bytes \<Rightarrow> fixed_name option" where
  "fixed_name_from_ascii bs =
     (if length bs > MAX_HOST_NAME_LEN \<or> \<not> list_all (\<lambda>b. b < 0x80) bs then None
      else Some \<lparr>fn_len = of_nat (length bs), fn_bytes = bs @ replicate (MAX_HOST_NAME_LEN - length bs) 0\<rparr>)"

definition fixed_name_as_bytes :: "fixed_name \<Rightarrow> bytes" where
  "fixed_name_as_bytes n = take (unat (fn_len n)) (fn_bytes n)"

datatype stored_address_kind = AddrPublic | AddrRandom

datatype stored_security_level = NoEncryption | Encrypted | EncryptedAuthenticated

record stored_bond =
  sb_peer_address :: bytes
  sb_peer_address_kind :: stored_address_kind
  sb_peer_irk :: "bytes option"
  sb_ltk :: bytes
  sb_is_bonded :: bool
  sb_security_level :: stored_security_level

record stored_host_profile =
  sh_host_id :: host_id
  sh_bonded :: bool
  sh_keyboard_cccd_enabled :: bool
  sh_mouse_cccd_enabled :: bool
  sh_consumer_cccd_enabled :: bool
  sh_keyboard_output_cccd_enabled :: bool
  sh_name :: fixed_name
  sh_bond :: "stored_bond option"

datatype storage_error =
  SeHostCapacity | SeInvalidHostId | SeInvalidOutputTarget | SeDuplicateHostId | SeActiveHostMissing
  | SeImageTooShort | SeInvalidMagic | SeUnsupportedVersion | SeInvalidLength | SeCrcMismatch
  | SeHostCountTooLarge | SeInvalidName | SeFlashLayout | SeFlashRead | SeFlashErase | SeFlashWrite
  | SeFlashVerify | SeUnavailable

record storage_state =
  st_generation :: u32
  st_last_active_host :: "host_id option"
  st_global_settings :: global_settings
  st_input_profiles :: input_profile_registry
  st_presentation :: stored_presentation_config
  st_hosts :: "stored_host_profile list"

definition storage_state_new :: "u32 \<Rightarrow> storage_state" where
  "storage_state_new generation =
     \<lparr>st_generation = generation, st_last_active_host = None, st_global_settings = global_settings_default,
      st_input_profiles = registry_new, st_presentation = presentation_default, st_hosts = []\<rparr>"

definition push_host :: "storage_state \<Rightarrow> stored_host_profile \<Rightarrow> (storage_state, storage_error, unit) outcome" where
  "push_host st h =
     (case vec_push STORED_HOSTS_MAX (st_hosts st) h of
        Some hs \<Rightarrow> (st\<lparr>st_hosts := hs\<rparr>, Inr ()) | None \<Rightarrow> (st, Inl SeHostCapacity))"

text \<open>The duplicate check of \<open>validate\<close>, with its array of seen slots.\<close>

fun validate_hosts :: "bool list \<Rightarrow> stored_host_profile list \<Rightarrow> storage_error + unit" where
  "validate_hosts seen [] = Inr ()"
| "validate_hosts seen (h # hs) =
     (case map_option unat (checked_sub (sh_host_id h) 1) of
        None \<Rightarrow> Inl SeInvalidHostId
      | Some index \<Rightarrow>
          if index \<ge> STORED_HOSTS_MAX then Inl SeInvalidHostId
          else if seen ! index then Inl SeDuplicateHostId
          else validate_hosts (seen[index := True]) hs)"

definition storage_validate :: "storage_state \<Rightarrow> storage_error + unit" where
  "storage_validate st =
     bindE (validate_hosts (replicate STORED_HOSTS_MAX False) (st_hosts st)) (\<lambda>_.
       case st_last_active_host st of
         None \<Rightarrow> Inr ()
       | Some active \<Rightarrow>
           if list_ex (\<lambda>h. sh_host_id h = active) (st_hosts st) then Inr () else Inl SeActiveHostMissing)"

section \<open>Encoding\<close>

definition bool_byte :: "bool \<Rightarrow> u8" where
  "bool_byte b = (if b then 1 else 0)"

fun security_level_byte :: "stored_security_level \<Rightarrow> u8" where
  "security_level_byte NoEncryption = 0"
| "security_level_byte Encrypted = 1"
| "security_level_byte EncryptedAuthenticated = 2"

fun address_kind_byte :: "stored_address_kind \<Rightarrow> u8" where
  "address_kind_byte AddrPublic = 0"
| "address_kind_byte AddrRandom = 1"

text \<open>
  Each block is written out field by field in the order of its offsets; the bytes of a block
  the source leaves at zero appear as zeros.
\<close>

definition encode_bond :: "stored_bond option \<Rightarrow> bytes" where
  "encode_bond bond =
     (case bond of
        None \<Rightarrow> replicate STORED_BOND_LEN 0
      | Some b \<Rightarrow>
          [1] @ sb_peer_address b @ [bool_byte (sb_peer_irk b \<noteq> None)] @
          (case sb_peer_irk b of Some irk \<Rightarrow> irk | None \<Rightarrow> replicate 16 0) @ sb_ltk b @
          [bool_byte (sb_is_bonded b), security_level_byte (sb_security_level b),
           address_kind_byte (sb_peer_address_kind b)] @ replicate 5 0)"

definition encode_host_record :: "stored_host_profile \<Rightarrow> bytes" where
  "encode_host_record h =
     [sh_host_id h, bool_byte (sh_bonded h), bool_byte (sh_keyboard_cccd_enabled h),
      bool_byte (sh_mouse_cccd_enabled h), bool_byte (sh_consumer_cccd_enabled h),
      bool_byte (sh_keyboard_output_cccd_enabled h), fn_len (sh_name h), 0] @
     fn_bytes (sh_name h) @ encode_bond (sh_bond h)"

definition encode_global_settings :: "global_settings \<Rightarrow> bytes" where
  "encode_global_settings g =
     [gs_boot_target g, bool_byte (gs_restore_last_target g), bool_byte (gs_auto_reconnect g)] @
     to_le 2 (gs_switch_release_delay_ms g) @
     [gs_button_short_action g, gs_button_long_action g, gs_button_very_long_action g, gs_log_level g, 0, 0, 0]"

definition encode_input_settings :: "input_settings \<Rightarrow> bytes" where
  "encode_input_settings s =
     [is_keyboard_layout s, is_remap_from_usage s, is_remap_to_usage s, 0] @
     to_le 2 (is_mouse_sensitivity_percent s) @ to_le 2 (is_scroll_multiplier_percent s) @
     to_le 2 (is_consumer_from_usage s) @ to_le 2 (is_consumer_to_usage s)"

definition encode_input_profile :: "input_profile \<Rightarrow> bytes" where
  "encode_input_profile p =
     [ip_id p, 0] @ to_le 2 (ii_vendor_id (ip_identity p)) @ to_le 2 (ii_product_id (ip_identity p)) @
     to_le 8 (ii_instance_hash (ip_identity p)) @ to_le 8 (ip_last_seen p) @
     to_le 2 (shortcut_packed (is_target_switch_shortcut (ip_settings p))) @
     encode_input_settings (ip_settings p)"

definition encode_output_target :: "stored_output_target \<Rightarrow> bytes" where
  "encode_output_target t = [case t of StoredWired \<Rightarrow> 0 | StoredBle slot \<Rightarrow> slot]"

definition encode_wired_ble_host :: "host_slot option \<Rightarrow> bytes" where
  "encode_wired_ble_host h = [case h of None \<Rightarrow> 0 | Some slot \<Rightarrow> slot]"

definition encode_mirror_target :: "mirror_stable_id option \<Rightarrow> bytes" where
  "encode_mirror_target t =
     (case t of
        None \<Rightarrow> replicate 24 0
      | Some m \<Rightarrow>
          [1 OR push_bit 1 (bool_byte (si_serial_hash m \<noteq> None)), si_port_path_len m] @
          to_le 2 (si_vendor_id m) @ to_le 2 (si_product_id m) @
          to_le 4 (case si_serial_hash m of Some h \<Rightarrow> h | None \<Rightarrow> 0) @ to_le 4 (si_descriptor_hash m) @
          si_port_path m @ [0, 0])"

definition storage_body_len :: "nat \<Rightarrow> nat" where
  "storage_body_len host_count = STORAGE_BODY_PREFIX_LEN + host_count * STORED_HOST_RECORD_LEN"

definition body_len_is_valid :: "nat \<Rightarrow> bool" where
  "body_len_is_valid n =
     (n \<ge> STORAGE_BODY_PREFIX_LEN \<and> n \<le> storage_body_len STORED_HOSTS_MAX \<and>
      STORAGE_HEADER_LEN + n \<le> STORAGE_IMAGE_LEN)"

text \<open>The checksum loop over the image, which skips its own field.\<close>

fun crc32_skip_loop :: "nat \<Rightarrow> bytes \<Rightarrow> u32 \<Rightarrow> u32" where
  "crc32_skip_loop index [] crc = crc"
| "crc32_skip_loop index (byte # rest) crc =
     (if 12 \<le> index \<and> index < 16 then crc32_skip_loop (index + 1) rest crc
      else crc32_skip_loop (index + 1) rest ((crc32_bit ^^ 8) (crc XOR ucast byte)))"

definition crc32_without_header_crc :: "bytes \<Rightarrow> u32" where
  "crc32_without_header_crc img = NOT (crc32_skip_loop 0 img 0xffffffff)"

text \<open>The header up to the checksum, and everything after it.\<close>

definition image_header :: "storage_state \<Rightarrow> bytes" where
  "image_header st =
     STORAGE_MAGIC @ to_le 2 STORAGE_SCHEMA_VERSION @
     to_le 2 (of_nat (storage_body_len (length (st_hosts st))) :: u16) @ to_le 4 (st_generation st)"

definition image_presentation :: "bool \<Rightarrow> storage_state \<Rightarrow> bytes" where
  "image_presentation w st =
     (if w then
        encode_output_target (sp_output_target (st_presentation st)) @
        encode_wired_ble_host (sp_wired_ble_host (st_presentation st)) @ replicate 6 0 @
        encode_mirror_target (sp_mirror_target (st_presentation st))
      else replicate 32 0)"

definition image_body :: "bool \<Rightarrow> storage_state \<Rightarrow> bytes" where
  "image_body w st =
     [of_nat (length (st_hosts st)),
      case st_last_active_host st of None \<Rightarrow> 0xff | Some h \<Rightarrow> h] @
     encode_global_settings (st_global_settings st) @
     [of_nat (length (pr_profiles (st_input_profiles st))), 0] @
     image_presentation w st @
     concat (map encode_input_profile (pr_profiles (st_input_profiles st))) @
     replicate (304 - STORED_INPUT_PROFILE_LEN * length (pr_profiles (st_input_profiles st))) 0 @
     concat (map encode_host_record (st_hosts st)) @
     replicate (656 - STORED_HOST_RECORD_LEN * length (st_hosts st)) 0"

definition encode_storage_image :: "bool \<Rightarrow> storage_state \<Rightarrow> storage_error + bytes" where
  "encode_storage_image w st =
     bindE (storage_validate st) (\<lambda>_.
       let body_len = storage_body_len (length (st_hosts st));
           blank = image_header st @ [0, 0, 0, 0] @ image_body w st;
           crc = crc32_without_header_crc (take (STORAGE_HEADER_LEN + body_len) blank)
       in Inr (image_header st @ to_le 4 crc @ image_body w st))"

section \<open>Decoding\<close>

definition decode_bond :: "bytes \<Rightarrow> storage_error + stored_bond option" where
  "decode_bond r =
     (if (if r = [] then 0 else r ! 0) = 0 then Inr None
      else
        bindE (if r ! 41 = 0 then Inr NoEncryption else if r ! 41 = 1 then Inr Encrypted
               else if r ! 41 = 2 then Inr EncryptedAuthenticated else Inl SeInvalidLength) (\<lambda>level.
        bindE (if r ! 42 = 0 then Inr AddrPublic else if r ! 42 = 1 then Inr AddrRandom
               else Inl SeInvalidLength) (\<lambda>kind.
        Inr (Some \<lparr>sb_peer_address = subslice 1 7 r, sb_peer_address_kind = kind,
                   sb_peer_irk = (if r ! 7 = 0 then None else Some (subslice 8 24 r)),
                   sb_ltk = subslice 24 40 r, sb_is_bonded = (r ! 40 \<noteq> 0), sb_security_level = level\<rparr>))))"

definition decode_host_record :: "bytes \<Rightarrow> storage_error + stored_host_profile" where
  "decode_host_record r =
     (if unat (r ! 6) > MAX_HOST_NAME_LEN then Inl SeInvalidName
      else bindE (decode_bond (subslice 40 (40 + STORED_BOND_LEN) r)) (\<lambda>bond.
        Inr \<lparr>sh_host_id = r ! 0, sh_bonded = (r ! 1 \<noteq> 0), sh_keyboard_cccd_enabled = (r ! 2 \<noteq> 0),
             sh_mouse_cccd_enabled = (r ! 3 \<noteq> 0), sh_consumer_cccd_enabled = (r ! 4 \<noteq> 0),
             sh_keyboard_output_cccd_enabled = (r ! 5 \<noteq> 0),
             sh_name = \<lparr>fn_len = r ! 6, fn_bytes = subslice 8 (8 + MAX_HOST_NAME_LEN) r\<rparr>, sh_bond = bond\<rparr>))"

definition decode_global_settings :: "bytes \<Rightarrow> storage_error + global_settings" where
  "decode_global_settings r =
     (let g = \<lparr>gs_boot_target = r ! 0, gs_restore_last_target = (r ! 1 \<noteq> 0), gs_auto_reconnect = (r ! 2 \<noteq> 0),
               gs_switch_release_delay_ms = from_le (subslice 3 5 r), gs_button_short_action = r ! 5,
               gs_button_long_action = r ! 6, gs_button_very_long_action = r ! 7, gs_log_level = r ! 8\<rparr>
      in if gs_boot_target g > 4 \<or> gs_switch_release_delay_ms g > 1000 \<or> gs_button_short_action g > 3
            \<or> gs_button_long_action g > 3 \<or> gs_button_very_long_action g > 3 \<or> gs_log_level g > 4
         then Inl SeInvalidLength else Inr g)"

definition decode_input_settings :: "bytes \<Rightarrow> storage_error + input_settings" where
  "decode_input_settings r =
     (let s = \<lparr>is_keyboard_layout = r ! 0, is_remap_from_usage = r ! 1, is_remap_to_usage = r ! 2,
               is_mouse_sensitivity_percent = from_le (subslice 4 6 r), is_scroll_multiplier_percent = from_le (subslice 6 8 r),
               is_consumer_from_usage = from_le (subslice 8 10 r), is_consumer_to_usage = from_le (subslice 10 12 r),
               is_target_switch_shortcut = shortcut_disabled\<rparr>
      in if is_keyboard_layout s > 2
            \<or> \<not> (10 \<le> is_mouse_sensitivity_percent s \<and> is_mouse_sensitivity_percent s \<le> 400)
            \<or> \<not> (10 \<le> is_scroll_multiplier_percent s \<and> is_scroll_multiplier_percent s \<le> 400)
            \<or> is_consumer_from_usage s > 1023 \<or> is_consumer_to_usage s > 1023
         then Inl SeInvalidLength else Inr s)"

definition decode_input_profile :: "bytes \<Rightarrow> storage_error + input_profile" where
  "decode_input_profile r =
     (case input_profile_id_new (r ! 0) of
        None \<Rightarrow> Inl SeInvalidLength
      | Some i \<Rightarrow>
          bindE (decode_input_settings (subslice 24 36 r)) (\<lambda>settings.
          case shortcut_from_packed (from_le (subslice 22 24 r)) of
            None \<Rightarrow> Inl SeInvalidLength
          | Some shortcut \<Rightarrow>
              Inr (profile_restored i
                     \<lparr>ii_vendor_id = from_le (subslice 2 4 r), ii_product_id = from_le (subslice 4 6 r),
                      ii_instance_hash = from_le (subslice 6 14 r)\<rparr>
                     (from_le (subslice 14 22 r)) (settings\<lparr>is_target_switch_shortcut := shortcut\<rparr>))))"

definition decode_output_target :: "u8 \<Rightarrow> storage_error + stored_output_target" where
  "decode_output_target b =
     (if b = 0 then Inr StoredWired
      else if 1 \<le> b \<and> b \<le> 4
      then (case host_slot_try_from b of Inl _ \<Rightarrow> Inl SeInvalidOutputTarget | Inr slot \<Rightarrow> Inr (StoredBle slot))
      else Inl SeInvalidOutputTarget)"

definition decode_wired_ble_host :: "u8 \<Rightarrow> storage_error + host_slot option" where
  "decode_wired_ble_host b =
     (if b = 0 then Inr None
      else if 1 \<le> b \<and> b \<le> 4
      then (case host_slot_try_from b of Inl _ \<Rightarrow> Inl SeInvalidOutputTarget | Inr slot \<Rightarrow> Inr (Some slot))
      else Inl SeInvalidOutputTarget)"

definition decode_mirror_target :: "bytes \<Rightarrow> storage_error + mirror_stable_id option" where
  "decode_mirror_target r =
     (if r ! 0 AND 1 = 0 then Inr None
      else
        let path_len = unat (r ! 1) in
        if path_len > MIRROR_PORT_PATH_MAX_LEN then Inl SeInvalidOutputTarget
        else
          (case mirror_stable_id_new (from_le (subslice 2 4 r)) (from_le (subslice 4 6 r))
                  (if r ! 0 AND 2 \<noteq> 0 then Some (from_le (subslice 6 10 r)) else None)
                  (from_le (subslice 10 14 r)) (subslice 14 (14 + path_len) r) of
             Inl _ \<Rightarrow> Inl SeInvalidOutputTarget
           | Inr m \<Rightarrow> Inr (Some m)))"

fun decode_profiles :: "bytes \<Rightarrow> nat list \<Rightarrow> input_profile_registry \<Rightarrow> storage_error + input_profile_registry" where
  "decode_profiles img [] reg = Inr reg"
| "decode_profiles img (index # rest) reg =
     (let offset = 64 + index * STORED_INPUT_PROFILE_LEN in
      bindE (decode_input_profile (subslice offset (offset + STORED_INPUT_PROFILE_LEN) img)) (\<lambda>profile.
        case registry_restore reg profile of
          (_, Inl _) \<Rightarrow> Inl SeInvalidLength
        | (reg', Inr _) \<Rightarrow> decode_profiles img rest reg'))"

fun decode_hosts :: "bytes \<Rightarrow> nat list \<Rightarrow> storage_state \<Rightarrow> storage_error + storage_state" where
  "decode_hosts img [] st = Inr st"
| "decode_hosts img (index # rest) st =
     (let offset = STORAGE_HEADER_LEN + STORAGE_BODY_PREFIX_LEN + index * STORED_HOST_RECORD_LEN in
      bindE (decode_host_record (subslice offset (offset + STORED_HOST_RECORD_LEN) img)) (\<lambda>h.
        case push_host st h of
          (_, Inl e) \<Rightarrow> Inl e
        | (st', Inr _) \<Rightarrow> decode_hosts img rest st'))"

definition decode_presentation :: "bool \<Rightarrow> bytes \<Rightarrow> storage_error + stored_presentation_config" where
  "decode_presentation w img =
     (if w then
        bindE (decode_output_target (img ! 32)) (\<lambda>target.
        bindE (decode_wired_ble_host (img ! 33)) (\<lambda>host.
        bindE (decode_mirror_target (subslice 40 64 img)) (\<lambda>mirror.
        Inr \<lparr>sp_output_target = target, sp_wired_ble_host = host, sp_mirror_target = mirror\<rparr>)))
      else Inr presentation_default)"

definition decode_body :: "bool \<Rightarrow> bytes \<Rightarrow> storage_error + storage_state" where
  "decode_body w img =
     (let state0 = (storage_state_new (from_le (subslice 8 12 img)))
            \<lparr>st_last_active_host := (if img ! 17 = 0xff then None else Some (img ! 17))\<rparr> in
      bindE (decode_global_settings (subslice 18 30 img)) (\<lambda>settings.
      let profile_count = unat (img ! 30) in
      if profile_count > INPUT_PROFILE_CAPACITY then Inl SeInvalidLength
      else
        bindE (decode_presentation w img) (\<lambda>presentation.
        bindE (decode_profiles img [0..<profile_count] (st_input_profiles state0)) (\<lambda>profiles.
        bindE (decode_hosts img [0..<unat (img ! 16)]
                 (state0\<lparr>st_global_settings := settings, st_presentation := presentation,
                         st_input_profiles := profiles\<rparr>)) (\<lambda>state.
        bindE (storage_validate state) (\<lambda>_. Inr state))))))"

definition decode_storage_image :: "bool \<Rightarrow> bytes \<Rightarrow> storage_error + storage_state" where
  "decode_storage_image w img =
     (if length img < STORAGE_IMAGE_LEN then Inl SeImageTooShort
      else if subslice 0 4 img \<noteq> STORAGE_MAGIC then Inl SeInvalidMagic
      else if (from_le (subslice 4 6 img) :: u16) \<noteq> STORAGE_SCHEMA_VERSION then Inl SeUnsupportedVersion
      else
        let body_len = unat (from_le (subslice 6 8 img) :: u16) in
        if \<not> body_len_is_valid body_len then Inl SeInvalidLength
        else if (from_le (subslice 12 16 img) :: u32) \<noteq> crc32_without_header_crc (take (STORAGE_HEADER_LEN + body_len) img)
        then Inl SeCrcMismatch
        else if unat (img ! 16) > STORED_HOSTS_MAX then Inl SeHostCountTooLarge
        else if storage_body_len (unat (img ! 16)) \<noteq> body_len then Inl SeInvalidLength
        else decode_body w img)"

section \<open>Slices and the checksum\<close>

lemma crc32_skip_prefix:
  "index + length a \<le> 12 \<Longrightarrow> crc32_skip_loop index (a @ r) crc = crc32_skip_loop (index + length a) r (crc32_update crc a)"
  by (induction a arbitrary: index crc) (simp_all add: crc32_byte_def)

lemma crc32_skip_suffix: "16 \<le> index \<Longrightarrow> crc32_skip_loop index r crc = crc32_update crc r"
  by (induction r arbitrary: index crc) (simp_all add: crc32_byte_def)

lemma crc32_skip_field:
  assumes "length c = 4"
  shows "crc32_skip_loop 12 (c @ r) crc = crc32_update crc r"
proof -
  obtain c0 c1 c2 c3 where "c = [c0, c1, c2, c3]"
    using assms by (auto simp: length_Suc_conv eval_nat_numeral)
  then show ?thesis by (simp add: crc32_skip_suffix)
qed

text \<open>The image checksum is the library's checksum of the bytes around the field.\<close>

lemma crc32_without_header_crc_split:
  assumes "length a = 12" and "length c = 4"
  shows "crc32_without_header_crc (a @ c @ r) = crc32_ieee (a @ r)"
  using assms by (simp add: crc32_without_header_crc_def crc32_skip_prefix crc32_skip_field crc32_ieee_def
      crc32_finalize_def crc32_new_def)

section \<open>Tables of fixed-size records\<close>

locale fixed_codec =
  fixes len :: nat and enc :: "'a \<Rightarrow> bytes" and dec :: "bytes \<Rightarrow> storage_error + 'a"
    and valid :: "'a \<Rightarrow> bool" and norm :: "'a \<Rightarrow> 'a"
  assumes enc_length: "valid x \<Longrightarrow> length (enc x) = len"
    and dec_enc: "valid x \<Longrightarrow> dec (enc x) = Inr (norm x)"
begin

lemma length_table: "list_all valid xs \<Longrightarrow> length (concat (map enc xs)) = len * length xs"
  by (induction xs) (simp_all add: enc_length)

lemma table_slice:
  "list_all valid xs \<Longrightarrow> i < length xs \<Longrightarrow> subslice (i * len) (i * len + len) (concat (map enc xs) @ pad) = enc (xs ! i)"
proof (induction xs arbitrary: i)
  case Nil
  then show ?case by simp
next
  case (Cons x xs)
  show ?case
  proof (cases i)
    case 0
    then show ?thesis using Cons.prems by (simp add: subslice_def enc_length)
  next
    case (Suc j)
    have "subslice (len + j * len) (len + (j * len + len)) (enc x @ concat (map enc xs) @ pad) =
        subslice (j * len) (j * len + len) (concat (map enc xs) @ pad)"
      using Cons.prems by (intro subslice_shift) (simp add: enc_length)
    then show ?thesis using Cons Suc by (simp add: add.assoc)
  qed
qed

lemma table_decode:
  assumes "list_all valid xs" and "i < length xs" and "length pre = base"
  shows "dec (subslice (base + i * len) (base + i * len + len) (pre @ concat (map enc xs) @ pad)) = Inr (norm (xs ! i))"
proof -
  have "subslice (base + i * len) (base + (i * len + len)) (pre @ concat (map enc xs) @ pad) =
      subslice (i * len) (i * len + len) (concat (map enc xs) @ pad)"
    by (rule subslice_shift[OF assms(3)])
  then have "subslice (base + i * len) (base + i * len + len) (pre @ concat (map enc xs) @ pad) = enc (xs ! i)"
    using table_slice[OF assms(1,2)] by (simp add: add.assoc)
  moreover have "valid (xs ! i)" using assms(1,2) by (simp add: list_all_length)
  ultimately show ?thesis by (simp add: dec_enc)
qed

end

section \<open>Well-formed stored data\<close>

definition name_ok :: "fixed_name \<Rightarrow> bool" where
  "name_ok n = (length (fn_bytes n) = MAX_HOST_NAME_LEN \<and> unat (fn_len n) \<le> MAX_HOST_NAME_LEN)"

definition bond_ok :: "stored_bond \<Rightarrow> bool" where
  "bond_ok b =
     (length (sb_peer_address b) = 6 \<and> length (sb_ltk b) = 16 \<and>
      (case sb_peer_irk b of None \<Rightarrow> True | Some irk \<Rightarrow> length irk = 16))"

definition host_ok :: "stored_host_profile \<Rightarrow> bool" where
  "host_ok h = (name_ok (sh_name h) \<and> (case sh_bond h of None \<Rightarrow> True | Some b \<Rightarrow> bond_ok b))"

definition global_ok :: "global_settings \<Rightarrow> bool" where
  "global_ok g =
     (gs_boot_target g \<le> 4 \<and> gs_switch_release_delay_ms g \<le> 1000 \<and> gs_button_short_action g \<le> 3 \<and>
      gs_button_long_action g \<le> 3 \<and> gs_button_very_long_action g \<le> 3 \<and> gs_log_level g \<le> 4)"

definition input_settings_ok :: "input_settings \<Rightarrow> bool" where
  "input_settings_ok s =
     (is_keyboard_layout s \<le> 2 \<and>
      10 \<le> is_mouse_sensitivity_percent s \<and> is_mouse_sensitivity_percent s \<le> 400 \<and>
      10 \<le> is_scroll_multiplier_percent s \<and> is_scroll_multiplier_percent s \<le> 400 \<and>
      is_consumer_from_usage s \<le> 1023 \<and> is_consumer_to_usage s \<le> 1023 \<and>
      shortcut_ok (is_target_switch_shortcut s))"

definition profile_ok :: "input_profile \<Rightarrow> bool" where
  "profile_ok p = (input_profile_id_new (ip_id p) = Some (ip_id p) \<and> input_settings_ok (ip_settings p))"

definition mirror_ok :: "mirror_stable_id \<Rightarrow> bool" where
  "mirror_ok m =
     (mirror_stable_id_new (si_vendor_id m) (si_product_id m) (si_serial_hash m) (si_descriptor_hash m)
        (mirror_port_path m) = Inr m \<and> unat (si_port_path_len m) \<le> MIRROR_PORT_PATH_MAX_LEN)"

definition slot_ok :: "host_slot \<Rightarrow> bool" where
  "slot_ok s = (1 \<le> s \<and> s \<le> 4)"

definition presentation_ok :: "stored_presentation_config \<Rightarrow> bool" where
  "presentation_ok c =
     ((case sp_output_target c of StoredWired \<Rightarrow> True | StoredBle s \<Rightarrow> slot_ok s) \<and>
      (case sp_wired_ble_host c of None \<Rightarrow> True | Some s \<Rightarrow> slot_ok s) \<and>
      (case sp_mirror_target c of None \<Rightarrow> True | Some m \<Rightarrow> mirror_ok m))"

text \<open>The durable part of a profile: connection and transform state start afresh.\<close>

definition durable_profile :: "input_profile \<Rightarrow> input_profile" where
  "durable_profile p = profile_restored (ip_id p) (ip_identity p) (ip_last_seen p) (ip_settings p)"

lemma bool_byte_nonzero [simp]: "(bool_byte b \<noteq> 0) = b" "(bool_byte b = 0) = (\<not> b)"
  by (simp_all add: bool_byte_def)

lemma decode_encode_bond:
  assumes "case bond of None \<Rightarrow> True | Some b \<Rightarrow> bond_ok b"
  shows "length (encode_bond bond) = STORED_BOND_LEN \<and> decode_bond (encode_bond bond) = Inr bond"
proof (cases bond)
  case None
  show ?thesis
    by (simp add: None encode_bond_def decode_bond_def STORED_BOND_LEN_def)
next
  case (Some b)
  let ?irk = "case sb_peer_irk b of Some irk \<Rightarrow> irk | None \<Rightarrow> replicate 16 0"
  have len: "length (sb_peer_address b) = 6" "length (sb_ltk b) = 16" "length ?irk = 16"
    using assms Some by (auto simp: bond_ok_def split: option.splits)
  have enc: "encode_bond bond = 1 # sb_peer_address b @ bool_byte (sb_peer_irk b \<noteq> None) # ?irk @ sb_ltk b @
      bool_byte (sb_is_bonded b) # security_level_byte (sb_security_level b) #
      address_kind_byte (sb_peer_address_kind b) # replicate 5 0"
    by (simp add: Some encode_bond_def)
  have total: "length (encode_bond bond) = STORED_BOND_LEN" by (simp add: enc len STORED_BOND_LEN_def)
  have irk: "(if bool_byte (sb_peer_irk b \<noteq> None) = 0 then None else Some ?irk) = sb_peer_irk b"
    by (cases "sb_peer_irk b") simp_all
  have at: "encode_bond bond ! 7 = bool_byte (sb_peer_irk b \<noteq> None)" "encode_bond bond ! 40 = bool_byte (sb_is_bonded b)"
    "encode_bond bond ! 41 = security_level_byte (sb_security_level b)"
    "encode_bond bond ! 42 = address_kind_byte (sb_peer_address_kind b)"
    "subslice 1 7 (encode_bond bond) = sb_peer_address b" "subslice 8 24 (encode_bond bond) = ?irk"
    "subslice 24 40 (encode_bond bond) = sb_ltk b"
    unfolding enc by (simp_all add: len subslice_def nth_append nth_Cons' drop_Cons')
  have "encode_bond bond \<noteq> [] \<and> encode_bond bond ! 0 = 1" by (simp add: enc)
  then have "decode_bond (encode_bond bond) = Inr bond"
    unfolding decode_bond_def at irk
    by (cases "sb_security_level b"; cases "sb_peer_address_kind b") (simp_all add: Some)
  then show ?thesis using total by simp
qed

interpretation host_codec: fixed_codec STORED_HOST_RECORD_LEN encode_host_record decode_host_record host_ok "\<lambda>h. h"
proof
  fix h
  assume "host_ok h"
  then have name: "length (fn_bytes (sh_name h)) = 32" "unat (fn_len (sh_name h)) \<le> 32"
    and bond: "length (encode_bond (sh_bond h)) = 48" "decode_bond (encode_bond (sh_bond h)) = Inr (sh_bond h)"
    using decode_encode_bond[of "sh_bond h"] by (simp_all add: host_ok_def name_ok_def storage_consts)
  show "length (encode_host_record h) = STORED_HOST_RECORD_LEN"
    by (simp add: encode_host_record_def name bond storage_consts)
  show "decode_host_record (encode_host_record h) = Inr h"
    using name by (simp add: decode_host_record_def encode_host_record_def storage_consts subslice_def bond)
qed

lemma decode_encode_global:
  assumes "global_ok g"
  shows "length (encode_global_settings g) = 12" and "decode_global_settings (encode_global_settings g) = Inr g"
proof -
  show "length (encode_global_settings g) = 12" by (simp add: encode_global_settings_def)
  show "decode_global_settings (encode_global_settings g) = Inr g"
    using assms by (simp add: encode_global_settings_def decode_global_settings_def global_ok_def subslice_def
        nth_append from_le_to_le Let_def not_less)
qed

lemma decode_encode_input_settings:
  assumes "input_settings_ok x"
  shows "length (encode_input_settings x) = 12"
    and "decode_input_settings (encode_input_settings x) = Inr (x\<lparr>is_target_switch_shortcut := shortcut_disabled\<rparr>)"
proof -
  show "length (encode_input_settings x) = 12" by (simp add: encode_input_settings_def)
  show "decode_input_settings (encode_input_settings x) = Inr (x\<lparr>is_target_switch_shortcut := shortcut_disabled\<rparr>)"
    using assms by (simp add: encode_input_settings_def decode_input_settings_def input_settings_ok_def subslice_def
        from_le_to_le Let_def not_less)
qed

interpretation profile_codec: fixed_codec STORED_INPUT_PROFILE_LEN encode_input_profile decode_input_profile
  profile_ok durable_profile
proof
  fix p
  assume "profile_ok p"
  then have i: "input_profile_id_new (ip_id p) = Some (ip_id p)" and s: "input_settings_ok (ip_settings p)"
    by (simp_all add: profile_ok_def)
  note set = decode_encode_input_settings[OF s]
  have sc: "shortcut_from_packed (shortcut_packed (is_target_switch_shortcut (ip_settings p))) =
      Some (is_target_switch_shortcut (ip_settings p))"
    using s by (intro shortcut_roundtrip) (simp add: input_settings_ok_def)
  show "length (encode_input_profile p) = STORED_INPUT_PROFILE_LEN"
    by (simp add: encode_input_profile_def set storage_consts)
  obtain v q h where "ip_identity p = \<lparr>ii_vendor_id = v, ii_product_id = q, ii_instance_hash = h\<rparr>"
    by (cases "ip_identity p")
  then show "decode_input_profile (encode_input_profile p) = Inr (durable_profile p)"
    by (simp add: decode_input_profile_def encode_input_profile_def subslice_def i set sc from_le_to_le durable_profile_def)
qed

lemma slot_ok_try: "slot_ok s \<Longrightarrow> host_slot_try_from s = Inr s \<and> s \<noteq> 0 \<and> 1 \<le> s \<and> s \<le> 4"
  by (auto simp: slot_ok_def host_slot_try_from_def HOST_SLOT_MIN_def HOST_SLOT_MAX_def)

lemma decode_encode_mirror:
  assumes "case t of None \<Rightarrow> True | Some m \<Rightarrow> mirror_ok m"
  shows "length (encode_mirror_target t) = 24 \<and> decode_mirror_target (encode_mirror_target t) = Inr t"
proof (cases t)
  case None
  then show ?thesis by (simp add: encode_mirror_target_def decode_mirror_target_def)
next
  case (Some m)
  then have ok: "mirror_stable_id_new (si_vendor_id m) (si_product_id m) (si_serial_hash m) (si_descriptor_hash m)
        (mirror_port_path m) = Inr m" and len: "unat (si_port_path_len m) \<le> 8"
    using assms by (simp_all add: mirror_ok_def MIRROR_PORT_PATH_MAX_LEN_def)
  have path: "length (si_port_path m) = 8"
  proof -
    have len8: "length (mirror_port_path m) \<le> 8"
      using ok by (simp add: mirror_stable_id_new_def MIRROR_PORT_PATH_MAX_LEN_def split: if_splits)
    have "si_port_path m = mirror_port_path m @ replicate (8 - length (mirror_port_path m)) 0"
      using ok unfolding mirror_stable_id_new_def MIRROR_PORT_PATH_MAX_LEN_def
      by (metis mirror_stable_id.select_convs(6) old.sum.inject(2) sum.distinct(1))
    from arg_cong[OF this, of length] show ?thesis using len8 by simp
  qed
  let ?flag = "1 OR push_bit 1 (bool_byte (si_serial_hash m \<noteq> None)) :: u8"
  have flag: "?flag AND 1 \<noteq> 0" "(?flag AND 2 \<noteq> 0) = (si_serial_hash m \<noteq> None)"
    by (cases "si_serial_hash m"; simp add: bool_byte_def)+
  let ?ser = "case si_serial_hash m of Some h \<Rightarrow> h | None \<Rightarrow> 0"
  have enc: "encode_mirror_target t = ?flag # si_port_path_len m # to_le 2 (si_vendor_id m) @ to_le 2 (si_product_id m) @
      to_le 4 ?ser @ to_le 4 (si_descriptor_hash m) @ si_port_path m @ [0, 0]"
    by (simp add: Some encode_mirror_target_def)
  have at: "encode_mirror_target t ! 0 = ?flag" "encode_mirror_target t ! 1 = si_port_path_len m"
    "subslice 2 4 (encode_mirror_target t) = to_le 2 (si_vendor_id m)"
    "subslice 4 6 (encode_mirror_target t) = to_le 2 (si_product_id m)"
    "subslice 6 10 (encode_mirror_target t) = to_le 4 ?ser"
    "subslice 10 14 (encode_mirror_target t) = to_le 4 (si_descriptor_hash m)"
    "subslice 14 (14 + unat (si_port_path_len m)) (encode_mirror_target t) = mirror_port_path m"
    unfolding enc using len by (simp_all add: subslice_def path mirror_port_path_def)
  have "(if ?flag AND 2 \<noteq> 0 then Some (from_le (to_le 4 ?ser)) else None) = si_serial_hash m"
    by (cases "si_serial_hash m") (simp_all add: bool_byte_def from_le_to_le)
  then have "decode_mirror_target (encode_mirror_target t) = Inr t"
    unfolding decode_mirror_target_def Let_def at using len ok flag
    by (simp add: Some Let_def from_le_to_le MIRROR_PORT_PATH_MAX_LEN_def)
  moreover have "length (encode_mirror_target t) = 24" by (simp add: enc path)
  ultimately show ?thesis by simp
qed

section \<open>The whole image\<close>

definition storage_ok :: "storage_state \<Rightarrow> bool" where
  "storage_ok st =
     (storage_validate st = Inr () \<and> length (st_hosts st) \<le> STORED_HOSTS_MAX \<and>
      list_all host_ok (st_hosts st) \<and> global_ok (st_global_settings st) \<and>
      registry_inv (st_input_profiles st) \<and> list_all profile_ok (pr_profiles (st_input_profiles st)) \<and>
      presentation_ok (st_presentation st))"

text \<open>Restoring a list of profiles into a registry, as the decoder does.\<close>

fun restore_all :: "input_profile list \<Rightarrow> input_profile_registry \<Rightarrow> input_profile_registry option" where
  "restore_all [] r = Some r"
| "restore_all (p # ps) r =
     (case registry_restore r p of (_, Inl _) \<Rightarrow> None | (r', Inr _) \<Rightarrow> restore_all ps r')"

definition sequence_after :: "input_profile list \<Rightarrow> u64 \<Rightarrow> u64" where
  "sequence_after ps n = foldl (\<lambda>n p. max n (ip_last_seen p + 1)) n ps"

lemma restore_all_ok:
  assumes "distinct (map ip_id (pr_profiles r @ ps))" and "distinct (map ip_identity (pr_profiles r @ ps))"
    and "length (pr_profiles r @ ps) \<le> INPUT_PROFILE_CAPACITY"
  shows "restore_all ps r = Some \<lparr>pr_profiles = pr_profiles r @ ps, pr_next_sequence = sequence_after ps (pr_next_sequence r)\<rparr>"
  using assms
proof (induction ps arbitrary: r)
  case Nil
  then show ?case by (simp add: sequence_after_def)
next
  case (Cons p ps)
  let ?r = "r\<lparr>pr_next_sequence := max (pr_next_sequence r) (ip_last_seen p + 1), pr_profiles := pr_profiles r @ [p]\<rparr>"
  have "registry_restore r p = (?r, Inr ())"
    using Cons.prems by (auto simp: registry_restore_def list_ex_eq_image vec_push_def Let_def)
  then show ?case using Cons.IH[of ?r] Cons.prems by (simp add: sequence_after_def)
qed

text \<open>What a stored state is restored to.\<close>

definition durable_state :: "bool \<Rightarrow> storage_state \<Rightarrow> storage_state" where
  "durable_state w st =
     st\<lparr>st_input_profiles :=
          \<lparr>pr_profiles = map durable_profile (pr_profiles (st_input_profiles st)),
           pr_next_sequence = sequence_after (pr_profiles (st_input_profiles st)) 1\<rparr>,
        st_presentation := (if w then st_presentation st else presentation_default)\<rparr>"

lemma durable_profile_fields [simp]:
  "ip_id (durable_profile p) = ip_id p" "ip_identity (durable_profile p) = ip_identity p"
  "ip_last_seen (durable_profile p) = ip_last_seen p" "ip_settings (durable_profile p) = ip_settings p"
  by (simp_all add: durable_profile_def profile_restored_def)

lemma sequence_after_durable: "sequence_after (map durable_profile ps) n = sequence_after ps n"
  by (induction ps arbitrary: n) (simp_all add: sequence_after_def)

lemma decode_profiles_restore:
  assumes "\<And>i. i \<in> set is \<Longrightarrow>
    decode_input_profile (subslice (64 + i * STORED_INPUT_PROFILE_LEN) (64 + i * STORED_INPUT_PROFILE_LEN + STORED_INPUT_PROFILE_LEN) img) =
      Inr (f i)"
  shows "decode_profiles img is r = (case restore_all (map f is) r of None \<Rightarrow> Inl SeInvalidLength | Some r' \<Rightarrow> Inr r')"
  using assms by (induction "is" arbitrary: r) (auto simp: Let_def split: prod.splits sum.splits)

lemma decode_hosts_push:
  assumes "\<And>i. i \<in> set is \<Longrightarrow>
      decode_host_record (subslice (STORAGE_HEADER_LEN + STORAGE_BODY_PREFIX_LEN + i * STORED_HOST_RECORD_LEN)
        (STORAGE_HEADER_LEN + STORAGE_BODY_PREFIX_LEN + i * STORED_HOST_RECORD_LEN + STORED_HOST_RECORD_LEN) img) = Inr (f i)"
    and "length (st_hosts st) + length is \<le> STORED_HOSTS_MAX"
  shows "decode_hosts img is st = Inr (st\<lparr>st_hosts := st_hosts st @ map f is\<rparr>)"
  using assms
proof (induction "is" arbitrary: st)
  case Nil
  then show ?case by simp
next
  case (Cons i "is")
  have "push_host st (f i) = (st\<lparr>st_hosts := st_hosts st @ [f i]\<rparr>, Inr ())"
    using Cons.prems(2) by (simp add: push_host_def vec_push_def)
  then show ?case using Cons by (simp add: Let_def)
qed

lemma validate_hosts_ids:
  assumes "validate_hosts seen hs = Inr ()" and "h \<in> set hs"
  shows "1 \<le> sh_host_id h \<and> sh_host_id h \<le> 4"
  using assms
proof (induction hs arbitrary: seen)
  case Nil
  then show ?case by simp
next
  case (Cons x xs)
  then have "1 \<le> sh_host_id x \<and> unat (sh_host_id x - 1) < 4"
    by (auto simp: checked_sub_def STORED_HOSTS_MAX_def split: if_splits)
  then have "1 \<le> sh_host_id x \<and> sh_host_id x \<le> 4" by (auto simp: unat_sub word_le_nat_alt)
  moreover have "\<exists>seen'. validate_hosts seen' xs = Inr ()"
    using Cons.prems(1) by (auto split: option.splits if_splits)
  ultimately show ?case using Cons.IH Cons.prems(2) by auto
qed

lemma last_active_valid:
  assumes "storage_validate st = Inr ()" and "st_last_active_host st = Some h"
  shows "1 \<le> h \<and> h \<le> 4"
  using assms validate_hosts_ids by (auto simp: storage_validate_def bindE_Inr_iff list_ex_iff split: if_splits)

lemma decode_presentation_bytes:
  assumes "presentation_ok (st_presentation st)" and "length pre = 32"
  shows "length (image_presentation w st) = 32"
    and "decode_presentation w (pre @ image_presentation w st @ post) =
      Inr (if w then st_presentation st else presentation_default)"
proof -
  let ?c = "st_presentation st"
  have mir: "length (encode_mirror_target (sp_mirror_target ?c)) = 24"
    "decode_mirror_target (encode_mirror_target (sp_mirror_target ?c)) = Inr (sp_mirror_target ?c)"
    using decode_encode_mirror[of "sp_mirror_target ?c"] assms(1) by (simp_all add: presentation_ok_def)
  have len: "length (encode_output_target t) = 1" "length (encode_wired_ble_host h) = 1" for t h
    by (simp_all add: encode_output_target_def encode_wired_ble_host_def)
  show "length (image_presentation w st) = 32" by (simp add: image_presentation_def mir len)
  have tgt: "decode_output_target (encode_output_target (sp_output_target ?c) ! 0) = Inr (sp_output_target ?c)"
    using assms(1) slot_ok_try
    by (auto simp: presentation_ok_def encode_output_target_def decode_output_target_def split: stored_output_target.splits)
  have wb: "decode_wired_ble_host (encode_wired_ble_host (sp_wired_ble_host ?c) ! 0) = Inr (sp_wired_ble_host ?c)"
    using assms(1) slot_ok_try
    by (auto simp: presentation_ok_def encode_wired_ble_host_def decode_wired_ble_host_def split: option.splits)
  let ?img = "pre @ image_presentation True st @ post"
  have "?img ! 32 = encode_output_target (sp_output_target ?c) ! 0"
    "?img ! 33 = encode_wired_ble_host (sp_wired_ble_host ?c) ! 0"
    "subslice 40 64 ?img = encode_mirror_target (sp_mirror_target ?c)"
    by (simp_all add: image_presentation_def nth_append assms(2) len mir subslice_def)
  then show "decode_presentation w (pre @ image_presentation w st @ post) =
      Inr (if w then ?c else presentation_default)"
    using tgt wb mir by (simp add: decode_presentation_def)
qed

lemma length_image_header [simp]: "length (image_header st) = 12"
  by (simp add: image_header_def STORAGE_MAGIC_def)

text \<open>The image of a well-formed state, seen from each of its tables.\<close>

lemma storage_validate_cong:
  "st_hosts a = st_hosts b \<Longrightarrow> st_last_active_host a = st_last_active_host b \<Longrightarrow> storage_validate a = storage_validate b"
  unfolding storage_validate_def by (erule ssubst)+ (rule refl)

definition image_with_crc :: "bool \<Rightarrow> storage_state \<Rightarrow> u32 \<Rightarrow> bytes" where
  "image_with_crc w st crc = image_header st @ to_le 4 crc @ image_body w st"

lemma image_sizes:
  assumes state_ok: "storage_ok st"
  shows
  "length (pr_profiles (st_input_profiles st)) \<le> 8" "length (st_hosts st) \<le> 4"
  "length (image_presentation w st) = 32" "length (encode_global_settings (st_global_settings st)) = 12"
  "length (concat (map encode_input_profile (pr_profiles (st_input_profiles st)))) =
     36 * length (pr_profiles (st_input_profiles st))"
  "length (concat (map encode_host_record (st_hosts st))) = 88 * length (st_hosts st)"
  using state_ok profile_codec.length_table[of "pr_profiles (st_input_profiles st)"]
    host_codec.length_table[of "st_hosts st"] decode_presentation_bytes(1)[of st "replicate 32 0" w]
    decode_encode_global(1)[of "st_global_settings st"]
  by (simp_all add: storage_ok_def registry_inv_def storage_consts INPUT_PROFILE_CAPACITY_def)

lemma length_img: "storage_ok st \<Longrightarrow> length (image_with_crc w st crc) = 1024"
  using image_sizes[of st] by (simp add: image_with_crc_def image_body_def storage_consts)

lemma header_fields:
  "subslice 0 4 (image_with_crc w st crc) = STORAGE_MAGIC" "subslice 4 6 (image_with_crc w st crc) = to_le 2 STORAGE_SCHEMA_VERSION"
  "subslice 6 8 (image_with_crc w st crc) = to_le 2 (of_nat (storage_body_len (length (st_hosts st))) :: u16)"
  "subslice 8 12 (image_with_crc w st crc) = to_le 4 (st_generation st)" "subslice 12 16 (image_with_crc w st crc) = to_le 4 crc"
  by (simp_all add: image_with_crc_def image_header_def STORAGE_MAGIC_def subslice_def)

lemma body_fields:
  assumes state_ok: "storage_ok st"
  shows
  "(image_with_crc w st crc) ! 16 = of_nat (length (st_hosts st))"
  "(image_with_crc w st crc) ! 17 = (case st_last_active_host st of None \<Rightarrow> 0xff | Some h \<Rightarrow> h)"
  "subslice 18 30 (image_with_crc w st crc) = encode_global_settings (st_global_settings st)"
  "(image_with_crc w st crc) ! 30 = of_nat (length (pr_profiles (st_input_profiles st)))"
  using image_sizes[OF state_ok] by (simp_all add: image_with_crc_def image_body_def nth_append subslice_def)

lemma presentation_field:
  assumes state_ok: "storage_ok st"
  shows "decode_presentation w (image_with_crc w st crc) = Inr (if w then st_presentation st else presentation_default)"
proof -
  let ?pre = "image_header st @ to_le 4 crc @ [of_nat (length (st_hosts st)),
      case st_last_active_host st of None \<Rightarrow> 0xff | Some h \<Rightarrow> h] @
     encode_global_settings (st_global_settings st) @ [of_nat (length (pr_profiles (st_input_profiles st))), 0]"
  have "length ?pre = 32" by (simp add: image_sizes[OF state_ok])
  from decode_presentation_bytes(2)[OF _ this, of st w] show ?thesis
    using state_ok by (simp add: image_with_crc_def image_body_def storage_ok_def)
qed

lemma profile_field:
  assumes state_ok: "storage_ok st" and idx: "i < length (pr_profiles (st_input_profiles st))"
  shows "decode_input_profile (subslice (64 + i * STORED_INPUT_PROFILE_LEN) (64 + i * STORED_INPUT_PROFILE_LEN + STORED_INPUT_PROFILE_LEN) (image_with_crc w st crc)) =
    Inr (durable_profile (pr_profiles (st_input_profiles st) ! i))"
proof -
  let ?ps = "pr_profiles (st_input_profiles st)"
  let ?pre = "image_header st @ to_le 4 crc @ [of_nat (length (st_hosts st)),
      case st_last_active_host st of None \<Rightarrow> 0xff | Some h \<Rightarrow> h] @
     encode_global_settings (st_global_settings st) @ [of_nat (length ?ps), 0] @ image_presentation w st"
  have pre: "length ?pre = 64" by (simp add: image_sizes[OF state_ok])
  have "list_all profile_ok ?ps" using state_ok by (simp add: storage_ok_def)
  from profile_codec.table_decode[OF this idx pre] show ?thesis
    by (simp add: image_with_crc_def image_body_def)
qed

lemma host_field:
  assumes state_ok: "storage_ok st" and idx: "i < length (st_hosts st)"
  shows "decode_host_record (subslice (STORAGE_HEADER_LEN + STORAGE_BODY_PREFIX_LEN + i * STORED_HOST_RECORD_LEN)
      (STORAGE_HEADER_LEN + STORAGE_BODY_PREFIX_LEN + i * STORED_HOST_RECORD_LEN + STORED_HOST_RECORD_LEN) (image_with_crc w st crc)) =
    Inr (st_hosts st ! i)"
proof -
  let ?ps = "pr_profiles (st_input_profiles st)"
  let ?pre = "image_header st @ to_le 4 crc @ [of_nat (length (st_hosts st)),
      case st_last_active_host st of None \<Rightarrow> 0xff | Some h \<Rightarrow> h] @
     encode_global_settings (st_global_settings st) @ [of_nat (length ?ps), 0] @ image_presentation w st @
     concat (map encode_input_profile ?ps) @ replicate (304 - STORED_INPUT_PROFILE_LEN * length ?ps) 0"
  have pre: "length ?pre = STORAGE_HEADER_LEN + STORAGE_BODY_PREFIX_LEN" using image_sizes[OF state_ok] by (simp add: storage_consts)
  have "list_all host_ok (st_hosts st)" using state_ok by (simp add: storage_ok_def)
  from host_codec.table_decode[OF this idx pre] show ?thesis
    by (simp add: image_with_crc_def image_body_def)
qed

lemma decode_body_img:
  assumes state_ok: "storage_ok st"
  shows "decode_body w (image_with_crc w st crc) = Inr (durable_state w st)"
proof -
  let ?ps = "pr_profiles (st_input_profiles st)"
  have counts: "unat (of_nat (length ?ps) :: u8) = length ?ps" "unat (of_nat (length (st_hosts st)) :: u8) = length (st_hosts st)"
    using image_sizes(1,2)[OF state_ok] by (simp_all add: unat_of_nat)
  have act: "(if (image_with_crc w st crc) ! 17 = 0xff then None else Some ((image_with_crc w st crc) ! 17)) = st_last_active_host st"
  proof (cases "st_last_active_host st")
    case None
    then show ?thesis by (simp add: body_fields[OF state_ok])
  next
    case (Some h)
    then have "h \<le> 4" using state_ok last_active_valid by (auto simp: storage_ok_def)
    then have "h \<noteq> 0xff" by (auto simp: word_le_nat_alt)
    then show ?thesis using Some by (simp add: body_fields[OF state_ok])
  qed
  have gl: "decode_global_settings (subslice 18 30 (image_with_crc w st crc)) = Inr (st_global_settings st)"
    using state_ok decode_encode_global(2) by (simp add: body_fields[OF state_ok] storage_ok_def)
  have gen: "from_le (subslice 8 12 (image_with_crc w st crc)) = st_generation st" by (simp add: header_fields from_le_to_le)
  have "restore_all (map durable_profile ?ps) registry_new =
      Some \<lparr>pr_profiles = map durable_profile ?ps, pr_next_sequence = sequence_after ?ps 1\<rparr>"
    using state_ok by (subst restore_all_ok)
      (simp_all add: registry_new_def sequence_after_durable storage_ok_def registry_inv_def comp_def)
  moreover have "map (\<lambda>i. durable_profile (?ps ! i)) [0..<length ?ps] = map durable_profile ?ps"
    using map_nth[of ?ps] by (metis map_map[of durable_profile "\<lambda>i. ?ps ! i", unfolded comp_def])
  ultimately have prof: "decode_profiles (image_with_crc w st crc) [0..<length ?ps] registry_new =
      Inr \<lparr>pr_profiles = map durable_profile ?ps, pr_next_sequence = sequence_after ?ps 1\<rparr>"
    using decode_profiles_restore[of "[0..<length ?ps]" "image_with_crc w st crc" "\<lambda>i. durable_profile (?ps ! i)" registry_new] profile_field[OF state_ok]
    by simp
  have hosts: "decode_hosts (image_with_crc w st crc) [0..<length (st_hosts st)] x = Inr (x\<lparr>st_hosts := st_hosts st\<rparr>)" if "st_hosts x = []" for x
    using decode_hosts_push[of "[0..<length (st_hosts st)]" "image_with_crc w st crc" "\<lambda>i. st_hosts st ! i" x] host_field[OF state_ok] that image_sizes(2)[OF state_ok]
    by (simp add: map_nth storage_consts)
  have "storage_validate (durable_state w st) = storage_validate st"
    by (rule storage_validate_cong) (simp_all add: durable_state_def)
  then have "storage_validate (durable_state w st) = Inr ()"
    using state_ok by (simp add: storage_ok_def)
  moreover have "durable_state w st =
      \<lparr>st_generation = st_generation st, st_last_active_host = st_last_active_host st,
       st_global_settings = st_global_settings st,
       st_input_profiles = \<lparr>pr_profiles = map durable_profile ?ps, pr_next_sequence = sequence_after ?ps 1\<rparr>,
       st_presentation = (if w then st_presentation st else presentation_default), st_hosts = st_hosts st\<rparr>"
    by (simp add: durable_state_def)
  ultimately show ?thesis
    using image_sizes(1)[OF state_ok]
    by (simp add: decode_body_def Let_def act gl gen body_fields(1,4)[OF state_ok] counts presentation_field[OF state_ok]
        prof hosts storage_state_new_def INPUT_PROFILE_CAPACITY_def cong: if_weak_cong)
qed

lemma body_len_unat:
  assumes "n \<le> 4"
  shows "unat (of_nat (storage_body_len n) :: u16) = storage_body_len n"
proof -
  have "storage_body_len n < 2 ^ 16" using assms by (simp add: storage_body_len_def storage_consts)
  then have "take_bit 16 (storage_body_len n) = storage_body_len n" by (rule take_bit_nat_eq_self)
  then show ?thesis by (subst unsigned_of_nat) simp
qed

lemma decode_img:
  assumes state_ok: "storage_ok st"
    and crc: "crc = crc32_without_header_crc (take (STORAGE_HEADER_LEN + storage_body_len (length (st_hosts st))) (image_with_crc w st crc))"
  shows "decode_storage_image w (image_with_crc w st crc) = Inr (durable_state w st)"
proof -
  note sizes = image_sizes(2)[OF state_ok]
  have "body_len_is_valid (storage_body_len (length (st_hosts st)))"
    using sizes by (simp add: body_len_is_valid_def storage_body_len_def storage_consts)
  moreover have "unat (image_with_crc w st crc ! 16) = length (st_hosts st)"
    using sizes by (simp add: body_fields[OF state_ok] unat_of_nat)
  ultimately show ?thesis
    using crc sizes decode_body_img[OF state_ok]
    by (simp add: decode_storage_image_def length_img[OF state_ok] header_fields from_le_to_le body_len_unat[OF sizes] storage_consts Let_def)
qed

lemma crc_of_image:
  assumes "length c = 4"
  shows "crc32_without_header_crc (take (STORAGE_HEADER_LEN + n) (image_header st @ c @ image_body w st)) =
    crc32_ieee (image_header st @ take n (image_body w st))"
proof -
  have len: "length (image_header st) = 12" by (simp add: image_header_def STORAGE_MAGIC_def)
  then have "take (STORAGE_HEADER_LEN + n) (image_header st @ c @ image_body w st) =
      image_header st @ c @ take n (image_body w st)"
    using assms by (simp add: storage_consts)
  then show ?thesis using crc32_without_header_crc_split[OF len assms] by simp
qed

lemma encode_then_decode:
  assumes "storage_ok st"
  obtains img where "encode_storage_image w st = Inr img" "length img = STORAGE_IMAGE_LEN"
    "decode_storage_image w img = Inr (durable_state w st)"
proof -
  let ?n = "storage_body_len (length (st_hosts st))"
  let ?crc = "crc32_ieee (image_header st @ take ?n (image_body w st))"
  have "encode_storage_image w st = Inr (image_with_crc w st ?crc)"
    using assms crc_of_image[of "[0, 0, 0, 0]" ?n st w]
    by (simp add: encode_storage_image_def storage_ok_def Let_def image_with_crc_def)
  moreover have "?crc = crc32_without_header_crc (take (STORAGE_HEADER_LEN + ?n) (image_with_crc w st ?crc))"
    unfolding image_with_crc_def by (subst crc_of_image) simp_all
  ultimately show thesis
    using that[of "image_with_crc w st ?crc"] decode_img[OF assms] length_img[OF assms] by (simp add: storage_consts)
qed

lemma encode_rejects_invalid: "storage_validate st = Inl e \<Longrightarrow> encode_storage_image w st = Inl e"
  by (simp add: encode_storage_image_def)

section \<open>Corrupted images\<close>

lemma from_le_inject:
  assumes "length xs = length ys" and "8 * length xs \<le> LENGTH('a)"
  shows "(from_le xs :: 'a::len word) = from_le ys \<longleftrightarrow> xs = ys"
  using assms to_le_from_le[of xs, where 'a = 'a] to_le_from_le[of ys, where 'a = 'a] by metis

lemma from_le_subslice_changed:
  assumes "a \<le> i" "i < b" "b \<le> length img" "c \<noteq> img ! i" "8 * (b - a) \<le> LENGTH('a)"
  shows "(from_le (subslice a b (img[i := c])) :: 'a::len word) \<noteq> from_le (subslice a b img)"
  using assms subslice_update_inside[OF assms(1-4)] by (simp add: from_le_inject length_subslice)

lemma crc32_without_header_crc_image:
  assumes "16 \<le> length xs"
  shows "crc32_without_header_crc xs = crc32_ieee (take 12 xs @ drop 16 xs)"
proof -
  have "xs = take 12 xs @ subslice 12 16 xs @ drop 16 xs"
    using append_take_drop_id[of 12 xs] append_take_drop_id[of 4 "drop 12 xs"] by (simp add: subslice_def)
  moreover have "length (subslice 12 16 xs) = 4" using assms by (simp add: length_subslice)
  ultimately show ?thesis
    using crc32_without_header_crc_split[of "take 12 xs" "subslice 12 16 xs" "drop 16 xs"] assms by simp
qed

lemma crc_field_update:
  assumes "16 \<le> length xs" and "12 \<le> i" and "i < 16"
  shows "crc32_without_header_crc (xs[i := c]) = crc32_without_header_crc xs"
  using assms by (simp add: crc32_without_header_crc_image)

lemma crc_data_update:
  assumes len: "16 \<le> length xs" and i: "i < length xs" "i < 12 \<or> 16 \<le> i" and c: "c \<noteq> xs ! i"
  shows "crc32_without_header_crc (xs[i := c]) \<noteq> crc32_without_header_crc xs"
proof -
  let ?j = "if i < 12 then i else i - 4"
  let ?ys = "take 12 xs @ drop 16 xs"
  have upd: "take 12 (xs[i := c]) @ drop 16 (xs[i := c]) = ?ys[?j := c]"
    using len i by (auto simp: list_update_append take_update_swap drop_update_swap list_update_beyond)
  have "?j < length ?ys" and "c \<noteq> ?ys ! ?j" using len i c by (auto simp: nth_append)
  then have "crc32_update s (?ys[?j := c]) \<noteq> crc32_update s ?ys" for s
    by (rule crc32_update_single_byte)
  then show ?thesis using len by (simp add: crc32_without_header_crc_image upd crc32_ieee_def)
qed

lemma decode_success:
  assumes "decode_storage_image w img = Inr st"
  shows "STORAGE_IMAGE_LEN \<le> length img" "subslice 0 4 img = STORAGE_MAGIC"
    "(from_le (subslice 4 6 img) :: u16) = STORAGE_SCHEMA_VERSION"
    "body_len_is_valid (unat (from_le (subslice 6 8 img) :: u16))"
    "(from_le (subslice 12 16 img) :: u32) =
       crc32_without_header_crc (take (STORAGE_HEADER_LEN + unat (from_le (subslice 6 8 img) :: u16)) img)"
    "storage_body_len (unat (img ! 16)) = unat (from_le (subslice 6 8 img) :: u16)"
  using assms unfolding decode_storage_image_def Let_def by (simp_all split: if_splits)

lemma decode_failure:
  assumes "subslice 0 4 img \<noteq> STORAGE_MAGIC \<or> (from_le (subslice 4 6 img) :: u16) \<noteq> STORAGE_SCHEMA_VERSION \<or>
    (from_le (subslice 12 16 img) :: u32) \<noteq>
       crc32_without_header_crc (take (STORAGE_HEADER_LEN + unat (from_le (subslice 6 8 img) :: u16)) img) \<or>
    storage_body_len (unat (img ! 16)) \<noteq> unat (from_le (subslice 6 8 img) :: u16)"
  shows "\<exists>e. decode_storage_image w img = Inl e"
proof (cases "decode_storage_image w img")
  case (Inr st)
  from decode_success[OF this] assms show ?thesis by auto
qed simp

text \<open>
  C7: An image written for a well-formed state has the flash slot's size and is read back to
  the same state: the hosts with their names, notification flags and bonds, the settings, the
  input profiles and (in the wired build) the output presentation. Only the volatile part of the
  profiles (their connection and scaling remainders) starts afresh.
\<close>

theorem storage_roundtrip:
  assumes "storage_ok st"
  shows "\<exists>img. encode_storage_image w st = Inr img \<and> length img = STORAGE_IMAGE_LEN \<and>
    decode_storage_image w img = Inr (durable_state w st)"
  using encode_then_decode[OF assms, of w] by blast

definition sample_storage :: storage_state where
  "sample_storage =
     (storage_state_new 7)
       \<lparr>st_last_active_host := Some 2,
        st_presentation := presentation_default\<lparr>sp_output_target := StoredBle 2\<rparr>,
        st_input_profiles := \<lparr>pr_profiles = [profile_restored 1 \<lparr>ii_vendor_id = 0x046d, ii_product_id = 0xc52b,
                                                   ii_instance_hash = 99\<rparr> 5 input_settings_default],
                              pr_next_sequence = 6\<rparr>,
        st_hosts := [\<lparr>sh_host_id = 2, sh_bonded = True, sh_keyboard_cccd_enabled = True, sh_mouse_cccd_enabled = True,
                      sh_consumer_cccd_enabled = False, sh_keyboard_output_cccd_enabled = False,
                      sh_name = fixed_name_empty,
                      sh_bond = Some \<lparr>sb_peer_address = [1, 2, 3, 4, 5, 6], sb_peer_address_kind = AddrRandom,
                                      sb_peer_irk = None, sb_ltk = replicate 16 9, sb_is_bonded = True,
                                      sb_security_level = Encrypted\<rparr>\<rparr>]\<rparr>"

lemma sample_storage_ok: "storage_ok sample_storage"
  by (simp add: storage_ok_def sample_storage_def storage_state_new_def storage_validate_def storage_consts
      HOST_SLOT_COUNT_eq checked_sub_def host_ok_def name_ok_def bond_ok_def fixed_name_empty_def global_ok_def
      global_settings_default_def registry_inv_def profile_ok_def profile_restored_def input_profile_id_new_def
      input_settings_ok_def input_settings_default_def presentation_ok_def presentation_default_def slot_ok_def
      shortcut_ok_def shortcut_disabled_def INPUT_PROFILE_CAPACITY_def)

theorem storage_roundtrip_witness:
  "\<exists>img. encode_storage_image True sample_storage = Inr img \<and> length img = STORAGE_IMAGE_LEN \<and>
    decode_storage_image True img = Inr (durable_state True sample_storage)"
  by (rule storage_roundtrip[OF sample_storage_ok])

text \<open>
  C8: No single corrupted byte goes unnoticed: when an image decodes, changing any one byte of
  its header or body makes the decoder report an error instead of restoring a different state.
\<close>

theorem storage_corruption_detected:
  assumes "decode_storage_image w img = Inr st"
    and "i < STORAGE_HEADER_LEN + unat (from_le (subslice 6 8 img) :: u16)" and "b \<noteq> img ! i"
  shows "\<exists>e. decode_storage_image w (img[i := b]) = Inl e"
proof (rule decode_failure)
  note ok = decode_success[OF assms(1)]
  let ?n = "unat (from_le (subslice 6 8 img) :: u16)" and ?img = "img[i := b]"
  let ?n' = "unat (from_le (subslice 6 8 ?img) :: u16)"
  let ?xs = "take (STORAGE_HEADER_LEN + ?n) img"
  have len: "16 + ?n \<le> length img" "1024 \<le> length img"
    using ok(1,4) by (simp_all add: body_len_is_valid_def storage_consts)
  have keep: "take (STORAGE_HEADER_LEN + ?n) ?img = ?xs[i := b]" by (simp add: take_update_swap)
  have xs: "16 \<le> length ?xs" "i < length ?xs" "b \<noteq> ?xs ! i"
    using assms(2,3) len by (simp_all add: storage_consts)
  consider "i < 4" | "4 \<le> i" "i < 6" | "6 \<le> i" "i < 8" | "12 \<le> i" "i < 16" | "8 \<le> i" "i < 12" | "16 \<le> i" by linarith
  then show "subslice 0 4 ?img \<noteq> STORAGE_MAGIC \<or> (from_le (subslice 4 6 ?img) :: u16) \<noteq> STORAGE_SCHEMA_VERSION \<or>
    (from_le (subslice 12 16 ?img) :: u32) \<noteq> crc32_without_header_crc (take (STORAGE_HEADER_LEN + ?n') ?img) \<or>
    storage_body_len (unat (?img ! 16)) \<noteq> ?n'"
  proof cases
    case 1
    then show ?thesis using subslice_update_inside[of 0 i 4 img b] len assms(3) ok(2) by simp
  next
    case 2
    then show ?thesis using from_le_subslice_changed[of 4 i 6 img b, where 'a = 16] len assms(3) ok(3) by simp
  next
    case 3
    then have "?n' \<noteq> ?n" using from_le_subslice_changed[of 6 i 8 img b, where 'a = 16] len assms(3)
      by (simp add: word_unat_eq_iff)
    then show ?thesis using 3 ok(6) by simp
  next
    case 4
    then show ?thesis using from_le_subslice_changed[of 12 i 16 img b, where 'a = 32] len assms(3) ok(5)
        crc_field_update[OF xs(1) 4] keep by (simp add: subslice_update_other)
  next
    case 5
    then show ?thesis using ok(5) crc_data_update[OF xs(1,2) _ xs(3)] keep by (simp add: subslice_update_other)
  next
    case 6
    then show ?thesis using ok(5) crc_data_update[OF xs(1,2) _ xs(3)] keep by (simp add: subslice_update_other)
  qed
qed

theorem storage_corruption_detected_witness:
  "\<exists>img. encode_storage_image True sample_storage = Inr img \<and>
     (\<exists>e. decode_storage_image True (img[20 := img ! 20 + 1]) = Inl e)"
proof -
  obtain img where img: "encode_storage_image True sample_storage = Inr img"
    "decode_storage_image True img = Inr (durable_state True sample_storage)"
    using encode_then_decode[OF sample_storage_ok] by blast
  have "20 < STORAGE_HEADER_LEN + unat (from_le (subslice 6 8 img) :: u16)"
    using decode_success(4)[OF img(2)] by (simp add: body_len_is_valid_def storage_consts)
  from storage_corruption_detected[OF img(2) this, of "img ! 20 + 1"] img(1) show ?thesis by auto
qed

end
