(* ===== verification/HS_StoragePersist.thy ===== *)
theory HS_StoragePersist
  imports HS_StorageCodec HS_Runs
begin

text \<open>
  Persistence of the stored state (the second half of \<open>src/storage.rs\<close> and the storage
  back ends of \<open>firmware/src/platform/flash_backend.rs\<close>): the debounced writer with its
  retries, the choice of the newest of two slots, the write-verify protocol and the journal of
  records in NOR flash. The flash driver is an argument, a record of its operations over an
  abstract device state.
\<close>

section \<open>The two slots\<close>

datatype storage_slot_index = SlotA | SlotB

fun slot_other :: "storage_slot_index \<Rightarrow> storage_slot_index" where
  "slot_other SlotA = SlotB"
| "slot_other SlotB = SlotA"

record storage_slot =
  ss_index :: storage_slot_index
  ss_image :: bytes
  ss_state :: storage_state

definition generation_is_newer_or_equal :: "u32 \<Rightarrow> u32 \<Rightarrow> bool" where
  "generation_is_newer_or_equal l r = (l - r < 0x80000000)"

definition ok_state :: "storage_error + storage_state \<Rightarrow> storage_state option" where
  "ok_state r = (case r of Inl _ \<Rightarrow> None | Inr st \<Rightarrow> Some st)"

definition select_newest_valid_storage_image :: "bool \<Rightarrow> bytes \<Rightarrow> bytes \<Rightarrow> storage_slot option" where
  "select_newest_valid_storage_image w slot_a slot_b =
     (case (ok_state (decode_storage_image w slot_a), ok_state (decode_storage_image w slot_b)) of
        (Some a, Some b) \<Rightarrow>
          if generation_is_newer_or_equal (st_generation a) (st_generation b)
          then Some \<lparr>ss_index = SlotA, ss_image = slot_a, ss_state = a\<rparr>
          else Some \<lparr>ss_index = SlotB, ss_image = slot_b, ss_state = b\<rparr>
      | (Some a, None) \<Rightarrow> Some \<lparr>ss_index = SlotA, ss_image = slot_a, ss_state = a\<rparr>
      | (None, Some b) \<Rightarrow> Some \<lparr>ss_index = SlotB, ss_image = slot_b, ss_state = b\<rparr>
      | (None, None) \<Rightarrow> None)"

text \<open>
  The trait \<open>StorageSlotBackend\<close> is given by its two methods, \<open>slot\<close> and \<open>write_slot\<close>.
\<close>

type_synonym 'b slot_reader = "'b \<Rightarrow> storage_slot_index \<Rightarrow> bytes"
type_synonym 'b slot_writer = "'b \<Rightarrow> storage_slot_index \<Rightarrow> bytes \<Rightarrow> ('b, storage_error, unit) outcome"

record storage_write_result =
  wr_index :: storage_slot_index
  wr_state :: storage_state
  wr_image :: bytes

definition restore_latest_storage_state :: "bool \<Rightarrow> 'b slot_reader \<Rightarrow> 'b \<Rightarrow> storage_state option" where
  "restore_latest_storage_state w slot b =
     map_option ss_state (select_newest_valid_storage_image w (slot b SlotA) (slot b SlotB))"

definition persist_target :: "bool \<Rightarrow> 'b slot_reader \<Rightarrow> 'b \<Rightarrow> storage_slot_index" where
  "persist_target w slot b =
     (case select_newest_valid_storage_image w (slot b SlotA) (slot b SlotB) of
        Some s \<Rightarrow> slot_other (ss_index s) | None \<Rightarrow> SlotA)"

definition persist_storage_state ::
    "bool \<Rightarrow> 'b slot_reader \<Rightarrow> 'b slot_writer \<Rightarrow> 'b \<Rightarrow> storage_state \<Rightarrow> ('b, storage_error, storage_write_result) outcome" where
  "persist_storage_state w slot write_slot b st =
     (case storage_validate st of
        Inl e \<Rightarrow> (b, Inl e)
      | Inr _ \<Rightarrow>
          (let target = persist_target w slot b in
           case encode_storage_image w st of
             Inl e \<Rightarrow> (b, Inl e)
           | Inr img \<Rightarrow>
               (case write_slot b target img of
                  (b', Inl e) \<Rightarrow> (b', Inl e)
                | (b', Inr _) \<Rightarrow>
                    let verified = slot b' target in
                    if verified \<noteq> img \<or> ok_state (decode_storage_image w verified) = None then (b', Inl SeFlashVerify)
                    else (b', Inr \<lparr>wr_index = target, wr_state = st, wr_image = img\<rparr>))))"

section \<open>The debounced writer\<close>

definition STORAGE_RETRY_BASE_MS :: u64 where "STORAGE_RETRY_BASE_MS = 1000"
definition STORAGE_RETRY_MAX_MS :: u64 where "STORAGE_RETRY_MAX_MS = 60000"
definition STORAGE_RETRY_FAILURE_LIMIT :: u8 where "STORAGE_RETRY_FAILURE_LIMIT = 6"

datatype storage_health = Initializing | Persistent | VolatileTest | HealthUnavailable | Degraded

fun allows_persistent_mutation :: "storage_health \<Rightarrow> bool" where
  "allows_persistent_mutation Persistent = True"
| "allows_persistent_mutation VolatileTest = True"
| "allows_persistent_mutation _ = False"

definition storage_health_from_byte :: "u8 \<Rightarrow> storage_health option" where
  "storage_health_from_byte b =
     (if b = 0 then Some Initializing else if b = 1 then Some Persistent else if b = 2 then Some VolatileTest
      else if b = 3 then Some HealthUnavailable else if b = 4 then Some Degraded else None)"

datatype persist_priority = PrioLazy | PrioNormal | PrioCritical

fun priority_rank :: "persist_priority \<Rightarrow> nat" where
  "priority_rank PrioLazy = 0"
| "priority_rank PrioNormal = 1"
| "priority_rank PrioCritical = 2"

instantiation persist_priority :: linorder
begin

definition less_eq_persist_priority :: "persist_priority \<Rightarrow> persist_priority \<Rightarrow> bool" where
  "less_eq_persist_priority a b = (priority_rank a \<le> priority_rank b)"

definition less_persist_priority :: "persist_priority \<Rightarrow> persist_priority \<Rightarrow> bool" where
  "less_persist_priority a b = (priority_rank a < priority_rank b)"

instance
proof
  fix a b c :: persist_priority
  show "(a < b) = (a \<le> b \<and> \<not> b \<le> a)" by (auto simp: less_eq_persist_priority_def less_persist_priority_def)
  show "a \<le> a" by (simp add: less_eq_persist_priority_def)
  show "a \<le> b \<Longrightarrow> b \<le> c \<Longrightarrow> a \<le> c" by (simp add: less_eq_persist_priority_def)
  show "a \<le> b \<Longrightarrow> b \<le> a \<Longrightarrow> a = b" by (cases a; cases b) (simp_all add: less_eq_persist_priority_def)
  show "a \<le> b \<or> b \<le> a" by (auto simp: less_eq_persist_priority_def)
qed

end

record storage_persistence =
  sq_normal_delay_ms :: u64
  sq_lazy_delay_ms :: u64
  sq_pending_state :: "storage_state option"
  sq_pending_priority :: "persist_priority option"
  sq_deadline_ms :: "u64 option"
  sq_consecutive_failures :: u8
  sq_retry_suspended :: bool

definition persistence_new :: "u64 \<Rightarrow> u64 \<Rightarrow> storage_persistence" where
  "persistence_new normal lazy =
     \<lparr>sq_normal_delay_ms = normal, sq_lazy_delay_ms = lazy, sq_pending_state = None, sq_pending_priority = None,
      sq_deadline_ms = None, sq_consecutive_failures = 0, sq_retry_suspended = False\<rparr>"

fun delay_for :: "storage_persistence \<Rightarrow> persist_priority \<Rightarrow> u64" where
  "delay_for q PrioCritical = 0"
| "delay_for q PrioNormal = sq_normal_delay_ms q"
| "delay_for q PrioLazy = sq_lazy_delay_ms q"

definition stage :: "storage_persistence \<Rightarrow> storage_state \<Rightarrow> persist_priority \<Rightarrow> u64 \<Rightarrow> storage_persistence" where
  "stage q st priority now =
     (let is_new = (case sq_pending_state q of None \<Rightarrow> True | Some p \<Rightarrow> st_generation p \<noteq> st_generation st);
          q1 = (if is_new then q\<lparr>sq_consecutive_failures := 0, sq_retry_suspended := False\<rparr> else q);
          merged = (case sq_pending_priority q1 of None \<Rightarrow> priority | Some c \<Rightarrow> max c priority);
          new_deadline = sat_add now (delay_for q1 merged)
      in q1\<lparr>sq_pending_state := Some st, sq_pending_priority := Some merged,
            sq_deadline_ms := Some (case sq_deadline_ms q1 of
               Some current \<Rightarrow> if merged \<noteq> priority then min current new_deadline else new_deadline
             | None \<Rightarrow> new_deadline)\<rparr>)"

definition stage_quiesce_snapshot :: "storage_persistence \<Rightarrow> storage_state \<Rightarrow> u64 \<Rightarrow> storage_persistence" where
  "stage_quiesce_snapshot q st now =
     (if (case sq_pending_state q of None \<Rightarrow> False | Some p \<Rightarrow> st_generation p = st_generation st)
      then q\<lparr>sq_pending_state := Some st\<rparr> else stage q st PrioCritical now)"

definition is_pending :: "storage_persistence \<Rightarrow> bool" where
  "is_pending q = (sq_pending_state q \<noteq> None)"

definition remaining_ms :: "storage_persistence \<Rightarrow> u64 \<Rightarrow> u64 option" where
  "remaining_ms q now = map_option (\<lambda>d. sat_sub d now) (sq_deadline_ms q)"

definition overdue_ms :: "storage_persistence \<Rightarrow> u64 \<Rightarrow> u64 option" where
  "overdue_ms q now = map_option (\<lambda>d. sat_sub now d) (sq_deadline_ms q)"

definition effective_health :: "storage_persistence \<Rightarrow> storage_health \<Rightarrow> storage_health" where
  "effective_health q backend =
     (if backend = Persistent \<and> sq_consecutive_failures q > 0 then Degraded else backend)"

text \<open>\<open>checked_shl\<close> fails for shifts of the width or more; \<open>saturating_mul\<close> clips at the top.\<close>

definition retry_delay :: "u8 \<Rightarrow> u64" where
  "retry_delay failures =
     (let shift = unat (sat_sub failures 1);
          factor = (if shift < 64 then push_bit shift (1 :: u64) else - 1);
          product = (if unat STORAGE_RETRY_BASE_MS * unat factor < 2 ^ 64 then STORAGE_RETRY_BASE_MS * factor else - 1)
      in min product STORAGE_RETRY_MAX_MS)"

definition record_failure :: "storage_persistence \<Rightarrow> u64 \<Rightarrow> storage_persistence" where
  "record_failure q now =
     (let q1 = q\<lparr>sq_consecutive_failures := sat_add (sq_consecutive_failures q) 1\<rparr> in
      if sq_consecutive_failures q1 \<ge> STORAGE_RETRY_FAILURE_LIMIT
      then q1\<lparr>sq_retry_suspended := True, sq_deadline_ms := None\<rparr>
      else q1\<lparr>sq_deadline_ms := Some (sat_add now (retry_delay (sq_consecutive_failures q1)))\<rparr>)"

definition clear_pending :: "storage_persistence \<Rightarrow> storage_persistence" where
  "clear_pending q =
     q\<lparr>sq_deadline_ms := None, sq_pending_priority := None, sq_pending_state := None,
       sq_consecutive_failures := 0, sq_retry_suspended := False\<rparr>"

definition persist_due ::
    "bool \<Rightarrow> 'b slot_reader \<Rightarrow> 'b slot_writer \<Rightarrow> storage_persistence \<Rightarrow> 'b \<Rightarrow> u64 \<Rightarrow>
      (storage_persistence \<times> 'b, storage_error, storage_write_result option) outcome" where
  "persist_due w slot write_slot q b now =
     (case sq_deadline_ms q of
        None \<Rightarrow> ((q, b), Inr None)
      | Some deadline \<Rightarrow>
          if now < deadline then ((q, b), Inr None)
          else (case sq_pending_state q of
                  None \<Rightarrow> ((q, b), Inr None)
                | Some st \<Rightarrow>
                    (case persist_storage_state w slot write_slot b st of
                       (b', Inr result) \<Rightarrow> ((clear_pending q, b'), Inr (Some result))
                     | (b', Inl e) \<Rightarrow> ((record_failure q now, b'), Inl e))))"

definition flush ::
    "bool \<Rightarrow> 'b slot_reader \<Rightarrow> 'b slot_writer \<Rightarrow> storage_persistence \<Rightarrow> 'b \<Rightarrow>
      (storage_persistence \<times> 'b, storage_error, storage_write_result option) outcome" where
  "flush w slot write_slot q b =
     (case sq_pending_state q of
        None \<Rightarrow> ((q, b), Inr None)
      | Some st \<Rightarrow>
          (case persist_storage_state w slot write_slot b st of
             (b', Inl e) \<Rightarrow> ((q, b'), Inl e)
           | (b', Inr result) \<Rightarrow> ((clear_pending q, b'), Inr (Some result))))"

record storage_task_policy =
  tp_active_ble_retry_ms :: u64
  tp_critical_force_quiesce_ms :: u64

datatype storage_task_action =
  AwaitCommand | WaitForDeadline u64 | DeferForActiveBle u64 | QuiesceAndPersist bool

definition policy_evaluate :: "storage_task_policy \<Rightarrow> storage_persistence \<Rightarrow> u64 \<Rightarrow> nat \<Rightarrow> storage_task_action" where
  "policy_evaluate p q now active =
     (if \<not> is_pending q then AwaitCommand
      else if sq_retry_suspended q then AwaitCommand
      else
        (case remaining_ms q now of
           Some delay \<Rightarrow>
             if delay > 0 then WaitForDeadline delay
             else if active = 0 then QuiesceAndPersist False
             else if sq_pending_priority q = Some PrioCritical \<and>
                     (case overdue_ms q now of None \<Rightarrow> 0 | Some o' \<Rightarrow> o') \<ge> tp_critical_force_quiesce_ms p
             then QuiesceAndPersist True
             else DeferForActiveBle (tp_active_ble_retry_ms p)
         | None \<Rightarrow>
             if active = 0 then QuiesceAndPersist False
             else if sq_pending_priority q = Some PrioCritical \<and>
                     (case overdue_ms q now of None \<Rightarrow> 0 | Some o' \<Rightarrow> o') \<ge> tp_critical_force_quiesce_ms p
             then QuiesceAndPersist True
             else DeferForActiveBle (tp_active_ble_retry_ms p)))"

datatype completion_action = ReleaseQuiesce | ReportStorageHealth storage_health | ReportFlashWrite bool

record quiesced_completion =
  qc_next_health :: "storage_health option"
  qc_write_succeeded :: bool
  qc_phase :: u8

definition completion_new :: "storage_health option \<Rightarrow> bool \<Rightarrow> quiesced_completion" where
  "completion_new health ok = \<lparr>qc_next_health = health, qc_write_succeeded = ok, qc_phase = 0\<rparr>"

definition completion_step_action :: "quiesced_completion \<Rightarrow> completion_action option" where
  "completion_step_action c =
     (if qc_phase c = 0 then Some ReleaseQuiesce
      else if qc_phase c = 1 then
        (case qc_next_health c of
           Some h \<Rightarrow> Some (ReportStorageHealth h)
         | None \<Rightarrow> Some (ReportFlashWrite (qc_write_succeeded c)))
      else if qc_phase c = 2 \<and> qc_next_health c \<noteq> None then Some (ReportFlashWrite (qc_write_succeeded c))
      else None)"

definition completion_next :: "quiesced_completion \<Rightarrow> quiesced_completion \<times> completion_action option" where
  "completion_next c =
     (case completion_step_action c of
        None \<Rightarrow> (c, None)
      | Some action \<Rightarrow>
          (let phase = sat_add (qc_phase c) 1 in
           (c\<lparr>qc_phase := (if phase = 2 \<and> qc_next_health c = None then 3 else phase)\<rparr>, Some action)))"

section \<open>The NOR flash journal\<close>

definition STORAGE_FLASH_SLOT_SIZE :: nat where "STORAGE_FLASH_SLOT_SIZE = 4096"
definition STORAGE_FLASH_SLOT_COUNT :: nat where "STORAGE_FLASH_SLOT_COUNT = 2"

text \<open>
  The flash driver (the trait \<open>NorFlash\<close> of the crate \<open>embedded_storage\<close>): its three sizes,
  its capacity and its operations on a device of type \<open>'f\<close>. Reading returns the bytes or fails;
  writing and erasing return whether they succeeded.
\<close>

record 'f nor_flash =
  nf_read_size :: nat
  nf_write_size :: nat
  nf_erase_size :: nat
  nf_capacity :: "'f \<Rightarrow> nat"
  nf_read :: "'f \<Rightarrow> u32 \<Rightarrow> nat \<Rightarrow> 'f \<times> bytes option"
  nf_write :: "'f \<Rightarrow> u32 \<Rightarrow> bytes \<Rightarrow> 'f \<times> bool"
  nf_erase :: "'f \<Rightarrow> u32 \<Rightarrow> u32 \<Rightarrow> 'f \<times> bool"

record storage_flash_layout =
  fl_base_offset :: u32
  fl_slot_size :: u32

definition layout_new :: "u32 \<Rightarrow> storage_flash_layout" where
  "layout_new base = \<lparr>fl_base_offset = base, fl_slot_size = of_nat STORAGE_FLASH_SLOT_SIZE\<rparr>"

definition layout_len :: "storage_flash_layout \<Rightarrow> u32" where
  "layout_len l = fl_slot_size l * of_nat STORAGE_FLASH_SLOT_COUNT"

definition records_per_slot :: "storage_flash_layout \<Rightarrow> u32" where
  "records_per_slot l = fl_slot_size l div of_nat STORAGE_IMAGE_LEN"

definition slot_offset :: "storage_flash_layout \<Rightarrow> storage_slot_index \<Rightarrow> u32" where
  "slot_offset l i = fl_base_offset l + (case i of SlotA \<Rightarrow> 0 | SlotB \<Rightarrow> fl_slot_size l)"

definition record_offset :: "storage_flash_layout \<Rightarrow> storage_slot_index \<Rightarrow> u32 \<Rightarrow> u32" where
  "record_offset l i record_index = slot_offset l i + record_index * of_nat STORAGE_IMAGE_LEN"

definition is_aligned :: "nat \<Rightarrow> nat \<Rightarrow> bool" where
  "is_aligned v align = (align \<noteq> 0 \<and> v mod align = 0)"

definition validate_for_flash :: "'f nor_flash \<Rightarrow> storage_flash_layout \<Rightarrow> 'f \<Rightarrow> storage_error + unit" where
  "validate_for_flash d l f =
     (let capacity = (of_nat (nf_capacity d f) :: u32) in
      if fl_slot_size l < of_nat STORAGE_IMAGE_LEN
         \<or> unat (fl_base_offset l) + unat (layout_len l) \<ge> 2 ^ 32
         \<or> fl_base_offset l + layout_len l > capacity
         \<or> \<not> is_aligned (unat (fl_base_offset l)) (nf_erase_size d)
         \<or> \<not> is_aligned (unat (fl_slot_size l)) (nf_erase_size d)
         \<or> fl_slot_size l mod of_nat STORAGE_IMAGE_LEN \<noteq> 0
         \<or> \<not> is_aligned (unat (fl_base_offset l)) (nf_write_size d)
         \<or> \<not> is_aligned STORAGE_IMAGE_LEN (nf_write_size d)
         \<or> \<not> is_aligned (unat (fl_base_offset l)) (nf_read_size d)
         \<or> \<not> is_aligned STORAGE_IMAGE_LEN (nf_read_size d)
      then Inl SeFlashLayout else Inr ())"

definition image_is_erased :: "bytes \<Rightarrow> bool" where
  "image_is_erased img = list_all (\<lambda>b. b = 0xff) img"

text \<open>
  The scan of a slot at start-up. The arguments are the record indices still to be visited, the
  latest valid image found and the index of the next free record.
\<close>

fun scan_records ::
    "bool \<Rightarrow> 'f nor_flash \<Rightarrow> storage_flash_layout \<Rightarrow> storage_slot_index \<Rightarrow> nat list \<Rightarrow> 'f \<Rightarrow> bytes \<Rightarrow> u32 \<Rightarrow>
      ('f, storage_error, bytes \<times> u32) outcome" where
  "scan_records w d l i [] f latest nxt = (f, Inr (latest, nxt))"
| "scan_records w d l i (k # ks) f latest nxt =
     (case nf_read d f (record_offset l i (of_nat k)) STORAGE_IMAGE_LEN of
        (f', None) \<Rightarrow> (f', Inl SeFlashRead)
      | (f', Some img) \<Rightarrow>
          if image_is_erased img then (f', Inr (latest, of_nat k))
          else if ok_state (decode_storage_image w img) \<noteq> None
          then scan_records w d l i ks f' img (of_nat k + 1)
          else (f', Inr (latest, records_per_slot l)))"

definition scan_flash_slot ::
    "bool \<Rightarrow> 'f nor_flash \<Rightarrow> storage_flash_layout \<Rightarrow> storage_slot_index \<Rightarrow> 'f \<Rightarrow> bytes \<Rightarrow>
      ('f, storage_error, bytes \<times> u32) outcome" where
  "scan_flash_slot w d l i f latest = scan_records w d l i [0..<unat (records_per_slot l)] f latest 0"

record 'f nor_backend =
  nb_flash :: 'f
  nb_layout :: storage_flash_layout
  nb_slots :: "bytes list"
  nb_next_record :: "u32 list"

definition erased_image :: bytes where
  "erased_image = replicate STORAGE_IMAGE_LEN 0xff"

fun storage_slot_number :: "storage_slot_index \<Rightarrow> nat" where
  "storage_slot_number SlotA = 0"
| "storage_slot_number SlotB = 1"

definition nor_backend_new ::
    "bool \<Rightarrow> 'f nor_flash \<Rightarrow> 'f \<Rightarrow> storage_flash_layout \<Rightarrow> storage_error + 'f nor_backend" where
  "nor_backend_new w d f l =
     bindE (validate_for_flash d l f) (\<lambda>_.
       case scan_flash_slot w d l SlotA f erased_image of
         (f1, Inl e) \<Rightarrow> Inl e
       | (f1, Inr (a, next_a)) \<Rightarrow>
           (case scan_flash_slot w d l SlotB f1 erased_image of
              (f2, Inl e) \<Rightarrow> Inl e
            | (f2, Inr (b, next_b)) \<Rightarrow>
                Inr \<lparr>nb_flash = f2, nb_layout = l, nb_slots = [a, b], nb_next_record = [next_a, next_b]\<rparr>))"

definition nor_erase_all :: "'f nor_flash \<Rightarrow> 'f nor_backend \<Rightarrow> ('f nor_backend, storage_error, unit) outcome" where
  "nor_erase_all d b =
     (case nf_erase d (nb_flash b) (fl_base_offset (nb_layout b)) (fl_base_offset (nb_layout b) + layout_len (nb_layout b)) of
        (f', False) \<Rightarrow> (b\<lparr>nb_flash := f'\<rparr>, Inl SeFlashErase)
      | (f', True) \<Rightarrow> (b\<lparr>nb_flash := f', nb_slots := [erased_image, erased_image], nb_next_record := [0, 0]\<rparr>, Inr ()))"

definition nor_slot :: "'f nor_backend slot_reader" where
  "nor_slot b i = nb_slots b ! storage_slot_number i"

text \<open>Writing and verifying one record, after the sector has been erased if it was full.\<close>

definition nor_write_record ::
    "bool \<Rightarrow> 'f nor_flash \<Rightarrow> 'f nor_backend \<Rightarrow> storage_slot_index \<Rightarrow> u32 \<Rightarrow> bytes \<Rightarrow>
      ('f nor_backend, storage_error, unit) outcome" where
  "nor_write_record w d b i record_index img =
     (let n = storage_slot_number i;
          offset = slot_offset (nb_layout b) i + record_index * of_nat STORAGE_IMAGE_LEN;
          advance = (\<lambda>f. b\<lparr>nb_flash := f, nb_next_record := (nb_next_record b)[n := record_index + 1]\<rparr>)
      in case nf_write d (nb_flash b) offset img of
           (f1, False) \<Rightarrow> (advance f1, Inl SeFlashWrite)
         | (f1, True) \<Rightarrow>
             (case nf_read d f1 offset STORAGE_IMAGE_LEN of
                (f2, None) \<Rightarrow> (advance f2, Inl SeFlashRead)
              | (f2, Some verified) \<Rightarrow>
                  if verified \<noteq> img \<or> ok_state (decode_storage_image w verified) = None
                  then (advance f2, Inl SeFlashVerify)
                  else ((advance f2)\<lparr>nb_slots := (nb_slots b)[n := img]\<rparr>, Inr ())))"

definition nor_write_slot :: "bool \<Rightarrow> 'f nor_flash \<Rightarrow> 'f nor_backend slot_writer" where
  "nor_write_slot w d b i img =
     (let record_index = nb_next_record b ! storage_slot_number i;
          offset = slot_offset (nb_layout b) i
      in if record_index \<ge> records_per_slot (nb_layout b) then
           (case nf_erase d (nb_flash b) offset (offset + fl_slot_size (nb_layout b)) of
              (f', False) \<Rightarrow> (b\<lparr>nb_flash := f'\<rparr>, Inl SeFlashErase)
            | (f', True) \<Rightarrow> nor_write_record w d (b\<lparr>nb_flash := f'\<rparr>) i 0 img)
         else nor_write_record w d b i record_index img)"

section \<open>The firmware's back ends\<close>

type_synonym in_memory_backend = "bytes list"

definition in_memory_new :: in_memory_backend where
  "in_memory_new = [replicate STORAGE_IMAGE_LEN 0, replicate STORAGE_IMAGE_LEN 0]"

definition in_memory_slot :: "in_memory_backend slot_reader" where
  "in_memory_slot b i = b ! (case i of SlotA \<Rightarrow> 0 | SlotB \<Rightarrow> 1)"

definition in_memory_write_slot :: "in_memory_backend slot_writer" where
  "in_memory_write_slot b i img = (b[(case i of SlotA \<Rightarrow> 0 | SlotB \<Rightarrow> 1) := img], Inr ())"

datatype 'f firmware_backend =
  FwFlash "'f nor_backend" | FwVolatile in_memory_backend | FwUnavailable in_memory_backend

fun firmware_health :: "'f firmware_backend \<Rightarrow> storage_health" where
  "firmware_health (FwFlash _) = Persistent"
| "firmware_health (FwVolatile _) = VolatileTest"
| "firmware_health (FwUnavailable _) = HealthUnavailable"

fun firmware_factory_reset :: "'f nor_flash \<Rightarrow> 'f firmware_backend \<Rightarrow> ('f firmware_backend, storage_error, unit) outcome" where
  "firmware_factory_reset d (FwFlash b) = (case nor_erase_all d b of (b', r) \<Rightarrow> (FwFlash b', r))"
| "firmware_factory_reset d (FwVolatile b) = (FwVolatile in_memory_new, Inr ())"
| "firmware_factory_reset d (FwUnavailable b) = (FwUnavailable b, Inl SeUnavailable)"

fun firmware_slot :: "'f firmware_backend slot_reader" where
  "firmware_slot (FwFlash b) i = nor_slot b i"
| "firmware_slot (FwVolatile b) i = in_memory_slot b i"
| "firmware_slot (FwUnavailable b) i = in_memory_slot b i"

fun firmware_write_slot :: "bool \<Rightarrow> 'f nor_flash \<Rightarrow> 'f firmware_backend slot_writer" where
  "firmware_write_slot w d (FwFlash b) i img = (case nor_write_slot w d b i img of (b', r) \<Rightarrow> (FwFlash b', r))"
| "firmware_write_slot w d (FwVolatile b) i img = (case in_memory_write_slot b i img of (b', r) \<Rightarrow> (FwVolatile b', r))"
| "firmware_write_slot w d (FwUnavailable b) i img = (FwUnavailable b, Inl SeUnavailable)"

section \<open>The contract of a slot back end\<close>

lemma ok_state_simps [simp]: "ok_state (Inl e) = None" "ok_state (Inr st) = Some st"
  by (simp_all add: ok_state_def)

lemma slot_other_involutive [simp]: "slot_other (slot_other i) = i" "slot_other i \<noteq> i" "i \<noteq> slot_other i"
  by (cases i; simp)+

definition strictly_newer :: "u32 \<Rightarrow> u32 \<Rightarrow> bool" where
  "strictly_newer new old = (generation_is_newer_or_equal new old \<and> new \<noteq> old)"

lemma strictly_newer_asym: "strictly_newer new old \<Longrightarrow> \<not> generation_is_newer_or_equal old new"
  unfolding strictly_newer_def generation_is_newer_or_equal_def
  by (auto simp: word_less_nat_alt unat_sub_if_size word_size word_unat_eq_iff split: if_splits)

lemma window_strictly_newer:
  assumes "new - g < 0x80000000" and "old - g < new - (g :: u32)"
  shows "strictly_newer new old"
proof -
  have "new - old = (new - g) - (old - g)" by simp
  moreover have "(new - g) - (old - g) \<le> new - g" by (rule word_sub_le[OF less_imp_le[OF assms(2)]])
  moreover have "new \<noteq> old" using assms(2) by auto
  ultimately show ?thesis using assms(1) unfolding strictly_newer_def generation_is_newer_or_equal_def by (metis le_less_trans)
qed

lemma durable_generation [simp]: "st_generation (durable_state w st) = st_generation st"
  by (simp add: durable_state_def)

text \<open>
  What a back end promises: an accepted write stores the image, a write never touches the
  other slot, and a rejected write leaves the slot as it was.
\<close>

locale slot_backend =
  fixes inv :: "'b \<Rightarrow> bool" and slot :: "'b slot_reader" and write_slot :: "'b slot_writer" and w :: bool
  assumes write_inv: "inv b \<Longrightarrow> inv (fst (write_slot b i img))"
    and write_ok: "inv b \<Longrightarrow> write_slot b i img = (b', Inr ()) \<Longrightarrow> slot b' i = img"
    and write_other: "write_slot b i img = (b', r) \<Longrightarrow> slot b' (slot_other i) = slot b (slot_other i)"
    and write_fail: "write_slot b i img = (b', Inl e) \<Longrightarrow> slot b' i = slot b i"
begin

lemma persist_inv: "inv b \<Longrightarrow> inv (fst (persist_storage_state w slot write_slot b st))"
proof -
  assume inv: "inv b"
  show ?thesis
  proof (cases "encode_storage_image w st")
    case (Inr img)
    have "inv (fst (write_slot b (persist_target w slot b) img))" by (rule write_inv[OF inv])
    then show ?thesis using inv Inr
      by (cases "write_slot b (persist_target w slot b) img"; cases "storage_validate st")
        (auto simp: persist_storage_state_def Let_def split: sum.splits)
  qed (use inv in \<open>simp add: persist_storage_state_def Let_def split: sum.splits\<close>)
qed

lemma rejected_write_same_slots:
  assumes "write_slot b i img = (b', Inl e)"
  shows "slot b' j = slot b j"
  using write_other[OF assms] write_fail[OF assms] by (cases i; cases j) simp_all

lemma persist_storage_ok:
  assumes "inv b" and "storage_ok st"
  obtains (failed) b' e where "persist_storage_state w slot write_slot b st = (b', Inl e)" "\<And>j. slot b' j = slot b j"
  | (stored) b' img where
      "persist_storage_state w slot write_slot b st =
         (b', Inr \<lparr>wr_index = persist_target w slot b, wr_state = st, wr_image = img\<rparr>)"
      "slot b' (persist_target w slot b) = img"
      "slot b' (slot_other (persist_target w slot b)) = slot b (slot_other (persist_target w slot b))"
      "encode_storage_image w st = Inr img" "decode_storage_image w img = Inr (durable_state w st)"
proof -
  let ?t = "persist_target w slot b"
  obtain img where img: "encode_storage_image w st = Inr img" "decode_storage_image w img = Inr (durable_state w st)"
    using encode_then_decode[OF assms(2)] by metis
  have val: "storage_validate st = Inr ()" using assms(2) by (simp add: storage_ok_def)
  obtain b' r where wr: "write_slot b ?t img = (b', r)" by fastforce
  show thesis
  proof (cases r)
    case (Inl e)
    then have "persist_storage_state w slot write_slot b st = (b', Inl e)"
      using img wr val by (simp add: persist_storage_state_def Let_def)
    then show thesis using failed rejected_write_same_slots wr Inl by blast
  next
    case (Inr u)
    then have sl: "slot b' ?t = img" using write_ok[OF assms(1)] wr by simp
    then have "persist_storage_state w slot write_slot b st = (b', Inr \<lparr>wr_index = ?t, wr_state = st, wr_image = img\<rparr>)"
      using img wr val Inr by (simp add: persist_storage_state_def Let_def)
    then show thesis using stored sl write_other[OF wr] img by blast
  qed
qed

text \<open>An accepted write of a newer state is what is restored next.\<close>

lemma stored_is_restored:
  assumes "slot b' (persist_target w slot b) = img"
    and "slot b' (slot_other (persist_target w slot b)) = slot b (slot_other (persist_target w slot b))"
    and dec: "decode_storage_image w img = Inr (durable_state w st)"
    and newer: "\<And>old. restore_latest_storage_state w slot b = Some old \<Longrightarrow>
      old = durable_state w st \<or> strictly_newer (st_generation st) (st_generation old)"
  shows "restore_latest_storage_state w slot b' = Some (durable_state w st)"
proof (cases "select_newest_valid_storage_image w (slot b SlotA) (slot b SlotB)")
  case None
  then have "ok_state (decode_storage_image w (slot b SlotB)) = None"
    by (auto simp: select_newest_valid_storage_image_def split: option.splits if_splits)
  then show ?thesis using None assms(1-3)
    by (simp add: restore_latest_storage_state_def persist_target_def select_newest_valid_storage_image_def)
next
  case (Some s)
  then have old: "ok_state (decode_storage_image w (slot b (ss_index s))) = Some (ss_state s)"
    by (auto simp: select_newest_valid_storage_image_def split: option.splits if_splits)
  have tgt: "persist_target w slot b = slot_other (ss_index s)" by (simp add: persist_target_def Some)
  note slots = assms(1,2)[unfolded tgt slot_other_involutive]
  have "ss_state s = durable_state w st \<or> strictly_newer (st_generation st) (st_generation (ss_state s))"
    by (rule newer) (simp add: restore_latest_storage_state_def Some)
  then consider "ss_state s = durable_state w st"
    | "generation_is_newer_or_equal (st_generation st) (st_generation (ss_state s))"
      "\<not> generation_is_newer_or_equal (st_generation (ss_state s)) (st_generation st)"
    using strictly_newer_asym by (auto simp: strictly_newer_def)
  then show ?thesis using slots dec old
    by cases (cases "ss_index s"; simp add: restore_latest_storage_state_def select_newest_valid_storage_image_def)+
qed

end

section \<open>The writer over a back end\<close>

datatype persist_op =
  PoStage storage_state persist_priority u64 | PoQuiesce storage_state u64 | PoDue u64 | PoFlush

fun persist_step :: "bool \<Rightarrow> 'b slot_reader \<Rightarrow> 'b slot_writer \<Rightarrow> persist_op \<Rightarrow> storage_persistence \<times> 'b \<Rightarrow> storage_persistence \<times> 'b" where
  "persist_step w slot write_slot (PoStage st priority now) (q, b) = (stage q st priority now, b)"
| "persist_step w slot write_slot (PoQuiesce st now) (q, b) = (stage_quiesce_snapshot q st now, b)"
| "persist_step w slot write_slot (PoDue now) (q, b) = fst (persist_due w slot write_slot q b now)"
| "persist_step w slot write_slot PoFlush (q, b) = fst (flush w slot write_slot q b)"

fun staged_by :: "persist_op \<Rightarrow> storage_state list" where
  "staged_by (PoStage st _ _) = [st]"
| "staged_by (PoQuiesce st _) = [st]"
| "staged_by _ = []"

definition staged :: "persist_op list \<Rightarrow> storage_state list" where
  "staged ops = concat (map staged_by ops)"

text \<open>
  A snapshot may be staged when it is well formed and the state the back end would restore at
  that moment is older, by the code's own comparison of wrapping generations, or is the same
  snapshot. A snapshot that still waits for its write may be replaced by any other one, in
  particular by one of the same generation with another content.
\<close>

definition fresh :: "bool \<Rightarrow> storage_state option \<Rightarrow> storage_state \<Rightarrow> bool" where
  "fresh w r st =
     (storage_ok st \<and>
      (case r of None \<Rightarrow> True
       | Some old \<Rightarrow> old = durable_state w st \<or> strictly_newer (st_generation st) (st_generation old)))"

fun staged_fresh :: "bool \<Rightarrow> 'b slot_reader \<Rightarrow> 'b slot_writer \<Rightarrow> persist_op list \<Rightarrow> storage_persistence \<times> 'b \<Rightarrow> bool" where
  "staged_fresh w slot write_slot [] s = True"
| "staged_fresh w slot write_slot (x # xs) s =
     (list_all (fresh w (restore_latest_storage_state w slot (snd s))) (staged_by x) \<and>
      staged_fresh w slot write_slot xs (persist_step w slot write_slot x s))"

text \<open>
  A simpler sufficient condition on the list of snapshots alone: each generation (counted from
  some base, so that it may wrap) is above the previous one unless the snapshot is a repetition.
\<close>

definition snapshots_ok :: "u32 \<Rightarrow> storage_state list \<Rightarrow> bool" where
  "snapshots_ok g sts =
     (list_all (\<lambda>st. storage_ok st \<and> st_generation st - g < 0x80000000) sts \<and>
      sorted_wrt (\<lambda>a b. a = b \<or> st_generation a - g < st_generation b - g) sts)"

definition older_than :: "bool \<Rightarrow> u32 \<Rightarrow> storage_state option \<Rightarrow> storage_state \<Rightarrow> bool" where
  "older_than w g r st =
     (case r of None \<Rightarrow> True
      | Some old \<Rightarrow> old = durable_state w st \<or> st_generation old - g < st_generation st - g)"

lemma older_than_fresh:
  "older_than w g r st \<Longrightarrow> storage_ok st \<Longrightarrow> st_generation st - g < 0x80000000 \<Longrightarrow> fresh w r st"
  using window_strictly_newer[of "st_generation st" g]
  by (auto simp: older_than_def fresh_def split: option.splits)

lemma stage_pending [simp]: "sq_pending_state (stage q st p now) = Some st"
  by (simp add: stage_def Let_def)

lemma stage_quiesce_pending [simp]: "sq_pending_state (stage_quiesce_snapshot q st now) = Some st"
  by (simp add: stage_quiesce_snapshot_def)

lemma clear_pending_pending [simp]: "sq_pending_state (clear_pending q) = None"
  by (simp add: clear_pending_def)

lemma record_failure_pending [simp]: "sq_pending_state (record_failure q now) = sq_pending_state q"
  by (simp add: record_failure_def Let_def)

lemma snapshots_ok_snoc:
  "snapshots_ok g (sts @ [st]) \<longleftrightarrow> snapshots_ok g sts \<and> storage_ok st \<and> st_generation st - g < 0x80000000 \<and>
     (\<forall>a\<in>set sts. a = st \<or> st_generation a - g < st_generation st - g)"
  by (auto simp: snapshots_ok_def sorted_wrt_append)

context slot_backend
begin

definition tracked :: "storage_state option \<Rightarrow> storage_state list \<Rightarrow> storage_persistence \<times> 'b \<Rightarrow> bool" where
  "tracked r0 sts s =
     (inv (snd s) \<and>
      (let r = restore_latest_storage_state w slot (snd s) in
       (r = r0 \<or> (\<exists>a\<in>set sts. r = Some (durable_state w a))) \<and>
       (if sts = [] then sq_pending_state (fst s) = None
        else sq_pending_state (fst s) = Some (last sts) \<and> fresh w r (last sts) \<or>
             sq_pending_state (fst s) = None \<and> r = Some (durable_state w (last sts)))))"

lemma tracked_stage:
  assumes "tracked r0 sts (q, b)" and "fresh w (restore_latest_storage_state w slot b) st"
    and "sq_pending_state q' = Some st"
  shows "tracked r0 (sts @ [st]) (q', b)"
  using assms by (auto simp: tracked_def Let_def)

lemma persist_tracked:
  assumes tr: "tracked r0 sts (q, b)" and pend: "sq_pending_state q = Some st"
    and res: "persist_storage_state w slot write_slot b st = (b', r)" and that: "sq_pending_state q' = Some st"
  shows "tracked r0 sts (case r of Inl _ \<Rightarrow> q' | Inr _ \<Rightarrow> clear_pending q, b')"
proof -
  have st: "sts \<noteq> []" "last sts = st" and inv: "inv b" and fr: "fresh w (restore_latest_storage_state w slot b) st"
    using tr pend by (auto simp: tracked_def Let_def split: if_splits)
  have mem: "st \<in> set sts" using st last_in_set by blast
  have ok: "storage_ok st" using fr by (simp add: fresh_def)
  have inv': "inv b'" using persist_inv[OF inv, of st] res by simp
  show ?thesis
  proof (cases rule: persist_storage_ok[OF inv ok, case_names failed stored])
    case (failed b'' e)
    then have "restore_latest_storage_state w slot b' = restore_latest_storage_state w slot b"
      using res by (simp add: restore_latest_storage_state_def)
    then show ?thesis using failed res tr st that inv' fr by (simp add: tracked_def Let_def)
  next
    case (stored b'' img)
    have "restore_latest_storage_state w slot b'' = Some (durable_state w st)"
      by (rule stored_is_restored[OF stored(2,3,5)]) (use fr in \<open>auto simp: fresh_def\<close>)
    then show ?thesis using stored(1) res st mem inv' by (auto simp: tracked_def Let_def)
  qed
qed

lemma step_tracked:
  assumes "tracked r0 sts s" and "list_all (fresh w (restore_latest_storage_state w slot (snd s))) (staged_by x)"
  shows "tracked r0 (sts @ staged_by x) (persist_step w slot write_slot x s)"
proof -
  obtain q b where s: "s = (q, b)" by fastforce
  show ?thesis
  proof (cases x)
    case (PoStage st p now)
    then show ?thesis using assms s tracked_stage[of r0 sts q b st] by simp
  next
    case (PoQuiesce st now)
    then show ?thesis using assms s tracked_stage[of r0 sts q b st] by simp
  next
    case (PoDue now)
    show ?thesis
    proof (cases "(\<exists>d. sq_deadline_ms q = Some d \<and> \<not> now < d) \<and> sq_pending_state q \<noteq> None")
      case True
      then obtain d st where due: "sq_deadline_ms q = Some d" "\<not> now < d" "sq_pending_state q = Some st" by auto
      obtain b' r where res: "persist_storage_state w slot write_slot b st = (b', r)" by fastforce
      show ?thesis
        using persist_tracked[OF assms(1)[unfolded s] due(3) res, of "record_failure q now"] s due res PoDue
        by (cases r) (simp_all add: persist_due_def)
    next
      case False
      then have "fst (persist_due w slot write_slot q b now) = (q, b)"
        by (auto simp: persist_due_def split: option.splits)
      then show ?thesis using assms s PoDue by simp
    qed
  next
    case PoFlush
    show ?thesis
    proof (cases "sq_pending_state q")
      case (Some st)
      obtain b' r where res: "persist_storage_state w slot write_slot b st = (b', r)" by fastforce
      show ?thesis
        using persist_tracked[OF assms(1)[unfolded s] Some res, of q] s Some res PoFlush
        by (cases r) (simp_all add: flush_def)
    qed (use assms s PoFlush in \<open>simp add: flush_def\<close>)
  qed
qed

lemma run_tracked:
  "tracked r0 sts s \<Longrightarrow> staged_fresh w slot write_slot ops s \<Longrightarrow>
     tracked r0 (sts @ staged ops) (run (persist_step w slot write_slot) ops s)"
proof (induction ops arbitrary: sts s)
  case (Cons x xs)
  then have "tracked r0 (sts @ staged_by x) (persist_step w slot write_slot x s)" using step_tracked by simp
  from Cons.IH[OF this] Cons.prems(2) show ?case by (simp add: staged_def)
qed (simp add: staged_def)

lemma newest_snapshot_kept:
  assumes "inv b" and "staged_fresh w slot write_slot ops (persistence_new normal lazy, b)" and "staged ops \<noteq> []"
  shows "case run (persist_step w slot write_slot) ops (persistence_new normal lazy, b) of (q, b') \<Rightarrow>
    sq_pending_state q = Some (last (staged ops)) \<or>
    sq_pending_state q = None \<and> restore_latest_storage_state w slot b' = Some (durable_state w (last (staged ops)))"
proof -
  have "tracked (restore_latest_storage_state w slot b) [] (persistence_new normal lazy, b)"
    using assms(1) by (simp add: tracked_def persistence_new_def)
  from run_tracked[OF this assms(2)] show ?thesis using assms(3)
    by (auto simp: tracked_def Let_def case_prod_beta)
qed

text \<open>Snapshots of rising generations may always be staged.\<close>

lemma rising_fresh:
  assumes "tracked r0 sts s" and "snapshots_ok g (sts @ [st])" and "older_than w g r0 st"
  shows "fresh w (restore_latest_storage_state w slot (snd s)) st"
proof -
  have ok: "storage_ok st" "st_generation st - g < 0x80000000" "\<And>a. a \<in> set sts \<Longrightarrow> a = st \<or> st_generation a - g < st_generation st - g"
    using assms(2) by (auto simp: snapshots_ok_snoc)
  have "older_than w g (restore_latest_storage_state w slot (snd s)) st"
    using assms(1,3) by (auto simp: tracked_def Let_def older_than_def dest: ok(3))
  then show ?thesis using older_than_fresh ok by blast
qed

lemma rising_staged_fresh:
  "tracked r0 sts s \<Longrightarrow> snapshots_ok g (sts @ staged ops) \<Longrightarrow> \<forall>st\<in>set (staged ops). older_than w g r0 st \<Longrightarrow>
     staged_fresh w slot write_slot ops s"
proof (induction ops arbitrary: sts s)
  case (Cons x xs)
  have st: "staged (x # xs) = staged_by x @ staged xs" by (simp add: staged_def)
  have now: "list_all (fresh w (restore_latest_storage_state w slot (snd s))) (staged_by x)"
  proof (cases "staged_by x")
    case (Cons a l)
    then have "staged_by x = [a]" by (cases x) auto
    moreover have "snapshots_ok g (sts @ [a])" using Cons.prems(2) calculation
      by (auto simp: st snapshots_ok_def sorted_wrt_append)
    ultimately show ?thesis using rising_fresh[OF Cons.prems(1), of g a] Cons.prems(3) by (simp add: st)
  qed simp
  then have "tracked r0 (sts @ staged_by x) (persist_step w slot write_slot x s)" using step_tracked Cons.prems(1) by blast
  from Cons.IH[OF this] Cons.prems(2,3) now show ?case by (simp add: st)
qed simp

lemma last_snapshot_kept:
  assumes "inv b" and "snapshots_ok g (staged ops)" and "staged ops \<noteq> []"
    and "\<forall>st\<in>set (staged ops). older_than w g (restore_latest_storage_state w slot b) st"
  shows "case run (persist_step w slot write_slot) ops (persistence_new normal lazy, b) of (q, b') \<Rightarrow>
    sq_pending_state q = Some (last (staged ops)) \<or>
    sq_pending_state q = None \<and> restore_latest_storage_state w slot b' = Some (durable_state w (last (staged ops)))"
proof -
  have "tracked (restore_latest_storage_state w slot b) [] (persistence_new normal lazy, b)"
    using assms(1) by (simp add: tracked_def persistence_new_def)
  from rising_staged_fresh[OF this, of g ops] show ?thesis using newest_snapshot_kept[OF assms(1) _ assms(3)] assms(2,4) by simp
qed

end

section \<open>The back ends keep the contract\<close>

definition nor_inv :: "'f nor_backend \<Rightarrow> bool" where
  "nor_inv b = (length (nb_slots b) = 2 \<and> length (nb_next_record b) = 2)"

lemma slot_number_other [simp]:
  "storage_slot_number i < 2" "storage_slot_number (slot_other i) \<noteq> storage_slot_number i"
  "storage_slot_number i \<noteq> storage_slot_number (slot_other i)"
  by (cases i; simp)+

lemma slot_number_Suc [simp]: "storage_slot_number i < Suc (Suc 0)"
  by (cases i) simp_all

lemma nor_write_record_cases:
  obtains (rejected) f e where "nor_write_record w d b i k img =
      (b\<lparr>nb_flash := f, nb_next_record := (nb_next_record b)[storage_slot_number i := k + 1]\<rparr>, Inl e)"
  | (accepted) f where "nor_write_record w d b i k img =
      (b\<lparr>nb_flash := f, nb_next_record := (nb_next_record b)[storage_slot_number i := k + 1],
        nb_slots := (nb_slots b)[storage_slot_number i := img]\<rparr>, Inr ())"
proof -
  let ?o = "slot_offset (nb_layout b) i + k * of_nat STORAGE_IMAGE_LEN"
  obtain f1 ok where wr: "nf_write d (nb_flash b) ?o img = (f1, ok)" by fastforce
  obtain f2 v where rd: "nf_read d f1 ?o STORAGE_IMAGE_LEN = (f2, v)" by fastforce
  have "(\<exists>f e. nor_write_record w d b i k img =
      (b\<lparr>nb_flash := f, nb_next_record := (nb_next_record b)[storage_slot_number i := k + 1]\<rparr>, Inl e)) \<or>
    (\<exists>f. nor_write_record w d b i k img =
      (b\<lparr>nb_flash := f, nb_next_record := (nb_next_record b)[storage_slot_number i := k + 1],
        nb_slots := (nb_slots b)[storage_slot_number i := img]\<rparr>, Inr ()))"
    using wr rd by (cases ok; cases v) (auto simp: nor_write_record_def Let_def)
  then show thesis using rejected accepted by blast
qed

lemma nor_write_slot_cases:
  obtains (erase_failed) f where "nor_write_slot w d b i img = (b\<lparr>nb_flash := f\<rparr>, Inl SeFlashErase)"
  | (rejected) f k e where "nor_write_slot w d b i img =
      (b\<lparr>nb_flash := f, nb_next_record := (nb_next_record b)[storage_slot_number i := k + 1]\<rparr>, Inl e)"
  | (accepted) f k where "nor_write_slot w d b i img =
      (b\<lparr>nb_flash := f, nb_next_record := (nb_next_record b)[storage_slot_number i := k + 1],
        nb_slots := (nb_slots b)[storage_slot_number i := img]\<rparr>, Inr ())"
proof (cases "records_per_slot (nb_layout b) \<le> nb_next_record b ! storage_slot_number i")
  case True
  obtain f ok where er: "nf_erase d (nb_flash b) (slot_offset (nb_layout b) i)
      (slot_offset (nb_layout b) i + fl_slot_size (nb_layout b)) = (f, ok)" by fastforce
  show thesis
  proof (cases ok)
    case True
    then have eq: "nor_write_slot w d b i img = nor_write_record w d (b\<lparr>nb_flash := f\<rparr>) i 0 img"
      using \<open>records_per_slot _ \<le> _\<close> er by (simp add: nor_write_slot_def Let_def)
    show thesis
      by (rule nor_write_record_cases[of w d "b\<lparr>nb_flash := f\<rparr>" i 0 img])
        (simp_all add: eq rejected[where k = 0, simplified] accepted[where k = 0, simplified])
  next
    case False
    then show thesis using \<open>records_per_slot _ \<le> _\<close> er erase_failed by (simp add: nor_write_slot_def Let_def)
  qed
next
  case False
  then have eq: "nor_write_slot w d b i img = nor_write_record w d b i (nb_next_record b ! storage_slot_number i) img"
    by (simp add: nor_write_slot_def Let_def)
  show thesis
    by (rule nor_write_record_cases[of w d b i "nb_next_record b ! storage_slot_number i" img])
      (simp_all add: eq rejected accepted)
qed

interpretation nor: slot_backend nor_inv nor_slot "nor_write_slot w d" w for w d
proof
  fix b :: "'a nor_backend" and i img b' r e
  show "nor_inv b \<Longrightarrow> nor_inv (fst (nor_write_slot w d b i img))"
    by (rule nor_write_slot_cases[of w d b i img]) (simp_all add: nor_inv_def)
  show "nor_inv b \<Longrightarrow> nor_write_slot w d b i img = (b', Inr ()) \<Longrightarrow> nor_slot b' i = img"
    by (rule nor_write_slot_cases[of w d b i img]) (auto simp: nor_inv_def nor_slot_def)
  show "nor_write_slot w d b i img = (b', r) \<Longrightarrow> nor_slot b' (slot_other i) = nor_slot b (slot_other i)"
    by (rule nor_write_slot_cases[of w d b i img]) (auto simp: nor_slot_def)
  show "nor_write_slot w d b i img = (b', Inl e) \<Longrightarrow> nor_slot b' i = nor_slot b i"
    by (rule nor_write_slot_cases[of w d b i img]) (auto simp: nor_slot_def)
qed

fun firmware_inv :: "'f firmware_backend \<Rightarrow> bool" where
  "firmware_inv (FwFlash b) = nor_inv b"
| "firmware_inv (FwVolatile b) = (length b = 2)"
| "firmware_inv (FwUnavailable b) = (length b = 2)"

lemma in_memory_other:
  "in_memory_slot (fst (in_memory_write_slot b i img)) (slot_other i) = in_memory_slot b (slot_other i)"
  by (cases i) (simp_all add: in_memory_slot_def in_memory_write_slot_def)

interpretation fw: slot_backend firmware_inv firmware_slot "firmware_write_slot w d" w for w d
proof
  fix b :: "'a firmware_backend" and i img b' r e
  show "firmware_inv b \<Longrightarrow> firmware_inv (fst (firmware_write_slot w d b i img))"
    using nor.write_inv by (cases b) (auto simp: in_memory_write_slot_def case_prod_beta)
  show "firmware_inv b \<Longrightarrow> firmware_write_slot w d b i img = (b', Inr ()) \<Longrightarrow> firmware_slot b' i = img"
    using nor.write_ok
    by (cases b; cases i) (auto simp: in_memory_write_slot_def in_memory_slot_def split: prod.splits)
  show "firmware_write_slot w d b i img = (b', r) \<Longrightarrow> firmware_slot b' (slot_other i) = firmware_slot b (slot_other i)"
    by (cases b) (auto dest: nor.write_other split: prod.splits, metis fst_conv in_memory_other)
  show "firmware_write_slot w d b i img = (b', Inl e) \<Longrightarrow> firmware_slot b' i = firmware_slot b i"
    using nor.write_fail by (cases b) (auto simp: in_memory_write_slot_def split: prod.splits)
qed

section \<open>The writer's own state\<close>

definition writer_inv :: "storage_persistence \<Rightarrow> bool" where
  "writer_inv q =
     ((sq_pending_state q = None) = (sq_pending_priority q = None) \<and>
      (sq_pending_state q = None \<longrightarrow> sq_deadline_ms q = None) \<and>
      (sq_pending_state q \<noteq> None \<and> \<not> sq_retry_suspended q \<longrightarrow> sq_deadline_ms q \<noteq> None) \<and>
      (sq_retry_suspended q = (STORAGE_RETRY_FAILURE_LIMIT \<le> sq_consecutive_failures q)))"

lemma sat_add_u8_limit: "n < STORAGE_RETRY_FAILURE_LIMIT \<Longrightarrow> sat_add n 1 = n + 1"
  by (simp add: sat_add_def STORAGE_RETRY_FAILURE_LIMIT_def word_less_nat_alt)

lemma writer_inv_stage: "writer_inv q \<Longrightarrow> writer_inv (stage q st p now)"
  by (auto simp: writer_inv_def stage_def Let_def STORAGE_RETRY_FAILURE_LIMIT_def split: option.splits)

lemma writer_inv_record_failure:
  assumes "writer_inv q" and "sq_pending_state q \<noteq> None"
  shows "writer_inv (record_failure q now)"
proof -
  have "sq_consecutive_failures q \<le> sat_add (sq_consecutive_failures q) 1" by (rule sat_add_ge)
  then show ?thesis using assms by (auto simp: writer_inv_def record_failure_def Let_def)
qed

lemma writer_inv_clear: "writer_inv (clear_pending q)"
  by (simp add: writer_inv_def clear_pending_def STORAGE_RETRY_FAILURE_LIMIT_def)

interpretation writer: op_system "persist_step w slot write_slot" "\<lambda>_. True" "\<lambda>s. writer_inv (fst s)" for w slot write_slot
proof
  fix s :: "storage_persistence \<times> 'a" and x
  assume inv: "writer_inv (fst s)"
  obtain q b where s: "s = (q, b)" by fastforce
  show "writer_inv (fst (persist_step w slot write_slot x s))"
  proof (cases x)
    case (PoQuiesce st now)
    then show ?thesis using inv s writer_inv_stage
      by (auto simp: stage_quiesce_snapshot_def writer_inv_def split: option.splits)
  next
    case (PoDue now)
    then show ?thesis using inv s writer_inv_record_failure[of q now] writer_inv_clear[of q]
      by (auto simp: persist_due_def split: option.splits prod.splits sum.splits)
  next
    case PoFlush
    then show ?thesis using inv s writer_inv_clear[of q]
      by (auto simp: flush_def split: option.splits prod.splits sum.splits)
  qed (use inv s writer_inv_stage in simp)
qed

lemma writer_inv_new: "writer_inv (persistence_new normal lazy)"
  by (simp add: writer_inv_def persistence_new_def STORAGE_RETRY_FAILURE_LIMIT_def)

section \<open>Properties of the writer\<close>

text \<open>
  C9: No snapshot is lost. Let every snapshot, when it is staged, be well formed and newer than the
  state the back end would then restore, or the same as that state; it may replace a snapshot still
  waiting for its write, also one of the same generation with another content. Then however the
  program stages snapshots, lets them become due and flushes them, and whichever writes the back
  end accepts or rejects, the last snapshot is either still pending or is the state the back end
  would restore. This holds for all the firmware's back ends, also when the generation wraps.
\<close>

theorem last_snapshot_never_lost:
  assumes "firmware_inv b" and "staged ops \<noteq> []"
    and "staged_fresh w firmware_slot (firmware_write_slot w d) ops (persistence_new normal lazy, b)"
  shows "case run (persist_step w firmware_slot (firmware_write_slot w d)) ops (persistence_new normal lazy, b) of (q, b') \<Rightarrow>
    sq_pending_state q = Some (last (staged ops)) \<or>
    sq_pending_state q = None \<and> restore_latest_storage_state w firmware_slot b' = Some (durable_state w (last (staged ops)))"
  by (rule fw.newest_snapshot_kept[OF assms(1,3,2)])

definition sample_driver :: "unit nor_flash" where
  "sample_driver =
     \<lparr>nf_read_size = 1, nf_write_size = 4, nf_erase_size = 4096, nf_capacity = \<lambda>_. 8192,
      nf_read = \<lambda>f _ _. (f, None), nf_write = \<lambda>f _ _. (f, False), nf_erase = \<lambda>f _ _. (f, False)\<rparr>"

lemma sample_storage_generation: "st_generation sample_storage = 7"
  by (simp add: sample_storage_def storage_state_new_def)

lemma empty_memory_restores_nothing: "restore_latest_storage_state w firmware_slot (FwVolatile in_memory_new) = None"
proof -
  have "replicate 4 (0 :: u8) \<noteq> STORAGE_MAGIC"
    by (auto simp: STORAGE_MAGIC_def dest: arg_cong[of _ _ hd])
  then have "ok_state (decode_storage_image w (replicate STORAGE_IMAGE_LEN 0)) = None"
    by (simp add: decode_storage_image_def subslice_def storage_consts)
  then show ?thesis
    by (simp add: restore_latest_storage_state_def select_newest_valid_storage_image_def in_memory_slot_def in_memory_new_def)
qed

text \<open>A snapshot of the same generation replaces the pending one before the first write.\<close>

definition renamed_storage :: storage_state where
  "renamed_storage = sample_storage\<lparr>st_last_active_host := None\<rparr>"

theorem last_snapshot_never_lost_witness:
  "st_generation renamed_storage = st_generation sample_storage \<and> renamed_storage \<noteq> sample_storage \<and>
   (case run (persist_step True firmware_slot (firmware_write_slot True sample_driver))
       [PoStage sample_storage PrioNormal 10, PoQuiesce renamed_storage 15, PoDue 60, PoFlush] (persistence_new 50 1000, FwVolatile in_memory_new) of
     (q, b') \<Rightarrow> sq_pending_state q = Some renamed_storage \<or>
       sq_pending_state q = None \<and>
       restore_latest_storage_state True firmware_slot b' = Some (durable_state True renamed_storage))"
proof -
  let ?ops = "[PoStage sample_storage PrioNormal 10, PoQuiesce renamed_storage 15, PoDue 60, PoFlush]"
  have st: "staged ?ops = [sample_storage, renamed_storage]" by (simp add: staged_def)
  have ok: "storage_ok renamed_storage" using sample_storage_ok
    by (simp add: renamed_storage_def storage_ok_def sample_storage_def storage_state_new_def storage_validate_def)
  have inv: "firmware_inv (FwVolatile in_memory_new)" by (simp add: in_memory_new_def)
  have fr: "staged_fresh True firmware_slot (firmware_write_slot True sample_driver) ?ops (persistence_new 50 1000, FwVolatile in_memory_new)"
    using sample_storage_ok ok by (simp add: empty_memory_restores_nothing fresh_def)
  have ne: "staged ?ops \<noteq> []" by (simp add: st)
  have "st_generation renamed_storage = st_generation sample_storage" "renamed_storage \<noteq> sample_storage"
    by (simp_all add: renamed_storage_def sample_storage_def storage_state_new_def)
  then show ?thesis using last_snapshot_never_lost[OF inv ne fr] unfolding st by simp
qed

lemma retry_delay_values: "n < 5 \<Longrightarrow> retry_delay (n + 1) = 1000 * 2 ^ unat n"
proof -
  assume "n < 5"
  then have "unat n < 5" by (simp add: word_less_nat_alt)
  moreover have "n = of_nat (unat n)" by simp
  moreover have "unat n \<in> {0, 1, 2, 3, 4}" using calculation(1) by auto
  ultimately have "n = 0 \<or> n = 1 \<or> n = 2 \<or> n = 3 \<or> n = 4" by (auto simp: word_unat_eq_iff)
  then show ?thesis
    by (elim disjE) (simp_all add: retry_delay_def Let_def sat_sub_def STORAGE_RETRY_BASE_MS_def STORAGE_RETRY_MAX_MS_def
        push_bit_eq_mult min_def)
qed

lemma failed_due:
  assumes "persist_due w slot write_slot q b now = ((q', b'), Inl e)"
  obtains st where "sq_pending_state q = Some st" "q' = record_failure q now"
  using assms by (auto simp: persist_due_def split: option.splits if_splits prod.splits sum.splits)

text \<open>
  Retries back off and stop. A failed write keeps the snapshot pending and degrades the
  reported health; the attempt after the n-th consecutive failure is scheduled
  \<open>1000 * 2 ^ (n - 1)\<close> milliseconds later; the sixth failure suspends retrying, after which
  nothing is written and the storage task just waits, until a snapshot of another generation
  is staged, which starts afresh.
\<close>

theorem retry_backs_off_and_stops:
  assumes "persist_due w slot write_slot q b now = ((q', b'), Inl e)"
  shows "sq_pending_state q' = sq_pending_state q \<and> sq_pending_state q' \<noteq> None \<and> effective_health q' Persistent = Degraded \<and>
    (if sq_consecutive_failures q < 5
     then sq_deadline_ms q' = Some (sat_add now (1000 * 2 ^ unat (sq_consecutive_failures q)))
     else (\<forall>b2 later p n. persist_due w slot write_slot q' b2 later = ((q', b2), Inr None) \<and>
             policy_evaluate p q' later n = AwaitCommand) \<and>
          (\<forall>st prio later. map_option st_generation (sq_pending_state q') \<noteq> Some (st_generation st) \<longrightarrow>
             sq_consecutive_failures (stage q' st prio later) = 0 \<and> \<not> sq_retry_suspended (stage q' st prio later) \<and>
             sq_deadline_ms (stage q' st prio later) \<noteq> None))"
proof -
  obtain st where pend: "sq_pending_state q = Some st" and q': "q' = record_failure q now"
    using failed_due[OF assms] by blast
  let ?n = "sq_consecutive_failures q"
  have fails: "sq_consecutive_failures q' = sat_add ?n 1" by (simp add: q' record_failure_def Let_def)
  have pos: "sq_consecutive_failures q' > 0"
    using unat_sat_add[of ?n 1] by (simp add: fails word_less_nat_alt)
  show ?thesis
  proof (cases "?n < 5")
    case True
    then have "unat ?n < 5" by (simp add: word_less_nat_alt)
    then have "sat_add ?n 1 = ?n + 1" by (simp add: sat_add_def)
    moreover have "\<not> STORAGE_RETRY_FAILURE_LIMIT \<le> ?n + 1"
      using \<open>unat ?n < 5\<close> by (simp add: word_le_nat_alt STORAGE_RETRY_FAILURE_LIMIT_def unat_word_ariths)
    ultimately show ?thesis using True pend pos retry_delay_values[OF True]
      by (simp add: q' record_failure_def Let_def effective_health_def)
  next
    case False
    then have "STORAGE_RETRY_FAILURE_LIMIT \<le> sat_add ?n 1"
      using unat_sat_add[of ?n 1] by (simp add: word_le_nat_alt word_less_nat_alt STORAGE_RETRY_FAILURE_LIMIT_def)
    then have susp: "sq_retry_suspended q'" "sq_deadline_ms q' = None" by (simp_all add: q' record_failure_def Let_def)
    have "sq_pending_state q' = Some st" using pend q' by simp
    with False susp pos pend show ?thesis
      by (simp add: persist_due_def policy_evaluate_def effective_health_def stage_def Let_def split: option.splits)
  qed
qed

theorem retry_backs_off_and_stops_witness:
  "sq_deadline_ms (fst (fst (persist_due True firmware_slot (firmware_write_slot True sample_driver)
      (stage (persistence_new 50 1000) sample_storage PrioCritical 7) (FwUnavailable in_memory_new) 7))) = Some 1007"
proof -
  let ?q = "stage (persistence_new 50 1000) sample_storage PrioCritical 7"
  let ?r = "persist_due True firmware_slot (firmware_write_slot True sample_driver) ?q (FwUnavailable in_memory_new) 7"
  have q: "sq_deadline_ms ?q = Some 7" "sq_consecutive_failures ?q = 0"
    by (simp_all add: stage_def persistence_new_def Let_def sat_add_def)
  obtain img where "encode_storage_image True sample_storage = Inr img"
    using encode_then_decode[OF sample_storage_ok] by blast
  then have "persist_storage_state True firmware_slot (firmware_write_slot True sample_driver) (FwUnavailable in_memory_new) sample_storage =
      (FwUnavailable in_memory_new, Inl SeUnavailable)"
    using sample_storage_ok by (simp add: persist_storage_state_def storage_ok_def Let_def)
  then have "?r = ((fst (fst ?r), FwUnavailable in_memory_new), Inl SeUnavailable)"
    using q by (simp add: persist_due_def)
  from retry_backs_off_and_stops[OF this] show ?thesis by (simp add: q sat_add_def)
qed

text \<open>
  The storage task's policy agrees with the writer in every state the writer can reach: when
  it asks to quiesce and persist, the writer has a snapshot and attempts the write at that moment;
  when it waits for a deadline, a write before it is a no-op and after the wait is attempted; it
  defers only while links are active, and never defers a critical snapshot that is overdue by
  the forcing limit.
\<close>

theorem policy_agrees_with_writer:
  "let (q, b) = run (persist_step w slot write_slot) ops (persistence_new normal lazy, b0) in
   case policy_evaluate p q now active of
     AwaitCommand \<Rightarrow> sq_pending_state q = None \<or> sq_retry_suspended q
   | WaitForDeadline delay \<Rightarrow>
       0 < delay \<and> persist_due w slot write_slot q b now = ((q, b), Inr None) \<and>
       snd (persist_due w slot write_slot q b (now + delay)) \<noteq> Inr None
   | DeferForActiveBle delay \<Rightarrow>
       0 < active \<and> delay = tp_active_ble_retry_ms p \<and>
       (\<exists>d. sq_deadline_ms q = Some d \<and> d \<le> now \<and>
          \<not> (sq_pending_priority q = Some PrioCritical \<and> now - d \<ge> tp_critical_force_quiesce_ms p))
   | QuiesceAndPersist forced \<Rightarrow>
       snd (persist_due w slot write_slot q b now) \<noteq> Inr None \<and> (if forced then sq_pending_priority q = Some PrioCritical else active = 0)"
proof -
  obtain q b where run: "run (persist_step w slot write_slot) ops (persistence_new normal lazy, b0) = (q, b)" by fastforce
  have inv: "writer_inv q"
    using writer.run_inv[of "(persistence_new normal lazy, b0)" ops w slot write_slot] writer_inv_new run
    by (simp add: list_all_iff)
  show ?thesis
  proof (cases "sq_pending_state q = None \<or> sq_retry_suspended q")
    case True
    then show ?thesis by (auto simp: run policy_evaluate_def is_pending_def)
  next
    case False
    then obtain st d where q: "sq_pending_state q = Some st" "sq_deadline_ms q = Some d" "\<not> sq_retry_suspended q"
      using inv by (auto simp: writer_inv_def)
    have due: "snd (persist_due w slot write_slot q b t) \<noteq> Inr None" if "\<not> t < d" for t
      using q that by (auto simp: persist_due_def split: prod.splits sum.splits)
    show ?thesis
    proof (cases "now < d")
      case True
      then have "sat_sub d now = d - now" "0 < d - now" by (auto simp: sat_sub_def word_gt_0)
      then show ?thesis using q True due[of d]
        by (simp add: run policy_evaluate_def is_pending_def remaining_ms_def persist_due_def)
    next
      case False
      then have "d \<le> now" "sat_sub d now = 0" "sat_sub now d = now - d" by (auto simp: sat_sub_def)
      then show ?thesis using q due[OF False]
        by (simp add: run policy_evaluate_def is_pending_def remaining_ms_def overdue_ms_def)
    qed
  qed
qed

fun completion_take :: "nat \<Rightarrow> quiesced_completion \<Rightarrow> completion_action option list" where
  "completion_take 0 c = []"
| "completion_take (Suc n) c = (case completion_next c of (c', a) \<Rightarrow> a # completion_take n c')"

text \<open>
  After a quiesced write the runtime is released before anything is reported to it: the
  completion sequence is the release, then the new health if there is one, then the outcome of
  the write, and then it has ended for good.
\<close>

theorem completion_releases_first:
  "completion_take (4 + n) (completion_new health ok) =
     [Some ReleaseQuiesce] @ (case health of None \<Rightarrow> [] | Some h \<Rightarrow> [Some (ReportStorageHealth h)]) @
     [Some (ReportFlashWrite ok)] @ replicate (if health = None then n + 2 else n + 1) None"
proof -
  have over: "completion_take k c = replicate k None" if "qc_phase c = 3" for k c
    by (induction k) (simp_all add: completion_next_def completion_step_action_def that)
  have four: "4 + n = Suc (Suc (Suc (Suc n)))" by simp
  show ?thesis unfolding four
    by (cases health) (simp_all add: completion_new_def completion_next_def completion_step_action_def
        sat_add_def over)
qed

end
