(* ===== verification/HS_FlashJournal.thy ===== *)
theory HS_FlashJournal
  imports HS_StoragePersist
begin

text \<open>
  What the storage journal leaves in flash: the relation between the back end's cache and the
  device contents, and what a restart finds after writes that succeeded, failed or were cut off.
  The driver is only assumed to read what is there and to touch nothing outside the range it is
  given; whether a write or an erase succeeds is open.
\<close>

section \<open>The driver\<close>

text \<open>
  The documented behaviour of a NOR flash driver, over a function \<open>c\<close> that gives the contents of
  a device: reading does not change them and returns the bytes of the range; writing and erasing
  change only bytes of their range, whether they succeed or not; an erase that reports success
  leaves \<open>0xff\<close> everywhere in its range.
\<close>

definition driver_ok :: "'f nor_flash \<Rightarrow> ('f \<Rightarrow> bytes) \<Rightarrow> bool" where
  "driver_ok d c =
     ((\<forall>f. nf_capacity d f = length (c f)) \<and>
      (\<forall>f off n f' r. nf_read d f off n = (f', r) \<longrightarrow>
         c f' = c f \<and> (\<forall>bs. r = Some bs \<longrightarrow> bs = subslice (unat off) (unat off + n) (c f))) \<and>
      (\<forall>f off bs f' ok. nf_write d f off bs = (f', ok) \<longrightarrow> length (c f') = length (c f) \<and>
         (\<forall>k<length (c f). (k < unat off \<or> unat off + length bs \<le> k) \<longrightarrow> c f' ! k = c f ! k)) \<and>
      (\<forall>f from to f' ok. nf_erase d f from to = (f', ok) \<longrightarrow> length (c f') = length (c f) \<and>
         (\<forall>k<length (c f). (k < unat from \<or> unat to \<le> k) \<longrightarrow> c f' ! k = c f ! k) \<and>
         (ok \<longrightarrow> (\<forall>k<length (c f). unat from \<le> k \<and> k < unat to \<longrightarrow> c f' ! k = 0xff))))"

lemma driver_read:
  assumes "driver_ok d c" and "nf_read d f off n = (f', r)"
  shows "c f' = c f" "r = Some bs \<Longrightarrow> bs = subslice (unat off) (unat off + n) (c f)"
  using assms unfolding driver_ok_def by blast+

lemma driver_write:
  assumes "driver_ok d c" and "nf_write d f off bs = (f', ok)"
  shows "length (c f') = length (c f)"
    "k < length (c f) \<Longrightarrow> k < unat off \<or> unat off + length bs \<le> k \<Longrightarrow> c f' ! k = c f ! k"
  using assms unfolding driver_ok_def by blast+


text \<open>Record \<open>k\<close> of a slot in the contents, for a layout with the firmware's slot size.\<close>

definition record_start :: "u32 \<Rightarrow> storage_slot_index \<Rightarrow> nat \<Rightarrow> nat" where
  "record_start base i k = unat base + storage_slot_number i * 4096 + k * 1024"

definition flash_record :: "u32 \<Rightarrow> bytes \<Rightarrow> storage_slot_index \<Rightarrow> nat \<Rightarrow> bytes" where
  "flash_record base bs i k = subslice (record_start base i k) (record_start base i k + 1024) bs"

definition layout_fits :: "u32 \<Rightarrow> bytes \<Rightarrow> bool" where
  "layout_fits base bs = (unat base + 8192 \<le> length bs \<and> unat base + 8192 < 2 ^ 32)"

lemma layout_consts [simp]:
  "fl_base_offset (layout_new base) = base" "fl_slot_size (layout_new base) = 4096"
  "layout_len (layout_new base) = 8192" "records_per_slot (layout_new base) = 4"
  by (simp_all add: layout_new_def layout_len_def records_per_slot_def STORAGE_FLASH_SLOT_SIZE_def
      STORAGE_FLASH_SLOT_COUNT_def storage_consts)

lemma validated_fits:
  assumes "driver_ok d c" and "validate_for_flash d (layout_new base) f = Inr ()"
  shows "layout_fits base (c f)"
proof -
  have "nf_capacity d f = length (c f)" using assms(1) by (simp add: driver_ok_def)
  then have lt: "unat base + 8192 < 2 ^ 32" and le: "base + 8192 \<le> (of_nat (length (c f)) :: u32)"
    using assms(2) by (auto simp: validate_for_flash_def Let_def split: if_splits)
  have "unat (base + 8192) = unat base + 8192" using lt by (simp add: unat_word_ariths)
  moreover have "unat (base + 8192) \<le> unat (of_nat (length (c f)) :: u32)" using le by (simp add: word_le_nat_alt)
  moreover have "unat (of_nat (length (c f)) :: u32) \<le> length (c f)" by (simp add: unat_of_nat)
  ultimately show ?thesis using lt by (simp add: layout_fits_def)
qed


lemma unat_record_offset:
  assumes "layout_fits base bs" and "k < 4"
  shows "unat (record_offset (layout_new base) i (of_nat k)) = record_start base i k"
proof -
  have "k = 0 \<or> k = 1 \<or> k = 2 \<or> k = 3" using assms(2) by auto
  then show ?thesis using assms(1)
    by (cases i; elim disjE) (simp_all add: record_offset_def slot_offset_def layout_fits_def record_start_def
        unat_word_ariths storage_consts)
qed

lemma length_flash_record:
  assumes "layout_fits base bs" and "k < 4"
  shows "length (flash_record base bs i k) = 1024" "record_start base i k + 1024 \<le> length bs"
proof -
  show "record_start base i k + 1024 \<le> length bs"
    using assms by (cases i) (simp_all add: layout_fits_def record_start_def)
  then show "length (flash_record base bs i k) = 1024" by (simp add: flash_record_def length_subslice)
qed

lemma subslice_same:
  assumes "length bs' = length bs" and "\<And>k. a \<le> k \<Longrightarrow> k < b \<Longrightarrow> k < length bs \<Longrightarrow> bs' ! k = bs ! k"
  shows "subslice a b bs' = subslice a b bs"
  by (rule nth_equalityI) (use assms in \<open>auto simp: subslice_def\<close>)

text \<open>Distinct records do not overlap.\<close>

lemma record_disjoint:
  assumes "k < 4" and "k' < 4" and "(i, k) \<noteq> (i', k')"
  shows "record_start base i' k' + 1024 \<le> record_start base i k \<or> record_start base i k + 1024 \<le> record_start base i' k'"
proof (cases "i = i'")
  case True
  then have "k < k' \<or> k' < k" using assms by auto
  then show ?thesis using True by (auto simp: record_start_def)
next
  case False
  then show ?thesis using assms by (cases i; cases i') (auto simp: record_start_def)
qed

lemma write_keeps_records:
  assumes ok: "driver_ok d c" and fit: "layout_fits base (c f)" and k: "k < 4" and img: "length img = 1024"
    and wr: "nf_write d f (record_offset (layout_new base) i (of_nat k)) img = (f', r)"
  shows "length (c f') = length (c f)"
    and "k' < 4 \<Longrightarrow> (i', k') \<noteq> (i, k) \<Longrightarrow> flash_record base (c f') i' k' = flash_record base (c f) i' k'"
proof -
  note upd = driver_write[OF ok wr, unfolded unat_record_offset[OF fit k] img]
  show "length (c f') = length (c f)" by (rule upd)
  assume "k' < 4" and "(i', k') \<noteq> (i, k)"
  then have "record_start base i k + 1024 \<le> record_start base i' k' \<or> record_start base i' k' + 1024 \<le> record_start base i k"
    using record_disjoint[of k' k i' i base] k by auto
  then show "flash_record base (c f') i' k' = flash_record base (c f) i' k'"
    unfolding flash_record_def by (intro subslice_same) (use upd in auto)
qed


section \<open>What the scan finds\<close>

definition valid_image :: "bool \<Rightarrow> bytes \<Rightarrow> bool" where
  "valid_image w img = (ok_state (decode_storage_image w img) \<noteq> None)"

text \<open>The scan as a function of the contents of the records.\<close>

fun scan_images :: "bool \<Rightarrow> (nat \<times> bytes) list \<Rightarrow> bytes \<Rightarrow> u32 \<Rightarrow> bytes \<times> u32" where
  "scan_images w [] latest nxt = (latest, nxt)"
| "scan_images w ((k, img) # rest) latest nxt =
     (if image_is_erased img then (latest, of_nat k)
      else if valid_image w img then scan_images w rest img (of_nat k + 1)
      else (latest, 4))"

definition scan_slot :: "bool \<Rightarrow> (nat \<Rightarrow> bytes) \<Rightarrow> bytes \<times> u32" where
  "scan_slot w R = scan_images w (map (\<lambda>k. (k, R k)) [0..<4]) erased_image 0"

lemma scan_records_images:
  assumes "driver_ok d c" and "layout_fits base (c f)" and "set ks \<subseteq> {0..<4}"
    and "scan_records w d (layout_new base) i ks f latest nxt = (f', Inr (x, n))"
  shows "c f' = c f \<and> scan_images w (map (\<lambda>k. (k, flash_record base (c f) i k)) ks) latest nxt = (x, n)"
  using assms(2-)
proof (induction ks arbitrary: f latest nxt)
  case Nil
  then show ?case by simp
next
  case (Cons k ks)
  have k: "k < 4" using Cons.prems(2) by simp
  obtain f1 r where rd: "nf_read d f (record_offset (layout_new base) i (of_nat k)) STORAGE_IMAGE_LEN = (f1, r)" by fastforce
  then obtain img where r: "r = Some img" using Cons.prems(3) by (cases r) auto
  have c1: "c f1 = c f" and img: "img = flash_record base (c f) i k"
    using driver_read[OF assms(1) rd] r unat_record_offset[OF Cons.prems(1) k, of i]
    by (simp_all add: flash_record_def storage_consts)
  show ?case
  proof (cases "\<not> image_is_erased img \<and> valid_image w img")
    case True
    then have "scan_records w d (layout_new base) i ks f1 img (of_nat k + 1) = (f', Inr (x, n))"
      using Cons.prems(3) rd r by (simp add: valid_image_def)
    from Cons.IH[OF _ _ this] Cons.prems(1,2) c1 True img show ?thesis by simp
  next
    case False
    then show ?thesis using Cons.prems(3) rd r c1 img by (auto simp: valid_image_def split: if_splits)
  qed
qed

lemma scan_flash_slot_images:
  assumes "driver_ok d c" and "layout_fits base (c f)"
    and "scan_flash_slot w d (layout_new base) i f erased_image = (f', Inr (x, n))"
  shows "c f' = c f" "scan_slot w (flash_record base (c f) i) = (x, n)"
  using scan_records_images[OF assms(1,2) _ assms(3)[unfolded scan_flash_slot_def]] by (simp_all add: scan_slot_def)

lemma backend_new_scans:
  assumes ok: "driver_ok d c" and new: "nor_backend_new w d f (layout_new base) = Inr b"
  shows "layout_fits base (c f)" "c (nb_flash b) = c f" "nb_layout b = layout_new base" "nor_inv b"
    "scan_slot w (flash_record base (c f) i) = (nor_slot b i, nb_next_record b ! storage_slot_number i)"
proof -
  have val: "validate_for_flash d (layout_new base) f = Inr ()"
    using new by (cases "validate_for_flash d (layout_new base) f") (auto simp: nor_backend_new_def)
  show fit: "layout_fits base (c f)" by (rule validated_fits[OF ok val])
  obtain f1 r1 where s1: "scan_flash_slot w d (layout_new base) SlotA f erased_image = (f1, r1)" by fastforce
  obtain f2 r2 where s2: "scan_flash_slot w d (layout_new base) SlotB f1 erased_image = (f2, r2)" by fastforce
  obtain xa na where r1: "r1 = Inr (xa, na)" using new val s1 by (cases r1) (auto simp: nor_backend_new_def)
  obtain xb nb where r2: "r2 = Inr (xb, nb)" using new val s1 s2 r1 by (cases r2) (auto simp: nor_backend_new_def)
  have b: "b = \<lparr>nb_flash = f2, nb_layout = layout_new base, nb_slots = [xa, xb], nb_next_record = [na, nb]\<rparr>"
    using new val s1 s2 r1 r2 by (simp add: nor_backend_new_def)
  note a = scan_flash_slot_images[OF ok fit s1[unfolded r1]]
  note b' = scan_flash_slot_images[OF ok fit[folded a(1)] s2[unfolded r2]]
  show "c (nb_flash b) = c f" "nb_layout b = layout_new base" "nor_inv b" using a(1) b'(1) by (simp_all add: b nor_inv_def)
  show "scan_slot w (flash_record base (c f) i) = (nor_slot b i, nb_next_record b ! storage_slot_number i)"
    using a b' by (cases i) (simp_all add: b nor_slot_def)
qed

lemma valid_not_erased: "valid_image w img \<Longrightarrow> \<not> image_is_erased img"
proof
  assume "valid_image w img" and er: "image_is_erased img"
  then obtain st where "decode_storage_image w img = Inr st"
    by (cases "decode_storage_image w img") (auto simp: valid_image_def)
  note ok = decode_success(1,2)[OF this]
  then have "subslice 0 4 img ! 0 = STORAGE_MAGIC ! 0" by simp
  then have "img ! 0 = 0x45" using ok(1) by (simp add: subslice_def STORAGE_MAGIC_def storage_consts)
  moreover have "0 < length img" using ok(1) by (auto simp: storage_consts)
  then have "img ! 0 = 0xff" using er by (simp add: image_is_erased_def list_all_length)
  ultimately show False by simp
qed

lemma upto4: "[0..<4] = [0, 1, 2, 3 :: nat]"
  by (simp add: upt_rec)


lemma scan_erased:
  assumes "\<forall>k<4. image_is_erased (R k)"
  shows "scan_slot w R = (erased_image, 0)"
  using assms by (simp add: scan_slot_def upto4)



lemma erased_image_invalid: "ok_state (decode_storage_image w erased_image) = None"
proof -
  have "image_is_erased erased_image" by (simp add: image_is_erased_def erased_image_def list_all_iff)
  then have "\<not> valid_image w erased_image" using valid_not_erased by blast
  then show ?thesis by (simp add: valid_image_def)
qed

section \<open>The journal invariant\<close>

text \<open>
  The cache agrees with what a scan of the flash would find, and every record at or after the
  write position is erased.
\<close>

definition slot_synced :: "bool \<Rightarrow> bytes \<Rightarrow> u32 \<Rightarrow> storage_slot_index \<Rightarrow> bytes \<Rightarrow> u32 \<Rightarrow> bool" where
  "slot_synced w bs base i img n =
     (scan_slot w (flash_record base bs i) = (img, n) \<and>
      (\<forall>k<4. unat n \<le> k \<longrightarrow> image_is_erased (flash_record base bs i k)))"

definition backend_fits :: "('f \<Rightarrow> bytes) \<Rightarrow> u32 \<Rightarrow> 'f nor_backend \<Rightarrow> bool" where
  "backend_fits c base b = (nb_layout b = layout_new base \<and> layout_fits base (c (nb_flash b)) \<and> nor_inv b)"

definition journal_synced :: "bool \<Rightarrow> ('f \<Rightarrow> bytes) \<Rightarrow> u32 \<Rightarrow> 'f nor_backend \<Rightarrow> bool" where
  "journal_synced w c base b =
     (backend_fits c base b \<and>
      (\<forall>i. slot_synced w (c (nb_flash b)) base i (nor_slot b i) (nb_next_record b ! storage_slot_number i)))"



lemma slot_synced_erased:
  assumes "\<And>k. k < 4 \<Longrightarrow> image_is_erased (flash_record base bs i k)"
  shows "slot_synced w bs base i erased_image 0"
  using assms scan_erased by (simp add: slot_synced_def)

lemma write_record_outcome:
  assumes ok: "driver_ok d c" and fits: "backend_fits c base b" and n: "n < 4" and img: "length img = 1024"
    and res: "nor_write_record w d b i n img = (b', r)"
  shows "backend_fits c base b'"
    and "k < 4 \<Longrightarrow> flash_record base (c (nb_flash b')) (slot_other i) k = flash_record base (c (nb_flash b)) (slot_other i) k"
    and "r = Inr () \<Longrightarrow> k < 4 \<Longrightarrow> flash_record base (c (nb_flash b')) i k =
       (if k = unat n then img else flash_record base (c (nb_flash b)) i k)"
    and "r = Inr () \<Longrightarrow> valid_image w img \<and> nor_slot b' i = img \<and> nb_next_record b' ! storage_slot_number i = n + 1 \<and>
       nor_slot b' (slot_other i) = nor_slot b (slot_other i) \<and>
       nb_next_record b' ! storage_slot_number (slot_other i) = nb_next_record b ! storage_slot_number (slot_other i)"
proof -
  let ?f = "nb_flash b"
  have lay: "nb_layout b = layout_new base" and fit: "layout_fits base (c ?f)" and inv: "nor_inv b"
    using fits by (simp_all add: backend_fits_def)
  have n4: "unat n < 4" using n by (simp add: word_less_nat_alt)
  let ?o = "record_offset (layout_new base) i (of_nat (unat n))"
  have off: "slot_offset (nb_layout b) i + n * of_nat STORAGE_IMAGE_LEN = ?o" by (simp add: lay record_offset_def)
  obtain f1 w1 where wr: "nf_write d ?f ?o img = (f1, w1)" by fastforce
  obtain f2 v where rd: "nf_read d f1 ?o STORAGE_IMAGE_LEN = (f2, v)" by fastforce
  note keep = write_keeps_records[OF ok fit n4 img wr]
  have c2: "c f2 = c f1" by (rule driver_read(1)[OF ok rd])
  note step = res[unfolded nor_write_record_def Let_def off wr, simplified]
  have flash: "c (nb_flash b') = c f1" "nb_layout b' = nb_layout b" "nor_inv b'"
    using step rd c2 inv by (cases w1; cases v; auto simp: nor_inv_def split: if_splits)+
  show "backend_fits c base b'" using flash lay fit keep(1) by (simp add: backend_fits_def layout_fits_def)
  show "flash_record base (c (nb_flash b')) (slot_other i) k = flash_record base (c ?f) (slot_other i) k" if "k < 4"
    using keep(2)[OF that, of "slot_other i"] flash by simp
  show "flash_record base (c (nb_flash b')) i k = (if k = unat n then img else flash_record base (c ?f) i k)"
    if "r = Inr ()" and k: "k < 4"
  proof (cases "k = unat n")
    case True
    have "v = Some img" using step rd \<open>r = Inr ()\<close> by (cases w1; cases v) (auto split: if_splits)
    then have "img = flash_record base (c f1) i (unat n)"
      using driver_read(2)[OF ok rd] unat_record_offset[OF fit n4, of i] by (simp add: flash_record_def storage_consts)
    then show ?thesis using True flash by simp
  next
    case False
    then show ?thesis using keep(2)[OF k, of i] flash by simp
  qed
  show "valid_image w img \<and> nor_slot b' i = img \<and> nb_next_record b' ! storage_slot_number i = n + 1 \<and>
       nor_slot b' (slot_other i) = nor_slot b (slot_other i) \<and>
       nb_next_record b' ! storage_slot_number (slot_other i) = nb_next_record b ! storage_slot_number (slot_other i)"
    if "r = Inr ()"
    using step rd that inv by (cases w1; cases v) (auto simp: valid_image_def nor_slot_def nor_inv_def split: if_splits)
qed







section \<open>Restarts\<close>

lemma boot_erased_synced:
  assumes ok: "driver_ok d c" and new: "nor_backend_new w d f (layout_new base) = Inr b"
    and erased: "\<And>i k. k < 4 \<Longrightarrow> image_is_erased (flash_record base (c f) i k)"
  shows "journal_synced w c base b" "restore_latest_storage_state w nor_slot b = None"
proof -
  note scans = backend_new_scans[OF ok new]
  have img: "nor_slot b i = erased_image" "nb_next_record b ! storage_slot_number i = 0" for i
    using scans(5)[of i] scan_erased[of "flash_record base (c f) i" w] erased by simp_all
  have "slot_synced w (c f) base i erased_image 0" for i using erased by (rule slot_synced_erased)
  then show "journal_synced w c base b" using scans(1-4) img by (simp add: journal_synced_def backend_fits_def)
  show "restore_latest_storage_state w nor_slot b = None"
    by (simp add: restore_latest_storage_state_def select_newest_valid_storage_image_def img erased_image_invalid)
qed














section \<open>A device in memory\<close>

text \<open>
  The flash device of the repository's storage tests (\<open>TestNorFlash\<close>): an array of bytes that
  can be told to corrupt the first byte of the next write. Its call counters are left out.
\<close>

record test_flash =
  tf_bytes :: bytes
  tf_corrupt_next_write :: bool

definition overwrite :: "nat \<Rightarrow> bytes \<Rightarrow> bytes \<Rightarrow> bytes" where
  "overwrite off new bs = take off bs @ new @ drop (off + length new) bs"

definition test_read :: "test_flash \<Rightarrow> u32 \<Rightarrow> nat \<Rightarrow> test_flash \<times> bytes option" where
  "test_read f off n =
     (f, if unat off + n \<le> length (tf_bytes f) then Some (subslice (unat off) (unat off + n) (tf_bytes f)) else None)"

definition test_write :: "test_flash \<Rightarrow> u32 \<Rightarrow> bytes \<Rightarrow> test_flash \<times> bool" where
  "test_write f off bs =
     (if unat off + length bs \<le> length (tf_bytes f) then
        (let new = (if tf_corrupt_next_write f then bs[0 := bs ! 0 XOR 1] else bs)
         in (\<lparr>tf_bytes = overwrite (unat off) new (tf_bytes f), tf_corrupt_next_write = False\<rparr>, True))
      else (f, False))"

definition test_erase :: "test_flash \<Rightarrow> u32 \<Rightarrow> u32 \<Rightarrow> test_flash \<times> bool" where
  "test_erase f from to =
     (if from \<le> to \<and> unat to \<le> length (tf_bytes f) then
        (f\<lparr>tf_bytes := overwrite (unat from) (replicate (unat to - unat from) 0xff) (tf_bytes f)\<rparr>, True)
      else (f, False))"

definition test_driver :: "test_flash nor_flash" where
  "test_driver =
     \<lparr>nf_read_size = 1, nf_write_size = 4, nf_erase_size = 4096, nf_capacity = (\<lambda>f. length (tf_bytes f)),
      nf_read = test_read, nf_write = test_write, nf_erase = test_erase\<rparr>"

definition fresh_flash :: "bool \<Rightarrow> test_flash" where
  "fresh_flash corrupt = \<lparr>tf_bytes = replicate 8192 0xff, tf_corrupt_next_write = corrupt\<rparr>"

lemma overwrite_nth:
  assumes "off + length new \<le> length bs"
  shows "length (overwrite off new bs) = length bs"
    "k < length bs \<Longrightarrow> overwrite off new bs ! k = (if off \<le> k \<and> k < off + length new then new ! (k - off) else bs ! k)"
    "subslice off (off + length new) (overwrite off new bs) = new"
  using assms by (auto simp: overwrite_def nth_append subslice_def)

lemma test_driver_ok: "driver_ok test_driver tf_bytes"
proof -
  have "\<forall>f off n f' r. test_read f off n = (f', r) \<longrightarrow>
      tf_bytes f' = tf_bytes f \<and> (\<forall>bs. r = Some bs \<longrightarrow> bs = subslice (unat off) (unat off + n) (tf_bytes f))"
    by (simp add: test_read_def)
  moreover have "\<forall>f off bs f' ok. test_write f off bs = (f', ok) \<longrightarrow> length (tf_bytes f') = length (tf_bytes f) \<and>
      (\<forall>k<length (tf_bytes f). (k < unat off \<or> unat off + length bs \<le> k) \<longrightarrow> tf_bytes f' ! k = tf_bytes f ! k)"
    by (auto simp: test_write_def Let_def overwrite_nth split: if_splits)
  moreover have "\<forall>f a b f' ok. test_erase f a b = (f', ok) \<longrightarrow> length (tf_bytes f') = length (tf_bytes f) \<and>
      (\<forall>k<length (tf_bytes f). (k < unat a \<or> unat b \<le> k) \<longrightarrow> tf_bytes f' ! k = tf_bytes f ! k) \<and>
      (ok \<longrightarrow> (\<forall>k<length (tf_bytes f). unat a \<le> k \<and> k < unat b \<longrightarrow> tf_bytes f' ! k = 0xff))"
    by (auto simp: test_erase_def overwrite_nth word_le_nat_alt split: if_splits)
  ultimately show ?thesis unfolding driver_ok_def test_driver_def nor_flash.select_convs by blast
qed

lemma test_scan_reads:
  assumes "layout_fits 0 (tf_bytes f)" and "set ks \<subseteq> {0..<4}"
  shows "\<exists>x. scan_records w test_driver (layout_new 0) i ks f latest nxt = (f, Inr x)"
  using assms(2)
proof (induction ks arbitrary: latest nxt)
  case (Cons k ks)
  have "nf_read test_driver f (record_offset (layout_new 0) i (of_nat k)) STORAGE_IMAGE_LEN =
      (f, Some (flash_record 0 (tf_bytes f) i k))"
    using unat_record_offset[OF assms(1), of k i] length_flash_record(2)[OF assms(1), of k i] Cons.prems
    by (simp add: test_driver_def test_read_def flash_record_def storage_consts)
  then show ?case using Cons.IH Cons.prems by auto
qed simp

lemma test_boot:
  assumes "length (tf_bytes f) = 8192"
  obtains b where "nor_backend_new w test_driver f (layout_new 0) = Inr b" "nb_flash b = f"
proof -
  have fit: "layout_fits 0 (tf_bytes f)" using assms by (simp add: layout_fits_def)
  have val: "validate_for_flash test_driver (layout_new 0) f = Inr ()"
    using assms by (simp add: validate_for_flash_def Let_def test_driver_def is_aligned_def storage_consts)
  obtain xa na where "scan_flash_slot w test_driver (layout_new 0) SlotA f erased_image = (f, Inr (xa, na))"
    using test_scan_reads[OF fit, of "[0..<4]" w SlotA erased_image 0] by (auto simp: scan_flash_slot_def)
  moreover obtain xb nb where "scan_flash_slot w test_driver (layout_new 0) SlotB f erased_image = (f, Inr (xb, nb))"
    using test_scan_reads[OF fit, of "[0..<4]" w SlotB erased_image 0] by (auto simp: scan_flash_slot_def)
  ultimately show thesis using that val by (simp add: nor_backend_new_def)
qed

lemma test_write_record:
  assumes fits: "backend_fits tf_bytes 0 b" and n: "n < 4" and img: "length img = 1024" "valid_image w img"
  shows "snd (nor_write_record w test_driver b i n img) =
      (if tf_corrupt_next_write (nb_flash b) then Inl SeFlashVerify else Inr ())"
    "\<not> tf_corrupt_next_write (nb_flash (fst (nor_write_record w test_driver b i n img)))"
    "length (tf_bytes (nb_flash (fst (nor_write_record w test_driver b i n img)))) = length (tf_bytes (nb_flash b))"
    "flash_record 0 (tf_bytes (nb_flash (fst (nor_write_record w test_driver b i n img)))) i (unat n) =
      (if tf_corrupt_next_write (nb_flash b) then img[0 := img ! 0 XOR 1] else img)"
proof -
  let ?f = "nb_flash b"
  have lay: "nb_layout b = layout_new 0" and fit: "layout_fits 0 (tf_bytes ?f)" using fits by (simp_all add: backend_fits_def)
  have n4: "unat n < 4" using n by (simp add: word_less_nat_alt)
  let ?o = "record_offset (layout_new 0) i (of_nat (unat n))"
  let ?new = "if tf_corrupt_next_write ?f then img[0 := img ! 0 XOR 1] else img"
  let ?f1 = "\<lparr>tf_bytes = overwrite (record_start 0 i (unat n)) ?new (tf_bytes ?f), tf_corrupt_next_write = False\<rparr>"
  have off: "slot_offset (nb_layout b) i + n * of_nat STORAGE_IMAGE_LEN = ?o" by (simp add: lay record_offset_def)
  note o = unat_record_offset[OF fit n4, of i, simplified] and room = length_flash_record(2)[OF fit n4, of i]
  have new: "length ?new = 1024" using img by simp
  note sp = overwrite_nth[of "record_start 0 i (unat n)" ?new "tf_bytes ?f", unfolded new, OF room]
  have wr: "nf_write test_driver ?f ?o img = (?f1, True)"
    using room img by (simp add: test_driver_def test_write_def o Let_def)
  have rd: "nf_read test_driver ?f1 ?o STORAGE_IMAGE_LEN = (?f1, Some ?new)"
    using room sp by (simp add: test_driver_def test_read_def o storage_consts)
  have ne: "img[0 := img ! 0 XOR 1] \<noteq> img"
  proof
    assume "img[0 := img ! 0 XOR 1] = img"
    then have "img ! 0 XOR 1 = img ! 0" using img(1) nth_list_update_eq[of 0 img "img ! 0 XOR 1"] by force
    then have "(img ! 0 XOR 1) XOR (img ! 0) = 0" by simp
    then show False by (simp add: xor.commute xor.left_commute)
  qed
  have out: "nor_write_record w test_driver b i n img =
    (if tf_corrupt_next_write ?f
     then (b\<lparr>nb_flash := ?f1, nb_next_record := (nb_next_record b)[storage_slot_number i := n + 1]\<rparr>, Inl SeFlashVerify)
     else (b\<lparr>nb_flash := ?f1, nb_next_record := (nb_next_record b)[storage_slot_number i := n + 1],
             nb_slots := (nb_slots b)[storage_slot_number i := img]\<rparr>, Inr ()))"
    unfolding nor_write_record_def Let_def off wr using rd ne img(2) by (cases "tf_corrupt_next_write ?f") (auto simp: valid_image_def)
  show "snd (nor_write_record w test_driver b i n img) = (if tf_corrupt_next_write ?f then Inl SeFlashVerify else Inr ())"
    "\<not> tf_corrupt_next_write (nb_flash (fst (nor_write_record w test_driver b i n img)))"
    "length (tf_bytes (nb_flash (fst (nor_write_record w test_driver b i n img)))) = length (tf_bytes ?f)"
    "flash_record 0 (tf_bytes (nb_flash (fst (nor_write_record w test_driver b i n img)))) i (unat n) = ?new"
    using sp by (cases "tf_corrupt_next_write ?f"; simp add: out flash_record_def)+
qed

lemma fresh_records_erased:
  assumes "k < 4"
  shows "image_is_erased (flash_record 0 (tf_bytes (fresh_flash corrupt)) i k)"
proof -
  have "record_start 0 i k + 1024 \<le> 8192" using assms by (cases i) (simp_all add: record_start_def)
  then have "flash_record 0 (tf_bytes (fresh_flash corrupt)) i k = replicate 1024 0xff"
    by (simp add: flash_record_def fresh_flash_def subslice_def)
  then show ?thesis by (simp add: image_is_erased_def list_all_iff)
qed

lemma encoded_valid: "storage_ok st \<Longrightarrow> encode_storage_image w st = Inr img \<Longrightarrow> length img = 1024 \<and> valid_image w img"
  using encode_then_decode[of st w] by (metis Inr_inject STORAGE_IMAGE_LEN_def ok_state_simps(2) option.distinct(1) valid_image_def)



lemma persist_first_record:
  assumes fits: "backend_fits tf_bytes 0 b" and st: "storage_ok st"
    and empty: "\<And>i. nor_slot b i = erased_image" and n: "nb_next_record b ! 0 = n" "n < 4"
    and enc: "encode_storage_image w st = Inr img"
    and res: "persist_storage_state w nor_slot (nor_write_slot w test_driver) b st = (b', r)"
  shows "nor_write_record w test_driver b SlotA n img = (b', map_sum id (\<lambda>_. ()) r)" "persist_target w nor_slot b = SlotA"
proof -
  show t: "persist_target w nor_slot b = SlotA"
    by (simp add: persist_target_def select_newest_valid_storage_image_def empty erased_image_invalid)
  have eq: "nor_write_slot w test_driver b SlotA img = nor_write_record w test_driver b SlotA n img"
    using fits n by (simp add: nor_write_slot_def Let_def backend_fits_def flip: not_le)
  obtain b'' r' where wr: "nor_write_record w test_driver b SlotA n img = (b'', r')" by fastforce
  have "nor_slot b'' SlotA = img" if "r' = Inr ()"
    using nor.write_ok[of b w test_driver SlotA img b''] fits eq wr that by (simp add: backend_fits_def)
  then show "nor_write_record w test_driver b SlotA n img = (b', map_sum id (\<lambda>_. ()) r)"
    using res enc st wr eq t encoded_valid[OF st enc]
    by (cases r') (auto simp: persist_storage_state_def storage_ok_def Let_def valid_image_def)
qed

lemma damaged_head_scan:
  assumes "\<not> image_is_erased (R 0)" and "\<not> valid_image w (R 0)"
  shows "fst (scan_slot w R) = erased_image"
  using assms by (simp add: scan_slot_def upto4)

lemma corrupted_record:
  assumes "length img = 1024" and "valid_image w img"
  shows "\<not> image_is_erased (img[0 := img ! 0 XOR 1])" "\<not> valid_image w (img[0 := img ! 0 XOR 1])"
proof -
  obtain s where dec: "decode_storage_image w img = Inr s"
    using assms(2) by (cases "decode_storage_image w img") (auto simp: valid_image_def)
  have magic: "take 4 img = STORAGE_MAGIC" using decode_success(2)[OF dec] by (simp add: subslice_def)
  have "img ! 0 = take 4 img ! 0" "img ! 1 = take 4 img ! 1" by simp_all
  then have b: "img ! 0 = 0x45" "img ! 1 = 0x33" by (simp_all add: magic STORAGE_MAGIC_def)
  have "img[0 := img ! 0 XOR 1] ! 1 = 0x33" using b by simp
  moreover have "1 < length (img[0 := img ! 0 XOR 1])" using assms(1) by simp
  ultimately show "\<not> image_is_erased (img[0 := img ! 0 XOR 1])"
    unfolding image_is_erased_def list_all_length by fastforce
  have "subslice 0 4 (img[0 := img ! 0 XOR 1]) ! 0 = 0x44" using b assms(1) by (simp add: subslice_def)
  then have "subslice 0 4 (img[0 := img ! 0 XOR 1]) \<noteq> STORAGE_MAGIC" by (auto simp: STORAGE_MAGIC_def)
  then show "\<not> valid_image w (img[0 := img ! 0 XOR 1])"
    using decode_failure[of "img[0 := img ! 0 XOR 1]" w] by (auto simp: valid_image_def)
qed

text \<open>
  C11: A record that failed its verification hides the later records of its sector. When the
  first write to a slot fails its read-back and the retry into the next record succeeds, the
  running program restores the state from its cache, but the next restart stops its scan at
  the damaged record and restores nothing.
\<close>

theorem failed_record_hides_retry:
  assumes "storage_ok st"
  shows "\<exists>b0 b1 b2 x b3.
    nor_backend_new w test_driver (fresh_flash True) (layout_new 0) = Inr b0 \<and>
    persist_storage_state w nor_slot (nor_write_slot w test_driver) b0 st = (b1, Inl SeFlashVerify) \<and>
    persist_storage_state w nor_slot (nor_write_slot w test_driver) b1 st = (b2, Inr x) \<and>
    restore_latest_storage_state w nor_slot b2 = Some (durable_state w st) \<and>
    nor_backend_new w test_driver (nb_flash b2) (layout_new 0) = Inr b3 \<and>
    restore_latest_storage_state w nor_slot b3 = None"
proof -
  have len: "length (tf_bytes (fresh_flash True)) = 8192" by (simp add: fresh_flash_def)
  obtain b0 where b0: "nor_backend_new w test_driver (fresh_flash True) (layout_new 0) = Inr b0" "nb_flash b0 = fresh_flash True"
    by (rule test_boot[OF len])
  note boot = boot_erased_synced[OF test_driver_ok b0(1) fresh_records_erased]
  have fits0: "backend_fits tf_bytes 0 b0" using boot(1) by (simp add: journal_synced_def)
  have scan0: "nor_slot b0 i = erased_image \<and> nb_next_record b0 ! storage_slot_number i = 0" for i
    using backend_new_scans(5)[OF test_driver_ok b0(1), of i] scan_erased[OF allI[OF impI[OF fresh_records_erased]]] by simp
  obtain img where enc: "encode_storage_image w st = Inr img" "decode_storage_image w img = Inr (durable_state w st)"
    using encode_then_decode[OF assms] by metis
  note img = encoded_valid[OF assms enc(1)]
  obtain b1 r1 where p1: "persist_storage_state w nor_slot (nor_write_slot w test_driver) b0 st = (b1, r1)" by fastforce
  have w1: "nor_write_record w test_driver b0 SlotA 0 img = (b1, map_sum id (\<lambda>_. ()) r1)"
    by (rule persist_first_record(1)[OF fits0 assms _ _ _ enc(1) p1]) (use scan0[of SlotA] scan0 in simp_all)
  note t1 = test_write_record[OF fits0, of 0 img w SlotA, unfolded w1 b0(2), simplified fresh_flash_def]
  have r1: "r1 = Inl SeFlashVerify" using t1(1) img by (cases r1) simp_all
  have b1: "nb_next_record b1 ! 0 = 1" "nor_slot b1 i = erased_image" for i
    by (rule nor_write_record_cases[of w test_driver b0 SlotA 0 img];
        use w1 r1 scan0 fits0 in \<open>auto simp: nor_slot_def backend_fits_def nor_inv_def\<close>)+
  note out1 = write_record_outcome[OF test_driver_ok fits0 _ _ w1]
  have fits1: "backend_fits tf_bytes 0 b1" using out1(1) img by simp
  obtain b2 r2 where p2: "persist_storage_state w nor_slot (nor_write_slot w test_driver) b1 st = (b2, r2)" by fastforce
  note w2 = persist_first_record(1)[OF fits1 assms b1(2,1) _ enc(1) p2, simplified]
  note t2 = test_write_record[OF fits1, of 1 img w SlotA, unfolded w2, simplified]
  have r2: "\<exists>x. r2 = Inr x" using t2(1) t1(2) img by (cases r2) (simp_all split: if_splits)
  then obtain x where x: "r2 = Inr x" by blast
  have len2: "length (tf_bytes (nb_flash b2)) = 8192" using t1(3) t2(3) img len by (simp add: fresh_flash_def)
  obtain b3 where b3: "nor_backend_new w test_driver (nb_flash b2) (layout_new 0) = Inr b3" by (rule test_boot[OF len2])
  note out2 = write_record_outcome[OF test_driver_ok fits1 _ _ w2[unfolded x, simplified]]
  have slots2: "nor_slot b2 SlotA = img" "nor_slot b2 SlotB = erased_image" using out2(4) img b1(2)[of SlotB] by simp_all
  have restored: "restore_latest_storage_state w nor_slot b2 = Some (durable_state w st)"
    by (simp add: restore_latest_storage_state_def select_newest_valid_storage_image_def slots2 enc(2) erased_image_invalid)
  have "flash_record 0 (tf_bytes (nb_flash b2)) SlotA 0 = img[0 := img ! 0 XOR 1]" using out2(3)[of 0] t1(4) img by simp
  then have a3: "nor_slot b3 SlotA = erased_image"
    using backend_new_scans(5)[OF test_driver_ok b3, of SlotA] damaged_head_scan corrupted_record[of img w] img by (metis fst_conv)
  have "image_is_erased (flash_record 0 (tf_bytes (nb_flash b2)) SlotB k)" if "k < 4" for k
    using out1(2)[OF _ _ that] out2(2)[OF _ _ that] fresh_records_erased[OF that, of True SlotB] img b0(2) by simp
  then have "nor_slot b3 SlotB = erased_image"
    using backend_new_scans(5)[OF test_driver_ok b3, of SlotB] scan_erased[of "flash_record 0 (tf_bytes (nb_flash b2)) SlotB" w] by simp
  then have "restore_latest_storage_state w nor_slot b3 = None"
    using a3 by (simp add: restore_latest_storage_state_def select_newest_valid_storage_image_def erased_image_invalid)
  then show ?thesis using b0(1) p1 r1 p2 x b3 restored by blast
qed

theorem failed_record_hides_retry_witness:
  "\<exists>b0 b1 b2 x b3.
    nor_backend_new True test_driver (fresh_flash True) (layout_new 0) = Inr b0 \<and>
    persist_storage_state True nor_slot (nor_write_slot True test_driver) b0 sample_storage = (b1, Inl SeFlashVerify) \<and>
    persist_storage_state True nor_slot (nor_write_slot True test_driver) b1 sample_storage = (b2, Inr x) \<and>
    restore_latest_storage_state True nor_slot b2 = Some (durable_state True sample_storage) \<and>
    nor_backend_new True test_driver (nb_flash b2) (layout_new 0) = Inr b3 \<and>
    restore_latest_storage_state True nor_slot b3 = None"
  by (rule failed_record_hides_retry[OF sample_storage_ok])

end
