(* ===== verification/HS_HostState.thy ===== *)
theory HS_HostState
  imports HS_StorageCodec HS_Slots HS_Runs
begin

text \<open>
  The table of Bluetooth hosts (\<open>bridge/host_state.rs\<close>) and the pairing window
  (\<open>bridge/pairing.rs\<close>): per host the link and security state, the report subscriptions of
  the running session and the stored ones, names and bonds; the active target; the snapshot
  taken for storage and its restoration.
\<close>

section \<open>State\<close>

record report_ready =
  rr_keyboard :: bool
  rr_mouse :: bool
  rr_consumer :: bool
  rr_keyboard_output :: bool

definition report_ready_default :: report_ready where
  "report_ready_default =
     \<lparr>rr_keyboard = False, rr_mouse = False, rr_consumer = False, rr_keyboard_output = False\<rparr>"

fun ready_get :: "report_ready \<Rightarrow> report_kind \<Rightarrow> bool" where
  "ready_get r RkKeyboard = rr_keyboard r"
| "ready_get r RkMouse = rr_mouse r"
| "ready_get r RkConsumer = rr_consumer r"
| "ready_get r RkKeyboardOutput = rr_keyboard_output r"

fun ready_set :: "report_ready \<Rightarrow> report_kind \<Rightarrow> bool \<Rightarrow> report_ready" where
  "ready_set r RkKeyboard b = r\<lparr>rr_keyboard := b\<rparr>"
| "ready_set r RkMouse b = r\<lparr>rr_mouse := b\<rparr>"
| "ready_set r RkConsumer b = r\<lparr>rr_consumer := b\<rparr>"
| "ready_set r RkKeyboardOutput b = r\<lparr>rr_keyboard_output := b\<rparr>"

record host_runtime_state =
  hs_host_id :: host_id
  hs_connected :: bool
  hs_encrypted :: bool
  hs_bonded :: bool
  hs_stored_report_ready :: report_ready
  hs_session_report_ready :: report_ready
  hs_keyboard_leds :: "keyboard_led_state option"
  hs_name :: fixed_name
  hs_discovered_name :: fixed_name
  hs_bond :: "stored_bond option"

definition host_runtime_default :: host_runtime_state where
  "host_runtime_default =
     \<lparr>hs_host_id = 0, hs_connected = False, hs_encrypted = False, hs_bonded = False,
      hs_stored_report_ready = report_ready_default, hs_session_report_ready = report_ready_default,
      hs_keyboard_leds = None, hs_name = fixed_name_empty, hs_discovered_name = fixed_name_empty, hs_bond = None\<rparr>"

definition host_can_send :: "host_runtime_state \<Rightarrow> report_kind \<Rightarrow> bool" where
  "host_can_send h kind = (hs_connected h \<and> hs_encrypted h \<and> ready_get (hs_session_report_ready h) kind)"

definition has_bond :: "host_runtime_state \<Rightarrow> bool" where
  "has_bond h = (hs_bonded h \<or> hs_bond h \<noteq> None)"

datatype host_state_error = HseInvalidHostId | HseHostCapacity

record host_machine =
  hm_active_target :: "host_id option"
  hm_hosts :: "host_runtime_state option list"

definition host_machine_new :: "nat \<Rightarrow> host_machine" where
  "host_machine_new n = \<lparr>hm_active_target = None, hm_hosts = replicate n None\<rparr>"

section \<open>Operations\<close>

definition host_index :: "host_runtime_state option list \<Rightarrow> host_id \<Rightarrow> nat option" where
  "host_index hosts h = position (\<lambda>e. case e of Some x \<Rightarrow> hs_host_id x = h | None \<Rightarrow> False) hosts"

definition host_get :: "host_machine \<Rightarrow> host_id \<Rightarrow> host_runtime_state option" where
  "host_get m h = slot_get host_index (hm_hosts m) h"

definition modify_host :: "host_machine \<Rightarrow> nat \<Rightarrow> (host_runtime_state \<Rightarrow> host_runtime_state) \<Rightarrow> host_machine" where
  "modify_host m i f = m\<lparr>hm_hosts := (hm_hosts m)[i := map_option f (hm_hosts m ! i)]\<rparr>"

definition upsert_host :: "host_machine \<Rightarrow> host_id \<Rightarrow> (host_machine, host_state_error, nat) outcome" where
  "upsert_host m h =
     (case host_id_validated h of
        Inl _ \<Rightarrow> (m, Inl HseInvalidHostId)
      | Inr _ \<Rightarrow>
          (case host_index (hm_hosts m) h of
             Some i \<Rightarrow> (m, Inr i)
           | None \<Rightarrow>
               (case position (\<lambda>e. e = None) (hm_hosts m) of
                  None \<Rightarrow> (m, Inl HseHostCapacity)
                | Some i \<Rightarrow> (m\<lparr>hm_hosts := (hm_hosts m)[i := Some (host_runtime_default\<lparr>hs_host_id := h\<rparr>)]\<rparr>, Inr i))))"

definition set_active_target :: "host_machine \<Rightarrow> host_id \<Rightarrow> (host_machine, host_state_error, bool) outcome" where
  "set_active_target m h =
     andThen (upsert_host m h) (\<lambda>_ s. (s\<lparr>hm_active_target := Some h\<rparr>, Inr (hm_active_target s \<noteq> Some h)))"

definition clear_active_target :: "host_machine \<Rightarrow> host_machine" where
  "clear_active_target m = m\<lparr>hm_active_target := None\<rparr>"

definition on_connected :: "host_machine \<Rightarrow> host_id \<Rightarrow> (host_machine, host_state_error, unit) outcome" where
  "on_connected m h =
     andThen (upsert_host m h) (\<lambda>i s. (modify_host s i (\<lambda>x.
        x\<lparr>hs_connected := True, hs_encrypted := False, hs_session_report_ready := report_ready_default\<rparr>), Inr ()))"

definition on_disconnected :: "host_machine \<Rightarrow> host_id \<Rightarrow> host_machine" where
  "on_disconnected m h =
     (case host_index (hm_hosts m) h of
        None \<Rightarrow> m
      | Some i \<Rightarrow> modify_host m i (\<lambda>x.
          x\<lparr>hs_connected := False, hs_encrypted := False, hs_session_report_ready := report_ready_default\<rparr>))"

text \<open>The update of one host by \<open>on_security_changed\<close>, and whether it has to be persisted.\<close>

definition security_persist :: "host_runtime_state \<Rightarrow> bool \<Rightarrow> stored_bond option \<Rightarrow> bool" where
  "security_persist x bonded bond =
     (hs_bonded x \<noteq> (bonded \<or> hs_bond x \<noteq> None) \<or> (bond \<noteq> None \<and> hs_bond x \<noteq> bond))"

definition security_update :: "bool \<Rightarrow> bool \<Rightarrow> stored_bond option \<Rightarrow> host_runtime_state \<Rightarrow> host_runtime_state" where
  "security_update encrypted bonded bond x =
     (let stored_bonded = (bonded \<or> hs_bond x \<noteq> None);
          x1 = x\<lparr>hs_encrypted := encrypted, hs_bonded := stored_bonded\<rparr>;
          x2 = (case bond of None \<Rightarrow> x1 | Some b \<Rightarrow> x1\<lparr>hs_bond := Some b\<rparr>)
      in if hs_connected x2 \<and> hs_encrypted x2 \<and> hs_bonded x2
         then x2\<lparr>hs_session_report_ready := hs_stored_report_ready x2\<rparr>
         else if \<not> hs_encrypted x2 then x2\<lparr>hs_session_report_ready := report_ready_default\<rparr>
         else x2)"

definition on_security_changed ::
    "host_machine \<Rightarrow> host_id \<Rightarrow> bool \<Rightarrow> bool \<Rightarrow> stored_bond option \<Rightarrow> (host_machine, host_state_error, bool) outcome" where
  "on_security_changed m h encrypted bonded bond =
     andThen (upsert_host m h) (\<lambda>i s.
       (modify_host s i (security_update encrypted bonded bond),
        Inr (case hm_hosts s ! i of None \<Rightarrow> False | Some x \<Rightarrow> security_persist x bonded bond)))"

definition on_cccd_changed ::
    "host_machine \<Rightarrow> host_id \<Rightarrow> report_kind \<Rightarrow> bool \<Rightarrow> (host_machine, host_state_error, bool) outcome" where
  "on_cccd_changed m h report enabled =
     andThen (upsert_host m h) (\<lambda>i s.
       (modify_host s i (\<lambda>x. x\<lparr>hs_stored_report_ready := ready_set (hs_stored_report_ready x) report enabled,
                              hs_session_report_ready := ready_set (hs_session_report_ready x) report enabled\<rparr>),
        Inr (case hm_hosts s ! i of None \<Rightarrow> False | Some x \<Rightarrow> ready_get (hs_stored_report_ready x) report \<noteq> enabled)))"

definition on_keyboard_led_changed ::
    "host_machine \<Rightarrow> host_id \<Rightarrow> keyboard_led_state \<Rightarrow> (host_machine, host_state_error, unit) outcome" where
  "on_keyboard_led_changed m h leds =
     andThen (upsert_host m h) (\<lambda>i s. (modify_host s i (\<lambda>x. x\<lparr>hs_keyboard_leds := Some leds\<rparr>), Inr ()))"

definition machine_clear_host :: "host_machine \<Rightarrow> host_id \<Rightarrow> host_machine \<times> bool" where
  "machine_clear_host m h =
     (case host_index (hm_hosts m) h of
        None \<Rightarrow> (m, False)
      | Some i \<Rightarrow>
          (m\<lparr>hm_hosts := (hm_hosts m)[i := None],
             hm_active_target := (if hm_active_target m = Some h then None else hm_active_target m)\<rparr>, True))"

definition restored_host :: "stored_host_profile \<Rightarrow> host_runtime_state \<Rightarrow> host_runtime_state" where
  "restored_host sh x =
     x\<lparr>hs_bonded := sh_bonded sh, hs_connected := False, hs_encrypted := False,
       hs_stored_report_ready :=
         \<lparr>rr_keyboard = sh_keyboard_cccd_enabled sh, rr_mouse = sh_mouse_cccd_enabled sh,
          rr_consumer = sh_consumer_cccd_enabled sh, rr_keyboard_output = sh_keyboard_output_cccd_enabled sh\<rparr>,
       hs_session_report_ready := report_ready_default, hs_keyboard_leds := None, hs_name := sh_name sh,
       hs_discovered_name := fixed_name_empty, hs_bond := sh_bond sh\<rparr>"

fun restore_hosts :: "host_machine \<Rightarrow> stored_host_profile list \<Rightarrow> (host_machine, host_state_error, unit) outcome" where
  "restore_hosts m [] = (m, Inr ())"
| "restore_hosts m (sh # rest) =
     andThen (upsert_host m (sh_host_id sh)) (\<lambda>i s. restore_hosts (modify_host s i (restored_host sh)) rest)"

definition machine_restore :: "host_machine \<Rightarrow> storage_state \<Rightarrow> (host_machine, host_state_error, unit) outcome" where
  "machine_restore m st =
     restore_hosts (m\<lparr>hm_active_target := st_last_active_host st,
                      hm_hosts := replicate (length (hm_hosts m)) None\<rparr>) (st_hosts st)"

definition stored_profile :: "host_runtime_state \<Rightarrow> stored_host_profile" where
  "stored_profile x =
     \<lparr>sh_host_id = hs_host_id x, sh_bonded = hs_bonded x,
      sh_keyboard_cccd_enabled = rr_keyboard (hs_stored_report_ready x),
      sh_mouse_cccd_enabled = rr_mouse (hs_stored_report_ready x),
      sh_consumer_cccd_enabled = rr_consumer (hs_stored_report_ready x),
      sh_keyboard_output_cccd_enabled = rr_keyboard_output (hs_stored_report_ready x),
      sh_name = hs_name x, sh_bond = hs_bond x\<rparr>"

fun push_hosts :: "storage_state \<Rightarrow> host_runtime_state list \<Rightarrow> storage_error + storage_state" where
  "push_hosts st [] = Inr st"
| "push_hosts st (x # xs) =
     (case push_host st (stored_profile x) of (_, Inl e) \<Rightarrow> Inl e | (st', Inr _) \<Rightarrow> push_hosts st' xs)"

definition machine_storage_state :: "host_machine \<Rightarrow> u32 \<Rightarrow> storage_error + storage_state" where
  "machine_storage_state m generation =
     bindE (push_hosts (storage_state_new generation) (flatten (hm_hosts m))) (\<lambda>st.
       Inr (st\<lparr>st_last_active_host :=
         (case hm_active_target m of
            None \<Rightarrow> None
          | Some a \<Rightarrow> if list_ex (\<lambda>h. sh_host_id h = a) (st_hosts st) then Some a else None)\<rparr>))"

definition machine_can_send :: "host_machine \<Rightarrow> host_id \<Rightarrow> report_kind \<Rightarrow> bool" where
  "machine_can_send m h kind = (case host_get m h of None \<Rightarrow> False | Some x \<Rightarrow> host_can_send x kind)"

definition machine_set_name :: "host_machine \<Rightarrow> host_id \<Rightarrow> fixed_name \<Rightarrow> (host_machine, host_state_error, bool) outcome" where
  "machine_set_name m h name =
     andThen (upsert_host m h) (\<lambda>i s.
       (modify_host s i (\<lambda>x. x\<lparr>hs_name := name\<rparr>),
        Inr (case hm_hosts s ! i of None \<Rightarrow> False | Some x \<Rightarrow> hs_name x \<noteq> name)))"

definition set_discovered_name :: "host_machine \<Rightarrow> host_id \<Rightarrow> fixed_name \<Rightarrow> (host_machine, host_state_error, bool) outcome" where
  "set_discovered_name m h name =
     andThen (upsert_host m h) (\<lambda>i s.
       (modify_host s i (\<lambda>x. x\<lparr>hs_discovered_name := name\<rparr>),
        Inr (case hm_hosts s ! i of None \<Rightarrow> False | Some x \<Rightarrow> hs_discovered_name x \<noteq> name)))"

text \<open>The search for the next candidate after the current host.\<close>

fun next_target_scan ::
    "(host_runtime_state \<Rightarrow> bool) \<Rightarrow> host_id option \<Rightarrow> host_runtime_state list \<Rightarrow> host_id option \<Rightarrow> bool \<Rightarrow> host_id option" where
  "next_target_scan cand current [] first return_next = first"
| "next_target_scan cand current (x # xs) first return_next =
     (if \<not> cand x then next_target_scan cand current xs first return_next
      else
        let first' = (if first = None then Some (hs_host_id x) else first) in
        if return_next then Some (hs_host_id x)
        else next_target_scan cand current xs first' (Some (hs_host_id x) = current))"

definition next_target_after :: "host_machine \<Rightarrow> host_id option \<Rightarrow> (host_runtime_state \<Rightarrow> bool) \<Rightarrow> host_id option" where
  "next_target_after m current cand = next_target_scan cand current (flatten (hm_hosts m)) None (current = None)"

definition next_connected_target_after :: "host_machine \<Rightarrow> host_id option \<Rightarrow> host_id option" where
  "next_connected_target_after m current = next_target_after m current hs_connected"

definition next_connected_target :: "host_machine \<Rightarrow> host_id option" where
  "next_connected_target m = next_connected_target_after m (hm_active_target m)"

definition next_ready_target_after :: "host_machine \<Rightarrow> host_id option \<Rightarrow> report_kind \<Rightarrow> host_id option" where
  "next_ready_target_after m current report = next_target_after m current (\<lambda>x. host_can_send x report)"

fun first_unbonded :: "host_machine \<Rightarrow> nat list \<Rightarrow> host_id option" where
  "first_unbonded m [] = None"
| "first_unbonded m (index # rest) =
     (if index + 1 \<ge> 256 then None
      else
        let h = of_nat (index + 1) in
        case host_get m h of
          Some x \<Rightarrow> if has_bond x then first_unbonded m rest else Some h
        | None \<Rightarrow> Some h)"

definition pairing_candidate :: "host_machine \<Rightarrow> host_id option" where
  "pairing_candidate m =
     (case hm_active_target m of
        Some active \<Rightarrow>
          (case host_get m active of
             Some x \<Rightarrow> if \<not> has_bond x then Some active else first_unbonded m [0..<length (hm_hosts m)]
           | None \<Rightarrow> first_unbonded m [0..<length (hm_hosts m)])
      | None \<Rightarrow> first_unbonded m [0..<length (hm_hosts m)])"

section \<open>The pairing window\<close>

record pairing_session =
  ps_host_id :: host_id
  ps_expires_at_ms :: u64

record pairing_mode =
  pmode_current :: "pairing_session option"

definition pairing_mode_new :: pairing_mode where
  "pairing_mode_new = \<lparr>pmode_current = None\<rparr>"

definition pairing_enter :: "pairing_mode \<Rightarrow> host_id \<Rightarrow> u64 \<Rightarrow> u64 \<Rightarrow> pairing_mode" where
  "pairing_enter p h now duration = p\<lparr>pmode_current := Some \<lparr>ps_host_id = h, ps_expires_at_ms = sat_add now duration\<rparr>\<rparr>"

definition pairing_cancel :: "pairing_mode \<Rightarrow> pairing_mode" where
  "pairing_cancel p = p\<lparr>pmode_current := None\<rparr>"

definition pairing_is_open_for :: "pairing_mode \<Rightarrow> host_id \<Rightarrow> bool" where
  "pairing_is_open_for p h = (case pmode_current p of Some s \<Rightarrow> ps_host_id s = h | None \<Rightarrow> False)"

definition pairing_clear_host :: "pairing_mode \<Rightarrow> host_id \<Rightarrow> pairing_mode" where
  "pairing_clear_host p h = (if pairing_is_open_for p h then p\<lparr>pmode_current := None\<rparr> else p)"

definition pairing_tick :: "pairing_mode \<Rightarrow> u64 \<Rightarrow> pairing_mode \<times> host_id option" where
  "pairing_tick p now =
     (case pmode_current p of
        None \<Rightarrow> (p, None)
      | Some s \<Rightarrow> if now < ps_expires_at_ms s then (p, None) else (p\<lparr>pmode_current := None\<rparr>, Some (ps_host_id s)))"

section \<open>The table as a map\<close>

interpretation host_slots: slot_table hs_host_id host_index
  by unfold_locales (simp add: host_index_def option.case_distrib cong: option.case_cong)

definition host_inv :: "host_machine \<Rightarrow> bool" where
  "host_inv m = (unique_keys hs_host_id (hm_hosts m) \<and> (\<forall>x. Some x \<in> set (hm_hosts m) \<longrightarrow> slot_ok (hs_host_id x)))"

definition fresh_host :: "host_machine \<Rightarrow> host_id \<Rightarrow> host_runtime_state" where
  "fresh_host m h = (case host_get m h of Some x \<Rightarrow> x | None \<Rightarrow> host_runtime_default\<lparr>hs_host_id := h\<rparr>)"

lemma host_inv_new: "host_inv (host_machine_new n)"
  by (simp add: host_inv_def host_machine_new_def in_set_replicate)

lemma host_get_new: "host_get (host_machine_new n) h = None"
  by (simp add: host_get_def host_machine_new_def host_slots.get_None_iff in_set_replicate)

lemma host_get_iff: "host_inv m \<Longrightarrow> host_get m h = Some x \<longleftrightarrow> Some x \<in> set (hm_hosts m) \<and> hs_host_id x = h"
  by (simp add: host_get_def host_inv_def host_slots.get_Some_iff)

lemma host_get_id: "host_inv m \<Longrightarrow> host_get m h = Some x \<Longrightarrow> hs_host_id x = h \<and> slot_ok h"
  by (auto simp: host_get_iff host_inv_def)

lemma fresh_host_id: "host_inv m \<Longrightarrow> hs_host_id (fresh_host m h) = h"
  by (auto simp: fresh_host_def dest: host_get_id split: option.splits)

lemma modify_host_view:
  assumes inv: "host_inv m" and i: "host_index (hm_hosts m) h = Some i" and f: "\<And>x. hs_host_id (f x) = hs_host_id x"
  shows "host_inv (modify_host m i f)"
    "host_get (modify_host m i f) h' = (if h' = h then map_option f (host_get m h) else host_get m h')"
    "length (hm_hosts (modify_host m i f)) = length (hm_hosts m)"
proof -
  obtain x where x: "i < length (hm_hosts m)" "hm_hosts m ! i = Some x" "hs_host_id x = h"
    by (rule host_slots.index_SomeE[OF i])
  have hosts: "hm_hosts (modify_host m i f) = (hm_hosts m)[i := Some (f x)]" by (simp add: modify_host_def x)
  have u: "unique_keys hs_host_id (hm_hosts m)" using inv by (simp add: host_inv_def)
  have u': "unique_keys hs_host_id ((hm_hosts m)[i := Some (f x)])" by (rule host_slots.replace_unique[OF u i]) (simp add: f x)
  have mem: "Some x \<in> set (hm_hosts m)" using x by (metis nth_mem)
  have ids: "slot_ok (hs_host_id y)" if "Some y \<in> set ((hm_hosts m)[i := Some (f x)])" for y
    using that inv mem set_update_subset_insert[of "hm_hosts m" i "Some (f x)"] by (auto simp: host_inv_def f)
  show "host_inv (modify_host m i f)" using u' ids by (simp add: host_inv_def hosts)
  have gx: "host_get m h = Some x" using mem x(3) host_get_iff[OF inv] by blast
  show "host_get (modify_host m i f) h' = (if h' = h then map_option f (host_get m h) else host_get m h')"
  proof (cases "h' = h")
    case True
    then show ?thesis using host_slots.get_update_same[OF u' x(1)] by (simp add: host_get_def[of "modify_host m i f"] hosts f x(3) gx)
  next
    case False
    then show ?thesis using host_slots.get_update_other[OF u u' x(1), of h'] x f by (simp add: host_get_def hosts)
  qed
  show "length (hm_hosts (modify_host m i f)) = length (hm_hosts m)" by (simp add: hosts)
qed

lemma upsert_view:
  assumes inv: "host_inv m"
  obtains (invalid) "upsert_host m h = (m, Inl HseInvalidHostId)" "\<not> slot_ok h"
  | (full) "upsert_host m h = (m, Inl HseHostCapacity)" "host_get m h = None" "None \<notin> set (hm_hosts m)"
  | (there) m' i where "upsert_host m h = (m', Inr i)" "slot_ok h" "host_inv m'" "host_index (hm_hosts m') h = Some i"
      "host_get m' h = Some (fresh_host m h)" "\<And>h'. h' \<noteq> h \<Longrightarrow> host_get m' h' = host_get m h'"
      "hm_active_target m' = hm_active_target m" "length (hm_hosts m') = length (hm_hosts m)"
proof (cases "slot_ok h")
  case False
  then have "host_id_validated h = Inl h" by (auto simp: host_id_validated_simps slot_ok_def)
  then show thesis using invalid False by (simp add: upsert_host_def)
next
  case True
  then have val: "host_id_validated h = Inr h" by (simp add: host_id_validated_simps slot_ok_def)
  show thesis
  proof (cases "host_index (hm_hosts m) h")
    case (Some i)
    then obtain x where x: "i < length (hm_hosts m)" "hm_hosts m ! i = Some x" "hs_host_id x = h"
      by (rule host_slots.index_SomeE)
    have "host_get m h = Some x" by (simp add: host_get_def slot_get_def Some x)
    then show thesis using there[of m i] val Some True inv by (simp add: upsert_host_def fresh_host_def)
  next
    case None
    then have none: "host_get m h = None" by (simp add: host_get_def slot_get_def)
    show thesis
    proof (cases "position (\<lambda>e. e = None) (hm_hosts m)")
      case None
      then have "upsert_host m h = (m, Inl HseHostCapacity)" using val \<open>host_index _ h = None\<close> by (simp add: upsert_host_def)
      moreover have "None \<notin> set (hm_hosts m)" using None by (auto simp: position_None_iff)
      ultimately show thesis using full none by blast
    next
      case (Some i)
      let ?x = "host_runtime_default\<lparr>hs_host_id := h\<rparr>"
      let ?m = "m\<lparr>hm_hosts := (hm_hosts m)[i := Some ?x]\<rparr>"
      have i: "i < length (hm_hosts m)" "hm_hosts m ! i = None" using position_SomeD[OF Some] by auto
      have u: "unique_keys hs_host_id (hm_hosts m)" using inv by (simp add: host_inv_def)
      have u': "unique_keys hs_host_id ((hm_hosts m)[i := Some ?x])"
        by (rule host_slots.insert_unique[OF u \<open>host_index _ h = None\<close>]) simp
      have inv': "host_inv ?m" using u' inv True set_update_subset_insert[of "hm_hosts m" i "Some ?x"]
        by (auto simp: host_inv_def)
      have get: "host_get ?m h = Some ?x" using host_slots.get_update_same[OF u' i(1)] by (simp add: host_get_def)
      have idx: "host_index (hm_hosts ?m) h = Some i"
      proof -
        obtain j y where j: "host_index (hm_hosts ?m) h = Some j" "j < length (hm_hosts ?m)" "hm_hosts ?m ! j = Some y" "hs_host_id y = h"
          using get host_slots.index_SomeE[of "hm_hosts ?m" h] by (auto simp: host_get_def slot_get_def split: option.splits)
        then have "j = i" using u'[unfolded unique_keys_iff, rule_format, of j i y ?x] i by simp
        then show ?thesis using j(1) by simp
      qed
      have oth: "host_get ?m h' = host_get m h'" if "h' \<noteq> h" for h'
        using host_slots.get_update_other[OF u u' i(1), of h'] i(2) that by (simp add: host_get_def)
      have "upsert_host m h = (?m, Inr i)" using val Some \<open>host_index _ h = None\<close> by (simp add: upsert_host_def)
      then show thesis using there[OF _ True inv' idx] get oth none by (simp add: fresh_host_def)
    qed
  qed
qed

text \<open>Every fallible operation on one host is a failure that changes nothing or one map update.\<close>

lemma upsert_modify_view:
  assumes inv: "host_inv m" and f: "\<And>x. hs_host_id (f x) = hs_host_id x"
    and op: "r = andThen (upsert_host m h) (\<lambda>i s. (modify_host s i f, Inr (g (hm_hosts s ! i))))"
  obtains (failed) e where "r = (m, Inl e)"
  | (updated) m' where "r = (m', Inr (g (Some (fresh_host m h))))" "slot_ok h" "host_inv m'"
      "host_get m' = (host_get m)(h \<mapsto> f (fresh_host m h))"
      "hm_active_target m' = hm_active_target m" "length (hm_hosts m') = length (hm_hosts m)"
proof (cases rule: upsert_view[OF inv, of h, case_names invalid full there])
  case invalid
  then show thesis using failed op by simp
next
  case full
  then show thesis using failed op by simp
next
  case (there s i)
  note view = modify_host_view[OF there(3,4) f]
  have "hm_hosts s ! i = Some (fresh_host m h)"
    using there(4,5) by (simp add: host_get_def slot_get_def)
  then have "r = (modify_host s i f, Inr (g (Some (fresh_host m h))))" using op there(1) by simp
  moreover have "host_get (modify_host s i f) = (host_get m)(h \<mapsto> f (fresh_host m h))"
    using view(2) there(5,6) by (auto simp: fun_eq_iff)
  ultimately show thesis using updated view there by (simp add: modify_host_def)
qed

section \<open>Runs of the host table\<close>

datatype host_op =
  HoActive host_id | HoClearActive | HoConnected host_id | HoDisconnected host_id
  | HoSecurity host_id bool bool "stored_bond option" | HoCccd host_id report_kind bool
  | HoLed host_id keyboard_led_state | HoClear host_id | HoRestore storage_state
  | HoName host_id fixed_name | HoDiscovered host_id fixed_name

fun host_step :: "host_op \<Rightarrow> host_machine \<Rightarrow> host_machine" where
  "host_step (HoActive h) m = fst (set_active_target m h)"
| "host_step HoClearActive m = clear_active_target m"
| "host_step (HoConnected h) m = fst (on_connected m h)"
| "host_step (HoDisconnected h) m = on_disconnected m h"
| "host_step (HoSecurity h e b bond) m = fst (on_security_changed m h e b bond)"
| "host_step (HoCccd h k on) m = fst (on_cccd_changed m h k on)"
| "host_step (HoLed h leds) m = fst (on_keyboard_led_changed m h leds)"
| "host_step (HoClear h) m = fst (machine_clear_host m h)"
| "host_step (HoRestore st) m = fst (machine_restore m st)"
| "host_step (HoName h n) m = fst (machine_set_name m h n)"
| "host_step (HoDiscovered h n) m = fst (set_discovered_name m h n)"

text \<open>The update an operation makes to the host it addresses.\<close>

fun host_update :: "host_op \<Rightarrow> (host_id \<times> (host_runtime_state \<Rightarrow> host_runtime_state)) option" where
  "host_update (HoActive h) = Some (h, \<lambda>x. x)"
| "host_update (HoConnected h) =
     Some (h, \<lambda>x. x\<lparr>hs_connected := True, hs_encrypted := False, hs_session_report_ready := report_ready_default\<rparr>)"
| "host_update (HoSecurity h e b bond) = Some (h, security_update e b bond)"
| "host_update (HoCccd h k on) =
     Some (h, \<lambda>x. x\<lparr>hs_stored_report_ready := ready_set (hs_stored_report_ready x) k on,
                     hs_session_report_ready := ready_set (hs_session_report_ready x) k on\<rparr>)"
| "host_update (HoLed h leds) = Some (h, \<lambda>x. x\<lparr>hs_keyboard_leds := Some leds\<rparr>)"
| "host_update (HoName h n) = Some (h, \<lambda>x. x\<lparr>hs_name := n\<rparr>)"
| "host_update (HoDiscovered h n) = Some (h, \<lambda>x. x\<lparr>hs_discovered_name := n\<rparr>)"
| "host_update _ = None"

lemma security_update_fields [simp]:
  "hs_host_id (security_update e b bond x) = hs_host_id x" "hs_connected (security_update e b bond x) = hs_connected x"
  "hs_encrypted (security_update e b bond x) = e" "hs_name (security_update e b bond x) = hs_name x"
  "hs_stored_report_ready (security_update e b bond x) = hs_stored_report_ready x"
  by (simp_all add: security_update_def Let_def split: option.split)

lemma host_updates_keep_id: "host_update x = Some (h, f) \<Longrightarrow> hs_host_id (f y) = hs_host_id y"
  by (cases x) auto

lemma set_active_view:
  assumes "host_inv m"
  obtains (failed) e where "set_active_target m h = (m, Inl e)"
  | (updated) m' b where "set_active_target m h = (m', Inr b)" "slot_ok h" "host_inv m'"
      "host_get m' = (host_get m)(h \<mapsto> fresh_host m h)" "hm_active_target m' = Some h"
      "length (hm_hosts m') = length (hm_hosts m)"
proof (cases rule: upsert_view[OF assms, of h, case_names invalid full there])
  case (there s i)
  have "host_get (s\<lparr>hm_active_target := Some h\<rparr>) = (host_get m)(h \<mapsto> fresh_host m h)"
    using there(5,6) by (auto simp: fun_eq_iff host_get_def)
  then show thesis using updated there by (simp add: set_active_target_def host_inv_def)
qed (use failed in \<open>simp_all add: set_active_target_def\<close>)

lemma host_step_update_view:
  assumes inv: "host_inv m" and upd: "host_update x = Some (h, f)"
  shows "host_step x m = m \<or>
    (slot_ok h \<and> host_inv (host_step x m) \<and> host_get (host_step x m) = (host_get m)(h \<mapsto> f (fresh_host m h)) \<and>
     hm_active_target (host_step x m) = (case x of HoActive _ \<Rightarrow> Some h | _ \<Rightarrow> hm_active_target m) \<and>
     length (hm_hosts (host_step x m)) = length (hm_hosts m))"
proof (cases x)
  case (HoActive h')
  then show ?thesis using upd by (cases rule: set_active_view[OF inv, of h]) auto
next
  case (HoConnected h')
  then show ?thesis using upd
    by (cases rule: upsert_modify_view[OF inv, where h = h and f = f and g = "\<lambda>_. ()", OF _ refl])
      (auto simp: on_connected_def)
next
  case (HoSecurity h' e b bond)
  then show ?thesis using upd
    by (cases rule: upsert_modify_view[OF inv, where h = h and f = f and
          g = "\<lambda>e. case e of None \<Rightarrow> False | Some x \<Rightarrow> security_persist x b bond", OF _ refl])
      (auto simp: on_security_changed_def)
next
  case (HoCccd h' k on)
  then show ?thesis using upd
    by (cases rule: upsert_modify_view[OF inv, where h = h and f = f and
          g = "\<lambda>e. case e of None \<Rightarrow> False | Some x \<Rightarrow> ready_get (hs_stored_report_ready x) k \<noteq> on", OF _ refl])
      (auto simp: on_cccd_changed_def)
next
  case (HoLed h' leds)
  then show ?thesis using upd
    by (cases rule: upsert_modify_view[OF inv, where h = h and f = f and g = "\<lambda>_. ()", OF _ refl])
      (auto simp: on_keyboard_led_changed_def)
next
  case (HoName h' n)
  then show ?thesis using upd
    by (cases rule: upsert_modify_view[OF inv, where h = h and f = f and
          g = "\<lambda>e. case e of None \<Rightarrow> False | Some x \<Rightarrow> hs_name x \<noteq> n", OF _ refl])
      (auto simp: machine_set_name_def)
next
  case (HoDiscovered h' n)
  then show ?thesis using upd
    by (cases rule: upsert_modify_view[OF inv, where h = h and f = f and
          g = "\<lambda>e. case e of None \<Rightarrow> False | Some x \<Rightarrow> hs_discovered_name x \<noteq> n", OF _ refl])
      (auto simp: set_discovered_name_def)
qed (use upd in simp_all)

lemma on_disconnected_view:
  assumes "host_inv m"
  shows "host_inv (on_disconnected m h)" "length (hm_hosts (on_disconnected m h)) = length (hm_hosts m)"
    "hm_active_target (on_disconnected m h) = hm_active_target m"
    "host_get (on_disconnected m h) h' = (if h' = h then map_option (\<lambda>x.
       x\<lparr>hs_connected := False, hs_encrypted := False, hs_session_report_ready := report_ready_default\<rparr>) (host_get m h)
      else host_get m h')"
proof -
  show "host_inv (on_disconnected m h)" "length (hm_hosts (on_disconnected m h)) = length (hm_hosts m)"
    "hm_active_target (on_disconnected m h) = hm_active_target m"
    "host_get (on_disconnected m h) h' = (if h' = h then map_option (\<lambda>x.
       x\<lparr>hs_connected := False, hs_encrypted := False, hs_session_report_ready := report_ready_default\<rparr>) (host_get m h)
      else host_get m h')"
    using assms modify_host_view[OF assms]
    by (cases "host_index (hm_hosts m) h";
        simp add: on_disconnected_def modify_host_def host_get_def[of m h] slot_get_def[of host_index "hm_hosts m" h])+
qed

lemma clear_host_view:
  assumes "host_inv m"
  shows "host_inv (fst (machine_clear_host m h))" "host_get (fst (machine_clear_host m h)) = (host_get m)(h := None)"
    "length (hm_hosts (fst (machine_clear_host m h))) = length (hm_hosts m)"
    "hm_active_target (fst (machine_clear_host m h)) = Some a \<Longrightarrow> hm_active_target m = Some a \<and> (a \<noteq> h \<or> host_get m h = None)"
    "snd (machine_clear_host m h) = (host_get m h \<noteq> None)"
proof -
  have u: "unique_keys hs_host_id (hm_hosts m)" using assms by (simp add: host_inv_def)
  show "host_inv (fst (machine_clear_host m h))"
    using assms unique_keys_remove[OF u] set_update_subset_insert
    by (cases "host_index (hm_hosts m) h") (fastforce simp: machine_clear_host_def host_inv_def)+
  show "host_get (fst (machine_clear_host m h)) = (host_get m)(h := None)"
  proof (cases "host_index (hm_hosts m) h")
    case None
    then have "host_get m h = None" by (simp add: host_get_def slot_get_def)
    then show ?thesis using None by (auto simp: machine_clear_host_def)
  next
    case (Some i)
    then show ?thesis using host_slots.get_remove[OF u Some] by (auto simp: machine_clear_host_def host_get_def fun_eq_iff)
  qed
  show "length (hm_hosts (fst (machine_clear_host m h))) = length (hm_hosts m)"
    by (simp add: machine_clear_host_def split: option.split)
  show "hm_active_target m = Some a \<and> (a \<noteq> h \<or> host_get m h = None)" if "hm_active_target (fst (machine_clear_host m h)) = Some a"
    using that by (auto simp: machine_clear_host_def host_get_def slot_get_def split: option.splits if_splits)
  show "snd (machine_clear_host m h) = (host_get m h \<noteq> None)"
    by (auto simp: machine_clear_host_def host_get_def slot_get_def split: option.split elim: host_slots.index_SomeE)
qed

lemma restored_host_fields [simp]:
  "hs_host_id (restored_host sh x) = hs_host_id x" "\<not> hs_encrypted (restored_host sh x)" "\<not> hs_connected (restored_host sh x)"
  by (simp_all add: restored_host_def)

lemma restore_hosts_inv:
  assumes "host_inv m"
  shows "host_inv (fst (restore_hosts m shs)) \<and> length (hm_hosts (fst (restore_hosts m shs))) = length (hm_hosts m) \<and>
    hm_active_target (fst (restore_hosts m shs)) = hm_active_target m \<and>
    (\<forall>h x. host_get (fst (restore_hosts m shs)) h = Some x \<longrightarrow> host_get m h = Some x \<or> \<not> hs_encrypted x)"
  using assms
proof (induction shs arbitrary: m)
  case (Cons sh shs)
  show ?case
  proof (cases rule: upsert_view[OF Cons.prems, of "sh_host_id sh", case_names invalid full there])
    case (there s i)
    note view = modify_host_view[OF there(3,4), of "restored_host sh"]
    have "host_get (modify_host s i (restored_host sh)) h = Some x \<Longrightarrow> host_get m h = Some x \<or> \<not> hs_encrypted x" for h x
      using view(2)[of h] there(5,6) by (auto split: if_splits)
    then show ?thesis using Cons.IH[OF view(1)] view(3) there by (fastforce simp: modify_host_def)
  qed (use Cons.prems in simp_all)
qed simp

lemma machine_restore_view:
  shows "host_inv (fst (machine_restore m st))" "length (hm_hosts (fst (machine_restore m st))) = length (hm_hosts m)"
    "hm_active_target (fst (machine_restore m st)) = st_last_active_host st"
    "host_get (fst (machine_restore m st)) h = Some x \<Longrightarrow> \<not> hs_encrypted x"
proof -
  let ?m = "m\<lparr>hm_active_target := st_last_active_host st, hm_hosts := replicate (length (hm_hosts m)) None\<rparr>"
  have inv: "host_inv ?m" and none: "host_get ?m h = None" for h
    by (simp_all add: host_inv_def host_get_def host_slots.get_None_iff in_set_replicate)
  note all = restore_hosts_inv[OF inv, of "st_hosts st"]
  show "host_inv (fst (machine_restore m st))" "length (hm_hosts (fst (machine_restore m st))) = length (hm_hosts m)"
    "hm_active_target (fst (machine_restore m st)) = st_last_active_host st"
    using all by (simp_all add: machine_restore_def)
  show "\<not> hs_encrypted x" if "host_get (fst (machine_restore m st)) h = Some x"
    using all none[of h] that unfolding machine_restore_def by (metis option.distinct(1))
qed

lemma host_step_inv:
  assumes "host_inv m"
  shows "host_inv (host_step x m) \<and> length (hm_hosts (host_step x m)) = length (hm_hosts m)"
proof (cases "host_update x")
  case (Some hf)
  obtain h f where "hf = (h, f)" by fastforce
  then show ?thesis using host_step_update_view[OF assms, of x h f] Some assms by auto
next
  case None
  then show ?thesis
    using assms on_disconnected_view[OF assms] clear_host_view(1,3)[OF assms] machine_restore_view
    by (cases x) (simp_all add: clear_active_target_def host_inv_def)
qed

interpretation host_ops: op_system host_step "\<lambda>_. True" "\<lambda>m. host_inv m \<and> length (hm_hosts m) = n" for n
  by unfold_locales (use host_step_inv in auto)

section \<open>No report without encryption\<close>

definition unencrypted :: "host_machine \<Rightarrow> host_id \<Rightarrow> bool" where
  "unencrypted m h = (\<forall>x. host_get m h = Some x \<longrightarrow> \<not> hs_encrypted x)"

fun encrypts :: "host_id \<Rightarrow> host_op \<Rightarrow> bool" where
  "encrypts h (HoSecurity h' e _ _) = (h' = h \<and> e)"
| "encrypts h _ = False"

fun starts_session :: "host_id \<Rightarrow> host_op \<Rightarrow> bool" where
  "starts_session h (HoConnected h') = (h' = h)"
| "starts_session h (HoDisconnected h') = (h' = h)"
| "starts_session h (HoClear h') = (h' = h)"
| "starts_session h (HoRestore _) = True"
| "starts_session h _ = False"

lemma step_unencrypted:
  assumes inv: "host_inv m" and un: "unencrypted m h" and x: "\<not> encrypts h x"
  shows "unencrypted (host_step x m) h"
proof (cases "host_update x")
  case (Some hf)
  obtain h' f where hf: "hf = (h', f)" by fastforce
  have "\<not> hs_encrypted (f y)" if "h' = h" "\<not> hs_encrypted y" for y using Some x hf that by (cases x) auto
  moreover have "\<not> hs_encrypted (fresh_host m h)" using un by (auto simp: unencrypted_def fresh_host_def host_runtime_default_def split: option.split)
  ultimately show ?thesis using host_step_update_view[OF inv, of x h' f] Some hf un by (auto simp: unencrypted_def split: if_splits)
next
  case None
  then show ?thesis
    using un on_disconnected_view(4)[OF inv] clear_host_view(2)[OF inv] machine_restore_view(4)
    by (cases x) (auto simp: unencrypted_def clear_active_target_def host_get_def[of "_\<lparr>hm_active_target := _\<rparr>"] host_get_def[of m] split: if_splits)
qed

lemma start_unencrypted:
  assumes inv: "host_inv m" and x: "starts_session h x"
  shows "unencrypted (host_step x m) h \<or> host_step x m = m \<and> host_get m h = None"
proof (cases x)
  case (HoConnected h')
  then have h': "h' = h" using x by simp
  show ?thesis
  proof (cases rule: upsert_view[OF inv, of h, case_names invalid full there])
    case invalid
    then have "host_get m h = None" using host_get_id[OF inv] by (metis not_Some_eq)
    then show ?thesis using invalid HoConnected h' by (simp add: on_connected_def)
  next
    case full
    then show ?thesis using HoConnected h' by (simp add: on_connected_def)
  next
    case (there s i)
    then show ?thesis using modify_host_view(2)[OF there(3,4)] HoConnected h' by (auto simp: on_connected_def unencrypted_def)
  qed
qed (use x on_disconnected_view(4)[OF inv] clear_host_view(2)[OF inv] machine_restore_view(4) in \<open>auto simp: unencrypted_def\<close>)

lemma run_unencrypted:
  "host_inv m \<Longrightarrow> unencrypted m h \<Longrightarrow> \<forall>x\<in>set ys. \<not> encrypts h x \<Longrightarrow> unencrypted (run host_step ys m) h"
  by (induction ys arbitrary: m) (simp_all add: host_step_inv step_unencrypted)

text \<open>
  C14: No input reaches a host over an unencrypted link. Whatever happened before, once a host
  connects, disconnects, is cleared or the table is restored, no report of any kind can be sent
  to it until its link has been reported as encrypted again, whatever subscriptions, bonds,
  names or other hosts change in between.
\<close>

theorem no_report_without_encryption:
  assumes "starts_session h x" and "\<forall>y\<in>set ys. \<not> encrypts h y"
  shows "\<not> machine_can_send (run host_step (xs @ x # ys) (host_machine_new n)) h kind"
proof -
  let ?m = "run host_step xs (host_machine_new n)"
  have inv: "host_inv ?m" using host_ops.run_inv[of "host_machine_new n" n xs] host_inv_new by (simp add: host_machine_new_def list_all_iff)
  have "unencrypted (host_step x ?m) h" using start_unencrypted[OF inv assms(1)] by (auto simp: unencrypted_def)
  from run_unencrypted[OF _ this assms(2)] host_step_inv[OF inv] show ?thesis
    by (auto simp: machine_can_send_def host_can_send_def unencrypted_def split: option.split)
qed

theorem no_report_without_encryption_witness:
  "\<not> machine_can_send (run host_step ([HoConnected 1, HoSecurity 1 True True None, HoCccd 1 RkKeyboard True] @
      HoConnected 1 # [HoCccd 1 RkKeyboard True, HoConnected 2, HoSecurity 2 True True None]) (host_machine_new 4)) 1 RkKeyboard"
  by (rule no_report_without_encryption) simp_all

section \<open>Snapshot and restoration\<close>

lemma slot_bit:
  "slot_ok h \<Longrightarrow> unat (h - 1) < 4"
  "slot_ok h \<Longrightarrow> slot_ok k \<Longrightarrow> unat (h - 1) = unat (k - 1) \<longleftrightarrow> h = k"
  by (auto simp: slot_ok_def word_le_nat_alt unat_sub word_unat_eq_iff)

lemma validate_hosts_iff:
  assumes "length seen = 4"
  shows "validate_hosts seen hs = Inr () \<longleftrightarrow>
    (\<forall>h\<in>set hs. slot_ok (sh_host_id h) \<and> \<not> seen ! unat (sh_host_id h - 1)) \<and> distinct (map sh_host_id hs)"
  using assms
proof (induction hs arbitrary: seen)
  case (Cons x xs)
  let ?i = "unat (sh_host_id x - 1)"
  have ok: "(1 \<le> sh_host_id x \<and> ?i < 4) = slot_ok (sh_host_id x)"
    by (auto simp: slot_ok_def word_le_nat_alt unat_sub)
  have "validate_hosts seen (x # xs) = Inr () \<longleftrightarrow>
      slot_ok (sh_host_id x) \<and> \<not> seen ! ?i \<and> validate_hosts (seen[?i := True]) xs = Inr ()"
    by (auto simp: checked_sub_def STORED_HOSTS_MAX_def ok[symmetric])
  also have "\<dots> \<longleftrightarrow> slot_ok (sh_host_id x) \<and> \<not> seen ! ?i \<and>
      (\<forall>h\<in>set xs. slot_ok (sh_host_id h) \<and> \<not> seen ! unat (sh_host_id h - 1) \<and> sh_host_id h \<noteq> sh_host_id x) \<and>
      distinct (map sh_host_id xs)"
  proof (cases "slot_ok (sh_host_id x)")
    case True
    have "(seen[?i := True]) ! unat (h - 1) \<longleftrightarrow> h = sh_host_id x \<or> seen ! unat (h - 1)" if "slot_ok h" for h
      using slot_bit(1)[OF that] slot_bit(2)[OF True that] Cons.prems by (auto simp: nth_list_update)
    then have "(\<forall>h\<in>set xs. slot_ok (sh_host_id h) \<and> \<not> (seen[?i := True]) ! unat (sh_host_id h - 1)) \<longleftrightarrow>
        (\<forall>h\<in>set xs. slot_ok (sh_host_id h) \<and> \<not> seen ! unat (sh_host_id h - 1) \<and> sh_host_id h \<noteq> sh_host_id x)"
      by (intro ball_cong refl) blast
    then show ?thesis using Cons.IH[of "seen[?i := True]"] Cons.prems by simp
  qed simp
  finally show ?case by (auto simp: image_iff simp del: validate_hosts.simps)
qed simp

lemma push_hosts_ok:
  "length (st_hosts st) + length xs \<le> STORED_HOSTS_MAX \<Longrightarrow>
   push_hosts st xs = Inr (st\<lparr>st_hosts := st_hosts st @ map stored_profile xs\<rparr>)"
  by (induction xs arbitrary: st) (simp_all add: push_host_def vec_push_def)

definition snapshot_active :: "host_machine \<Rightarrow> host_id option" where
  "snapshot_active m = (case hm_active_target m of None \<Rightarrow> None | Some a \<Rightarrow> if host_get m a = None then None else Some a)"

lemma stored_profile_id [simp]: "sh_host_id (stored_profile x) = hs_host_id x"
  by (simp add: stored_profile_def)

lemma snapshot_eq:
  assumes inv: "host_inv m" and n: "length (hm_hosts m) \<le> STORED_HOSTS_MAX"
  shows "machine_storage_state m g =
    Inr ((storage_state_new g)\<lparr>st_hosts := map stored_profile (flatten (hm_hosts m)), st_last_active_host := snapshot_active m\<rparr>)"
proof -
  have len: "length (flatten (hm_hosts m)) \<le> STORED_HOSTS_MAX" using length_flatten_le[of "hm_hosts m"] n by simp
  have ex: "list_ex (\<lambda>h. sh_host_id h = a) (map stored_profile (flatten (hm_hosts m))) = (host_get m a \<noteq> None)" for a
    by (auto simp: list_ex_iff host_get_def host_slots.get_None_iff)
  show ?thesis using len
    by (simp add: machine_storage_state_def push_hosts_ok storage_state_new_def ex snapshot_active_def split: option.split)
qed

lemma snapshot_valid:
  assumes inv: "host_inv m" and n: "length (hm_hosts m) \<le> STORED_HOSTS_MAX" and st: "machine_storage_state m g = Inr st"
  shows "storage_validate st = Inr ()"
proof -
  have st_eq: "st_hosts st = map stored_profile (flatten (hm_hosts m))" "st_last_active_host st = snapshot_active m"
    using st snapshot_eq[OF inv n, of g] by auto
  have "validate_hosts (replicate STORED_HOSTS_MAX False) (st_hosts st) = Inr ()"
    using inv by (subst validate_hosts_iff)
      (auto simp: st_eq STORED_HOSTS_MAX_def host_inv_def unique_keys_def comp_def slot_bit(1))
  moreover have "list_ex (\<lambda>h. sh_host_id h = a) (st_hosts st)" if "st_last_active_host st = Some a" for a
    using that by (auto simp: st_eq snapshot_active_def host_get_def list_ex_iff dest!: host_slots.get_SomeD split: option.splits if_splits)
  ultimately show ?thesis by (simp add: storage_validate_def split: option.split)
qed

text \<open>Restoring into an empty table fills the slots from the front.\<close>

lemma position_packed: "position (\<lambda>e. e = None) (map Some xs @ None # rest) = Some (length xs)"
  by (induction xs) simp_all

lemma restore_hosts_packed:
  assumes "hm_hosts m = map Some xs @ replicate k None" and "length shs \<le> k"
    and "distinct (map hs_host_id xs @ map sh_host_id shs)" and "\<forall>sh\<in>set shs. slot_ok (sh_host_id sh)"
  shows "restore_hosts m shs =
    (m\<lparr>hm_hosts := map Some (xs @ map (\<lambda>sh. restored_host sh (host_runtime_default\<lparr>hs_host_id := sh_host_id sh\<rparr>)) shs) @
         replicate (k - length shs) None\<rparr>, Inr ())"
  using assms
proof (induction shs arbitrary: m xs k)
  case (Cons sh shs)
  let ?new = "host_runtime_default\<lparr>hs_host_id := sh_host_id sh\<rparr>"
  obtain k' where k: "k = Suc k'" using Cons.prems(2) by (cases k) auto
  have "host_index (hm_hosts m) (sh_host_id sh) = None"
    using Cons.prems(1,3) unfolding host_slots.index_None_iff by (force simp: image_iff)
  moreover have "position (\<lambda>e. e = None) (hm_hosts m) = Some (length xs)" by (simp add: Cons.prems(1) k position_packed)
  ultimately have up: "upsert_host m (sh_host_id sh) = (m\<lparr>hm_hosts := map Some (xs @ [?new]) @ replicate k' None\<rparr>, Inr (length xs))"
    using Cons.prems(1,4) k by (simp add: upsert_host_def host_id_validated_simps slot_ok_def list_update_append)
  let ?m = "m\<lparr>hm_hosts := map Some (xs @ [restored_host sh ?new]) @ replicate k' None\<rparr>"
  have "modify_host (m\<lparr>hm_hosts := map Some (xs @ [?new]) @ replicate k' None\<rparr>) (length xs) (restored_host sh) = ?m"
    by (simp add: modify_host_def list_update_append nth_append)
  then have "restore_hosts m (sh # shs) = restore_hosts ?m shs" by (simp add: up)
  also have "\<dots> = (?m\<lparr>hm_hosts := map Some ((xs @ [restored_host sh ?new]) @
      map (\<lambda>sh. restored_host sh (host_runtime_default\<lparr>hs_host_id := sh_host_id sh\<rparr>)) shs) @ replicate (k' - length shs) None\<rparr>, Inr ())"
    by (rule Cons.IH) (use Cons.prems k in auto)
  finally show ?case by (simp add: k)
qed simp

lemma stored_restored: "stored_profile (restored_host sh (host_runtime_default\<lparr>hs_host_id := sh_host_id sh\<rparr>)) = sh"
  by (simp add: stored_profile_def restored_host_def)

lemma slot_ok_set: "{i. slot_ok i} = {1, 2, 3, 4}"
proof -
  have "i \<in> {1, 2, 3, 4}" if "slot_ok i" for i
  proof -
    have "unat (1 :: u8) \<le> unat i" "unat i \<le> unat (4 :: u8)" using that by (simp_all only: slot_ok_def word_le_nat_alt)
    then have "unat i = 1 \<or> unat i = 2 \<or> unat i = 3 \<or> unat i = 4" by auto
    then show ?thesis by (auto simp: word_unat_eq_iff)
  qed
  then show ?thesis by (auto simp: slot_ok_def)
qed

lemma validated_hosts:
  assumes "storage_validate st = Inr ()"
  shows "distinct (map sh_host_id (st_hosts st))" "\<And>sh. sh \<in> set (st_hosts st) \<Longrightarrow> slot_ok (sh_host_id sh)"
    "length (st_hosts st) \<le> STORED_HOSTS_MAX"
    "st_last_active_host st = Some a \<Longrightarrow> \<exists>sh\<in>set (st_hosts st). sh_host_id sh = a"
proof -
  have "validate_hosts (replicate STORED_HOSTS_MAX False) (st_hosts st) = Inr ()"
    using assms by (auto simp: storage_validate_def bindE_Inr_iff)
  then have ids: "distinct (map sh_host_id (st_hosts st))" "\<forall>sh\<in>set (st_hosts st). slot_ok (sh_host_id sh)"
    by (auto simp: validate_hosts_iff STORED_HOSTS_MAX_def)
  then show "distinct (map sh_host_id (st_hosts st))" "\<And>sh. sh \<in> set (st_hosts st) \<Longrightarrow> slot_ok (sh_host_id sh)" by auto
  have "card (set (map sh_host_id (st_hosts st))) \<le> card {i. slot_ok i}"
  proof (rule card_mono)
    show "finite {i. slot_ok i}" by (simp add: slot_ok_set)
    show "set (map sh_host_id (st_hosts st)) \<subseteq> {i. slot_ok i}" using ids(2) by auto
  qed
  then show "length (st_hosts st) \<le> STORED_HOSTS_MAX"
    using distinct_card[OF ids(1)] by (simp add: slot_ok_set STORED_HOSTS_MAX_def)
  show "\<exists>sh\<in>set (st_hosts st). sh_host_id sh = a" if "st_last_active_host st = Some a"
    using assms by (auto simp: storage_validate_def bindE_Inr_iff list_ex_iff that split: if_splits)
qed

definition restored_table :: "nat \<Rightarrow> storage_state \<Rightarrow> host_machine" where
  "restored_table n st =
     \<lparr>hm_active_target = st_last_active_host st,
      hm_hosts = map Some (map (\<lambda>sh. restored_host sh (host_runtime_default\<lparr>hs_host_id := sh_host_id sh\<rparr>)) (st_hosts st)) @
        replicate (n - length (st_hosts st)) None\<rparr>"

text \<open>A valid stored state always fits: restoring cannot fail.\<close>

lemma machine_restore_ok:
  assumes "storage_validate st = Inr ()" and "length (st_hosts st) \<le> length (hm_hosts m)"
  shows "machine_restore m st = (restored_table (length (hm_hosts m)) st, Inr ())"
  using restore_hosts_packed[of "m\<lparr>hm_active_target := st_last_active_host st, hm_hosts := replicate (length (hm_hosts m)) None\<rparr>"
        "[]" "length (hm_hosts m)" "st_hosts st"] assms(2) validated_hosts(1,2)[OF assms(1)]
  by (simp add: machine_restore_def restored_table_def)

lemma restore_snapshot:
  assumes val: "storage_validate st = Inr ()" and n: "length (st_hosts st) \<le> length (hm_hosts m)" "length (hm_hosts m) \<le> STORED_HOSTS_MAX"
    and plain: "st = (storage_state_new (st_generation st))\<lparr>st_hosts := st_hosts st, st_last_active_host := st_last_active_host st\<rparr>"
  obtains m' where "machine_restore m st = (m', Inr ())" "machine_storage_state m' (st_generation st) = Inr st"
proof -
  let ?f = "\<lambda>sh. restored_host sh (host_runtime_default\<lparr>hs_host_id := sh_host_id sh\<rparr>)"
  let ?m = "restored_table (length (hm_hosts m)) st"
  note res = machine_restore_ok[OF val n(1)]
  have inv: "host_inv ?m" using machine_restore_view(1)[of m st] res by simp
  have "host_get ?m a \<noteq> None" if act: "st_last_active_host st = Some a" for a
  proof -
    obtain sh where "sh \<in> set (st_hosts st)" "sh_host_id sh = a" using validated_hosts(4)[OF val act] by blast
    then have "Some (?f sh) \<in> set (hm_hosts ?m)" "hs_host_id (?f sh) = a" by (auto simp: restored_table_def)
    then have "host_get ?m a = Some (?f sh)" using host_get_iff[OF inv] by blast
    then show ?thesis by simp
  qed
  then have "snapshot_active ?m = st_last_active_host st" by (auto simp: snapshot_active_def restored_table_def split: option.split)
  moreover have "map stored_profile (flatten (hm_hosts ?m)) = st_hosts st"
    by (simp add: comp_def flatten_map_Some stored_restored restored_table_def)
  ultimately have "machine_storage_state ?m (st_generation st) = Inr st"
    using snapshot_eq[OF inv, of "st_generation st"] n plain by (simp add: restored_table_def)
  then show thesis using that res by blast
qed

text \<open>
  The host table survives storage. From every state of the table the snapshot for storage
  succeeds and is valid, and restoring it into any table of the same size succeeds and gives a
  table whose snapshot is the same: hosts in order with names, bonds and stored subscriptions,
  and the active host.
\<close>

theorem host_table_roundtrip:
  "let m = run host_step ops (host_machine_new HOST_SLOT_COUNT) in
   \<exists>st. machine_storage_state m g = Inr st \<and> storage_validate st = Inr () \<and>
     (case machine_restore (run host_step ops' (host_machine_new HOST_SLOT_COUNT)) st of
        (m', Inl _) \<Rightarrow> False | (m', Inr _) \<Rightarrow> machine_storage_state m' g = Inr st)"
proof -
  let ?m = "run host_step ops (host_machine_new HOST_SLOT_COUNT)" and ?m' = "run host_step ops' (host_machine_new HOST_SLOT_COUNT)"
  have new: "host_inv (host_machine_new 4) \<and> length (hm_hosts (host_machine_new 4)) = 4"
    using host_inv_new by (simp add: host_machine_new_def)
  have inv: "host_inv ?m" "length (hm_hosts ?m) = 4" "length (hm_hosts ?m') = 4"
    using host_ops.run_inv[OF new] by (simp_all add: list_all_iff)
  let ?st = "(storage_state_new g)\<lparr>st_hosts := map stored_profile (flatten (hm_hosts ?m)), st_last_active_host := snapshot_active ?m\<rparr>"
  have st: "machine_storage_state ?m g = Inr ?st" using snapshot_eq[OF inv(1)] inv(2) by (simp add: STORED_HOSTS_MAX_def)
  have val: "storage_validate ?st = Inr ()" using snapshot_valid[OF inv(1) _ st] inv(2) by (simp add: STORED_HOSTS_MAX_def)
  have gen: "st_generation ?st = g" by (simp add: storage_state_new_def)
  have len: "length (st_hosts ?st) \<le> length (hm_hosts ?m')" using length_flatten_le[of "hm_hosts ?m"] inv(2,3) by simp
  obtain m' where "machine_restore ?m' ?st = (m', Inr ())" "machine_storage_state m' (st_generation ?st) = Inr ?st"
    by (rule restore_snapshot[OF val len]) (use inv(3) in \<open>simp_all add: STORED_HOSTS_MAX_def storage_state_new_def\<close>)
  then show ?thesis using st val gen by (auto simp: Let_def)
qed

end
