(* ===== verification/HS_Bridge.thy ===== *)
theory HS_Bridge
  imports HS_HostState
begin

unbundle bit_operations_syntax

text \<open>
  The bridge (\<open>bridge/mod.rs\<close>): it receives input frames, host and USB events and produces
  actions: reports to notify, keyboard LEDs to set, pairing and persistence requests. It owns
  the input aggregator, the suppression that hides held keys from a newly selected target, the
  table of Bluetooth hosts, the pairable host and, in the build with the wired output, the
  selected output target.

  The parameter \<open>w\<close> is the feature \<open>dual-s3-wired\<close> and \<open>cap\<close> the capacity of the action
  vector. A method works on the bridge and the output vector; like its source it returns both
  as they are when it stops, so an in-place method that fails halfway shows what it left
  behind. The fields and events of the wired build do not exist in the other one: there the
  model neither reads the fields nor gives the events an effect.
\<close>

section \<open>Data\<close>

definition BRIDGE_USB_HID_INTERFACES_MAX :: nat where "BRIDGE_USB_HID_INTERFACES_MAX = 8"
definition BRIDGE_INPUT_INTERFACES_MAX :: nat where "BRIDGE_INPUT_INTERFACES_MAX = BRIDGE_USB_HID_INTERFACES_MAX"

record usb_hid_interface_registration =
  ur_interface_id :: interface_id
  ur_device_id :: device_id
  ur_keyboard_led_sink :: bool

record suppression_state =
  su_keyboard :: keyboard_suppression
  su_mouse_buttons :: mouse_buttons
  su_consumer :: consumer_state

definition suppression_state_new :: suppression_state where
  "suppression_state_new =
     \<lparr>su_keyboard = keyboard_suppression_new, su_mouse_buttons = 0, su_consumer = consumer_state_new\<rparr>"

record bridge_stats =
  bs_input_reports_dropped_no_ready_target :: u32
  bs_mouse_movements_dropped :: u32
  bs_keyboard_reports_truncated :: u32
  bs_vendor_frames_ignored :: u32

definition bridge_stats_new :: bridge_stats where
  "bridge_stats_new =
     \<lparr>bs_input_reports_dropped_no_ready_target = 0, bs_mouse_movements_dropped = 0,
      bs_keyboard_reports_truncated = 0, bs_vendor_frames_ignored = 0\<rparr>"

record bridge_state =
  br_input :: physical_input_state
  br_input_devices :: input_aggregator
  br_suppression :: suppression_state
  br_usb_hid_interfaces :: "usb_hid_interface_registration list"
  br_hosts :: host_machine
  br_pairable_host :: "host_id option"
  br_stats :: bridge_stats
  br_output_target :: output_target_state
  br_wired_availability :: output_target_availability
  br_wired_keyboard_leds :: keyboard_led_state
  br_wired_ble_host :: "host_id option"
  br_mirror_target :: "mirror_stable_id option"

definition bridge_state_new :: "nat \<Rightarrow> bridge_state" where
  "bridge_state_new hosts =
     \<lparr>br_input = physical_input_new, br_input_devices = aggregator_new BRIDGE_INPUT_INTERFACES_MAX,
      br_suppression = suppression_state_new, br_usb_hid_interfaces = [], br_hosts = host_machine_new hosts,
      br_pairable_host = None, br_stats = bridge_stats_new, br_output_target = output_target_state_new,
      br_wired_availability = Unavailable, br_wired_keyboard_leds = 0, br_wired_ble_host = None,
      br_mirror_target = None\<rparr>"

datatype notify_reason =
  NrInput | NrInputEdge | NrInputRelease | NrTargetSwitchRelease | NrUsbDeviceRemovedRelease | NrSafetyRelease

record bridge_status =
  bst_active_target :: "host_id option"
  bst_pairable_host :: "host_id option"

datatype bridge_action =
    Notify output_target standard_hid_report notify_reason
  | UsbSetKeyboardLeds interface_id device_id keyboard_led_state
  | AllowPairing host_id
  | RejectPairing host_id
  | ClearBond host_id "stored_bond option"
  | ActivateInput host_id
  | ActivateWired u32
  | EnsureFallback u32
  | PersistProfiles
  | StatusChanged bridge_status

datatype bridge_event =
    EvInputFrame input_frame
  | EvUsbDeviceRemoved interface_id
  | EvResetInputDevice device_id
  | EvUsbHidInterfaceConnected interface_id device_id bool
  | EvHostConnected host_id
  | EvHostDisconnected host_id
  | EvHostSecurityChanged host_id bool bool "stored_bond option"
  | EvCccdChanged host_id report_kind bool
  | EvHostKeyboardLedChanged host_id keyboard_led_state
  | EvSetHostName host_id fixed_name
  | EvEnterPairingMode host_id
  | EvPairingModeExpired host_id
  | EvClearHost host_id
  | EvSwitchTarget host_id
  | EvSelectOutputTarget output_target
  | EvWiredAvailabilityChanged output_target_availability
  | EvWiredKeyboardLedChanged keyboard_led_state

datatype bridge_error =
    BeActionCapacity
  | BeUsbHidInterfaceCapacity
  | BeHostState host_state_error
  | BeInput input_error
  | BeStorage storage_error
  | BeInvalidOutputTarget

type_synonym bridge_io = "bridge_state \<times> bridge_action list"
type_synonym 'a bridge_result = "(bridge_io, bridge_error, 'a) outcome"

section \<open>Actions and access to the parts\<close>

definition push_action :: "nat \<Rightarrow> bridge_action list \<Rightarrow> bridge_action \<Rightarrow> bridge_error + bridge_action list" where
  "push_action cap out a = (case vec_push cap out a of Some out' \<Rightarrow> Inr out' | None \<Rightarrow> Inl BeActionCapacity)"

text \<open>\<open>push_action(out, a)?\<close> inside a method, and a method of the host table with its error converted.\<close>

definition emit :: "nat \<Rightarrow> bridge_action \<Rightarrow> bridge_io \<Rightarrow> unit bridge_result" where
  "emit cap a io = (case push_action cap (snd io) a of Inl e \<Rightarrow> (io, Inl e) | Inr out \<Rightarrow> ((fst io, out), Inr ()))"

definition with_hosts :: "(host_machine \<Rightarrow> (host_machine, host_state_error, 'a) outcome) \<Rightarrow> bridge_io \<Rightarrow> 'a bridge_result" where
  "with_hosts f io =
     (case f (br_hosts (fst io)) of
        (m, Inl e) \<Rightarrow> (((fst io)\<lparr>br_hosts := m\<rparr>, snd io), Inl (BeHostState e))
      | (m, Inr x) \<Rightarrow> (((fst io)\<lparr>br_hosts := m\<rparr>, snd io), Inr x))"

fun emit_all :: "nat \<Rightarrow> bridge_action list \<Rightarrow> bridge_io \<Rightarrow> unit bridge_result" where
  "emit_all cap [] io = (io, Inr ())"
| "emit_all cap (a # as) io = andThen (emit cap a io) (\<lambda>_. emit_all cap as)"

definition emit_if :: "bool \<Rightarrow> nat \<Rightarrow> bridge_action \<Rightarrow> bridge_io \<Rightarrow> unit bridge_result" where
  "emit_if b cap a io = (if b then emit cap a io else (io, Inr ()))"

definition br_active :: "bridge_state \<Rightarrow> host_id option" where
  "br_active s = hm_active_target (br_hosts s)"

definition can_send :: "bridge_state \<Rightarrow> host_id \<Rightarrow> report_kind \<Rightarrow> bool" where
  "can_send s h kind = machine_can_send (br_hosts s) h kind"

definition status :: "bridge_state \<Rightarrow> bridge_status" where
  "status s = \<lparr>bst_active_target = br_active s, bst_pairable_host = br_pairable_host s\<rparr>"

definition push_status :: "nat \<Rightarrow> bridge_io \<Rightarrow> unit bridge_result" where
  "push_status cap io = emit cap (StatusChanged (status (fst io))) io"

definition ready_active_target :: "bool \<Rightarrow> bridge_state \<Rightarrow> report_kind \<Rightarrow> output_target option" where
  "ready_active_target w s kind =
     (if w then
        (case ot_active (br_output_target s) of
           None \<Rightarrow> None
         | Some Wired \<Rightarrow> Some Wired
         | Some (Ble h) \<Rightarrow> if can_send s h kind then Some (Ble h) else None)
      else
        (case br_active s of
           None \<Rightarrow> None
         | Some h \<Rightarrow> if can_send s h kind then Some (Ble h) else None))"

definition ble_target_ready :: "bridge_state \<Rightarrow> host_id \<Rightarrow> bool" where
  "ble_target_ready s h =
     policy_is_ready BLE_TARGET_READINESS_POLICY (can_send s h RkKeyboard) (can_send s h RkMouse) (can_send s h RkConsumer)"

definition refresh_selected_target_availability :: "bool \<Rightarrow> bridge_state \<Rightarrow> bridge_state" where
  "refresh_selected_target_availability w s =
     (if \<not> w then s
      else
        let availability =
              (case ot_selected (br_output_target s) of
                 Wired \<Rightarrow> br_wired_availability s
               | Ble h \<Rightarrow>
                   if ble_target_ready s h then Ready
                   else if (case host_get (br_hosts s) h of Some x \<Rightarrow> hs_connected x | None \<Rightarrow> False) then ConnectedNotReady
                   else Unavailable)
        in s\<lparr>br_output_target := output_set_availability (br_output_target s) availability\<rparr>)"

definition has_connected_computer :: "bool \<Rightarrow> bridge_state \<Rightarrow> bool" where
  "has_connected_computer w s =
     (list_ex hs_connected (flatten (hm_hosts (br_hosts s))) \<or> (w \<and> br_wired_availability s \<noteq> Unavailable))"

fun ready_mask_loop :: "bridge_state \<Rightarrow> nat list \<Rightarrow> u8 \<Rightarrow> u8" where
  "ready_mask_loop s [] m = m"
| "ready_mask_loop s (index # rest) m =
     ready_mask_loop s rest (if ble_target_ready s (of_nat (index + 1)) then m OR push_bit index 1 else m)"

definition next_ready_output_target :: "bridge_state \<Rightarrow> output_target option" where
  "next_ready_output_target s =
     next_ready_computer_target (ot_selected (br_output_target s)) (br_wired_availability s = Ready)
       (ready_mask_loop s [0..<min (length (hm_hosts (br_hosts s))) HOST_SLOT_COUNT] 0) (br_wired_ble_host s)"

section \<open>Releases, LEDs and suppression\<close>

text \<open>The three statements that hide everything held from the next target.\<close>

definition capture_suppression :: "bridge_state \<Rightarrow> (bridge_state, bridge_error, unit) outcome" where
  "capture_suppression s =
     (case capture_from (su_keyboard (br_suppression s)) (pi_keyboard (br_input s)) of
        (k, Inl e) \<Rightarrow> (s\<lparr>br_suppression := (br_suppression s)\<lparr>su_keyboard := k\<rparr>\<rparr>, Inl (BeInput e))
      | (k, Inr _) \<Rightarrow>
          (s\<lparr>br_suppression := \<lparr>su_keyboard = k, su_mouse_buttons = pm_buttons (pi_mouse (br_input s)),
                                su_consumer = pi_consumer (br_input s)\<rparr>\<rparr>, Inr ()))"

definition capture_io :: "bridge_io \<Rightarrow> unit bridge_result" where
  "capture_io io = (case capture_suppression (fst io) of (s, r) \<Rightarrow> ((s, snd io), r))"

definition push_release_reports :: "nat \<Rightarrow> host_id \<Rightarrow> notify_reason \<Rightarrow> bridge_io \<Rightarrow> unit bridge_result" where
  "push_release_reports cap h reason io =
     andThen (emit_if (can_send (fst io) h RkKeyboard) cap (Notify (Ble h) (KeyboardReport keyboard_report_release) reason) io) (\<lambda>_ io.
     andThen (emit_if (can_send (fst io) h RkMouse) cap (Notify (Ble h) (MouseReport mouse_report_release_buttons) reason) io) (\<lambda>_ io.
     emit_if (can_send (fst io) h RkConsumer) cap (Notify (Ble h) (ConsumerReport consumer_report_release) reason) io))"

definition push_neutral_reports :: "nat \<Rightarrow> output_target \<Rightarrow> notify_reason \<Rightarrow> bridge_io \<Rightarrow> unit bridge_result" where
  "push_neutral_reports cap target reason =
     emit_all cap (map (\<lambda>report. Notify target report reason)
       [KeyboardReport keyboard_report_release, MouseReport mouse_report_release_buttons,
        ConsumerReport consumer_report_release])"

fun push_release_target :: "nat \<Rightarrow> output_target \<Rightarrow> notify_reason \<Rightarrow> bridge_io \<Rightarrow> unit bridge_result" where
  "push_release_target cap (Ble h) reason io = push_release_reports cap h reason io"
| "push_release_target cap Wired reason io = push_neutral_reports cap Wired reason io"

definition push_usb_keyboard_leds :: "nat \<Rightarrow> keyboard_led_state \<Rightarrow> bridge_io \<Rightarrow> unit bridge_result" where
  "push_usb_keyboard_leds cap leds io =
     emit_all cap (map (\<lambda>sink. UsbSetKeyboardLeds (ur_interface_id sink) (ur_device_id sink) leds)
       (filter ur_keyboard_led_sink (br_usb_hid_interfaces (fst io)))) io"

definition apply_active_host_leds :: "bool \<Rightarrow> nat \<Rightarrow> bridge_io \<Rightarrow> unit bridge_result" where
  "apply_active_host_leds w cap io =
     (if w \<and> ot_selected (br_output_target (fst io)) = Wired
      then push_usb_keyboard_leds cap (br_wired_keyboard_leds (fst io)) io
      else
        (case br_active (fst io) of
           None \<Rightarrow> (io, Inr ())
         | Some active \<Rightarrow>
             let leds = (case Option.bind (host_get (br_hosts (fst io)) active) hs_keyboard_leds of None \<Rightarrow> 0 | Some l \<Rightarrow> l)
             in push_usb_keyboard_leds cap leds io))"

section \<open>Input frames\<close>

definition keyboard_contains_release :: "physical_keyboard_state \<Rightarrow> physical_keyboard_state \<Rightarrow> bool" where
  "keyboard_contains_release previous current =
     (list_ex (\<lambda>k. \<not> List.member (pk_keys current) k) (pk_keys previous) \<or>
      pk_modifiers previous AND NOT (pk_modifiers current) \<noteq> 0)"

text \<open>
  The three parts of \<open>handle_standard_input_frame\<close>. Each works on copies: it takes the
  counters and actions gathered so far and returns the next state of its device class, if the
  frame has one, with the new counters and actions.
\<close>

definition keyboard_part ::
    "bool \<Rightarrow> nat \<Rightarrow> bridge_state \<Rightarrow> standard_input_frame \<Rightarrow> physical_input_state \<Rightarrow> bridge_stats \<times> bridge_action list \<Rightarrow>
      bridge_error + (physical_keyboard_state \<times> keyboard_suppression) option \<times> bridge_stats \<times> bridge_action list" where
  "keyboard_part w cap s f aggregate so =
     (let (stats, out) = so in
      if sf_keyboard f = None then Inr (None, stats, out)
      else
        (case keyboard_apply_state (pi_keyboard (br_input s)) (pi_keyboard aggregate) (su_keyboard (br_suppression s)) of
           (_, Inl e) \<Rightarrow> Inl (BeInput e)
         | ((kb, ks), Inr _) \<Rightarrow>
             (case suppress_visible_after ks kb KEYBOARD_6KRO_KEY_CAPACITY of
                (_, Inl e) \<Rightarrow> Inl (BeInput e)
              | (ks', Inr suppressed) \<Rightarrow>
                  let stats1 = (if suppressed \<noteq> 0
                        then stats\<lparr>bs_keyboard_reports_truncated := sat_add (bs_keyboard_reports_truncated stats) 1\<rparr>
                        else stats)
                  in (case ready_active_target w s RkKeyboard of
                        Some target \<Rightarrow>
                          bindE (push_action cap out (Notify target
                            (KeyboardReport (kb_report (from_physical_state kb ks')))
                            (if keyboard_contains_release (pi_keyboard (br_input s)) kb then NrInputRelease else NrInput)))
                          (\<lambda>out'. Inr (Some (kb, ks'), stats1, out'))
                      | None \<Rightarrow>
                          Inr (Some (kb, ks'),
                               stats1\<lparr>bs_input_reports_dropped_no_ready_target :=
                                 sat_add (bs_input_reports_dropped_no_ready_target stats1) 1\<rparr>, out)))))"

definition mouse_part ::
    "bool \<Rightarrow> nat \<Rightarrow> bridge_state \<Rightarrow> standard_input_frame \<Rightarrow> physical_input_state \<Rightarrow> bridge_stats \<times> bridge_action list \<Rightarrow>
      bridge_error + (physical_mouse_state \<times> mouse_buttons) option \<times> bridge_stats \<times> bridge_action list" where
  "mouse_part w cap s f aggregate so =
     (let (stats, out) = so in
      case sf_mouse f of
        None \<Rightarrow> Inr (None, stats, out)
      | Some mouse \<Rightarrow>
          let mouse_state = pi_mouse aggregate;
              previous = pm_buttons (pi_mouse (br_input s));
              mouse_suppression = buttons_intersection (su_mouse_buttons (br_suppression s)) (pm_buttons mouse_state);
              visible_buttons = buttons_without (pm_buttons mouse_state) mouse_suppression
          in (case ready_active_target w s RkMouse of
                Some target \<Rightarrow>
                  let released_buttons = (previous AND NOT (pm_buttons mouse_state) \<noteq> 0)
                  in bindE (push_action cap out (Notify target
                       (MouseReport (mouse_report_from_frame visible_buttons (mf_movement mouse)))
                       (if released_buttons \<or> previous \<noteq> pm_buttons mouse_state then NrInputEdge else NrInput)))
                     (\<lambda>out'. Inr (Some (mouse_state, mouse_suppression), stats, out'))
              | None \<Rightarrow>
                  let stats1 = (if mf_movement mouse \<noteq> movement_neutral
                        then stats\<lparr>bs_mouse_movements_dropped := sat_add (bs_mouse_movements_dropped stats) 1\<rparr>
                        else stats)
                  in Inr (Some (mouse_state, mouse_suppression), stats1, out)))"

definition trim_consumer :: "consumer_state \<Rightarrow> consumer_state \<Rightarrow> consumer_state" where
  "trim_consumer current suppression =
     (if cs_active current \<noteq> cs_active suppression then suppression\<lparr>cs_active := None\<rparr> else suppression)"

definition consumer_report_of :: "consumer_usage option \<Rightarrow> consumer_report" where
  "consumer_report_of u = (case u of Some usage \<Rightarrow> consumer_report_from_usage usage | None \<Rightarrow> consumer_report_release)"

definition consumer_part ::
    "bool \<Rightarrow> nat \<Rightarrow> bridge_state \<Rightarrow> standard_input_frame \<Rightarrow> physical_input_state \<Rightarrow> bridge_stats \<times> bridge_action list \<Rightarrow>
      bridge_error + (consumer_state \<times> consumer_state) option \<times> bridge_stats \<times> bridge_action list" where
  "consumer_part w cap s f aggregate so =
     (let (stats, out) = so in
      if sf_consumer f = None then Inr (None, stats, out)
      else
        let consumer_state = pi_consumer aggregate;
            consumer_suppression = trim_consumer consumer_state (su_consumer (br_suppression s))
        in (case ready_active_target w s RkConsumer of
              Some target \<Rightarrow>
                let visible = (if cs_active consumer_state = cs_active consumer_suppression then None
                               else cs_active consumer_state)
                in bindE (push_action cap out (Notify target (ConsumerReport (consumer_report_of visible))
                     (if cs_active (pi_consumer (br_input s)) \<noteq> None \<and> cs_active consumer_state = None
                      then NrInputRelease else NrInput)))
                   (\<lambda>out'. Inr (Some (consumer_state, consumer_suppression), stats, out'))
            | None \<Rightarrow> Inr (Some (consumer_state, consumer_suppression), stats, out)))"

text \<open>The assignments after the parts have succeeded.\<close>

definition commit_input ::
    "bridge_state \<Rightarrow> prepared_input_frame \<Rightarrow> (physical_keyboard_state \<times> keyboard_suppression) option \<Rightarrow>
      (physical_mouse_state \<times> mouse_buttons) option \<Rightarrow> (consumer_state \<times> consumer_state) option \<Rightarrow> bridge_stats \<Rightarrow>
      bridge_state" where
  "commit_input s prepared kb ms cs stats =
     s\<lparr>br_input_devices := commit_frame (br_input_devices s) prepared,
       br_input := \<lparr>pi_keyboard = (case kb of Some (k, _) \<Rightarrow> k | None \<Rightarrow> pi_keyboard (br_input s)),
                    pi_mouse = (case ms of Some (m, _) \<Rightarrow> m | None \<Rightarrow> pi_mouse (br_input s)),
                    pi_consumer = (case cs of Some (c, _) \<Rightarrow> c | None \<Rightarrow> pi_consumer (br_input s))\<rparr>,
       br_suppression := \<lparr>su_keyboard = (case kb of Some (_, k) \<Rightarrow> k | None \<Rightarrow> su_keyboard (br_suppression s)),
                          su_mouse_buttons = (case ms of Some (_, m) \<Rightarrow> m | None \<Rightarrow> su_mouse_buttons (br_suppression s)),
                          su_consumer = (case cs of Some (_, c) \<Rightarrow> c | None \<Rightarrow> su_consumer (br_suppression s))\<rparr>,
       br_stats := stats\<rparr>"

definition handle_standard_input_frame :: "bool \<Rightarrow> nat \<Rightarrow> standard_input_frame \<Rightarrow> bridge_io \<Rightarrow> unit bridge_result" where
  "handle_standard_input_frame w cap f io =
     (let (s, out) = io;
          result =
            (case prepare_frame (br_input_devices s) f of
               Inl e \<Rightarrow> Inl (BeInput e)
             | Inr prepared \<Rightarrow>
                 let aggregate = prepared_aggregate prepared (br_input_devices s) in
                 bindE (keyboard_part w cap s f aggregate (br_stats s, out)) (\<lambda>(kb, so1).
                 bindE (mouse_part w cap s f aggregate so1) (\<lambda>(ms, so2).
                 bindE (consumer_part w cap s f aggregate so2) (\<lambda>(cs, so3).
                 Inr (commit_input s prepared kb ms cs (fst so3), snd so3)))))
      in case result of Inl e \<Rightarrow> (io, Inl e) | Inr io' \<Rightarrow> (io', Inr ()))"

fun handle_input_frame :: "bool \<Rightarrow> nat \<Rightarrow> input_frame \<Rightarrow> bridge_io \<Rightarrow> unit bridge_result" where
  "handle_input_frame w cap (VendorFrame _) (s, out) =
     ((s\<lparr>br_stats := (br_stats s)\<lparr>bs_vendor_frames_ignored := sat_add (bs_vendor_frames_ignored (br_stats s)) 1\<rparr>\<rparr>, out), Inr ())"
| "handle_input_frame w cap (StandardFrame f) io = handle_standard_input_frame w cap f io"

section \<open>Target transitions\<close>

definition set_output_target :: "output_target_state \<Rightarrow> bridge_io \<Rightarrow> bridge_io" where
  "set_output_target t io = ((fst io)\<lparr>br_output_target := t\<rparr>, snd io)"

definition refresh_io :: "bool \<Rightarrow> bridge_io \<Rightarrow> bridge_io" where
  "refresh_io w io = (refresh_selected_target_availability w (fst io), snd io)"

definition activate_wired :: "nat \<Rightarrow> u32 \<Rightarrow> bridge_io \<Rightarrow> unit bridge_result" where
  "activate_wired cap operation_id io =
     (let io1 = ((fst io)\<lparr>br_hosts := clear_active_target (br_hosts (fst io))\<rparr>, snd io) in
      andThen (emit cap (ActivateWired operation_id) io1) (\<lambda>_ io2.
      let io3 = set_output_target (output_set_availability (br_output_target (fst io2)) (br_wired_availability (fst io2))) io2 in
      if br_wired_availability (fst io3) = Ready then
        andThen (push_neutral_reports cap Wired NrSafetyRelease io3) (\<lambda>_ io4.
        push_usb_keyboard_leds cap (br_wired_keyboard_leds (fst io4)) io4)
      else (io3, Inr ())))"

definition activate_ble :: "nat \<Rightarrow> u32 \<Rightarrow> host_id \<Rightarrow> bridge_io \<Rightarrow> unit bridge_result" where
  "activate_ble cap operation_id h io =
     andThen (with_hosts (\<lambda>m. set_active_target m h) io) (\<lambda>_ io1.
     andThen (emit cap (EnsureFallback operation_id) io1) (\<lambda>_ io2.
     andThen (emit cap (ActivateInput h) io2) (\<lambda>_ io3.
     andThen (apply_active_host_leds True cap io3) (\<lambda>_ io4.
     (refresh_io True io4, Inr ())))))"

definition transition_output_target ::
    "nat \<Rightarrow> output_target \<Rightarrow> notify_reason option \<Rightarrow> bridge_io \<Rightarrow> unit bridge_result" where
  "transition_output_target cap target release_previous io =
     (case output_target_validate target of
        Inl _ \<Rightarrow> (io, Inl BeInvalidOutputTarget)
      | Inr _ \<Rightarrow>
          if ot_selected (br_output_target (fst io)) = target then push_status cap io
          else
            andThen (case (ot_active (br_output_target (fst io)), release_previous) of
                       (Some active, Some reason) \<Rightarrow> push_release_target cap active reason io
                     | _ \<Rightarrow> (io, Inr ())) (\<lambda>_ io1.
            andThen (capture_io io1) (\<lambda>_ io2.
            case output_select (br_output_target (fst io2)) target of
              (_, Inl _) \<Rightarrow> (io2, Inl BeInvalidOutputTarget)
            | (t, Inr operation_id) \<Rightarrow>
                andThen (case target of
                           Wired \<Rightarrow> activate_wired cap operation_id (set_output_target t io2)
                         | Ble h \<Rightarrow> activate_ble cap operation_id h (set_output_target t io2)) (\<lambda>_ io3.
                andThen (emit cap PersistProfiles io3) (\<lambda>_ io4.
                push_status cap io4)))))"

definition select_output_target :: "nat \<Rightarrow> output_target \<Rightarrow> bridge_io \<Rightarrow> unit bridge_result" where
  "select_output_target cap target = transition_output_target cap target (Some NrTargetSwitchRelease)"

definition transition_ble_target :: "nat \<Rightarrow> host_id \<Rightarrow> notify_reason option \<Rightarrow> bridge_io \<Rightarrow> bool bridge_result" where
  "transition_ble_target cap target release_previous io =
     (if br_active (fst io) = Some target then (io, Inr False)
      else
        andThen (case (br_active (fst io), release_previous) of
                   (Some old_host, Some reason) \<Rightarrow> push_release_reports cap old_host reason io
                 | _ \<Rightarrow> (io, Inr ())) (\<lambda>_ io1.
        andThen (capture_io io1) (\<lambda>_ io2.
        andThen (with_hosts (\<lambda>m. set_active_target m target) io2) (\<lambda>_ io3.
        andThen (emit cap (ActivateInput target) io3) (\<lambda>_ io4.
        andThen (apply_active_host_leds False cap io4) (\<lambda>_ io5.
        andThen (emit cap PersistProfiles io5) (\<lambda>_ io6.
        (io6, Inr True))))))))"

definition switch_target :: "bool \<Rightarrow> nat \<Rightarrow> host_id \<Rightarrow> bridge_io \<Rightarrow> unit bridge_result" where
  "switch_target w cap target io =
     (if w then select_output_target cap (Ble target) io
      else andThen (transition_ble_target cap target (Some NrTargetSwitchRelease) io) (\<lambda>_ io1. push_status cap io1))"

definition wired_availability_changed :: "nat \<Rightarrow> output_target_availability \<Rightarrow> bridge_io \<Rightarrow> unit bridge_result" where
  "wired_availability_changed cap availability io =
     (let io1 = ((fst io)\<lparr>br_wired_availability := availability\<rparr>, snd io) in
      andThen
        (if ot_selected (br_output_target (fst io1)) = Wired then
           let io2 = set_output_target (output_set_availability (br_output_target (fst io1)) availability) io1 in
           if availability = Ready then
             andThen (push_neutral_reports cap Wired NrSafetyRelease io2) (\<lambda>_ io3.
             push_usb_keyboard_leds cap (br_wired_keyboard_leds (fst io3)) io3)
           else (io2, Inr ())
         else (io1, Inr ())) (\<lambda>_ io4.
      push_status cap io4))"

section \<open>Pairing, clearing and detaching\<close>

definition set_pairable :: "host_id option \<Rightarrow> bridge_io \<Rightarrow> bridge_io" where
  "set_pairable p io = ((fst io)\<lparr>br_pairable_host := p\<rparr>, snd io)"

definition enter_pairing_mode :: "nat \<Rightarrow> host_id \<Rightarrow> bridge_io \<Rightarrow> unit bridge_result" where
  "enter_pairing_mode cap h io =
     andThen (case br_pairable_host (fst io) of
                Some previous \<Rightarrow> emit_if (previous \<noteq> h) cap (RejectPairing previous) (set_pairable (Some h) io)
              | None \<Rightarrow> (set_pairable (Some h) io, Inr ())) (\<lambda>_ io1.
     andThen (emit cap (AllowPairing h) io1) (\<lambda>_ io2. push_status cap io2))"

definition expire_pairing_mode :: "nat \<Rightarrow> host_id \<Rightarrow> bridge_io \<Rightarrow> unit bridge_result" where
  "expire_pairing_mode cap h io =
     (if br_pairable_host (fst io) = Some h then
        andThen (emit cap (RejectPairing h) (set_pairable None io)) (\<lambda>_ io1. push_status cap io1)
      else (io, Inr ()))"

definition clear_host :: "bool \<Rightarrow> nat \<Rightarrow> host_id \<Rightarrow> bridge_io \<Rightarrow> unit bridge_result" where
  "clear_host w cap h io =
     (let was_active = (br_active (fst io) = Some h);
          bond = Option.bind (host_get (br_hosts (fst io)) h) hs_bond
      in andThen (if was_active then push_release_reports cap h NrSafetyRelease io else (io, Inr ())) (\<lambda>_ io1.
         andThen (if br_pairable_host (fst io1) = Some h then emit cap (RejectPairing h) (set_pairable None io1)
                  else (io1, Inr ())) (\<lambda>_ io2.
         let (m, removed) = machine_clear_host (br_hosts (fst io2)) h;
             io3 = ((fst io2)\<lparr>br_hosts := m\<rparr>, snd io2)
         in if removed then
              let io4 = (if w \<and> br_wired_ble_host (fst io3) = Some h
                         then ((fst io3)\<lparr>br_wired_ble_host := None\<rparr>, snd io3) else io3)
              in andThen (emit cap (ClearBond h bond) io4) (\<lambda>_ io5.
                 andThen (emit cap PersistProfiles io5) (\<lambda>_ io6.
                 andThen (if was_active then push_usb_keyboard_leds cap 0 io6 else (io6, Inr ())) (\<lambda>_ io7.
                 push_status cap io7)))
            else (io3, Inr ()))))"

definition upsert_usb_hid_interface ::
    "interface_id \<Rightarrow> device_id \<Rightarrow> bool \<Rightarrow> bridge_state \<Rightarrow> (bridge_state, bridge_error, unit) outcome" where
  "upsert_usb_hid_interface i d sink s =
     (let r = \<lparr>ur_interface_id = i, ur_device_id = d, ur_keyboard_led_sink = sink\<rparr>;
          us = br_usb_hid_interfaces s
      in case position (\<lambda>u. ur_interface_id u = i) us of
           Some index \<Rightarrow> (s\<lparr>br_usb_hid_interfaces := us[index := r]\<rparr>, Inr ())
         | None \<Rightarrow>
             (case vec_push BRIDGE_USB_HID_INTERFACES_MAX us r of
                Some us' \<Rightarrow> (s\<lparr>br_usb_hid_interfaces := us'\<rparr>, Inr ())
              | None \<Rightarrow> (s, Inl BeUsbHidInterfaceCapacity)))"

definition remove_usb_hid_interface :: "interface_id \<Rightarrow> bridge_state \<Rightarrow> bridge_state" where
  "remove_usb_hid_interface i s =
     (case position (\<lambda>u. ur_interface_id u = i) (br_usb_hid_interfaces s) of
        Some index \<Rightarrow> s\<lparr>br_usb_hid_interfaces := swap_remove index (br_usb_hid_interfaces s)\<rparr>
      | None \<Rightarrow> s)"

text \<open>
  \<open>emit_detach_updates\<close> in three steps. The keyboard is applied to itself only to trim the
  suppression.
\<close>

definition detach_keyboard :: "nat \<Rightarrow> host_id \<Rightarrow> physical_input_state \<Rightarrow> notify_reason \<Rightarrow> bridge_io \<Rightarrow> unit bridge_result" where
  "detach_keyboard cap h previous reason io =
     (let (s, out) = io in
      case to_frame (pi_keyboard (br_input s)) of
        Inl e \<Rightarrow> (io, Inl (BeInput e))
      | Inr frame \<Rightarrow>
          let ((kb, ks), r) = keyboard_apply_frame (pi_keyboard (br_input s)) frame (su_keyboard (br_suppression s));
              s1 = s\<lparr>br_input := (br_input s)\<lparr>pi_keyboard := kb\<rparr>, br_suppression := (br_suppression s)\<lparr>su_keyboard := ks\<rparr>\<rparr>
          in case r of
               Inl e \<Rightarrow> ((s1, out), Inl (BeInput e))
             | Inr _ \<Rightarrow>
                 emit_if (can_send s1 h RkKeyboard \<and> pi_keyboard previous \<noteq> kb) cap
                   (Notify (Ble h) (KeyboardReport (kb_report (from_visible_state (visible_against kb ks)))) reason)
                   (s1, out))"

definition detach_mouse :: "nat \<Rightarrow> host_id \<Rightarrow> physical_input_state \<Rightarrow> notify_reason \<Rightarrow> bridge_io \<Rightarrow> unit bridge_result" where
  "detach_mouse cap h previous reason io =
     (let (s, out) = io;
          buttons = pm_buttons (pi_mouse (br_input s));
          suppressed = buttons_intersection (su_mouse_buttons (br_suppression s)) buttons;
          s1 = s\<lparr>br_suppression := (br_suppression s)\<lparr>su_mouse_buttons := suppressed\<rparr>\<rparr>
      in emit_if (can_send s1 h RkMouse \<and> pm_buttons (pi_mouse previous) \<noteq> buttons) cap
           (Notify (Ble h) (MouseReport (mouse_report_from_frame (buttons_without buttons suppressed) movement_neutral)) reason)
           (s1, out))"

definition detach_consumer :: "nat \<Rightarrow> host_id \<Rightarrow> physical_input_state \<Rightarrow> notify_reason \<Rightarrow> bridge_io \<Rightarrow> unit bridge_result" where
  "detach_consumer cap h previous reason io =
     (let (s, out) = io;
          consumer = pi_consumer (br_input s);
          s1 = s\<lparr>br_suppression := (br_suppression s)\<lparr>su_consumer := trim_consumer consumer (su_consumer (br_suppression s))\<rparr>\<rparr>
      in emit_if (can_send s1 h RkConsumer \<and> cs_active (pi_consumer previous) \<noteq> cs_active consumer) cap
           (Notify (Ble h) (ConsumerReport (consumer_report_of (cs_active consumer))) reason)
           (s1, out))"

definition emit_detach_updates :: "nat \<Rightarrow> host_id \<Rightarrow> physical_input_state \<Rightarrow> notify_reason \<Rightarrow> bridge_io \<Rightarrow> unit bridge_result" where
  "emit_detach_updates cap h previous reason io =
     andThen (detach_keyboard cap h previous reason io) (\<lambda>_ io1.
     andThen (detach_mouse cap h previous reason io1) (\<lambda>_ io2.
     detach_consumer cap h previous reason io2))"

text \<open>The end of both detach paths: the active Bluetooth host, if any, gets the updates.\<close>

definition detach_active :: "nat \<Rightarrow> physical_input_state \<Rightarrow> bridge_io \<Rightarrow> unit bridge_result" where
  "detach_active cap previous io =
     (case br_active (fst io) of
        Some h \<Rightarrow> emit_detach_updates cap h previous NrUsbDeviceRemovedRelease io
      | None \<Rightarrow> (io, Inr ()))"

definition usb_device_removed :: "nat \<Rightarrow> interface_id \<Rightarrow> bridge_io \<Rightarrow> unit bridge_result" where
  "usb_device_removed cap i io =
     (let previous_input = br_input (fst io);
          s1 = remove_usb_hid_interface i (fst io);
          devices = fst (remove_interface (br_input_devices s1) i);
          s2 = s1\<lparr>br_input_devices := devices, br_input := ia_aggregate devices\<rparr>
      in andThen (detach_active cap previous_input (s2, snd io)) (\<lambda>_ io1. push_status cap io1))"

definition reset_input_device :: "nat \<Rightarrow> device_id \<Rightarrow> bridge_io \<Rightarrow> unit bridge_result" where
  "reset_input_device cap d io =
     (let previous_input = br_input (fst io);
          (devices, removed) = remove_device (br_input_devices (fst io)) d
      in if \<not> removed then (((fst io)\<lparr>br_input_devices := devices\<rparr>, snd io), Inr ())
         else detach_active cap previous_input
                ((fst io)\<lparr>br_input_devices := devices, br_input := ia_aggregate devices\<rparr>, snd io))"

section \<open>Events\<close>

definition host_disconnected :: "bool \<Rightarrow> nat \<Rightarrow> host_id \<Rightarrow> bridge_io \<Rightarrow> unit bridge_result" where
  "host_disconnected w cap h io =
     (let s = fst io;
          should_fallback =
            (if w then ot_active (br_output_target s) = Some (Ble h)
             else br_active s = Some h \<and> can_send s h RkKeyboard);
          io1 = refresh_io w (s\<lparr>br_hosts := on_disconnected (br_hosts s) h\<rparr>, snd io)
      in if should_fallback then
           if w then
             (case next_ready_output_target (fst io1) of
                Some target \<Rightarrow> transition_output_target cap target None io1
              | None \<Rightarrow> push_status cap io1)
           else
             (case next_ready_target_after (br_hosts (fst io1)) (Some h) RkKeyboard of
                Some target \<Rightarrow> andThen (transition_ble_target cap target None io1) (\<lambda>_ io2. push_status cap io2)
              | None \<Rightarrow> push_status cap io1)
         else push_status cap io1)"

definition host_security_changed ::
    "bool \<Rightarrow> nat \<Rightarrow> host_id \<Rightarrow> bool \<Rightarrow> bool \<Rightarrow> stored_bond option \<Rightarrow> bridge_io \<Rightarrow> unit bridge_result" where
  "host_security_changed w cap h encrypted bonded bond io =
     andThen (with_hosts (\<lambda>m. on_security_changed m h encrypted bonded bond) io) (\<lambda>persist io1.
     andThen (emit_if persist cap PersistProfiles io1) (\<lambda>_ io2.
     andThen (if bonded \<and> br_pairable_host (fst io2) = Some h then emit cap (RejectPairing h) (set_pairable None io2)
              else (io2, Inr ())) (\<lambda>_ io3.
     push_status cap (refresh_io w io3))))"

definition host_keyboard_led_changed :: "nat \<Rightarrow> host_id \<Rightarrow> keyboard_led_state \<Rightarrow> bridge_io \<Rightarrow> unit bridge_result" where
  "host_keyboard_led_changed cap h leds io =
     andThen (with_hosts (\<lambda>m. on_keyboard_led_changed m h leds) io) (\<lambda>_ io1.
     if br_active (fst io1) = Some h then push_usb_keyboard_leds cap leds io1 else (io1, Inr ()))"

definition wired_keyboard_led_changed :: "nat \<Rightarrow> keyboard_led_state \<Rightarrow> bridge_io \<Rightarrow> unit bridge_result" where
  "wired_keyboard_led_changed cap leds io =
     (let io1 = ((fst io)\<lparr>br_wired_keyboard_leds := leds\<rparr>, snd io) in
      if ot_selected (br_output_target (fst io1)) = Wired then push_usb_keyboard_leds cap leds io1 else (io1, Inr ()))"

fun handle_event_in_place :: "bool \<Rightarrow> nat \<Rightarrow> bridge_event \<Rightarrow> bridge_io \<Rightarrow> unit bridge_result" where
  "handle_event_in_place w cap (EvInputFrame f) io = handle_input_frame w cap f io"
| "handle_event_in_place w cap (EvHostConnected h) io =
     andThen (with_hosts (\<lambda>m. on_connected m h) io) (\<lambda>_ io1. push_status cap (refresh_io w io1))"
| "handle_event_in_place w cap (EvHostDisconnected h) io = host_disconnected w cap h io"
| "handle_event_in_place w cap (EvHostSecurityChanged h encrypted bonded bond) io =
     host_security_changed w cap h encrypted bonded bond io"
| "handle_event_in_place w cap (EvCccdChanged h report enabled) io =
     andThen (with_hosts (\<lambda>m. on_cccd_changed m h report enabled) io) (\<lambda>persist io1.
     andThen (emit_if persist cap PersistProfiles io1) (\<lambda>_ io2. push_status cap (refresh_io w io2)))"
| "handle_event_in_place w cap (EvUsbHidInterfaceConnected i d sink) io =
     (case upsert_usb_hid_interface i d sink (fst io) of
        (s, Inl e) \<Rightarrow> ((s, snd io), Inl e)
      | (s, Inr _) \<Rightarrow> apply_active_host_leds w cap (s, snd io))"
| "handle_event_in_place w cap (EvHostKeyboardLedChanged h leds) io = host_keyboard_led_changed cap h leds io"
| "handle_event_in_place w cap (EvWiredKeyboardLedChanged leds) io =
     (if w then wired_keyboard_led_changed cap leds io else (io, Inr ()))"
| "handle_event_in_place w cap (EvSetHostName h name) io =
     andThen (with_hosts (\<lambda>m. machine_set_name m h name) io) (\<lambda>changed io1.
     andThen (emit_if changed cap PersistProfiles io1) (\<lambda>_ io2. push_status cap io2))"
| "handle_event_in_place w cap (EvEnterPairingMode h) io = enter_pairing_mode cap h io"
| "handle_event_in_place w cap (EvPairingModeExpired h) io = expire_pairing_mode cap h io"
| "handle_event_in_place w cap (EvClearHost h) io = clear_host w cap h io"
| "handle_event_in_place w cap (EvSwitchTarget target) io = switch_target w cap target io"
| "handle_event_in_place w cap (EvSelectOutputTarget target) io =
     (if w then select_output_target cap target io else (io, Inr ()))"
| "handle_event_in_place w cap (EvWiredAvailabilityChanged availability) io =
     (if w then wired_availability_changed cap availability io else (io, Inr ()))"
| "handle_event_in_place w cap (EvUsbDeviceRemoved i) io = usb_device_removed cap i io"
| "handle_event_in_place w cap (EvResetInputDevice d) io = reset_input_device cap d io"

definition handle_event :: "bool \<Rightarrow> nat \<Rightarrow> bridge_event \<Rightarrow> bridge_io \<Rightarrow> unit bridge_result" where
  "handle_event w cap ev io =
     (case handle_event_in_place w cap ev (fst io, []) of
        (_, Inl e) \<Rightarrow> (io, Inl e)
      | (io', Inr _) \<Rightarrow> (io', Inr ()))"

section \<open>The other public methods\<close>

definition mark_host_disconnected_for_quiesce :: "bridge_state \<Rightarrow> host_id \<Rightarrow> bridge_state" where
  "mark_host_disconnected_for_quiesce s h = s\<lparr>br_hosts := on_disconnected (br_hosts s) h\<rparr>"

definition prepare_for_quiesce :: "bridge_state \<Rightarrow> (bridge_state, bridge_error, unit) outcome" where
  "prepare_for_quiesce s = capture_suppression s"

definition set_discovered_host_name :: "bridge_state \<Rightarrow> host_id \<Rightarrow> fixed_name \<Rightarrow> (bridge_state, host_state_error, bool) outcome" where
  "set_discovered_host_name s h name =
     (case set_discovered_name (br_hosts s) h name of (m, r) \<Rightarrow> (s\<lparr>br_hosts := m\<rparr>, r))"

definition set_mirror_target :: "bridge_state \<Rightarrow> mirror_stable_id option \<Rightarrow> bridge_state" where
  "set_mirror_target s target = s\<lparr>br_mirror_target := target\<rparr>"

definition set_wired_host_link :: "bridge_state \<Rightarrow> host_id option \<Rightarrow> bridge_state" where
  "set_wired_host_link s h = s\<lparr>br_wired_ble_host := h\<rparr>"

definition begin_wired_presentation_transition :: "bridge_state \<Rightarrow> (bridge_state, bridge_error, u32) outcome" where
  "begin_wired_presentation_transition s =
     andThen (capture_suppression s) (\<lambda>_ s1.
       let (t, operation_id) = output_begin_transition (br_output_target s1)
       in (s1\<lparr>br_wired_availability := ConnectedNotReady, br_output_target := t\<rparr>, Inr operation_id))"

definition hold_wired_presentation_transition :: "bridge_state \<Rightarrow> bridge_state" where
  "hold_wired_presentation_transition s =
     (if br_wired_availability s \<noteq> Unavailable then
        s\<lparr>br_wired_availability := ConnectedNotReady,
          br_output_target := output_set_availability (br_output_target s) ConnectedNotReady\<rparr>
      else s)"

definition validated_slot :: "host_id \<Rightarrow> storage_error + host_slot" where
  "validated_slot h = (case host_id_validated h of Inl _ \<Rightarrow> Inl SeInvalidHostId | Inr slot \<Rightarrow> Inr slot)"

definition bridge_storage_state :: "bool \<Rightarrow> bridge_state \<Rightarrow> u32 \<Rightarrow> storage_error + storage_state" where
  "bridge_storage_state w s generation =
     bindE (machine_storage_state (br_hosts s) generation) (\<lambda>storage.
       if \<not> w then Inr storage
       else
         bindE (case ot_selected (br_output_target s) of
                  Wired \<Rightarrow> Inr StoredWired
                | Ble h \<Rightarrow> bindE (validated_slot h) (\<lambda>slot. Inr (StoredBle slot))) (\<lambda>target.
         bindE (case br_wired_ble_host s of
                  None \<Rightarrow> Inr None
                | Some h \<Rightarrow> bindE (validated_slot h) (\<lambda>slot. Inr (Some slot))) (\<lambda>link.
         Inr (storage\<lparr>st_presentation :=
           \<lparr>sp_output_target = target, sp_wired_ble_host = link, sp_mirror_target = br_mirror_target s\<rparr>\<rparr>))))"

text \<open>The action vector is cleared before anything is restored.\<close>

definition restore_storage_state :: "bool \<Rightarrow> storage_state \<Rightarrow> bridge_io \<Rightarrow> unit bridge_result" where
  "restore_storage_state w storage io =
     andThen (with_hosts (\<lambda>m. machine_restore m storage) (fst io, [])) (\<lambda>_ io1.
       let s1 = fst io1;
           selected = (case (sp_output_target (st_presentation storage), st_last_active_host storage) of
                         (StoredWired, Some h) \<Rightarrow> Ble h
                       | (stored, _) \<Rightarrow> as_output_target stored);
           s2 = (if w then
                   s1\<lparr>br_output_target := output_target_state_new\<lparr>ot_selected := selected\<rparr>,
                      br_mirror_target := sp_mirror_target (st_presentation storage),
                      br_wired_ble_host := sp_wired_ble_host (st_presentation storage),
                      br_hosts := (if selected = Wired then clear_active_target (br_hosts s1) else br_hosts s1)\<rparr>
                 else s1)
       in ((s2\<lparr>br_pairable_host := None\<rparr>, snd io1), Inr ()))"

definition keyboard_led_event_from_ble_output :: "host_id \<Rightarrow> bytes \<Rightarrow> ble_keyboard_output_error + bridge_event" where
  "keyboard_led_event_from_ble_output h bs =
     bindE (led_output_from_bytes bs) (\<lambda>leds. Inr (EvHostKeyboardLedChanged h leds))"

end
