(* ===== verification/HS_BridgeInv.thy ===== *)
theory HS_BridgeInv
  imports HS_Bridge
begin

unbundle bit_operations_syntax

text \<open>
  The invariant of the bridge and what its methods do to the state. The first lemmas say which
  methods only append actions; the rest establish the invariant for every method, whether it
  succeeds or stops at an error in the middle.
\<close>

section \<open>Methods that only append actions\<close>

lemma emit_eq:
  "emit cap a io = (if length (snd io) < cap then ((fst io, snd io @ [a]), Inr ()) else (io, Inl BeActionCapacity))"
  by (simp add: emit_def push_action_def vec_push_def)

lemma emit_if_eq: "emit_if b cap a io = (if b then emit cap a io else (io, Inr ()))"
  by (simp add: emit_if_def)

text \<open>
  A result appends only the actions of a set: the state stays and the vector grows by some of
  them.
\<close>

definition appends :: "bridge_action set \<Rightarrow> bridge_io \<Rightarrow> 'a bridge_result \<Rightarrow> bool" where
  "appends A io r = (fst (fst r) = fst io \<and> (\<exists>as. snd (fst r) = snd io @ as \<and> set as \<subseteq> A))"

lemma appends_emit: "a \<in> A \<Longrightarrow> appends A io (emit cap a io)"
  by (simp add: appends_def emit_eq)

lemma appends_skip: "appends A io (io, r)"
  by (simp add: appends_def)

lemma appends_emit_if: "(b \<Longrightarrow> a \<in> A) \<Longrightarrow> appends A io (emit_if b cap a io)"
  by (simp add: emit_if_def appends_emit appends_skip)

lemma appends_trans:
  assumes r: "appends A io r" and f: "\<And>x io'. r = (io', Inr x) \<Longrightarrow> fst io' = fst io \<Longrightarrow> appends A io' (f x io')"
  shows "appends A io (andThen r f)"
proof (cases r)
  case (Pair io' v)
  obtain as where as: "fst io' = fst io" "snd io' = snd io @ as" "set as \<subseteq> A" using r Pair by (auto simp: appends_def)
  show ?thesis
  proof (cases v)
    case (Inl e)
    then show ?thesis using as Pair by (auto simp: appends_def)
  next
    case (Inr x)
    then have eq: "andThen r f = f x io'" using Pair by simp
    obtain bs where "fst (fst (f x io')) = fst io'" "snd (fst (f x io')) = snd io' @ bs" "set bs \<subseteq> A"
      using f[of io' x] Pair Inr as(1) by (auto simp: appends_def)
    then show ?thesis using as by (auto simp: appends_def eq)
  qed
qed

lemma appends_emit_all: "set as \<subseteq> A \<Longrightarrow> appends A io (emit_all cap as io)"
  by (induction as arbitrary: io) (auto intro!: appends_trans appends_emit appends_skip)

lemma appends_mono: "appends A io r \<Longrightarrow> A \<subseteq> B \<Longrightarrow> appends B io r"
  by (auto simp: appends_def)

lemma appends_state: "appends A io r \<Longrightarrow> fst (fst r) = fst io"
  by (simp add: appends_def)

text \<open>The actions each of these methods can append.\<close>

definition release_actions :: "bridge_state \<Rightarrow> host_id \<Rightarrow> notify_reason \<Rightarrow> bridge_action set" where
  "release_actions s h reason =
     {Notify (Ble h) r reason | r. can_send s h (report_kind_of r) \<and>
        r \<in> {KeyboardReport keyboard_report_release, MouseReport mouse_report_release_buttons, ConsumerReport consumer_report_release}}"

definition neutral_actions :: "notify_reason \<Rightarrow> bridge_action set" where
  "neutral_actions reason =
     {Notify Wired r reason | r.
        r \<in> {KeyboardReport keyboard_report_release, MouseReport mouse_report_release_buttons, ConsumerReport consumer_report_release}}"

definition led_actions :: "bridge_action set" where
  "led_actions = {UsbSetKeyboardLeds i d leds | i d leds. True}"

lemma appends_push_status: "StatusChanged (status (fst io)) \<in> A \<Longrightarrow> appends A io (push_status cap io)"
  by (simp add: push_status_def appends_emit)

lemma appends_release_reports: "appends (release_actions (fst io) h reason) io (push_release_reports cap h reason io)"
  unfolding push_release_reports_def
  by (intro appends_trans appends_emit_if) (auto simp: release_actions_def)

lemma appends_neutral_reports: "appends (neutral_actions reason) io (push_neutral_reports cap Wired reason io)"
  unfolding push_neutral_reports_def by (rule appends_emit_all) (auto simp: neutral_actions_def)

lemma appends_leds: "appends led_actions io (push_usb_keyboard_leds cap leds io)"
  unfolding push_usb_keyboard_leds_def by (rule appends_emit_all) (auto simp: led_actions_def)

lemma appends_active_leds: "appends led_actions io (apply_active_host_leds w cap io)"
  by (auto simp: apply_active_host_leds_def Let_def appends_leds appends_skip split: option.split)

lemmas append_only = appends_release_reports appends_neutral_reports appends_leds appends_active_leds

lemma append_only_state [simp]:
  "fst (fst (emit cap a io)) = fst io"
  "fst (fst (emit_if b cap a io)) = fst io"
  "fst (fst (push_status cap io)) = fst io"
  "fst (fst (push_release_reports cap h reason io)) = fst io"
  "fst (fst (push_neutral_reports cap Wired reason io)) = fst io"
  "fst (fst (push_release_target cap t reason io)) = fst io"
  "fst (fst (push_usb_keyboard_leds cap leds io)) = fst io"
  "fst (fst (apply_active_host_leds w cap io)) = fst io"
  by (cases t; simp add: emit_eq emit_if_eq push_status_def append_only[THEN appends_state])+

section \<open>Input state\<close>

definition input_inv :: "bridge_state \<Rightarrow> bool" where
  "input_inv s =
     (let agg = ia_aggregate (br_input_devices s); kb = pi_keyboard (br_input s) in
      aggregator_inv (br_input_devices s) \<and> keys_ok (pk_keys kb) \<and> keys_ok (ks_keys (su_keyboard (br_suppression s))) \<and>
      set (pk_keys kb) = set (pk_keys (pi_keyboard agg)) \<and> pk_modifiers kb = pk_modifiers (pi_keyboard agg) \<and>
      pi_mouse (br_input s) = pi_mouse agg \<and> pi_consumer (br_input s) = pi_consumer agg)"

lemma input_inv_new: "input_inv (bridge_state_new n)"
  by (simp add: input_inv_def bridge_state_new_def aggregator_inv_new suppression_state_new_def keyboard_suppression_new_def
      physical_input_new_def physical_keyboard_new_def) (simp add: aggregator_new_def physical_input_new_def physical_keyboard_new_def)

lemma input_inv_parts:
  assumes "input_inv s"
  shows "aggregator_inv (br_input_devices s)" "keys_ok (pk_keys (pi_keyboard (br_input s)))"
    "keys_ok (ks_keys (su_keyboard (br_suppression s)))" "distinct (ks_keys (su_keyboard (br_suppression s)))"
  using assms by (simp_all add: input_inv_def Let_def keys_ok_def)

lemma commit_aggregate: "ia_aggregate (commit_frame ia p) = prepared_aggregate p ia"
  by (simp add: commit_frame_def prepared_aggregate_def)

lemma prepared_aggregate_parts:
  assumes "prepare_frame ia f = Inr p"
  shows "sf_keyboard f = None \<Longrightarrow> pi_keyboard (prepared_aggregate p ia) = pi_keyboard (ia_aggregate ia)"
    "sf_mouse f = None \<Longrightarrow> pi_mouse (prepared_aggregate p ia) = pi_mouse (ia_aggregate ia)"
    "sf_consumer f = None \<Longrightarrow> pi_consumer (prepared_aggregate p ia) = pi_consumer (ia_aggregate ia)"
  using assms
  by (auto simp: prepare_frame_def prepared_aggregate_def frame_aggregate_def frame_buttons_changed_def Let_def
      bindE_Inr_iff rebuild_keyboard_replacing_def rebuild_mouse_buttons_replacing_def rebuild_consumer_replacing_def
      split: if_splits)

lemma commit_inv:
  assumes "aggregator_inv ia" and "frame_ok f" and "prepare_frame ia f = Inr p"
  shows "aggregator_inv (commit_frame ia p)" and "keys_ok (pk_keys (pi_keyboard (prepared_aggregate p ia)))"
proof -
  show inv: "aggregator_inv (commit_frame ia p)"
    using aggregator_inv_frame[OF assms(1,2)] assms(3) by (simp add: aggregator_apply_frame_def)
  show "keys_ok (pk_keys (pi_keyboard (prepared_aggregate p ia)))"
    using aggregate_keys(2)[OF inv] by (simp add: commit_aggregate)
qed

text \<open>
  The next keyboard state and suppression that \<open>keyboard_part\<close> computes: the keys of the
  aggregate in press order, of which the suppression keeps the held ones and takes those that
  do not fit into the report.
\<close>

definition next_keyboard :: "bridge_state \<Rightarrow> physical_input_state \<Rightarrow> physical_keyboard_state \<times> keyboard_suppression" where
  "next_keyboard s agg =
     (let (kb, ks) = fst (keyboard_apply_state (pi_keyboard (br_input s)) (pi_keyboard agg) (su_keyboard (br_suppression s)))
      in (kb, fst (suppress_visible_after ks kb KEYBOARD_6KRO_KEY_CAPACITY)))"

lemma next_keyboard_ok:
  assumes inv: "input_inv s" and agg: "keys_ok (pk_keys (pi_keyboard agg))" and nk: "next_keyboard s agg = (kb, ks)"
  defines "before \<equiv> su_keyboard (br_suppression s)"
  shows "keys_ok (pk_keys kb)" "set (pk_keys kb) = set (pk_keys (pi_keyboard agg))"
    "pk_modifiers kb = pk_modifiers (pi_keyboard agg)" "keys_ok (ks_keys ks)" "set (ks_keys ks) \<subseteq> set (pk_keys kb)"
    "set (ks_keys before) \<inter> set (pk_keys kb) \<subseteq> set (ks_keys ks)"
    "ks_modifiers ks = ks_modifiers before AND pk_modifiers kb"
    "length (visible_keys kb ks) \<le> KEYBOARD_6KRO_KEY_CAPACITY"
    "\<exists>ks1 n. keyboard_apply_state (pi_keyboard (br_input s)) (pi_keyboard agg) before = ((kb, ks1), Inr ()) \<and>
       suppress_visible_after ks1 kb KEYBOARD_6KRO_KEY_CAPACITY = (ks, Inr n)"
proof -
  note parts = input_inv_parts[OF inv]
  obtain kb1 ks1 r where ap: "keyboard_apply_state (pi_keyboard (br_input s)) (pi_keyboard agg) before = ((kb1, ks1), r)"
    by (metis prod.exhaust)
  note A = keyboard_apply_state_ok[OF parts(2) agg parts(4) ap[unfolded before_def]]
  note sup = suppress_visible_after_ok[OF A(4,5,6), of KEYBOARD_6KRO_KEY_CAPACITY]
  have kb: "kb = kb1" and ks: "ks = ks1\<lparr>ks_keys := ks_keys ks1 @ drop KEYBOARD_6KRO_KEY_CAPACITY (visible_keys kb1 ks1)\<rparr>"
    using nk ap sup by (auto simp: next_keyboard_def before_def)
  have sub: "set (drop n (visible_keys kb1 ks1)) \<subseteq> set (pk_keys kb1) - set (ks_keys ks1)" for n
    using set_drop_subset[of n "visible_keys kb1 ks1"] by (auto simp: visible_keys_def suppression_contains_key_def)
  show "keys_ok (pk_keys kb)" "set (pk_keys kb) = set (pk_keys (pi_keyboard agg))"
    "pk_modifiers kb = pk_modifiers (pi_keyboard agg)" by (simp_all add: A kb)
  show sub2: "set (ks_keys ks) \<subseteq> set (pk_keys kb)" using A(6) sub by (auto simp: kb ks)
  have "distinct (ks_keys ks)" using A(4,5) sub by (auto simp: ks visible_keys_def keys_ok_def)
  then show "keys_ok (ks_keys ks)" by (rule keys_ok_subset[OF _ sub2]) (simp add: A(4) kb)
  show "set (ks_keys before) \<inter> set (pk_keys kb) \<subseteq> set (ks_keys ks)"
    using A(9) by (auto simp: ks kb A(3) before_def)
  show "ks_modifiers ks = ks_modifiers before AND pk_modifiers kb" by (simp add: ks kb A(2,7) before_def)
  show "length (visible_keys kb ks) \<le> KEYBOARD_6KRO_KEY_CAPACITY"
    unfolding ks kb using visible_keys_after_suppress[of kb1] A(4) by (simp add: keys_ok_def)
  show "\<exists>ks1 n. keyboard_apply_state (pi_keyboard (br_input s)) (pi_keyboard agg) before = ((kb, ks1), Inr ()) \<and>
       suppress_visible_after ks1 kb KEYBOARD_6KRO_KEY_CAPACITY = (ks, Inr n)"
    using ap A(1) sup by (simp add: kb ks)
qed

text \<open>
  The actions of the parts: a report to the ready active target that shows the new state less
  what the new suppression hides.
\<close>

definition hidden_buttons :: "bridge_state \<Rightarrow> physical_input_state \<Rightarrow> mouse_buttons" where
  "hidden_buttons s agg = buttons_intersection (su_mouse_buttons (br_suppression s)) (pm_buttons (pi_mouse agg))"

definition hidden_consumer :: "bridge_state \<Rightarrow> physical_input_state \<Rightarrow> consumer_state" where
  "hidden_consumer s agg = trim_consumer (pi_consumer agg) (su_consumer (br_suppression s))"

definition visible_consumer :: "consumer_state \<Rightarrow> consumer_state \<Rightarrow> consumer_usage option" where
  "visible_consumer c hidden = (if cs_active c = cs_active hidden then None else cs_active c)"

definition notify_ready :: "bool \<Rightarrow> bridge_state \<Rightarrow> standard_hid_report \<Rightarrow> notify_reason \<Rightarrow> bridge_action list" where
  "notify_ready w s r reason =
     (case ready_active_target w s (report_kind_of r) of None \<Rightarrow> [] | Some t \<Rightarrow> [Notify t r reason])"

definition keyboard_actions :: "bool \<Rightarrow> bridge_state \<Rightarrow> standard_input_frame \<Rightarrow> physical_input_state \<Rightarrow> bridge_action list" where
  "keyboard_actions w s f agg =
     (if sf_keyboard f = None then []
      else let (kb, ks) = next_keyboard s agg in
        notify_ready w s (KeyboardReport (kb_report (from_physical_state kb ks)))
          (if keyboard_contains_release (pi_keyboard (br_input s)) kb then NrInputRelease else NrInput))"

definition mouse_actions :: "bool \<Rightarrow> bridge_state \<Rightarrow> standard_input_frame \<Rightarrow> physical_input_state \<Rightarrow> bridge_action list" where
  "mouse_actions w s f agg =
     (case sf_mouse f of
        None \<Rightarrow> []
      | Some m \<Rightarrow>
          notify_ready w s
            (MouseReport (mouse_report_from_frame (buttons_without (pm_buttons (pi_mouse agg)) (hidden_buttons s agg)) (mf_movement m)))
            (if pm_buttons (pi_mouse (br_input s)) \<noteq> pm_buttons (pi_mouse agg) then NrInputEdge else NrInput))"

definition consumer_actions :: "bool \<Rightarrow> bridge_state \<Rightarrow> standard_input_frame \<Rightarrow> physical_input_state \<Rightarrow> bridge_action list" where
  "consumer_actions w s f agg =
     (if sf_consumer f = None then []
      else notify_ready w s (ConsumerReport (consumer_report_of (visible_consumer (pi_consumer agg) (hidden_consumer s agg))))
        (if cs_active (pi_consumer (br_input s)) \<noteq> None \<and> cs_active (pi_consumer agg) = None then NrInputRelease else NrInput))"

text \<open>Each part can only fail for want of room for its action; otherwise it computes the next state.\<close>

lemma keyboard_part_cases:
  assumes inv: "input_inv s" and agg: "keys_ok (pk_keys (pi_keyboard agg))"
  shows "keyboard_part w cap s f agg so = Inl BeActionCapacity \<or>
    (\<exists>st. keyboard_part w cap s f agg so =
       Inr (if sf_keyboard f = None then None else Some (next_keyboard s agg), st, snd so @ keyboard_actions w s f agg))"
proof -
  obtain kb ks where nk: "next_keyboard s agg = (kb, ks)" by (cases "next_keyboard s agg") simp
  obtain ks1 n where "keyboard_apply_state (pi_keyboard (br_input s)) (pi_keyboard agg) (su_keyboard (br_suppression s)) = ((kb, ks1), Inr ())"
    "suppress_visible_after ks1 kb KEYBOARD_6KRO_KEY_CAPACITY = (ks, Inr n)"
    using next_keyboard_ok(9)[OF inv agg nk] by blast
  then show ?thesis
    by (cases so) (auto simp: keyboard_part_def keyboard_actions_def notify_ready_def nk push_action_def vec_push_def split: option.split)
qed

lemma mouse_part_cases:
  "mouse_part w cap s f agg so = Inl BeActionCapacity \<or>
    (\<exists>st. mouse_part w cap s f agg so =
       Inr (if sf_mouse f = None then None else Some (pi_mouse agg, hidden_buttons s agg), st, snd so @ mouse_actions w s f agg))"
proof -
  have "b AND NOT c \<noteq> 0 \<Longrightarrow> b \<noteq> c" for b c :: mouse_buttons by (metis word_bw_comms(1) word_and_not)
  then show ?thesis
    by (cases so) (auto simp: mouse_part_def mouse_actions_def notify_ready_def hidden_buttons_def Let_def push_action_def vec_push_def
        split: option.split)
qed

lemma consumer_part_cases:
  "consumer_part w cap s f agg so = Inl BeActionCapacity \<or>
    (\<exists>st. consumer_part w cap s f agg so =
       Inr (if sf_consumer f = None then None else Some (pi_consumer agg, hidden_consumer s agg), st, snd so @ consumer_actions w s f agg))"
  by (cases so) (auto simp: consumer_part_def consumer_actions_def notify_ready_def visible_consumer_def hidden_consumer_def Let_def
      push_action_def vec_push_def split: option.split)

lemma commit_input_simps:
  "br_input_devices (commit_input s p kb ms cs st) = commit_frame (br_input_devices s) p"
  "br_input (commit_input s p kb ms cs st) =
     \<lparr>pi_keyboard = (case kb of Some (k, _) \<Rightarrow> k | None \<Rightarrow> pi_keyboard (br_input s)),
      pi_mouse = (case ms of Some (m, _) \<Rightarrow> m | None \<Rightarrow> pi_mouse (br_input s)),
      pi_consumer = (case cs of Some (c, _) \<Rightarrow> c | None \<Rightarrow> pi_consumer (br_input s))\<rparr>"
  "br_suppression (commit_input s p kb ms cs st) =
     \<lparr>su_keyboard = (case kb of Some (_, k) \<Rightarrow> k | None \<Rightarrow> su_keyboard (br_suppression s)),
      su_mouse_buttons = (case ms of Some (_, m) \<Rightarrow> m | None \<Rightarrow> su_mouse_buttons (br_suppression s)),
      su_consumer = (case cs of Some (_, c) \<Rightarrow> c | None \<Rightarrow> su_consumer (br_suppression s))\<rparr>"
  "br_hosts (commit_input s p kb ms cs st) = br_hosts s"
  "br_output_target (commit_input s p kb ms cs st) = br_output_target s"
  "br_wired_availability (commit_input s p kb ms cs st) = br_wired_availability s"
  "br_usb_hid_interfaces (commit_input s p kb ms cs st) = br_usb_hid_interfaces s"
  "br_pairable_host (commit_input s p kb ms cs st) = br_pairable_host s"
  by (simp_all add: commit_input_def)

text \<open>The state a frame leads to and its actions.\<close>

definition after_frame :: "bridge_state \<Rightarrow> standard_input_frame \<Rightarrow> prepared_input_frame \<Rightarrow> bridge_stats \<Rightarrow> bridge_state" where
  "after_frame s f p st =
     (let agg = prepared_aggregate p (br_input_devices s) in
      commit_input s p
        (if sf_keyboard f = None then None else Some (next_keyboard s agg))
        (if sf_mouse f = None then None else Some (pi_mouse agg, hidden_buttons s agg))
        (if sf_consumer f = None then None else Some (pi_consumer agg, hidden_consumer s agg)) st)"

definition frame_actions :: "bool \<Rightarrow> bridge_state \<Rightarrow> standard_input_frame \<Rightarrow> physical_input_state \<Rightarrow> bridge_action list" where
  "frame_actions w s f agg = keyboard_actions w s f agg @ mouse_actions w s f agg @ consumer_actions w s f agg"

lemma input_inv_after_frame:
  assumes inv: "input_inv s" and f: "frame_ok f" and p: "prepare_frame (br_input_devices s) f = Inr p"
  shows "input_inv (after_frame s f p st)"
proof -
  let ?agg = "prepared_aggregate p (br_input_devices s)"
  note C = commit_inv[OF input_inv_parts(1)[OF inv] f p]
  note same = prepared_aggregate_parts[OF p]
  obtain kb ks where nk: "next_keyboard s ?agg = (kb, ks)" by (cases "next_keyboard s ?agg") simp
  note N = next_keyboard_ok[OF inv C(2) nk]
  show ?thesis
    using C(1) N(1-4) inv same
    by (auto simp: input_inv_def Let_def after_frame_def commit_input_simps commit_aggregate nk)
qed

lemma standard_frame_result:
  assumes inv: "input_inv s" and f: "frame_ok f" and r_def: "r = handle_standard_input_frame w cap f (s, out)"
  shows "case prepare_frame (br_input_devices s) f of
    Inl e \<Rightarrow> r = ((s, out), Inl (BeInput e))
  | Inr p \<Rightarrow> r = ((s, out), Inl BeActionCapacity) \<or>
      (\<exists>st. r = ((after_frame s f p st, out @ frame_actions w s f (prepared_aggregate p (br_input_devices s))), Inr ()))"
proof (cases "prepare_frame (br_input_devices s) f")
  case (Inl x)
  then show ?thesis by (simp add: r_def handle_standard_input_frame_def)
next
  case (Inr p)
  let ?agg = "prepared_aggregate p (br_input_devices s)"
  note C = commit_inv[OF input_inv_parts(1)[OF inv] f Inr]
  note K = keyboard_part_cases[OF inv C(2), of w cap f "(br_stats s, out)"]
  note M = mouse_part_cases[of w cap s f ?agg] and CC = consumer_part_cases[of w cap s f ?agg]
  note hr = r_def[unfolded handle_standard_input_frame_def, simplified Let_def prod.case Inr sum.case]
  from K show ?thesis
  proof
    assume "keyboard_part w cap s f ?agg (br_stats s, out) = Inl BeActionCapacity"
    then show ?thesis using Inr hr by simp
  next
    assume "\<exists>st. keyboard_part w cap s f ?agg (br_stats s, out) =
      Inr (if sf_keyboard f = None then None else Some (next_keyboard s ?agg), st, snd (br_stats s, out) @ keyboard_actions w s f ?agg)"
    then obtain st1 where k: "keyboard_part w cap s f ?agg (br_stats s, out) =
      Inr (if sf_keyboard f = None then None else Some (next_keyboard s ?agg), st1, out @ keyboard_actions w s f ?agg)" by auto
    consider (m0) "mouse_part w cap s f ?agg (st1, out @ keyboard_actions w s f ?agg) = Inl BeActionCapacity"
      | (m1) st2 where "mouse_part w cap s f ?agg (st1, out @ keyboard_actions w s f ?agg) =
          Inr (if sf_mouse f = None then None else Some (pi_mouse ?agg, hidden_buttons s ?agg), st2,
               (out @ keyboard_actions w s f ?agg) @ mouse_actions w s f ?agg)"
      using M[of "(st1, out @ keyboard_actions w s f ?agg)"] by auto
    then show ?thesis
    proof cases
      case m0
      then show ?thesis using Inr hr k by simp
    next
      case m1
      then show ?thesis using Inr hr k CC[of "(st2, (out @ keyboard_actions w s f ?agg) @ mouse_actions w s f ?agg)"]
        by (auto simp: after_frame_def Let_def frame_actions_def)
    qed
  qed
qed

section \<open>The invariant\<close>

text \<open>
  The interface table lists no interface twice; the host table is the one of the firmware, with
  a slot for every host id; the selected output target and the active host agree, and a wired
  target is active only while the wired link is ready.
\<close>

definition usb_inv :: "bridge_state \<Rightarrow> bool" where
  "usb_inv s =
     (distinct (map ur_interface_id (br_usb_hid_interfaces s)) \<and>
      length (br_usb_hid_interfaces s) \<le> BRIDGE_USB_HID_INTERFACES_MAX)"

definition table_inv :: "bridge_state \<Rightarrow> bool" where
  "table_inv s = (host_inv (br_hosts s) \<and> length (hm_hosts (br_hosts s)) = HOST_SLOT_COUNT)"

definition target_inv :: "bridge_state \<Rightarrow> bool" where
  "target_inv s =
     (output_inv (br_output_target s) \<and>
      (\<forall>h. br_active s = Some h \<longrightarrow> ot_selected (br_output_target s) = Ble h) \<and>
      (ot_active (br_output_target s) = Some Wired \<longrightarrow> br_wired_availability s = Ready))"

definition bridge_inv :: "bool \<Rightarrow> bridge_state \<Rightarrow> bool" where
  "bridge_inv w s = (input_inv s \<and> usb_inv s \<and> table_inv s \<and> (w \<longrightarrow> target_inv s))"

lemma bridge_inv_new: "bridge_inv w (bridge_state_new HOST_SLOT_COUNT)"
  using input_inv_new[of HOST_SLOT_COUNT] host_inv_new[of HOST_SLOT_COUNT]
  by (simp add: bridge_inv_def usb_inv_def table_inv_def target_inv_def bridge_state_new_def output_inv_def
      output_target_state_new_def br_active_def host_machine_new_def)

lemma input_inv_frame [simp]:
  "input_inv (s\<lparr>br_hosts := m\<rparr>) = input_inv s" "input_inv (s\<lparr>br_output_target := t\<rparr>) = input_inv s"
  "input_inv (s\<lparr>br_wired_availability := a\<rparr>) = input_inv s" "input_inv (s\<lparr>br_pairable_host := p\<rparr>) = input_inv s"
  "input_inv (s\<lparr>br_usb_hid_interfaces := u\<rparr>) = input_inv s" "input_inv (s\<lparr>br_stats := b\<rparr>) = input_inv s"
  "input_inv (s\<lparr>br_wired_ble_host := l\<rparr>) = input_inv s" "input_inv (s\<lparr>br_wired_keyboard_leds := k\<rparr>) = input_inv s"
  "input_inv (s\<lparr>br_mirror_target := i\<rparr>) = input_inv s"
  by (simp_all add: input_inv_def)

lemma usb_inv_frame [simp]:
  "usb_inv (s\<lparr>br_hosts := m\<rparr>) = usb_inv s" "usb_inv (s\<lparr>br_output_target := t\<rparr>) = usb_inv s"
  "usb_inv (s\<lparr>br_wired_availability := a\<rparr>) = usb_inv s" "usb_inv (s\<lparr>br_pairable_host := p\<rparr>) = usb_inv s"
  "usb_inv (s\<lparr>br_suppression := u\<rparr>) = usb_inv s" "usb_inv (s\<lparr>br_stats := b\<rparr>) = usb_inv s"
  "usb_inv (s\<lparr>br_wired_ble_host := l\<rparr>) = usb_inv s" "usb_inv (s\<lparr>br_wired_keyboard_leds := k\<rparr>) = usb_inv s"
  "usb_inv (s\<lparr>br_mirror_target := i\<rparr>) = usb_inv s" "usb_inv (s\<lparr>br_input := j\<rparr>) = usb_inv s"
  "usb_inv (s\<lparr>br_input_devices := v\<rparr>) = usb_inv s"
  by (simp_all add: usb_inv_def)

lemma table_inv_frame [simp]:
  "table_inv (s\<lparr>br_usb_hid_interfaces := m\<rparr>) = table_inv s" "table_inv (s\<lparr>br_output_target := t\<rparr>) = table_inv s"
  "table_inv (s\<lparr>br_wired_availability := a\<rparr>) = table_inv s" "table_inv (s\<lparr>br_pairable_host := p\<rparr>) = table_inv s"
  "table_inv (s\<lparr>br_suppression := u\<rparr>) = table_inv s" "table_inv (s\<lparr>br_stats := b\<rparr>) = table_inv s"
  "table_inv (s\<lparr>br_wired_ble_host := l\<rparr>) = table_inv s" "table_inv (s\<lparr>br_wired_keyboard_leds := k\<rparr>) = table_inv s"
  "table_inv (s\<lparr>br_mirror_target := i\<rparr>) = table_inv s" "table_inv (s\<lparr>br_input := j\<rparr>) = table_inv s"
  "table_inv (s\<lparr>br_input_devices := v\<rparr>) = table_inv s"
  by (simp_all add: table_inv_def)

lemma target_inv_frame [simp]:
  "target_inv (s\<lparr>br_usb_hid_interfaces := m\<rparr>) = target_inv s" "target_inv (s\<lparr>br_pairable_host := p\<rparr>) = target_inv s"
  "target_inv (s\<lparr>br_suppression := u\<rparr>) = target_inv s" "target_inv (s\<lparr>br_stats := b\<rparr>) = target_inv s"
  "target_inv (s\<lparr>br_wired_ble_host := l\<rparr>) = target_inv s" "target_inv (s\<lparr>br_wired_keyboard_leds := k\<rparr>) = target_inv s"
  "target_inv (s\<lparr>br_mirror_target := i\<rparr>) = target_inv s" "target_inv (s\<lparr>br_input := j\<rparr>) = target_inv s"
  "target_inv (s\<lparr>br_input_devices := v\<rparr>) = target_inv s"
  by (simp_all add: target_inv_def br_active_def)

lemma bridge_inv_andThen:
  assumes "bridge_inv w (fst (fst r))" and "\<And>x io. bridge_inv w (fst io) \<Longrightarrow> bridge_inv w (fst (fst (f x io)))"
  shows "bridge_inv w (fst (fst (andThen r f)))"
  by (rule andThen_inv[where P = "\<lambda>io. bridge_inv w (fst io)"]) (use assms in auto)

lemma bridge_inv_if: "(b \<Longrightarrow> bridge_inv w (fst (fst r))) \<Longrightarrow> (\<not> b \<Longrightarrow> bridge_inv w (fst (fst q))) \<Longrightarrow> bridge_inv w (fst (fst (if b then r else q)))"
  by simp

subsection \<open>Steps of the parts\<close>

lemma with_hosts_state: "fst (fst (with_hosts f io)) = (fst io)\<lparr>br_hosts := fst (f (br_hosts (fst io)))\<rparr>"
  by (auto simp: with_hosts_def split: prod.split sum.split)

lemma with_hosts_out: "snd (fst (with_hosts f io)) = snd io"
  by (auto simp: with_hosts_def split: prod.split sum.split)

lemma refresh_state_fields [simp]:
  "br_hosts (refresh_selected_target_availability w s) = br_hosts s"
  "br_active (refresh_selected_target_availability w s) = br_active s"
  "br_wired_availability (refresh_selected_target_availability w s) = br_wired_availability s"
  "ot_selected (br_output_target (refresh_selected_target_availability w s)) = ot_selected (br_output_target s)"
  "input_inv (refresh_selected_target_availability w s) = input_inv s"
  "usb_inv (refresh_selected_target_availability w s) = usb_inv s"
  "table_inv (refresh_selected_target_availability w s) = table_inv s"
  by (simp_all add: refresh_selected_target_availability_def Let_def br_active_def output_set_availability_def)

lemma refresh_io_simps [simp]:
  "fst (refresh_io w io) = refresh_selected_target_availability w (fst io)" "snd (refresh_io w io) = snd io"
  by (simp_all add: refresh_io_def)

lemma set_availability_inv: "output_inv t \<Longrightarrow> output_inv (output_set_availability t a)"
  using output_ops.step_inv[of t "OpAvailability a"] by simp

lemma refresh_target_inv:
  assumes "target_inv s"
  shows "target_inv (refresh_selected_target_availability w s)"
proof (cases w)
  case True
  have out: "output_inv (br_output_target (refresh_selected_target_availability w s))"
    using assms by (auto simp: refresh_selected_target_availability_def Let_def target_inv_def intro: set_availability_inv)
  have "br_wired_availability s = Ready" if "ot_active (br_output_target (refresh_selected_target_availability w s)) = Some Wired"
    using that True by (auto simp: refresh_selected_target_availability_def Let_def output_set_availability_def
        split: output_target_availability.splits output_target.splits if_splits)
  then show ?thesis using out assms by (auto simp: target_inv_def split: output_target.splits)
qed (use assms in \<open>simp add: refresh_selected_target_availability_def\<close>)

lemma refresh_inv: "bridge_inv w s \<Longrightarrow> bridge_inv w (refresh_selected_target_availability w s)"
  by (simp add: bridge_inv_def refresh_target_inv)

text \<open>Steps of the host table that leave the active target alone.\<close>

lemma hosts_step_inv:
  assumes "bridge_inv w s" and "m = host_step x (br_hosts s)" and "hm_active_target m = br_active s \<or> hm_active_target m = None"
  shows "bridge_inv w (s\<lparr>br_hosts := m\<rparr>)"
proof -
  have "table_inv (s\<lparr>br_hosts := m\<rparr>)" using host_step_inv[of "br_hosts s" x] assms(1,2) by (simp add: bridge_inv_def table_inv_def)
  moreover have "target_inv (s\<lparr>br_hosts := m\<rparr>)" if "w"
    using assms that by (auto simp: bridge_inv_def target_inv_def br_active_def split: output_target.splits)
  ultimately show ?thesis using assms(1) by (simp add: bridge_inv_def)
qed

lemma host_update_active:
  assumes "bridge_inv w s" and "host_update x = Some (h, f)" and "\<And>a. x \<noteq> HoActive a"
  shows "hm_active_target (host_step x (br_hosts s)) = br_active s"
  using host_step_update_view[OF _ assms(2), of "br_hosts s"] assms(1,3)
  by (cases x) (auto simp: bridge_inv_def table_inv_def br_active_def)

lemma with_hosts_inv:
  assumes "bridge_inv w (fst io)" and "\<And>m. fst (g m) = host_step x m" and "host_update x \<noteq> None" and "\<And>a. x \<noteq> HoActive a"
  shows "bridge_inv w (fst (fst (with_hosts g io)))"
  using hosts_step_inv[OF assms(1) refl, of x] host_update_active[OF assms(1) _ assms(4)] assms(3)
  by (auto simp: with_hosts_state assms(2))

text \<open>The table has a slot for every host id, so a valid host can always be made active.\<close>

lemma host_table_room:
  assumes inv: "host_inv m" and len: "length (hm_hosts m) = HOST_SLOT_COUNT" and h: "slot_ok h" and none: "host_get m h = None"
  shows "None \<in> set (hm_hosts m)"
proof (rule ccontr)
  assume full: "None \<notin> set (hm_hosts m)"
  let ?ids = "map hs_host_id (flatten (hm_hosts m))"
  have "length (flatten xs) = length xs" if "None \<notin> set xs" for xs :: "host_runtime_state option list"
    using that by (induction xs rule: flatten.induct) auto
  then have "length ?ids = 4" using full len by (simp add: HOST_SLOT_COUNT_def)
  moreover have "distinct ?ids" using inv by (simp add: host_inv_def unique_keys_def)
  ultimately have "card (set ?ids) = 4" using distinct_card[of ?ids] by argo
  moreover have "set ?ids \<subseteq> {i. slot_ok i}" using inv by (auto simp: host_inv_def)
  ultimately have "set ?ids = {i. slot_ok i}" by (intro card_subset_eq) (simp_all add: slot_ok_set)
  then have "h \<in> set ?ids" using h by simp
  then obtain x where "Some x \<in> set (hm_hosts m)" "hs_host_id x = h" by auto
  then show False using none host_get_iff[OF inv, of h] by auto
qed

lemma set_active_ok:
  assumes inv: "host_inv m" and len: "length (hm_hosts m) = HOST_SLOT_COUNT" and h: "slot_ok h"
  obtains m' b where "set_active_target m h = (m', Inr b)" "host_inv m'" "length (hm_hosts m') = HOST_SLOT_COUNT"
    "hm_active_target m' = Some h" "host_get m' = (host_get m)(h \<mapsto> fresh_host m h)"
proof (cases rule: set_active_view[OF inv, of h, case_names failed updated])
  case (failed e)
  have False
    using failed h host_table_room[OF inv len h]
    by (cases rule: upsert_view[OF inv, of h, case_names invalid full there]) (simp_all add: set_active_target_def)
  then show thesis ..
next
  case (updated m' b)
  then show thesis using that len by simp
qed

text \<open>Capturing the held input never fails.\<close>

definition captured :: "bridge_state \<Rightarrow> suppression_state" where
  "captured s =
     \<lparr>su_keyboard = \<lparr>ks_modifiers = pk_modifiers (pi_keyboard (br_input s)), ks_keys = pk_keys (pi_keyboard (br_input s))\<rparr>,
      su_mouse_buttons = pm_buttons (pi_mouse (br_input s)), su_consumer = pi_consumer (br_input s)\<rparr>"

lemma capture_ok: "input_inv s \<Longrightarrow> capture_suppression s = (s\<lparr>br_suppression := captured s\<rparr>, Inr ())"
  using capture_from_ok[of "pi_keyboard (br_input s)"] input_inv_parts(2)[of s]
  by (simp add: capture_suppression_def captured_def keys_ok_def)

lemma capture_io_ok: "input_inv (fst io) \<Longrightarrow> capture_io io = (((fst io)\<lparr>br_suppression := captured (fst io)\<rparr>, snd io), Inr ())"
  by (simp add: capture_io_def capture_ok)

lemma captured_inv: "bridge_inv w s \<Longrightarrow> bridge_inv w (s\<lparr>br_suppression := captured s\<rparr>)"
  by (simp add: bridge_inv_def input_inv_def captured_def Let_def)

text \<open>
  Detaching: the keyboard is applied to itself, which trims the suppression to the held keys and
  changes nothing else.
\<close>

definition trimmed_keyboard :: "bridge_state \<Rightarrow> keyboard_suppression" where
  "trimmed_keyboard s =
     (let kb = pi_keyboard (br_input s); ks = su_keyboard (br_suppression s) in
      \<lparr>ks_modifiers = ks_modifiers ks AND pk_modifiers kb, ks_keys = filter (\<lambda>k. k \<in> set (pk_keys kb)) (ks_keys ks)\<rparr>)"

lemma detach_keyboard_eq:
  assumes "keys_ok (pk_keys (pi_keyboard (br_input s)))"
  defines "s1 \<equiv> s\<lparr>br_suppression := (br_suppression s)\<lparr>su_keyboard := trimmed_keyboard s\<rparr>\<rparr>"
  shows "detach_keyboard cap h previous reason (s, out) =
    emit_if (can_send s h RkKeyboard \<and> pi_keyboard previous \<noteq> pi_keyboard (br_input s)) cap
      (Notify (Ble h) (KeyboardReport (kb_report (from_physical_state (pi_keyboard (br_input s)) (trimmed_keyboard s)))) reason)
      (s1, out)"
proof -
  let ?kb = "pi_keyboard (br_input s)"
  have d: "distinct (pk_keys ?kb)" using assms(1) by (simp add: keys_ok_def)
  have "keyboard_apply_frame ?kb \<lparr>kf_modifiers = pk_modifiers ?kb, kf_keys_down = pk_keys ?kb\<rparr> (su_keyboard (br_suppression s)) =
      ((?kb, trimmed_keyboard s), Inr ())"
    using apply_snapshot_ok[OF d assms(1), of "pk_modifiers ?kb" "su_keyboard (br_suppression s)"]
    by (cases "?kb") (simp add: keyboard_apply_frame_def trimmed_keyboard_def Let_def)
  moreover have "from_visible_state (visible_against ?kb (trimmed_keyboard s)) = from_physical_state ?kb (trimmed_keyboard s)"
    using assms(1) by (simp add: visible_against_ok from_visible_state_eq from_physical_state_eq)
  ultimately show ?thesis
    using to_frame_ok[OF assms(1)] by (simp add: detach_keyboard_def s1_def can_send_def)
qed

lemma trimmed_inv: "input_inv s \<Longrightarrow> input_inv (s\<lparr>br_suppression := (br_suppression s)\<lparr>su_keyboard := trimmed_keyboard s\<rparr>\<rparr>)"
  by (simp add: input_inv_def Let_def trimmed_keyboard_def keys_ok_filter)

text \<open>The state after the updates of a detach: the same, with the suppression trimmed in part.\<close>

lemma emit_detach_state:
  assumes "input_inv (fst io)"
  shows "\<exists>su. fst (fst (emit_detach_updates cap h previous reason io)) = (fst io)\<lparr>br_suppression := su\<rparr> \<and>
    input_inv ((fst io)\<lparr>br_suppression := su\<rparr>)"
proof -
  obtain s out where io: "io = (s, out)" by (cases io)
  have inv: "input_inv s" using assms io by simp
  let ?P = "\<lambda>io'. \<exists>su. fst io' = s\<lparr>br_suppression := su\<rparr> \<and> input_inv (s\<lparr>br_suppression := su\<rparr>)"
  have k: "?P (fst (detach_keyboard cap h previous reason (s, out)))"
    using trimmed_inv[OF inv] by (auto simp: detach_keyboard_eq[OF input_inv_parts(2)[OF inv]])
  have m: "?P (fst (detach_mouse cap h previous reason io'))" if "?P io'" for io'
    using that by (cases io') (auto simp: detach_mouse_def Let_def input_inv_def)
  have c: "?P (fst (detach_consumer cap h previous reason io'))" if "?P io'" for io'
    using that by (cases io') (auto simp: detach_consumer_def Let_def input_inv_def)
  have "?P (fst (emit_detach_updates cap h previous reason (s, out)))"
    unfolding emit_detach_updates_def by (intro andThen_inv[where P = ?P] k m c)
  then show ?thesis by (simp add: io)
qed

lemma detach_active_inv:
  assumes "bridge_inv w (fst io)"
  shows "bridge_inv w (fst (fst (detach_active cap previous io)))"
proof (cases "br_active (fst io)")
  case (Some h)
  obtain su where "fst (fst (emit_detach_updates cap h previous NrUsbDeviceRemovedRelease io)) = (fst io)\<lparr>br_suppression := su\<rparr>"
    "input_inv ((fst io)\<lparr>br_suppression := su\<rparr>)"
    using emit_detach_state[of io cap h previous NrUsbDeviceRemovedRelease] assms bridge_inv_def by blast
  then show ?thesis using Some assms by (simp add: detach_active_def bridge_inv_def)
qed (use assms in \<open>simp add: detach_active_def\<close>)

lemma detached_inv:
  assumes "bridge_inv w s" and "aggregator_inv ia"
  shows "bridge_inv w (s\<lparr>br_input_devices := ia, br_input := ia_aggregate ia\<rparr>)"
  using assms aggregate_keys(2)[OF assms(2)] by (simp add: bridge_inv_def input_inv_def Let_def)

subsection \<open>Steps of the bridge\<close>

lemma remove_usb_inv: "bridge_inv w s \<Longrightarrow> bridge_inv w (remove_usb_hid_interface i s)"
proof -
  assume inv: "bridge_inv w s"
  show "bridge_inv w (remove_usb_hid_interface i s)"
  proof (cases "position (\<lambda>u. ur_interface_id u = i) (br_usb_hid_interfaces s)")
    case (Some k)
    then have k: "k < length (br_usb_hid_interfaces s)" by (rule position_SomeD)
    have "distinct (map ur_interface_id (swap_remove k (br_usb_hid_interfaces s)))"
      using inv k set_swap_remove(2)[of "map ur_interface_id (br_usb_hid_interfaces s)" k]
      by (simp add: map_swap_remove bridge_inv_def usb_inv_def)
    then show ?thesis using inv Some by (auto simp: remove_usb_hid_interface_def bridge_inv_def usb_inv_def)
  qed (use inv in \<open>simp add: remove_usb_hid_interface_def\<close>)
qed

lemma upsert_usb_inv:
  assumes "bridge_inv w s"
  shows "bridge_inv w (fst (upsert_usb_hid_interface i d sink s))"
proof (cases "position (\<lambda>u. ur_interface_id u = i) (br_usb_hid_interfaces s)")
  case None
  then have "i \<notin> ur_interface_id ` set (br_usb_hid_interfaces s)" by (auto simp: position_None_iff)
  then show ?thesis using None assms
    by (auto simp: upsert_usb_hid_interface_def Let_def bridge_inv_def usb_inv_def vec_push_def)
next
  case (Some k)
  note k = position_SomeD[OF Some]
  have "(map ur_interface_id (br_usb_hid_interfaces s))[k := i] = map ur_interface_id (br_usb_hid_interfaces s)"
    using k(1,2) by (simp add: list_update_same_conv)
  then show ?thesis using Some assms
    by (simp add: upsert_usb_hid_interface_def Let_def bridge_inv_def usb_inv_def map_update)
qed

lemma activate_wired_inv:
  assumes "input_inv (fst io)" "usb_inv (fst io)" "table_inv (fst io)" "output_inv (br_output_target (fst io))"
    "ot_selected (br_output_target (fst io)) = Wired" "ot_active (br_output_target (fst io)) = None"
  shows "bridge_inv w (fst (fst (activate_wired cap n io)))"
proof -
  obtain s out where io: "io = (s, out)" by (cases io)
  let ?m = "clear_active_target (br_hosts s)"
  have m: "table_inv (s\<lparr>br_hosts := ?m\<rparr>)" "hm_active_target ?m = None"
    using assms(3) io by (simp_all add: table_inv_def clear_active_target_def host_inv_def)
  have s1: "bridge_inv w (s\<lparr>br_hosts := ?m\<rparr>)"
    using assms m io by (simp add: bridge_inv_def target_inv_def br_active_def)
  have s2: "bridge_inv w (s\<lparr>br_hosts := ?m, br_output_target := output_set_availability (br_output_target s) (br_wired_availability s)\<rparr>)"
    using assms m io set_availability_inv[of "br_output_target s"]
    by (auto simp: bridge_inv_def target_inv_def br_active_def output_set_availability_def split: output_target_availability.splits)
  show ?thesis
    unfolding activate_wired_def io Let_def
    by (rule andThen_inv[where P = "\<lambda>io. bridge_inv w (fst io)"])
      (use s1 s2 in \<open>auto simp: emit_eq set_output_target_def split: if_splits intro!: bridge_inv_andThen\<close>)
qed

lemma activate_ble_inv:
  assumes "input_inv (fst io)" "usb_inv (fst io)" "table_inv (fst io)" "output_inv (br_output_target (fst io))"
    "ot_selected (br_output_target (fst io)) = Ble h" "ot_active (br_output_target (fst io)) = None"
  shows "bridge_inv True (fst (fst (activate_ble cap n h io)))"
proof -
  obtain s out where io: "io = (s, out)" by (cases io)
  have h: "slot_ok h" using assms(4,5) by (auto simp: output_inv_def slot_ok_def HOST_SLOT_COUNT_def word_le_nat_alt split: if_splits)
  obtain m' b where m': "set_active_target (br_hosts s) h = (m', Inr b)" "host_inv m'" "length (hm_hosts m') = HOST_SLOT_COUNT"
    "hm_active_target m' = Some h"
    by (rule set_active_ok[OF _ _ h, of "br_hosts s"]) (use assms(3) io in \<open>auto simp: table_inv_def\<close>)
  have "bridge_inv True (s\<lparr>br_hosts := m'\<rparr>)"
    using assms m' io by (simp add: bridge_inv_def target_inv_def br_active_def table_inv_def)
  then show ?thesis
    unfolding activate_ble_def io
    by (intro bridge_inv_andThen) (simp_all add: with_hosts_state m' refresh_inv)
qed

lemma select_ok:
  assumes "output_inv t" and "output_select t target = (t', Inr n)"
  shows "output_inv t'" "ot_selected t' = target" "ot_active t' = None"
  using output_ops.step_inv[of t "OpSelect target"] assms
  by (auto simp: output_select_def Let_def split: sum.splits)

lemma transition_output_target_inv:
  assumes inv: "bridge_inv True (fst io)"
  shows "bridge_inv True (fst (fst (transition_output_target cap target release io)))"
proof (cases "output_target_validate target")
  case (Inl e)
  then show ?thesis using inv by (simp add: transition_output_target_def)
next
  case (Inr t)
  let ?rel = "case (ot_active (br_output_target (fst io)), release) of
      (Some active, Some reason) \<Rightarrow> push_release_target cap active reason io | _ \<Rightarrow> (io, Inr ())"
  have rel: "fst (fst ?rel) = fst io" by (simp split: option.split prod.split)
  have step: "bridge_inv True (fst (fst (andThen (capture_io io1) (\<lambda>_ io2.
      case output_select (br_output_target (fst io2)) target of
        (_, Inl _) \<Rightarrow> (io2, Inl BeInvalidOutputTarget)
      | (t, Inr n) \<Rightarrow>
          andThen (case target of Wired \<Rightarrow> activate_wired cap n (set_output_target t io2)
                   | Ble h \<Rightarrow> activate_ble cap n h (set_output_target t io2)) (\<lambda>_ io3.
          andThen (emit cap PersistProfiles io3) (\<lambda>_ io4. push_status cap io4))))))"
    if io1: "bridge_inv True (fst io1)" for io1
  proof -
    let ?io2 = "((fst io1)\<lparr>br_suppression := captured (fst io1)\<rparr>, snd io1)"
    have inv2: "bridge_inv True (fst ?io2)" using captured_inv[OF io1] by simp
    have act: "bridge_inv True (fst (fst (case target of Wired \<Rightarrow> activate_wired cap n (set_output_target t ?io2)
                   | Ble h \<Rightarrow> activate_ble cap n h (set_output_target t ?io2))))"
      if sel: "output_select (br_output_target (fst ?io2)) target = (t, Inr n)" for t n
    proof -
      have parts: "input_inv (fst ?io2)" "usb_inv (fst ?io2)" "table_inv (fst ?io2)" "output_inv (br_output_target (fst ?io2))"
        using inv2 by (simp_all add: bridge_inv_def target_inv_def)
      note sel' = select_ok[OF parts(4) sel]
      show ?thesis
        using parts(1-3) sel'
        by (cases target) (simp_all add: set_output_target_def activate_wired_inv activate_ble_inv)
    qed
    have "input_inv (fst io1)" using io1 by (simp add: bridge_inv_def)
    then show ?thesis
      using inv2 act by (auto simp: capture_io_ok split: prod.split sum.split intro!: bridge_inv_andThen)
  qed
  show ?thesis
    unfolding transition_output_target_def Inr sum.case
    by (rule bridge_inv_if, use inv in simp, rule bridge_inv_andThen[OF _ step]) (use inv rel in simp_all)
qed

lemma transition_ble_target_inv:
  assumes inv: "bridge_inv False (fst io)"
  shows "bridge_inv False (fst (fst (transition_ble_target cap target release io)))"
proof -
  let ?rel = "case (br_active (fst io), release) of
      (Some old, Some reason) \<Rightarrow> push_release_reports cap old reason io | _ \<Rightarrow> (io, Inr ())"
  have rel: "fst (fst ?rel) = fst io" by (simp split: option.split prod.split)
  have cap: "bridge_inv False (fst (fst (capture_io io1)))" if "bridge_inv False (fst io1)" for io1
    using that captured_inv[OF that] by (simp add: capture_io_ok bridge_inv_def)
  have act: "bridge_inv False (fst (fst (with_hosts (\<lambda>m. set_active_target m target) io2)))" if "bridge_inv False (fst io2)" for io2
    using that host_step_inv[of "br_hosts (fst io2)" "HoActive target"] by (simp add: with_hosts_state bridge_inv_def table_inv_def)
  show ?thesis
    unfolding transition_ble_target_def
    by (intro bridge_inv_if bridge_inv_andThen cap act) (use inv rel in auto)
qed

lemma switch_target_inv: "bridge_inv w (fst io) \<Longrightarrow> bridge_inv w (fst (fst (switch_target w cap target io)))"
  by (cases w) (auto simp: switch_target_def select_output_target_def
      intro!: transition_output_target_inv transition_ble_target_inv bridge_inv_andThen)

lemma wired_availability_inv:
  assumes "bridge_inv True (fst io)"
  shows "bridge_inv True (fst (fst (wired_availability_changed cap a io)))"
proof (cases "ot_selected (br_output_target (fst io)) = Wired")
  case True
  let ?s = "(fst io)\<lparr>br_wired_availability := a, br_output_target := output_set_availability (br_output_target (fst io)) a\<rparr>"
  have "bridge_inv True ?s"
    using assms True set_availability_inv[of "br_output_target (fst io)"]
    by (auto simp: bridge_inv_def target_inv_def br_active_def output_set_availability_def split: output_target_availability.splits)
  then show ?thesis using True
    by (auto simp: wired_availability_changed_def Let_def set_output_target_def intro!: bridge_inv_andThen)
next
  case False
  then have "bridge_inv True ((fst io)\<lparr>br_wired_availability := a\<rparr>)"
    using assms by (auto simp: bridge_inv_def target_inv_def br_active_def output_inv_def split: if_splits)
  then show ?thesis using False by (auto simp: wired_availability_changed_def Let_def intro!: bridge_inv_andThen)
qed

lemma set_pairable_inv [simp]: "bridge_inv w (fst (set_pairable p io)) = bridge_inv w (fst io)"
  by (simp add: set_pairable_def bridge_inv_def)

lemma disconnected_inv: "bridge_inv w s \<Longrightarrow> bridge_inv w (s\<lparr>br_hosts := on_disconnected (br_hosts s) h\<rparr>)"
  by (rule hosts_step_inv[where x = "HoDisconnected h"])
    (auto simp: bridge_inv_def table_inv_def br_active_def on_disconnected_view)

lemma host_disconnected_inv:
  assumes "bridge_inv w (fst io)"
  shows "bridge_inv w (fst (fst (host_disconnected w cap h io)))"
  using refresh_inv[OF disconnected_inv[OF assms, of h]]
  by (auto simp: host_disconnected_def Let_def split: option.split
      intro!: transition_output_target_inv transition_ble_target_inv bridge_inv_andThen)

lemma clear_host_inv:
  assumes "bridge_inv w (fst io)"
  shows "bridge_inv w (fst (fst (clear_host w cap h io)))"
proof -
  have step: "bridge_inv w (s\<lparr>br_hosts := m\<rparr>)"
    if "bridge_inv w s" "machine_clear_host (br_hosts s) h = (m, removed)" for s m removed
  proof (rule hosts_step_inv[OF that(1), of _ "HoClear h"])
    show "m = host_step (HoClear h) (br_hosts s)" using that(2) by simp
    have "host_inv (br_hosts s)" using that(1) by (simp add: bridge_inv_def table_inv_def)
    then show "hm_active_target m = br_active s \<or> hm_active_target m = None"
      using clear_host_view(4)[of "br_hosts s" h] that(2) by (cases "hm_active_target m") (auto simp: br_active_def)
  qed
  have body: "bridge_inv w (fst (fst (let (m, removed) = machine_clear_host (br_hosts (fst io2)) h; io3 = ((fst io2)\<lparr>br_hosts := m\<rparr>, snd io2)
      in if removed then
           let io4 = (if w \<and> br_wired_ble_host (fst io3) = Some h then ((fst io3)\<lparr>br_wired_ble_host := None\<rparr>, snd io3) else io3)
           in andThen (emit cap (ClearBond h bond) io4) (\<lambda>_ io5.
              andThen (emit cap PersistProfiles io5) (\<lambda>_ io6.
              andThen (if a then push_usb_keyboard_leds cap 0 io6 else (io6, Inr ())) (\<lambda>_ io7. push_status cap io7)))
         else (io3, Inr ()))))"
    if io2: "bridge_inv w (fst io2)" for io2 bond a
  proof -
    obtain m removed where mc: "machine_clear_host (br_hosts (fst io2)) h = (m, removed)" by fastforce
    let ?io3 = "((fst io2)\<lparr>br_hosts := m\<rparr>, snd io2)"
    let ?io4 = "if w \<and> br_wired_ble_host (fst ?io3) = Some h then ((fst ?io3)\<lparr>br_wired_ble_host := None\<rparr>, snd ?io3) else ?io3"
    have i3: "bridge_inv w (fst ?io3)" using step[OF io2 mc] by simp
    then have i4: "bridge_inv w (fst ?io4)" by (simp add: bridge_inv_def)
    show ?thesis
      unfolding Let_def mc prod.case by (intro bridge_inv_if bridge_inv_andThen) (use i3 i4 in \<open>simp_all only: append_only_state fst_conv\<close>)
  qed
  show ?thesis
    unfolding clear_host_def Let_def[of "br_active (fst io) = Some h"] Let_def[of "Option.bind _ _"]
    by (intro bridge_inv_andThen body) (use assms in auto)
qed

lemma host_events_inv:
  assumes "bridge_inv w (fst io)"
  shows "bridge_inv w (fst (fst (with_hosts (\<lambda>m. on_connected m h) io)))"
    "bridge_inv w (fst (fst (with_hosts (\<lambda>m. on_security_changed m h e b bond) io)))"
    "bridge_inv w (fst (fst (with_hosts (\<lambda>m. on_cccd_changed m h k on) io)))"
    "bridge_inv w (fst (fst (with_hosts (\<lambda>m. on_keyboard_led_changed m h leds) io)))"
    "bridge_inv w (fst (fst (with_hosts (\<lambda>m. machine_set_name m h n) io)))"
    "bridge_inv w (fst (fst (with_hosts (\<lambda>m. set_discovered_name m h n) io)))"
  by (rule with_hosts_inv[OF assms, where x = "HoConnected h"], simp_all,
      rule with_hosts_inv[OF assms, where x = "HoSecurity h e b bond"], simp_all,
      rule with_hosts_inv[OF assms, where x = "HoCccd h k on"], simp_all,
      rule with_hosts_inv[OF assms, where x = "HoLed h leds"], simp_all,
      rule with_hosts_inv[OF assms, where x = "HoName h n"], simp_all,
      rule with_hosts_inv[OF assms, where x = "HoDiscovered h n"], simp_all)

fun event_ok :: "bridge_event \<Rightarrow> bool" where
  "event_ok (EvInputFrame (StandardFrame f)) = frame_ok f"
| "event_ok _ = True"

lemma input_frame_inv:
  assumes inv: "bridge_inv w (fst io)" and ok: "event_ok (EvInputFrame f)"
  shows "bridge_inv w (fst (fst (handle_input_frame w cap f io)))"
proof (cases f)
  case (VendorFrame v)
  then show ?thesis using inv by (cases io) (simp add: bridge_inv_def)
next
  case (StandardFrame x)
  obtain s out where io: "io = (s, out)" by (cases io)
  have i: "input_inv s" and x: "frame_ok x" using inv io ok StandardFrame by (simp_all add: bridge_inv_def)
  have after: "bridge_inv w (after_frame s x p st)" if "prepare_frame (br_input_devices s) x = Inr p" for p st
    using input_inv_after_frame[OF i x that] inv io
    by (simp add: bridge_inv_def usb_inv_def table_inv_def target_inv_def br_active_def after_frame_def Let_def commit_input_simps)
  show ?thesis
    using standard_frame_result[OF i x refl, of w cap out] after inv io StandardFrame by (auto split: sum.splits)
qed

lemma event_inv:
  assumes inv: "bridge_inv w (fst io)" and ok: "event_ok ev"
  shows "bridge_inv w (fst (fst (handle_event_in_place w cap ev io)))"
proof (cases ev)
  case (EvInputFrame f)
  then show ?thesis using input_frame_inv[OF inv] ok by simp
next
  case (EvUsbDeviceRemoved i)
  have "aggregator_inv (fst (remove_interface (br_input_devices (remove_usb_hid_interface i (fst io))) i))"
    using remove_usb_inv[OF inv, of i] remove_interface_ok by (simp add: bridge_inv_def input_inv_parts(1))
  then show ?thesis using EvUsbDeviceRemoved detached_inv[OF remove_usb_inv[OF inv]]
    by (auto simp: usb_device_removed_def Let_def intro!: bridge_inv_andThen detach_active_inv)
next
  case (EvResetInputDevice d)
  have "aggregator_inv (fst (remove_device (br_input_devices (fst io)) d))"
    using inv remove_device_ok by (simp add: bridge_inv_def input_inv_parts(1))
  moreover have "fst (remove_device (br_input_devices (fst io)) d) = br_input_devices (fst io)"
    if "\<not> snd (remove_device (br_input_devices (fst io)) d)"
    using that by (auto simp: remove_device_def intro: remove_entries_fails)
  ultimately show ?thesis using EvResetInputDevice inv detached_inv[OF inv]
    by (auto simp: reset_input_device_def Let_def split: prod.split intro!: detach_active_inv)
next
  case (EvUsbHidInterfaceConnected i d sink)
  then show ?thesis using upsert_usb_inv[OF inv, of i d sink] by (auto split: prod.split sum.split)
next
  case (EvHostSecurityChanged h e b bond)
  then show ?thesis
    by (auto simp: host_security_changed_def intro!: bridge_inv_andThen host_events_inv inv refresh_inv)
next
  case (EvHostKeyboardLedChanged h leds)
  then show ?thesis by (auto simp: host_keyboard_led_changed_def intro!: bridge_inv_andThen host_events_inv inv)
next
  case (EvEnterPairingMode h)
  then show ?thesis using inv by (auto simp: enter_pairing_mode_def split: option.split intro!: bridge_inv_andThen)
next
  case (EvPairingModeExpired h)
  then show ?thesis using inv by (auto simp: expire_pairing_mode_def intro!: bridge_inv_andThen)
next
  case (EvSelectOutputTarget t)
  then show ?thesis using inv by (auto simp: select_output_target_def intro!: transition_output_target_inv)
next
  case (EvWiredAvailabilityChanged a)
  then show ?thesis using inv wired_availability_inv by (cases w) simp_all
next
  case (EvWiredKeyboardLedChanged leds)
  then show ?thesis using inv by (simp add: wired_keyboard_led_changed_def Let_def bridge_inv_def)
qed (auto intro!: bridge_inv_andThen host_events_inv host_disconnected_inv clear_host_inv switch_target_inv refresh_inv inv)

end
