(* ===== verification/HS_BridgeProps.thy ===== *)
theory HS_BridgeProps
  imports HS_BridgeInv
begin

unbundle bit_operations_syntax

text \<open>
  What the bridge guarantees: over every sequence of events and calls, including those that
  stop at an error, reports go to the selected target only and only while it may receive them;
  input held across a switch stays hidden from the new target; the previous target is released;
  pairing is open for one host at a time; a restart selects the target that was stored.
\<close>

section \<open>Runs of the bridge\<close>

datatype bridge_op =
    BoEvent bridge_event
  | BoDisconnectForQuiesce host_id
  | BoPrepareForQuiesce
  | BoDiscoveredName host_id fixed_name
  | BoMirrorTarget "mirror_stable_id option"
  | BoWiredHostLink "host_id option"
  | BoBeginWired
  | BoHoldWired
  | BoRestore storage_state

fun bridge_step :: "bool \<Rightarrow> nat \<Rightarrow> bridge_op \<Rightarrow> bridge_state \<Rightarrow> bridge_state" where
  "bridge_step w cap (BoEvent ev) s = fst (fst (handle_event_in_place w cap ev (s, [])))"
| "bridge_step w cap (BoDisconnectForQuiesce h) s = mark_host_disconnected_for_quiesce s h"
| "bridge_step w cap BoPrepareForQuiesce s = fst (prepare_for_quiesce s)"
| "bridge_step w cap (BoDiscoveredName h n) s = fst (set_discovered_host_name s h n)"
| "bridge_step w cap (BoMirrorTarget t) s = set_mirror_target s t"
| "bridge_step w cap (BoWiredHostLink h) s = set_wired_host_link s h"
| "bridge_step w cap BoBeginWired s = fst (begin_wired_presentation_transition s)"
| "bridge_step w cap BoHoldWired s = hold_wired_presentation_transition s"
| "bridge_step w cap (BoRestore st) s = fst (fst (restore_storage_state w st (s, [])))"

text \<open>
  A stored state is restored only after it decoded, so it is valid; its stored target and last
  active host are those one snapshot of the bridge has.
\<close>

definition restore_ok :: "storage_state \<Rightarrow> bool" where
  "restore_ok st =
     (storage_validate st = Inr () \<and>
      (case sp_output_target (st_presentation st) of
         StoredWired \<Rightarrow> True
       | StoredBle h \<Rightarrow> slot_ok h \<and> (st_last_active_host st = None \<or> st_last_active_host st = Some h)))"

fun op_ok :: "bool \<Rightarrow> bridge_op \<Rightarrow> bool" where
  "op_ok w (BoEvent ev) = event_ok ev"
| "op_ok w (BoRestore st) = restore_ok st"
| "op_ok w BoBeginWired = w"
| "op_ok w BoHoldWired = w"
| "op_ok w _ = True"

lemma begin_wired_inv:
  assumes "bridge_inv w s"
  shows "bridge_inv w (fst (begin_wired_presentation_transition s))"
proof -
  have "input_inv s" using assms by (simp add: bridge_inv_def)
  then show ?thesis
    using captured_inv[OF assms] output_ops.step_inv[of "br_output_target s" OpBeginTransition]
    by (auto simp: begin_wired_presentation_transition_def capture_ok bridge_inv_def target_inv_def br_active_def
        output_begin_transition_def Let_def)
qed

lemma hold_wired_inv: "bridge_inv w s \<Longrightarrow> bridge_inv w (hold_wired_presentation_transition s)"
  using set_availability_inv[of "br_output_target s" ConnectedNotReady]
  by (auto simp: hold_wired_presentation_transition_def bridge_inv_def target_inv_def br_active_def output_set_availability_def)

lemma restored_last_active:
  assumes "storage_validate st = Inr ()" and "st_last_active_host st = Some h"
  shows "slot_ok h"
  using validated_hosts(2,4)[OF assms(1)] assms(2) by blast

lemma restore_state:
  assumes "bridge_inv w s" and "restore_ok st"
  shows "restore_storage_state w st (s, out) =
    ((let m = restored_table HOST_SLOT_COUNT st;
          selected = (case (sp_output_target (st_presentation st), st_last_active_host st) of
                        (StoredWired, Some h) \<Rightarrow> Ble h | (stored, _) \<Rightarrow> as_output_target stored);
          s1 = s\<lparr>br_hosts := m\<rparr>
      in (if w then s1\<lparr>br_output_target := output_target_state_new\<lparr>ot_selected := selected\<rparr>,
                      br_mirror_target := sp_mirror_target (st_presentation st),
                      br_wired_ble_host := sp_wired_ble_host (st_presentation st),
                      br_hosts := (if selected = Wired then clear_active_target m else m)\<rparr>
          else s1)\<lparr>br_pairable_host := None\<rparr>, []), Inr ())"
proof -
  have len: "length (hm_hosts (br_hosts s)) = HOST_SLOT_COUNT" using assms(1) by (simp add: bridge_inv_def table_inv_def)
  have val: "storage_validate st = Inr ()" using assms(2) by (simp add: restore_ok_def)
  have "machine_restore (br_hosts s) st = (restored_table HOST_SLOT_COUNT st, Inr ())"
    using machine_restore_ok[OF val, of "br_hosts s"] validated_hosts(3)[OF val] len
    by (simp add: HOST_SLOT_COUNT_def STORED_HOSTS_MAX_def)
  then show ?thesis by (simp add: restore_storage_state_def with_hosts_def Let_def)
qed

lemma restore_inv:
  assumes inv: "bridge_inv w s" and ok: "restore_ok st"
  shows "bridge_inv w (fst (fst (restore_storage_state w st (s, []))))"
proof -
  have len: "length (hm_hosts (br_hosts s)) = HOST_SLOT_COUNT" using inv by (simp add: bridge_inv_def table_inv_def)
  have val: "storage_validate st = Inr ()" using ok by (simp add: restore_ok_def)
  have "fst (machine_restore (br_hosts s) st) = restored_table HOST_SLOT_COUNT st"
    using machine_restore_ok[OF val, of "br_hosts s"] validated_hosts(3)[OF val] len
    by (simp add: HOST_SLOT_COUNT_def STORED_HOSTS_MAX_def)
  then have m: "host_inv (restored_table HOST_SLOT_COUNT st)" "length (hm_hosts (restored_table HOST_SLOT_COUNT st)) = HOST_SLOT_COUNT"
    "hm_active_target (restored_table HOST_SLOT_COUNT st) = st_last_active_host st"
    using machine_restore_view(1-3)[of "br_hosts s" st] len by simp_all
  have valid: "output_target_validate (Ble h) = Inr (Ble h)" if "slot_ok h" for h
    using that by (simp add: slot_ok_def HOST_SLOT_COUNT_def word_le_nat_alt)
  show ?thesis
    unfolding restore_state[OF inv ok]
    using inv m ok restored_last_active[OF val]
    by (auto simp: Let_def bridge_inv_def table_inv_def target_inv_def br_active_def output_inv_def output_target_state_new_def
        restore_ok_def clear_active_target_def host_inv_def valid simp del: output_target_validate.simps(2)
        split: stored_output_target.splits option.splits)
qed

lemma op_inv:
  assumes "bridge_inv w s" and "op_ok w x"
  shows "bridge_inv w (bridge_step w cap x s)"
proof (cases x)
  case (BoEvent ev)
  then show ?thesis using event_inv[of w "(s, [])" ev] assms by simp
next
  case (BoDiscoveredName h n)
  then show ?thesis
    using host_events_inv(6)[of w "(s, [])" h n] assms by (auto simp: with_hosts_state set_discovered_host_name_def split: prod.split)
next
  case BoPrepareForQuiesce
  then show ?thesis using captured_inv[OF assms(1)] assms(1) capture_ok[of s] by (simp add: prepare_for_quiesce_def bridge_inv_def)
next
  case (BoRestore st)
  then show ?thesis using restore_inv[OF assms(1), of st] assms(2) by simp
qed (use assms in \<open>simp_all add: mark_host_disconnected_for_quiesce_def disconnected_inv set_mirror_target_def set_wired_host_link_def
    begin_wired_inv hold_wired_inv, simp_all add: bridge_inv_def\<close>)

interpretation bridge: op_system "bridge_step w cap" "op_ok w" "bridge_inv w" for w cap
  by unfold_locales (rule op_inv)

lemmas bridge_run_inv = bridge.run_inv[OF bridge_inv_new]

section \<open>Reports go to the selected target only\<close>

definition is_target :: "bool \<Rightarrow> bridge_state \<Rightarrow> host_id \<Rightarrow> bool" where
  "is_target w s h = (if w then ot_selected (br_output_target s) = Ble h else br_active s = Some h)"

text \<open>The actions the state \<open>s\<close> allows: a report only to the target and only if it can be sent.\<close>

fun allowed :: "bool \<Rightarrow> bridge_state \<Rightarrow> bridge_action \<Rightarrow> bool" where
  "allowed w s (Notify (Ble h) r _) = (is_target w s h \<and> can_send s h (report_kind_of r))"
| "allowed w s (Notify Wired _ _) = (w \<and> ot_active (br_output_target s) = Some Wired)"
| "allowed w s _ = True"

lemma active_is_target: "bridge_inv w s \<Longrightarrow> br_active s = Some h \<Longrightarrow> is_target w s h"
  by (auto simp: bridge_inv_def target_inv_def is_target_def)

lemma output_active_is_target: "bridge_inv True s \<Longrightarrow> ot_active (br_output_target s) = Some (Ble h) \<Longrightarrow> is_target True s h"
  by (auto simp: bridge_inv_def target_inv_def is_target_def output_inv_def split: if_splits)

lemma ready_allowed:
  assumes "bridge_inv w s" and "ready_active_target w s (report_kind_of r) = Some t"
  shows "allowed w s (Notify t r reason)"
  using assms active_is_target[of w s] output_active_is_target[of s]
  by (cases t) (auto simp: ready_active_target_def split: if_splits option.splits output_target.splits)

lemma frame_actions_allowed: "bridge_inv w s \<Longrightarrow> a \<in> set (frame_actions w s f agg) \<Longrightarrow> allowed w s a"
  by (auto simp: frame_actions_def keyboard_actions_def mouse_actions_def consumer_actions_def notify_ready_def
      intro: ready_allowed split: if_splits option.splits prod.splits)

text \<open>Outputs within a set of actions.\<close>

definition within :: "bridge_action set \<Rightarrow> 'a bridge_result \<Rightarrow> bool" where
  "within A r = (set (snd (fst r)) \<subseteq> A)"

lemma within_andThen:
  assumes "within A r" and "\<And>x io. r = (io, Inr x) \<Longrightarrow> set (snd io) \<subseteq> A \<Longrightarrow> within A (f x io)"
  shows "within A (andThen r f)"
  unfolding within_def by (rule andThen_inv[where P = "\<lambda>io. set (snd io) \<subseteq> A"]) (use assms in \<open>auto simp: within_def\<close>)

lemma within_appends:
  assumes "appends B io r" and "set (snd io) \<subseteq> A" and "B \<subseteq> A"
  shows "within A r"
proof -
  obtain as where "snd (fst r) = snd io @ as" "set as \<subseteq> B" using assms(1) by (auto simp: appends_def)
  then show ?thesis using assms(2,3) by (simp add: within_def)
qed

lemma within_skip: "set (snd io) \<subseteq> A \<Longrightarrow> within A (io, r)"
  by (simp add: within_def)

lemma within_emit: "set (snd io) \<subseteq> A \<Longrightarrow> a \<in> A \<Longrightarrow> within A (emit cap a io)"
  by (auto simp: within_def emit_eq)

lemma within_emit_if: "set (snd io) \<subseteq> A \<Longrightarrow> (b \<Longrightarrow> a \<in> A) \<Longrightarrow> within A (emit_if b cap a io)"
  by (auto simp: within_def emit_eq emit_if_eq)

lemma within_with_hosts: "set (snd io) \<subseteq> A \<Longrightarrow> within A (with_hosts f io)"
  by (simp add: within_def with_hosts_out)

lemma within_capture: "set (snd io) \<subseteq> A \<Longrightarrow> within A (capture_io io)"
  by (auto simp: within_def capture_io_def split: prod.split)

lemma within_if: "(b \<Longrightarrow> within A r) \<Longrightarrow> (\<not> b \<Longrightarrow> within A q) \<Longrightarrow> within A (if b then r else q)"
  by simp

lemma led_actions_allowed: "led_actions \<subseteq> Collect (allowed w s)"
  by (auto simp: led_actions_def)

lemma release_actions_allowed: "is_target w s h \<Longrightarrow> release_actions s h reason \<subseteq> Collect (allowed w s)"
  by (auto simp: release_actions_def)

lemmas within_leds = within_appends[OF appends_leds _ led_actions_allowed] within_appends[OF appends_active_leds _ led_actions_allowed]

lemmas within_intros = within_andThen within_skip within_emit within_emit_if within_with_hosts within_capture within_if within_leds

text \<open>The output of a transition may also hold reports to the wired target, once that is active.\<close>

definition wired_notifies :: "bridge_action set" where
  "wired_notifies = (\<Union>reason. neutral_actions reason)"

definition wired_within :: "bool \<Rightarrow> bridge_action set \<Rightarrow> bridge_io \<Rightarrow> bool" where
  "wired_within w A io =
     (set (snd io) \<subseteq> A \<or> (w \<and> set (snd io) \<subseteq> A \<union> wired_notifies \<and> ot_active (br_output_target (fst io)) = Some Wired))"

lemma wired_withinI: "within A r \<Longrightarrow> wired_within w A (fst r)"
  by (simp add: within_def wired_within_def)

lemma wired_within_andThen:
  assumes "wired_within w A (fst r)" and "\<And>x io. wired_within w A io \<Longrightarrow> wired_within w A (fst (f x io))"
  shows "wired_within w A (fst (andThen r f))"
  by (rule andThen_inv[where P = "wired_within w A"]) (use assms in auto)

lemma wired_within_appends:
  assumes ap: "appends B io r" and io: "wired_within w A io" and B: "B \<subseteq> A"
  shows "wired_within w A (fst r)"
proof -
  obtain as where "fst (fst r) = fst io" "snd (fst r) = snd io @ as" "set as \<subseteq> B" using ap by (auto simp: appends_def)
  then show ?thesis using io B by (auto simp: wired_within_def)
qed

lemma wired_within_wired:
  assumes "appends B io r" and "set (snd io) \<subseteq> A \<union> wired_notifies" and "B \<subseteq> A \<union> wired_notifies"
    and "ot_active (br_output_target (fst io)) = Some Wired"
  shows "wired_within True A (fst r)"
proof -
  obtain as where "fst (fst r) = fst io" "snd (fst r) = snd io @ as" "set as \<subseteq> B" using assms(1) by (auto simp: appends_def)
  then show ?thesis using assms(2-4) by (auto simp: wired_within_def)
qed

lemma neutral_wired: "neutral_actions reason \<subseteq> wired_notifies"
  by (auto simp: wired_notifies_def)

lemma neutral_then_leds:
  assumes out: "set (snd io) \<subseteq> A" and led: "led_actions \<subseteq> A" and act: "ot_active (br_output_target (fst io)) = Some Wired"
  shows "wired_within True A (fst (andThen (push_neutral_reports cap Wired reason io) (\<lambda>_ io4. push_usb_keyboard_leds cap (leds (fst io4)) io4)))"
proof -
  have "appends (neutral_actions reason \<union> led_actions) io
      (andThen (push_neutral_reports cap Wired reason io) (\<lambda>_ io4. push_usb_keyboard_leds cap (leds (fst io4)) io4))"
    by (rule appends_trans) (auto intro: appends_mono[OF appends_neutral_reports] appends_mono[OF appends_leds])
  then show ?thesis by (rule wired_within_wired) (use out led act neutral_wired in auto)
qed

text \<open>Everything but reports.\<close>

definition quiet :: "bridge_action set" where
  "quiet = {a. \<forall>t r n. a \<noteq> Notify t r n}"

lemma quiet_simps [simp]:
  "UsbSetKeyboardLeds i d l \<in> quiet" "AllowPairing h \<in> quiet" "RejectPairing h \<in> quiet" "ClearBond h b \<in> quiet"
  "ActivateInput h \<in> quiet" "ActivateWired n \<in> quiet" "EnsureFallback n \<in> quiet" "PersistProfiles \<in> quiet"
  "StatusChanged st \<in> quiet" "Notify t r reason \<notin> quiet"
  by (auto simp: quiet_def)

lemma quiet_leds: "led_actions \<subseteq> quiet"
  by (auto simp: led_actions_def)

lemma quiet_allowed: "quiet \<subseteq> Collect (allowed w s)"
proof
  fix a
  assume "a \<in> quiet"
  then show "a \<in> Collect (allowed w s)" by (cases a) auto
qed

lemma within_status: "set (snd io) \<subseteq> A \<Longrightarrow> quiet \<subseteq> A \<Longrightarrow> within A (push_status cap io)"
  by (simp add: push_status_def within_emit subsetD)

lemma activate_wired_within:
  assumes out: "set (snd io) \<subseteq> A" and quiet: "quiet \<subseteq> A" and sel: "ot_selected (br_output_target (fst io)) = Wired"
  shows "wired_within True A (fst (activate_wired cap n io))"
proof -
  let ?io1 = "((fst io)\<lparr>br_hosts := clear_active_target (br_hosts (fst io))\<rparr>, snd io)"
  have led: "led_actions \<subseteq> A" using quiet quiet_leds by auto
  show ?thesis
  proof (cases "length (snd io) < cap")
    case False
    then show ?thesis using out by (simp add: activate_wired_def Let_def emit_eq wired_within_def)
  next
    case True
    let ?io3 = "((fst ?io1)\<lparr>br_output_target := output_set_availability (br_output_target (fst io)) (br_wired_availability (fst io))\<rparr>,
        snd io @ [ActivateWired n])"
    have out3: "set (snd ?io3) \<subseteq> A" using out quiet by auto
    show ?thesis
    proof (cases "br_wired_availability (fst io) = Ready")
      case ready: True
      have "ot_active (br_output_target (fst ?io3)) = Some Wired" using ready sel by (simp add: output_set_availability_def)
      from neutral_then_leds[OF out3 led this] show ?thesis
        using True ready by (simp add: activate_wired_def Let_def emit_eq set_output_target_def)
    next
      case False
      then show ?thesis using True out3 by (simp add: activate_wired_def Let_def emit_eq set_output_target_def wired_within_def)
    qed
  qed
qed

lemma activate_ble_within:
  assumes out: "set (snd io) \<subseteq> A" and quiet: "quiet \<subseteq> A"
  shows "within A (activate_ble cap n h io)"
proof -
  have "within A (apply_active_host_leds True cap io')" if "set (snd io') \<subseteq> A" for io'
    using within_appends[OF appends_active_leds that] quiet quiet_leds by auto
  then show ?thesis
    unfolding activate_ble_def using quiet out by (auto intro!: within_andThen within_with_hosts within_emit simp: within_skip)
qed

lemma transition_output_within:
  assumes out: "set (snd io) \<subseteq> A" and quiet: "quiet \<subseteq> A"
    and rel: "\<And>t reason. ot_active (br_output_target (fst io)) = Some t \<Longrightarrow> release = Some reason \<Longrightarrow>
      within A (push_release_target cap t reason io)"
  shows "wired_within True A (fst (transition_output_target cap target release io))"
proof (cases "output_target_validate target")
  case (Inl e)
  then show ?thesis using out by (simp add: transition_output_target_def wired_within_def)
next
  case (Inr t)
  let ?rel = "case (ot_active (br_output_target (fst io)), release) of
      (Some active, Some reason) \<Rightarrow> push_release_target cap active reason io | _ \<Rightarrow> (io, Inr ())"
  have rel': "within A ?rel" using rel out by (auto simp: within_skip split: option.split)
  have tail: "wired_within True A (fst (andThen (emit cap PersistProfiles io3) (\<lambda>_ io4. push_status cap io4)))"
    if "wired_within True A io3" for io3
    by (rule wired_within_appends[OF _ that quiet]) (auto intro!: appends_trans appends_emit appends_push_status)
  have act: "wired_within True A (fst (case target of Wired \<Rightarrow> activate_wired cap n (set_output_target t io2)
                   | Ble h \<Rightarrow> activate_ble cap n h (set_output_target t io2)))"
    if "set (snd io2) \<subseteq> A" "output_select (br_output_target (fst io2)) target = (t, Inr n)" for io2 t n
  proof -
    have "ot_selected t = target" using that(2) by (auto simp: output_select_def Let_def split: sum.splits)
    then show ?thesis using that(1) quiet
      by (cases target) (simp_all add: set_output_target_def activate_wired_within wired_withinI[OF activate_ble_within])
  qed
  have step: "wired_within True A (fst (andThen (capture_io io1) (\<lambda>_ io2.
      case output_select (br_output_target (fst io2)) target of
        (_, Inl _) \<Rightarrow> (io2, Inl BeInvalidOutputTarget)
      | (t, Inr n) \<Rightarrow>
          andThen (case target of Wired \<Rightarrow> activate_wired cap n (set_output_target t io2)
                   | Ble h \<Rightarrow> activate_ble cap n h (set_output_target t io2)) (\<lambda>_ io3.
          andThen (emit cap PersistProfiles io3) (\<lambda>_ io4. push_status cap io4)))))"
    if io1: "set (snd io1) \<subseteq> A" for io1
  proof -
    obtain io2 r where c: "capture_io io1 = (io2, r)" by fastforce
    have io2: "set (snd io2) \<subseteq> A" using within_capture[OF io1] c by (simp add: within_def)
    show ?thesis
    proof (cases r)
      case (Inl e)
      then show ?thesis using c io2 by (simp add: wired_within_def)
    next
      case (Inr u)
      obtain t q where q: "output_select (br_output_target (fst io2)) target = (t, q)" by fastforce
      then show ?thesis
      proof (cases q)
        case (Inl e)
        then show ?thesis using c Inr q io2 by (simp add: wired_within_def)
      next
        case n: (Inr n)
        then show ?thesis using c Inr q wired_within_andThen[OF act[OF io2 q[unfolded n]] tail] by simp
      qed
    qed
  qed
  have "wired_within True A (fst (andThen ?rel (\<lambda>_ io1. andThen (capture_io io1) (\<lambda>_ io2.
      case output_select (br_output_target (fst io2)) target of
        (_, Inl _) \<Rightarrow> (io2, Inl BeInvalidOutputTarget)
      | (t, Inr n) \<Rightarrow>
          andThen (case target of Wired \<Rightarrow> activate_wired cap n (set_output_target t io2)
                   | Ble h \<Rightarrow> activate_ble cap n h (set_output_target t io2)) (\<lambda>_ io3.
          andThen (emit cap PersistProfiles io3) (\<lambda>_ io4. push_status cap io4))))))"
    by (rule andThen_cases[OF refl, of ?rel]) (use rel' step in \<open>auto simp: within_def wired_within_def\<close>)
  then show ?thesis
    using Inr wired_withinI[OF within_status[OF out quiet]] by (simp add: transition_output_target_def)
qed

lemma transition_ble_within:
  assumes out: "set (snd io) \<subseteq> A" and quiet: "quiet \<subseteq> A"
    and rel: "\<And>h reason. br_active (fst io) = Some h \<Longrightarrow> release = Some reason \<Longrightarrow>
      within A (push_release_reports cap h reason io)"
  shows "within A (transition_ble_target cap target release io)"
proof -
  have leds: "within A (apply_active_host_leds False cap io')" if "set (snd io') \<subseteq> A" for io'
    using within_appends[OF appends_active_leds that] quiet quiet_leds by auto
  show ?thesis
    unfolding transition_ble_target_def using rel out quiet
    by (auto intro!: within_if within_andThen within_capture within_with_hosts within_emit within_skip leds split: option.split)
qed

lemma release_target_within:
  assumes "bridge_inv True s" and "ot_active (br_output_target s) = Some t"
  shows "within (Collect (allowed True s)) (push_release_target cap t reason (s, []))"
proof (cases t)
  case Wired
  then have "neutral_actions reason \<subseteq> Collect (allowed True s)" using assms(2) by (auto simp: neutral_actions_def)
  then show ?thesis using Wired within_appends[OF appends_neutral_reports[of reason "(s, [])" cap]] by simp
next
  case (Ble h)
  then show ?thesis
    using within_appends[OF appends_release_reports[of "(s, [])" h reason cap]] release_actions_allowed[OF output_active_is_target]
      assms by auto
qed

lemma release_active_within:
  assumes "bridge_inv w s" and "br_active s = Some h"
  shows "within (Collect (allowed w s)) (push_release_reports cap h reason (s, []))"
  using within_appends[OF appends_release_reports[of "(s, [])" h reason cap]] release_actions_allowed[OF active_is_target] assms by auto

lemma detach_within:
  assumes "set out \<subseteq> A" and "\<And>r. can_send s h (report_kind_of r) \<Longrightarrow> Notify (Ble h) r reason \<in> A"
    and "keys_ok (pk_keys (pi_keyboard (br_input s)))"
  shows "within A (emit_detach_updates cap h previous reason (s, out))"
proof -
  let ?P = "\<lambda>io. set (snd io) \<subseteq> A \<and> br_hosts (fst io) = br_hosts s"
  have emit: "?P (fst (emit_if (can_send s' h (report_kind_of r) \<and> b) cap (Notify (Ble h) r reason) io))"
    if "?P io" "br_hosts s' = br_hosts s" for s' r b io
    using that assms(2) by (auto simp: emit_if_eq emit_eq can_send_def)
  have k: "?P (fst (detach_keyboard cap h previous reason (s, out)))"
    unfolding detach_keyboard_eq[OF assms(3)] using assms(1) emit[of _ s "KeyboardReport _"] by simp
  have m: "?P (fst (detach_mouse cap h previous reason io))" if "?P io" for io
    using that emit[of _ _ "MouseReport _"] by (cases io) (simp add: detach_mouse_def Let_def)
  have c: "?P (fst (detach_consumer cap h previous reason io))" if "?P io" for io
    using that emit[of _ _ "ConsumerReport _"] by (cases io) (simp add: detach_consumer_def Let_def)
  have "?P (fst (emit_detach_updates cap h previous reason (s, out)))"
    unfolding emit_detach_updates_def by (intro andThen_inv[where P = ?P] k m c)
  then show ?thesis by (simp add: within_def)
qed

lemma detach_active_within:
  assumes inv: "bridge_inv w s" and hosts: "br_hosts s' = br_hosts s" "input_inv s'"
  shows "within (Collect (allowed w s)) (detach_active cap previous (s', []))"
proof (cases "br_active s'")
  case (Some h)
  have t: "is_target w s h" using active_is_target[OF inv] Some hosts(1) by (simp add: br_active_def)
  then have "within (Collect (allowed w s)) (emit_detach_updates cap h previous NrUsbDeviceRemovedRelease (s', []))"
    using hosts input_inv_parts(2) by (intro detach_within) (auto simp: can_send_def)
  then show ?thesis using Some by (simp add: detach_active_def)
qed (simp add: detach_active_def within_skip)

lemma clear_host_within:
  assumes q: "quiet \<subseteq> A" and rel: "br_active s = Some h \<Longrightarrow> within A (push_release_reports cap h NrSafetyRelease (s, []))"
  shows "within A (clear_host w cap h (s, []))"
proof -
  have leds: "within A (push_usb_keyboard_leds cap 0 io)" if "set (snd io) \<subseteq> A" for io
    by (rule within_appends[OF appends_leds that]) (use q quiet_leds in blast)
  have emit: "within A (emit cap a io)" if "set (snd io) \<subseteq> A" "a \<in> quiet" for a io
    by (rule within_emit[OF that(1) subsetD[OF q that(2)]])
  have tail: "within A (let (m, removed) = machine_clear_host (br_hosts (fst io2)) h; io3 = ((fst io2)\<lparr>br_hosts := m\<rparr>, snd io2)
      in if removed then
           let io4 = (if w \<and> br_wired_ble_host (fst io3) = Some h then ((fst io3)\<lparr>br_wired_ble_host := None\<rparr>, snd io3) else io3)
           in andThen (emit cap (ClearBond h bond) io4) (\<lambda>_ io5.
              andThen (emit cap PersistProfiles io5) (\<lambda>_ io6.
              andThen (if a then push_usb_keyboard_leds cap 0 io6 else (io6, Inr ())) (\<lambda>_ io7. push_status cap io7)))
         else (io3, Inr ()))" if io2: "set (snd io2) \<subseteq> A" for io2 bond a
  proof -
    obtain m removed where mc: "machine_clear_host (br_hosts (fst io2)) h = (m, removed)" by fastforce
    show ?thesis
      unfolding Let_def mc prod.case
      by (intro within_if within_andThen within_skip emit leds within_status[OF _ q]) (use io2 in \<open>simp_all split: if_split\<close>)
  qed
  show ?thesis
    unfolding clear_host_def Let_def[of "br_active (fst (s, [])) = Some h"] Let_def[of "Option.bind _ _"]
    by (intro within_andThen within_if emit within_skip tail) (use rel in \<open>simp_all add: set_pairable_def\<close>)
qed

lemma host_disconnected_within:
  assumes q: "quiet \<subseteq> A"
  shows "wired_within w A (fst (host_disconnected w cap h (s, [])))"
proof -
  have st: "within A (push_status cap (refresh_io w (s', [])))" for s' by (rule within_status[OF _ q]) simp
  have ble: "within A (andThen (transition_ble_target cap t None (s', [])) (\<lambda>_ io. push_status cap io))" for t s'
    by (intro within_andThen transition_ble_within within_status q) simp_all
  have out: "wired_within True A (fst (transition_output_target cap t None (s', [])))" for t s'
    by (rule transition_output_within) (simp_all add: q)
  show ?thesis
    using st ble out by (cases w) (simp_all add: host_disconnected_def Let_def refresh_io_def wired_withinI split: option.split)
qed

lemma switch_target_within:
  assumes q: "quiet \<subseteq> A"
    and rel: "\<And>t. w \<Longrightarrow> ot_active (br_output_target s) = Some t \<Longrightarrow> within A (push_release_target cap t NrTargetSwitchRelease (s, []))"
      "\<And>h. \<not> w \<Longrightarrow> br_active s = Some h \<Longrightarrow> within A (push_release_reports cap h NrTargetSwitchRelease (s, []))"
  shows "wired_within w A (fst (switch_target w cap h (s, [])))" "w \<Longrightarrow> wired_within w A (fst (select_output_target cap t (s, [])))"
proof -
  have out: "wired_within True A (fst (transition_output_target cap t (Some NrTargetSwitchRelease) (s, [])))" if w for t
    by (rule transition_output_within) (use q rel(1)[OF that] in auto)
  have ble: "within A (andThen (transition_ble_target cap t (Some NrTargetSwitchRelease) (s, [])) (\<lambda>_ io. push_status cap io))" if "\<not> w" for t
    by (intro within_andThen transition_ble_within within_status q) (use rel(2)[OF that] in auto)
  show "wired_within w A (fst (switch_target w cap h (s, [])))" "w \<Longrightarrow> wired_within w A (fst (select_output_target cap t (s, [])))"
    using out ble by (simp_all add: switch_target_def select_output_target_def wired_withinI)
qed

lemma wired_availability_within:
  assumes q: "quiet \<subseteq> A"
  shows "wired_within True A (fst (wired_availability_changed cap a (s, [])))"
proof -
  have tail: "wired_within True A (fst (push_status cap io))" if "wired_within True A io" for io
    by (rule wired_within_appends[OF appends_push_status that q]) simp
  have led: "led_actions \<subseteq> A" using quiet_leds q by blast
  let ?io = "(s\<lparr>br_wired_availability := a, br_output_target := output_set_availability (br_output_target s) a\<rparr>, [])"
  have "wired_within True A (fst (andThen (push_neutral_reports cap Wired NrSafetyRelease ?io)
      (\<lambda>_ io. push_usb_keyboard_leds cap (br_wired_keyboard_leds (fst io)) io)))" if "ot_selected (br_output_target s) = Wired" "a = Ready"
    by (rule neutral_then_leds) (use led that in \<open>simp_all add: output_set_availability_def\<close>)
  moreover have "wired_within True A (fst (push_status cap (s', [])))" for s' by (rule tail) (simp add: wired_within_def)
  ultimately show ?thesis
    by (simp add: wired_availability_changed_def Let_def set_output_target_def wired_within_andThen[OF _ tail])
qed

lemma plain_events_within:
  assumes q: "quiet \<subseteq> A"
  shows "within A (host_security_changed w cap h e b bond (s, []))" "within A (host_keyboard_led_changed cap h leds (s, []))"
    "within A (wired_keyboard_led_changed cap leds (s, []))" "within A (enter_pairing_mode cap h (s, []))"
    "within A (expire_pairing_mode cap h (s, []))"
    "within A (handle_event_in_place w cap (EvHostConnected h) (s, []))"
    "within A (handle_event_in_place w cap (EvCccdChanged h k on) (s, []))"
    "within A (handle_event_in_place w cap (EvSetHostName h n) (s, []))"
    "within A (handle_event_in_place w cap (EvUsbHidInterfaceConnected i d sink) (s, []))"
proof -
  have leds: "within A (push_usb_keyboard_leds cap l io)" "within A (apply_active_host_leds w cap io)" if "set (snd io) \<subseteq> A" for io l
    using within_appends[OF appends_leds that] within_appends[OF appends_active_leds that] q quiet_leds by blast+
  have emit: "within A (emit cap a io)" "within A (emit_if c cap a io)" if "set (snd io) \<subseteq> A" "a \<in> quiet" for a c io
    using within_emit[OF that(1) subsetD[OF q that(2)]] within_emit_if[OF that(1) subsetD[OF q that(2)]] by auto
  note intros = within_andThen within_skip within_with_hosts within_status[OF _ q] within_if leds emit
  show "within A (host_security_changed w cap h e b bond (s, []))" "within A (host_keyboard_led_changed cap h leds (s, []))"
    "within A (wired_keyboard_led_changed cap leds (s, []))" "within A (expire_pairing_mode cap h (s, []))"
    "within A (handle_event_in_place w cap (EvHostConnected h) (s, []))"
    "within A (handle_event_in_place w cap (EvCccdChanged h k on) (s, []))"
    "within A (handle_event_in_place w cap (EvSetHostName h n) (s, []))"
    unfolding host_security_changed_def host_keyboard_led_changed_def wired_keyboard_led_changed_def Let_def expire_pairing_mode_def
      handle_event_in_place.simps
    by (intro intros; simp add: set_pairable_def)+
  show "within A (enter_pairing_mode cap h (s, []))"
    unfolding enter_pairing_mode_def
    by (cases "br_pairable_host (fst (s, []))") (simp_all, (intro intros; simp add: set_pairable_def)+)
  show "within A (handle_event_in_place w cap (EvUsbHidInterfaceConnected i d sink) (s, []))"
    using leds(2) by (auto simp: within_skip split: prod.split sum.split)
qed

lemma event_actions:
  assumes inv: "bridge_inv w s" and ok: "event_ok ev"
  shows "wired_within w (Collect (allowed w s)) (fst (handle_event_in_place w cap ev (s, [])))"
proof -
  let ?A = "Collect (allowed w s)"
  have q: "quiet \<subseteq> ?A" by (rule quiet_allowed)
  note st = within_status[OF _ q] and plain = plain_events_within[OF q, THEN wired_withinI[where w = w]]
  have relw: "within ?A (push_release_target cap t NrTargetSwitchRelease (s, []))" if "w" "ot_active (br_output_target s) = Some t" for t
    using release_target_within[of s t] inv that by simp
  have switch: "wired_within w ?A (fst (switch_target w cap h (s, [])))"
    "w \<Longrightarrow> wired_within w ?A (fst (select_output_target cap t (s, [])))" for h t
    by (rule switch_target_within[OF q]; use relw release_active_within[OF inv] in blast)+
  show ?thesis
  proof (cases ev)
    case (EvInputFrame f)
    show ?thesis
    proof (cases f)
      case (VendorFrame v)
      then show ?thesis using EvInputFrame by (simp add: wired_within_def)
    next
      case (StandardFrame x)
      have i: "input_inv s" "frame_ok x" using inv ok EvInputFrame StandardFrame by (simp_all add: bridge_inv_def)
      show ?thesis
        using standard_frame_result[OF i refl, of w cap "[]"] frame_actions_allowed[OF inv, of _ x] EvInputFrame StandardFrame
        by (auto simp: wired_within_def split: sum.splits)
    qed
  next
    case (EvUsbDeviceRemoved i)
    let ?d = "fst (remove_interface (br_input_devices (remove_usb_hid_interface i s)) i)"
    let ?s = "(remove_usb_hid_interface i s)\<lparr>br_input_devices := ?d, br_input := ia_aggregate ?d\<rparr>"
    have "aggregator_inv ?d" using remove_usb_inv[OF inv, of i] remove_interface_ok by (simp add: bridge_inv_def input_inv_parts(1))
    then have "input_inv ?s" using detached_inv[OF remove_usb_inv[OF inv]] by (simp add: bridge_inv_def)
    moreover have "br_hosts ?s = br_hosts s" by (simp add: remove_usb_hid_interface_def split: option.split)
    ultimately have "within ?A (detach_active cap (br_input s) (?s, []))" using detach_active_within[OF inv] by blast
    then show ?thesis using EvUsbDeviceRemoved
      by (auto simp: usb_device_removed_def Let_def intro!: wired_withinI within_andThen st)
  next
    case (EvResetInputDevice d)
    obtain ia rem where r: "remove_device (br_input_devices s) d = (ia, rem)" by fastforce
    have "aggregator_inv ia" using inv remove_device_ok(1)[of "br_input_devices s" d] r by (simp add: bridge_inv_def input_inv_parts(1))
    then have "within ?A (detach_active cap (br_input s) (s\<lparr>br_input_devices := ia, br_input := ia_aggregate ia\<rparr>, []))"
      using detach_active_within[OF inv] detached_inv[OF inv] by (simp add: bridge_inv_def)
    then show ?thesis using EvResetInputDevice r by (cases rem) (auto simp: reset_input_device_def Let_def wired_within_def[of _ _ "(_, [])"] intro!: wired_withinI)
  next
    case (EvHostDisconnected h)
    then show ?thesis using host_disconnected_within[OF q] by simp
  next
    case (EvSwitchTarget h)
    then show ?thesis using switch(1) by simp
  next
    case (EvSelectOutputTarget t)
    then show ?thesis using switch(2) by (simp add: wired_within_def[of _ _ "(s, [])"])
  next
    case (EvWiredAvailabilityChanged a)
    then show ?thesis using wired_availability_within[OF q, of cap a s] by (cases w) (simp_all add: wired_within_def[of _ _ "(s, [])"])
  next
    case (EvClearHost h)
    then show ?thesis using clear_host_within[OF q release_active_within[OF inv]] by (simp add: wired_withinI)
  next
    case (EvWiredKeyboardLedChanged leds)
    then show ?thesis using wired_withinI[OF plain_events_within(3)[OF q, of cap leds s], of w] by (cases w) (simp_all add: wired_within_def[of _ _ "(s, [])"])
  qed (use plain in \<open>simp_all only: handle_event_in_place.simps\<close>)
qed

text \<open>
  C15: Reports reach the selected target only. In every state the bridge can get into, whatever
  events and calls came before and whether or not some of them failed, each report an event
  produces goes to a target that was selected: a Bluetooth host gets it only if it was the
  selected target, connected, encrypted and subscribed to that kind of report before the event;
  the wired target gets it only in the wired build and only if it was active before the event or
  is active after it, with the wired link ready. No other host ever receives a report.
\<close>

theorem reports_reach_selected_target_only:
  assumes "list_all (op_ok w) ops" and "event_ok ev"
    and "handle_event_in_place w cap ev (run (bridge_step w cap) ops (bridge_state_new HOST_SLOT_COUNT), []) = ((s', out), r)"
    and "Notify target report reason \<in> set out"
  shows "let s = run (bridge_step w cap) ops (bridge_state_new HOST_SLOT_COUNT) in
    case target of
      Ble h \<Rightarrow> (if w then ot_selected (br_output_target s) = Ble h else br_active s = Some h) \<and>
        (\<exists>x. host_get (br_hosts s) h = Some x \<and> hs_connected x \<and> hs_encrypted x \<and>
          ready_get (hs_session_report_ready x) (report_kind_of report))
    | Wired \<Rightarrow> w \<and> (\<exists>b\<in>{s, s'}. ot_active (br_output_target b) = Some Wired \<and> br_wired_availability b = Ready)"
proof -
  let ?s = "run (bridge_step w cap) ops (bridge_state_new HOST_SLOT_COUNT)"
  have inv: "bridge_inv w ?s" by (rule bridge_run_inv[OF assms(1)])
  have inv': "bridge_inv w s'" using event_inv[of w "(?s, [])" ev cap] inv assms(2,3) by simp
  have acts: "wired_within w (Collect (allowed w ?s)) (s', out)" using event_actions[OF inv assms(2), of cap] assms(3) by simp
  have act_ready: "br_wired_availability b = Ready" if "bridge_inv w b" "w" "ot_active (br_output_target b) = Some Wired" for b
    using that by (simp add: bridge_inv_def target_inv_def)
  show ?thesis
  proof (cases "allowed w ?s (Notify target report reason)")
    case True
    then show ?thesis using act_ready[OF inv]
      by (cases target) (auto simp: Let_def is_target_def can_send_def machine_can_send_def host_can_send_def split: option.splits)
  next
    case False
    then have "Notify target report reason \<in> wired_notifies" "ot_active (br_output_target s') = Some Wired" "w"
      using acts assms(4) by (auto simp: wired_within_def)
    then show ?thesis using act_ready[OF inv'] by (auto simp: wired_notifies_def neutral_actions_def Let_def)
  qed
qed

definition ready_ops :: "bridge_op list" where
  "ready_ops = [BoEvent (EvHostConnected 1), BoEvent (EvHostSecurityChanged 1 True True None),
     BoEvent (EvCccdChanged 1 RkKeyboard True), BoEvent (EvSwitchTarget 1)]"

lemma ready_ops_ok: "list_all (op_ok w) ready_ops"
  by (simp add: ready_ops_def)

lemma ready_ops_release:
  "Notify (Ble 1) (KeyboardReport keyboard_report_release) NrSafetyRelease \<in>
     set (snd (fst (handle_event_in_place False 16 (EvClearHost 1) (run (bridge_step False 16) ready_ops (bridge_state_new HOST_SLOT_COUNT), []))))"
  by code_simp

theorem reports_reach_selected_target_only_witness:
  "let s = run (bridge_step False 16) ready_ops (bridge_state_new HOST_SLOT_COUNT) in
   Notify (Ble 1) (KeyboardReport keyboard_report_release) NrSafetyRelease \<in>
     set (snd (fst (handle_event_in_place False 16 (EvClearHost 1) (s, [])))) \<and>
   br_active s = Some 1 \<and> (\<exists>x. host_get (br_hosts s) 1 = Some x \<and> hs_encrypted x)"
proof -
  let ?s = "run (bridge_step False 16) ready_ops (bridge_state_new HOST_SLOT_COUNT)"
  obtain s' out r where ev: "handle_event_in_place False 16 (EvClearHost 1) (?s, []) = ((s', out), r)" by (metis prod.exhaust)
  have mem: "Notify (Ble 1) (KeyboardReport keyboard_report_release) NrSafetyRelease \<in> set out"
    using ready_ops_release[unfolded ev] by simp
  show ?thesis
    using reports_reach_selected_target_only[OF ready_ops_ok _ ev mem] ready_ops_release unfolding Let_def by auto
qed

end
