(* ===== verification/HS_BridgeHeld.thy ===== *)
theory HS_BridgeHeld
  imports HS_BridgeProps
begin

unbundle bit_operations_syntax

text \<open>
  Input held across a switch of the target. A key, modifier or mouse button that is held when
  the target changes is hidden from the new target for as long as it is held.
\<close>

section \<open>Held, hidden and shown input\<close>

datatype held_item = HeldKey key_usage | HeldModifier nat | HeldButton nat

fun held :: "bridge_state \<Rightarrow> held_item \<Rightarrow> bool" where
  "held s (HeldKey k) = (k \<in> set (pk_keys (pi_keyboard (br_input s))))"
| "held s (HeldModifier n) = bit (pk_modifiers (pi_keyboard (br_input s))) n"
| "held s (HeldButton n) = bit (pm_buttons (pi_mouse (br_input s))) n"

fun hidden :: "bridge_state \<Rightarrow> held_item \<Rightarrow> bool" where
  "hidden s (HeldKey k) = (k \<in> set (ks_keys (su_keyboard (br_suppression s))))"
| "hidden s (HeldModifier n) = bit (ks_modifiers (su_keyboard (br_suppression s))) n"
| "hidden s (HeldButton n) = bit (su_mouse_buttons (br_suppression s)) n"

text \<open>Whether an action is a report that shows the item; key slots that are not used hold zero.\<close>

fun reveals :: "held_item \<Rightarrow> bridge_action \<Rightarrow> bool" where
  "reveals (HeldKey k) (Notify _ (KeyboardReport r) _) = (k \<noteq> 0 \<and> k \<in> set (drop 2 r))"
| "reveals (HeldModifier n) (Notify _ (KeyboardReport r) _) = bit (r ! 0) n"
| "reveals (HeldButton n) (Notify _ (MouseReport r) _) = bit (mouse_report_buttons r) n"
| "reveals _ _ = False"

lemma release_reveals_nothing:
  "r \<in> {KeyboardReport keyboard_report_release, MouseReport mouse_report_release_buttons, ConsumerReport consumer_report_release}
   \<Longrightarrow> \<not> reveals i (Notify t r reason)"
  by (cases i) (auto simp: keyboard_report_release_def KEYBOARD_REPORT_LEN_def mouse_report_release_buttons_def
      MOUSE_REPORT_LEN_def mouse_report_buttons_def simp flip: replicate_Suc split: if_splits)

lemma keyboard_report_hides:
  assumes "hidden s i" and "su = su_keyboard (br_suppression s)"
  shows "\<not> reveals i (Notify t (KeyboardReport (kb_report (from_physical_state kb su))) reason)"
proof (cases i)
  case (HeldKey k)
  then have "k \<notin> set (visible_keys kb su)" using assms by (simp add: visible_keys_def suppression_contains_key_def)
  then have "k \<in> set (drop 2 (kro_image m (visible_keys kb su))) \<Longrightarrow> k = 0" for m
    by (auto simp: kro_image_def in_set_replicate split: if_splits dest: in_set_takeD)
  then show ?thesis using HeldKey by (auto simp: from_physical_state_eq)
next
  case (HeldModifier n)
  then show ?thesis using assms by (simp add: from_physical_state_eq kro_image_def bit_simps)
qed simp

lemma mouse_report_hides:
  assumes "hidden s i" and "su = su_mouse_buttons (br_suppression s)"
  shows "\<not> reveals i (Notify t (MouseReport (mouse_report_from_frame (buttons_without b su) m)) reason)"
  using assms by (cases i) (simp_all add: mouse_report_decode buttons_without_def bit_simps)

lemma quiet_hides: "quiet \<subseteq> {a. \<not> reveals i a}"
proof
  fix a
  assume "a \<in> quiet"
  then show "a \<in> {a. \<not> reveals i a}" by (cases a; cases i) auto
qed

lemma release_hides: "release_actions s h reason \<subseteq> {a. \<not> reveals i a}" "wired_notifies \<subseteq> {a. \<not> reveals i a}"
  using release_reveals_nothing unfolding release_actions_def wired_notifies_def neutral_actions_def by blast+

section \<open>Frames\<close>

lemma after_frame_hides:
  assumes inv: "input_inv s" and f: "frame_ok f" and p: "prepare_frame (br_input_devices s) f = Inr p"
    and hid: "hidden s i" and held: "held (after_frame s f p st) i"
  shows "hidden (after_frame s f p st) i"
    "a \<in> set (frame_actions w s f (prepared_aggregate p (br_input_devices s))) \<Longrightarrow> \<not> reveals i a"
proof -
  let ?agg = "prepared_aggregate p (br_input_devices s)" and ?s = "after_frame s f p st"
  obtain kb ks where nk: "next_keyboard s ?agg = (kb, ks)" by (cases "next_keyboard s ?agg") simp
  note N = next_keyboard_ok[OF inv commit_inv(2)[OF input_inv_parts(1)[OF inv] f p] nk]
  show hid': "hidden ?s i"
    using hid held N(6,7)
    by (cases i) (auto simp: after_frame_def Let_def commit_input_simps nk bit_simps hidden_buttons_def buttons_intersection_def split: if_splits)
  have kb: "\<not> reveals i (Notify t (KeyboardReport (kb_report (from_physical_state kb ks))) reason)" if "sf_keyboard f \<noteq> None" for t reason
    using that by (intro keyboard_report_hides[OF hid']) (auto simp: after_frame_def Let_def commit_input_simps nk)
  have ms: "\<not> reveals i (Notify t (MouseReport (mouse_report_from_frame (buttons_without b (hidden_buttons s ?agg)) m)) reason)"
    if "sf_mouse f \<noteq> None" for t b m reason
    using that by (intro mouse_report_hides[OF hid']) (auto simp: after_frame_def Let_def commit_input_simps nk)
  have "a \<in> set (keyboard_actions w s f ?agg) \<Longrightarrow> \<not> reveals i a"
    using kb by (auto simp: keyboard_actions_def notify_ready_def nk split: if_splits option.splits)
  moreover have "a \<in> set (mouse_actions w s f ?agg) \<Longrightarrow> \<not> reveals i a"
    using ms by (cases "sf_mouse f") (auto simp: mouse_actions_def notify_ready_def split: option.splits)
  moreover have "a \<in> set (consumer_actions w s f ?agg) \<Longrightarrow> \<not> reveals i a"
    by (cases i) (auto simp: consumer_actions_def notify_ready_def split: if_splits option.splits)
  ultimately show "a \<in> set (frame_actions w s f ?agg) \<Longrightarrow> \<not> reveals i a" by (auto simp: frame_actions_def)
qed

section \<open>Detaching\<close>

text \<open>Trimming keeps what is held hidden, and what is shown is what remains.\<close>

definition detach_ok :: "held_item \<Rightarrow> physical_input_state \<Rightarrow> bridge_io \<Rightarrow> bool" where
  "detach_ok i inp io =
     (br_input (fst io) = inp \<and> keys_ok (pk_keys (pi_keyboard inp)) \<and> (held (fst io) i \<longrightarrow> hidden (fst io) i) \<and>
      (\<forall>a\<in>set (snd io). held (fst io) i \<longrightarrow> \<not> reveals i a))"

lemma held_cong: "br_input s' = br_input s \<Longrightarrow> held s' i = held s i"
  by (cases i) simp_all

lemma hidden_cong: "br_suppression s' = br_suppression s \<Longrightarrow> hidden s' i = hidden s i"
  by (cases i) simp_all

lemma detach_ok_emit:
  assumes "detach_ok i inp (s, out)" and "held s i \<Longrightarrow> \<not> reveals i a"
  shows "detach_ok i inp (fst (emit_if b cap a (s, out)))"
  using assms by (auto simp: detach_ok_def emit_if_eq emit_eq)

lemma detach_ok_steps:
  assumes "detach_ok i inp io"
  shows "detach_ok i inp (fst (detach_keyboard cap h previous reason io))"
    "detach_ok i inp (fst (detach_mouse cap h previous reason io))"
    "detach_ok i inp (fst (detach_consumer cap h previous reason io))"
proof -
  obtain s out where io: "io = (s, out)" by (cases io)
  note a = assms[unfolded io]
  have keys: "keys_ok (pk_keys (pi_keyboard (br_input s)))" using a by (simp add: detach_ok_def)
  let ?k = "s\<lparr>br_suppression := (br_suppression s)\<lparr>su_keyboard := trimmed_keyboard s\<rparr>\<rparr>"
  have k: "held ?k i \<longrightarrow> hidden ?k i" and k': "held ?k i = held s i"
    using a by (cases i; auto simp: detach_ok_def trimmed_keyboard_def Let_def bit_simps)+
  have "detach_ok i inp (?k, out)" using a k k' by (simp add: detach_ok_def)
  then show "detach_ok i inp (fst (detach_keyboard cap h previous reason io))"
    unfolding io detach_keyboard_eq[OF keys] by (rule detach_ok_emit) (use k keyboard_report_hides[of ?k i] in simp)
  let ?su = "buttons_intersection (su_mouse_buttons (br_suppression s)) (pm_buttons (pi_mouse (br_input s)))"
  let ?m = "s\<lparr>br_suppression := (br_suppression s)\<lparr>su_mouse_buttons := ?su\<rparr>\<rparr>"
  have m: "held ?m i \<longrightarrow> hidden ?m i" and m': "held ?m i = held s i"
    using a by (cases i; auto simp: detach_ok_def buttons_intersection_def bit_simps)+
  have "detach_ok i inp (?m, out)" using a m m' by (simp add: detach_ok_def)
  then show "detach_ok i inp (fst (detach_mouse cap h previous reason io))"
    unfolding io detach_mouse_def Let_def prod.case by (rule detach_ok_emit) (use m mouse_report_hides[of ?m i] in simp)
  let ?c = "s\<lparr>br_suppression := (br_suppression s)\<lparr>su_consumer := trim_consumer (pi_consumer (br_input s)) (su_consumer (br_suppression s))\<rparr>\<rparr>"
  have "held ?c i = held s i" "hidden ?c i = hidden s i" by (cases i; simp)+
  then have "detach_ok i inp (?c, out)" using a by (simp add: detach_ok_def)
  then show "detach_ok i inp (fst (detach_consumer cap h previous reason io))"
    unfolding io detach_consumer_def Let_def prod.case by (rule detach_ok_emit) (cases i; simp)
qed

lemma detach_active_ok:
  assumes "detach_ok i inp io"
  shows "detach_ok i inp (fst (detach_active cap previous io))"
  unfolding detach_active_def emit_detach_updates_def
  using assms by (auto split: option.split intro!: andThen_inv[where P = "detach_ok i inp"] detach_ok_steps)

section \<open>The other events\<close>

text \<open>Every other method leaves the input alone and keeps the suppression or captures everything held.\<close>

definition same_input :: "bridge_state \<Rightarrow> bridge_state \<Rightarrow> bool" where
  "same_input s s' = (br_input s' = br_input s \<and> (br_suppression s' = br_suppression s \<or> br_suppression s' = captured s))"

lemma captured_hides: "br_input s' = br_input s \<Longrightarrow> br_suppression s' = captured s \<Longrightarrow> hidden s' i = held s' i"
  by (cases i) (simp_all add: captured_def)

lemma same_input_hides:
  assumes "same_input s s'" and "hidden s i" and "held s' i"
  shows "hidden s' i"
  using assms captured_hides[of s' s i] hidden_cong[of s' s i] by (auto simp: same_input_def)

lemma same_input_refl: "same_input s s"
  by (simp add: same_input_def)

lemma same_input_fields [simp]:
  "same_input s (s'\<lparr>br_hosts := m\<rparr>) = same_input s s'" "same_input s (s'\<lparr>br_output_target := t\<rparr>) = same_input s s'"
  "same_input s (s'\<lparr>br_wired_availability := a\<rparr>) = same_input s s'" "same_input s (s'\<lparr>br_pairable_host := p\<rparr>) = same_input s s'"
  "same_input s (s'\<lparr>br_usb_hid_interfaces := u\<rparr>) = same_input s s'" "same_input s (s'\<lparr>br_wired_ble_host := l\<rparr>) = same_input s s'"
  "same_input s (s'\<lparr>br_wired_keyboard_leds := k\<rparr>) = same_input s s'" "same_input s (s'\<lparr>br_mirror_target := i\<rparr>) = same_input s s'"
  "same_input s (s'\<lparr>br_stats := b\<rparr>) = same_input s s'" "same_input s (refresh_selected_target_availability w s') = same_input s s'"
  by (simp_all add: same_input_def refresh_selected_target_availability_def Let_def)

lemma same_input_andThen:
  assumes "same_input s (fst (fst r))" and "\<And>x io. r = (io, Inr x) \<Longrightarrow> same_input s (fst io) \<Longrightarrow> same_input s (fst (fst (f x io)))"
  shows "same_input s (fst (fst (andThen r f)))"
  by (rule andThen_inv[where P = "\<lambda>io. same_input s (fst io)"]) (use assms in auto)

lemma same_input_hosts: "same_input s (fst (fst (with_hosts f io))) = same_input s (fst io)"
  by (simp add: with_hosts_state)

lemma same_input_capture:
  assumes "same_input s (fst io)" and "input_inv s"
  shows "same_input s (fst (fst (capture_io io)))"
proof -
  have "br_input (fst io) = br_input s" using assms(1) by (simp add: same_input_def)
  then have "capture_from (su_keyboard (br_suppression (fst io))) (pi_keyboard (br_input (fst io))) =
      (\<lparr>ks_modifiers = pk_modifiers (pi_keyboard (br_input s)), ks_keys = pk_keys (pi_keyboard (br_input s))\<rparr>, Inr ())"
    using capture_from_ok[of "pi_keyboard (br_input s)"] input_inv_parts(2)[OF assms(2)] by (simp add: keys_ok_def)
  then show ?thesis using assms(1) by (simp add: capture_io_def capture_suppression_def same_input_def captured_def)
qed

lemma same_input_activate:
  assumes "same_input s (fst io)"
  shows "same_input s (fst (fst (activate_wired cap n io)))" "same_input s (fst (fst (activate_ble cap n h io)))"
  unfolding activate_wired_def activate_ble_def Let_def
  using assms by (auto simp: set_output_target_def same_input_hosts intro!: same_input_andThen)

lemma same_input_transition_output:
  assumes inv: "input_inv s" and io: "same_input s (fst io)"
  shows "same_input s (fst (fst (transition_output_target cap target release io)))"
proof (cases "output_target_validate target")
  case (Inr t)
  let ?rel = "case (ot_active (br_output_target (fst io)), release) of
      (Some active, Some reason) \<Rightarrow> push_release_target cap active reason io | _ \<Rightarrow> (io, Inr ())"
  have rel: "same_input s (fst (fst ?rel))" using io by (simp split: option.split)
  have act: "same_input s (fst (fst (case target of Wired \<Rightarrow> activate_wired cap n (set_output_target t io2)
                   | Ble h \<Rightarrow> activate_ble cap n h (set_output_target t io2))))" if "same_input s (fst io2)" for io2 t n
    using that same_input_activate[of s "set_output_target t io2"] by (simp add: set_output_target_def split: output_target.split)
  have sel: "same_input s (fst (fst (case output_select (br_output_target (fst io2)) target of
        (_, Inl _) \<Rightarrow> (io2, Inl BeInvalidOutputTarget)
      | (t, Inr n) \<Rightarrow>
          andThen (case target of Wired \<Rightarrow> activate_wired cap n (set_output_target t io2)
                   | Ble h \<Rightarrow> activate_ble cap n h (set_output_target t io2)) (\<lambda>_ io3.
          andThen (emit cap PersistProfiles io3) (\<lambda>_ io4. push_status cap io4)))))" if "same_input s (fst io2)" for io2
    using that act[OF that] by (auto intro!: same_input_andThen split: prod.split sum.split)
  show ?thesis
    unfolding transition_output_target_def Inr sum.case
  proof (cases "ot_selected (br_output_target (fst io)) = target")
    case False
    then show "same_input s (fst (fst (if ot_selected (br_output_target (fst io)) = target then push_status cap io
      else andThen ?rel (\<lambda>_ io1. andThen (capture_io io1) (\<lambda>_ io2. case output_select (br_output_target (fst io2)) target of
        (_, Inl _) \<Rightarrow> (io2, Inl BeInvalidOutputTarget)
      | (t, Inr n) \<Rightarrow>
          andThen (case target of Wired \<Rightarrow> activate_wired cap n (set_output_target t io2)
                   | Ble h \<Rightarrow> activate_ble cap n h (set_output_target t io2)) (\<lambda>_ io3.
          andThen (emit cap PersistProfiles io3) (\<lambda>_ io4. push_status cap io4)))))))"
      unfolding if_not_P[OF False]
      by (intro same_input_andThen rel same_input_capture sel inv) auto
  qed (use io in simp)
qed (use io in \<open>simp add: transition_output_target_def\<close>)

lemma same_input_transition_ble:
  assumes inv: "input_inv s" and io: "same_input s (fst io)"
  shows "same_input s (fst (fst (transition_ble_target cap target release io)))"
proof -
  have rel: "same_input s (fst (fst (case (br_active (fst io), release) of
      (Some old, Some reason) \<Rightarrow> push_release_reports cap old reason io | _ \<Rightarrow> (io, Inr ()))))"
    using io by (simp split: option.split)
  have tail: "same_input s (fst (fst (andThen (capture_io io1) (\<lambda>_ io2.
        andThen (with_hosts (\<lambda>m. set_active_target m target) io2) (\<lambda>_ io3.
        andThen (emit cap (ActivateInput target) io3) (\<lambda>_ io4.
        andThen (apply_active_host_leds False cap io4) (\<lambda>_ io5.
        andThen (emit cap PersistProfiles io5) (\<lambda>_ io6. (io6, Inr True)))))))))" if "same_input s (fst io1)" for io1
    by (intro same_input_andThen same_input_capture inv that) (simp_all add: same_input_hosts)
  show ?thesis
  proof (cases "br_active (fst io) = Some target")
    case False
    show ?thesis unfolding transition_ble_target_def if_not_P[OF False] by (rule same_input_andThen[OF rel], rule tail)
  qed (use io in \<open>simp add: transition_ble_target_def\<close>)
qed

lemma same_input_clear:
  assumes "same_input s (fst io)"
  shows "same_input s (fst (fst (clear_host w cap h io)))"
proof -
  have tail: "same_input s (fst (fst (let (m, removed) = machine_clear_host (br_hosts (fst io2)) h; io3 = ((fst io2)\<lparr>br_hosts := m\<rparr>, snd io2)
      in if removed then
           let io4 = (if w \<and> br_wired_ble_host (fst io3) = Some h then ((fst io3)\<lparr>br_wired_ble_host := None\<rparr>, snd io3) else io3)
           in andThen (emit cap (ClearBond h bond) io4) (\<lambda>_ io5.
              andThen (emit cap PersistProfiles io5) (\<lambda>_ io6.
              andThen (if a then push_usb_keyboard_leds cap 0 io6 else (io6, Inr ())) (\<lambda>_ io7. push_status cap io7)))
         else (io3, Inr ()))))" if io2: "same_input s (fst io2)" for io2 bond a
    using io2 by (auto simp: Let_def split: prod.split intro!: same_input_andThen)
  show ?thesis
    unfolding clear_host_def Let_def[of "br_active (fst io) = Some h"] Let_def[of "Option.bind _ _"]
    by (intro same_input_andThen tail) (use assms in \<open>auto simp: set_pairable_def\<close>)
qed

text \<open>The events that are not input and not a detached device.\<close>

fun steady :: "bridge_event \<Rightarrow> bool" where
  "steady (EvInputFrame _) = False"
| "steady (EvUsbDeviceRemoved _) = False"
| "steady (EvResetInputDevice _) = False"
| "steady _ = True"

lemma steady_input:
  assumes inv: "input_inv s" and ev: "steady ev"
  shows "same_input s (fst (fst (handle_event_in_place w cap ev (s, []))))"
proof -
  have refl: "same_input s (fst (s, []))" by (simp add: same_input_refl)
  note intros = same_input_andThen same_input_transition_output[OF inv] same_input_transition_ble[OF inv]
  show ?thesis
  proof (cases ev)
    case (EvHostDisconnected h)
    then show ?thesis
      by (auto simp: host_disconnected_def Let_def same_input_refl split: option.split intro!: intros)
  next
    case (EvSwitchTarget h)
    then show ?thesis by (auto simp: switch_target_def select_output_target_def same_input_refl intro!: intros)
  next
    case (EvSelectOutputTarget t)
    then show ?thesis by (auto simp: select_output_target_def same_input_refl intro!: intros)
  next
    case (EvWiredAvailabilityChanged a)
    then show ?thesis
      by (auto simp: wired_availability_changed_def Let_def set_output_target_def same_input_refl intro!: intros)
  next
    case (EvClearHost h)
    then show ?thesis using same_input_clear[OF refl] by simp
  next
    case (EvUsbHidInterfaceConnected i d sink)
    have "same_input s (fst (upsert_usb_hid_interface i d sink s))"
      by (auto simp: upsert_usb_hid_interface_def Let_def same_input_refl split: option.split)
    then show ?thesis using EvUsbHidInterfaceConnected by (auto split: prod.split sum.split)
  qed (use ev in \<open>auto simp: host_security_changed_def host_keyboard_led_changed_def wired_keyboard_led_changed_def Let_def
      enter_pairing_mode_def expire_pairing_mode_def set_pairable_def same_input_hosts same_input_refl
      split: option.split intro!: same_input_andThen\<close>)
qed

lemma steady_reveals_nothing:
  assumes ev: "steady ev"
  shows "\<forall>a\<in>set (snd (fst (handle_event_in_place w cap ev (s, [])))). \<not> reveals i a"
proof -
  let ?A = "{a. \<not> reveals i a}"
  have q: "quiet \<subseteq> ?A" by (rule quiet_hides)
  have relh: "within ?A (push_release_reports cap h reason (s, []))" for h reason
    by (rule within_appends[OF appends_release_reports]) (use release_hides(1) in auto)
  have relw: "within ?A (push_release_target cap t reason (s, []))" for t reason
  proof (cases t)
    case Wired
    have "neutral_actions reason \<subseteq> ?A" using release_hides(2)[of i] neutral_wired[of reason] by blast
    then show ?thesis using Wired within_appends[OF appends_neutral_reports[of reason "(s, [])"]] by simp
  qed (use relh in simp)
  have fin: "\<forall>a\<in>set (snd io). \<not> reveals i a" if "wired_within b ?A io" for b io
    using that release_hides(2)[of i] by (auto simp: wired_within_def)
  note plain = plain_events_within[OF q, THEN wired_withinI, THEN fin]
  have switch: "wired_within w ?A (fst (switch_target w cap h (s, [])))"
    "w \<Longrightarrow> wired_within w ?A (fst (select_output_target cap t (s, [])))" for h t
    by (rule switch_target_within[OF q]; use relw relh in blast)+
  note fins = fin[OF host_disconnected_within[OF q]] fin[OF switch(1)] fin[OF switch(2)] fin[OF wired_availability_within[OF q]]
    fin[OF wired_withinI[OF clear_host_within[OF q relh]]]
  show ?thesis
    using ev
    by (cases ev) (use fins plain in \<open>simp_all add: plain_events_within(6-9)[OF q, THEN wired_withinI, THEN fin] split: if_split\<close>)
qed

section \<open>A change of the target captures everything held\<close>

lemma suppression_andThen:
  assumes "br_suppression (fst (fst r)) = u" and "\<And>x io. r = (io, Inr x) \<Longrightarrow> br_suppression (fst io) = u \<Longrightarrow> br_suppression (fst (fst (f x io))) = u"
  shows "br_suppression (fst (fst (andThen r f))) = u"
  by (rule andThen_inv[where P = "\<lambda>io. br_suppression (fst io) = u"]) (use assms in auto)

lemma refresh_suppression [simp]: "br_suppression (refresh_selected_target_availability w s) = br_suppression s"
  "br_input (refresh_selected_target_availability w s) = br_input s"
  by (simp_all add: refresh_selected_target_availability_def Let_def)

lemma activate_suppression:
  "br_suppression (fst (fst (activate_wired cap n io))) = br_suppression (fst io)"
  "br_suppression (fst (fst (activate_ble cap n h io))) = br_suppression (fst io)"
  unfolding activate_wired_def activate_ble_def Let_def
  by (auto simp: set_output_target_def with_hosts_state intro!: suppression_andThen)

lemma transition_output_captures:
  assumes inv: "input_inv (fst io)" and s'_def: "s' = fst (fst (transition_output_target cap target release io))"
  shows "s' = fst io \<or> br_suppression s' = captured (fst io)"
proof (cases "output_target_validate target")
  case (Inr t)
  let ?rel = "case (ot_active (br_output_target (fst io)), release) of
      (Some active, Some reason) \<Rightarrow> push_release_target cap active reason io | _ \<Rightarrow> (io, Inr ())"
  let ?rest = "\<lambda>io1. andThen (capture_io io1) (\<lambda>_ io2. case output_select (br_output_target (fst io2)) target of
        (_, Inl _) \<Rightarrow> (io2, Inl BeInvalidOutputTarget)
      | (t, Inr n) \<Rightarrow>
          andThen (case target of Wired \<Rightarrow> activate_wired cap n (set_output_target t io2)
                   | Ble h \<Rightarrow> activate_ble cap n h (set_output_target t io2)) (\<lambda>_ io3.
          andThen (emit cap PersistProfiles io3) (\<lambda>_ io4. push_status cap io4)))"
  have rel: "fst (fst ?rel) = fst io" by (simp split: option.split)
  have rest: "br_suppression (fst (fst (?rest io1))) = captured (fst io)" if "fst io1 = fst io" for io1
  proof -
    have i1: "input_inv (fst io1)" using inv that by simp
    have sel: "br_suppression (fst (fst (case target of Wired \<Rightarrow> activate_wired cap n (set_output_target t io2)
                   | Ble h \<Rightarrow> activate_ble cap n h (set_output_target t io2)))) = br_suppression (fst io2)" for io2 t n
      by (simp add: activate_suppression set_output_target_def split: output_target.split)
    show ?thesis
      unfolding capture_io_ok[OF i1] andThen_simps
      by (auto simp: sel that split: prod.split sum.split intro!: suppression_andThen)
  qed
  show ?thesis
  proof (cases "ot_selected (br_output_target (fst io)) = target")
    case False
    have "s' = fst (fst (andThen ?rel (\<lambda>_ io1. ?rest io1)))"
      unfolding s'_def transition_output_target_def Inr sum.case if_not_P[OF False] by (rule refl)
    then show ?thesis using rel rest by (cases ?rel; cases "snd ?rel") auto
  qed (use Inr in \<open>simp add: s'_def transition_output_target_def\<close>)
qed (simp add: s'_def transition_output_target_def)

lemma transition_ble_captures:
  assumes inv: "input_inv (fst io)" and s'_def: "s' = fst (fst (transition_ble_target cap target release io))"
  shows "s' = fst io \<or> br_suppression s' = captured (fst io)"
proof -
  let ?rel = "case (br_active (fst io), release) of
      (Some old, Some reason) \<Rightarrow> push_release_reports cap old reason io | _ \<Rightarrow> (io, Inr ())"
  let ?rest = "\<lambda>io1. andThen (capture_io io1) (\<lambda>_ io2.
        andThen (with_hosts (\<lambda>m. set_active_target m target) io2) (\<lambda>_ io3.
        andThen (emit cap (ActivateInput target) io3) (\<lambda>_ io4.
        andThen (apply_active_host_leds False cap io4) (\<lambda>_ io5.
        andThen (emit cap PersistProfiles io5) (\<lambda>_ io6. (io6, Inr True))))))"
  have rel: "fst (fst ?rel) = fst io" by (simp split: option.split)
  have rest: "br_suppression (fst (fst (?rest io1))) = captured (fst io)" if "fst io1 = fst io" for io1
  proof -
    have i1: "input_inv (fst io1)" using inv that by simp
    show ?thesis
      unfolding capture_io_ok[OF i1] andThen_simps by (auto simp: that with_hosts_state intro!: suppression_andThen)
  qed
  show ?thesis
  proof (cases "br_active (fst io) = Some target")
    case False
    have "s' = fst (fst (andThen ?rel (\<lambda>_ io1. ?rest io1)))"
      unfolding s'_def transition_ble_target_def if_not_P[OF False] by (rule refl)
    then show ?thesis using rel rest by (cases ?rel; cases "snd ?rel") auto
  qed (simp add: s'_def transition_ble_target_def)
qed

text \<open>The target of the build, and the events that may change it.\<close>

definition current_target :: "bool \<Rightarrow> bridge_state \<Rightarrow> output_target option" where
  "current_target w s = (if w then Some (ot_selected (br_output_target s)) else map_option Ble (br_active s))"

fun may_switch :: "bridge_event \<Rightarrow> bool" where
  "may_switch (EvSwitchTarget _) = True"
| "may_switch (EvSelectOutputTarget _) = True"
| "may_switch (EvHostDisconnected _) = True"
| "may_switch _ = False"

lemma status_after_state: "fst (fst (andThen r (\<lambda>_ io. push_status cap io))) = fst (fst r)"
  by (cases r; cases "snd r") auto

lemma switch_captures:
  assumes inv: "bridge_inv w s" and ev: "may_switch ev" and s'_def: "s' = fst (fst (handle_event_in_place w cap ev (s, [])))"
    and change: "current_target w s' \<noteq> current_target w s"
  shows "br_suppression s' = captured s" "br_input s' = br_input s"
proof -
  have i: "input_inv s" using inv by (simp add: bridge_inv_def)
  have "steady ev" using ev by (cases ev) simp_all
  then show "br_input s' = br_input s" using steady_input[OF i] by (simp add: s'_def same_input_def)
  show "br_suppression s' = captured s"
  proof (cases ev)
    case (EvSwitchTarget h)
    then show ?thesis
      using transition_output_captures[of "(s, [])" _ cap "Ble h" "Some NrTargetSwitchRelease", OF _ refl]
        transition_ble_captures[of "(s, [])" _ cap h "Some NrTargetSwitchRelease", OF _ refl] i change
      by (cases w) (auto simp: s'_def switch_target_def select_output_target_def status_after_state)
  next
    case (EvSelectOutputTarget t)
    then show ?thesis
      using transition_output_captures[of "(s, [])" _ cap t "Some NrTargetSwitchRelease", OF _ refl] i change
      by (cases w) (auto simp: s'_def select_output_target_def)
  next
    case (EvHostDisconnected h)
    let ?s1 = "refresh_selected_target_availability w (s\<lparr>br_hosts := on_disconnected (br_hosts s) h\<rparr>)"
    have cap: "captured ?s1 = captured s" by (simp add: captured_def)
    have i1: "input_inv ?s1" using i by simp
    have same: "current_target w ?s1 = current_target w s"
      using inv on_disconnected_view(3)[of "br_hosts s" h] by (simp add: current_target_def bridge_inv_def table_inv_def br_active_def)
    have "s' = ?s1 \<or> br_suppression s' = captured ?s1"
      using transition_output_captures[of "(?s1, [])" _ cap _ None, OF _ refl] transition_ble_captures[of "(?s1, [])" _ cap _ None, OF _ refl] i1 EvHostDisconnected
      by (cases w) (auto simp: s'_def host_disconnected_def Let_def refresh_io_def status_after_state split: option.split)
    then show ?thesis using same change cap by auto
  qed (use ev in simp_all)
qed

section \<open>Steps\<close>

lemma event_hides:
  assumes inv: "bridge_inv w s" and ok: "event_ok ev" and hid: "hidden s i"
    and res: "handle_event_in_place w cap ev (s, []) = ((s', out), r)" and held: "held s' i"
  shows "hidden s' i" "a \<in> set out \<Longrightarrow> \<not> reveals i a"
proof -
  have inp: "input_inv s" using inv by (simp add: bridge_inv_def)
  have detach: "hidden s' i \<and> (a \<in> set out \<longrightarrow> \<not> reveals i a)"
    if "detach_ok i (br_input s1) (s1, [])" "s' = fst (fst (detach_active cap p (s1, [])))"
      "set out \<subseteq> quiet \<union> set (snd (fst (detach_active cap p (s1, []))))" for s1 p
    using detach_active_ok[OF that(1), of cap p] that(2,3) held quiet_hides[of i] by (auto simp: detach_ok_def)
  have dok: "detach_ok i (br_input s1) (s1, [])" if "bridge_inv w s1" "br_suppression s1 = br_suppression s" for s1
    using that hid hidden_cong[of s1 s i] input_inv_parts(2)[of s1] by (simp add: detach_ok_def bridge_inv_def)
  have "hidden s' i \<and> (a \<in> set out \<longrightarrow> \<not> reveals i a)"
  proof (cases "steady ev")
    case True
    then show ?thesis
      using same_input_hides[OF _ hid held] steady_input[OF inp True, of w cap] steady_reveals_nothing[OF True, of w cap s i] res by simp
  next
    case False
    then consider (frame) f where "ev = EvInputFrame f" | (usb) n where "ev = EvUsbDeviceRemoved n" | (reset) d where "ev = EvResetInputDevice d"
      by (cases ev) auto
    then show ?thesis
    proof cases
      case frame
      show ?thesis
      proof (cases f)
        case (VendorFrame v)
        then show ?thesis using frame res hid hidden_cong[of s' s i] by auto
      next
        case (StandardFrame x)
        have x: "frame_ok x" using ok frame StandardFrame by simp
        show ?thesis
          using standard_frame_result[OF inp x refl, of w cap "[]"] after_frame_hides[OF inp x _ hid] frame StandardFrame res held hid
          by (auto split: sum.splits)
      qed
    next
      case usb
      let ?d = "fst (remove_interface (br_input_devices (remove_usb_hid_interface n s)) n)"
      let ?s = "(remove_usb_hid_interface n s)\<lparr>br_input_devices := ?d, br_input := ia_aggregate ?d\<rparr>"
      have "aggregator_inv ?d" using remove_usb_inv[OF inv, of n] remove_interface_ok by (simp add: bridge_inv_def input_inv_parts(1))
      then have "bridge_inv w ?s" by (rule detached_inv[OF remove_usb_inv[OF inv]])
      moreover have "br_suppression ?s = br_suppression s" by (simp add: remove_usb_hid_interface_def split: option.split)
      ultimately have dk: "detach_ok i (br_input ?s) (?s, [])" by (rule dok)
      have eq: "handle_event_in_place w cap ev (s, []) = andThen (detach_active cap (br_input s) (?s, [])) (\<lambda>_ io. push_status cap io)"
        by (simp add: usb usb_device_removed_def Let_def)
      have st: "s' = fst (fst (detach_active cap (br_input s) (?s, [])))" using eq res status_after_state by (metis fst_conv)
      have "set out \<subseteq> quiet \<union> set (snd (fst (detach_active cap (br_input s) (?s, []))))"
        using eq res by (cases "detach_active cap (br_input s) (?s, [])"; cases "snd (detach_active cap (br_input s) (?s, []))")
          (auto simp: push_status_def emit_eq split: if_splits)
      then show ?thesis by (rule detach[OF dk st])
    next
      case reset
      obtain ia rem where rm: "remove_device (br_input_devices s) d = (ia, rem)" by fastforce
      show ?thesis
      proof (cases rem)
        case True
        let ?s = "s\<lparr>br_input_devices := ia, br_input := ia_aggregate ia\<rparr>"
        have "aggregator_inv ia" using inv remove_device_ok(1)[of "br_input_devices s" d] rm by (simp add: bridge_inv_def input_inv_parts(1))
        then have dk: "detach_ok i (br_input ?s) (?s, [])" by (intro dok detached_inv[OF inv]) simp_all
        have eq: "detach_active cap (br_input s) (?s, []) = ((s', out), r)" using res reset rm True by (simp add: reset_input_device_def Let_def)
        show ?thesis by (rule detach[OF dk, of "br_input s"]) (simp_all add: eq)
      next
        case False
        then show ?thesis using res reset rm hid hidden_cong[of s' s i] by (auto simp: reset_input_device_def Let_def)
      qed
    qed
  qed
  then show "hidden s' i" "a \<in> set out \<Longrightarrow> \<not> reveals i a" by auto
qed

lemma op_hides:
  assumes inv: "bridge_inv w s" and ok: "op_ok w x" and hid: "hidden s i" and held: "held (bridge_step w cap x s) i"
  shows "hidden (bridge_step w cap x s) i"
proof (cases "\<exists>ev. x = BoEvent ev")
  case True
  then obtain ev where x: "x = BoEvent ev" ..
  obtain s' out r where "handle_event_in_place w cap ev (s, []) = ((s', out), r)" by (metis prod.exhaust)
  then show ?thesis using event_hides(1)[OF inv, of ev i cap s' out r] ok hid held x by simp
next
  case False
  have inp: "input_inv s" using inv by (simp add: bridge_inv_def)
  have "same_input s (bridge_step w cap x s)"
  proof (cases x)
    case (BoRestore st)
    then show ?thesis using restore_state[OF inv, of st] ok by (simp add: Let_def same_input_refl)
  next
    case (BoDiscoveredName h n)
    then show ?thesis by (simp add: set_discovered_host_name_def same_input_refl split: prod.split)
  qed (use False in \<open>simp_all add: mark_host_disconnected_for_quiesce_def prepare_for_quiesce_def capture_ok[OF inp] set_mirror_target_def
      set_wired_host_link_def begin_wired_presentation_transition_def hold_wired_presentation_transition_def Let_def same_input_refl
      output_begin_transition_def, simp_all add: same_input_def\<close>)
  then show ?thesis using same_input_hides hid held by blast
qed

lemma run_hides:
  assumes "bridge_inv w s" and "list_all (op_ok w) xs" and "hidden s i"
    and "\<forall>n\<le>length xs. held (run (bridge_step w cap) (take n xs) s) i"
  shows "hidden (run (bridge_step w cap) xs s) i"
  using assms
proof (induction xs arbitrary: s)
  case (Cons x xs)
  let ?s = "bridge_step w cap x s"
  have held: "held (run (bridge_step w cap) (take n xs) ?s) i" if "n \<le> length xs" for n
    using Cons.prems(4)[rule_format, of "Suc n"] that by simp
  have "hidden ?s i" using op_hides[OF Cons.prems(1) _ Cons.prems(3)] Cons.prems(2) held[of 0] by simp
  then show ?case using Cons.IH[OF op_inv[OF Cons.prems(1)]] Cons.prems(2) held by simp
qed simp

text \<open>
  C16: Held input never leaks to a new target. If a target switch, a target selection or the
  fallback after a lost connection changes the target while a key, a modifier or a mouse button
  is held, then no report of any later event shows it, for as long as it is held without
  interruption, whatever other input, device, host or pairing events and whatever further
  switches happen in between.
\<close>

theorem held_input_stays_hidden:
  assumes ops: "list_all (op_ok w) (before @ BoEvent switch # later @ [BoEvent ev])" and sw: "may_switch switch"
    and s: "s = run (bridge_step w cap) before (bridge_state_new HOST_SLOT_COUNT)"
    and s1: "s1 = bridge_step w cap (BoEvent switch) s"
    and change: "current_target w s1 \<noteq> current_target w s"
    and held: "\<forall>n\<le>length later + 1. held (run (bridge_step w cap) (take n (later @ [BoEvent ev])) s1) i"
  shows "\<forall>a\<in>set (snd (fst (handle_event_in_place w cap ev (run (bridge_step w cap) later s1, [])))). \<not> reveals i a"
proof -
  let ?s2 = "run (bridge_step w cap) later s1"
  have inv: "bridge_inv w s" using bridge_run_inv[of w before] ops s by simp
  have inv1: "bridge_inv w s1" using op_inv[OF inv, of "BoEvent switch"] ops s1 by simp
  have inv2: "bridge_inv w ?s2" using bridge.run_inv[OF inv1] ops by simp
  have cap: "br_suppression s1 = captured s" "br_input s1 = br_input s"
    using switch_captures[OF inv sw, of s1 cap] s1 change by simp_all
  have "hidden s1 i" using captured_hides[OF cap(2,1), of i] held[rule_format, of 0] by simp
  moreover have "held (run (bridge_step w cap) (take n later) s1) i" if "n \<le> length later" for n
    using held[rule_format, of n] that by simp
  ultimately have hid: "hidden ?s2 i" using run_hides[OF inv1] ops by simp
  obtain s' out r where res: "handle_event_in_place w cap ev (?s2, []) = ((s', out), r)" by (metis prod.exhaust)
  have "held s' i" using held[rule_format, of "length later + 1"] res by simp
  then show ?thesis using event_hides(2)[OF inv2 _ hid res] ops res by simp
qed

definition typed :: "key_usage list \<Rightarrow> bridge_event" where
  "typed ks = EvInputFrame (StandardFrame (sample_frame 1 ks 0))"

definition two_hosts :: "bridge_op list" where
  "two_hosts = map BoEvent
     [EvHostConnected 1, EvHostSecurityChanged 1 True True None, EvCccdChanged 1 RkKeyboard True,
      EvHostConnected 2, EvHostSecurityChanged 2 True True None, EvCccdChanged 2 RkKeyboard True,
      EvSwitchTarget 1, typed [4]]"

lemma typed_ok: "event_ok (typed [4]) \<and> event_ok (typed [4, 5])"
  by (simp add: typed_def sample_frame_def frame_ok_def keys_ok_def buttons_ok_def PHYSICAL_KEYBOARD_KEY_CAPACITY_def)

lemma two_hosts_run:
  "let s = run (bridge_step False 16) two_hosts (bridge_state_new HOST_SLOT_COUNT); s1 = bridge_step False 16 (BoEvent (EvSwitchTarget 2)) s in
   current_target False s1 \<noteq> current_target False s \<and> held s1 (HeldKey 4) \<and> held (bridge_step False 16 (BoEvent (typed [4, 5])) s1) (HeldKey 4)"
  by code_simp

theorem held_input_stays_hidden_witness:
  "let s = run (bridge_step False 16) two_hosts (bridge_state_new HOST_SLOT_COUNT); s1 = bridge_step False 16 (BoEvent (EvSwitchTarget 2)) s in
   held s1 (HeldKey 4) \<and>
   (\<forall>a\<in>set (snd (fst (handle_event_in_place False 16 (typed [4, 5]) (s1, [])))). \<not> reveals (HeldKey 4) a)"
proof -
  let ?s = "run (bridge_step False 16) two_hosts (bridge_state_new HOST_SLOT_COUNT)"
  let ?s1 = "bridge_step False 16 (BoEvent (EvSwitchTarget 2)) ?s"
  note r = two_hosts_run[unfolded Let_def]
  have ops: "list_all (op_ok False) (two_hosts @ BoEvent (EvSwitchTarget 2) # [] @ [BoEvent (typed [4, 5])])"
    using typed_ok by (simp add: two_hosts_def)
  have held: "\<forall>n\<le>length [] + 1. held (run (bridge_step False 16) (take n ([] @ [BoEvent (typed [4, 5])])) ?s1) (HeldKey 4)"
  proof (intro allI impI)
    fix n :: nat
    assume "n \<le> length [] + 1"
    then have "n = 0 \<or> n = 1" by auto
    then show "held (run (bridge_step False 16) (take n ([] @ [BoEvent (typed [4, 5])])) ?s1) (HeldKey 4)"
      using r by (auto simp only: take_0 run_simps append_Nil take_Suc_Cons One_nat_def)
  qed
  have "\<forall>a\<in>set (snd (fst (handle_event_in_place False 16 (typed [4, 5]) (run (bridge_step False 16) [] ?s1, [])))). \<not> reveals (HeldKey 4) a"
    by (rule held_input_stays_hidden[OF ops _ refl refl _ held]) (use r in \<open>simp_all only: may_switch.simps not_False_eq_True\<close>)
  then show ?thesis using r unfolding Let_def by (simp only: run_simps)
qed

end
