(* ===== verification/HS_BridgeActions.thy ===== *)
theory HS_BridgeActions
  imports HS_BridgeHeld
begin

unbundle bit_operations_syntax

text \<open>
  The actions of the bridge as a sequence: what a switch emits and in which order, how many
  actions one event can need, and what a detached device leaves behind.
\<close>

section \<open>What a switch emits\<close>

text \<open>A result whose output extends the one before by actions of a set.\<close>

definition grows :: "bridge_action set \<Rightarrow> bridge_io \<Rightarrow> 'a bridge_result \<Rightarrow> bool" where
  "grows A io r = (\<exists>as. snd (fst r) = snd io @ as \<and> set as \<subseteq> A)"

lemma grows_andThen:
  assumes "grows A io r" and "\<And>x io'. r = (io', Inr x) \<Longrightarrow> grows A io' (f x io')"
  shows "grows A io (andThen r f)"
proof (cases r)
  case (Pair io' v)
  then show ?thesis using assms by (cases v) (auto simp: grows_def)
qed

lemma grows_skip: "snd io' = snd io \<Longrightarrow> grows A io (io', r)"
  by (simp add: grows_def)

lemma grows_emit: "a \<in> A \<Longrightarrow> grows A io (emit cap a io)"
  by (simp add: grows_def emit_eq)

lemma grows_appends: "appends B io r \<Longrightarrow> B \<subseteq> A \<Longrightarrow> grows A io r"
  by (auto simp: grows_def appends_def)

lemma grows_with_hosts: "grows A io (with_hosts f io)"
  by (simp add: grows_def with_hosts_out)

lemma grows_cong: "snd io' = snd io \<Longrightarrow> grows A io' r \<Longrightarrow> grows A io r"
  by (simp add: grows_def)

definition switch_quiet :: "bridge_action set" where
  "switch_quiet = quiet \<union> wired_notifies"

lemma leds_switch_quiet: "led_actions \<subseteq> switch_quiet"
  using quiet_leds by (auto simp: switch_quiet_def)

lemma activate_wired_grows: "grows switch_quiet io (activate_wired cap n io)"
proof -
  have neutral: "neutral_actions reason \<subseteq> switch_quiet" for reason using neutral_wired by (auto simp: switch_quiet_def)
  have tail: "grows switch_quiet io3 (andThen (push_neutral_reports cap Wired reason io3) (\<lambda>_ io4. push_usb_keyboard_leds cap (leds io4) io4))"
    for io3 reason leds
    by (intro grows_andThen grows_appends[OF appends_neutral_reports neutral] grows_appends[OF appends_leds leds_switch_quiet])
  show ?thesis
    unfolding activate_wired_def Let_def
    by (rule grows_cong[OF _ grows_andThen[OF grows_emit]])
      (auto simp: switch_quiet_def set_output_target_def intro!: grows_cong[OF _ tail[unfolded switch_quiet_def]] grows_skip)
qed

lemma activate_ble_grows: "grows switch_quiet io (activate_ble cap n h io)"
  unfolding activate_ble_def
  by (intro grows_andThen grows_with_hosts grows_emit grows_appends[OF appends_active_leds leds_switch_quiet] grows_skip)
    (simp_all add: switch_quiet_def)

definition RELEASE_REPORTS :: "standard_hid_report list" where
  "RELEASE_REPORTS = [KeyboardReport keyboard_report_release, MouseReport mouse_report_release_buttons, ConsumerReport consumer_report_release]"

text \<open>The reports that release a target: all three for the wired one, those a host can receive for a host.\<close>

definition release_list :: "bridge_state \<Rightarrow> output_target \<Rightarrow> notify_reason \<Rightarrow> bridge_action list" where
  "release_list s t reason =
     map (\<lambda>r. Notify t r reason)
       (filter (\<lambda>r. case t of Ble h \<Rightarrow> can_send s h (report_kind_of r) | Wired \<Rightarrow> True) RELEASE_REPORTS)"

lemma emit_all_ok: "emit_all cap as io = (io', Inr x) \<Longrightarrow> io' = (fst io, snd io @ as)"
proof (induction as arbitrary: io)
  case (Cons a as)
  then have "emit_all cap as (fst io, snd io @ [a]) = (io', Inr x)" by (auto simp: emit_eq split: if_splits)
  from Cons.IH[OF this] show ?case by simp
qed simp

lemma push_release_target_ok:
  assumes "push_release_target cap t reason (s, out) = (io', Inr x)"
  shows "io' = (s, out @ release_list s t reason)"
proof (cases t)
  case Wired
  then show ?thesis
    using emit_all_ok[OF assms[unfolded Wired push_release_target.simps push_neutral_reports_def]]
    by (simp add: release_list_def RELEASE_REPORTS_def)
next
  case (Ble h)
  then show ?thesis
    using assms
    by (auto simp: push_release_reports_def andThen_Inr_iff emit_if_eq emit_eq release_list_def RELEASE_REPORTS_def split: if_splits)
qed

lemma transition_output_emits:
  assumes inv: "input_inv s" and res: "transition_output_target cap target (Some reason) (s, []) = ((s', out), Inr x)"
    and change: "ot_selected (br_output_target s) \<noteq> target"
  shows "\<exists>rest. out = (case ot_active (br_output_target s) of None \<Rightarrow> [] | Some t \<Rightarrow> release_list s t reason) @ rest \<and>
    set rest \<subseteq> switch_quiet"
proof -
  let ?rel = "case ot_active (br_output_target s) of
      None \<Rightarrow> ((s, []), Inr ()) | Some active \<Rightarrow> push_release_target cap active reason (s, [])"
  let ?rest = "\<lambda>io1. andThen (capture_io io1) (\<lambda>_ io2. case output_select (br_output_target (fst io2)) target of
        (_, Inl _) \<Rightarrow> (io2, Inl BeInvalidOutputTarget)
      | (t, Inr n) \<Rightarrow>
          andThen (case target of Wired \<Rightarrow> activate_wired cap n (set_output_target t io2)
                   | Ble h \<Rightarrow> activate_ble cap n h (set_output_target t io2)) (\<lambda>_ io3.
          andThen (emit cap PersistProfiles io3) (\<lambda>_ io4. push_status cap io4)))"
  have eq: "andThen ?rel (\<lambda>_ io1. ?rest io1) = ((s', out), Inr x)"
    using res change by (auto simp: transition_output_target_def split: sum.splits option.splits)
  have act: "grows switch_quiet io2 (case target of Wired \<Rightarrow> activate_wired cap n (set_output_target t io2)
                   | Ble h \<Rightarrow> activate_ble cap n h (set_output_target t io2))" for io2 t n
    using activate_wired_grows[of "set_output_target t io2"] activate_ble_grows[of "set_output_target t io2"]
    by (auto simp: set_output_target_def intro: grows_cong[of "set_output_target t io2", rotated] split: output_target.split)
  have grow: "grows switch_quiet io1 (?rest io1)" for io1
    unfolding push_status_def
    by (intro grows_andThen, simp add: capture_io_def grows_def split: prod.split)
      (auto split: prod.split sum.split intro!: grows_andThen act grows_skip grows_emit, simp_all add: switch_quiet_def)
  obtain io1 u where io1: "?rel = (io1, Inr u)" "?rest io1 = ((s', out), Inr x)"
    using eq by (auto simp: andThen_Inr_iff)
  have "snd io1 = (case ot_active (br_output_target s) of None \<Rightarrow> [] | Some t \<Rightarrow> release_list s t reason)"
    using io1(1) by (auto dest: push_release_target_ok split: option.splits)
  moreover obtain as where "snd (fst (?rest io1)) = snd io1 @ as" "set as \<subseteq> switch_quiet"
    using grow[of io1] unfolding grows_def by blast
  ultimately show ?thesis using io1(2) by auto
qed

lemma transition_ble_emits:
  assumes res: "transition_ble_target cap target (Some reason) (s, []) = ((s', out), Inr x)"
    and change: "br_active s \<noteq> Some target"
  shows "\<exists>rest. out = (case br_active s of None \<Rightarrow> [] | Some h \<Rightarrow> release_list s (Ble h) reason) @ rest \<and> set rest \<subseteq> switch_quiet"
proof -
  let ?rel = "case br_active s of None \<Rightarrow> ((s, []), Inr ()) | Some old \<Rightarrow> push_release_reports cap old reason (s, [])"
  let ?rest = "\<lambda>io1. andThen (capture_io io1) (\<lambda>_ io2.
        andThen (with_hosts (\<lambda>m. set_active_target m target) io2) (\<lambda>_ io3.
        andThen (emit cap (ActivateInput target) io3) (\<lambda>_ io4.
        andThen (apply_active_host_leds False cap io4) (\<lambda>_ io5.
        andThen (emit cap PersistProfiles io5) (\<lambda>_ io6. (io6, Inr True))))))"
  have eq: "andThen ?rel (\<lambda>_ io1. ?rest io1) = ((s', out), Inr x)"
    using res change by (auto simp: transition_ble_target_def split: option.splits)
  have grow: "grows switch_quiet io1 (?rest io1)" for io1
    by (intro grows_andThen, simp add: capture_io_def grows_def split: prod.split)
      (auto intro!: grows_andThen grows_with_hosts grows_skip grows_emit grows_appends[OF appends_active_leds leds_switch_quiet],
        simp_all add: switch_quiet_def)
  obtain io1 u where io1: "?rel = (io1, Inr u)" "?rest io1 = ((s', out), Inr x)"
    using eq by (auto simp: andThen_Inr_iff)
  have "snd io1 = (case br_active s of None \<Rightarrow> [] | Some h \<Rightarrow> release_list s (Ble h) reason)"
    using io1(1) by (auto dest: push_release_target_ok[of _ "Ble _", simplified] split: option.splits)
  moreover obtain as where "snd (fst (?rest io1)) = snd io1 @ as" "set as \<subseteq> switch_quiet"
    using grow[of io1] unfolding grows_def by blast
  ultimately show ?thesis using io1(2) by auto
qed

text \<open>The target reports go to: the active one of the wired build, the active host of the other.\<close>

definition report_target :: "bool \<Rightarrow> bridge_state \<Rightarrow> output_target option" where
  "report_target w s = (if w then ot_active (br_output_target s) else map_option Ble (br_active s))"

lemma transition_output_selects:
  assumes inv: "bridge_inv True s" and res: "transition_output_target cap target release (s, []) = ((s', out), Inr x)"
  shows "ot_selected (br_output_target s') = target"
proof (cases "ot_selected (br_output_target s) = target")
  case True
  then show ?thesis using res by (auto simp: transition_output_target_def push_status_def emit_eq split: sum.splits if_splits)
next
  case False
  have sel: "ot_selected (br_output_target (fst (fst (andThen (case target of Wired \<Rightarrow> activate_wired cap n (set_output_target t io2)
                   | Ble h \<Rightarrow> activate_ble cap n h (set_output_target t io2)) (\<lambda>_ io3.
          andThen (emit cap PersistProfiles io3) (\<lambda>_ io4. push_status cap io4)))))) = ot_selected t" for io2 t n
  proof -
    let ?P = "\<lambda>io. ot_selected (br_output_target (fst io)) = ot_selected t"
    have w: "?P (fst (activate_wired cap n (set_output_target t io2)))"
      unfolding activate_wired_def Let_def
      by (rule andThen_inv[where P = ?P]) (auto simp: set_output_target_def output_set_availability_def intro!: andThen_inv[where P = ?P])
    have b: "?P (fst (activate_ble cap n h (set_output_target t io2)))" for h
      unfolding activate_ble_def
      by (intro andThen_inv[where P = ?P]) (auto simp: set_output_target_def with_hosts_state)
    show ?thesis using w b by (auto intro!: andThen_inv[where P = ?P] split: output_target.split)
  qed
  obtain io2 where io2: "(case output_select (br_output_target (fst io2)) target of
        (_, Inl _) \<Rightarrow> (io2, Inl BeInvalidOutputTarget)
      | (t, Inr n) \<Rightarrow>
          andThen (case target of Wired \<Rightarrow> activate_wired cap n (set_output_target t io2)
                   | Ble h \<Rightarrow> activate_ble cap n h (set_output_target t io2)) (\<lambda>_ io3.
          andThen (emit cap PersistProfiles io3) (\<lambda>_ io4. push_status cap io4))) = ((s', out), Inr x)"
    using res False by (cases "output_target_validate target") (auto simp: transition_output_target_def andThen_Inr_iff[of "capture_io _"] andThen_Inr_iff[of "case_option _ _ _"])
  obtain t q where tq: "output_select (br_output_target (fst io2)) target = (t, q)" by fastforce
  obtain n where t: "output_select (br_output_target (fst io2)) target = (t, Inr n)"
    and fin: "andThen (case target of Wired \<Rightarrow> activate_wired cap n (set_output_target t io2)
                   | Ble h \<Rightarrow> activate_ble cap n h (set_output_target t io2)) (\<lambda>_ io3.
          andThen (emit cap PersistProfiles io3) (\<lambda>_ io4. push_status cap io4)) = ((s', out), Inr x)"
    using io2 tq by (cases q) auto
  have "ot_selected t = target" using t by (auto simp: output_select_def Let_def split: sum.splits)
  then show ?thesis using sel fin by (metis fst_conv)
qed

lemma transition_ble_selects:
  assumes inv: "bridge_inv False s" and res: "transition_ble_target cap target release (s, []) = ((s', out), Inr x)"
  shows "br_active s' = Some target"
proof (cases "br_active s = Some target")
  case True
  then show ?thesis using res by (auto simp: transition_ble_target_def)
next
  case False
  let ?P = "\<lambda>io. br_active (fst io) = Some target"
  obtain io2 b io3 where h: "with_hosts (\<lambda>m. set_active_target m target) io2 = (io3, Inr b)"
    and fin: "andThen (emit cap (ActivateInput target) io3) (\<lambda>_ io4.
        andThen (apply_active_host_leds False cap io4) (\<lambda>_ io5.
        andThen (emit cap PersistProfiles io5) (\<lambda>_ io6. (io6, Inr True)))) = ((s', out), Inr x)"
    using res False by (auto simp: transition_ble_target_def andThen_Inr_iff split: sum.splits prod.splits)
  have "?P io3" using h by (auto simp: with_hosts_def set_active_target_def andThen_def br_active_def split: prod.splits sum.splits)
  then have "?P (fst (andThen (emit cap (ActivateInput target) io3) (\<lambda>_ io4.
        andThen (apply_active_host_leds False cap io4) (\<lambda>_ io5.
        andThen (emit cap PersistProfiles io5) (\<lambda>_ io6. (io6, Inr True))))))"
    by (intro andThen_inv[where P = ?P]) simp_all
  then show ?thesis by (simp add: fin)
qed

text \<open>
  C17: A switch releases the previous target first. When a target is selected and this succeeds,
  that target is selected afterwards; if it was not selected before, the actions begin with the
  release reports for the target reports went to until then (every kind the host can receive;
  all three for the wired one), everything held is captured into the suppression, and the
  remaining actions contain no report to any Bluetooth host and none but releases to the wired
  one.
\<close>

theorem switch_releases_previous:
  assumes "list_all (op_ok w) ops" and "s = run (bridge_step w cap) ops (bridge_state_new HOST_SLOT_COUNT)"
    and "ev = EvSwitchTarget h \<and> target = Ble h \<or> w \<and> ev = EvSelectOutputTarget target"
    and "handle_event_in_place w cap ev (s, []) = ((s', out), Inr ())"
  shows "current_target w s' = Some target \<and>
    (current_target w s = Some target \<or>
     (br_suppression s' = captured s \<and>
      (\<exists>rest. out = (case report_target w s of None \<Rightarrow> [] | Some t \<Rightarrow> release_list s t NrTargetSwitchRelease) @ rest \<and>
        (\<forall>t r reason. Notify t r reason \<in> set rest \<longrightarrow> t = Wired \<and> r \<in> set RELEASE_REPORTS))))"
proof -
  have inv: "bridge_inv w s" using bridge_run_inv[OF assms(1)] assms(2) by simp
  have inp: "input_inv s" using inv by (simp add: bridge_inv_def)
  have quiet: "t = Wired \<and> r \<in> set RELEASE_REPORTS" if "set rest \<subseteq> switch_quiet" "Notify t r reason \<in> set rest" for rest t r reason
  proof -
    have "Notify t r reason \<in> wired_notifies" using that by (auto simp: switch_quiet_def)
    then show ?thesis by (auto simp: wired_notifies_def neutral_actions_def RELEASE_REPORTS_def)
  qed
  have step: "s' = fst (fst (handle_event_in_place w cap ev (s, [])))" using assms(4) by simp
  have sw: "may_switch ev" using assms(3) by auto
  have cap: "current_target w s' \<noteq> current_target w s \<Longrightarrow> br_suppression s' = captured s"
    using switch_captures(1)[OF inv sw step] .
  show ?thesis
  proof (cases w)
    case True
    have tr: "transition_output_target cap target (Some NrTargetSwitchRelease) (s, []) = ((s', out), Inr ())"
      using assms(3,4) True by (auto simp: switch_target_def select_output_target_def)
    have sel: "ot_selected (br_output_target s') = target" using transition_output_selects[OF _ tr] inv True by simp
    have "current_target w s = Some target \<or> (\<exists>rest. out = (case report_target w s of None \<Rightarrow> [] | Some t \<Rightarrow> release_list s t NrTargetSwitchRelease) @ rest \<and>
        set rest \<subseteq> switch_quiet)"
      using transition_output_emits[OF inp tr] True by (auto simp: current_target_def report_target_def)
    then show ?thesis using sel cap quiet True unfolding current_target_def by (metis)
  next
    case False
    obtain io1 b where tr: "transition_ble_target cap h (Some NrTargetSwitchRelease) (s, []) = (io1, Inr b)"
      and st: "push_status cap io1 = ((s', out), Inr ())" and th: "target = Ble h"
      using assms(3,4) False by (auto simp: switch_target_def andThen_Inr_iff)
    obtain out1 where io1: "io1 = (s', out1)" "out = out1 @ [StatusChanged (status s')]"
      using st by (cases io1) (auto simp: push_status_def emit_eq split: if_splits)
    have sel: "br_active s' = Some h" using transition_ble_selects[OF _ tr[unfolded io1]] inv False by simp
    have "current_target w s = Some target \<or> (\<exists>rest. out1 = (case report_target w s of None \<Rightarrow> [] | Some t \<Rightarrow> release_list s t NrTargetSwitchRelease) @ rest \<and>
        set rest \<subseteq> switch_quiet)"
    proof (cases "br_active s = Some h")
      case ne: False
      show ?thesis using transition_ble_emits[OF tr[unfolded io1] ne] False th by (cases "br_active s") (simp_all add: report_target_def)
    qed (use False th in \<open>simp add: current_target_def\<close>)
    moreover have "set (rest @ [StatusChanged (status s')]) \<subseteq> switch_quiet" if "set rest \<subseteq> switch_quiet" for rest
      using that by (auto simp: switch_quiet_def)
    ultimately have "current_target w s = Some target \<or> (\<exists>rest. out = (case report_target w s of None \<Rightarrow> [] | Some t \<Rightarrow> release_list s t NrTargetSwitchRelease) @ rest \<and>
        set rest \<subseteq> switch_quiet)" unfolding io1(2) by (metis append_assoc)
    then show ?thesis using sel cap quiet False th unfolding current_target_def by (metis option.map(2))
  qed
qed

lemma two_hosts_ok: "list_all (op_ok w) two_hosts"
  using typed_ok by (simp add: two_hosts_def)

lemma two_hosts_switch:
  "let s = run (bridge_step False 16) two_hosts (bridge_state_new HOST_SLOT_COUNT); r = handle_event_in_place False 16 (EvSwitchTarget 2) (s, []) in
   snd r = Inr () \<and> current_target False s = Some (Ble 1)"
  by code_simp

theorem switch_releases_previous_witness:
  "let s = run (bridge_step False 16) two_hosts (bridge_state_new HOST_SLOT_COUNT); r = handle_event_in_place False 16 (EvSwitchTarget 2) (s, []) in
   snd r = Inr () \<and> current_target False (fst (fst r)) = Some (Ble 2) \<and> br_suppression (fst (fst r)) = captured s"
proof -
  let ?s = "run (bridge_step False 16) two_hosts (bridge_state_new HOST_SLOT_COUNT)"
  note st = two_hosts_switch[unfolded Let_def]
  obtain s' out where r: "handle_event_in_place False 16 (EvSwitchTarget 2) (?s, []) = ((s', out), Inr ())"
    using st by (metis prod.collapse)
  have "current_target False s' = Some (Ble 2) \<and> br_suppression s' = captured ?s"
    using switch_releases_previous[OF two_hosts_ok refl _ r, of 2 "Ble 2"] st by auto
  then show ?thesis unfolding Let_def r by simp
qed

section \<open>The number of actions of one event\<close>

text \<open>
  \<open>fits cap n io r\<close>: with room for \<open>n\<close> more actions \<open>r\<close> does not fail for want of room and
  uses at most \<open>n\<close>; the interface table stays.
\<close>

definition fits :: "nat \<Rightarrow> nat \<Rightarrow> bridge_io \<Rightarrow> 'a bridge_result \<Rightarrow> bool" where
  "fits cap n io r =
     (br_usb_hid_interfaces (fst (fst r)) = br_usb_hid_interfaces (fst io) \<and>
      (length (snd io) + n \<le> cap \<longrightarrow> snd r \<noteq> Inl BeActionCapacity \<and> length (snd (fst r)) \<le> length (snd io) + n))"

lemma fits_andThen:
  assumes "fits cap a io r" and "\<And>x io'. br_usb_hid_interfaces (fst io') = br_usb_hid_interfaces (fst io) \<Longrightarrow> fits cap b io' (f x io')"
    and "a + b \<le> n"
  shows "fits cap n io (andThen r f)"
proof (cases r)
  case (Pair io' v)
  show ?thesis
  proof (cases v)
    case (Inl e)
    then show ?thesis using assms(1,3) Pair by (auto simp: fits_def)
  next
    case (Inr x)
    have "br_usb_hid_interfaces (fst io') = br_usb_hid_interfaces (fst io)" using assms(1) Pair by (simp add: fits_def)
    from assms(2)[OF this, of x] show ?thesis using assms(1,3) Pair Inr by (auto simp: fits_def)
  qed
qed

lemma fits_mono: "fits cap a io r \<Longrightarrow> a \<le> n \<Longrightarrow> fits cap n io r"
  by (auto simp: fits_def)

lemma fits_skip: "br_usb_hid_interfaces (fst io') = br_usb_hid_interfaces (fst io) \<Longrightarrow> snd io' = snd io \<Longrightarrow> e \<noteq> Inl BeActionCapacity \<Longrightarrow>
    fits cap n io (io', e)"
  by (simp add: fits_def)

lemma fits_emit: "fits cap (Suc 0) io (emit cap a io)"
  by (simp add: fits_def emit_eq)

lemma fits_emit_if: "fits cap (Suc 0) io (emit_if b cap a io)"
  by (simp add: fits_def emit_eq emit_if_eq)

lemma fits_status: "fits cap (Suc 0) io (push_status cap io)"
  by (simp add: push_status_def fits_emit)

lemma fits_emit_all: "fits cap (length as) io (emit_all cap as io)"
proof (induction as arbitrary: io)
  case (Cons a as)
  show ?case unfolding emit_all.simps by (rule fits_andThen[OF fits_emit Cons.IH]) simp
qed (simp add: fits_skip)

lemma fits_hosts: "fits cap 0 io (with_hosts f io)"
  by (auto simp: fits_def with_hosts_def split: prod.split sum.split)

lemma fits_capture: "fits cap 0 io (capture_io io)"
  by (auto simp: fits_def capture_io_def capture_suppression_def split: prod.split sum.split)

lemma fits_release_reports: "fits cap 3 io (push_release_reports cap h reason io)"
  unfolding push_release_reports_def
  by (rule fits_andThen[OF fits_emit_if fits_andThen[OF fits_emit_if fits_emit_if le_refl]]) simp

lemma fits_neutral: "fits cap 3 io (push_neutral_reports cap t reason io)"
  unfolding push_neutral_reports_def by (rule fits_mono[OF fits_emit_all]) simp

lemma fits_release_target: "fits cap 3 io (push_release_target cap t reason io)"
  by (cases t) (simp_all add: fits_release_reports fits_neutral)

lemma fits_leds: "length (br_usb_hid_interfaces (fst io)) \<le> n \<Longrightarrow> fits cap n io (push_usb_keyboard_leds cap leds io)"
  unfolding push_usb_keyboard_leds_def
  by (rule fits_mono[OF fits_emit_all]) (simp add: le_trans[OF length_filter_le])

lemma fits_active_leds: "length (br_usb_hid_interfaces (fst io)) \<le> n \<Longrightarrow> fits cap n io (apply_active_host_leds w cap io)"
  by (auto simp: apply_active_host_leds_def Let_def fits_leds fits_skip split: option.split)

lemma fits_cong: "fits cap n io' r \<Longrightarrow> br_usb_hid_interfaces (fst io') = br_usb_hid_interfaces (fst io) \<Longrightarrow> snd io' = snd io \<Longrightarrow> fits cap n io r"
  by (simp add: fits_def)

lemma refresh_usb [simp]: "br_usb_hid_interfaces (refresh_selected_target_availability w s) = br_usb_hid_interfaces s"
  by (simp add: refresh_selected_target_availability_def Let_def)

lemma fits_activate_wired:
  assumes "length (br_usb_hid_interfaces (fst io)) \<le> u"
  shows "fits cap (4 + u) io (activate_wired cap n io)"
proof -
  have tail: "fits cap (3 + u) io3 (andThen (push_neutral_reports cap Wired reason io3) (\<lambda>_ io4. push_usb_keyboard_leds cap (leds io4) io4))"
    if "length (br_usb_hid_interfaces (fst io3)) \<le> u" for io3 reason leds
    by (rule fits_andThen[OF fits_neutral fits_leds]) (use that in auto)
  show ?thesis
    unfolding activate_wired_def Let_def
    by (rule fits_cong[OF fits_andThen[OF fits_emit, where b = "3 + u"]])
      (use assms in \<open>auto simp: set_output_target_def intro!: fits_cong[OF tail] fits_skip\<close>)
qed

lemma fits_activate_ble:
  assumes "length (br_usb_hid_interfaces (fst io)) \<le> u"
  shows "fits cap (2 + u) io (activate_ble cap n h io)"
  unfolding activate_ble_def
  by (rule fits_andThen[OF fits_hosts fits_andThen[OF fits_emit fits_andThen[OF fits_emit fits_andThen[OF fits_active_leds[where n = u] fits_skip[where n = 0]]]]])
    (use assms in auto)

definition activation_cost :: "output_target \<Rightarrow> nat" where
  "activation_cost t = (case t of Wired \<Rightarrow> 4 | Ble _ \<Rightarrow> 2)"

definition release_cost :: "notify_reason option \<Rightarrow> nat" where
  "release_cost r = (case r of None \<Rightarrow> 0 | Some _ \<Rightarrow> 3)"

lemma fits_transition_output:
  assumes u: "length (br_usb_hid_interfaces (fst io)) \<le> u"
  shows "fits cap (release_cost release + activation_cost target + u + 2) io (transition_output_target cap target release io)"
proof (cases "output_target_validate target")
  case (Inr t)
  let ?k = "activation_cost target + u"
  let ?rel = "case (ot_active (br_output_target (fst io)), release) of
      (Some active, Some reason) \<Rightarrow> push_release_target cap active reason io | _ \<Rightarrow> (io, Inr ())"
  have rel: "fits cap (release_cost release) io ?rel"
    by (auto simp: release_cost_def fits_release_target fits_skip split: option.split)
  have act: "fits cap ?k io2 (case target of Wired \<Rightarrow> activate_wired cap n (set_output_target t io2)
                   | Ble h \<Rightarrow> activate_ble cap n h (set_output_target t io2))" if "length (br_usb_hid_interfaces (fst io2)) \<le> u" for io2 t n
    using fits_cong[OF fits_activate_wired[of "set_output_target t io2" u cap n], of io2]
      fits_cong[OF fits_activate_ble[of "set_output_target t io2" u cap n], of io2] that
    by (simp add: set_output_target_def activation_cost_def split: output_target.split)
  have sel: "fits cap (?k + 2) io2 (case output_select (br_output_target (fst io2)) target of
        (_, Inl _) \<Rightarrow> (io2, Inl BeInvalidOutputTarget)
      | (t, Inr n) \<Rightarrow>
          andThen (case target of Wired \<Rightarrow> activate_wired cap n (set_output_target t io2)
                   | Ble h \<Rightarrow> activate_ble cap n h (set_output_target t io2)) (\<lambda>_ io3.
          andThen (emit cap PersistProfiles io3) (\<lambda>_ io4. push_status cap io4)))" if "length (br_usb_hid_interfaces (fst io2)) \<le> u" for io2
    by (auto split: prod.split sum.split intro!: fits_skip fits_andThen[OF act[OF that] fits_andThen[OF fits_emit fits_status le_refl]])
  show ?thesis
  proof (cases "ot_selected (br_output_target (fst io)) = target")
    case False
    show ?thesis
      unfolding transition_output_target_def Inr sum.case if_not_P[OF False]
      by (rule fits_andThen[OF rel fits_andThen[OF fits_capture sel le_refl]]) (use u in auto)
  qed (use Inr in \<open>simp add: transition_output_target_def fits_mono[OF fits_status]\<close>)
qed (simp add: transition_output_target_def fits_skip)

lemma fits_transition_ble:
  assumes u: "length (br_usb_hid_interfaces (fst io)) \<le> u"
  shows "fits cap (release_cost release + u + 2) io (transition_ble_target cap target release io)"
proof (cases "br_active (fst io) = Some target")
  case False
  let ?rel = "case (br_active (fst io), release) of
      (Some old, Some reason) \<Rightarrow> push_release_reports cap old reason io | _ \<Rightarrow> (io, Inr ())"
  have rel: "fits cap (release_cost release) io ?rel"
    by (auto simp: release_cost_def fits_release_reports fits_skip split: option.split)
  show ?thesis
    unfolding transition_ble_target_def if_not_P[OF False]
    by (rule fits_andThen[OF rel fits_andThen[OF fits_capture fits_andThen[OF fits_hosts fits_andThen[OF fits_emit
          fits_andThen[OF fits_active_leds[where n = u] fits_andThen[OF fits_emit fits_skip[where n = 0] le_refl] le_refl] le_refl] le_refl] le_refl]])
      (use u in auto)
qed (simp add: transition_ble_target_def fits_skip)

lemma fits_clear_host:
  assumes u: "length (br_usb_hid_interfaces (fst io)) \<le> u"
  shows "fits cap (7 + u) io (clear_host w cap h io)"
proof -
  have tail: "fits cap (3 + u) io2 (let (m, removed) = machine_clear_host (br_hosts (fst io2)) h; io3 = ((fst io2)\<lparr>br_hosts := m\<rparr>, snd io2)
      in if removed then
           let io4 = (if w \<and> br_wired_ble_host (fst io3) = Some h then ((fst io3)\<lparr>br_wired_ble_host := None\<rparr>, snd io3) else io3)
           in andThen (emit cap (ClearBond h bond) io4) (\<lambda>_ io5.
              andThen (emit cap PersistProfiles io5) (\<lambda>_ io6.
              andThen (if a then push_usb_keyboard_leds cap 0 io6 else (io6, Inr ())) (\<lambda>_ io7. push_status cap io7)))
         else (io3, Inr ()))" if io2: "length (br_usb_hid_interfaces (fst io2)) \<le> u" for io2 bond a
  proof -
    obtain m removed where mc: "machine_clear_host (br_hosts (fst io2)) h = (m, removed)" by fastforce
    let ?io3 = "((fst io2)\<lparr>br_hosts := m\<rparr>, snd io2)"
    let ?io4 = "if w \<and> br_wired_ble_host (fst ?io3) = Some h then ((fst ?io3)\<lparr>br_wired_ble_host := None\<rparr>, snd ?io3) else ?io3"
    have leds: "fits cap u io6 (if a then push_usb_keyboard_leds cap 0 io6 else (io6, Inr ()))"
      if "br_usb_hid_interfaces (fst io6) = br_usb_hid_interfaces (fst io2)" for io6
      using that io2 by (simp add: fits_leds fits_skip)
    have "fits cap (3 + u) ?io4 (andThen (emit cap (ClearBond h bond) ?io4) (\<lambda>_ io5.
              andThen (emit cap PersistProfiles io5) (\<lambda>_ io6.
              andThen (if a then push_usb_keyboard_leds cap 0 io6 else (io6, Inr ())) (\<lambda>_ io7. push_status cap io7))))"
      by (rule fits_andThen[OF fits_emit fits_andThen[OF fits_emit fits_andThen[OF leds fits_status le_refl] le_refl]]) auto
    from fits_cong[OF this, of io2] show ?thesis unfolding Let_def mc prod.case by (auto simp: fits_skip)
  qed
  have rel: "fits cap 3 io (if b then push_release_reports cap h NrSafetyRelease io else (io, Inr ()))" for b
    by (simp add: fits_release_reports fits_skip)
  have pair: "fits cap 1 io1 (if br_pairable_host (fst io1) = Some h then emit cap (RejectPairing h) (set_pairable None io1) else (io1, Inr ()))" for io1
    using fits_cong[OF fits_emit[of cap "set_pairable None io1"]] by (simp add: set_pairable_def fits_skip)
  show ?thesis
    unfolding clear_host_def Let_def[of "br_active (fst io) = Some h"] Let_def[of "Option.bind _ _"]
    by (rule fits_andThen[OF rel fits_andThen[OF pair tail le_refl]]) (use u in auto)
qed

lemma fits_detach: "fits cap 3 io (detach_active cap previous io)"
proof -
  have k: "fits cap 1 io (detach_keyboard cap h previous reason io)" for h reason io
    using fits_cong[OF fits_emit_if]
    by (cases io) (auto simp: detach_keyboard_def Let_def fits_skip split: sum.split prod.split)
  have m: "fits cap 1 io (detach_mouse cap h previous reason io)" for h reason io
    using fits_cong[OF fits_emit_if] by (cases io) (simp add: detach_mouse_def Let_def)
  have c: "fits cap 1 io (detach_consumer cap h previous reason io)" for h reason io
    using fits_cong[OF fits_emit_if] by (cases io) (simp add: detach_consumer_def Let_def)
  have "fits cap 3 io (emit_detach_updates cap h previous reason io)" for h reason
    unfolding emit_detach_updates_def by (rule fits_andThen[OF k fits_andThen[OF m c le_refl]]) simp
  then show ?thesis by (auto simp: detach_active_def fits_skip split: option.split)
qed

text \<open>The room each event needs; \<open>u\<close> bounds the registered interfaces.\<close>

definition event_cost :: "bridge_event \<Rightarrow> nat" where
  "event_cost ev =
     (if ev = EvSelectOutputTarget Wired then 9 + BRIDGE_USB_HID_INTERFACES_MAX else 7 + BRIDGE_USB_HID_INTERFACES_MAX)"

lemma not_capacity_if_fits: "fits cap n (s, []) r \<Longrightarrow> n \<le> cap \<Longrightarrow> snd r \<noteq> Inl BeActionCapacity"
  by (simp add: fits_def)

lemma frame_capacity:
  assumes "input_inv s" and "frame_ok f" and "3 \<le> cap"
  shows "snd (handle_standard_input_frame w cap f (s, [])) \<noteq> Inl BeActionCapacity"
proof -
  have "length (notify_ready w s r reason) \<le> 1" for r reason by (simp add: notify_ready_def split: option.split)
  then have K: "length (keyboard_actions w s f agg) \<le> 1" "length (mouse_actions w s f agg) \<le> 1" "length (consumer_actions w s f agg) \<le> 1" for agg
    by (simp_all add: keyboard_actions_def mouse_actions_def consumer_actions_def split: option.split prod.split)
  show ?thesis
  proof (cases "prepare_frame (br_input_devices s) f")
    case (Inl e)
    then show ?thesis by (simp add: handle_standard_input_frame_def)
  next
    case (Inr p)
    let ?agg = "prepared_aggregate p (br_input_devices s)"
    note C = commit_inv[OF input_inv_parts(1)[OF assms(1)] assms(2) Inr]
    have push: "push_action cap out a = Inr (out @ [a])" if "length out < cap" for out a using that by (simp add: push_action_def vec_push_def)
    have k: "keyboard_part w cap s f ?agg (st, out) \<noteq> Inl BeActionCapacity" if "length out < cap" for st out
    proof -
      obtain kb ks where nk: "next_keyboard s ?agg = (kb, ks)" by (cases "next_keyboard s ?agg") simp
      obtain ks1 n where "keyboard_apply_state (pi_keyboard (br_input s)) (pi_keyboard ?agg) (su_keyboard (br_suppression s)) = ((kb, ks1), Inr ())"
        "suppress_visible_after ks1 kb KEYBOARD_6KRO_KEY_CAPACITY = (ks, Inr n)"
        using next_keyboard_ok(9)[OF assms(1) C(2) nk] by blast
      then show ?thesis using push[OF that] by (auto simp: keyboard_part_def split: option.split)
    qed
    have m: "mouse_part w cap s f ?agg (st, out) \<noteq> Inl BeActionCapacity" if "length out < cap" for st out
      using push[OF that] by (auto simp: mouse_part_def Let_def split: option.split)
    have c: "consumer_part w cap s f ?agg (st, out) \<noteq> Inl BeActionCapacity" if "length out < cap" for st out
      using push[OF that] by (auto simp: consumer_part_def Let_def split: option.split)
    obtain st1 where k1: "keyboard_part w cap s f ?agg (br_stats s, []) =
        Inr (if sf_keyboard f = None then None else Some (next_keyboard s ?agg), st1, keyboard_actions w s f ?agg)"
      using keyboard_part_cases[OF assms(1) C(2), of w cap f "(br_stats s, [])"] k[of "[]"] assms(3) by auto
    obtain st2 where m1: "mouse_part w cap s f ?agg (st1, keyboard_actions w s f ?agg) =
        Inr (if sf_mouse f = None then None else Some (pi_mouse ?agg, hidden_buttons s ?agg), st2, keyboard_actions w s f ?agg @ mouse_actions w s f ?agg)"
      using mouse_part_cases[of w cap s f ?agg "(st1, keyboard_actions w s f ?agg)"] m[of "keyboard_actions w s f ?agg"] K(1)[of ?agg] assms(3) by auto
    have "length (keyboard_actions w s f ?agg @ mouse_actions w s f ?agg) < cap" using K(1,2)[of ?agg] assms(3) by simp
    then show ?thesis
      using k1 m1 Inr c[of "keyboard_actions w s f ?agg @ mouse_actions w s f ?agg" st2]
      by (auto simp: handle_standard_input_frame_def Let_def bindE_def split: sum.splits)
  qed
qed

lemma event_capacity:
  assumes inv: "bridge_inv w s" and ok: "event_ok ev" and room: "event_cost ev \<le> cap"
  shows "snd (handle_event_in_place w cap ev (s, [])) \<noteq> Inl BeActionCapacity"
proof -
  let ?u = "BRIDGE_USB_HID_INTERFACES_MAX"
  have u: "length (br_usb_hid_interfaces (fst (s, []))) \<le> ?u" using inv by (simp add: bridge_inv_def usb_inv_def)
  have u8: "?u = 8" by (simp add: BRIDGE_USB_HID_INTERFACES_MAX_def)
  have room15: "7 + ?u \<le> cap" using room by (auto simp: event_cost_def split: if_splits)
  have fin: "snd r \<noteq> Inl BeActionCapacity" if "fits cap n (s, []) r" "n \<le> 7 + ?u" for n and r :: "unit bridge_result"
    using not_capacity_if_fits[OF that(1)] that(2) room15 by simp
  have pair: "br_usb_hid_interfaces (fst (set_pairable p io)) = br_usb_hid_interfaces (fst io)" "snd (set_pairable p io) = snd io" for p io
    by (simp_all add: set_pairable_def)
  show ?thesis
  proof (cases ev)
    case (EvInputFrame f)
    have i: "input_inv s" using inv by (simp add: bridge_inv_def)
    show ?thesis
      using EvInputFrame frame_capacity[OF i] ok room15 by (cases f) (auto simp: u8)
  next
    case (EvUsbDeviceRemoved i)
    have "fits cap (3 + Suc 0) io (andThen (detach_active cap p io) (\<lambda>_ io1. push_status cap io1))" for p io
      by (rule fits_andThen[OF fits_detach fits_status le_refl])
    then show ?thesis using EvUsbDeviceRemoved room15
      by (auto simp: usb_device_removed_def Let_def fits_def u8)
  next
    case (EvResetInputDevice d)
    then show ?thesis using fits_detach[of cap _ "br_input s"] room15
      by (auto simp: reset_input_device_def Let_def fits_def u8 split: prod.split)
  next
    case (EvUsbHidInterfaceConnected i d sink)
    have "bridge_inv w (fst (upsert_usb_hid_interface i d sink s))" by (rule upsert_usb_inv[OF inv])
    then have "fits cap ?u (fst (upsert_usb_hid_interface i d sink s), []) (apply_active_host_leds w cap (fst (upsert_usb_hid_interface i d sink s), []))"
      by (intro fits_active_leds) (simp add: bridge_inv_def usb_inv_def)
    then show ?thesis using EvUsbHidInterfaceConnected room15
      by (auto simp: fits_def upsert_usb_hid_interface_def Let_def split: option.splits)
  next
    case (EvHostConnected h)
    have "fits cap (0 + Suc 0) (s, []) (handle_event_in_place w cap ev (s, []))"
      unfolding EvHostConnected handle_event_in_place.simps
      by (rule fits_andThen[OF fits_hosts fits_cong[OF fits_status]]) simp_all
    then show ?thesis by (rule fin) simp
  next
    case (EvHostDisconnected h)
    have u': "length (br_usb_hid_interfaces (fst (s', []))) \<le> ?u" if "br_usb_hid_interfaces s' = br_usb_hid_interfaces s" for s'
      using u that by simp
    have t: "fits cap (7 + ?u) (s, []) (transition_output_target cap t None (s', []))"
      "fits cap (7 + ?u) (s, []) (andThen (transition_ble_target cap h' None (s', [])) (\<lambda>_ io2. push_status cap io2))"
      "fits cap (7 + ?u) (s, []) (push_status cap (s', []))" if "br_usb_hid_interfaces s' = br_usb_hid_interfaces s" for s' t h'
    proof -
      have "release_cost None + activation_cost t + ?u + 2 \<le> 7 + ?u" by (simp add: release_cost_def activation_cost_def split: output_target.split)
      from fits_mono[OF fits_transition_output[OF u'[OF that]] this] that
      show "fits cap (7 + ?u) (s, []) (transition_output_target cap t None (s', []))" by (simp add: fits_def)
      have "fits cap (7 + ?u) (s', []) (andThen (transition_ble_target cap h' None (s', [])) (\<lambda>_ io2. push_status cap io2))"
        by (rule fits_andThen[OF fits_transition_ble[OF u'[OF that]] fits_status]) (simp add: release_cost_def)
      then show "fits cap (7 + ?u) (s, []) (andThen (transition_ble_target cap h' None (s', [])) (\<lambda>_ io2. push_status cap io2))"
        using that by (simp add: fits_def)
      show "fits cap (7 + ?u) (s, []) (push_status cap (s', []))"
        using fits_mono[OF fits_status[of cap "(s', [])"], of "7 + ?u"] that by (simp add: fits_def)
    qed
    have "fits cap (7 + ?u) (s, []) (host_disconnected w cap h (s, []))"
      unfolding host_disconnected_def Let_def refresh_io_def fst_conv snd_conv using t
      by (cases w) (auto split: option.split)
    then show ?thesis using EvHostDisconnected fin by simp
  next
    case (EvHostSecurityChanged h e b bond)
    have rej: "fits cap 1 io2 (if b \<and> br_pairable_host (fst io2) = Some h then emit cap (RejectPairing h) (set_pairable None io2) else (io2, Inr ()))" for io2
      using fits_cong[OF fits_emit[of cap "set_pairable None io2"]] by (simp add: pair fits_skip)
    have "fits cap (0 + (Suc 0 + (1 + Suc 0))) (s, []) (host_security_changed w cap h e b bond (s, []))"
      unfolding host_security_changed_def
      by (rule fits_andThen[OF fits_hosts fits_andThen[OF fits_emit_if fits_andThen[OF rej fits_cong[OF fits_status] le_refl] le_refl] le_refl]) simp_all
    then show ?thesis using EvHostSecurityChanged fin by simp
  next
    case (EvCccdChanged h k on)
    have "fits cap (0 + (Suc 0 + Suc 0)) (s, []) (handle_event_in_place w cap ev (s, []))"
      unfolding EvCccdChanged handle_event_in_place.simps
      by (rule fits_andThen[OF fits_hosts fits_andThen[OF fits_emit_if fits_cong[OF fits_status] le_refl] le_refl]) simp_all
    then show ?thesis by (rule fin) simp
  next
    case (EvHostKeyboardLedChanged h leds)
    have led: "fits cap ?u io (if br_active (fst io) = Some h then push_usb_keyboard_leds cap leds io else (io, Inr ()))"
      if "br_usb_hid_interfaces (fst io) = br_usb_hid_interfaces (fst (s, []))" for io using u that by (simp add: fits_leds fits_skip)
    have "fits cap (0 + ?u) (s, []) (host_keyboard_led_changed cap h leds (s, []))"
      unfolding host_keyboard_led_changed_def by (rule fits_andThen[OF fits_hosts led le_refl]) simp
    then show ?thesis using EvHostKeyboardLedChanged fin by simp
  next
    case (EvSetHostName h n)
    have "fits cap (0 + (Suc 0 + Suc 0)) (s, []) (handle_event_in_place w cap ev (s, []))"
      unfolding EvSetHostName handle_event_in_place.simps
      by (rule fits_andThen[OF fits_hosts fits_andThen[OF fits_emit_if fits_status le_refl] le_refl])
    then show ?thesis by (rule fin) simp
  next
    case (EvEnterPairingMode h)
    have rej: "fits cap (Suc 0) (s, []) (case br_pairable_host (fst (s, [])) of
        Some previous \<Rightarrow> emit_if (previous \<noteq> h) cap (RejectPairing previous) (set_pairable (Some h) (s, []))
      | None \<Rightarrow> (set_pairable (Some h) (s, []), Inr ()))"
      using fits_cong[OF fits_emit_if, where io' = "set_pairable (Some h) (s, [])" and io = "(s, [])"]
      by (auto simp: pair fits_def emit_if_eq emit_eq split: option.split)
    have "fits cap (Suc 0 + (Suc 0 + Suc 0)) (s, []) (enter_pairing_mode cap h (s, []))"
      unfolding enter_pairing_mode_def by (rule fits_andThen[OF rej fits_andThen[OF fits_emit fits_status le_refl] le_refl])
    then show ?thesis using EvEnterPairingMode fin by simp
  next
    case (EvPairingModeExpired h)
    have "fits cap (Suc 0 + Suc 0) (set_pairable None (s, [])) (andThen (emit cap (RejectPairing h) (set_pairable None (s, []))) (\<lambda>_ io1. push_status cap io1))"
      by (rule fits_andThen[OF fits_emit fits_status le_refl])
    then show ?thesis using EvPairingModeExpired room15 by (auto simp: expire_pairing_mode_def fits_def pair u8)
  next
    case (EvClearHost h)
    then show ?thesis using fin[OF fits_clear_host[OF u]] by simp
  next
    case (EvSwitchTarget h)
    have "fits cap (7 + ?u) (s, []) (switch_target w cap h (s, []))"
    proof (cases w)
      case True
      then show ?thesis using fits_transition_output[OF u, of cap "Some NrTargetSwitchRelease" "Ble h"]
        by (auto simp: switch_target_def select_output_target_def release_cost_def activation_cost_def)
    next
      case False
      have "fits cap (7 + ?u) (s, []) (andThen (transition_ble_target cap h (Some NrTargetSwitchRelease) (s, [])) (\<lambda>_ io1. push_status cap io1))"
        by (rule fits_andThen[OF fits_transition_ble[OF u] fits_status]) (simp add: release_cost_def)
      then show ?thesis using False by (simp add: switch_target_def)
    qed
    then show ?thesis using EvSwitchTarget fin by simp
  next
    case (EvSelectOutputTarget t)
    have "snd (select_output_target cap t (s, [])) \<noteq> Inl BeActionCapacity"
      using not_capacity_if_fits[OF fits_transition_output[OF u, of cap "Some NrTargetSwitchRelease" t]] room EvSelectOutputTarget
      by (cases t) (simp_all add: select_output_target_def release_cost_def activation_cost_def event_cost_def)
    then show ?thesis using EvSelectOutputTarget by simp
  next
    case (EvWiredAvailabilityChanged a)
    let ?io = "(s\<lparr>br_wired_availability := a\<rparr>, [])"
    have tail: "fits cap (3 + ?u) io2 (andThen (push_neutral_reports cap Wired reason io2) (\<lambda>_ io4. push_usb_keyboard_leds cap (leds io4) io4))"
      if "br_usb_hid_interfaces (fst io2) = br_usb_hid_interfaces (fst (s, []))" for io2 reason leds
      by (rule fits_andThen[OF fits_neutral fits_leds[where n = ?u]]) (use u that in auto)
    have "fits cap (3 + ?u + Suc 0) (s, []) (wired_availability_changed cap a (s, []))"
      unfolding wired_availability_changed_def Let_def
      by (rule fits_andThen[OF _ fits_status le_refl])
        (auto simp: set_output_target_def intro!: fits_skip fits_cong[OF tail])
    then have "snd (wired_availability_changed cap a (s, [])) \<noteq> Inl BeActionCapacity" by (rule fin) simp
    then show ?thesis using EvWiredAvailabilityChanged by simp
  next
    case (EvWiredKeyboardLedChanged leds)
    have "fits cap ?u (s\<lparr>br_wired_keyboard_leds := leds\<rparr>, []) (push_usb_keyboard_leds cap leds (s\<lparr>br_wired_keyboard_leds := leds\<rparr>, []))"
      by (rule fits_leds) (use u in simp)
    then show ?thesis using EvWiredKeyboardLedChanged room15 by (auto simp: wired_keyboard_led_changed_def Let_def fits_def)
  qed
qed

definition RELEASE_REPORTS_MAX :: nat where "RELEASE_REPORTS_MAX = 3"
definition USB_LED_ACTIONS_MAX :: nat where "USB_LED_ACTIONS_MAX = 8"
definition TARGET_CONTROL_ACTIONS_MAX :: nat where "TARGET_CONTROL_ACTIONS_MAX = 4"

definition RUNTIME_BRIDGE_ACTION_CAPACITY :: nat where
  "RUNTIME_BRIDGE_ACTION_CAPACITY = RELEASE_REPORTS_MAX + USB_LED_ACTIONS_MAX + TARGET_CONTROL_ACTIONS_MAX + 1"

lemmas action_capacity_defs = RELEASE_REPORTS_MAX_def USB_LED_ACTIONS_MAX_def TARGET_CONTROL_ACTIONS_MAX_def
  RUNTIME_BRIDGE_ACTION_CAPACITY_def

text \<open>
  C18: The action vector of the runtime is large enough, with one exception. In every reachable
  state an event other than the selection of the wired target never fails for want of room in
  a vector of the runtime's capacity; with room for one action more than that, no event does.
\<close>

theorem action_capacity_suffices:
  assumes "list_all (op_ok w) ops" and "event_ok ev"
    and "ev \<noteq> EvSelectOutputTarget Wired \<and> RUNTIME_BRIDGE_ACTION_CAPACITY \<le> cap \<or> RUNTIME_BRIDGE_ACTION_CAPACITY + 1 \<le> cap"
  shows "snd (handle_event_in_place w cap ev (run (bridge_step w cap) ops (bridge_state_new HOST_SLOT_COUNT), [])) \<noteq> Inl BeActionCapacity"
  by (rule event_capacity[OF bridge_run_inv[OF assms(1)] assms(2)])
    (use assms(3) in \<open>auto simp: event_cost_def action_capacity_defs BRIDGE_USB_HID_INTERFACES_MAX_def\<close>)

theorem action_capacity_suffices_witness:
  "snd (handle_event_in_place False RUNTIME_BRIDGE_ACTION_CAPACITY (EvSwitchTarget 2)
     (run (bridge_step False RUNTIME_BRIDGE_ACTION_CAPACITY) two_hosts (bridge_state_new HOST_SLOT_COUNT), [])) \<noteq> Inl BeActionCapacity"
  by (rule action_capacity_suffices[OF two_hosts_ok]) simp_all

end
