(* ===== verification/HS_BridgeLimits.thy ===== *)
theory HS_BridgeLimits
  imports HS_BridgeActions
begin

text \<open>
  Two limits of the bridge that the general theorems exclude, each shown on the model. The action
  buffer of the runtime is one entry short for one event: selecting the wired target while a fully
  subscribed Bluetooth host is active and eight keyboards show indicator lamps. And the wired
  target is not told when a keyboard with a held key is unplugged, because both detach handlers ask
  only for the active Bluetooth host.
\<close>

section \<open>The action buffer is one entry short for one event\<close>

definition eight_keyboards :: "bridge_op list" where
  "eight_keyboards = map (\<lambda>i. BoEvent (EvUsbHidInterfaceConnected (of_nat i) (of_nat i) True)) [1..<9]"

definition full_host :: "bridge_op list" where
  "full_host = map BoEvent
     [EvHostConnected 1, EvHostSecurityChanged 1 True True None, EvCccdChanged 1 RkKeyboard True,
      EvCccdChanged 1 RkMouse True, EvCccdChanged 1 RkConsumer True, EvSwitchTarget 1,
      EvWiredAvailabilityChanged Ready]"

lemma full_host_ok: "list_all (op_ok True) (eight_keyboards @ full_host)"
  by (simp add: eight_keyboards_def full_host_def list_all_iff)

text \<open>
  In that reachable state the event fails for lack of room, and it fails half way: the selection
  has moved to the wired target, but neither the lamps nor the status were published.
\<close>

lemma wired_selection_overflows:
  "let s = run (bridge_step True RUNTIME_BRIDGE_ACTION_CAPACITY) (eight_keyboards @ full_host) (bridge_state_new HOST_SLOT_COUNT);
       r = handle_event_in_place True RUNTIME_BRIDGE_ACTION_CAPACITY (EvSelectOutputTarget Wired) (s, [])
   in snd r = Inl BeActionCapacity \<and> ot_selected (br_output_target s) = Ble 1 \<and>
      ot_selected (br_output_target (fst (fst r))) = Wired \<and> length (snd (fst r)) = RUNTIME_BRIDGE_ACTION_CAPACITY"
  by code_simp

section \<open>Unplugging a keyboard while the wired target is selected\<close>

lemma wired_selected_no_ble:
  assumes "bridge_inv True s" and "ot_selected (br_output_target s) = Wired"
  shows "br_active s = None"
  using assms by (cases "br_active s") (auto simp: bridge_inv_def target_inv_def)

lemma remove_interface_hosts [simp]: "br_hosts (remove_usb_hid_interface i s) = br_hosts s"
  by (simp add: remove_usb_hid_interface_def split: option.split)

lemma detach_silent: "br_active (fst io) = None \<Longrightarrow> detach_active cap previous io = (io, Inr ())"
  by (simp add: detach_active_def)

text \<open>The keys a removed interface held disappear from the input, but no report says so.\<close>

lemma wired_target_misses_detach:
  assumes "list_all (op_ok True) ops" and "s = run (bridge_step True cap) ops (bridge_state_new HOST_SLOT_COUNT)"
    and "ot_selected (br_output_target s) = Wired" and "ev = EvUsbDeviceRemoved i \<or> ev = EvResetInputDevice d"
  shows "\<forall>a\<in>set (snd (fst (handle_event_in_place True cap ev (s, [])))). \<exists>st. a = StatusChanged st"
proof -
  have none: "br_active s = None"
    using wired_selected_no_ble[OF bridge_run_inv[OF assms(1)]] assms(2,3) by simp
  from assms(4) show ?thesis
  proof
    assume "ev = EvUsbDeviceRemoved i"
    then show ?thesis using none
      by (auto simp: usb_device_removed_def Let_def detach_silent br_active_def push_status_def emit_eq)
  next
    assume "ev = EvResetInputDevice d"
    then show ?thesis using none
      by (auto simp: reset_input_device_def Let_def detach_silent br_active_def split: prod.splits)
  qed
qed

end
