(* ===== verification/HS_Cell.thy ===== *)
theory HS_Cell
  imports HS_Checksum
begin

unbundle bit_operations_syntax

text \<open>
  The wire format between the two chips of the dual-chip build: the fixed-size SPI cell with its
  header and checksum (\<open>interchip/cell.rs\<close>) and the four-byte aligned records packed
  into a cell's payload (\<open>interchip/record.rs\<close>). Both formats are canonical: encoding
  and decoding are inverse to each other on what they accept, and a cell with one damaged byte is
  rejected.
\<close>

section \<open>Cells\<close>

definition SPI_CELL_LEN :: nat where "SPI_CELL_LEN = 128"
definition SPI_CELL_HEADER_LEN :: nat where "SPI_CELL_HEADER_LEN = 16"
definition SPI_CELL_PAYLOAD_LEN :: nat where "SPI_CELL_PAYLOAD_LEN = 110"
definition SPI_CELL_MAGIC :: u16 where "SPI_CELL_MAGIC = 0x4853"
definition SPI_PROTOCOL_VERSION :: u8 where "SPI_PROTOCOL_VERSION = 1"

lemmas spi_sizes = SPI_CELL_LEN_def SPI_CELL_HEADER_LEN_def SPI_CELL_PAYLOAD_LEN_def

record spi_cell_header =
  ch_magic :: u16
  ch_version :: u8
  ch_flags :: u8
  ch_session_id :: u32
  ch_tx_sequence :: u16
  ch_cumulative_ack :: u16
  ch_payload_len :: u16
  ch_record_count :: u8
  ch_receive_window :: u8

definition spi_cell_header_new :: "u32 \<Rightarrow> spi_cell_header" where
  "spi_cell_header_new session_id =
     \<lparr>ch_magic = SPI_CELL_MAGIC, ch_version = SPI_PROTOCOL_VERSION, ch_flags = 0, ch_session_id = session_id,
      ch_tx_sequence = 0, ch_cumulative_ack = 0, ch_payload_len = 0, ch_record_count = 0, ch_receive_window = 4\<rparr>"

record spi_cell =
  sc_header :: spi_cell_header
  sc_payload :: bytes

definition spi_cell_empty :: "u32 \<Rightarrow> spi_cell" where
  "spi_cell_empty session_id =
     \<lparr>sc_header = spi_cell_header_new session_id, sc_payload = replicate SPI_CELL_PAYLOAD_LEN 0\<rparr>"

datatype spi_cell_error =
    CeInvalidMagic | CeUnsupportedVersion | CePayloadTooLong | CeSequenceZeroHasPayload
  | CeNonZeroTrailingBytes | CeCrcMismatch

definition cell_header_bytes :: "spi_cell_header \<Rightarrow> bytes" where
  "cell_header_bytes h =
     to_le 2 (ch_magic h) @ [ch_version h] @ [ch_flags h] @ to_le 4 (ch_session_id h) @ to_le 2 (ch_tx_sequence h) @
     to_le 2 (ch_cumulative_ack h) @ to_le 2 (ch_payload_len h) @ [ch_record_count h] @ [ch_receive_window h]"

definition cell_encode :: "spi_cell \<Rightarrow> spi_cell_error + bytes" where
  "cell_encode c =
     (let h = sc_header c; payload_len = unat (ch_payload_len h) in
      if SPI_CELL_PAYLOAD_LEN < payload_len then Inl CePayloadTooLong
      else if ch_tx_sequence h = 0 \<and> (payload_len \<noteq> 0 \<or> ch_record_count h \<noteq> 0) then Inl CeSequenceZeroHasPayload
      else
        let body = cell_header_bytes h @ take payload_len (sc_payload c) @ replicate (SPI_CELL_PAYLOAD_LEN - payload_len) 0
        in Inr (body @ to_le 2 (crc16_ccitt_false body)))"

definition cell_header_parse :: "bytes \<Rightarrow> spi_cell_header" where
  "cell_header_parse bs =
     \<lparr>ch_magic = from_le (subslice 0 2 bs), ch_version = bs ! 2, ch_flags = bs ! 3,
      ch_session_id = from_le (subslice 4 8 bs), ch_tx_sequence = from_le (subslice 8 10 bs),
      ch_cumulative_ack = from_le (subslice 10 12 bs), ch_payload_len = from_le (subslice 12 14 bs),
      ch_record_count = bs ! 14, ch_receive_window = bs ! 15\<rparr>"

definition cell_decode :: "bytes \<Rightarrow> spi_cell_error + spi_cell" where
  "cell_decode bs =
     (if crc16_ccitt_false (take (SPI_CELL_LEN - 2) bs) \<noteq> from_le (subslice (SPI_CELL_LEN - 2) SPI_CELL_LEN bs)
      then Inl CeCrcMismatch
      else
        let h = cell_header_parse bs; payload_len = unat (ch_payload_len h) in
        if ch_magic h \<noteq> SPI_CELL_MAGIC then Inl CeInvalidMagic
        else if ch_version h \<noteq> SPI_PROTOCOL_VERSION then Inl CeUnsupportedVersion
        else if SPI_CELL_PAYLOAD_LEN < payload_len then Inl CePayloadTooLong
        else if ch_tx_sequence h = 0 \<and> (payload_len \<noteq> 0 \<or> ch_record_count h \<noteq> 0) then Inl CeSequenceZeroHasPayload
        else if list_ex (\<lambda>b. b \<noteq> 0) (subslice (SPI_CELL_HEADER_LEN + payload_len) (SPI_CELL_LEN - 2) bs)
        then Inl CeNonZeroTrailingBytes
        else Inr \<lparr>sc_header = h,
                  sc_payload = subslice SPI_CELL_HEADER_LEN (SPI_CELL_HEADER_LEN + payload_len) bs @
                    replicate (SPI_CELL_PAYLOAD_LEN - payload_len) 0\<rparr>)"

definition cell_payload :: "spi_cell \<Rightarrow> bytes" where
  "cell_payload c = take (unat (ch_payload_len (sc_header c))) (sc_payload c)"

subsection \<open>Encoding and decoding are inverse\<close>

definition cell_ok :: "spi_cell \<Rightarrow> bool" where
  "cell_ok c =
     (let h = sc_header c; n = unat (ch_payload_len h) in
      ch_magic h = SPI_CELL_MAGIC \<and> ch_version h = SPI_PROTOCOL_VERSION \<and> n \<le> SPI_CELL_PAYLOAD_LEN \<and>
      (ch_tx_sequence h = 0 \<longrightarrow> n = 0 \<and> ch_record_count h = 0) \<and>
      length (sc_payload c) = SPI_CELL_PAYLOAD_LEN \<and> list_all (\<lambda>b. b = 0) (drop n (sc_payload c)))"

lemma length_cell_header [simp]: "length (cell_header_bytes h) = SPI_CELL_HEADER_LEN"
  by (simp add: cell_header_bytes_def spi_sizes)

lemma from_le_2 [simp]: "from_le (to_le 2 w) = (w :: u16)"
  by (simp add: from_le_to_le)

lemma from_le_4 [simp]: "from_le (to_le 4 w) = (w :: u32)"
  by (simp add: from_le_to_le)

lemma header_parse_bytes: "cell_header_parse (cell_header_bytes h @ rest) = h"
proof -
  obtain m v f s t a p r w where h: "h = \<lparr>ch_magic = m, ch_version = v, ch_flags = f, ch_session_id = s, ch_tx_sequence = t,
      ch_cumulative_ack = a, ch_payload_len = p, ch_record_count = r, ch_receive_window = w\<rparr>"
    by (cases h) auto
  obtain m0 m1 where m: "to_le 2 m = [m0, m1]" by (simp add: eval_nat_numeral)
  obtain s0 s1 s2 s3 where s: "to_le 4 s = [s0, s1, s2, s3]" by (simp add: eval_nat_numeral)
  obtain t0 t1 where t: "to_le 2 t = [t0, t1]" by (simp add: eval_nat_numeral)
  obtain a0 a1 where a: "to_le 2 a = [a0, a1]" by (simp add: eval_nat_numeral)
  obtain p0 p1 where p: "to_le 2 p = [p0, p1]" by (simp add: eval_nat_numeral)
  have "cell_header_bytes h = [m0, m1, v, f, s0, s1, s2, s3, t0, t1, a0, a1, p0, p1, r, w]"
    by (simp add: h cell_header_bytes_def m s t a p)
  then show ?thesis
    using from_le_2[of m] from_le_4[of s] from_le_2[of t] from_le_2[of a] from_le_2[of p]
    by (simp add: h m s t a p cell_header_parse_def subslice_def del: from_le_2 from_le_4 from_le.simps)
qed

text \<open>The bytes of a cell are the header, the used payload, zeros and the checksum of these.\<close>

definition cell_image :: "spi_cell_header \<Rightarrow> bytes \<Rightarrow> bytes" where
  "cell_image h p = cell_header_bytes h @ p @ replicate (SPI_CELL_PAYLOAD_LEN - length p) 0"

lemma zeros_eq: "list_all (\<lambda>b. b = 0) zs \<Longrightarrow> length zs = n \<Longrightarrow> zs = replicate n (0 :: u8)"
  by (metis (mono_tags, lifting) list_all_iff replicate_eqI)

lemma cell_encode_ok:
  assumes "cell_ok c"
  shows "cell_encode c = Inr (cell_image (sc_header c) (cell_payload c) @ to_le 2 (crc16_ccitt_false (cell_image (sc_header c) (cell_payload c))))"
    and "sc_payload c = cell_payload c @ replicate (SPI_CELL_PAYLOAD_LEN - length (cell_payload c)) 0"
    and "length (cell_payload c) = unat (ch_payload_len (sc_header c))"
proof -
  let ?n = "unat (ch_payload_len (sc_header c))"
  show len: "length (cell_payload c) = ?n" using assms by (simp add: cell_ok_def cell_payload_def Let_def)
  show "cell_encode c = Inr (cell_image (sc_header c) (cell_payload c) @ to_le 2 (crc16_ccitt_false (cell_image (sc_header c) (cell_payload c))))"
    using assms len by (auto simp: cell_ok_def cell_encode_def Let_def cell_image_def cell_payload_def)
  have "drop ?n (sc_payload c) = replicate (SPI_CELL_PAYLOAD_LEN - ?n) 0"
    using assms by (intro zeros_eq) (auto simp: cell_ok_def Let_def)
  then show "sc_payload c = cell_payload c @ replicate (SPI_CELL_PAYLOAD_LEN - length (cell_payload c)) 0"
    unfolding len by (metis cell_payload_def append_take_drop_id)
qed

lemma cell_decode_image:
  assumes "length p = unat (ch_payload_len h)" and "length p \<le> SPI_CELL_PAYLOAD_LEN"
    and "ch_magic h = SPI_CELL_MAGIC" and "ch_version h = SPI_PROTOCOL_VERSION"
    and "ch_tx_sequence h = 0 \<longrightarrow> p = [] \<and> ch_record_count h = 0"
  shows "cell_decode (cell_image h p @ to_le 2 (crc16_ccitt_false (cell_image h p))) =
    Inr \<lparr>sc_header = h, sc_payload = p @ replicate (SPI_CELL_PAYLOAD_LEN - length p) 0\<rparr>"
proof -
  let ?bs = "cell_image h p @ to_le 2 (crc16_ccitt_false (cell_image h p))"
  have len: "length (cell_image h p) = SPI_CELL_LEN - 2" using assms(2) by (simp add: cell_image_def spi_sizes)
  have parse: "cell_header_parse ?bs = h" unfolding cell_image_def append_assoc by (rule header_parse_bytes)
  have "SPI_CELL_LEN = length (cell_image h p) + 2" using len by (simp add: spi_sizes)
  then have crc: "take (SPI_CELL_LEN - 2) ?bs = cell_image h p" "subslice (SPI_CELL_LEN - 2) SPI_CELL_LEN ?bs = to_le 2 (crc16_ccitt_false (cell_image h p))"
    using len by (simp_all add: subslice_def)
  have body: "subslice SPI_CELL_HEADER_LEN (SPI_CELL_HEADER_LEN + length p) ?bs = p"
    by (simp add: cell_image_def subslice_def)
  have "subslice (SPI_CELL_HEADER_LEN + length p) (SPI_CELL_LEN - 2) ?bs =
      take (SPI_CELL_LEN - 2 - (SPI_CELL_HEADER_LEN + length p)) (replicate (SPI_CELL_PAYLOAD_LEN - length p) 0)"
    using assms(2) by (simp add: cell_image_def subslice_def spi_sizes)
  then have tail: "\<not> list_ex (\<lambda>b. b \<noteq> 0) (subslice (SPI_CELL_HEADER_LEN + length p) (SPI_CELL_LEN - 2) ?bs)"
    by (auto simp: list_ex_iff)
  show ?thesis
    unfolding cell_decode_def Let_def crc parse assms(1)[symmetric] using assms(2-) body tail by auto
qed

lemma le_of_slice:
  "8 * (b - a) \<le> LENGTH('a) \<Longrightarrow> b \<le> length bs \<Longrightarrow> a \<le> b \<Longrightarrow> to_le (b - a) (from_le (subslice a b bs) :: 'a::len word) = subslice a b bs"
  using to_le_from_le[of "subslice a b bs", where 'a = 'a] by (simp add: length_subslice)

lemma subslice_split: "a \<le> b \<Longrightarrow> b \<le> c \<Longrightarrow> subslice a b xs @ subslice b c xs = subslice a c xs"
proof -
  assume "a \<le> b" "b \<le> c"
  then have "take (c - a) (drop a xs) = take (b - a) (drop a xs) @ take (c - b) (drop (b - a) (drop a xs))"
    by (metis Nat.diff_add_assoc le_add_diff_inverse2 take_add diff_add_assoc2 Nat.add_diff_assoc le_add_diff_inverse add.commute)
  then show ?thesis using \<open>a \<le> b\<close> by (simp add: subslice_def)
qed

lemma subslice_one: "i < length xs \<Longrightarrow> [xs ! i] = subslice i (Suc i) xs"
  by (simp add: subslice_def take_Suc_conv_app_nth Cons_nth_drop_Suc[symmetric])

lemma header_bytes_parse:
  assumes "SPI_CELL_HEADER_LEN \<le> length bs"
  shows "cell_header_bytes (cell_header_parse bs) = subslice 0 SPI_CELL_HEADER_LEN bs"
proof -
  have len: "16 \<le> length bs" using assms by (simp add: spi_sizes)
  have two: "to_le 2 (from_le (subslice a (a + 2) bs) :: u16) = subslice a (a + 2) bs" if "a + 2 \<le> 16" for a
    using le_of_slice[of "a + 2" a bs, where 'a = 16] len that by simp
  have four: "to_le 4 (from_le (subslice a (a + 4) bs) :: u32) = subslice a (a + 4) bs" if "a + 4 \<le> 16" for a
    using le_of_slice[of "a + 4" a bs, where 'a = 32] len that by simp
  have "cell_header_bytes (cell_header_parse bs) =
      subslice 0 2 bs @ subslice 2 3 bs @ subslice 3 4 bs @ subslice 4 8 bs @ subslice 8 10 bs @
      subslice 10 12 bs @ subslice 12 14 bs @ subslice 14 15 bs @ subslice 15 16 bs"
    using two[of 0, unfolded add_0] four[of 4] two[of 8] two[of 10] two[of 12] len
      subslice_one[of 2 bs] subslice_one[of 3 bs] subslice_one[of 14 bs] subslice_one[of 15 bs]
    by (simp add: cell_header_bytes_def cell_header_parse_def)
  also have "\<dots> = subslice 0 16 bs" by (simp add: subslice_split)
  finally show ?thesis by (simp add: spi_sizes)
qed

lemma cell_decode_Inr:
  assumes dec: "cell_decode bs = Inr c" and len: "length bs = SPI_CELL_LEN"
  shows "cell_ok c" and "cell_encode c = Inr bs"
proof -
  let ?h = "cell_header_parse bs" let ?n = "unat (ch_payload_len ?h)"
  let ?p = "subslice SPI_CELL_HEADER_LEN (SPI_CELL_HEADER_LEN + ?n) bs"
  have n: "?n \<le> SPI_CELL_PAYLOAD_LEN" and h: "ch_magic ?h = SPI_CELL_MAGIC" "ch_version ?h = SPI_PROTOCOL_VERSION"
    and z: "ch_tx_sequence ?h = 0 \<Longrightarrow> ?n = 0 \<and> ch_record_count ?h = 0"
    and crc: "crc16_ccitt_false (take (SPI_CELL_LEN - 2) bs) = from_le (subslice (SPI_CELL_LEN - 2) SPI_CELL_LEN bs)"
    and tail: "\<not> list_ex (\<lambda>b. b \<noteq> 0) (subslice (SPI_CELL_HEADER_LEN + ?n) (SPI_CELL_LEN - 2) bs)"
    and c: "c = \<lparr>sc_header = ?h, sc_payload = ?p @ replicate (SPI_CELL_PAYLOAD_LEN - ?n) 0\<rparr>"
    using dec by (auto simp: cell_decode_def Let_def split: if_splits)
  have plen: "length ?p = ?n" using n len by (simp add: length_subslice spi_sizes)
  show ok: "cell_ok c" using n h z plen by (auto simp: c cell_ok_def Let_def list_all_iff)
  have payload: "cell_payload c = ?p" using plen by (simp add: c cell_payload_def)
  have "subslice (SPI_CELL_HEADER_LEN + ?n) (SPI_CELL_LEN - 2) bs = replicate (SPI_CELL_PAYLOAD_LEN - ?n) 0"
    using tail n len by (intro zeros_eq) (auto simp: list_ex_iff list_all_iff length_subslice spi_sizes)
  then have image: "cell_image ?h ?p = subslice 0 SPI_CELL_HEADER_LEN bs @ ?p @ subslice (SPI_CELL_HEADER_LEN + ?n) (SPI_CELL_LEN - 2) bs"
    using len plen by (simp add: cell_image_def header_bytes_parse spi_sizes)
  also have "\<dots> = subslice 0 (SPI_CELL_LEN - 2) bs" using n by (simp add: subslice_split spi_sizes)
  also have "\<dots> = take (SPI_CELL_LEN - 2) bs" by (simp add: subslice_def)
  finally have image: "cell_image ?h ?p = take (SPI_CELL_LEN - 2) bs" .
  have "to_le 2 (crc16_ccitt_false (take (SPI_CELL_LEN - 2) bs)) = subslice (SPI_CELL_LEN - 2) SPI_CELL_LEN bs"
    unfolding crc using le_of_slice[of SPI_CELL_LEN "SPI_CELL_LEN - 2" bs, where 'a = 16] len by (simp add: spi_sizes)
  also have "\<dots> = drop (SPI_CELL_LEN - 2) bs" using len by (simp add: subslice_def)
  finally show "cell_encode c = Inr bs"
    using cell_encode_ok(1)[OF ok] payload image by (simp add: c)
qed

lemma cell_roundtrip:
  assumes "cell_ok c"
  shows "\<exists>bs. cell_encode c = Inr bs \<and> length bs = SPI_CELL_LEN \<and> cell_decode bs = Inr c"
proof -
  let ?h = "sc_header c" and ?p = "cell_payload c"
  note enc = cell_encode_ok[OF assms]
  have small: "length ?p \<le> SPI_CELL_PAYLOAD_LEN" using assms enc(3) by (simp add: cell_ok_def Let_def)
  have "cell_decode (cell_image ?h ?p @ to_le 2 (crc16_ccitt_false (cell_image ?h ?p))) =
      Inr \<lparr>sc_header = ?h, sc_payload = ?p @ replicate (SPI_CELL_PAYLOAD_LEN - length ?p) 0\<rparr>"
    using assms enc(3) small by (intro cell_decode_image) (auto simp: cell_ok_def Let_def)
  also have "\<dots> = Inr c" using enc(2) by simp
  finally show ?thesis using enc(1) small by (auto simp: cell_image_def spi_sizes)
qed

lemma cell_damage:
  assumes "length bs = SPI_CELL_LEN" and "cell_decode bs = Inr c" and "i < length bs" and "b \<noteq> bs ! i"
  shows "cell_decode (bs[i := b]) = Inl CeCrcMismatch"
proof -
  let ?n = "SPI_CELL_LEN - 2"
  have crc: "crc16_ccitt_false (take ?n bs) = from_le (subslice ?n SPI_CELL_LEN bs)"
    using assms(2) by (auto simp: cell_decode_def split: if_splits)
  have field: "to_le 2 (from_le (subslice ?n SPI_CELL_LEN xs) :: u16) = subslice ?n SPI_CELL_LEN xs" if "length xs = SPI_CELL_LEN" for xs
    using le_of_slice[of SPI_CELL_LEN ?n xs, where 'a = 16] that by (simp add: spi_sizes)
  have "crc16_ccitt_false (take ?n (bs[i := b])) \<noteq> from_le (subslice ?n SPI_CELL_LEN (bs[i := b]))"
  proof (cases "i < ?n")
    case True
    then have "subslice ?n SPI_CELL_LEN (bs[i := b]) = subslice ?n SPI_CELL_LEN bs" by (simp add: subslice_update_other)
    moreover have "crc16_ccitt_false (take ?n (bs[i := b])) \<noteq> crc16_ccitt_false (take ?n bs)"
      using crc16_single_byte[of i "take ?n bs" b] True assms by (simp add: take_update_swap)
    ultimately show ?thesis using crc by simp
  next
    case False
    then have "subslice ?n SPI_CELL_LEN (bs[i := b]) \<noteq> subslice ?n SPI_CELL_LEN bs"
      using assms by (intro subslice_update_inside) auto
    then have "(from_le (subslice ?n SPI_CELL_LEN (bs[i := b])) :: u16) \<noteq> from_le (subslice ?n SPI_CELL_LEN bs)"
      using field[of bs] field[of "bs[i := b]"] assms(1) by (metis length_list_update)
    moreover have "take ?n (bs[i := b]) = take ?n bs" using False by simp
    ultimately show ?thesis using crc by simp
  qed
  then show ?thesis by (simp add: cell_decode_def)
qed

section \<open>Records\<close>

definition RECORD_HEADER_LEN :: nat where "RECORD_HEADER_LEN = 4"

record wire_record =
  wr_type :: u8
  wr_flags :: u8
  wr_data :: bytes

datatype record_codec_error =
    ReTooManyRecords | ReRecordTooLong | RePayloadCapacity | ReMalformedRecord | ReNonZeroPadding | ReRecordCountMismatch

text \<open>Lengths are \<open>usize\<close>, thirty-two bits on the target.\<close>

definition align4 :: "nat \<Rightarrow> nat option" where
  "align4 value = (if value + 3 < 2 ^ 32 then Some (value + 3 - (value + 3) mod 4) else None)"

definition write_at :: "nat \<Rightarrow> 'a list \<Rightarrow> 'a list \<Rightarrow> 'a list" where
  "write_at offset xs out = take offset out @ xs @ drop (offset + length xs) out"

fun encode_records_loop :: "wire_record list \<Rightarrow> nat \<Rightarrow> bytes \<Rightarrow> (bytes, record_codec_error, nat) outcome" where
  "encode_records_loop [] offset out = (out, Inr offset)"
| "encode_records_loop (r # rs) offset out =
     (if 0xffff < length (wr_data r) then (out, Inl ReRecordTooLong)
      else case align4 (RECORD_HEADER_LEN + length (wr_data r)) of
        None \<Rightarrow> (out, Inl ReRecordTooLong)
      | Some padded_len \<Rightarrow>
          if length out < offset + padded_len then (out, Inl RePayloadCapacity)
          else encode_records_loop rs (offset + padded_len)
                 (write_at offset ([wr_type r, wr_flags r] @ to_le 2 (of_nat (length (wr_data r)) :: u16) @ wr_data r) out))"

definition encode_records :: "wire_record list \<Rightarrow> bytes \<Rightarrow> (bytes, record_codec_error, u16 \<times> u8) outcome" where
  "encode_records rs out =
     (if 255 < length rs then (out, Inl ReTooManyRecords)
      else andThen (encode_records_loop rs 0 (replicate (length out) 0))
             (\<lambda>offset out'. (out', Inr (of_nat offset, of_nat (length rs)))))"

record record_iter =
  ri_bytes :: bytes
  ri_offset :: nat
  ri_remaining :: u8
  ri_failed :: bool

definition record_iter_new :: "bytes \<Rightarrow> u8 \<Rightarrow> record_iter" where
  "record_iter_new bs count = \<lparr>ri_bytes = bs, ri_offset = 0, ri_remaining = count, ri_failed = False\<rparr>"

definition record_iter_finish :: "record_iter \<Rightarrow> record_codec_error + unit" where
  "record_iter_finish it =
     (if ri_failed it then Inl ReMalformedRecord
      else if ri_remaining it \<noteq> 0 \<or> ri_offset it \<noteq> length (ri_bytes it) then Inl ReRecordCountMismatch
      else Inr ())"

definition record_iter_next :: "record_iter \<Rightarrow> record_iter \<times> (record_codec_error + wire_record) option" where
  "record_iter_next it =
     (if ri_failed it \<or> ri_remaining it = 0 then (it, None)
      else if length (ri_bytes it) < ri_offset it + RECORD_HEADER_LEN
      then (it\<lparr>ri_failed := True\<rparr>, Some (Inl ReMalformedRecord))
      else
        let bs = ri_bytes it; start = ri_offset it;
            data_len = unat (from_le (subslice (start + 2) (start + 4) bs) :: u16);
            raw_len = RECORD_HEADER_LEN + data_len
        in case align4 raw_len of
             None \<Rightarrow> (it\<lparr>ri_failed := True\<rparr>, Some (Inl ReMalformedRecord))
           | Some padded_len \<Rightarrow>
               if length bs < start + padded_len then (it\<lparr>ri_failed := True\<rparr>, Some (Inl ReMalformedRecord))
               else if list_ex (\<lambda>b. b \<noteq> 0) (subslice (start + raw_len) (start + padded_len) bs)
               then (it\<lparr>ri_failed := True\<rparr>, Some (Inl ReNonZeroPadding))
               else (it\<lparr>ri_offset := start + padded_len, ri_remaining := ri_remaining it - 1\<rparr>,
                     Some (Inr \<lparr>wr_type = bs ! start, wr_flags = bs ! (start + 1),
                                wr_data = subslice (start + RECORD_HEADER_LEN) (start + raw_len) bs\<rparr>)))"

text \<open>
  Draining the iterator. It yields at most as many items as there are records left, so the count
  bounds the recursion.
\<close>

definition iter_fuel :: "record_iter \<Rightarrow> nat" where
  "iter_fuel it = (if ri_failed it then 0 else unat (ri_remaining it))"

lemma iter_fuel_next: "record_iter_next it = (it', Some r) \<Longrightarrow> iter_fuel it' < iter_fuel it"
proof -
  assume step: "record_iter_next it = (it', Some r)"
  then have run: "\<not> ri_failed it" "ri_remaining it \<noteq> 0" by (auto simp: record_iter_next_def split: if_splits)
  then have "0 < unat (ri_remaining it)" "unat (ri_remaining it - 1) < unat (ri_remaining it)"
    by (simp_all add: unat_gt_0 unat_minus_one)
  moreover have "ri_failed it' \<or> ri_remaining it' = ri_remaining it - 1"
    using step run by (auto simp: record_iter_next_def Let_def split: if_splits option.splits)
  ultimately show ?thesis using run by (auto simp: iter_fuel_def)
qed

function iter_collect :: "record_iter \<Rightarrow> (record_codec_error + wire_record) list \<times> record_iter" where
  "iter_collect it =
     (case record_iter_next it of
        (it', None) \<Rightarrow> ([], it')
      | (it', Some r) \<Rightarrow> (let (rs, it'') = iter_collect it' in (r # rs, it'')))"
  by pat_completeness auto
termination by (relation "measure iter_fuel") (auto dest: iter_fuel_next[OF sym])

declare iter_collect.simps [simp del]

subsection \<open>Records survive the trip\<close>

definition padded :: "nat \<Rightarrow> nat" where
  "padded n = RECORD_HEADER_LEN + n + 3 - (RECORD_HEADER_LEN + n + 3) mod 4"

definition record_image :: "wire_record \<Rightarrow> bytes" where
  "record_image r = [wr_type r, wr_flags r] @ to_le 2 (of_nat (length (wr_data r)) :: u16) @ wr_data r @
     replicate (padded (length (wr_data r)) - (RECORD_HEADER_LEN + length (wr_data r))) 0"

definition records_len :: "wire_record list \<Rightarrow> nat" where
  "records_len rs = (\<Sum>r\<leftarrow>rs. padded (length (wr_data r)))"

lemma padded_ge: "RECORD_HEADER_LEN + n \<le> padded n"
proof -
  have "(RECORD_HEADER_LEN + n + 3) mod 4 \<le> 3" using mod_less_divisor[of 4 "RECORD_HEADER_LEN + n + 3"] by linarith
  then show ?thesis by (simp add: padded_def)
qed

lemma align4_record: "n \<le> 0xffff \<Longrightarrow> align4 (RECORD_HEADER_LEN + n) = Some (padded n)"
  by (simp add: align4_def padded_def RECORD_HEADER_LEN_def)

lemma length_record_image [simp]: "length (record_image r) = padded (length (wr_data r))"
  using padded_ge[of "length (wr_data r)"] by (simp add: record_image_def RECORD_HEADER_LEN_def)

lemma length_images [simp]: "length (concat (map record_image rs)) = records_len rs"
  by (induction rs) (simp_all add: records_len_def)

lemma records_len_Cons: "records_len (r # rs) = padded (length (wr_data r)) + records_len rs"
  by (simp add: records_len_def)

lemma write_record:
  assumes "padded (length (wr_data r)) \<le> m"
  shows "write_at (length pre) ([wr_type r, wr_flags r] @ to_le 2 (of_nat (length (wr_data r)) :: u16) @ wr_data r) (pre @ replicate m 0) =
    (pre @ record_image r) @ replicate (m - padded (length (wr_data r))) 0"
proof -
  let ?n = "RECORD_HEADER_LEN + length (wr_data r)" and ?p = "padded (length (wr_data r))"
  have "replicate (m - ?n) (0 :: u8) = replicate (?p - ?n) 0 @ replicate (m - ?p) 0"
    using assms padded_ge[of "length (wr_data r)"] by (simp add: replicate_add[symmetric])
  then show ?thesis by (simp add: write_at_def record_image_def RECORD_HEADER_LEN_def)
qed

lemma encode_loop_cases:
  "(case encode_records_loop rs (length pre) (pre @ replicate m 0) of
      (out, Inr off) \<Rightarrow> records_len rs \<le> m \<and> off = length pre + records_len rs \<and>
        out = pre @ concat (map record_image rs) @ replicate (m - records_len rs) 0 \<and>
        list_all (\<lambda>r. length (wr_data r) \<le> 0xffff) rs
    | (out, Inl e) \<Rightarrow> m < records_len rs \<or> \<not> list_all (\<lambda>r. length (wr_data r) \<le> 0xffff) rs)"
proof (induction rs arbitrary: pre m)
  case Nil
  then show ?case by (simp add: records_len_def)
next
  case (Cons r rs)
  let ?n = "length (wr_data r)"
  show ?case
  proof (cases "0xffff < ?n \<or> m < padded ?n")
    case True
    then show ?thesis by (auto simp: align4_record records_len_Cons)
  next
    case False
    then have fits: "align4 (RECORD_HEADER_LEN + ?n) = Some (padded ?n)" "padded ?n \<le> m" by (auto simp: align4_record)
    have step: "encode_records_loop (r # rs) (length pre) (pre @ replicate m 0) =
        encode_records_loop rs (length (pre @ record_image r)) ((pre @ record_image r) @ replicate (m - padded ?n) 0)"
      using False fits write_record[OF fits(2), of pre] by simp
    show ?thesis unfolding step
      using Cons.IH[where pre = "pre @ record_image r" and m = "m - padded ?n"] False fits(2)
      by (auto simp: records_len_Cons split: prod.splits sum.splits)
  qed
qed

lemma encode_records_cases:
  assumes "length out = SPI_CELL_PAYLOAD_LEN"
  shows "(\<exists>out' len count. encode_records rs out = (out', Inr (len, count))) \<longleftrightarrow> length rs \<le> 255 \<and> records_len rs \<le> SPI_CELL_PAYLOAD_LEN"
    and "encode_records rs out = (out', Inr (len, count)) \<Longrightarrow>
      length rs \<le> 255 \<and> count = of_nat (length rs) \<and> unat len = records_len rs \<and> records_len rs \<le> SPI_CELL_PAYLOAD_LEN \<and>
      out' = concat (map record_image rs) @ replicate (SPI_CELL_PAYLOAD_LEN - records_len rs) 0 \<and>
      list_all (\<lambda>r. length (wr_data r) \<le> 0xffff) rs"
proof -
  have small: "list_all (\<lambda>r. length (wr_data r) \<le> 0xffff) rs" if "records_len rs \<le> SPI_CELL_PAYLOAD_LEN"
    using that
  proof (induction rs)
    case (Cons r rs)
    then show ?case using padded_ge[of "length (wr_data r)"] by (simp add: records_len_Cons spi_sizes)
  qed simp
  note loop = encode_loop_cases[where rs = rs and pre = "[]" and m = SPI_CELL_PAYLOAD_LEN, simplified]
  show "(\<exists>out' len count. encode_records rs out = (out', Inr (len, count))) \<longleftrightarrow> length rs \<le> 255 \<and> records_len rs \<le> SPI_CELL_PAYLOAD_LEN"
    using loop small assms
    by (auto simp: encode_records_def andThen_def not_less split: prod.splits sum.splits if_splits)
  have "unat (of_nat (records_len rs) :: u16) = records_len rs" if "records_len rs \<le> SPI_CELL_PAYLOAD_LEN"
    using that by (simp add: spi_sizes unat_of_nat_small)
  then show "encode_records rs out = (out', Inr (len, count)) \<Longrightarrow>
      length rs \<le> 255 \<and> count = of_nat (length rs) \<and> unat len = records_len rs \<and> records_len rs \<le> SPI_CELL_PAYLOAD_LEN \<and>
      out' = concat (map record_image rs) @ replicate (SPI_CELL_PAYLOAD_LEN - records_len rs) 0 \<and>
      list_all (\<lambda>r. length (wr_data r) \<le> 0xffff) rs"
    using loop assms
    by (auto simp: encode_records_def andThen_def split: prod.splits sum.splits if_splits)
qed

lemma next_record:
  assumes "length (wr_data r) \<le> 0xffff" and "rem \<noteq> 0"
  shows "record_iter_next \<lparr>ri_bytes = pre @ record_image r @ post, ri_offset = length pre, ri_remaining = rem, ri_failed = False\<rparr> =
    (\<lparr>ri_bytes = pre @ record_image r @ post, ri_offset = length pre + padded (length (wr_data r)), ri_remaining = rem - 1, ri_failed = False\<rparr>,
     Some (Inr r))"
proof -
  let ?n = "length (wr_data r)" let ?bs = "pre @ record_image r @ post"
  have ge: "4 + ?n \<le> padded ?n" using padded_ge[of ?n] by (simp add: RECORD_HEADER_LEN_def)
  have len: "subslice (length pre + 2) (length pre + 4) ?bs = to_le 2 (of_nat ?n :: u16)"
    by (simp add: subslice_def record_image_def)
  have nat: "unat (of_nat ?n :: u16) = ?n" using assms(1) by (simp add: unat_of_nat_small)
  have data: "subslice (length pre + RECORD_HEADER_LEN) (length pre + (RECORD_HEADER_LEN + ?n)) ?bs = wr_data r"
    by (simp add: subslice_def record_image_def RECORD_HEADER_LEN_def)
  have pad: "\<not> list_ex (\<lambda>b. b \<noteq> 0) (subslice (length pre + (RECORD_HEADER_LEN + ?n)) (length pre + padded ?n) ?bs)"
  proof -
    obtain hd where "record_image r = hd @ replicate (padded ?n - (4 + ?n)) 0" "length hd = 4 + ?n"
      by (simp add: record_image_def RECORD_HEADER_LEN_def)
    then show ?thesis using ge by (simp add: subslice_def RECORD_HEADER_LEN_def list_ex_iff)
  qed
  have "?bs ! length pre = wr_type r" "?bs ! (length pre + 1) = wr_flags r" by (simp_all add: record_image_def nth_append)
  then show ?thesis
    unfolding record_iter_next_def Let_def record_iter.simps len from_le_2 nat align4_record[OF assms(1)] option.case data
    using assms(2) ge pad by (simp add: RECORD_HEADER_LEN_def)
qed

lemma collect_records:
  assumes "list_all (\<lambda>r. length (wr_data r) \<le> 0xffff) rs" and "length rs \<le> 255"
  shows "iter_collect \<lparr>ri_bytes = pre @ concat (map record_image rs) @ post, ri_offset = length pre, ri_remaining = of_nat (length rs), ri_failed = False\<rparr> =
    (map Inr rs, \<lparr>ri_bytes = pre @ concat (map record_image rs) @ post, ri_offset = length pre + records_len rs, ri_remaining = 0, ri_failed = False\<rparr>)"
  using assms
proof (induction rs arbitrary: pre)
  case Nil
  then show ?case by (subst iter_collect.simps) (simp add: record_iter_next_def records_len_def)
next
  case (Cons r rs)
  have rem: "(of_nat (length (r # rs)) :: u8) \<noteq> 0"
  proof -
    have "unat (of_nat (length (r # rs)) :: u8) = length (r # rs)" by (rule unat_of_nat_small) (use Cons.prems(2) in simp)
    then show ?thesis by (metis length_0_conv list.distinct(1) unat_0)
  qed
  have nxt: "record_iter_next \<lparr>ri_bytes = pre @ record_image r @ concat (map record_image rs) @ post, ri_offset = length pre,
      ri_remaining = of_nat (length (r # rs)), ri_failed = False\<rparr> =
    (\<lparr>ri_bytes = (pre @ record_image r) @ concat (map record_image rs) @ post, ri_offset = length (pre @ record_image r),
      ri_remaining = of_nat (length rs), ri_failed = False\<rparr>, Some (Inr r))"
    using next_record[OF _ rem, of r pre] Cons.prems(1) by simp
  show ?case
    using Cons.IH[of "pre @ record_image r"] Cons.prems nxt
    by (subst iter_collect.simps) (simp add: records_len_Cons add.assoc del: of_nat_Suc)
qed

section \<open>Properties\<close>

text \<open>
  The cell format is canonical. A 128 byte string decodes to a cell exactly if the cell is
  well formed and encodes to that very string: no two strings mean the same cell, every accepted
  string is what the encoder would have sent, and every well-formed cell arrives unchanged.
\<close>

theorem cell_codec_exact:
  assumes "length bs = SPI_CELL_LEN"
  shows "cell_decode bs = Inr c \<longleftrightarrow> cell_ok c \<and> cell_encode c = Inr bs"
  using cell_decode_Inr[OF _ assms] cell_roundtrip[of c] by fastforce

definition sample_cell :: spi_cell where
  "sample_cell = (spi_cell_empty 9)\<lparr>sc_header := (spi_cell_header_new 9)
     \<lparr>ch_tx_sequence := 1, ch_payload_len := 2, ch_record_count := 1\<rparr>, sc_payload := [5, 6] @ replicate 108 0\<rparr>"

definition sample_cell_bytes :: bytes where
  "sample_cell_bytes = (case cell_encode sample_cell of Inr bs \<Rightarrow> bs | Inl _ \<Rightarrow> [])"

lemma sample_cell_ok: "cell_ok sample_cell"
  by (simp add: sample_cell_def cell_ok_def spi_cell_header_new_def spi_cell_empty_def spi_sizes list_all_iff)

lemma sample_cell_encodes:
  "cell_encode sample_cell = Inr sample_cell_bytes" "length sample_cell_bytes = SPI_CELL_LEN" "cell_decode sample_cell_bytes = Inr sample_cell"
  using cell_roundtrip[OF sample_cell_ok] by (auto simp: sample_cell_bytes_def)

lemma sample_cell_byte: "sample_cell_bytes ! 40 = 0"
proof -
  have "cell_payload sample_cell = [5, 6]"
    by (simp add: sample_cell_def cell_payload_def spi_cell_header_new_def spi_cell_empty_def)
  then have eq: "sample_cell_bytes = cell_header_bytes (sc_header sample_cell) @ [5, 6] @ replicate 108 0 @
      to_le 2 (crc16_ccitt_false (cell_image (sc_header sample_cell) [5, 6]))"
    using cell_encode_ok(1)[OF sample_cell_ok] sample_cell_encodes(1) by (simp add: cell_image_def spi_sizes)
  show ?thesis unfolding eq by (simp add: nth_append spi_sizes nth_Cons')
qed

theorem cell_codec_exact_witness: "cell_decode sample_cell_bytes = Inr sample_cell"
  using cell_codec_exact[of sample_cell_bytes sample_cell] sample_cell_ok sample_cell_encodes(1,2) by simp

text \<open>
  A cell with exactly one damaged byte, wherever it is, is rejected by its checksum, before
  any of its fields is looked at.
\<close>

theorem cell_damage_detected:
  assumes "length bs = SPI_CELL_LEN" and "cell_decode bs = Inr c" and "i < length bs" and "b \<noteq> bs ! i"
  shows "cell_decode (bs[i := b]) = Inl CeCrcMismatch"
  by (rule cell_damage[OF assms])

theorem cell_damage_detected_witness:
  "cell_decode (sample_cell_bytes[40 := 0x80]) = Inl CeCrcMismatch"
  by (rule cell_damage_detected[OF sample_cell_encodes(2,3)])
    (use sample_cell_encodes(2) sample_cell_byte in \<open>simp_all add: SPI_CELL_LEN_def\<close>)

text \<open>
  Records survive the trip. Packing records into a cell payload succeeds exactly if there are
  at most 255 of them and they fit with their padding, and reading the packed bytes back yields
  the same records in the same order, with nothing left over.
\<close>

theorem records_roundtrip:
  assumes "length out = SPI_CELL_PAYLOAD_LEN"
  shows "case encode_records rs out of
      (_, Inl e) \<Rightarrow> 255 < length rs \<or> SPI_CELL_PAYLOAD_LEN < records_len rs
    | (out', Inr (len, count)) \<Rightarrow> length out' = SPI_CELL_PAYLOAD_LEN \<and> unat len = records_len rs \<and> records_len rs \<le> SPI_CELL_PAYLOAD_LEN \<and>
        (case iter_collect (record_iter_new (take (unat len) out') count) of
           (rs', it) \<Rightarrow> rs' = map Inr rs \<and> record_iter_finish it = Inr ())"
proof (cases "encode_records rs out")
  case (Pair out' r)
  show ?thesis
  proof (cases r)
    case (Inl e)
    then show ?thesis using Pair encode_records_cases(1)[OF assms, of rs] by auto
  next
    case (Inr lc)
    obtain len count where lc: "lc = (len, count)" by (cases lc)
    note ok = encode_records_cases(2)[OF assms Pair[unfolded Inr lc]]
    then have "take (unat len) out' = concat (map record_image rs)" by simp
    then have "iter_collect (record_iter_new (take (unat len) out') count) =
        (map Inr rs, \<lparr>ri_bytes = concat (map record_image rs), ri_offset = records_len rs, ri_remaining = 0, ri_failed = False\<rparr>)"
      using collect_records[of rs "[]" "[]"] ok by (simp add: record_iter_new_def)
    then show ?thesis using Pair Inr lc ok by (simp add: record_iter_finish_def)
  qed
qed

theorem records_roundtrip_witness:
  "fst (iter_collect (record_iter_new (take 12 (fst (encode_records
     [\<lparr>wr_type = 1, wr_flags = 2, wr_data = [3, 4, 5]\<rparr>, \<lparr>wr_type = 6, wr_flags = 0, wr_data = []\<rparr>]
     (replicate SPI_CELL_PAYLOAD_LEN 0)))) 2)) =
   [Inr \<lparr>wr_type = 1, wr_flags = 2, wr_data = [3, 4, 5]\<rparr>, Inr \<lparr>wr_type = 6, wr_flags = 0, wr_data = []\<rparr>]"
proof -
  let ?rs = "[\<lparr>wr_type = 1, wr_flags = 2, wr_data = [3, 4, 5]\<rparr>, \<lparr>wr_type = 6, wr_flags = 0, wr_data = []\<rparr>]"
  let ?out = "replicate SPI_CELL_PAYLOAD_LEN (0 :: u8)"
  have len: "records_len ?rs = 12" by (simp add: records_len_def padded_def RECORD_HEADER_LEN_def)
  obtain out' len count where enc: "encode_records ?rs ?out = (out', Inr (len, count))"
    using encode_records_cases(1)[of ?out ?rs] len by (auto simp: spi_sizes)
  moreover have "unat len = 12" "count = 2" using encode_records_cases(2)[OF _ enc] len by simp_all
  ultimately show ?thesis
    using records_roundtrip[of ?out ?rs] by (auto split: prod.splits)
qed

end
