(* ===== verification/HS_Reliable.thy ===== *)
theory HS_Reliable
  imports HS_Cell HS_Runs HS_Slots
begin

text \<open>
  Reliable delivery over the link between the two chips (\<open>interchip/reliable.rs\<close>): the
  sender with its window of four unacknowledged cells, the receiver with its cumulative
  acknowledgement, and the queue that keeps application commands aligned with the window. Over a
  link that may lose, repeat, delay and reorder cells and acknowledgements, the receiver accepts
  exactly the cells the sender queued, each once and in order.
\<close>

section \<open>Model\<close>

definition SPI_TX_WINDOW :: nat where "SPI_TX_WINDOW = 4"

definition next_sequence :: "u16 \<Rightarrow> u16" where
  "next_sequence sequence = (if sequence = 0xffff \<or> sequence = 0 then 1 else sequence + 1)"

definition previous_sequence :: "u16 \<Rightarrow> u16" where
  "previous_sequence sequence = (if sequence \<le> 1 then 0xffff else sequence - 1)"

fun is_recent_loop :: "nat \<Rightarrow> u16 \<Rightarrow> u16 \<Rightarrow> bool" where
  "is_recent_loop 0 candidate recent = False"
| "is_recent_loop (Suc n) candidate recent =
     (if candidate = recent then True else is_recent_loop n candidate (previous_sequence recent))"

definition is_recent_sequence :: "u16 \<Rightarrow> u16 \<Rightarrow> bool" where
  "is_recent_sequence candidate cumulative_ack = is_recent_loop SPI_TX_WINDOW candidate cumulative_ack"

subsection \<open>The sender\<close>

record pending_cell =
  pc_cell :: spi_cell
  pc_last_sent_ms :: u64
  pc_attempts :: u8

record reliable_sender =
  rs_session_id :: u32
  rs_next_sequence :: u16
  rs_cumulative_ack :: u16
  rs_pending :: "pending_cell option list"

datatype sender_error = SdPayloadTooLong | SdWindowFull

datatype retransmit_action = RetransmitIdle | RetransmitSend spi_cell | LinkResetRequired

definition reliable_sender_new :: "u32 \<Rightarrow> reliable_sender" where
  "reliable_sender_new session_id =
     \<lparr>rs_session_id = session_id, rs_next_sequence = 1, rs_cumulative_ack = 0, rs_pending = replicate SPI_TX_WINDOW None\<rparr>"

definition pending_len :: "reliable_sender \<Rightarrow> nat" where
  "pending_len s = length (filter (\<lambda>p. p \<noteq> None) (rs_pending s))"

definition sender_reset_session :: "reliable_sender \<Rightarrow> u32 \<Rightarrow> reliable_sender" where
  "sender_reset_session s session_id =
     s\<lparr>rs_session_id := session_id, rs_next_sequence := 1, rs_cumulative_ack := 0, rs_pending := replicate SPI_TX_WINDOW None\<rparr>"

definition queued_cell :: "reliable_sender \<Rightarrow> bytes \<Rightarrow> u8 \<Rightarrow> spi_cell" where
  "queued_cell s payload record_count =
     (let cell = spi_cell_empty (rs_session_id s) in
      cell\<lparr>sc_header := (sc_header cell)\<lparr>ch_tx_sequence := rs_next_sequence s, ch_cumulative_ack := rs_cumulative_ack s,
             ch_payload_len := of_nat (length payload), ch_record_count := record_count\<rparr>,
           sc_payload := write_at 0 payload (sc_payload cell)\<rparr>)"

definition sender_queue :: "reliable_sender \<Rightarrow> bytes \<Rightarrow> u8 \<Rightarrow> u64 \<Rightarrow> (reliable_sender, sender_error, spi_cell) outcome" where
  "sender_queue s payload record_count now_ms =
     (if SPI_CELL_PAYLOAD_LEN < length payload then (s, Inl SdPayloadTooLong)
      else case position (\<lambda>p. p = None) (rs_pending s) of
        None \<Rightarrow> (s, Inl SdWindowFull)
      | Some slot \<Rightarrow>
          let cell = queued_cell s payload record_count in
          (s\<lparr>rs_next_sequence := next_sequence (rs_next_sequence s),
             rs_pending := (rs_pending s)[slot := Some \<lparr>pc_cell = cell, pc_last_sent_ms = now_ms, pc_attempts = 1\<rparr>]\<rparr>,
           Inr cell))"

definition pending_get :: "pending_cell option list \<Rightarrow> nat \<Rightarrow> pending_cell option" where
  "pending_get pending i = (if i < length pending then pending ! i else None)"

definition has_sequence :: "u16 \<Rightarrow> pending_cell option \<Rightarrow> bool" where
  "has_sequence q p = (case p of None \<Rightarrow> False | Some pc \<Rightarrow> ch_tx_sequence (sc_header (pc_cell pc)) = q)"

definition sender_acknowledge :: "reliable_sender \<Rightarrow> u16 \<Rightarrow> reliable_sender \<times> nat" where
  "sender_acknowledge s cumulative_ack =
     (case position (has_sequence cumulative_ack) (rs_pending s) of
        None \<Rightarrow> (s, 0)
      | Some index \<Rightarrow>
          let removed = index + 1 in
          (s\<lparr>rs_pending := map (\<lambda>destination. pending_get (rs_pending s) (destination + removed)) [0..<SPI_TX_WINDOW]\<rparr>, removed))"

definition with_ack :: "u16 \<Rightarrow> spi_cell \<Rightarrow> spi_cell" where
  "with_ack ack c = c\<lparr>sc_header := (sc_header c)\<lparr>ch_cumulative_ack := ack\<rparr>\<rparr>"

definition set_cumulative_ack :: "reliable_sender \<Rightarrow> u16 \<Rightarrow> reliable_sender" where
  "set_cumulative_ack s ack =
     s\<lparr>rs_cumulative_ack := ack,
       rs_pending := map (map_option (\<lambda>p. p\<lparr>pc_cell := with_ack ack (pc_cell p)\<rparr>)) (rs_pending s)\<rparr>"

definition poll_retransmit :: "reliable_sender \<Rightarrow> u64 \<Rightarrow> u64 \<Rightarrow> u8 \<Rightarrow> reliable_sender \<times> retransmit_action" where
  "poll_retransmit s now_ms timeout_ms max_attempts =
     (case position (\<lambda>p. p \<noteq> None) (rs_pending s) of
        None \<Rightarrow> (s, RetransmitIdle)
      | Some i \<Rightarrow>
          (case rs_pending s ! i of
             None \<Rightarrow> (s, RetransmitIdle)
           | Some p \<Rightarrow>
               if sat_sub now_ms (pc_last_sent_ms p) < timeout_ms then (s, RetransmitIdle)
               else if max_attempts \<le> pc_attempts p then (s, LinkResetRequired)
               else (s\<lparr>rs_pending := (rs_pending s)[i := Some (p\<lparr>pc_attempts := sat_add (pc_attempts p) 1, pc_last_sent_ms := now_ms\<rparr>)]\<rparr>,
                     RetransmitSend (pc_cell p))))"

subsection \<open>The receiver\<close>

record reliable_receiver =
  rr_session_id :: "u32 option"
  rr_cumulative_ack :: u16

datatype receive_disposition =
    RdEmpty
  | RdSessionChanged
  | RdAccepted (rd_session_changed: bool) (rd_cumulative_ack: u16)
  | RdDuplicate u16
  | RdGap (rd_expected: u16) u16

definition reliable_receiver_new :: reliable_receiver where
  "reliable_receiver_new = \<lparr>rr_session_id = None, rr_cumulative_ack = 0\<rparr>"

definition receiver_reset_session :: "reliable_receiver \<Rightarrow> u32 \<Rightarrow> reliable_receiver" where
  "receiver_reset_session r session_id = r\<lparr>rr_session_id := Some session_id, rr_cumulative_ack := 0\<rparr>"

definition receive :: "reliable_receiver \<Rightarrow> spi_cell \<Rightarrow> reliable_receiver \<times> receive_disposition" where
  "receive r0 cell =
     (let h = sc_header cell;
          session_changed = (rr_session_id r0 \<noteq> Some (ch_session_id h));
          r = (if session_changed then r0\<lparr>rr_session_id := Some (ch_session_id h), rr_cumulative_ack := 0\<rparr> else r0)
      in if ch_tx_sequence h = 0 then (r, if session_changed then RdSessionChanged else RdEmpty)
         else
           let expected = next_sequence (rr_cumulative_ack r) in
           if ch_tx_sequence h = expected
           then (r\<lparr>rr_cumulative_ack := ch_tx_sequence h\<rparr>, RdAccepted session_changed (ch_tx_sequence h))
           else if is_recent_sequence (ch_tx_sequence h) (rr_cumulative_ack r)
           then (r, RdDuplicate (rr_cumulative_ack r))
           else (r, RdGap expected (rr_cumulative_ack r)))"

subsection \<open>The delivery queue\<close>

record 'a delivery_queue =
  dq_inflight :: "'a list"
  dq_retry :: "'a list"

definition delivery_queue_new :: "'a delivery_queue" where
  "delivery_queue_new = \<lparr>dq_inflight = [], dq_retry = []\<rparr>"

definition record_queued :: "'a delivery_queue \<Rightarrow> 'a \<Rightarrow> ('a delivery_queue, 'a, unit) outcome" where
  "record_queued q value =
     (if length (dq_inflight q) < SPI_TX_WINDOW then (q\<lparr>dq_inflight := dq_inflight q @ [value]\<rparr>, Inr ()) else (q, Inl value))"

definition delivery_acknowledge :: "'a delivery_queue \<Rightarrow> nat \<Rightarrow> 'a delivery_queue" where
  "delivery_acknowledge q count = q\<lparr>dq_inflight := (tl ^^ count) (dq_inflight q)\<rparr>"

definition next_retry :: "'a delivery_queue \<Rightarrow> 'a delivery_queue \<times> 'a option" where
  "next_retry q = (case dq_retry q of [] \<Rightarrow> (q, None) | x # xs \<Rightarrow> (q\<lparr>dq_retry := xs\<rparr>, Some x))"

function retry_loop :: "'a list \<Rightarrow> 'a list \<Rightarrow> 'a list \<times> 'a list" where
  "retry_loop inflight retry =
     (if inflight = [] then (inflight, retry)
      else if length retry < SPI_TX_WINDOW then retry_loop (butlast inflight) (last inflight # retry)
      else (inflight, retry))"
  by pat_completeness auto
termination by (relation "measure (\<lambda>(inflight, retry). length inflight)") auto

declare retry_loop.simps [simp del]

definition retry_after_session_reset :: "'a delivery_queue \<Rightarrow> 'a delivery_queue" where
  "retry_after_session_reset q =
     (let (inflight, retry) = retry_loop (dq_inflight q) (dq_retry q) in q\<lparr>dq_inflight := inflight, dq_retry := retry\<rparr>)"

definition has_inflight :: "'a delivery_queue \<Rightarrow> bool" where
  "has_inflight q = (dq_inflight q \<noteq> [])"

section \<open>Sequence numbers\<close>

text \<open>The number of the \<open>k\<close>-th cell of a session; zero is reserved and skipped on wrap-around.\<close>

definition seq_of :: "nat \<Rightarrow> u16" where
  "seq_of k = (if k = 0 then 0 else of_nat ((k - 1) mod 65535 + 1))"

lemma unat_seq_of: "unat (seq_of k) = (if k = 0 then 0 else (k - 1) mod 65535 + 1)"
  by (simp add: seq_of_def unat_of_nat_small del: of_nat_add of_nat_Suc)

lemma seq_of_0 [simp]: "seq_of 0 = 0"
  by (simp add: seq_of_def)

lemma seq_of_eq_0 [simp]: "seq_of k = 0 \<longleftrightarrow> k = 0"
  by (simp add: word_unat_eq_iff unat_seq_of)

lemma next_seq_of [simp]: "next_sequence (seq_of k) = seq_of (Suc k)"
proof (cases "k = 0")
  case False
  let ?m = "(k - 1) mod 65535"
  have m: "?m < 65535" by simp
  have k: "k mod 65535 = (if ?m = 65534 then 0 else ?m + 1)"
    using mod_Suc[of "k - 1" 65535] False by auto
  show ?thesis
  proof (cases "?m = 65534")
    case True
    then have "seq_of k = 0xffff" using False by (simp add: word_unat_eq_iff unat_seq_of)
    then show ?thesis using k True by (simp add: next_sequence_def word_unat_eq_iff unat_seq_of)
  next
    case ne: False
    then have lt: "unat (seq_of k) < 65535" using m False by (auto simp: unat_seq_of)
    then have "seq_of k \<noteq> 0xffff" by auto
    moreover have "unat (seq_of k + 1) = unat (seq_of k) + 1" using lt by (simp add: unat_word_ariths)
    ultimately show ?thesis using k ne False by (simp add: next_sequence_def word_unat_eq_iff unat_seq_of)
  qed
qed (simp add: next_sequence_def seq_of_def)

lemma seq_of_inject:
  assumes "j < k + 65535" and "k < j + 65535"
  shows "seq_of j = seq_of k \<longleftrightarrow> j = k"
proof
  assume eq: "seq_of j = seq_of k"
  show "j = k"
  proof (cases "j = 0 \<or> k = 0")
    case True
    then show ?thesis using eq by (metis seq_of_eq_0 seq_of_0)
  next
    case False
    then have "(j - 1) mod 65535 = (k - 1) mod 65535" using arg_cong[OF eq, of unat] by (simp add: unat_seq_of)
    then obtain x y where "j - 1 + 65535 * x = k - 1 + 65535 * y" by (metis nat_mod_eq_iff)
    then have "j + 65535 * x = k + 65535 * y" using False by linarith
    moreover have "x = y"
    proof (rule ccontr)
      assume "x \<noteq> y"
      then consider "x + 1 \<le> y" | "y + 1 \<le> x" by linarith
      then show False using calculation assms by cases linarith+
    qed
    ultimately show ?thesis by simp
  qed
qed simp

lemma previous_next: "x \<noteq> 0 \<Longrightarrow> previous_sequence (next_sequence x) = x"
proof (cases "x = 0xffff")
  case False
  assume "x \<noteq> 0"
  then have "unat x + 1 < 2 ^ 16" "unat x \<noteq> 0"
    using False unsigned_less[of x, where 'a = nat] by (auto simp: word_unat_eq_iff)
  then have "\<not> x + 1 \<le> 1" by (simp add: word_le_nat_alt unat_word_ariths)
  then show ?thesis using False \<open>x \<noteq> 0\<close> by (simp add: next_sequence_def previous_sequence_def)
qed (simp add: next_sequence_def previous_sequence_def)

lemma previous_seq_of: "0 < k \<Longrightarrow> previous_sequence (seq_of (Suc k)) = seq_of k"
  using previous_next[of "seq_of k"] by simp

text \<open>A cell is recent if it is one of the last four accepted ones.\<close>

lemma recent_loop_hit: "d < n \<Longrightarrow> d < k \<Longrightarrow> is_recent_loop n (seq_of (k - d)) (seq_of k)"
proof (induction n arbitrary: d k)
  case (Suc n)
  show ?case
  proof (cases d)
    case (Suc e)
    then obtain j where k: "k = Suc j" "0 < j" using Suc.prems by (cases k) auto
    have "is_recent_loop n (seq_of (j - e)) (seq_of j)" using Suc.IH[of e j] Suc Suc.prems k by simp
    then show ?thesis using k Suc by (simp add: previous_seq_of)
  qed simp
qed simp

lemma recent_sequence: "r < k + SPI_TX_WINDOW \<Longrightarrow> 0 < k \<Longrightarrow> k \<le> r \<Longrightarrow> is_recent_sequence (seq_of k) (seq_of r)"
  using recent_loop_hit[of "r - k" SPI_TX_WINDOW r] by (simp add: is_recent_sequence_def)

section \<open>The window\<close>

text \<open>
  The four slots are always filled from the left. The relation reads them as the list of cells
  waiting for an acknowledgement, oldest first; each operation acts on that list.
\<close>

definition window :: "reliable_sender \<Rightarrow> pending_cell list \<Rightarrow> bool" where
  "window s ps = (length ps \<le> SPI_TX_WINDOW \<and> rs_pending s = map Some ps @ replicate (SPI_TX_WINDOW - length ps) None)"

abbreviation cell_seq :: "spi_cell \<Rightarrow> u16" where "cell_seq c \<equiv> ch_tx_sequence (sc_header c)"

lemma window_new: "window (reliable_sender_new sid) []" "window (sender_reset_session s sid) []"
  by (simp_all add: window_def reliable_sender_new_def sender_reset_session_def)

lemma window_pending_len: "window s ps \<Longrightarrow> pending_len s = length ps"
  by (simp add: window_def pending_len_def)

lemma position_slots:
  "position p (map Some xs @ replicate n None) =
     (case position (\<lambda>x. p (Some x)) xs of Some i \<Rightarrow> Some i | None \<Rightarrow> if 0 < n \<and> p None then Some (length xs) else None)"
proof (induction xs)
  case Nil
  then show ?case by (cases n) (auto simp: position_None_iff)
next
  case (Cons x xs)
  then show ?case by (auto split: option.splits)
qed

lemma position_never [simp]: "position (\<lambda>x. False) xs = None"
  by (induction xs) simp_all

lemma window_queue:
  assumes "window s ps"
  shows "sender_queue s payload n now =
    (if SPI_CELL_PAYLOAD_LEN < length payload then (s, Inl SdPayloadTooLong)
     else if length ps = SPI_TX_WINDOW then (s, Inl SdWindowFull)
     else (fst (sender_queue s payload n now), Inr (queued_cell s payload n)))"
    and "length payload \<le> SPI_CELL_PAYLOAD_LEN \<Longrightarrow> length ps < SPI_TX_WINDOW \<Longrightarrow>
      window (fst (sender_queue s payload n now)) (ps @ [\<lparr>pc_cell = queued_cell s payload n, pc_last_sent_ms = now, pc_attempts = 1\<rparr>]) \<and>
      rs_next_sequence (fst (sender_queue s payload n now)) = next_sequence (rs_next_sequence s) \<and>
      rs_session_id (fst (sender_queue s payload n now)) = rs_session_id s"
proof -
  have pos: "position (\<lambda>p. p = None) (rs_pending s) = (if length ps < SPI_TX_WINDOW then Some (length ps) else None)"
    using assms by (auto simp: window_def position_slots)
  then show "sender_queue s payload n now =
    (if SPI_CELL_PAYLOAD_LEN < length payload then (s, Inl SdPayloadTooLong)
     else if length ps = SPI_TX_WINDOW then (s, Inl SdWindowFull)
     else (fst (sender_queue s payload n now), Inr (queued_cell s payload n)))"
    using assms by (auto simp: sender_queue_def Let_def window_def)
  show "length payload \<le> SPI_CELL_PAYLOAD_LEN \<Longrightarrow> length ps < SPI_TX_WINDOW \<Longrightarrow>
      window (fst (sender_queue s payload n now)) (ps @ [\<lparr>pc_cell = queued_cell s payload n, pc_last_sent_ms = now, pc_attempts = 1\<rparr>]) \<and>
      rs_next_sequence (fst (sender_queue s payload n now)) = next_sequence (rs_next_sequence s) \<and>
      rs_session_id (fst (sender_queue s payload n now)) = rs_session_id s"
  proof -
    assume "length payload \<le> SPI_CELL_PAYLOAD_LEN" and room: "length ps < SPI_TX_WINDOW"
    moreover obtain k where k: "SPI_TX_WINDOW - length ps = Suc k" using room by (metis Suc_diff_Suc)
    moreover have "SPI_TX_WINDOW - Suc (length ps) = k" using k by simp
    ultimately show ?thesis
      using pos assms by (simp add: sender_queue_def Let_def window_def list_update_append)
  qed
qed

lemma window_acknowledge:
  assumes "window s ps"
  shows "case position (\<lambda>p. cell_seq (pc_cell p) = ack) ps of
      None \<Rightarrow> sender_acknowledge s ack = (s, 0)
    | Some i \<Rightarrow> snd (sender_acknowledge s ack) = Suc i \<and> window (fst (sender_acknowledge s ack)) (drop (Suc i) ps) \<and>
        rs_next_sequence (fst (sender_acknowledge s ack)) = rs_next_sequence s \<and>
        rs_session_id (fst (sender_acknowledge s ack)) = rs_session_id s"
proof -
  have pos: "position (has_sequence ack) (rs_pending s) = position (\<lambda>p. cell_seq (pc_cell p) = ack) ps"
    using assms by (simp add: window_def position_slots has_sequence_def split: option.split)
  show ?thesis
  proof (cases "position (\<lambda>p. cell_seq (pc_cell p) = ack) ps")
    case None
    then show ?thesis using pos by (simp add: sender_acknowledge_def)
  next
    case (Some i)
    then have i: "i < length ps" by (rule position_SomeD)
    have "map (\<lambda>d. pending_get (rs_pending s) (d + Suc i)) [0..<SPI_TX_WINDOW] =
        map Some (drop (Suc i) ps) @ replicate (SPI_TX_WINDOW - length (drop (Suc i) ps)) None"
      using assms i by (intro nth_equalityI) (auto simp: window_def pending_get_def nth_append add.commute)
    moreover have "length ps - Suc i \<le> SPI_TX_WINDOW" using assms by (auto simp: window_def)
    ultimately show ?thesis using Some pos i by (simp add: sender_acknowledge_def window_def)
  qed
qed

lemma window_set_ack:
  assumes "window s ps"
  shows "window (set_cumulative_ack s ack) (map (\<lambda>p. p\<lparr>pc_cell := with_ack ack (pc_cell p)\<rparr>) ps)"
    and "rs_next_sequence (set_cumulative_ack s ack) = rs_next_sequence s"
    and "rs_session_id (set_cumulative_ack s ack) = rs_session_id s"
  using assms by (simp_all add: window_def set_cumulative_ack_def comp_def)

lemma window_poll:
  assumes "window s ps"
  shows "case ps of
      [] \<Rightarrow> poll_retransmit s now timeout max_attempts = (s, RetransmitIdle)
    | p # qs \<Rightarrow> (\<exists>p'. pc_cell p' = pc_cell p \<and> window (fst (poll_retransmit s now timeout max_attempts)) (p' # qs)) \<and>
        rs_next_sequence (fst (poll_retransmit s now timeout max_attempts)) = rs_next_sequence s \<and>
        rs_session_id (fst (poll_retransmit s now timeout max_attempts)) = rs_session_id s \<and>
        (\<forall>c. snd (poll_retransmit s now timeout max_attempts) = RetransmitSend c \<longrightarrow> c = pc_cell p)"
proof (cases ps)
  case Nil
  then have "position (\<lambda>p. p \<noteq> None) (rs_pending s) = None"
    using assms by (simp add: window_def position_None_iff del: not_None_eq)
  then show ?thesis using Nil by (simp add: poll_retransmit_def)
next
  case (Cons p qs)
  then have "position (\<lambda>p. p \<noteq> None) (rs_pending s) = Some 0" "rs_pending s ! 0 = Some p"
    using assms by (simp_all add: window_def)
  then have poll: "poll_retransmit s now timeout max_attempts =
      (if sat_sub now (pc_last_sent_ms p) < timeout then (s, RetransmitIdle)
       else if max_attempts \<le> pc_attempts p then (s, LinkResetRequired)
       else (s\<lparr>rs_pending := (rs_pending s)[0 := Some (p\<lparr>pc_attempts := sat_add (pc_attempts p) 1, pc_last_sent_ms := now\<rparr>)]\<rparr>,
             RetransmitSend (pc_cell p)))"
    by (simp add: poll_retransmit_def)
  have "pc_cell (p\<lparr>pc_attempts := sat_add (pc_attempts p) 1, pc_last_sent_ms := now\<rparr>) = pc_cell p" by simp
  with poll consider (keep) act where "poll_retransmit s now timeout max_attempts = (s, act)" "\<forall>c. act \<noteq> RetransmitSend c"
    | (again) p' where "poll_retransmit s now timeout max_attempts = (s\<lparr>rs_pending := (rs_pending s)[0 := Some p']\<rparr>, RetransmitSend (pc_cell p))"
        "pc_cell p' = pc_cell p"
    by (metis retransmit_action.distinct(1) retransmit_action.distinct(5))
  then show ?thesis
  proof cases
    case keep
    then show ?thesis using assms Cons by auto
  next
    case again
    moreover have "window (s\<lparr>rs_pending := (rs_pending s)[0 := Some p']\<rparr>) (p' # qs)" using assms Cons by (simp add: window_def)
    ultimately show ?thesis using Cons by auto
  qed
qed

section \<open>The link\<close>

text \<open>
  One direction of the link within a session. The history of cells handed out and of
  acknowledgement values is kept so that the network can deliver any of them at any time: a
  delivery names how many cells ago the cell was queued, an acknowledgement how many values ago
  it was current. Not delivering is losing, delivering again is repeating. Only what is more than
  \<open>LINK_MEMORY\<close> cells old no longer arrives, because a sixteen bit number comes around again
  then. The acknowledgement number in the header of a delivered cell belongs to the other
  direction and is arbitrary.
\<close>

definition LINK_MEMORY :: nat where "LINK_MEMORY = 65531"

record link =
  lk_sender :: reliable_sender
  lk_receiver :: reliable_receiver
  lk_sent :: "spi_cell list"
  lk_accepted :: "spi_cell list"
  lk_acks :: "u16 list"

datatype link_op =
    LkQueue bytes u8 u64
  | LkPoll u64 u64 u8
  | LkSetAck u16
  | LkDeliver nat u16
  | LkAck nat

definition link_new :: "u32 \<Rightarrow> u32 option \<Rightarrow> link" where
  "link_new sid previous =
     \<lparr>lk_sender = reliable_sender_new sid, lk_receiver = \<lparr>rr_session_id = previous, rr_cumulative_ack = 0\<rparr>,
      lk_sent = [], lk_accepted = [], lk_acks = [0]\<rparr>"

definition link_receive :: "spi_cell \<Rightarrow> link \<Rightarrow> link" where
  "link_receive c l =
     (case receive (lk_receiver l) c of
        (r, RdAccepted _ ack) \<Rightarrow> l\<lparr>lk_receiver := r, lk_accepted := lk_accepted l @ [c], lk_acks := lk_acks l @ [ack]\<rparr>
      | (r, _) \<Rightarrow> l\<lparr>lk_receiver := r\<rparr>)"

fun link_step :: "link_op \<Rightarrow> link \<Rightarrow> link" where
  "link_step (LkQueue payload n now) l =
     (case sender_queue (lk_sender l) payload n now of
        (s, Inl _) \<Rightarrow> l\<lparr>lk_sender := s\<rparr>
      | (s, Inr c) \<Rightarrow> l\<lparr>lk_sender := s, lk_sent := lk_sent l @ [c]\<rparr>)"
| "link_step (LkPoll now timeout max_attempts) l = l\<lparr>lk_sender := fst (poll_retransmit (lk_sender l) now timeout max_attempts)\<rparr>"
| "link_step (LkSetAck ack) l = l\<lparr>lk_sender := set_cumulative_ack (lk_sender l) ack\<rparr>"
| "link_step (LkDeliver age ack) l =
     (if age < length (lk_sent l) then link_receive (with_ack ack (lk_sent l ! (length (lk_sent l) - Suc age))) l else l)"
| "link_step (LkAck age) l =
     (if age < length (lk_acks l)
      then l\<lparr>lk_sender := fst (sender_acknowledge (lk_sender l) (lk_acks l ! (length (lk_acks l) - Suc age)))\<rparr> else l)"

fun link_adm :: "link_op \<Rightarrow> bool" where
  "link_adm (LkDeliver age _) = (age < LINK_MEMORY)"
| "link_adm (LkAck age) = (age < LINK_MEMORY)"
| "link_adm _ = True"

text \<open>
  What a cell carries, without the acknowledgement of the other direction.
\<close>

abbreviation content :: "spi_cell \<Rightarrow> spi_cell" where "content \<equiv> with_ack 0"

definition link_inv :: "u32 \<Rightarrow> nat \<Rightarrow> pending_cell list \<Rightarrow> link \<Rightarrow> bool" where
  "link_inv sid a ps l =
     (let n = length (lk_sent l); r = length (lk_accepted l) in
      window (lk_sender l) ps \<and> rs_session_id (lk_sender l) = sid \<and> rs_next_sequence (lk_sender l) = seq_of (Suc n) \<and>
      a \<le> r \<and> r \<le> n \<and> n = a + length ps \<and>
      map (content \<circ> pc_cell) ps = map content (drop a (lk_sent l)) \<and>
      map cell_seq (lk_sent l) = map seq_of [1..<Suc n] \<and>
      list_all (\<lambda>c. ch_session_id (sc_header c) = sid) (lk_sent l) \<and>
      map content (lk_accepted l) = map content (take r (lk_sent l)) \<and>
      lk_acks l = map seq_of [0..<Suc r] \<and> rr_cumulative_ack (lk_receiver l) = seq_of r \<and>
      (rr_session_id (lk_receiver l) = Some sid \<or> r = 0))"

lemma content_with_ack [simp]: "content (with_ack a c) = content c"
  by (simp add: with_ack_def)

lemma seq_with_ack [simp]: "cell_seq (with_ack a c) = cell_seq c" "ch_session_id (sc_header (with_ack a c)) = ch_session_id (sc_header c)"
  by (simp_all add: with_ack_def)

lemma content_seq: "content c = content d \<Longrightarrow> cell_seq c = cell_seq d"
  by (metis seq_with_ack(1))

lemma queued_cell_seq [simp]: "cell_seq (queued_cell s p n) = rs_next_sequence s" "ch_session_id (sc_header (queued_cell s p n)) = rs_session_id s"
  by (simp_all add: queued_cell_def Let_def spi_cell_empty_def spi_cell_header_new_def)

lemma link_inv_new: "link_inv sid 0 [] (link_new sid previous)"
  by (simp add: link_inv_def link_new_def window_new seq_of_def) (simp add: reliable_sender_new_def)

lemma sent_seq: "link_inv sid a ps l \<Longrightarrow> k < length (lk_sent l) \<Longrightarrow> cell_seq (lk_sent l ! k) = seq_of (Suc k)"
proof -
  assume "link_inv sid a ps l" and k: "k < length (lk_sent l)"
  then have "map cell_seq (lk_sent l) ! k = map seq_of [1..<Suc (length (lk_sent l))] ! k" by (simp only: link_inv_def Let_def)
  then show ?thesis using k by (simp del: upt_Suc)
qed

lemma pending_seq:
  assumes "link_inv sid a ps l" and "i < length ps"
  shows "cell_seq (pc_cell (ps ! i)) = seq_of (Suc (a + i))"
proof -
  have "map (content \<circ> pc_cell) ps ! i = map content (drop a (lk_sent l)) ! i" using assms(1) by (simp add: link_inv_def Let_def)
  moreover have "a + i < length (lk_sent l)" using assms by (simp add: link_inv_def Let_def)
  ultimately have "content (pc_cell (ps ! i)) = content (lk_sent l ! (a + i))" using assms(2) by simp
  then show ?thesis using content_seq sent_seq[OF assms(1) \<open>a + i < length (lk_sent l)\<close>] by metis
qed

subsection \<open>Every step keeps the link consistent\<close>

lemma window_room: "link_inv sid a ps l \<Longrightarrow> length (lk_sent l) \<le> length (lk_accepted l) + 4"
  by (auto simp: link_inv_def Let_def window_def SPI_TX_WINDOW_def)

lemma link_queue_inv:
  assumes inv: "link_inv sid a ps l"
  shows "\<exists>ps'. link_inv sid a ps' (link_step (LkQueue payload n now) l)"
proof (cases "SPI_CELL_PAYLOAD_LEN < length payload \<or> length ps = SPI_TX_WINDOW")
  case True
  moreover have w: "window (lk_sender l) ps" using inv by (simp add: link_inv_def Let_def)
  ultimately obtain e where "sender_queue (lk_sender l) payload n now = (lk_sender l, Inl e)"
    using window_queue(1)[OF w, of payload n now] by (auto split: if_splits)
  then show ?thesis using inv by auto
next
  case False
  let ?s = "lk_sender l" let ?c = "queued_cell ?s payload n"
  have w: "window ?s ps" and len: "length ps \<le> SPI_TX_WINDOW" using inv by (simp_all add: link_inv_def Let_def window_def)
  obtain s' where q: "sender_queue ?s payload n now = (s', Inr ?c)"
    using window_queue(1)[OF w, of payload n now] False by (auto split: if_splits)
  have w': "window s' (ps @ [\<lparr>pc_cell = ?c, pc_last_sent_ms = now, pc_attempts = 1\<rparr>])"
    and s': "rs_next_sequence s' = next_sequence (rs_next_sequence ?s)" "rs_session_id s' = rs_session_id ?s"
    using window_queue(2)[OF w, of payload n now] False len q by auto
  have "link_inv sid a (ps @ [\<lparr>pc_cell = ?c, pc_last_sent_ms = now, pc_attempts = 1\<rparr>]) (l\<lparr>lk_sender := s', lk_sent := lk_sent l @ [?c]\<rparr>)"
    using inv w' s' by (auto simp: link_inv_def Let_def)
  then show ?thesis using q by auto
qed

lemma link_ack_inv:
  assumes inv: "link_inv sid a ps l" and j: "j \<le> length (lk_accepted l)" "length (lk_accepted l) < j + LINK_MEMORY"
  shows "\<exists>a' ps'. link_inv sid a' ps' (l\<lparr>lk_sender := fst (sender_acknowledge (lk_sender l) (seq_of j))\<rparr>) \<and>
      a' = max a j \<and> snd (sender_acknowledge (lk_sender l) (seq_of j)) = a' - a"
proof -
  let ?p = "\<lambda>p. cell_seq (pc_cell p) = seq_of j"
  have w: "window (lk_sender l) ps" and n: "length (lk_sent l) = a + length ps" "length (lk_accepted l) \<le> length (lk_sent l)"
    and ar: "a \<le> length (lk_accepted l)"
    using inv by (simp_all add: link_inv_def Let_def)
  note ack = window_acknowledge[OF w, of "seq_of j"]
  have hit: "?p (ps ! i) \<longleftrightarrow> Suc (a + i) = j" if "i < length ps" for i
    unfolding pending_seq[OF inv that] using that n j ar window_room[OF inv] w[unfolded window_def SPI_TX_WINDOW_def]
    by (intro seq_of_inject) (simp_all add: LINK_MEMORY_def)
  show ?thesis
  proof (cases "a < j")
    case True
    let ?i = "j - Suc a"
    have i: "?i < length ps" "Suc (a + ?i) = j" using True j n by simp_all
    have "position ?p ps = Some ?i" unfolding position_Some_iff using i hit by auto
    then have r: "snd (sender_acknowledge (lk_sender l) (seq_of j)) = Suc ?i"
      "window (fst (sender_acknowledge (lk_sender l) (seq_of j))) (drop (Suc ?i) ps)"
      "rs_next_sequence (fst (sender_acknowledge (lk_sender l) (seq_of j))) = rs_next_sequence (lk_sender l)"
      "rs_session_id (fst (sender_acknowledge (lk_sender l) (seq_of j))) = rs_session_id (lk_sender l)"
      using ack by simp_all
    have "map (content \<circ> pc_cell) (drop (Suc ?i) ps) = map content (drop j (lk_sent l))"
    proof -
      have "drop (Suc ?i) (map (content \<circ> pc_cell) ps) = drop (Suc ?i) (map content (drop a (lk_sent l)))"
        using inv by (simp add: link_inv_def Let_def)
      then show ?thesis using True by (simp add: drop_map)
    qed
    then have "link_inv sid j (drop (Suc ?i) ps) (l\<lparr>lk_sender := fst (sender_acknowledge (lk_sender l) (seq_of j))\<rparr>)"
      using inv r(2-) i j True by (auto simp: link_inv_def Let_def)
    then show ?thesis using r(1) True by (intro exI[of _ j] exI[of _ "drop (Suc ?i) ps"]) simp
  next
    case False
    then have "position ?p ps = None" unfolding position_None_iff using hit by (auto simp: in_set_conv_nth)
    then have "sender_acknowledge (lk_sender l) (seq_of j) = (lk_sender l, 0)" using ack by simp
    then show ?thesis using inv False by (intro exI[of _ a] exI[of _ ps]) simp
  qed
qed

lemma link_receive_cases:
  assumes inv: "link_inv sid a ps l" and k: "k < length (lk_sent l)" "length (lk_sent l) \<le> k + LINK_MEMORY"
    and c: "content c = content (lk_sent l ! k)"
  shows "(\<exists>ch. snd (receive (lk_receiver l) c) = RdAccepted ch (seq_of (Suc k))) \<longleftrightarrow> k = length (lk_accepted l)"
    and "k < length (lk_accepted l) \<Longrightarrow> length (lk_accepted l) \<le> k + SPI_TX_WINDOW \<Longrightarrow>
      snd (receive (lk_receiver l) c) = RdDuplicate (seq_of (length (lk_accepted l)))"
    and "link_inv sid a ps (link_receive c l)"
    and "lk_accepted (link_receive c l) = lk_accepted l @ (if k = length (lk_accepted l) then [c] else [])"
proof -
  let ?r = "length (lk_accepted l)" and ?h = "sc_header c"
  have seq: "cell_seq c = seq_of (Suc k)" using content_seq[OF c] sent_seq[OF inv k(1)] by simp
  have "ch_session_id (sc_header (lk_sent l ! k)) = sid" using inv k(1) by (simp add: link_inv_def Let_def list_all_length)
  then have ses: "ch_session_id ?h = sid" using arg_cong[OF c, of "\<lambda>x. ch_session_id (sc_header x)"] by simp
  have ack: "rr_cumulative_ack (lk_receiver l) = seq_of ?r" and same: "rr_session_id (lk_receiver l) = Some sid \<or> ?r = 0"
    and n: "?r \<le> length (lk_sent l)" using inv by (simp_all add: link_inv_def Let_def)
  let ?R = "(lk_receiver l)\<lparr>rr_session_id := Some sid, rr_cumulative_ack := seq_of ?r\<rparr>"
  have R: "(if rr_session_id (lk_receiver l) \<noteq> Some sid then (lk_receiver l)\<lparr>rr_session_id := Some sid, rr_cumulative_ack := 0\<rparr>
      else lk_receiver l) = ?R"
    using ack same by (cases "rr_session_id (lk_receiver l) = Some sid") (auto intro: reliable_receiver.equality)
  have nxt: "seq_of (Suc k) = seq_of (Suc ?r) \<longleftrightarrow> k = ?r"
    using seq_of_inject[of "Suc k" "Suc ?r"] k n window_room[OF inv] by (simp add: LINK_MEMORY_def)
  let ?ch = "rr_session_id (lk_receiver l) \<noteq> Some sid"
  have rec: "receive (lk_receiver l) c =
      (if k = ?r then (?R\<lparr>rr_cumulative_ack := seq_of (Suc k)\<rparr>, RdAccepted ?ch (seq_of (Suc k)))
       else if is_recent_sequence (seq_of (Suc k)) (seq_of ?r) then (?R, RdDuplicate (seq_of ?r))
       else (?R, RdGap (seq_of (Suc ?r)) (seq_of ?r)))"
    unfolding receive_def Let_def ses R seq by (simp add: nxt)
  show "(\<exists>ch. snd (receive (lk_receiver l) c) = RdAccepted ch (seq_of (Suc k))) \<longleftrightarrow> k = ?r"
    by (simp add: rec)
  show "snd (receive (lk_receiver l) c) = RdDuplicate (seq_of ?r)" if "k < ?r" "?r \<le> k + SPI_TX_WINDOW"
    using that recent_sequence[of ?r "Suc k"] by (simp add: rec)
  show "lk_accepted (link_receive c l) = lk_accepted l @ (if k = ?r then [c] else [])"
    by (simp add: link_receive_def rec)
  show "link_inv sid a ps (link_receive c l)"
  proof (cases "k = ?r")
    case True
    then have "link_receive c l = l\<lparr>lk_receiver := ?R\<lparr>rr_cumulative_ack := seq_of (Suc k)\<rparr>, lk_accepted := lk_accepted l @ [c],
        lk_acks := lk_acks l @ [seq_of (Suc k)]\<rparr>"
      by (simp add: link_receive_def rec)
    moreover have "take (Suc ?r) (lk_sent l) = take ?r (lk_sent l) @ [lk_sent l ! ?r]"
      using True k(1) by (simp add: take_Suc_conv_app_nth)
    ultimately show ?thesis using inv True k(1) c by (simp add: link_inv_def Let_def)
  next
    case False
    then have "link_receive c l = l\<lparr>lk_receiver := ?R\<rparr>" by (simp add: link_receive_def rec)
    then show ?thesis using inv by (simp add: link_inv_def Let_def)
  qed
qed

lemma link_step_inv:
  assumes inv: "link_inv sid a ps l" and adm: "link_adm op"
  shows "\<exists>a' ps'. link_inv sid a' ps' (link_step op l)"
proof (cases op)
  case (LkQueue payload n now)
  then show ?thesis using link_queue_inv[OF inv] by blast
next
  case (LkPoll now timeout max_attempts)
  have w: "window (lk_sender l) ps" using inv by (simp add: link_inv_def Let_def)
  show ?thesis
  proof (cases ps)
    case Nil
    then show ?thesis using window_poll[OF w, of now timeout max_attempts] inv LkPoll by auto
  next
    case (Cons p qs)
    then obtain p' where "pc_cell p' = pc_cell p" "window (fst (poll_retransmit (lk_sender l) now timeout max_attempts)) (p' # qs)"
      and "rs_next_sequence (fst (poll_retransmit (lk_sender l) now timeout max_attempts)) = rs_next_sequence (lk_sender l)"
        "rs_session_id (fst (poll_retransmit (lk_sender l) now timeout max_attempts)) = rs_session_id (lk_sender l)"
      using window_poll[OF w, of now timeout max_attempts] by auto
    then have "link_inv sid a (p' # qs) (link_step op l)" using inv Cons LkPoll by (simp add: link_inv_def Let_def)
    then show ?thesis by blast
  qed
next
  case (LkSetAck ack)
  have w: "window (lk_sender l) ps" using inv by (simp add: link_inv_def Let_def)
  have "link_inv sid a (map (\<lambda>p. p\<lparr>pc_cell := with_ack ack (pc_cell p)\<rparr>) ps) (link_step op l)"
    using inv window_set_ack[OF w, of ack] LkSetAck by (simp add: link_inv_def Let_def comp_def)
  then show ?thesis by blast
next
  case (LkDeliver age ack)
  have "link_inv sid a ps (link_step op l)"
    using link_receive_cases(3)[OF inv, of "length (lk_sent l) - Suc age" "with_ack ack (lk_sent l ! (length (lk_sent l) - Suc age))"]
      adm inv LkDeliver by simp
  then show ?thesis by blast
next
  case (LkAck age)
  show ?thesis
  proof (cases "age < length (lk_acks l)")
    case True
    let ?j = "length (lk_accepted l) - age"
    have "lk_acks l = map seq_of [0..<Suc (length (lk_accepted l))]" using inv by (simp only: link_inv_def Let_def)
    then have "length (lk_acks l) - Suc age = ?j" "lk_acks l ! ?j = seq_of ?j" by (simp_all del: upt_Suc)
    moreover have "length (lk_accepted l) < ?j + LINK_MEMORY" using adm LkAck by simp
    ultimately show ?thesis using link_ack_inv[OF inv, of ?j] LkAck True by auto
  qed (use inv LkAck in auto)
qed

interpretation link: op_system link_step link_adm "\<lambda>l. \<exists>a ps. link_inv sid a ps l" for sid
  by unfold_locales (use link_step_inv in blast)

lemma link_reachable:
  assumes "list_all link_adm ops" and "l = run link_step ops (link_new sid previous)"
  obtains a ps where "link_inv sid a ps l"
  using link.run_inv[of sid "link_new sid previous" ops] link_inv_new[of sid previous] assms by blast

lemma window_flatten: "window s ps \<Longrightarrow> flatten (rs_pending s) = ps"
  by (simp add: window_def flatten_map_Some)

text \<open>
  C19: Exactly once, in order. Within one session, which both sides start with nothing acknowledged,
  whatever is queued, lost, repeated, delayed by less than 65531 cells or reordered: the cells the
  receiver has accepted are the first cells the sender queued, each once and in their order; the
  sender is at most four cells ahead, and every cell that was not accepted yet is still held for
  retransmission. Acknowledgements left over from another session are outside this property.
\<close>

theorem link_exactly_once:
  assumes "list_all link_adm ops" and "l = run link_step ops (link_new sid previous)"
  shows "map content (lk_accepted l) = map content (take (length (lk_accepted l)) (lk_sent l)) \<and>
    length (lk_accepted l) \<le> length (lk_sent l) \<and> length (lk_sent l) \<le> length (lk_accepted l) + SPI_TX_WINDOW \<and>
    (\<exists>a\<le>length (lk_accepted l). map (content \<circ> pc_cell) (flatten (rs_pending (lk_sender l))) = map content (drop a (lk_sent l)))"
proof -
  obtain a ps where inv: "link_inv sid a ps l" using link_reachable[OF assms] .
  then have "flatten (rs_pending (lk_sender l)) = ps" using window_flatten by (simp add: link_inv_def Let_def)
  then show ?thesis using inv window_room[OF inv] by (auto simp: link_inv_def Let_def SPI_TX_WINDOW_def)
qed

definition lossy_run :: "link_op list" where
  "lossy_run = [LkQueue [1] 1 0, LkQueue [2] 1 0, LkDeliver 0 7, LkDeliver 1 0, LkDeliver 1 0, LkAck 1, LkQueue [3] 1 5, LkDeliver 1 0, LkAck 0]"

lemma lossy_run_adm: "list_all link_adm lossy_run"
  by (simp add: lossy_run_def LINK_MEMORY_def)

theorem link_exactly_once_witness:
  "map content (lk_accepted (run link_step lossy_run (link_new 9 (Some 4)))) =
   map content (take (length (lk_accepted (run link_step lossy_run (link_new 9 (Some 4))))) (lk_sent (run link_step lossy_run (link_new 9 (Some 4)))))"
  using link_exactly_once[OF lossy_run_adm refl, of 9 "Some 4"] by blast

text \<open>
  C20: Retransmission makes progress. In every reachable state of the link with something
  unacknowledged, a poll after the timeout, while attempts are left, hands out the oldest
  unacknowledged cell; once that cell and then the current acknowledgement get through, the
  window has become smaller and nothing new has been queued. An exhausted cell asks for a link
  reset instead.
\<close>

theorem retransmission_progress:
  assumes "list_all link_adm ops" and "l = run link_step ops (link_new sid previous)"
    and "flatten (rs_pending (lk_sender l)) = p # rest" and "timeout \<le> sat_sub now (pc_last_sent_ms p)"
  shows "if max_attempts \<le> pc_attempts p then poll_retransmit (lk_sender l) now timeout max_attempts = (lk_sender l, LinkResetRequired)
    else \<exists>s'. poll_retransmit (lk_sender l) now timeout max_attempts = (s', RetransmitSend (pc_cell p)) \<and>
      (let l' = link_step (LkAck 0) (link_receive (pc_cell p) (l\<lparr>lk_sender := s'\<rparr>)) in
       pending_len (lk_sender l') < pending_len (lk_sender l) \<and> lk_sent l' = lk_sent l)"
proof -
  obtain a ps where inv: "link_inv sid a ps l" using link_reachable[OF assms(1,2)] .
  then have w: "window (lk_sender l) ps" by (simp add: link_inv_def Let_def)
  have ps: "ps = p # rest" using window_flatten[OF w] assms(3) by simp
  have slot: "position (\<lambda>p. p \<noteq> None) (rs_pending (lk_sender l)) = Some 0" "rs_pending (lk_sender l) ! 0 = Some p"
    using w ps by (simp_all add: window_def)
  show ?thesis
  proof (cases "max_attempts \<le> pc_attempts p")
    case True
    then show ?thesis using slot assms(4) by (simp add: poll_retransmit_def not_less)
  next
    case False
    obtain s' where s': "poll_retransmit (lk_sender l) now timeout max_attempts = (s', RetransmitSend (pc_cell p))"
      using slot assms(4) False by (simp add: poll_retransmit_def not_less)
    let ?l1 = "l\<lparr>lk_sender := s'\<rparr>"
    obtain p' where "window s' (p' # rest)" "pc_cell p' = pc_cell p" "rs_next_sequence s' = rs_next_sequence (lk_sender l)"
      "rs_session_id s' = rs_session_id (lk_sender l)"
      using window_poll[OF w, of now timeout max_attempts] ps s' by auto
    then have inv1: "link_inv sid a (p' # rest) ?l1" using inv ps by (simp add: link_inv_def Let_def)
    have n: "length (lk_sent l) = a + length ps" "length ps \<le> 4" "a \<le> length (lk_accepted l)"
      using inv w by (simp_all add: link_inv_def Let_def window_def SPI_TX_WINDOW_def)
    have content: "content (pc_cell p) = content (lk_sent ?l1 ! a)"
    proof -
      have "map (content \<circ> pc_cell) ps ! 0 = map content (drop a (lk_sent l)) ! 0" using inv by (simp add: link_inv_def Let_def)
      then show ?thesis using n ps by simp
    qed
    let ?l2 = "link_receive (pc_cell p) ?l1"
    have k: "a < length (lk_sent ?l1)" "length (lk_sent ?l1) \<le> a + LINK_MEMORY" using n ps by (simp_all add: LINK_MEMORY_def)
    note rec = link_receive_cases(3,4)[OF inv1 k content]
    have r2: "a < length (lk_accepted ?l2)" using rec(2) n by auto
    have sent2: "lk_sent ?l2 = lk_sent l" by (auto simp: link_receive_def split: prod.split receive_disposition.split)
    have sender2: "lk_sender ?l2 = s'" by (auto simp: link_receive_def split: prod.split receive_disposition.split)
    let ?r = "length (lk_accepted ?l2)"
    have "lk_acks ?l2 = map seq_of [0..<Suc ?r]" using rec(1) by (simp only: link_inv_def Let_def)
    then have ack: "lk_acks ?l2 ! (length (lk_acks ?l2) - Suc 0) = seq_of ?r" "lk_acks ?l2 \<noteq> []" by (simp_all del: upt_Suc)
    obtain ps3 where "link_inv sid (max a ?r) ps3 (?l2\<lparr>lk_sender := fst (sender_acknowledge (lk_sender ?l2) (seq_of ?r))\<rparr>)"
      using link_ack_inv[OF rec(1), of ?r] by (auto simp: LINK_MEMORY_def)
    then have inv3: "link_inv sid ?r ps3 (link_step (LkAck 0) ?l2)" using ack r2 by (simp add: max_absorb2)
    let ?l3 = "link_step (LkAck 0) ?l2"
    have sent3: "lk_sent ?l3 = lk_sent l" using sent2 by simp
    have "length (lk_sent ?l3) = ?r + length ps3" and w3: "window (lk_sender ?l3) ps3"
      using inv3 by (simp_all only: link_inv_def Let_def)
    then have "pending_len (lk_sender ?l3) < pending_len (lk_sender l)"
      unfolding window_pending_len[OF w3] window_pending_len[OF w] sent3 using r2 n by linarith
    then show ?thesis using False s' sent3 unfolding Let_def by auto
  qed
qed

theorem retransmission_progress_witness:
  "\<exists>s'. poll_retransmit (lk_sender (run link_step [LkQueue [7] 1 10] (link_new 9 None))) 20 10 2 =
     (s', RetransmitSend (queued_cell (reliable_sender_new 9) [7] 1))"
proof -
  let ?l = "run link_step [LkQueue [7] 1 10] (link_new 9 None)"
  have pend: "flatten (rs_pending (lk_sender ?l)) = [\<lparr>pc_cell = queued_cell (reliable_sender_new 9) [7] 1, pc_last_sent_ms = 10, pc_attempts = 1\<rparr>]"
    by (simp add: link_new_def reliable_sender_new_def sender_queue_def SPI_TX_WINDOW_def spi_sizes eval_nat_numeral Let_def)
  have "list_all link_adm [LkQueue [7] 1 10]" "(10 :: u64) \<le> sat_sub 20 10" "\<not> (2 :: u8) \<le> 1"
    by (simp_all add: sat_sub_def word_le_nat_alt)
  then show ?thesis
    using retransmission_progress[OF _ refl pend, where timeout = 10 and now = 20 and max_attempts = 2]
    unfolding pending_cell.select_convs by (metis (no_types, lifting))
qed

section \<open>Commands across session resets\<close>

text \<open>
  The host chip sends each command through \<open>queue\<close> and then records it, and prefers a command
  that has to be retried over a new one; an acknowledgement releases as many recorded commands
  as cells. The two structures move in step, so the recorded commands are exactly those whose
  cells are unacknowledged. A command encodes to \<open>enc x\<close>, which fits into a cell.
\<close>

record 'a host_tx =
  ht_sender :: reliable_sender
  ht_queue :: "'a delivery_queue"
  ht_taken :: "'a list"
  ht_acked :: nat

datatype 'a host_tx_op = HtSend 'a u64 | HtAck u16 | HtReset u32

definition host_tx_new :: "u32 \<Rightarrow> 'a host_tx" where
  "host_tx_new sid = \<lparr>ht_sender = reliable_sender_new sid, ht_queue = delivery_queue_new, ht_taken = [], ht_acked = 0\<rparr>"

fun host_tx_step :: "('a \<Rightarrow> bytes \<times> u8) \<Rightarrow> 'a host_tx_op \<Rightarrow> 'a host_tx \<Rightarrow> 'a host_tx" where
  "host_tx_step enc (HtSend x now) h =
     (if pending_len (ht_sender h) < SPI_TX_WINDOW then
        let (q, retry) = next_retry (ht_queue h);
            (command, taken) = (case retry of Some y \<Rightarrow> (y, ht_taken h) | None \<Rightarrow> (x, ht_taken h @ [x]))
        in (case sender_queue (ht_sender h) (fst (enc command)) (snd (enc command)) now of
              (s, Inl _) \<Rightarrow> h\<lparr>ht_sender := s, ht_queue := q, ht_taken := taken\<rparr>
            | (s, Inr _) \<Rightarrow> h\<lparr>ht_sender := s, ht_queue := fst (record_queued q command), ht_taken := taken\<rparr>)
      else h)"
| "host_tx_step enc (HtAck ack) h =
     (let (s, n) = sender_acknowledge (ht_sender h) ack
      in h\<lparr>ht_sender := s, ht_queue := delivery_acknowledge (ht_queue h) n, ht_acked := ht_acked h + n\<rparr>)"
| "host_tx_step enc (HtReset sid) h =
     h\<lparr>ht_sender := sender_reset_session (ht_sender h) sid, ht_queue := retry_after_session_reset (ht_queue h)\<rparr>"

definition host_tx_inv :: "'a host_tx \<Rightarrow> bool" where
  "host_tx_inv h =
     (\<exists>ps. window (ht_sender h) ps \<and> length (dq_inflight (ht_queue h)) = length ps \<and>
        (dq_retry (ht_queue h) \<noteq> [] \<longrightarrow> length ps + length (dq_retry (ht_queue h)) \<le> SPI_TX_WINDOW) \<and>
        dq_inflight (ht_queue h) @ dq_retry (ht_queue h) = drop (ht_acked h) (ht_taken h) \<and> ht_acked h \<le> length (ht_taken h))"

lemma retry_loop_all:
  "length inflight + length retry \<le> SPI_TX_WINDOW \<Longrightarrow> retry_loop inflight retry = ([], inflight @ retry)"
proof (induction inflight arbitrary: retry rule: rev_induct)
  case Nil
  then show ?case by (simp add: retry_loop.simps)
next
  case (snoc x xs)
  have "retry_loop (xs @ [x]) retry = retry_loop xs (x # retry)" using snoc.prems by (subst retry_loop.simps) simp
  then show ?case using snoc.IH[of "x # retry"] snoc.prems by simp
qed

lemma tl_funpow: "(tl ^^ n) xs = drop n xs"
  by (induction n arbitrary: xs) (simp_all add: drop_Suc tl_drop)

lemma host_tx_step_inv:
  assumes inv: "host_tx_inv h" and enc: "\<And>x. length (fst (enc x)) \<le> SPI_CELL_PAYLOAD_LEN"
  shows "host_tx_inv (host_tx_step enc op h)"
proof -
  obtain ps where w: "window (ht_sender h) ps" and len: "length (dq_inflight (ht_queue h)) = length ps"
    and room: "dq_retry (ht_queue h) \<noteq> [] \<longrightarrow> length ps + length (dq_retry (ht_queue h)) \<le> SPI_TX_WINDOW"
    and taken: "dq_inflight (ht_queue h) @ dq_retry (ht_queue h) = drop (ht_acked h) (ht_taken h)" "ht_acked h \<le> length (ht_taken h)"
    using inv by (auto simp: host_tx_inv_def)
  have four: "length ps \<le> SPI_TX_WINDOW" using w by (simp add: window_def)
  show ?thesis
  proof (cases op)
    case (HtSend x now)
    show ?thesis
    proof (cases "pending_len (ht_sender h) < SPI_TX_WINDOW")
      case True
      then have lt: "length ps < SPI_TX_WINDOW" using window_pending_len[OF w] by simp
      have q: "\<exists>s. sender_queue (ht_sender h) (fst (enc c)) (snd (enc c)) now = (s, Inr (queued_cell (ht_sender h) (fst (enc c)) (snd (enc c)))) \<and>
          (\<exists>p. window s (ps @ [p]))" for c
        using window_queue[OF w, of "fst (enc c)" "snd (enc c)" now] enc[of c] lt by (cases "sender_queue (ht_sender h) (fst (enc c)) (snd (enc c)) now") auto
      show ?thesis
      proof (cases "dq_retry (ht_queue h)")
        case Nil
        obtain s p where "sender_queue (ht_sender h) (fst (enc x)) (snd (enc x)) now = (s, Inr (queued_cell (ht_sender h) (fst (enc x)) (snd (enc x))))"
          "window s (ps @ [p])" using q[of x] by blast
        then show ?thesis using HtSend True Nil lt len taken
          by (auto simp: host_tx_inv_def next_retry_def record_queued_def intro!: exI[of _ "ps @ [p]"])
      next
        case (Cons y ys)
        obtain s p where "sender_queue (ht_sender h) (fst (enc y)) (snd (enc y)) now = (s, Inr (queued_cell (ht_sender h) (fst (enc y)) (snd (enc y))))"
          "window s (ps @ [p])" using q[of y] by blast
        then show ?thesis using HtSend True Cons lt len taken room
          by (auto simp: host_tx_inv_def next_retry_def record_queued_def intro!: exI[of _ "ps @ [p]"])
      qed
    qed (use HtSend inv in simp)
  next
    case (HtAck ack)
    note a = window_acknowledge[OF w, of ack]
    show ?thesis
    proof (cases "position (\<lambda>p. cell_seq (pc_cell p) = ack) ps")
      case None
      then show ?thesis using a HtAck inv by (simp add: delivery_acknowledge_def)
    next
      case (Some i)
      obtain s where s: "sender_acknowledge (ht_sender h) ack = (s, Suc i)" "window s (drop (Suc i) ps)"
        using a Some by (cases "sender_acknowledge (ht_sender h) ack") auto
      have i: "Suc i \<le> length ps" using position_SomeD(1)[OF Some] by simp
      have "drop (Suc i) (dq_inflight (ht_queue h)) @ dq_retry (ht_queue h) = drop (ht_acked h + Suc i) (ht_taken h)"
      proof -
        have "drop (Suc i) (dq_inflight (ht_queue h) @ dq_retry (ht_queue h)) = drop (Suc i) (drop (ht_acked h) (ht_taken h))" using taken(1) by simp
        then show ?thesis using i len by (simp add: add.commute)
      qed
      moreover have "ht_acked h + Suc i \<le> length (ht_taken h)" using arg_cong[OF taken(1), of length] taken(2) i len by simp
      ultimately show ?thesis using HtAck s i len room
        by (auto simp: host_tx_inv_def delivery_acknowledge_def tl_funpow intro!: exI[of _ "drop (Suc i) ps"])
    qed
  next
    case (HtReset sid)
    have "length (dq_inflight (ht_queue h)) + length (dq_retry (ht_queue h)) \<le> SPI_TX_WINDOW"
      using room len four by (cases "dq_retry (ht_queue h)") auto
    then have "retry_loop (dq_inflight (ht_queue h)) (dq_retry (ht_queue h)) = ([], dq_inflight (ht_queue h) @ dq_retry (ht_queue h))"
      and "length (dq_inflight (ht_queue h) @ dq_retry (ht_queue h)) \<le> SPI_TX_WINDOW"
      by (simp_all add: retry_loop_all)
    then show ?thesis using HtReset taken
      by (auto simp: host_tx_inv_def retry_after_session_reset_def window_new intro!: exI[of _ "[]"])
  qed
qed

lemma host_tx_inv_new: "host_tx_inv (host_tx_new sid)"
  by (auto simp: host_tx_inv_def host_tx_new_def delivery_queue_new_def window_new intro!: exI[of _ "[]"])

text \<open>
  C21: No command is lost across link resets. After any sequence of sends of commands whose
  encoding fits a cell, each recorded in the delivery queue, of acknowledgements and of session
  resets, the commands recorded as in flight, followed by those waiting for their retry, are
  exactly the commands taken so far less the acknowledged ones, in the order they were taken; the
  queue never overflows. Cells sent without a record, such as the greeting of a new session, are
  not part of these sequences.
\<close>

theorem commands_survive_resets:
  assumes "\<And>x. length (fst (enc x)) \<le> SPI_CELL_PAYLOAD_LEN" and "h = run (host_tx_step enc) ops (host_tx_new sid)"
  shows "dq_inflight (ht_queue h) @ dq_retry (ht_queue h) = drop (ht_acked h) (ht_taken h) \<and>
    length (dq_inflight (ht_queue h)) = pending_len (ht_sender h) \<and> length (dq_retry (ht_queue h)) \<le> SPI_TX_WINDOW"
proof -
  have "host_tx_inv (run (host_tx_step enc) ops h0)" if "host_tx_inv h0" for h0
    using that by (induction ops arbitrary: h0) (simp_all add: host_tx_step_inv[OF _ assms(1)])
  then obtain ps where "window (ht_sender h) ps" "length (dq_inflight (ht_queue h)) = length ps"
    "dq_retry (ht_queue h) \<noteq> [] \<longrightarrow> length ps + length (dq_retry (ht_queue h)) \<le> SPI_TX_WINDOW"
    "dq_inflight (ht_queue h) @ dq_retry (ht_queue h) = drop (ht_acked h) (ht_taken h)"
    using host_tx_inv_new assms(2) unfolding host_tx_inv_def by blast
  then show ?thesis using window_pending_len by (cases "dq_retry (ht_queue h)") auto
qed

theorem commands_survive_resets_witness:
  "let h = run (host_tx_step (\<lambda>x. ([x], 1))) [HtSend 1 0, HtSend 2 0, HtSend 3 0, HtAck 1, HtReset 5, HtSend 9 1] (host_tx_new 4) in
   dq_inflight (ht_queue h) @ dq_retry (ht_queue h) = drop (ht_acked h) (ht_taken h)"
  unfolding Let_def
  by (rule commands_survive_resets[THEN conjunct1, OF _ refl]) (simp add: spi_sizes)

section \<open>An acknowledgement from an earlier session\<close>

text \<open>
  An acknowledgement number does not say which session it belongs to. After a reset the sender
  starts again at sequence one, so a peer that has not seen the new session yet and still repeats
  a small number from the old one releases the first cell of the new session undelivered. The
  device side acknowledges before it looks at the session of the arriving cell.
\<close>

lemma stale_ack_releases_undelivered:
  "let s = fst (sender_queue (sender_reset_session s0 sid) [7] 1 now) in
   pending_len s = 1 \<and> snd (sender_acknowledge s 1) = 1 \<and> pending_len (fst (sender_acknowledge s 1)) = 0"
proof -
  let ?r = "sender_reset_session s0 sid" let ?s = "fst (sender_queue ?r [7] 1 now)"
  have w: "window ?s [\<lparr>pc_cell = queued_cell ?r [7] 1, pc_last_sent_ms = now, pc_attempts = 1\<rparr>]"
    using window_queue(2)[OF window_new(2), of "[7]" s0 sid 1 now] by (simp add: spi_sizes SPI_TX_WINDOW_def)
  have "cell_seq (queued_cell ?r [7] 1) = 1" by (simp add: sender_reset_session_def)
  then show ?thesis
    using window_acknowledge[OF w, of 1] window_pending_len[OF w] window_pending_len[of "fst (sender_acknowledge ?s 1)" "[]"]
    by (simp add: Let_def)
qed

end
