(* ===== verification/HS_Message.thy ===== *)
theory HS_Message
  imports HS_Cell HS_Reports
begin

unbundle bit_operations_syntax

text \<open>
  The messages the two chips exchange inside records (\<open>interchip/message.rs\<close>) and the batch
  that packs several input reports into one cell (\<open>interchip/input_batch.rs\<close>). A message
  type with an inline buffer keeps its length and the zero-padded array as the source does. All
  codecs satisfy one contract: a byte string is accepted exactly if it is what the encoder
  produces for the decoded message.
\<close>

section \<open>Constants\<close>

definition RECORD_HELLO :: u8 where "RECORD_HELLO = 0x01"
definition RECORD_HELLO_ACK :: u8 where "RECORD_HELLO_ACK = 0x02"
definition RECORD_HEARTBEAT :: u8 where "RECORD_HEARTBEAT = 0x03"
definition RECORD_LINK_RESET :: u8 where "RECORD_LINK_RESET = 0x04"
definition RECORD_PROFILE_BEGIN :: u8 where "RECORD_PROFILE_BEGIN = 0x10"
definition RECORD_PROFILE_CHUNK :: u8 where "RECORD_PROFILE_CHUNK = 0x11"
definition RECORD_PROFILE_COMMIT :: u8 where "RECORD_PROFILE_COMMIT = 0x12"
definition RECORD_PROFILE_RESULT :: u8 where "RECORD_PROFILE_RESULT = 0x13"
definition RECORD_ACTIVATE_PROFILE :: u8 where "RECORD_ACTIVATE_PROFILE = 0x14"
definition RECORD_FORCE_FALLBACK :: u8 where "RECORD_FORCE_FALLBACK = 0x15"
definition RECORD_USB_STATE :: u8 where "RECORD_USB_STATE = 0x20"
definition RECORD_CONTROL_REQUEST :: u8 where "RECORD_CONTROL_REQUEST = 0x21"
definition RECORD_CONTROL_RESPONSE :: u8 where "RECORD_CONTROL_RESPONSE = 0x22"
definition RECORD_RAW_ENDPOINT_IN :: u8 where "RECORD_RAW_ENDPOINT_IN = 0x24"
definition RECORD_RAW_ENDPOINT_OUT :: u8 where "RECORD_RAW_ENDPOINT_OUT = 0x25"
definition RECORD_STANDARD_INPUT_REPORT :: u8 where "RECORD_STANDARD_INPUT_REPORT = 0x26"
definition RECORD_STANDARD_OUTPUT_REPORT :: u8 where "RECORD_STANDARD_OUTPUT_REPORT = 0x27"
definition RECORD_STANDARD_RELEASE_ALL :: u8 where "RECORD_STANDARD_RELEASE_ALL = 0x28"
definition RECORD_MANAGEMENT_REQUEST :: u8 where "RECORD_MANAGEMENT_REQUEST = 0x29"
definition RECORD_MANAGEMENT_RESPONSE :: u8 where "RECORD_MANAGEMENT_RESPONSE = 0x2a"
definition RECORD_MANAGEMENT_EVENT :: u8 where "RECORD_MANAGEMENT_EVENT = 0x2b"

definition STANDARD_INPUT_HEADER_LEN :: nat where "STANDARD_INPUT_HEADER_LEN = 5"
definition STANDARD_INPUT_MAX_LEN :: nat where "STANDARD_INPUT_MAX_LEN = STANDARD_INPUT_HEADER_LEN + KEYBOARD_REPORT_LEN"
definition STANDARD_OUTPUT_MAX_DATA_LEN :: nat where "STANDARD_OUTPUT_MAX_DATA_LEN = 8"
definition STANDARD_OUTPUT_WIRE_LEN :: nat where "STANDARD_OUTPUT_WIRE_LEN = 2 + STANDARD_OUTPUT_MAX_DATA_LEN"
definition PROFILE_BEGIN_WIRE_LEN :: nat where "PROFILE_BEGIN_WIRE_LEN = 16"
definition PROFILE_CHUNK_HEADER_LEN :: nat where "PROFILE_CHUNK_HEADER_LEN = 8"
definition PROFILE_CHUNK_MAX_DATA_LEN :: nat where "PROFILE_CHUNK_MAX_DATA_LEN = 96"
definition PROFILE_RESULT_WIRE_LEN :: nat where "PROFILE_RESULT_WIRE_LEN = 12"
definition ACTIVATE_PROFILE_WIRE_LEN :: nat where "ACTIVATE_PROFILE_WIRE_LEN = 8"
definition RAW_ENDPOINT_HEADER_LEN :: nat where "RAW_ENDPOINT_HEADER_LEN = 6"
definition RAW_ENDPOINT_MAX_DATA_LEN :: nat where "RAW_ENDPOINT_MAX_DATA_LEN = 64"
definition RAW_ENDPOINT_MAX_WIRE_LEN :: nat where "RAW_ENDPOINT_MAX_WIRE_LEN = RAW_ENDPOINT_HEADER_LEN + RAW_ENDPOINT_MAX_DATA_LEN"
definition CONTROL_REQUEST_HEADER_LEN :: nat where "CONTROL_REQUEST_HEADER_LEN = 14"
definition CONTROL_RESPONSE_HEADER_LEN :: nat where "CONTROL_RESPONSE_HEADER_LEN = 7"
definition CONTROL_DATA_MAX_LEN :: nat where "CONTROL_DATA_MAX_LEN = 256"

lemmas wire_sizes = STANDARD_INPUT_HEADER_LEN_def STANDARD_INPUT_MAX_LEN_def STANDARD_OUTPUT_MAX_DATA_LEN_def
  STANDARD_OUTPUT_WIRE_LEN_def PROFILE_BEGIN_WIRE_LEN_def PROFILE_CHUNK_HEADER_LEN_def PROFILE_CHUNK_MAX_DATA_LEN_def
  PROFILE_RESULT_WIRE_LEN_def ACTIVATE_PROFILE_WIRE_LEN_def RAW_ENDPOINT_HEADER_LEN_def RAW_ENDPOINT_MAX_DATA_LEN_def
  RAW_ENDPOINT_MAX_WIRE_LEN_def CONTROL_REQUEST_HEADER_LEN_def CONTROL_RESPONSE_HEADER_LEN_def CONTROL_DATA_MAX_LEN_def

datatype message_error = MeInvalidLength | MeInvalidRole | MeInvalidFlags | MeInvalidStatus

section \<open>Greeting and state\<close>

datatype interchip_role = RoleHost | RoleDevice

fun role_byte :: "interchip_role \<Rightarrow> u8" where
  "role_byte RoleHost = 1"
| "role_byte RoleDevice = 2"

record hello =
  hl_role :: interchip_role
  hl_protocol_version :: u8
  hl_firmware_major :: u8
  hl_firmware_minor :: u8
  hl_capabilities :: u32
  hl_active_profile_hash :: u32

definition hello_encode :: "hello \<Rightarrow> bytes" where
  "hello_encode h =
     [role_byte (hl_role h), hl_protocol_version h, hl_firmware_major h, hl_firmware_minor h] @
     to_le 4 (hl_capabilities h) @ to_le 4 (hl_active_profile_hash h)"

definition hello_decode :: "bytes \<Rightarrow> message_error + hello" where
  "hello_decode bs =
     (case bs of
        [role, version, major, minor, c0, c1, c2, c3, h0, h1, h2, h3] \<Rightarrow>
          bindE (if role = 1 then Inr RoleHost else if role = 2 then Inr RoleDevice else Inl MeInvalidRole) (\<lambda>r.
          Inr \<lparr>hl_role = r, hl_protocol_version = version, hl_firmware_major = major, hl_firmware_minor = minor,
               hl_capabilities = from_le [c0, c1, c2, c3], hl_active_profile_hash = from_le [h0, h1, h2, h3]\<rparr>)
      | _ \<Rightarrow> Inl MeInvalidLength)"

record usb_state =
  us_attached :: bool
  us_configured :: bool
  us_fallback_active :: bool
  us_healthy :: bool
  us_active_profile_hash :: u32
  us_error_code :: u16

definition usb_state_encode :: "usb_state \<Rightarrow> bytes" where
  "usb_state_encode s =
     (let flags = (if us_attached s then 1 else 0) OR (if us_configured s then 2 else 0) OR
                  (if us_fallback_active s then 4 else 0) OR (if us_healthy s then 8 else 0)
      in [flags, 0] @ to_le 4 (us_active_profile_hash s) @ to_le 2 (us_error_code s))"

definition usb_state_decode :: "bytes \<Rightarrow> message_error + usb_state" where
  "usb_state_decode bs =
     (case bs of
        [flags, reserved, h0, h1, h2, h3, e0, e1] \<Rightarrow>
          if reserved \<noteq> 0 \<or> flags AND NOT 0x0f \<noteq> 0 then Inl MeInvalidFlags
          else Inr \<lparr>us_attached = (flags AND 1 \<noteq> 0), us_configured = (flags AND 2 \<noteq> 0),
                    us_fallback_active = (flags AND 4 \<noteq> 0), us_healthy = (flags AND 8 \<noteq> 0),
                    us_active_profile_hash = from_le [h0, h1, h2, h3], us_error_code = from_le [e0, e1]\<rparr>
      | _ \<Rightarrow> Inl MeInvalidLength)"

section \<open>Profile transfer messages\<close>

record profile_begin =
  pb_transfer_id :: u32
  pb_total_length :: u32
  pb_crc32 :: u32
  pb_profile_hash :: u32

definition profile_begin_encode :: "profile_begin \<Rightarrow> bytes" where
  "profile_begin_encode b = to_le 4 (pb_transfer_id b) @ to_le 4 (pb_total_length b) @ to_le 4 (pb_crc32 b) @ to_le 4 (pb_profile_hash b)"

definition profile_begin_decode :: "bytes \<Rightarrow> message_error + profile_begin" where
  "profile_begin_decode bs =
     (if length bs \<noteq> PROFILE_BEGIN_WIRE_LEN then Inl MeInvalidLength
      else Inr \<lparr>pb_transfer_id = from_le (subslice 0 4 bs), pb_total_length = from_le (subslice 4 8 bs),
                pb_crc32 = from_le (subslice 8 12 bs), pb_profile_hash = from_le (subslice 12 16 bs)\<rparr>)"

record profile_chunk =
  pk_transfer_id :: u32
  pk_offset :: u32
  pk_data :: bytes

definition profile_chunk_decode :: "bytes \<Rightarrow> message_error + profile_chunk" where
  "profile_chunk_decode bs =
     (if \<not> (PROFILE_CHUNK_HEADER_LEN \<le> length bs \<and> length bs \<le> PROFILE_CHUNK_HEADER_LEN + PROFILE_CHUNK_MAX_DATA_LEN)
      then Inl MeInvalidLength
      else Inr \<lparr>pk_transfer_id = from_le (subslice 0 4 bs), pk_offset = from_le (subslice 4 8 bs),
                pk_data = drop PROFILE_CHUNK_HEADER_LEN bs\<rparr>)"

definition profile_chunk_bytes :: "profile_chunk \<Rightarrow> bytes" where
  "profile_chunk_bytes c = to_le 4 (pk_transfer_id c) @ to_le 4 (pk_offset c) @ pk_data c"

definition profile_chunk_encode :: "profile_chunk \<Rightarrow> bytes \<Rightarrow> (bytes, message_error, nat) outcome" where
  "profile_chunk_encode c out =
     (let len = PROFILE_CHUNK_HEADER_LEN + length (pk_data c) in
      if PROFILE_CHUNK_MAX_DATA_LEN < length (pk_data c) \<or> length out < len then (out, Inl MeInvalidLength)
      else (write_at 0 (profile_chunk_bytes c) out, Inr len))"

record profile_chunk_data =
  pd_transfer_id :: u32
  pd_offset :: u32
  pd_length :: u8
  pd_data :: bytes

definition chunk_from_borrowed :: "profile_chunk \<Rightarrow> message_error + profile_chunk_data" where
  "chunk_from_borrowed c =
     (if PROFILE_CHUNK_MAX_DATA_LEN < length (pk_data c) then Inl MeInvalidLength
      else Inr \<lparr>pd_transfer_id = pk_transfer_id c, pd_offset = pk_offset c, pd_length = of_nat (length (pk_data c)),
                pd_data = write_at 0 (pk_data c) (replicate PROFILE_CHUNK_MAX_DATA_LEN 0)\<rparr>)"

definition chunk_as_borrowed :: "profile_chunk_data \<Rightarrow> profile_chunk" where
  "chunk_as_borrowed d =
     \<lparr>pk_transfer_id = pd_transfer_id d, pk_offset = pd_offset d, pk_data = take (unat (pd_length d)) (pd_data d)\<rparr>"

datatype profile_result_status =
    PsAccepted | PsAlreadyStored | PsInvalidImage | PsUnsupported | PsResourceExhausted | PsStorageError | PsBusy

fun result_status_byte :: "profile_result_status \<Rightarrow> u8" where
  "result_status_byte PsAccepted = 0"
| "result_status_byte PsAlreadyStored = 1"
| "result_status_byte PsInvalidImage = 2"
| "result_status_byte PsUnsupported = 3"
| "result_status_byte PsResourceExhausted = 4"
| "result_status_byte PsStorageError = 5"
| "result_status_byte PsBusy = 6"

definition result_status_of :: "u8 \<Rightarrow> message_error + profile_result_status" where
  "result_status_of b =
     (if b = 0 then Inr PsAccepted else if b = 1 then Inr PsAlreadyStored else if b = 2 then Inr PsInvalidImage
      else if b = 3 then Inr PsUnsupported else if b = 4 then Inr PsResourceExhausted else if b = 5 then Inr PsStorageError
      else if b = 6 then Inr PsBusy else Inl MeInvalidStatus)"

record profile_result =
  pr_transfer_id :: u32
  pr_profile_hash :: u32
  pr_status :: profile_result_status
  pr_reject_reason :: u8
  pr_detail :: u16

definition profile_result_encode :: "profile_result \<Rightarrow> bytes" where
  "profile_result_encode r =
     to_le 4 (pr_transfer_id r) @ to_le 4 (pr_profile_hash r) @ [result_status_byte (pr_status r), pr_reject_reason r] @ to_le 2 (pr_detail r)"

definition profile_result_decode :: "bytes \<Rightarrow> message_error + profile_result" where
  "profile_result_decode bs =
     (if length bs \<noteq> PROFILE_RESULT_WIRE_LEN then Inl MeInvalidLength
      else bindE (result_status_of (bs ! 8)) (\<lambda>status.
        Inr \<lparr>pr_transfer_id = from_le (subslice 0 4 bs), pr_profile_hash = from_le (subslice 4 8 bs),
             pr_status = status, pr_reject_reason = bs ! 9, pr_detail = from_le (subslice 10 12 bs)\<rparr>))"

record activate_profile =
  ap_operation_id :: u32
  ap_profile_hash :: u32

definition activate_profile_encode :: "activate_profile \<Rightarrow> bytes" where
  "activate_profile_encode a = to_le 4 (ap_operation_id a) @ to_le 4 (ap_profile_hash a)"

definition activate_profile_decode :: "bytes \<Rightarrow> message_error + activate_profile" where
  "activate_profile_decode bs =
     (if length bs \<noteq> ACTIVATE_PROFILE_WIRE_LEN then Inl MeInvalidLength
      else Inr \<lparr>ap_operation_id = from_le (subslice 0 4 bs), ap_profile_hash = from_le (subslice 4 8 bs)\<rparr>)"

section \<open>Endpoint and control transfers\<close>

record raw_endpoint_report =
  re_endpoint_address :: u8
  re_packet_sequence :: u16
  re_length :: u8
  re_data :: bytes

definition raw_report_new :: "u8 \<Rightarrow> u16 \<Rightarrow> bytes \<Rightarrow> message_error + raw_endpoint_report" where
  "raw_report_new address sequence data =
     (if RAW_ENDPOINT_MAX_DATA_LEN < length data then Inl MeInvalidLength
      else Inr \<lparr>re_endpoint_address = address, re_packet_sequence = sequence, re_length = of_nat (length data),
                re_data = write_at 0 data (replicate RAW_ENDPOINT_MAX_DATA_LEN 0)\<rparr>)"

definition raw_report_data :: "raw_endpoint_report \<Rightarrow> bytes" where
  "raw_report_data r = take (unat (re_length r)) (re_data r)"

definition raw_report_bytes :: "raw_endpoint_report \<Rightarrow> bytes" where
  "raw_report_bytes r =
     [re_endpoint_address r, 0] @ to_le 2 (re_packet_sequence r) @ to_le 2 (of_nat (length (raw_report_data r)) :: u16) @ raw_report_data r"

definition raw_report_encode :: "raw_endpoint_report \<Rightarrow> bytes \<Rightarrow> (bytes, message_error, nat) outcome" where
  "raw_report_encode r out =
     (let len = RAW_ENDPOINT_HEADER_LEN + length (raw_report_data r) in
      if length out < len then (out, Inl MeInvalidLength) else (write_at 0 (raw_report_bytes r) out, Inr len))"

definition raw_report_decode :: "bytes \<Rightarrow> message_error + raw_endpoint_report" where
  "raw_report_decode bs =
     (if length bs < RAW_ENDPOINT_HEADER_LEN \<or> bs ! 1 \<noteq> 0 \<or>
         unat (from_le (subslice 4 6 bs) :: u16) \<noteq> length bs - RAW_ENDPOINT_HEADER_LEN
      then Inl MeInvalidLength
      else raw_report_new (bs ! 0) (from_le (subslice 2 4 bs)) (drop 6 bs))"

record control_request =
  cq_request_id :: u32
  cq_setup_packet :: bytes
  cq_length :: u16
  cq_data :: bytes

definition control_request_new :: "u32 \<Rightarrow> bytes \<Rightarrow> bytes \<Rightarrow> message_error + control_request" where
  "control_request_new request_id setup data =
     (if CONTROL_DATA_MAX_LEN < length data then Inl MeInvalidLength
      else Inr \<lparr>cq_request_id = request_id, cq_setup_packet = setup, cq_length = of_nat (length data),
                cq_data = write_at 0 data (replicate CONTROL_DATA_MAX_LEN 0)\<rparr>)"

definition control_request_data :: "control_request \<Rightarrow> bytes" where
  "control_request_data r = take (unat (cq_length r)) (cq_data r)"

definition control_request_bytes :: "control_request \<Rightarrow> bytes" where
  "control_request_bytes r =
     to_le 4 (cq_request_id r) @ cq_setup_packet r @ to_le 2 (of_nat (length (control_request_data r)) :: u16) @ control_request_data r"

definition control_request_encode :: "control_request \<Rightarrow> bytes \<Rightarrow> (bytes, message_error, nat) outcome" where
  "control_request_encode r out =
     (let len = CONTROL_REQUEST_HEADER_LEN + length (control_request_data r) in
      if length out < len then (out, Inl MeInvalidLength) else (write_at 0 (control_request_bytes r) out, Inr len))"

definition control_request_decode :: "bytes \<Rightarrow> message_error + control_request" where
  "control_request_decode bs =
     (if length bs < CONTROL_REQUEST_HEADER_LEN \<or>
         unat (from_le (subslice 12 14 bs) :: u16) \<noteq> length bs - CONTROL_REQUEST_HEADER_LEN
      then Inl MeInvalidLength
      else control_request_new (from_le (subslice 0 4 bs)) (subslice 4 12 bs) (drop 14 bs))"

datatype control_status = CsSuccess | CsStall | CsTimeout | CsDisconnected | CsUnsupported

fun control_status_byte :: "control_status \<Rightarrow> u8" where
  "control_status_byte CsSuccess = 0"
| "control_status_byte CsStall = 1"
| "control_status_byte CsTimeout = 2"
| "control_status_byte CsDisconnected = 3"
| "control_status_byte CsUnsupported = 4"

definition control_status_of :: "'e \<Rightarrow> u8 \<Rightarrow> 'e + control_status" where
  "control_status_of err b =
     (if b = 0 then Inr CsSuccess else if b = 1 then Inr CsStall else if b = 2 then Inr CsTimeout
      else if b = 3 then Inr CsDisconnected else if b = 4 then Inr CsUnsupported else Inl err)"

record control_response =
  cp_request_id :: u32
  cp_status :: control_status
  cp_length :: u16
  cp_data :: bytes

definition control_response_new :: "u32 \<Rightarrow> control_status \<Rightarrow> bytes \<Rightarrow> message_error + control_response" where
  "control_response_new request_id status data =
     (if CONTROL_DATA_MAX_LEN < length data then Inl MeInvalidLength
      else Inr \<lparr>cp_request_id = request_id, cp_status = status, cp_length = of_nat (length data),
                cp_data = write_at 0 data (replicate CONTROL_DATA_MAX_LEN 0)\<rparr>)"

definition control_response_data :: "control_response \<Rightarrow> bytes" where
  "control_response_data r = take (unat (cp_length r)) (cp_data r)"

definition with_request_id :: "control_response \<Rightarrow> u32 \<Rightarrow> control_response" where
  "with_request_id r request_id = r\<lparr>cp_request_id := request_id\<rparr>"

definition control_response_bytes :: "control_response \<Rightarrow> bytes" where
  "control_response_bytes r =
     to_le 4 (cp_request_id r) @ [control_status_byte (cp_status r)] @
     to_le 2 (of_nat (length (control_response_data r)) :: u16) @ control_response_data r"

definition control_response_encode :: "control_response \<Rightarrow> bytes \<Rightarrow> (bytes, message_error, nat) outcome" where
  "control_response_encode r out =
     (let len = CONTROL_RESPONSE_HEADER_LEN + length (control_response_data r) in
      if length out < len then (out, Inl MeInvalidLength) else (write_at 0 (control_response_bytes r) out, Inr len))"

definition control_response_decode :: "bytes \<Rightarrow> message_error + control_response" where
  "control_response_decode bs =
     (if length bs < CONTROL_RESPONSE_HEADER_LEN \<or>
         unat (from_le (subslice 5 7 bs) :: u16) \<noteq> length bs - CONTROL_RESPONSE_HEADER_LEN
      then Inl MeInvalidLength
      else bindE (control_status_of MeInvalidStatus (bs ! 4)) (\<lambda>status.
        control_response_new (from_le (subslice 0 4 bs)) status (drop 7 bs)))"

section \<open>Standard reports\<close>

datatype standard_input_error = SiInvalidLength | SiInvalidKind | SiInvalidReportLength
datatype standard_output_error = SoDataTooLong | SoInvalidLength

record standard_input_report =
  si_flags :: u8
  si_sequence :: u16
  si_report :: standard_hid_report

fun report_wire :: "standard_hid_report \<Rightarrow> u8 \<times> bytes" where
  "report_wire (KeyboardReport r) = (1, r)"
| "report_wire (MouseReport r) = (2, r)"
| "report_wire (ConsumerReport r) = (3, r)"

definition standard_input_bytes :: "standard_input_report \<Rightarrow> bytes" where
  "standard_input_bytes s =
     (let (kind, data) = report_wire (si_report s)
      in [kind, si_flags s] @ to_le 2 (si_sequence s) @ [of_nat (length data)] @ data)"

definition standard_input_encode :: "standard_input_report \<Rightarrow> bytes \<times> u8" where
  "standard_input_encode s =
     (write_at 0 (standard_input_bytes s) (replicate STANDARD_INPUT_MAX_LEN 0),
      of_nat (STANDARD_INPUT_HEADER_LEN + length (snd (report_wire (si_report s)))))"

definition standard_input_decode :: "bytes \<Rightarrow> standard_input_error + standard_input_report" where
  "standard_input_decode bs =
     (if length bs < STANDARD_INPUT_HEADER_LEN then Inl SiInvalidLength
      else
        let data_len = unat (bs ! 4) in
        if length bs \<noteq> STANDARD_INPUT_HEADER_LEN + data_len then Inl SiInvalidLength
        else
          let data = drop STANDARD_INPUT_HEADER_LEN bs; kind = bs ! 0 in
          bindE (if kind = 1 \<and> data_len = KEYBOARD_REPORT_LEN then Inr (KeyboardReport data)
                 else if kind = 2 \<and> data_len = MOUSE_REPORT_LEN then Inr (MouseReport data)
                 else if kind = 3 \<and> data_len = CONSUMER_REPORT_LEN then Inr (ConsumerReport (to_le 2 (from_le data :: u16)))
                 else if 1 \<le> kind \<and> kind \<le> 3 then Inl SiInvalidReportLength
                 else Inl SiInvalidKind) (\<lambda>report.
          Inr \<lparr>si_flags = bs ! 1, si_sequence = from_le (subslice 2 4 bs), si_report = report\<rparr>))"

record standard_output_report =
  so_kind :: u8
  so_length :: u8
  so_data :: bytes

definition standard_output_new :: "u8 \<Rightarrow> bytes \<Rightarrow> standard_output_error + standard_output_report" where
  "standard_output_new kind data =
     (if STANDARD_OUTPUT_MAX_DATA_LEN < length data then Inl SoDataTooLong
      else Inr \<lparr>so_kind = kind, so_length = of_nat (length data),
                so_data = write_at 0 data (replicate STANDARD_OUTPUT_MAX_DATA_LEN 0)\<rparr>)"

definition standard_output_data :: "standard_output_report \<Rightarrow> bytes" where
  "standard_output_data r = take (unat (so_length r)) (so_data r)"

definition standard_output_encode :: "standard_output_report \<Rightarrow> bytes" where
  "standard_output_encode r = [so_kind r, so_length r] @ so_data r"

definition standard_output_decode :: "bytes \<Rightarrow> standard_output_error + standard_output_report" where
  "standard_output_decode bs =
     (if length bs \<noteq> STANDARD_OUTPUT_WIRE_LEN then Inl SoInvalidLength
      else
        let len = unat (bs ! 1) in
        if STANDARD_OUTPUT_MAX_DATA_LEN < len \<or> list_ex (\<lambda>b. b \<noteq> 0) (drop (2 + len) bs) then Inl SoInvalidLength
        else Inr \<lparr>so_kind = bs ! 0, so_length = of_nat len, so_data = drop 2 bs\<rparr>)"

section \<open>The contract of a codec\<close>

locale wire_codec =
  fixes valid :: "'a \<Rightarrow> bool" and enc :: "'a \<Rightarrow> bytes" and dec :: "bytes \<Rightarrow> 'e + 'a"
  assumes dec_enc: "valid x \<Longrightarrow> dec (enc x) = Inr x"
    and enc_dec: "dec bs = Inr x \<Longrightarrow> valid x \<and> enc x = bs"
begin

lemma exact: "dec bs = Inr x \<longleftrightarrow> valid x \<and> enc x = bs"
  using dec_enc enc_dec by blast

lemma enc_inject: "valid x \<Longrightarrow> valid y \<Longrightarrow> enc x = enc y \<Longrightarrow> x = y"
  using dec_enc by (metis sum.inject(2))

end

subsection \<open>Padded buffers\<close>

definition padded_ok :: "nat \<Rightarrow> nat \<Rightarrow> bytes \<Rightarrow> bool" where
  "padded_ok cap n buf = (n \<le> cap \<and> length buf = cap \<and> list_all (\<lambda>b. b = 0) (drop n buf))"

lemma write_padded:
  assumes "length d \<le> cap"
  shows "write_at 0 d (replicate cap 0) = d @ replicate (cap - length d) 0"
  using assms by (simp add: write_at_def)

lemma padded_write: "length d \<le> cap \<Longrightarrow> padded_ok cap (length d) (write_at 0 d (replicate cap 0))"
  by (simp add: padded_ok_def write_padded list_all_iff)

lemma padded_rewrite: "padded_ok cap n buf \<Longrightarrow> write_at 0 (take n buf) (replicate cap 0) = buf"
proof -
  assume ok: "padded_ok cap n buf"
  then have "drop n buf = replicate (cap - n) 0" by (intro zeros_eq) (auto simp: padded_ok_def)
  then have "buf = take n buf @ replicate (cap - n) 0" by (metis append_take_drop_id)
  moreover have "length (take n buf) = n" using ok by (simp add: padded_ok_def)
  ultimately show ?thesis using ok by (simp add: write_padded padded_ok_def)
qed

subsection \<open>Little-endian fields\<close>

lemma le2_slice [simp]: "b = a + 2 \<Longrightarrow> b \<le> length bs \<Longrightarrow> to_le 2 (from_le (subslice a b bs) :: u16) = subslice a b bs"
  using le_of_slice[of b a bs, where 'a = 16] by simp

lemma le4_slice [simp]: "b = a + 4 \<Longrightarrow> b \<le> length bs \<Longrightarrow> to_le 4 (from_le (subslice a b bs) :: u32) = subslice a b bs"
  using le_of_slice[of b a bs, where 'a = 32] by simp

lemma le2_list: "to_le 2 (from_le [a, b] :: u16) = [a, b]"
proof -
  have "8 * length [a, b] \<le> LENGTH(16)" and len: "length [a, b] = 2" by simp_all
  from to_le_from_le[OF this(1)] show ?thesis unfolding len .
qed

lemma le4_list: "to_le 4 (from_le [a, b, c, d] :: u32) = [a, b, c, d]"
proof -
  have "8 * length [a, b, c, d] \<le> LENGTH(32)" and len: "length [a, b, c, d] = 4" by simp_all
  from to_le_from_le[OF this(1)] show ?thesis unfolding len .
qed

lemma to_le_2_list: obtains b0 b1 where "to_le 2 w = [b0, b1]"
  by (simp add: eval_nat_numeral)

lemma to_le_4_list: obtains b0 b1 b2 b3 where "to_le 4 w = [b0, b1, b2, b3]"
  by (simp add: eval_nat_numeral)

lemma slice_join: "a \<le> b \<Longrightarrow> b \<le> c \<Longrightarrow> subslice a b xs @ subslice b c xs @ rest = subslice a c xs @ rest"
  using subslice_split[of a b c xs] by (metis append_assoc)

lemma slice_byte: "i < length xs \<Longrightarrow> j = Suc i \<Longrightarrow> xs ! i # rest = subslice i j xs @ rest"
  using subslice_one[of i xs] by simp

lemma first_byte: "n \<le> length xs \<Longrightarrow> 0 < n \<Longrightarrow> [xs ! 0] = subslice 0 (Suc 0) xs"
  using subslice_one[of 0 xs] by (cases xs) auto

lemma slice_rest: "a \<le> length xs \<Longrightarrow> subslice 0 a xs @ drop a xs = xs"
  by (simp add: subslice_def)

lemma slice_whole: "length xs = n \<Longrightarrow> subslice 0 n xs = xs"
  by (simp add: subslice_def)

section \<open>Every message codec meets the contract\<close>

interpretation hello: wire_codec "\<lambda>_. True" hello_encode hello_decode
proof unfold_locales
  fix h :: hello
  obtain c0 c1 c2 c3 where c: "to_le 4 (hl_capabilities h) = [c0, c1, c2, c3]" by (rule to_le_4_list)
  obtain h0 h1 h2 h3 where p: "to_le 4 (hl_active_profile_hash h) = [h0, h1, h2, h3]" by (rule to_le_4_list)
  show "hello_decode (hello_encode h) = Inr h"
    using from_le_4[of "hl_capabilities h"] from_le_4[of "hl_active_profile_hash h"]
    by (cases "hl_role h") (simp_all add: hello_encode_def hello_decode_def c p del: from_le.simps from_le_4)
next
  fix bs and h :: hello
  assume "hello_decode bs = Inr h"
  then show "True \<and> hello_encode h = bs"
    by (auto simp: hello_decode_def hello_encode_def bindE_Inr_iff le4_list simp del: from_le.simps to_le.simps split: list.splits if_splits)
qed

lemma low_flags:
  "\<forall>k\<in>set [0..<16]. let f = of_nat k :: u8 in
     (if f AND 1 \<noteq> 0 then 1 else 0) OR (if f AND 2 \<noteq> 0 then 2 else 0) OR (if f AND 4 \<noteq> 0 then 4 else 0) OR (if f AND 8 \<noteq> 0 then 8 else 0) = f"
  by code_simp

lemma flag_bits:
  fixes f :: u8
  assumes "f AND NOT 0x0f = 0"
  shows "(if f AND 1 \<noteq> 0 then 1 else 0) OR (if f AND 2 \<noteq> 0 then 2 else 0) OR (if f AND 4 \<noteq> 0 then 4 else 0) OR (if f AND 8 \<noteq> 0 then 8 else 0) = f"
proof -
  have hi: "\<not> bit f n" if "4 \<le> n" for n
  proof
    assume "bit f n"
    moreover have "(0x0f :: u8) = mask 4" by (simp add: mask_eq_exp_minus_1)
    then have "\<not> bit (0x0f :: u8) n" using that by (simp only: bit_mask_iff) simp
    ultimately have "bit (f AND NOT 0x0f) n"
      unfolding bit_and_iff bit_not_iff using bit_imp_le_length[of f n] by (simp add: possible_bit_word)
    then show False using assms by simp
  qed
  have "take_bit 4 f = f" by (rule bit_word_eqI) (metis hi bit_take_bit_iff not_le)
  then have "unat f = take_bit 4 (unat f)" by (metis unsigned_take_bit_eq)
  then have "unat f < 16" using take_bit_nat_less_exp[of 4 "unat f"] by simp
  then have "unat f \<in> set [0..<16]" by simp
  from low_flags[rule_format, OF this] show ?thesis by (simp add: Let_def)
qed

lemma all_flags:
  "\<forall>a b c d. let f = (if a then 1 else 0) OR (if b then 2 else 0) OR (if c then 4 else 0) OR (if d then 8 else (0 :: u8)) in
     f AND NOT 0x0f = 0 \<and> (f AND 1 \<noteq> 0) = a \<and> (f AND 2 \<noteq> 0) = b \<and> (f AND 4 \<noteq> 0) = c \<and> (f AND 8 \<noteq> 0) = d"
  by code_simp

interpretation usb_state: wire_codec "\<lambda>_. True" usb_state_encode usb_state_decode
proof unfold_locales
  fix s :: usb_state
  obtain h0 h1 h2 h3 where h: "to_le 4 (us_active_profile_hash s) = [h0, h1, h2, h3]" by (rule to_le_4_list)
  obtain e0 e1 where e: "to_le 2 (us_error_code s) = [e0, e1]" by (rule to_le_2_list)
  show "usb_state_decode (usb_state_encode s) = Inr s"
    using from_le_4[of "us_active_profile_hash s"] from_le_2[of "us_error_code s"]
      all_flags[rule_format, of "us_attached s" "us_configured s" "us_fallback_active s" "us_healthy s"]
    by (simp add: Let_def usb_state_encode_def usb_state_decode_def h e del: from_le.simps from_le_4 from_le_2)
next
  fix bs and s :: usb_state
  assume dec: "usb_state_decode bs = Inr s"
  then obtain f h0 h1 h2 h3 e0 e1 where bs: "bs = [f, 0, h0, h1, h2, h3, e0, e1]" and f: "f AND NOT 0x0f = 0"
    and s: "s = \<lparr>us_attached = (f AND 1 \<noteq> 0), us_configured = (f AND 2 \<noteq> 0), us_fallback_active = (f AND 4 \<noteq> 0),
      us_healthy = (f AND 8 \<noteq> 0), us_active_profile_hash = from_le [h0, h1, h2, h3], us_error_code = from_le [e0, e1]\<rparr>"
    by (auto simp: usb_state_decode_def simp del: from_le.simps split: list.splits if_splits)
  show "True \<and> usb_state_encode s = bs"
    unfolding usb_state_encode_def s usb_state.select_convs flag_bits[OF f] Let_def le2_list le4_list bs by simp
qed

interpretation profile_begin: wire_codec "\<lambda>_. True" profile_begin_encode profile_begin_decode
proof unfold_locales
  fix b :: profile_begin
  show "profile_begin_decode (profile_begin_encode b) = Inr b"
    by (simp add: profile_begin_decode_def profile_begin_encode_def wire_sizes subslice_def)
next
  fix bs and b :: profile_begin
  assume "profile_begin_decode bs = Inr b"
  then show "True \<and> profile_begin_encode b = bs"
    by (auto simp: profile_begin_decode_def profile_begin_encode_def wire_sizes subslice_split slice_join slice_whole split: if_splits)
qed

interpretation activate_profile: wire_codec "\<lambda>_. True" activate_profile_encode activate_profile_decode
proof unfold_locales
  fix a :: activate_profile
  show "activate_profile_decode (activate_profile_encode a) = Inr a"
    by (simp add: activate_profile_decode_def activate_profile_encode_def wire_sizes subslice_def)
next
  fix bs and a :: activate_profile
  assume "activate_profile_decode bs = Inr a"
  then show "True \<and> activate_profile_encode a = bs"
    by (auto simp: activate_profile_decode_def activate_profile_encode_def wire_sizes subslice_split slice_whole split: if_splits)
qed

lemma result_status_exact: "result_status_of b = Inr s \<longleftrightarrow> result_status_byte s = b"
  by (cases s) (auto simp: result_status_of_def)

lemma control_status_exact: "control_status_of err b = Inr s \<longleftrightarrow> control_status_byte s = b"
  by (cases s) (auto simp: control_status_of_def)

interpretation profile_result: wire_codec "\<lambda>_. True" profile_result_encode profile_result_decode
proof unfold_locales
  fix r :: profile_result
  have "result_status_of (result_status_byte (pr_status r)) = Inr (pr_status r)" by (simp add: result_status_exact)
  moreover have "profile_result_encode r ! 8 = result_status_byte (pr_status r)" "profile_result_encode r ! 9 = pr_reject_reason r"
    by (simp_all add: profile_result_encode_def nth_append)
  ultimately show "profile_result_decode (profile_result_encode r) = Inr r"
    by (simp add: profile_result_decode_def wire_sizes) (simp add: profile_result_encode_def subslice_def)
next
  fix bs and r :: profile_result
  assume "profile_result_decode bs = Inr r"
  then have len: "length bs = 12" and st: "result_status_byte (pr_status r) = bs ! 8"
    and r: "pr_transfer_id r = from_le (subslice 0 4 bs)" "pr_profile_hash r = from_le (subslice 4 8 bs)"
      "pr_reject_reason r = bs ! 9" "pr_detail r = from_le (subslice 10 12 bs)"
    by (auto simp: profile_result_decode_def wire_sizes bindE_Inr_iff result_status_exact split: if_splits)
  have "profile_result_encode r = subslice 0 4 bs @ subslice 4 8 bs @ subslice 8 9 bs @ subslice 9 10 bs @ subslice 10 12 bs"
    unfolding profile_result_encode_def r st using len slice_byte[of 8 bs 9] slice_byte[of 9 bs 10] by simp
  then show "True \<and> profile_result_encode r = bs" using len by (simp add: slice_join subslice_split slice_whole)
qed

interpretation profile_chunk: wire_codec "\<lambda>c. length (pk_data c) \<le> PROFILE_CHUNK_MAX_DATA_LEN" profile_chunk_bytes profile_chunk_decode
proof unfold_locales
  fix c :: profile_chunk
  assume "length (pk_data c) \<le> PROFILE_CHUNK_MAX_DATA_LEN"
  then show "profile_chunk_decode (profile_chunk_bytes c) = Inr c"
    by (simp add: profile_chunk_decode_def profile_chunk_bytes_def wire_sizes subslice_def)
next
  fix bs and c :: profile_chunk
  assume "profile_chunk_decode bs = Inr c"
  then show "length (pk_data c) \<le> PROFILE_CHUNK_MAX_DATA_LEN \<and> profile_chunk_bytes c = bs"
    by (auto simp: profile_chunk_decode_def profile_chunk_bytes_def wire_sizes slice_join slice_rest split: if_splits)
qed

lemma of_nat_len16: "n \<le> 256 \<Longrightarrow> unat (of_nat n :: u16) = n"
  by (simp add: unat_of_nat_small)

lemma of_nat_len8: "n < 256 \<Longrightarrow> unat (of_nat n :: u8) = n"
  by (simp add: unat_of_nat_small)

definition raw_report_ok :: "raw_endpoint_report \<Rightarrow> bool" where
  "raw_report_ok r = padded_ok RAW_ENDPOINT_MAX_DATA_LEN (unat (re_length r)) (re_data r)"

interpretation raw_report: wire_codec raw_report_ok raw_report_bytes raw_report_decode
proof unfold_locales
  fix r
  assume ok: "raw_report_ok r"
  let ?d = "raw_report_data r" let ?bs = "raw_report_bytes r"
  have len: "length ?d = unat (re_length r)" "unat (re_length r) \<le> 64"
    using ok by (auto simp: raw_report_ok_def padded_ok_def raw_report_data_def wire_sizes)
  have "raw_report_new (re_endpoint_address r) (re_packet_sequence r) ?d = Inr r"
    using ok len padded_rewrite[of RAW_ENDPOINT_MAX_DATA_LEN "unat (re_length r)" "re_data r"]
    by (simp add: raw_report_new_def raw_report_ok_def raw_report_data_def wire_sizes)
  moreover have "unat (from_le (subslice 4 6 ?bs) :: u16) = length ?d" "from_le (subslice 2 4 ?bs) = re_packet_sequence r" "drop 6 ?bs = ?d"
    using len by (simp_all add: raw_report_bytes_def subslice_def unat_ucast_up)
  moreover have "length ?bs = 6 + length ?d" "?bs ! 0 = re_endpoint_address r" "?bs ! 1 = 0" by (simp_all add: raw_report_bytes_def)
  ultimately show "raw_report_decode ?bs = Inr r" by (simp add: raw_report_decode_def wire_sizes)
next
  fix bs r
  assume dec: "raw_report_decode bs = Inr r"
  let ?d = "drop 6 bs"
  have len: "6 \<le> length bs" "bs ! 1 = 0" "unat (from_le (subslice 4 6 bs) :: u16) = length ?d" "length ?d \<le> 64"
    and r: "r = \<lparr>re_endpoint_address = bs ! 0, re_packet_sequence = from_le (subslice 2 4 bs), re_length = of_nat (length ?d),
        re_data = write_at 0 ?d (replicate 64 0)\<rparr>"
    using dec by (auto simp: raw_report_decode_def raw_report_new_def wire_sizes split: if_splits)
  have d: "raw_report_data r = ?d" "unat (re_length r) = length ?d"
    using len(4) by (simp_all add: r raw_report_data_def of_nat_len8 write_padded)
  have "raw_report_ok r" using padded_write[OF len(4)] d(2) by (simp add: raw_report_ok_def r wire_sizes)
  moreover have "(of_nat (length ?d) :: u16) = from_le (subslice 4 6 bs)" using len(3) by (metis of_nat_unat ucast_id)
  then have "raw_report_bytes r = subslice 0 1 bs @ subslice 1 2 bs @ subslice 2 4 bs @ subslice 4 6 bs @ ?d"
    unfolding raw_report_bytes_def d(1) using len(1,2) first_byte[of 6 bs] slice_byte[of 1 bs 2] by (simp add: r)
  then have "raw_report_bytes r = bs" using len(1) by (simp add: slice_join slice_rest)
  ultimately show "raw_report_ok r \<and> raw_report_bytes r = bs" by simp
qed

definition control_request_ok :: "control_request \<Rightarrow> bool" where
  "control_request_ok r = (length (cq_setup_packet r) = 8 \<and> padded_ok CONTROL_DATA_MAX_LEN (unat (cq_length r)) (cq_data r))"

interpretation control_request: wire_codec control_request_ok control_request_bytes control_request_decode
proof unfold_locales
  fix r
  assume ok: "control_request_ok r"
  let ?d = "control_request_data r" let ?bs = "control_request_bytes r"
  have len: "length ?d = unat (cq_length r)" "unat (cq_length r) \<le> 256" "length (cq_setup_packet r) = 8"
    using ok by (auto simp: control_request_ok_def padded_ok_def control_request_data_def wire_sizes)
  have "control_request_new (cq_request_id r) (cq_setup_packet r) ?d = Inr r"
    using ok len padded_rewrite[of CONTROL_DATA_MAX_LEN "unat (cq_length r)" "cq_data r"]
    by (simp add: control_request_new_def control_request_ok_def control_request_data_def wire_sizes)
  moreover have "unat (from_le (subslice 12 14 ?bs) :: u16) = length ?d" "from_le (subslice 0 4 ?bs) = cq_request_id r"
    "subslice 4 12 ?bs = cq_setup_packet r" "drop 14 ?bs = ?d"
    using len by (simp_all add: control_request_bytes_def subslice_def of_nat_len16)
  moreover have "length ?bs = 14 + length ?d" using len(3) by (simp add: control_request_bytes_def)
  ultimately show "control_request_decode ?bs = Inr r" by (simp add: control_request_decode_def wire_sizes)
next
  fix bs r
  assume dec: "control_request_decode bs = Inr r"
  let ?d = "drop 14 bs"
  have len: "14 \<le> length bs" "unat (from_le (subslice 12 14 bs) :: u16) = length ?d" "length ?d \<le> 256"
    and r: "r = \<lparr>cq_request_id = from_le (subslice 0 4 bs), cq_setup_packet = subslice 4 12 bs, cq_length = of_nat (length ?d),
        cq_data = write_at 0 ?d (replicate 256 0)\<rparr>"
    using dec by (auto simp: control_request_decode_def control_request_new_def wire_sizes split: if_splits)
  have d: "control_request_data r = ?d" "unat (cq_length r) = length ?d"
    using len(3) by (simp_all add: r control_request_data_def of_nat_len16 write_padded)
  have "control_request_ok r" using padded_write[OF len(3)] d(2) len(1) by (simp add: control_request_ok_def r wire_sizes length_subslice)
  moreover have "(of_nat (length ?d) :: u16) = from_le (subslice 12 14 bs)" using len(2) by (metis of_nat_unat ucast_id)
  then have "control_request_bytes r = subslice 0 4 bs @ subslice 4 12 bs @ subslice 12 14 bs @ ?d"
    unfolding control_request_bytes_def d(1) using len(1) by (simp add: r)
  then have "control_request_bytes r = bs" using len(1) by (simp add: slice_join slice_rest)
  ultimately show "control_request_ok r \<and> control_request_bytes r = bs" by simp
qed

definition control_response_ok :: "control_response \<Rightarrow> bool" where
  "control_response_ok r = padded_ok CONTROL_DATA_MAX_LEN (unat (cp_length r)) (cp_data r)"

interpretation control_response: wire_codec control_response_ok control_response_bytes control_response_decode
proof unfold_locales
  fix r
  assume ok: "control_response_ok r"
  let ?d = "control_response_data r" let ?bs = "control_response_bytes r"
  have len: "length ?d = unat (cp_length r)" "unat (cp_length r) \<le> 256"
    using ok by (auto simp: control_response_ok_def padded_ok_def control_response_data_def wire_sizes)
  have "control_response_new (cp_request_id r) (cp_status r) ?d = Inr r"
    using ok len padded_rewrite[of CONTROL_DATA_MAX_LEN "unat (cp_length r)" "cp_data r"]
    by (simp add: control_response_new_def control_response_ok_def control_response_data_def wire_sizes)
  moreover have "unat (from_le (subslice 5 7 ?bs) :: u16) = length ?d" "from_le (subslice 0 4 ?bs) = cp_request_id r" "drop 7 ?bs = ?d"
    using len by (simp_all add: control_response_bytes_def subslice_def of_nat_len16)
  moreover have "length ?bs = 7 + length ?d" "control_status_of MeInvalidStatus (?bs ! 4) = Inr (cp_status r)"
    by (simp_all add: control_response_bytes_def nth_append control_status_exact)
  ultimately show "control_response_decode ?bs = Inr r" by (simp add: control_response_decode_def wire_sizes)
next
  fix bs r
  assume dec: "control_response_decode bs = Inr r"
  let ?d = "drop 7 bs"
  have len: "7 \<le> length bs" "unat (from_le (subslice 5 7 bs) :: u16) = length ?d" "length ?d \<le> 256"
    and st: "control_status_byte (cp_status r) = bs ! 4"
    and r: "cp_request_id r = from_le (subslice 0 4 bs)" "cp_length r = of_nat (length ?d)" "cp_data r = write_at 0 ?d (replicate 256 0)"
    using dec by (auto simp: control_response_decode_def control_response_new_def wire_sizes bindE_Inr_iff control_status_exact split: if_splits)
  have d: "control_response_data r = ?d" "unat (cp_length r) = length ?d"
    using len(3) by (simp_all add: r control_response_data_def of_nat_len16 write_padded)
  have "control_response_ok r" using padded_write[OF len(3)] d(2) by (simp add: control_response_ok_def r wire_sizes)
  moreover have "(of_nat (length ?d) :: u16) = from_le (subslice 5 7 bs)" using len(2) by (metis of_nat_unat ucast_id)
  then have "control_response_bytes r = subslice 0 4 bs @ subslice 4 5 bs @ subslice 5 7 bs @ ?d"
    unfolding control_response_bytes_def d(1) st using len(1) slice_byte[of 4 bs 5] by (simp add: r)
  then have "control_response_bytes r = bs" using len(1) by (simp add: slice_join slice_rest)
  ultimately show "control_response_ok r \<and> control_response_bytes r = bs" by simp
qed

definition standard_output_ok :: "standard_output_report \<Rightarrow> bool" where
  "standard_output_ok r = padded_ok STANDARD_OUTPUT_MAX_DATA_LEN (unat (so_length r)) (so_data r)"

interpretation standard_output: wire_codec standard_output_ok standard_output_encode standard_output_decode
proof unfold_locales
  fix r
  assume "standard_output_ok r"
  then show "standard_output_decode (standard_output_encode r) = Inr r"
    by (auto simp: standard_output_decode_def standard_output_encode_def standard_output_ok_def padded_ok_def wire_sizes list_all_iff list_ex_iff)
next
  fix bs r
  assume dec: "standard_output_decode bs = Inr r"
  then have len: "length bs = 10" and r: "r = \<lparr>so_kind = bs ! 0, so_length = bs ! 1, so_data = drop 2 bs\<rparr>"
    and z: "unat (bs ! 1) \<le> 8" "list_all (\<lambda>b. b = 0) (drop (2 + unat (bs ! 1)) bs)"
    by (auto simp: standard_output_decode_def wire_sizes Let_def list_all_iff list_ex_iff split: if_splits)
  have "standard_output_encode r = subslice 0 1 bs @ subslice 1 2 bs @ drop 2 bs"
    using len first_byte[of 10 bs] slice_byte[of 1 bs 2] by (simp add: r standard_output_encode_def)
  then show "standard_output_ok r \<and> standard_output_encode r = bs"
    using len z by (simp add: slice_join slice_rest standard_output_ok_def r padded_ok_def wire_sizes add.commute)
qed

fun report_ok :: "standard_hid_report \<Rightarrow> bool" where
  "report_ok (KeyboardReport r) = (length r = KEYBOARD_REPORT_LEN)"
| "report_ok (MouseReport r) = (length r = MOUSE_REPORT_LEN)"
| "report_ok (ConsumerReport r) = (length r = CONSUMER_REPORT_LEN)"

lemmas report_lens = KEYBOARD_REPORT_LEN_def MOUSE_REPORT_LEN_def CONSUMER_REPORT_LEN_def

interpretation standard_input: wire_codec "\<lambda>s. report_ok (si_report s)" standard_input_bytes standard_input_decode
proof unfold_locales
  fix s :: standard_input_report
  assume ok: "report_ok (si_report s)"
  obtain q0 q1 where q: "to_le 2 (si_sequence s) = [q0, q1]" by (rule to_le_2_list)
  have fr: "from_le [q0, q1] = si_sequence s" using from_le_2[of "si_sequence s"] q by (simp del: from_le.simps from_le_2)
  show "standard_input_decode (standard_input_bytes s) = Inr s"
  proof (cases "si_report s")
    case (ConsumerReport r)
    then obtain a b where r: "r = [a, b]" using ok by (auto simp: report_lens length_Suc_conv eval_nat_numeral)
    show ?thesis using ok fr le2_list[of a b]
      by (simp add: ConsumerReport r standard_input_decode_def standard_input_bytes_def q wire_sizes report_lens subslice_def del: from_le.simps to_le.simps)
  qed (use ok fr in \<open>simp_all add: standard_input_decode_def standard_input_bytes_def q wire_sizes report_lens subslice_def del: from_le.simps to_le.simps\<close>)
next
  fix bs and s :: standard_input_report
  assume dec: "standard_input_decode bs = Inr s"
  let ?d = "drop 5 bs"
  have len: "5 \<le> length bs" "length bs = 5 + unat (bs ! 4)" and s: "si_flags s = bs ! 1" "si_sequence s = from_le (subslice 2 4 bs)"
    and rep: "report_wire (si_report s) = (bs ! 0, ?d) \<and> report_ok (si_report s)"
    using dec to_le_from_le[of ?d, where 'a = 16]
    by (auto simp: standard_input_decode_def wire_sizes report_lens Let_def bindE_Inr_iff split: if_splits)
  have "(of_nat (length ?d) :: u8) = bs ! 4" using len by simp
  then have "standard_input_bytes s = subslice 0 1 bs @ subslice 1 2 bs @ subslice 2 4 bs @ subslice 4 5 bs @ ?d"
    using rep len(1) first_byte[of 5 bs] slice_byte[of 1 bs 2] slice_byte[of 4 bs 5] by (simp add: standard_input_bytes_def s)
  then show "report_ok (si_report s) \<and> standard_input_bytes s = bs" using rep len(1) by (simp add: slice_join slice_rest)
qed

section \<open>Input batches\<close>

definition INPUT_REPORT_BATCH_MAX_REPORTS :: nat where "INPUT_REPORT_BATCH_MAX_REPORTS = 4"

datatype input_report = IrRaw raw_endpoint_report | IrStandard standard_input_report

text \<open>The record type, the zero-padded buffer and the used length.\<close>

fun input_report_encode :: "input_report \<Rightarrow> u8 \<times> bytes \<times> nat" where
  "input_report_encode (IrRaw r) =
     (RECORD_RAW_ENDPOINT_IN, write_at 0 (raw_report_bytes r) (replicate RAW_ENDPOINT_MAX_WIRE_LEN 0), 6 + length (raw_report_data r))"
| "input_report_encode (IrStandard s) =
     (let (encoded, len) = standard_input_encode s
      in (RECORD_STANDARD_INPUT_REPORT, write_at 0 (take (unat len) encoded) (replicate RAW_ENDPOINT_MAX_WIRE_LEN 0), unat len))"

record input_report_batch =
  ib_payload :: bytes
  ib_payload_len :: u8
  ib_report_count :: u8

definition batch_align4 :: "nat \<Rightarrow> nat" where
  "batch_align4 value = value + 3 - (value + 3) mod 4"

definition push_encoded :: "input_report_batch \<Rightarrow> u8 \<Rightarrow> bytes \<Rightarrow> input_report_batch" where
  "push_encoded b record_type data =
     (let record_len = batch_align4 (RECORD_HEADER_LEN + length data); offset = unat (ib_payload_len b) in
      b\<lparr>ib_payload := write_at offset ([record_type, 0] @ to_le 2 (of_nat (length data) :: u16) @ data) (ib_payload b),
        ib_payload_len := of_nat (offset + record_len), ib_report_count := ib_report_count b + 1\<rparr>)"

definition batch_new :: "input_report \<Rightarrow> input_report_batch" where
  "batch_new report =
     (let (record_type, data, data_len) = input_report_encode report in
      push_encoded \<lparr>ib_payload = replicate SPI_CELL_PAYLOAD_LEN 0, ib_payload_len = 0, ib_report_count = 0\<rparr> record_type (take data_len data))"

definition batch_try_push :: "input_report_batch \<Rightarrow> input_report \<Rightarrow> (input_report_batch, input_report, unit) outcome" where
  "batch_try_push b report =
     (if INPUT_REPORT_BATCH_MAX_REPORTS \<le> unat (ib_report_count b) then (b, Inl report)
      else
        let (record_type, data, data_len) = input_report_encode report;
            record_len = batch_align4 (RECORD_HEADER_LEN + data_len); offset = unat (ib_payload_len b)
        in if SPI_CELL_PAYLOAD_LEN < offset + record_len then (b, Inl report)
           else (push_encoded b record_type (take data_len data), Inr ()))"

definition batch_encoded :: "input_report_batch \<Rightarrow> bytes \<times> u8" where
  "batch_encoded b = (take (unat (ib_payload_len b)) (ib_payload b), ib_report_count b)"

subsection \<open>A batch is the records of its reports\<close>

fun input_report_ok :: "input_report \<Rightarrow> bool" where
  "input_report_ok (IrRaw r) = raw_report_ok r"
| "input_report_ok (IrStandard s) = report_ok (si_report s)"

fun input_record :: "input_report \<Rightarrow> wire_record" where
  "input_record (IrRaw r) = \<lparr>wr_type = RECORD_RAW_ENDPOINT_IN, wr_flags = 0, wr_data = raw_report_bytes r\<rparr>"
| "input_record (IrStandard s) = \<lparr>wr_type = RECORD_STANDARD_INPUT_REPORT, wr_flags = 0, wr_data = standard_input_bytes s\<rparr>"

lemma standard_input_len: "report_ok r \<Longrightarrow> length (snd (report_wire r)) \<le> 8"
  by (cases r) (simp_all add: report_lens)

lemma length_standard_input: "length (standard_input_bytes s) = 5 + length (snd (report_wire (si_report s)))"
  by (cases "report_wire (si_report s)") (simp add: standard_input_bytes_def)

lemma input_report_encode_ok:
  assumes "input_report_ok r"
  shows "\<exists>buf. input_report_encode r = (wr_type (input_record r), buf, length (wr_data (input_record r))) \<and>
    take (length (wr_data (input_record r))) buf = wr_data (input_record r) \<and> length (wr_data (input_record r)) \<le> 70 \<and> wr_flags (input_record r) = 0"
proof (cases r)
  case (IrRaw x)
  then have "length (raw_report_data x) \<le> 64" using assms by (auto simp: raw_report_ok_def padded_ok_def raw_report_data_def wire_sizes)
  moreover have "length (raw_report_bytes x) = 6 + length (raw_report_data x)" by (simp add: raw_report_bytes_def)
  ultimately show ?thesis using IrRaw by (auto simp: write_padded wire_sizes)
next
  case (IrStandard s)
  let ?n = "5 + length (snd (report_wire (si_report s)))"
  have len: "?n \<le> 13" "length (standard_input_bytes s) = ?n"
    using standard_input_len[of "si_report s"] assms IrStandard by (simp_all add: length_standard_input)
  then have "unat (of_nat ?n :: u8) = ?n" by (intro of_nat_len8) simp
  then show ?thesis using IrStandard len
    by (auto simp: standard_input_encode_def Let_def write_padded wire_sizes report_lens)
qed

definition batch_holds :: "input_report list \<Rightarrow> input_report_batch \<Rightarrow> bool" where
  "batch_holds rs b =
     (let n = records_len (map input_record rs) in
      list_all input_report_ok rs \<and> length rs \<le> 4 \<and> n \<le> SPI_CELL_PAYLOAD_LEN \<and>
      ib_payload b = concat (map record_image (map input_record rs)) @ replicate (SPI_CELL_PAYLOAD_LEN - n) 0 \<and>
      ib_payload_len b = of_nat n \<and> ib_report_count b = of_nat (length rs))"

lemma take_images: "take (records_len ws) (concat (map record_image ws) @ zs) = concat (map record_image ws)"
  by (metis append_eq_conv_conj length_images)

lemma batch_align4_padded: "batch_align4 (RECORD_HEADER_LEN + n) = padded n"
  by (simp add: batch_align4_def padded_def)

lemma push_holds:
  assumes "batch_holds rs b" and "input_report_ok r" and "length rs < 4"
    and fits: "records_len (map input_record rs) + padded (length (wr_data (input_record r))) \<le> SPI_CELL_PAYLOAD_LEN"
  shows "batch_holds (rs @ [r]) (push_encoded b (wr_type (input_record r)) (wr_data (input_record r)))"
proof -
  let ?n = "records_len (map input_record rs)" and ?w = "input_record r"
  have flags: "wr_flags ?w = 0" by (cases r) simp_all
  have n: "unat (ib_payload_len b) = ?n" using assms(1,4) by (simp add: batch_holds_def Let_def of_nat_len8 spi_sizes)
  have total: "records_len (map input_record (rs @ [r])) = ?n + padded (length (wr_data ?w))" by (simp add: records_len_def)
  have "write_at ?n ([wr_type ?w, 0] @ to_le 2 (of_nat (length (wr_data ?w)) :: u16) @ wr_data ?w) (ib_payload b) =
      (concat (map record_image (map input_record rs)) @ record_image ?w) @ replicate (SPI_CELL_PAYLOAD_LEN - ?n - padded (length (wr_data ?w))) 0"
    using write_record[of ?w "SPI_CELL_PAYLOAD_LEN - ?n" "concat (map record_image (map input_record rs))"] assms(1) fits
    unfolding length_images batch_holds_def Let_def by (simp add: flags)
  then show ?thesis
    using assms n total unfolding batch_holds_def Let_def
    by (simp add: push_encoded_def Let_def batch_align4_padded diff_diff_add add.commute)
qed

lemma batch_new_holds:
  assumes "input_report_ok r"
  shows "batch_holds [r] (batch_new r)"
proof -
  obtain buf where e: "input_report_encode r = (wr_type (input_record r), buf, length (wr_data (input_record r)))"
    "take (length (wr_data (input_record r))) buf = wr_data (input_record r)" and len: "length (wr_data (input_record r)) \<le> 70"
    using input_report_encode_ok[OF assms] by blast
  have "padded n \<le> SPI_CELL_PAYLOAD_LEN" if "n \<le> 70" for n using that by (simp add: padded_def RECORD_HEADER_LEN_def spi_sizes)
  then have "batch_holds ([] @ [r]) (push_encoded \<lparr>ib_payload = replicate SPI_CELL_PAYLOAD_LEN 0, ib_payload_len = 0, ib_report_count = 0\<rparr>
      (wr_type (input_record r)) (wr_data (input_record r)))"
    using assms len by (intro push_holds) (simp_all add: batch_holds_def records_len_def)
  then show ?thesis using e by (simp add: batch_new_def)
qed

lemma try_push_holds:
  assumes "batch_holds rs b" and "input_report_ok r"
  shows "batch_try_push b r =
    (if length rs < 4 \<and> records_len (map input_record rs) + padded (length (wr_data (input_record r))) \<le> SPI_CELL_PAYLOAD_LEN
     then (push_encoded b (wr_type (input_record r)) (wr_data (input_record r)), Inr ()) else (b, Inl r))"
proof -
  obtain buf where e: "input_report_encode r = (wr_type (input_record r), buf, length (wr_data (input_record r)))"
    "take (length (wr_data (input_record r))) buf = wr_data (input_record r)"
    using input_report_encode_ok[OF assms(2)] by blast
  have "unat (ib_payload_len b) = records_len (map input_record rs)" "unat (ib_report_count b) = length rs"
    using assms(1) by (simp_all add: batch_holds_def Let_def of_nat_len8 spi_sizes)
  then show ?thesis using e by (auto simp: batch_try_push_def INPUT_REPORT_BATCH_MAX_REPORTS_def batch_align4_padded)
qed

fun batch_fill :: "input_report_batch \<Rightarrow> input_report list \<Rightarrow> input_report_batch \<times> input_report list" where
  "batch_fill b [] = (b, [])"
| "batch_fill b (r # rs) =
     (case batch_try_push b r of
        (b', Inl _) \<Rightarrow> (b', r # rs)
      | (b', Inr _) \<Rightarrow> batch_fill b' rs)"

lemma batch_fill_holds:
  "batch_holds rs b \<Longrightarrow> list_all input_report_ok offered \<Longrightarrow>
    \<exists>took left. offered = took @ left \<and> batch_fill b offered = (fst (batch_fill b offered), left) \<and> batch_holds (rs @ took) (fst (batch_fill b offered)) \<and>
      (left \<noteq> [] \<longrightarrow> length (rs @ took) = 4 \<or>
        SPI_CELL_PAYLOAD_LEN < records_len (map input_record (rs @ took)) + padded (length (wr_data (input_record (hd left)))))"
proof (induction offered arbitrary: rs b)
  case Nil
  then show ?case by simp
next
  case (Cons r offered)
  note push = try_push_holds[OF Cons.prems(1), of r]
  show ?case
  proof (cases "length rs < 4 \<and> records_len (map input_record rs) + padded (length (wr_data (input_record r))) \<le> SPI_CELL_PAYLOAD_LEN")
    case True
    let ?b = "push_encoded b (wr_type (input_record r)) (wr_data (input_record r))"
    have "batch_holds (rs @ [r]) ?b" using push_holds[OF Cons.prems(1)] True Cons.prems(2) by simp
    from Cons.IH[OF this] obtain took left where "offered = took @ left" "batch_fill ?b offered = (fst (batch_fill ?b offered), left)"
      "batch_holds (rs @ r # took) (fst (batch_fill ?b offered))"
      "left \<noteq> [] \<longrightarrow> length (rs @ r # took) = 4 \<or>
        SPI_CELL_PAYLOAD_LEN < records_len (map input_record (rs @ r # took)) + padded (length (wr_data (input_record (hd left))))"
      using Cons.prems(2) by auto
    then show ?thesis using push True Cons.prems(2) by (intro exI[of _ "r # took"] exI[of _ left]) simp
  next
    case False
    moreover have "length rs \<le> 4" using Cons.prems(1) by (simp add: batch_holds_def Let_def)
    ultimately show ?thesis using push Cons.prems by (intro exI[of _ "[]"] exI[of _ "r # offered"]) auto
  qed
qed

section \<open>Properties\<close>

text \<open>
  Every message codec of the link is exact. For each of the eleven message types a byte string
  decodes to a message exactly if the message is well formed (its buffer is as long as the type
  says and zero behind its length) and encodes to that very string. So messages arrive as they
  were sent, two messages never share an encoding, and no other byte string is accepted.
\<close>

theorem message_codecs_exact:
  "(hello_decode bs = Inr hl \<longleftrightarrow> hello_encode hl = bs) \<and>
   (usb_state_decode bs = Inr us \<longleftrightarrow> usb_state_encode us = bs) \<and>
   (profile_begin_decode bs = Inr pb \<longleftrightarrow> profile_begin_encode pb = bs) \<and>
   (profile_chunk_decode bs = Inr pk \<longleftrightarrow> length (pk_data pk) \<le> PROFILE_CHUNK_MAX_DATA_LEN \<and> profile_chunk_bytes pk = bs) \<and>
   (profile_result_decode bs = Inr pr \<longleftrightarrow> profile_result_encode pr = bs) \<and>
   (activate_profile_decode bs = Inr ap \<longleftrightarrow> activate_profile_encode ap = bs) \<and>
   (raw_report_decode bs = Inr re \<longleftrightarrow> raw_report_ok re \<and> raw_report_bytes re = bs) \<and>
   (control_request_decode bs = Inr cq \<longleftrightarrow> control_request_ok cq \<and> control_request_bytes cq = bs) \<and>
   (control_response_decode bs = Inr cp \<longleftrightarrow> control_response_ok cp \<and> control_response_bytes cp = bs) \<and>
   (standard_input_decode bs = Inr si \<longleftrightarrow> report_ok (si_report si) \<and> standard_input_bytes si = bs) \<and>
   (standard_output_decode bs = Inr so \<longleftrightarrow> standard_output_ok so \<and> standard_output_encode so = bs)"
  by (simp only: hello.exact usb_state.exact profile_begin.exact profile_chunk.exact profile_result.exact activate_profile.exact
      raw_report.exact control_request.exact control_response.exact standard_input.exact standard_output.exact simp_thms)

text \<open>
  A batch carries a prefix of the reports offered to it, in order. Filling a batch takes
  reports until four are in it or the next one no longer fits into a cell, and hands the rest
  back; reading the batch's records back gives exactly the reports taken, each decoding to
  itself, with nothing left over.
\<close>

theorem input_batch_keeps_order:
  assumes "list_all input_report_ok (r # offered)"
  shows "\<exists>took left. offered = took @ left \<and> snd (batch_fill (batch_new r) offered) = left \<and> length (r # took) \<le> INPUT_REPORT_BATCH_MAX_REPORTS \<and>
    (left \<noteq> [] \<longrightarrow> length (r # took) = INPUT_REPORT_BATCH_MAX_REPORTS \<or>
      SPI_CELL_PAYLOAD_LEN < records_len (map input_record (r # took)) + padded (length (wr_data (input_record (hd left))))) \<and>
    (case batch_encoded (fst (batch_fill (batch_new r) offered)) of (payload, count) \<Rightarrow>
       case iter_collect (record_iter_new payload count) of (records, it) \<Rightarrow>
         records = map (Inr \<circ> input_record) (r # took) \<and> record_iter_finish it = Inr ()) \<and>
    (\<forall>x. IrRaw x \<in> set (r # took) \<longrightarrow> raw_report_decode (wr_data (input_record (IrRaw x))) = Inr x) \<and>
    (\<forall>x. IrStandard x \<in> set (r # took) \<longrightarrow> standard_input_decode (wr_data (input_record (IrStandard x))) = Inr x)"
proof -
  let ?b = "fst (batch_fill (batch_new r) offered)"
  obtain took left where split: "offered = took @ left" "batch_fill (batch_new r) offered = (?b, left)" and holds: "batch_holds (r # took) ?b"
    and stop: "left \<noteq> [] \<longrightarrow> length (r # took) = 4 \<or>
        SPI_CELL_PAYLOAD_LEN < records_len (map input_record (r # took)) + padded (length (wr_data (input_record (hd left))))"
    using batch_fill_holds[OF batch_new_holds[of r], of offered] assms by auto
  let ?ws = "map input_record (r # took)" let ?n = "records_len ?ws"
  have h: "length (r # took) \<le> 4" "?n \<le> SPI_CELL_PAYLOAD_LEN" "list_all input_report_ok (r # took)"
    "ib_payload ?b = concat (map record_image ?ws) @ replicate (SPI_CELL_PAYLOAD_LEN - ?n) 0" "ib_payload_len ?b = of_nat ?n"
    "ib_report_count ?b = of_nat (length ?ws)"
    using holds by (simp_all only: batch_holds_def Let_def length_map)
  have small: "list_all (\<lambda>w. length (wr_data w) \<le> 0xffff) ?ws"
    unfolding list_all_iff
  proof
    fix w
    assume "w \<in> set ?ws"
    then obtain x where "w = input_record x" "input_report_ok x" using h(3) by (auto simp: list_all_iff)
    then show "length (wr_data w) \<le> 0xffff" using input_report_encode_ok[of x] by auto
  qed
  have "unat (ib_payload_len ?b) = ?n" using h(2,5) by (simp add: of_nat_len8 spi_sizes)
  then have "batch_encoded ?b = (concat (map record_image ?ws), of_nat (length ?ws))"
    unfolding batch_encoded_def h(4,6) by (simp only: take_images)
  moreover have "iter_collect (record_iter_new (concat (map record_image ?ws)) (of_nat (length ?ws))) =
      (map Inr ?ws, \<lparr>ri_bytes = concat (map record_image ?ws), ri_offset = ?n, ri_remaining = 0, ri_failed = False\<rparr>)"
    using collect_records[OF small, of "[]" "[]"] h(1) unfolding record_iter_new_def by (simp only: append_Nil append_Nil2 list.size(3) add_0 length_map)
  ultimately have "case batch_encoded ?b of (payload, count) \<Rightarrow> case iter_collect (record_iter_new payload count) of (records, it) \<Rightarrow>
         records = map (Inr \<circ> input_record) (r # took) \<and> record_iter_finish it = Inr ()"
    by (simp only: prod.case) (simp add: record_iter_finish_def length_images[of ?ws, simplified])
  moreover have "raw_report_decode (wr_data (input_record (IrRaw x))) = Inr x" if "IrRaw x \<in> set (r # took)" for x
    using that h(3) raw_report.dec_enc[of x] by (auto simp: list_all_iff)
  moreover have "standard_input_decode (wr_data (input_record (IrStandard x))) = Inr x" if "IrStandard x \<in> set (r # took)" for x
    using that h(3) standard_input.dec_enc[of x] by (auto simp: list_all_iff)
  moreover have "snd (batch_fill (batch_new r) offered) = left" using split(2) by (metis snd_conv)
  ultimately show ?thesis
    using split(1) stop h(1) unfolding INPUT_REPORT_BATCH_MAX_REPORTS_def
    by - (rule exI[of _ took], rule exI[of _ left], simp)
qed

definition four_mice :: "input_report list" where
  "four_mice = map (\<lambda>q. IrStandard \<lparr>si_flags = 0, si_sequence = q, si_report = MouseReport (replicate MOUSE_REPORT_LEN 0)\<rparr>) [2, 3, 4, 5]"

theorem input_batch_keeps_order_witness:
  "\<exists>took left. four_mice = took @ left \<and>
     snd (batch_fill (batch_new (IrStandard \<lparr>si_flags = 0, si_sequence = 1, si_report = ConsumerReport [9, 0]\<rparr>)) four_mice) = left \<and> length took \<le> 3"
proof -
  let ?r = "IrStandard \<lparr>si_flags = 0, si_sequence = 1, si_report = ConsumerReport [9, 0]\<rparr>"
  have "list_all input_report_ok (?r # four_mice)" by (simp add: four_mice_def report_lens)
  from input_batch_keeps_order[OF this] show ?thesis by (auto simp: INPUT_REPORT_BATCH_MAX_REPORTS_def)
qed

end
