(* ===== verification/HS_Fragment.thy ===== *)
theory HS_Fragment
  imports HS_Message
begin

unbundle bit_operations_syntax

text \<open>
  Control transfers longer than a cell travel in fragments (\<open>interchip/control_fragment.rs\<close>).
  The theory models the fragments with their codecs and both assemblers. A locale states what an
  assembler is, as a refinement of an abstract one that only keeps the message being collected;
  the two theorems about reassembly are proved there once. The fragment and assembler arrays have
  the lengths of the source; that no copy leaves them is part of the assembler invariant.
\<close>

section \<open>Fragments\<close>

definition CONTROL_FRAGMENT_FIRST :: u8 where "CONTROL_FRAGMENT_FIRST = 1"
definition CONTROL_FRAGMENT_LAST :: u8 where "CONTROL_FRAGMENT_LAST = 2"
definition CONTROL_FRAGMENT_DATA_MAX_LEN :: nat where "CONTROL_FRAGMENT_DATA_MAX_LEN = 86"
definition CONTROL_REQUEST_FRAGMENT_HEADER_LEN :: nat where "CONTROL_REQUEST_FRAGMENT_HEADER_LEN = 18"
definition CONTROL_RESPONSE_FRAGMENT_HEADER_LEN :: nat where "CONTROL_RESPONSE_FRAGMENT_HEADER_LEN = 10"
definition CONTROL_REQUEST_FRAGMENT_MAX_WIRE_LEN :: nat where
  "CONTROL_REQUEST_FRAGMENT_MAX_WIRE_LEN = CONTROL_REQUEST_FRAGMENT_HEADER_LEN + CONTROL_FRAGMENT_DATA_MAX_LEN"
definition CONTROL_RESPONSE_FRAGMENT_MAX_WIRE_LEN :: nat where
  "CONTROL_RESPONSE_FRAGMENT_MAX_WIRE_LEN = CONTROL_RESPONSE_FRAGMENT_HEADER_LEN + CONTROL_FRAGMENT_DATA_MAX_LEN"

lemmas fragment_sizes = CONTROL_FRAGMENT_FIRST_def CONTROL_FRAGMENT_LAST_def CONTROL_FRAGMENT_DATA_MAX_LEN_def
  CONTROL_REQUEST_FRAGMENT_HEADER_LEN_def CONTROL_RESPONSE_FRAGMENT_HEADER_LEN_def

datatype control_fragment_error = CfMalformed | CfOutOfOrder | CfTooLarge

definition fragment_bounds :: "nat \<Rightarrow> nat \<Rightarrow> control_fragment_error + unit" where
  "fragment_bounds total_length offset =
     (if CONTROL_DATA_MAX_LEN < total_length \<or> total_length < offset then Inl CfTooLarge
      else if total_length \<noteq> 0 \<and> offset = total_length then Inl CfOutOfOrder
      else Inr ())"

definition fragment_flags :: "nat \<Rightarrow> nat \<Rightarrow> nat \<Rightarrow> u8" where
  "fragment_flags offset fin total_length =
     (of_bool (offset = 0) * CONTROL_FRAGMENT_FIRST) OR (of_bool (fin = total_length) * CONTROL_FRAGMENT_LAST)"

definition validate_fragment :: "u8 \<Rightarrow> u16 \<Rightarrow> u16 \<Rightarrow> nat \<Rightarrow> control_fragment_error + unit" where
  "validate_fragment flags offset total_length data_length =
     (if flags AND NOT (CONTROL_FRAGMENT_FIRST OR CONTROL_FRAGMENT_LAST) \<noteq> 0
         \<or> CONTROL_DATA_MAX_LEN < unat total_length
         \<or> unat total_length < unat offset + data_length
         \<or> (flags AND CONTROL_FRAGMENT_FIRST \<noteq> 0) \<noteq> (offset = 0)
         \<or> (flags AND CONTROL_FRAGMENT_LAST \<noteq> 0) \<noteq> (unat offset + data_length = unat total_length)
      then Inl CfMalformed else Inr ())"

record request_fragment =
  qf_request_id :: u32
  qf_setup_packet :: bytes
  qf_offset :: u16
  qf_total_length :: u16
  qf_flags :: u8
  qf_length :: u8
  qf_data :: bytes

definition request_fragment_of :: "control_request \<Rightarrow> nat \<Rightarrow> control_fragment_error + request_fragment" where
  "request_fragment_of request offset =
     (let payload = control_request_data request in
      bindE (fragment_bounds (length payload) offset) (\<lambda>_.
        let fin = min (length payload) (offset + CONTROL_FRAGMENT_DATA_MAX_LEN) in
        Inr \<lparr>qf_request_id = cq_request_id request, qf_setup_packet = cq_setup_packet request,
             qf_offset = of_nat offset, qf_total_length = of_nat (length payload),
             qf_flags = fragment_flags offset fin (length payload), qf_length = of_nat (fin - offset),
             qf_data = write_at 0 (subslice offset fin payload) (replicate CONTROL_FRAGMENT_DATA_MAX_LEN 0)\<rparr>))"

definition request_fragment_data :: "request_fragment \<Rightarrow> bytes" where
  "request_fragment_data f = take (unat (qf_length f)) (qf_data f)"

definition request_fragment_bytes :: "request_fragment \<Rightarrow> bytes" where
  "request_fragment_bytes f =
     to_le 4 (qf_request_id f) @ [qf_flags f] @ [0] @ to_le 2 (qf_offset f) @ to_le 2 (qf_total_length f) @
     qf_setup_packet f @ request_fragment_data f"

definition request_fragment_encode :: "request_fragment \<Rightarrow> bytes \<Rightarrow> (bytes, message_error, nat) outcome" where
  "request_fragment_encode f out =
     (let len = CONTROL_REQUEST_FRAGMENT_HEADER_LEN + length (request_fragment_data f) in
      if length out < len then (out, Inl MeInvalidLength) else (write_at 0 (request_fragment_bytes f) out, Inr len))"

definition request_fragment_decode :: "bytes \<Rightarrow> control_fragment_error + request_fragment" where
  "request_fragment_decode bs =
     (if length bs < CONTROL_REQUEST_FRAGMENT_HEADER_LEN \<or> bs ! 5 \<noteq> 0
         \<or> CONTROL_FRAGMENT_DATA_MAX_LEN < length bs - CONTROL_REQUEST_FRAGMENT_HEADER_LEN
      then Inl CfMalformed
      else let offset = from_le (subslice 6 8 bs); total_length = from_le (subslice 8 10 bs) in
        bindE (validate_fragment (bs ! 4) offset total_length (length bs - CONTROL_REQUEST_FRAGMENT_HEADER_LEN)) (\<lambda>_.
          Inr \<lparr>qf_request_id = from_le (subslice 0 4 bs), qf_setup_packet = subslice 10 18 bs,
               qf_offset = offset, qf_total_length = total_length, qf_flags = bs ! 4,
               qf_length = of_nat (length bs - CONTROL_REQUEST_FRAGMENT_HEADER_LEN),
               qf_data = write_at 0 (drop 18 bs) (replicate CONTROL_FRAGMENT_DATA_MAX_LEN 0)\<rparr>))"

record response_fragment =
  rf_request_id :: u32
  rf_status :: control_status
  rf_offset :: u16
  rf_total_length :: u16
  rf_flags :: u8
  rf_length :: u8
  rf_data :: bytes

definition response_fragment_of :: "control_response \<Rightarrow> nat \<Rightarrow> control_fragment_error + response_fragment" where
  "response_fragment_of response offset =
     (let payload = control_response_data response in
      bindE (fragment_bounds (length payload) offset) (\<lambda>_.
        let fin = min (length payload) (offset + CONTROL_FRAGMENT_DATA_MAX_LEN) in
        Inr \<lparr>rf_request_id = cp_request_id response, rf_status = cp_status response,
             rf_offset = of_nat offset, rf_total_length = of_nat (length payload),
             rf_flags = fragment_flags offset fin (length payload), rf_length = of_nat (fin - offset),
             rf_data = write_at 0 (subslice offset fin payload) (replicate CONTROL_FRAGMENT_DATA_MAX_LEN 0)\<rparr>))"

definition response_fragment_data :: "response_fragment \<Rightarrow> bytes" where
  "response_fragment_data f = take (unat (rf_length f)) (rf_data f)"

definition response_fragment_bytes :: "response_fragment \<Rightarrow> bytes" where
  "response_fragment_bytes f =
     to_le 4 (rf_request_id f) @ [control_status_byte (rf_status f)] @ [rf_flags f] @ to_le 2 (rf_offset f) @
     to_le 2 (rf_total_length f) @ response_fragment_data f"

definition response_fragment_encode :: "response_fragment \<Rightarrow> bytes \<Rightarrow> (bytes, message_error, nat) outcome" where
  "response_fragment_encode f out =
     (let len = CONTROL_RESPONSE_FRAGMENT_HEADER_LEN + length (response_fragment_data f) in
      if length out < len then (out, Inl MeInvalidLength) else (write_at 0 (response_fragment_bytes f) out, Inr len))"

definition response_fragment_decode :: "bytes \<Rightarrow> control_fragment_error + response_fragment" where
  "response_fragment_decode bs =
     (if length bs < CONTROL_RESPONSE_FRAGMENT_HEADER_LEN
         \<or> CONTROL_FRAGMENT_DATA_MAX_LEN < length bs - CONTROL_RESPONSE_FRAGMENT_HEADER_LEN
      then Inl CfMalformed
      else bindE (control_status_of CfMalformed (bs ! 4)) (\<lambda>status.
        let offset = from_le (subslice 6 8 bs); total_length = from_le (subslice 8 10 bs) in
        bindE (validate_fragment (bs ! 5) offset total_length (length bs - CONTROL_RESPONSE_FRAGMENT_HEADER_LEN)) (\<lambda>_.
          Inr \<lparr>rf_request_id = from_le (subslice 0 4 bs), rf_status = status,
               rf_offset = offset, rf_total_length = total_length, rf_flags = bs ! 5,
               rf_length = of_nat (length bs - CONTROL_RESPONSE_FRAGMENT_HEADER_LEN),
               rf_data = write_at 0 (drop 10 bs) (replicate CONTROL_FRAGMENT_DATA_MAX_LEN 0)\<rparr>)))"

section \<open>Assemblers\<close>

record request_assembler =
  qa_request_id :: "u32 option"
  qa_setup_packet :: bytes
  qa_total_length :: u16
  qa_next_offset :: u16
  qa_data :: bytes

definition request_assembler_new :: request_assembler where
  "request_assembler_new = \<lparr>qa_request_id = None, qa_setup_packet = replicate 8 0, qa_total_length = 0,
     qa_next_offset = 0, qa_data = replicate CONTROL_DATA_MAX_LEN 0\<rparr>"

definition request_assembler_reset :: "request_assembler \<Rightarrow> request_assembler" where
  "request_assembler_reset a = a\<lparr>qa_request_id := None, qa_total_length := 0, qa_next_offset := 0\<rparr>"

definition request_assembler_push ::
  "request_assembler \<Rightarrow> request_fragment \<Rightarrow> (request_assembler, control_fragment_error, control_request option) outcome" where
  "request_assembler_push a0 f =
     (let a = (if qf_flags f AND CONTROL_FRAGMENT_FIRST \<noteq> 0
               then a0\<lparr>qa_request_id := Some (qf_request_id f), qa_setup_packet := qf_setup_packet f,
                       qa_total_length := qf_total_length f, qa_next_offset := 0\<rparr>
               else a0) in
      if qa_request_id a \<noteq> Some (qf_request_id f) \<or> qa_setup_packet a \<noteq> qf_setup_packet f
         \<or> qa_total_length a \<noteq> qf_total_length f \<or> qa_next_offset a \<noteq> qf_offset f
      then (request_assembler_reset a, Inl CfOutOfOrder)
      else let fin = unat (qf_offset f) + length (request_fragment_data f);
               a = a\<lparr>qa_data := write_at (unat (qf_offset f)) (request_fragment_data f) (qa_data a),
                     qa_next_offset := of_nat fin\<rparr> in
        if qf_flags f AND CONTROL_FRAGMENT_LAST = 0 then (a, Inr None)
        else case control_request_new (qf_request_id f) (qf_setup_packet f) (take fin (qa_data a)) of
            Inl _ \<Rightarrow> (a, Inl CfMalformed)
          | Inr request \<Rightarrow> (request_assembler_reset a, Inr (Some request)))"

record response_assembler =
  pa_request_id :: "u32 option"
  pa_status :: control_status
  pa_total_length :: u16
  pa_next_offset :: u16
  pa_data :: bytes

definition response_assembler_new :: response_assembler where
  "response_assembler_new = \<lparr>pa_request_id = None, pa_status = CsSuccess, pa_total_length = 0,
     pa_next_offset = 0, pa_data = replicate CONTROL_DATA_MAX_LEN 0\<rparr>"

definition response_assembler_reset :: "response_assembler \<Rightarrow> response_assembler" where
  "response_assembler_reset a = a\<lparr>pa_request_id := None, pa_total_length := 0, pa_next_offset := 0\<rparr>"

definition response_assembler_push ::
  "response_assembler \<Rightarrow> response_fragment \<Rightarrow> (response_assembler, control_fragment_error, control_response option) outcome" where
  "response_assembler_push a0 f =
     (let a = (if rf_flags f AND CONTROL_FRAGMENT_FIRST \<noteq> 0
               then a0\<lparr>pa_request_id := Some (rf_request_id f), pa_status := rf_status f,
                       pa_total_length := rf_total_length f, pa_next_offset := 0\<rparr>
               else a0) in
      if pa_request_id a \<noteq> Some (rf_request_id f) \<or> pa_status a \<noteq> rf_status f
         \<or> pa_total_length a \<noteq> rf_total_length f \<or> pa_next_offset a \<noteq> rf_offset f
      then (response_assembler_reset a, Inl CfOutOfOrder)
      else let fin = unat (rf_offset f) + length (response_fragment_data f);
               a = a\<lparr>pa_data := write_at (unat (rf_offset f)) (response_fragment_data f) (pa_data a),
                     pa_next_offset := of_nat fin\<rparr> in
        if rf_flags f AND CONTROL_FRAGMENT_LAST = 0 then (a, Inr None)
        else case control_response_new (rf_request_id f) (rf_status f) (take fin (pa_data a)) of
            Inl _ \<Rightarrow> (a, Inl CfMalformed)
          | Inr response \<Rightarrow> (response_assembler_reset a, Inr (Some response)))"

section \<open>What an assembler does\<close>

definition spec_push ::
  "('k \<Rightarrow> nat) \<Rightarrow> ('k \<Rightarrow> bytes \<Rightarrow> 'm) \<Rightarrow> ('k \<times> bytes) option \<Rightarrow> 'k \<Rightarrow> nat \<Rightarrow> bytes
    \<Rightarrow> ('k \<times> bytes) option \<times> (control_fragment_error + 'm option)" where
  "spec_push whole build c k n d =
     (case if n = 0 then Some (k, []) else c of
        None \<Rightarrow> (None, Inl CfOutOfOrder)
      | Some (k', bs) \<Rightarrow>
          if k' \<noteq> k \<or> length bs \<noteq> n then (None, Inl CfOutOfOrder)
          else if n + length d = whole k then (None, Inr (Some (build k (bs @ d))))
          else (Some (k, bs @ d), Inr None))"

fun feed :: "('s \<Rightarrow> 'f \<Rightarrow> ('s, 'e, 'm option) outcome) \<Rightarrow> 's \<Rightarrow> 'f list \<Rightarrow> 's \<times> ('e + 'm option) list" where
  "feed push s [] = (s, [])"
| "feed push s (f # fs) = (case push s f of (s', r) \<Rightarrow> case feed push s' fs of (s'', rs) \<Rightarrow> (s'', r # rs))"

lemma feed_append: "feed push s (fs @ gs) =
    (case feed push s fs of (s', rs) \<Rightarrow> case feed push s' gs of (s'', rs') \<Rightarrow> (s'', rs @ rs'))"
  by (induction fs arbitrary: s) (simp_all split: prod.splits)

text \<open>Fragments of one message that follow each other without a gap.\<close>

fun adjoining :: "('f \<Rightarrow> 'k) \<Rightarrow> ('f \<Rightarrow> nat) \<Rightarrow> ('f \<Rightarrow> bytes) \<Rightarrow> 'k \<Rightarrow> nat \<Rightarrow> 'f list \<Rightarrow> bool" where
  "adjoining key off dat k n [] = True"
| "adjoining key off dat k n (f # fs) = (key f = k \<and> off f = n \<and> adjoining key off dat k (n + length (dat f)) fs)"

lemma adjoining_append: "adjoining key off dat k n (fs @ [f]) \<longleftrightarrow>
    adjoining key off dat k n fs \<and> key f = k \<and> off f = n + length (concat (map dat fs))"
  by (induction fs arbitrary: n) (auto simp: add.assoc)

locale assembler =
  fixes push :: "'s \<Rightarrow> 'f \<Rightarrow> ('s, control_fragment_error, 'm option) outcome"
    and state_ok :: "'s \<Rightarrow> bool" and cur :: "'s \<Rightarrow> ('k \<times> bytes) option"
    and frag_ok :: "'f \<Rightarrow> bool" and key :: "'f \<Rightarrow> 'k" and off :: "'f \<Rightarrow> nat" and dat :: "'f \<Rightarrow> bytes"
    and whole :: "'k \<Rightarrow> nat" and build :: "'k \<Rightarrow> bytes \<Rightarrow> 'm"
  assumes push_refines: "state_ok s \<Longrightarrow> frag_ok f \<Longrightarrow>
      state_ok (fst (push s f)) \<and>
      (cur (fst (push s f)), snd (push s f)) = spec_push whole build (cur s) (key f) (off f) (dat f)"
begin

lemma push_ok: "state_ok s \<Longrightarrow> frag_ok f \<Longrightarrow> state_ok (fst (push s f))"
  using push_refines by blast

lemma push_cur: "state_ok s \<Longrightarrow> frag_ok f \<Longrightarrow> push s f = (s', r) \<Longrightarrow>
    spec_push whole build (cur s) (key f) (off f) (dat f) = (cur s', r)"
  using push_refines[of s f] by simp

lemma feed_ok: "state_ok s \<Longrightarrow> list_all frag_ok fs \<Longrightarrow> state_ok (fst (feed push s fs))"
proof (induction fs arbitrary: s)
  case (Cons f fs)
  obtain s' r where p: "push s f = (s', r)" by (cases "push s f")
  then have "state_ok s'" using push_ok[of s f] Cons.prems by simp
  from Cons.IH[OF this] p Cons.prems(2) show ?case by (auto split: prod.splits)
qed simp

text \<open>The fragments of one message, in order, are collected whatever came before.\<close>

lemma feed_prefix:
  assumes "state_ok s" "list_all frag_ok fs" "adjoining key off dat k n fs" "n = 0 \<or> cur s = Some (k, bs)" "length bs = n" "fs \<noteq> []"
    "\<forall>f \<in> set fs. off f + length (dat f) \<noteq> whole k"
  shows "cur (fst (feed push s fs)) = Some (k, bs @ concat (map dat fs)) \<and> snd (feed push s fs) = replicate (length fs) (Inr None)"
  using assms
proof (induction fs arbitrary: s n bs)
  case (Cons f fs)
  obtain s' r where p: "push s f = (s', r)" by (cases "push s f")
  have sp: "spec_push whole build (cur s) (key f) (off f) (dat f) = (cur s', r)"
    using push_cur[OF Cons.prems(1) _ p] Cons.prems(2) by simp
  have r: "r = Inr None" "cur s' = Some (k, bs @ dat f)"
    using sp Cons.prems by (auto simp: spec_push_def split: if_splits)
  have s': "state_ok s'" using push_ok[of s f] Cons.prems p by simp
  show ?case
  proof (cases "fs = []")
    case False
    have "length (bs @ dat f) = n + length (dat f)" using Cons.prems by simp
    from Cons.IH[OF s' _ _ _ this False] show ?thesis using Cons.prems r p by (auto split: prod.splits)
  qed (use p r in simp)
qed simp

lemma in_order:
  assumes "state_ok s" "list_all frag_ok (fs @ [f])" "adjoining key off dat k 0 (fs @ [f])"
    "\<forall>g \<in> set fs. off g + length (dat g) \<noteq> whole k" "length (concat (map dat (fs @ [f]))) = whole k"
  shows "cur (fst (feed push s (fs @ [f]))) = None \<and>
    snd (feed push s (fs @ [f])) = replicate (length fs) (Inr None) @ [Inr (Some (build k (concat (map dat (fs @ [f])))))]"
proof -
  obtain s' rs where fd: "feed push s fs = (s', rs)" by (cases "feed push s fs")
  obtain s'' r where p: "push s' f = (s'', r)" by (cases "push s' f")
  have "state_ok s'" using feed_ok[of s fs] assms(1,2) fd by simp
  then have sp: "spec_push whole build (cur s') (key f) (off f) (dat f) = (cur s'', r)" using push_cur p assms(2) by simp
  have f: "key f = k" "off f = length (concat (map dat fs))" using assms(3) by (simp_all add: adjoining_append)
  have pre: "rs = replicate (length fs) (Inr None) \<and> (fs = [] \<or> cur s' = Some (k, concat (map dat fs)))"
  proof (cases "fs = []")
    case False
    have "list_all frag_ok fs" "adjoining key off dat k 0 fs" using assms(2,3) by (simp_all add: adjoining_append)
    from feed_prefix[OF assms(1) this _ _ False assms(4), of "[]"] fd show ?thesis by simp
  qed (use fd in simp)
  have "cur s'' = None \<and> r = Inr (Some (build k (concat (map dat (fs @ [f])))))"
  proof (cases "off f = 0")
    case True
    then have e: "concat (map dat (fs @ [f])) = dat f" using f(2) by simp
    show ?thesis using sp True f(1) assms(5) unfolding e by (simp add: spec_push_def)
  next
    case False
    define d where "d = concat (map dat fs)"
    have "cur s' = Some (k, d)" "off f = length d" "length d + length (dat f) = whole k" "concat (map dat (fs @ [f])) = d @ dat f"
      using False pre f(2) assms(5) by (auto simp: d_def)
    then show ?thesis using sp False f(1) by (simp add: spec_push_def)
  qed
  then show ?thesis using fd p pre by (simp add: feed_append)
qed

text \<open>A message is only ever put together from an uninterrupted run of its own fragments.\<close>

lemma collected:
  assumes "state_ok s" "cur s = None" "list_all frag_ok fs" "cur (fst (feed push s fs)) = Some (k, bs)"
  shows "\<exists>hs gs. fs = hs @ gs \<and> adjoining key off dat k 0 gs \<and> bs = concat (map dat gs)"
  using assms(3,4)
proof (induction fs arbitrary: k bs rule: rev_induct)
  case (snoc f fs)
  obtain s' rs where fd: "feed push s fs = (s', rs)" by (cases "feed push s fs")
  obtain s'' r where p: "push s' f = (s'', r)" by (cases "push s' f")
  have "state_ok s'" using feed_ok[of s fs] assms(1) snoc.prems(1) fd by simp
  then have sp: "spec_push whole build (cur s') (key f) (off f) (dat f) = (cur s'', r)" using push_cur p snoc.prems(1) by simp
  have k: "cur s'' = Some (k, bs)" using snoc.prems(2) fd p by (simp add: feed_append)
  show ?case
  proof (cases "off f = 0")
    case True
    then have "fs @ [f] = fs @ [f] \<and> adjoining key off dat k 0 [f] \<and> bs = concat (map dat [f])"
      using sp k by (auto simp: spec_push_def split: if_splits)
    then show ?thesis by blast
  next
    case False
    then obtain bs' where b: "cur s' = Some (k, bs')" "length bs' = off f" "key f = k" "bs = bs' @ dat f"
      using sp k by (auto simp: spec_push_def split: option.splits prod.splits if_splits)
    obtain hs gs where g: "fs = hs @ gs" "adjoining key off dat k 0 gs" "bs' = concat (map dat gs)"
      using snoc.IH[of k bs'] snoc.prems(1) fd b(1) by auto
    have "fs @ [f] = hs @ (gs @ [f]) \<and> adjoining key off dat k 0 (gs @ [f]) \<and> bs = concat (map dat (gs @ [f]))"
      using b g by (simp add: adjoining_append)
    then show ?thesis by blast
  qed
qed (use assms(2) in simp)

lemma unmixed:
  assumes "state_ok s" "cur s = None" "list_all frag_ok (fs @ [f])" "last (snd (feed push s (fs @ [f]))) = Inr (Some m)"
  shows "\<exists>hs gs. fs = hs @ gs \<and> adjoining key off dat (key f) 0 (gs @ [f]) \<and> length (concat (map dat (gs @ [f]))) = whole (key f) \<and>
    m = build (key f) (concat (map dat (gs @ [f])))"
proof -
  obtain s' rs where fd: "feed push s fs = (s', rs)" by (cases "feed push s fs")
  obtain s'' r where p: "push s' f = (s'', r)" by (cases "push s' f")
  have ok: "list_all frag_ok fs" and "state_ok s'" using feed_ok[of s fs] assms(1,3) fd by simp_all
  then have sp: "spec_push whole build (cur s') (key f) (off f) (dat f) = (cur s'', r)" using push_cur p assms(3) by simp
  have r: "r = Inr (Some m)" using assms(4) fd p by (simp add: feed_append)
  show ?thesis
  proof (cases "off f = 0")
    case True
    then have "fs = fs @ [] \<and> adjoining key off dat (key f) 0 ([] @ [f]) \<and> length (concat (map dat ([] @ [f]))) = whole (key f) \<and>
      m = build (key f) (concat (map dat ([] @ [f])))" using sp r by (auto simp: spec_push_def split: if_splits)
    then show ?thesis by blast
  next
    case False
    then obtain bs where b: "cur s' = Some (key f, bs)" "length bs = off f" "m = build (key f) (bs @ dat f)"
        "off f + length (dat f) = whole (key f)"
      using sp r by (auto simp: spec_push_def split: option.splits prod.splits if_splits)
    obtain hs gs where "fs = hs @ gs" "adjoining key off dat (key f) 0 gs" "bs = concat (map dat gs)"
      using collected[OF assms(1,2) ok, of "key f" bs] fd b(1) by auto
    then have "fs = hs @ gs \<and> adjoining key off dat (key f) 0 (gs @ [f]) \<and> length (concat (map dat (gs @ [f]))) = whole (key f) \<and>
      m = build (key f) (concat (map dat (gs @ [f])))" using b by (simp add: adjoining_append)
    then show ?thesis by blast
  qed
qed

end

section \<open>The fragment codecs are exact\<close>

definition request_fragment_ok :: "request_fragment \<Rightarrow> bool" where
  "request_fragment_ok f = (length (qf_setup_packet f) = 8 \<and> padded_ok CONTROL_FRAGMENT_DATA_MAX_LEN (unat (qf_length f)) (qf_data f) \<and>
     validate_fragment (qf_flags f) (qf_offset f) (qf_total_length f) (unat (qf_length f)) = Inr ())"

definition response_fragment_ok :: "response_fragment \<Rightarrow> bool" where
  "response_fragment_ok f = (padded_ok CONTROL_FRAGMENT_DATA_MAX_LEN (unat (rf_length f)) (rf_data f) \<and>
     validate_fragment (rf_flags f) (rf_offset f) (rf_total_length f) (unat (rf_length f)) = Inr ())"

lemma request_fragment_len:
  "request_fragment_ok f \<Longrightarrow> length (request_fragment_data f) = unat (qf_length f) \<and> unat (qf_length f) \<le> 86"
  by (auto simp: request_fragment_ok_def padded_ok_def request_fragment_data_def fragment_sizes)

lemma response_fragment_len:
  "response_fragment_ok f \<Longrightarrow> length (response_fragment_data f) = unat (rf_length f) \<and> unat (rf_length f) \<le> 86"
  by (auto simp: response_fragment_ok_def padded_ok_def response_fragment_data_def fragment_sizes)

interpretation request_fragment: wire_codec request_fragment_ok request_fragment_bytes request_fragment_decode
proof unfold_locales
  fix f
  assume ok: "request_fragment_ok f"
  let ?d = "request_fragment_data f" let ?bs = "request_fragment_bytes f"
  note len = request_fragment_len[OF ok]
  have st: "length (qf_setup_packet f) = 8" using ok by (simp add: request_fragment_ok_def)
  have "from_le (subslice 0 4 ?bs) = qf_request_id f" "?bs ! 4 = qf_flags f" "?bs ! 5 = 0" "from_le (subslice 6 8 ?bs) = qf_offset f"
    "from_le (subslice 8 10 ?bs) = qf_total_length f" "subslice 10 18 ?bs = qf_setup_packet f" "drop 18 ?bs = ?d" "length ?bs = 18 + length ?d"
    using st by (simp_all add: request_fragment_bytes_def subslice_def nth_append)
  moreover have "write_at 0 ?d (replicate 86 0) = qf_data f"
    using ok padded_rewrite[of 86 "unat (qf_length f)" "qf_data f"] by (simp add: request_fragment_ok_def request_fragment_data_def fragment_sizes)
  ultimately show "request_fragment_decode ?bs = Inr f"
    using ok len by (simp add: request_fragment_decode_def request_fragment_ok_def fragment_sizes Let_def bindE_def)
next
  fix bs f
  assume dec: "request_fragment_decode bs = Inr f"
  let ?d = "drop 18 bs"
  have len: "18 \<le> length bs" "length ?d \<le> 86" "bs ! 5 = 0" and v: "validate_fragment (bs ! 4) (from_le (subslice 6 8 bs)) (from_le (subslice 8 10 bs)) (length ?d) = Inr ()"
    and f: "f = \<lparr>qf_request_id = from_le (subslice 0 4 bs), qf_setup_packet = subslice 10 18 bs, qf_offset = from_le (subslice 6 8 bs),
        qf_total_length = from_le (subslice 8 10 bs), qf_flags = bs ! 4, qf_length = of_nat (length ?d), qf_data = write_at 0 ?d (replicate 86 0)\<rparr>"
    using dec by (auto simp: request_fragment_decode_def fragment_sizes bindE_Inr_iff Let_def split: if_splits)
  have d: "request_fragment_data f = ?d" "unat (qf_length f) = length ?d"
    using len(2) by (simp_all add: f request_fragment_data_def of_nat_len8 write_padded)
  have "request_fragment_ok f" using padded_write[OF len(2)] d(2) len(1) v by (simp add: request_fragment_ok_def f fragment_sizes length_subslice)
  moreover have "request_fragment_bytes f = subslice 0 4 bs @ subslice 4 5 bs @ subslice 5 6 bs @ subslice 6 8 bs @ subslice 8 10 bs @ subslice 10 18 bs @ ?d"
    unfolding request_fragment_bytes_def d(1) using len(1,3) slice_byte[of 4 bs 5] slice_byte[of 5 bs 6] by (simp add: f)
  then have "request_fragment_bytes f = bs" using len(1) by (simp add: slice_join slice_rest)
  ultimately show "request_fragment_ok f \<and> request_fragment_bytes f = bs" by simp
qed

interpretation response_fragment: wire_codec response_fragment_ok response_fragment_bytes response_fragment_decode
proof unfold_locales
  fix f
  assume ok: "response_fragment_ok f"
  let ?d = "response_fragment_data f" let ?bs = "response_fragment_bytes f"
  note len = response_fragment_len[OF ok]
  have "from_le (subslice 0 4 ?bs) = rf_request_id f" "?bs ! 4 = control_status_byte (rf_status f)" "?bs ! 5 = rf_flags f"
    "from_le (subslice 6 8 ?bs) = rf_offset f" "from_le (subslice 8 10 ?bs) = rf_total_length f" "drop 10 ?bs = ?d" "length ?bs = 10 + length ?d"
    by (simp_all add: response_fragment_bytes_def subslice_def nth_append)
  moreover have "write_at 0 ?d (replicate 86 0) = rf_data f"
    using ok padded_rewrite[of 86 "unat (rf_length f)" "rf_data f"] by (simp add: response_fragment_ok_def response_fragment_data_def fragment_sizes)
  moreover have "control_status_of CfMalformed (control_status_byte (rf_status f)) = Inr (rf_status f)" by (simp add: control_status_exact)
  ultimately show "response_fragment_decode ?bs = Inr f"
    using ok len by (simp add: response_fragment_decode_def response_fragment_ok_def fragment_sizes Let_def bindE_def)
next
  fix bs f
  assume dec: "response_fragment_decode bs = Inr f"
  let ?d = "drop 10 bs"
  have len: "10 \<le> length bs" "length ?d \<le> 86" and v: "validate_fragment (bs ! 5) (from_le (subslice 6 8 bs)) (from_le (subslice 8 10 bs)) (length ?d) = Inr ()"
    and st: "control_status_byte (rf_status f) = bs ! 4"
    and f: "rf_request_id f = from_le (subslice 0 4 bs)" "rf_offset f = from_le (subslice 6 8 bs)"
        "rf_total_length f = from_le (subslice 8 10 bs)" "rf_flags f = bs ! 5" "rf_length f = of_nat (length ?d)" "rf_data f = write_at 0 ?d (replicate 86 0)"
    using dec by (auto simp: response_fragment_decode_def fragment_sizes bindE_Inr_iff Let_def control_status_exact split: if_splits)
  have d: "response_fragment_data f = ?d" "unat (rf_length f) = length ?d"
    using len(2) by (simp_all add: f response_fragment_data_def of_nat_len8 write_padded)
  have "response_fragment_ok f" using padded_write[OF len(2)] d(2) len(1) v by (simp add: response_fragment_ok_def f fragment_sizes)
  moreover have "response_fragment_bytes f = subslice 0 4 bs @ subslice 4 5 bs @ subslice 5 6 bs @ subslice 6 8 bs @ subslice 8 10 bs @ ?d"
    unfolding response_fragment_bytes_def d(1) st using len(1) slice_byte[of 4 bs 5] slice_byte[of 5 bs 6] by (simp add: f)
  then have "response_fragment_bytes f = bs" using len(1) by (simp add: slice_join slice_rest)
  ultimately show "response_fragment_ok f \<and> response_fragment_bytes f = bs" by simp
qed

section \<open>Both assemblers refine the abstract one\<close>

text \<open>
  The two assemblers are the same code at two types. The proof goes through a collector that is
  generic in what a fragment repeats of its message (the setup packet or the status).
\<close>

record 't collector =
  cl_request_id :: "u32 option"
  cl_tag :: 't
  cl_total_length :: u16
  cl_next_offset :: u16
  cl_data :: bytes

definition collector_reset :: "'t collector \<Rightarrow> 't collector" where
  "collector_reset a = a\<lparr>cl_request_id := None, cl_total_length := 0, cl_next_offset := 0\<rparr>"

definition collector_start :: "u32 \<Rightarrow> 't \<Rightarrow> u16 \<Rightarrow> 't collector \<Rightarrow> 't collector" where
  "collector_start i t whole a = a\<lparr>cl_request_id := Some i, cl_tag := t, cl_total_length := whole, cl_next_offset := 0\<rparr>"

definition collector_accepts :: "u32 \<Rightarrow> 't \<Rightarrow> u16 \<Rightarrow> u16 \<Rightarrow> 't collector \<Rightarrow> bool" where
  "collector_accepts i t whole offset a =
     (cl_request_id a = Some i \<and> cl_tag a = t \<and> cl_total_length a = whole \<and> cl_next_offset a = offset)"

definition collector_add :: "u16 \<Rightarrow> bytes \<Rightarrow> 't collector \<Rightarrow> 't collector" where
  "collector_add offset d a =
     a\<lparr>cl_data := write_at (unat offset) d (cl_data a), cl_next_offset := of_nat (unat offset + length d)\<rparr>"

definition collector_push ::
  "(u32 \<Rightarrow> 't \<Rightarrow> bytes \<Rightarrow> message_error + 'm) \<Rightarrow> u32 \<Rightarrow> 't \<Rightarrow> u16 \<Rightarrow> u16 \<Rightarrow> u8 \<Rightarrow> bytes \<Rightarrow> 't collector
    \<Rightarrow> ('t collector, control_fragment_error, 'm option) outcome" where
  "collector_push create i t whole offset flags d a0 =
     (let a = (if flags AND CONTROL_FRAGMENT_FIRST \<noteq> 0 then collector_start i t whole a0 else a0) in
      if \<not> collector_accepts i t whole offset a then (collector_reset a, Inl CfOutOfOrder)
      else let b = collector_add offset d a in
        if flags AND CONTROL_FRAGMENT_LAST = 0 then (b, Inr None)
        else case create i t (take (unat offset + length d) (cl_data b)) of
            Inl _ \<Rightarrow> (b, Inl CfMalformed) | Inr m \<Rightarrow> (collector_reset b, Inr (Some m)))"

definition collector_ok :: "'t collector \<Rightarrow> bool" where
  "collector_ok a = (length (cl_data a) = CONTROL_DATA_MAX_LEN \<and> unat (cl_next_offset a) \<le> CONTROL_DATA_MAX_LEN)"

definition collected_by :: "'t collector \<Rightarrow> ((u32 \<times> 't \<times> u16) \<times> bytes) option" where
  "collected_by a = map_option (\<lambda>i. ((i, cl_tag a, cl_total_length a), take (unat (cl_next_offset a)) (cl_data a))) (cl_request_id a)"

lemma validated:
  assumes "validate_fragment flags offset whole n = Inr ()"
  shows "unat whole \<le> 256" "unat offset + n \<le> unat whole" "(flags AND CONTROL_FRAGMENT_FIRST \<noteq> 0) = (unat offset = 0)"
    "(flags AND CONTROL_FRAGMENT_LAST = 0) = (unat offset + n \<noteq> unat whole)"
  using assms by (auto simp: validate_fragment_def CONTROL_DATA_MAX_LEN_def unat_eq_zero split: if_splits)

lemma take_write: "n \<le> length xs \<Longrightarrow> take (n + length d) (write_at n d xs) = take n xs @ d"
  by (simp add: write_at_def)

lemma length_write: "n + length d \<le> length xs \<Longrightarrow> length (write_at n d xs) = length xs"
  by (simp add: write_at_def)

lemma collector_reset_ok: "collector_ok a \<Longrightarrow> collector_ok (collector_reset a) \<and> collected_by (collector_reset a) = None"
  by (simp add: collector_ok_def collector_reset_def collected_by_def)

lemma collector_accepts_iff:
  "collector_ok a \<Longrightarrow> collector_accepts i t whole offset a \<longleftrightarrow> collected_by a = Some ((i, t, whole), take (unat offset) (cl_data a)) \<and> unat (cl_next_offset a) = unat offset"
  by (auto simp: collector_accepts_def collected_by_def word_unat_eq_iff)

lemma collector_add_ok:
  assumes "collector_ok a" "unat offset + length d \<le> 256" "collector_accepts i t whole offset a"
  shows "collector_ok (collector_add offset d a)"
    "take (unat offset + length d) (cl_data (collector_add offset d a)) = take (unat offset) (cl_data a) @ d"
    "collected_by (collector_add offset d a) = Some ((i, t, whole), take (unat offset) (cl_data a) @ d)"
proof -
  have n: "unat (of_nat (unat offset + length d) :: u16) = unat offset + length d" using assms(2) by (intro of_nat_len16) simp
  have a: "length (cl_data a) = 256" using assms(1) by (simp add: collector_ok_def CONTROL_DATA_MAX_LEN_def)
  show t: "take (unat offset + length d) (cl_data (collector_add offset d a)) = take (unat offset) (cl_data a) @ d"
    using assms(2) a by (simp add: collector_add_def take_write)
  show "collector_ok (collector_add offset d a)"
    using assms(2) a n by (simp add: collector_add_def collector_ok_def CONTROL_DATA_MAX_LEN_def length_write)
  show "collected_by (collector_add offset d a) = Some ((i, t, whole), take (unat offset) (cl_data a) @ d)"
    using t n assms(3) by (simp add: collector_add_def collected_by_def collector_accepts_def)
qed

lemma collector_refines:
  assumes "collector_ok a0" "validate_fragment flags offset whole (length d) = Inr ()"
    and create: "\<And>bs. length bs \<le> 256 \<Longrightarrow> create i t bs = Inr (build (i, t, whole) bs)"
  shows "collector_ok (fst (collector_push create i t whole offset flags d a0)) \<and>
    (collected_by (fst (collector_push create i t whole offset flags d a0)), snd (collector_push create i t whole offset flags d a0)) =
    spec_push (\<lambda>(_, _, n). unat n) build (collected_by a0) (i, t, whole) (unat offset) d"
proof -
  note v = validated[OF assms(2)]
  define a where "a = (if unat offset = 0 then collector_start i t whole a0 else a0)"
  have ok: "collector_ok a" using assms(1) by (simp add: a_def collector_start_def collector_ok_def)
  have c: "collected_by a = (if unat offset = 0 then Some ((i, t, whole), []) else collected_by a0)"
    by (simp add: a_def collected_by_def collector_start_def)
  show ?thesis
  proof (cases "collector_accepts i t whole offset a")
    case False
    then have "\<nexists>bs. collected_by a = Some ((i, t, whole), bs) \<and> length bs = unat offset"
      using ok by (auto simp: collector_accepts_def collected_by_def collector_ok_def word_unat_eq_iff)
    then have "spec_push (\<lambda>(_, _, n). unat n) build (collected_by a0) (i, t, whole) (unat offset) d = (None, Inl CfOutOfOrder)"
      unfolding spec_push_def c[symmetric] by (auto split: option.splits)
    then show ?thesis using False collector_reset_ok[OF ok] unfolding collector_push_def v(3) a_def[symmetric] by (simp add: Let_def)
  next
    case True
    have "unat offset + length d \<le> 256" using v(1,2) by simp
    note add = collector_add_ok[OF ok this True]
    have c0: "collected_by a = Some ((i, t, whole), take (unat offset) (cl_data a))" and len: "length (take (unat offset) (cl_data a)) = unat offset"
      using True ok v(1,2) by (simp_all add: collector_accepts_iff collector_ok_def CONTROL_DATA_MAX_LEN_def)
    have new: "create i t (take (unat offset) (cl_data a) @ d) = Inr (build (i, t, whole) (take (unat offset) (cl_data a) @ d))"
      using create len v(1,2) by simp
    have sp: "spec_push (\<lambda>(_, _, n). unat n) build (collected_by a0) (i, t, whole) (unat offset) d =
        (if unat offset + length d = unat whole then (None, Inr (Some (build (i, t, whole) (take (unat offset) (cl_data a) @ d))))
         else (Some ((i, t, whole), take (unat offset) (cl_data a) @ d), Inr None))"
      using len unfolding spec_push_def c[symmetric] c0 by simp
    show ?thesis unfolding sp unfolding collector_push_def v(3,4) a_def[symmetric] Let_def add(2) new
      using True add(1,3) collector_reset_ok[OF add(1)] by simp
  qed
qed

definition request_view :: "request_assembler \<Rightarrow> bytes collector" where
  "request_view a = \<lparr>cl_request_id = qa_request_id a, cl_tag = qa_setup_packet a, cl_total_length = qa_total_length a,
     cl_next_offset = qa_next_offset a, cl_data = qa_data a\<rparr>"

definition response_view :: "response_assembler \<Rightarrow> control_status collector" where
  "response_view a = \<lparr>cl_request_id = pa_request_id a, cl_tag = pa_status a, cl_total_length = pa_total_length a,
     cl_next_offset = pa_next_offset a, cl_data = pa_data a\<rparr>"

lemmas collector_defs = collector_push_def collector_start_def collector_accepts_def collector_add_def collector_reset_def

lemma request_push_view:
  "map_prod request_view id (request_assembler_push a f) =
    collector_push control_request_new (qf_request_id f) (qf_setup_packet f) (qf_total_length f) (qf_offset f) (qf_flags f) (request_fragment_data f) (request_view a)"
  by (auto simp: request_assembler_push_def request_view_def request_assembler_reset_def collector_defs Let_def split: sum.splits)

lemma response_push_view:
  "map_prod response_view id (response_assembler_push a f) =
    collector_push control_response_new (rf_request_id f) (rf_status f) (rf_total_length f) (rf_offset f) (rf_flags f) (response_fragment_data f) (response_view a)"
  by (auto simp: response_assembler_push_def response_view_def response_assembler_reset_def collector_defs Let_def split: sum.splits)

definition request_key :: "request_fragment \<Rightarrow> u32 \<times> bytes \<times> u16" where
  "request_key f = (qf_request_id f, qf_setup_packet f, qf_total_length f)"

definition request_build :: "u32 \<times> bytes \<times> u16 \<Rightarrow> bytes \<Rightarrow> control_request" where
  "request_build k bs = (case k of (i, setup, _) \<Rightarrow>
     \<lparr>cq_request_id = i, cq_setup_packet = setup, cq_length = of_nat (length bs), cq_data = write_at 0 bs (replicate CONTROL_DATA_MAX_LEN 0)\<rparr>)"

definition response_key :: "response_fragment \<Rightarrow> u32 \<times> control_status \<times> u16" where
  "response_key f = (rf_request_id f, rf_status f, rf_total_length f)"

definition response_build :: "u32 \<times> control_status \<times> u16 \<Rightarrow> bytes \<Rightarrow> control_response" where
  "response_build k bs = (case k of (i, status, _) \<Rightarrow>
     \<lparr>cp_request_id = i, cp_status = status, cp_length = of_nat (length bs), cp_data = write_at 0 bs (replicate CONTROL_DATA_MAX_LEN 0)\<rparr>)"

definition request_assembler_ok :: "request_assembler \<Rightarrow> bool" where
  "request_assembler_ok a = collector_ok (request_view a)"

definition response_assembler_ok :: "response_assembler \<Rightarrow> bool" where
  "response_assembler_ok a = collector_ok (response_view a)"

interpretation request: assembler request_assembler_push request_assembler_ok "\<lambda>a. collected_by (request_view a)" request_fragment_ok request_key
  "\<lambda>f. unat (qf_offset f)" request_fragment_data "\<lambda>(_, _, n). unat n" request_build
proof
  fix a f
  assume a: "request_assembler_ok a" and ok: "request_fragment_ok f"
  let ?p = "collector_push control_request_new (qf_request_id f) (qf_setup_packet f) (qf_total_length f) (qf_offset f) (qf_flags f) (request_fragment_data f) (request_view a)"
  have "validate_fragment (qf_flags f) (qf_offset f) (qf_total_length f) (length (request_fragment_data f)) = Inr ()"
    using ok request_fragment_len[OF ok] by (simp add: request_fragment_ok_def)
  from collector_refines[OF a[unfolded request_assembler_ok_def] this, of control_request_new "qf_request_id f" "qf_setup_packet f" request_build]
  have "collector_ok (fst ?p) \<and> (collected_by (fst ?p), snd ?p) =
      spec_push (\<lambda>(_, _, n). unat n) request_build (collected_by (request_view a)) (request_key f) (unat (qf_offset f)) (request_fragment_data f)"
    by (simp add: control_request_new_def request_build_def request_key_def CONTROL_DATA_MAX_LEN_def)
  then show "request_assembler_ok (fst (request_assembler_push a f)) \<and>
      (collected_by (request_view (fst (request_assembler_push a f))), snd (request_assembler_push a f)) =
      spec_push (\<lambda>(_, _, n). unat n) request_build (collected_by (request_view a)) (request_key f) (unat (qf_offset f)) (request_fragment_data f)"
    unfolding request_push_view[symmetric] by (simp add: request_assembler_ok_def)
qed

interpretation response: assembler response_assembler_push response_assembler_ok "\<lambda>a. collected_by (response_view a)" response_fragment_ok response_key
  "\<lambda>f. unat (rf_offset f)" response_fragment_data "\<lambda>(_, _, n). unat n" response_build
proof
  fix a f
  assume a: "response_assembler_ok a" and ok: "response_fragment_ok f"
  let ?p = "collector_push control_response_new (rf_request_id f) (rf_status f) (rf_total_length f) (rf_offset f) (rf_flags f) (response_fragment_data f) (response_view a)"
  have "validate_fragment (rf_flags f) (rf_offset f) (rf_total_length f) (length (response_fragment_data f)) = Inr ()"
    using ok response_fragment_len[OF ok] by (simp add: response_fragment_ok_def)
  from collector_refines[OF a[unfolded response_assembler_ok_def] this, of control_response_new "rf_request_id f" "rf_status f" response_build]
  have "collector_ok (fst ?p) \<and> (collected_by (fst ?p), snd ?p) =
      spec_push (\<lambda>(_, _, n). unat n) response_build (collected_by (response_view a)) (response_key f) (unat (rf_offset f)) (response_fragment_data f)"
    by (simp add: control_response_new_def response_build_def response_key_def CONTROL_DATA_MAX_LEN_def)
  then show "response_assembler_ok (fst (response_assembler_push a f)) \<and>
      (collected_by (response_view (fst (response_assembler_push a f))), snd (response_assembler_push a f)) =
      spec_push (\<lambda>(_, _, n). unat n) response_build (collected_by (response_view a)) (response_key f) (unat (rf_offset f)) (response_fragment_data f)"
    unfolding response_push_view[symmetric] by (simp add: response_assembler_ok_def)
qed

section \<open>Fragmentation\<close>

text \<open>A sender starts at offset zero and goes on behind each fragment until the data is out.\<close>

definition fragment_offsets :: "nat \<Rightarrow> nat list" where
  "fragment_offsets n = map (\<lambda>j. j * CONTROL_FRAGMENT_DATA_MAX_LEN) [0..<max 1 ((n + CONTROL_FRAGMENT_DATA_MAX_LEN - 1) div CONTROL_FRAGMENT_DATA_MAX_LEN)]"

definition fragment_slice :: "bytes \<Rightarrow> nat \<Rightarrow> bytes" where
  "fragment_slice d n = subslice n (min (length d) (n + CONTROL_FRAGMENT_DATA_MAX_LEN)) d"

lemma fragment_offsets_cases:
  assumes "n \<le> 256"
  obtains "n \<le> 86" "fragment_offsets n = [0]"
    | "86 < n" "n \<le> 172" "fragment_offsets n = [0, 86]"
    | "172 < n" "n \<le> 256" "fragment_offsets n = [0, 86, 172]"
proof -
  have e: "fragment_offsets n = map (\<lambda>j. j * 86) [0..<max 1 ((n + 85) div 86)]" by (simp add: fragment_offsets_def fragment_sizes add.commute)
  consider "n \<le> 86" "max 1 ((n + 85) div 86) = 1" | "86 < n" "n \<le> 172" "max 1 ((n + 85) div 86) = 2" | "172 < n" "max 1 ((n + 85) div 86) = 3"
  proof -
    have "(n + 85) div 86 \<le> 1" if "n \<le> 86" using that div_le_mono[of "n + 85" 171 86] by simp
    moreover have "(n + 85) div 86 = 2" if "86 < n" "n \<le> 172" using that by (intro div_nat_eqI) simp_all
    moreover have "(n + 85) div 86 = 3" if "172 < n" using that assms by (intro div_nat_eqI) simp_all
    ultimately show thesis using that by (cases "n \<le> 86"; cases "n \<le> 172") auto
  qed
  then show thesis using that assms unfolding e by cases (auto simp: upt_rec)
qed

lemma fragment_offset_bounds:
  assumes "n \<le> 256" "off \<in> set (fragment_offsets n)"
  shows "off \<le> n" "n = 0 \<or> off < n" "unat (of_nat off :: u16) = off"
  by (rule fragment_offsets_cases[OF assms(1)], use assms in \<open>auto simp: of_nat_len16\<close>)+

lemma fragment_slices: "length d \<le> 256 \<Longrightarrow> concat (map (fragment_slice d) (fragment_offsets (length d))) = d"
proof -
  assume n: "length d \<le> 256"
  have "take 86 d @ take 86 (drop 86 d) @ drop 172 d = d" using append_take_drop_id[of 86 "drop 86 d"] by simp
  with n show ?thesis
    by (cases rule: fragment_offsets_cases) (auto simp: fragment_slice_def fragment_sizes subslice_def min_def drop_take)
qed

lemma length_fragment_slice: "length (fragment_slice d n) = min (length d) (n + 86) - n"
  by (simp add: fragment_slice_def subslice_def fragment_sizes)

lemma flags_valid:
  assumes "n \<le> 256" "off \<in> set (fragment_offsets n)"
  shows "fragment_bounds n off = Inr ()"
    "validate_fragment (fragment_flags off (min n (off + 86)) n) (of_nat off) (of_nat n) (min n (off + 86) - off) = Inr ()"
proof -
  note o = fragment_offset_bounds[OF assms]
  then show "fragment_bounds n off = Inr ()" using assms(1) by (auto simp: fragment_bounds_def CONTROL_DATA_MAX_LEN_def)
  have u: "unat (of_nat off :: u16) = off" "unat (of_nat n :: u16) = n" using o(3) assms(1) by (simp, simp add: of_nat_len16)
  then have z: "(of_nat off :: u16) = 0 \<longleftrightarrow> off = 0" by (simp add: word_unat_eq_iff)
  have "off + (min n (off + 86) - off) = min n (off + 86)" using o(1) by simp
  then show "validate_fragment (fragment_flags off (min n (off + 86)) n) (of_nat off) (of_nat n) (min n (off + 86) - off) = Inr ()"
    unfolding validate_fragment_def u z using assms(1)
    by (auto simp: fragment_flags_def fragment_sizes CONTROL_DATA_MAX_LEN_def min_def)
qed

lemma request_fragment_made:
  assumes "control_request_ok r" "off \<in> set (fragment_offsets (length (control_request_data r)))"
  obtains f where "request_fragment_of r off = Inr f" "request_fragment_ok f" "unat (qf_offset f) = off"
    "request_key f = (cq_request_id r, cq_setup_packet r, of_nat (length (control_request_data r)))"
    "request_fragment_data f = fragment_slice (control_request_data r) off"
proof -
  let ?d = "control_request_data r"
  have n: "length ?d \<le> 256" "length (cq_setup_packet r) = 8"
    using assms(1) by (auto simp: control_request_ok_def control_request_data_def padded_ok_def CONTROL_DATA_MAX_LEN_def)
  note v = flags_valid[OF n(1) assms(2)]
  define f where "f = \<lparr>qf_request_id = cq_request_id r, qf_setup_packet = cq_setup_packet r, qf_offset = of_nat off,
      qf_total_length = of_nat (length ?d), qf_flags = fragment_flags off (min (length ?d) (off + 86)) (length ?d),
      qf_length = of_nat (min (length ?d) (off + 86) - off), qf_data = write_at 0 (fragment_slice ?d off) (replicate 86 0)\<rparr>"
  have l: "unat (qf_length f) = length (fragment_slice ?d off)" "length (fragment_slice ?d off) \<le> 86"
    by (simp_all add: f_def length_fragment_slice of_nat_len8)
  have "request_fragment_of r off = Inr f" using v(1) by (simp add: request_fragment_of_def Let_def bindE_def f_def fragment_slice_def fragment_sizes)
  moreover have "request_fragment_ok f" using l v(2) n(2) padded_write[OF l(2)]
    by (simp add: request_fragment_ok_def fragment_sizes) (simp add: f_def length_fragment_slice)
  moreover have "unat (qf_offset f) = off" using fragment_offset_bounds(3)[OF n(1) assms(2)] by (simp add: f_def)
  moreover have "request_fragment_data f = fragment_slice ?d off" unfolding request_fragment_data_def l(1) using l(2) by (simp add: f_def write_padded)
  ultimately show thesis using that by (simp add: request_key_def f_def)
qed

lemma response_fragment_made:
  assumes "control_response_ok r" "off \<in> set (fragment_offsets (length (control_response_data r)))"
  obtains f where "response_fragment_of r off = Inr f" "response_fragment_ok f" "unat (rf_offset f) = off"
    "response_key f = (cp_request_id r, cp_status r, of_nat (length (control_response_data r)))"
    "response_fragment_data f = fragment_slice (control_response_data r) off"
proof -
  let ?d = "control_response_data r"
  have n: "length ?d \<le> 256"
    using assms(1) by (auto simp: control_response_ok_def control_response_data_def padded_ok_def CONTROL_DATA_MAX_LEN_def)
  note v = flags_valid[OF n assms(2)]
  define f where "f = \<lparr>rf_request_id = cp_request_id r, rf_status = cp_status r, rf_offset = of_nat off,
      rf_total_length = of_nat (length ?d), rf_flags = fragment_flags off (min (length ?d) (off + 86)) (length ?d),
      rf_length = of_nat (min (length ?d) (off + 86) - off), rf_data = write_at 0 (fragment_slice ?d off) (replicate 86 0)\<rparr>"
  have l: "unat (rf_length f) = length (fragment_slice ?d off)" "length (fragment_slice ?d off) \<le> 86"
    by (simp_all add: f_def length_fragment_slice of_nat_len8)
  have "response_fragment_of r off = Inr f" using v(1) by (simp add: response_fragment_of_def Let_def bindE_def f_def fragment_slice_def fragment_sizes)
  moreover have "response_fragment_ok f" using l v(2) padded_write[OF l(2)]
    by (simp add: response_fragment_ok_def fragment_sizes) (simp add: f_def length_fragment_slice)
  moreover have "unat (rf_offset f) = off" using fragment_offset_bounds(3)[OF n assms(2)] by (simp add: f_def)
  moreover have "response_fragment_data f = fragment_slice ?d off" unfolding response_fragment_data_def l(1) using l(2) by (simp add: f_def write_padded)
  ultimately show thesis using that by (simp add: response_key_def f_def)
qed

lemma fragments_adjoin:
  assumes "length d \<le> 256" "map off fs = fragment_offsets (length d)" "\<forall>f \<in> set fs. dat f = fragment_slice d (off f)" "\<forall>f \<in> set fs. key f = k"
  obtains gs f where "fs = gs @ [f]" "adjoining key off dat k 0 fs" "\<forall>g \<in> set gs. off g + length (dat g) \<noteq> length d" "concat (map dat fs) = d"
proof -
  have c: "concat (map dat fs) = d"
    using fragment_slices[OF assms(1)] assms(2,3) by (metis (mono_tags, lifting) map_map comp_apply map_eq_conv)
  show thesis
  proof (cases rule: fragment_offsets_cases[OF assms(1)])
    case 1
    then obtain f where "fs = [f]" "off f = 0" using assms(2) by auto
    then show thesis using that[of "[]"] c assms(4) by simp
  next
    case 2
    then obtain f g where "fs = [f, g]" "off f = 0" "off g = 86" using assms(2) by auto
    then show thesis using that[of "[f]"] c 2(1) assms(3,4) by (simp add: length_fragment_slice)
  next
    case 3
    then obtain f g h where "fs = [f, g, h]" "off f = 0" "off g = 86" "off h = 172" using assms(2) by auto
    then show thesis using that[of "[f, g]"] c 3(1) assms(3,4) by (simp add: length_fragment_slice)
  qed
qed

lemma made_list:
  assumes "\<forall>x \<in> set xs. \<exists>f. mk x = Inr f \<and> P x f"
  shows "\<exists>fs. map mk xs = map Inr fs \<and> list_all2 P xs fs"
  using assms
proof (induction xs)
  case (Cons x xs)
  then obtain fs where fs: "map mk xs = map Inr fs" "list_all2 P xs fs" by auto
  obtain f where "mk x = Inr f" "P x f" using Cons.prems by auto
  then show ?case using fs by (intro exI[of _ "f # fs"]) simp
qed simp

context assembler
begin

lemma reassembled:
  assumes "state_ok s" "length d \<le> 256" "whole k = length d"
    "\<forall>n \<in> set (fragment_offsets (length d)). \<exists>f. mk n = Inr f \<and> (frag_ok f \<and> off f = n \<and> key f = k \<and> dat f = fragment_slice d n)"
  shows "\<exists>fs. map mk (fragment_offsets (length d)) = map Inr fs \<and> list_all frag_ok fs \<and>
    snd (feed push s fs) = replicate (length fs - 1) (Inr None) @ [Inr (Some (build k d))]"
proof -
  obtain fs where m: "map mk (fragment_offsets (length d)) = map Inr fs" and
    l: "list_all2 (\<lambda>n f. frag_ok f \<and> off f = n \<and> key f = k \<and> dat f = fragment_slice d n) (fragment_offsets (length d)) fs"
    using made_list[OF assms(4)] by blast
  have o: "map off fs = fragment_offsets (length d)" using l by (auto simp: list_all2_conv_all_nth intro: nth_equalityI)
  have all: "\<forall>f \<in> set fs. frag_ok f" "\<forall>f \<in> set fs. key f = k" "\<forall>f \<in> set fs. dat f = fragment_slice d (off f)"
    using l by (auto simp: list_all2_conv_all_nth in_set_conv_nth)
  obtain gs f where f: "fs = gs @ [f]" "adjoining key off dat k 0 fs" "\<forall>g \<in> set gs. off g + length (dat g) \<noteq> length d" "concat (map dat fs) = d"
    using fragments_adjoin[OF assms(2) o all(3,2)] by blast
  have ok: "list_all frag_ok fs" using all(1) by (simp add: list_all_iff)
  have "snd (feed push s fs) = replicate (length gs) (Inr None) @ [Inr (Some (build k d))]"
    using in_order[OF assms(1), of gs f k, folded f(1)] ok f(2,3,4) assms(3) by simp
  with f(1) m ok show ?thesis by (intro exI[of _ fs]) simp
qed

end

lemma request_wire_len: "request_fragment_ok f \<Longrightarrow> length (request_fragment_bytes f) \<le> CONTROL_REQUEST_FRAGMENT_MAX_WIRE_LEN"
  using request_fragment_len[of f]
  by (auto simp: request_fragment_bytes_def request_fragment_ok_def CONTROL_REQUEST_FRAGMENT_MAX_WIRE_LEN_def fragment_sizes)

lemma response_wire_len: "response_fragment_ok f \<Longrightarrow> length (response_fragment_bytes f) \<le> CONTROL_RESPONSE_FRAGMENT_MAX_WIRE_LEN"
  using response_fragment_len[of f]
  by (auto simp: response_fragment_bytes_def CONTROL_RESPONSE_FRAGMENT_MAX_WIRE_LEN_def fragment_sizes)

lemma request_rebuilt:
  assumes "control_request_ok q"
  shows "request_build (cq_request_id q, cq_setup_packet q, n) (control_request_data q) = q" "length (control_request_data q) \<le> 256"
proof -
  have "length (control_request_data q) = unat (cq_length q)" "unat (cq_length q) \<le> 256"
    using assms by (auto simp: control_request_ok_def control_request_data_def padded_ok_def CONTROL_DATA_MAX_LEN_def)
  then show "length (control_request_data q) \<le> 256" "request_build (cq_request_id q, cq_setup_packet q, n) (control_request_data q) = q"
    using assms padded_rewrite[of 256 "unat (cq_length q)" "cq_data q"]
    by (simp_all add: request_build_def control_request_data_def control_request_ok_def CONTROL_DATA_MAX_LEN_def)
qed

lemma response_rebuilt:
  assumes "control_response_ok p"
  shows "response_build (cp_request_id p, cp_status p, n) (control_response_data p) = p" "length (control_response_data p) \<le> 256"
proof -
  have "length (control_response_data p) = unat (cp_length p)" "unat (cp_length p) \<le> 256"
    using assms by (auto simp: control_response_ok_def control_response_data_def padded_ok_def CONTROL_DATA_MAX_LEN_def)
  then show "length (control_response_data p) \<le> 256" "response_build (cp_request_id p, cp_status p, n) (control_response_data p) = p"
    using assms padded_rewrite[of 256 "unat (cp_length p)" "cp_data p"]
    by (simp_all add: response_build_def control_response_data_def control_response_ok_def CONTROL_DATA_MAX_LEN_def)
qed

lemma request_reassembled:
  assumes "control_request_ok q" "request_assembler_ok a"
  shows "\<exists>fs. map (request_fragment_of q) (fragment_offsets (length (control_request_data q))) = map Inr fs \<and> list_all request_fragment_ok fs \<and>
    snd (feed request_assembler_push a fs) = replicate (length fs - 1) (Inr None) @ [Inr (Some q)]"
proof -
  let ?d = "control_request_data q" let ?k = "(cq_request_id q, cq_setup_packet q, of_nat (length ?d) :: u16)"
  have w: "(case ?k of (_, _, n) \<Rightarrow> unat n) = length ?d" using request_rebuilt(2)[OF assms(1)] by (simp add: of_nat_len16)
  have "\<forall>n \<in> set (fragment_offsets (length ?d)). \<exists>f. request_fragment_of q n = Inr f \<and>
      (request_fragment_ok f \<and> unat (qf_offset f) = n \<and> request_key f = ?k \<and> request_fragment_data f = fragment_slice ?d n)"
    using request_fragment_made[OF assms(1)] by metis
  from request.reassembled[OF assms(2) request_rebuilt(2)[OF assms(1)] w this] show ?thesis using request_rebuilt(1)[OF assms(1)] by simp
qed

lemma response_reassembled:
  assumes "control_response_ok p" "response_assembler_ok a"
  shows "\<exists>fs. map (response_fragment_of p) (fragment_offsets (length (control_response_data p))) = map Inr fs \<and> list_all response_fragment_ok fs \<and>
    snd (feed response_assembler_push a fs) = replicate (length fs - 1) (Inr None) @ [Inr (Some p)]"
proof -
  let ?d = "control_response_data p" let ?k = "(cp_request_id p, cp_status p, of_nat (length ?d) :: u16)"
  have w: "(case ?k of (_, _, n) \<Rightarrow> unat n) = length ?d" using response_rebuilt(2)[OF assms(1)] by (simp add: of_nat_len16)
  have "\<forall>n \<in> set (fragment_offsets (length ?d)). \<exists>f. response_fragment_of p n = Inr f \<and>
      (response_fragment_ok f \<and> unat (rf_offset f) = n \<and> response_key f = ?k \<and> response_fragment_data f = fragment_slice ?d n)"
    using response_fragment_made[OF assms(1)] by metis
  from response.reassembled[OF assms(2) response_rebuilt(2)[OF assms(1)] w this] show ?thesis using response_rebuilt(1)[OF assms(1)] by simp
qed

text \<open>
  C22: A control transfer survives fragmentation. The fragments a sender cuts from a request or a
  response at the successive offsets all exist, fit a cell, come back from the wire as they were
  sent, and when they are pushed in order into an assembler, whatever it had collected before,
  every one but the last is absorbed and the last one delivers exactly the original message.
\<close>

theorem fragments_reassembled:
  assumes "control_request_ok q" "control_response_ok p" "request_assembler_ok qa" "response_assembler_ok pa"
  shows "(\<exists>fs. map (request_fragment_of q) (fragment_offsets (length (control_request_data q))) = map Inr fs \<and>
      list_all (\<lambda>f. request_fragment_decode (request_fragment_bytes f) = Inr f \<and>
        length (request_fragment_bytes f) \<le> CONTROL_REQUEST_FRAGMENT_MAX_WIRE_LEN) fs \<and>
      snd (feed request_assembler_push qa fs) = replicate (length fs - 1) (Inr None) @ [Inr (Some q)]) \<and>
    (\<exists>fs. map (response_fragment_of p) (fragment_offsets (length (control_response_data p))) = map Inr fs \<and>
      list_all (\<lambda>f. response_fragment_decode (response_fragment_bytes f) = Inr f \<and>
        length (response_fragment_bytes f) \<le> CONTROL_RESPONSE_FRAGMENT_MAX_WIRE_LEN) fs \<and>
      snd (feed response_assembler_push pa fs) = replicate (length fs - 1) (Inr None) @ [Inr (Some p)])"
proof (rule conjI)
  obtain fs where fs: "map (request_fragment_of q) (fragment_offsets (length (control_request_data q))) = map Inr fs"
      "snd (feed request_assembler_push qa fs) = replicate (length fs - 1) (Inr None) @ [Inr (Some q)]" and ok: "list_all request_fragment_ok fs"
    using request_reassembled[OF assms(1,3)] by blast
  have "list_all (\<lambda>f. request_fragment_decode (request_fragment_bytes f) = Inr f \<and> length (request_fragment_bytes f) \<le> CONTROL_REQUEST_FRAGMENT_MAX_WIRE_LEN) fs"
    using ok by (rule list.pred_mono_strong) (simp add: request_fragment.dec_enc request_wire_len)
  with fs show "\<exists>fs. map (request_fragment_of q) (fragment_offsets (length (control_request_data q))) = map Inr fs \<and>
      list_all (\<lambda>f. request_fragment_decode (request_fragment_bytes f) = Inr f \<and>
        length (request_fragment_bytes f) \<le> CONTROL_REQUEST_FRAGMENT_MAX_WIRE_LEN) fs \<and>
      snd (feed request_assembler_push qa fs) = replicate (length fs - 1) (Inr None) @ [Inr (Some q)]" by blast
next
  obtain fs where fs: "map (response_fragment_of p) (fragment_offsets (length (control_response_data p))) = map Inr fs"
      "snd (feed response_assembler_push pa fs) = replicate (length fs - 1) (Inr None) @ [Inr (Some p)]" and ok: "list_all response_fragment_ok fs"
    using response_reassembled[OF assms(2,4)] by blast
  have "list_all (\<lambda>f. response_fragment_decode (response_fragment_bytes f) = Inr f \<and> length (response_fragment_bytes f) \<le> CONTROL_RESPONSE_FRAGMENT_MAX_WIRE_LEN) fs"
    using ok by (rule list.pred_mono_strong) (simp add: response_fragment.dec_enc response_wire_len)
  with fs show "\<exists>fs. map (response_fragment_of p) (fragment_offsets (length (control_response_data p))) = map Inr fs \<and>
      list_all (\<lambda>f. response_fragment_decode (response_fragment_bytes f) = Inr f \<and>
        length (response_fragment_bytes f) \<le> CONTROL_RESPONSE_FRAGMENT_MAX_WIRE_LEN) fs \<and>
      snd (feed response_assembler_push pa fs) = replicate (length fs - 1) (Inr None) @ [Inr (Some p)]" by blast
qed

definition sample_request :: control_request where
  "sample_request = request_build (7, [1, 2, 3, 4, 5, 6, 7, 8], 200) (replicate 200 0x5a)"

definition sample_response :: control_response where
  "sample_response = response_build (7, CsSuccess, 2) [1, 2]"

lemma samples_ok: "control_request_ok sample_request" "control_response_ok sample_response"
  "request_assembler_ok request_assembler_new" "response_assembler_ok response_assembler_new"
  by (simp_all add: control_request_ok_def control_response_ok_def sample_request_def sample_response_def request_build_def response_build_def
      padded_ok_def write_padded CONTROL_DATA_MAX_LEN_def list_all_iff request_assembler_ok_def response_assembler_ok_def collector_ok_def
      request_view_def response_view_def request_assembler_new_def response_assembler_new_def)

theorem fragments_reassembled_witness:
  "(\<exists>fs. snd (feed request_assembler_push request_assembler_new fs) = replicate (length fs - 1) (Inr None) @ [Inr (Some sample_request)]) \<and>
   (\<exists>fs. snd (feed response_assembler_push response_assembler_new fs) = replicate (length fs - 1) (Inr None) @ [Inr (Some sample_response)])"
  using fragments_reassembled[OF samples_ok] by blast

text \<open>
  Fragments of different messages never mix. When an assembler that started empty delivers a
  message after any sequence of decoded fragments, the message is the concatenation of an
  uninterrupted run of fragments at the end of that sequence, all carrying its request id and
  setup packet (or status), without gap or overlap from offset zero to its announced length.
\<close>

theorem fragments_never_mixed:
  assumes "list_all request_fragment_ok (qs @ [q])" "last (snd (feed request_assembler_push request_assembler_new (qs @ [q]))) = Inr (Some request)"
    "list_all response_fragment_ok (ps @ [p])" "last (snd (feed response_assembler_push response_assembler_new (ps @ [p]))) = Inr (Some response)"
  shows "(\<exists>hs gs. qs = hs @ gs \<and> adjoining request_key (\<lambda>f. unat (qf_offset f)) request_fragment_data (request_key q) 0 (gs @ [q]) \<and>
      length (concat (map request_fragment_data (gs @ [q]))) = unat (qf_total_length q) \<and>
      control_request_new (qf_request_id q) (qf_setup_packet q) (concat (map request_fragment_data (gs @ [q]))) = Inr request) \<and>
    (\<exists>hs gs. ps = hs @ gs \<and> adjoining response_key (\<lambda>f. unat (rf_offset f)) response_fragment_data (response_key p) 0 (gs @ [p]) \<and>
      length (concat (map response_fragment_data (gs @ [p]))) = unat (rf_total_length p) \<and>
      control_response_new (rf_request_id p) (rf_status p) (concat (map response_fragment_data (gs @ [p]))) = Inr response)"
proof (rule conjI)
  have "collected_by (request_view request_assembler_new) = None" by (simp add: collected_by_def request_view_def request_assembler_new_def)
  from request.unmixed[OF samples_ok(3) this assms(1,2)] obtain hs gs where g: "qs = hs @ gs"
    "adjoining request_key (\<lambda>f. unat (qf_offset f)) request_fragment_data (request_key q) 0 (gs @ [q])"
    "length (concat (map request_fragment_data (gs @ [q]))) = unat (qf_total_length q)"
    "request = request_build (request_key q) (concat (map request_fragment_data (gs @ [q])))" unfolding request_key_def prod.case by blast
  moreover have "unat (qf_total_length q) \<le> 256" using assms(1) by (auto simp: request_fragment_ok_def dest: validated(1))
  ultimately show "\<exists>hs gs. qs = hs @ gs \<and> adjoining request_key (\<lambda>f. unat (qf_offset f)) request_fragment_data (request_key q) 0 (gs @ [q]) \<and>
      length (concat (map request_fragment_data (gs @ [q]))) = unat (qf_total_length q) \<and>
      control_request_new (qf_request_id q) (qf_setup_packet q) (concat (map request_fragment_data (gs @ [q]))) = Inr request"
    unfolding control_request_new_def CONTROL_DATA_MAX_LEN_def by (intro exI[of _ hs] exI[of _ gs]) (simp add: request_build_def request_key_def CONTROL_DATA_MAX_LEN_def)
next
  have "collected_by (response_view response_assembler_new) = None" by (simp add: collected_by_def response_view_def response_assembler_new_def)
  from response.unmixed[OF samples_ok(4) this assms(3,4)] obtain hs gs where g: "ps = hs @ gs"
    "adjoining response_key (\<lambda>f. unat (rf_offset f)) response_fragment_data (response_key p) 0 (gs @ [p])"
    "length (concat (map response_fragment_data (gs @ [p]))) = unat (rf_total_length p)"
    "response = response_build (response_key p) (concat (map response_fragment_data (gs @ [p])))" unfolding response_key_def prod.case by blast
  moreover have "unat (rf_total_length p) \<le> 256" using assms(3) by (auto simp: response_fragment_ok_def dest: validated(1))
  ultimately show "\<exists>hs gs. ps = hs @ gs \<and> adjoining response_key (\<lambda>f. unat (rf_offset f)) response_fragment_data (response_key p) 0 (gs @ [p]) \<and>
      length (concat (map response_fragment_data (gs @ [p]))) = unat (rf_total_length p) \<and>
      control_response_new (rf_request_id p) (rf_status p) (concat (map response_fragment_data (gs @ [p]))) = Inr response"
    unfolding control_response_new_def CONTROL_DATA_MAX_LEN_def by (intro exI[of _ hs] exI[of _ gs]) (simp add: response_build_def response_key_def CONTROL_DATA_MAX_LEN_def)
qed

definition sample_request_fragment :: request_fragment where
  "sample_request_fragment = \<lparr>qf_request_id = 7, qf_setup_packet = [1, 2, 3, 4, 5, 6, 7, 8], qf_offset = 0, qf_total_length = 2,
     qf_flags = 3, qf_length = 2, qf_data = [9, 8] @ replicate 84 0\<rparr>"

definition sample_response_fragment :: response_fragment where
  "sample_response_fragment = \<lparr>rf_request_id = 7, rf_status = CsStall, rf_offset = 0, rf_total_length = 2,
     rf_flags = 3, rf_length = 2, rf_data = [9, 8] @ replicate 84 0\<rparr>"

theorem fragments_never_mixed_witness:
  "(\<exists>hs gs. [sample_request_fragment] = hs @ gs \<and>
      adjoining request_key (\<lambda>f. unat (qf_offset f)) request_fragment_data (request_key sample_request_fragment) 0 (gs @ [sample_request_fragment])) \<and>
   (\<exists>hs gs. [sample_response_fragment] = hs @ gs \<and>
      adjoining response_key (\<lambda>f. unat (rf_offset f)) response_fragment_data (response_key sample_response_fragment) 0 (gs @ [sample_response_fragment]))"
proof -
  have "list_all request_fragment_ok ([sample_request_fragment] @ [sample_request_fragment])" by code_simp
  moreover have "last (snd (feed request_assembler_push request_assembler_new ([sample_request_fragment] @ [sample_request_fragment]))) =
      Inr (Some (request_build (7, [1, 2, 3, 4, 5, 6, 7, 8], 2) [9, 8]))" by code_simp
  moreover have "list_all response_fragment_ok ([sample_response_fragment] @ [sample_response_fragment])" by code_simp
  moreover have "last (snd (feed response_assembler_push response_assembler_new ([sample_response_fragment] @ [sample_response_fragment]))) =
      Inr (Some (response_build (7, CsStall, 2) [9, 8]))" by code_simp
  ultimately show ?thesis using fragments_never_mixed[of "[sample_request_fragment]" sample_request_fragment _ "[sample_response_fragment]" sample_response_fragment]
    by blast
qed

end
