(* ===== verification/HS_MirrorImage.thy ===== *)
theory HS_MirrorImage
  imports HS_Message
begin

unbundle bit_operations_syntax

text \<open>
  The mirror image (\<open>mirror/image.rs\<close>, \<open>mirror/parser.rs\<close>): the descriptors of a USB
  device packed behind a header with a checksum. The theory models the header, the record
  iterators, the serialiser and the parser. Parsing what was serialised gives the descriptors
  back, and a parsed image is the serialisation of what it was parsed into.
\<close>

section \<open>The image\<close>

definition HSMI_MAGIC :: bytes where "HSMI_MAGIC = [0x48, 0x53, 0x4d, 0x49]"
definition HSMI_VERSION :: u16 where "HSMI_VERSION = 1"
definition HSMI_HEADER_LEN :: nat where "HSMI_HEADER_LEN = 32"
definition HSMI_MAX_SIZE :: nat where "HSMI_MAX_SIZE = 16 * 1024"
definition STRING_RECORD_HEADER_LEN :: nat where "STRING_RECORD_HEADER_LEN = 5"
definition HID_REPORT_RECORD_HEADER_LEN :: nat where "HID_REPORT_RECORD_HEADER_LEN = 3"

lemmas hsmi_sizes = HSMI_HEADER_LEN_def HSMI_MAX_SIZE_def STRING_RECORD_HEADER_LEN_def HID_REPORT_RECORD_HEADER_LEN_def

record mirror_image_header =
  mh_magic :: bytes
  mh_version :: u16
  mh_header_length :: u16
  mh_total_length :: u32
  mh_image_crc32 :: u32
  mh_flags :: u32
  mh_device_length :: u16
  mh_configuration_length :: u16
  mh_bos_length :: u16
  mh_string_count :: u8
  mh_hid_report_count :: u8
  mh_reserved :: bytes

definition mirror_header_decode :: "bytes \<Rightarrow> mirror_image_header option" where
  "mirror_header_decode bs =
     (if length bs < HSMI_HEADER_LEN then None
      else Some \<lparr>mh_magic = subslice 0 4 bs, mh_version = from_le (subslice 4 6 bs),
        mh_header_length = from_le (subslice 6 8 bs), mh_total_length = from_le (subslice 8 12 bs),
        mh_image_crc32 = from_le (subslice 12 16 bs), mh_flags = from_le (subslice 16 20 bs),
        mh_device_length = from_le (subslice 20 22 bs), mh_configuration_length = from_le (subslice 22 24 bs),
        mh_bos_length = from_le (subslice 24 26 bs), mh_string_count = bs ! 26, mh_hid_report_count = bs ! 27,
        mh_reserved = subslice 28 32 bs\<rparr>)"

definition mirror_header_encode :: "mirror_image_header \<Rightarrow> bytes" where
  "mirror_header_encode h =
     mh_magic h @ to_le 2 (mh_version h) @ to_le 2 (mh_header_length h) @ to_le 4 (mh_total_length h) @
     to_le 4 (mh_image_crc32 h) @ to_le 4 (mh_flags h) @ to_le 2 (mh_device_length h) @
     to_le 2 (mh_configuration_length h) @ to_le 2 (mh_bos_length h) @ [mh_string_count h] @ [mh_hid_report_count h] @ mh_reserved h"

record string_record =
  sr_index :: u8
  sr_lang_id :: u16
  sr_descriptor :: bytes

record hid_report_record =
  hr_interface_number :: u8
  hr_descriptor :: bytes

record mirror_image =
  mi_header :: mirror_image_header
  mi_device_descriptor :: bytes
  mi_configuration_descriptor :: bytes
  mi_bos_descriptor :: bytes
  mi_string_records :: bytes
  mi_hid_report_records :: bytes

subsection \<open>Record iterators\<close>

text \<open>An iterator is the remaining bytes with the number of records to come.\<close>

definition string_records_next :: "bytes \<times> u8 \<Rightarrow> (bytes \<times> u8) \<times> string_record option" where
  "string_records_next it =
     (case it of (remaining, count) \<Rightarrow>
        if count = 0 \<or> length remaining < STRING_RECORD_HEADER_LEN then (it, None)
        else let len = unat (from_le (subslice 3 5 remaining) :: u16); fin = STRING_RECORD_HEADER_LEN + len in
          if length remaining < fin then ((remaining, 0), None)
          else ((drop fin remaining, count - 1),
                Some \<lparr>sr_index = remaining ! 0, sr_lang_id = from_le (subslice 1 3 remaining),
                      sr_descriptor = subslice STRING_RECORD_HEADER_LEN fin remaining\<rparr>))"

definition hid_report_records_next :: "bytes \<times> u8 \<Rightarrow> (bytes \<times> u8) \<times> hid_report_record option" where
  "hid_report_records_next it =
     (case it of (remaining, count) \<Rightarrow>
        if count = 0 \<or> length remaining < HID_REPORT_RECORD_HEADER_LEN then (it, None)
        else let len = unat (from_le (subslice 1 3 remaining) :: u16); fin = HID_REPORT_RECORD_HEADER_LEN + len in
          if length remaining < fin then ((remaining, 0), None)
          else ((drop fin remaining, count - 1),
                Some \<lparr>hr_interface_number = remaining ! 0, hr_descriptor = subslice HID_REPORT_RECORD_HEADER_LEN fin remaining\<rparr>))"

text \<open>All items of an iterator; the count is the bound, since every item lowers it.\<close>

fun drain :: "('s \<Rightarrow> 's \<times> 'r option) \<Rightarrow> nat \<Rightarrow> 's \<Rightarrow> 'r list" where
  "drain nxt 0 s = []"
| "drain nxt (Suc n) s = (case nxt s of (s', Some r) \<Rightarrow> r # drain nxt n s' | (_, None) \<Rightarrow> [])"

definition string_records :: "bytes \<Rightarrow> u8 \<Rightarrow> string_record list" where
  "string_records records count = drain string_records_next (unat count) (records, count)"

definition hid_report_records :: "bytes \<Rightarrow> u8 \<Rightarrow> hid_report_record list" where
  "hid_report_records records count = drain hid_report_records_next (unat count) (records, count)"

definition image_strings :: "mirror_image \<Rightarrow> string_record list" where
  "image_strings im = string_records (mi_string_records im) (mh_string_count (mi_header im))"

definition image_hid_reports :: "mirror_image \<Rightarrow> hid_report_record list" where
  "image_hid_reports im = hid_report_records (mi_hid_report_records im) (mh_hid_report_count (mi_header im))"

record string_table =
  tb_string_records :: bytes
  tb_string_count :: u8

record hid_report_table =
  tb_report_records :: bytes
  tb_report_count :: u8

definition image_string_table :: "mirror_image \<Rightarrow> string_table" where
  "image_string_table im = \<lparr>tb_string_records = mi_string_records im, tb_string_count = mh_string_count (mi_header im)\<rparr>"

definition image_hid_report_table :: "mirror_image \<Rightarrow> hid_report_table" where
  "image_hid_report_table im = \<lparr>tb_report_records = mi_hid_report_records im, tb_report_count = mh_hid_report_count (mi_header im)\<rparr>"

definition string_table_get :: "string_table \<Rightarrow> u8 \<Rightarrow> u16 \<Rightarrow> bytes option" where
  "string_table_get t index lang_id =
     map_option sr_descriptor (find (\<lambda>r. sr_index r = index \<and> sr_lang_id r = lang_id) (string_records (tb_string_records t) (tb_string_count t)))"

definition hid_report_table_get :: "hid_report_table \<Rightarrow> u8 \<Rightarrow> bytes option" where
  "hid_report_table_get t interface_number =
     map_option hr_descriptor (find (\<lambda>r. hr_interface_number r = interface_number) (hid_report_records (tb_report_records t) (tb_report_count t)))"

subsection \<open>Checksum\<close>

fun image_crc_loop :: "nat \<Rightarrow> bytes \<Rightarrow> u32 \<Rightarrow> u32" where
  "image_crc_loop index [] crc = crc"
| "image_crc_loop index (b # bs) crc =
     image_crc_loop (Suc index) bs (crc32_byte crc (if 12 \<le> index \<and> index < 16 then 0 else b))"

definition mirror_image_crc32 :: "bytes \<Rightarrow> u32" where
  "mirror_image_crc32 bs = NOT (image_crc_loop 0 bs 0xffffffff)"

section \<open>Serialiser\<close>

record mirror_image_source =
  ms_flags :: u32
  ms_device_descriptor :: bytes
  ms_configuration_descriptor :: bytes
  ms_bos_descriptor :: bytes
  ms_strings :: "string_record list"
  ms_hid_reports :: "hid_report_record list"

datatype mirror_image_encode_error = EncTooLarge | EncOutputTooSmall | EncLengthOverflow | EncTooManyRecords

text \<open>\<open>usize\<close> is 32 bits wide on both chips.\<close>

definition USIZE_MAX :: nat where "USIZE_MAX = 2 ^ 32 - 1"

definition usize_checked_add :: "nat \<Rightarrow> nat \<Rightarrow> nat option" where
  "usize_checked_add a b = (if USIZE_MAX < a + b then None else Some (a + b))"

fun sum_lengths :: "nat \<Rightarrow> nat \<Rightarrow> nat list \<Rightarrow> mirror_image_encode_error + nat" where
  "sum_lengths header acc [] = Inr acc"
| "sum_lengths header acc (n # ns) =
     (case Option.bind (usize_checked_add acc header) (\<lambda>v. usize_checked_add v n) of
        None \<Rightarrow> Inl EncLengthOverflow
      | Some acc' \<Rightarrow> sum_lengths header acc' ns)"

fun add_lengths :: "nat \<Rightarrow> nat list \<Rightarrow> nat option" where
  "add_lengths acc [] = Some acc"
| "add_lengths acc (n # ns) = Option.bind (usize_checked_add acc n) (\<lambda>v. add_lengths v ns)"

definition try_u16 :: "nat \<Rightarrow> mirror_image_encode_error + u16" where
  "try_u16 n = (if 0xffff < n then Inl EncLengthOverflow else Inr (of_nat n))"

definition try_count :: "nat \<Rightarrow> mirror_image_encode_error + u8" where
  "try_count n = (if 0xff < n then Inl EncTooManyRecords else Inr (of_nat n))"

fun write_descriptors :: "bytes list \<Rightarrow> nat \<Rightarrow> bytes \<Rightarrow> bytes \<times> nat" where
  "write_descriptors [] offset out = (out, offset)"
| "write_descriptors (d # ds) offset out = write_descriptors ds (offset + length d) (write_at offset d out)"

fun write_strings :: "string_record list \<Rightarrow> nat \<Rightarrow> bytes \<Rightarrow> (bytes, mirror_image_encode_error, nat) outcome" where
  "write_strings [] offset out = (out, Inr offset)"
| "write_strings (r # rs) offset out =
     (let out = write_at (offset + 1) (to_le 2 (sr_lang_id r)) (write_at offset [sr_index r] out) in
      case try_u16 (length (sr_descriptor r)) of
        Inl e \<Rightarrow> (out, Inl e)
      | Inr n \<Rightarrow>
          let out = write_at (offset + 3) (to_le 2 n) out; offset = offset + STRING_RECORD_HEADER_LEN in
          write_strings rs (offset + length (sr_descriptor r)) (write_at offset (sr_descriptor r) out))"

fun write_hid_reports :: "hid_report_record list \<Rightarrow> nat \<Rightarrow> bytes \<Rightarrow> (bytes, mirror_image_encode_error, nat) outcome" where
  "write_hid_reports [] offset out = (out, Inr offset)"
| "write_hid_reports (r # rs) offset out =
     (let out = write_at offset [hr_interface_number r] out in
      case try_u16 (length (hr_descriptor r)) of
        Inl e \<Rightarrow> (out, Inl e)
      | Inr n \<Rightarrow>
          let out = write_at (offset + 1) (to_le 2 n) out; offset = offset + HID_REPORT_RECORD_HEADER_LEN in
          write_hid_reports rs (offset + length (hr_descriptor r)) (write_at offset (hr_descriptor r) out))"

definition serialize_body ::
  "mirror_image_source \<Rightarrow> mirror_image_header \<Rightarrow> bytes \<Rightarrow> (bytes, mirror_image_encode_error, nat) outcome" where
  "serialize_body source header out =
     (let total_length = unat (mh_total_length header);
          out = write_at 0 (replicate total_length 0) out;
          out = write_at 0 (mirror_header_encode header) out;
          (out, offset) = write_descriptors [ms_device_descriptor source, ms_configuration_descriptor source, ms_bos_descriptor source] HSMI_HEADER_LEN out in
      andThen (write_strings (ms_strings source) offset out) (\<lambda>offset out.
        andThen (write_hid_reports (ms_hid_reports source) offset out) (\<lambda>_ out.
          let crc = mirror_image_crc32 (take total_length out) in
          (write_at 12 (to_le 4 crc) out, Inr total_length))))"

definition source_header :: "mirror_image_source \<Rightarrow> nat \<Rightarrow> mirror_image_encode_error + mirror_image_header" where
  "source_header source total_length =
     bindE (try_u16 (length (ms_device_descriptor source))) (\<lambda>device_length.
     bindE (try_u16 (length (ms_configuration_descriptor source))) (\<lambda>configuration_length.
     bindE (try_u16 (length (ms_bos_descriptor source))) (\<lambda>bos_length.
     bindE (try_count (length (ms_strings source))) (\<lambda>string_count.
     bindE (try_count (length (ms_hid_reports source))) (\<lambda>hid_report_count.
       Inr \<lparr>mh_magic = HSMI_MAGIC, mh_version = HSMI_VERSION, mh_header_length = of_nat HSMI_HEADER_LEN,
            mh_total_length = of_nat total_length, mh_image_crc32 = 0, mh_flags = ms_flags source,
            mh_device_length = device_length, mh_configuration_length = configuration_length, mh_bos_length = bos_length,
            mh_string_count = string_count, mh_hid_report_count = hid_report_count, mh_reserved = replicate 4 0\<rparr>)))))"

definition source_length :: "mirror_image_source \<Rightarrow> mirror_image_encode_error + nat" where
  "source_length source =
     bindE (sum_lengths STRING_RECORD_HEADER_LEN 0 (map (length \<circ> sr_descriptor) (ms_strings source))) (\<lambda>strings_length.
     bindE (sum_lengths HID_REPORT_RECORD_HEADER_LEN 0 (map (length \<circ> hr_descriptor) (ms_hid_reports source))) (\<lambda>reports_length.
       case add_lengths HSMI_HEADER_LEN [length (ms_device_descriptor source), length (ms_configuration_descriptor source),
              length (ms_bos_descriptor source), strings_length, reports_length] of
         None \<Rightarrow> Inl EncLengthOverflow | Some n \<Rightarrow> Inr n))"

definition serialize_mirror_image :: "mirror_image_source \<Rightarrow> bytes \<Rightarrow> (bytes, mirror_image_encode_error, nat) outcome" where
  "serialize_mirror_image source out =
     (case bindE (source_length source) (\<lambda>total_length.
         if HSMI_MAX_SIZE < total_length then Inl EncTooLarge
         else if length out < total_length then Inl EncOutputTooSmall
         else source_header source total_length) of
        Inl e \<Rightarrow> (out, Inl e)
      | Inr header \<Rightarrow> serialize_body source header out)"

section \<open>Parser\<close>

datatype mirror_image_parse_error =
  PaImageTooLarge | PaTruncated | PaInvalidMagic | PaUnsupportedVersion | PaInvalidHeaderLength
  | PaInvalidTotalLength | PaInvalidReservedBytes | PaInvalidRecordLength | PaCrcMismatch | PaTrailingBytes

definition image_take :: "bytes \<Rightarrow> nat \<Rightarrow> nat \<Rightarrow> mirror_image_parse_error + (bytes \<times> nat)" where
  "image_take bs offset len =
     (case usize_checked_add offset len of
        None \<Rightarrow> Inl PaInvalidRecordLength
      | Some fin \<Rightarrow> if length bs < fin then Inl PaTruncated else Inr (subslice offset fin bs, fin))"

text \<open>The loops over the records: the header of a record ends in the length of its descriptor.\<close>

fun skip_records :: "nat \<Rightarrow> bytes \<Rightarrow> nat \<Rightarrow> nat \<Rightarrow> mirror_image_parse_error + nat" where
  "skip_records header_len bs 0 offset = Inr offset"
| "skip_records header_len bs (Suc n) offset =
     bindE (image_take bs offset header_len) (\<lambda>(record_header, offset).
     bindE (image_take bs offset (unat (from_le (subslice (header_len - 2) header_len record_header) :: u16))) (\<lambda>(_, offset).
       skip_records header_len bs n offset))"

definition parse_header :: "bytes \<Rightarrow> mirror_image_parse_error + mirror_image_header" where
  "parse_header bs =
     (if HSMI_MAX_SIZE < length bs then Inl PaImageTooLarge
      else case mirror_header_decode bs of
        None \<Rightarrow> Inl PaTruncated
      | Some header \<Rightarrow>
          if mh_magic header \<noteq> HSMI_MAGIC then Inl PaInvalidMagic
          else if mh_version header \<noteq> HSMI_VERSION then Inl PaUnsupportedVersion
          else if unat (mh_header_length header) \<noteq> HSMI_HEADER_LEN then Inl PaInvalidHeaderLength
          else let total_length = unat (mh_total_length header) in
            if \<not> (HSMI_HEADER_LEN \<le> total_length \<and> total_length \<le> HSMI_MAX_SIZE) then Inl PaInvalidTotalLength
            else if length bs < total_length then Inl PaTruncated
            else if total_length < length bs then Inl PaTrailingBytes
            else if mh_reserved header \<noteq> replicate 4 0 then Inl PaInvalidReservedBytes
            else if mirror_image_crc32 bs \<noteq> mh_image_crc32 header then Inl PaCrcMismatch
            else Inr header)"

definition parse_mirror_image :: "bytes \<Rightarrow> mirror_image_parse_error + mirror_image" where
  "parse_mirror_image bs =
     bindE (parse_header bs) (\<lambda>header.
     bindE (image_take bs HSMI_HEADER_LEN (unat (mh_device_length header))) (\<lambda>(device_descriptor, offset).
     bindE (image_take bs offset (unat (mh_configuration_length header))) (\<lambda>(configuration_descriptor, offset).
     bindE (image_take bs offset (unat (mh_bos_length header))) (\<lambda>(bos_descriptor, string_start).
     bindE (skip_records STRING_RECORD_HEADER_LEN bs (unat (mh_string_count header)) string_start) (\<lambda>report_start.
     bindE (skip_records HID_REPORT_RECORD_HEADER_LEN bs (unat (mh_hid_report_count header)) report_start) (\<lambda>offset.
       if offset \<noteq> unat (mh_total_length header) then Inl PaTrailingBytes
       else Inr \<lparr>mi_header = header, mi_device_descriptor = device_descriptor,
                 mi_configuration_descriptor = configuration_descriptor, mi_bos_descriptor = bos_descriptor,
                 mi_string_records = subslice string_start report_start bs,
                 mi_hid_report_records = subslice report_start offset bs\<rparr>))))))"

section \<open>Records\<close>

definition string_image :: "string_record \<Rightarrow> bytes" where
  "string_image r = [sr_index r] @ to_le 2 (sr_lang_id r) @ to_le 2 (of_nat (length (sr_descriptor r)) :: u16) @ sr_descriptor r"

definition report_image :: "hid_report_record \<Rightarrow> bytes" where
  "report_image r = [hr_interface_number r] @ to_le 2 (of_nat (length (hr_descriptor r)) :: u16) @ hr_descriptor r"

lemma u16_len: "n \<le> 0xffff \<Longrightarrow> unat (of_nat n :: u16) = n"
  by (simp add: unat_of_nat_small)

lemma u16_field:
  assumes "unat (from_le (subslice a b h) :: u16) = n" "b = a + 2" "b \<le> length h"
  shows "n \<le> 0xffff" "to_le 2 (of_nat n :: u16) = subslice a b h"
proof -
  show "n \<le> 0xffff" using unsigned_less[of "from_le (subslice a b h) :: u16", where 'a = nat] assms(1) by simp
  have "(of_nat n :: u16) = from_le (subslice a b h)" using assms(1) by (metis of_nat_unat ucast_id)
  then show "to_le 2 (of_nat n :: u16) = subslice a b h" using le2_slice[OF assms(2,3)] by simp
qed

lemma drop_header: "drop (5 + n) (a # b # c # d # e # xs) = drop n xs" "drop (3 + n) (a # b # c # xs) = drop n xs"
  by (simp_all add: eval_nat_numeral)

text \<open>What both kinds of records have in common: a header whose last two bytes give the length.\<close>

locale record_format =
  fixes nxt :: "bytes \<times> u8 \<Rightarrow> (bytes \<times> u8) \<times> 'r option" and hlen :: nat and image_of :: "'r \<Rightarrow> bytes" and ok :: "'r \<Rightarrow> bool"
  assumes next_image: "ok r \<Longrightarrow> c \<noteq> 0 \<Longrightarrow> nxt (image_of r @ rest, c) = ((rest, c - 1), Some r)"
    and image_split: "ok r \<Longrightarrow> \<exists>h d. image_of r = h @ d \<and> length h = hlen \<and> unat (from_le (subslice (hlen - 2) hlen h) :: u16) = length d"
    and image_exists: "length h = hlen \<Longrightarrow> unat (from_le (subslice (hlen - 2) hlen h) :: u16) = length d \<Longrightarrow> \<exists>r. ok r \<and> image_of r = h @ d"
begin

lemma drain_images:
  assumes "list_all ok rs" "length rs \<le> 255"
  shows "drain nxt (length rs) (concat (map image_of rs) @ rest, of_nat (length rs)) = rs"
  using assms
proof (induction rs)
  case (Cons r rs)
  have "unat (of_nat (length (r # rs)) :: u8) = length (r # rs)" using Cons.prems(2) by (intro of_nat_len8) simp
  then have "(of_nat (length (r # rs)) :: u8) \<noteq> 0" by (metis list.size(4) add_is_0 unat_0 zero_neq_one One_nat_def)
  then have "nxt (image_of r @ concat (map image_of rs) @ rest, of_nat (length (r # rs))) = ((concat (map image_of rs) @ rest, of_nat (length rs)), Some r)"
    using next_image[of r "of_nat (length (r # rs))" "concat (map image_of rs) @ rest"] Cons.prems(1) by simp
  then show ?case using Cons by simp
qed simp

lemma skip_images:
  assumes "list_all ok rs" "length (pre @ concat (map image_of rs) @ rest) \<le> USIZE_MAX"
  shows "skip_records hlen (pre @ concat (map image_of rs) @ rest) (length rs) (length pre) = Inr (length pre + length (concat (map image_of rs)))"
  using assms
proof (induction rs arbitrary: pre)
  case (Cons r rs)
  obtain h d where h: "image_of r = h @ d" "length h = hlen" "unat (from_le (subslice (hlen - 2) hlen h) :: u16) = length d"
    using image_split[of r] Cons.prems(1) by auto
  let ?bs = "pre @ concat (map image_of (r # rs)) @ rest"
  have bs: "?bs = (pre @ h @ d) @ concat (map image_of rs) @ rest" using h(1) by simp
  have t1: "image_take ?bs (length pre) hlen = Inr (h, length pre + hlen)"
    using Cons.prems(2) h(1,2) by (simp add: image_take_def usize_checked_add_def subslice_def)
  have t2: "image_take ?bs (length pre + hlen) (length d) = Inr (d, length (pre @ h @ d))"
    using Cons.prems(2) h(1,2) by (simp add: image_take_def usize_checked_add_def subslice_def)
  have "skip_records hlen ?bs (length (r # rs)) (length pre) = skip_records hlen ?bs (length rs) (length (pre @ h @ d))"
    using t1 t2 h(3) by simp
  also have "\<dots> = Inr (length (pre @ h @ d) + length (concat (map image_of rs)))"
    unfolding bs using Cons.prems h by (intro Cons.IH) simp_all
  finally show ?case using h(1) by simp
qed simp

lemma skip_inv:
  assumes "skip_records hlen bs n off = Inr fin" "off \<le> length bs"
  shows "\<exists>rs. length rs = n \<and> list_all ok rs \<and> off \<le> fin \<and> fin \<le> length bs \<and> subslice off fin bs = concat (map image_of rs)"
  using assms
proof (induction n arbitrary: off)
  case 0
  then show ?case by (simp add: subslice_def)
next
  case (Suc n)
  let ?h = "subslice off (off + hlen) bs" let ?n = "unat (from_le (subslice (hlen - 2) hlen ?h) :: u16)"
  let ?d = "subslice (off + hlen) (off + hlen + ?n) bs"
  have s: "off + hlen + ?n \<le> length bs" "skip_records hlen bs n (off + hlen + ?n) = Inr fin"
    using Suc.prems by (auto simp: bindE_Inr_iff image_take_def usize_checked_add_def split: option.splits if_splits)
  obtain rs where rs: "length rs = n" "list_all ok rs" "off + hlen + ?n \<le> fin" "fin \<le> length bs" "subslice (off + hlen + ?n) fin bs = concat (map image_of rs)"
    using Suc.IH[OF s(2,1)] by blast
  have "length ?h = hlen" "?n = length ?d" using s(1) by (simp_all add: length_subslice)
  from image_exists[OF this] obtain r where r: "ok r" "image_of r = ?h @ ?d" by blast
  have "?h @ ?d = subslice off (off + hlen + ?n) bs" by (rule subslice_split) simp_all
  moreover have "subslice off (off + hlen + ?n) bs @ subslice (off + hlen + ?n) fin bs = subslice off fin bs"
    using rs(3) by (intro subslice_split) simp_all
  ultimately have "subslice off fin bs = ?h @ ?d @ subslice (off + hlen + ?n) fin bs" by (metis append_assoc)
  then show ?case using rs r by (intro exI[of _ "r # rs"]) simp
qed

end

interpretation strings: record_format string_records_next STRING_RECORD_HEADER_LEN string_image "\<lambda>r. length (sr_descriptor r) \<le> 0xffff"
proof
  fix r :: string_record and c rest
  assume "length (sr_descriptor r) \<le> 0xffff" "(c :: u8) \<noteq> 0"
  moreover obtain l0 l1 where "to_le 2 (sr_lang_id r) = [l0, l1]" by (rule to_le_2_list)
  moreover have "from_le [l0, l1] = sr_lang_id r" using from_le_2[of "sr_lang_id r"] calculation(3) by metis
  moreover obtain n0 n1 where "to_le 2 (of_nat (length (sr_descriptor r)) :: u16) = [n0, n1]" by (rule to_le_2_list)
  moreover have "from_le [n0, n1] = (of_nat (length (sr_descriptor r)) :: u16)" using from_le_2[of "of_nat (length (sr_descriptor r))"] calculation(5) by metis
  ultimately show "string_records_next (string_image r @ rest, c) = ((rest, c - 1), Some r)"
    by (simp add: string_records_next_def string_image_def subslice_def hsmi_sizes u16_len drop_header Let_def del: from_le.simps to_le.simps)
next
  fix r :: string_record
  assume "length (sr_descriptor r) \<le> 0xffff"
  then show "\<exists>h d. string_image r = h @ d \<and> length h = STRING_RECORD_HEADER_LEN \<and>
      unat (from_le (subslice (STRING_RECORD_HEADER_LEN - 2) STRING_RECORD_HEADER_LEN h) :: u16) = length d"
    by (intro exI[of _ "[sr_index r] @ to_le 2 (sr_lang_id r) @ to_le 2 (of_nat (length (sr_descriptor r)) :: u16)"] exI[of _ "sr_descriptor r"])
      (simp add: string_image_def hsmi_sizes subslice_def u16_len del: from_le.simps to_le.simps)
next
  fix h d :: bytes
  assume a: "length h = STRING_RECORD_HEADER_LEN" "unat (from_le (subslice (STRING_RECORD_HEADER_LEN - 2) STRING_RECORD_HEADER_LEN h) :: u16) = length d"
  then have f: "unat (from_le (subslice 3 5 h) :: u16) = length d" "length h = 5" by (simp_all add: hsmi_sizes)
  have n: "length d \<le> 0xffff" "to_le 2 (of_nat (length d) :: u16) = subslice 3 5 h"
    by (rule u16_field[OF f(1)], simp, simp add: f(2))+
  let ?r = "\<lparr>sr_index = h ! 0, sr_lang_id = from_le (subslice 1 3 h), sr_descriptor = d\<rparr>"
  have "string_image ?r = subslice 0 1 h @ subslice 1 3 h @ subslice 3 5 h @ d"
    using a(1) n first_byte[of 5 h] by (simp add: string_image_def hsmi_sizes del: from_le.simps to_le.simps)
  also have "\<dots> = h @ d" using a(1) by (simp add: slice_join slice_whole hsmi_sizes)
  finally show "\<exists>r. length (sr_descriptor r) \<le> 0xffff \<and> string_image r = h @ d" using n(1) by (intro exI[of _ ?r]) simp
qed

interpretation reports: record_format hid_report_records_next HID_REPORT_RECORD_HEADER_LEN report_image "\<lambda>r. length (hr_descriptor r) \<le> 0xffff"
proof
  fix r :: hid_report_record and c rest
  assume "length (hr_descriptor r) \<le> 0xffff" "(c :: u8) \<noteq> 0"
  moreover obtain n0 n1 where "to_le 2 (of_nat (length (hr_descriptor r)) :: u16) = [n0, n1]" by (rule to_le_2_list)
  moreover have "from_le [n0, n1] = (of_nat (length (hr_descriptor r)) :: u16)" using from_le_2[of "of_nat (length (hr_descriptor r))"] calculation(3) by metis
  ultimately show "hid_report_records_next (report_image r @ rest, c) = ((rest, c - 1), Some r)"
    by (simp add: hid_report_records_next_def report_image_def subslice_def hsmi_sizes u16_len drop_header Let_def del: from_le.simps to_le.simps)
next
  fix r :: hid_report_record
  assume "length (hr_descriptor r) \<le> 0xffff"
  then show "\<exists>h d. report_image r = h @ d \<and> length h = HID_REPORT_RECORD_HEADER_LEN \<and>
      unat (from_le (subslice (HID_REPORT_RECORD_HEADER_LEN - 2) HID_REPORT_RECORD_HEADER_LEN h) :: u16) = length d"
    by (intro exI[of _ "[hr_interface_number r] @ to_le 2 (of_nat (length (hr_descriptor r)) :: u16)"] exI[of _ "hr_descriptor r"])
      (simp add: report_image_def hsmi_sizes subslice_def u16_len del: from_le.simps to_le.simps)
next
  fix h d :: bytes
  assume a: "length h = HID_REPORT_RECORD_HEADER_LEN" "unat (from_le (subslice (HID_REPORT_RECORD_HEADER_LEN - 2) HID_REPORT_RECORD_HEADER_LEN h) :: u16) = length d"
  then have f: "unat (from_le (subslice 1 3 h) :: u16) = length d" "length h = 3" by (simp_all add: hsmi_sizes)
  have n: "length d \<le> 0xffff" "to_le 2 (of_nat (length d) :: u16) = subslice 1 3 h"
    by (rule u16_field[OF f(1)], simp, simp add: f(2))+
  let ?r = "\<lparr>hr_interface_number = h ! 0, hr_descriptor = d\<rparr>"
  have "report_image ?r = subslice 0 1 h @ subslice 1 3 h @ d"
    using a(1) n first_byte[of 3 h] by (simp add: report_image_def hsmi_sizes del: from_le.simps to_le.simps)
  also have "\<dots> = h @ d" using a(1) by (simp add: slice_join slice_whole hsmi_sizes)
  finally show "\<exists>r. length (hr_descriptor r) \<le> 0xffff \<and> report_image r = h @ d" using n(1) by (intro exI[of _ ?r]) simp
qed

section \<open>What the serialiser writes\<close>

lemma write_append: "length d \<le> length rest \<Longrightarrow> write_at (length pre) d (pre @ rest) = pre @ d @ drop (length d) rest"
  by (simp add: write_at_def)

lemma write_at_write:
  "n + length a + length b \<le> length out \<Longrightarrow> m = n + length a \<Longrightarrow> write_at m b (write_at n a out) = write_at n (a @ b) out"
  by (simp add: write_at_def add.commute add.left_commute)

lemma write_strings_images:
  assumes "list_all (\<lambda>r. length (sr_descriptor r) \<le> 0xffff) rs" "length (concat (map string_image rs)) \<le> length rest"
  shows "write_strings rs (length pre) (pre @ rest) =
    (pre @ concat (map string_image rs) @ drop (length (concat (map string_image rs))) rest, Inr (length pre + length (concat (map string_image rs))))"
  using assms
proof (induction rs arbitrary: pre rest)
  case (Cons r rs)
  let ?d = "sr_descriptor r" let ?n = "of_nat (length ?d) :: u16" let ?im = "string_image r"
  have l: "length ?im = 5 + length ?d" by (simp add: string_image_def)
  have fit: "length ?im \<le> length rest" using Cons.prems(2) by simp
  have "write_at (length pre + 5) ?d (write_at (length pre + 3) (to_le 2 ?n) (write_at (length pre + 1) (to_le 2 (sr_lang_id r)) (write_at (length pre) [sr_index r] (pre @ rest)))) =
      write_at (length pre) ?im (pre @ rest)"
    using fit l by (simp add: write_at_write string_image_def del: to_le.simps)
  then have step: "write_strings (r # rs) (length pre) (pre @ rest) =
      write_strings rs (length (pre @ ?im)) ((pre @ ?im) @ drop (length ?im) rest)"
    using Cons.prems(1) fit l by (simp add: try_u16_def hsmi_sizes Let_def write_append add.assoc del: to_le.simps)
  show ?case unfolding step using Cons.prems by (subst Cons.IH) (simp_all add: add.commute)
qed simp

lemma write_reports_images:
  assumes "list_all (\<lambda>r. length (hr_descriptor r) \<le> 0xffff) rs" "length (concat (map report_image rs)) \<le> length rest"
  shows "write_hid_reports rs (length pre) (pre @ rest) =
    (pre @ concat (map report_image rs) @ drop (length (concat (map report_image rs))) rest, Inr (length pre + length (concat (map report_image rs))))"
  using assms
proof (induction rs arbitrary: pre rest)
  case (Cons r rs)
  let ?d = "hr_descriptor r" let ?n = "of_nat (length ?d) :: u16" let ?im = "report_image r"
  have l: "length ?im = 3 + length ?d" by (simp add: report_image_def)
  have fit: "length ?im \<le> length rest" using Cons.prems(2) by simp
  have "write_at (length pre + 3) ?d (write_at (length pre + 1) (to_le 2 ?n) (write_at (length pre) [hr_interface_number r] (pre @ rest))) =
      write_at (length pre) ?im (pre @ rest)"
    using fit l by (simp add: write_at_write report_image_def del: to_le.simps)
  then have step: "write_hid_reports (r # rs) (length pre) (pre @ rest) =
      write_hid_reports rs (length (pre @ ?im)) ((pre @ ?im) @ drop (length ?im) rest)"
    using Cons.prems(1) fit l by (simp add: try_u16_def hsmi_sizes Let_def write_append add.assoc del: to_le.simps)
  show ?case unfolding step using Cons.prems by (subst Cons.IH) (simp_all add: add.commute)
qed simp

definition source_body :: "mirror_image_source \<Rightarrow> bytes" where
  "source_body s = ms_device_descriptor s @ ms_configuration_descriptor s @ ms_bos_descriptor s @
     concat (map string_image (ms_strings s)) @ concat (map report_image (ms_hid_reports s))"

definition source_ok :: "mirror_image_source \<Rightarrow> bool" where
  "source_ok s = (HSMI_HEADER_LEN + length (source_body s) \<le> HSMI_MAX_SIZE \<and> length (ms_strings s) \<le> 255 \<and> length (ms_hid_reports s) \<le> 255)"

definition header_of :: "mirror_image_source \<Rightarrow> u32 \<Rightarrow> mirror_image_header" where
  "header_of s crc = \<lparr>mh_magic = HSMI_MAGIC, mh_version = HSMI_VERSION, mh_header_length = of_nat HSMI_HEADER_LEN,
     mh_total_length = of_nat (HSMI_HEADER_LEN + length (source_body s)), mh_image_crc32 = crc, mh_flags = ms_flags s,
     mh_device_length = of_nat (length (ms_device_descriptor s)), mh_configuration_length = of_nat (length (ms_configuration_descriptor s)),
     mh_bos_length = of_nat (length (ms_bos_descriptor s)), mh_string_count = of_nat (length (ms_strings s)),
     mh_hid_report_count = of_nat (length (ms_hid_reports s)), mh_reserved = replicate 4 0\<rparr>"

definition image_bytes :: "mirror_image_source \<Rightarrow> u32 \<Rightarrow> bytes" where
  "image_bytes s crc = mirror_header_encode (header_of s crc) @ source_body s"

definition image_checksum :: "mirror_image_source \<Rightarrow> u32" where
  "image_checksum s = mirror_image_crc32 (image_bytes s 0)"

lemma length_image_bytes [simp]: "length (image_bytes s crc) = HSMI_HEADER_LEN + length (source_body s)"
  by (simp add: image_bytes_def mirror_header_encode_def header_of_def HSMI_MAGIC_def hsmi_sizes)

lemma sum_lengths_ok:
  "sum_lengths h acc ns = (if USIZE_MAX < acc + sum_list (map (\<lambda>n. h + n) ns) \<and> ns \<noteq> [] then Inl EncLengthOverflow else Inr (acc + sum_list (map (\<lambda>n. h + n) ns)))"
  by (induction ns arbitrary: acc) (auto simp: usize_checked_add_def)

lemma length_string_images: "length (concat (map string_image rs)) = sum_list (map (\<lambda>n. 5 + n) (map (length \<circ> sr_descriptor) rs))"
  by (induction rs) (simp_all add: string_image_def)

lemma length_report_images: "length (concat (map report_image rs)) = sum_list (map (\<lambda>n. 3 + n) (map (length \<circ> hr_descriptor) rs))"
  by (induction rs) (simp_all add: report_image_def)

lemma source_length_cases:
  "source_length s = Inl EncLengthOverflow \<and> USIZE_MAX < HSMI_HEADER_LEN + length (source_body s) \<or>
   source_length s = Inr (HSMI_HEADER_LEN + length (source_body s))"
proof -
  let ?a = "length (concat (map string_image (ms_strings s)))" let ?b = "length (concat (map report_image (ms_hid_reports s)))"
  let ?n = "HSMI_HEADER_LEN + length (ms_device_descriptor s) + length (ms_configuration_descriptor s) + length (ms_bos_descriptor s) + ?a + ?b"
  have sa: "sum_lengths STRING_RECORD_HEADER_LEN 0 (map (length \<circ> sr_descriptor) (ms_strings s)) = (if USIZE_MAX < ?a \<and> ms_strings s \<noteq> [] then Inl EncLengthOverflow else Inr ?a)"
    and sb: "sum_lengths HID_REPORT_RECORD_HEADER_LEN 0 (map (length \<circ> hr_descriptor) (ms_hid_reports s)) = (if USIZE_MAX < ?b \<and> ms_hid_reports s \<noteq> [] then Inl EncLengthOverflow else Inr ?b)"
    by (simp_all only: sum_lengths_ok length_string_images length_report_images hsmi_sizes add_0 map_is_Nil_conv)
  have n: "HSMI_HEADER_LEN + length (source_body s) = ?n" by (simp only: source_body_def length_append add.assoc)
  show ?thesis unfolding n unfolding source_length_def sa sb by (auto simp: usize_checked_add_def bindE_def simp del: length_concat split: if_splits)
qed

lemma source_sizes:
  assumes "source_ok s"
  shows "length (ms_device_descriptor s) \<le> 0xffff" "length (ms_configuration_descriptor s) \<le> 0xffff" "length (ms_bos_descriptor s) \<le> 0xffff"
    "list_all (\<lambda>r. length (sr_descriptor r) \<le> 0xffff) (ms_strings s)" "list_all (\<lambda>r. length (hr_descriptor r) \<le> 0xffff) (ms_hid_reports s)"
    "unat (of_nat (HSMI_HEADER_LEN + length (source_body s)) :: u32) = HSMI_HEADER_LEN + length (source_body s)"
proof -
  have n: "HSMI_HEADER_LEN + length (source_body s) \<le> 16384" using assms by (simp add: source_ok_def HSMI_MAX_SIZE_def)
  then have b: "length (source_body s) \<le> 16384" by simp
  then show "length (ms_device_descriptor s) \<le> 0xffff" "length (ms_configuration_descriptor s) \<le> 0xffff" "length (ms_bos_descriptor s) \<le> 0xffff"
    unfolding source_body_def length_append by linarith+
  have len: "length (f x) \<le> length (concat (map f xs))" if "x \<in> set xs" for f :: "'x \<Rightarrow> bytes" and x xs using that by (induction xs) auto
  have "length (sr_descriptor r) \<le> 0xffff" if "r \<in> set (ms_strings s)" for r
    using len[OF that, of string_image] b unfolding source_body_def length_append by (simp add: string_image_def)
  then show "list_all (\<lambda>r. length (sr_descriptor r) \<le> 0xffff) (ms_strings s)" by (simp add: list_all_iff)
  have "length (hr_descriptor r) \<le> 0xffff" if "r \<in> set (ms_hid_reports s)" for r
    using len[OF that, of report_image] b unfolding source_body_def length_append by (simp add: report_image_def)
  then show "list_all (\<lambda>r. length (hr_descriptor r) \<le> 0xffff) (ms_hid_reports s)" by (simp add: list_all_iff)
  show "unat (of_nat (HSMI_HEADER_LEN + length (source_body s)) :: u32) = HSMI_HEADER_LEN + length (source_body s)"
    using n by (intro unat_of_nat_small) simp
qed

lemma length_header [simp]: "length (mirror_header_encode (header_of s crc)) = HSMI_HEADER_LEN"
  by (simp add: mirror_header_encode_def header_of_def HSMI_MAGIC_def hsmi_sizes)

lemma write_header_crc: "write_at 12 (to_le 4 crc) (mirror_header_encode (header_of s c) @ rest) = mirror_header_encode (header_of s crc) @ rest"
  by (simp add: write_at_def mirror_header_encode_def header_of_def HSMI_MAGIC_def del: to_le.simps)

lemma write_descriptors_append:
  "length (concat ds) \<le> length rest \<Longrightarrow> write_descriptors ds (length pre) (pre @ rest) = (pre @ concat ds @ drop (length (concat ds)) rest, length pre + length (concat ds))"
proof (induction ds arbitrary: pre rest)
  case (Cons d ds)
  have "write_descriptors (d # ds) (length pre) (pre @ rest) = write_descriptors ds (length (pre @ d)) ((pre @ d) @ drop (length d) rest)"
    using Cons.prems by (simp add: write_append)
  also have "\<dots> = ((pre @ d) @ concat ds @ drop (length (concat ds)) (drop (length d) rest), length (pre @ d) + length (concat ds))"
    using Cons.prems by (intro Cons.IH) simp
  finally show ?case by (simp add: add.commute)
qed simp

lemma serialize_body_ok:
  assumes "source_ok s" "HSMI_HEADER_LEN + length (source_body s) \<le> length out"
  shows "serialize_body s (header_of s 0) out =
    (image_bytes s (image_checksum s) @ drop (HSMI_HEADER_LEN + length (source_body s)) out, Inr (HSMI_HEADER_LEN + length (source_body s)))"
proof -
  note sz = source_sizes[OF assms(1)]
  let ?n = "HSMI_HEADER_LEN + length (source_body s)" let ?H = "mirror_header_encode (header_of s 0)"
  let ?ds = "[ms_device_descriptor s, ms_configuration_descriptor s, ms_bos_descriptor s]"
  let ?S = "concat (map string_image (ms_strings s))" let ?R = "concat (map report_image (ms_hid_reports s))"
  have body: "source_body s = concat ?ds @ ?S @ ?R" by (simp add: source_body_def)
  define z where "z = replicate (length (source_body s)) (0 :: u8) @ drop ?n out"
  have z: "length z = length (concat ?ds) + length ?S + length ?R + (length out - ?n)" unfolding z_def body by simp
  have tot: "unat (mh_total_length (header_of s 0)) = ?n" using sz(6) by (simp add: header_of_def)
  have w0: "write_at 0 ?H (write_at 0 (replicate ?n 0) out) = ?H @ z"
    using assms(2) by (simp add: write_at_def z_def)
  have w1: "write_descriptors ?ds HSMI_HEADER_LEN (?H @ z) = ((?H @ concat ?ds) @ drop (length (concat ?ds)) z, length (?H @ concat ?ds))"
    using write_descriptors_append[of ?ds z ?H] z by simp
  have w2: "write_strings (ms_strings s) (length (?H @ concat ?ds)) ((?H @ concat ?ds) @ drop (length (concat ?ds)) z) =
      ((?H @ concat ?ds @ ?S) @ drop (length (concat ?ds) + length ?S) z, Inr (length (?H @ concat ?ds @ ?S)))"
    using write_strings_images[OF sz(4), of "drop (length (concat ?ds)) z" "?H @ concat ?ds"] z by (simp add: add.commute)
  have w3: "write_hid_reports (ms_hid_reports s) (length (?H @ concat ?ds @ ?S)) ((?H @ concat ?ds @ ?S) @ drop (length (concat ?ds) + length ?S) z) =
      (image_bytes s 0 @ drop ?n out, Inr ?n)"
    using write_reports_images[OF sz(5), of "drop (length (concat ?ds) + length ?S) z" "?H @ concat ?ds @ ?S"] z
    unfolding image_bytes_def body by (simp add: z_def body add.commute add.left_commute)
  have w4: "write_at 12 (to_le 4 (image_checksum s)) (image_bytes s 0 @ drop ?n out) = image_bytes s (image_checksum s) @ drop ?n out"
    by (simp add: image_bytes_def write_header_crc)
  have crc: "mirror_image_crc32 (take ?n (image_bytes s 0 @ drop ?n out)) = image_checksum s" by (simp add: image_checksum_def)
  show ?thesis unfolding serialize_body_def tot Let_def w0 w1 prod.case w2 andThen_simps w3 crc w4 ..
qed

lemma source_header_ok:
  "source_ok s \<Longrightarrow> source_header s (HSMI_HEADER_LEN + length (source_body s)) = Inr (header_of s 0)"
  using source_sizes(1-3)[of s] by (simp add: source_header_def try_u16_def try_count_def header_of_def source_ok_def)

lemma serialize_ok:
  assumes "source_ok s" "HSMI_HEADER_LEN + length (source_body s) \<le> length out"
  shows "serialize_mirror_image s out =
    (image_bytes s (image_checksum s) @ drop (HSMI_HEADER_LEN + length (source_body s)) out, Inr (HSMI_HEADER_LEN + length (source_body s)))"
proof -
  have n: "HSMI_HEADER_LEN + length (source_body s) \<le> HSMI_MAX_SIZE" using assms(1) by (simp add: source_ok_def)
  then have "source_length s = Inr (HSMI_HEADER_LEN + length (source_body s))"
    using source_length_cases[of s] by (auto simp: USIZE_MAX_def HSMI_MAX_SIZE_def)
  then show ?thesis using assms n source_header_ok[OF assms(1)] serialize_body_ok[OF assms] by (simp add: serialize_mirror_image_def)
qed

lemma serialize_Inr:
  assumes "serialize_mirror_image s out = (out', Inr n)"
  shows "source_ok s" "HSMI_HEADER_LEN + length (source_body s) \<le> length out"
proof -
  let ?n = "HSMI_HEADER_LEN + length (source_body s)"
  have "source_length s = Inr ?n" "?n \<le> HSMI_MAX_SIZE" "?n \<le> length out" "\<exists>h. source_header s ?n = Inr h"
    using assms source_length_cases[of s] by (auto simp: serialize_mirror_image_def bindE_def split: sum.splits if_splits)
  moreover from this(4) have "length (ms_strings s) \<le> 255" "length (ms_hid_reports s) \<le> 255"
    by (auto simp: source_header_def bindE_Inr_iff try_count_def split: if_splits)
  ultimately show "source_ok s" "?n \<le> length out" by (simp_all add: source_ok_def)
qed

section \<open>Parsing undoes serialising\<close>

lemma image_crc_late: "16 \<le> k \<Longrightarrow> image_crc_loop k bs c = foldl crc32_byte c bs"
  by (induction bs arbitrary: k c) simp_all

lemma image_crc_early: "k + length bs \<le> 12 \<Longrightarrow> image_crc_loop k (bs @ r) c = image_crc_loop (k + length bs) r (foldl crc32_byte c bs)"
  by (induction bs arbitrary: k c) simp_all

lemma image_crc_split:
  assumes "length a = 12" "length c = 4"
  shows "mirror_image_crc32 (a @ c @ r) = crc32_ieee (a @ replicate 4 0 @ r)"
proof -
  obtain c0 c1 c2 c3 where c: "c = [c0, c1, c2, c3]" using assms(2) by (auto simp: length_Suc_conv numeral_eq_Suc)
  have "image_crc_loop 0 (a @ c @ r) 0xffffffff = image_crc_loop 12 (c @ r) (foldl crc32_byte 0xffffffff a)"
    using image_crc_early[of 0 a "c @ r"] assms(1) by simp
  also have "\<dots> = foldl crc32_byte 0xffffffff (a @ replicate 4 0 @ r)" by (simp add: c image_crc_late numeral_eq_Suc)
  finally show ?thesis by (simp add: mirror_image_crc32_def crc32_ieee_def crc32_finalize_def crc32_update_def crc32_new_def)
qed

lemma header_encode_split:
  obtains a r where "length a = 12" "\<And>crc. mirror_header_encode (header_of s crc) = a @ to_le 4 crc @ r"
proof -
  let ?h = "header_of s 0"
  let ?a = "mh_magic ?h @ to_le 2 (mh_version ?h) @ to_le 2 (mh_header_length ?h) @ to_le 4 (mh_total_length ?h)"
  show thesis
  proof (rule that[of ?a])
    show "length ?a = 12" by (simp add: header_of_def HSMI_MAGIC_def)
    show "mirror_header_encode (header_of s crc) = ?a @ to_le 4 crc @ drop 16 (mirror_header_encode ?h)" for crc
      by (simp add: mirror_header_encode_def header_of_def HSMI_MAGIC_def del: to_le.simps)
  qed
qed

lemma image_crc_field: "mirror_image_crc32 (image_bytes s crc) = image_checksum s"
proof -
  obtain a r where "length a = 12" "\<And>crc. mirror_header_encode (header_of s crc) = a @ to_le 4 crc @ r" by (rule header_encode_split[of s]) blast
  then show ?thesis by (simp add: image_checksum_def image_bytes_def image_crc_split del: to_le.simps)
qed

lemma header_decode_encode: "mirror_header_decode (mirror_header_encode (header_of s crc) @ rest) = Some (header_of s crc)"
  by (simp add: mirror_header_decode_def mirror_header_encode_def header_of_def HSMI_MAGIC_def hsmi_sizes subslice_def nth_append del: to_le.simps from_le.simps)

lemma parse_header_image:
  assumes "source_ok s"
  shows "parse_header (image_bytes s (image_checksum s)) = Inr (header_of s (image_checksum s))"
proof -
  have n: "length (image_bytes s (image_checksum s)) \<le> HSMI_MAX_SIZE" using assms by (simp add: source_ok_def)
  have "mirror_header_decode (image_bytes s (image_checksum s)) = Some (header_of s (image_checksum s))"
    by (simp add: image_bytes_def header_decode_encode)
  moreover have "unat (mh_total_length (header_of s (image_checksum s))) = length (image_bytes s (image_checksum s))"
    using source_sizes(6)[OF assms] by (simp add: header_of_def)
  ultimately show ?thesis using n by (simp add: parse_header_def image_crc_field) (simp add: header_of_def hsmi_sizes)
qed

lemma image_take_append:
  assumes "bs = pre @ d @ rest" "length bs \<le> HSMI_MAX_SIZE" "n = length d" "off = length pre"
  shows "image_take bs off n = Inr (d, off + n)"
  using assms by (simp add: image_take_def usize_checked_add_def USIZE_MAX_def HSMI_MAX_SIZE_def subslice_def)

definition image_source :: "mirror_image \<Rightarrow> mirror_image_source" where
  "image_source im = \<lparr>ms_flags = mh_flags (mi_header im), ms_device_descriptor = mi_device_descriptor im,
     ms_configuration_descriptor = mi_configuration_descriptor im, ms_bos_descriptor = mi_bos_descriptor im,
     ms_strings = image_strings im, ms_hid_reports = image_hid_reports im\<rparr>"

definition image_of_source :: "mirror_image_source \<Rightarrow> mirror_image" where
  "image_of_source s = \<lparr>mi_header = header_of s (image_checksum s), mi_device_descriptor = ms_device_descriptor s,
     mi_configuration_descriptor = ms_configuration_descriptor s, mi_bos_descriptor = ms_bos_descriptor s,
     mi_string_records = concat (map string_image (ms_strings s)), mi_hid_report_records = concat (map report_image (ms_hid_reports s))\<rparr>"

lemma u8_len: "n \<le> 255 \<Longrightarrow> unat (of_nat n :: u8) = n"
  by (simp add: unat_of_nat_small)

lemma image_source_of:
  assumes "source_ok s"
  shows "image_source (image_of_source s) = s"
proof -
  note sz = source_sizes[OF assms]
  have c: "length (ms_strings s) \<le> 255" "length (ms_hid_reports s) \<le> 255" using assms by (simp_all add: source_ok_def)
  have "image_strings (image_of_source s) = ms_strings s"
    using strings.drain_images[OF sz(4) c(1), of "[]"] c by (simp add: image_strings_def image_of_source_def string_records_def header_of_def u8_len)
  moreover have "image_hid_reports (image_of_source s) = ms_hid_reports s"
    using reports.drain_images[OF sz(5) c(2), of "[]"] c by (simp add: image_hid_reports_def image_of_source_def hid_report_records_def header_of_def u8_len)
  ultimately show ?thesis by (simp add: image_source_def) (simp add: image_of_source_def header_of_def)
qed

lemma parse_image:
  assumes "source_ok s"
  shows "parse_mirror_image (image_bytes s (image_checksum s)) = Inr (image_of_source s)"
proof -
  note sz = source_sizes[OF assms]
  let ?bs = "image_bytes s (image_checksum s)" let ?h = "header_of s (image_checksum s)" let ?H = "mirror_header_encode ?h"
  let ?d = "ms_device_descriptor s" let ?c = "ms_configuration_descriptor s" let ?b = "ms_bos_descriptor s"
  let ?S = "concat (map string_image (ms_strings s))" let ?R = "concat (map report_image (ms_hid_reports s))"
  have bs: "?bs = ?H @ ?d @ ?c @ ?b @ ?S @ ?R" by (simp add: image_bytes_def source_body_def)
  have n: "length ?bs \<le> HSMI_MAX_SIZE" using assms by (simp add: source_ok_def)
  then have u: "length ?bs \<le> USIZE_MAX" by (simp add: USIZE_MAX_def HSMI_MAX_SIZE_def)
  have cnt: "unat (mh_string_count ?h) = length (ms_strings s)" "unat (mh_hid_report_count ?h) = length (ms_hid_reports s)"
    "unat (mh_device_length ?h) = length ?d" "unat (mh_configuration_length ?h) = length ?c" "unat (mh_bos_length ?h) = length ?b"
    using assms sz(1-3) by (simp_all add: header_of_def source_ok_def u8_len u16_len)
  have t1: "image_take ?bs HSMI_HEADER_LEN (length ?d) = Inr (?d, length (?H @ ?d))"
    and t2: "image_take ?bs (length (?H @ ?d)) (length ?c) = Inr (?c, length (?H @ ?d @ ?c))"
    and t3: "image_take ?bs (length (?H @ ?d @ ?c)) (length ?b) = Inr (?b, length (?H @ ?d @ ?c @ ?b))"
    using image_take_append[of ?bs ?H ?d "?c @ ?b @ ?S @ ?R"] image_take_append[of ?bs "?H @ ?d" ?c "?b @ ?S @ ?R"]
      image_take_append[of ?bs "?H @ ?d @ ?c" ?b "?S @ ?R"] n unfolding bs by simp_all
  have s1: "skip_records STRING_RECORD_HEADER_LEN ?bs (length (ms_strings s)) (length (?H @ ?d @ ?c @ ?b)) = Inr (length (?H @ ?d @ ?c @ ?b @ ?S))"
    using strings.skip_images[OF sz(4), of "?H @ ?d @ ?c @ ?b" ?R] u unfolding bs by simp
  have s2: "skip_records HID_REPORT_RECORD_HEADER_LEN ?bs (length (ms_hid_reports s)) (length (?H @ ?d @ ?c @ ?b @ ?S)) = Inr (length ?bs)"
    using reports.skip_images[OF sz(5), of "?H @ ?d @ ?c @ ?b @ ?S" "[]"] u unfolding bs by simp
  have sl: "subslice (length (?H @ ?d @ ?c @ ?b)) (length (?H @ ?d @ ?c @ ?b @ ?S)) ?bs = ?S" "subslice (length (?H @ ?d @ ?c @ ?b @ ?S)) (length ?bs) ?bs = ?R"
    unfolding bs by (simp_all add: subslice_def)
  have tot: "unat (mh_total_length ?h) = length ?bs" using sz(6) by (simp add: header_of_def)
  show ?thesis
    unfolding parse_mirror_image_def parse_header_image[OF assms] bindE_simps cnt t1 prod.case t2 t3 s1 s2 tot sl image_of_source_def by simp
qed

lemma header_encode_decode:
  assumes "mirror_header_decode bs = Some h"
  shows "32 \<le> length bs" "mirror_header_encode h @ drop 32 bs = bs" "length (mh_reserved h) = 4"
proof -
  show len: "32 \<le> length bs" using assms by (auto simp: mirror_header_decode_def hsmi_sizes split: if_splits)
  have "mirror_header_encode h = subslice 0 4 bs @ subslice 4 6 bs @ subslice 6 8 bs @ subslice 8 12 bs @ subslice 12 16 bs @ subslice 16 20 bs @
      subslice 20 22 bs @ subslice 22 24 bs @ subslice 24 26 bs @ subslice 26 27 bs @ subslice 27 28 bs @ subslice 28 32 bs"
    using assms len slice_byte[of 26 bs 27] slice_byte[of 27 bs 28]
    by (auto simp: mirror_header_decode_def mirror_header_encode_def hsmi_sizes simp del: to_le.simps from_le.simps split: if_splits)
  then show "mirror_header_encode h @ drop 32 bs = bs" using len by (simp add: slice_join slice_rest)
  show "length (mh_reserved h) = 4" using assms len by (auto simp: mirror_header_decode_def length_subslice split: if_splits)
qed

lemma parse_header_Inr:
  assumes "parse_header bs = Inr h"
  shows "mirror_header_decode bs = Some h" "length bs \<le> HSMI_MAX_SIZE" "mh_magic h = HSMI_MAGIC" "mh_version h = HSMI_VERSION"
    "mh_header_length h = of_nat HSMI_HEADER_LEN" "mh_total_length h = of_nat (length bs)" "unat (mh_total_length h) = length bs"
    "mh_reserved h = replicate 4 0" "mh_image_crc32 h = mirror_image_crc32 bs"
proof -
  have "unat (mh_header_length h) = HSMI_HEADER_LEN" "unat (mh_total_length h) = length bs"
    using assms by (auto simp: parse_header_def Let_def split: option.splits if_splits)
  then show "mh_header_length h = of_nat HSMI_HEADER_LEN" "mh_total_length h = of_nat (length bs)" "unat (mh_total_length h) = length bs"
    by (metis of_nat_unat ucast_id)+
qed (use assms in \<open>auto simp: parse_header_def Let_def split: option.splits if_splits\<close>)

lemma image_take_Inr:
  "image_take bs off n = Inr (d, fin) \<longleftrightarrow> fin = off + n \<and> fin \<le> length bs \<and> fin \<le> USIZE_MAX \<and> d = subslice off fin bs"
  by (auto simp: image_take_def usize_checked_add_def)

lemma of_nat_length_slice: "off + unat n \<le> length bs \<Longrightarrow> of_nat (length (subslice off (off + unat n) bs)) = (n :: 'a::len word)"
  by (simp add: length_subslice)

lemma parse_inv:
  assumes "parse_mirror_image bs = Inr im"
  obtains s where "source_ok s" "bs = image_bytes s (image_checksum s)" "im = image_of_source s"
proof -
  obtain h where h: "parse_header bs = Inr h" using assms by (auto simp: parse_mirror_image_def bindE_Inr_iff)
  note ph = parse_header_Inr[OF h] note hd = header_encode_decode[OF ph(1)]
  define o1 where "o1 = HSMI_HEADER_LEN + unat (mh_device_length h)"
  define o2 where "o2 = o1 + unat (mh_configuration_length h)"
  define o3 where "o3 = o2 + unat (mh_bos_length h)"
  have o: "o3 \<le> length bs" and "\<exists>o4. skip_records STRING_RECORD_HEADER_LEN bs (unat (mh_string_count h)) o3 = Inr o4 \<and>
      skip_records HID_REPORT_RECORD_HEADER_LEN bs (unat (mh_hid_report_count h)) o4 = Inr (length bs)"
    using assms h ph(7) by (auto simp: parse_mirror_image_def bindE_Inr_iff image_take_Inr o1_def o2_def o3_def split: if_splits)
  then obtain o4 where o4: "skip_records STRING_RECORD_HEADER_LEN bs (unat (mh_string_count h)) o3 = Inr o4"
      "skip_records HID_REPORT_RECORD_HEADER_LEN bs (unat (mh_hid_report_count h)) o4 = Inr (length bs)" by blast
  obtain ss where ss: "length ss = unat (mh_string_count h)" "o3 \<le> o4" "o4 \<le> length bs" "subslice o3 o4 bs = concat (map string_image ss)"
    using strings.skip_inv[OF o4(1) o] by blast
  obtain rs where rs: "length rs = unat (mh_hid_report_count h)" "subslice o4 (length bs) bs = concat (map report_image rs)"
    using reports.skip_inv[OF o4(2) ss(3)] by blast
  have le: "32 \<le> o1" "o1 \<le> o2" "o2 \<le> o3" by (simp_all add: o1_def o2_def o3_def hsmi_sizes)
  define s where "s = \<lparr>ms_flags = mh_flags h, ms_device_descriptor = subslice 32 o1 bs, ms_configuration_descriptor = subslice o1 o2 bs,
      ms_bos_descriptor = subslice o2 o3 bs, ms_strings = ss, ms_hid_reports = rs\<rparr>"
  have "source_body s = subslice 32 o1 bs @ subslice o1 o2 bs @ subslice o2 o3 bs @ subslice o3 o4 bs @ subslice o4 (length bs) bs"
    using ss(4) rs(2) by (simp add: source_body_def s_def)
  also have "\<dots> = subslice 32 (length bs) bs" using le o ss(2,3) slice_join[of _ _ _ bs "[]"] by (simp add: slice_join)
  finally have body: "source_body s = drop 32 bs" by (simp add: subslice_def)
  have len: "HSMI_HEADER_LEN + length (source_body s) = length bs" using hd(1) by (simp add: body hsmi_sizes)
  have "length ss \<le> 255" "length rs \<le> 255"
    using unsigned_less[of "mh_string_count h", where 'a = nat] unsigned_less[of "mh_hid_report_count h", where 'a = nat] ss(1) rs(1) by simp_all
  then have ok: "source_ok s" unfolding source_ok_def len using ph(2) by (simp add: s_def)
  have "header_of s (mh_image_crc32 h) = h"
    unfolding header_of_def len using ph le o of_nat_length_slice[of 32 "mh_device_length h" bs]
      of_nat_length_slice[of o1 "mh_configuration_length h" bs] of_nat_length_slice[of o2 "mh_bos_length h" bs]
    by (simp add: s_def ss(1) rs(1) o1_def[symmetric] o2_def[symmetric] o3_def[symmetric] del: length_subslice)
      (simp add: o1_def hsmi_sizes)
  then have bs: "bs = image_bytes s (mh_image_crc32 h)" using hd(2) by (simp add: image_bytes_def body)
  then have "mh_image_crc32 h = image_checksum s" using ph(9) image_crc_field by metis
  then show thesis using that[OF ok] bs parse_image[OF ok] assms by simp
qed

text \<open>
  C23: The mirror image format is exact. Whatever the serialiser writes parses back into the very
  descriptors, strings and report descriptors it was given; and every byte string the parser
  accepts is what the serialiser writes for the parsed content, so an image has one form only
  and the iterators lose no record of a parsed image.
\<close>

theorem mirror_image_roundtrip:
  assumes "serialize_mirror_image s out = (out', Inr n)" "parse_mirror_image bs = Inr im" "length bs \<le> length buf"
  shows "(\<exists>im. parse_mirror_image (take n out') = Inr im \<and> image_source im = s) \<and>
    serialize_mirror_image (image_source im) buf = (bs @ drop (length bs) buf, Inr (length bs))"
proof
  note ok = serialize_Inr[OF assms(1)]
  have "take n out' = image_bytes s (image_checksum s)" using serialize_ok[OF ok] assms(1) by auto
  then show "\<exists>im. parse_mirror_image (take n out') = Inr im \<and> image_source im = s"
    using parse_image[OF ok(1)] image_source_of[OF ok(1)] by simp
next
  obtain s where s: "source_ok s" "bs = image_bytes s (image_checksum s)" "im = image_of_source s" by (rule parse_inv[OF assms(2)])
  show "serialize_mirror_image (image_source im) buf = (bs @ drop (length bs) buf, Inr (length bs))"
    using serialize_ok[OF s(1), of buf] assms(3) s by (simp add: image_source_of)
qed

definition sample_source :: mirror_image_source where
  "sample_source = \<lparr>ms_flags = 1, ms_device_descriptor = [18, 1], ms_configuration_descriptor = [9, 2], ms_bos_descriptor = [],
     ms_strings = [\<lparr>sr_index = 1, sr_lang_id = 0x409, sr_descriptor = [4, 3, 65, 0]\<rparr>],
     ms_hid_reports = [\<lparr>hr_interface_number = 0, hr_descriptor = [5, 1]\<rparr>]\<rparr>"

lemma sample_source_ok: "source_ok sample_source" "HSMI_HEADER_LEN + length (source_body sample_source) = 50"
  by (simp_all add: source_ok_def source_body_def sample_source_def string_image_def report_image_def hsmi_sizes)

theorem mirror_image_roundtrip_witness:
  "\<exists>im. parse_mirror_image (image_bytes sample_source (image_checksum sample_source)) = Inr im \<and> image_source im = sample_source"
proof -
  let ?bs = "image_bytes sample_source (image_checksum sample_source)"
  have "serialize_mirror_image sample_source (replicate 64 0) = (?bs @ replicate 14 0, Inr 50)"
    using serialize_ok[OF sample_source_ok(1), of "replicate 64 0"] sample_source_ok(2) by simp
  from mirror_image_roundtrip[OF this parse_image[OF sample_source_ok(1)], of "replicate 64 0"] sample_source_ok(2)
  show ?thesis by simp
qed

end
