(* ===== verification/HS_MirrorPlan.thy ===== *)
theory HS_MirrorPlan
  imports HS_MirrorImage HS_Routing
begin

unbundle bit_operations_syntax

text \<open>
  From a mirror image to the USB device the second chip presents: the validator
  (\<open>mirror/validator.rs\<close>), the device plan it produces (\<open>mirror/plan.rs\<close>) and the
  capture of a profile from an attached device (\<open>mirror/capture.rs\<close>). The main result says
  what every accepted plan satisfies, by an invariant of the loop over the configuration
  descriptor.
\<close>

section \<open>Plans\<close>

definition MIRROR_HID_INTERFACES_MAX :: nat where "MIRROR_HID_INTERFACES_MAX = 4"
definition MIRROR_ENDPOINTS_MAX :: nat where "MIRROR_ENDPOINTS_MAX = 8"
definition USB_DESCRIPTOR_DEVICE :: u8 where "USB_DESCRIPTOR_DEVICE = 0x01"
definition USB_DESCRIPTOR_CONFIGURATION :: u8 where "USB_DESCRIPTOR_CONFIGURATION = 0x02"
definition USB_DESCRIPTOR_STRING :: u8 where "USB_DESCRIPTOR_STRING = 0x03"
definition USB_DESCRIPTOR_BOS :: u8 where "USB_DESCRIPTOR_BOS = 0x0f"
definition USB_DESCRIPTOR_HID :: u8 where "USB_DESCRIPTOR_HID = 0x21"
definition USB_DESCRIPTOR_HID_REPORT :: u8 where "USB_DESCRIPTOR_HID_REPORT = 0x22"

record endpoint_plan =
  ep_interface_number :: u8
  ep_address :: u8
  ep_max_packet_size :: u16
  ep_interval :: u8

record hid_interface_plan =
  hp_interface_number :: u8
  hp_subclass :: u8
  hp_protocol :: u8
  hp_hid_descriptor :: bytes
  hp_report_descriptor :: bytes

record usb_device_plan =
  up_device_descriptor :: bytes
  up_configuration_descriptor :: bytes
  up_bos_descriptor :: bytes
  up_strings :: string_table
  up_hid_reports :: hid_report_table
  up_interfaces :: "hid_interface_plan list"
  up_endpoints :: "endpoint_plan list"

definition supports_remote_wakeup :: "usb_device_plan \<Rightarrow> bool" where
  "supports_remote_wakeup p = (up_configuration_descriptor p ! 7 AND 0x20 \<noteq> 0)"

definition plan_device_descriptor :: "usb_device_plan \<Rightarrow> u8 \<Rightarrow> u8 \<Rightarrow> u16 \<Rightarrow> bytes option" where
  "plan_device_descriptor p descriptor_type index lang_id =
     (if descriptor_type = USB_DESCRIPTOR_DEVICE \<and> index = 0 then Some (up_device_descriptor p)
      else if descriptor_type = USB_DESCRIPTOR_CONFIGURATION \<and> index = 0 then Some (up_configuration_descriptor p)
      else if descriptor_type = USB_DESCRIPTOR_STRING then string_table_get (up_strings p) index lang_id
      else if descriptor_type = USB_DESCRIPTOR_BOS \<and> index = 0 \<and> up_bos_descriptor p \<noteq> [] then Some (up_bos_descriptor p)
      else None)"

definition plan_interface_descriptor :: "usb_device_plan \<Rightarrow> u8 \<Rightarrow> u8 \<Rightarrow> bytes option" where
  "plan_interface_descriptor p interface_number descriptor_type =
     (case find (\<lambda>i. hp_interface_number i = interface_number) (up_interfaces p) of
        None \<Rightarrow> None
      | Some i \<Rightarrow>
          if descriptor_type = USB_DESCRIPTOR_HID then Some (hp_hid_descriptor i)
          else if descriptor_type = USB_DESCRIPTOR_HID_REPORT then Some (hp_report_descriptor i)
          else None)"

section \<open>Validator\<close>

datatype mirror_reject_reason =
  RrNone | RrMalformedImage | RrInvalidDescriptorLength | RrMultipleConfigurations | RrNonHidInterface
  | RrUnsupportedAlternateSetting | RrUnsupportedEndpointType | RrPacketTooLarge | RrDuplicateEndpointAddress
  | RrEndpointResourceExhausted | RrMissingReportDescriptor | RrImageTooLarge | RrUnsupportedUsbVersion
  | RrRemoteWakeUnsupported | RrStorageFailure

fun reject_reason_byte :: "mirror_reject_reason \<Rightarrow> u8" where
  "reject_reason_byte RrNone = 0"
| "reject_reason_byte RrMalformedImage = 1"
| "reject_reason_byte RrInvalidDescriptorLength = 2"
| "reject_reason_byte RrMultipleConfigurations = 3"
| "reject_reason_byte RrNonHidInterface = 4"
| "reject_reason_byte RrUnsupportedAlternateSetting = 5"
| "reject_reason_byte RrUnsupportedEndpointType = 6"
| "reject_reason_byte RrPacketTooLarge = 7"
| "reject_reason_byte RrDuplicateEndpointAddress = 8"
| "reject_reason_byte RrEndpointResourceExhausted = 9"
| "reject_reason_byte RrMissingReportDescriptor = 10"
| "reject_reason_byte RrImageTooLarge = 11"
| "reject_reason_byte RrUnsupportedUsbVersion = 12"
| "reject_reason_byte RrRemoteWakeUnsupported = 13"
| "reject_reason_byte RrStorageFailure = 14"

fun map_parse_error :: "mirror_image_parse_error \<Rightarrow> mirror_reject_reason" where
  "map_parse_error PaImageTooLarge = RrImageTooLarge"
| "map_parse_error PaInvalidHeaderLength = RrInvalidDescriptorLength"
| "map_parse_error PaInvalidRecordLength = RrInvalidDescriptorLength"
| "map_parse_error PaUnsupportedVersion = RrMalformedImage"
| "map_parse_error _ = RrMalformedImage"

definition descriptor_length :: "bytes \<Rightarrow> nat \<Rightarrow> mirror_reject_reason + nat" where
  "descriptor_length bs offset =
     (if length bs < offset + 2 then Inl RrInvalidDescriptorLength
      else let len = unat (bs ! offset) in
        if len < 2 \<or> length bs < offset + len then Inl RrInvalidDescriptorLength else Inr len)"

lemma descriptor_length_Inr:
  "descriptor_length bs offset = Inr n \<Longrightarrow> n = unat (bs ! offset) \<and> 2 \<le> n \<and> offset + n \<le> length bs"
  by (auto simp: descriptor_length_def Let_def split: if_splits)

function walk_descriptors :: "bytes \<Rightarrow> nat \<Rightarrow> mirror_reject_reason + unit" where
  "walk_descriptors bs offset =
     (if offset < length bs
      then (case descriptor_length bs offset of Inl e \<Rightarrow> Inl e | Inr n \<Rightarrow> walk_descriptors bs (offset + n))
      else Inr ())"
  by pat_completeness auto
termination
  by (relation "measure (\<lambda>(bs, offset). length bs - offset)") (auto dest!: descriptor_length_Inr)

declare walk_descriptors.simps [simp del]

definition validate_bos :: "bytes \<Rightarrow> mirror_reject_reason + unit" where
  "validate_bos descriptor =
     (if descriptor = [] then Inr ()
      else if length descriptor < 5 \<or> descriptor ! 0 \<noteq> 5 \<or> descriptor ! 1 \<noteq> 0x0f
              \<or> unat (from_le [descriptor ! 2, descriptor ! 3] :: u16) \<noteq> length descriptor
      then Inl RrInvalidDescriptorLength
      else walk_descriptors descriptor 0)"

fun validate_string_list :: "string_record list \<Rightarrow> string_record list \<Rightarrow> mirror_reject_reason + unit" where
  "validate_string_list all [] = Inr ()"
| "validate_string_list all (r # rs) =
     (let descriptor = sr_descriptor r in
      if length descriptor < 2 \<or> length descriptor mod 2 \<noteq> 0 \<or> unat (descriptor ! 0) \<noteq> length descriptor \<or> descriptor ! 1 \<noteq> 0x03
      then Inl RrInvalidDescriptorLength
      else if length (filter (\<lambda>x. sr_index x = sr_index r \<and> sr_lang_id x = sr_lang_id r) all) \<noteq> 1
      then Inl RrMalformedImage
      else validate_string_list all rs)"

definition validate_strings :: "mirror_image \<Rightarrow> mirror_reject_reason + unit" where
  "validate_strings im = validate_string_list (image_strings im) (image_strings im)"

fun collect_report_list :: "(u8 \<times> bytes) list \<Rightarrow> hid_report_record list \<Rightarrow> mirror_reject_reason + (u8 \<times> bytes) list" where
  "collect_report_list reports [] = Inr reports"
| "collect_report_list reports (r # rs) =
     (if hr_descriptor r = [] then Inl RrMissingReportDescriptor
      else if list_ex (\<lambda>(n, _). n = hr_interface_number r) reports then Inl RrMalformedImage
      else case vec_push MIRROR_HID_INTERFACES_MAX reports (hr_interface_number r, hr_descriptor r) of
        None \<Rightarrow> Inl RrEndpointResourceExhausted
      | Some reports' \<Rightarrow> collect_report_list reports' rs)"

definition collect_reports :: "mirror_image \<Rightarrow> mirror_reject_reason + (u8 \<times> bytes) list" where
  "collect_reports im = collect_report_list [] (image_hid_reports im)"

record parsed_interface =
  pi_number :: u8
  pi_subclass :: u8
  pi_protocol :: u8
  pi_expected_endpoints :: u8
  pi_actual_endpoints :: nat
  pi_hid_descriptor :: "bytes option"

text \<open>The local variables of the loop over the configuration descriptor.\<close>

record config_state =
  cf_interfaces :: "hid_interface_plan list"
  cf_endpoints :: "endpoint_plan list"
  cf_endpoint_addresses :: "u8 list"
  cf_current :: "parsed_interface option"

definition finish_interface ::
  "(u8 \<times> bytes) list \<Rightarrow> parsed_interface option \<Rightarrow> hid_interface_plan list \<Rightarrow> mirror_reject_reason + hid_interface_plan list" where
  "finish_interface reports current interfaces =
     (case current of
        None \<Rightarrow> Inr interfaces
      | Some cur \<Rightarrow>
          if unat (pi_expected_endpoints cur) \<noteq> pi_actual_endpoints cur then Inl RrInvalidDescriptorLength
          else case find (\<lambda>(n, _). n = pi_number cur) reports of
            None \<Rightarrow> Inl RrMissingReportDescriptor
          | Some (_, report) \<Rightarrow>
              (case pi_hid_descriptor cur of
                 None \<Rightarrow> Inl RrInvalidDescriptorLength
               | Some hid \<Rightarrow>
                   if (from_le [hid ! 7, hid ! 8] :: u16) \<noteq> of_nat (length report) then Inl RrInvalidDescriptorLength
                   else case vec_push MIRROR_HID_INTERFACES_MAX interfaces
                       \<lparr>hp_interface_number = pi_number cur, hp_subclass = pi_subclass cur, hp_protocol = pi_protocol cur,
                        hp_hid_descriptor = hid, hp_report_descriptor = report\<rparr> of
                     None \<Rightarrow> Inl RrEndpointResourceExhausted
                   | Some interfaces' \<Rightarrow> Inr interfaces'))"

definition interface_descriptor ::
  "(u8 \<times> bytes) list \<Rightarrow> bytes \<Rightarrow> config_state \<Rightarrow> mirror_reject_reason + config_state" where
  "interface_descriptor reports d st =
     bindE (finish_interface reports (cf_current st) (cf_interfaces st)) (\<lambda>interfaces.
       if length d < 9 then Inl RrInvalidDescriptorLength
       else if d ! 3 \<noteq> 0 then Inl RrUnsupportedAlternateSetting
       else if d ! 5 \<noteq> 0x03 then Inl RrNonHidInterface
       else if list_ex (\<lambda>p. hp_interface_number p = d ! 2) interfaces then Inl RrMalformedImage
       else Inr (st\<lparr>cf_interfaces := interfaces,
              cf_current := Some \<lparr>pi_number = d ! 2, pi_subclass = d ! 6, pi_protocol = d ! 7, pi_expected_endpoints = d ! 4,
                                  pi_actual_endpoints = 0, pi_hid_descriptor = None\<rparr>\<rparr>))"

fun class_descriptors :: "bytes \<Rightarrow> nat \<Rightarrow> nat \<Rightarrow> u16 option \<Rightarrow> mirror_reject_reason + u16 option" where
  "class_descriptors d 0 hid_offset declared = Inr declared"
| "class_descriptors d (Suc n) hid_offset declared =
     (if length d < hid_offset + 3 then Inl RrInvalidDescriptorLength
      else class_descriptors d n (hid_offset + 3)
             (if d ! hid_offset = 0x22 then Some (from_le [d ! (hid_offset + 1), d ! (hid_offset + 2)]) else declared))"

definition hid_descriptor :: "bytes \<Rightarrow> config_state \<Rightarrow> mirror_reject_reason + config_state" where
  "hid_descriptor d st =
     (case cf_current st of
        None \<Rightarrow> Inl RrMalformedImage
      | Some cur \<Rightarrow>
          if length d < 9 \<or> d ! 5 = 0 then Inl RrInvalidDescriptorLength
          else bindE (class_descriptors d (unat (d ! 5)) 6 None) (\<lambda>declared.
            if declared = None \<or> pi_hid_descriptor cur \<noteq> None then Inl RrInvalidDescriptorLength
            else Inr (st\<lparr>cf_current := Some (cur\<lparr>pi_hid_descriptor := Some d\<rparr>)\<rparr>)))"

definition endpoint_descriptor :: "bytes \<Rightarrow> config_state \<Rightarrow> mirror_reject_reason + config_state" where
  "endpoint_descriptor d st =
     (case cf_current st of
        None \<Rightarrow> Inl RrMalformedImage
      | Some cur \<Rightarrow>
          if length d < 7 then Inl RrInvalidDescriptorLength
          else if d ! 3 AND 0x03 \<noteq> 0x03 then Inl RrUnsupportedEndpointType
          else let address = d ! 2; max_packet_size = from_le [d ! 4, d ! 5] in
            if address AND 0x0f = 0 \<or> address AND 0x70 \<noteq> 0 then Inl RrMalformedImage
            else if address \<in> set (cf_endpoint_addresses st) then Inl RrDuplicateEndpointAddress
            else if max_packet_size = 0 \<or> 64 < max_packet_size then Inl RrPacketTooLarge
            else if d ! 6 = 0 then Inl RrInvalidDescriptorLength
            else if 4 \<le> length (filter (\<lambda>e. ep_address e AND 0x80 = address AND 0x80) (cf_endpoints st))
            then Inl RrEndpointResourceExhausted
            else case vec_push MIRROR_ENDPOINTS_MAX (cf_endpoint_addresses st) address of
                None \<Rightarrow> Inl RrEndpointResourceExhausted
              | Some addresses \<Rightarrow>
                  (case vec_push MIRROR_ENDPOINTS_MAX (cf_endpoints st)
                     \<lparr>ep_interface_number = pi_number cur, ep_address = address, ep_max_packet_size = max_packet_size, ep_interval = d ! 6\<rparr> of
                     None \<Rightarrow> Inl RrEndpointResourceExhausted
                   | Some endpoints \<Rightarrow>
                       Inr (st\<lparr>cf_endpoint_addresses := addresses, cf_endpoints := endpoints,
                               cf_current := Some (cur\<lparr>pi_actual_endpoints := pi_actual_endpoints cur + 1\<rparr>)\<rparr>)))"

definition config_descriptor ::
  "(u8 \<times> bytes) list \<Rightarrow> bytes \<Rightarrow> config_state \<Rightarrow> mirror_reject_reason + config_state" where
  "config_descriptor reports d st =
     (if d ! 1 = 0x02 then Inl RrMultipleConfigurations
      else if d ! 1 = 0x04 then interface_descriptor reports d st
      else if d ! 1 = 0x21 then hid_descriptor d st
      else if d ! 1 = 0x05 then endpoint_descriptor d st
      else Inr st)"

function config_loop ::
  "(u8 \<times> bytes) list \<Rightarrow> bytes \<Rightarrow> nat \<Rightarrow> config_state \<Rightarrow> mirror_reject_reason + config_state" where
  "config_loop reports config offset st =
     (if offset < length config
      then (case descriptor_length config offset of
              Inl e \<Rightarrow> Inl e
            | Inr n \<Rightarrow>
                (case config_descriptor reports (subslice offset (offset + n) config) st of
                   Inl e \<Rightarrow> Inl e
                 | Inr st' \<Rightarrow> config_loop reports config (offset + n) st'))
      else Inr st)"
  by pat_completeness auto
termination
  by (relation "measure (\<lambda>(_, config, offset, _). length config - offset)") (auto dest!: descriptor_length_Inr)

declare config_loop.simps [simp del]

definition config_new :: config_state where
  "config_new = \<lparr>cf_interfaces = [], cf_endpoints = [], cf_endpoint_addresses = [], cf_current = None\<rparr>"

definition validate_configuration ::
  "mirror_image \<Rightarrow> bytes \<Rightarrow> (u8 \<times> bytes) list \<Rightarrow> mirror_reject_reason + usb_device_plan" where
  "validate_configuration im device reports =
     (let config = mi_configuration_descriptor im in
      if length config < 9 \<or> config ! 0 \<noteq> 9 \<or> config ! 1 \<noteq> 0x02 then Inl RrInvalidDescriptorLength
      else if unat (from_le [config ! 2, config ! 3] :: u16) \<noteq> length config then Inl RrInvalidDescriptorLength
      else if config ! 5 = 0 \<or> config ! 7 AND 0x9f \<noteq> 0x80 then Inl RrMalformedImage
      else bindE (config_loop reports config 9 config_new) (\<lambda>st.
        bindE (finish_interface reports (cf_current st) (cf_interfaces st)) (\<lambda>interfaces.
          if length interfaces \<noteq> unat (config ! 4) \<or> interfaces = [] then Inl RrInvalidDescriptorLength
          else if length reports \<noteq> length interfaces then Inl RrMissingReportDescriptor
          else Inr \<lparr>up_device_descriptor = device, up_configuration_descriptor = config,
                    up_bos_descriptor = mi_bos_descriptor im, up_strings = image_string_table im,
                    up_hid_reports = image_hid_report_table im, up_interfaces = interfaces, up_endpoints = cf_endpoints st\<rparr>)))"

definition validate_parsed_image :: "mirror_image \<Rightarrow> mirror_reject_reason + usb_device_plan" where
  "validate_parsed_image im =
     (let device = mi_device_descriptor im in
      if length device \<noteq> 18 then Inl RrInvalidDescriptorLength
      else if device ! 0 \<noteq> 18 \<or> device ! 1 \<noteq> 0x01 then Inl RrInvalidDescriptorLength
      else if device ! 17 \<noteq> 1 then Inl RrMultipleConfigurations
      else let usb_version = from_le [device ! 2, device ! 3] :: u16 in
        if \<not> (0x0100 \<le> usb_version \<and> usb_version \<le> 0x0210) then Inl RrUnsupportedUsbVersion
        else if device ! 7 \<notin> {8, 16, 32, 64} then Inl RrPacketTooLarge
        else bindE (validate_bos (mi_bos_descriptor im)) (\<lambda>_.
          bindE (validate_strings im) (\<lambda>_.
          bindE (collect_reports im) (\<lambda>reports. validate_configuration im device reports))))"

definition validate_mirror_image :: "bytes \<Rightarrow> mirror_reject_reason + usb_device_plan" where
  "validate_mirror_image bs =
     (case parse_mirror_image bs of Inl e \<Rightarrow> Inl (map_parse_error e) | Inr im \<Rightarrow> validate_parsed_image im)"

section \<open>Capture\<close>

record mirror_capture_source =
  mc_flags :: u32
  mc_device_descriptor :: bytes
  mc_configuration_descriptor :: bytes
  mc_bos_descriptor :: bytes
  mc_strings :: "string_record list"
  mc_hid_reports :: "hid_report_record list"
  mc_port_path :: bytes

record captured_mirror_profile =
  cm_stable_id :: mirror_stable_id
  cm_profile_hash :: u32
  cm_image_length :: nat

datatype mirror_capture_error =
  CapInvalidDeviceDescriptor | CapStableIdentity mirror_stable_id_error | CapEncode mirror_image_encode_error
  | CapRejected mirror_reject_reason

definition capture_fingerprint :: "mirror_capture_source \<Rightarrow> u32" where
  "capture_fingerprint c =
     crc32_finalize (foldl (\<lambda>f r. crc32_update (crc32_update f [hr_interface_number r]) (hr_descriptor r))
       (crc32_update (crc32_update (crc32_update crc32_new (mc_device_descriptor c)) (mc_configuration_descriptor c)) (mc_bos_descriptor c))
       (mc_hid_reports c))"

definition capture_mirror_profile ::
  "mirror_capture_source \<Rightarrow> bytes \<Rightarrow> (bytes, mirror_capture_error, captured_mirror_profile) outcome" where
  "capture_mirror_profile c out =
     (let device = mc_device_descriptor c in
      if length device \<noteq> 18 \<or> device ! 1 \<noteq> 1 then (out, Inl CapInvalidDeviceDescriptor)
      else let vendor_id = from_le [device ! 8, device ! 9]; product_id = from_le [device ! 10, device ! 11]; serial_index = device ! 16;
               serial_hash = map_option (\<lambda>r. crc32_ieee (sr_descriptor r))
                 (find (\<lambda>r. sr_index r = serial_index \<and> serial_index \<noteq> 0) (mc_strings c)) in
        case mirror_stable_id_new vendor_id product_id serial_hash (capture_fingerprint c) (mc_port_path c) of
          Inl e \<Rightarrow> (out, Inl (CapStableIdentity e))
        | Inr stable_id \<Rightarrow>
            (case serialize_mirror_image \<lparr>ms_flags = mc_flags c, ms_device_descriptor = device,
                     ms_configuration_descriptor = mc_configuration_descriptor c, ms_bos_descriptor = mc_bos_descriptor c,
                     ms_strings = mc_strings c, ms_hid_reports = mc_hid_reports c\<rparr> out of
               (out, Inl e) \<Rightarrow> (out, Inl (CapEncode e))
             | (out, Inr image_length) \<Rightarrow>
                 (case validate_mirror_image (take image_length out) of
                    Inl e \<Rightarrow> (out, Inl (CapRejected e))
                  | Inr _ \<Rightarrow> (out, Inr \<lparr>cm_stable_id = stable_id, cm_profile_hash = crc32_ieee (take image_length out),
                                       cm_image_length = image_length\<rparr>))))"

section \<open>What an accepted plan satisfies\<close>

definition endpoint_ok :: "endpoint_plan \<Rightarrow> bool" where
  "endpoint_ok e = (ep_address e AND 0x0f \<noteq> 0 \<and> ep_address e AND 0x70 = 0 \<and> 0 < ep_max_packet_size e \<and> ep_max_packet_size e \<le> 64 \<and> ep_interval e \<noteq> 0)"

definition hid_ok :: "bytes \<Rightarrow> bool" where
  "hid_ok h = (9 \<le> length h \<and> h ! 1 = USB_DESCRIPTOR_HID)"

definition interface_ok :: "(u8 \<times> bytes) list \<Rightarrow> hid_interface_plan \<Rightarrow> bool" where
  "interface_ok reports p = ((hp_interface_number p, hp_report_descriptor p) \<in> set reports \<and> hid_ok (hp_hid_descriptor p) \<and>
     (from_le [hp_hid_descriptor p ! 7, hp_hid_descriptor p ! 8] :: u16) = of_nat (length (hp_report_descriptor p)))"

definition interfaces_ok :: "(u8 \<times> bytes) list \<Rightarrow> hid_interface_plan list \<Rightarrow> bool" where
  "interfaces_ok reports ps = (distinct (map hp_interface_number ps) \<and> length ps \<le> MIRROR_HID_INTERFACES_MAX \<and> (\<forall>p \<in> set ps. interface_ok reports p))"

definition endpoints_ok :: "u8 set \<Rightarrow> endpoint_plan list \<Rightarrow> bool" where
  "endpoints_ok numbers es = (distinct (map ep_address es) \<and> length es \<le> MIRROR_ENDPOINTS_MAX \<and> (\<forall>e \<in> set es. endpoint_ok e \<and> ep_interface_number e \<in> numbers) \<and>
     (\<forall>direction. length (filter (\<lambda>e. ep_address e AND 0x80 = direction) es) \<le> 4))"

definition config_numbers :: "config_state \<Rightarrow> u8 set" where
  "config_numbers st = hp_interface_number ` set (cf_interfaces st) \<union> pi_number ` set_option (cf_current st)"

definition config_inv :: "(u8 \<times> bytes) list \<Rightarrow> config_state \<Rightarrow> bool" where
  "config_inv reports st = (interfaces_ok reports (cf_interfaces st) \<and> endpoints_ok (config_numbers st) (cf_endpoints st) \<and>
     cf_endpoint_addresses st = map ep_address (cf_endpoints st) \<and>
     (\<forall>cur. cf_current st = Some cur \<longrightarrow> pi_number cur \<notin> hp_interface_number ` set (cf_interfaces st) \<and> (\<forall>h. pi_hid_descriptor cur = Some h \<longrightarrow> hid_ok h)))"

lemma find_report: "find (\<lambda>(n, _). n = x) reports = Some (n, report) \<Longrightarrow> (x, report) \<in> set reports"
  by (auto simp: find_Some_iff dest: nth_mem)

lemma finish_interface_ok:
  assumes "finish_interface reports (cf_current st) (cf_interfaces st) = Inr interfaces" "config_inv reports st"
  shows "interfaces_ok reports interfaces \<and> hp_interface_number ` set interfaces = config_numbers st"
proof (cases "cf_current st")
  case None
  then show ?thesis using assms by (auto simp: finish_interface_def config_inv_def config_numbers_def)
next
  case (Some cur)
  then obtain hid report n where f: "find (\<lambda>(n, _). n = pi_number cur) reports = Some (n, report)" "pi_hid_descriptor cur = Some hid"
      "(from_le [hid ! 7, hid ! 8] :: u16) = of_nat (length report)" "length (cf_interfaces st) < MIRROR_HID_INTERFACES_MAX"
      "interfaces = cf_interfaces st @ [\<lparr>hp_interface_number = pi_number cur, hp_subclass = pi_subclass cur, hp_protocol = pi_protocol cur,
        hp_hid_descriptor = hid, hp_report_descriptor = report\<rparr>]"
    using assms(1) by (auto simp: finish_interface_def split: if_splits option.splits prod.splits)
  show ?thesis using assms(2) Some f find_report[OF f(1)]
    by (auto simp: interfaces_ok_def config_inv_def config_numbers_def interface_ok_def simp del: from_le.simps)
qed

lemma interface_descriptor_inv:
  assumes "config_inv reports st" "interface_descriptor reports d st = Inr st'"
  shows "config_inv reports st'"
proof -
  obtain ifs where f: "finish_interface reports (cf_current st) (cf_interfaces st) = Inr ifs" "\<not> list_ex (\<lambda>p. hp_interface_number p = d ! 2) ifs"
      "st' = st\<lparr>cf_interfaces := ifs, cf_current := Some \<lparr>pi_number = d ! 2, pi_subclass = d ! 6, pi_protocol = d ! 7, pi_expected_endpoints = d ! 4,
         pi_actual_endpoints = 0, pi_hid_descriptor = None\<rparr>\<rparr>"
    using assms(2) by (auto simp: interface_descriptor_def bindE_Inr_iff split: if_splits)
  note ok = finish_interface_ok[OF f(1) assms(1)]
  have "endpoints_ok (config_numbers st') (cf_endpoints st)"
    using assms(1) ok by (auto simp: config_inv_def endpoints_ok_def config_numbers_def f(3))
  moreover have "d ! 2 \<notin> hp_interface_number ` set ifs" using f(2) by (auto simp: list_ex_iff)
  ultimately show ?thesis using assms(1) conjunct1[OF ok] by (simp add: config_inv_def f(3))
qed

lemma hid_descriptor_inv:
  assumes "config_inv reports st" "hid_descriptor d st = Inr st'" "d ! 1 = 0x21"
  shows "config_inv reports st'"
  using assms
  by (auto simp: config_inv_def hid_descriptor_def bindE_Inr_iff config_numbers_def hid_ok_def USB_DESCRIPTOR_HID_def
      split: option.splits if_splits)

lemma endpoint_descriptor_inv:
  assumes "config_inv reports st" "endpoint_descriptor d st = Inr st'"
  shows "config_inv reports st'"
proof -
  obtain cur where cur: "cf_current st = Some cur" using assms(2) by (auto simp: endpoint_descriptor_def split: option.splits)
  define e where "e = \<lparr>ep_interface_number = pi_number cur, ep_address = d ! 2, ep_max_packet_size = from_le [d ! 4, d ! 5], ep_interval = d ! 6\<rparr>"
  have g: "endpoint_ok e" "ep_address e \<notin> set (cf_endpoint_addresses st)" "length (cf_endpoints st) < MIRROR_ENDPOINTS_MAX"
    "length (filter (\<lambda>x. ep_address x AND 0x80 = ep_address e AND 0x80) (cf_endpoints st)) < 4"
    "st' = st\<lparr>cf_endpoint_addresses := cf_endpoint_addresses st @ [ep_address e], cf_endpoints := cf_endpoints st @ [e],
       cf_current := Some (cur\<lparr>pi_actual_endpoints := pi_actual_endpoints cur + 1\<rparr>)\<rparr>"
    using assms(2) cur by (auto simp: endpoint_descriptor_def e_def endpoint_ok_def Let_def word_gt_0 simp del: from_le.simps split: if_splits option.splits)
  have inv: "endpoints_ok (config_numbers st) (cf_endpoints st)" "cf_endpoint_addresses st = map ep_address (cf_endpoints st)"
    using assms(1) by (simp_all add: config_inv_def)
  have num: "config_numbers st' = config_numbers st" "ep_interface_number e \<in> config_numbers st" by (simp_all add: g(5) config_numbers_def cur e_def)
  have "length (filter (\<lambda>x. ep_address x AND 0x80 = direction) (cf_endpoints st @ [e])) \<le> 4" for direction
    using inv(1) g(4) by (cases "ep_address e AND 0x80 = direction") (auto simp: endpoints_ok_def)
  moreover have "distinct (map ep_address (cf_endpoints st @ [e]))" "length (cf_endpoints st @ [e]) \<le> MIRROR_ENDPOINTS_MAX"
      "\<forall>x \<in> set (cf_endpoints st @ [e]). endpoint_ok x \<and> ep_interface_number x \<in> config_numbers st"
    using inv g(1,2,3) num(2) unfolding endpoints_ok_def by simp_all
  ultimately have "endpoints_ok (config_numbers st) (cf_endpoints st @ [e])" unfolding endpoints_ok_def by blast
  then show ?thesis using assms(1) cur inv(2) unfolding config_inv_def num(1) by (simp add: g(5))
qed

lemma config_descriptor_inv: "config_inv reports st \<Longrightarrow> config_descriptor reports d st = Inr st' \<Longrightarrow> config_inv reports st'"
  using interface_descriptor_inv[of reports st d st'] hid_descriptor_inv[of reports st d st'] endpoint_descriptor_inv[of reports st d st']
  by (simp add: config_descriptor_def split: if_splits)

lemma config_loop_inv: "config_loop reports config offset st = Inr st' \<Longrightarrow> config_inv reports st \<Longrightarrow> config_inv reports st'"
proof (induction reports config offset st rule: config_loop.induct)
  case (1 reports config offset st)
  show ?case
  proof (cases "offset < length config")
    case True
    then obtain n st1 where n: "descriptor_length config offset = Inr n" "config_descriptor reports (subslice offset (offset + n) config) st = Inr st1"
        "config_loop reports config (offset + n) st1 = Inr st'"
      using "1.prems"(1) by (subst (asm) config_loop.simps) (auto split: sum.splits)
    show ?thesis using "1.IH"[OF True n(1,2,3)] config_descriptor_inv[OF "1.prems"(2) n(2)] by simp
  next
    case False
    then show ?thesis using "1.prems" by (subst (asm) config_loop.simps) simp
  qed
qed

lemma config_new_inv: "config_inv reports config_new"
  by (simp add: config_inv_def config_new_def interfaces_ok_def endpoints_ok_def)

lemma collect_reports_list:
  assumes "collect_report_list reports rs = Inr R" "distinct (map fst reports)"
  shows "R = reports @ map (\<lambda>r. (hr_interface_number r, hr_descriptor r)) rs \<and> distinct (map fst R) \<and> (\<forall>r \<in> set rs. hr_descriptor r \<noteq> [])"
  using assms
proof (induction rs arbitrary: reports)
  case (Cons r rs)
  then have "hr_descriptor r \<noteq> []" "hr_interface_number r \<notin> fst ` set reports"
      "collect_report_list (reports @ [(hr_interface_number r, hr_descriptor r)]) rs = Inr R"
    by (auto simp: list_ex_iff split: if_splits option.splits)
  moreover from this(2) have "distinct (map fst (reports @ [(hr_interface_number r, hr_descriptor r)]))" using Cons.prems(2) by simp
  ultimately have i: "R = (reports @ [(hr_interface_number r, hr_descriptor r)]) @ map (\<lambda>r. (hr_interface_number r, hr_descriptor r)) rs"
      "distinct (map fst R)" "\<forall>r \<in> set rs. hr_descriptor r \<noteq> []" "hr_descriptor r \<noteq> []"
    using Cons.IH[of "reports @ [(hr_interface_number r, hr_descriptor r)]"] by blast+
  show ?case using i(3,4) by (intro conjI i(2)) (simp_all add: i(1))
qed simp

lemma find_in_reports:
  "distinct (map hr_interface_number rs) \<Longrightarrow> r \<in> set rs \<Longrightarrow> find (\<lambda>q. hr_interface_number q = hr_interface_number r) rs = Some r"
  by (induction rs) (auto simp: rev_image_eqI)

lemma validate_string_list_ok:
  "validate_string_list all rs = Inr () \<Longrightarrow>
   \<forall>r \<in> set rs. unat (sr_descriptor r ! 0) = length (sr_descriptor r) \<and> sr_descriptor r ! 1 = 3 \<and> 2 \<le> length (sr_descriptor r) \<and>
     length (filter (\<lambda>x. sr_index x = sr_index r \<and> sr_lang_id x = sr_lang_id r) all) = 1"
  by (induction rs) (auto simp: Let_def split: if_splits)

lemma find_unique:
  assumes "length (filter P xs) = 1" "x \<in> set xs" "P x"
  shows "find P xs = Some x"
proof -
  obtain y where y: "filter P xs = [y]" using assms(1) by (auto simp: length_Suc_conv)
  moreover have "x \<in> set (filter P xs)" using assms(2,3) by simp
  ultimately have "x = y" by simp
  moreover have "find P xs = Some (hd (filter P xs))" if "filter P xs \<noteq> []" using that by (induction xs) auto
  ultimately show ?thesis using y by simp
qed

lemma validate_Inr:
  assumes "validate_mirror_image bs = Inr plan"
  obtains im reports st where "parse_mirror_image bs = Inr im" "length (mi_device_descriptor im) = 18" "mi_device_descriptor im ! 17 = 1"
    "validate_strings im = Inr ()" "collect_reports im = Inr reports" "config_loop reports (mi_configuration_descriptor im) 9 config_new = Inr st"
    "finish_interface reports (cf_current st) (cf_interfaces st) = Inr (up_interfaces plan)"
    "plan = \<lparr>up_device_descriptor = mi_device_descriptor im, up_configuration_descriptor = mi_configuration_descriptor im,
        up_bos_descriptor = mi_bos_descriptor im, up_strings = image_string_table im,
        up_hid_reports = image_hid_report_table im, up_interfaces = up_interfaces plan, up_endpoints = cf_endpoints st\<rparr>"
    "unat (from_le [mi_configuration_descriptor im ! 2, mi_configuration_descriptor im ! 3] :: u16) = length (mi_configuration_descriptor im)"
    "length (up_interfaces plan) = unat (mi_configuration_descriptor im ! 4)" "up_interfaces plan \<noteq> []" "length reports = length (up_interfaces plan)"
proof -
  obtain im where im: "parse_mirror_image bs = Inr im" "validate_parsed_image im = Inr plan"
    using assms by (auto simp: validate_mirror_image_def split: sum.splits)
  obtain reports where d: "length (mi_device_descriptor im) = 18" "mi_device_descriptor im ! 17 = 1" "validate_strings im = Inr ()"
      "collect_reports im = Inr reports" "validate_configuration im (mi_device_descriptor im) reports = Inr plan"
    using im(2) by (auto simp: validate_parsed_image_def Let_def bindE_Inr_iff split: if_splits)
  obtain st where "config_loop reports (mi_configuration_descriptor im) 9 config_new = Inr st"
    "finish_interface reports (cf_current st) (cf_interfaces st) = Inr (up_interfaces plan)"
    "plan = \<lparr>up_device_descriptor = mi_device_descriptor im, up_configuration_descriptor = mi_configuration_descriptor im,
        up_bos_descriptor = mi_bos_descriptor im, up_strings = image_string_table im,
        up_hid_reports = image_hid_report_table im, up_interfaces = up_interfaces plan, up_endpoints = cf_endpoints st\<rparr>"
    "unat (from_le [mi_configuration_descriptor im ! 2, mi_configuration_descriptor im ! 3] :: u16) = length (mi_configuration_descriptor im)"
    "length (up_interfaces plan) = unat (mi_configuration_descriptor im ! 4)" "up_interfaces plan \<noteq> []" "length reports = length (up_interfaces plan)"
    using d(5) by (auto simp: validate_configuration_def Let_def bindE_Inr_iff simp del: from_le.simps split: if_splits)
  then show thesis using that im(1) d(1-4) by blast
qed

text \<open>
  C24: Every plan the validator accepts is presentable. It has between one and four interfaces, as
  many as the configuration descriptor announces, with distinct numbers; each interface finds in
  the report table exactly one non-empty report descriptor, of the length its HID descriptor
  states; every endpoint belongs to one of the interfaces, has a legal address used once, a packet
  size of 1 to 64 and a polling interval, and no more than four share a direction; and every
  string of the image is found under its index and language.
\<close>

theorem accepted_plan_sound:
  assumes "validate_mirror_image bs = Inr plan"
  shows "length (up_device_descriptor plan) = 18 \<and> up_device_descriptor plan ! 17 = 1 \<and>
    unat (from_le [up_configuration_descriptor plan ! 2, up_configuration_descriptor plan ! 3] :: u16) = length (up_configuration_descriptor plan) \<and>
    length (up_interfaces plan) = unat (up_configuration_descriptor plan ! 4) \<and> up_interfaces plan \<noteq> [] \<and>
    length (up_interfaces plan) \<le> MIRROR_HID_INTERFACES_MAX \<and> distinct (map hp_interface_number (up_interfaces plan)) \<and>
    (\<forall>p \<in> set (up_interfaces plan).
       hid_report_table_get (up_hid_reports plan) (hp_interface_number p) = Some (hp_report_descriptor p) \<and> hp_report_descriptor p \<noteq> [] \<and>
       (from_le [hp_hid_descriptor p ! 7, hp_hid_descriptor p ! 8] :: u16) = of_nat (length (hp_report_descriptor p))) \<and>
    endpoints_ok (hp_interface_number ` set (up_interfaces plan)) (up_endpoints plan) \<and>
    (\<forall>r \<in> set (string_records (tb_string_records (up_strings plan)) (tb_string_count (up_strings plan))).
       plan_device_descriptor plan USB_DESCRIPTOR_STRING (sr_index r) (sr_lang_id r) = Some (sr_descriptor r))"
proof -
  obtain im reports st where v: "parse_mirror_image bs = Inr im" "length (mi_device_descriptor im) = 18" "mi_device_descriptor im ! 17 = 1"
    "validate_strings im = Inr ()" "collect_reports im = Inr reports" "config_loop reports (mi_configuration_descriptor im) 9 config_new = Inr st"
    "finish_interface reports (cf_current st) (cf_interfaces st) = Inr (up_interfaces plan)" and
    plan: "plan = \<lparr>up_device_descriptor = mi_device_descriptor im, up_configuration_descriptor = mi_configuration_descriptor im,
        up_bos_descriptor = mi_bos_descriptor im, up_strings = image_string_table im,
        up_hid_reports = image_hid_report_table im, up_interfaces = up_interfaces plan, up_endpoints = cf_endpoints st\<rparr>" and
    c: "unat (from_le [mi_configuration_descriptor im ! 2, mi_configuration_descriptor im ! 3] :: u16) = length (mi_configuration_descriptor im)"
    "length (up_interfaces plan) = unat (mi_configuration_descriptor im ! 4)" "up_interfaces plan \<noteq> []"
    by (rule validate_Inr[OF assms])
  have f: "up_device_descriptor plan = mi_device_descriptor im" "up_configuration_descriptor plan = mi_configuration_descriptor im"
      "up_strings plan = image_string_table im" "up_hid_reports plan = image_hid_report_table im" "up_endpoints plan = cf_endpoints st"
    using plan by (metis usb_device_plan.select_convs)+
  have inv: "config_inv reports st" using config_loop_inv[OF v(6) config_new_inv] .
  note ok = finish_interface_ok[OF v(7) inv]
  have R: "reports = map (\<lambda>r. (hr_interface_number r, hr_descriptor r)) (image_hid_reports im)" "distinct (map fst reports)" "\<forall>r \<in> set (image_hid_reports im). hr_descriptor r \<noteq> []"
    using collect_reports_list[OF v(5)[unfolded collect_reports_def]] by auto
  then have dist: "distinct (map hr_interface_number (image_hid_reports im))" by (simp add: comp_def)
  have "hid_report_table_get (up_hid_reports plan) (hp_interface_number p) = Some (hp_report_descriptor p) \<and> hp_report_descriptor p \<noteq> [] \<and>
       (from_le [hp_hid_descriptor p ! 7, hp_hid_descriptor p ! 8] :: u16) = of_nat (length (hp_report_descriptor p))" if "p \<in> set (up_interfaces plan)" for p
  proof -
    have p: "interface_ok reports p" using ok that by (simp add: interfaces_ok_def)
    then obtain r where r: "r \<in> set (image_hid_reports im)" "hp_interface_number p = hr_interface_number r" "hp_report_descriptor p = hr_descriptor r"
      by (auto simp: interface_ok_def R(1))
    have "hid_report_table_get (up_hid_reports plan) (hp_interface_number p) = Some (hp_report_descriptor p)"
      unfolding f(4) r(2,3) hid_report_table_get_def using find_in_reports[OF dist r(1)]
      by (simp add: image_hid_report_table_def image_hid_reports_def)
    then show ?thesis using p r R(3) by (simp add: interface_ok_def)
  qed
  moreover have "plan_device_descriptor plan USB_DESCRIPTOR_STRING (sr_index r) (sr_lang_id r) = Some (sr_descriptor r)"
    if "r \<in> set (string_records (tb_string_records (up_strings plan)) (tb_string_count (up_strings plan)))" for r
  proof -
    have r: "r \<in> set (image_strings im)" using that by (simp add: f(3) image_string_table_def image_strings_def)
    then have "find (\<lambda>x. sr_index x = sr_index r \<and> sr_lang_id x = sr_lang_id r) (image_strings im) = Some r"
      using validate_string_list_ok[OF v(4)[unfolded validate_strings_def]] by (intro find_unique) auto
    then show ?thesis by (simp add: plan_device_descriptor_def f(3) string_table_get_def image_string_table_def image_strings_def
          USB_DESCRIPTOR_STRING_def USB_DESCRIPTOR_DEVICE_def USB_DESCRIPTOR_CONFIGURATION_def)
  qed
  moreover have "endpoints_ok (hp_interface_number ` set (up_interfaces plan)) (up_endpoints plan)"
    using inv conjunct2[OF ok] by (simp add: config_inv_def f(5))
  ultimately show ?thesis using v(2,3) c ok by (simp add: f(1,2) interfaces_ok_def del: from_le.simps)
qed

definition sample_device :: bytes where
  "sample_device = [18, 1, 0, 2, 0, 0, 0, 64, 0x6d, 0x04, 1, 0, 0, 1, 0, 0, 0, 1]"

definition sample_config :: bytes where
  "sample_config = [9, 2, 34, 0, 1, 1, 0, 0xa0, 50,  9, 4, 0, 0, 1, 3, 1, 1, 0,  9, 0x21, 0x11, 1, 0, 1, 0x22, 2, 0,  7, 5, 0x81, 3, 8, 0, 10]"

definition sample_image_profile :: mirror_image_source where
  "sample_image_profile = \<lparr>ms_flags = 0, ms_device_descriptor = sample_device, ms_configuration_descriptor = sample_config, ms_bos_descriptor = [],
     ms_strings = [\<lparr>sr_index = 1, sr_lang_id = 0x409, sr_descriptor = [4, 3, 65, 0]\<rparr>],
     ms_hid_reports = [\<lparr>hr_interface_number = 0, hr_descriptor = [5, 1]\<rparr>]\<rparr>"

definition sample_bytes :: bytes where
  "sample_bytes = image_bytes sample_image_profile (image_checksum sample_image_profile)"

lemma sample_profile_ok: "source_ok sample_image_profile" "HSMI_HEADER_LEN + length (source_body sample_image_profile) = 98"
  by (simp_all add: source_ok_def source_body_def sample_image_profile_def sample_device_def sample_config_def string_image_def report_image_def hsmi_sizes)

lemma sample_loop: "config_loop [(0, [5, 1])] sample_config 9 config_new =
    Inr \<lparr>cf_interfaces = [], cf_endpoints = [\<lparr>ep_interface_number = 0, ep_address = 0x81, ep_max_packet_size = 8, ep_interval = 10\<rparr>],
         cf_endpoint_addresses = [0x81], cf_current = Some \<lparr>pi_number = 0, pi_subclass = 1, pi_protocol = 1, pi_expected_endpoints = 1,
           pi_actual_endpoints = 1, pi_hid_descriptor = Some [9, 0x21, 0x11, 1, 0, 1, 0x22, 2, 0]\<rparr>\<rparr>"
  by code_simp

lemma sample_checks:
  "(from_le [2, 0] :: u16) = 2" "unat (from_le [34, 0] :: u16) = 34" "(from_le [0, 2] :: u16) = 0x200" "length sample_device = 18" "length sample_config = 34"
  by code_simp+

lemma sample_accepted: "\<exists>plan. validate_mirror_image sample_bytes = Inr plan \<and> up_interfaces plan =
    [\<lparr>hp_interface_number = 0, hp_subclass = 1, hp_protocol = 1, hp_hid_descriptor = [9, 0x21, 0x11, 1, 0, 1, 0x22, 2, 0], hp_report_descriptor = [5, 1]\<rparr>]"
proof -
  let ?im = "image_of_source sample_image_profile"
  have p: "parse_mirror_image sample_bytes = Inr ?im" using parse_image[OF sample_profile_ok(1)] by (simp add: sample_bytes_def)
  have i: "image_strings ?im = ms_strings sample_image_profile" "image_hid_reports ?im = ms_hid_reports sample_image_profile"
    using image_source_of[OF sample_profile_ok(1)] by (metis image_source_def mirror_image_source.select_convs)+
  have d: "mi_device_descriptor ?im = sample_device" "mi_configuration_descriptor ?im = sample_config" "mi_bos_descriptor ?im = []"
    by (simp_all add: image_of_source_def sample_image_profile_def)
  have "validate_strings ?im = Inr ()" "collect_reports ?im = Inr [(0, [5, 1])]"
    unfolding validate_strings_def collect_reports_def i by (simp_all add: sample_image_profile_def vec_push_def MIRROR_HID_INTERFACES_MAX_def)
  then show ?thesis using p sample_loop sample_checks
    by (simp add: validate_mirror_image_def validate_parsed_image_def d validate_bos_def validate_configuration_def Let_def finish_interface_def vec_push_def
        MIRROR_HID_INTERFACES_MAX_def del: from_le.simps) (simp add: sample_device_def sample_config_def del: from_le.simps)
qed

theorem accepted_plan_sound_witness:
  "\<exists>plan. validate_mirror_image sample_bytes = Inr plan \<and> up_interfaces plan \<noteq> [] \<and> distinct (map hp_interface_number (up_interfaces plan))"
  using sample_accepted accepted_plan_sound by blast

end
