(* ===== verification/HS_ProfileTransfer.thy ===== *)
theory HS_ProfileTransfer
  imports HS_MirrorPlan HS_Runs
begin

unbundle bit_operations_syntax

text \<open>
  The transfer of a mirror profile to the second chip (\<open>interchip/profile_transfer.rs\<close>): the
  encoder that cuts an image into commands, the receiver with its staging area and the cache of
  the last commit. The theorems follow an image from the encoder to the committed profile, with
  repeated chunks on the way, and show that nothing unvalidated is ever committed.
\<close>

section \<open>Commands\<close>

datatype profile_transfer_command = PtBegin profile_begin | PtChunk profile_chunk_data | PtCommit u32

datatype profile_transfer_error = PtBusy | PtInvalidLength | PtWrongTransfer | PtOffsetGap | PtConflictingRetry

record profile_transfer_encoder =
  te_image :: bytes
  te_begin :: profile_begin
  te_offset :: nat
  te_phase :: u8

definition transfer_encoder_new :: "u32 \<Rightarrow> u32 \<Rightarrow> bytes \<Rightarrow> profile_transfer_error + profile_transfer_encoder" where
  "transfer_encoder_new transfer_id profile_hash img =
     (if img = [] \<or> HSMI_MAX_SIZE < length img then Inl PtInvalidLength
      else Inr \<lparr>te_image = img,
                te_begin = \<lparr>pb_transfer_id = transfer_id, pb_total_length = of_nat (length img), pb_crc32 = crc32_ieee img, pb_profile_hash = profile_hash\<rparr>,
                te_offset = 0, te_phase = 0\<rparr>)"

definition transfer_encoder_next :: "profile_transfer_encoder \<Rightarrow> profile_transfer_encoder \<times> profile_transfer_command option" where
  "transfer_encoder_next e =
     (if te_phase e = 0 then (e\<lparr>te_phase := 1\<rparr>, Some (PtBegin (te_begin e)))
      else if te_offset e < length (te_image e) then
        (let fin = min (te_offset e + PROFILE_CHUNK_MAX_DATA_LEN) (length (te_image e)) in
         case chunk_from_borrowed \<lparr>pk_transfer_id = pb_transfer_id (te_begin e), pk_offset = of_nat (te_offset e),
                                   pk_data = subslice (te_offset e) fin (te_image e)\<rparr> of
           Inl _ \<Rightarrow> (e, None)
         | Inr chunk \<Rightarrow> (e\<lparr>te_offset := fin\<rparr>, Some (PtChunk chunk)))
      else if te_phase e = 1 then (e\<lparr>te_phase := 2\<rparr>, Some (PtCommit (pb_transfer_id (te_begin e))))
      else (e, None))"

section \<open>Receiver\<close>

record transfer_state =
  ts_begin :: profile_begin
  ts_next_offset :: nat

record committed_profile =
  cp_transfer_id :: u32
  cp_profile_hash :: u32
  cp_profile_length :: nat

datatype profile_chunk_disposition = PcAppended | PcDuplicate

record profile_commit_cache =
  pcc_result :: "profile_result option"

definition commit_cache_new :: profile_commit_cache where "commit_cache_new = \<lparr>pcc_result = None\<rparr>"

definition commit_cache_record :: "profile_result \<Rightarrow> profile_commit_cache \<Rightarrow> profile_commit_cache" where
  "commit_cache_record result c = c\<lparr>pcc_result := Some result\<rparr>"

definition commit_cache_replay :: "profile_commit_cache \<Rightarrow> u32 \<Rightarrow> profile_result option" where
  "commit_cache_replay c transfer_id =
     (case pcc_result c of None \<Rightarrow> None | Some r \<Rightarrow> if pr_transfer_id r = transfer_id then Some r else None)"

definition commit_cache_clear :: "profile_commit_cache \<Rightarrow> profile_commit_cache" where
  "commit_cache_clear c = c\<lparr>pcc_result := None\<rparr>"

record transfer_receiver =
  rx_staging :: bytes
  rx_active :: "transfer_state option"
  rx_committed :: "committed_profile option"

definition receiver_new :: "bytes \<Rightarrow> transfer_receiver" where
  "receiver_new staging = \<lparr>rx_staging = staging, rx_active = None, rx_committed = None\<rparr>"

definition receiver_begin :: "profile_begin \<Rightarrow> transfer_receiver \<Rightarrow> (transfer_receiver, profile_transfer_error, unit) outcome" where
  "receiver_begin b r =
     (if rx_active r \<noteq> None \<or> rx_committed r \<noteq> None then (r, Inl PtBusy)
      else let total_length = unat (pb_total_length b) in
        if total_length = 0 \<or> HSMI_MAX_SIZE < total_length \<or> length (rx_staging r) < total_length then (r, Inl PtInvalidLength)
        else (r\<lparr>rx_active := Some \<lparr>ts_begin = b, ts_next_offset = 0\<rparr>\<rparr>, Inr ()))"

definition receiver_chunk :: "profile_chunk \<Rightarrow> transfer_receiver \<Rightarrow> (transfer_receiver, profile_transfer_error, profile_chunk_disposition) outcome" where
  "receiver_chunk c r =
     (case rx_active r of
        None \<Rightarrow> (r, Inl PtWrongTransfer)
      | Some state \<Rightarrow>
          if pk_transfer_id c \<noteq> pb_transfer_id (ts_begin state) then (r, Inl PtWrongTransfer)
          else if pk_data c = [] then (r\<lparr>rx_active := None\<rparr>, Inl PtInvalidLength)
          else let offset = unat (pk_offset c) in
            case usize_checked_add offset (length (pk_data c)) of
              None \<Rightarrow> (r\<lparr>rx_active := None\<rparr>, Inl PtInvalidLength)
            | Some fin \<Rightarrow>
                if unat (pb_total_length (ts_begin state)) < fin then (r\<lparr>rx_active := None\<rparr>, Inl PtInvalidLength)
                else if ts_next_offset state < offset then (r\<lparr>rx_active := None\<rparr>, Inl PtOffsetGap)
                else if offset < ts_next_offset state then
                  (if fin \<le> ts_next_offset state \<and> subslice offset fin (rx_staging r) = pk_data c then (r, Inr PcDuplicate)
                   else (r\<lparr>rx_active := None\<rparr>, Inl PtConflictingRetry))
                else (r\<lparr>rx_staging := write_at offset (pk_data c) (rx_staging r), rx_active := Some (state\<lparr>ts_next_offset := fin\<rparr>)\<rparr>,
                      Inr PcAppended))"

definition failure_result :: "u32 \<Rightarrow> u32 \<Rightarrow> profile_result_status \<Rightarrow> mirror_reject_reason \<Rightarrow> profile_result" where
  "failure_result transfer_id profile_hash status reason =
     \<lparr>pr_transfer_id = transfer_id, pr_profile_hash = profile_hash, pr_status = status, pr_reject_reason = reject_reason_byte reason, pr_detail = 0\<rparr>"

fun reject_status :: "mirror_reject_reason \<Rightarrow> profile_result_status" where
  "reject_status RrEndpointResourceExhausted = PsResourceExhausted"
| "reject_status RrNonHidInterface = PsUnsupported"
| "reject_status RrUnsupportedAlternateSetting = PsUnsupported"
| "reject_status RrUnsupportedEndpointType = PsUnsupported"
| "reject_status RrPacketTooLarge = PsUnsupported"
| "reject_status RrUnsupportedUsbVersion = PsUnsupported"
| "reject_status RrRemoteWakeUnsupported = PsUnsupported"
| "reject_status _ = PsInvalidImage"

definition receiver_commit :: "u32 \<Rightarrow> transfer_receiver \<Rightarrow> transfer_receiver \<times> profile_result" where
  "receiver_commit transfer_id r =
     (case rx_active r of
        None \<Rightarrow> (r, failure_result transfer_id 0 PsInvalidImage RrMalformedImage)
      | Some state \<Rightarrow>
          let r = r\<lparr>rx_active := None\<rparr>; hash = pb_profile_hash (ts_begin state) in
          if pb_transfer_id (ts_begin state) \<noteq> transfer_id then (r, failure_result transfer_id hash PsBusy RrMalformedImage)
          else let len = unat (pb_total_length (ts_begin state)) in
            if ts_next_offset state \<noteq> len \<or> crc32_ieee (take len (rx_staging r)) \<noteq> pb_crc32 (ts_begin state)
            then (r, failure_result transfer_id hash PsInvalidImage RrMalformedImage)
            else case validate_mirror_image (take len (rx_staging r)) of
              Inl reason \<Rightarrow> (r, failure_result transfer_id hash (reject_status reason) reason)
            | Inr _ \<Rightarrow>
                (r\<lparr>rx_committed := Some \<lparr>cp_transfer_id = transfer_id, cp_profile_hash = hash, cp_profile_length = len\<rparr>\<rparr>,
                 \<lparr>pr_transfer_id = transfer_id, pr_profile_hash = hash, pr_status = PsAccepted, pr_reject_reason = reject_reason_byte RrNone, pr_detail = 0\<rparr>))"

definition receiver_committed :: "transfer_receiver \<Rightarrow> (committed_profile \<times> bytes) option" where
  "receiver_committed r = map_option (\<lambda>c. (c, take (cp_profile_length c) (rx_staging r))) (rx_committed r)"

definition receiver_clear_committed :: "transfer_receiver \<Rightarrow> transfer_receiver" where
  "receiver_clear_committed r = r\<lparr>rx_committed := None\<rparr>"

definition receiver_cancel :: "transfer_receiver \<Rightarrow> transfer_receiver" where
  "receiver_cancel r = r\<lparr>rx_active := None\<rparr>"

section \<open>From the encoder to the committed profile\<close>

text \<open>The chunks of an image: chunk \<open>k\<close> starts at \<open>chunk_start\<close> of it and ends where the next one starts.\<close>

definition chunk_count :: "bytes \<Rightarrow> nat" where
  "chunk_count img = (length img + (PROFILE_CHUNK_MAX_DATA_LEN - 1)) div PROFILE_CHUNK_MAX_DATA_LEN"

definition chunk_start :: "bytes \<Rightarrow> nat \<Rightarrow> nat" where
  "chunk_start img k = min (PROFILE_CHUNK_MAX_DATA_LEN * k) (length img)"

definition chunk_of :: "u32 \<Rightarrow> bytes \<Rightarrow> nat \<Rightarrow> profile_chunk" where
  "chunk_of t img k = \<lparr>pk_transfer_id = t, pk_offset = of_nat (chunk_start img k), pk_data = subslice (chunk_start img k) (chunk_start img (Suc k)) img\<rparr>"

lemma chunk_count_less: "k < chunk_count img \<longleftrightarrow> PROFILE_CHUNK_MAX_DATA_LEN * k < length img"
proof -
  have "k < chunk_count img \<longleftrightarrow> Suc k * 96 \<le> length img + 95"
    by (simp add: chunk_count_def PROFILE_CHUNK_MAX_DATA_LEN_def Suc_le_eq[symmetric] less_eq_div_iff_mult_less_eq)
  then show ?thesis by (auto simp: PROFILE_CHUNK_MAX_DATA_LEN_def)
qed

lemma chunk_less: "k < chunk_count img \<Longrightarrow> chunk_start img k < chunk_start img (Suc k)"
  by (auto simp: chunk_count_less chunk_start_def PROFILE_CHUNK_MAX_DATA_LEN_def)

lemma chunk_next: "k < chunk_count img \<Longrightarrow> min (chunk_start img k + PROFILE_CHUNK_MAX_DATA_LEN) (length img) = chunk_start img (Suc k)"
  by (auto simp: chunk_count_less chunk_start_def PROFILE_CHUNK_MAX_DATA_LEN_def)

lemma chunk_start_mono: "j \<le> k \<Longrightarrow> chunk_start img j \<le> chunk_start img k"
  by (simp add: chunk_start_def PROFILE_CHUNK_MAX_DATA_LEN_def min_def)

lemma chunk_start_end: "chunk_start img (chunk_count img) = length img" "chunk_start img k \<le> length img"
  using chunk_count_less[of "chunk_count img" img] by (auto simp: chunk_start_def)

lemma chunk_borrow:
  assumes "k < chunk_count img"
  shows "\<exists>d. chunk_from_borrowed (chunk_of t img k) = Inr d \<and> chunk_as_borrowed d = chunk_of t img k"
proof -
  have n: "length (pk_data (chunk_of t img k)) \<le> 96"
    using chunk_next[OF assms] chunk_start_end(2)[of img "Suc k"] by (simp add: chunk_of_def length_subslice PROFILE_CHUNK_MAX_DATA_LEN_def min_def split: if_splits)
  then have "unat (of_nat (length (pk_data (chunk_of t img k))) :: u8) = length (pk_data (chunk_of t img k))" by (simp add: of_nat_len8)
  then show ?thesis using n by (simp add: chunk_from_borrowed_def chunk_as_borrowed_def PROFILE_CHUNK_MAX_DATA_LEN_def write_padded)
qed

definition sent_chunk :: "u32 \<Rightarrow> bytes \<Rightarrow> nat \<Rightarrow> profile_chunk_data" where
  "sent_chunk t img k = projr (chunk_from_borrowed (chunk_of t img k))"

lemma sent_chunk: "k < chunk_count img \<Longrightarrow> chunk_from_borrowed (chunk_of t img k) = Inr (sent_chunk t img k) \<and> chunk_as_borrowed (sent_chunk t img k) = chunk_of t img k"
  using chunk_borrow[of k img t] by (auto simp: sent_chunk_def)

lemma encoder_chunks:
  assumes "te_phase e = 1" "te_offset e = chunk_start (te_image e) k" "k \<le> chunk_count (te_image e)" "chunk_count (te_image e) - k + 2 \<le> fuel"
  shows "drain transfer_encoder_next fuel e =
    map (\<lambda>j. PtChunk (sent_chunk (pb_transfer_id (te_begin e)) (te_image e) j)) [k..<chunk_count (te_image e)] @ [PtCommit (pb_transfer_id (te_begin e))]"
  using assms
proof (induction fuel arbitrary: e k)
  case (Suc fuel)
  let ?n = "chunk_count (te_image e)" let ?t = "pb_transfer_id (te_begin e)"
  show ?case
  proof (cases "k < ?n")
    case True
    note s = chunk_less[OF True] chunk_next[OF True] note c = sent_chunk[OF True, of ?t]
    have "te_offset e < length (te_image e)" using Suc.prems(2) s(1) chunk_start_end(2)[of "te_image e" "Suc k"] by simp
    then have "transfer_encoder_next e = (e\<lparr>te_offset := chunk_start (te_image e) (Suc k)\<rparr>, Some (PtChunk (sent_chunk ?t (te_image e) k)))"
      using Suc.prems(1,2) s c by (simp add: transfer_encoder_next_def chunk_of_def Let_def)
    then show ?thesis using Suc.IH[of "e\<lparr>te_offset := chunk_start (te_image e) (Suc k)\<rparr>" "Suc k"] Suc.prems True by (simp add: upt_conv_Cons)
  next
    case False
    then have "te_offset e = length (te_image e)" using Suc.prems(2,3) chunk_start_end(1) by simp
    then have "transfer_encoder_next e = (e\<lparr>te_phase := 2\<rparr>, Some (PtCommit ?t))" "transfer_encoder_next (e\<lparr>te_phase := 2\<rparr>) = (e\<lparr>te_phase := 2\<rparr>, None)"
      using Suc.prems(1) by (simp_all add: transfer_encoder_next_def)
    then have "drain transfer_encoder_next (Suc fuel) e = [PtCommit ?t]" by (cases fuel) simp_all
    then show ?thesis using False by simp
  qed
qed simp

lemma encoder_commands:
  assumes "transfer_encoder_new t h img = Inr e" "chunk_count img + 3 \<le> fuel"
  shows "drain transfer_encoder_next fuel e = PtBegin (te_begin e) # map (\<lambda>j. PtChunk (sent_chunk t img j)) [0..<chunk_count img] @ [PtCommit t]"
proof -
  have e: "te_phase e = 0" "te_offset e = 0" "te_image e = img" "pb_transfer_id (te_begin e) = t"
    using assms(1) by (auto simp: transfer_encoder_new_def split: if_splits)
  obtain f where f: "fuel = Suc f" using assms(2) by (cases fuel) auto
  have "transfer_encoder_next e = (e\<lparr>te_phase := 1\<rparr>, Some (PtBegin (te_begin e)))" using e by (simp add: transfer_encoder_next_def)
  then show ?thesis using encoder_chunks[of "e\<lparr>te_phase := 1\<rparr>" 0 f] assms(2) e f by (simp add: chunk_start_def)
qed

text \<open>A receiver that has taken the first \<open>k\<close> chunks of an image.\<close>

definition holds_chunks :: "profile_begin \<Rightarrow> bytes \<Rightarrow> nat \<Rightarrow> transfer_receiver \<Rightarrow> bool" where
  "holds_chunks b img k r = (rx_active r = Some \<lparr>ts_begin = b, ts_next_offset = chunk_start img k\<rparr> \<and> rx_committed r = None \<and>
     take (chunk_start img k) (rx_staging r) = take (chunk_start img k) img \<and> length img \<le> length (rx_staging r) \<and>
     unat (pb_total_length b) = length img \<and> length img \<le> HSMI_MAX_SIZE)"

lemma unat_chunk_start: "length img \<le> HSMI_MAX_SIZE \<Longrightarrow> unat (of_nat (chunk_start img k) :: u32) = chunk_start img k"
  using chunk_start_end(2)[of img k] by (intro unat_of_nat_small) (simp add: HSMI_MAX_SIZE_def)

lemma chunk_fields:
  assumes "j < chunk_count img" "length img \<le> HSMI_MAX_SIZE"
  shows "pk_data (chunk_of t img j) \<noteq> []" "unat (pk_offset (chunk_of t img j)) = chunk_start img j"
    "usize_checked_add (chunk_start img j) (length (pk_data (chunk_of t img j))) = Some (chunk_start img (Suc j))"
proof -
  note s = chunk_less[OF assms(1)] chunk_start_end(2)[of img "Suc j"]
  have l: "length (pk_data (chunk_of t img j)) = chunk_start img (Suc j) - chunk_start img j" using s by (simp add: chunk_of_def length_subslice)
  then show "pk_data (chunk_of t img j) \<noteq> []" using s by auto
  show "unat (pk_offset (chunk_of t img j)) = chunk_start img j" using unat_chunk_start[OF assms(2)] by (simp add: chunk_of_def)
  show "usize_checked_add (chunk_start img j) (length (pk_data (chunk_of t img j))) = Some (chunk_start img (Suc j))"
    using s l assms(2) by (simp add: usize_checked_add_def USIZE_MAX_def HSMI_MAX_SIZE_def)
qed

lemma chunk_appended:
  assumes "holds_chunks b img k r" "k < chunk_count img"
  shows "\<exists>r'. receiver_chunk (chunk_of (pb_transfer_id b) img k) r = (r', Inr PcAppended) \<and> holds_chunks b img (Suc k) r'"
proof -
  let ?c = "chunk_of (pb_transfer_id b) img k" let ?a = "chunk_start img k" let ?z = "chunk_start img (Suc k)"
  have h: "length img \<le> HSMI_MAX_SIZE" "length img \<le> length (rx_staging r)" "take ?a (rx_staging r) = take ?a img" using assms(1) by (auto simp: holds_chunks_def)
  note s = chunk_less[OF assms(2)] chunk_start_end(2)[of img "Suc k"] note f = chunk_fields[OF assms(2) h(1), of "pb_transfer_id b"]
  have len: "length (pk_data ?c) = ?z - ?a" using s by (simp add: chunk_of_def length_subslice)
  let ?st = "write_at ?a (pk_data ?c) (rx_staging r)"
  have "take (?a + (?z - ?a)) ?st = take ?a (rx_staging r) @ pk_data ?c"
    using s h(2) len by (simp add: write_at_def)
  then have "take ?z ?st = take ?z img" using s h(3) subslice_split[of 0 ?a ?z img] by (simp add: chunk_of_def subslice_def)
  moreover have "length ?st = length (rx_staging r)" using s h(2) len by (simp add: write_at_def)
  ultimately have "holds_chunks b img (Suc k) (r\<lparr>rx_staging := ?st, rx_active := Some \<lparr>ts_begin = b, ts_next_offset = ?z\<rparr>\<rparr>)"
    using assms(1) by (simp add: holds_chunks_def)
  moreover have "receiver_chunk ?c r = (r\<lparr>rx_staging := ?st, rx_active := Some \<lparr>ts_begin = b, ts_next_offset = ?z\<rparr>\<rparr>, Inr PcAppended)"
    unfolding receiver_chunk_def f(2,3) Let_def using assms(1) f(1) s by (simp add: holds_chunks_def) (simp add: chunk_of_def)
  ultimately show ?thesis by blast
qed

lemma chunk_repeated:
  assumes "holds_chunks b img k r" "j < k" "k \<le> chunk_count img"
  shows "receiver_chunk (chunk_of (pb_transfer_id b) img j) r = (r, Inr PcDuplicate)"
proof -
  let ?c = "chunk_of (pb_transfer_id b) img j" let ?a = "chunk_start img j" let ?z = "chunk_start img (Suc j)" let ?k = "chunk_start img k"
  have h: "length img \<le> HSMI_MAX_SIZE" "take ?k (rx_staging r) = take ?k img" using assms(1) by (auto simp: holds_chunks_def)
  have j: "j < chunk_count img" using assms(2,3) by simp
  note s = chunk_less[OF j] chunk_start_end(2)[of img k] chunk_start_mono[of "Suc j" k img] note f = chunk_fields[OF j h(1), of "pb_transfer_id b"]
  have z: "?z \<le> ?k" using s(3) assms(2) by simp
  have "take ?z (rx_staging r) = take ?z (take ?k (rx_staging r))" using z by (simp add: min_def)
  also have "\<dots> = take ?z img" using z by (simp add: h(2) min_def)
  finally have "drop ?a (take ?z (rx_staging r)) = drop ?a (take ?z img)" by simp
  then have "subslice ?a ?z (rx_staging r) = pk_data ?c" by (simp add: subslice_def chunk_of_def drop_take)
  then show ?thesis unfolding receiver_chunk_def f(2,3) Let_def
    using assms(1) f(1) s(1,2) z by (simp add: holds_chunks_def) (simp add: chunk_of_def)
qed

text \<open>
  The order in which chunks reach the receiver: \<open>n\<close> chunks of which the first \<open>k\<close> have
  arrived; the next one to arrive is chunk \<open>k\<close> or a repetition of an earlier one.
\<close>

fun schedule :: "nat \<Rightarrow> nat \<Rightarrow> nat list \<Rightarrow> bool" where
  "schedule n k [] = (k = n)"
| "schedule n k (j # js) = (if j = k then k < n \<and> schedule n (Suc k) js else j < k \<and> schedule n k js)"

lemma schedule_le: "schedule n k js \<Longrightarrow> k \<le> n"
  by (induction js arbitrary: k) (auto split: if_splits)

lemma schedule_in_order: "k \<le> n \<Longrightarrow> schedule n k [k..<n]"
proof (induction "n - k" arbitrary: k)
  case (Suc m)
  then have "[k..<n] = k # [Suc k..<n]" by (simp add: upt_conv_Cons)
  then show ?case using Suc by simp
qed simp

definition take_chunk :: "u32 \<Rightarrow> bytes \<Rightarrow> nat \<Rightarrow> transfer_receiver \<Rightarrow> transfer_receiver" where
  "take_chunk t img j r = fst (receiver_chunk (chunk_as_borrowed (sent_chunk t img j)) r)"

lemma chunks_received:
  "holds_chunks b img k r \<Longrightarrow> schedule (chunk_count img) k js \<Longrightarrow>
   holds_chunks b img (chunk_count img) (run (take_chunk (pb_transfer_id b) img) js r)"
proof (induction js arbitrary: k r)
  case (Cons j js)
  have k: "k \<le> chunk_count img" using Cons.prems(2) schedule_le by blast
  show ?case
  proof (cases "j = k")
    case True
    then have kn: "k < chunk_count img" using Cons.prems(2) by simp
    then obtain r' where "receiver_chunk (chunk_of (pb_transfer_id b) img k) r = (r', Inr PcAppended)" "holds_chunks b img (Suc k) r'"
      using chunk_appended[OF Cons.prems(1)] by blast
    then show ?thesis using Cons.IH[of "Suc k" r'] Cons.prems(2) True sent_chunk[OF kn] by (simp add: take_chunk_def)
  next
    case False
    then have j: "j < k" "schedule (chunk_count img) k js" using Cons.prems(2) by simp_all
    have "take_chunk (pb_transfer_id b) img j r = r"
      using chunk_repeated[OF Cons.prems(1) j(1) k] sent_chunk[of j img] j(1) k by (simp add: take_chunk_def)
    then show ?thesis using Cons.IH[OF Cons.prems(1) j(2)] by simp
  qed
qed simp

lemma transfer_commits:
  assumes enc: "transfer_encoder_new t h img = Inr e" and ok: "validate_mirror_image img = Inr plan"
    and idle: "rx_active r = None" "rx_committed r = None" "length img \<le> length (rx_staging r)"
    and js: "schedule (chunk_count img) 0 js"
  obtains r1 r3 where "receiver_begin (te_begin e) r = (r1, Inr ())"
    "receiver_commit t (run (take_chunk t img) js r1) =
       (r3, \<lparr>pr_transfer_id = t, pr_profile_hash = h, pr_status = PsAccepted, pr_reject_reason = 0, pr_detail = 0\<rparr>)"
    "receiver_committed r3 = Some (\<lparr>cp_transfer_id = t, cp_profile_hash = h, cp_profile_length = length img\<rparr>, img)"
proof -
  have img: "img \<noteq> []" "length img \<le> HSMI_MAX_SIZE" "te_begin e = \<lparr>pb_transfer_id = t, pb_total_length = of_nat (length img), pb_crc32 = crc32_ieee img, pb_profile_hash = h\<rparr>"
    using enc by (auto simp: transfer_encoder_new_def split: if_splits)
  let ?b = "te_begin e" let ?r1 = "r\<lparr>rx_active := Some \<lparr>ts_begin = ?b, ts_next_offset = 0\<rparr>\<rparr>"
  have n: "unat (pb_total_length ?b) = length img" using img(2) by (simp add: img(3) unat_of_nat_small HSMI_MAX_SIZE_def)
  have b: "receiver_begin ?b r = (?r1, Inr ())" using idle img(1,2) n by (simp add: receiver_begin_def)
  have "holds_chunks ?b img 0 ?r1" using idle img(2) n by (simp add: holds_chunks_def chunk_start_def)
  from chunks_received[OF this js] have "holds_chunks ?b img (chunk_count img) (run (take_chunk t img) js ?r1)" by (simp add: img(3))
  then have r2: "rx_active (run (take_chunk t img) js ?r1) = Some \<lparr>ts_begin = ?b, ts_next_offset = length img\<rparr>"
      "take (length img) (rx_staging (run (take_chunk t img) js ?r1)) = img"
    by (simp_all add: holds_chunks_def chunk_start_end(1))
  let ?r3 = "(run (take_chunk t img) js ?r1)\<lparr>rx_active := None, rx_committed := Some \<lparr>cp_transfer_id = t, cp_profile_hash = h, cp_profile_length = length img\<rparr>\<rparr>"
  have "receiver_commit t (run (take_chunk t img) js ?r1) =
       (?r3, \<lparr>pr_transfer_id = t, pr_profile_hash = h, pr_status = PsAccepted, pr_reject_reason = 0, pr_detail = 0\<rparr>)"
    using ok r2 n by (simp add: receiver_commit_def Let_def img(3))
  moreover have "receiver_committed ?r3 = Some (\<lparr>cp_transfer_id = t, cp_profile_hash = h, cp_profile_length = length img\<rparr>, img)"
    using r2(2) by (simp add: receiver_committed_def)
  ultimately show thesis using that b by blast
qed

lemma capture_Inr:
  assumes "capture_mirror_profile c out = (out', Inr cap)"
  obtains s plan where "serialize_mirror_image s out = (out', Inr (cm_image_length cap))" "validate_mirror_image (take (cm_image_length cap) out') = Inr plan"
    "s = \<lparr>ms_flags = mc_flags c, ms_device_descriptor = mc_device_descriptor c, ms_configuration_descriptor = mc_configuration_descriptor c,
          ms_bos_descriptor = mc_bos_descriptor c, ms_strings = mc_strings c, ms_hid_reports = mc_hid_reports c\<rparr>"
    "cm_profile_hash cap = crc32_ieee (take (cm_image_length cap) out')"
  using assms by (auto simp: capture_mirror_profile_def Let_def split: if_splits sum.splits prod.splits)

lemma validated_fields:
  assumes "validate_mirror_image bs = Inr plan"
  obtains im where "parse_mirror_image bs = Inr im" "up_device_descriptor plan = mi_device_descriptor im"
    "up_configuration_descriptor plan = mi_configuration_descriptor im" "up_bos_descriptor plan = mi_bos_descriptor im"
    "up_strings plan = image_string_table im" "up_hid_reports plan = image_hid_report_table im"
  using assms by (auto simp: validate_mirror_image_def validate_parsed_image_def validate_configuration_def Let_def bindE_Inr_iff simp del: from_le.simps
      split: sum.splits if_splits)

lemma captured_image:
  assumes "capture_mirror_profile c out = (out', Inr cap)"
  obtains plan where "validate_mirror_image (take (cm_image_length cap) out') = Inr plan" "up_device_descriptor plan = mc_device_descriptor c"
    "up_configuration_descriptor plan = mc_configuration_descriptor c" "up_bos_descriptor plan = mc_bos_descriptor c"
    "string_records (tb_string_records (up_strings plan)) (tb_string_count (up_strings plan)) = mc_strings c"
    "hid_report_records (tb_report_records (up_hid_reports plan)) (tb_report_count (up_hid_reports plan)) = mc_hid_reports c"
    "length (take (cm_image_length cap) out') = cm_image_length cap" "32 \<le> cm_image_length cap" "cm_image_length cap \<le> HSMI_MAX_SIZE"
    "cm_profile_hash cap = crc32_ieee (take (cm_image_length cap) out')"
proof -
  obtain s plan where c: "serialize_mirror_image s out = (out', Inr (cm_image_length cap))" "validate_mirror_image (take (cm_image_length cap) out') = Inr plan"
    "s = \<lparr>ms_flags = mc_flags c, ms_device_descriptor = mc_device_descriptor c, ms_configuration_descriptor = mc_configuration_descriptor c,
          ms_bos_descriptor = mc_bos_descriptor c, ms_strings = mc_strings c, ms_hid_reports = mc_hid_reports c\<rparr>"
    and hash: "cm_profile_hash cap = crc32_ieee (take (cm_image_length cap) out')" by (rule capture_Inr[OF assms])
  note ok = serialize_Inr[OF c(1)] note ser = serialize_ok[OF ok]
  have n: "cm_image_length cap = HSMI_HEADER_LEN + length (source_body s)" and bs: "take (cm_image_length cap) out' = image_bytes s (image_checksum s)"
    using c(1) ser by auto
  obtain im where v: "parse_mirror_image (take (cm_image_length cap) out') = Inr im" and
      p: "up_device_descriptor plan = mi_device_descriptor im" "up_configuration_descriptor plan = mi_configuration_descriptor im"
      "up_bos_descriptor plan = mi_bos_descriptor im" "up_strings plan = image_string_table im" "up_hid_reports plan = image_hid_report_table im"
    by (rule validated_fields[OF c(2)])
  have im: "im = image_of_source s" using v parse_image[OF ok(1)] by (simp add: bs)
  have src: "image_strings im = mc_strings c" "image_hid_reports im = mc_hid_reports c"
    using image_source_of[OF ok(1)] unfolding im c(3) by (metis image_source_def mirror_image_source.select_convs)+
  show thesis
    by (rule that[OF c(2)]; use p src ok(1) n bs hash in \<open>simp add: im image_of_source_def c(3) image_string_table_def image_hid_report_table_def
      image_strings_def image_hid_reports_def source_ok_def hsmi_sizes\<close>)
qed

section \<open>Only validated images are committed\<close>

datatype receiver_op = RoBegin profile_begin | RoChunk profile_chunk | RoCommit u32 | RoClear | RoCancel

fun receiver_step :: "receiver_op \<Rightarrow> transfer_receiver \<Rightarrow> transfer_receiver" where
  "receiver_step (RoBegin b) r = fst (receiver_begin b r)"
| "receiver_step (RoChunk c) r = fst (receiver_chunk c r)"
| "receiver_step (RoCommit t) r = fst (receiver_commit t r)"
| "receiver_step RoClear r = receiver_clear_committed r"
| "receiver_step RoCancel r = receiver_cancel r"

definition receiver_inv :: "transfer_receiver \<Rightarrow> bool" where
  "receiver_inv r =
     ((\<forall>st. rx_active r = Some st \<longrightarrow> rx_committed r = None \<and> ts_next_offset st \<le> unat (pb_total_length (ts_begin st)) \<and>
         unat (pb_total_length (ts_begin st)) \<le> length (rx_staging r) \<and> unat (pb_total_length (ts_begin st)) \<le> HSMI_MAX_SIZE) \<and>
      (\<forall>c. rx_committed r = Some c \<longrightarrow> cp_profile_length c \<le> length (rx_staging r) \<and>
         (\<exists>plan. validate_mirror_image (take (cp_profile_length c) (rx_staging r)) = Inr plan)))"

lemma receiver_chunk_inv:
  assumes "receiver_inv r"
  shows "receiver_inv (fst (receiver_chunk c r))"
proof (cases "rx_active r")
  case (Some st)
  have i: "rx_committed r = None" "ts_next_offset st \<le> unat (pb_total_length (ts_begin st))" "unat (pb_total_length (ts_begin st)) \<le> length (rx_staging r)"
    "unat (pb_total_length (ts_begin st)) \<le> HSMI_MAX_SIZE" using assms Some by (auto simp: receiver_inv_def)
  then show ?thesis using Some assms
    by (auto simp: receiver_chunk_def receiver_inv_def Let_def usize_checked_add_def write_at_def split: option.splits)
qed (use assms in \<open>simp add: receiver_chunk_def\<close>)

lemma receiver_commit_inv:
  assumes "receiver_inv r"
  shows "receiver_inv (fst (receiver_commit t r))"
  using assms by (auto simp: receiver_commit_def receiver_inv_def Let_def split: option.splits sum.splits)

interpretation receiver: op_system receiver_step "\<lambda>_. True" receiver_inv
proof
  fix r x
  assume inv: "receiver_inv r"
  show "receiver_inv (receiver_step x r)"
  proof (cases x)
    case (RoBegin b) then show ?thesis using inv by (auto simp: receiver_begin_def receiver_inv_def Let_def)
  next
    case (RoChunk c) then show ?thesis using receiver_chunk_inv[OF inv] by simp
  next
    case (RoCommit t) then show ?thesis using receiver_commit_inv[OF inv] by simp
  qed (use inv in \<open>auto simp: receiver_inv_def receiver_clear_committed_def receiver_cancel_def\<close>)
qed

lemma receiver_new_inv: "receiver_inv (receiver_new staging)"
  by (simp add: receiver_inv_def receiver_new_def)

lemma committed_stable:
  assumes "receiver_inv r" "rx_committed r \<noteq> None" "x \<noteq> RoClear"
  shows "receiver_step x r = r"
proof -
  have "rx_active r = None" using assms(1,2) by (auto simp: receiver_inv_def)
  then show ?thesis using assms(2,3) by (cases x) (auto simp: receiver_begin_def receiver_chunk_def receiver_commit_def receiver_cancel_def)
qed

text \<open>
  C25: Only validated images are committed. Whatever begins, chunks, commits, cancellations and
  clearings a receiver has seen, a committed profile lies within the staging area and passes the
  validator, and it does not change until it is cleared.
\<close>

theorem only_valid_committed:
  assumes "receiver_committed (run receiver_step ops (receiver_new staging)) = Some (c, img)" "x \<noteq> RoClear"
  shows "(\<exists>plan. validate_mirror_image img = Inr plan) \<and> length img = cp_profile_length c \<and>
    receiver_committed (receiver_step x (run receiver_step ops (receiver_new staging))) = Some (c, img)"
proof -
  let ?r = "run receiver_step ops (receiver_new staging)"
  have inv: "receiver_inv ?r" using receiver.run_inv[OF receiver_new_inv] by (simp add: list_all_iff)
  have "rx_committed ?r \<noteq> None" using assms(1) by (auto simp: receiver_committed_def)
  then show ?thesis using committed_stable[OF inv _ assms(2)] inv assms(1) by (auto simp: receiver_committed_def receiver_inv_def)
qed

text \<open>
  C26: A captured profile arrives. When the capture of a device succeeds, its image can be sent to
  a receiver that is idle and has room for it: the encoder's chunks, delivered in order and
  with any repetition of earlier ones, are accepted and committed under the captured hash, the
  committed bytes are the captured image, and the plan made from them has exactly the captured
  device's descriptors, strings and report descriptors.
\<close>

theorem captured_profile_arrives:
  assumes "capture_mirror_profile c out = (out', Inr cap)" "rx_active r = None" "rx_committed r = None" "HSMI_MAX_SIZE \<le> length (rx_staging r)"
    "schedule (chunk_count (take (cm_image_length cap) out')) 0 js"
  shows "\<exists>e r1 r3 plan. transfer_encoder_new t (cm_profile_hash cap) (take (cm_image_length cap) out') = Inr e \<and>
    drain transfer_encoder_next (cm_image_length cap + 3) e =
      PtBegin (te_begin e) # map (\<lambda>j. PtChunk (sent_chunk t (take (cm_image_length cap) out') j)) [0..<chunk_count (take (cm_image_length cap) out')] @ [PtCommit t] \<and>
    receiver_begin (te_begin e) r = (r1, Inr ()) \<and>
    receiver_commit t (run (take_chunk t (take (cm_image_length cap) out')) js r1) =
      (r3, \<lparr>pr_transfer_id = t, pr_profile_hash = cm_profile_hash cap, pr_status = PsAccepted, pr_reject_reason = 0, pr_detail = 0\<rparr>) \<and>
    receiver_committed r3 = Some (\<lparr>cp_transfer_id = t, cp_profile_hash = cm_profile_hash cap, cp_profile_length = cm_image_length cap\<rparr>, take (cm_image_length cap) out') \<and>
    validate_mirror_image (take (cm_image_length cap) out') = Inr plan \<and>
    up_device_descriptor plan = mc_device_descriptor c \<and> up_configuration_descriptor plan = mc_configuration_descriptor c \<and> up_bos_descriptor plan = mc_bos_descriptor c \<and>
    string_records (tb_string_records (up_strings plan)) (tb_string_count (up_strings plan)) = mc_strings c \<and>
    hid_report_records (tb_report_records (up_hid_reports plan)) (tb_report_count (up_hid_reports plan)) = mc_hid_reports c"
proof -
  let ?img = "take (cm_image_length cap) out'"
  obtain plan where p: "validate_mirror_image ?img = Inr plan" "up_device_descriptor plan = mc_device_descriptor c"
    "up_configuration_descriptor plan = mc_configuration_descriptor c" "up_bos_descriptor plan = mc_bos_descriptor c"
    "string_records (tb_string_records (up_strings plan)) (tb_string_count (up_strings plan)) = mc_strings c"
    "hid_report_records (tb_report_records (up_hid_reports plan)) (tb_report_count (up_hid_reports plan)) = mc_hid_reports c"
    and n: "length ?img = cm_image_length cap" "32 \<le> cm_image_length cap" "cm_image_length cap \<le> HSMI_MAX_SIZE"
    by (rule captured_image[OF assms(1)]) blast
  have "?img \<noteq> []" "\<not> HSMI_MAX_SIZE < length ?img" using n(2,3) unfolding n(1) by (metis n(1) list.size(3) not_numeral_le_zero, simp)
  then obtain e where e: "transfer_encoder_new t (cm_profile_hash cap) ?img = Inr e" by (simp add: transfer_encoder_new_def)
  have cnt: "chunk_count ?img \<le> cm_image_length cap"
    using n(1) chunk_count_less[of "cm_image_length cap" ?img] by (simp add: PROFILE_CHUNK_MAX_DATA_LEN_def not_less)
  have len: "length ?img \<le> length (rx_staging r)" using n(1,3) assms(4) by simp
  obtain r1 r3 where r: "receiver_begin (te_begin e) r = (r1, Inr ())"
    "receiver_commit t (run (take_chunk t ?img) js r1) =
       (r3, \<lparr>pr_transfer_id = t, pr_profile_hash = cm_profile_hash cap, pr_status = PsAccepted, pr_reject_reason = 0, pr_detail = 0\<rparr>)"
    "receiver_committed r3 = Some (\<lparr>cp_transfer_id = t, cp_profile_hash = cm_profile_hash cap, cp_profile_length = length ?img\<rparr>, ?img)"
    by (rule transfer_commits[OF e p(1) assms(2,3) len assms(5)])
  show ?thesis
    by (rule exI[of _ e], rule exI[of _ r1], rule exI[of _ r3], rule exI[of _ plan], intro conjI)
      (rule e encoder_commands[OF e] r(1,2) r(3)[unfolded n(1)] p; use cnt in simp)+
qed

definition sample_capture :: mirror_capture_source where
  "sample_capture = \<lparr>mc_flags = 0, mc_device_descriptor = sample_device, mc_configuration_descriptor = sample_config, mc_bos_descriptor = [],
     mc_strings = ms_strings sample_image_profile, mc_hid_reports = ms_hid_reports sample_image_profile, mc_port_path = [1]\<rparr>"

lemma sample_captured:
  "\<exists>cap. capture_mirror_profile sample_capture (replicate 98 0) = (sample_bytes, Inr cap) \<and> cm_image_length cap = 98 \<and> cm_profile_hash cap = crc32_ieee sample_bytes"
proof -
  obtain plan where v: "validate_mirror_image sample_bytes = Inr plan" using sample_accepted by blast
  have len: "length sample_bytes = 98" using sample_profile_ok(2) by (simp add: sample_bytes_def)
  have s: "serialize_mirror_image sample_image_profile (replicate 98 0) = (sample_bytes, Inr 98)"
    using serialize_ok[OF sample_profile_ok(1), of "replicate 98 0"] sample_profile_ok(2) by (simp add: sample_bytes_def)
  have src: "\<lparr>ms_flags = 0, ms_device_descriptor = sample_device, ms_configuration_descriptor = sample_config, ms_bos_descriptor = [],
      ms_strings = ms_strings sample_image_profile, ms_hid_reports = ms_hid_reports sample_image_profile\<rparr> = sample_image_profile" by (simp add: sample_image_profile_def)
  obtain i where i: "mirror_stable_id_new (from_le [sample_device ! 8, sample_device ! 9]) (from_le [sample_device ! 10, sample_device ! 11])
      (map_option (\<lambda>r. crc32_ieee (sr_descriptor r)) (find (\<lambda>r. sr_index r = sample_device ! 16 \<and> sample_device ! 16 \<noteq> 0) (ms_strings sample_image_profile)))
      (capture_fingerprint sample_capture) [1] = Inr i"
    by (simp add: mirror_stable_id_new_def MIRROR_PORT_PATH_MAX_LEN_def)
  have d: "length sample_device = 18" "sample_device ! 1 = 1" by (simp_all add: sample_device_def)
  show ?thesis unfolding capture_mirror_profile_def Let_def
    using i s src v len d by (simp add: sample_capture_def)
qed

theorem captured_profile_arrives_witness:
  "\<exists>(e :: profile_transfer_encoder) r1 r3. receiver_begin (te_begin e) (receiver_new (replicate HSMI_MAX_SIZE 0)) = (r1, Inr ()) \<and>
     receiver_committed r3 = Some (\<lparr>cp_transfer_id = 7, cp_profile_hash = crc32_ieee sample_bytes, cp_profile_length = 98\<rparr>, sample_bytes)"
proof -
  obtain cap where c: "capture_mirror_profile sample_capture (replicate 98 0) = (sample_bytes, Inr cap)" "cm_image_length cap = 98" "cm_profile_hash cap = crc32_ieee sample_bytes"
    using sample_captured by blast
  have t: "take 98 sample_bytes = sample_bytes" using sample_profile_ok(2) by (simp add: sample_bytes_def)
  have "schedule (chunk_count sample_bytes) 0 ([0..<chunk_count sample_bytes])" by (rule schedule_in_order) simp
  moreover have "rx_active (receiver_new (replicate HSMI_MAX_SIZE 0)) = None" "rx_committed (receiver_new (replicate HSMI_MAX_SIZE 0)) = None"
      "HSMI_MAX_SIZE \<le> length (rx_staging (receiver_new (replicate HSMI_MAX_SIZE 0)))" by (simp_all add: receiver_new_def)
  ultimately show ?thesis
    using captured_profile_arrives[OF c(1), of "receiver_new (replicate HSMI_MAX_SIZE 0)" "[0..<chunk_count sample_bytes]" 7] unfolding c(2,3) t by blast
qed

theorem only_valid_committed_witness:
  "\<exists>ops c img. receiver_committed (run receiver_step ops (receiver_new sample_bytes)) = Some (c, img) \<and> (\<exists>plan. validate_mirror_image img = Inr plan)"
proof -
  obtain plan where v: "validate_mirror_image sample_bytes = Inr plan" using sample_accepted by blast
  have n: "length sample_bytes = 98" using sample_profile_ok(2) by (simp add: sample_bytes_def)
  have "sample_bytes \<noteq> []" using n by auto
  then obtain e where e: "transfer_encoder_new 7 9 sample_bytes = Inr e" using n by (auto simp: transfer_encoder_new_def HSMI_MAX_SIZE_def)
  have "rx_active (receiver_new sample_bytes) = None" "rx_committed (receiver_new sample_bytes) = None" "length sample_bytes \<le> length (rx_staging (receiver_new sample_bytes))"
      "schedule (chunk_count sample_bytes) 0 [0..<chunk_count sample_bytes]" by (simp_all add: receiver_new_def schedule_in_order)
  then obtain r1 r3 where r: "receiver_begin (te_begin e) (receiver_new sample_bytes) = (r1, Inr ())"
      "receiver_commit 7 (run (take_chunk 7 sample_bytes) [0..<chunk_count sample_bytes] r1) =
       (r3, \<lparr>pr_transfer_id = 7, pr_profile_hash = 9, pr_status = PsAccepted, pr_reject_reason = 0, pr_detail = 0\<rparr>)"
      "receiver_committed r3 = Some (\<lparr>cp_transfer_id = 7, cp_profile_hash = 9, cp_profile_length = length sample_bytes\<rparr>, sample_bytes)"
    by (rule transfer_commits[OF e v])
  let ?ops = "RoBegin (te_begin e) # map (\<lambda>j. RoChunk (chunk_as_borrowed (sent_chunk 7 sample_bytes j))) [0..<chunk_count sample_bytes] @ [RoCommit 7]"
  have chunks: "run receiver_step (map (\<lambda>j. RoChunk (chunk_as_borrowed (sent_chunk 7 sample_bytes j))) js) r = run (take_chunk 7 sample_bytes) js r" for js r
    by (induction js arbitrary: r) (simp_all add: take_chunk_def)
  have "run receiver_step ?ops (receiver_new sample_bytes) = r3" using r(1,2) by (simp add: chunks)
  then have "receiver_committed (run receiver_step ?ops (receiver_new sample_bytes)) = Some (\<lparr>cp_transfer_id = 7, cp_profile_hash = 9, cp_profile_length = length sample_bytes\<rparr>, sample_bytes)"
    using r(3) by simp
  with only_valid_committed[OF this, of RoCancel] show ?thesis by blast
qed

end
