(* ===== verification/HS_ProfileStore.thy ===== *)
theory HS_ProfileStore
  imports HS_MirrorImage
begin

unbundle bit_operations_syntax

text \<open>
  The two-slot store of mirror profiles in flash (\<open>mirror/store.rs\<close>). The flash back end is a
  trait of the source with implementations outside the core; it is a parameter here, and the
  theorems assume what the trait's users rely on: a read returns what is there, nothing outside
  the range of a write or an erase changes, whether it succeeds or not, a successful erase
  leaves \<open>0xff\<close> and a successful write clears bits as a NOR flash does.
\<close>

section \<open>The store\<close>

definition MIRROR_PROFILE_PARTITION_LEN :: nat where "MIRROR_PROFILE_PARTITION_LEN = 0x10000"
definition METADATA_SECTOR_LEN :: nat where "METADATA_SECTOR_LEN = 0x1000"
definition PROFILE_SLOT_LEN :: nat where "PROFILE_SLOT_LEN = 0x6000"
definition METADATA_A_OFFSET :: nat where "METADATA_A_OFFSET = 0x0000"
definition METADATA_B_OFFSET :: nat where "METADATA_B_OFFSET = 0x1000"
definition PROFILE_A_OFFSET :: nat where "PROFILE_A_OFFSET = 0x2000"
definition PROFILE_B_OFFSET :: nat where "PROFILE_B_OFFSET = 0x8000"
definition METADATA_LEN :: nat where "METADATA_LEN = 32"
definition METADATA_MAGIC :: bytes where "METADATA_MAGIC = [0x48, 0x53, 0x50, 0x46]"
definition METADATA_VERSION :: u16 where "METADATA_VERSION = 1"
definition COMMIT_MARKER :: u32 where "COMMIT_MARKER = 0x4853434d"

lemmas store_sizes = MIRROR_PROFILE_PARTITION_LEN_def METADATA_SECTOR_LEN_def PROFILE_SLOT_LEN_def METADATA_A_OFFSET_def
  METADATA_B_OFFSET_def PROFILE_A_OFFSET_def PROFILE_B_OFFSET_def METADATA_LEN_def

record ('f, 'e) profile_backend =
  be_read :: "'f \<Rightarrow> nat \<Rightarrow> nat \<Rightarrow> ('f, 'e, bytes) outcome"
  be_erase :: "'f \<Rightarrow> nat \<Rightarrow> nat \<Rightarrow> ('f, 'e, unit) outcome"
  be_write :: "'f \<Rightarrow> nat \<Rightarrow> bytes \<Rightarrow> ('f, 'e, unit) outcome"

datatype profile_slot = ProfileSlotA | ProfileSlotB

fun profile_slot_other :: "profile_slot \<Rightarrow> profile_slot" where
  "profile_slot_other ProfileSlotA = ProfileSlotB"
| "profile_slot_other ProfileSlotB = ProfileSlotA"

fun metadata_offset :: "profile_slot \<Rightarrow> nat" where
  "metadata_offset ProfileSlotA = METADATA_A_OFFSET"
| "metadata_offset ProfileSlotB = METADATA_B_OFFSET"

fun profile_offset :: "profile_slot \<Rightarrow> nat" where
  "profile_offset ProfileSlotA = PROFILE_A_OFFSET"
| "profile_offset ProfileSlotB = PROFILE_B_OFFSET"

record stored_mirror_profile =
  sp_slot :: profile_slot
  sp_generation :: u32
  sp_profile_hash :: u32
  sp_length :: nat
  sp_crc32 :: u32

datatype profile_commit_outcome = PcStored stored_mirror_profile | PcAlreadyStored stored_mirror_profile

datatype 'e profile_store_error = PsBackend 'e | PsImageTooLarge | PsReadBackMismatch

definition encode_metadata :: "stored_mirror_profile \<Rightarrow> u32 \<Rightarrow> bytes" where
  "encode_metadata p marker =
     (let head = METADATA_MAGIC @ to_le 2 METADATA_VERSION @ [0, 0] @ to_le 4 (sp_generation p) @ to_le 4 (sp_profile_hash p) @
                 to_le 4 (of_nat (sp_length p) :: u32) @ to_le 4 (sp_crc32 p) in
      head @ to_le 4 (crc32_ieee head) @ to_le 4 marker)"

definition decode_metadata :: "profile_slot \<Rightarrow> bytes \<Rightarrow> stored_mirror_profile option" where
  "decode_metadata slot bs =
     (if subslice 0 4 bs \<noteq> METADATA_MAGIC \<or> (from_le [bs ! 4, bs ! 5] :: u16) \<noteq> METADATA_VERSION \<or> subslice 6 8 bs \<noteq> [0, 0]
         \<or> (from_le (subslice 28 32 bs) :: u32) \<noteq> COMMIT_MARKER \<or> (from_le (subslice 24 28 bs) :: u32) \<noteq> crc32_ieee (take 24 bs)
      then None
      else let len = unat (from_le (subslice 16 20 bs) :: u32) in
        if len = 0 \<or> HSMI_MAX_SIZE < len \<or> PROFILE_SLOT_LEN < len then None
        else Some \<lparr>sp_slot = slot, sp_generation = from_le (subslice 8 12 bs), sp_profile_hash = from_le (subslice 12 16 bs),
                   sp_length = len, sp_crc32 = from_le (subslice 20 24 bs)\<rparr>)"

definition profile_generation_is_newer_or_equal :: "u32 \<Rightarrow> u32 \<Rightarrow> bool" where
  "profile_generation_is_newer_or_equal l r = (l - r < 0x80000000)"

definition map_backend :: "('f, 'e, 'a) outcome \<Rightarrow> ('f, 'e profile_store_error, 'a) outcome" where
  "map_backend r = (case r of (f, Inl e) \<Rightarrow> (f, Inl (PsBackend e)) | (f, Inr x) \<Rightarrow> (f, Inr x))"

definition read_metadata :: "('f, 'e) profile_backend \<Rightarrow> profile_slot \<Rightarrow> 'f \<Rightarrow> ('f, 'e profile_store_error, stored_mirror_profile option) outcome" where
  "read_metadata be slot f =
     andThen (map_backend (be_read be f (metadata_offset slot) METADATA_LEN)) (\<lambda>bs f. (f, Inr (decode_metadata slot bs)))"

definition newest :: "stored_mirror_profile option \<Rightarrow> stored_mirror_profile option \<Rightarrow> stored_mirror_profile option" where
  "newest a b =
     (case (a, b) of
        (Some pa, Some pb) \<Rightarrow> Some (if profile_generation_is_newer_or_equal (sp_generation pa) (sp_generation pb) then pa else pb)
      | (Some p, None) \<Rightarrow> Some p
      | (None, Some p) \<Rightarrow> Some p
      | (None, None) \<Rightarrow> None)"

definition store_active :: "('f, 'e) profile_backend \<Rightarrow> 'f \<Rightarrow> ('f, 'e profile_store_error, stored_mirror_profile option) outcome" where
  "store_active be f =
     andThen (read_metadata be ProfileSlotA f) (\<lambda>a f. andThen (read_metadata be ProfileSlotB f) (\<lambda>b f. (f, Inr (newest a b))))"

definition store_find :: "('f, 'e) profile_backend \<Rightarrow> u32 \<Rightarrow> 'f \<Rightarrow> ('f, 'e profile_store_error, stored_mirror_profile option) outcome" where
  "store_find be profile_hash f =
     andThen (read_metadata be ProfileSlotA f) (\<lambda>a f. andThen (read_metadata be ProfileSlotB f) (\<lambda>b f.
       (f, Inr (find (\<lambda>p. sp_profile_hash p = profile_hash) (List.map_filter id [a, b])))))"

text \<open>The caller's buffer is part of the state.\<close>

definition store_read_profile ::
  "('f, 'e) profile_backend \<Rightarrow> stored_mirror_profile \<Rightarrow> 'f \<times> bytes \<Rightarrow> ('f \<times> bytes, 'e profile_store_error, unit) outcome" where
  "store_read_profile be p s =
     (case s of (f, out) \<Rightarrow>
        if length out < sp_length p then (s, Inl PsImageTooLarge)
        else case map_backend (be_read be f (profile_offset (sp_slot p)) (sp_length p)) of
            (f, Inl e) \<Rightarrow> ((f, out), Inl e)
          | (f, Inr bs) \<Rightarrow>
              if crc32_ieee bs \<noteq> sp_crc32 p then ((f, write_at 0 bs out), Inl PsReadBackMismatch)
              else ((f, write_at 0 bs out), Inr ()))"

function read_back :: "('f, 'e) profile_backend \<Rightarrow> nat \<Rightarrow> nat \<Rightarrow> nat \<Rightarrow> u32 \<Rightarrow> 'f \<Rightarrow> ('f, 'e profile_store_error, u32) outcome" where
  "read_back be base len offset crc f =
     (if offset < len then
        (let n = min (len - offset) 256 in
         case map_backend (be_read be f (base + offset) n) of
           (f', Inl e) \<Rightarrow> (f', Inl e)
         | (f', Inr bs) \<Rightarrow> read_back be base len (offset + n) (crc32_update crc bs) f')
      else (f, Inr crc))"
  by pat_completeness auto
termination by (relation "measure (\<lambda>(_, _, len, offset, _, _). len - offset)") auto

declare read_back.simps [simp del]

definition write_profile :: "('f, 'e) profile_backend \<Rightarrow> profile_slot \<Rightarrow> bytes \<Rightarrow> 'f \<Rightarrow> ('f, 'e profile_store_error, unit) outcome" where
  "write_profile be slot img f =
     andThen (map_backend (be_erase be f (profile_offset slot) PROFILE_SLOT_LEN)) (\<lambda>_ f.
     andThen (map_backend (be_write be f (profile_offset slot) img)) (\<lambda>_ f.
     andThen (read_back be (profile_offset slot) (length img) 0 crc32_new f) (\<lambda>crc f.
       if crc32_finalize crc \<noteq> crc32_ieee img then (f, Inl PsReadBackMismatch) else (f, Inr ()))))"

definition write_metadata :: "('f, 'e) profile_backend \<Rightarrow> stored_mirror_profile \<Rightarrow> 'f \<Rightarrow> ('f, 'e profile_store_error, unit) outcome" where
  "write_metadata be p f =
     (let metadata = encode_metadata p (-1); off = metadata_offset (sp_slot p) in
      andThen (map_backend (be_erase be f off METADATA_SECTOR_LEN)) (\<lambda>_ f.
      andThen (map_backend (be_write be f off (take 28 metadata))) (\<lambda>_ f.
      map_backend (be_write be f (off + 28) (to_le 4 COMMIT_MARKER)))))"

definition store_commit ::
  "('f, 'e) profile_backend \<Rightarrow> bytes \<Rightarrow> u32 \<Rightarrow> 'f \<Rightarrow> ('f, 'e profile_store_error, profile_commit_outcome) outcome" where
  "store_commit be img profile_hash f =
     (if img = [] \<or> HSMI_MAX_SIZE < length img \<or> PROFILE_SLOT_LEN < length img then (f, Inl PsImageTooLarge)
      else andThen (store_active be f) (\<lambda>active f.
        let image_crc = crc32_ieee img;
            fresh = (let slot = (case active of None \<Rightarrow> ProfileSlotA | Some p \<Rightarrow> profile_slot_other (sp_slot p));
                         generation = (case active of None \<Rightarrow> 1 | Some p \<Rightarrow> sp_generation p + 1);
                         profile = \<lparr>sp_slot = slot, sp_generation = generation, sp_profile_hash = profile_hash,
                                    sp_length = length img, sp_crc32 = image_crc\<rparr> in
                     andThen (write_profile be slot img f) (\<lambda>_ f.
                     andThen (write_metadata be profile f) (\<lambda>_ f. (f, Inr (PcStored profile))))) in
        case active of
          Some p \<Rightarrow> if sp_profile_hash p = profile_hash \<and> sp_length p = length img \<and> sp_crc32 p = image_crc
                    then (f, Inr (PcAlreadyStored p)) else fresh
        | None \<Rightarrow> fresh))"

section \<open>What the back end promises\<close>

definition same_outside :: "nat \<Rightarrow> nat \<Rightarrow> bytes \<Rightarrow> bytes \<Rightarrow> bool" where
  "same_outside off n xs ys = (length ys = length xs \<and> (\<forall>k < length xs. k < off \<or> off + n \<le> k \<longrightarrow> ys ! k = xs ! k))"

definition backend_ok :: "('f, 'e) profile_backend \<Rightarrow> ('f \<Rightarrow> bytes) \<Rightarrow> bool" where
  "backend_ok be c =
     ((\<forall>f off n f' r. be_read be f off n = (f', r) \<longrightarrow> c f' = c f \<and> (\<forall>bs. r = Inr bs \<longrightarrow> bs = subslice off (off + n) (c f))) \<and>
      (\<forall>f off n f' r. be_erase be f off n = (f', r) \<longrightarrow> same_outside off n (c f) (c f') \<and>
         (r = Inr () \<longrightarrow> (\<forall>k < length (c f). off \<le> k \<and> k < off + n \<longrightarrow> c f' ! k = 0xff))) \<and>
      (\<forall>f off bs f' r. be_write be f off bs = (f', r) \<longrightarrow> same_outside off (length bs) (c f) (c f') \<and>
         (r = Inr () \<longrightarrow> (\<forall>j < length bs. off + j < length (c f) \<longrightarrow> c f' ! (off + j) = c f ! (off + j) AND bs ! j))))"

lemma map_backend_iff:
  "map_backend r = (f, Inr x) \<longleftrightarrow> r = (f, Inr x)" "map_backend r = (f, Inl e) \<longleftrightarrow> (\<exists>b. r = (f, Inl b) \<and> e = PsBackend b)"
  by (auto simp: map_backend_def split: prod.splits sum.splits)

lemma same_outside_refl: "same_outside off n xs xs"
  by (simp add: same_outside_def)

lemma same_outside_trans: "same_outside a n xs ys \<Longrightarrow> same_outside b m ys zs \<Longrightarrow> off \<le> a \<Longrightarrow> a + n \<le> off + w \<Longrightarrow> off \<le> b \<Longrightarrow> b + m \<le> off + w \<Longrightarrow> same_outside off w xs zs"
  unfolding same_outside_def by auto

lemma same_outside_slice:
  assumes "same_outside off n xs ys" "hi \<le> off \<or> off + n \<le> lo" "hi \<le> length xs"
  shows "subslice lo hi ys = subslice lo hi xs"
  using assms by (intro nth_equalityI) (auto simp: same_outside_def subslice_def)

lemma backend_read:
  assumes "backend_ok be c" "map_backend (be_read be f off n) = (f', r)"
  shows "c f' = c f" "r = Inr bs \<Longrightarrow> bs = subslice off (off + n) (c f)"
  using assms unfolding backend_ok_def map_backend_def by (auto split: prod.splits sum.splits)

lemma backend_erase:
  assumes "backend_ok be c" "map_backend (be_erase be f off n) = (f', r)"
  shows "same_outside off n (c f) (c f')" "r = Inr () \<Longrightarrow> k < length (c f) \<Longrightarrow> off \<le> k \<Longrightarrow> k < off + n \<Longrightarrow> c f' ! k = 0xff"
  using assms unfolding backend_ok_def map_backend_def by (auto split: prod.splits sum.splits)

lemma backend_write:
  assumes "backend_ok be c" "map_backend (be_write be f off bs) = (f', r)"
  shows "same_outside off (length bs) (c f) (c f')"
    "r = Inr () \<Longrightarrow> j < length bs \<Longrightarrow> off + j < length (c f) \<Longrightarrow> c f' ! (off + j) = c f ! (off + j) AND bs ! j"
  using assms unfolding backend_ok_def map_backend_def by (auto split: prod.splits sum.splits)

lemma write_erased:
  assumes "backend_ok be c" "map_backend (be_write be f off bs) = (f', Inr ())" "off + length bs \<le> length (c f)"
    "\<And>k. off \<le> k \<Longrightarrow> k < off + length bs \<Longrightarrow> c f ! k = 0xff"
  shows "subslice off (off + length bs) (c f') = bs"
proof (rule nth_equalityI)
  have len: "length (c f') = length (c f)" using backend_write(1)[OF assms(1,2)] by (simp add: same_outside_def)
  then show "length (subslice off (off + length bs) (c f')) = length bs" using assms(3) by (simp add: length_subslice)
  fix j assume "j < length (subslice off (off + length bs) (c f'))"
  then have j: "j < length bs" using len assms(3) by (simp add: length_subslice)
  have "c f' ! (off + j) = 0xff AND bs ! j" using backend_write(2)[OF assms(1,2) refl j] assms(3,4) j by simp
  also have "\<dots> = bs ! j"
  proof -
    have "(0xff :: u8) = - 1" by simp
    then show ?thesis by (metis and.left_neutral)
  qed
  finally show "subslice off (off + length bs) (c f') ! j = bs ! j" using j len assms(3) by (simp add: subslice_def)
qed

lemma read_back_keeps: "backend_ok be c \<Longrightarrow> read_back be base len offset crc f = (f', r) \<Longrightarrow> c f' = c f"
proof (induction be base len offset crc f rule: read_back.induct)
  case (1 be base len offset crc f)
  show ?case
  proof (cases "offset < len")
    case True
    let ?n = "min (len - offset) 256"
    obtain g x where g: "map_backend (be_read be f (base + offset) ?n) = (g, x)" by fastforce
    have cg: "c g = c f" using backend_read(1)[OF "1.prems"(1) g] .
    show ?thesis
    proof (cases x)
      case (Inl e)
      then have "f' = g" using "1.prems"(2) True g by (subst (asm) read_back.simps) (simp add: Let_def)
      then show ?thesis using cg by simp
    next
      case (Inr bs)
      then have "read_back be base len (offset + ?n) (crc32_update crc bs) g = (f', r)"
        using "1.prems"(2) True g by (subst (asm) read_back.simps) (simp add: Let_def)
      then show ?thesis using "1.IH"[OF True refl g[symmetric] Inr "1.prems"(1)] cg by simp
    qed
  next
    case False
    then show ?thesis using "1.prems"(2) by (subst (asm) read_back.simps) simp
  qed
qed

lemma andThen_obtain:
  assumes "andThen m k = (f', r)"
  obtains g e where "m = (g, Inl e)" "f' = g" "r = Inl e" | g x where "m = (g, Inr x)" "k x g = (f', r)"
  using assms by (cases m; cases "snd m") auto

lemma write_profile_effect:
  assumes ok: "backend_ok be c" and w: "write_profile be slot img f = (f', r)" and fit: "length img \<le> PROFILE_SLOT_LEN"
    "profile_offset slot + PROFILE_SLOT_LEN \<le> length (c f)"
  shows "same_outside (profile_offset slot) PROFILE_SLOT_LEN (c f) (c f')"
    "r = Inr () \<Longrightarrow> subslice (profile_offset slot) (profile_offset slot + length img) (c f') = img"
proof -
  let ?o = "profile_offset slot"
  obtain f1 r1 where e: "map_backend (be_erase be f ?o PROFILE_SLOT_LEN) = (f1, r1)" by fastforce
  note e1 = backend_erase[OF ok e]
  obtain f2 r2 where wr: "map_backend (be_write be f1 ?o img) = (f2, r2)" by fastforce
  note w1 = backend_write[OF ok wr]
  obtain f3 r3 where rb: "read_back be ?o (length img) 0 crc32_new f2 = (f3, r3)" by fastforce
  have c3: "c f3 = c f2" by (rule read_back_keeps[OF ok rb])
  have two: "same_outside ?o PROFILE_SLOT_LEN (c f) (c f2)" using same_outside_trans[OF e1(1) w1(1), of ?o PROFILE_SLOT_LEN] fit(1) by simp
  have "f' = f1 \<and> r \<noteq> Inr () \<or> f' = f2 \<and> r \<noteq> Inr () \<or> f' = f3 \<and> (r = Inr () \<longrightarrow> r1 = Inr () \<and> r2 = Inr ())"
    using w e wr rb by (auto simp: write_profile_def elim!: andThen_obtain split: if_splits)
  then show "same_outside ?o PROFILE_SLOT_LEN (c f) (c f')" "r = Inr () \<Longrightarrow> subslice ?o (?o + length img) (c f') = img"
  proof -
    assume a: "f' = f1 \<and> r \<noteq> Inr () \<or> f' = f2 \<and> r \<noteq> Inr () \<or> f' = f3 \<and> (r = Inr () \<longrightarrow> r1 = Inr () \<and> r2 = Inr ())"
    show "same_outside ?o PROFILE_SLOT_LEN (c f) (c f')" using a e1(1) two c3 by auto
    show "subslice ?o (?o + length img) (c f') = img" if "r = Inr ()"
    proof -
      have r: "f' = f3" "r1 = Inr ()" "r2 = Inr ()" using a that by auto
      have "length (c f1) = length (c f)" using e1(1) by (simp add: same_outside_def)
      then have "subslice ?o (?o + length img) (c f2) = img"
        using e1(2)[OF r(2)] fit wr r(3) by (intro write_erased[OF ok]) auto
      then show ?thesis by (simp add: r(1) c3)
    qed
  qed
qed

definition metadata_head :: "stored_mirror_profile \<Rightarrow> bytes" where
  "metadata_head p = METADATA_MAGIC @ to_le 2 METADATA_VERSION @ [0, 0] @ to_le 4 (sp_generation p) @ to_le 4 (sp_profile_hash p) @
     to_le 4 (of_nat (sp_length p) :: u32) @ to_le 4 (sp_crc32 p)"

lemma length_metadata_head [simp]: "length (metadata_head p) = 24"
  by (simp add: metadata_head_def METADATA_MAGIC_def)

lemma encode_metadata_head: "encode_metadata p marker = metadata_head p @ to_le 4 (crc32_ieee (metadata_head p)) @ to_le 4 marker"
  by (simp add: encode_metadata_def metadata_head_def Let_def)

lemma decode_encode_metadata:
  assumes "0 < sp_length p" "sp_length p \<le> HSMI_MAX_SIZE" "sp_slot p = slot"
  shows "decode_metadata slot (encode_metadata p COMMIT_MARKER) = Some p"
proof -
  let ?bs = "encode_metadata p COMMIT_MARKER"
  obtain v0 v1 where v: "to_le 2 METADATA_VERSION = [v0, v1]" by (rule to_le_2_list)
  then have "from_le [v0, v1] = METADATA_VERSION" using from_le_2[of METADATA_VERSION] by metis
  moreover have "?bs ! 4 = v0" "?bs ! 5 = v1" using v by (simp_all add: encode_metadata_head metadata_head_def METADATA_MAGIC_def nth_append)
  ultimately have ver: "(from_le [?bs ! 4, ?bs ! 5] :: u16) = METADATA_VERSION" by simp
  have n: "unat (of_nat (sp_length p) :: u32) = sp_length p" using assms(2) by (intro unat_of_nat_small) (simp add: HSMI_MAX_SIZE_def)
  have s: "subslice 0 4 ?bs = METADATA_MAGIC" "subslice 6 8 ?bs = [0, 0]" "from_le (subslice 28 32 ?bs) = COMMIT_MARKER"
    "from_le (subslice 24 28 ?bs) = crc32_ieee (take 24 ?bs)" "from_le (subslice 16 20 ?bs) = (of_nat (sp_length p) :: u32)"
    "from_le (subslice 8 12 ?bs) = sp_generation p" "from_le (subslice 12 16 ?bs) = sp_profile_hash p" "from_le (subslice 20 24 ?bs) = sp_crc32 p"
    unfolding encode_metadata_head by (simp_all add: subslice_def)
      (simp_all add: metadata_head_def METADATA_MAGIC_def subslice_def del: to_le.simps from_le.simps)
  show ?thesis unfolding decode_metadata_def s ver Let_def n using assms by (simp add: HSMI_MAX_SIZE_def PROFILE_SLOT_LEN_def)
qed

lemma metadata_parts: "take 28 (encode_metadata p m) @ to_le 4 m' = encode_metadata p m'"
  by (simp add: encode_metadata_head)

lemma write_metadata_effect:
  assumes ok: "backend_ok be c" and w: "write_metadata be p f = (f', r)" and fit: "metadata_offset (sp_slot p) + METADATA_SECTOR_LEN \<le> length (c f)"
  shows "same_outside (metadata_offset (sp_slot p)) METADATA_SECTOR_LEN (c f) (c f')"
    "r = Inr () \<Longrightarrow> subslice (metadata_offset (sp_slot p)) (metadata_offset (sp_slot p) + METADATA_LEN) (c f') = encode_metadata p COMMIT_MARKER"
proof -
  let ?o = "metadata_offset (sp_slot p)" let ?h = "take 28 (encode_metadata p (- 1))"
  have lh: "length ?h = 28" by (simp add: encode_metadata_head)
  obtain f1 r1 where e: "map_backend (be_erase be f ?o METADATA_SECTOR_LEN) = (f1, r1)" by fastforce
  note e1 = backend_erase[OF ok e]
  obtain f2 r2 where wr: "map_backend (be_write be f1 ?o ?h) = (f2, r2)" by fastforce
  note w1 = backend_write[OF ok wr]
  obtain f3 r3 where wm: "map_backend (be_write be f2 (?o + 28) (to_le 4 COMMIT_MARKER)) = (f3, r3)" by fastforce
  note w2 = backend_write[OF ok wm]
  have two: "same_outside ?o METADATA_SECTOR_LEN (c f) (c f2)" using same_outside_trans[OF e1(1) w1(1), of ?o METADATA_SECTOR_LEN] lh by (simp add: store_sizes)
  have three: "same_outside ?o METADATA_SECTOR_LEN (c f) (c f3)" using same_outside_trans[OF two w2(1), of ?o METADATA_SECTOR_LEN] by (simp add: store_sizes)
  have a: "f' = f1 \<and> r \<noteq> Inr () \<or> f' = f2 \<and> r \<noteq> Inr () \<or> f' = f3 \<and> (r = Inr () \<longrightarrow> r1 = Inr () \<and> r2 = Inr () \<and> r3 = Inr ())"
    using w e wr wm by (auto simp: write_metadata_def Let_def elim!: andThen_obtain)
  show "same_outside ?o METADATA_SECTOR_LEN (c f) (c f')" using a e1(1) two three by auto
  show "subslice ?o (?o + METADATA_LEN) (c f') = encode_metadata p COMMIT_MARKER" if "r = Inr ()"
  proof -
    have r: "f' = f3" "r1 = Inr ()" "r2 = Inr ()" "r3 = Inr ()" using a that by auto
    have len: "length (c f1) = length (c f)" "length (c f2) = length (c f)" using e1(1) two by (simp_all add: same_outside_def)
    have h: "subslice ?o (?o + 28) (c f2) = ?h"
      using e1(2)[OF r(2)] fit wr r(3) lh len write_erased[OF ok, of f1 ?o ?h f2] by (simp add: store_sizes)
    have "c f2 ! k = 0xff" if "?o + 28 \<le> k" "k < ?o + 28 + 4" for k
      using w1(1) e1(2)[OF r(2), of k] that fit len(1) lh by (simp add: same_outside_def store_sizes)
    then have m: "subslice (?o + 28) (?o + 28 + 4) (c f3) = to_le 4 COMMIT_MARKER"
      using fit wm r(4) len write_erased[OF ok, of f2 "?o + 28" "to_le 4 COMMIT_MARKER" f3] by (simp add: store_sizes)
    have "subslice ?o (?o + 28) (c f3) = ?h"
      using same_outside_slice[OF w2(1), of "?o + 28" ?o] h fit len by (simp add: store_sizes)
    then have "subslice ?o (?o + 32) (c f3) = ?h @ to_le 4 COMMIT_MARKER"
      using m subslice_split[of ?o "?o + 28" "?o + 28 + 4" "c f3"] by (simp add: add.commute)
    then show ?thesis by (simp only: r(1) METADATA_LEN_def metadata_parts)
  qed
qed

section \<open>Commits\<close>

definition active_of :: "bytes \<Rightarrow> stored_mirror_profile option" where
  "active_of bs = newest (decode_metadata ProfileSlotA (subslice METADATA_A_OFFSET (METADATA_A_OFFSET + METADATA_LEN) bs))
     (decode_metadata ProfileSlotB (subslice METADATA_B_OFFSET (METADATA_B_OFFSET + METADATA_LEN) bs))"

lemma read_metadata_effect:
  assumes "backend_ok be c" "read_metadata be slot f = (f', r)"
  shows "c f' = c f" "r = Inr x \<Longrightarrow> x = decode_metadata slot (subslice (metadata_offset slot) (metadata_offset slot + METADATA_LEN) (c f))"
proof -
  obtain g y where g: "map_backend (be_read be f (metadata_offset slot) METADATA_LEN) = (g, y)" by fastforce
  note b = backend_read[OF assms(1) g]
  show "c f' = c f" using assms(2) g b(1) by (auto simp: read_metadata_def elim!: andThen_obtain)
  show "x = decode_metadata slot (subslice (metadata_offset slot) (metadata_offset slot + METADATA_LEN) (c f))" if "r = Inr x"
    using assms(2) g b(2) that by (auto simp: read_metadata_def elim!: andThen_obtain)
qed

lemma store_active_effect:
  assumes "backend_ok be c" "store_active be f = (f', r)"
  shows "c f' = c f" "r = Inr x \<Longrightarrow> x = active_of (c f)"
proof -
  obtain g a where g: "read_metadata be ProfileSlotA f = (g, a)" by fastforce
  obtain h b where h: "read_metadata be ProfileSlotB g = (h, b)" by fastforce
  note ea = read_metadata_effect[OF assms(1) g] note eb = read_metadata_effect[OF assms(1) h]
  show "c f' = c f" using assms(2) g h ea(1) eb(1) by (auto simp: store_active_def elim!: andThen_obtain)
  show "x = active_of (c f)" if "r = Inr x"
    using assms(2) g h ea eb that by (auto simp: store_active_def active_of_def elim!: andThen_obtain)
qed

lemma newest_successor:
  assumes "sp_generation new = sp_generation old + 1"
  shows "newest (Some new) (Some old) = Some new" "newest (Some old) (Some new) = Some new"
proof -
  have "sp_generation new - sp_generation old = 1" "sp_generation old - sp_generation new = - 1" by (simp_all add: assms)
  then show "newest (Some new) (Some old) = Some new" "newest (Some old) (Some new) = Some new"
    by (simp_all add: newest_def profile_generation_is_newer_or_equal_def)
qed

lemma decode_slot: "decode_metadata slot bs = Some p \<Longrightarrow> sp_slot p = slot"
  by (auto simp: decode_metadata_def Let_def simp del: from_le.simps split: if_splits)

lemma newest_cases: "newest a b = Some p \<Longrightarrow> a = Some p \<or> b = Some p"
  by (auto simp: newest_def split: option.splits if_splits)

lemma active_slot:
  assumes "active_of bs = Some p"
  shows "decode_metadata (sp_slot p) (subslice (metadata_offset (sp_slot p)) (metadata_offset (sp_slot p) + METADATA_LEN) bs) = Some p"
proof -
  consider "decode_metadata ProfileSlotA (subslice METADATA_A_OFFSET (METADATA_A_OFFSET + METADATA_LEN) bs) = Some p"
    | "decode_metadata ProfileSlotB (subslice METADATA_B_OFFSET (METADATA_B_OFFSET + METADATA_LEN) bs) = Some p"
    using newest_cases[OF assms[unfolded active_of_def]] by blast
  then show ?thesis by cases (use decode_slot in fastforce)+
qed

text \<open>The bytes of a stored profile: its metadata record and its image.\<close>

definition stored_bytes :: "stored_mirror_profile \<Rightarrow> bytes \<Rightarrow> bytes \<times> bytes" where
  "stored_bytes p bs = (subslice (metadata_offset (sp_slot p)) (metadata_offset (sp_slot p) + METADATA_LEN) bs,
     subslice (profile_offset (sp_slot p)) (profile_offset (sp_slot p) + sp_length p) bs)"

lemma decode_length: "decode_metadata slot bs = Some p \<Longrightarrow> sp_length p \<le> PROFILE_SLOT_LEN"
  by (auto simp: decode_metadata_def Let_def simp del: from_le.simps split: if_splits)

lemma slot_other_kept:
  assumes "same_outside (profile_offset s) PROFILE_SLOT_LEN xs ys \<or> same_outside (metadata_offset s) METADATA_SECTOR_LEN xs ys"
    "sp_slot p \<noteq> s" "sp_length p \<le> PROFILE_SLOT_LEN" "length xs = MIRROR_PROFILE_PARTITION_LEN"
  shows "stored_bytes p ys = stored_bytes p xs" "length ys = length xs"
proof -
  obtain off n where o: "same_outside off n xs ys" "(off, n) \<in> {(profile_offset s, PROFILE_SLOT_LEN), (metadata_offset s, METADATA_SECTOR_LEN)}" using assms(1) by blast
  then show "length ys = length xs" by (simp add: same_outside_def)
  have m: "subslice (metadata_offset (sp_slot p)) (metadata_offset (sp_slot p) + METADATA_LEN) ys = subslice (metadata_offset (sp_slot p)) (metadata_offset (sp_slot p) + METADATA_LEN) xs"
    using o(2) assms(2,4) by (intro same_outside_slice[OF o(1)]; cases "sp_slot p"; cases s) (auto simp: store_sizes)
  moreover have "subslice (profile_offset (sp_slot p)) (profile_offset (sp_slot p) + sp_length p) ys = subslice (profile_offset (sp_slot p)) (profile_offset (sp_slot p) + sp_length p) xs"
    using o(2) assms(2,3,4) by (intro same_outside_slice[OF o(1)]; cases "sp_slot p"; cases s) (auto simp: store_sizes)
  ultimately show "stored_bytes p ys = stored_bytes p xs" by (simp add: stored_bytes_def)
qed

lemma active_of_stored:
  assumes "decode_metadata (sp_slot p) (fst (stored_bytes p ys)) = Some p"
    "\<And>q. decode_metadata (profile_slot_other (sp_slot p)) (subslice (metadata_offset (profile_slot_other (sp_slot p))) (metadata_offset (profile_slot_other (sp_slot p)) + METADATA_LEN) ys) = Some q \<Longrightarrow>
       sp_generation p = sp_generation q + 1"
  shows "active_of ys = Some p"
proof (cases "sp_slot p")
  case ProfileSlotA
  then show ?thesis using assms newest_successor(1)[of p]
    by (cases "decode_metadata ProfileSlotB (subslice METADATA_B_OFFSET (METADATA_B_OFFSET + METADATA_LEN) ys)") (auto simp: active_of_def stored_bytes_def newest_def)
next
  case ProfileSlotB
  then show ?thesis using assms newest_successor(2)[of p]
    by (cases "decode_metadata ProfileSlotA (subslice METADATA_A_OFFSET (METADATA_A_OFFSET + METADATA_LEN) ys)") (auto simp: active_of_def stored_bytes_def newest_def)
qed

definition fresh_profile :: "stored_mirror_profile option \<Rightarrow> bytes \<Rightarrow> u32 \<Rightarrow> stored_mirror_profile" where
  "fresh_profile active img h = \<lparr>sp_slot = (case active of None \<Rightarrow> ProfileSlotA | Some p \<Rightarrow> profile_slot_other (sp_slot p)),
     sp_generation = (case active of None \<Rightarrow> 1 | Some p \<Rightarrow> sp_generation p + 1), sp_profile_hash = h, sp_length = length img, sp_crc32 = crc32_ieee img\<rparr>"

lemma store_commit_cases:
  assumes "store_commit be img h f = (f', r)"
  obtains (large) "f' = f" "r = Inl PsImageTooLarge"
    | (unread) e where "store_active be f = (f', Inl e)" "r = Inl e"
    | (already) p where "store_active be f = (f', Inr (Some p))" "r = Inr (PcAlreadyStored p)" "sp_profile_hash p = h" "sp_length p = length img" "sp_crc32 p = crc32_ieee img"
    | (image_failed) g active e where "store_active be f = (g, Inr active)" "write_profile be (sp_slot (fresh_profile active img h)) img g = (f', Inl e)" "r = Inl e"
        "img \<noteq> []" "length img \<le> HSMI_MAX_SIZE"
    | (meta_failed) g active g2 e where "store_active be f = (g, Inr active)" "write_profile be (sp_slot (fresh_profile active img h)) img g = (g2, Inr ())"
        "write_metadata be (fresh_profile active img h) g2 = (f', Inl e)" "r = Inl e" "img \<noteq> []" "length img \<le> HSMI_MAX_SIZE"
    | (stored) g active g2 where "store_active be f = (g, Inr active)" "write_profile be (sp_slot (fresh_profile active img h)) img g = (g2, Inr ())"
        "write_metadata be (fresh_profile active img h) g2 = (f', Inr ())" "r = Inr (PcStored (fresh_profile active img h))" "img \<noteq> []" "length img \<le> HSMI_MAX_SIZE"
  using assms that
  by (auto simp: store_commit_def Let_def fresh_profile_def elim!: andThen_obtain split: if_splits option.splits)

lemma commit_writes:
  assumes ok: "backend_ok be c" and len: "length (c f) = MIRROR_PROFILE_PARTITION_LEN" and active: "active_of (c f) = active"
    and img: "img \<noteq> []" "length img \<le> HSMI_MAX_SIZE" and wp: "write_profile be (sp_slot (fresh_profile active img h)) img f = (g, r1)"
  shows "active = Some p \<Longrightarrow> stored_bytes p (c g) = stored_bytes p (c f)"
    and "write_metadata be (fresh_profile active img h) g = (f', r2) \<Longrightarrow> active = Some p \<Longrightarrow> stored_bytes p (c f') = stored_bytes p (c f)"
    and "write_metadata be (fresh_profile active img h) g = (f', Inr ()) \<Longrightarrow> r1 = Inr () \<Longrightarrow>
      active_of (c f') = Some (fresh_profile active img h) \<and> snd (stored_bytes (fresh_profile active img h) (c f')) = img"
proof -
  let ?n = "fresh_profile active img h" let ?s = "sp_slot ?n"
  have fit: "length img \<le> PROFILE_SLOT_LEN" "profile_offset ?s + PROFILE_SLOT_LEN \<le> length (c f)" "metadata_offset ?s + METADATA_SECTOR_LEN \<le> length (c f)"
    using img(2) len by (cases ?s; simp add: store_sizes HSMI_MAX_SIZE_def)+
  note w = write_profile_effect[OF ok wp fit(1,2)]
  have lg: "length (c g) = length (c f)" using w(1) by (simp add: same_outside_def)
  have slot: "sp_slot p \<noteq> ?s" if "active = Some p" for p using that by (cases "sp_slot p") (simp_all add: fresh_profile_def)
  have plen: "sp_length p \<le> PROFILE_SLOT_LEN" if "active = Some p" for p using active_slot[of "c f" p] active that decode_length by blast
  show g: "stored_bytes p (c g) = stored_bytes p (c f)" if "active = Some p" for p
    using slot_other_kept(1)[of ?s "c f" "c g" p] w(1) slot[OF that] plen[OF that] len by blast
  have m: "stored_bytes p (c f') = stored_bytes p (c f)" "same_outside (metadata_offset ?s) METADATA_SECTOR_LEN (c g) (c f')"
    if wm: "write_metadata be ?n g = (f', r2)" and a: "active = Some p" for p r2
  proof -
    show o: "same_outside (metadata_offset ?s) METADATA_SECTOR_LEN (c g) (c f')" using write_metadata_effect(1)[OF ok wm] fit(3) lg by simp
    then show "stored_bytes p (c f') = stored_bytes p (c f)"
      using slot_other_kept(1)[of ?s "c g" "c f'" p] slot[OF a] plen[OF a] len lg g[OF a] by simp
  qed
  then show "write_metadata be ?n g = (f', r2) \<Longrightarrow> active = Some p \<Longrightarrow> stored_bytes p (c f') = stored_bytes p (c f)" by blast
  assume wm: "write_metadata be ?n g = (f', Inr ())" and r1: "r1 = Inr ()"
  have o: "same_outside (metadata_offset ?s) METADATA_SECTOR_LEN (c g) (c f')" using write_metadata_effect(1)[OF ok wm] fit(3) lg by simp
  have enc: "fst (stored_bytes ?n (c f')) = encode_metadata ?n COMMIT_MARKER" using write_metadata_effect(2)[OF ok wm] fit(3) lg by (simp add: stored_bytes_def)
  have dec: "decode_metadata ?s (fst (stored_bytes ?n (c f'))) = Some ?n"
    unfolding enc using img by (intro decode_encode_metadata) (simp_all add: fresh_profile_def)
  let ?o = "profile_slot_other ?s" let ?mo = "metadata_offset ?o"
  have other: "subslice ?mo (?mo + METADATA_LEN) (c f') = subslice ?mo (?mo + METADATA_LEN) (c f)"
  proof -
    have "subslice ?mo (?mo + METADATA_LEN) (c f') = subslice ?mo (?mo + METADATA_LEN) (c g)"
      using lg len by (intro same_outside_slice[OF o]; cases ?s) (simp_all add: store_sizes)
    also have "\<dots> = subslice ?mo (?mo + METADATA_LEN) (c f)" using len by (intro same_outside_slice[OF w(1)]; cases ?s) (simp_all add: store_sizes)
    finally show ?thesis .
  qed
  have "sp_generation ?n = sp_generation q + 1" if "decode_metadata ?o (subslice ?mo (?mo + METADATA_LEN) (c f')) = Some q" for q
  proof (cases active)
    case None
    then have "decode_metadata ?o (subslice ?mo (?mo + METADATA_LEN) (c f)) = None"
      using active by (cases ?s) (auto simp: active_of_def newest_def split: option.splits)
    then show ?thesis using that other by simp
  next
    case (Some p)
    then have "?o = sp_slot p" by (cases "sp_slot p") (simp_all add: fresh_profile_def)
    then have "q = p" using that other active_slot[of "c f" p] active Some by simp
    then show ?thesis using Some by (simp add: fresh_profile_def)
  qed
  then have "active_of (c f') = Some ?n" using active_of_stored[OF dec] by blast
  moreover have "snd (stored_bytes ?n (c f')) = img"
  proof -
    have "subslice (profile_offset ?s) (profile_offset ?s + length img) (c f') = subslice (profile_offset ?s) (profile_offset ?s + length img) (c g)"
      using lg len fit(1) by (intro same_outside_slice[OF o]; cases ?s) (simp_all add: store_sizes)
    then show ?thesis using w(2)[OF r1] by (simp add: stored_bytes_def fresh_profile_def)
  qed
  ultimately show "active_of (c f') = Some ?n \<and> snd (stored_bytes ?n (c f')) = img" ..
qed

text \<open>
  C27: A commit to the profile store never harms the active profile. However it ends, and at
  whichever flash operation it fails or is cut off, the metadata record and the image of the
  profile that was active before keep their bytes. When it reports the profile stored, that
  profile is the active one from then on, under the given hash, and its image is what was
  committed; when it reports it already stored, nothing was written.
\<close>

theorem profile_commit_safe:
  assumes ok: "backend_ok be c" and len: "length (c f) = MIRROR_PROFILE_PARTITION_LEN" and commit: "store_commit be img h f = (f', r)"
  shows "(\<forall>p. active_of (c f) = Some p \<longrightarrow> stored_bytes p (c f') = stored_bytes p (c f)) \<and>
    (\<forall>p. r = Inr (PcStored p) \<longrightarrow> sp_profile_hash p = h \<and> snd (stored_bytes p (c f')) = img \<and> active_of (c f') = Some p \<and>
       (\<forall>g x. store_active be f' = (g, Inr x) \<longrightarrow> x = Some p)) \<and>
    (\<forall>p. r = Inr (PcAlreadyStored p) \<longrightarrow> c f' = c f \<and> active_of (c f) = Some p \<and> sp_profile_hash p = h)"
proof -
  have act: "c g = c f \<and> active_of (c f) = x" if "store_active be f = (g, Inr x)" for g x
    using store_active_effect[OF ok that] by simp
  from commit show ?thesis
  proof (cases rule: store_commit_cases)
    case large then show ?thesis by simp
  next
    case unread then show ?thesis using store_active_effect(1)[OF ok unread(1)] by simp
  next
    case already then show ?thesis using act[OF already(1)] by simp
  next
    case (image_failed g active e)
    note a = act[OF image_failed(1)]
    show ?thesis using commit_writes(1)[OF ok _ _ image_failed(4,5,2)] a len image_failed(3) by simp
  next
    case (meta_failed g active g2 e)
    note a = act[OF meta_failed(1)]
    show ?thesis using commit_writes(2)[OF ok _ _ meta_failed(5,6,2,3)] a len meta_failed(4) by simp
  next
    case (stored g active g2)
    note a = act[OF stored(1)]
    have new: "active_of (c f') = Some (fresh_profile active img h)" "snd (stored_bytes (fresh_profile active img h) (c f')) = img"
      using commit_writes(3)[OF ok _ _ stored(5,6,2,3)] a len by simp_all
    have "x = Some (fresh_profile active img h)" if "store_active be f' = (k, Inr x)" for k x
      using store_active_effect(2)[OF ok that] new(1) by simp
    moreover have "stored_bytes p (c f') = stored_bytes p (c f)" if "active = Some p" for p
      using commit_writes(2)[OF ok _ _ stored(5,6,2,3)] a len that by simp
    ultimately show ?thesis using new a stored(4) by (simp add: fresh_profile_def)
  qed
qed

text \<open>A flash chip in memory meets the contract.\<close>

definition memory_backend :: "(bytes, unit) profile_backend" where
  "memory_backend = \<lparr>be_read = (\<lambda>f off n. (f, Inr (subslice off (off + n) f))),
     be_erase = (\<lambda>f off n. (map (\<lambda>k. if off \<le> k \<and> k < off + n then 0xff else f ! k) [0..<length f], Inr ())),
     be_write = (\<lambda>f off bs. (map (\<lambda>k. if off \<le> k \<and> k < off + length bs then f ! k AND bs ! (k - off) else f ! k) [0..<length f], Inr ()))\<rparr>"

lemma memory_backend_ok: "backend_ok memory_backend id"
  by (auto simp: backend_ok_def memory_backend_def same_outside_def)

lemma memory_read_back:
  "offset \<le> len \<Longrightarrow> read_back memory_backend base len offset crc f = (f, Inr (crc32_update crc (subslice (base + offset) (base + len) f)))"
proof (induction "len - offset" arbitrary: offset crc rule: less_induct)
  case less
  show ?case
  proof (cases "offset < len")
    case True
    let ?n = "min (len - offset) 256"
    have "read_back memory_backend base len offset crc f =
        read_back memory_backend base len (offset + ?n) (crc32_update crc (subslice (base + offset) (base + offset + ?n) f)) f"
      using True by (subst read_back.simps) (simp add: Let_def map_backend_def memory_backend_def)
    also have "\<dots> = (f, Inr (crc32_update (crc32_update crc (subslice (base + offset) (base + offset + ?n) f)) (subslice (base + (offset + ?n)) (base + len) f)))"
      using True by (intro less.hyps) auto
    also have "subslice (base + offset) (base + offset + ?n) f @ subslice (base + (offset + ?n)) (base + len) f = subslice (base + offset) (base + len) f"
      using True by (subst subslice_split[symmetric, of "base + offset" "base + offset + ?n"]) (auto simp: add.assoc)
    ultimately show ?thesis by (metis crc32_update_append)
  next
    case False
    then show ?thesis using less.prems by (subst read_back.simps) (simp add: subslice_def)
  qed
qed

lemma memory_write_profile:
  assumes "length img \<le> PROFILE_SLOT_LEN" "length f = MIRROR_PROFILE_PARTITION_LEN"
  shows "\<exists>f'. write_profile memory_backend slot img f = (f', Inr ())"
proof -
  let ?o = "profile_offset slot"
  obtain f1 where e: "map_backend (be_erase memory_backend f ?o PROFILE_SLOT_LEN) = (f1, Inr ())" by (simp add: memory_backend_def map_backend_def)
  obtain f2 where w: "map_backend (be_write memory_backend f1 ?o img) = (f2, Inr ())" by (simp add: memory_backend_def map_backend_def)
  have fit: "?o + PROFILE_SLOT_LEN \<le> length f" using assms(2) by (cases slot) (simp_all add: store_sizes)
  have len: "length f1 = length f" using backend_erase(1)[OF memory_backend_ok e] by (simp add: same_outside_def)
  have "f1 ! k = 0xff" if "?o \<le> k" "k < ?o + length img" for k
    using backend_erase(2)[OF memory_backend_ok e, of k] that assms(1) fit by simp
  then have "subslice ?o (?o + length img) f2 = img" using write_erased[OF memory_backend_ok w] fit len assms(1) by simp
  then show ?thesis unfolding write_profile_def e w andThen_simps
    by (simp add: memory_read_back crc32_ieee_def)
qed

lemma memory_commit:
  assumes "img \<noteq> []" "length img \<le> HSMI_MAX_SIZE" "length f = MIRROR_PROFILE_PARTITION_LEN" "active_of f = None"
  shows "\<exists>f'. store_commit memory_backend img h f = (f', Inr (PcStored (fresh_profile None img h)))"
proof -
  have n: "length img \<le> PROFILE_SLOT_LEN" using assms(2) by (simp add: store_sizes HSMI_MAX_SIZE_def)
  obtain g where g: "store_active memory_backend f = (g, Inr (active_of f))"
    by (simp add: store_active_def read_metadata_def map_backend_def memory_backend_def active_of_def)
  have "g = f" using store_active_effect(1)[OF memory_backend_ok g] by simp
  moreover obtain f2 where "write_profile memory_backend ProfileSlotA img f = (f2, Inr ())" using memory_write_profile[OF n assms(3)] by blast
  moreover obtain f3 where "write_metadata memory_backend (fresh_profile None img h) f2 = (f3, Inr ())"
    by (simp add: write_metadata_def map_backend_def memory_backend_def Let_def)
  ultimately show ?thesis using g assms(1,2,4) n by (simp add: store_commit_def Let_def fresh_profile_def)
qed

theorem profile_commit_safe_witness:
  "\<exists>f' p. store_commit memory_backend [1, 2, 3] 7 (replicate MIRROR_PROFILE_PARTITION_LEN 0xff) = (f', Inr (PcStored p)) \<and>
     sp_profile_hash p = 7 \<and> snd (stored_bytes p f') = [1, 2, 3] \<and> active_of f' = Some p"
proof -
  let ?f = "replicate MIRROR_PROFILE_PARTITION_LEN (0xff :: u8)"
  have "replicate 4 (0xff :: u8) \<noteq> METADATA_MAGIC" by code_simp
  then have "decode_metadata slot (replicate 32 0xff) = None" for slot by (simp add: decode_metadata_def subslice_def)
  then have "active_of ?f = None" by (simp add: active_of_def newest_def subslice_def store_sizes)
  then obtain f' where c: "store_commit memory_backend [1, 2, 3] 7 ?f = (f', Inr (PcStored (fresh_profile None [1, 2, 3] 7)))"
    using memory_commit[of "[1, 2, 3]" ?f 7] by (auto simp: HSMI_MAX_SIZE_def)
  have "length (id ?f) = MIRROR_PROFILE_PARTITION_LEN" by simp
  from profile_commit_safe[OF memory_backend_ok this c] c show ?thesis by simp
qed

end
