(* ===== verification/HS_LinkTiming.thy ===== *)
theory HS_LinkTiming
  imports HS_Runs
begin

text \<open>
  The timing policies of the SPI link: the READY handshake that allows one transfer per arm cycle
  of the device (\<open>interchip/handshake.rs\<close>), the recovery that silences a stuck link and the
  watchdog over undecodable transactions (\<open>interchip/recovery.rs\<close>), and the rate budget of the
  input reports (\<open>interchip/rate_budget.rs\<close>). Times are the 64-bit counters of the source.
\<close>

section \<open>READY handshake\<close>

datatype spi_ready_phase = AwaitingReady | AwaitingDeassertion u64
datatype spi_ready_action = RaWait | RaTransfer | RaRecoverTransfer

record spi_ready_handshake =
  rh_phase :: spi_ready_phase
  rh_deassertion_timeout_ms :: u64

definition handshake_new :: "u64 \<Rightarrow> spi_ready_handshake" where
  "handshake_new timeout = \<lparr>rh_phase = AwaitingReady, rh_deassertion_timeout_ms = timeout\<rparr>"

definition handshake_observe :: "bool \<Rightarrow> bool \<Rightarrow> u64 \<Rightarrow> spi_ready_handshake \<Rightarrow> spi_ready_handshake \<times> spi_ready_action" where
  "handshake_observe ready_high deassertion_observed now h =
     (let h = (case rh_phase h of
                 AwaitingDeassertion _ \<Rightarrow> if deassertion_observed \<or> \<not> ready_high then h\<lparr>rh_phase := AwaitingReady\<rparr> else h
               | AwaitingReady \<Rightarrow> h) in
      (h, case rh_phase h of
            AwaitingReady \<Rightarrow> if ready_high then RaTransfer else RaWait
          | AwaitingDeassertion started \<Rightarrow>
              if ready_high \<and> rh_deassertion_timeout_ms h \<le> sat_sub now started then RaRecoverTransfer else RaWait))"

definition mark_transfer_started :: "u64 \<Rightarrow> spi_ready_handshake \<Rightarrow> spi_ready_handshake" where
  "mark_transfer_started now h = h\<lparr>rh_phase := AwaitingDeassertion now\<rparr>"

definition cancel_transfer :: "spi_ready_handshake \<Rightarrow> spi_ready_handshake" where
  "cancel_transfer h = h\<lparr>rh_phase := AwaitingReady\<rparr>"

section \<open>Recovery and watchdog\<close>

datatype recovery_phase = RpPolling u64 | RpQuiet u64
datatype spi_link_recovery_action = LrPoll | LrEnterQuiet | LrStayQuiet | LrResumePolling

record spi_link_recovery =
  lr_phase :: recovery_phase
  lr_progress_timeout_ms :: u64
  lr_quiet_period_ms :: u64

definition recovery_new :: "u64 \<Rightarrow> u64 \<Rightarrow> u64 \<Rightarrow> spi_link_recovery" where
  "recovery_new started progress_timeout quiet_period =
     \<lparr>lr_phase = RpPolling started, lr_progress_timeout_ms = progress_timeout, lr_quiet_period_ms = quiet_period\<rparr>"

definition recovery_observe_valid_cell :: "u64 \<Rightarrow> spi_link_recovery \<Rightarrow> spi_link_recovery" where
  "recovery_observe_valid_cell now r =
     (case lr_phase r of RpPolling _ \<Rightarrow> r\<lparr>lr_phase := RpPolling now\<rparr> | RpQuiet _ \<Rightarrow> r)"

definition recovery_advance :: "u64 \<Rightarrow> spi_link_recovery \<Rightarrow> spi_link_recovery \<times> spi_link_recovery_action" where
  "recovery_advance now r =
     (case lr_phase r of
        RpPolling last_progress \<Rightarrow>
          if lr_progress_timeout_ms r \<le> sat_sub now last_progress
          then (r\<lparr>lr_phase := RpQuiet (sat_add now (lr_quiet_period_ms r))\<rparr>, LrEnterQuiet)
          else (r, LrPoll)
      | RpQuiet until \<Rightarrow>
          if now < until then (r, LrStayQuiet) else (r\<lparr>lr_phase := RpPolling now\<rparr>, LrResumePolling))"

record spi_transaction_watchdog =
  wd_last_valid_or_first_transaction_ms :: "u64 option"
  wd_timeout_ms :: u64

definition watchdog_new :: "u64 \<Rightarrow> spi_transaction_watchdog" where
  "watchdog_new timeout = \<lparr>wd_last_valid_or_first_transaction_ms = None, wd_timeout_ms = timeout\<rparr>"

definition watchdog_observe_transaction :: "u64 \<Rightarrow> spi_transaction_watchdog \<Rightarrow> spi_transaction_watchdog" where
  "watchdog_observe_transaction now w =
     (if wd_last_valid_or_first_transaction_ms w = None then w\<lparr>wd_last_valid_or_first_transaction_ms := Some now\<rparr> else w)"

definition watchdog_observe_valid_cell :: "u64 \<Rightarrow> spi_transaction_watchdog \<Rightarrow> spi_transaction_watchdog" where
  "watchdog_observe_valid_cell now w = w\<lparr>wd_last_valid_or_first_transaction_ms := Some now\<rparr>"

definition watchdog_timed_out :: "u64 \<Rightarrow> spi_transaction_watchdog \<Rightarrow> bool" where
  "watchdog_timed_out now w =
     (case wd_last_valid_or_first_transaction_ms w of None \<Rightarrow> False | Some t \<Rightarrow> wd_timeout_ms w \<le> sat_sub now t)"

section \<open>Rate budget\<close>

record fixed_interval_budget =
  fb_interval_us :: u64
  fb_credit_us :: u64
  fb_last_refill_us :: u64
  fb_max_credit_us :: u64

definition sat_mul :: "'a::len word \<Rightarrow> 'a word \<Rightarrow> 'a word" where
  "sat_mul a b = (if unat a * unat b < 2 ^ LENGTH('a) then a * b else - 1)"

definition budget_new :: "u64 \<Rightarrow> u64 \<Rightarrow> u8 \<Rightarrow> fixed_interval_budget" where
  "budget_new now interval max_burst =
     \<lparr>fb_interval_us = interval, fb_credit_us = interval, fb_last_refill_us = now, fb_max_credit_us = sat_mul interval (ucast max_burst)\<rparr>"

definition budget_try_take :: "u64 \<Rightarrow> fixed_interval_budget \<Rightarrow> fixed_interval_budget \<times> bool" where
  "budget_try_take now b =
     (let elapsed = sat_sub now (fb_last_refill_us b);
          b = b\<lparr>fb_last_refill_us := now, fb_credit_us := min (sat_add (fb_credit_us b) elapsed) (fb_max_credit_us b)\<rparr> in
      if fb_credit_us b < fb_interval_us b then (b, False)
      else (b\<lparr>fb_credit_us := fb_credit_us b - fb_interval_us b\<rparr>, True))"

section \<open>One transfer per arm cycle\<close>

text \<open>Successive observations, with the actions they give.\<close>

fun observe_all :: "(bool \<times> bool \<times> u64) list \<Rightarrow> spi_ready_handshake \<Rightarrow> spi_ready_handshake \<times> spi_ready_action list" where
  "observe_all [] h = (h, [])"
| "observe_all ((ready, deasserted, now) # obs) h =
     (case handshake_observe ready deasserted now h of (h1, a) \<Rightarrow>
        case observe_all obs h1 of (h2, as) \<Rightarrow> (h2, a # as))"

lemma observe_all_append:
  "observe_all (xs @ ys) h = (case observe_all xs h of (h1, as) \<Rightarrow> case observe_all ys h1 of (h2, bs) \<Rightarrow> (h2, as @ bs))"
  by (induction xs arbitrary: h) (auto split: prod.splits)

definition low_seen :: "(bool \<times> bool \<times> u64) list \<Rightarrow> bool" where
  "low_seen obs = list_ex (\<lambda>(ready, deasserted, _). deasserted \<or> \<not> ready) obs"

lemma observe_armed: "rh_phase h = AwaitingDeassertion t0 \<Longrightarrow> \<not> low_seen obs \<Longrightarrow> fst (observe_all obs h) = h"
  by (induction obs) (auto simp: low_seen_def handshake_observe_def split: prod.splits)

lemma observe_keeps_ready: "rh_phase h = AwaitingReady \<Longrightarrow> fst (handshake_observe ready deasserted now h) = h"
  by (simp add: handshake_observe_def)

lemma observe_ready: "rh_phase h = AwaitingReady \<Longrightarrow> rh_phase (fst (observe_all obs h)) = AwaitingReady"
proof (induction obs arbitrary: h)
  case (Cons x obs)
  obtain ready deasserted now where x: "x = (ready, deasserted, now)" by (cases x)
  obtain h1 a where h1: "handshake_observe ready deasserted now h = (h1, a)" by fastforce
  then have "h1 = h" using observe_keeps_ready[OF Cons.prems, of ready deasserted now] by simp
  then show ?case using Cons h1 by (simp add: x case_prod_beta)
qed simp

lemma observe_released: "low_seen obs \<Longrightarrow> rh_phase (fst (observe_all obs h)) = AwaitingReady"
proof (induction obs arbitrary: h)
  case (Cons x obs)
  obtain ready deasserted now where x: "x = (ready, deasserted, now)" by (cases x)
  obtain h1 a where h1: "handshake_observe ready deasserted now h = (h1, a)" by fastforce
  have "rh_phase (fst (observe_all obs h1)) = AwaitingReady"
  proof (cases "deasserted \<or> \<not> ready")
    case True
    then have "rh_phase h1 = AwaitingReady" using h1 by (auto simp: handshake_observe_def Let_def split: spi_ready_phase.splits)
    then show ?thesis by (rule observe_ready)
  next
    case False
    then show ?thesis using Cons by (auto simp: x low_seen_def)
  qed
  then show ?case by (simp add: x h1 case_prod_beta)
qed (simp add: low_seen_def)

text \<open>
  The host starts one SPI transfer per arm cycle of the device. After a transfer has been
  marked as started, the handshake allows the next one exactly if READY is high now and its low
  phase was seen since, as an edge or as a level; without that it only proposes a recovery
  transfer, and only once READY has stayed high for the timeout.
\<close>

theorem one_transfer_per_arm:
  "(case observe_all (obs @ [(ready, deasserted, now)]) (mark_transfer_started t0 h) of (_, actions) \<Rightarrow>
      (last actions = RaTransfer \<longleftrightarrow> ready \<and> low_seen (obs @ [(ready, deasserted, now)])) \<and>
      (last actions = RaRecoverTransfer \<longleftrightarrow> \<not> low_seen (obs @ [(ready, deasserted, now)]) \<and> unat (rh_deassertion_timeout_ms h) \<le> unat now - unat t0))"
proof -
  let ?h = "mark_transfer_started t0 h"
  obtain h1 as where o: "observe_all obs ?h = (h1, as)" by fastforce
  obtain h2 a where s: "handshake_observe ready deasserted now h1 = (h2, a)" by fastforce
  have l: "observe_all (obs @ [(ready, deasserted, now)]) ?h = (h2, as @ [a])" using o s by (simp add: observe_all_append)
  show ?thesis
  proof (cases "low_seen obs")
    case True
    then have "rh_phase h1 = AwaitingReady" using observe_released[of obs ?h] o by simp
    then have "a = (if ready then RaTransfer else RaWait)" using s by (auto simp: handshake_observe_def Let_def)
    then show ?thesis using True l by (simp add: low_seen_def)
  next
    case False
    have "h1 = ?h" using observe_armed[of ?h t0 obs] False o by (simp add: mark_transfer_started_def)
    then have "a = (if deasserted \<or> \<not> ready then (if ready then RaTransfer else RaWait)
        else if rh_deassertion_timeout_ms h \<le> sat_sub now t0 then RaRecoverTransfer else RaWait)"
      using s by (auto simp: handshake_observe_def Let_def mark_transfer_started_def split: if_splits)
    then show ?thesis using False l by (auto simp: low_seen_def word_le_nat_alt unat_sat_sub)
  qed
qed

section \<open>Recovery takes its quiet period\<close>

lemma recovery_quiet:
  assumes "lr_phase r = RpQuiet until" "\<forall>t \<in> set ts. t < until"
  shows "fold (\<lambda>t r. fst (recovery_advance t r)) ts r = r"
  using assms by (induction ts) (auto simp: recovery_advance_def)

text \<open>
  The link is declared stuck exactly when no valid cell arrived for the progress timeout; then
  every poll is refused until the quiet period is over, valid cells or not, and the first
  advance after it resumes polling with a fresh timeout.
\<close>

lemma recovery_cycle:
  assumes "lr_phase r = RpPolling t0" "unat (lr_progress_timeout_ms r) \<le> unat t1 - unat t0" "unat t1 + unat (lr_quiet_period_ms r) < 2 ^ 64"
    "\<forall>t \<in> set ts. unat t < unat t1 + unat (lr_quiet_period_ms r)" "unat t1 + unat (lr_quiet_period_ms r) \<le> unat t2"
  shows "snd (recovery_advance t1 r) = LrEnterQuiet"
    "t \<in> set ts \<Longrightarrow> snd (recovery_advance t (recovery_observe_valid_cell t (fst (recovery_advance t1 r)))) = LrStayQuiet"
    "recovery_advance t2 (fold (\<lambda>t r. fst (recovery_advance t r)) ts (fst (recovery_advance t1 r))) = (r\<lparr>lr_phase := RpPolling t2\<rparr>, LrResumePolling)"
proof -
  have q: "unat (sat_add t1 (lr_quiet_period_ms r)) = unat t1 + unat (lr_quiet_period_ms r)"
    using assms(3) by (simp add: unat_sat_add)
  have e: "recovery_advance t1 r = (r\<lparr>lr_phase := RpQuiet (sat_add t1 (lr_quiet_period_ms r))\<rparr>, LrEnterQuiet)"
    using assms(1,2) by (simp add: recovery_advance_def word_le_nat_alt unat_sat_sub)
  show "snd (recovery_advance t1 r) = LrEnterQuiet" by (simp add: e)
  have lt: "\<forall>t \<in> set ts. t < sat_add t1 (lr_quiet_period_ms r)" using assms(4) q by (simp add: word_less_nat_alt)
  then show "t \<in> set ts \<Longrightarrow> snd (recovery_advance t (recovery_observe_valid_cell t (fst (recovery_advance t1 r)))) = LrStayQuiet"
    by (simp add: e recovery_observe_valid_cell_def) (simp add: recovery_advance_def)
  have "fold (\<lambda>t r. fst (recovery_advance t r)) ts (fst (recovery_advance t1 r)) = fst (recovery_advance t1 r)"
    using recovery_quiet[OF _ lt] by (simp add: e)
  then show "recovery_advance t2 (fold (\<lambda>t r. fst (recovery_advance t r)) ts (fst (recovery_advance t1 r))) = (r\<lparr>lr_phase := RpPolling t2\<rparr>, LrResumePolling)"
    using assms(5) q by (simp add: e) (simp add: recovery_advance_def word_less_nat_alt)
qed

text \<open>A watchdog that never saw a transaction never fires; otherwise it fires after its timeout without a valid cell.\<close>

lemma watchdog_needs_transaction: "\<not> watchdog_timed_out now (watchdog_new timeout)"
  by (simp add: watchdog_timed_out_def watchdog_new_def)

lemma watchdog_fires:
  "watchdog_timed_out now (watchdog_observe_transaction t (watchdog_observe_valid_cell v w)) \<longleftrightarrow> unat (wd_timeout_ms w) \<le> unat now - unat v"
  by (simp add: watchdog_timed_out_def watchdog_observe_transaction_def watchdog_observe_valid_cell_def word_le_nat_alt unat_sat_sub)

section \<open>The rate of input reports\<close>

text \<open>The attempts of a run, with the number of grants.\<close>

fun budget_run :: "u64 list \<Rightarrow> fixed_interval_budget \<Rightarrow> fixed_interval_budget \<times> nat" where
  "budget_run [] b = (b, 0)"
| "budget_run (t # ts) b = (case budget_try_take t b of (b1, granted) \<Rightarrow>
     case budget_run ts b1 of (b2, n) \<Rightarrow> (b2, n + of_bool granted))"

lemma try_take_step:
  assumes "budget_try_take t b = (b1, granted)" "fb_last_refill_us b \<le> t"
  shows "fb_last_refill_us b1 = t" "fb_interval_us b1 = fb_interval_us b"
    "unat (fb_credit_us b1) + of_bool granted * unat (fb_interval_us b) \<le> unat (fb_credit_us b) + (unat t - unat (fb_last_refill_us b))"
proof -
  define cr where "cr = min (sat_add (fb_credit_us b) (sat_sub t (fb_last_refill_us b))) (fb_max_credit_us b)"
  have c: "unat cr \<le> unat (fb_credit_us b) + (unat t - unat (fb_last_refill_us b))"
  proof -
    have "cr \<le> sat_add (fb_credit_us b) (sat_sub t (fb_last_refill_us b))" by (simp add: cr_def)
    then show ?thesis by (simp add: word_le_nat_alt unat_sat_add unat_sat_sub)
  qed
  have b1: "b1 = b\<lparr>fb_last_refill_us := t, fb_credit_us := (if granted then cr - fb_interval_us b else cr)\<rparr>" "granted \<longleftrightarrow> \<not> cr < fb_interval_us b"
    using assms(1) by (auto simp: budget_try_take_def Let_def cr_def split: if_splits)
  then show "fb_last_refill_us b1 = t" "fb_interval_us b1 = fb_interval_us b" by simp_all
  show "unat (fb_credit_us b1) + of_bool granted * unat (fb_interval_us b) \<le> unat (fb_credit_us b) + (unat t - unat (fb_last_refill_us b))"
    using b1 c by (auto simp: unat_sub not_less word_le_nat_alt)
qed

lemma budget_run_keeps: "budget_run ts b = (b', n) \<Longrightarrow> fb_interval_us b' = fb_interval_us b \<and> fb_max_credit_us b' = fb_max_credit_us b"
  by (induction ts arbitrary: b n) (fastforce simp: budget_try_take_def Let_def split: prod.splits if_splits)+

lemma sat_mul_ge:
  assumes "(b :: 'a::len word) \<noteq> 0"
  shows "a \<le> sat_mul a b"
proof (cases "unat a * unat b < 2 ^ LENGTH('a)")
  case True
  then have "unat (a * b) = unat a * unat b" by (simp add: unat_word_ariths)
  moreover have "0 < unat b" using assms by (simp add: unat_gt_0)
  ultimately show ?thesis using True by (simp add: sat_mul_def word_le_nat_alt)
qed (simp add: sat_mul_def)

lemma budget_run_bound:
  assumes "budget_run ts b = (b', n)" "sorted (fb_last_refill_us b # ts)"
  shows "unat (fb_credit_us b') + n * unat (fb_interval_us b) \<le> unat (fb_credit_us b) + (unat (last (fb_last_refill_us b # ts)) - unat (fb_last_refill_us b))"
  using assms
proof (induction ts arbitrary: b n)
  case (Cons t ts)
  obtain b1 granted where s: "budget_try_take t b = (b1, granted)" by fastforce
  obtain m where m: "budget_run ts b1 = (b', m)" "n = m + of_bool granted" using Cons.prems(1) s by (auto split: prod.splits)
  have le: "fb_last_refill_us b \<le> t" using Cons.prems(2) by simp
  note st = try_take_step[OF s le]
  have sorted1: "sorted (fb_last_refill_us b1 # ts)" using Cons.prems(2) st(1) by simp
  have ih: "unat (fb_credit_us b') + m * unat (fb_interval_us b) \<le> unat (fb_credit_us b1) + (unat (last (t # ts)) - unat t)"
    using Cons.IH[OF m(1) sorted1] st(1,2) by simp
  have "t \<le> last (t # ts)" using Cons.prems(2) by (cases ts rule: rev_cases) auto
  then have "unat (fb_last_refill_us b) \<le> unat t" "unat t \<le> unat (last (t # ts))" using le by (simp_all add: word_le_nat_alt)
  then show ?case using ih st(3) unfolding m(2) last_ConsR[of "t # ts" "fb_last_refill_us b", simplified] by (simp add: add_mult_distrib)
qed simp

text \<open>
  Input reports keep to their rate. However often the budget is asked, at any non-decreasing
  times, the reports it grants since its creation never take more intervals than have passed,
  plus the one it starts with; and after a full interval without a grant the next attempt
  succeeds, provided a burst of at least one is allowed.
\<close>

theorem input_rate_bounded:
  assumes "budget_run ts (budget_new t0 interval burst) = (b, n)" "sorted (t0 # ts)"
  shows "n * unat interval \<le> unat interval + (unat (last (t0 # ts)) - unat t0) \<and>
    (burst \<noteq> 0 \<and> unat (fb_last_refill_us b) + unat interval \<le> unat t \<longrightarrow> snd (budget_try_take t b))"
proof (intro conjI impI)
  show "n * unat interval \<le> unat interval + (unat (last (t0 # ts)) - unat t0)"
    using budget_run_bound[OF assms(1)] assms(2) by (simp add: budget_new_def)
next
  assume a: "burst \<noteq> 0 \<and> unat (fb_last_refill_us b) + unat interval \<le> unat t"
  have k: "fb_interval_us b = interval" "fb_max_credit_us b = sat_mul interval (ucast burst)"
    using budget_run_keeps[OF assms(1)] by (simp_all add: budget_new_def)
  have "(ucast burst :: u64) \<noteq> 0" using a ucast_up_inject[of burst 0, where 'b = 64] by simp
  then have "interval \<le> fb_max_credit_us b" unfolding k(2) by (rule sat_mul_ge)
  moreover have "interval \<le> sat_add (fb_credit_us b) (sat_sub t (fb_last_refill_us b))"
    using a unsigned_less[of interval, where 'a = nat] by (auto simp: word_le_nat_alt unat_sat_add unat_sat_sub)
  ultimately show "snd (budget_try_take t b)" by (simp add: budget_try_take_def Let_def k(1) not_less)
qed

theorem input_rate_bounded_witness:
  "\<exists>b n. budget_run [1000, 1400, 2500] (budget_new 0 1000 2) = (b, n) \<and> n * unat (1000 :: u64) \<le> unat (1000 :: u64) + (unat (2500 :: u64) - unat (0 :: u64))"
proof -
  obtain b n where r: "budget_run [1000, 1400, 2500] (budget_new 0 1000 2) = (b, n)" by fastforce
  have "sorted (0 # [1000, 1400, 2500 :: u64])" by simp
  from input_rate_bounded[OF r this] r show ?thesis by auto
qed

end
