(* ===== verification/HS_MirrorControl.thy ===== *)
theory HS_MirrorControl
  imports HS_Message HS_Routing HS_Runs HS_Slots
begin

text \<open>
  The forwarding of USB control requests to the mirrored device (\<open>mirror/control.rs\<close>) and the
  registry of devices that can be mirrored (\<open>mirror/candidate.rs\<close>). The trait of candidate
  sources only names methods that the firmware implements and has no definition here.
\<close>

section \<open>Control forwarder\<close>

definition MIRROR_CONTROL_TIMEOUT_MS :: u64 where "MIRROR_CONTROL_TIMEOUT_MS = 250"

datatype mirror_control_forwarder_error = FeBusy | FeInvalidMessage | FeStaleResponse

record pending_mirror_control =
  pm_request_id :: u32
  pm_deadline_ms :: u64

record mirror_control_forwarder =
  mf_next_request_id :: u32
  mf_pending :: "pending_mirror_control option"

definition next_nonzero :: "u32 \<Rightarrow> u32" where
  "next_nonzero value = (if value = - 1 \<or> value = 0 then 1 else value + 1)"

definition forwarder_new :: mirror_control_forwarder where
  "forwarder_new = \<lparr>mf_next_request_id = 1, mf_pending = None\<rparr>"

definition forwarder_begin ::
  "bytes \<Rightarrow> bytes \<Rightarrow> u64 \<Rightarrow> mirror_control_forwarder \<Rightarrow> (mirror_control_forwarder, mirror_control_forwarder_error, control_request) outcome" where
  "forwarder_begin setup_packet data now m =
     (if mf_pending m \<noteq> None then (m, Inl FeBusy)
      else let request_id = mf_next_request_id m; m = m\<lparr>mf_next_request_id := next_nonzero (mf_next_request_id m)\<rparr> in
        case control_request_new request_id setup_packet data of
          Inl _ \<Rightarrow> (m, Inl FeInvalidMessage)
        | Inr request \<Rightarrow>
            (m\<lparr>mf_pending := Some \<lparr>pm_request_id = request_id, pm_deadline_ms = sat_add now MIRROR_CONTROL_TIMEOUT_MS\<rparr>\<rparr>, Inr request))"

definition forwarder_complete ::
  "control_response \<Rightarrow> u64 \<Rightarrow> mirror_control_forwarder \<Rightarrow> (mirror_control_forwarder, mirror_control_forwarder_error, control_response) outcome" where
  "forwarder_complete response now m =
     (case mf_pending m of
        None \<Rightarrow> (m, Inl FeStaleResponse)
      | Some pending \<Rightarrow>
          if pm_request_id pending \<noteq> cp_request_id response \<or> pm_deadline_ms pending \<le> now then (m, Inl FeStaleResponse)
          else (m\<lparr>mf_pending := None\<rparr>, Inr response))"

definition forwarder_expire :: "u64 \<Rightarrow> mirror_control_forwarder \<Rightarrow> mirror_control_forwarder \<times> control_response option" where
  "forwarder_expire now m =
     (case mf_pending m of
        None \<Rightarrow> (m, None)
      | Some pending \<Rightarrow>
          if now < pm_deadline_ms pending then (m, None)
          else (m\<lparr>mf_pending := None\<rparr>,
                case control_response_new (pm_request_id pending) CsTimeout [] of Inl _ \<Rightarrow> None | Inr r \<Rightarrow> Some r))"

definition forwarder_cancel :: "mirror_control_forwarder \<Rightarrow> mirror_control_forwarder \<times> u32 option" where
  "forwarder_cancel m = (m\<lparr>mf_pending := None\<rparr>, map_option pm_request_id (mf_pending m))"

section \<open>Candidate registry\<close>


record mirror_candidate_metadata =
  mm_candidate :: mirror_candidate_id
  mm_stable_id :: mirror_stable_id
  mm_profile_hash :: u32
  mm_synthetic :: bool
  mm_source_device :: "device_id option"

datatype mirror_candidate_error = CeImageUnavailable | CeEndpointOutRejected
datatype mirror_candidate_registry_error = CandidateOutOfRange | AmbiguousIdentity

type_synonym mirror_candidate_registry = "mirror_candidate_metadata option list"

definition candidates_new :: "nat \<Rightarrow> mirror_candidate_registry" where
  "candidates_new n = replicate n None"

definition candidates_register ::
  "mirror_candidate_metadata \<Rightarrow> mirror_candidate_registry \<Rightarrow> (mirror_candidate_registry, mirror_candidate_registry_error, unit) outcome" where
  "candidates_register metadata r =
     (if unat (mm_candidate metadata) < length r then (r[unat (mm_candidate metadata) := Some metadata], Inr ())
      else (r, Inl CandidateOutOfRange))"

definition candidates_clear ::
  "mirror_candidate_id \<Rightarrow> mirror_candidate_registry \<Rightarrow> (mirror_candidate_registry, mirror_candidate_registry_error, unit) outcome" where
  "candidates_clear candidate r = (if unat candidate < length r then (r[unat candidate := None], Inr ()) else (r, Inl CandidateOutOfRange))"

definition candidates_clear_source :: "device_id \<Rightarrow> mirror_candidate_registry \<Rightarrow> mirror_candidate_registry" where
  "candidates_clear_source device =
     map (\<lambda>entry. case entry of None \<Rightarrow> None | Some m \<Rightarrow> if mm_source_device m = Some device then None else Some m)"

definition candidates_get :: "mirror_candidate_id \<Rightarrow> mirror_candidate_registry \<Rightarrow> mirror_candidate_metadata option" where
  "candidates_get candidate r = (if unat candidate < length r then r ! unat candidate else None)"

fun resolve_loop ::
  "mirror_stable_id \<Rightarrow> mirror_candidate_id option \<Rightarrow> mirror_candidate_metadata list \<Rightarrow> mirror_candidate_registry_error + mirror_candidate_id option" where
  "resolve_loop stable_id resolved [] = Inr resolved"
| "resolve_loop stable_id resolved (m # ms) =
     (if mm_stable_id m \<noteq> stable_id then resolve_loop stable_id resolved ms
      else if resolved \<noteq> None then Inl AmbiguousIdentity
      else resolve_loop stable_id (Some (mm_candidate m)) ms)"

definition candidates_resolve ::
  "mirror_stable_id \<Rightarrow> mirror_candidate_registry \<Rightarrow> mirror_candidate_registry_error + mirror_candidate_id option" where
  "candidates_resolve stable_id r = resolve_loop stable_id None (flatten r)"

section \<open>Every request is answered once\<close>

datatype forwarder_op = FoBegin bytes bytes u64 | FoComplete control_response u64 | FoExpire u64 | FoCancel

text \<open>The trace of a run: the ids handed out and the ids whose request ended, in order.\<close>

record forwarder_trace =
  ft_state :: mirror_control_forwarder
  ft_begun :: "u32 list"
  ft_ended :: "u32 list"

fun forwarder_step :: "forwarder_op \<Rightarrow> forwarder_trace \<Rightarrow> forwarder_trace" where
  "forwarder_step (FoBegin setup data now) t =
     (case forwarder_begin setup data now (ft_state t) of
        (m, Inr request) \<Rightarrow> t\<lparr>ft_state := m, ft_begun := ft_begun t @ [cq_request_id request]\<rparr>
      | (m, Inl _) \<Rightarrow> t\<lparr>ft_state := m\<rparr>)"
| "forwarder_step (FoComplete response now) t =
     (case forwarder_complete response now (ft_state t) of
        (m, Inr r) \<Rightarrow> t\<lparr>ft_state := m, ft_ended := ft_ended t @ [cp_request_id r]\<rparr>
      | (m, Inl _) \<Rightarrow> t\<lparr>ft_state := m\<rparr>)"
| "forwarder_step (FoExpire now) t =
     (case forwarder_expire now (ft_state t) of
        (m, Some r) \<Rightarrow> t\<lparr>ft_state := m, ft_ended := ft_ended t @ [cp_request_id r]\<rparr>
      | (m, None) \<Rightarrow> t\<lparr>ft_state := m\<rparr>)"
| "forwarder_step FoCancel t =
     (case forwarder_cancel (ft_state t) of
        (m, Some i) \<Rightarrow> t\<lparr>ft_state := m, ft_ended := ft_ended t @ [i]\<rparr>
      | (m, None) \<Rightarrow> t\<lparr>ft_state := m\<rparr>)"

definition forwarder_start :: forwarder_trace where
  "forwarder_start = \<lparr>ft_state = forwarder_new, ft_begun = [], ft_ended = []\<rparr>"

definition pending_ids :: "mirror_control_forwarder \<Rightarrow> u32 list" where
  "pending_ids m = (case mf_pending m of None \<Rightarrow> [] | Some p \<Rightarrow> [pm_request_id p])"

definition trace_inv :: "forwarder_trace \<Rightarrow> bool" where
  "trace_inv t = (ft_begun t = ft_ended t @ pending_ids (ft_state t) \<and> mf_next_request_id (ft_state t) \<noteq> 0 \<and> 0 \<notin> set (ft_begun t))"

lemma next_nonzero_pos: "next_nonzero i \<noteq> 0"
proof (cases "i = - 1")
  case False
  have "i + 1 = 0 \<Longrightarrow> i = - 1" by (metis add.commute eq_neg_iff_add_eq_0)
  with False show ?thesis by (auto simp: next_nonzero_def)
qed (simp add: next_nonzero_def)

interpretation forwarder: op_system forwarder_step "\<lambda>_. True" trace_inv
proof
  fix t x
  assume inv: "trace_inv t"
  show "trace_inv (forwarder_step x t)"
  proof (cases x)
    case (FoBegin sp d now)
    then show ?thesis using inv next_nonzero_pos
      by (auto simp: trace_inv_def forwarder_begin_def pending_ids_def control_request_new_def Let_def split: option.splits)
  next
    case (FoComplete response now)
    then show ?thesis using inv by (auto simp: trace_inv_def forwarder_complete_def pending_ids_def split: option.splits)
  next
    case (FoExpire now)
    then show ?thesis using inv
      by (auto simp: trace_inv_def forwarder_expire_def pending_ids_def control_response_new_def split: option.splits)
  next
    case FoCancel
    then show ?thesis using inv by (auto simp: trace_inv_def forwarder_cancel_def pending_ids_def split: option.splits)
  qed
qed

text \<open>
  Every forwarded control request ends exactly once. In any sequence of begins, responses,
  time-outs and cancellations, the ids whose request ended are the ids that were handed out, in
  the same order, short of at most the one still pending; no id is zero, and a second request
  cannot begin while one is pending.
\<close>

theorem control_requests_end_once:
  "(case run forwarder_step ops forwarder_start of t \<Rightarrow>
      ft_begun t = ft_ended t @ pending_ids (ft_state t) \<and> 0 \<notin> set (ft_begun t) \<and>
      (pending_ids (ft_state t) = [] \<or> snd (forwarder_begin setup data now (ft_state t)) = Inl FeBusy))"
proof -
  have "trace_inv forwarder_start" by (simp add: trace_inv_def forwarder_start_def forwarder_new_def pending_ids_def)
  then have "trace_inv (run forwarder_step ops forwarder_start)" by (rule forwarder.run_inv) (simp add: list_all_iff)
  then show ?thesis by (auto simp: trace_inv_def pending_ids_def forwarder_begin_def split: option.splits)
qed

section \<open>Candidates\<close>

lemma resolve_loop_ids:
  "resolve_loop s resolved ms =
    (case (resolved, filter (\<lambda>m. mm_stable_id m = s) ms) of
       (r, []) \<Rightarrow> Inr r | (None, [m]) \<Rightarrow> Inr (Some (mm_candidate m)) | _ \<Rightarrow> Inl AmbiguousIdentity)"
  by (induction ms arbitrary: resolved) (auto split: option.splits list.splits)

text \<open>
  An identity resolves to the candidate registered under it when there is exactly one, to none
  when there is none, and is refused as ambiguous otherwise.
\<close>

lemma candidates_resolve_spec:
  "candidates_resolve s r =
    (case filter (\<lambda>m. mm_stable_id m = s) (flatten r) of [] \<Rightarrow> Inr None | [m] \<Rightarrow> Inr (Some (mm_candidate m)) | _ \<Rightarrow> Inl AmbiguousIdentity)"
  by (simp add: candidates_resolve_def resolve_loop_ids split: list.splits)

definition candidates_wf :: "mirror_candidate_registry \<Rightarrow> bool" where
  "candidates_wf r = (\<forall>i < length r. \<forall>m. r ! i = Some m \<longrightarrow> unat (mm_candidate m) = i)"

lemma candidates_ops_wf:
  assumes "candidates_wf r"
  shows "candidates_wf (candidates_new n)" "candidates_wf (fst (candidates_register m r))" "candidates_wf (fst (candidates_clear k r))" "candidates_wf (candidates_clear_source d r)"
  using assms
  by (auto simp: candidates_wf_def candidates_new_def candidates_register_def candidates_clear_def candidates_clear_source_def nth_list_update split: option.splits if_splits)

lemma candidates_lookup:
  assumes "candidates_register m r = (r', Inr ())"
  shows "candidates_get k r' = (if k = mm_candidate m then Some m else candidates_get k r)"
  using assms by (auto simp: candidates_register_def candidates_get_def nth_list_update word_unat_eq_iff split: if_splits)

end
