(* ===== verification/HS_Frame.thy ===== *)
theory HS_Frame
  imports HS_Message
begin

unbundle bit_operations_syntax

text \<open>
  The transport-neutral envelope of the management protocol (\<open>management/frame.rs\<close>): frames
  with a checksum, and their byte-stuffed form for serial streams. The stream decoder slices its
  input; where Rust would panic because the slice leaves the input, the model returns \<open>None\<close>.
\<close>

section \<open>Frames\<close>

definition FRAME_VERSION :: u8 where "FRAME_VERSION = 1"
definition FRAME_PAYLOAD_CAPACITY :: nat where "FRAME_PAYLOAD_CAPACITY = 512"
definition FRAME_HEADER_LEN :: nat where "FRAME_HEADER_LEN = 10"
definition FRAME_CRC_LEN :: nat where "FRAME_CRC_LEN = 2"
definition FRAME_CAPACITY :: nat where "FRAME_CAPACITY = FRAME_HEADER_LEN + FRAME_PAYLOAD_CAPACITY + FRAME_CRC_LEN"
definition STREAM_FRAME_CAPACITY :: nat where "STREAM_FRAME_CAPACITY = FRAME_CAPACITY + FRAME_CAPACITY div 254 + 2"
definition FRAME_MAGIC :: bytes where "FRAME_MAGIC = [0x48, 0x53]"

lemmas frame_sizes = FRAME_PAYLOAD_CAPACITY_def FRAME_HEADER_LEN_def FRAME_CRC_LEN_def FRAME_CAPACITY_def STREAM_FRAME_CAPACITY_def

datatype frame_error =
  FrTruncated | FrInvalidMagic | FrUnsupportedVersion | FrInvalidKind | FrInvalidNode | FrInvalidLength
  | FrPayloadTooLarge | FrCrcMismatch | FrMalformedCobs

datatype frame_kind = FkRequest | FkResponse | FkEvent | FkLog | FkUpdate

fun frame_kind_byte :: "frame_kind \<Rightarrow> u8" where
  "frame_kind_byte FkRequest = 1"
| "frame_kind_byte FkResponse = 2"
| "frame_kind_byte FkEvent = 3"
| "frame_kind_byte FkLog = 4"
| "frame_kind_byte FkUpdate = 5"

definition frame_kind_from_byte :: "u8 \<Rightarrow> frame_error + frame_kind" where
  "frame_kind_from_byte b =
     (if b = 1 then Inr FkRequest else if b = 2 then Inr FkResponse else if b = 3 then Inr FkEvent
      else if b = 4 then Inr FkLog else if b = 5 then Inr FkUpdate else Inl FrInvalidKind)"

datatype node_id = NodeHost | NodeDevice

fun node_id_byte :: "node_id \<Rightarrow> u8" where
  "node_id_byte NodeHost = 1"
| "node_id_byte NodeDevice = 2"

definition node_id_from_byte :: "u8 \<Rightarrow> frame_error + node_id" where
  "node_id_from_byte b = (if b = 1 then Inr NodeHost else if b = 2 then Inr NodeDevice else Inl FrInvalidNode)"

record frame =
  fr_kind :: frame_kind
  fr_request_id :: u16
  fr_node :: node_id
  fr_flags :: u8
  fr_payload :: bytes

definition frame_new :: "frame_kind \<Rightarrow> u16 \<Rightarrow> node_id \<Rightarrow> u8 \<Rightarrow> bytes \<Rightarrow> frame_error + frame" where
  "frame_new kind request_id node flags payload =
     (if FRAME_PAYLOAD_CAPACITY < length payload then Inl FrPayloadTooLarge
      else Inr \<lparr>fr_kind = kind, fr_request_id = request_id, fr_node = node, fr_flags = flags, fr_payload = payload\<rparr>)"

definition frame_body :: "frame \<Rightarrow> bytes" where
  "frame_body f =
     FRAME_MAGIC @ [FRAME_VERSION, frame_kind_byte (fr_kind f)] @ to_le 2 (fr_request_id f) @
     [node_id_byte (fr_node f), fr_flags f] @ to_le 2 (of_nat (length (fr_payload f)) :: u16) @ fr_payload f"

definition frame_encode :: "frame \<Rightarrow> bytes" where
  "frame_encode f = frame_body f @ to_le 2 (crc16_ccitt_false (frame_body f))"

definition frame_decode :: "bytes \<Rightarrow> frame_error + frame" where
  "frame_decode bs =
     (if length bs < FRAME_HEADER_LEN + FRAME_CRC_LEN then Inl FrTruncated
      else if subslice 0 2 bs \<noteq> FRAME_MAGIC then Inl FrInvalidMagic
      else if bs ! 2 \<noteq> FRAME_VERSION then Inl FrUnsupportedVersion
      else let payload_len = unat (from_le (subslice 8 10 bs) :: u16) in
        if FRAME_PAYLOAD_CAPACITY < payload_len then Inl FrPayloadTooLarge
        else if length bs \<noteq> FRAME_HEADER_LEN + payload_len + FRAME_CRC_LEN then Inl FrInvalidLength
        else let body_end = length bs - FRAME_CRC_LEN in
          if crc16_ccitt_false (take body_end bs) \<noteq> from_le (subslice body_end (body_end + 2) bs) then Inl FrCrcMismatch
          else bindE (frame_kind_from_byte (bs ! 3)) (\<lambda>kind.
               bindE (node_id_from_byte (bs ! 6)) (\<lambda>node.
                 frame_new kind (from_le (subslice 4 6 bs)) node (bs ! 7) (subslice FRAME_HEADER_LEN body_end bs))))"

section \<open>Byte stuffing\<close>

text \<open>A push whose error is ignored, as in \<open>let _ = encoded.push(byte)\<close>.\<close>

definition push_quiet :: "nat \<Rightarrow> 'a \<Rightarrow> 'a list \<Rightarrow> 'a list" where
  "push_quiet cap x xs = (if length xs < cap then xs @ [x] else xs)"

record stuffing =
  cs_encoded :: bytes
  cs_code_index :: nat
  cs_code :: u8

definition stuff_close :: "stuffing \<Rightarrow> stuffing" where
  "stuff_close s =
     (let encoded = (cs_encoded s)[cs_code_index s := cs_code s] in
      \<lparr>cs_encoded = push_quiet STREAM_FRAME_CAPACITY 0 encoded, cs_code_index = length encoded, cs_code = 1\<rparr>)"

definition stuff_byte :: "stuffing \<Rightarrow> u8 \<Rightarrow> stuffing" where
  "stuff_byte s byte =
     (if byte = 0 then stuff_close s
      else let s = s\<lparr>cs_encoded := push_quiet STREAM_FRAME_CAPACITY byte (cs_encoded s), cs_code := cs_code s + 1\<rparr> in
        if cs_code s = 0xff then stuff_close s else s)"

definition encode_stream :: "frame \<Rightarrow> bytes" where
  "encode_stream f =
     (let s = foldl stuff_byte \<lparr>cs_encoded = push_quiet STREAM_FRAME_CAPACITY 0 [], cs_code_index = 0, cs_code = 1\<rparr> (frame_encode f) in
      push_quiet STREAM_FRAME_CAPACITY 0 ((cs_encoded s)[cs_code_index s := cs_code s]))"

function unstuff :: "bytes \<Rightarrow> nat \<Rightarrow> bytes \<Rightarrow> (frame_error + bytes) option" where
  "unstuff encoded index decoded =
     (if length encoded \<le> index then Some (Inr decoded)
      else let code = unat (encoded ! index) in
        if code = 0 \<or> length encoded + 1 < index + code then Some (Inl FrMalformedCobs)
        else let fin = index + 1 + code - 1 in
          if length encoded < fin then None
          else if FRAME_CAPACITY < length decoded + (fin - (index + 1)) then Some (Inl FrPayloadTooLarge)
          else let decoded = decoded @ subslice (index + 1) fin encoded in
            if code \<noteq> 0xff \<and> fin < length encoded then
              (if length decoded < FRAME_CAPACITY then unstuff encoded fin (decoded @ [0]) else Some (Inl FrPayloadTooLarge))
            else unstuff encoded fin decoded)"
  by pat_completeness auto
termination by (relation "measure (\<lambda>(encoded, index, decoded). length encoded - index)") (auto simp: Let_def)

declare unstuff.simps [simp del]

definition strip_zero :: "bytes \<Rightarrow> bytes" where
  "strip_zero bs = (if bs \<noteq> [] \<and> last bs = 0 then butlast bs else bs)"

definition decode_stream :: "bytes \<Rightarrow> (frame_error + frame) option" where
  "decode_stream bs = map_option (\<lambda>r. bindE r frame_decode) (unstuff (strip_zero bs) 0 [])"

section \<open>The frame codec is exact\<close>

definition envelope_ok :: "frame \<Rightarrow> bool" where
  "envelope_ok f = (length (fr_payload f) \<le> FRAME_PAYLOAD_CAPACITY)"

lemma frame_kind_inverse: "frame_kind_from_byte b = Inr k \<longleftrightarrow> b = frame_kind_byte k"
  by (cases k) (auto simp: frame_kind_from_byte_def)

lemma node_id_inverse: "node_id_from_byte b = Inr n \<longleftrightarrow> b = node_id_byte n"
  by (cases n) (auto simp: node_id_from_byte_def)

lemma length_frame_body: "length (frame_body f) = FRAME_HEADER_LEN + length (fr_payload f)"
  by (simp add: frame_body_def FRAME_MAGIC_def frame_sizes)

lemma frame_body_fields:
  "subslice 0 2 (frame_body f @ r) = FRAME_MAGIC" "(frame_body f @ r) ! 2 = FRAME_VERSION" "(frame_body f @ r) ! 3 = frame_kind_byte (fr_kind f)"
  "subslice 4 6 (frame_body f @ r) = to_le 2 (fr_request_id f)" "(frame_body f @ r) ! 6 = node_id_byte (fr_node f)" "(frame_body f @ r) ! 7 = fr_flags f"
  "subslice 8 10 (frame_body f @ r) = to_le 2 (of_nat (length (fr_payload f)) :: u16)"
  "subslice FRAME_HEADER_LEN (FRAME_HEADER_LEN + length (fr_payload f)) (frame_body f @ r) = fr_payload f"
proof -
  obtain q0 q1 where q: "to_le 2 (fr_request_id f) = [q0, q1]" by (rule to_le_2_list)
  obtain l0 l1 where l: "to_le 2 (of_nat (length (fr_payload f)) :: u16) = [l0, l1]" by (rule to_le_2_list)
  have b: "frame_body f = [0x48, 0x53, FRAME_VERSION, frame_kind_byte (fr_kind f), q0, q1, node_id_byte (fr_node f), fr_flags f, l0, l1] @ fr_payload f"
    unfolding frame_body_def q l FRAME_MAGIC_def by simp
  show "subslice 0 2 (frame_body f @ r) = FRAME_MAGIC" "(frame_body f @ r) ! 2 = FRAME_VERSION" "(frame_body f @ r) ! 3 = frame_kind_byte (fr_kind f)"
    "subslice 4 6 (frame_body f @ r) = to_le 2 (fr_request_id f)" "(frame_body f @ r) ! 6 = node_id_byte (fr_node f)" "(frame_body f @ r) ! 7 = fr_flags f"
    "subslice 8 10 (frame_body f @ r) = to_le 2 (of_nat (length (fr_payload f)) :: u16)"
    "subslice FRAME_HEADER_LEN (FRAME_HEADER_LEN + length (fr_payload f)) (frame_body f @ r) = fr_payload f"
    unfolding b q l by (simp_all add: subslice_def FRAME_MAGIC_def FRAME_HEADER_LEN_def eval_nat_numeral)
qed

lemma frame_decode_encode:
  assumes "envelope_ok f"
  shows "frame_decode (frame_encode f) = Inr f"
proof -
  let ?b = "frame_body f" and ?c = "to_le 2 (crc16_ccitt_false (frame_body f))"
  have n: "unat (of_nat (length (fr_payload f)) :: u16) = length (fr_payload f)"
    using assms by (intro unat_of_nat_small) (simp add: envelope_ok_def frame_sizes)
  have e: "length (?b @ ?c) - FRAME_CRC_LEN = length ?b" by (simp add: FRAME_CRC_LEN_def)
  have crc: "from_le (subslice (length ?b) (length ?b + 2) (?b @ ?c)) = crc16_ccitt_false ?b" by (simp add: subslice_def)
  show ?thesis
    unfolding frame_decode_def frame_encode_def frame_body_fields(1-7) from_le_2 n Let_def e crc
    using assms frame_body_fields(8)[of f ?c] length_frame_body[of f]
    by (simp add: envelope_ok_def frame_new_def frame_kind_inverse[THEN iffD2, OF refl] node_id_inverse[THEN iffD2, OF refl] FRAME_CRC_LEN_def)
qed

lemma frame_encode_decode:
  assumes "frame_decode bs = Inr f"
  shows "envelope_ok f \<and> frame_encode f = bs"
proof -
  let ?n = "unat (from_le (subslice 8 10 bs) :: u16)" let ?e = "length bs - FRAME_CRC_LEN"
  have c: "FRAME_HEADER_LEN + FRAME_CRC_LEN \<le> length bs" "subslice 0 2 bs = FRAME_MAGIC" "bs ! 2 = FRAME_VERSION" "?n \<le> FRAME_PAYLOAD_CAPACITY"
    "length bs = FRAME_HEADER_LEN + ?n + FRAME_CRC_LEN" "crc16_ccitt_false (take ?e bs) = from_le (subslice ?e (?e + 2) bs)"
    and k: "bs ! 3 = frame_kind_byte (fr_kind f)" "bs ! 6 = node_id_byte (fr_node f)"
    and f: "f = \<lparr>fr_kind = fr_kind f, fr_request_id = from_le (subslice 4 6 bs), fr_node = fr_node f, fr_flags = bs ! 7, fr_payload = subslice FRAME_HEADER_LEN ?e bs\<rparr>"
    using assms by (auto simp: frame_decode_def Let_def frame_new_def bindE_Inr_iff frame_kind_inverse node_id_inverse split: if_splits)
  have len: "12 \<le> length bs" using c(1) by (simp add: frame_sizes)
  have p: "fr_payload f = subslice 10 ?e bs" using arg_cong[OF f, of fr_payload] by (simp add: FRAME_HEADER_LEN_def)
  have plen: "length (fr_payload f) = ?n" using c(5) by (simp add: p length_subslice frame_sizes)
  have "to_le 2 (of_nat (length (fr_payload f)) :: u16) = subslice 8 10 bs"
    unfolding plen using len by simp
  moreover have "to_le 2 (fr_request_id f) = subslice 4 6 bs"
    using arg_cong[OF f, of fr_request_id] len by simp
  moreover have "fr_flags f = bs ! 7" using arg_cong[OF f, of fr_flags] by simp
  ultimately have "frame_body f = subslice 0 2 bs @ subslice 2 3 bs @ subslice 3 4 bs @ subslice 4 6 bs @ subslice 6 7 bs @ subslice 7 8 bs @ subslice 8 10 bs @ subslice 10 ?e bs"
    using len subslice_one[of 2 bs] subslice_one[of 3 bs] subslice_one[of 6 bs] subslice_one[of 7 bs] c(2,3) k p by (simp add: frame_body_def)
  also have "\<dots> = subslice 0 ?e bs" using c(5) by (simp add: subslice_split frame_sizes)
  finally have b: "frame_body f = take ?e bs" by (simp add: subslice_def)
  have "to_le 2 (crc16_ccitt_false (take ?e bs)) = subslice ?e (?e + 2) bs"
    unfolding c(6) using len by (intro le2_slice) (simp_all add: FRAME_CRC_LEN_def)
  also have "\<dots> = drop ?e bs" using len by (simp add: subslice_def FRAME_CRC_LEN_def)
  finally have "to_le 2 (crc16_ccitt_false (take ?e bs)) = drop ?e bs" .
  then show ?thesis using c(4) plen by (simp add: frame_encode_def b envelope_ok_def)
qed

interpretation frame: wire_codec envelope_ok frame_encode frame_decode
  by unfold_locales (simp_all add: frame_decode_encode frame_encode_decode)

section \<open>Byte stuffing is inverse\<close>

text \<open>
  The stuffed form is a sequence of blocks: a code byte, one more than the number of data bytes
  behind it, and data without zeros. A block shorter than 254 bytes stands for its data and the
  zero that ended it, a full one for its data alone.
\<close>

definition block :: "bytes \<Rightarrow> bytes" where
  "block d = of_nat (length d + 1) # d"

definition block_data :: "bytes \<Rightarrow> bytes" where
  "block_data d = d @ (if length d = 254 then [] else [0])"

definition blocks_ok :: "bytes list \<Rightarrow> bool" where
  "blocks_ok ds = list_all (\<lambda>d. length d \<le> 254 \<and> 0 \<notin> set d) ds"

abbreviation (input) stuffed :: "bytes list \<Rightarrow> bytes" where "stuffed ds \<equiv> concat (map block ds)"
abbreviation (input) unstuffed :: "bytes list \<Rightarrow> bytes" where "unstuffed ds \<equiv> concat (map block_data ds)"

definition stuffing_inv :: "bytes \<Rightarrow> bytes list \<Rightarrow> bytes \<Rightarrow> stuffing \<Rightarrow> bool" where
  "stuffing_inv p ds cur s =
     (blocks_ok ds \<and> p = unstuffed ds @ cur \<and> 0 \<notin> set cur \<and> length cur < 254 \<and>
      cs_encoded s = stuffed ds @ 0 # cur \<and> cs_code_index s = length (stuffed ds) \<and> cs_code s = of_nat (length cur + 1))"

lemma stuffed_length: "blocks_ok ds \<Longrightarrow> 254 * length (stuffed ds) \<le> 255 * length (unstuffed ds)"
  by (induction ds) (auto simp: blocks_ok_def block_def block_data_def)

lemma stuffed_fits:
  assumes "blocks_ok ds" "length (unstuffed ds) + length cur \<le> FRAME_CAPACITY"
  shows "length (stuffed ds) + length cur + 2 \<le> STREAM_FRAME_CAPACITY"
  using stuffed_length[OF assms(1)] assms(2) by (simp add: frame_sizes)

lemma stuff_close_inv:
  assumes "blocks_ok ds" "0 \<notin> set cur" "length cur \<le> 254" "cs_encoded s = stuffed ds @ 0 # cur" "cs_code_index s = length (stuffed ds)"
    "cs_code s = of_nat (length cur + 1)" "length (unstuffed ds @ block_data cur) \<le> FRAME_CAPACITY"
  shows "stuffing_inv (unstuffed ds @ block_data cur) (ds @ [cur]) [] (stuff_close s)"
proof -
  have e: "(cs_encoded s)[cs_code_index s := cs_code s] = stuffed (ds @ [cur])" by (simp add: assms block_def)
  have "blocks_ok (ds @ [cur])" using assms by (simp add: blocks_ok_def)
  moreover have "length (stuffed (ds @ [cur])) < STREAM_FRAME_CAPACITY"
    using stuffed_fits[of "ds @ [cur]" "[]"] calculation assms(7) by simp
  ultimately show ?thesis unfolding stuffing_inv_def stuff_close_def Let_def e by (simp add: push_quiet_def)
qed

lemma stuff_byte_inv:
  assumes inv: "stuffing_inv p ds cur s" and fits: "length p < FRAME_CAPACITY"
  shows "\<exists>ds' cur'. stuffing_inv (p @ [b]) ds' cur' (stuff_byte s b)"
proof (cases "b = 0")
  case True
  have "stuffing_inv (unstuffed ds @ block_data cur) (ds @ [cur]) [] (stuff_close s)"
    using inv fits by (intro stuff_close_inv) (auto simp: stuffing_inv_def block_data_def)
  moreover have "unstuffed ds @ block_data cur = p @ [b]" using inv True by (simp add: stuffing_inv_def block_data_def)
  ultimately show ?thesis using True by (auto simp: stuff_byte_def)
next
  case False
  let ?s = "s\<lparr>cs_encoded := push_quiet STREAM_FRAME_CAPACITY b (cs_encoded s), cs_code := cs_code s + 1\<rparr>"
  have room: "length (stuffed ds) + length cur + 2 \<le> STREAM_FRAME_CAPACITY"
    using inv fits by (intro stuffed_fits) (auto simp: stuffing_inv_def)
  then have e: "cs_encoded ?s = stuffed ds @ 0 # (cur @ [b])" using inv by (simp add: stuffing_inv_def push_quiet_def)
  have c: "cs_code ?s = of_nat (length (cur @ [b]) + 1)" using inv by (simp add: stuffing_inv_def)
  have len: "length (cur @ [b]) \<le> 254" using inv by (simp add: stuffing_inv_def)
  then have "unat (of_nat (length (cur @ [b]) + 1) :: u8) = length (cur @ [b]) + 1" by (intro unat_of_nat_small) simp
  then have full: "cs_code ?s = 0xff \<longleftrightarrow> length (cur @ [b]) = 254"
    unfolding c word_unat_eq_iff by (simp only:) simp
  show ?thesis
  proof (cases "length (cur @ [b]) = 254")
    case True
    have "stuffing_inv (unstuffed ds @ block_data (cur @ [b])) (ds @ [cur @ [b]]) [] (stuff_close ?s)"
      using inv fits False True e c len by (intro stuff_close_inv) (auto simp: stuffing_inv_def block_data_def)
    moreover have "unstuffed ds @ block_data (cur @ [b]) = p @ [b]" using inv True by (simp add: stuffing_inv_def block_data_def)
    ultimately show ?thesis using False True full by (auto simp: stuff_byte_def Let_def)
  next
    case notfull: False
    then have "stuffing_inv (p @ [b]) ds (cur @ [b]) ?s" using inv False e c len by (auto simp: stuffing_inv_def)
    then show ?thesis using False notfull full by (auto simp: stuff_byte_def Let_def)
  qed
qed

lemma stuff_all:
  "length p \<le> FRAME_CAPACITY \<Longrightarrow>
    \<exists>ds cur. stuffing_inv p ds cur (foldl stuff_byte \<lparr>cs_encoded = push_quiet STREAM_FRAME_CAPACITY 0 [], cs_code_index = 0, cs_code = 1\<rparr> p)"
proof (induction p rule: rev_induct)
  case Nil
  have "stuffing_inv [] [] [] \<lparr>cs_encoded = [0], cs_code_index = 0, cs_code = 1\<rparr>" by (simp add: stuffing_inv_def blocks_ok_def)
  then show ?case by (auto simp: push_quiet_def frame_sizes)
next
  case (snoc b p)
  then show ?case using stuff_byte_inv[of p _ _ _ b] by fastforce
qed

lemma encode_stream_blocks:
  assumes "envelope_ok f"
  obtains ds cur where "blocks_ok (ds @ [cur])" "length cur < 254" "frame_encode f = unstuffed ds @ cur"
    "encode_stream f = stuffed (ds @ [cur]) @ [0]" "length (encode_stream f) \<le> STREAM_FRAME_CAPACITY"
proof -
  have len: "length (frame_encode f) \<le> FRAME_CAPACITY"
    using assms by (simp add: frame_encode_def length_frame_body envelope_ok_def FRAME_CAPACITY_def FRAME_CRC_LEN_def)
  define s where "s = foldl stuff_byte \<lparr>cs_encoded = push_quiet STREAM_FRAME_CAPACITY 0 [], cs_code_index = 0, cs_code = 1\<rparr> (frame_encode f)"
  obtain ds cur where i: "stuffing_inv (frame_encode f) ds cur s" using stuff_all[OF len] unfolding s_def by blast
  have e: "(cs_encoded s)[cs_code_index s := cs_code s] = stuffed (ds @ [cur])" using i by (simp add: stuffing_inv_def block_def)
  have room: "length (stuffed ds) + length cur + 2 \<le> STREAM_FRAME_CAPACITY"
    using i len by (intro stuffed_fits) (auto simp: stuffing_inv_def)
  have es: "encode_stream f = stuffed (ds @ [cur]) @ [0]"
    unfolding encode_stream_def Let_def s_def[symmetric] e using room by (simp add: push_quiet_def block_def)
  show ?thesis
    using i room es by (intro that[of ds cur]) (auto simp: stuffing_inv_def blocks_ok_def block_def)
qed

lemma block_code: "length d \<le> 254 \<Longrightarrow> unat (of_nat (length d + 1) :: u8) = length d + 1"
  by (intro unat_of_nat_small) simp

lemma unstuff_block:
  assumes "encoded = pre @ block d @ rest" "length d \<le> 254" "length decoded + length d + (if length d = 254 then 0 else 1) \<le> FRAME_CAPACITY" "rest \<noteq> []"
  shows "unstuff encoded (length pre) decoded = unstuff encoded (length (pre @ block d)) (decoded @ block_data d)"
proof -
  have c: "unat (encoded ! length pre) = length d + 1" unfolding assms(1) block_def using block_code[OF assms(2)] by simp
  have s: "subslice (length pre + 1) (length pre + 1 + length d) encoded = d" by (simp add: assms(1) block_def subslice_def)
  have l: "length pre + length d + 1 < length encoded" using assms(4) by (cases rest) (simp_all add: assms(1) block_def)
  show ?thesis
    by (subst unstuff.simps) (use c s l assms(2,3) in \<open>auto simp: Let_def block_data_def block_def add.commute\<close>)
qed

lemma unstuff_last:
  assumes "encoded = pre @ block d" "length d \<le> 254" "length decoded + length d \<le> FRAME_CAPACITY"
  shows "unstuff encoded (length pre) decoded = Some (Inr (decoded @ d))"
proof -
  have c: "unat (encoded ! length pre) = length d + 1" unfolding assms(1) block_def using block_code[OF assms(2)] by simp
  have s: "subslice (length pre + 1) (length pre + 1 + length d) encoded = d" by (simp add: assms(1) block_def subslice_def)
  have l: "length encoded = length pre + 1 + length d" by (simp add: assms(1) block_def)
  have "unstuff encoded (length pre) decoded = unstuff encoded (length pre + 1 + length d) (decoded @ d)"
    by (subst unstuff.simps) (use c s l assms(3) in \<open>auto simp: Let_def add.commute\<close>)
  then show ?thesis using l by (subst (asm) (2) unstuff.simps) simp
qed

lemma unstuff_overrun:
  assumes "encoded = pre @ butlast (block d)" "length d \<le> 254" "d \<noteq> []"
  shows "unstuff encoded (length pre) decoded = None"
proof -
  have e: "encoded = pre @ of_nat (length d + 1) # butlast d" using assms(1,3) by (simp add: block_def)
  have c: "unat (encoded ! length pre) = length d + 1" unfolding e using block_code[OF assms(2)] by simp
  have l: "length encoded = length pre + length d" using assms(3) by (simp add: e)
  show ?thesis by (subst unstuff.simps) (use c l assms(3) in \<open>auto simp: Let_def\<close>)
qed

lemma unstuff_blocks:
  assumes "blocks_ok ds" "encoded = pre @ stuffed ds @ rest" "rest \<noteq> []" "length decoded + length (unstuffed ds) \<le> FRAME_CAPACITY"
  shows "unstuff encoded (length pre) decoded = unstuff encoded (length (pre @ stuffed ds)) (decoded @ unstuffed ds)"
  using assms
proof (induction ds arbitrary: pre decoded)
  case (Cons d ds)
  have "unstuff encoded (length pre) decoded = unstuff encoded (length (pre @ block d)) (decoded @ block_data d)"
    using Cons.prems by (intro unstuff_block[of _ _ _ "stuffed ds @ rest"]) (auto simp: blocks_ok_def block_data_def)
  also have "\<dots> = unstuff encoded (length ((pre @ block d) @ stuffed ds)) ((decoded @ block_data d) @ unstuffed ds)"
    using Cons.prems by (intro Cons.IH) (auto simp: blocks_ok_def)
  finally show ?case by simp
qed simp

lemma stuffed_nonzero: "blocks_ok ds \<Longrightarrow> 0 \<notin> set (stuffed ds)"
proof (induction ds)
  case (Cons d ds)
  then have "unat (of_nat (length d + 1) :: u8) \<noteq> 0" by (subst block_code) (auto simp: blocks_ok_def)
  then have "(of_nat (length d + 1) :: u8) \<noteq> 0" by (metis unat_0)
  then show ?case using Cons by (auto simp: blocks_ok_def block_def)
qed simp

text \<open>
  C28: Frames survive the serial stream. Every frame with a payload of at most 512 bytes has a
  stuffed form that fits the stream buffer, contains the zero delimiter at its end and nowhere
  else, and is decoded to the same frame; and the frame codec below it is exact: a byte string
  decodes to a frame exactly if it is that frame's encoding.
\<close>

theorem stream_frames_roundtrip:
  assumes "envelope_ok f"
  shows "decode_stream (encode_stream f) = Some (Inr f) \<and> length (encode_stream f) \<le> STREAM_FRAME_CAPACITY \<and>
    last (encode_stream f) = 0 \<and> 0 \<notin> set (butlast (encode_stream f)) \<and>
    (frame_decode bs = Inr f \<longleftrightarrow> bs = frame_encode f)"
proof -
  obtain ds cur where b: "blocks_ok (ds @ [cur])" "length cur < 254" "frame_encode f = unstuffed ds @ cur"
    "encode_stream f = stuffed (ds @ [cur]) @ [0]" "length (encode_stream f) \<le> STREAM_FRAME_CAPACITY" by (rule encode_stream_blocks[OF assms])
  have len: "length (frame_encode f) \<le> FRAME_CAPACITY"
    using assms by (simp add: frame_encode_def length_frame_body envelope_ok_def FRAME_CAPACITY_def FRAME_CRC_LEN_def)
  let ?e = "stuffed (ds @ [cur])"
  have "unstuff ?e (length ([] :: bytes)) [] = unstuff ?e (length ([] @ stuffed ds)) ([] @ unstuffed ds)"
    using b(1,3) len by (intro unstuff_blocks[of _ _ _ "block cur"]) (auto simp: blocks_ok_def block_def)
  also have "\<dots> = Some (Inr (unstuffed ds @ cur))"
    using b(2,3) len unstuff_last[of ?e "stuffed ds" cur "unstuffed ds"] by simp
  finally have "unstuff ?e 0 [] = Some (Inr (frame_encode f))" by (simp add: b(3))
  moreover have "strip_zero (encode_stream f) = ?e" unfolding b(4) strip_zero_def by (metis butlast_snoc last_snoc snoc_eq_iff_butlast)
  ultimately have "decode_stream (encode_stream f) = Some (Inr f)"
    unfolding decode_stream_def using frame_decode_encode[OF assms] by (simp only: option.map bindE_def sum.case)
  moreover have "0 \<notin> set (butlast (encode_stream f))" unfolding b(4) butlast_snoc using b(1) by (rule stuffed_nonzero)
  ultimately show ?thesis using b(4,5) frame.exact[of bs f] assms by auto
qed

definition sample_envelope :: frame where
  "sample_envelope = \<lparr>fr_kind = FkRequest, fr_request_id = 7, fr_node = NodeHost, fr_flags = 0, fr_payload = []\<rparr>"

lemma crc16_byte_eval:
  "crc16_byte crc byte = crc16_bit (crc16_bit (crc16_bit (crc16_bit (crc16_bit (crc16_bit (crc16_bit (crc16_bit (crc XOR push_bit 8 (ucast byte)))))))))"
  by (simp add: crc16_byte_def eval_nat_numeral)

lemma sample_crc_steps:
  "crc16_byte 0xffff 72 = 10300"
  "crc16_byte 0x283c 83 = 62460"
  "crc16_byte 0xf3fc 1 = 13149"
  "crc16_byte 0x335d 1 = 19217"
  "crc16_byte 0x4b11 7 = 38984"
  "crc16_byte 0x9848 0 = 19121"
  "crc16_byte 0x4ab1 1 = 18607"
  "crc16_byte 0x48af 0 = 26316"
  "crc16_byte 0x66cc 0 = 49248"
  "crc16_byte 0xc060 0 = 47436"
  by (simp_all add: crc16_byte_eval crc16_bit_def)

lemma sample_envelope_bytes: "frame_encode sample_envelope = [0x48, 0x53, 1, 1, 7, 0, 1, 0, 0, 0, 0x4c, 0xb9]"
proof -
  have "to_le 2 (7 :: u16) = [7, 0]" "to_le 2 (0 :: u16) = [0, 0]" "to_le 2 (0xb94c :: u16) = [0x4c, 0xb9]" by code_simp+
  moreover from this have "frame_body sample_envelope = [0x48, 0x53, 1, 1, 7, 0, 1, 0, 0, 0]"
    by (simp add: sample_envelope_def frame_body_def FRAME_MAGIC_def FRAME_VERSION_def)
  ultimately show ?thesis by (simp add: frame_encode_def crc16_ccitt_false_def sample_crc_steps)
qed

theorem stream_frames_roundtrip_witness:
  "decode_stream (encode_stream sample_envelope) = Some (Inr sample_envelope) \<and> frame_decode (frame_encode sample_envelope) = Inr sample_envelope"
  using stream_frames_roundtrip[of sample_envelope "frame_encode sample_envelope"] by (simp add: envelope_ok_def sample_envelope_def frame_sizes)

text \<open>The bytes behind the last zero of a frame; the encoder's last block holds their number modulo a full block.\<close>

definition trailing_run :: "bytes \<Rightarrow> nat" where
  "trailing_run bs = length (takeWhile (\<lambda>b. b \<noteq> 0) (rev bs))"

lemma trailing_run_append: "0 \<notin> set cur \<Longrightarrow> trailing_run (bs @ cur) = length cur + trailing_run bs"
proof -
  assume "0 \<notin> set cur"
  then have "takeWhile (\<lambda>b. b \<noteq> 0) (rev cur @ rev bs) = rev cur @ takeWhile (\<lambda>b. b \<noteq> 0) (rev bs)"
    by (intro takeWhile_append2) (metis set_rev)
  then show ?thesis by (simp add: trailing_run_def)
qed

lemma trailing_run_unstuffed: "blocks_ok ds \<Longrightarrow> 254 dvd trailing_run (unstuffed ds)"
proof (induction ds rule: rev_induct)
  case Nil
  then show ?case by (simp add: trailing_run_def)
next
  case (snoc d ds)
  then have d: "length d \<le> 254" "0 \<notin> set d" and ds: "blocks_ok ds" by (simp_all add: blocks_ok_def)
  show ?case
  proof (cases "length d = 254")
    case True
    then have "unstuffed (ds @ [d]) = unstuffed ds @ d" by (simp add: block_data_def)
    then show ?thesis using snoc.IH[OF ds] trailing_run_append[OF d(2), of "unstuffed ds"] True by (simp only:) simp
  next
    case False
    then show ?thesis by (simp add: block_data_def trailing_run_def)
  qed
qed

lemma last_block_length:
  assumes "blocks_ok (ds @ [cur])" "length cur < 254"
  shows "trailing_run (unstuffed ds @ cur) mod 254 = length cur"
proof -
  obtain k where k: "trailing_run (unstuffed ds) = 254 * k"
    using trailing_run_unstuffed[of ds] assms(1) by (auto simp: blocks_ok_def elim: dvdE)
  have "trailing_run (unstuffed ds @ cur) = length cur + 254 * k"
    using trailing_run_append[of cur "unstuffed ds"] assms(1) k by (simp add: blocks_ok_def)
  then show ?thesis using assms(2) by simp
qed

text \<open>
  C29: The stream decoder overruns its input. For every frame of at most 512 payload bytes whose
  stuffed form loses the last byte before its delimiter: the decoder slices one byte past the end
  of its input, where Rust panics instead of reporting malformed stuffing, exactly if the
  encoder's last block has data, that is if the number of bytes behind the frame's last zero is
  not a multiple of 254. Otherwise the lost byte is the code of an empty block and nothing overruns.
\<close>

theorem truncated_stream_overruns:
  assumes "envelope_ok f"
  shows "decode_stream (butlast (butlast (encode_stream f)) @ [0]) = None \<longleftrightarrow> trailing_run (frame_encode f) mod 254 \<noteq> 0"
proof -
  obtain ds cur where b: "blocks_ok (ds @ [cur])" "length cur < 254" "frame_encode f = unstuffed ds @ cur"
    "encode_stream f = stuffed (ds @ [cur]) @ [0]" by (rule encode_stream_blocks[OF assms])
  have len: "length (frame_encode f) \<le> FRAME_CAPACITY"
    using assms by (simp add: frame_encode_def length_frame_body envelope_ok_def FRAME_CAPACITY_def FRAME_CRC_LEN_def)
  have run: "trailing_run (frame_encode f) mod 254 = length cur" using last_block_length[OF b(1,2)] b(3) by simp
  let ?e = "stuffed ds @ butlast (block cur)"
  have "butlast (butlast (encode_stream f)) = ?e"
    unfolding b(4) butlast_snoc using butlast_append[of "stuffed ds" "block cur"] by (simp add: block_def)
  moreover have "strip_zero (?e @ [0]) = ?e" unfolding strip_zero_def by (metis butlast_snoc last_snoc snoc_eq_iff_butlast)
  ultimately have dec: "decode_stream (butlast (butlast (encode_stream f)) @ [0]) = map_option (\<lambda>r. bindE r frame_decode) (unstuff ?e 0 [])"
    by (simp only: decode_stream_def)
  show ?thesis
  proof (cases "cur = []")
    case True
    then have "frame_encode f = unstuffed ds" using b(3) by simp
    moreover have "frame_encode f \<noteq> []" by (simp add: frame_encode_def frame_body_def)
    ultimately obtain ds' d where ds: "ds = ds' @ [d]" by (cases ds rule: rev_exhaust) auto
    have e: "?e = stuffed ds' @ block d" using True ds by (simp add: block_def)
    have fit: "length (unstuffed ds') + length d \<le> FRAME_CAPACITY" using len b(3) ds by (simp add: block_data_def split: if_splits)
    have d: "length d \<le> 254" "blocks_ok ds'" using b(1) ds by (simp_all add: blocks_ok_def)
    have "unstuff ?e (length ([] :: bytes)) [] = unstuff ?e (length ([] @ stuffed ds')) ([] @ unstuffed ds')"
      using fit d(2) e by (intro unstuff_blocks[of _ _ _ "block d"]) (auto simp: block_def)
    also have "\<dots> = Some (Inr (unstuffed ds' @ d))" using unstuff_last[OF e d(1), of "unstuffed ds'"] fit by simp
    finally show ?thesis using dec run True by simp
  next
    case False
    have "unstuff ?e (length ([] :: bytes)) [] = unstuff ?e (length ([] @ stuffed ds)) ([] @ unstuffed ds)"
      using b(1,3) len False by (intro unstuff_blocks[of _ _ _ "butlast (block cur)"]) (auto simp: blocks_ok_def block_def)
    also have "\<dots> = None" using b(2) False unstuff_overrun[of ?e "stuffed ds" cur] by simp
    finally show ?thesis using dec run False by simp
  qed
qed

theorem truncated_stream_overruns_witness:
  "decode_stream (butlast (butlast (encode_stream sample_envelope)) @ [0]) = None \<and>
   butlast (butlast (encode_stream sample_envelope)) @ [0] = [6, 0x48, 0x53, 1, 1, 7, 2, 1, 1, 1, 3, 0x4c, 0]"
proof -
  have "encode_stream sample_envelope = [6, 0x48, 0x53, 1, 1, 7, 2, 1, 1, 1, 3, 0x4c, 0xb9, 0]"
    unfolding encode_stream_def sample_envelope_bytes by (simp add: stuff_byte_def stuff_close_def push_quiet_def frame_sizes Let_def)
  moreover have "envelope_ok sample_envelope" by (simp add: envelope_ok_def sample_envelope_def)
  moreover have "trailing_run (frame_encode sample_envelope) mod 254 \<noteq> 0" by (simp add: sample_envelope_bytes trailing_run_def)
  ultimately show ?thesis using truncated_stream_overruns[of sample_envelope] by simp
qed

end
