(* ===== verification/HS_Management.thy ===== *)
theory HS_Management
  imports HS_Message HS_Profiles HS_Routing HS_StoragePersist
begin

unbundle bit_operations_syntax

text \<open>
  The management protocol (\<open>management.rs\<close>): fixed-size requests, responses and events. The
  flag \<open>w\<close> is the cargo feature of the dual-chip build, which adds commands and payloads. The
  32-bit setting values are integers; on the wire they are in two's complement.
\<close>

section \<open>Constants\<close>

definition MANAGEMENT_PROTOCOL_VERSION :: u8 where "MANAGEMENT_PROTOCOL_VERSION = 1"
definition MANAGEMENT_REQUEST_LEN :: nat where "MANAGEMENT_REQUEST_LEN = 20"
definition MANAGEMENT_RESPONSE_LEN :: nat where "MANAGEMENT_RESPONSE_LEN = 20"
definition MANAGEMENT_EVENT_LEN :: nat where "MANAGEMENT_EVENT_LEN = 4"
definition MANAGEMENT_HOST_NAME_LEN :: nat where "MANAGEMENT_HOST_NAME_LEN = 12"
definition MANAGEMENT_USB_NAME_CHUNK_LEN :: nat where "MANAGEMENT_USB_NAME_CHUNK_LEN = 4"
definition MANAGEMENT_CAPABILITY_DUAL_S3_WIRED :: u8 where "MANAGEMENT_CAPABILITY_DUAL_S3_WIRED = 1"
definition MANAGEMENT_CAPABILITY_COMPANION_EVENTS :: u8 where "MANAGEMENT_CAPABILITY_COMPANION_EVENTS = 2"
definition MANAGEMENT_CAPABILITY_COMPUTER_TARGET_LINKS :: u8 where "MANAGEMENT_CAPABILITY_COMPUTER_TARGET_LINKS = 4"

definition OP_GET_STATUS :: u8 where "OP_GET_STATUS = 0x01"
definition OP_SELECT_HOST :: u8 where "OP_SELECT_HOST = 0x02"
definition OP_START_PAIRING :: u8 where "OP_START_PAIRING = 0x03"
definition OP_FORGET_HOST :: u8 where "OP_FORGET_HOST = 0x04"
definition OP_GET_HOST_INFO :: u8 where "OP_GET_HOST_INFO = 0x05"
definition OP_SET_HOST_NAME :: u8 where "OP_SET_HOST_NAME = 0x06"
definition OP_CANCEL_PAIRING :: u8 where "OP_CANCEL_PAIRING = 0x07"
definition OP_GET_USB_DEVICE :: u8 where "OP_GET_USB_DEVICE = 0x08"
definition OP_GET_DIAGNOSTICS :: u8 where "OP_GET_DIAGNOSTICS = 0x09"
definition OP_GET_HISTORY :: u8 where "OP_GET_HISTORY = 0x0a"
definition OP_GET_SCHEMA :: u8 where "OP_GET_SCHEMA = 0x0b"
definition OP_GET_SETTING :: u8 where "OP_GET_SETTING = 0x0c"
definition OP_SET_SETTING :: u8 where "OP_SET_SETTING = 0x0d"
definition OP_GET_HOST_TIMING :: u8 where "OP_GET_HOST_TIMING = 0x0e"
definition OP_GET_CLIENT_SESSION :: u8 where "OP_GET_CLIENT_SESSION = 0x12"
definition OP_SELECT_OUTPUT_TARGET :: u8 where "OP_SELECT_OUTPUT_TARGET = 0x0f"
definition OP_GET_OUTPUT_TARGET_STATUS :: u8 where "OP_GET_OUTPUT_TARGET_STATUS = 0x10"
definition OP_GET_MIRROR_CANDIDATE :: u8 where "OP_GET_MIRROR_CANDIDATE = 0x11"
definition OP_SET_MIRROR_TARGET :: u8 where "OP_SET_MIRROR_TARGET = 0x13"
definition OP_CLEAR_MIRROR_TARGET :: u8 where "OP_CLEAR_MIRROR_TARGET = 0x14"
definition OP_SET_WIRED_HOST_LINK :: u8 where "OP_SET_WIRED_HOST_LINK = 0x15"

lemmas op_codes = OP_GET_STATUS_def OP_SELECT_HOST_def OP_START_PAIRING_def OP_FORGET_HOST_def OP_GET_HOST_INFO_def
  OP_SET_HOST_NAME_def OP_CANCEL_PAIRING_def OP_GET_USB_DEVICE_def OP_GET_DIAGNOSTICS_def OP_GET_HISTORY_def OP_GET_SCHEMA_def
  OP_GET_SETTING_def OP_SET_SETTING_def OP_GET_HOST_TIMING_def OP_GET_CLIENT_SESSION_def OP_SELECT_OUTPUT_TARGET_def
  OP_GET_OUTPUT_TARGET_STATUS_def OP_GET_MIRROR_CANDIDATE_def OP_SET_MIRROR_TARGET_def OP_CLEAR_MIRROR_TARGET_def OP_SET_WIRED_HOST_LINK_def

definition PAYLOAD_NONE :: u8 where "PAYLOAD_NONE = 0"
definition PAYLOAD_STATUS :: u8 where "PAYLOAD_STATUS = 1"
definition PAYLOAD_HOST_INFO :: u8 where "PAYLOAD_HOST_INFO = 2"
definition PAYLOAD_USB_DEVICE :: u8 where "PAYLOAD_USB_DEVICE = 3"
definition PAYLOAD_DIAGNOSTICS :: u8 where "PAYLOAD_DIAGNOSTICS = 4"
definition PAYLOAD_HISTORY :: u8 where "PAYLOAD_HISTORY = 5"
definition PAYLOAD_SCHEMA :: u8 where "PAYLOAD_SCHEMA = 6"
definition PAYLOAD_SETTING :: u8 where "PAYLOAD_SETTING = 7"
definition PAYLOAD_HOST_TIMING :: u8 where "PAYLOAD_HOST_TIMING = 8"
definition PAYLOAD_CLIENT_SESSION :: u8 where "PAYLOAD_CLIENT_SESSION = 11"
definition PAYLOAD_OUTPUT_TARGET_STATUS :: u8 where "PAYLOAD_OUTPUT_TARGET_STATUS = 9"
definition PAYLOAD_MIRROR_CANDIDATE :: u8 where "PAYLOAD_MIRROR_CANDIDATE = 10"
definition STATUS_PAYLOAD_LEN :: u8 where "STATUS_PAYLOAD_LEN = 11"
definition HOST_INFO_PAYLOAD_LEN :: u8 where "HOST_INFO_PAYLOAD_LEN = 15"
definition USB_DEVICE_PAYLOAD_LEN :: u8 where "USB_DEVICE_PAYLOAD_LEN = 15"
definition DIAGNOSTICS_PAYLOAD_LEN :: u8 where "DIAGNOSTICS_PAYLOAD_LEN = 15"
definition HISTORY_PAYLOAD_LEN :: u8 where "HISTORY_PAYLOAD_LEN = 15"
definition SCHEMA_PAYLOAD_LEN :: u8 where "SCHEMA_PAYLOAD_LEN = 8"
definition SETTING_PAYLOAD_LEN :: u8 where "SETTING_PAYLOAD_LEN = 8"
definition HOST_TIMING_PAYLOAD_LEN :: u8 where "HOST_TIMING_PAYLOAD_LEN = 10"
definition CLIENT_SESSION_PAYLOAD_LEN :: u8 where "CLIENT_SESSION_PAYLOAD_LEN = 1"
definition OUTPUT_TARGET_STATUS_PAYLOAD_LEN :: u8 where "OUTPUT_TARGET_STATUS_PAYLOAD_LEN = 14"
definition MIRROR_CANDIDATE_PAYLOAD_LEN :: u8 where "MIRROR_CANDIDATE_PAYLOAD_LEN = 15"

lemmas payload_codes = PAYLOAD_NONE_def PAYLOAD_STATUS_def PAYLOAD_HOST_INFO_def PAYLOAD_USB_DEVICE_def PAYLOAD_DIAGNOSTICS_def
  PAYLOAD_HISTORY_def PAYLOAD_SCHEMA_def PAYLOAD_SETTING_def PAYLOAD_HOST_TIMING_def PAYLOAD_CLIENT_SESSION_def
  PAYLOAD_OUTPUT_TARGET_STATUS_def PAYLOAD_MIRROR_CANDIDATE_def STATUS_PAYLOAD_LEN_def HOST_INFO_PAYLOAD_LEN_def
  USB_DEVICE_PAYLOAD_LEN_def DIAGNOSTICS_PAYLOAD_LEN_def HISTORY_PAYLOAD_LEN_def SCHEMA_PAYLOAD_LEN_def SETTING_PAYLOAD_LEN_def
  HOST_TIMING_PAYLOAD_LEN_def CLIENT_SESSION_PAYLOAD_LEN_def OUTPUT_TARGET_STATUS_PAYLOAD_LEN_def MIRROR_CANDIDATE_PAYLOAD_LEN_def

lemmas management_sizes = MANAGEMENT_REQUEST_LEN_def MANAGEMENT_RESPONSE_LEN_def MANAGEMENT_EVENT_LEN_def
  MANAGEMENT_HOST_NAME_LEN_def MANAGEMENT_USB_NAME_CHUNK_LEN_def MANAGEMENT_PROTOCOL_VERSION_def

datatype management_protocol_error = MgInvalidLength | MgUnsupportedVersion | MgUnknownCommand | MgInvalidArgument

section \<open>Shared parts\<close>

definition option_host_id :: "host_id option \<Rightarrow> u8" where
  "option_host_id h = (case h of Some h \<Rightarrow> h | None \<Rightarrow> 0)"

definition decode_optional_host :: "u8 \<Rightarrow> host_id option" where
  "decode_optional_host v = (if v = 0 then None else Some v)"

datatype setting_target = TargetGlobal | TargetInput input_profile_id

fun encode_setting_target :: "setting_target \<Rightarrow> bytes" where
  "encode_setting_target TargetGlobal = [0, 0]"
| "encode_setting_target (TargetInput p) = [1, p]"

definition decode_setting_target :: "u8 \<Rightarrow> u8 \<Rightarrow> management_protocol_error + setting_target" where
  "decode_setting_target scope target =
     (if scope = 0 \<and> target = 0 then Inr TargetGlobal
      else if scope = 1 \<and> 1 \<le> target \<and> target \<le> 8 then
        (case input_profile_id_new target of Some p \<Rightarrow> Inr (TargetInput p) | None \<Rightarrow> Inl MgInvalidArgument)
      else Inl MgInvalidArgument)"

datatype management_output_target = MoWired | MoBle host_id

fun management_output_target_encode :: "management_output_target \<Rightarrow> u8 \<times> u8" where
  "management_output_target_encode MoWired = (0, 0)"
| "management_output_target_encode (MoBle h) = (1, h)"

definition management_output_target_decode :: "u8 \<Rightarrow> u8 \<Rightarrow> management_protocol_error + management_output_target" where
  "management_output_target_decode kind i =
     (if kind = 0 \<and> i = 0 then Inr MoWired
      else if kind = 1 \<and> 1 \<le> i \<and> i \<le> 4 then Inr (MoBle i) else Inl MgInvalidArgument)"

fun to_output_target :: "management_output_target \<Rightarrow> output_target" where
  "to_output_target MoWired = Wired"
| "to_output_target (MoBle h) = Ble h"

fun of_output_target :: "output_target \<Rightarrow> management_output_target" where
  "of_output_target Wired = MoWired"
| "of_output_target (Ble h) = MoBle h"

datatype management_destination = DestWiredHid | DestDebugSerial | DestBle host_id

record management_host_name =
  hn_len :: u8
  hn_bytes :: bytes

definition name_byte_ok :: "u8 \<Rightarrow> bool" where
  "name_byte_ok b = (b = 0x20 \<or> 0x21 \<le> b \<and> b \<le> 0x7e)"

definition host_name_empty :: management_host_name where
  "host_name_empty = \<lparr>hn_len = 0, hn_bytes = replicate MANAGEMENT_HOST_NAME_LEN 0\<rparr>"

definition host_name_from_ascii :: "bytes \<Rightarrow> management_protocol_error + management_host_name" where
  "host_name_from_ascii name =
     (if MANAGEMENT_HOST_NAME_LEN < length name \<or> \<not> list_all name_byte_ok name then Inl MgInvalidArgument
      else Inr \<lparr>hn_len = of_nat (length name), hn_bytes = write_at 0 name (replicate MANAGEMENT_HOST_NAME_LEN 0)\<rparr>)"

definition host_name_from_parts :: "u8 \<Rightarrow> bytes \<Rightarrow> management_protocol_error + management_host_name" where
  "host_name_from_parts len bs =
     (if MANAGEMENT_HOST_NAME_LEN < unat len \<or> \<not> list_all name_byte_ok (take (unat len) bs) then Inl MgInvalidArgument
      else Inr \<lparr>hn_len = len, hn_bytes = bs\<rparr>)"

definition host_name_as_bytes :: "management_host_name \<Rightarrow> bytes" where
  "host_name_as_bytes n = take (unat (hn_len n)) (hn_bytes n)"

text \<open>Reading a 32-bit signed value in two's complement.\<close>

definition i32_of :: "bytes \<Rightarrow> int" where
  "i32_of bs = sint (from_le bs :: u32)"

section \<open>Events\<close>

datatype management_event = EvStatusChanged u16

fun management_event_encode :: "management_event \<Rightarrow> bytes" where
  "management_event_encode (EvStatusChanged sequence) = [MANAGEMENT_PROTOCOL_VERSION, 1] @ to_le 2 sequence"

definition management_event_decode :: "bytes \<Rightarrow> management_protocol_error + management_event" where
  "management_event_decode bs =
     (if length bs \<noteq> MANAGEMENT_EVENT_LEN then Inl MgInvalidLength
      else if bs ! 0 \<noteq> MANAGEMENT_PROTOCOL_VERSION then Inl MgUnsupportedVersion
      else if bs ! 1 = 1 then Inr (EvStatusChanged (from_le (subslice 2 4 bs)))
      else Inl MgUnknownCommand)"

section \<open>Requests\<close>

datatype management_command =
  McGetStatus | McSelectHost host_id | McStartPairing host_id | McForgetHost host_id | McGetHostInfo host_id
  | McSetHostName host_id management_host_name | McCancelPairing | McGetUsbDevice u8 u8 | McGetDiagnostics
  | McGetHostTiming host_id | McGetClientSession | McGetHistory u8 | McGetSchema | McGetSetting setting_id setting_target
  | McSetSetting setting_id setting_target int
  | McSelectOutputTarget management_output_target | McGetOutputTargetStatus | McGetMirrorCandidate mirror_candidate_id
  | McSetMirrorTarget mirror_candidate_id | McClearMirrorTarget | McSetWiredHostLink "host_id option"

record management_request =
  mq_request_id :: u8
  mq_command :: management_command

text \<open>
  The table of patterns over operation code and payload. An operation code the build knows with
  a payload of another shape is an invalid argument, any other code is unknown.
\<close>

definition no_argument :: "management_command \<Rightarrow> bytes \<Rightarrow> management_protocol_error + management_command" where
  "no_argument c payload = (if payload = [] then Inr c else Inl MgInvalidArgument)"

definition byte_argument :: "(u8 \<Rightarrow> management_protocol_error + management_command) \<Rightarrow> bytes \<Rightarrow> management_protocol_error + management_command" where
  "byte_argument f payload = (case payload of [b] \<Rightarrow> f b | _ \<Rightarrow> Inl MgInvalidArgument)"

definition decode_setting_id :: "u8 \<Rightarrow> u8 \<Rightarrow> management_protocol_error + setting_id" where
  "decode_setting_id low high = (case setting_id_from_u16 (from_le [low, high]) of Some i \<Rightarrow> Inr i | None \<Rightarrow> Inl MgInvalidArgument)"

definition decode_wired_link :: "u8 \<Rightarrow> management_protocol_error + management_command" where
  "decode_wired_link h =
     (if h = 0 then Inr (McSetWiredHostLink None)
      else if 1 \<le> h \<and> h \<le> 4 then Inr (McSetWiredHostLink (Some h)) else Inl MgInvalidArgument)"

definition decode_set_name :: "bytes \<Rightarrow> management_protocol_error + management_command" where
  "decode_set_name payload =
     (if length payload = 2 + MANAGEMENT_HOST_NAME_LEN then
        (if MANAGEMENT_HOST_NAME_LEN < unat (payload ! 1) then Inl MgInvalidArgument
         else bindE (host_name_from_parts (payload ! 1) (drop 2 payload)) (\<lambda>name. Inr (McSetHostName (payload ! 0) name)))
      else Inl MgInvalidArgument)"

definition decode_wired_command :: "u8 \<Rightarrow> bytes \<Rightarrow> management_protocol_error + management_command" where
  "decode_wired_command op payload =
     (if op = OP_SELECT_OUTPUT_TARGET then
        (case payload of [kind, i] \<Rightarrow> bindE (management_output_target_decode kind i) (\<lambda>t. Inr (McSelectOutputTarget t)) | _ \<Rightarrow> Inl MgInvalidArgument)
      else if op = OP_GET_OUTPUT_TARGET_STATUS then no_argument McGetOutputTargetStatus payload
      else if op = OP_GET_MIRROR_CANDIDATE then byte_argument (\<lambda>c. Inr (McGetMirrorCandidate c)) payload
      else if op = OP_SET_MIRROR_TARGET then byte_argument (\<lambda>c. Inr (McSetMirrorTarget c)) payload
      else if op = OP_CLEAR_MIRROR_TARGET then no_argument McClearMirrorTarget payload
      else if op = OP_SET_WIRED_HOST_LINK then byte_argument decode_wired_link payload
      else Inl MgUnknownCommand)"

definition decode_command :: "bool \<Rightarrow> u8 \<Rightarrow> bytes \<Rightarrow> management_protocol_error + management_command" where
  "decode_command w op payload =
     (if op = OP_GET_STATUS then no_argument McGetStatus payload
      else if op = OP_SELECT_HOST then byte_argument (\<lambda>h. Inr (McSelectHost h)) payload
      else if op = OP_START_PAIRING then byte_argument (\<lambda>h. Inr (McStartPairing h)) payload
      else if op = OP_FORGET_HOST then byte_argument (\<lambda>h. Inr (McForgetHost h)) payload
      else if op = OP_GET_HOST_INFO then byte_argument (\<lambda>h. Inr (McGetHostInfo h)) payload
      else if op = OP_CANCEL_PAIRING then no_argument McCancelPairing payload
      else if op = OP_GET_USB_DEVICE then
        (case payload of [index, name_offset] \<Rightarrow> Inr (McGetUsbDevice index name_offset) | _ \<Rightarrow> Inl MgInvalidArgument)
      else if op = OP_GET_DIAGNOSTICS then no_argument McGetDiagnostics payload
      else if op = OP_GET_HOST_TIMING then byte_argument (\<lambda>h. Inr (McGetHostTiming h)) payload
      else if op = OP_GET_CLIENT_SESSION then no_argument McGetClientSession payload
      else if op = OP_GET_HISTORY then byte_argument (\<lambda>i. Inr (McGetHistory i)) payload
      else if op = OP_GET_SCHEMA then no_argument McGetSchema payload
      else if op = OP_GET_SETTING then
        (case payload of
           [low, high, scope, target] \<Rightarrow>
             bindE (decode_setting_id low high) (\<lambda>i. bindE (decode_setting_target scope target) (\<lambda>t. Inr (McGetSetting i t)))
         | _ \<Rightarrow> Inl MgInvalidArgument)
      else if op = OP_SET_SETTING then
        (case payload of
           [low, high, scope, target, v0, v1, v2, v3] \<Rightarrow>
             bindE (decode_setting_id low high) (\<lambda>i. bindE (decode_setting_target scope target) (\<lambda>t.
               Inr (McSetSetting i t (i32_of [v0, v1, v2, v3]))))
         | _ \<Rightarrow> Inl MgInvalidArgument)
      else if op = OP_SET_HOST_NAME then decode_set_name payload
      else if w then decode_wired_command op payload
      else Inl MgUnknownCommand)"

definition management_request_decode :: "bool \<Rightarrow> bytes \<Rightarrow> management_protocol_error + management_request" where
  "management_request_decode w bs =
     (if length bs \<noteq> MANAGEMENT_REQUEST_LEN then Inl MgInvalidLength
      else if bs ! 0 \<noteq> MANAGEMENT_PROTOCOL_VERSION then Inl MgUnsupportedVersion
      else let payload_len = unat (bs ! 3) in
        if MANAGEMENT_REQUEST_LEN - 4 < payload_len then Inl MgInvalidLength
        else bindE (decode_command w (bs ! 2) (subslice 4 (4 + payload_len) bs)) (\<lambda>command.
          Inr \<lparr>mq_request_id = bs ! 1, mq_command = command\<rparr>))"

text \<open>What the encoder writes from byte 2 on: operation code, length and payload.\<close>

definition encode_host_command :: "u8 \<Rightarrow> host_id \<Rightarrow> bytes" where
  "encode_host_command opcode h = [opcode, 1, h]"

fun encode_command :: "management_command \<Rightarrow> bytes" where
  "encode_command McGetStatus = [OP_GET_STATUS]"
| "encode_command (McSelectHost h) = encode_host_command OP_SELECT_HOST h"
| "encode_command (McStartPairing h) = encode_host_command OP_START_PAIRING h"
| "encode_command (McForgetHost h) = encode_host_command OP_FORGET_HOST h"
| "encode_command (McGetHostInfo h) = encode_host_command OP_GET_HOST_INFO h"
| "encode_command McCancelPairing = [OP_CANCEL_PAIRING]"
| "encode_command (McGetUsbDevice index name_offset) = [OP_GET_USB_DEVICE, 2, index, name_offset]"
| "encode_command McGetDiagnostics = [OP_GET_DIAGNOSTICS]"
| "encode_command (McGetHostTiming h) = encode_host_command OP_GET_HOST_TIMING h"
| "encode_command McGetClientSession = [OP_GET_CLIENT_SESSION]"
| "encode_command (McSelectOutputTarget t) =
     (case management_output_target_encode t of (kind, i) \<Rightarrow> [OP_SELECT_OUTPUT_TARGET, 2, kind, i])"
| "encode_command McGetOutputTargetStatus = [OP_GET_OUTPUT_TARGET_STATUS]"
| "encode_command (McGetMirrorCandidate c) = [OP_GET_MIRROR_CANDIDATE, 1, c]"
| "encode_command (McSetMirrorTarget c) = [OP_SET_MIRROR_TARGET, 1, c]"
| "encode_command McClearMirrorTarget = [OP_CLEAR_MIRROR_TARGET]"
| "encode_command (McSetWiredHostLink h) = [OP_SET_WIRED_HOST_LINK, 1, option_host_id h]"
| "encode_command (McGetHistory index) = [OP_GET_HISTORY, 1, index]"
| "encode_command McGetSchema = [OP_GET_SCHEMA]"
| "encode_command (McGetSetting i t) = [OP_GET_SETTING, 4] @ to_le 2 (setting_id_u16 i) @ encode_setting_target t"
| "encode_command (McSetSetting i t v) = [OP_SET_SETTING, 8] @ to_le 2 (setting_id_u16 i) @ encode_setting_target t @ i32_bytes v"
| "encode_command (McSetHostName h n) =
     [OP_SET_HOST_NAME, of_nat (2 + MANAGEMENT_HOST_NAME_LEN), h, hn_len n] @ hn_bytes n"

definition management_request_encode :: "management_request \<Rightarrow> bytes" where
  "management_request_encode r =
     write_at 0 ([MANAGEMENT_PROTOCOL_VERSION, mq_request_id r] @ encode_command (mq_command r)) (replicate MANAGEMENT_REQUEST_LEN 0)"

section \<open>Responses\<close>

datatype management_result =
  MrOk | MrInvalidHost | MrHostNotFound | MrHostAlreadyBonded | MrInternalError | MrInvalidName | MrInvalidSetting | MrNotFound | MrUnavailable

fun management_result_byte :: "management_result \<Rightarrow> u8" where
  "management_result_byte MrOk = 0"
| "management_result_byte MrInvalidHost = 1"
| "management_result_byte MrHostNotFound = 2"
| "management_result_byte MrHostAlreadyBonded = 3"
| "management_result_byte MrInternalError = 4"
| "management_result_byte MrInvalidName = 5"
| "management_result_byte MrInvalidSetting = 6"
| "management_result_byte MrNotFound = 7"
| "management_result_byte MrUnavailable = 8"

definition management_result_from_byte :: "u8 \<Rightarrow> management_protocol_error + management_result" where
  "management_result_from_byte b =
     (if b = 0 then Inr MrOk else if b = 1 then Inr MrInvalidHost else if b = 2 then Inr MrHostNotFound
      else if b = 3 then Inr MrHostAlreadyBonded else if b = 4 then Inr MrInternalError else if b = 5 then Inr MrInvalidName
      else if b = 6 then Inr MrInvalidSetting else if b = 7 then Inr MrNotFound else if b = 8 then Inr MrUnavailable
      else Inl MgInvalidArgument)"

fun storage_health_byte :: "storage_health \<Rightarrow> u8" where
  "storage_health_byte Initializing = 0"
| "storage_health_byte Persistent = 1"
| "storage_health_byte VolatileTest = 2"
| "storage_health_byte HealthUnavailable = 3"
| "storage_health_byte Degraded = 4"

fun availability_byte :: "output_target_availability \<Rightarrow> u8" where
  "availability_byte Ready = 0"
| "availability_byte ConnectedNotReady = 1"
| "availability_byte Unavailable = 2"

definition availability_from_byte :: "u8 \<Rightarrow> management_protocol_error + output_target_availability" where
  "availability_from_byte b =
     (if b = 0 then Inr Ready else if b = 1 then Inr ConnectedNotReady else if b = 2 then Inr Unavailable else Inl MgInvalidArgument)"

definition decode_bool :: "u8 \<Rightarrow> management_protocol_error + bool" where
  "decode_bool b = (if b = 0 then Inr False else if b = 1 then Inr True else Inl MgInvalidArgument)"

datatype management_usb_presentation_kind = PkFallback | PkMirror

fun presentation_kind_byte :: "management_usb_presentation_kind \<Rightarrow> u8" where
  "presentation_kind_byte PkFallback = 0"
| "presentation_kind_byte PkMirror = 1"

definition presentation_kind_from_byte :: "u8 \<Rightarrow> management_protocol_error + management_usb_presentation_kind" where
  "presentation_kind_from_byte b = (if b = 0 then Inr PkFallback else if b = 1 then Inr PkMirror else Inl MgInvalidArgument)"

fun presentation_kind_of :: "usb_presentation \<Rightarrow> management_usb_presentation_kind" where
  "presentation_kind_of PresentFallback = PkFallback"
| "presentation_kind_of (PresentMirror c) = PkMirror"

record management_host_status =
  mh_known :: bool
  mh_connected :: bool
  mh_encrypted :: bool
  mh_bonded :: bool

definition host_status_empty :: management_host_status where
  "host_status_empty = \<lparr>mh_known = False, mh_connected = False, mh_encrypted = False, mh_bonded = False\<rparr>"

definition host_status_bits :: "management_host_status \<Rightarrow> u8" where
  "host_status_bits s =
     bool_byte (mh_known s) OR push_bit 1 (bool_byte (mh_connected s)) OR push_bit 2 (bool_byte (mh_encrypted s)) OR push_bit 3 (bool_byte (mh_bonded s))"

definition host_status_from_bits :: "u8 \<Rightarrow> management_host_status" where
  "host_status_from_bits b =
     \<lparr>mh_known = (b AND 1 \<noteq> 0), mh_connected = (b AND 2 \<noteq> 0), mh_encrypted = (b AND 4 \<noteq> 0), mh_bonded = (b AND 8 \<noteq> 0)\<rparr>"

record management_usb_status =
  us_device_count :: u8
  us_interface_count :: u8
  us_keyboard_count :: u8

definition usb_status_empty :: management_usb_status where
  "usb_status_empty = \<lparr>us_device_count = 0, us_interface_count = 0, us_keyboard_count = 0\<rparr>"

record management_status =
  st_active_host :: "host_id option"
  st_pairing_host :: "host_id option"
  st_host_count :: u8
  st_usb :: management_usb_status
  st_host_statuses :: "management_host_status list"
  st_storage_health :: storage_health

definition management_status_empty :: "u8 \<Rightarrow> management_status" where
  "management_status_empty host_count =
     \<lparr>st_active_host = None, st_pairing_host = None, st_host_count = host_count, st_usb = usb_status_empty,
      st_host_statuses = replicate 4 host_status_empty, st_storage_health = Persistent\<rparr>"

record management_host_info =
  hi_host_id :: host_id
  hi_status :: management_host_status
  hi_name :: management_host_name
  hi_name_source :: u8

record management_usb_device =
  ud_index :: u8
  ud_device_id :: u8
  ud_flags :: u8
  ud_vendor_id :: u16
  ud_product_id :: u16
  ud_input_profile_id :: input_profile_id
  ud_name_len :: u8
  ud_name_offset :: u8
  ud_name_chunk_len :: u8
  ud_name_chunk :: bytes

definition usb_device_name_chunk :: "management_usb_device \<Rightarrow> bytes" where
  "usb_device_name_chunk d = take (unat (ud_name_chunk_len d)) (ud_name_chunk d)"

record management_diagnostics =
  dg_uptime_seconds :: u32
  dg_reset_reason :: u8
  dg_brownout_count :: u16
  dg_ble_disconnect_count :: u16
  dg_ble_notify_failure_count :: u16
  dg_usb_error_count :: u16
  dg_flash_write_count :: u8
  dg_flash_failure_count :: u8

record management_history_event =
  he_kind :: u8
  he_sequence :: u16
  he_timestamp_seconds :: u32
  he_subject :: u8
  he_detail :: u8
  he_vendor_id :: u16
  he_product_id :: u16

record management_schema =
  ms_version :: u16
  ms_setting_count :: u8
  ms_history_capacity :: u8
  ms_usb_capacity :: u8
  ms_hash :: u32
  ms_firmware_major :: u8
  ms_firmware_minor :: u8
  ms_firmware_patch :: u8
  ms_capabilities :: u8

record management_setting =
  sg_id :: setting_id
  sg_target :: setting_target
  sg_value :: int

record management_host_timing =
  ht_host_id :: host_id
  ht_last_connected_seconds :: u32
  ht_last_disconnected_seconds :: u32
  ht_last_disconnect_reason :: u8

record management_client_session =
  cl_host_id :: "host_id option"

record management_output_target_status =
  os_selected :: management_output_target
  os_active :: "management_output_target option"
  os_availability :: output_target_availability
  os_wired_ready :: bool
  os_ready_ble_mask :: u8
  os_effective_presentation :: management_usb_presentation_kind
  os_mirror_configured :: bool
  os_operation_id :: u32

record management_mirror_candidate =
  mn_candidate :: mirror_candidate_id
  mn_flags :: u8
  mn_source_device :: "u8 option"
  mn_vendor_id :: u16
  mn_product_id :: u16
  mn_profile_hash :: u32
  mn_descriptor_hash :: u32

definition mirror_candidate_selected :: "management_mirror_candidate \<Rightarrow> bool" where
  "mirror_candidate_selected c = (mn_flags c AND push_bit 1 1 \<noteq> 0)"

definition mirror_candidate_active :: "management_mirror_candidate \<Rightarrow> bool" where
  "mirror_candidate_active c = (mn_flags c AND push_bit 2 1 \<noteq> 0)"

definition mirror_candidate_synthetic :: "management_mirror_candidate \<Rightarrow> bool" where
  "mirror_candidate_synthetic c = (mn_flags c AND push_bit 3 1 \<noteq> 0)"

datatype management_response_payload =
  MpNone | MpStatus management_status | MpHostInfo management_host_info | MpUsbDevice management_usb_device
  | MpDiagnostics management_diagnostics | MpHistory management_history_event | MpSchema management_schema
  | MpSetting management_setting | MpHostTiming management_host_timing | MpClientSession management_client_session
  | MpOutputTargetStatus management_output_target_status | MpMirrorCandidate management_mirror_candidate

record management_response =
  mp_request_id :: u8
  mp_result :: management_result
  mp_payload :: management_response_payload

text \<open>What the encoder writes from byte 3 on: payload kind, length and fields.\<close>

definition encode_active :: "management_output_target option \<Rightarrow> bytes" where
  "encode_active t = (case t of Some t \<Rightarrow> (case management_output_target_encode t of (kind, i) \<Rightarrow> [kind, i]) | None \<Rightarrow> [0xff, 0])"

fun encode_response_payload :: "management_response_payload \<Rightarrow> bytes" where
  "encode_response_payload MpNone = [PAYLOAD_NONE]"
| "encode_response_payload (MpStatus s) =
     [PAYLOAD_STATUS, STATUS_PAYLOAD_LEN, option_host_id (st_active_host s), option_host_id (st_pairing_host s), st_host_count s,
      us_device_count (st_usb s), us_interface_count (st_usb s), us_keyboard_count (st_usb s)] @
     map host_status_bits (st_host_statuses s) @ [storage_health_byte (st_storage_health s)]"
| "encode_response_payload (MpHostInfo i) =
     [PAYLOAD_HOST_INFO, HOST_INFO_PAYLOAD_LEN, hi_host_id i, host_status_bits (hi_status i) OR push_bit 4 (hi_name_source i AND 3),
      hn_len (hi_name i)] @ hn_bytes (hi_name i)"
| "encode_response_payload (MpUsbDevice d) =
     [PAYLOAD_USB_DEVICE, USB_DEVICE_PAYLOAD_LEN, ud_index d, ud_device_id d, ud_flags d] @ to_le 2 (ud_vendor_id d) @ to_le 2 (ud_product_id d) @
     [ud_name_len d, ud_name_offset d, ud_name_chunk_len d, ud_input_profile_id d] @ ud_name_chunk d"
| "encode_response_payload (MpDiagnostics d) =
     [PAYLOAD_DIAGNOSTICS, DIAGNOSTICS_PAYLOAD_LEN] @ to_le 4 (dg_uptime_seconds d) @ [dg_reset_reason d] @ to_le 2 (dg_brownout_count d) @
     to_le 2 (dg_ble_disconnect_count d) @ to_le 2 (dg_ble_notify_failure_count d) @ to_le 2 (dg_usb_error_count d) @
     [dg_flash_write_count d, dg_flash_failure_count d]"
| "encode_response_payload (MpHistory e) =
     [PAYLOAD_HISTORY, HISTORY_PAYLOAD_LEN, he_kind e] @ to_le 2 (he_sequence e) @ to_le 4 (he_timestamp_seconds e) @
     [he_subject e, he_detail e] @ to_le 2 (he_vendor_id e) @ to_le 2 (he_product_id e)"
| "encode_response_payload (MpSchema s) =
     [PAYLOAD_SCHEMA, SCHEMA_PAYLOAD_LEN] @ to_le 2 (ms_version s) @ [ms_setting_count s, ms_history_capacity s, ms_usb_capacity s] @
     to_le 4 (ms_hash s) @ [ms_firmware_major s, ms_firmware_minor s, ms_firmware_patch s, ms_capabilities s]"
| "encode_response_payload (MpSetting s) =
     [PAYLOAD_SETTING, SETTING_PAYLOAD_LEN] @ to_le 2 (setting_id_u16 (sg_id s)) @ encode_setting_target (sg_target s) @ i32_bytes (sg_value s)"
| "encode_response_payload (MpHostTiming t) =
     [PAYLOAD_HOST_TIMING, HOST_TIMING_PAYLOAD_LEN, ht_host_id t] @ to_le 4 (ht_last_connected_seconds t) @
     to_le 4 (ht_last_disconnected_seconds t) @ [ht_last_disconnect_reason t]"
| "encode_response_payload (MpClientSession s) = [PAYLOAD_CLIENT_SESSION, CLIENT_SESSION_PAYLOAD_LEN, option_host_id (cl_host_id s)]"
| "encode_response_payload (MpOutputTargetStatus s) =
     (case management_output_target_encode (os_selected s) of (kind, i) \<Rightarrow>
        [PAYLOAD_OUTPUT_TARGET_STATUS, OUTPUT_TARGET_STATUS_PAYLOAD_LEN, kind, i] @ encode_active (os_active s) @
        [availability_byte (os_availability s), bool_byte (os_wired_ready s), os_ready_ble_mask s,
         presentation_kind_byte (os_effective_presentation s), bool_byte (os_mirror_configured s)] @ to_le 4 (os_operation_id s))"
| "encode_response_payload (MpMirrorCandidate c) =
     [PAYLOAD_MIRROR_CANDIDATE, MIRROR_CANDIDATE_PAYLOAD_LEN, mn_candidate c, mn_flags c,
      (case mn_source_device c of Some d \<Rightarrow> d | None \<Rightarrow> 0xff)] @ to_le 2 (mn_vendor_id c) @ to_le 2 (mn_product_id c) @
     to_le 4 (mn_profile_hash c) @ to_le 4 (mn_descriptor_hash c)"

definition management_response_encode :: "management_response \<Rightarrow> bytes" where
  "management_response_encode r =
     write_at 0 ([MANAGEMENT_PROTOCOL_VERSION, mp_request_id r, management_result_byte (mp_result r)] @ encode_response_payload (mp_payload r))
       (replicate MANAGEMENT_RESPONSE_LEN 0)"

definition decode_status :: "bytes \<Rightarrow> management_protocol_error + management_response_payload" where
  "decode_status bs =
     (if 4 < bs ! 7 then Inl MgInvalidArgument
      else case storage_health_from_byte (bs ! 15) of
        None \<Rightarrow> Inl MgInvalidArgument
      | Some health \<Rightarrow>
          Inr (MpStatus \<lparr>st_active_host = decode_optional_host (bs ! 5), st_pairing_host = decode_optional_host (bs ! 6), st_host_count = bs ! 7,
            st_usb = \<lparr>us_device_count = bs ! 8, us_interface_count = bs ! 9, us_keyboard_count = bs ! 10\<rparr>,
            st_host_statuses = map host_status_from_bits [bs ! 11, bs ! 12, bs ! 13, bs ! 14], st_storage_health = health\<rparr>))"

definition decode_host_info :: "bytes \<Rightarrow> management_protocol_error + management_response_payload" where
  "decode_host_info bs =
     bindE (host_name_from_parts (bs ! 7) (subslice 8 20 bs)) (\<lambda>name.
       Inr (MpHostInfo \<lparr>hi_host_id = bs ! 5, hi_status = host_status_from_bits (bs ! 6), hi_name = name,
         hi_name_source = drop_bit 4 (bs ! 6) AND 3\<rparr>))"

definition decode_usb_device :: "bytes \<Rightarrow> management_protocol_error + management_response_payload" where
  "decode_usb_device bs =
     (if 4 < bs ! 14 \<or> bs ! 12 < sat_add (bs ! 13) (bs ! 14) then Inl MgInvalidArgument
      else case input_profile_id_new (bs ! 15) of
        None \<Rightarrow> Inl MgInvalidArgument
      | Some p \<Rightarrow>
          Inr (MpUsbDevice \<lparr>ud_index = bs ! 5, ud_device_id = bs ! 6, ud_flags = bs ! 7, ud_vendor_id = from_le (subslice 8 10 bs),
            ud_product_id = from_le (subslice 10 12 bs), ud_input_profile_id = p, ud_name_len = bs ! 12, ud_name_offset = bs ! 13,
            ud_name_chunk_len = bs ! 14, ud_name_chunk = subslice 16 20 bs\<rparr>))"

definition decode_diagnostics :: "bytes \<Rightarrow> management_diagnostics" where
  "decode_diagnostics bs =
     \<lparr>dg_uptime_seconds = from_le (subslice 5 9 bs), dg_reset_reason = bs ! 9, dg_brownout_count = from_le (subslice 10 12 bs),
      dg_ble_disconnect_count = from_le (subslice 12 14 bs), dg_ble_notify_failure_count = from_le (subslice 14 16 bs),
      dg_usb_error_count = from_le (subslice 16 18 bs), dg_flash_write_count = bs ! 18, dg_flash_failure_count = bs ! 19\<rparr>"

definition decode_history :: "bytes \<Rightarrow> management_history_event" where
  "decode_history bs =
     \<lparr>he_kind = bs ! 5, he_sequence = from_le (subslice 6 8 bs), he_timestamp_seconds = from_le (subslice 8 12 bs), he_subject = bs ! 12,
      he_detail = bs ! 13, he_vendor_id = from_le (subslice 14 16 bs), he_product_id = from_le (subslice 16 18 bs)\<rparr>"

definition decode_schema :: "bytes \<Rightarrow> management_schema" where
  "decode_schema bs =
     \<lparr>ms_version = from_le (subslice 5 7 bs), ms_setting_count = bs ! 7, ms_history_capacity = bs ! 8, ms_usb_capacity = bs ! 9,
      ms_hash = from_le (subslice 10 14 bs), ms_firmware_major = bs ! 14, ms_firmware_minor = bs ! 15, ms_firmware_patch = bs ! 16,
      ms_capabilities = bs ! 17\<rparr>"

definition decode_setting :: "bytes \<Rightarrow> management_protocol_error + management_response_payload" where
  "decode_setting bs =
     bindE (decode_setting_id (bs ! 5) (bs ! 6)) (\<lambda>i.
     bindE (decode_setting_target (bs ! 7) (bs ! 8)) (\<lambda>t.
       Inr (MpSetting \<lparr>sg_id = i, sg_target = t, sg_value = i32_of (subslice 9 13 bs)\<rparr>)))"

definition decode_host_timing :: "bytes \<Rightarrow> management_host_timing" where
  "decode_host_timing bs =
     \<lparr>ht_host_id = bs ! 5, ht_last_connected_seconds = from_le (subslice 6 10 bs), ht_last_disconnected_seconds = from_le (subslice 10 14 bs),
      ht_last_disconnect_reason = bs ! 14\<rparr>"

definition decode_active :: "u8 \<Rightarrow> u8 \<Rightarrow> management_protocol_error + management_output_target option" where
  "decode_active kind i =
     (if kind = 0xff then (if i \<noteq> 0 then Inl MgInvalidArgument else Inr None)
      else bindE (management_output_target_decode kind i) (\<lambda>t. Inr (Some t)))"

definition decode_output_target_status :: "bytes \<Rightarrow> management_protocol_error + management_response_payload" where
  "decode_output_target_status bs =
     bindE (management_output_target_decode (bs ! 5) (bs ! 6)) (\<lambda>selected.
     bindE (decode_active (bs ! 7) (bs ! 8)) (\<lambda>active.
     bindE (availability_from_byte (bs ! 9)) (\<lambda>availability.
     bindE (decode_bool (bs ! 10)) (\<lambda>wired_ready.
     bindE (presentation_kind_from_byte (bs ! 12)) (\<lambda>presentation.
     bindE (decode_bool (bs ! 13)) (\<lambda>configured.
       Inr (MpOutputTargetStatus \<lparr>os_selected = selected, os_active = active, os_availability = availability, os_wired_ready = wired_ready,
         os_ready_ble_mask = bs ! 11 AND 0x0f, os_effective_presentation = presentation, os_mirror_configured = configured,
         os_operation_id = from_le (subslice 14 18 bs)\<rparr>)))))))"

definition decode_mirror_candidate :: "bytes \<Rightarrow> management_mirror_candidate" where
  "decode_mirror_candidate bs =
     \<lparr>mn_candidate = bs ! 5, mn_flags = bs ! 6, mn_source_device = (if bs ! 7 \<noteq> 0xff then Some (bs ! 7) else None),
      mn_vendor_id = from_le (subslice 8 10 bs), mn_product_id = from_le (subslice 10 12 bs), mn_profile_hash = from_le (subslice 12 16 bs),
      mn_descriptor_hash = from_le (subslice 16 20 bs)\<rparr>"

definition decode_response_payload :: "bool \<Rightarrow> bytes \<Rightarrow> management_protocol_error + management_response_payload" where
  "decode_response_payload w bs =
     (let kind = bs ! 3; len = bs ! 4 in
      if kind = PAYLOAD_NONE \<and> len = 0 then Inr MpNone
      else if kind = PAYLOAD_STATUS \<and> len = STATUS_PAYLOAD_LEN then decode_status bs
      else if kind = PAYLOAD_HOST_INFO \<and> len = HOST_INFO_PAYLOAD_LEN then decode_host_info bs
      else if kind = PAYLOAD_USB_DEVICE \<and> len = USB_DEVICE_PAYLOAD_LEN then decode_usb_device bs
      else if kind = PAYLOAD_DIAGNOSTICS \<and> len = DIAGNOSTICS_PAYLOAD_LEN then Inr (MpDiagnostics (decode_diagnostics bs))
      else if kind = PAYLOAD_HISTORY \<and> len = HISTORY_PAYLOAD_LEN then Inr (MpHistory (decode_history bs))
      else if kind = PAYLOAD_SCHEMA \<and> len = SCHEMA_PAYLOAD_LEN then Inr (MpSchema (decode_schema bs))
      else if kind = PAYLOAD_SETTING \<and> len = SETTING_PAYLOAD_LEN then decode_setting bs
      else if kind = PAYLOAD_HOST_TIMING \<and> len = HOST_TIMING_PAYLOAD_LEN then Inr (MpHostTiming (decode_host_timing bs))
      else if kind = PAYLOAD_CLIENT_SESSION \<and> len = CLIENT_SESSION_PAYLOAD_LEN then
        Inr (MpClientSession \<lparr>cl_host_id = decode_optional_host (bs ! 5)\<rparr>)
      else if w \<and> kind = PAYLOAD_OUTPUT_TARGET_STATUS \<and> len = OUTPUT_TARGET_STATUS_PAYLOAD_LEN then decode_output_target_status bs
      else if w \<and> kind = PAYLOAD_MIRROR_CANDIDATE \<and> len = MIRROR_CANDIDATE_PAYLOAD_LEN then
        Inr (MpMirrorCandidate (decode_mirror_candidate bs))
      else Inl MgInvalidArgument)"

definition management_response_decode :: "bool \<Rightarrow> bytes \<Rightarrow> management_protocol_error + management_response" where
  "management_response_decode w bs =
     (if length bs \<noteq> MANAGEMENT_RESPONSE_LEN then Inl MgInvalidLength
      else if bs ! 0 \<noteq> MANAGEMENT_PROTOCOL_VERSION then Inl MgUnsupportedVersion
      else bindE (management_result_from_byte (bs ! 2)) (\<lambda>result.
           bindE (decode_response_payload w bs) (\<lambda>payload.
             Inr \<lparr>mp_request_id = bs ! 1, mp_result = result, mp_payload = payload\<rparr>)))"

section \<open>Codecs with padding\<close>

text \<open>
  The fixed-size messages carry padding that their decoders do not look at, so several byte
  strings may decode to one message; what a decoder accepts is still a well-formed message, and
  a message is well formed exactly if it survives the wire.
\<close>

locale wire_reader =
  fixes valid :: "'a \<Rightarrow> bool" and enc :: "'a \<Rightarrow> bytes" and dec :: "bytes \<Rightarrow> 'e + 'a"
  assumes dec_enc: "valid x \<Longrightarrow> dec (enc x) = Inr x"
    and dec_valid: "dec bs = Inr x \<Longrightarrow> valid x"
begin

lemma canonical: "valid x \<longleftrightarrow> dec (enc x) = Inr x"
  using dec_enc dec_valid by blast

lemma reencode: "dec bs = Inr x \<Longrightarrow> dec (enc x) = Inr x"
  using dec_enc dec_valid by blast

end

sublocale wire_codec \<subseteq> reader: wire_reader valid enc dec
  by unfold_locales (simp_all add: dec_enc enc_dec)

subsection \<open>Fields\<close>

lemma setting_id_inverse [simp]: "setting_id_from_u16 (setting_id_u16 i) = Some i"
  by (cases i) (simp_all add: setting_id_from_u16_def)

definition i32_ok :: "int \<Rightarrow> bool" where
  "i32_ok v = (- (2 ^ 31) \<le> v \<and> v < 2 ^ 31)"

lemma i32_roundtrip: "i32_ok v \<Longrightarrow> i32_of (i32_bytes v) = v"
  by (simp add: i32_ok_def i32_of_def i32_bytes_def sint_sbintrunc' signed_take_bit_int_eq_self)

lemma i32_of_ok: "i32_ok (i32_of bs)"
  using sint_ge[of "from_le bs :: u32"] sint_lt[of "from_le bs :: u32"] by (simp add: i32_ok_def i32_of_def)

definition setting_target_ok :: "setting_target \<Rightarrow> bool" where
  "setting_target_ok t = (case t of TargetGlobal \<Rightarrow> True | TargetInput p \<Rightarrow> 1 \<le> p \<and> p \<le> 8)"

lemma setting_target_inverse: "decode_setting_target a b = Inr t \<longleftrightarrow> setting_target_ok t \<and> encode_setting_target t = [a, b]"
  by (cases t) (auto simp: decode_setting_target_def setting_target_ok_def input_profile_id_new_def INPUT_PROFILE_CAPACITY_def split: option.splits)

definition output_target_ok :: "management_output_target \<Rightarrow> bool" where
  "output_target_ok t = (case t of MoWired \<Rightarrow> True | MoBle h \<Rightarrow> 1 \<le> h \<and> h \<le> 4)"

lemma output_target_inverse: "management_output_target_decode a b = Inr t \<longleftrightarrow> output_target_ok t \<and> management_output_target_encode t = (a, b)"
  by (cases t) (auto simp: management_output_target_decode_def output_target_ok_def)

definition host_name_ok :: "management_host_name \<Rightarrow> bool" where
  "host_name_ok n = (unat (hn_len n) \<le> MANAGEMENT_HOST_NAME_LEN \<and> length (hn_bytes n) = MANAGEMENT_HOST_NAME_LEN \<and>
     list_all name_byte_ok (host_name_as_bytes n))"

lemma host_name_inverse: "length bs = MANAGEMENT_HOST_NAME_LEN \<Longrightarrow> host_name_from_parts l bs = Inr n \<longleftrightarrow> host_name_ok n \<and> hn_len n = l \<and> hn_bytes n = bs"
  by (cases n) (auto simp: host_name_from_parts_def host_name_ok_def host_name_as_bytes_def)

lemma host_name_from_ascii_ok:
  assumes "host_name_from_ascii name = Inr n"
  shows "host_name_ok n \<and> host_name_as_bytes n = name"
proof -
  have l: "length name \<le> 12" "list_all name_byte_ok name" and n: "n = \<lparr>hn_len = of_nat (length name), hn_bytes = write_at 0 name (replicate 12 0)\<rparr>"
    using assms by (auto simp: host_name_from_ascii_def management_sizes split: if_splits)
  have "unat (of_nat (length name) :: u8) = length name" using l(1) by (intro unat_of_nat_small) simp
  then show ?thesis using l by (simp add: n host_name_ok_def host_name_as_bytes_def write_padded management_sizes)
qed

definition host_option_ok :: "host_id option \<Rightarrow> bool" where
  "host_option_ok h = (h \<noteq> Some 0)"

lemma host_option_inverse: "decode_optional_host b = h \<longleftrightarrow> host_option_ok h \<and> option_host_id h = b"
  by (cases h) (auto simp: decode_optional_host_def host_option_ok_def option_host_id_def)

lemma setting_id_read: "to_le 2 (setting_id_u16 i) = [a, b] \<Longrightarrow> decode_setting_id a b = Inr i"
  by (metis decode_setting_id_def from_le_2 option.case(2) setting_id_inverse)

subsection \<open>Requests\<close>

definition command_ok :: "bool \<Rightarrow> management_command \<Rightarrow> bool" where
  "command_ok w c =
     (case c of
        McSetHostName h n \<Rightarrow> host_name_ok n
      | McGetSetting i t \<Rightarrow> setting_target_ok t
      | McSetSetting i t v \<Rightarrow> setting_target_ok t \<and> i32_ok v
      | McSelectOutputTarget t \<Rightarrow> w \<and> output_target_ok t
      | McGetOutputTargetStatus \<Rightarrow> w | McGetMirrorCandidate m \<Rightarrow> w | McSetMirrorTarget m \<Rightarrow> w | McClearMirrorTarget \<Rightarrow> w
      | McSetWiredHostLink h \<Rightarrow> w \<and> (case h of None \<Rightarrow> True | Some h \<Rightarrow> 1 \<le> h \<and> h \<le> 4)
      | _ \<Rightarrow> True)"

definition request_image :: "u8 \<Rightarrow> u8 \<Rightarrow> bytes \<Rightarrow> bytes" where
  "request_image i op p = [MANAGEMENT_PROTOCOL_VERSION, i, op, of_nat (length p)] @ p @ replicate (16 - length p) 0"

lemma decode_image:
  assumes "length p \<le> 16"
  shows "management_request_decode w (request_image i op p) = bindE (decode_command w op p) (\<lambda>c. Inr \<lparr>mq_request_id = i, mq_command = c\<rparr>)"
proof -
  have "unat (of_nat (length p) :: u8) = length p" using assms by (intro unat_of_nat_small) simp
  moreover have "subslice 4 (4 + length p) (request_image i op p) = p" by (simp add: request_image_def subslice_def)
  moreover have "length (request_image i op p) = 20" using assms by (simp add: request_image_def)
  ultimately show ?thesis using assms
    unfolding management_request_decode_def Let_def management_sizes by (simp add: request_image_def management_sizes)
qed

lemma request_image_eq:
  assumes "encode_command c = op # of_nat (length p) # p" "length p \<le> 16"
  shows "management_request_encode \<lparr>mq_request_id = i, mq_command = c\<rparr> = request_image i op p"
  using assms by (simp add: management_request_encode_def request_image_def write_at_def management_sizes)

lemma request_image_short:
  assumes "encode_command c = [op]"
  shows "management_request_encode \<lparr>mq_request_id = i, mq_command = c\<rparr> = request_image i op []"
  using assms by (simp add: management_request_encode_def request_image_def write_at_def management_sizes eval_nat_numeral)

text \<open>The bytes written for a command are an operation code alone or one with its payload length and payload, which decode to the command.\<close>

definition command_survives :: "bool \<Rightarrow> management_command \<Rightarrow> bool" where
  "command_survives w c =
     (case encode_command c of
        [op] \<Rightarrow> decode_command w op [] = Inr c
      | op # n # p \<Rightarrow> n = of_nat (length p) \<and> length p \<le> 16 \<and> decode_command w op p = Inr c
      | [] \<Rightarrow> False)"

lemmas command_eval = command_survives_def decode_command_def decode_wired_command_def no_argument_def byte_argument_def encode_host_command_def op_codes

lemma command_ok_survives:
  assumes "command_ok w c"
  shows "command_survives w c"
proof (cases c)
  case (McSetHostName h n)
  then have n: "host_name_ok n" using assms by (simp add: command_ok_def)
  then have l: "length (hn_bytes n) = 12" by (simp add: host_name_ok_def management_sizes)
  have "decode_set_name (h # hn_len n # hn_bytes n) = Inr c"
    using n l host_name_inverse[of "hn_bytes n" "hn_len n" n] McSetHostName by (simp add: decode_set_name_def host_name_ok_def management_sizes bindE_def)
  then show ?thesis using l McSetHostName by (simp add: command_eval management_sizes)
next
  case (McGetSetting s t)
  obtain a b where ab: "to_le 2 (setting_id_u16 s) = [a, b]" by (rule to_le_2_list)
  obtain x y where xy: "encode_setting_target t = [x, y]" by (cases t) auto
  have "decode_setting_target x y = Inr t" using assms McGetSetting xy by (simp add: command_ok_def setting_target_inverse)
  then show ?thesis using setting_id_read[OF ab] ab xy McGetSetting by (simp add: command_eval bindE_def)
next
  case (McSetSetting s t v)
  obtain a b where ab: "to_le 2 (setting_id_u16 s) = [a, b]" by (rule to_le_2_list)
  obtain x y where xy: "encode_setting_target t = [x, y]" by (cases t) auto
  obtain v0 v1 v2 v3 where vs: "i32_bytes v = [v0, v1, v2, v3]" unfolding i32_bytes_def by (rule to_le_4_list)
  have "decode_setting_target x y = Inr t" "i32_of [v0, v1, v2, v3] = v"
    using assms McSetSetting xy i32_roundtrip[of v] vs by (simp_all add: command_ok_def setting_target_inverse)
  then show ?thesis using setting_id_read[OF ab] ab xy vs McSetSetting by (simp add: command_eval bindE_def)
next
  case (McSelectOutputTarget t)
  obtain x y where xy: "management_output_target_encode t = (x, y)" by fastforce
  then have "management_output_target_decode x y = Inr t" "w" using assms McSelectOutputTarget by (simp_all add: command_ok_def output_target_inverse)
  then show ?thesis using xy McSelectOutputTarget by (simp add: command_eval bindE_def)
next
  case (McSetWiredHostLink h)
  then have "decode_wired_link (option_host_id h) = Inr c" "w"
    using assms by (auto simp: command_ok_def decode_wired_link_def option_host_id_def split: option.splits)
  then show ?thesis using McSetWiredHostLink by (simp add: command_eval)
qed (use assms in \<open>simp_all add: command_ok_def command_eval\<close>)

lemma request_roundtrip:
  assumes "command_ok w (mq_command r)"
  shows "management_request_decode w (management_request_encode r) = Inr r"
proof -
  obtain i c where r: "r = \<lparr>mq_request_id = i, mq_command = c\<rparr>" by (cases r)
  have s: "command_survives w c" using command_ok_survives assms by (simp add: r)
  then consider op where "encode_command c = [op]" "decode_command w op [] = Inr c"
    | op p where "encode_command c = op # of_nat (length p) # p" "length p \<le> 16" "decode_command w op p = Inr c"
    by (auto simp: command_survives_def split: list.splits)
  then show ?thesis
    by cases (simp_all add: r request_image_short request_image_eq decode_image bindE_def)
qed

subsection \<open>Whatever is decoded is well formed\<close>

lemma no_argument_Inr: "no_argument c p = Inr d \<longleftrightarrow> p = [] \<and> d = c"
  by (auto simp: no_argument_def)

lemma byte_argument_Inr: "byte_argument f p = Inr d \<longleftrightarrow> (\<exists>b. p = [b] \<and> f b = Inr d)"
  by (auto simp: byte_argument_def split: list.splits)

lemma decode_wired_ok: "decode_wired_command op p = Inr c \<Longrightarrow> command_ok True c"
  by (auto simp: decode_wired_command_def no_argument_Inr byte_argument_Inr decode_wired_link_def bindE_Inr_iff output_target_inverse
      command_ok_def split: if_splits list.splits)

lemma decode_set_name_ok:
  assumes "decode_set_name p = Inr c"
  shows "command_ok w c"
proof -
  have "length p = 2 + MANAGEMENT_HOST_NAME_LEN" using assms by (auto simp: decode_set_name_def split: if_splits)
  then have "length (drop 2 p) = MANAGEMENT_HOST_NAME_LEN" by simp
  then show ?thesis using assms by (auto simp: decode_set_name_def bindE_Inr_iff host_name_inverse command_ok_def split: if_splits)
qed

lemma decode_settings_ok:
  "(case p of [a, b, x, y] \<Rightarrow> bindE (decode_setting_id a b) (\<lambda>i. bindE (decode_setting_target x y) (\<lambda>t. Inr (McGetSetting i t))) | _ \<Rightarrow> Inl e) = Inr c \<Longrightarrow> command_ok w c"
  "(case p of [a, b, x, y, v0, v1, v2, v3] \<Rightarrow>
      bindE (decode_setting_id a b) (\<lambda>i. bindE (decode_setting_target x y) (\<lambda>t. Inr (McSetSetting i t (i32_of [v0, v1, v2, v3])))) | _ \<Rightarrow> Inl e) = Inr c \<Longrightarrow> command_ok w c"
  by (auto simp: bindE_Inr_iff setting_target_inverse command_ok_def i32_of_ok split: list.splits)

lemma command_ok_plain:
  "command_ok w McGetStatus" "command_ok w (McSelectHost h)" "command_ok w (McStartPairing h)" "command_ok w (McForgetHost h)"
  "command_ok w (McGetHostInfo h)" "command_ok w McCancelPairing" "command_ok w (McGetUsbDevice a b)" "command_ok w McGetDiagnostics"
  "command_ok w (McGetHostTiming h)" "command_ok w McGetClientSession" "command_ok w (McGetHistory i)" "command_ok w McGetSchema"
  by (simp_all add: command_ok_def)

lemma decode_command_ok:
  assumes "decode_command w op p = Inr c"
  shows "command_ok w c"
proof -
  note s = decode_settings_ok[where p = p and c = c and w = w and e = MgInvalidArgument] decode_set_name_ok[of p c w] decode_wired_ok[of op p c]
  consider "op \<in> {OP_GET_SETTING, OP_SET_SETTING}" | "op = OP_SET_HOST_NAME" | "op = OP_GET_USB_DEVICE"
    | "op \<notin> {OP_GET_SETTING, OP_SET_SETTING, OP_SET_HOST_NAME, OP_GET_USB_DEVICE}" by blast
  then show ?thesis
  proof cases
    case 1 then show ?thesis using s(1,2) assms by (auto simp: decode_command_def op_codes)
  next
    case 2 then show ?thesis using s(3) assms by (simp add: decode_command_def op_codes)
  next
    case 3 then show ?thesis using assms by (auto simp: decode_command_def op_codes command_ok_plain split: list.splits)
  next
    case 4
    then show ?thesis
      using assms s(4) by (auto simp: decode_command_def no_argument_Inr byte_argument_Inr command_ok_plain split: if_splits)
  qed
qed

interpretation request: wire_reader "\<lambda>r. command_ok w (mq_command r)" management_request_encode "management_request_decode w" for w
proof
  show "management_request_decode w (management_request_encode r) = Inr r" if "command_ok w (mq_command r)" for r
    using that by (rule request_roundtrip)
  show "command_ok w (mq_command r)" if "management_request_decode w bs = Inr r" for bs r
    using that by (auto simp: management_request_decode_def Let_def bindE_Inr_iff dest: decode_command_ok split: if_splits)
qed

interpretation event: wire_codec "\<lambda>e. True" management_event_encode management_event_decode
proof
  show "management_event_decode (management_event_encode e) = Inr e" for e
  proof (cases e)
    case (EvStatusChanged s)
    obtain a b where ab: "to_le 2 s = [a, b]" by (rule to_le_2_list)
    then show ?thesis using from_le_2[of s] EvStatusChanged
      by (simp add: management_event_decode_def management_sizes subslice_def del: from_le_2 from_le.simps)
  qed
next
  show "True \<and> management_event_encode e = bs" if "management_event_decode bs = Inr e" for bs e
  proof -
    have l: "length bs = 4" and b: "bs ! 0 = 1" "bs ! 1 = 1" and e: "e = EvStatusChanged (from_le (subslice 2 4 bs))"
      using that by (auto simp: management_event_decode_def management_sizes split: if_splits)
    have "management_event_encode e = bs ! 0 # bs ! 1 # subslice 2 4 bs" using l b by (simp add: e management_sizes)
    also have "\<dots> = bs" using l by (auto simp: subslice_def list_eq_iff_nth_eq nth_Cons split: nat.splits)
    finally show ?thesis by simp
  qed
qed

subsection \<open>Responses\<close>

definition response_payload_ok :: "bool \<Rightarrow> management_response_payload \<Rightarrow> bool" where
  "response_payload_ok w p =
     (case p of
        MpStatus s \<Rightarrow> host_option_ok (st_active_host s) \<and> host_option_ok (st_pairing_host s) \<and> st_host_count s \<le> 4 \<and> length (st_host_statuses s) = 4
      | MpHostInfo i \<Rightarrow> host_name_ok (hi_name i) \<and> hi_name_source i \<le> 3
      | MpUsbDevice d \<Rightarrow> length (ud_name_chunk d) = 4 \<and> ud_name_chunk_len d \<le> 4 \<and> sat_add (ud_name_offset d) (ud_name_chunk_len d) \<le> ud_name_len d \<and>
          1 \<le> ud_input_profile_id d \<and> ud_input_profile_id d \<le> 8
      | MpSetting s \<Rightarrow> setting_target_ok (sg_target s) \<and> i32_ok (sg_value s)
      | MpClientSession s \<Rightarrow> host_option_ok (cl_host_id s)
      | MpOutputTargetStatus s \<Rightarrow> w \<and> output_target_ok (os_selected s) \<and> (case os_active s of None \<Rightarrow> True | Some t \<Rightarrow> output_target_ok t) \<and> os_ready_ble_mask s \<le> 15
      | MpMirrorCandidate c \<Rightarrow> w \<and> mn_source_device c \<noteq> Some 0xff
      | _ \<Rightarrow> True)"

lemma result_inverse: "management_result_from_byte b = Inr r \<longleftrightarrow> b = management_result_byte r"
  by (cases r) (auto simp: management_result_from_byte_def)

lemma health_inverse: "storage_health_from_byte b = Some h \<longleftrightarrow> b = storage_health_byte h"
  by (cases h) (auto simp: storage_health_from_byte_def)

lemma availability_inverse: "availability_from_byte b = Inr a \<longleftrightarrow> b = availability_byte a"
  by (cases a) (auto simp: availability_from_byte_def)

lemma bool_inverse: "decode_bool b = Inr v \<longleftrightarrow> b = bool_byte v"
  by (cases v) (auto simp: decode_bool_def bool_byte_def)

lemma presentation_inverse: "presentation_kind_from_byte b = Inr k \<longleftrightarrow> b = presentation_kind_byte k"
  by (cases k) (auto simp: presentation_kind_from_byte_def)

lemma active_inverse: "decode_active a b = Inr t \<longleftrightarrow> (case t of None \<Rightarrow> True | Some t \<Rightarrow> output_target_ok t) \<and> encode_active t = [a, b]"
proof -
  have "management_output_target_encode t = (0xff, b) \<Longrightarrow> False" for t by (cases t) simp_all
  then show ?thesis by (auto simp: decode_active_def encode_active_def bindE_Inr_iff output_target_inverse split: option.splits prod.splits)
qed

lemma low_bits: "(x OR push_bit 4 y) AND push_bit k 1 = x AND push_bit k (1 :: u8)" if "k < 4"
  using that by (intro bit_word_eqI) (auto simp: bit_simps)

lemma two_bits: "(n :: u8) \<le> 3 \<Longrightarrow> n = 0 \<or> n = 1 \<or> n = 2 \<or> n = 3"
  by (auto simp: word_le_nat_alt word_unat_eq_iff)

lemma host_status_inverse: "host_status_from_bits (host_status_bits s) = s" "host_status_from_bits (host_status_bits s OR push_bit 4 b) = s"
proof -
  show s: "host_status_from_bits (host_status_bits s) = s"
    by (cases s) (simp add: host_status_from_bits_def host_status_bits_def bool_byte_def)
  have "host_status_from_bits (x OR push_bit 4 b) = host_status_from_bits x" for x
    using low_bits[of 0 x b] low_bits[of 1 x b] low_bits[of 2 x b] low_bits[of 3 x b] by (simp add: host_status_from_bits_def)
  then show "host_status_from_bits (host_status_bits s OR push_bit 4 b) = s" using s by simp
qed

lemma name_source_inverse: "n \<le> 3 \<Longrightarrow> drop_bit 4 (host_status_bits s OR push_bit 4 (n AND 3)) AND 3 = n"
  by (cases s) (drule two_bits, auto simp: host_status_bits_def bool_byte_def)

lemma le2_read: obtains a b where "to_le 2 v = [a, b]" "from_le [a, b] = (v :: u16)"
  using to_le_2_list[of v] by (metis from_le_2)

lemma le4_read: obtains a b c d where "to_le 4 v = [a, b, c, d]" "from_le [a, b, c, d] = (v :: u32)"
  using to_le_4_list[of v] by (metis from_le_4)

lemma byte_mask: "(v :: u8) \<le> 15 \<Longrightarrow> v AND 15 = v"
proof -
  assume "v \<le> 15"
  then have "take_bit 4 v = v" by (simp add: word_unat_eq_iff unsigned_take_bit_eq take_bit_nat_eq_self word_le_nat_alt)
  then show ?thesis by (simp add: take_bit_eq_mask mask_eq_exp_minus_1)
qed

definition response_image :: "u8 \<Rightarrow> management_result \<Rightarrow> bytes \<Rightarrow> bytes" where
  "response_image i r p = [MANAGEMENT_PROTOCOL_VERSION, i, management_result_byte r] @ p @ replicate (17 - length p) 0"

lemma response_image_eq:
  assumes "length (encode_response_payload p) \<le> 17"
  shows "management_response_encode \<lparr>mp_request_id = i, mp_result = r, mp_payload = p\<rparr> = response_image i r (encode_response_payload p)"
  using assms by (simp add: management_response_encode_def response_image_def write_at_def management_sizes)

lemma decode_response_image:
  assumes "length bs \<le> 17" "decode_response_payload w (response_image i r bs) = Inr p"
  shows "management_response_decode w (response_image i r bs) = Inr \<lparr>mp_request_id = i, mp_result = r, mp_payload = p\<rparr>"
proof -
  have "length (response_image i r bs) = 20" using assms(1) by (simp add: response_image_def)
  moreover have "response_image i r bs ! 0 = 1" "response_image i r bs ! 1 = i" "response_image i r bs ! 2 = management_result_byte r"
    by (simp_all add: response_image_def management_sizes)
  ultimately show ?thesis
    using assms(2) by (simp add: management_response_decode_def management_sizes bindE_def result_inverse[THEN iffD2, OF refl])
qed

definition payload_survives :: "bool \<Rightarrow> management_response_payload \<Rightarrow> bool" where
  "payload_survives w p =
     (length (encode_response_payload p) \<le> 17 \<and> (\<forall>i r. decode_response_payload w (response_image i r (encode_response_payload p)) = Inr p))"

lemmas payload_eval = payload_survives_def decode_response_payload_def response_image_def payload_codes subslice_def Let_def

lemma payload_words_survive:
  "payload_survives w (MpDiagnostics d)" "payload_survives w (MpHistory e)" "payload_survives w (MpSchema s)" "payload_survives w (MpHostTiming t)"
proof -
  show "payload_survives w (MpDiagnostics d)"
  proof -
    obtain u0 u1 u2 u3 where u: "to_le 4 (dg_uptime_seconds d) = [u0, u1, u2, u3]" "from_le [u0, u1, u2, u3] = dg_uptime_seconds d" by (rule le4_read)
    obtain a0 a1 where a: "to_le 2 (dg_brownout_count d) = [a0, a1]" "from_le [a0, a1] = dg_brownout_count d" by (rule le2_read)
    obtain b0 b1 where b: "to_le 2 (dg_ble_disconnect_count d) = [b0, b1]" "from_le [b0, b1] = dg_ble_disconnect_count d" by (rule le2_read)
    obtain c0 c1 where c: "to_le 2 (dg_ble_notify_failure_count d) = [c0, c1]" "from_le [c0, c1] = dg_ble_notify_failure_count d" by (rule le2_read)
    obtain e0 e1 where e: "to_le 2 (dg_usb_error_count d) = [e0, e1]" "from_le [e0, e1] = dg_usb_error_count d" by (rule le2_read)
    show ?thesis by (simp add: payload_eval decode_diagnostics_def u a b c e del: from_le.simps)
  qed
  show "payload_survives w (MpHistory e)"
  proof -
    obtain a0 a1 where a: "to_le 2 (he_sequence e) = [a0, a1]" "from_le [a0, a1] = he_sequence e" by (rule le2_read)
    obtain u0 u1 u2 u3 where u: "to_le 4 (he_timestamp_seconds e) = [u0, u1, u2, u3]" "from_le [u0, u1, u2, u3] = he_timestamp_seconds e" by (rule le4_read)
    obtain b0 b1 where b: "to_le 2 (he_vendor_id e) = [b0, b1]" "from_le [b0, b1] = he_vendor_id e" by (rule le2_read)
    obtain c0 c1 where c: "to_le 2 (he_product_id e) = [c0, c1]" "from_le [c0, c1] = he_product_id e" by (rule le2_read)
    show ?thesis by (simp add: payload_eval decode_history_def u a b c del: from_le.simps)
  qed
  show "payload_survives w (MpSchema s)"
  proof -
    obtain a0 a1 where a: "to_le 2 (ms_version s) = [a0, a1]" "from_le [a0, a1] = ms_version s" by (rule le2_read)
    obtain u0 u1 u2 u3 where u: "to_le 4 (ms_hash s) = [u0, u1, u2, u3]" "from_le [u0, u1, u2, u3] = ms_hash s" by (rule le4_read)
    show ?thesis by (simp add: payload_eval decode_schema_def u a del: from_le.simps)
  qed
  show "payload_survives w (MpHostTiming t)"
  proof -
    obtain u0 u1 u2 u3 where u: "to_le 4 (ht_last_connected_seconds t) = [u0, u1, u2, u3]" "from_le [u0, u1, u2, u3] = ht_last_connected_seconds t" by (rule le4_read)
    obtain v0 v1 v2 v3 where v: "to_le 4 (ht_last_disconnected_seconds t) = [v0, v1, v2, v3]" "from_le [v0, v1, v2, v3] = ht_last_disconnected_seconds t" by (rule le4_read)
    show ?thesis by (simp add: payload_eval decode_host_timing_def u v del: from_le.simps)
  qed
qed

lemma list4: "length xs = 4 \<Longrightarrow> \<exists>a b c d. xs = [a, b, c, d]"
  by (auto simp: length_Suc_conv eval_nat_numeral)

lemma status_survives:
  assumes "response_payload_ok w (MpStatus s)"
  shows "payload_survives w (MpStatus s)"
proof -
  obtain h0 h1 h2 h3 where h: "st_host_statuses s = [h0, h1, h2, h3]" using assms list4 by (fastforce simp: response_payload_ok_def)
  have "decode_optional_host (option_host_id (st_active_host s)) = st_active_host s" "decode_optional_host (option_host_id (st_pairing_host s)) = st_pairing_host s"
    using assms by (auto simp: response_payload_ok_def host_option_inverse)
  then show ?thesis using assms h
    by (cases "st_usb s") (auto simp: payload_eval decode_status_def response_payload_ok_def health_inverse[THEN iffD2, OF refl] host_status_inverse
        not_less)
qed

lemma host_info_survives:
  assumes "response_payload_ok w (MpHostInfo i)"
  shows "payload_survives w (MpHostInfo i)"
proof -
  have ok: "host_name_ok (hi_name i)" "hi_name_source i \<le> 3" using assms by (simp_all add: response_payload_ok_def)
  have l: "length (hn_bytes (hi_name i)) = 12" using ok(1) by (simp add: host_name_ok_def management_sizes)
  then have n: "host_name_from_parts (hn_len (hi_name i)) (hn_bytes (hi_name i)) = Inr (hi_name i)"
    using ok(1) host_name_inverse[of "hn_bytes (hi_name i)" "hn_len (hi_name i)" "hi_name i"] by (simp add: management_sizes)
  define b where "b = host_status_bits (hi_status i) OR push_bit 4 (hi_name_source i AND 3)"
  have b: "host_status_from_bits b = hi_status i" "drop_bit 4 b AND 3 = hi_name_source i"
    unfolding b_def by (rule host_status_inverse(2), rule name_source_inverse[OF ok(2)])
  show ?thesis
    using l n b unfolding payload_survives_def encode_response_payload.simps b_def[symmetric] by (simp add: payload_eval decode_host_info_def bindE_def)
qed

lemma usb_device_survives:
  assumes "response_payload_ok w (MpUsbDevice d)"
  shows "payload_survives w (MpUsbDevice d)"
proof -
  obtain x0 x1 x2 x3 where x: "ud_name_chunk d = [x0, x1, x2, x3]" using assms list4 by (fastforce simp: response_payload_ok_def)
  obtain a0 a1 where a: "to_le 2 (ud_vendor_id d) = [a0, a1]" "from_le [a0, a1] = ud_vendor_id d" by (rule le2_read)
  obtain b0 b1 where b: "to_le 2 (ud_product_id d) = [b0, b1]" "from_le [b0, b1] = ud_product_id d" by (rule le2_read)
  have "input_profile_id_new (ud_input_profile_id d) = Some (ud_input_profile_id d)"
    using assms by (simp add: response_payload_ok_def input_profile_id_new_def INPUT_PROFILE_CAPACITY_def)
  then show ?thesis using assms x
    by (simp add: payload_eval decode_usb_device_def response_payload_ok_def a b not_less del: from_le.simps)
qed

lemma setting_survives:
  assumes "response_payload_ok w (MpSetting s)"
  shows "payload_survives w (MpSetting s)"
proof -
  obtain a b where ab: "to_le 2 (setting_id_u16 (sg_id s)) = [a, b]" by (rule to_le_2_list)
  obtain x y where xy: "encode_setting_target (sg_target s) = [x, y]" by (cases "sg_target s") auto
  obtain v0 v1 v2 v3 where vs: "i32_bytes (sg_value s) = [v0, v1, v2, v3]" unfolding i32_bytes_def by (rule to_le_4_list)
  have "decode_setting_target x y = Inr (sg_target s)" "i32_of [v0, v1, v2, v3] = sg_value s"
    using assms xy i32_roundtrip[of "sg_value s"] vs by (simp_all add: response_payload_ok_def setting_target_inverse)
  then show ?thesis using setting_id_read[OF ab] ab xy vs by (simp add: payload_eval decode_setting_def bindE_def)
qed

lemma output_status_survives:
  assumes "response_payload_ok w (MpOutputTargetStatus s)"
  shows "payload_survives w (MpOutputTargetStatus s)"
proof -
  obtain k i where ki: "management_output_target_encode (os_selected s) = (k, i)" by fastforce
  obtain a b where ab: "encode_active (os_active s) = [a, b]" by (cases "os_active s"; cases "management_output_target_encode (the (os_active s))") (auto simp: encode_active_def)
  obtain u0 u1 u2 u3 where u: "to_le 4 (os_operation_id s) = [u0, u1, u2, u3]" "from_le [u0, u1, u2, u3] = os_operation_id s" by (rule le4_read)
  have "management_output_target_decode k i = Inr (os_selected s)" "decode_active a b = Inr (os_active s)" "os_ready_ble_mask s AND 15 = os_ready_ble_mask s" "w"
    using assms ki ab byte_mask by (simp_all add: response_payload_ok_def output_target_inverse active_inverse)
  then show ?thesis using ki ab
    by (simp add: payload_eval decode_output_target_status_def bindE_def u availability_inverse[THEN iffD2, OF refl] bool_inverse[THEN iffD2, OF refl]
        presentation_inverse[THEN iffD2, OF refl] del: from_le.simps)
qed

lemma mirror_candidate_survives:
  assumes "response_payload_ok w (MpMirrorCandidate c)"
  shows "payload_survives w (MpMirrorCandidate c)"
proof -
  obtain a0 a1 where a: "to_le 2 (mn_vendor_id c) = [a0, a1]" "from_le [a0, a1] = mn_vendor_id c" by (rule le2_read)
  obtain b0 b1 where b: "to_le 2 (mn_product_id c) = [b0, b1]" "from_le [b0, b1] = mn_product_id c" by (rule le2_read)
  obtain u0 u1 u2 u3 where u: "to_le 4 (mn_profile_hash c) = [u0, u1, u2, u3]" "from_le [u0, u1, u2, u3] = mn_profile_hash c" by (rule le4_read)
  obtain v0 v1 v2 v3 where v: "to_le 4 (mn_descriptor_hash c) = [v0, v1, v2, v3]" "from_le [v0, v1, v2, v3] = mn_descriptor_hash c" by (rule le4_read)
  have "(case mn_source_device c of Some d \<Rightarrow> d | None \<Rightarrow> 0xff) = 0xff \<longleftrightarrow> mn_source_device c = None" "w"
    using assms by (auto simp: response_payload_ok_def split: option.splits)
  then show ?thesis
    by (cases "mn_source_device c") (simp_all add: payload_eval decode_mirror_candidate_def a b u v del: from_le.simps)
qed

lemma payload_ok_survives: "response_payload_ok w p \<Longrightarrow> payload_survives w p"
proof (cases p)
  case MpNone
  show ?thesis by (simp add: MpNone payload_eval eval_nat_numeral)
next
  case (MpClientSession s)
  moreover assume "response_payload_ok w p"
  ultimately have "decode_optional_host (option_host_id (cl_host_id s)) = cl_host_id s" by (simp add: response_payload_ok_def host_option_inverse)
  then show ?thesis by (simp add: MpClientSession payload_eval)
qed (use status_survives host_info_survives usb_device_survives setting_survives output_status_survives mirror_candidate_survives payload_words_survive in blast)+

lemma if_eqE: "(if b then x else y) = z \<Longrightarrow> (b \<Longrightarrow> x = z \<Longrightarrow> R) \<Longrightarrow> (y = z \<Longrightarrow> R) \<Longrightarrow> R"
  by (cases b) simp_all

lemma payload_ok_plain:
  "response_payload_ok w MpNone" "response_payload_ok w (MpDiagnostics d)" "response_payload_ok w (MpHistory e)" "response_payload_ok w (MpSchema s)"
  "response_payload_ok w (MpHostTiming t)" "response_payload_ok w (MpClientSession \<lparr>cl_host_id = decode_optional_host b\<rparr>)"
  "response_payload_ok True (MpMirrorCandidate (decode_mirror_candidate bs))"
  by (simp_all add: response_payload_ok_def host_option_ok_def decode_optional_host_def decode_mirror_candidate_def)

lemma decode_payload_ok:
  assumes len: "length bs = 20" and dec: "decode_response_payload w bs = Inr p"
  shows "response_payload_ok w p"
proof -
  have status: "response_payload_ok w p" if "decode_status bs = Inr p"
    using that by (auto simp: decode_status_def response_payload_ok_def host_option_ok_def decode_optional_host_def not_less split: if_splits option.splits)
  have info: "response_payload_ok w p" if "decode_host_info bs = Inr p"
  proof -
    have "length (subslice 8 20 bs) = MANAGEMENT_HOST_NAME_LEN" using len by (simp add: length_subslice management_sizes)
    moreover have "(x AND 3 :: u8) \<le> 3" for x by (rule word_and_le1)
    ultimately show ?thesis using that by (auto simp: decode_host_info_def bindE_Inr_iff host_name_inverse response_payload_ok_def)
  qed
  have device: "response_payload_ok w p" if "decode_usb_device bs = Inr p"
    using that len by (auto simp: decode_usb_device_def response_payload_ok_def input_profile_id_new_def INPUT_PROFILE_CAPACITY_def not_less length_subslice
        split: if_splits option.splits)
  have setting: "response_payload_ok w p" if "decode_setting bs = Inr p"
    using that by (auto simp: decode_setting_def bindE_Inr_iff setting_target_inverse i32_of_ok response_payload_ok_def)
  have wired: "response_payload_ok True p" if "decode_output_target_status bs = Inr p"
    using that by (auto simp: decode_output_target_status_def bindE_Inr_iff output_target_inverse active_inverse response_payload_ok_def intro: word_and_le1)
  show ?thesis
    using dec unfolding decode_response_payload_def Let_def
    by (elim if_eqE conjE) (auto intro: status info device setting simp: payload_ok_plain dest: wired)
qed

interpretation response: wire_reader "\<lambda>r. response_payload_ok w (mp_payload r)" management_response_encode "management_response_decode w" for w
proof
  show "management_response_decode w (management_response_encode r) = Inr r" if "response_payload_ok w (mp_payload r)" for r
    using payload_ok_survives[OF that] decode_response_image[of "encode_response_payload (mp_payload r)" w "mp_request_id r" "mp_result r" "mp_payload r"]
    by (cases r) (simp add: payload_survives_def response_image_eq)
  show "response_payload_ok w (mp_payload r)" if "management_response_decode w bs = Inr r" for bs r
    using that by (auto simp: management_response_decode_def management_sizes bindE_Inr_iff intro!: decode_payload_ok[of bs] split: if_splits)
qed

text \<open>
  C30: Management messages survive the wire. A request or a response can be obtained from some
  byte string exactly if its fields are in range for the build, exactly if its own encoding,
  always 20 bytes, decodes to it; and an event is decoded from its own encoding only.
\<close>

theorem management_survives_wire:
  "((\<exists>bs. management_request_decode w bs = Inr q) \<longleftrightarrow> command_ok w (mq_command q)) \<and>
   (management_request_decode w (management_request_encode q) = Inr q \<longleftrightarrow> command_ok w (mq_command q)) \<and>
   ((\<exists>bs. management_response_decode w bs = Inr r) \<longleftrightarrow> response_payload_ok w (mp_payload r)) \<and>
   (management_response_decode w (management_response_encode r) = Inr r \<longleftrightarrow> response_payload_ok w (mp_payload r)) \<and>
   (management_event_decode bs = Inr e \<longleftrightarrow> management_event_encode e = bs)"
  using request.canonical[of w q] request.dec_valid[of w _ q] response.canonical[of w r] response.dec_valid[of w _ r] event.exact[of bs e]
  by (intro conjI) (blast, blast, blast, blast, simp)

end
