(* ===== verification/HS_DeviceLink.thy ===== *)
theory HS_DeviceLink
  imports HS_Reliable HS_Fragment HS_Management
begin

unbundle bit_operations_syntax

text \<open>
  The device side of the link between the two chips (\<open>interchip/device.rs\<close>): it answers every
  SPI transaction with one cell, checks the host's session and role, and turns the records of
  accepted cells into events for the USB side. The capacity of the event vector is the parameter
  \<open>cap\<close>. Only the dual-chip build has this module, so the management codec is the one of that
  build.
\<close>

section \<open>Model\<close>

definition CAPABILITY_DYNAMIC_PROFILE :: u32 where "CAPABILITY_DYNAMIC_PROFILE = push_bit 0 1"
definition CAPABILITY_FALLBACK_PROFILE :: u32 where "CAPABILITY_FALLBACK_PROFILE = push_bit 1 1"
definition CAPABILITY_CONTROL_FORWARDING :: u32 where "CAPABILITY_CONTROL_FORWARDING = push_bit 2 1"
definition CAPABILITY_ENDPOINT_IN :: u32 where "CAPABILITY_ENDPOINT_IN = push_bit 3 1"
definition CAPABILITY_ENDPOINT_OUT :: u32 where "CAPABILITY_ENDPOINT_OUT = push_bit 4 1"
definition CAPABILITY_PROFILE_FLASH_CACHE :: u32 where "CAPABILITY_PROFILE_FLASH_CACHE = push_bit 5 1"
definition CAPABILITY_STANDARD_WIRED_HID :: u32 where "CAPABILITY_STANDARD_WIRED_HID = push_bit 6 1"
definition CAPABILITY_USB_STATE_REPORTING :: u32 where "CAPABILITY_USB_STATE_REPORTING = push_bit 7 1"
definition CAPABILITY_HID_MANAGEMENT :: u32 where "CAPABILITY_HID_MANAGEMENT = push_bit 8 1"

definition DEVICE_CAPABILITIES :: u32 where
  "DEVICE_CAPABILITIES =
     CAPABILITY_FALLBACK_PROFILE OR CAPABILITY_STANDARD_WIRED_HID OR CAPABILITY_USB_STATE_REPORTING OR CAPABILITY_HID_MANAGEMENT"
definition RETRANSMIT_TIMEOUT_MS :: u64 where "RETRANSMIT_TIMEOUT_MS = 5"
definition MAX_RETRANSMIT_ATTEMPTS :: u8 where "MAX_RETRANSMIT_ATTEMPTS = 8"

datatype device_link_event =
  DeStandardInput standard_input_report | DeReleaseAll | DeForceFallback u32 | DeActivateProfile activate_profile
  | DeProfileBegin profile_begin | DeProfileChunk profile_chunk_data | DeProfileCommit u32 | DeRawEndpointIn raw_endpoint_report
  | DeControlResponse control_response | DeManagementResponse management_response | DeManagementEvent management_event

record device_link_diagnostics =
  dd_valid_cells :: u32
  dd_host_session_changes :: u32
  dd_standard_reports_received :: u32
  dd_releases_received :: u32
  dd_malformed_cells :: u32
  dd_duplicate_cells :: u32
  dd_sequence_gaps :: u32
  dd_event_overflows :: u32

definition device_diagnostics_default :: device_link_diagnostics where
  "device_diagnostics_default =
     \<lparr>dd_valid_cells = 0, dd_host_session_changes = 0, dd_standard_reports_received = 0, dd_releases_received = 0,
      dd_malformed_cells = 0, dd_duplicate_cells = 0, dd_sequence_gaps = 0, dd_event_overflows = 0\<rparr>"

record device_link =
  dl_sender :: reliable_sender
  dl_receiver :: reliable_receiver
  dl_next_cell :: "spi_cell option"
  dl_host_compatible :: bool
  dl_usb_state :: usb_state
  dl_usb_state_dirty :: bool
  dl_diagnostics :: device_link_diagnostics
  dl_capabilities :: u32
  dl_active_profile_hash :: u32
  dl_control_request_tx :: "(control_request \<times> u16) option"
  dl_control_response_assembler :: response_assembler
  dl_management_request_tx :: "management_request option"

definition nonzero_session :: "u32 \<Rightarrow> u32" where
  "nonzero_session v = (if v = 0 then 1 else v)"

subsection \<open>Queueing records\<close>

text \<open>Each of these returns the link and the cell it queued, if the sender's window had room.\<close>

definition queue_records :: "wire_record list \<Rightarrow> u64 \<Rightarrow> device_link \<Rightarrow> device_link \<times> spi_cell option" where
  "queue_records records now l =
     (case encode_records records (replicate SPI_CELL_PAYLOAD_LEN 0) of
        (payload, Inl e) \<Rightarrow> (l, None)
      | (payload, Inr (len, count)) \<Rightarrow>
          (case sender_queue (dl_sender l) (take (unat len) payload) count now of
             (s, Inl e) \<Rightarrow> (l\<lparr>dl_sender := s\<rparr>, None)
           | (s, Inr cell) \<Rightarrow> (l\<lparr>dl_sender := s\<rparr>, Some cell)))"

definition queue_record :: "u8 \<Rightarrow> bytes \<Rightarrow> u64 \<Rightarrow> device_link \<Rightarrow> device_link \<times> spi_cell option" where
  "queue_record record_type data now l = queue_records [\<lparr>wr_type = record_type, wr_flags = 0, wr_data = data\<rparr>] now l"

definition device_hello :: "device_link \<Rightarrow> hello" where
  "device_hello l =
     \<lparr>hl_role = RoleDevice, hl_protocol_version = SPI_PROTOCOL_VERSION, hl_firmware_major = 0, hl_firmware_minor = 2,
      hl_capabilities = dl_capabilities l, hl_active_profile_hash = dl_active_profile_hash l\<rparr>"

definition queue_hello :: "u64 \<Rightarrow> device_link \<Rightarrow> device_link \<times> spi_cell option" where
  "queue_hello now l = queue_record RECORD_HELLO (hello_encode (device_hello l)) now l"

definition mark_reported :: "device_link \<times> spi_cell option \<Rightarrow> device_link \<times> spi_cell option" where
  "mark_reported r = (case r of (l, Some cell) \<Rightarrow> (l\<lparr>dl_usb_state_dirty := False\<rparr>, Some cell) | (l, None) \<Rightarrow> (l, None))"

definition queue_hello_ack_and_usb_state :: "u64 \<Rightarrow> device_link \<Rightarrow> device_link \<times> spi_cell option" where
  "queue_hello_ack_and_usb_state now l =
     mark_reported (queue_records
       [\<lparr>wr_type = RECORD_HELLO_ACK, wr_flags = 0, wr_data = hello_encode (device_hello l)\<rparr>,
        \<lparr>wr_type = RECORD_USB_STATE, wr_flags = 0, wr_data = usb_state_encode (dl_usb_state l)\<rparr>] now l)"

definition queue_dirty_usb_state :: "u64 \<Rightarrow> device_link \<Rightarrow> device_link \<times> spi_cell option" where
  "queue_dirty_usb_state now l =
     (if \<not> dl_host_compatible l \<or> \<not> dl_usb_state_dirty l then (l, None)
      else mark_reported (queue_record RECORD_USB_STATE (usb_state_encode (dl_usb_state l)) now l))"

definition queue_next_control_request_fragment :: "u64 \<Rightarrow> device_link \<Rightarrow> device_link \<times> spi_cell option" where
  "queue_next_control_request_fragment now l =
     (case dl_control_request_tx l of
        None \<Rightarrow> (l, None)
      | Some (request, offset) \<Rightarrow>
          (case request_fragment_of request (unat offset) of
             Inl e \<Rightarrow> (l, None)
           | Inr fragment \<Rightarrow>
               (case request_fragment_encode fragment (replicate CONTROL_REQUEST_FRAGMENT_MAX_WIRE_LEN 0) of
                  (data, Inl e) \<Rightarrow> (l, None)
                | (data, Inr len) \<Rightarrow>
                    (case queue_record RECORD_CONTROL_REQUEST (take len data) now l of
                       (l, None) \<Rightarrow> (l, None)
                     | (l, Some cell) \<Rightarrow>
                         let next_offset = unat offset + length (request_fragment_data fragment) in
                         (l\<lparr>dl_control_request_tx :=
                              if qf_flags fragment AND CONTROL_FRAGMENT_LAST \<noteq> 0 then None else Some (request, of_nat next_offset)\<rparr>,
                          Some cell)))))"

definition queue_pending_management_request :: "u64 \<Rightarrow> device_link \<Rightarrow> device_link \<times> spi_cell option" where
  "queue_pending_management_request now l =
     (case dl_management_request_tx l of
        None \<Rightarrow> (l, None)
      | Some request \<Rightarrow>
          (case queue_record RECORD_MANAGEMENT_REQUEST (management_request_encode request) now l of
             (l, None) \<Rightarrow> (l, None)
           | (l, Some cell) \<Rightarrow> (l\<lparr>dl_management_request_tx := None\<rparr>, Some cell)))"

text \<open>\<open>self.next_cell = self.queue_\<dots>(now_ms)\<close>\<close>

definition set_next :: "device_link \<times> spi_cell option \<Rightarrow> device_link" where
  "set_next r = (fst r)\<lparr>dl_next_cell := snd r\<rparr>"

subsection \<open>Construction and the USB side\<close>

definition with_capabilities :: "u32 \<Rightarrow> usb_state \<Rightarrow> u32 \<Rightarrow> u32 \<Rightarrow> device_link" where
  "with_capabilities session_id state capabilities active_profile_hash =
     set_next (queue_hello 0
       \<lparr>dl_sender = reliable_sender_new (nonzero_session session_id), dl_receiver = reliable_receiver_new, dl_next_cell = None,
        dl_host_compatible = False, dl_usb_state = state, dl_usb_state_dirty = True, dl_diagnostics = device_diagnostics_default,
        dl_capabilities = capabilities, dl_active_profile_hash = active_profile_hash, dl_control_request_tx = None,
        dl_control_response_assembler = response_assembler_new, dl_management_request_tx = None\<rparr>)"

definition device_link_new :: "u32 \<Rightarrow> usb_state \<Rightarrow> device_link" where
  "device_link_new session_id state = with_capabilities session_id state DEVICE_CAPABILITIES 0"

definition new_with_profile_storage :: "u32 \<Rightarrow> usb_state \<Rightarrow> u32 \<Rightarrow> device_link" where
  "new_with_profile_storage session_id state active_profile_hash =
     with_capabilities session_id state
       (DEVICE_CAPABILITIES OR CAPABILITY_DYNAMIC_PROFILE OR CAPABILITY_PROFILE_FLASH_CACHE OR CAPABILITY_ENDPOINT_IN
        OR CAPABILITY_ENDPOINT_OUT OR CAPABILITY_CONTROL_FORWARDING) active_profile_hash"

definition update_usb_state :: "usb_state \<Rightarrow> u64 \<Rightarrow> device_link \<Rightarrow> device_link" where
  "update_usb_state state now l =
     (let l = l\<lparr>dl_usb_state := state, dl_usb_state_dirty := True\<rparr> in
      if dl_host_compatible l \<and> dl_next_cell l = None then set_next (queue_dirty_usb_state now l) else l)"

definition offer :: "device_link \<times> spi_cell option \<Rightarrow> device_link \<times> bool" where
  "offer r = (let l = set_next r in (l, dl_next_cell l \<noteq> None))"

definition queue_standard_output :: "standard_output_report \<Rightarrow> u64 \<Rightarrow> device_link \<Rightarrow> device_link \<times> bool" where
  "queue_standard_output report now l =
     (if \<not> dl_host_compatible l \<or> dl_next_cell l \<noteq> None then (l, False)
      else offer (queue_record RECORD_STANDARD_OUTPUT_REPORT (standard_output_encode report) now l))"

definition queue_profile_result :: "profile_result \<Rightarrow> u64 \<Rightarrow> device_link \<Rightarrow> device_link \<times> bool" where
  "queue_profile_result result now l =
     (if \<not> dl_host_compatible l \<or> dl_next_cell l \<noteq> None then (l, False)
      else offer (queue_record RECORD_PROFILE_RESULT (profile_result_encode result) now l))"

definition queue_raw_endpoint_out :: "raw_endpoint_report \<Rightarrow> u64 \<Rightarrow> device_link \<Rightarrow> device_link \<times> bool" where
  "queue_raw_endpoint_out report now l =
     (if \<not> dl_host_compatible l \<or> dl_next_cell l \<noteq> None then (l, False)
      else case raw_report_encode report (replicate RAW_ENDPOINT_MAX_WIRE_LEN 0) of
        (data, Inl e) \<Rightarrow> (l, False)
      | (data, Inr len) \<Rightarrow> offer (queue_record RECORD_RAW_ENDPOINT_OUT (take len data) now l))"

definition queue_control_request :: "control_request \<Rightarrow> u64 \<Rightarrow> device_link \<Rightarrow> device_link \<times> bool" where
  "queue_control_request request now l =
     (if \<not> dl_host_compatible l \<or> dl_next_cell l \<noteq> None \<or> dl_control_request_tx l \<noteq> None then (l, False)
      else offer (queue_next_control_request_fragment now (l\<lparr>dl_control_request_tx := Some (request, 0)\<rparr>)))"

definition queue_management_request :: "management_request \<Rightarrow> u64 \<Rightarrow> device_link \<Rightarrow> device_link \<times> bool" where
  "queue_management_request request now l =
     (if \<not> dl_host_compatible l \<or> dl_next_cell l \<noteq> None \<or> dl_management_request_tx l \<noteq> None then (l, False)
      else offer (queue_pending_management_request now (l\<lparr>dl_management_request_tx := Some request\<rparr>)))"

subsection \<open>Answering a transaction\<close>

definition or_else :: "(device_link \<Rightarrow> device_link \<times> spi_cell option) \<Rightarrow> device_link \<times> spi_cell option \<Rightarrow> device_link \<times> spi_cell option" where
  "or_else f r = (case r of (l, Some cell) \<Rightarrow> (l, Some cell) | (l, None) \<Rightarrow> f l)"

definition take_next :: "device_link \<Rightarrow> device_link \<times> spi_cell option" where
  "take_next l = (l\<lparr>dl_next_cell := None\<rparr>, dl_next_cell l)"

definition poll_link :: "u64 \<Rightarrow> device_link \<Rightarrow> device_link \<times> spi_cell option" where
  "poll_link now l =
     (case poll_retransmit (dl_sender l) now RETRANSMIT_TIMEOUT_MS MAX_RETRANSMIT_ATTEMPTS of
        (s, RetransmitSend cell) \<Rightarrow> (l\<lparr>dl_sender := s\<rparr>, Some cell)
      | (s, LinkResetRequired) \<Rightarrow>
          queue_hello now (l\<lparr>dl_sender := sender_reset_session s (nonzero_session (rs_session_id s + 1)),
            dl_host_compatible := False, dl_usb_state_dirty := True\<rparr>)
      | (s, RetransmitIdle) \<Rightarrow> (l\<lparr>dl_sender := s\<rparr>, None))"

definition choose_cell :: "u64 \<Rightarrow> device_link \<Rightarrow> device_link \<times> spi_cell option" where
  "choose_cell now l =
     or_else (poll_link now) (or_else (queue_dirty_usb_state now) (or_else (queue_pending_management_request now)
       (or_else (queue_next_control_request_fragment now) (take_next l))))"

definition next_transaction :: "u64 \<Rightarrow> device_link \<Rightarrow> device_link \<times> bytes" where
  "next_transaction now l =
     (case choose_cell now (l\<lparr>dl_sender := set_cumulative_ack (dl_sender l) (rr_cumulative_ack (dl_receiver l))\<rparr>) of
        (l, cell) \<Rightarrow>
          let cell = (case cell of Some cell \<Rightarrow> cell | None \<Rightarrow> spi_cell_empty (rs_session_id (dl_sender l)));
              cell = with_ack (rr_cumulative_ack (dl_receiver l)) cell in
          (l, case cell_encode cell of Inr bs \<Rightarrow> bs | Inl e \<Rightarrow> replicate SPI_CELL_LEN 0))"

subsection \<open>Handling a received cell\<close>

definition is_host_hello :: "wire_record \<Rightarrow> bool" where
  "is_host_hello r =
     (wr_type r = RECORD_HELLO \<and>
      (case hello_decode (wr_data r) of
         Inr hello \<Rightarrow> hl_role hello = RoleHost \<and> hl_protocol_version hello = SPI_PROTOCOL_VERSION
       | Inl e \<Rightarrow> False))"

text \<open>\<open>any\<close> consumes the iterator up to and including the first match.\<close>

function iter_any :: "(wire_record \<Rightarrow> bool) \<Rightarrow> record_iter \<Rightarrow> record_iter \<times> bool" where
  "iter_any p it =
     (case record_iter_next it of
        (it', None) \<Rightarrow> (it', False)
      | (it', Some (Inl e)) \<Rightarrow> iter_any p it'
      | (it', Some (Inr r)) \<Rightarrow> if p r then (it', True) else iter_any p it')"
  by pat_completeness auto
termination by (relation "measure (\<lambda>(p, it). iter_fuel it)") (auto dest: iter_fuel_next[OF sym])

declare iter_any.simps [simp del]

definition contains_compatible_host_hello :: "spi_cell \<Rightarrow> bool" where
  "contains_compatible_host_hello cell =
     (case iter_any is_host_hello (record_iter_new (cell_payload cell) (ch_record_count (sc_header cell))) of
        (it, found) \<Rightarrow> found \<and> record_iter_finish it = Inr ())"

type_synonym device_io = "device_link \<times> device_link_event list"

definition count_diag :: "(device_link_diagnostics \<Rightarrow> device_link_diagnostics) \<Rightarrow> device_link \<Rightarrow> device_link" where
  "count_diag f l = l\<lparr>dl_diagnostics := f (dl_diagnostics l)\<rparr>"

definition mark_malformed :: "device_io \<Rightarrow> device_io" where
  "mark_malformed io = (case io of (l, events) \<Rightarrow> (count_diag (\<lambda>d. d\<lparr>dd_malformed_cells := sat_add (dd_malformed_cells d) 1\<rparr>) l, events))"

definition push_event :: "nat \<Rightarrow> device_link_event \<Rightarrow> device_io \<Rightarrow> device_io" where
  "push_event cap event io =
     (case io of (l, events) \<Rightarrow>
        if length events < cap then (l, events @ [event])
        else (count_diag (\<lambda>d. d\<lparr>dd_event_overflows := sat_add (dd_event_overflows d) 1\<rparr>) l, events))"

definition decoded :: "('e + 'a) \<Rightarrow> ('a \<Rightarrow> device_io \<Rightarrow> device_io) \<Rightarrow> device_io \<Rightarrow> device_io" where
  "decoded r f io = (case r of Inl e \<Rightarrow> mark_malformed io | Inr x \<Rightarrow> f x io)"

definition read_u32 :: "bytes \<Rightarrow> unit + u32" where
  "read_u32 bs = (if length bs = 4 then Inr (from_le bs) else Inl ())"

definition on_link :: "(device_link \<Rightarrow> device_link) \<Rightarrow> device_io \<Rightarrow> device_io" where
  "on_link f io = (f (fst io), snd io)"

definition handle_hello :: "u64 \<Rightarrow> hello \<Rightarrow> device_link \<Rightarrow> device_link" where
  "handle_hello now hello l =
     (let l = l\<lparr>dl_host_compatible := (hl_role hello = RoleHost \<and> hl_protocol_version hello = SPI_PROTOCOL_VERSION)\<rparr> in
      if dl_host_compatible l then set_next (queue_hello_ack_and_usb_state now l) else l)"

definition forget_session_work :: "device_link \<Rightarrow> device_link" where
  "forget_session_work l =
     l\<lparr>dl_control_request_tx := None,
       dl_control_response_assembler := response_assembler_reset (dl_control_response_assembler l),
       dl_management_request_tx := None\<rparr>"

definition handle_link_reset :: "u64 \<Rightarrow> device_link \<Rightarrow> device_link" where
  "handle_link_reset now l =
     set_next (queue_hello now (forget_session_work (l\<lparr>dl_host_compatible := False, dl_usb_state_dirty := True\<rparr>)))"

definition report_usb_state :: "u64 \<Rightarrow> device_link \<Rightarrow> device_link" where
  "report_usb_state now l =
     (let l = l\<lparr>dl_usb_state_dirty := True\<rparr> in
      if dl_next_cell l = None then set_next (queue_dirty_usb_state now l) else l)"

definition handle_control_response :: "nat \<Rightarrow> response_fragment \<Rightarrow> device_io \<Rightarrow> device_io" where
  "handle_control_response cap fragment io =
     (case response_assembler_push (dl_control_response_assembler (fst io)) fragment of
        (a, r) \<Rightarrow>
          let io = on_link (\<lambda>l. l\<lparr>dl_control_response_assembler := a\<rparr>) io in
          (case r of
             Inr (Some response) \<Rightarrow> push_event cap (DeControlResponse response) io
           | Inr None \<Rightarrow> io
           | Inl e \<Rightarrow> mark_malformed io))"

text \<open>The records that are handled only for a compatible host.\<close>

definition handle_host_record :: "nat \<Rightarrow> wire_record \<Rightarrow> device_io \<Rightarrow> device_io" where
  "handle_host_record cap r io =
     (let t = wr_type r; data = wr_data r in
      if t = RECORD_ACTIVATE_PROFILE then decoded (activate_profile_decode data) (\<lambda>a. push_event cap (DeActivateProfile a)) io
      else if t = RECORD_PROFILE_BEGIN then decoded (profile_begin_decode data) (\<lambda>b. push_event cap (DeProfileBegin b)) io
      else if t = RECORD_PROFILE_CHUNK then
        decoded (bindE (profile_chunk_decode data) chunk_from_borrowed) (\<lambda>c. push_event cap (DeProfileChunk c)) io
      else if t = RECORD_PROFILE_COMMIT then decoded (read_u32 data) (\<lambda>i. push_event cap (DeProfileCommit i)) io
      else if t = RECORD_RAW_ENDPOINT_IN then decoded (raw_report_decode data) (\<lambda>x. push_event cap (DeRawEndpointIn x)) io
      else if t = RECORD_CONTROL_RESPONSE then decoded (response_fragment_decode data) (handle_control_response cap) io
      else if t = RECORD_STANDARD_INPUT_REPORT then
        decoded (standard_input_decode data) (\<lambda>x io. push_event cap (DeStandardInput x)
          (on_link (count_diag (\<lambda>d. d\<lparr>dd_standard_reports_received := sat_add (dd_standard_reports_received d) 1\<rparr>)) io)) io
      else if t = RECORD_STANDARD_RELEASE_ALL then
        (if data = [] then push_event cap DeReleaseAll
           (on_link (count_diag (\<lambda>d. d\<lparr>dd_releases_received := sat_add (dd_releases_received d) 1\<rparr>)) io)
         else mark_malformed io)
      else if t = RECORD_MANAGEMENT_RESPONSE then decoded (management_response_decode True data) (\<lambda>x. push_event cap (DeManagementResponse x)) io
      else if t = RECORD_MANAGEMENT_EVENT then decoded (management_event_decode data) (\<lambda>x. push_event cap (DeManagementEvent x)) io
      else io)"

definition handle_record :: "nat \<Rightarrow> u64 \<Rightarrow> wire_record \<Rightarrow> device_io \<Rightarrow> device_io" where
  "handle_record cap now r io =
     (if wr_type r = RECORD_HELLO then decoded (hello_decode (wr_data r)) (\<lambda>hello. on_link (handle_hello now hello)) io
      else if wr_type r = RECORD_HEARTBEAT then io
      else if wr_type r = RECORD_LINK_RESET then on_link (handle_link_reset now) io
      else if wr_type r = RECORD_FORCE_FALLBACK then
        decoded (read_u32 (wr_data r)) (\<lambda>i io. on_link (report_usb_state now) (push_event cap (DeForceFallback i) io)) io
      else if dl_host_compatible (fst io) then handle_host_record cap r io
      else io)"

text \<open>The loop ends early, without the final check, at a record that cannot be read.\<close>

fun record_loop :: "nat \<Rightarrow> u64 \<Rightarrow> (record_codec_error + wire_record) list \<Rightarrow> device_io \<Rightarrow> device_io \<times> bool" where
  "record_loop cap now [] io = (io, True)"
| "record_loop cap now (Inl e # rs) io = (mark_malformed io, False)"
| "record_loop cap now (Inr r # rs) io = record_loop cap now rs (handle_record cap now r io)"

definition handle_payload :: "nat \<Rightarrow> u64 \<Rightarrow> spi_cell \<Rightarrow> device_io \<Rightarrow> device_io" where
  "handle_payload cap now cell io =
     (case iter_collect (record_iter_new (cell_payload cell) (ch_record_count (sc_header cell))) of
        (rs, it) \<Rightarrow>
          (case record_loop cap now rs io of
             (io, False) \<Rightarrow> io
           | (io, True) \<Rightarrow> (case record_iter_finish it of Inl e \<Rightarrow> mark_malformed io | Inr _ \<Rightarrow> io)))"

text \<open>The session check; the flag says whether the cell goes on to the receiver.\<close>

definition check_session :: "spi_cell \<Rightarrow> device_link \<Rightarrow> device_link \<times> bool" where
  "check_session cell l =
     (let session = ch_session_id (sc_header cell) in
      if rr_session_id (dl_receiver l) \<noteq> Some session then
        let l = forget_session_work ((count_diag (\<lambda>d. d\<lparr>dd_host_session_changes := sat_add (dd_host_session_changes d) 1\<rparr>) l)\<lparr>dl_host_compatible := False\<rparr>) in
        if \<not> contains_compatible_host_hello cell then (l\<lparr>dl_receiver := receiver_reset_session (dl_receiver l) session\<rparr>, False)
        else (l, True)
      else (l, dl_host_compatible l \<or> contains_compatible_host_hello cell))"

definition acknowledge_cell :: "spi_cell \<Rightarrow> device_link \<Rightarrow> device_link" where
  "acknowledge_cell cell l =
     (count_diag (\<lambda>d. d\<lparr>dd_valid_cells := sat_add (dd_valid_cells d) 1\<rparr>) l)
       \<lparr>dl_sender := fst (sender_acknowledge (dl_sender l) (ch_cumulative_ack (sc_header cell)))\<rparr>"

definition receive_cell :: "nat \<Rightarrow> u64 \<Rightarrow> spi_cell \<Rightarrow> device_io \<Rightarrow> device_io" where
  "receive_cell cap now cell io =
     (let (r, disposition) = receive (dl_receiver (fst io)) cell;
          l = (fst io)\<lparr>dl_receiver := r\<rparr> in
      case disposition of
        RdAccepted _ _ \<Rightarrow> handle_payload cap now cell (l, snd io)
      | RdDuplicate _ \<Rightarrow> (count_diag (\<lambda>d. d\<lparr>dd_duplicate_cells := sat_add (dd_duplicate_cells d) 1\<rparr>) l, snd io)
      | RdGap _ _ \<Rightarrow> (count_diag (\<lambda>d. d\<lparr>dd_sequence_gaps := sat_add (dd_sequence_gaps d) 1\<rparr>) l, snd io)
      | RdEmpty \<Rightarrow> (l, snd io)
      | RdSessionChanged \<Rightarrow> (l, snd io))"

definition handle_cell :: "nat \<Rightarrow> u64 \<Rightarrow> spi_cell \<Rightarrow> device_io \<Rightarrow> device_io" where
  "handle_cell cap now cell io =
     (case check_session cell (acknowledge_cell cell (fst io)) of
        (l, False) \<Rightarrow> (l, snd io)
      | (l, True) \<Rightarrow> receive_cell cap now cell (l, snd io))"

definition handle_transaction :: "nat \<Rightarrow> bytes \<Rightarrow> u64 \<Rightarrow> device_io \<Rightarrow> device_io" where
  "handle_transaction cap bs now io =
     (case cell_decode bs of Inl e \<Rightarrow> mark_malformed io | Inr cell \<Rightarrow> handle_cell cap now cell io)"

section \<open>The sender holds well-formed cells\<close>

definition sent_ok :: "reliable_sender \<Rightarrow> spi_cell \<Rightarrow> bool" where
  "sent_ok s c = (cell_ok c \<and> ch_session_id (sc_header c) = rs_session_id s \<and> ch_tx_sequence (sc_header c) \<noteq> 0)"

definition sender_ok :: "reliable_sender \<Rightarrow> bool" where
  "sender_ok s = (rs_next_sequence s \<noteq> 0 \<and> length (rs_pending s) = SPI_TX_WINDOW \<and> (\<forall>p. Some p \<in> set (rs_pending s) \<longrightarrow> sent_ok s (pc_cell p)))"

lemma next_sequence_nonzero: "next_sequence q \<noteq> 0"
proof -
  have "q = - 1" if "q + 1 = 0" using that by (simp add: eq_neg_iff_add_eq_0)
  moreover have "(0xffff :: u16) = - 1" by simp
  ultimately show ?thesis by (auto simp: next_sequence_def)
qed

lemma queued_cell_ok:
  assumes "rs_next_sequence s \<noteq> 0" "length payload \<le> SPI_CELL_PAYLOAD_LEN"
  shows "sent_ok s (queued_cell s payload n)"
proof -
  have "unat (of_nat (length payload) :: u16) = length payload" using assms(2) by (intro unat_of_nat_small) (simp add: spi_sizes)
  then show ?thesis using assms
    by (simp add: sent_ok_def queued_cell_def cell_ok_def spi_cell_empty_def spi_cell_header_new_def Let_def write_padded list_all_iff)
qed

lemma sender_new_ok: "sender_ok (reliable_sender_new i)"
  by (simp add: sender_ok_def reliable_sender_new_def)

lemma sender_reset_ok: "sender_ok (sender_reset_session s i)"
  by (simp add: sender_ok_def sender_reset_session_def)

lemma sender_queue_ok:
  assumes "sender_ok s" "sender_queue s payload n now = (s', r)"
  shows "sender_ok s' \<and> rs_session_id s' = rs_session_id s \<and> (\<forall>c. r = Inr c \<longrightarrow> sent_ok s' c)"
proof (cases "SPI_CELL_PAYLOAD_LEN < length payload \<or> position (\<lambda>p. p = None) (rs_pending s) = None")
  case True then show ?thesis using assms by (auto simp: sender_queue_def split: option.splits if_splits)
next
  case False
  then obtain i where i: "position (\<lambda>p. p = None) (rs_pending s) = Some i" and len: "length payload \<le> SPI_CELL_PAYLOAD_LEN" by auto
  let ?c = "queued_cell s payload n"
  have s': "s' = s\<lparr>rs_next_sequence := next_sequence (rs_next_sequence s), rs_pending := (rs_pending s)[i := Some \<lparr>pc_cell = ?c, pc_last_sent_ms = now, pc_attempts = 1\<rparr>]\<rparr>"
    and r: "r = Inr ?c" using assms(2) i len by (auto simp: sender_queue_def Let_def)
  have c: "sent_ok s ?c" using assms(1) len by (intro queued_cell_ok) (simp_all add: sender_ok_def)
  then have "sent_ok s (pc_cell p)" if "Some p \<in> set (rs_pending s')" for p
    using that assms(1) set_update_subset_insert[of "rs_pending s" i "Some \<lparr>pc_cell = ?c, pc_last_sent_ms = now, pc_attempts = 1\<rparr>"]
    by (auto simp: s' sender_ok_def)
  then show ?thesis using assms(1) c by (auto simp: s' r sender_ok_def next_sequence_nonzero sent_ok_def)
qed

lemma sender_acknowledge_ok:
  assumes "sender_ok s"
  shows "sender_ok (fst (sender_acknowledge s a)) \<and> rs_session_id (fst (sender_acknowledge s a)) = rs_session_id s"
proof -
  have "Some p = pending_get (rs_pending s) i \<Longrightarrow> Some p \<in> set (rs_pending s)" for p i
    by (metis nth_mem option.distinct(1) pending_get_def)
  then show ?thesis using assms unfolding sender_acknowledge_def Let_def
    by (cases "position (has_sequence a) (rs_pending s)") (auto simp: sender_ok_def sent_ok_def)
qed

lemma with_ack_ok [simp]: "cell_ok (with_ack a c) = cell_ok c" "ch_session_id (sc_header (with_ack a c)) = ch_session_id (sc_header c)"
  "ch_tx_sequence (sc_header (with_ack a c)) = ch_tx_sequence (sc_header c)" "sent_ok s (with_ack a c) = sent_ok s c"
  by (simp_all add: cell_ok_def with_ack_def sent_ok_def Let_def)

lemma set_ack_ok: "sender_ok s \<Longrightarrow> sender_ok (set_cumulative_ack s a) \<and> rs_session_id (set_cumulative_ack s a) = rs_session_id s"
proof -
  have "\<exists>q. Some q \<in> set (rs_pending s) \<and> pc_cell p = with_ack a (pc_cell q)" if "Some p \<in> set (rs_pending (set_cumulative_ack s a))" for p
    using that by (force simp: set_cumulative_ack_def map_option_case split: option.splits)
  moreover have "sent_ok (set_cumulative_ack s a) c = sent_ok s c" for c by (simp add: sent_ok_def set_cumulative_ack_def)
  ultimately show "sender_ok s \<Longrightarrow> ?thesis" unfolding sender_ok_def by (fastforce simp: set_cumulative_ack_def[of s a])
qed

lemma poll_ok:
  assumes "sender_ok s" "poll_retransmit s now t m = (s', r)"
  shows "sender_ok s' \<and> rs_session_id s' = rs_session_id s \<and> (\<forall>c. r = RetransmitSend c \<longrightarrow> sent_ok s' c)"
proof (cases "position (\<lambda>p. p \<noteq> None) (rs_pending s)")
  case None then show ?thesis using assms by (auto simp: poll_retransmit_def)
next
  case (Some i)
  then have i: "i < length (rs_pending s)" "rs_pending s ! i \<noteq> None" by (auto dest: position_SomeD)
  then obtain p where p: "rs_pending s ! i = Some p" by auto
  then have "sent_ok s (pc_cell p)" using assms(1) i(1) by (metis nth_mem sender_ok_def)
  moreover have "Some q \<in> set ((rs_pending s)[i := Some (p\<lparr>pc_attempts := a, pc_last_sent_ms := now\<rparr>)]) \<Longrightarrow> sent_ok s (pc_cell q)" for q a
    using calculation assms(1) set_update_subset_insert[of "rs_pending s" i "Some (p\<lparr>pc_attempts := a, pc_last_sent_ms := now\<rparr>)"]
    by (auto simp: sender_ok_def)
  ultimately show ?thesis using assms Some p by (auto simp: poll_retransmit_def sender_ok_def sent_ok_def split: if_splits)
qed

section \<open>Every answer is a valid cell\<close>

definition link_ok :: "device_link \<Rightarrow> bool" where
  "link_ok l = (sender_ok (dl_sender l) \<and> (\<forall>c. dl_next_cell l = Some c \<longrightarrow> sent_ok (dl_sender l) c))"

text \<open>What a queueing function leaves alone, and what it returns.\<close>

definition queues :: "device_link \<Rightarrow> device_link \<times> spi_cell option \<Rightarrow> bool" where
  "queues l r =
     (sender_ok (dl_sender (fst r)) \<and> rs_session_id (dl_sender (fst r)) = rs_session_id (dl_sender l) \<and>
      dl_next_cell (fst r) = dl_next_cell l \<and> dl_receiver (fst r) = dl_receiver l \<and> dl_host_compatible (fst r) = dl_host_compatible l \<and>
      (\<forall>c. snd r = Some c \<longrightarrow> sent_ok (dl_sender (fst r)) c))"

lemma queues_refl: "sender_ok (dl_sender l) \<Longrightarrow> queues l (l, None)"
  by (simp add: queues_def)

lemma queue_records_ok: "sender_ok (dl_sender l) \<Longrightarrow> queues l (queue_records rs now l)"
  by (auto simp: queue_records_def queues_def split: prod.splits sum.splits dest: sender_queue_ok)

lemma queue_record_ok: "sender_ok (dl_sender l) \<Longrightarrow> queues l (queue_record t d now l)"
  by (simp add: queue_record_def queue_records_ok)

lemma queue_hello_ok: "sender_ok (dl_sender l) \<Longrightarrow> queues l (queue_hello now l)"
  by (simp add: queue_hello_def queue_record_ok)

lemma mark_reported_ok: "queues l r \<Longrightarrow> queues l (mark_reported r)"
  by (cases r; cases "snd r") (auto simp: queues_def mark_reported_def)

lemma queue_ack_ok: "sender_ok (dl_sender l) \<Longrightarrow> queues l (queue_hello_ack_and_usb_state now l)"
  by (simp add: queue_hello_ack_and_usb_state_def mark_reported_ok queue_records_ok)

lemma queue_dirty_ok: "sender_ok (dl_sender l) \<Longrightarrow> queues l (queue_dirty_usb_state now l)"
  by (simp add: queue_dirty_usb_state_def mark_reported_ok queue_record_ok queues_refl)

lemma queue_record_queues: "queue_record t d now l = (l', co) \<Longrightarrow> sender_ok (dl_sender l) \<Longrightarrow> queues l (l', co)"
  using queue_record_ok by metis

lemma queue_fragment_ok: "sender_ok (dl_sender l) \<Longrightarrow> queues l (queue_next_control_request_fragment now l)"
  by (auto simp: queue_next_control_request_fragment_def Let_def queues_def split: option.splits sum.splits prod.splits dest!: queue_record_queues)

lemma queue_management_ok: "sender_ok (dl_sender l) \<Longrightarrow> queues l (queue_pending_management_request now l)"
  by (auto simp: queue_pending_management_request_def queues_def split: option.splits prod.splits dest!: queue_record_queues)

lemma set_next_ok: "queues l r \<Longrightarrow> link_ok (set_next r)"
  by (auto simp: queues_def set_next_def link_ok_def split: option.splits)

text \<open>What the operations of the USB side and the answers leave alone.\<close>

definition quiet :: "device_link \<Rightarrow> device_link \<Rightarrow> bool" where
  "quiet l l' = (link_ok l' \<and> dl_receiver l' = dl_receiver l \<and> (dl_host_compatible l' \<longrightarrow> dl_host_compatible l))"

lemma set_next_quiet: "queues l r \<Longrightarrow> quiet l (set_next r)"
  using set_next_ok[of l r] by (simp add: quiet_def queues_def set_next_def)

lemma offer_quiet: "queues l r \<Longrightarrow> quiet l (fst (offer r))"
  by (simp add: offer_def Let_def set_next_quiet)

lemma quiet_cong: "quiet l0 l' \<Longrightarrow> dl_receiver l0 = dl_receiver l \<Longrightarrow> dl_host_compatible l0 = dl_host_compatible l \<Longrightarrow> quiet l l'"
  by (simp add: quiet_def)

lemma link_ok_sender: "link_ok l \<Longrightarrow> sender_ok (dl_sender l)"
  by (simp add: link_ok_def)

lemma link_ok_cong: "link_ok l \<Longrightarrow> dl_sender l' = dl_sender l \<Longrightarrow> dl_next_cell l' = dl_next_cell l \<Longrightarrow> link_ok l'"
  by (simp add: link_ok_def)

lemma with_capabilities_ok: "link_ok (with_capabilities i u c h)"
  unfolding with_capabilities_def by (intro set_next_ok[OF queue_hello_ok]) (simp add: sender_new_ok)

lemma usb_side_quiet:
  assumes ok: "link_ok l"
  shows "quiet l (update_usb_state u now l)" "quiet l (fst (queue_standard_output so now l))" "quiet l (fst (queue_profile_result pr now l))"
    "quiet l (fst (queue_raw_endpoint_out rr now l))" "quiet l (fst (queue_control_request cr now l))" "quiet l (fst (queue_management_request mr now l))"
proof -
  note sender = link_ok_sender[OF ok]
  have same: "quiet l l" using ok by (simp add: quiet_def)
  have "quiet l (l\<lparr>dl_usb_state := u, dl_usb_state_dirty := True\<rparr>)" using ok by (simp add: quiet_def link_ok_def)
  moreover have "quiet l (set_next (queue_dirty_usb_state now (l\<lparr>dl_usb_state := u, dl_usb_state_dirty := True\<rparr>)))"
    by (rule quiet_cong[OF set_next_quiet[OF queue_dirty_ok]]) (simp_all add: sender)
  ultimately show "quiet l (update_usb_state u now l)" by (simp add: update_usb_state_def Let_def)
  show "quiet l (fst (queue_standard_output so now l))" "quiet l (fst (queue_profile_result pr now l))" "quiet l (fst (queue_raw_endpoint_out rr now l))"
    by (simp_all add: queue_standard_output_def queue_profile_result_def queue_raw_endpoint_out_def same offer_quiet[OF queue_record_ok[OF sender]]
        split: prod.split sum.split)
  have "quiet l (fst (offer (queue_next_control_request_fragment now (l\<lparr>dl_control_request_tx := Some (cr, 0)\<rparr>))))"
    by (rule quiet_cong[OF offer_quiet[OF queue_fragment_ok]]) (simp_all add: sender)
  then show "quiet l (fst (queue_control_request cr now l))" using same by (simp add: queue_control_request_def)
  have "quiet l (fst (offer (queue_pending_management_request now (l\<lparr>dl_management_request_tx := Some mr\<rparr>))))"
    by (rule quiet_cong[OF offer_quiet[OF queue_management_ok]]) (simp_all add: sender)
  then show "quiet l (fst (queue_management_request mr now l))" using same by (simp add: queue_management_request_def)
qed

definition answers :: "device_link \<Rightarrow> device_link \<times> spi_cell option \<Rightarrow> bool" where
  "answers l r =
     (sender_ok (dl_sender (fst r)) \<and> dl_next_cell (fst r) = None \<and> dl_receiver (fst r) = dl_receiver l \<and> (dl_host_compatible (fst r) \<longrightarrow> dl_host_compatible l) \<and>
      (\<forall>c. snd r = Some c \<longrightarrow> sent_ok (dl_sender (fst r)) c))"

lemma or_else_answers:
  assumes "answers l r" "\<And>l'. sender_ok (dl_sender l') \<Longrightarrow> dl_next_cell l' = None \<Longrightarrow> answers l' (f l')"
  shows "answers l (or_else f r)"
proof (cases "snd r")
  case None
  have "answers (fst r) (f (fst r))" by (rule assms(2)) (use assms(1) in \<open>simp_all add: answers_def\<close>)
  with None assms(1) show ?thesis by (cases r) (auto simp: or_else_def answers_def)
qed (use assms(1) in \<open>cases r; simp add: or_else_def\<close>)

lemma queues_answers: "queues l r \<Longrightarrow> dl_next_cell l = None \<Longrightarrow> answers l r"
  by (simp add: queues_def answers_def)

lemma poll_link_answers:
  assumes "sender_ok (dl_sender l)" "dl_next_cell l = None"
  shows "answers l (poll_link now l)"
proof -
  obtain s a where p: "poll_retransmit (dl_sender l) now RETRANSMIT_TIMEOUT_MS MAX_RETRANSMIT_ATTEMPTS = (s, a)" by fastforce
  note ok = poll_ok[OF assms(1) p]
  show ?thesis
  proof (cases a)
    case LinkResetRequired
    let ?l = "l\<lparr>dl_sender := sender_reset_session s (nonzero_session (rs_session_id s + 1)), dl_host_compatible := False, dl_usb_state_dirty := True\<rparr>"
    have "queues ?l (queue_hello now ?l)" by (rule queue_hello_ok) (simp add: sender_reset_ok)
    then show ?thesis using p LinkResetRequired assms(2) by (simp add: poll_link_def queues_def answers_def)
  qed (use p ok assms(2) in \<open>simp_all add: poll_link_def answers_def\<close>)
qed

lemma choose_cell_answers:
  assumes "link_ok l"
  shows "answers l (choose_cell now l)"
proof -
  have "answers l (take_next l)" using assms by (simp add: answers_def take_next_def link_ok_def)
  then show ?thesis unfolding choose_cell_def
    by (auto intro!: or_else_answers intro: poll_link_answers queues_answers queue_dirty_ok queue_management_ok queue_fragment_ok)
qed

lemma empty_cell_ok: "cell_ok (spi_cell_empty i)" "ch_session_id (sc_header (spi_cell_empty i)) = i"
  by (simp_all add: cell_ok_def spi_cell_empty_def spi_cell_header_new_def Let_def list_all_iff)

lemma next_transaction_ok:
  assumes "link_ok l" "next_transaction now l = (l', bs)"
  shows "quiet l l' \<and>
    (\<exists>c. cell_decode bs = Inr c \<and> length bs = SPI_CELL_LEN \<and> ch_session_id (sc_header c) = rs_session_id (dl_sender l') \<and>
      ch_cumulative_ack (sc_header c) = rr_cumulative_ack (dl_receiver l))"
proof -
  define l1 where "l1 = l\<lparr>dl_sender := set_cumulative_ack (dl_sender l) (rr_cumulative_ack (dl_receiver l))\<rparr>"
  have "sent_ok (set_cumulative_ack s a) c = sent_ok s c" for s a c by (simp add: sent_ok_def set_cumulative_ack_def)
  then have "link_ok l1" using assms(1) set_ack_ok[of "dl_sender l"] by (auto simp: link_ok_def l1_def split: option.splits)
  then have a: "answers l1 (choose_cell now l1)" by (rule choose_cell_answers)
  obtain l2 co where c: "choose_cell now l1 = (l2, co)" by fastforce
  define cell where "cell = (case co of Some cell \<Rightarrow> cell | None \<Rightarrow> spi_cell_empty (rs_session_id (dl_sender l2)))"
  let ?c = "with_ack (rr_cumulative_ack (dl_receiver l2)) cell"
  have ok: "cell_ok ?c" "ch_session_id (sc_header ?c) = rs_session_id (dl_sender l2)"
    using a c by (auto simp: answers_def cell_def sent_ok_def empty_cell_ok split: option.splits)
  obtain img where img: "cell_encode ?c = Inr img" "length img = SPI_CELL_LEN" "cell_decode img = Inr ?c" using cell_roundtrip[OF ok(1)] by blast
  have "next_transaction now l = (l2, img)"
    unfolding next_transaction_def l1_def[symmetric] c prod.case Let_def cell_def[symmetric] img(1) by simp
  then have r: "l' = l2" "bs = img" using assms(2) by simp_all
  have "dl_receiver l2 = dl_receiver l" "quiet l l2" using a c by (simp_all add: answers_def link_ok_def l1_def quiet_def)
  moreover have "ch_cumulative_ack (sc_header ?c) = rr_cumulative_ack (dl_receiver l2)" by (simp add: with_ack_def)
  ultimately show ?thesis using img ok r by auto
qed

section \<open>Handling cells keeps the link well formed\<close>

definition io_ok :: "device_io \<Rightarrow> bool" where
  "io_ok io = link_ok (fst io)"

lemma count_diag_fields [simp]: "dl_sender (count_diag f l) = dl_sender l" "dl_next_cell (count_diag f l) = dl_next_cell l"
  "dl_receiver (count_diag f l) = dl_receiver l" "dl_host_compatible (count_diag f l) = dl_host_compatible l"
  by (simp_all add: count_diag_def)

lemma io_ok_steps:
  assumes "io_ok io"
  shows "io_ok (mark_malformed io)" "io_ok (push_event cap e io)" "(\<And>x. io_ok (f x io)) \<Longrightarrow> io_ok (decoded r f io)"
    "(link_ok (fst io) \<Longrightarrow> link_ok (g (fst io))) \<Longrightarrow> io_ok (on_link g io)"
  using assms by (auto simp: io_ok_def mark_malformed_def push_event_def decoded_def on_link_def link_ok_def split: prod.splits sum.splits)

lemma handle_hello_ok: "link_ok l \<Longrightarrow> link_ok (handle_hello now h l)"
  unfolding handle_hello_def Let_def by (auto intro!: set_next_ok[OF queue_ack_ok] dest: link_ok_sender intro: link_ok_cong)

lemma handle_link_reset_ok: "link_ok l \<Longrightarrow> link_ok (handle_link_reset now l)"
  unfolding handle_link_reset_def by (intro set_next_ok[OF queue_hello_ok]) (simp add: forget_session_work_def link_ok_def)

lemma report_usb_ok: "link_ok l \<Longrightarrow> link_ok (report_usb_state now l)"
  unfolding report_usb_state_def Let_def by (auto intro!: set_next_ok[OF queue_dirty_ok] dest: link_ok_sender intro: link_ok_cong)

lemma handle_control_response_ok: "io_ok io \<Longrightarrow> io_ok (handle_control_response cap f io)"
  unfolding handle_control_response_def Let_def
  by (auto split: prod.splits sum.splits option.splits intro!: io_ok_steps intro: link_ok_cong)

lemma handle_host_record_ok: "io_ok io \<Longrightarrow> io_ok (handle_host_record cap r io)"
  unfolding handle_host_record_def Let_def
  by (auto intro!: io_ok_steps handle_control_response_ok intro: link_ok_cong)

lemma handle_record_ok: "io_ok io \<Longrightarrow> io_ok (handle_record cap now r io)"
  unfolding handle_record_def
  by (auto intro!: io_ok_steps handle_host_record_ok handle_hello_ok handle_link_reset_ok report_usb_ok)

lemma record_loop_ok: "io_ok io \<Longrightarrow> io_ok (fst (record_loop cap now rs io))"
  by (induction cap now rs io rule: record_loop.induct) (auto intro: io_ok_steps handle_record_ok)

lemma handle_payload_ok: "io_ok io \<Longrightarrow> io_ok (handle_payload cap now c io)"
  using record_loop_ok[of io cap now] unfolding handle_payload_def
  by (auto split: prod.splits sum.splits bool.splits intro!: io_ok_steps) (metis fst_conv)+

lemma check_session_ok: "link_ok l \<Longrightarrow> link_ok (fst (check_session c l))"
  by (auto simp: check_session_def Let_def forget_session_work_def intro: link_ok_cong)

lemma acknowledge_cell_ok: "link_ok l \<Longrightarrow> link_ok (acknowledge_cell c l)"
  using sender_acknowledge_ok[of "dl_sender l" "ch_cumulative_ack (sc_header c)"] by (auto simp: acknowledge_cell_def link_ok_def sent_ok_def)

lemma receive_cell_ok:
  assumes "io_ok io"
  shows "io_ok (receive_cell cap now c io)"
proof -
  obtain r d where r: "receive (dl_receiver (fst io)) c = (r, d)" by fastforce
  have "io_ok ((fst io)\<lparr>dl_receiver := r\<rparr>, snd io)" using assms by (simp add: io_ok_def link_ok_def)
  then show ?thesis using handle_payload_ok by (cases d) (simp_all add: receive_cell_def r io_ok_def link_ok_def)
qed

lemma handle_transaction_ok:
  assumes "io_ok io"
  shows "io_ok (handle_transaction cap bs now io)"
proof (cases "cell_decode bs")
  case Inl then show ?thesis using assms by (simp add: handle_transaction_def io_ok_steps)
next
  case (Inr c)
  have "link_ok (fst (check_session c (acknowledge_cell c (fst io))))" using assms by (simp add: io_ok_def check_session_ok acknowledge_cell_ok)
  then have "io_ok (fst (check_session c (acknowledge_cell c (fst io))), snd io)" by (simp add: io_ok_def)
  then show ?thesis using Inr receive_cell_ok by (auto simp: handle_transaction_def handle_cell_def io_ok_def split: prod.splits bool.splits)
qed

section \<open>Who is listened to\<close>

definition cell_records :: "spi_cell \<Rightarrow> (record_codec_error + wire_record) list" where
  "cell_records c = fst (iter_collect (record_iter_new (cell_payload c) (ch_record_count (sc_header c))))"

definition has_host_hello :: "(record_codec_error + wire_record) list \<Rightarrow> bool" where
  "has_host_hello rs = list_ex (\<lambda>r. case r of Inr x \<Rightarrow> is_host_hello x | Inl e \<Rightarrow> False) rs"

lemma iter_any_found: "iter_any p it = (it', True) \<Longrightarrow> \<exists>xs r. fst (iter_collect it) = xs @ Inr r # fst (iter_collect it') \<and> p r"
proof (induction p it rule: iter_any.induct)
  case (1 p it)
  obtain it1 n where n: "record_iter_next it = (it1, n)" by fastforce
  show ?case
  proof (cases n)
    case None then show ?thesis using 1(3) n by (subst (asm) iter_any.simps) simp
  next
    case (Some e)
    have c: "fst (iter_collect it) = e # fst (iter_collect it1)" using n Some by (subst iter_collect.simps) (simp add: split_beta)
    show ?thesis
    proof (cases "\<exists>r. e = Inr r \<and> p r")
      case True
      then have "it' = it1" using 1(3) n Some by (subst (asm) iter_any.simps) auto
      then show ?thesis using True c by (intro exI[of _ "[]"]) auto
    next
      case False
      then have "iter_any p it1 = (it', True)" using 1(3) n Some by (subst (asm) iter_any.simps) (auto split: sum.splits)
      then have "\<exists>xs r. fst (iter_collect it1) = xs @ Inr r # fst (iter_collect it') \<and> p r"
        using 1(1,2) n Some False by (cases e) auto
      then obtain xs r where "fst (iter_collect it1) = xs @ Inr r # fst (iter_collect it')" "p r" by blast
      then show ?thesis using c by (intro exI[of _ "e # xs"] exI[of _ r]) simp
    qed
  qed
qed

text \<open>A hello is recognised only as the last record of its cell: the search stops at it, and the check that follows expects the iterator to be exhausted.\<close>

lemma recognised_hello_is_last:
  assumes "contains_compatible_host_hello c"
  shows "\<exists>xs r. cell_records c = xs @ [Inr r] \<and> is_host_hello r"
proof -
  obtain it where it: "iter_any is_host_hello (record_iter_new (cell_payload c) (ch_record_count (sc_header c))) = (it, True)" "record_iter_finish it = Inr ()"
    using assms by (auto simp: contains_compatible_host_hello_def split: prod.splits)
  then have "ri_remaining it = 0" by (auto simp: record_iter_finish_def split: if_splits)
  then have "fst (iter_collect it) = []" by (subst iter_collect.simps) (simp add: record_iter_next_def)
  then show ?thesis using iter_any_found[OF it(1)] by (simp add: cell_records_def)
qed

text \<open>Conversely, a cell with the records \<open>rs\<close> whose last one is the first hello is recognised.\<close>

definition carries :: "wire_record list \<Rightarrow> spi_cell \<Rightarrow> bool" where
  "carries rs c =
     (list_all (\<lambda>r. length (wr_data r) \<le> 0xffff) rs \<and> length rs \<le> 255 \<and> cell_payload c = concat (map record_image rs) \<and>
      ch_record_count (sc_header c) = of_nat (length rs))"

lemma carries_records:
  assumes "carries rs c"
  shows "iter_collect (record_iter_new (cell_payload c) (ch_record_count (sc_header c))) =
    (map Inr rs, \<lparr>ri_bytes = concat (map record_image rs), ri_offset = records_len rs, ri_remaining = 0, ri_failed = False\<rparr>)"
  using collect_records[of rs "[]" "[]"] assms by (simp add: carries_def record_iter_new_def)

lemma iter_any_records:
  assumes "list_all (\<lambda>r. length (wr_data r) \<le> 0xffff) (xs @ [r])" "length (xs @ [r]) \<le> 255" "p r" "\<not> list_ex p xs"
  shows "iter_any p \<lparr>ri_bytes = pre @ concat (map record_image (xs @ [r])), ri_offset = length pre, ri_remaining = of_nat (length (xs @ [r])), ri_failed = False\<rparr> =
    (\<lparr>ri_bytes = pre @ concat (map record_image (xs @ [r])), ri_offset = length (pre @ concat (map record_image (xs @ [r]))), ri_remaining = 0, ri_failed = False\<rparr>, True)"
  using assms
proof (induction xs arbitrary: pre)
  case Nil
  have "record_iter_next \<lparr>ri_bytes = pre @ record_image r @ [], ri_offset = length pre, ri_remaining = 1, ri_failed = False\<rparr> =
    (\<lparr>ri_bytes = pre @ record_image r @ [], ri_offset = length pre + padded (length (wr_data r)), ri_remaining = 1 - 1, ri_failed = False\<rparr>, Some (Inr r))"
    by (rule next_record) (use Nil in simp_all)
  then show ?case using Nil by (subst iter_any.simps) simp
next
  case (Cons x xs)
  have rem: "(of_nat (length (x # xs @ [r])) :: u8) \<noteq> 0"
  proof -
    have "unat (of_nat (length (x # xs @ [r])) :: u8) = length (x # xs @ [r])" by (rule unat_of_nat_small) (use Cons.prems(2) in simp)
    then show ?thesis by (metis length_0_conv list.distinct(1) unat_0)
  qed
  have "record_iter_next \<lparr>ri_bytes = pre @ record_image x @ concat (map record_image (xs @ [r])), ri_offset = length pre,
      ri_remaining = of_nat (length (x # xs @ [r])), ri_failed = False\<rparr> =
    (\<lparr>ri_bytes = (pre @ record_image x) @ concat (map record_image (xs @ [r])), ri_offset = length (pre @ record_image x),
      ri_remaining = of_nat (length (xs @ [r])), ri_failed = False\<rparr>, Some (Inr x))"
    using next_record[OF _ rem, of x pre] Cons.prems(1) by simp
  then show ?case using Cons.IH[of "pre @ record_image x"] Cons.prems by (subst iter_any.simps) (simp del: of_nat_Suc)
qed

lemma hello_recognised:
  assumes "carries (xs @ [r]) c" "is_host_hello r" "\<not> list_ex is_host_hello xs"
  shows "contains_compatible_host_hello c"
  using iter_any_records[of xs r is_host_hello "[]"] assms
  by (simp add: carries_def contains_compatible_host_hello_def record_iter_new_def record_iter_finish_def)

lemma recognised_hello: "contains_compatible_host_hello c \<Longrightarrow> has_host_hello (cell_records c)"
  using recognised_hello_is_last by (fastforce simp: has_host_hello_def)

text \<open>A step of the record loop: the session stays, the host becomes compatible only by a hello, events are only added.\<close>

definition advances :: "bool \<Rightarrow> device_io \<Rightarrow> device_io \<Rightarrow> bool" where
  "advances hello io io' =
     (dl_receiver (fst io') = dl_receiver (fst io) \<and> (dl_host_compatible (fst io') \<longrightarrow> dl_host_compatible (fst io) \<or> hello) \<and>
      (\<exists>new. snd io' = snd io @ new))"

lemma advances_refl: "advances h io io"
  by (simp add: advances_def)

lemma advances_trans: "advances h io io1 \<Longrightarrow> advances k io1 io2 \<Longrightarrow> advances (h \<or> k) io io2"
  by (auto simp: advances_def)

lemma advances_mark: "advances h io (mark_malformed io)"
  by (cases io) (simp add: advances_def mark_malformed_def)

lemma advances_push: "advances h io (push_event cap e io)"
  by (cases io) (simp add: advances_def push_event_def)

lemma advances_decoded: "(\<And>x. r = Inr x \<Longrightarrow> advances h io (f x io)) \<Longrightarrow> advances h io (decoded r f io)"
  by (cases r) (simp_all add: decoded_def advances_mark)

lemma advances_on_link: "dl_receiver (f (fst io)) = dl_receiver (fst io) \<Longrightarrow> (dl_host_compatible (f (fst io)) \<longrightarrow> dl_host_compatible (fst io) \<or> h) \<Longrightarrow> advances h io (on_link f io)"
  by (simp add: advances_def on_link_def)

lemma advances_push_on_link:
  assumes "advances h io (on_link f io)"
  shows "advances h io (push_event cap e (on_link f io))"
  using advances_trans[OF assms advances_push[of h "on_link f io" cap e]] by simp

lemma set_next_fields: "queues l r \<Longrightarrow> dl_receiver (set_next r) = dl_receiver l \<and> dl_host_compatible (set_next r) = dl_host_compatible l"
  by (simp add: queues_def set_next_def)

lemma handle_hello_advances:
  assumes "link_ok l"
  shows "dl_receiver (handle_hello now h l) = dl_receiver l"
    "dl_host_compatible (handle_hello now h l) \<longleftrightarrow> hl_role h = RoleHost \<and> hl_protocol_version h = SPI_PROTOCOL_VERSION"
  using set_next_fields[OF queue_ack_ok, of "l\<lparr>dl_host_compatible := True\<rparr>" now] link_ok_sender[OF assms] by (auto simp: handle_hello_def Let_def)

lemma handle_link_reset_advances:
  assumes "link_ok l"
  shows "dl_receiver (handle_link_reset now l) = dl_receiver l" "\<not> dl_host_compatible (handle_link_reset now l)"
  using set_next_fields[OF queue_hello_ok, of "forget_session_work (l\<lparr>dl_host_compatible := False, dl_usb_state_dirty := True\<rparr>)" now] link_ok_sender[OF assms]
  by (auto simp: handle_link_reset_def forget_session_work_def)

lemma report_usb_advances:
  assumes "link_ok l"
  shows "dl_receiver (report_usb_state now l) = dl_receiver l" "dl_host_compatible (report_usb_state now l) = dl_host_compatible l"
  using set_next_fields[OF queue_dirty_ok, of "l\<lparr>dl_usb_state_dirty := True\<rparr>" now] link_ok_sender[OF assms] by (auto simp: report_usb_state_def Let_def)

lemma handle_control_response_advances: "advances h io (handle_control_response cap f io)"
proof -
  obtain a r where r: "response_assembler_push (dl_control_response_assembler (fst io)) f = (a, r)" by fastforce
  let ?io = "on_link (\<lambda>l. l\<lparr>dl_control_response_assembler := a\<rparr>) io"
  have o: "advances h io ?io" by (rule advances_on_link) simp_all
  have "advances h io (mark_malformed ?io)" using advances_trans[OF o advances_mark[of h]] by simp
  then show ?thesis using o advances_push_on_link[OF o] r by (auto simp: handle_control_response_def Let_def split: sum.splits option.splits)
qed

lemma handle_host_record_advances: "advances h io (handle_host_record cap r io)"
  unfolding handle_host_record_def Let_def
  by (auto intro!: advances_decoded advances_push advances_mark advances_refl handle_control_response_advances advances_push_on_link advances_on_link)

lemma handle_record_advances:
  assumes "io_ok io"
  shows "advances (is_host_hello r) io (handle_record cap now r io)"
proof -
  have l: "link_ok (fst io)" using assms by (simp add: io_ok_def)
  have hello: "advances (is_host_hello r) io (decoded (hello_decode (wr_data r)) (\<lambda>h. on_link (handle_hello now h)) io)" if "wr_type r = RECORD_HELLO"
    using handle_hello_advances[OF l] that by (intro advances_decoded advances_on_link) (auto simp: is_host_hello_def)
  have reset: "advances (is_host_hello r) io (on_link (handle_link_reset now) io)"
    using handle_link_reset_advances[OF l] by (intro advances_on_link) simp_all
  have fallback: "advances (is_host_hello r) io (on_link (report_usb_state now) (push_event cap (DeForceFallback i) io))" for i
  proof -
    let ?io = "push_event cap (DeForceFallback i) io"
    have "link_ok (fst ?io)" using io_ok_steps(2)[OF assms] by (simp add: io_ok_def)
    then have "advances (is_host_hello r) ?io (on_link (report_usb_state now) ?io)"
      using report_usb_advances[of "fst ?io" now] by (intro advances_on_link) simp_all
    then show ?thesis using advances_trans[OF advances_push[of "is_host_hello r" io]] by fastforce
  qed
  show ?thesis unfolding handle_record_def
    using hello reset fallback handle_host_record_advances by (auto intro: advances_refl advances_decoded)
qed

lemma record_loop_advances: "io_ok io \<Longrightarrow> advances (has_host_hello rs) io (fst (record_loop cap now rs io))"
proof (induction cap now rs io rule: record_loop.induct)
  case (3 cap now r rs io)
  have "advances (has_host_hello rs) (handle_record cap now r io) (fst (record_loop cap now rs (handle_record cap now r io)))"
    using 3 handle_record_ok by blast
  then show ?case using advances_trans[OF handle_record_advances[OF 3(2), of r cap now]] by (simp add: has_host_hello_def)
qed (simp_all add: advances_refl advances_mark)

lemma handle_payload_advances:
  assumes "io_ok io"
  shows "advances (has_host_hello (cell_records c)) io (handle_payload cap now c io)"
proof -
  obtain rs it where i: "iter_collect (record_iter_new (cell_payload c) (ch_record_count (sc_header c))) = (rs, it)" by fastforce
  then have rs: "cell_records c = rs" by (simp add: cell_records_def)
  obtain io1 b where l: "record_loop cap now rs io = (io1, b)" by fastforce
  have a: "advances (has_host_hello rs) io io1" using record_loop_advances[OF assms, of rs cap now] l by simp
  have "advances (has_host_hello rs) io (mark_malformed io1)" using advances_trans[OF a advances_mark[of "has_host_hello rs"]] by simp
  then show ?thesis using a i l unfolding rs by (auto simp: handle_payload_def split: bool.splits sum.splits)
qed

definition listens :: "device_link \<Rightarrow> spi_cell \<Rightarrow> bool" where
  "listens l c = (dl_host_compatible l \<and> rr_session_id (dl_receiver l) = Some (ch_session_id (sc_header c)))"

definition expected_sequence :: "device_link \<Rightarrow> spi_cell \<Rightarrow> u16" where
  "expected_sequence l c =
     next_sequence (if rr_session_id (dl_receiver l) = Some (ch_session_id (sc_header c)) then rr_cumulative_ack (dl_receiver l) else 0)"

lemma check_session_cases:
  assumes "check_session c l = (l1, go)"
  shows "dl_host_compatible l1 \<Longrightarrow> listens l c" "go \<Longrightarrow> dl_receiver l1 = dl_receiver l \<and> (listens l c \<or> contains_compatible_host_hello c)"
    "\<not> go \<Longrightarrow> rr_session_id (dl_receiver l1) = Some (ch_session_id (sc_header c))"
  using assms by (auto simp: check_session_def Let_def forget_session_work_def listens_def receiver_reset_session_def split: if_splits)

lemma check_session_hello: "contains_compatible_host_hello c \<Longrightarrow> snd (check_session c l) = True \<and> dl_receiver (fst (check_session c l)) = dl_receiver l"
  by (simp add: check_session_def Let_def forget_session_work_def)

lemma receive_session: "receive r c = (r', d) \<Longrightarrow> rr_session_id r' = Some (ch_session_id (sc_header c))"
  by (auto simp: receive_def Let_def split: if_splits)

lemma receive_accepted:
  "receive (dl_receiver l) c = (r', RdAccepted x y) \<Longrightarrow> ch_tx_sequence (sc_header c) = expected_sequence l c"
  by (auto simp: receive_def Let_def expected_sequence_def split: if_splits)

lemma receive_cell_cases:
  assumes "io_ok io" "receive_cell cap now c io = (l', evs')"
  shows "rr_session_id (dl_receiver l') = Some (ch_session_id (sc_header c))"
    "dl_host_compatible l' \<longrightarrow> dl_host_compatible (fst io) \<or> has_host_hello (cell_records c)"
    "evs' = snd io \<or> ch_tx_sequence (sc_header c) = expected_sequence (fst io) c"
proof -
  obtain r d where r: "receive (dl_receiver (fst io)) c = (r, d)" by fastforce
  let ?io = "((fst io)\<lparr>dl_receiver := r\<rparr>, snd io)"
  note session = receive_session[OF r]
  have ok: "io_ok ?io" using assms(1) by (simp add: io_ok_def link_ok_def)
  have acc: "advances (has_host_hello (cell_records c)) ?io (l', evs')" if "d = RdAccepted x y" for x y
    using handle_payload_advances[OF ok, of c cap now] assms(2) r that by (simp add: receive_cell_def)
  show "rr_session_id (dl_receiver l') = Some (ch_session_id (sc_header c))"
    "dl_host_compatible l' \<longrightarrow> dl_host_compatible (fst io) \<or> has_host_hello (cell_records c)"
    "evs' = snd io \<or> ch_tx_sequence (sc_header c) = expected_sequence (fst io) c"
    using acc session assms(2) r receive_accepted[of "fst io" c r]
    by (cases d; fastforce simp: receive_cell_def advances_def)+
qed

lemma handle_transaction_cases:
  assumes "link_ok l" "handle_transaction cap bs now (l, evs) = (l', evs')" "cell_decode bs = Inr c"
  shows "rr_session_id (dl_receiver l') = Some (ch_session_id (sc_header c))"
    "dl_host_compatible l' \<longrightarrow> listens l c \<or> has_host_hello (cell_records c)"
    "evs' = evs \<or> ch_tx_sequence (sc_header c) = expected_sequence l c \<and> (listens l c \<or> has_host_hello (cell_records c))"
proof -
  let ?l = "acknowledge_cell c l"
  have same: "listens ?l c = listens l c" "expected_sequence ?l c = expected_sequence l c" "dl_receiver ?l = dl_receiver l"
    by (simp_all add: acknowledge_cell_def listens_def expected_sequence_def)
  obtain l1 go where k: "check_session c ?l = (l1, go)" by fastforce
  note cs = check_session_cases[OF k]
  have ok: "link_ok l1" using check_session_ok[OF acknowledge_cell_ok[OF assms(1)], of c c] k by simp
  have "(rr_session_id (dl_receiver l') = Some (ch_session_id (sc_header c))) \<and>
    (dl_host_compatible l' \<longrightarrow> listens l c \<or> has_host_hello (cell_records c)) \<and>
    (evs' = evs \<or> ch_tx_sequence (sc_header c) = expected_sequence l c \<and> (listens l c \<or> has_host_hello (cell_records c)))"
  proof (cases go)
    case False
    then show ?thesis using assms(2,3) k cs same by (auto simp: handle_transaction_def handle_cell_def)
  next
    case True
    then have "receive_cell cap now c (l1, evs) = (l', evs')" using assms(2,3) k by (simp add: handle_transaction_def handle_cell_def)
    note rc = receive_cell_cases[OF _ this, unfolded io_ok_def fst_conv snd_conv, OF ok]
    have "expected_sequence l1 c = expected_sequence l c" using cs(2) True same by (simp add: expected_sequence_def)
    then show ?thesis using rc cs same True recognised_hello by metis
  qed
  then show "rr_session_id (dl_receiver l') = Some (ch_session_id (sc_header c))"
    "dl_host_compatible l' \<longrightarrow> listens l c \<or> has_host_hello (cell_records c)"
    "evs' = evs \<or> ch_tx_sequence (sc_header c) = expected_sequence l c \<and> (listens l c \<or> has_host_hello (cell_records c))" by auto
qed

section \<open>Sequences of operations\<close>

datatype device_op =
  DoUsbState usb_state u64 | DoOutput standard_output_report u64 | DoResult profile_result u64 | DoRawOut raw_endpoint_report u64
  | DoControl control_request u64 | DoManagement management_request u64 | DoNext u64 | DoHandle bytes u64

text \<open>The link with the cells it has heard.\<close>

fun device_step :: "nat \<Rightarrow> device_op \<Rightarrow> device_link \<times> spi_cell list \<Rightarrow> device_link \<times> spi_cell list" where
  "device_step cap (DoUsbState u now) (l, heard) = (update_usb_state u now l, heard)"
| "device_step cap (DoOutput x now) (l, heard) = (fst (queue_standard_output x now l), heard)"
| "device_step cap (DoResult x now) (l, heard) = (fst (queue_profile_result x now l), heard)"
| "device_step cap (DoRawOut x now) (l, heard) = (fst (queue_raw_endpoint_out x now l), heard)"
| "device_step cap (DoControl x now) (l, heard) = (fst (queue_control_request x now l), heard)"
| "device_step cap (DoManagement x now) (l, heard) = (fst (queue_management_request x now l), heard)"
| "device_step cap (DoNext now) (l, heard) = (fst (next_transaction now l), heard)"
| "device_step cap (DoHandle bs now) (l, heard) =
     (fst (handle_transaction cap bs now (l, [])), heard @ (case cell_decode bs of Inr c \<Rightarrow> [c] | Inl e \<Rightarrow> []))"

definition greeted :: "u32 \<Rightarrow> spi_cell list \<Rightarrow> bool" where
  "greeted session heard = list_ex (\<lambda>c. ch_session_id (sc_header c) = session \<and> has_host_hello (cell_records c)) heard"

definition device_inv :: "device_link \<times> spi_cell list \<Rightarrow> bool" where
  "device_inv t =
     (link_ok (fst t) \<and>
      (dl_host_compatible (fst t) \<longrightarrow> (\<exists>session. rr_session_id (dl_receiver (fst t)) = Some session \<and> greeted session (snd t))))"

lemma quiet_inv: "device_inv (l, heard) \<Longrightarrow> quiet l l' \<Longrightarrow> device_inv (l', heard)"
  by (auto simp: device_inv_def quiet_def)

lemma handle_inv:
  assumes "device_inv (l, heard)" "handle_transaction cap bs now (l, []) = (l', evs)"
  shows "device_inv (l', heard @ (case cell_decode bs of Inr c \<Rightarrow> [c] | Inl e \<Rightarrow> []))"
proof (cases "cell_decode bs")
  case Inl
  then show ?thesis using assms by (auto simp: handle_transaction_def mark_malformed_def device_inv_def link_ok_def)
next
  case (Inr c)
  have ok: "link_ok l" using assms(1) by (simp add: device_inv_def)
  have "link_ok l'" using handle_transaction_ok[of "(l, [])" cap bs now] assms(2) ok by (simp add: io_ok_def)
  then show ?thesis using handle_transaction_cases[OF ok assms(2) Inr] assms(1) Inr
    by (auto simp: device_inv_def listens_def greeted_def)
qed

interpretation device: op_system "device_step cap" "\<lambda>x. True" device_inv for cap
proof
  fix t x
  assume inv: "device_inv t"
  obtain l heard where t: "t = (l, heard)" by (cases t)
  have ok: "link_ok l" using inv by (simp add: t device_inv_def)
  have nxt: "quiet l (fst (next_transaction now l))" for now using next_transaction_ok[OF ok] by (metis surjective_pairing)
  have handle: "device_inv (fst (handle_transaction cap bs now (l, [])), heard @ (case cell_decode bs of Inr c \<Rightarrow> [c] | Inl e \<Rightarrow> []))" for bs now
    using handle_inv[of l heard cap bs now] inv t by (metis surjective_pairing)
  show "device_inv (device_step cap x t)"
    using inv usb_side_quiet[OF ok] nxt handle quiet_inv unfolding t by (cases x) (auto simp del: sum.case)
qed

lemma device_start: "device_inv (with_capabilities i u c h, [])"
  using with_capabilities_ok[of i u c h] set_next_fields[OF queue_hello_ok, of "\<lparr>dl_sender = reliable_sender_new (nonzero_session i), dl_receiver = reliable_receiver_new,
    dl_next_cell = None, dl_host_compatible = False, dl_usb_state = u, dl_usb_state_dirty = True, dl_diagnostics = device_diagnostics_default, dl_capabilities = c,
    dl_active_profile_hash = h, dl_control_request_tx = None, dl_control_response_assembler = response_assembler_new, dl_management_request_tx = None\<rparr>" 0]
  by (simp add: device_inv_def with_capabilities_def sender_new_ok)

lemma device_reachable: "device_inv (run (device_step cap) ops (with_capabilities i u c h, []))"
  by (rule device.run_inv[OF device_start]) (simp add: list_all_iff)

text \<open>
  C31: The device always answers. Whatever it has been asked and sent before, the bytes of its next
  transaction are a cell that decodes without error, carry the session of its sender and
  acknowledge exactly what its receiver has accepted.
\<close>

theorem device_answers_valid:
  "(case run (device_step cap) ops (with_capabilities i u caps h, []) of (l, heard) \<Rightarrow>
     (case next_transaction now l of (l', bs) \<Rightarrow>
       (case cell_decode bs of
          Inr c \<Rightarrow> length bs = SPI_CELL_LEN \<and> ch_session_id (sc_header c) = rs_session_id (dl_sender l') \<and>
            ch_cumulative_ack (sc_header c) = rr_cumulative_ack (dl_receiver l) \<and> rr_cumulative_ack (dl_receiver l') = rr_cumulative_ack (dl_receiver l)
        | Inl e \<Rightarrow> False)))"
proof -
  obtain l heard where r: "run (device_step cap) ops (with_capabilities i u caps h, []) = (l, heard)" by fastforce
  obtain l' bs where n: "next_transaction now l = (l', bs)" by fastforce
  have "link_ok l" using device_reachable[of cap ops i u caps h] by (simp add: r device_inv_def)
  from next_transaction_ok[OF this n] show ?thesis by (auto simp: r n quiet_def)
qed

text \<open>
  C32: The device listens to a greeted host only, and hears every cell once. After any sequence of
  operations a received cell produces events only if it is the next one expected of its session,
  and only if that session's host has introduced itself with a compatible hello, in an earlier
  cell of the session or in this one.
\<close>

theorem device_listens_after_hello:
  assumes "run (device_step cap) ops (with_capabilities i u caps h, []) = (l, heard)"
    "handle_transaction cap bs now (l, evs) = (l', evs')" "evs' \<noteq> evs"
  shows "\<exists>c. cell_decode bs = Inr c \<and> ch_tx_sequence (sc_header c) = expected_sequence l c \<and> greeted (ch_session_id (sc_header c)) (heard @ [c])"
proof (cases "cell_decode bs")
  case Inl
  then show ?thesis using assms by (simp add: handle_transaction_def mark_malformed_def)
next
  case (Inr c)
  have inv: "device_inv (l, heard)" using device_reachable[of cap ops i u caps h] assms(1) by simp
  then have "link_ok l" by (simp add: device_inv_def)
  from handle_transaction_cases[OF this assms(2) Inr] assms(3) inv show ?thesis
    using Inr by (auto simp: device_inv_def listens_def greeted_def)
qed

definition sample_fallback_record :: wire_record where
  "sample_fallback_record = \<lparr>wr_type = RECORD_FORCE_FALLBACK, wr_flags = 0, wr_data = [7, 0, 0, 0]\<rparr>"

definition sample_hello_record :: wire_record where
  "sample_hello_record = \<lparr>wr_type = RECORD_HELLO, wr_flags = 0, wr_data = [1, SPI_PROTOCOL_VERSION, 0, 1, 0, 0, 0, 0, 0, 0, 0, 0]\<rparr>"

definition sample_hello_cell :: spi_cell where
  "sample_hello_cell = queued_cell (reliable_sender_new 9) (concat (map record_image [sample_fallback_record, sample_hello_record])) 2"

definition sample_usb_state :: usb_state where
  "sample_usb_state = \<lparr>us_attached = True, us_configured = True, us_fallback_active = True, us_healthy = True, us_active_profile_hash = 0, us_error_code = 0\<rparr>"

lemma sample_hello_cell_facts:
  "carries [sample_fallback_record, sample_hello_record] sample_hello_cell" "cell_ok sample_hello_cell" "is_host_hello sample_hello_record" "\<not> is_host_hello sample_fallback_record"
proof -
  show "is_host_hello sample_hello_record" "\<not> is_host_hello sample_fallback_record" by code_simp+
  let ?p = "concat (map record_image [sample_fallback_record, sample_hello_record])"
  have len: "length ?p = 24"
    by (simp add: record_image_def sample_fallback_record_def sample_hello_record_def RECORD_HEADER_LEN_def padded_def)
  show "cell_ok sample_hello_cell"
    using queued_cell_ok[of "reliable_sender_new 9" ?p 2] len unfolding sample_hello_cell_def by (simp add: sent_ok_def reliable_sender_new_def spi_sizes)
  have "cell_payload sample_hello_cell = ?p"
    using len unfolding sample_hello_cell_def by (simp add: cell_payload_def queued_cell_def Let_def spi_cell_empty_def write_padded spi_sizes)
  then show "carries [sample_fallback_record, sample_hello_record] sample_hello_cell"
    by (simp add: carries_def sample_fallback_record_def sample_hello_record_def sample_hello_cell_def queued_cell_def Let_def)
qed

lemma snd_mark_malformed: "snd (mark_malformed io) = snd io"
  by (cases io) (simp add: mark_malformed_def)

lemma sample_hello_event:
  "snd (handle_cell 4 0 sample_hello_cell (with_capabilities 3 sample_usb_state DEVICE_CAPABILITIES 0, [])) = [DeForceFallback 7]"
proof -
  let ?l = "acknowledge_cell sample_hello_cell (with_capabilities 3 sample_usb_state DEVICE_CAPABILITIES 0)"
  note facts = sample_hello_cell_facts
  have hello: "contains_compatible_host_hello sample_hello_cell" using hello_recognised[of "[sample_fallback_record]" sample_hello_record] facts by simp
  obtain l1 where check: "check_session sample_hello_cell ?l = (l1, True)" "dl_receiver l1 = dl_receiver ?l"
    using check_session_hello[OF hello, of ?l] by (metis prod.collapse)
  have "dl_receiver ?l = reliable_receiver_new"
    using device_start[of 3 sample_usb_state DEVICE_CAPABILITIES 0] set_next_fields[OF queue_hello_ok] by (simp add: acknowledge_cell_def with_capabilities_def sender_new_ok)
  then obtain r a where receive: "receive (dl_receiver l1) sample_hello_cell = (r, RdAccepted True a)"
    using check(2) by (simp add: receive_def reliable_receiver_new_def sample_hello_cell_def queued_cell_def reliable_sender_new_def next_sequence_def Let_def)
  have "read_u32 [7, 0, 0, 0] = Inr 7" by (simp add: read_u32_def)
  moreover have "RECORD_FORCE_FALLBACK \<noteq> RECORD_HELLO" "RECORD_FORCE_FALLBACK \<noteq> RECORD_HEARTBEAT" "RECORD_FORCE_FALLBACK \<noteq> RECORD_LINK_RESET" by code_simp+
  ultimately have first: "snd (handle_record 4 0 sample_fallback_record (l, [])) = [DeForceFallback 7]" for l
    by (simp add: handle_record_def sample_fallback_record_def decoded_def push_event_def on_link_def)
  have second: "snd (handle_record 4 0 sample_hello_record io) = snd io" for io
    by (cases io) (simp add: handle_record_def sample_hello_record_def decoded_def on_link_def mark_malformed_def split: sum.splits)
  show ?thesis
    using check receive first second carries_records[OF facts(1)]
    by (auto simp: handle_cell_def receive_cell_def handle_payload_def Let_def snd_mark_malformed split: sum.split)
qed

theorem device_listens_after_hello_witness:
  "\<exists>bs. snd (handle_transaction 4 bs 0 (with_capabilities 3 sample_usb_state DEVICE_CAPABILITIES 0, [])) = [DeForceFallback 7] \<and>
    (\<exists>c. cell_decode bs = Inr c \<and> greeted (ch_session_id (sc_header c)) [c])"
proof -
  obtain bs where d: "cell_decode bs = Inr sample_hello_cell" using cell_roundtrip[OF sample_hello_cell_facts(2)] by blast
  let ?l = "with_capabilities 3 sample_usb_state DEVICE_CAPABILITIES 0"
  obtain l' evs' where h: "handle_transaction 4 bs 0 (?l, []) = (l', evs')" by fastforce
  then have e: "evs' = [DeForceFallback 7]" using d sample_hello_event by (simp add: handle_transaction_def)
  have "run (device_step 4) [] (?l, []) = (?l, [])" by simp
  from device_listens_after_hello[OF this h] e h show ?thesis by (intro exI[of _ bs]) auto
qed

end
