(* ===== verification/HS_Domain.thy ===== *)
theory HS_Domain
  imports HS_Runs HS_Slots
begin

text \<open>
  The configuration and update domain: the registry of destinations with its sessions
  (\<open>domain/destination.rs\<close>), the revisions that clients poll (\<open>domain/revision.rs\<close>) and the
  firmware update session (\<open>domain/update.rs\<close>). Sessions and connected destinations are in one
  to one correspondence at all times, and an update is committed only after the whole chain of
  staging, verification, reboot into the same bundle and health check.
\<close>

unbundle bit_operations_syntax

section \<open>Destinations\<close>

definition DESTINATION_CAPACITY :: nat where "DESTINATION_CAPACITY = 8"
definition SESSION_CAPACITY :: nat where "SESSION_CAPACITY = 4"

type_synonym destination_id = u8
type_synonym session_id = u8

definition destination_id_new :: "u8 \<Rightarrow> destination_id option" where
  "destination_id_new value = (if 1 \<le> value \<and> value \<le> of_nat DESTINATION_CAPACITY then Some value else None)"

record destination =
  ds_id :: destination_id
  ds_peer_identity :: bytes
  ds_auto_connect :: bool
  ds_connected_session :: "session_id option"
  ds_last_seen :: u64

definition destination_connected :: "destination \<Rightarrow> bool" where
  "destination_connected d = (ds_connected_session d \<noteq> None)"

datatype destination_error = RegistryFull | SessionCapacity | UnknownDestination | AutoConnectDisabled | AlreadyConnected

record destination_registry =
  dr_destinations :: "destination list"
  dr_sessions :: "destination_id option list"

definition destination_registry_new :: destination_registry where
  "destination_registry_new = \<lparr>dr_destinations = [], dr_sessions = replicate SESSION_CAPACITY None\<rparr>"

definition destinations_connected :: "destination_registry \<Rightarrow> destination list" where
  "destinations_connected r = filter destination_connected (dr_destinations r)"

definition destinations_registered :: "destination_registry \<Rightarrow> destination list" where
  "destinations_registered r = filter (\<lambda>d. \<not> destination_connected d) (dr_destinations r)"

text \<open>\<open>iter_mut().find(p)\<close> followed by an assignment through the reference.\<close>

definition update_found :: "nat \<Rightarrow> (destination \<Rightarrow> destination) \<Rightarrow> destination_registry \<Rightarrow> destination_registry" where
  "update_found i f r = r\<lparr>dr_destinations := (dr_destinations r)[i := f (dr_destinations r ! i)]\<rparr>"

definition find_id :: "destination_id \<Rightarrow> destination_registry \<Rightarrow> nat option" where
  "find_id i r = position (\<lambda>d. ds_id d = i) (dr_destinations r)"

definition candidate_ids :: "u8 list" where "candidate_ids = map of_nat [1..<Suc DESTINATION_CAPACITY]"

definition free_destination_id :: "destination_registry \<Rightarrow> destination_id option" where
  "free_destination_id r =
     find (\<lambda>i. destination_id_new i \<noteq> None \<and> \<not> list_ex (\<lambda>d. ds_id d = i) (dr_destinations r)) candidate_ids"

definition destinations_register :: "bytes \<Rightarrow> u64 \<Rightarrow> destination_registry \<Rightarrow> (destination_registry, destination_error, destination_id) outcome" where
  "destinations_register peer now r =
     (case position (\<lambda>d. ds_peer_identity d = peer) (dr_destinations r) of
        Some k \<Rightarrow> (update_found k (ds_last_seen_update (\<lambda>_. now)) r, Inr (ds_id (dr_destinations r ! k)))
      | None \<Rightarrow>
          (case free_destination_id r of
             None \<Rightarrow> (r, Inl RegistryFull)
           | Some i \<Rightarrow>
               (case vec_push DESTINATION_CAPACITY (dr_destinations r)
                       \<lparr>ds_id = i, ds_peer_identity = peer, ds_auto_connect = True, ds_connected_session = None, ds_last_seen = now\<rparr> of
                  None \<Rightarrow> (r, Inl RegistryFull)
                | Some v \<Rightarrow> (r\<lparr>dr_destinations := v\<rparr>, Inr i))))"

definition destinations_disconnect :: "destination_id \<Rightarrow> destination_registry \<Rightarrow> destination_registry \<times> bool" where
  "destinations_disconnect i r =
     (case find_id i r of
        None \<Rightarrow> (r, False)
      | Some k \<Rightarrow>
          (case ds_connected_session (dr_destinations r ! k) of
             None \<Rightarrow> (r, False)
           | Some s \<Rightarrow>
               (let r = update_found k (ds_connected_session_update (\<lambda>_. None)) r in
                (r\<lparr>dr_sessions := (dr_sessions r)[unat s := None]\<rparr>, True))))"

definition destinations_set_auto_connect :: "destination_id \<Rightarrow> bool \<Rightarrow> destination_registry \<Rightarrow> (destination_registry, destination_error, unit) outcome" where
  "destinations_set_auto_connect i enabled r =
     (case find_id i r of
        None \<Rightarrow> (r, Inl UnknownDestination)
      | Some k \<Rightarrow>
          (let r = update_found k (ds_auto_connect_update (\<lambda>_. enabled)) r in
           (if enabled then r else fst (destinations_disconnect i r), Inr ())))"

definition destinations_connect :: "destination_id \<Rightarrow> u64 \<Rightarrow> destination_registry \<Rightarrow> (destination_registry, destination_error, session_id) outcome" where
  "destinations_connect i now r =
     (case find_id i r of
        None \<Rightarrow> (r, Inl UnknownDestination)
      | Some k \<Rightarrow>
          if \<not> ds_auto_connect (dr_destinations r ! k) then (r, Inl AutoConnectDisabled)
          else if destination_connected (dr_destinations r ! k) then (r, Inl AlreadyConnected)
          else (case position (\<lambda>s. s = None) (dr_sessions r) of
             None \<Rightarrow> (r, Inl SessionCapacity)
           | Some index \<Rightarrow>
               (let session = of_nat index; r = r\<lparr>dr_sessions := (dr_sessions r)[index := Some i]\<rparr> in
                (update_found k (\<lambda>d. d\<lparr>ds_connected_session := Some session, ds_last_seen := now\<rparr>) r, Inr session))))"

definition destinations_forget :: "destination_id \<Rightarrow> destination_registry \<Rightarrow> (destination_registry, destination_error, destination) outcome" where
  "destinations_forget i r =
     (case find_id i r of
        None \<Rightarrow> (r, Inl UnknownDestination)
      | Some k \<Rightarrow>
          (let r = fst (destinations_disconnect i r) in
           (r\<lparr>dr_destinations := swap_remove k (dr_destinations r)\<rparr>, Inr (dr_destinations r ! k))))"

subsection \<open>Sessions and connected destinations correspond\<close>

definition holds_session :: "destination list \<Rightarrow> nat \<Rightarrow> destination_id \<Rightarrow> bool" where
  "holds_session ds k i \<longleftrightarrow> (\<exists>d\<in>set ds. ds_id d = i \<and> ds_connected_session d = Some (of_nat k))"

definition destinations_inv :: "destination_registry \<Rightarrow> bool" where
  "destinations_inv r \<longleftrightarrow>
     distinct (map ds_id (dr_destinations r)) \<and> distinct (map ds_peer_identity (dr_destinations r)) \<and>
     (\<forall>d\<in>set (dr_destinations r). destination_id_new (ds_id d) \<noteq> None) \<and>
     length (dr_sessions r) = SESSION_CAPACITY \<and>
     (\<forall>d\<in>set (dr_destinations r). \<forall>s. ds_connected_session d = Some s \<longrightarrow> unat s < SESSION_CAPACITY) \<and>
     (\<forall>k<SESSION_CAPACITY. \<forall>i. dr_sessions r ! k = Some i \<longleftrightarrow> holds_session (dr_destinations r) k i)"

lemma find_id_SomeD: "find_id i r = Some k \<Longrightarrow> k < length (dr_destinations r) \<and> ds_id (dr_destinations r ! k) = i"
  by (auto simp: find_id_def dest: position_SomeD)

text \<open>Changing one entry without its identity touches nothing else.\<close>

lemma set_update_keyed:
  assumes "distinct (map f xs)" "k < length xs" "f y = f (xs ! k)"
  shows "set (xs[k := y]) = insert y {x \<in> set xs. f x \<noteq> f y}"
proof -
  have other: "f (xs ! j) = f y \<longleftrightarrow> j = k" if "j < length xs" for j
    using assms that nth_eq_iff_index_eq[OF assms(1), of j k] by auto
  show ?thesis
    using assms(2) other by (auto simp: set_conv_nth nth_list_update split: if_splits) metis+
qed

lemma map_update_same: "k < length xs \<Longrightarrow> f y = f (xs ! k) \<Longrightarrow> map f (xs[k := y]) = map f xs"
  by (metis list_update_id map_update)

lemma holds_update:
  assumes "distinct (map ds_id ds)" "k < length ds" "ds_id y = ds_id (ds ! k)"
  shows "holds_session (ds[k := y]) j i \<longleftrightarrow>
    (if i = ds_id y then ds_connected_session y = Some (of_nat j) else holds_session ds j i)"
  by (auto simp: holds_session_def set_update_keyed[OF assms])

lemma holds_found:
  assumes "distinct (map ds_id ds)" "k < length ds"
  shows "holds_session ds j (ds_id (ds ! k)) \<longleftrightarrow> ds_connected_session (ds ! k) = Some (of_nat j)"
  using holds_update[OF assms refl, of j "ds_id (ds ! k)"] by simp

lemma update_found_sessions: "update_found k f (r\<lparr>dr_sessions := ss\<rparr>) = (update_found k f r)\<lparr>dr_sessions := ss\<rparr>"
  "dr_sessions (update_found k f r) = dr_sessions r"
  by (cases r; simp add: update_found_def)+

lemma update_found_inv:
  assumes "destinations_inv r" "k < length (dr_destinations r)" "dr_destinations r ! k = d"
    "ds_id (f d) = ds_id d" "ds_peer_identity (f d) = ds_peer_identity d" "length ss = SESSION_CAPACITY"
    "\<And>s. ds_connected_session (f d) = Some s \<Longrightarrow> unat s < SESSION_CAPACITY"
    "\<And>j i. j < SESSION_CAPACITY \<Longrightarrow> ss ! j = Some i \<longleftrightarrow>
       (if i = ds_id d then ds_connected_session (f d) = Some (of_nat j) else dr_sessions r ! j = Some i)"
  shows "destinations_inv (update_found k f (r\<lparr>dr_sessions := ss\<rparr>))"
proof -
  let ?ds = "dr_destinations r"
  note inv = assms(1)[unfolded destinations_inv_def]
  have dist: "distinct (map ds_id ?ds)" and same: "ds_id (f d) = ds_id (?ds ! k)" using inv assms(3,4) by auto
  have "d \<in> set ?ds" using assms(2,3) by auto
  then show ?thesis
    unfolding destinations_inv_def update_found_def destination_registry.simps assms(3)
    by (intro conjI allI impI)
      (use inv assms in \<open>auto simp: map_update_same set_update_keyed[OF dist assms(2) same] holds_update[OF dist assms(2) same]\<close>)
qed

lemma update_found_neutral:
  assumes "destinations_inv r" "k < length (dr_destinations r)"
    "\<And>d. ds_id (f d) = ds_id d \<and> ds_peer_identity (f d) = ds_peer_identity d \<and> ds_connected_session (f d) = ds_connected_session d"
  shows "destinations_inv (update_found k f r)"
proof -
  let ?d = "dr_destinations r ! k"
  have in_set: "?d \<in> set (dr_destinations r)" using assms(2) by simp
  have dist: "distinct (map ds_id (dr_destinations r))" using assms(1) by (simp add: destinations_inv_def)
  have "destinations_inv (update_found k f (r\<lparr>dr_sessions := dr_sessions r\<rparr>))"
  proof (rule update_found_inv[OF assms(1,2) refl])
    fix j i assume "j < SESSION_CAPACITY"
    then show "dr_sessions r ! j = Some i \<longleftrightarrow> (if i = ds_id ?d then ds_connected_session (f ?d) = Some (of_nat j) else dr_sessions r ! j = Some i)"
      using assms(1,3) holds_found[OF dist assms(2), of j] by (auto simp: destinations_inv_def)
  qed (use assms in_set in \<open>auto simp: destinations_inv_def\<close>)
  then show ?thesis by simp
qed

lemma destinations_connect_inv: "destinations_inv r \<Longrightarrow> destinations_inv (fst (destinations_connect i now r))"
proof -
  assume inv: "destinations_inv r"
  have len: "length (dr_sessions r) = SESSION_CAPACITY" using inv by (simp add: destinations_inv_def)
  have "destinations_inv (update_found k (\<lambda>d. d\<lparr>ds_connected_session := Some (of_nat index), ds_last_seen := now\<rparr>) (r\<lparr>dr_sessions := (dr_sessions r)[index := Some i]\<rparr>))"
    if k: "find_id i r = Some k" and nc: "\<not> destination_connected (dr_destinations r ! k)" and p: "position (\<lambda>s. s = None) (dr_sessions r) = Some index" for k index
  proof (rule update_found_inv[OF inv _ refl])
    have idx: "index < SESSION_CAPACITY" "dr_sessions r ! index = None" using position_SomeD[OF p] len by auto
    have d: "k < length (dr_destinations r)" "ds_id (dr_destinations r ! k) = i" using find_id_SomeD[OF k] by auto
    show "k < length (dr_destinations r)" by (rule d)
    show "unat s < SESSION_CAPACITY" if "ds_connected_session ((dr_destinations r ! k)\<lparr>ds_connected_session := Some (of_nat index), ds_last_seen := now\<rparr>) = Some s" for s
      using that idx by (auto simp: SESSION_CAPACITY_def unat_of_nat_small)
    fix j l assume j: "j < SESSION_CAPACITY"
    have none: "dr_sessions r ! j \<noteq> Some i"
      using inv j holds_found[of "dr_destinations r" k j] d nc by (auto simp: destinations_inv_def destination_connected_def)
    have "(of_nat j = (of_nat index :: u8)) = (j = index)" using j idx by (simp add: word_unat_eq_iff unat_of_nat_small SESSION_CAPACITY_def)
    then show "(dr_sessions r)[index := Some i] ! j = Some l \<longleftrightarrow> (if l = ds_id (dr_destinations r ! k)
        then ds_connected_session ((dr_destinations r ! k)\<lparr>ds_connected_session := Some (of_nat index), ds_last_seen := now\<rparr>) = Some (of_nat j) else dr_sessions r ! j = Some l)"
      using none idx d len j by (auto simp: nth_list_update)
  qed (use len in simp_all)
  then show ?thesis using inv by (auto simp: destinations_connect_def Let_def split: option.split)
qed

lemma destinations_disconnect_inv: "destinations_inv r \<Longrightarrow> destinations_inv (fst (destinations_disconnect i r))"
proof -
  assume inv: "destinations_inv r"
  have len: "length (dr_sessions r) = SESSION_CAPACITY" using inv by (simp add: destinations_inv_def)
  have "destinations_inv (update_found k (ds_connected_session_update (\<lambda>_. None)) (r\<lparr>dr_sessions := (dr_sessions r)[unat s := None]\<rparr>))"
    if k: "find_id i r = Some k" and s: "ds_connected_session (dr_destinations r ! k) = Some s" for k s
  proof (rule update_found_inv[OF inv _ refl])
    have d: "k < length (dr_destinations r)" "ds_id (dr_destinations r ! k) = i" using find_id_SomeD[OF k] by auto
    then have lt: "unat s < SESSION_CAPACITY" using inv s nth_mem unfolding destinations_inv_def by blast
    show "k < length (dr_destinations r)" by (rule d)
    fix j l assume j: "j < SESSION_CAPACITY"
    have session: "dr_sessions r ! m = Some i \<longleftrightarrow> m = unat s" if "m < SESSION_CAPACITY" for m
      using inv that holds_found[of "dr_destinations r" k m] d s
      by (auto simp: destinations_inv_def SESSION_CAPACITY_def unat_of_nat_small)
    show "(dr_sessions r)[unat s := None] ! j = Some l \<longleftrightarrow> (if l = ds_id (dr_destinations r ! k)
        then ds_connected_session (ds_connected_session_update (\<lambda>_. None) (dr_destinations r ! k)) = Some (of_nat j) else dr_sessions r ! j = Some l)"
      using j lt len d(2) session[OF j] session[OF lt] by (auto simp: nth_list_update)
  qed (use len in simp_all)
  then show ?thesis using inv by (auto simp: destinations_disconnect_def Let_def update_found_sessions split: option.split)
qed

lemma destinations_set_auto_connect_inv: "destinations_inv r \<Longrightarrow> destinations_inv (fst (destinations_set_auto_connect i b r))"
  using update_found_neutral[of r _ "ds_auto_connect_update (\<lambda>_. b)"] find_id_SomeD[of i r]
  by (auto simp: destinations_set_auto_connect_def Let_def destinations_disconnect_inv split: option.split)

lemma free_destination_id_SomeD:
  "free_destination_id r = Some i \<Longrightarrow> destination_id_new i \<noteq> None \<and> i \<notin> ds_id ` set (dr_destinations r)"
  by (auto simp: free_destination_id_def find_Some_iff list_ex_iff)

lemma destinations_register_inv: "destinations_inv r \<Longrightarrow> destinations_inv (fst (destinations_register peer now r))"
proof -
  assume inv: "destinations_inv r"
  have "destinations_inv (r\<lparr>dr_destinations := dr_destinations r @ [\<lparr>ds_id = i, ds_peer_identity = peer, ds_auto_connect = True, ds_connected_session = None, ds_last_seen = now\<rparr>]\<rparr>)"
    if "position (\<lambda>d. ds_peer_identity d = peer) (dr_destinations r) = None" "free_destination_id r = Some i" for i
    using inv that free_destination_id_SomeD[of r i] unfolding destinations_inv_def position_None_iff
    by (auto simp: holds_session_def)
  then show ?thesis
    using inv update_found_neutral[of r _ "ds_last_seen_update (\<lambda>_. now)"]
    by (auto simp: destinations_register_def dest: position_SomeD split: option.split)
qed

lemma destinations_disconnect_found:
  assumes "destinations_inv r" "find_id i r = Some k"
  shows "find_id i (fst (destinations_disconnect i r)) = Some k"
    "ds_connected_session (dr_destinations (fst (destinations_disconnect i r)) ! k) = None"
    "dr_destinations (fst (destinations_disconnect i r)) = (dr_destinations r)[k := (dr_destinations r ! k)\<lparr>ds_connected_session := None\<rparr>]"
proof -
  note k = find_id_SomeD[OF assms(2)]
  show list: "dr_destinations (fst (destinations_disconnect i r)) = (dr_destinations r)[k := (dr_destinations r ! k)\<lparr>ds_connected_session := None\<rparr>]"
    using assms(2) by (auto simp: destinations_disconnect_def update_found_def Let_def list_update_same_conv split: option.split)
      (metis destination.surjective destination.update_convs(4) list_update_id)
  show "ds_connected_session (dr_destinations (fst (destinations_disconnect i r)) ! k) = None" using k by (simp add: list)
  have "\<forall>j<length (dr_destinations r). ds_id (dr_destinations (fst (destinations_disconnect i r)) ! j) = ds_id (dr_destinations r ! j)"
    using k by (auto simp: list nth_list_update)
  then show "find_id i (fst (destinations_disconnect i r)) = Some k"
    using assms(2) by (auto simp: find_id_def position_Some_iff list)
qed

lemma destinations_forget_inv: "destinations_inv r \<Longrightarrow> destinations_inv (fst (destinations_forget i r))"
proof (cases "find_id i r")
  case None
  then show "destinations_inv r \<Longrightarrow> ?thesis" by (simp add: destinations_forget_def)
next
  case (Some k)
  assume inv: "destinations_inv r"
  let ?r = "fst (destinations_disconnect i r)"
  let ?ds = "dr_destinations ?r"
  note found = destinations_disconnect_found[OF inv Some]
  note inv' = destinations_disconnect_inv[OF inv, of i, unfolded destinations_inv_def]
  have k: "k < length ?ds" "ds_id (?ds ! k) = i" using find_id_SomeD[OF found(1)] by auto
  have "distinct ?ds" using inv' by (simp add: distinct_map)
  then have set: "set (swap_remove k ?ds) = set ?ds - {?ds ! k}" by (rule set_swap_remove) (rule k)
  have "distinct (map ds_id (swap_remove k ?ds))" "distinct (map ds_peer_identity (swap_remove k ?ds))"
    using inv' k set_swap_remove(2)[of "map ds_id ?ds" k] set_swap_remove(2)[of "map ds_peer_identity ?ds" k] by (simp_all add: map_swap_remove)
  moreover have "holds_session (swap_remove k ?ds) j l \<longleftrightarrow> holds_session ?ds j l" for j l
    using found(2) by (auto simp: holds_session_def set)
  ultimately show ?thesis using inv' Some by (auto simp: destinations_forget_def Let_def destinations_inv_def set)
qed

datatype destinations_op =
  RegRegister bytes u64 | RegAuto destination_id bool | RegConnect destination_id u64 | RegDisconnect destination_id | RegForget destination_id

fun destinations_step :: "destinations_op \<Rightarrow> destination_registry \<Rightarrow> destination_registry" where
  "destinations_step (RegRegister peer now) r = fst (destinations_register peer now r)"
| "destinations_step (RegAuto i b) r = fst (destinations_set_auto_connect i b r)"
| "destinations_step (RegConnect i now) r = fst (destinations_connect i now r)"
| "destinations_step (RegDisconnect i) r = fst (destinations_disconnect i r)"
| "destinations_step (RegForget i) r = fst (destinations_forget i r)"

interpretation destinations: op_system destinations_step "\<lambda>x. True" destinations_inv
proof
  fix r x assume "destinations_inv r"
  then show "destinations_inv (destinations_step x r)"
    by (cases x) (simp_all add: destinations_register_inv destinations_set_auto_connect_inv destinations_connect_inv destinations_disconnect_inv destinations_forget_inv)
qed

lemma destinations_start: "destinations_inv destination_registry_new"
  by (simp add: destinations_inv_def destination_registry_new_def holds_session_def)

lemma destinations_reachable: "destinations_inv (run destinations_step ops destination_registry_new)"
  by (rule destinations.run_inv[OF destinations_start]) (simp add: list_all_iff)

lemma distinct_flatten:
  "(\<And>j k x. j < length es \<Longrightarrow> k < length es \<Longrightarrow> es ! j = Some x \<Longrightarrow> es ! k = Some x \<Longrightarrow> j = k) \<Longrightarrow> distinct (flatten es)"
proof (induction es)
  case Nil
  then show ?case by simp
next
  case (Cons e es)
  have "distinct (flatten es)" by (rule Cons.IH) (use Cons.prems[of "Suc _" "Suc _"] in auto)
  moreover have "Some x \<notin> set es" if "e = Some x" for x
    using Cons.prems[of 0 "Suc _"] that by (auto simp: in_set_conv_nth)
  ultimately show ?case by (cases e) auto
qed

text \<open>The occupied sessions name exactly the connected destinations.\<close>

lemma destinations_sessions:
  assumes "destinations_inv r"
  shows "distinct (flatten (dr_sessions r))" "set (flatten (dr_sessions r)) = ds_id ` set (destinations_connected r)"
proof -
  note inv = assms[unfolded destinations_inv_def]
  have named: "\<exists>d\<in>set (dr_destinations r). ds_id d = i \<and> ds_connected_session d = Some (of_nat k)" if "k < SESSION_CAPACITY" "dr_sessions r ! k = Some i" for k i
    using inv that by (auto simp: holds_session_def)
  have once: "j = k" if jk: "j < length (dr_sessions r)" "k < length (dr_sessions r)" "dr_sessions r ! j = Some i" "dr_sessions r ! k = Some i" for j k i
  proof -
    have len: "length (dr_sessions r) = SESSION_CAPACITY" using inv by blast
    obtain d where d: "d \<in> set (dr_destinations r)" "ds_id d = i" "ds_connected_session d = Some (of_nat j)" using named[OF jk(1)[unfolded len] jk(3)] by blast
    obtain e where e: "e \<in> set (dr_destinations r)" "ds_id e = i" "ds_connected_session e = Some (of_nat k)" using named[OF jk(2)[unfolded len] jk(4)] by blast
    have "inj_on ds_id (set (dr_destinations r))" using inv by (simp add: distinct_map)
    then have "d = e" using d(1,2) e(1,2) by (metis inj_onD)
    then show ?thesis using d e jk len by (simp add: word_unat_eq_iff unat_of_nat_small SESSION_CAPACITY_def)
  qed
  show "distinct (flatten (dr_sessions r))" using distinct_flatten once by blast
  show "set (flatten (dr_sessions r)) = ds_id ` set (destinations_connected r)"
  proof (intro equalityI subsetI)
    fix i assume "i \<in> set (flatten (dr_sessions r))"
    then have "Some i \<in> set (dr_sessions r)" by simp
    then obtain k where "k < SESSION_CAPACITY" "dr_sessions r ! k = Some i" using inv by (metis in_set_conv_nth)
    from named[OF this] show "i \<in> ds_id ` set (destinations_connected r)" by (auto simp: destinations_connected_def destination_connected_def)
  next
    fix i assume "i \<in> ds_id ` set (destinations_connected r)"
    then obtain d s where d: "d \<in> set (dr_destinations r)" "ds_id d = i" "ds_connected_session d = Some s"
      by (auto simp: destinations_connected_def destination_connected_def)
    then have "unat s < SESSION_CAPACITY" using inv by blast
    moreover from this d have "dr_sessions r ! unat s = Some i" using inv by (auto simp: holds_session_def)
    ultimately show "i \<in> set (flatten (dr_sessions r))" using inv by (metis nth_mem set_flatten)
  qed
qed

lemma candidate_ids: "candidate_ids = [1, 2, 3, 4, 5, 6, 7, 8]" "length candidate_ids = DESTINATION_CAPACITY" "distinct candidate_ids"
  by (code_simp | simp)+

lemma destination_ids: "destination_id_new i \<noteq> None \<longleftrightarrow> i \<in> set candidate_ids"
proof -
  have "i \<in> set candidate_ids" if "1 \<le> i" "i \<le> 8"
  proof -
    have "unat i \<in> set [1..<Suc 8]" using that by (simp add: word_le_nat_alt del: upt_Suc)
    then have "of_nat (unat i) \<in> set (map of_nat [1..<Suc 8] :: u8 list)" unfolding set_map by (rule imageI)
    then show ?thesis by (simp add: candidate_ids_def DESTINATION_CAPACITY_def del: upt_Suc)
  qed
  then show ?thesis by (auto simp: destination_id_new_def DESTINATION_CAPACITY_def candidate_ids(1))
qed

lemma destinations_ids:
  assumes "destinations_inv r"
  shows "ds_id ` set (dr_destinations r) \<subseteq> set candidate_ids" "card (ds_id ` set (dr_destinations r)) = length (dr_destinations r)"
    "card (set candidate_ids) = DESTINATION_CAPACITY"
proof -
  show "ds_id ` set (dr_destinations r) \<subseteq> set candidate_ids" using assms destination_ids unfolding destinations_inv_def by blast
  show "card (ds_id ` set (dr_destinations r)) = length (dr_destinations r)"
    using assms distinct_card[of "map ds_id (dr_destinations r)"] by (simp add: destinations_inv_def)
  show "card (set candidate_ids) = DESTINATION_CAPACITY" using distinct_card[OF candidate_ids(3)] candidate_ids(2) by simp
qed

lemma destinations_bound: "destinations_inv r \<Longrightarrow> length (dr_destinations r) \<le> DESTINATION_CAPACITY"
  using destinations_ids[of r] card_mono[of "set candidate_ids" "ds_id ` set (dr_destinations r)"] by simp

lemma free_destination_id_None_iff:
  assumes "destinations_inv r"
  shows "free_destination_id r = None \<longleftrightarrow> length (dr_destinations r) = DESTINATION_CAPACITY"
proof -
  note ids = destinations_ids[OF assms]
  have "free_destination_id r = None \<longleftrightarrow> set candidate_ids \<subseteq> ds_id ` set (dr_destinations r)"
    unfolding free_destination_id_def find_None_iff list_ex_iff using destination_ids by blast
  also have "\<dots> \<longleftrightarrow> length (dr_destinations r) = DESTINATION_CAPACITY"
  proof
    assume "length (dr_destinations r) = DESTINATION_CAPACITY"
    then have "ds_id ` set (dr_destinations r) = set candidate_ids" using ids by (intro card_subset_eq) simp_all
    then show "set candidate_ids \<subseteq> ds_id ` set (dr_destinations r)" by simp
  next
    assume "set candidate_ids \<subseteq> ds_id ` set (dr_destinations r)"
    then have "ds_id ` set (dr_destinations r) = set candidate_ids" using ids(1) by (rule subset_antisym[rotated])
    then show "length (dr_destinations r) = DESTINATION_CAPACITY" using ids by simp
  qed
  finally show ?thesis .
qed

text \<open>The registry refuses a computer exactly if it is new and eight are known.\<close>

theorem destinations_full_exact:
  assumes "destinations_inv r"
  shows "snd (destinations_register peer now r) = Inl RegistryFull \<longleftrightarrow>
    peer \<notin> ds_peer_identity ` set (dr_destinations r) \<and> length (dr_destinations r) = DESTINATION_CAPACITY"
proof -
  have "position (\<lambda>d. ds_peer_identity d = peer) (dr_destinations r) = None \<longleftrightarrow> peer \<notin> ds_peer_identity ` set (dr_destinations r)"
    by (auto simp: position_None_iff)
  then show ?thesis
    using destinations_bound[OF assms] free_destination_id_None_iff[OF assms]
    by (auto simp: destinations_register_def vec_push_def split: option.split)
qed

text \<open>
  C33: Sessions are exclusive and complete. After any sequence of operations the occupied sessions
  name the connected destinations, each exactly once; at most four destinations are connected, at
  most eight are known, and no two of them share an identifier or a peer identity.
\<close>

theorem sessions_match_connected:
  "(case run destinations_step ops destination_registry_new of r \<Rightarrow>
     distinct (flatten (dr_sessions r)) \<and> set (flatten (dr_sessions r)) = ds_id ` set (destinations_connected r) \<and>
     length (destinations_connected r) = length (flatten (dr_sessions r)) \<and> length (destinations_connected r) \<le> SESSION_CAPACITY \<and>
     length (dr_destinations r) \<le> DESTINATION_CAPACITY \<and>
     distinct (map ds_id (dr_destinations r)) \<and> distinct (map ds_peer_identity (dr_destinations r)))"
proof -
  obtain r where r: "run destinations_step ops destination_registry_new = r" by simp
  have inv: "destinations_inv r" using destinations_reachable[of ops] r by simp
  note s = destinations_sessions[OF inv]
  have dist: "distinct (map ds_id (destinations_connected r))" using inv by (simp add: destinations_inv_def destinations_connected_def distinct_map_filter)
  have "length (destinations_connected r) = length (flatten (dr_sessions r))"
    using s dist distinct_card[of "flatten (dr_sessions r)"] distinct_card[of "map ds_id (destinations_connected r)"] by simp
  moreover have "length (flatten (dr_sessions r)) \<le> SESSION_CAPACITY" using length_flatten_le[of "dr_sessions r"] inv by (simp add: destinations_inv_def)
  ultimately show ?thesis using s destinations_bound[OF inv] inv by (simp add: r destinations_inv_def)
qed

section \<open>Revisions\<close>

type_synonym change_set = u16

definition CHANGE_SUMMARY :: change_set where "CHANGE_SUMMARY = push_bit 0 1"
definition CHANGE_SESSIONS :: change_set where "CHANGE_SESSIONS = push_bit 1 1"
definition CHANGE_DESTINATIONS :: change_set where "CHANGE_DESTINATIONS = push_bit 2 1"
definition CHANGE_INPUTS :: change_set where "CHANGE_INPUTS = push_bit 3 1"
definition CHANGE_SYSTEM :: change_set where "CHANGE_SYSTEM = push_bit 4 1"
definition CHANGE_WIRED :: change_set where "CHANGE_WIRED = push_bit 5 1"
definition CHANGE_SUPPORT :: change_set where "CHANGE_SUPPORT = push_bit 6 1"
definition CHANGE_ALL :: change_set where
  "CHANGE_ALL = CHANGE_SUMMARY OR CHANGE_SESSIONS OR CHANGE_DESTINATIONS OR CHANGE_INPUTS OR CHANGE_SYSTEM OR CHANGE_WIRED OR CHANGE_SUPPORT"

definition contains_change :: "change_set \<Rightarrow> change_set \<Rightarrow> bool" where
  "contains_change cs c = (cs AND c = c)"

definition revision_advance :: "u32 \<Rightarrow> u32" where "revision_advance v = v + 1"

record revisions =
  rv_summary :: u32
  rv_sessions :: u32
  rv_destinations :: u32
  rv_inputs :: u32
  rv_system :: u32
  rv_wired :: u32
  rv_support :: u32

definition revisions_default :: revisions where
  "revisions_default = \<lparr>rv_summary = 0, rv_sessions = 0, rv_destinations = 0, rv_inputs = 0, rv_system = 0, rv_wired = 0, rv_support = 0\<rparr>"

definition revisions_changed :: "change_set \<Rightarrow> revisions \<Rightarrow> revisions" where
  "revisions_changed cs v =
     (let v = if contains_change cs CHANGE_SUMMARY then rv_summary_update revision_advance v else v;
          v = if contains_change cs CHANGE_SESSIONS then rv_sessions_update revision_advance v else v;
          v = if contains_change cs CHANGE_DESTINATIONS then rv_destinations_update revision_advance v else v;
          v = if contains_change cs CHANGE_INPUTS then rv_inputs_update revision_advance v else v;
          v = if contains_change cs CHANGE_SYSTEM then rv_system_update revision_advance v else v;
          v = if contains_change cs CHANGE_WIRED then rv_wired_update revision_advance v else v in
      if contains_change cs CHANGE_SUPPORT then rv_support_update revision_advance v else v)"

lemma changed_all: "revisions_changed CHANGE_ALL v = \<lparr>rv_summary = rv_summary v + 1, rv_sessions = rv_sessions v + 1,
   rv_destinations = rv_destinations v + 1, rv_inputs = rv_inputs v + 1, rv_system = rv_system v + 1, rv_wired = rv_wired v + 1, rv_support = rv_support v + 1\<rparr>"
proof -
  have "contains_change CHANGE_ALL c" if "c \<in> {CHANGE_SUMMARY, CHANGE_SESSIONS, CHANGE_DESTINATIONS, CHANGE_INPUTS, CHANGE_SYSTEM, CHANGE_WIRED, CHANGE_SUPPORT}" for c
    using that by (elim insertE emptyE) (hypsubst, code_simp)+
  then show ?thesis by (simp add: revisions_changed_def Let_def revision_advance_def)
qed

section \<open>Firmware update\<close>

datatype firmware_node = FwHost | FwDevice
datatype update_target = UtHost | UtDevice | UtBoth

record image_metadata =
  im_node :: firmware_node
  im_size :: u32
  im_sha256 :: bytes
  im_version :: bytes

datatype update_phase = UpIdle | UpStaging | UpReady | UpRebootPending | UpHealthCheck | UpCommitted | UpRolledBack
datatype update_error = UeInvalidPhase | UeWrongOffset | UeImageTooLarge | UeHashMismatch | UeMissingNode | UeBundleMismatch

record firmware_update =
  fu_phase :: update_phase
  fu_target :: update_target
  fu_bundle_id :: bytes
  fu_host :: "image_metadata option"
  fu_device :: "image_metadata option"
  fu_host_received :: u32
  fu_device_received :: u32

definition MAX_IMAGE_SIZE :: u32 where "MAX_IMAGE_SIZE = 0x180000"

definition firmware_update_new :: firmware_update where
  "firmware_update_new = \<lparr>fu_phase = UpIdle, fu_target = UtHost, fu_bundle_id = replicate 16 0, fu_host = None, fu_device = None,
     fu_host_received = 0, fu_device_received = 0\<rparr>"

definition update_received :: "firmware_node \<Rightarrow> firmware_update \<Rightarrow> u32" where
  "update_received node u = (case node of FwHost \<Rightarrow> fu_host_received u | FwDevice \<Rightarrow> fu_device_received u)"

definition too_large :: "image_metadata option \<Rightarrow> bool" where
  "too_large img = (case img of Some i \<Rightarrow> im_size i > MAX_IMAGE_SIZE | None \<Rightarrow> False)"

definition update_begin :: "update_target \<Rightarrow> bytes \<Rightarrow> image_metadata option \<Rightarrow> image_metadata option \<Rightarrow> firmware_update \<Rightarrow>
    (firmware_update, update_error, unit) outcome" where
  "update_begin target bundle host device u =
     (if fu_phase u \<notin> {UpIdle, UpCommitted, UpRolledBack} then (u, Inl UeInvalidPhase)
      else if (target \<in> {UtHost, UtBoth}) \<noteq> (host \<noteq> None) \<or> (target \<in> {UtDevice, UtBoth}) \<noteq> (device \<noteq> None) then (u, Inl UeMissingNode)
      else if too_large host \<or> too_large device then (u, Inl UeImageTooLarge)
      else (u\<lparr>fu_phase := UpStaging, fu_target := target, fu_bundle_id := bundle, fu_host := host, fu_device := device,
              fu_host_received := 0, fu_device_received := 0\<rparr>, Inr ()))"

text \<open>\<open>checked_add\<close> followed by the filter on the announced size.\<close>

definition extend_received :: "u32 \<Rightarrow> u32 \<Rightarrow> u32 \<Rightarrow> u32 option" where
  "extend_received limit received len =
     (if unat received + unat len < 2 ^ 32 \<and> received + len \<le> limit then Some (received + len) else None)"

definition update_accept_chunk :: "firmware_node \<Rightarrow> u32 \<Rightarrow> u32 \<Rightarrow> firmware_update \<Rightarrow> (firmware_update, update_error, unit) outcome" where
  "update_accept_chunk node offset len u =
     (if fu_phase u \<noteq> UpStaging then (u, Inl UeInvalidPhase)
      else (case (case node of FwHost \<Rightarrow> fu_host u | FwDevice \<Rightarrow> fu_device u) of
         None \<Rightarrow> (u, Inl UeMissingNode)
       | Some metadata \<Rightarrow>
           if offset \<noteq> update_received node u then (u, Inl UeWrongOffset)
           else (case extend_received (im_size metadata) (update_received node u) len of
              None \<Rightarrow> (u, Inl UeImageTooLarge)
            | Some n \<Rightarrow>
                (case node of FwHost \<Rightarrow> u\<lparr>fu_host_received := n\<rparr> | FwDevice \<Rightarrow> u\<lparr>fu_device_received := n\<rparr>, Inr ()))))"

definition image_mismatch :: "image_metadata option \<Rightarrow> u32 \<Rightarrow> bytes option \<Rightarrow> bool" where
  "image_mismatch img received hash = (case img of Some i \<Rightarrow> received \<noteq> im_size i \<or> hash \<noteq> Some (im_sha256 i) | None \<Rightarrow> False)"

definition update_verify :: "bytes option \<Rightarrow> bytes option \<Rightarrow> firmware_update \<Rightarrow> (firmware_update, update_error, unit) outcome" where
  "update_verify host_hash device_hash u =
     (if fu_phase u \<noteq> UpStaging then (u, Inl UeInvalidPhase)
      else if image_mismatch (fu_host u) (fu_host_received u) host_hash \<or> image_mismatch (fu_device u) (fu_device_received u) device_hash
        then (u, Inl UeHashMismatch)
      else (u\<lparr>fu_phase := UpReady\<rparr>, Inr ()))"

definition update_request_reboot :: "firmware_update \<Rightarrow> (firmware_update, update_error, unit) outcome" where
  "update_request_reboot u =
     (if fu_phase u \<noteq> UpReady then (u, Inl UeInvalidPhase) else (u\<lparr>fu_phase := UpRebootPending\<rparr>, Inr ()))"

definition update_start_health_check :: "bytes \<Rightarrow> firmware_update \<Rightarrow> (firmware_update, update_error, unit) outcome" where
  "update_start_health_check bundle u =
     (if fu_phase u \<noteq> UpRebootPending then (u, Inl UeInvalidPhase)
      else if bundle \<noteq> fu_bundle_id u then (u\<lparr>fu_phase := UpRolledBack\<rparr>, Inl UeBundleMismatch)
      else (u\<lparr>fu_phase := UpHealthCheck\<rparr>, Inr ()))"

definition update_finish_health_check :: "bool \<Rightarrow> firmware_update \<Rightarrow> (firmware_update, update_error, unit) outcome" where
  "update_finish_health_check healthy u =
     (if fu_phase u \<noteq> UpHealthCheck then (u, Inl UeInvalidPhase)
      else (u\<lparr>fu_phase := if healthy then UpCommitted else UpRolledBack\<rparr>, Inr ()))"

datatype update_op =
  UBegin update_target bytes "image_metadata option" "image_metadata option" | UChunk firmware_node u32 u32 | UVerify "bytes option" "bytes option"
  | UReboot | UHealth bytes | UFinish bool

fun update_step :: "update_op \<Rightarrow> firmware_update \<Rightarrow> firmware_update" where
  "update_step (UBegin t b h d) u = fst (update_begin t b h d u)"
| "update_step (UChunk node offset len) u = fst (update_accept_chunk node offset len u)"
| "update_step (UVerify h d) u = fst (update_verify h d u)"
| "update_step UReboot u = fst (update_request_reboot u)"
| "update_step (UHealth b) u = fst (update_start_health_check b u)"
| "update_step (UFinish healthy) u = fst (update_finish_health_check healthy u)"

text \<open>
  A call of a history is accepted when it returns no error in the state its predecessors led to.
  What a history must contain, in this order: an accepted announcement, an accepted verification
  with the announced hashes, an accepted request to restart, an accepted health check that reports
  the announced bundle, and an accepted end of it that reports a healthy system.
\<close>

fun update_result :: "update_op \<Rightarrow> firmware_update \<Rightarrow> update_error + unit" where
  "update_result (UBegin t b h d) u = snd (update_begin t b h d u)"
| "update_result (UChunk node offset len) u = snd (update_accept_chunk node offset len u)"
| "update_result (UVerify h d) u = snd (update_verify h d u)"
| "update_result UReboot u = snd (update_request_reboot u)"
| "update_result (UHealth b) u = snd (update_start_health_check b u)"
| "update_result (UFinish healthy) u = snd (update_finish_health_check healthy u)"

definition accepted :: "update_op list \<Rightarrow> update_op \<Rightarrow> bool" where
  "accepted ops x = (update_result x (run update_step ops firmware_update_new) = Inr ())"

definition hash_given :: "image_metadata option \<Rightarrow> bytes option \<Rightarrow> bool" where
  "hash_given img hash = (case img of Some i \<Rightarrow> hash = Some (im_sha256 i) | None \<Rightarrow> True)"

definition announced :: "update_op list \<Rightarrow> firmware_update \<Rightarrow> bool" where
  "announced ops u = (\<exists>a b. ops = a @ UBegin (fu_target u) (fu_bundle_id u) (fu_host u) (fu_device u) # b \<and>
     accepted a (UBegin (fu_target u) (fu_bundle_id u) (fu_host u) (fu_device u)))"

definition verified :: "update_op list \<Rightarrow> firmware_update \<Rightarrow> bool" where
  "verified ops u = (\<exists>a h d b. ops = a @ UVerify h d # b \<and> accepted a (UVerify h d) \<and> announced a u \<and>
     hash_given (fu_host u) h \<and> hash_given (fu_device u) d)"

definition reboot_requested :: "update_op list \<Rightarrow> firmware_update \<Rightarrow> bool" where
  "reboot_requested ops u = (\<exists>a b. ops = a @ UReboot # b \<and> accepted a UReboot \<and> verified a u)"

definition restarted :: "update_op list \<Rightarrow> firmware_update \<Rightarrow> bool" where
  "restarted ops u = (\<exists>a b. ops = a @ UHealth (fu_bundle_id u) # b \<and> accepted a (UHealth (fu_bundle_id u)) \<and> reboot_requested a u)"

definition confirmed :: "update_op list \<Rightarrow> firmware_update \<Rightarrow> bool" where
  "confirmed ops u = (\<exists>a b. ops = a @ UFinish True # b \<and> accepted a (UFinish True) \<and> restarted a u)"

lemma history_grows:
  "announced ops u \<Longrightarrow> announced (ops @ [x]) u" "verified ops u \<Longrightarrow> verified (ops @ [x]) u"
  "reboot_requested ops u \<Longrightarrow> reboot_requested (ops @ [x]) u"
  "restarted ops u \<Longrightarrow> restarted (ops @ [x]) u" "confirmed ops u \<Longrightarrow> confirmed (ops @ [x]) u"
proof -
  have later: "a @ y # b @ [x] = (a @ y # b) @ [x]" for a b :: "update_op list" and y by simp
  show "announced ops u \<Longrightarrow> announced (ops @ [x]) u" unfolding announced_def using later by metis
  show "verified ops u \<Longrightarrow> verified (ops @ [x]) u" unfolding verified_def using later by metis
  show "reboot_requested ops u \<Longrightarrow> reboot_requested (ops @ [x]) u" unfolding reboot_requested_def using later by metis
  show "restarted ops u \<Longrightarrow> restarted (ops @ [x]) u" unfolding restarted_def using later by metis
  show "confirmed ops u \<Longrightarrow> confirmed (ops @ [x]) u" unfolding confirmed_def using later by metis
qed

text \<open>The last call of a history completes the chain by one step.\<close>

lemma history_extends:
  "accepted ops (UBegin (fu_target u) (fu_bundle_id u) (fu_host u) (fu_device u)) \<Longrightarrow>
     announced (ops @ [UBegin (fu_target u) (fu_bundle_id u) (fu_host u) (fu_device u)]) u"
  "announced ops u \<Longrightarrow> accepted ops (UVerify h d) \<Longrightarrow> hash_given (fu_host u) h \<Longrightarrow> hash_given (fu_device u) d \<Longrightarrow>
     verified (ops @ [UVerify h d]) u"
  "verified ops u \<Longrightarrow> accepted ops UReboot \<Longrightarrow> reboot_requested (ops @ [UReboot]) u"
  "reboot_requested ops u \<Longrightarrow> accepted ops (UHealth (fu_bundle_id u)) \<Longrightarrow> restarted (ops @ [UHealth (fu_bundle_id u)]) u"
  "restarted ops u \<Longrightarrow> accepted ops (UFinish True) \<Longrightarrow> confirmed (ops @ [UFinish True]) u"
  unfolding announced_def[of "ops @ _"] verified_def[of "ops @ _"] reboot_requested_def[of "ops @ _"] restarted_def[of "ops @ _"]
    confirmed_def[of "ops @ _"]
  by blast+

definition same_update :: "firmware_update \<Rightarrow> firmware_update \<Rightarrow> bool" where
  "same_update u v \<longleftrightarrow> fu_target v = fu_target u \<and> fu_bundle_id v = fu_bundle_id u \<and> fu_host v = fu_host u \<and> fu_device v = fu_device u"

lemma history_same:
  "same_update u v \<Longrightarrow> announced ops u \<Longrightarrow> announced ops v" "same_update u v \<Longrightarrow> verified ops u \<Longrightarrow> verified ops v"
  "same_update u v \<Longrightarrow> reboot_requested ops u \<Longrightarrow> reboot_requested ops v"
  "same_update u v \<Longrightarrow> restarted ops u \<Longrightarrow> restarted ops v" "same_update u v \<Longrightarrow> confirmed ops u \<Longrightarrow> confirmed ops v"
  by (simp_all add: announced_def verified_def reboot_requested_def restarted_def confirmed_def same_update_def)

definition image_complete :: "image_metadata option \<Rightarrow> u32 \<Rightarrow> bool" where
  "image_complete img received = (case img of Some i \<Rightarrow> received = im_size i \<and> im_size i \<le> MAX_IMAGE_SIZE | None \<Rightarrow> True)"

definition image_within :: "image_metadata option \<Rightarrow> u32 \<Rightarrow> bool" where
  "image_within img received = (case img of Some i \<Rightarrow> received \<le> im_size i \<and> im_size i \<le> MAX_IMAGE_SIZE | None \<Rightarrow> True)"

definition required_nodes :: "firmware_update \<Rightarrow> bool" where
  "required_nodes u \<longleftrightarrow> (fu_host u \<noteq> None \<longleftrightarrow> fu_target u \<in> {UtHost, UtBoth}) \<and> (fu_device u \<noteq> None \<longleftrightarrow> fu_target u \<in> {UtDevice, UtBoth})"

definition images_complete :: "firmware_update \<Rightarrow> bool" where
  "images_complete u \<longleftrightarrow> required_nodes u \<and> image_complete (fu_host u) (fu_host_received u) \<and> image_complete (fu_device u) (fu_device_received u)"

definition update_inv :: "update_op list \<Rightarrow> firmware_update \<Rightarrow> bool" where
  "update_inv ops u \<longleftrightarrow>
     (case fu_phase u of
        UpIdle \<Rightarrow> True | UpRolledBack \<Rightarrow> True
      | UpStaging \<Rightarrow> announced ops u \<and> required_nodes u \<and> image_within (fu_host u) (fu_host_received u) \<and> image_within (fu_device u) (fu_device_received u)
      | UpReady \<Rightarrow> verified ops u \<and> images_complete u
      | UpRebootPending \<Rightarrow> reboot_requested ops u \<and> images_complete u
      | UpHealthCheck \<Rightarrow> restarted ops u \<and> images_complete u
      | UpCommitted \<Rightarrow> confirmed ops u \<and> images_complete u)"

lemma update_inv_weaken: "update_inv ops u \<Longrightarrow> update_inv (ops @ [x]) u"
  by (auto simp: update_inv_def history_grows split: update_phase.splits)

lemma extend_received_SomeD: "extend_received limit received len = Some n \<Longrightarrow> n \<le> limit \<and> unat n = unat received + unat len"
  by (auto simp: extend_received_def unat_word_ariths split: if_splits)

text \<open>The transitions that change the session; every other call leaves it alone.\<close>

inductive update_move :: "update_op \<Rightarrow> firmware_update \<Rightarrow> firmware_update \<Rightarrow> bool" where
  start: "fu_phase u \<in> {UpIdle, UpCommitted, UpRolledBack} \<Longrightarrow> (host \<noteq> None \<longleftrightarrow> t \<in> {UtHost, UtBoth}) \<Longrightarrow> (dev \<noteq> None \<longleftrightarrow> t \<in> {UtDevice, UtBoth}) \<Longrightarrow> \<not> too_large host \<Longrightarrow> \<not> too_large dev \<Longrightarrow>
    update_move (UBegin t b host dev) u
      \<lparr>fu_phase = UpStaging, fu_target = t, fu_bundle_id = b, fu_host = host, fu_device = dev, fu_host_received = 0, fu_device_received = 0\<rparr>"
| chunk_host: "fu_phase u = UpStaging \<Longrightarrow> fu_host u = Some i \<Longrightarrow> n \<le> im_size i \<Longrightarrow> update_move (UChunk FwHost x l) u (u\<lparr>fu_host_received := n\<rparr>)"
| chunk_device: "fu_phase u = UpStaging \<Longrightarrow> fu_device u = Some i \<Longrightarrow> n \<le> im_size i \<Longrightarrow> update_move (UChunk FwDevice x l) u (u\<lparr>fu_device_received := n\<rparr>)"
| verify: "fu_phase u = UpStaging \<Longrightarrow> \<not> image_mismatch (fu_host u) (fu_host_received u) h \<Longrightarrow>
    \<not> image_mismatch (fu_device u) (fu_device_received u) d \<Longrightarrow> update_move (UVerify h d) u (u\<lparr>fu_phase := UpReady\<rparr>)"
| reboot: "fu_phase u = UpReady \<Longrightarrow> update_move UReboot u (u\<lparr>fu_phase := UpRebootPending\<rparr>)"
| health: "fu_phase u = UpRebootPending \<Longrightarrow> update_move (UHealth (fu_bundle_id u)) u (u\<lparr>fu_phase := UpHealthCheck\<rparr>)"
| other_bundle: "update_move (UHealth b) u (u\<lparr>fu_phase := UpRolledBack\<rparr>)"
| healthy: "fu_phase u = UpHealthCheck \<Longrightarrow> update_move (UFinish True) u (u\<lparr>fu_phase := UpCommitted\<rparr>)"
| unhealthy: "update_move (UFinish False) u (u\<lparr>fu_phase := UpRolledBack\<rparr>)"

lemma update_step_move: "update_step x u = u \<or> update_move x u (update_step x u)"
proof (cases x)
  case (UBegin t b h d)
  show ?thesis
  proof (cases "fu_phase u \<in> {UpIdle, UpCommitted, UpRolledBack} \<and> (h \<noteq> None \<longleftrightarrow> t \<in> {UtHost, UtBoth}) \<and> (d \<noteq> None \<longleftrightarrow> t \<in> {UtDevice, UtBoth}) \<and>
      \<not> too_large h \<and> \<not> too_large d")
    case True
    then have "update_step x u = \<lparr>fu_phase = UpStaging, fu_target = t, fu_bundle_id = b, fu_host = h, fu_device = d, fu_host_received = 0, fu_device_received = 0\<rparr>"
      by (cases u) (simp add: UBegin update_begin_def del: insert_iff)
    then show ?thesis using True update_move.start[of u h t d b] UBegin by simp
  next
    case False
    then have "update_step x u = u" unfolding UBegin update_step.simps update_begin_def by (simp del: insert_iff) metis
    then show ?thesis by simp
  qed
next
  case (UChunk node offset len)
  then show ?thesis
    by (cases node) (auto simp: update_accept_chunk_def split: option.split intro: update_move.intros dest!: extend_received_SomeD)
qed (auto simp: update_verify_def update_request_reboot_def update_start_health_check_def update_finish_health_check_def intro: update_move.intros)

lemma same_phase: "same_update u (u\<lparr>fu_phase := p\<rparr>)"
  by (simp add: same_update_def)

lemma images_complete_phase [simp]: "images_complete (u\<lparr>fu_phase := p\<rparr>) = images_complete u"
  by (simp add: images_complete_def required_nodes_def)

lemma update_move_inv:
  assumes "update_move x u u'" "update_inv ops u" "u = run update_step ops firmware_update_new"
  shows "update_inv (ops @ [x]) u'"
  using assms
proof (induction rule: update_move.induct)
  case (start u host t dev b)
  let ?v = "\<lparr>fu_phase = UpStaging, fu_target = t, fu_bundle_id = b, fu_host = host, fu_device = dev, fu_host_received = 0, fu_device_received = 0\<rparr>"
  have "accepted ops (UBegin t b host dev)"
    using start by (simp add: accepted_def update_begin_def del: insert_iff)
  then have "announced (ops @ [UBegin t b host dev]) ?v" using history_extends(1)[of ops ?v] by simp
  then show ?case using start by (auto simp: update_inv_def required_nodes_def image_within_def too_large_def not_less split: option.split)
next
  case (chunk_host u i n x l)
  then have "announced (ops @ [UChunk FwHost x l]) (u\<lparr>fu_host_received := n\<rparr>)"
    using history_grows(1) history_same(1)[of u "u\<lparr>fu_host_received := n\<rparr>"] by (simp add: update_inv_def same_update_def)
  then show ?case using chunk_host by (auto simp: update_inv_def required_nodes_def image_within_def)
next
  case (chunk_device u i n x l)
  then have "announced (ops @ [UChunk FwDevice x l]) (u\<lparr>fu_device_received := n\<rparr>)"
    using history_grows(1) history_same(1)[of u "u\<lparr>fu_device_received := n\<rparr>"] by (simp add: update_inv_def same_update_def)
  then show ?case using chunk_device by (auto simp: update_inv_def required_nodes_def image_within_def)
next
  case (verify u h d)
  have "accepted ops (UVerify h d)" using verify by (simp add: accepted_def update_verify_def)
  then have "verified (ops @ [UVerify h d]) u" using verify
    by (intro history_extends(2)) (auto simp: update_inv_def hash_given_def image_mismatch_def split: option.splits)
  moreover have "images_complete u"
    using verify by (auto simp: update_inv_def images_complete_def image_complete_def image_mismatch_def image_within_def split: option.splits)
  ultimately show ?case using history_same(2)[OF same_phase] by (simp add: update_inv_def)
next
  case (reboot u)
  have "accepted ops UReboot" using reboot by (simp add: accepted_def update_request_reboot_def)
  then have "reboot_requested (ops @ [UReboot]) u" using reboot by (intro history_extends(3)) (simp_all add: update_inv_def)
  then show ?case using reboot history_same(3)[OF same_phase] by (simp add: update_inv_def)
next
  case (health u)
  have "accepted ops (UHealth (fu_bundle_id u))" using health by (simp add: accepted_def update_start_health_check_def)
  then have "restarted (ops @ [UHealth (fu_bundle_id u)]) u" using health by (intro history_extends(4)) (simp_all add: update_inv_def)
  then show ?case using health history_same(4)[OF same_phase] by (simp add: update_inv_def)
next
  case (healthy u)
  have "accepted ops (UFinish True)" using healthy by (simp add: accepted_def update_finish_health_check_def)
  then have "confirmed (ops @ [UFinish True]) u" using healthy by (intro history_extends(5)) (simp_all add: update_inv_def)
  then show ?case using healthy history_same(5)[OF same_phase] by (simp add: update_inv_def)
qed (simp_all add: update_inv_def)

lemma update_step_inv:
  "update_inv ops u \<Longrightarrow> u = run update_step ops firmware_update_new \<Longrightarrow> update_inv (ops @ [x]) (update_step x u)"
  using update_step_move[of x u] update_move_inv update_inv_weaken by metis

lemma update_reachable: "update_inv ops (run update_step ops firmware_update_new)"
proof (induction ops rule: rev_induct)
  case Nil
  show ?case by (simp add: update_inv_def firmware_update_new_def)
next
  case (snoc x ops)
  then show ?case using update_step_inv by simp
qed

text \<open>
  C34: Only a verified and healthy update is committed. When any sequence of calls has brought the
  session to the committed phase, every image the target requires has arrived completely and within
  the size limit, and the history contains, in this order, five calls that were accepted when they
  were made: the announcement of exactly this update, a verification with the announced hashes, the
  request to restart, the start of a health check in the announced bundle and its healthy end.
\<close>

theorem commit_needs_whole_chain:
  assumes "run update_step ops firmware_update_new = u" "fu_phase u = UpCommitted"
  shows "images_complete u \<and> confirmed ops u"
  using update_reachable[of ops] assms by (simp add: update_inv_def)

theorem commit_needs_whole_chain_witness:
  "fu_phase (run update_step [UBegin UtHost [7] (Some \<lparr>im_node = FwHost, im_size = 16, im_sha256 = [1], im_version = [1, 2, 3]\<rparr>) None,
      UChunk FwHost 0 16, UVerify (Some [1]) None, UReboot, UHealth [7], UFinish True] firmware_update_new) = UpCommitted \<and>
   images_complete (run update_step [UBegin UtHost [7] (Some \<lparr>im_node = FwHost, im_size = 16, im_sha256 = [1], im_version = [1, 2, 3]\<rparr>) None,
      UChunk FwHost 0 16, UVerify (Some [1]) None, UReboot, UHealth [7], UFinish True] firmware_update_new)"
proof -
  let ?ops = "[UBegin UtHost [7] (Some \<lparr>im_node = FwHost, im_size = 16, im_sha256 = [1], im_version = [1, 2, 3]\<rparr>) None,
      UChunk FwHost 0 16, UVerify (Some [1]) None, UReboot, UHealth [7], UFinish True]"
  have "fu_phase (run update_step ?ops firmware_update_new) = UpCommitted"
    by (simp add: firmware_update_new_def update_begin_def too_large_def MAX_IMAGE_SIZE_def update_accept_chunk_def update_received_def extend_received_def
        update_verify_def image_mismatch_def update_request_reboot_def update_start_health_check_def update_finish_health_check_def)
  then show ?thesis using commit_needs_whole_chain[OF refl] by blast
qed

end
