(* ===== verification/HS_Support.thy ===== *)
theory HS_Support
  imports HS_Runs
begin

text \<open>
  Small stateful helpers: the bounded log ring, the line buffer for serial input and the heartbeat
  monitors (\<open>support/\<close>), the button with its gestures and the recovery gesture at boot
  (\<open>target_control.rs\<close>), and the remote wake-up signal (\<open>remote_wakeup.rs\<close>). The log ring is the
  end of the whole history, the line buffer splits the stream, and the button reports one gesture
  per debounced press.
\<close>

section \<open>Log ring\<close>

definition LOG_RING_BYTE_BUDGET :: nat where "LOG_RING_BYTE_BUDGET = 8 * 1024"
definition LOG_MESSAGE_CAPACITY :: nat where "LOG_MESSAGE_CAPACITY = 160"
definition LOG_RING_CAPACITY :: nat where "LOG_RING_CAPACITY = 44"

datatype log_level = LogError | LogWarn | LogInfo

text \<open>A message is a list of Unicode scalar values; a fixed-capacity string counts UTF-8 bytes.\<close>

type_synonym scalar = u32

definition len_utf8 :: "scalar \<Rightarrow> nat" where
  "len_utf8 c = (if c < 0x80 then 1 else if c < 0x800 then 2 else if c < 0x10000 then 3 else 4)"

definition string_push :: "nat \<Rightarrow> scalar list \<Rightarrow> scalar \<Rightarrow> scalar list option" where
  "string_push cap s c = (if sum_list (map len_utf8 s) + len_utf8 c \<le> cap then Some (s @ [c]) else None)"

record log_entry =
  le_sequence :: u32
  le_timestamp_ms :: u64
  le_level :: log_level
  le_message :: "scalar list"

record log_write =
  lw_sequence :: u32
  lw_truncated :: bool
  lw_evicted :: bool

record log_ring =
  lr_entries :: "log_entry list"
  lr_next_sequence :: u32
  lr_evicted :: u32
  lr_stream_dropped :: u32

definition log_ring_new :: log_ring where
  "log_ring_new = \<lparr>lr_entries = [], lr_next_sequence = 0, lr_evicted = 0, lr_stream_dropped = 0\<rparr>"

definition mark_stream_dropped :: "log_ring \<Rightarrow> log_ring" where
  "mark_stream_dropped r = r\<lparr>lr_stream_dropped := sat_add (lr_stream_dropped r) 1\<rparr>"

text \<open>The loop over the characters: the longest prefix that fits, and whether it was cut.\<close>

fun copy_message :: "scalar list \<Rightarrow> scalar list \<Rightarrow> scalar list \<times> bool" where
  "copy_message owned [] = (owned, False)"
| "copy_message owned (c # cs) =
     (case string_push LOG_MESSAGE_CAPACITY owned c of
        None \<Rightarrow> (owned, True)
      | Some owned \<Rightarrow> copy_message owned cs)"

definition log_push :: "u64 \<Rightarrow> log_level \<Rightarrow> scalar list \<Rightarrow> log_ring \<Rightarrow> log_ring \<times> log_write" where
  "log_push timestamp level message r =
     (let sequence = lr_next_sequence r;
          r = r\<lparr>lr_next_sequence := lr_next_sequence r + 1\<rparr> in
      case copy_message [] message of
        (owned, truncated) \<Rightarrow>
          let full = LOG_RING_CAPACITY \<le> length (lr_entries r);
              r = (if full then r\<lparr>lr_entries := tl (lr_entries r), lr_evicted := sat_add (lr_evicted r) 1\<rparr> else r);
              entry = \<lparr>le_sequence = sequence, le_timestamp_ms = timestamp, le_level = level, le_message = owned\<rparr>;
              r = (case vec_push LOG_RING_CAPACITY (lr_entries r) entry of Some es \<Rightarrow> r\<lparr>lr_entries := es\<rparr> | None \<Rightarrow> r) in
          (r, \<lparr>lw_sequence = sequence, lw_truncated = truncated, lw_evicted = full\<rparr>))"

definition log_after :: "u32 \<Rightarrow> log_ring \<Rightarrow> log_entry list" where
  "log_after sequence r =
     filter (\<lambda>e. le_sequence e \<noteq> sequence) (filter (\<lambda>e. le_sequence e - sequence < (- 1) div 2) (lr_entries r))"

subsection \<open>The ring is the end of the history\<close>

type_synonym log_call = "u64 \<times> log_level \<times> scalar list"

definition log_all :: "log_call list \<Rightarrow> log_ring \<Rightarrow> log_ring" where
  "log_all calls r = fold (\<lambda>(t, l, m) r. fst (log_push t l m r)) calls r"

definition log_history :: "log_call list \<Rightarrow> log_entry list" where
  "log_history calls =
     map (\<lambda>(i, t, l, m). \<lparr>le_sequence = of_nat i, le_timestamp_ms = t, le_level = l, le_message = fst (copy_message [] m)\<rparr>) (enumerate 0 calls)"

lemma length_log_history [simp]: "length (log_history calls) = length calls"
  by (simp add: log_history_def)

lemma log_history_snoc:
  "log_history (calls @ [(t, l, m)]) =
     log_history calls @ [\<lparr>le_sequence = of_nat (length calls), le_timestamp_ms = t, le_level = l, le_message = fst (copy_message [] m)\<rparr>]"
  by (simp add: log_history_def enumerate_append_eq)

lemma log_push_effect:
  assumes "length (lr_entries r) \<le> LOG_RING_CAPACITY"
  shows "lr_entries (fst (log_push t l m r)) =
      drop (length (lr_entries r) + 1 - LOG_RING_CAPACITY)
        (lr_entries r @ [\<lparr>le_sequence = lr_next_sequence r, le_timestamp_ms = t, le_level = l, le_message = fst (copy_message [] m)\<rparr>])"
    "lr_next_sequence (fst (log_push t l m r)) = lr_next_sequence r + 1"
    "lr_evicted (fst (log_push t l m r)) = (if length (lr_entries r) = LOG_RING_CAPACITY then sat_add (lr_evicted r) 1 else lr_evicted r)"
proof -
  have c: "0 < LOG_RING_CAPACITY" by (simp add: LOG_RING_CAPACITY_def)
  consider "length (lr_entries r) < LOG_RING_CAPACITY" | "length (lr_entries r) = LOG_RING_CAPACITY" using assms by linarith
  then show "lr_entries (fst (log_push t l m r)) =
      drop (length (lr_entries r) + 1 - LOG_RING_CAPACITY)
        (lr_entries r @ [\<lparr>le_sequence = lr_next_sequence r, le_timestamp_ms = t, le_level = l, le_message = fst (copy_message [] m)\<rparr>])"
    using c by cases (auto simp: log_push_def Let_def vec_push_def drop_Suc split: prod.split)
  show "lr_next_sequence (fst (log_push t l m r)) = lr_next_sequence r + 1"
    by (auto simp: log_push_def Let_def split: prod.split option.split)
  show "lr_evicted (fst (log_push t l m r)) = (if length (lr_entries r) = LOG_RING_CAPACITY then sat_add (lr_evicted r) 1 else lr_evicted r)"
    using assms by (auto simp: log_push_def Let_def split: prod.split option.split)
qed

lemma log_all_history:
  "lr_entries (log_all calls log_ring_new) = drop (length calls - LOG_RING_CAPACITY) (log_history calls) \<and>
   lr_next_sequence (log_all calls log_ring_new) = of_nat (length calls)"
proof (induction calls rule: rev_induct)
  case Nil
  show ?case by (simp add: log_all_def log_ring_new_def log_history_def)
next
  case (snoc call calls)
  obtain t l m where call: "call = (t, l, m)" by (cases call)
  let ?r = "log_all calls log_ring_new"
  have len: "length (lr_entries ?r) = min (length calls) LOG_RING_CAPACITY" using snoc by simp
  have step: "log_all (calls @ [call]) log_ring_new = fst (log_push t l m ?r)" by (simp add: log_all_def call)
  have "length (lr_entries ?r) \<le> LOG_RING_CAPACITY" by (simp add: len)
  note e = log_push_effect[OF this, of t l m]
  have c: "0 < LOG_RING_CAPACITY" by (simp add: LOG_RING_CAPACITY_def)
  show ?case
    using snoc e(1,2) c unfolding step len unfolding call log_history_snoc
    by (cases "length calls < LOG_RING_CAPACITY") (auto simp: not_less Suc_diff_le add.commute)
qed

lemma filter_suffix:
  assumes "\<And>i. i < length xs \<Longrightarrow> p (xs ! i) \<longleftrightarrow> k < i"
  shows "filter p xs = drop (Suc k) xs"
proof -
  have "filter p (take (Suc k) xs) = []" using assms by (auto simp: filter_empty_conv in_set_conv_nth)
  moreover have "filter p (drop (Suc k) xs) = drop (Suc k) xs" using assms by (auto simp: filter_id_conv in_set_conv_nth)
  ultimately show ?thesis by (metis append_Nil append_take_drop_id filter_append)
qed

lemma u32_half: "(- 1 :: u32) div 2 = 0x7FFFFFFF"
  by code_simp

lemma sequence_distance:
  assumes "i < n" "j < n" "n \<le> 2 ^ 30"
  shows "of_nat (b + i) - (of_nat (b + j) :: u32) < 0x7FFFFFFF \<and> of_nat (b + i) \<noteq> (of_nat (b + j) :: u32) \<longleftrightarrow> j < i"
proof (cases "j \<le> i")
  case True
  then have d: "of_nat (b + i) - (of_nat (b + j) :: u32) = of_nat (i - j)" by (simp add: of_nat_diff)
  moreover have u: "unat (of_nat (i - j) :: u32) = i - j" using assms by (intro unat_of_nat_small) simp
  moreover have "of_nat (b + i) = (of_nat (b + j) :: u32) \<longleftrightarrow> i = j"
    using d u True by (metis diff_is_0_eq diff_self_eq_0 eq_iff_diff_eq_0 le_antisym unat_0)
  ultimately show ?thesis using True assms by (auto simp: word_less_nat_alt)
next
  case False
  then have "of_nat (b + i) - (of_nat (b + j) :: u32) = 0 - of_nat (j - i)" by (simp add: of_nat_diff)
  moreover have "unat (of_nat (j - i) :: u32) = j - i" using assms by (intro unat_of_nat_small) simp
  ultimately have "\<not> of_nat (b + i) - (of_nat (b + j) :: u32) < 0x7FFFFFFF"
    using False assms by (simp only: word_less_nat_alt unat_sub_if') (simp add: word_size)
  then show ?thesis using False by simp
qed

text \<open>
  The log ring is the end of the log. After any number of messages it holds exactly the last 44
  of them in order, and asking for what follows the entry with a given sequence number returns
  exactly the entries behind it, also across the wrap-around of the 32-bit sequence.
\<close>

theorem log_ring_keeps_newest:
  "lr_entries (log_all calls log_ring_new) = drop (length calls - LOG_RING_CAPACITY) (log_history calls) \<and>
   (case log_all calls log_ring_new of r \<Rightarrow>
      list_all (\<lambda>k. log_after (le_sequence (lr_entries r ! k)) r = drop (Suc k) (lr_entries r)) [0..<length (lr_entries r)])"
proof -
  obtain r where r: "log_all calls log_ring_new = r" by simp
  let ?es = "lr_entries r"
  have es: "?es = drop (length calls - LOG_RING_CAPACITY) (log_history calls)" using log_all_history[of calls] r by simp
  let ?b = "length calls - LOG_RING_CAPACITY"
  have len: "length ?es \<le> 2 ^ 30" by (simp add: es LOG_RING_CAPACITY_def)
  have seq: "le_sequence (?es ! k) = of_nat (?b + k)" if "k < length ?es" for k
    using that by (simp add: es log_history_def nth_enumerate_eq split: prod.split)
  have "log_after (le_sequence (?es ! k)) r = drop (Suc k) ?es" if k: "k < length ?es" for k
  proof -
    have keep: "(le_sequence (?es ! i) - le_sequence (?es ! k) < (- 1) div 2 \<and> le_sequence (?es ! i) \<noteq> le_sequence (?es ! k)) \<longleftrightarrow> k < i"
      if "i < length ?es" for i
      using sequence_distance[OF that k len, of ?b] len that k unfolding seq[OF that] seq[OF k] u32_half by auto
    then show ?thesis
      unfolding log_after_def filter_filter by (intro filter_suffix) (auto simp: conj_commute)
  qed
  then show ?thesis using es r by (simp add: list_all_iff)
qed

section \<open>Serial lines\<close>

record serial_line_buffer =
  sl_bytes :: bytes
  sl_len :: nat
  sl_discarding :: bool

definition serial_line_new :: "nat \<Rightarrow> serial_line_buffer" where
  "serial_line_new cap = \<lparr>sl_bytes = replicate cap 0, sl_len = 0, sl_discarding = False\<rparr>"

definition is_line_end :: "u8 \<Rightarrow> bool" where "is_line_end b = (b \<in> {10, 13})"

definition serial_push :: "u8 \<Rightarrow> serial_line_buffer \<Rightarrow> serial_line_buffer \<times> nat option" where
  "serial_push byte s =
     (if is_line_end byte then
        if sl_discarding s then (s\<lparr>sl_discarding := False, sl_len := 0\<rparr>, None)
        else (s\<lparr>sl_len := 0\<rparr>, Some (sl_len s))
      else if sl_discarding s then (s, None)
      else if sl_len s = length (sl_bytes s) then (s\<lparr>sl_len := 0, sl_discarding := True\<rparr>, None)
      else (s\<lparr>sl_bytes := (sl_bytes s)[sl_len s := byte], sl_len := sl_len s + 1\<rparr>, None))"

definition serial_line :: "nat \<Rightarrow> serial_line_buffer \<Rightarrow> bytes" where
  "serial_line completed s = take completed (sl_bytes s)"

text \<open>An adapter pushes the bytes one by one and reads a completed line before the next byte.\<close>

fun serial_lines :: "bytes \<Rightarrow> serial_line_buffer \<Rightarrow> bytes list" where
  "serial_lines [] s = []"
| "serial_lines (b # bs) s =
     (case serial_push b s of
        (s', None) \<Rightarrow> serial_lines bs s'
      | (s', Some completed) \<Rightarrow> serial_line completed s' # serial_lines bs s')"

text \<open>The specification: cut the stream at every line end and keep the lines that fit.\<close>

fun split_lines :: "bytes \<Rightarrow> bytes \<Rightarrow> bytes list" where
  "split_lines line [] = []"
| "split_lines line (b # bs) = (if is_line_end b then line # split_lines [] bs else split_lines (line @ [b]) bs)"

definition line_state :: "nat \<Rightarrow> bytes \<Rightarrow> serial_line_buffer \<Rightarrow> bool" where
  "line_state cap line s \<longleftrightarrow>
     length (sl_bytes s) = cap \<and>
     (if sl_discarding s then cap < length line else length line \<le> cap \<and> sl_len s = length line \<and> take (sl_len s) (sl_bytes s) = line)"

lemma take_extend: "n < length xs \<Longrightarrow> take (Suc n) (xs[n := y]) = take n xs @ [y]"
  by (simp add: take_Suc_conv_app_nth)

lemma serial_push_state:
  assumes "line_state cap line s" "serial_push b s = (s', r)"
  shows "line_state cap (if is_line_end b then [] else line @ [b]) s'"
    "r = (if is_line_end b \<and> length line \<le> cap then Some (length line) else None)"
    "is_line_end b \<Longrightarrow> length line \<le> cap \<Longrightarrow> serial_line (length line) s' = line"
  using assms by (auto simp: line_state_def serial_push_def serial_line_def take_extend split: if_splits)

lemma serial_lines_split:
  "line_state cap line s \<Longrightarrow> serial_lines bs s = filter (\<lambda>l. length l \<le> cap) (split_lines line bs)"
proof (induction bs arbitrary: line s)
  case Nil
  show ?case by simp
next
  case (Cons b bs)
  obtain s' r where p: "serial_push b s = (s', r)" by fastforce
  note st = serial_push_state[OF Cons.prems p]
  show ?case using st(2,3) Cons.IH[OF st(1)] p by (auto split: if_splits)
qed

text \<open>
  C37: The line buffer cuts a serial stream exactly at its line ends. Whatever bytes arrive, the
  lines handed out are the segments between line ends in order, each with its exact content; the
  only segments missing are those longer than the buffer, and none of their bytes ever appear in
  another line.
\<close>

theorem serial_lines_exact:
  "serial_lines stream (serial_line_new cap) = filter (\<lambda>l. length l \<le> cap) (split_lines [] stream)"
  by (rule serial_lines_split) (simp add: line_state_def serial_line_new_def)

section \<open>Heartbeats\<close>

record heartbeat_monitor =
  hm_last_heartbeat :: u32
  hm_missed_intervals :: u8
  hm_allowed_missed_intervals :: u8

definition heartbeat_monitor_new :: "u32 \<Rightarrow> u8 \<Rightarrow> heartbeat_monitor" where
  "heartbeat_monitor_new initial allowed = \<lparr>hm_last_heartbeat = initial, hm_missed_intervals = 0, hm_allowed_missed_intervals = allowed\<rparr>"

definition monitor_should_feed :: "u32 \<Rightarrow> heartbeat_monitor \<Rightarrow> heartbeat_monitor \<times> bool" where
  "monitor_should_feed heartbeat m =
     (if heartbeat \<noteq> hm_last_heartbeat m then (m\<lparr>hm_last_heartbeat := heartbeat, hm_missed_intervals := 0\<rparr>, True)
      else (let m = m\<lparr>hm_missed_intervals := sat_add (hm_missed_intervals m) 1\<rparr> in
            (m, hm_missed_intervals m \<le> hm_allowed_missed_intervals m)))"

definition heartbeat_group_new :: "u32 list \<Rightarrow> u8 \<Rightarrow> heartbeat_monitor list" where
  "heartbeat_group_new initial allowed = map (\<lambda>i. heartbeat_monitor_new i allowed) initial"

text \<open>One pass over the tasks; every monitor is updated, whether its task is required or not.\<close>

fun group_pass :: "heartbeat_monitor list \<Rightarrow> u32 list \<Rightarrow> bool list \<Rightarrow> bool \<Rightarrow> heartbeat_monitor list \<times> bool" where
  "group_pass (m # ms) (h # hs) (q # qs) healthy =
     (case monitor_should_feed h m of
        (m', task_healthy) \<Rightarrow>
          case group_pass ms hs qs (if q \<and> \<not> task_healthy then False else healthy) of
            (ms', r) \<Rightarrow> (m' # ms', r))"
| "group_pass ms hs qs healthy = (ms, healthy)"

definition group_should_feed :: "u32 list \<Rightarrow> bool list \<Rightarrow> heartbeat_monitor list \<Rightarrow> heartbeat_monitor list \<times> bool" where
  "group_should_feed heartbeats required ms = group_pass ms heartbeats required True"

lemma group_pass_eq:
  "length hs = length ms \<Longrightarrow> length qs = length ms \<Longrightarrow>
   group_pass ms hs qs healthy =
     (map2 (\<lambda>m h. fst (monitor_should_feed h m)) ms hs,
      healthy \<and> list_all (\<lambda>(q, m, h). q \<longrightarrow> snd (monitor_should_feed h m)) (zip qs (zip ms hs)))"
proof (induction ms hs qs healthy rule: group_pass.induct)
  case (1 m ms h hs q qs healthy)
  then show ?case by (auto split: prod.split)
qed auto

text \<open>A monitor that sees the same beat \<open>n\<close> times in a row.\<close>

fun silent :: "nat \<Rightarrow> heartbeat_monitor \<Rightarrow> heartbeat_monitor \<times> bool" where
  "silent 0 m = (m, True)"
| "silent (Suc n) m = (let m = fst (silent n m) in monitor_should_feed (hm_last_heartbeat m) m)"

lemma silent_state:
  assumes "hm_missed_intervals m = 0"
  shows "hm_last_heartbeat (fst (silent n m)) = hm_last_heartbeat m \<and> hm_allowed_missed_intervals (fst (silent n m)) = hm_allowed_missed_intervals m \<and>
    unat (hm_missed_intervals (fst (silent n m))) = min n 255"
proof (induction n)
  case 0
  then show ?case using assms by simp
next
  case (Suc n)
  then show ?case by (auto simp: monitor_should_feed_def Let_def unat_sat_add)
qed

theorem silent_task_stops_feeding:
  assumes "hm_missed_intervals m = 0" "hm_allowed_missed_intervals m < 255"
  shows "snd (silent n m) \<longleftrightarrow> n \<le> unat (hm_allowed_missed_intervals m)"
proof (cases n)
  case 0
  then show ?thesis by simp
next
  case (Suc k)
  have "unat (hm_allowed_missed_intervals m) < 255" using assms(2) by (simp add: word_less_nat_alt)
  then show ?thesis using silent_state[OF assms(1), of k] by (auto simp: Suc monitor_should_feed_def Let_def word_le_nat_alt unat_sat_add)
qed

section \<open>Factory reset at boot\<close>

datatype boot_recovery_action = BootNormal | BootSuppress | BootFactoryReset

record boot_recovery_control =
  bc_arm_until_ms :: u64
  bc_pressed_since_ms :: "u64 option"
  bc_hold_ms :: u64

definition boot_recovery_new :: "u64 \<Rightarrow> u64 \<Rightarrow> u64 \<Rightarrow> boot_recovery_control" where
  "boot_recovery_new now arm_window hold = \<lparr>bc_arm_until_ms = sat_add now arm_window, bc_pressed_since_ms = None, bc_hold_ms = hold\<rparr>"

definition boot_sample :: "bool \<Rightarrow> u64 \<Rightarrow> boot_recovery_control \<Rightarrow> boot_recovery_control \<times> boot_recovery_action" where
  "boot_sample pressed now b =
     (case bc_pressed_since_ms b of
        Some since \<Rightarrow>
          if pressed then (b, BootSuppress)
          else (b\<lparr>bc_pressed_since_ms := None\<rparr>, if sat_sub now since \<ge> bc_hold_ms b then BootFactoryReset else BootSuppress)
      | None \<Rightarrow>
          if pressed \<and> now \<le> bc_arm_until_ms b then (b\<lparr>bc_pressed_since_ms := Some now\<rparr>, BootSuppress)
          else (b, BootNormal))"

text \<open>Samples of the button: whether it is pressed, and the time.\<close>

type_synonym sample = "bool \<times> u64"

definition boot_run :: "sample list \<Rightarrow> boot_recovery_control \<Rightarrow> boot_recovery_control" where
  "boot_run samples b = fold (\<lambda>(pressed, now) b. fst (boot_sample pressed now b)) samples b"

definition held_since :: "sample list \<Rightarrow> u64 \<Rightarrow> u64 \<Rightarrow> bool" where
  "held_since samples since limit = (\<exists>a b. samples = a @ (True, since) # b \<and> since \<le> limit \<and> list_all fst b)"

lemma boot_history:
  assumes "bc_pressed_since_ms b = None"
  shows "bc_arm_until_ms (boot_run samples b) = bc_arm_until_ms b \<and> bc_hold_ms (boot_run samples b) = bc_hold_ms b \<and>
    (\<forall>since. bc_pressed_since_ms (boot_run samples b) = Some since \<longrightarrow> held_since samples since (bc_arm_until_ms b))"
proof (induction samples rule: rev_induct)
  case Nil
  then show ?case using assms by (simp add: boot_run_def)
next
  case (snoc s samples)
  obtain pressed now where s: "s = (pressed, now)" by (cases s)
  have grow: "held_since (samples @ [(True, t)]) since limit" if "held_since samples since limit" for since limit t
  proof -
    from that obtain a c where "samples = a @ (True, since) # c" "since \<le> limit" "list_all fst c" unfolding held_since_def by blast
    then show ?thesis unfolding held_since_def by (intro exI[of _ a] exI[of _ "c @ [(True, t)]"]) simp
  qed
  have fresh: "held_since (samples @ [(True, t)]) t limit" if "t \<le> limit" for t limit
    using that unfolding held_since_def by (intro exI[of _ samples] exI[of _ "[]"]) simp
  have step: "boot_run (samples @ [s]) b = fst (boot_sample pressed now (boot_run samples b))" by (simp add: boot_run_def s)
  show ?case using snoc grow fresh unfolding step unfolding s by (auto simp: boot_sample_def split: option.splits)
qed

text \<open>
  A factory reset is deliberate. If a sample at boot answers with a factory reset, the button
  has just been released, it was pressed without interruption since a sample inside the arming
  window, and the press lasted at least the required time.
\<close>

theorem factory_reset_deliberate:
  assumes "snd (boot_sample pressed now (boot_run samples (boot_recovery_new start window hold))) = BootFactoryReset"
  shows "\<not> pressed \<and> (\<exists>since. held_since samples since (sat_add start window) \<and> hold \<le> sat_sub now since)"
  using assms boot_history[of "boot_recovery_new start window hold" samples]
  by (auto simp: boot_sample_def boot_recovery_new_def split: option.splits if_splits)

theorem factory_reset_deliberate_witness:
  "snd (boot_sample False 9000 (boot_run [(False, 10), (True, 500), (True, 8000)] (boot_recovery_new 0 2000 5000))) = BootFactoryReset \<and>
   (\<exists>since. held_since [(False, 10), (True, 500), (True, 8000)] since 2000 \<and> 5000 \<le> sat_sub 9000 since)"
proof -
  have "snd (boot_sample False 9000 (boot_run [(False, 10), (True, 500), (True, 8000)] (boot_recovery_new 0 2000 5000))) = BootFactoryReset"
    by (simp add: boot_run_def boot_sample_def boot_recovery_new_def sat_add_def sat_sub_def)
  moreover have "sat_add 0 2000 = (2000 :: u64)" by (simp add: sat_add_def)
  ultimately show ?thesis using factory_reset_deliberate by metis
qed

section \<open>The target button\<close>

datatype button_intent = NextConnectedTarget | EnterPairingMode | ClearActiveHostBond
datatype button_event = ButtonPressed | ButtonReleased

record debounced_button =
  db_debounce_ms :: u64
  db_stable_pressed :: bool
  db_candidate_pressed :: bool
  db_candidate_since_ms :: u64
  db_press_reported :: bool

definition debounced_button_new :: "u64 \<Rightarrow> debounced_button" where
  "debounced_button_new debounce = \<lparr>db_debounce_ms = debounce, db_stable_pressed = False, db_candidate_pressed = False,
     db_candidate_since_ms = 0, db_press_reported = False\<rparr>"

definition button_update :: "bool \<Rightarrow> u64 \<Rightarrow> debounced_button \<Rightarrow> debounced_button \<times> button_event option" where
  "button_update pressed now b =
     (if pressed \<noteq> db_candidate_pressed b then (b\<lparr>db_candidate_pressed := pressed, db_candidate_since_ms := now\<rparr>, None)
      else if pressed = db_stable_pressed b then (b, None)
      else if sat_sub now (db_candidate_since_ms b) < db_debounce_ms b then (b, None)
      else (let b = b\<lparr>db_stable_pressed := pressed\<rparr> in
            if db_stable_pressed b then
              if db_press_reported b then (b, None) else (b\<lparr>db_press_reported := True\<rparr>, Some ButtonPressed)
            else (b\<lparr>db_press_reported := False\<rparr>, Some ButtonReleased)))"

record target_switch_control =
  tc_button :: debounced_button
  tc_long_press_ms :: u64
  tc_very_long_press_ms :: u64
  tc_pressed_since_ms :: "u64 option"

definition DEFAULT_DEBOUNCE_MS :: u64 where "DEFAULT_DEBOUNCE_MS = 30"
definition DEFAULT_LONG_PRESS_MS :: u64 where "DEFAULT_LONG_PRESS_MS = 3000"
definition DEFAULT_VERY_LONG_PRESS_MS :: u64 where "DEFAULT_VERY_LONG_PRESS_MS = 8000"

definition control_with_timings :: "u64 \<Rightarrow> u64 \<Rightarrow> u64 \<Rightarrow> target_switch_control" where
  "control_with_timings debounce long very_long =
     \<lparr>tc_button = debounced_button_new debounce, tc_long_press_ms = long, tc_very_long_press_ms = very_long, tc_pressed_since_ms = None\<rparr>"

definition target_switch_control_new :: target_switch_control where
  "target_switch_control_new = control_with_timings DEFAULT_DEBOUNCE_MS DEFAULT_LONG_PRESS_MS DEFAULT_VERY_LONG_PRESS_MS"

definition control_with_debounce_ms :: "u64 \<Rightarrow> target_switch_control" where
  "control_with_debounce_ms debounce = control_with_timings debounce DEFAULT_LONG_PRESS_MS DEFAULT_VERY_LONG_PRESS_MS"

definition target_button_sample :: "bool \<Rightarrow> u64 \<Rightarrow> target_switch_control \<Rightarrow> target_switch_control \<times> button_intent option" where
  "target_button_sample pressed now c =
     (case button_update pressed now (tc_button c) of
        (b, event) \<Rightarrow>
          let c = c\<lparr>tc_button := b\<rparr> in
          (case event of
             Some ButtonPressed \<Rightarrow> (c\<lparr>tc_pressed_since_ms := Some now\<rparr>, None)
           | Some ButtonReleased \<Rightarrow>
               (case tc_pressed_since_ms c of
                  None \<Rightarrow> (c, None)
                | Some since \<Rightarrow>
                    let c = c\<lparr>tc_pressed_since_ms := None\<rparr>; held = sat_sub now since in
                    (c, Some (if held \<ge> tc_very_long_press_ms c then ClearActiveHostBond
                              else if held \<ge> tc_long_press_ms c then EnterPairingMode
                              else NextConnectedTarget)))
           | None \<Rightarrow> (c, None)))"

subsection \<open>Gestures are debounced presses\<close>

definition control_run :: "sample list \<Rightarrow> target_switch_control \<Rightarrow> target_switch_control" where
  "control_run samples c = fold (\<lambda>(pressed, now) c. fst (target_button_sample pressed now c)) samples c"

text \<open>
  What a gesture is, read off the history of samples alone. A stretch of \<open>v\<close> starts at
  \<open>t\<close> when the button has read \<open>v\<close> in every sample since \<open>t\<close> and not in the
  sample before; the button settles at \<open>v\<close> when a stretch is at least the debounce time old.
\<close>

definition stretch :: "sample list \<Rightarrow> bool \<Rightarrow> u64 \<Rightarrow> bool" where
  "stretch samples v t = (\<exists>a b. samples = a @ (v, t) # b \<and> list_all (\<lambda>s. fst s = v) b \<and> (a = [] \<or> fst (last a) \<noteq> v))"

definition settled :: "u64 \<Rightarrow> sample list \<Rightarrow> bool \<Rightarrow> u64 \<Rightarrow> bool" where
  "settled debounce samples v now = (\<exists>t. stretch samples v t \<and> debounce \<le> sat_sub now t)"

text \<open>
  The sample at \<open>p\<close> behind the history \<open>a\<close> settles the button as pressed, and no
  sample of \<open>b\<close>, which follow it, settles it as released again.
\<close>

definition pressed_from :: "u64 \<Rightarrow> sample list \<Rightarrow> u64 \<Rightarrow> sample list \<Rightarrow> bool" where
  "pressed_from debounce a p b = (settled debounce a True p \<and>
     (\<forall>x u y. b = x @ (False, u) # y \<longrightarrow> \<not> settled debounce (a @ (True, p) # x) False u))"

definition button_held :: "u64 \<Rightarrow> sample list \<Rightarrow> bool" where
  "button_held debounce samples = (\<exists>a p b. samples = a @ (True, p) # b \<and> pressed_from debounce a p b)"

text \<open>The press that is not over yet began at \<open>p\<close>: before that sample the button was not held.\<close>

definition press_began :: "u64 \<Rightarrow> sample list \<Rightarrow> u64 \<Rightarrow> bool" where
  "press_began debounce samples p =
     (\<exists>a b. samples = a @ (True, p) # b \<and> pressed_from debounce a p b \<and> \<not> button_held debounce a)"

lemma snoc_split:
  "xs @ [s] = a @ r # b \<longleftrightarrow> (b = [] \<and> xs = a \<and> s = r) \<or> (\<exists>b'. b = b' @ [s] \<and> xs = a @ r # b')"
  by (cases b rule: rev_cases) auto

lemma stretch_snoc:
  "stretch (h @ [(w, u)]) v t \<longleftrightarrow> w = v \<and> (stretch h v t \<or> (h = [] \<or> fst (last h) \<noteq> v) \<and> t = u)"
proof -
  have "stretch (h @ [(w, u)]) v t \<longleftrightarrow>
      (\<exists>a b. h = a @ (v, t) # b \<and> list_all (\<lambda>s. fst s = v) (b @ [(w, u)]) \<and> (a = [] \<or> fst (last a) \<noteq> v)) \<or>
      (w, u) = (v, t) \<and> (h = [] \<or> fst (last h) \<noteq> v)"
    unfolding stretch_def snoc_split using list.pred_inject(1)[of "\<lambda>s. fst s = v"] by blast
  then show ?thesis unfolding stretch_def list_all_append by auto
qed

lemma stretch_last:
  assumes "stretch h v t"
  shows "h \<noteq> [] \<and> fst (last h) = v"
proof -
  from assms obtain a b where h: "h = a @ (v, t) # b" "list_all (\<lambda>s. fst s = v) b" unfolding stretch_def by blast
  then show ?thesis by (cases b rule: rev_cases) auto
qed

lemma pressed_from_snoc:
  "pressed_from d a p (b @ [(v, t)]) \<longleftrightarrow> pressed_from d a p b \<and> (v \<or> \<not> settled d (a @ (True, p) # b) False t)"
  unfolding pressed_from_def snoc_split by auto

lemma button_held_snoc:
  "button_held d (h @ [(v, t)]) \<longleftrightarrow> button_held d h \<and> (v \<or> \<not> settled d h False t) \<or> v \<and> settled d h True t"
proof -
  have last: "pressed_from d a p [] = settled d a True p" for a p unfolding pressed_from_def by simp
  have "button_held d (h @ [(v, t)]) \<longleftrightarrow> (\<exists>a p b. h = a @ (True, p) # b \<and> pressed_from d a p (b @ [(v, t)])) \<or> v \<and> pressed_from d h t []"
    unfolding button_held_def snoc_split by auto
  then show ?thesis unfolding pressed_from_snoc last button_held_def by blast
qed

lemma press_began_snoc:
  "press_began d (h @ [(v, t)]) p \<longleftrightarrow>
     press_began d h p \<and> (v \<or> \<not> settled d h False t) \<or> v \<and> settled d h True t \<and> \<not> button_held d h \<and> p = t"
proof -
  have last: "pressed_from d a p [] = settled d a True p" for a p unfolding pressed_from_def by simp
  have "press_began d (h @ [(v, t)]) p \<longleftrightarrow>
      (\<exists>a b. h = a @ (True, p) # b \<and> pressed_from d a p (b @ [(v, t)]) \<and> \<not> button_held d a) \<or>
      v \<and> p = t \<and> pressed_from d h t [] \<and> \<not> button_held d h"
    unfolding press_began_def snoc_split by auto
  then show ?thesis unfolding pressed_from_snoc last press_began_def by blast
qed

lemma press_began_held: "press_began d h p \<Longrightarrow> button_held d h"
  unfolding press_began_def button_held_def by blast

lemma empty_history: "\<not> button_held d []" "\<not> press_began d [] p" "\<not> stretch [] v t"
  unfolding button_held_def press_began_def stretch_def by simp_all

text \<open>The fields of the control are those readings of the history.\<close>

definition control_inv :: "u64 \<Rightarrow> sample list \<Rightarrow> target_switch_control \<Rightarrow> bool" where
  "control_inv debounce samples c \<longleftrightarrow>
     (let b = tc_button c in
      db_debounce_ms b = debounce \<and>
      db_stable_pressed b = button_held debounce samples \<and> db_press_reported b = db_stable_pressed b \<and>
      db_candidate_pressed b = (samples \<noteq> [] \<and> fst (last samples)) \<and>
      (db_candidate_pressed b \<or> db_stable_pressed b \<longrightarrow>
         (\<forall>t. stretch samples (db_candidate_pressed b) t \<longleftrightarrow> t = db_candidate_since_ms b)) \<and>
      (\<forall>p. press_began debounce samples p \<longleftrightarrow> tc_pressed_since_ms c = Some p) \<and>
      (db_stable_pressed b \<longleftrightarrow> tc_pressed_since_ms c \<noteq> None))"

definition classify :: "target_switch_control \<Rightarrow> u64 \<Rightarrow> button_intent" where
  "classify c held = (if held \<ge> tc_very_long_press_ms c then ClearActiveHostBond else if held \<ge> tc_long_press_ms c then EnterPairingMode else NextConnectedTarget)"

lemma classify_kept [simp]: "classify (c\<lparr>tc_button := b\<rparr>) = classify c" "classify (c\<lparr>tc_pressed_since_ms := q\<rparr>) = classify c"
  by (simp_all add: classify_def fun_eq_iff)

lemma control_settled:
  assumes inv: "control_inv d samples c" and v: "v \<or> db_stable_pressed (tc_button c)"
  shows "settled d samples v now \<longleftrightarrow> v = db_candidate_pressed (tc_button c) \<and> d \<le> sat_sub now (db_candidate_since_ms (tc_button c))"
proof (cases "v = db_candidate_pressed (tc_button c)")
  case True
  then have "\<forall>t. stretch samples v t \<longleftrightarrow> t = db_candidate_since_ms (tc_button c)"
    using inv v unfolding control_inv_def Let_def by blast
  then show ?thesis using True unfolding settled_def by simp
next
  case False
  then have "\<not> stretch samples v t" for t using stretch_last[of samples v t] inv unfolding control_inv_def Let_def by auto
  then show ?thesis using False unfolding settled_def by simp
qed

text \<open>The step of the control in terms of the two settled levels.\<close>

definition button_tracked :: "bool \<Rightarrow> u64 \<Rightarrow> debounced_button \<Rightarrow> debounced_button" where
  "button_tracked pressed now b = b\<lparr>db_candidate_pressed := pressed, db_candidate_since_ms :=
     (if pressed = db_candidate_pressed b then db_candidate_since_ms b else now)\<rparr>"

lemma target_button_sample_step:
  assumes inv: "control_inv d samples c" and b: "b = button_tracked pressed now (tc_button c)"
  shows "target_button_sample pressed now c =
    (if pressed \<and> \<not> button_held d samples \<and> settled d samples True now then
       (c\<lparr>tc_button := b\<lparr>db_stable_pressed := True, db_press_reported := True\<rparr>, tc_pressed_since_ms := Some now\<rparr>, None)
     else if \<not> pressed \<and> button_held d samples \<and> settled d samples False now then
       (c\<lparr>tc_button := b\<lparr>db_stable_pressed := False, db_press_reported := False\<rparr>, tc_pressed_since_ms := None\<rparr>,
        Some (classify c (sat_sub now (the (tc_pressed_since_ms c)))))
     else (c\<lparr>tc_button := b\<rparr>, None))"
proof -
  note inv' = inv[unfolded control_inv_def Let_def]
  have s: "settled d samples pressed now \<longleftrightarrow> pressed = db_candidate_pressed (tc_button c) \<and> \<not> sat_sub now (db_candidate_since_ms (tc_button c)) < d"
    if "pressed \<noteq> button_held d samples" using control_settled[OF inv, of pressed now] that inv' not_less by auto
  have "button_update pressed now (tc_button c) =
    (if pressed \<and> \<not> button_held d samples \<and> settled d samples True now then
       (b\<lparr>db_stable_pressed := True, db_press_reported := True\<rparr>, Some ButtonPressed)
     else if \<not> pressed \<and> button_held d samples \<and> settled d samples False now then
       (b\<lparr>db_stable_pressed := False, db_press_reported := False\<rparr>, Some ButtonReleased)
     else (b, None))"
    using s inv' unfolding button_update_def b button_tracked_def by (cases pressed) (auto simp: Let_def)
  moreover have "button_held d samples \<longleftrightarrow> (\<exists>p. tc_pressed_since_ms c = Some p)" using inv' by auto
  ultimately show ?thesis by (auto simp: target_button_sample_def classify_def Let_def)
qed

lemma target_button_sample_inv:
  assumes inv: "control_inv d samples c"
  shows "control_inv d (samples @ [(pressed, now)]) (fst (target_button_sample pressed now c)) \<and>
    classify (fst (target_button_sample pressed now c)) = classify c"
proof -
  let ?h = "samples @ [(pressed, now)]"
  note inv' = inv[unfolded control_inv_def Let_def]
  have st: "stretch ?h pressed t \<longleftrightarrow>
      t = (if pressed = db_candidate_pressed (tc_button c) then db_candidate_since_ms (tc_button c) else now)"
    if "pressed \<or> button_held d samples" for t
  proof (cases "pressed = db_candidate_pressed (tc_button c)")
    case True
    then have "stretch samples pressed t \<longleftrightarrow> t = db_candidate_since_ms (tc_button c)"
      using that inv' unfolding True by blast
    moreover have "samples \<noteq> [] \<and> fst (last samples) = pressed" using that True inv' empty_history(1) by metis
    ultimately show ?thesis using True unfolding stretch_snoc by metis
  next
    case False
    then have "samples = [] \<or> fst (last samples) \<noteq> pressed" using inv' by metis
    then show ?thesis using False stretch_last[of samples pressed t] unfolding stretch_snoc by metis
  qed
  have kept: "stretch ?h pressed t \<longleftrightarrow>
      t = (if pressed = db_candidate_pressed (tc_button c) then db_candidate_since_ms (tc_button c) else now)"
    if "pressed \<or> button_held d ?h" for t
    using that st[of t] unfolding button_held_snoc by blast
  have last: "?h \<noteq> [] \<and> fst (last ?h) = pressed" by simp
  note facts = last kept button_held_snoc[of d samples pressed now] press_began_snoc[of d samples pressed now]
  consider (press) "pressed \<and> \<not> button_held d samples \<and> settled d samples True now"
    | (release) "\<not> pressed \<and> button_held d samples \<and> settled d samples False now"
    | (none) "\<not> (pressed \<and> \<not> button_held d samples \<and> settled d samples True now)"
        "\<not> (\<not> pressed \<and> button_held d samples \<and> settled d samples False now)" by blast
  then show ?thesis
  proof cases
    case press
    then show ?thesis using facts inv' unfolding target_button_sample_step[OF inv refl] if_P[OF press]
      by (auto simp: control_inv_def button_tracked_def Let_def)
  next
    case release
    then have "\<not> (pressed \<and> \<not> button_held d samples \<and> settled d samples True now)" by blast
    then show ?thesis using facts inv' release unfolding target_button_sample_step[OF inv refl]
      by (simp add: control_inv_def button_tracked_def Let_def)
  next
    case none
    have "button_held d ?h = button_held d samples" "press_began d ?h p = press_began d samples p" for p
      using none facts(3) facts(4)[of p] press_began_held[of d samples p] by blast+
    then show ?thesis using last kept inv' none unfolding target_button_sample_step[OF inv refl]
      by (cases pressed) (auto simp: control_inv_def button_tracked_def Let_def)
  qed
qed

lemma control_run_inv:
  "control_inv debounce samples (control_run samples (control_with_timings debounce long very_long)) \<and>
   classify (control_run samples (control_with_timings debounce long very_long)) = classify (control_with_timings debounce long very_long)"
proof (induction samples rule: rev_induct)
  case Nil
  show ?case by (simp add: control_run_def control_with_timings_def control_inv_def debounced_button_new_def empty_history)
next
  case (snoc s samples)
  obtain pressed now where s: "s = (pressed, now)" by (cases s)
  have "control_run (samples @ [s]) c = fst (target_button_sample pressed now (control_run samples c))" for c by (simp add: control_run_def s)
  then show ?case using target_button_sample_inv[of debounce samples "control_run samples (control_with_timings debounce long very_long)" pressed now] snoc
    by (simp add: s)
qed

text \<open>
  C38: A gesture of the target button is exactly a debounced press. Over any history of samples a
  sample reports an intent if and only if it reads released, the button has read released for at
  least the debounce time, and a press is under way that is not over yet: it began at the moment
  \<open>p\<close> at which the button, not held before, had read pressed for at least the debounce time, and no
  sample since has ended it. The intent is the one of the time held since that \<open>p\<close>: removal of
  the bond, pairing, or the next target. So each press reports one intent, at its release, and
  the length of an earlier press has no influence on it.
\<close>

theorem button_gesture_debounced:
  "snd (target_button_sample pressed now (control_run samples (control_with_timings debounce long very_long))) = Some intent \<longleftrightarrow>
   \<not> pressed \<and> settled debounce samples False now \<and>
   (\<exists>p. press_began debounce samples p \<and> intent = (if sat_sub now p \<ge> very_long then ClearActiveHostBond
      else if sat_sub now p \<ge> long then EnterPairingMode else NextConnectedTarget))"
proof -
  let ?c = "control_run samples (control_with_timings debounce long very_long)"
  have inv: "control_inv debounce samples ?c" and cl: "classify ?c = classify (control_with_timings debounce long very_long)"
    using control_run_inv by blast+
  have "classify ?c held = (if held \<ge> very_long then ClearActiveHostBond
       else if held \<ge> long then EnterPairingMode else NextConnectedTarget)" for held
    unfolding cl by (simp add: classify_def control_with_timings_def)
  moreover have "(\<forall>p. press_began debounce samples p \<longleftrightarrow> tc_pressed_since_ms ?c = Some p) \<and>
      (button_held debounce samples \<longleftrightarrow> tc_pressed_since_ms ?c \<noteq> None)"
    using inv unfolding control_inv_def Let_def by auto
  ultimately show ?thesis unfolding target_button_sample_step[OF inv refl] by (auto split: if_splits)
qed

text \<open>A press of nine seconds clears the bond, and the short press after it moves to the next target.\<close>

theorem button_gesture_debounced_witness:
  "snd (target_button_sample False 9200 (control_run [(True, 0), (True, 40), (False, 9100)] target_switch_control_new)) = Some ClearActiveHostBond \<and>
   (\<exists>p. press_began 30 [(True, 0), (True, 40), (False, 9100), (False, 9200), (True, 9300), (True, 9400), (False, 9500)] p \<and>
      sat_sub 9600 p < 3000)"
proof -
  have c: "target_switch_control_new = control_with_timings 30 3000 8000"
    by (simp add: target_switch_control_new_def DEFAULT_DEBOUNCE_MS_def DEFAULT_LONG_PRESS_MS_def DEFAULT_VERY_LONG_PRESS_MS_def)
  have one: "snd (target_button_sample False 9200 (control_run [(True, 0), (True, 40), (False, 9100)] (control_with_timings 30 3000 8000))) =
      Some ClearActiveHostBond"
    by (simp add: control_run_def control_with_timings_def debounced_button_new_def target_button_sample_def button_update_def sat_sub_def Let_def)
  have "snd (target_button_sample False 9600 (control_run
      [(True, 0), (True, 40), (False, 9100), (False, 9200), (True, 9300), (True, 9400), (False, 9500)] (control_with_timings 30 3000 8000))) =
      Some NextConnectedTarget"
    by (simp add: control_run_def control_with_timings_def debounced_button_new_def target_button_sample_def button_update_def sat_sub_def Let_def)
  then show ?thesis using one unfolding c unfolding button_gesture_debounced by (auto split: if_splits)
qed

section \<open>Remote wake-up\<close>

definition REMOTE_WAKEUP_SIGNAL_MS :: u64 where "REMOTE_WAKEUP_SIGNAL_MS = 10"

datatype remote_wakeup_action = AssertSignal | ClearSignal

record remote_wakeup =
  rw_signal_started_ms :: "u64 option"
  rw_attempted_in_suspend :: bool

definition remote_wakeup_new :: remote_wakeup where
  "remote_wakeup_new = \<lparr>rw_signal_started_ms = None, rw_attempted_in_suspend = False\<rparr>"

definition wakeup_on_activity :: "u64 \<Rightarrow> bool \<Rightarrow> bool \<Rightarrow> remote_wakeup \<Rightarrow> remote_wakeup \<times> remote_wakeup_action option" where
  "wakeup_on_activity now suspended host_enabled w =
     (if \<not> suspended \<or> \<not> host_enabled \<or> rw_attempted_in_suspend w \<or> rw_signal_started_ms w \<noteq> None then (w, None)
      else (w\<lparr>rw_attempted_in_suspend := True, rw_signal_started_ms := Some now\<rparr>, Some AssertSignal))"

definition wakeup_poll :: "u64 \<Rightarrow> bool \<Rightarrow> remote_wakeup \<Rightarrow> remote_wakeup \<times> remote_wakeup_action option" where
  "wakeup_poll now suspended w =
     (if (case rw_signal_started_ms w of Some started \<Rightarrow> sat_sub now started \<ge> REMOTE_WAKEUP_SIGNAL_MS | None \<Rightarrow> False)
        then (w\<lparr>rw_signal_started_ms := None\<rparr>, Some ClearSignal)
      else if \<not> suspended \<and> rw_signal_started_ms w = None then (w\<lparr>rw_attempted_in_suspend := False\<rparr>, None)
      else (w, None))"

definition wakeup_signal_asserted :: "remote_wakeup \<Rightarrow> bool" where
  "wakeup_signal_asserted w = (rw_signal_started_ms w \<noteq> None)"

datatype wakeup_op = WActivity u64 bool bool | WPoll u64 bool

fun wakeup_call :: "wakeup_op \<Rightarrow> remote_wakeup \<Rightarrow> remote_wakeup \<times> remote_wakeup_action option" where
  "wakeup_call (WActivity now suspended enabled) w = wakeup_on_activity now suspended enabled w"
| "wakeup_call (WPoll now suspended) w = wakeup_poll now suspended w"

fun wakeup_actions :: "wakeup_op list \<Rightarrow> remote_wakeup \<Rightarrow> remote_wakeup_action list" where
  "wakeup_actions [] w = []"
| "wakeup_actions (x # xs) w = (case wakeup_call x w of (w', r) \<Rightarrow> (case r of None \<Rightarrow> [] | Some a \<Rightarrow> [a]) @ wakeup_actions xs w')"

text \<open>The actions alternate between assertion and clearing.\<close>

fun alternating :: "bool \<Rightarrow> remote_wakeup_action list \<Rightarrow> bool" where
  "alternating on [] = True"
| "alternating on (AssertSignal # as) = (\<not> on \<and> alternating True as)"
| "alternating on (ClearSignal # as) = (on \<and> alternating False as)"

lemma wakeup_call_cases:
  assumes "wakeup_call x w = (w', r)"
  shows "(r = None \<and> wakeup_signal_asserted w' = wakeup_signal_asserted w) \<or>
    (r = Some AssertSignal \<and> \<not> wakeup_signal_asserted w \<and> wakeup_signal_asserted w' \<and> \<not> rw_attempted_in_suspend w \<and> rw_attempted_in_suspend w') \<or>
    (r = Some ClearSignal \<and> wakeup_signal_asserted w \<and> \<not> wakeup_signal_asserted w')"
  using assms by (cases x) (auto simp: wakeup_on_activity_def wakeup_poll_def wakeup_signal_asserted_def split: if_splits option.splits)

lemma wakeup_alternates: "alternating (wakeup_signal_asserted w) (wakeup_actions xs w)"
proof (induction xs arbitrary: w)
  case Nil
  show ?case by simp
next
  case (Cons x xs)
  obtain w' r where c: "wakeup_call x w = (w', r)" by fastforce
  show ?case using wakeup_call_cases[OF c] Cons.IH[of w'] c by auto
qed

fun stays_suspended :: "wakeup_op \<Rightarrow> bool" where
  "stays_suspended (WActivity now suspended enabled) = True"
| "stays_suspended (WPoll now suspended) = suspended"

text \<open>One attempt per suspension, and the signal is asserted and cleared in turn.\<close>

theorem wakeup_once_per_suspend:
  assumes "list_all stays_suspended xs"
  shows "length (filter (\<lambda>a. a = AssertSignal) (wakeup_actions xs w)) \<le> (if rw_attempted_in_suspend w then 0 else 1)"
  using assms
proof (induction xs arbitrary: w)
  case Nil
  show ?case by simp
next
  case (Cons x xs)
  obtain w' r where c: "wakeup_call x w = (w', r)" by fastforce
  have "rw_attempted_in_suspend w \<longrightarrow> rw_attempted_in_suspend w'"
    using c Cons.prems by (cases x) (auto simp: wakeup_on_activity_def wakeup_poll_def split: if_splits)
  then show ?case using wakeup_call_cases[OF c] Cons.IH[of w'] Cons.prems c by (auto split: if_splits)
qed

end
