(* ===== verification/HS_Fallback.thy ===== *)
theory HS_Fallback
  imports HS_MirrorPlan HS_Management
begin

text \<open>
  The wired device that the second chip presents when it has no mirrored profile
  (\<open>fallback.rs\<close>): its constant descriptors and the image built from them. The image is
  serialised into any buffer that is long enough, and the validator accepts it with the four
  interfaces and six endpoints of the descriptor.
\<close>

unbundle bit_operations_syntax

definition MANAGEMENT_HID_REQUEST_REPORT_ID :: u8 where "MANAGEMENT_HID_REQUEST_REPORT_ID = 0x10"
definition MANAGEMENT_HID_RESPONSE_REPORT_ID :: u8 where "MANAGEMENT_HID_RESPONSE_REPORT_ID = 0x11"
definition MANAGEMENT_HID_EVENT_REPORT_ID :: u8 where "MANAGEMENT_HID_EVENT_REPORT_ID = 0x12"

definition FALLBACK_USB_VENDOR_ID :: u16 where "FALLBACK_USB_VENDOR_ID = 0xCAFE"
definition FALLBACK_USB_PRODUCT_ID :: u16 where "FALLBACK_USB_PRODUCT_ID = 0x4853"
definition FALLBACK_USB_DEVICE_RELEASE :: u16 where "FALLBACK_USB_DEVICE_RELEASE = 0x0003"

definition FALLBACK_DEVICE_DESCRIPTOR :: bytes where
  "FALLBACK_DEVICE_DESCRIPTOR =
   [18, 0x01, 0x00, 0x02, 0, 0, 0, 64, ucast FALLBACK_USB_VENDOR_ID, ucast (drop_bit 8 FALLBACK_USB_VENDOR_ID),
    ucast FALLBACK_USB_PRODUCT_ID, ucast (drop_bit 8 FALLBACK_USB_PRODUCT_ID), ucast FALLBACK_USB_DEVICE_RELEASE, ucast (drop_bit 8 FALLBACK_USB_DEVICE_RELEASE), 1, 2, 0, 1]"

definition FALLBACK_CONFIGURATION_DESCRIPTOR :: bytes where
  "FALLBACK_CONFIGURATION_DESCRIPTOR =
   [9, 0x02, 123, 0, 4, 1, 0, 0xa0, 50, 9, 0x04, 0, 0, 2, 0x03, 0x01, 0x01, 0, 9, 0x21, 0x11, 0x01, 0, 1, 0x22, 65, 0, 7,
    0x05, 0x81, 0x03, 8, 0, 1, 7, 0x05, 0x01, 0x03, 1, 0, 1, 9, 0x04, 1, 0, 1, 0x03, 0x01, 0x02, 0, 9, 0x21, 0x11, 0x01, 0, 1,
    0x22, 67, 0, 7, 0x05, 0x82, 0x03, 7, 0, 1, 9, 0x04, 2, 0, 1, 0x03, 0, 0, 0, 9, 0x21, 0x11, 0x01, 0, 1, 0x22, 23, 0,
    7, 0x05, 0x83, 0x03, 2, 0, 1, 9, 0x04, 3, 0, 2, 0x03, 0, 0, 0, 9, 0x21, 0x11, 0x01, 0, 1, 0x22, 39, 0, 7, 0x05, 0x84,
    0x03, 64, 0, 1, 7, 0x05, 0x04, 0x03, 64, 0, 1]"

definition LANGUAGES_STRING_DESCRIPTOR :: bytes where
  "LANGUAGES_STRING_DESCRIPTOR =
   [4, 0x03, 0x09, 0x04]"

text \<open>ASCII text as UTF-16 code units, low byte first.\<close>

definition wide :: "string \<Rightarrow> bytes" where
  "wide s = concat (map (\<lambda>c. [of_char c, 0]) s)"

definition MANUFACTURER_STRING_DESCRIPTOR :: bytes where
  "MANUFACTURER_STRING_DESCRIPTOR = [18, 0x03] @ wide ''HIDShift''"

definition PRODUCT_STRING_DESCRIPTOR :: bytes where
  "PRODUCT_STRING_DESCRIPTOR = [30, 0x03] @ wide ''HIDShift Wired''"

definition KEYBOARD_REPORT_DESCRIPTOR :: bytes where
  "KEYBOARD_REPORT_DESCRIPTOR =
   [0x05, 0x01, 0x09, 0x06, 0xa1, 0x01, 0x05, 0x07, 0x19, 0xe0, 0x29, 0xe7, 0x15, 0x00, 0x25, 0x01, 0x75, 0x01, 0x95, 0x08, 0x81, 0x02,
    0x95, 0x01, 0x75, 0x08, 0x81, 0x01, 0x95, 0x05, 0x75, 0x01, 0x05, 0x08, 0x19, 0x01, 0x29, 0x05, 0x91, 0x02, 0x95, 0x01, 0x75, 0x03,
    0x91, 0x01, 0x95, 0x06, 0x75, 0x08, 0x15, 0x00, 0x26, 0xff, 0x00, 0x05, 0x07, 0x19, 0x00, 0x2a, 0xff, 0x00, 0x81, 0x00, 0xc0]"

definition MOUSE_REPORT_DESCRIPTOR :: bytes where
  "MOUSE_REPORT_DESCRIPTOR =
   [0x05, 0x01, 0x09, 0x02, 0xa1, 0x01, 0x09, 0x01, 0xa1, 0x00, 0x05, 0x09, 0x19, 0x01, 0x29, 0x08, 0x15, 0x00, 0x25, 0x01, 0x95, 0x08,
    0x75, 0x01, 0x81, 0x02, 0x05, 0x01, 0x09, 0x30, 0x09, 0x31, 0x16, 0x00, 0x80, 0x26, 0xff, 0x7f, 0x75, 0x10, 0x95, 0x02, 0x81, 0x06,
    0x09, 0x38, 0x15, 0x81, 0x25, 0x7f, 0x75, 0x08, 0x95, 0x01, 0x81, 0x06, 0x05, 0x0c, 0x0a, 0x38, 0x02, 0x95, 0x01, 0x81, 0x06, 0xc0,
    0xc0]"

definition CONSUMER_REPORT_DESCRIPTOR :: bytes where
  "CONSUMER_REPORT_DESCRIPTOR =
   [0x05, 0x0c, 0x09, 0x01, 0xa1, 0x01, 0x15, 0x00, 0x26, 0xff, 0x03, 0x19, 0x00, 0x2a, 0xff, 0x03, 0x75, 0x10, 0x95, 0x01, 0x81, 0x00,
    0xc0]"

definition MANAGEMENT_REPORT_DESCRIPTOR :: bytes where
  "MANAGEMENT_REPORT_DESCRIPTOR =
   [0x06, 0x60, 0xff, 0x09, 0x61, 0xa1, 0x01, 0x15, 0x00, 0x26, 0xff, 0x00, 0x75, 0x08,
    0x85, MANAGEMENT_HID_REQUEST_REPORT_ID, 0x09, 0x62, 0x95, of_nat MANAGEMENT_REQUEST_LEN, 0x91, 0x02, 0x85, MANAGEMENT_HID_RESPONSE_REPORT_ID, 0x09, 0x63, 0x95, of_nat MANAGEMENT_RESPONSE_LEN,
    0x81, 0x02, 0x85, MANAGEMENT_HID_EVENT_REPORT_ID, 0x09, 0x64, 0x95, of_nat MANAGEMENT_EVENT_LEN, 0x81, 0x02, 0xc0]"

definition fallback_source :: mirror_image_source where
  "fallback_source = \<lparr>ms_flags = 0, ms_device_descriptor = FALLBACK_DEVICE_DESCRIPTOR, ms_configuration_descriptor = FALLBACK_CONFIGURATION_DESCRIPTOR,
     ms_bos_descriptor = [],
     ms_strings = [\<lparr>sr_index = 0, sr_lang_id = 0, sr_descriptor = LANGUAGES_STRING_DESCRIPTOR\<rparr>,
                   \<lparr>sr_index = 1, sr_lang_id = 0x0409, sr_descriptor = MANUFACTURER_STRING_DESCRIPTOR\<rparr>,
                   \<lparr>sr_index = 2, sr_lang_id = 0x0409, sr_descriptor = PRODUCT_STRING_DESCRIPTOR\<rparr>],
     ms_hid_reports = [\<lparr>hr_interface_number = 0, hr_descriptor = KEYBOARD_REPORT_DESCRIPTOR\<rparr>,
                       \<lparr>hr_interface_number = 1, hr_descriptor = MOUSE_REPORT_DESCRIPTOR\<rparr>,
                       \<lparr>hr_interface_number = 2, hr_descriptor = CONSUMER_REPORT_DESCRIPTOR\<rparr>,
                       \<lparr>hr_interface_number = 3, hr_descriptor = MANAGEMENT_REPORT_DESCRIPTOR\<rparr>]\<rparr>"

definition build_fallback_mirror_image :: "bytes \<Rightarrow> (bytes, mirror_image_encode_error, nat) outcome" where
  "build_fallback_mirror_image out = serialize_mirror_image fallback_source out"

section \<open>The image is accepted\<close>

definition fallback_reports :: "(u8 \<times> bytes) list" where
  "fallback_reports = [(0, KEYBOARD_REPORT_DESCRIPTOR), (1, MOUSE_REPORT_DESCRIPTOR), (2, CONSUMER_REPORT_DESCRIPTOR), (3, MANAGEMENT_REPORT_DESCRIPTOR)]"

lemma fallback_lengths:
  "length FALLBACK_DEVICE_DESCRIPTOR = 18" "length FALLBACK_CONFIGURATION_DESCRIPTOR = 123" "length LANGUAGES_STRING_DESCRIPTOR = 4"
  "length MANUFACTURER_STRING_DESCRIPTOR = 18" "length PRODUCT_STRING_DESCRIPTOR = 30" "length KEYBOARD_REPORT_DESCRIPTOR = 65"
  "length MOUSE_REPORT_DESCRIPTOR = 67" "length CONSUMER_REPORT_DESCRIPTOR = 23" "length MANAGEMENT_REPORT_DESCRIPTOR = 39"
  by (simp_all add: FALLBACK_DEVICE_DESCRIPTOR_def FALLBACK_CONFIGURATION_DESCRIPTOR_def LANGUAGES_STRING_DESCRIPTOR_def wide_def
      MANUFACTURER_STRING_DESCRIPTOR_def PRODUCT_STRING_DESCRIPTOR_def KEYBOARD_REPORT_DESCRIPTOR_def MOUSE_REPORT_DESCRIPTOR_def
      CONSUMER_REPORT_DESCRIPTOR_def MANAGEMENT_REPORT_DESCRIPTOR_def)

lemma fallback_source_ok: "source_ok fallback_source" "HSMI_HEADER_LEN + length (source_body fallback_source) = 446"
  by (simp_all add: source_ok_def source_body_def fallback_source_def string_image_def report_image_def hsmi_sizes fallback_lengths)

lemma fallback_loop:
  "\<exists>st. config_loop fallback_reports FALLBACK_CONFIGURATION_DESCRIPTOR 9 config_new = Inr st \<and>
     (\<exists>interfaces. finish_interface fallback_reports (cf_current st) (cf_interfaces st) = Inr interfaces \<and>
        map hp_interface_number interfaces = [0, 1, 2, 3]) \<and> map ep_address (cf_endpoints st) = [0x81, 0x01, 0x82, 0x83, 0x84, 0x04]"
proof -
  have "(case config_loop fallback_reports FALLBACK_CONFIGURATION_DESCRIPTOR 9 config_new of
      Inl e \<Rightarrow> False
    | Inr st \<Rightarrow> (case finish_interface fallback_reports (cf_current st) (cf_interfaces st) of
         Inl e \<Rightarrow> False | Inr interfaces \<Rightarrow> map hp_interface_number interfaces = [0, 1, 2, 3]) \<and> map ep_address (cf_endpoints st) = [0x81, 0x01, 0x82, 0x83, 0x84, 0x04])"
    by code_simp
  then show ?thesis by (auto split: sum.splits)
qed

lemma fallback_checks:
  "FALLBACK_DEVICE_DESCRIPTOR ! 0 = 18" "FALLBACK_DEVICE_DESCRIPTOR ! 1 = 1" "FALLBACK_DEVICE_DESCRIPTOR ! 17 = 1" "FALLBACK_DEVICE_DESCRIPTOR ! 7 = 64"
  "from_le [FALLBACK_DEVICE_DESCRIPTOR ! 2, FALLBACK_DEVICE_DESCRIPTOR ! 3] = (0x200 :: u16)"
  "FALLBACK_CONFIGURATION_DESCRIPTOR ! 0 = 9" "FALLBACK_CONFIGURATION_DESCRIPTOR ! 1 = 2"
  "unat (from_le [FALLBACK_CONFIGURATION_DESCRIPTOR ! 2, FALLBACK_CONFIGURATION_DESCRIPTOR ! 3] :: u16) = 123"
  "FALLBACK_CONFIGURATION_DESCRIPTOR ! 4 = 4" "FALLBACK_CONFIGURATION_DESCRIPTOR ! 5 = 1" "FALLBACK_CONFIGURATION_DESCRIPTOR ! 7 AND 0x9f = 0x80"
  by code_simp+

lemma fallback_accepted:
  "\<exists>plan. validate_mirror_image (image_bytes fallback_source (image_checksum fallback_source)) = Inr plan \<and>
     map hp_interface_number (up_interfaces plan) = [0, 1, 2, 3] \<and> map ep_address (up_endpoints plan) = [0x81, 0x01, 0x82, 0x83, 0x84, 0x04]"
proof -
  let ?im = "image_of_source fallback_source"
  have p: "parse_mirror_image (image_bytes fallback_source (image_checksum fallback_source)) = Inr ?im" using parse_image[OF fallback_source_ok(1)] by simp
  have i: "image_strings ?im = ms_strings fallback_source" "image_hid_reports ?im = ms_hid_reports fallback_source"
    using image_source_of[OF fallback_source_ok(1)] by (metis image_source_def mirror_image_source.select_convs)+
  have d: "mi_device_descriptor ?im = FALLBACK_DEVICE_DESCRIPTOR" "mi_configuration_descriptor ?im = FALLBACK_CONFIGURATION_DESCRIPTOR" "mi_bos_descriptor ?im = []"
    by (simp_all add: image_of_source_def fallback_source_def)
  have "validate_string_list (ms_strings fallback_source) (ms_strings fallback_source) = Inr ()" by code_simp
  then have s: "validate_strings ?im = Inr ()" by (simp add: validate_strings_def i)
  have "KEYBOARD_REPORT_DESCRIPTOR \<noteq> []" "MOUSE_REPORT_DESCRIPTOR \<noteq> []" "CONSUMER_REPORT_DESCRIPTOR \<noteq> []" "MANAGEMENT_REPORT_DESCRIPTOR \<noteq> []"
    using fallback_lengths by force+
  then have r: "collect_reports ?im = Inr fallback_reports"
    unfolding collect_reports_def i by (simp add: fallback_source_def fallback_reports_def vec_push_def MIRROR_HID_INTERFACES_MAX_def)
  obtain st interfaces where l: "config_loop fallback_reports FALLBACK_CONFIGURATION_DESCRIPTOR 9 config_new = Inr st"
    "finish_interface fallback_reports (cf_current st) (cf_interfaces st) = Inr interfaces"
    "map hp_interface_number interfaces = [0, 1, 2, 3]" "map ep_address (cf_endpoints st) = [0x81, 0x01, 0x82, 0x83, 0x84, 0x04]"
    using fallback_loop that by (elim exE conjE)
  have n: "length interfaces = 4" "interfaces \<noteq> []" using arg_cong[OF l(3), of length] by auto
  have "length fallback_reports = 4" by (simp add: fallback_reports_def)
  then have "\<exists>plan. validate_configuration ?im FALLBACK_DEVICE_DESCRIPTOR fallback_reports = Inr plan \<and> up_interfaces plan = interfaces \<and> up_endpoints plan = cf_endpoints st"
    using fallback_checks(6-11) fallback_lengths(2) l(1,2) n by (simp add: validate_configuration_def Let_def d)
  then show ?thesis using p s r l(3,4) fallback_checks(1-5) fallback_lengths(1)
    by (auto simp: validate_mirror_image_def validate_parsed_image_def Let_def d validate_bos_def simp del: from_le.simps)
qed

text \<open>
  C39: The fallback device can always be presented. Building its image succeeds exactly if the
  buffer holds its 446 bytes and otherwise leaves the buffer alone; the image is accepted by
  the validator that checks mirrored devices, with the keyboard, mouse, consumer and management
  interfaces and their six endpoints.
\<close>

theorem fallback_image_accepted:
  "(case build_fallback_mirror_image out of
      (out', Inr n) \<Rightarrow> n = 446 \<and> 446 \<le> length out \<and> length out' = length out \<and> drop n out' = drop n out \<and>
        (\<exists>plan. validate_mirror_image (take n out') = Inr plan \<and> map hp_interface_number (up_interfaces plan) = [0, 1, 2, 3] \<and>
           map ep_address (up_endpoints plan) = [0x81, 0x01, 0x82, 0x83, 0x84, 0x04])
    | (out', Inl e) \<Rightarrow> e = EncOutputTooSmall \<and> length out < 446 \<and> out' = out)"
proof (cases "446 \<le> length out")
  case True
  then have "HSMI_HEADER_LEN + length (source_body fallback_source) \<le> length out" by (simp only: fallback_source_ok(2))
  note b = serialize_ok[OF fallback_source_ok(1) this, unfolded fallback_source_ok(2)]
  have "length (image_bytes fallback_source (image_checksum fallback_source)) = 446" by (simp add: fallback_source_ok(2))
  then show ?thesis using b True fallback_accepted by (simp add: build_fallback_mirror_image_def)
next
  case False
  have "source_length fallback_source = Inr 446"
    using source_length_cases[of fallback_source] fallback_source_ok(2) by (auto simp: USIZE_MAX_def)
  then show ?thesis using False by (simp add: build_fallback_mirror_image_def serialize_mirror_image_def HSMI_MAX_SIZE_def)
qed

end
