(* ===== verification/HS_BleConnection.thy ===== *)
theory HS_BleConnection
  imports HS_Runs HS_Slots HS_StorageCodec
begin

text \<open>
  The Bluetooth connection policy (\<open>ble_connection.rs\<close>): the input gate, advertising and timing
  rules, revoked bonds, the back-off for failed pairings and the table of connection slots. The
  slots never hold one computer twice, and a computer that keeps failing to pair is locked out for
  growing times.
\<close>

section \<open>Input gate and advertising\<close>

definition ble_host_index :: "nat \<Rightarrow> host_id \<Rightarrow> nat option" where
  "ble_host_index hosts h =
     (case host_id_validated h of
        Inl e \<Rightarrow> None
      | Inr v \<Rightarrow> (case checked_sub v 1 of None \<Rightarrow> None | Some i \<Rightarrow> if unat i < hosts then Some (unat i) else None))"

text \<open>The gate is an array with one flag per host.\<close>

type_synonym ble_input_gate = "bool list"

definition input_gate_new :: "nat \<Rightarrow> ble_input_gate" where "input_gate_new hosts = replicate hosts False"

definition gate_block :: "host_id \<Rightarrow> ble_input_gate \<Rightarrow> ble_input_gate" where
  "gate_block h g = (case ble_host_index (length g) h of Some i \<Rightarrow> g[i := True] | None \<Rightarrow> g)"

definition gate_activate :: "host_id \<Rightarrow> ble_input_gate \<Rightarrow> ble_input_gate" where
  "gate_activate h g = (case ble_host_index (length g) h of Some i \<Rightarrow> g[i := False] | None \<Rightarrow> g)"

definition should_drop_input :: "host_id \<Rightarrow> ble_input_gate \<Rightarrow> bool" where
  "should_drop_input h g = (case ble_host_index (length g) h of Some i \<Rightarrow> g ! i | None \<Rightarrow> True)"

definition restrict_advertising_to_bonded_peers :: "nat \<Rightarrow> bool \<Rightarrow> bool" where
  "restrict_advertising_to_bonded_peers bonded_peer_count pairing_open = (bonded_peer_count \<noteq> 0 \<and> \<not> pairing_open)"

lemma ble_host_index_bound: "ble_host_index hosts h = Some i \<Longrightarrow> i < hosts \<and> unat h = Suc i"
proof -
  assume a: "ble_host_index hosts h = Some i"
  then have v: "1 \<le> h" "h \<le> 4" by (auto simp: ble_host_index_def host_id_validated_simps split: if_splits)
  then have "unat (h - 1) = unat h - 1" "1 \<le> unat h" by (simp_all add: unat_sub word_le_nat_alt)
  then show ?thesis using a v by (auto simp: ble_host_index_def host_id_validated_simps checked_sub_def split: if_splits)
qed

lemma ble_host_index_inj: "ble_host_index n h = Some i \<Longrightarrow> ble_host_index n h' = Some i \<Longrightarrow> h = h'"
  using ble_host_index_bound[of n h i] ble_host_index_bound[of n h' i] by (simp add: word_unat_eq_iff)

text \<open>Blocking and activating act on one host only.\<close>

lemma gate_laws:
  "should_drop_input h (gate_block h g)" "should_drop_input h (gate_activate h g) \<longleftrightarrow> ble_host_index (length g) h = None"
  "h \<noteq> h' \<Longrightarrow> should_drop_input h' (gate_block h g) = should_drop_input h' g"
  "h \<noteq> h' \<Longrightarrow> should_drop_input h' (gate_activate h g) = should_drop_input h' g"
  using ble_host_index_inj[of "length g" h _ h'] ble_host_index_bound[of "length g"]
  by (auto simp: should_drop_input_def gate_block_def gate_activate_def nth_list_update split: option.splits)

section \<open>Connection timing\<close>

record ble_connection_timing =
  bt_interval_min_us :: u32
  bt_interval_max_us :: u32
  bt_peripheral_latency :: u16
  bt_supervision_timeout_ms :: u32

record ble_connection_parameters =
  bp_interval_us :: u32
  bp_peripheral_latency :: u16
  bp_supervision_timeout_ms :: u32

definition low_latency_ble_connection_timing :: ble_connection_timing where
  "low_latency_ble_connection_timing = \<lparr>bt_interval_min_us = 7500, bt_interval_max_us = 7500, bt_peripheral_latency = 19, bt_supervision_timeout_ms = 4000\<rparr>"

definition connection_timing_update_required :: "ble_connection_parameters \<Rightarrow> ble_connection_timing \<Rightarrow> bool" where
  "connection_timing_update_required current desired =
     (let timeout_us = ucast (bp_supervision_timeout_ms current) * 1000 :: u64;
          minimum_timeout_us = 2 * (ucast (bp_peripheral_latency current) + 1) * ucast (bp_interval_us current) :: u64 in
      bp_interval_us current < bt_interval_min_us desired \<or> bp_interval_us current > bt_interval_max_us desired \<or>
      bp_peripheral_latency current > bt_peripheral_latency desired \<or> timeout_us \<le> minimum_timeout_us)"

text \<open>Neither product can wrap around in 64 bits, so the comparison is the one of the mathematical values.\<close>

theorem timing_products_exact:
  "unat (ucast (bp_supervision_timeout_ms c) * 1000 :: u64) = unat (bp_supervision_timeout_ms c) * 1000"
  "unat (2 * (ucast (bp_peripheral_latency c) + 1) * ucast (bp_interval_us c) :: u64) = 2 * (unat (bp_peripheral_latency c) + 1) * unat (bp_interval_us c)"
proof -
  have i: "unat (bp_interval_us c) < 2 ^ 32" "unat (bp_supervision_timeout_ms c) < 2 ^ 32" "unat (bp_peripheral_latency c) < 2 ^ 16"
    using unsigned_less[of "bp_interval_us c"] unsigned_less[of "bp_supervision_timeout_ms c"] unsigned_less[of "bp_peripheral_latency c"] by simp_all
  show "unat (ucast (bp_supervision_timeout_ms c) * 1000 :: u64) = unat (bp_supervision_timeout_ms c) * 1000"
    using i(2) by (simp add: unat_word_ariths unat_ucast_up)
  have l: "unat (2 * (ucast (bp_peripheral_latency c) + 1) :: u64) = 2 * (unat (bp_peripheral_latency c) + 1)"
    using i(3) by (simp add: unat_word_ariths unat_ucast_up)
  have "2 * (unat (bp_peripheral_latency c) + 1) * unat (bp_interval_us c) \<le> 2 * (2 ^ 16) * 2 ^ 32"
    using i by (intro mult_le_mono) simp_all
  then show "unat (2 * (ucast (bp_peripheral_latency c) + 1) * ucast (bp_interval_us c) :: u64) = 2 * (unat (bp_peripheral_latency c) + 1) * unat (bp_interval_us c)"
    unfolding unat_word_ariths(2)[of "2 * _"] l by (simp add: unat_ucast_up)
qed

section \<open>Peers and revoked bonds\<close>

record ble_peer_identity =
  pe_peer_address :: bytes
  pe_peer_irk :: "bytes option"

definition matches_bond :: "ble_peer_identity \<Rightarrow> stored_bond \<Rightarrow> bool" where
  "matches_bond p bond =
     (case (pe_peer_irk p, sb_peer_irk bond) of
        (Some irk, Some bond_irk) \<Rightarrow> irk = bond_irk \<or> pe_peer_address p = sb_peer_address bond
      | _ \<Rightarrow> pe_peer_address p = sb_peer_address bond)"

definition matches_peer :: "ble_peer_identity \<Rightarrow> ble_peer_identity \<Rightarrow> bool" where
  "matches_peer p q =
     (case (pe_peer_irk p, pe_peer_irk q) of
        (Some irk, Some other_irk) \<Rightarrow> irk = other_irk \<or> pe_peer_address p = pe_peer_address q
      | _ \<Rightarrow> pe_peer_address p = pe_peer_address q)"

lemma matches_peer_refl [simp]: "matches_peer p p"
  by (simp add: matches_peer_def split: option.split)

lemma matches_peer_sym: "matches_peer p q \<Longrightarrow> matches_peer q p"
  by (auto simp: matches_peer_def split: option.splits)

type_synonym ble_bond_revocations = "stored_bond option list"

definition bond_revocations_new :: "nat \<Rightarrow> ble_bond_revocations" where "bond_revocations_new hosts = replicate hosts None"

definition revoke :: "host_id \<Rightarrow> stored_bond option \<Rightarrow> ble_bond_revocations \<Rightarrow> ble_bond_revocations" where
  "revoke h bond r = (case ble_host_index (length r) h of Some i \<Rightarrow> r[i := bond] | None \<Rightarrow> r)"

definition revocations_block :: "ble_peer_identity \<Rightarrow> ble_bond_revocations \<Rightarrow> bool" where
  "revocations_block p r = list_ex (matches_bond p) (flatten r)"

definition revocations_contain :: "host_id \<Rightarrow> ble_bond_revocations \<Rightarrow> bool" where
  "revocations_contain h r = (case ble_host_index (length r) h of Some i \<Rightarrow> r ! i \<noteq> None | None \<Rightarrow> False)"

definition revocations_clear :: "host_id \<Rightarrow> ble_bond_revocations \<Rightarrow> ble_bond_revocations" where
  "revocations_clear h r = (case ble_host_index (length r) h of Some i \<Rightarrow> r[i := None] | None \<Rightarrow> r)"

lemma revoked_peer_blocked:
  assumes "ble_host_index (length r) h = Some i" "matches_bond p bond"
  shows "revocations_block p (revoke h (Some bond) r)" "revocations_contain h (revoke h (Some bond) r)"
  using assms ble_host_index_bound[OF assms(1)]
  by (auto simp: revocations_block_def revocations_contain_def revoke_def list_ex_iff set_update_memI)

section \<open>Pairing back-off\<close>

definition BLE_PAIRING_BACKOFF_STEPS_MS :: "u64 list" where
  "BLE_PAIRING_BACKOFF_STEPS_MS = [2000, 5000, 15000, 30000]"

record backoff_entry =
  pb_peer :: ble_peer_identity
  pb_failure_count :: u8
  pb_blocked_until_ms :: u64

type_synonym ble_pairing_backoff = "backoff_entry option list"

definition pairing_backoff_new :: "nat \<Rightarrow> ble_pairing_backoff" where "pairing_backoff_new cap = replicate cap None"

definition backoff_for_failure_count :: "u8 \<Rightarrow> u64" where
  "backoff_for_failure_count failure_count =
     (let index = unat (sat_sub failure_count 1);
          index = (if index \<ge> length BLE_PAIRING_BACKOFF_STEPS_MS then length BLE_PAIRING_BACKOFF_STEPS_MS - 1 else index) in
      BLE_PAIRING_BACKOFF_STEPS_MS ! index)"

definition blocked_remaining_ms :: "ble_peer_identity \<Rightarrow> u64 \<Rightarrow> ble_pairing_backoff \<Rightarrow> u64 option" where
  "blocked_remaining_ms p now b =
     map_option (\<lambda>e. pb_blocked_until_ms e - now) (find (\<lambda>e. matches_peer (pb_peer e) p \<and> pb_blocked_until_ms e > now) (flatten b))"

definition entry_until :: "backoff_entry option \<Rightarrow> u64" where
  "entry_until e = (case e of Some x \<Rightarrow> pb_blocked_until_ms x | None \<Rightarrow> - 1)"

text \<open>\<open>enumerate().min_by_key(..)\<close>: the first position of the least value.\<close>

definition first_min :: "u64 list \<Rightarrow> nat option" where
  "first_min vs = (if vs = [] then None else position (\<lambda>v. v = fold min vs (hd vs)) vs)"

definition backoff_replacement :: "u64 \<Rightarrow> ble_pairing_backoff \<Rightarrow> nat option" where
  "backoff_replacement now b =
     (case position (\<lambda>e. e = None) b of
        Some i \<Rightarrow> Some i
      | None \<Rightarrow>
          (case position (\<lambda>e. case e of Some x \<Rightarrow> pb_blocked_until_ms x \<le> now | None \<Rightarrow> False) b of
             Some i \<Rightarrow> Some i
           | None \<Rightarrow> first_min (map entry_until b)))"

definition backoff_record_failure :: "ble_peer_identity \<Rightarrow> u64 \<Rightarrow> ble_pairing_backoff \<Rightarrow> ble_pairing_backoff \<times> u64" where
  "backoff_record_failure p now b =
     (case position (\<lambda>e. case e of Some x \<Rightarrow> matches_peer (pb_peer x) p | None \<Rightarrow> False) b of
        Some i \<Rightarrow>
          (let entry = the (b ! i);
               count = sat_add (pb_failure_count entry) 1;
               backoff = backoff_for_failure_count count in
           (b[i := Some (entry\<lparr>pb_failure_count := count, pb_blocked_until_ms := sat_add now backoff\<rparr>)], backoff))
      | None \<Rightarrow>
          (case backoff_replacement now b of
             None \<Rightarrow> (b, 0)
           | Some i \<Rightarrow>
               (let backoff = BLE_PAIRING_BACKOFF_STEPS_MS ! 0 in
                (b[i := Some \<lparr>pb_peer = p, pb_failure_count = 1, pb_blocked_until_ms = sat_add now backoff\<rparr>], backoff))))"

definition backoff_clear_peer :: "ble_peer_identity \<Rightarrow> ble_pairing_backoff \<Rightarrow> ble_pairing_backoff" where
  "backoff_clear_peer p b = map (\<lambda>e. case e of Some x \<Rightarrow> if matches_peer (pb_peer x) p then None else e | None \<Rightarrow> e) b"

definition backoff_clear :: "ble_pairing_backoff \<Rightarrow> ble_pairing_backoff" where
  "backoff_clear b = replicate (length b) None"

subsection \<open>Failures lock a peer out for growing times\<close>

definition peer_slot :: "ble_peer_identity \<Rightarrow> ble_pairing_backoff \<Rightarrow> nat option" where
  "peer_slot p b = position (\<lambda>e. case e of Some x \<Rightarrow> matches_peer (pb_peer x) p | None \<Rightarrow> False) b"

lemma peer_slot_SomeD:
  "peer_slot p b = Some i \<Longrightarrow> i < length b \<and> (\<exists>e. b ! i = Some e \<and> matches_peer (pb_peer e) p)"
  using position_SomeD[of _ b i] by (force simp: peer_slot_def split: option.splits)

lemma position_update:
  assumes "i < length xs" "q y" "position q xs = Some i \<or> position q xs = None"
  shows "position q (xs[i := y]) = Some i"
proof -
  have "\<not> q (xs ! j)" if "j < i" for j
    using assms(1,3) that by (auto simp: position_Some_iff position_None_iff)
  then show ?thesis using assms(1,2) by (auto simp: position_Some_iff nth_list_update)
qed

lemma peer_slot_update:
  "i < length b \<Longrightarrow> matches_peer (pb_peer e) p \<Longrightarrow> peer_slot p b = Some i \<or> peer_slot p b = None \<Longrightarrow> peer_slot p (b[i := Some e]) = Some i"
  unfolding peer_slot_def by (rule position_update) simp_all

lemma u8_of_unat: "unat c = m \<Longrightarrow> (c :: u8) = of_nat m"
  by auto

lemma fold_min_mem: "fold min xs y \<in> insert y (set (xs :: u64 list))"
  by (induction xs arbitrary: y) (auto simp: min_def split: if_splits)

lemma first_min_Some: "vs \<noteq> [] \<Longrightarrow> \<exists>i<length vs. first_min vs = Some i"
proof -
  assume ne: "vs \<noteq> []"
  then have "fold min vs (hd vs) \<in> set vs" using fold_min_mem[of vs "hd vs"] by (cases vs) auto
  then have "position (\<lambda>v. v = fold min vs (hd vs)) vs \<noteq> None" by (auto simp: position_None_iff)
  then show ?thesis using ne position_SomeD by (fastforce simp: first_min_def)
qed

lemma backoff_replacement_Some: "b \<noteq> [] \<Longrightarrow> \<exists>i<length b. backoff_replacement now b = Some i"
proof -
  assume "b \<noteq> []"
  then obtain i where "i < length b" "first_min (map entry_until b) = Some i" using first_min_Some[of "map entry_until b"] by auto
  then show ?thesis by (auto simp: backoff_replacement_def dest: position_SomeD split: option.split)
qed

lemma fold_min_le: "fold min xs y \<le> (y :: u64) \<and> (\<forall>x\<in>set xs. fold min xs y \<le> x)"
proof (induction xs arbitrary: y)
  case (Cons a xs)
  note ih = Cons.IH[of "min a y"]
  have "fold min xs (min a y) \<le> a" "fold min xs (min a y) \<le> y"
    using order_trans[OF conjunct1[OF ih] min.cobounded1] order_trans[OF conjunct1[OF ih] min.cobounded2] by auto
  then show ?case using ih by simp
qed simp

lemma first_min_least: "first_min vs = Some i \<Longrightarrow> i < length vs \<and> (\<forall>v\<in>set vs. vs ! i \<le> v)"
  using fold_min_le[of vs "hd vs"] by (auto simp: first_min_def dest: position_SomeD split: if_splits)

lemma backoff_step: "backoff_for_failure_count (of_nat (min (Suc n) 255)) = BLE_PAIRING_BACKOFF_STEPS_MS ! min n 3"
proof -
  have "unat (of_nat (min (Suc n) 255) :: u8) = min (Suc n) 255" by (intro unat_of_nat_small) simp
  then have "unat (sat_sub (of_nat (min (Suc n) 255)) (1 :: u8)) = min n 254" by (simp add: unat_sat_sub)
  then show ?thesis by (auto simp: backoff_for_failure_count_def Let_def BLE_PAIRING_BACKOFF_STEPS_MS_def min_def)
qed

text \<open>
  One device may show several identities (its address rotates while its key stays), and the test for
  a match is not transitive. The statements below are about a device given by the set of its
  identities, among the identities that occur: two of them match, and none matches another one.
\<close>

datatype backoff_op = BoFail ble_peer_identity u64 | BoClearPeer ble_peer_identity | BoClear

fun pairing_backoff_step :: "backoff_op \<Rightarrow> ble_pairing_backoff \<Rightarrow> ble_pairing_backoff" where
  "pairing_backoff_step (BoFail q t) b = fst (backoff_record_failure q t b)"
| "pairing_backoff_step (BoClearPeer q) b = backoff_clear_peer q b"
| "pairing_backoff_step BoClear b = backoff_clear b"

fun backoff_peers :: "backoff_op \<Rightarrow> ble_peer_identity list" where
  "backoff_peers (BoFail q t) = [q]"
| "backoff_peers (BoClearPeer q) = [q]"
| "backoff_peers BoClear = []"

definition one_device :: "(ble_peer_identity \<Rightarrow> bool) \<Rightarrow> ble_peer_identity list \<Rightarrow> bool" where
  "one_device mine ps = list_all (\<lambda>x. list_all (\<lambda>y. mine x \<longrightarrow> (matches_peer x y \<longleftrightarrow> mine y)) ps) ps"

text \<open>What the table knows of a device: its number of failures and the end of its block.\<close>

definition standing :: "(ble_peer_identity \<Rightarrow> bool) \<Rightarrow> ble_pairing_backoff \<Rightarrow> (nat \<times> u64) option" where
  "standing mine b = map_option (\<lambda>e. (unat (pb_failure_count e), pb_blocked_until_ms e)) (find (\<lambda>e. mine (pb_peer e)) (flatten b))"

definition block_left :: "u64 \<Rightarrow> (nat \<times> u64) option \<Rightarrow> u64 option" where
  "block_left t st = (case st of Some (n, until) \<Rightarrow> if t < until then Some (until - t) else None | None \<Rightarrow> None)"

text \<open>
  Another peer may take the place of a device only when it has no entry itself, no entry is free,
  and the block of the device is over or ends no later than every other block.
\<close>

definition crowded_out :: "(ble_peer_identity \<Rightarrow> bool) \<Rightarrow> ble_peer_identity \<Rightarrow> u64 \<Rightarrow> ble_pairing_backoff \<Rightarrow> bool" where
  "crowded_out mine q t b =
     (peer_slot q b = None \<and> None \<notin> set b \<and>
      list_ex (\<lambda>e. mine (pb_peer e) \<and> (pb_blocked_until_ms e \<le> t \<or> list_all (\<lambda>f. pb_blocked_until_ms e \<le> pb_blocked_until_ms f) (flatten b)))
        (flatten b))"

fun backoff_follows :: "(ble_peer_identity \<Rightarrow> bool) \<Rightarrow> backoff_op \<Rightarrow> ble_pairing_backoff \<Rightarrow> ble_pairing_backoff \<Rightarrow> bool" where
  "backoff_follows mine (BoFail q t) b b' =
     (if mine q then
        (let n = (case standing mine b of Some (n, until) \<Rightarrow> n | None \<Rightarrow> 0);
             d = [2000, 5000, 15000, 30000] ! min n 3 in
         snd (backoff_record_failure q t b) = d \<and> standing mine b' = Some (min (n + 1) 255, sat_add t d))
      else standing mine b' = standing mine b \<or> standing mine b' = None \<and> crowded_out mine q t b)"
| "backoff_follows mine (BoClearPeer q) b b' = (standing mine b' = (if mine q then None else standing mine b))"
| "backoff_follows mine BoClear b b' = (standing mine b' = None)"

definition device_entry :: "(ble_peer_identity \<Rightarrow> bool) \<Rightarrow> ble_pairing_backoff \<Rightarrow> nat \<Rightarrow> backoff_entry \<Rightarrow> bool" where
  "device_entry mine b i e = (i < length b \<and> b ! i = Some e \<and> mine (pb_peer e))"

definition backoff_inv :: "(ble_peer_identity \<Rightarrow> bool) \<Rightarrow> ble_peer_identity set \<Rightarrow> ble_pairing_backoff \<Rightarrow> bool" where
  "backoff_inv mine ps b =
     ((\<forall>i j e f. device_entry mine b i e \<longrightarrow> device_entry mine b j f \<longrightarrow> i = j) \<and> (\<forall>e. Some e \<in> set b \<longrightarrow> pb_peer e \<in> ps))"

lemma find_only:
  assumes "e \<in> set xs" "P e" "\<forall>x\<in>set xs. P x \<longrightarrow> x = e"
  shows "find P xs = Some e"
proof -
  obtain x where x: "find P xs = Some x" using assms(1,2) find_None_iff[of P xs] by (cases "find P xs") auto
  then have "x \<in> set xs" "P x" by (auto simp: find_Some_iff)
  then show ?thesis using x assms(3) by simp
qed

lemma find_nothing: "(\<And>x. x \<in> set xs \<Longrightarrow> \<not> P x) \<Longrightarrow> find P xs = None"
  by (simp add: find_None_iff)

lemma in_table: "e \<in> set (flatten b) \<longleftrightarrow> (\<exists>i<length b. b ! i = Some e)"
  unfolding set_flatten in_set_conv_nth[of "Some e"] by blast

lemma device_entry_mem: "device_entry mine b i e \<Longrightarrow> e \<in> set (flatten b)"
  unfolding in_table device_entry_def by blast

lemma device_entry_only:
  "backoff_inv mine ps b \<Longrightarrow> device_entry mine b i e \<Longrightarrow> x \<in> set (flatten b) \<Longrightarrow> mine (pb_peer x) \<Longrightarrow> x = e"
proof -
  assume inv: "backoff_inv mine ps b" and e: "device_entry mine b i e" and x: "x \<in> set (flatten b)" "mine (pb_peer x)"
  obtain j where j: "j < length b" "b ! j = Some x" using x(1) unfolding in_table by blast
  then have "device_entry mine b j x" using x(2) by (simp add: device_entry_def)
  then have "i = j" using inv e unfolding backoff_inv_def by blast
  then show "x = e" using j(2) e by (simp add: device_entry_def)
qed

lemma standing_entry:
  assumes "backoff_inv mine ps b" "device_entry mine b i e"
  shows "standing mine b = Some (unat (pb_failure_count e), pb_blocked_until_ms e)"
proof -
  have "find (\<lambda>e. mine (pb_peer e)) (flatten b) = Some e"
  proof (rule find_only)
    show "mine (pb_peer e)" using assms(2) by (simp add: device_entry_def)
  qed (use device_entry_mem[OF assms(2)] device_entry_only[OF assms] in blast)+
  then show ?thesis by (simp add: standing_def)
qed

lemma standing_none: "(\<And>i e. \<not> device_entry mine b i e) \<Longrightarrow> standing mine b = None"
proof -
  assume "\<And>i e. \<not> device_entry mine b i e"
  then have "find (\<lambda>e. mine (pb_peer e)) (flatten b) = None"
    by (intro find_nothing) (metis in_table device_entry_def)
  then show ?thesis by (simp add: standing_def)
qed

lemma one_device_iff:
  "one_device mine ps \<Longrightarrow> x \<in> set ps \<Longrightarrow> y \<in> set ps \<Longrightarrow> mine x \<Longrightarrow> matches_peer y x \<longleftrightarrow> mine y"
  using matches_peer_sym by (auto simp: one_device_def list_all_iff)

lemma block_exact:
  assumes "backoff_inv mine (set ps) b" "one_device mine ps" "p \<in> set ps" "mine p"
  shows "blocked_remaining_ms p t b = block_left t (standing mine b)"
proof -
  have m: "matches_peer (pb_peer e) p \<longleftrightarrow> mine (pb_peer e)" if "e \<in> set (flatten b)" for e
    using that assms(1) one_device_iff[OF assms(2,3) _ assms(4)] by (simp add: backoff_inv_def set_flatten)
  show ?thesis
  proof (cases "\<exists>i e. device_entry mine b i e")
    case True
    then obtain i e where e: "device_entry mine b i e" by blast
    show ?thesis
    proof (cases "t < pb_blocked_until_ms e")
      case True
      have "find (\<lambda>e. matches_peer (pb_peer e) p \<and> pb_blocked_until_ms e > t) (flatten b) = Some e"
      proof (rule find_only)
        show "matches_peer (pb_peer e) p \<and> t < pb_blocked_until_ms e"
          using m[OF device_entry_mem[OF e]] e True by (simp add: device_entry_def)
      qed (use device_entry_mem[OF e] device_entry_only[OF assms(1) e] m in blast)+
      then show ?thesis using True standing_entry[OF assms(1) e] by (simp add: blocked_remaining_ms_def block_left_def)
    next
      case False
      have "find (\<lambda>e. matches_peer (pb_peer e) p \<and> pb_blocked_until_ms e > t) (flatten b) = None"
        using device_entry_only[OF assms(1) e] m False by (intro find_nothing) blast
      then show ?thesis using False standing_entry[OF assms(1) e] by (simp add: blocked_remaining_ms_def block_left_def)
    qed
  next
    case False
    then have "find (\<lambda>e. matches_peer (pb_peer e) p \<and> pb_blocked_until_ms e > t) (flatten b) = None"
      using m by (intro find_nothing) (metis device_entry_def in_table)
    then show ?thesis using False standing_none[of mine b] by (auto simp: blocked_remaining_ms_def block_left_def)
  qed
qed

text \<open>Writing one entry, seen from a device.\<close>

lemma device_entry_update:
  "i < length b \<Longrightarrow> device_entry mine (b[i := Some x]) j e \<longleftrightarrow> (if j = i then e = x \<and> mine (pb_peer x) else device_entry mine b j e)"
  by (auto simp: device_entry_def nth_list_update)

lemma write_inv:
  assumes "backoff_inv mine ps b" "i < length b" "pb_peer x \<in> ps"
    and "mine (pb_peer x) \<Longrightarrow> (\<And>j e. device_entry mine b j e \<Longrightarrow> j = i)"
  shows "backoff_inv mine ps (b[i := Some x])"
  unfolding backoff_inv_def
proof (intro conjI allI impI)
  fix j k e f
  assume "device_entry mine (b[i := Some x]) j e" "device_entry mine (b[i := Some x]) k f"
  then have *: "if j = i then mine (pb_peer x) else device_entry mine b j e" "if k = i then mine (pb_peer x) else device_entry mine b k f"
    unfolding device_entry_update[OF assms(2)] by (simp_all split: if_splits)
  show "j = k"
  proof (cases "j = i"; cases "k = i")
    assume c: "j = i" "k \<noteq> i"
    then have m: "mine (pb_peer x)" "device_entry mine b k f" using * by simp_all
    show ?thesis using assms(4)[OF m] c by blast
  next
    assume c: "j \<noteq> i" "k = i"
    then have m: "mine (pb_peer x)" "device_entry mine b j e" using * by simp_all
    show ?thesis using assms(4)[OF m] c by blast
  next
    assume "j \<noteq> i" "k \<noteq> i"
    then have "device_entry mine b j e" "device_entry mine b k f" using * by simp_all
    then show ?thesis using assms(1) unfolding backoff_inv_def by blast
  qed simp
next
  fix e
  assume "Some e \<in> set (b[i := Some x])"
  then show "pb_peer e \<in> ps" using assms(1,3) set_update_subset_insert[of b i "Some x"] by (auto simp: backoff_inv_def)
qed

lemma write_mine:
  assumes "backoff_inv mine ps (b[i := Some x])" "i < length b" "mine (pb_peer x)"
  shows "standing mine (b[i := Some x]) = Some (unat (pb_failure_count x), pb_blocked_until_ms x)"
  using standing_entry[OF assms(1), of i x] assms(2,3) by (simp add: device_entry_update)

lemma write_other:
  assumes "backoff_inv mine ps b" "backoff_inv mine ps (b[i := Some x])" "i < length b" "\<not> mine (pb_peer x)"
  shows "standing mine (b[i := Some x]) = (if \<exists>e. device_entry mine b i e then None else standing mine b)"
proof (cases "\<exists>j e. j \<noteq> i \<and> device_entry mine b j e")
  case True
  then obtain j e where j: "j \<noteq> i" "device_entry mine b j e" by blast
  then have "device_entry mine (b[i := Some x]) j e" using assms(3) by (simp add: device_entry_update)
  moreover have "\<nexists>f. device_entry mine b i f" using assms(1) j unfolding backoff_inv_def by blast
  ultimately show ?thesis using standing_entry[OF assms(1) j(2)] standing_entry[OF assms(2)] by simp
next
  case False
  then have "standing mine (b[i := Some x]) = None" using assms(3,4) by (intro standing_none) (auto simp: device_entry_update)
  then show ?thesis using False standing_none[of mine b] by (metis (full_types))
qed

text \<open>The entry a new peer displaces.\<close>

lemma replacement_full:
  assumes "backoff_replacement t b = Some i" "b ! i = Some e" "i < length b"
  shows "None \<notin> set b \<and> (pb_blocked_until_ms e \<le> t \<or> list_all (\<lambda>f. pb_blocked_until_ms e \<le> pb_blocked_until_ms f) (flatten b))"
proof -
  have full: "position (\<lambda>e. e = None) b = None"
    using assms(1,2) by (auto simp: backoff_replacement_def dest: position_SomeD(2) split: option.splits)
  then have n: "None \<notin> set b" by (auto simp: position_None_iff)
  show ?thesis
  proof (cases "position (\<lambda>e. case e of Some x \<Rightarrow> pb_blocked_until_ms x \<le> t | None \<Rightarrow> False) b")
    case None
    then have "first_min (map entry_until b) = Some i" using assms(1) full by (simp add: backoff_replacement_def)
    from first_min_least[OF this] have "entry_until (b ! i) \<le> v" if "v \<in> entry_until ` set b" for v
      using that assms(3) by auto
    then have "pb_blocked_until_ms e \<le> pb_blocked_until_ms f" if "Some f \<in> set b" for f
      using that assms(2) unfolding entry_until_def by (metis (no_types, lifting) image_eqI option.simps(5))
    then show ?thesis using n by (auto simp: list_all_iff set_flatten)
  next
    case (Some k)
    then have "i = k" using assms(1) full by (simp add: backoff_replacement_def)
    then show ?thesis using position_SomeD(2)[OF Some] assms(2) n by simp
  qed
qed

lemma record_failure_known:
  assumes "peer_slot q b = Some i" "b ! i = Some e"
  shows "backoff_record_failure q t b =
    (b[i := Some (e\<lparr>pb_failure_count := sat_add (pb_failure_count e) 1,
         pb_blocked_until_ms := sat_add t (backoff_for_failure_count (sat_add (pb_failure_count e) 1))\<rparr>)],
     backoff_for_failure_count (sat_add (pb_failure_count e) 1))"
  using assms by (simp add: backoff_record_failure_def peer_slot_def Let_def)

lemma record_failure_new:
  assumes "peer_slot q b = None" "backoff_replacement t b = Some i"
  shows "backoff_record_failure q t b =
    (b[i := Some \<lparr>pb_peer = q, pb_failure_count = 1, pb_blocked_until_ms = sat_add t 2000\<rparr>], 2000)"
  using assms by (simp add: backoff_record_failure_def peer_slot_def BLE_PAIRING_BACKOFF_STEPS_MS_def)

lemma next_delay: "backoff_for_failure_count (sat_add (c :: u8) 1) = [2000, 5000, 15000, 30000] ! min (unat c) 3"
proof -
  have "unat (sat_add c 1) = min (Suc (unat c)) 255" by (simp add: unat_sat_add)
  from u8_of_unat[OF this] show ?thesis using backoff_step[of "unat c"] by (simp add: BLE_PAIRING_BACKOFF_STEPS_MS_def)
qed

lemma backoff_fail_step:
  assumes inv: "backoff_inv mine (set ps) b" and dev: "one_device mine ps" and q: "q \<in> set ps" and ne: "b \<noteq> []"
  shows "backoff_inv mine (set ps) (fst (backoff_record_failure q t b)) \<and>
    backoff_follows mine (BoFail q t) b (fst (backoff_record_failure q t b))"
proof (cases "peer_slot q b")
  case (Some i)
  then obtain e where e: "i < length b" "b ! i = Some e" "matches_peer (pb_peer e) q" using peer_slot_SomeD by blast
  have pe: "pb_peer e \<in> set ps" using inv e(1,2) nth_mem[OF e(1)] by (simp add: backoff_inv_def)
  have mq: "mine (pb_peer e) \<longleftrightarrow> mine q"
    using one_device_iff[OF dev q pe] one_device_iff[OF dev pe q] e(3) matches_peer_sym[OF e(3)] by blast
  let ?d = "backoff_for_failure_count (sat_add (pb_failure_count e) 1)"
  let ?x = "e\<lparr>pb_failure_count := sat_add (pb_failure_count e) 1, pb_blocked_until_ms := sat_add t ?d\<rparr>"
  note r = record_failure_known[OF Some e(2), of t]
  have old: "mine q \<Longrightarrow> device_entry mine b i e" using e mq by (simp add: device_entry_def)
  have i': "backoff_inv mine (set ps) (b[i := Some ?x])"
    using inv old pe mq by (intro write_inv[OF inv e(1)]) (auto simp: backoff_inv_def)
  show ?thesis
  proof (cases "mine q")
    case True
    have "standing mine (b[i := Some ?x]) = Some (min (unat (pb_failure_count e) + 1) 255, sat_add t ?d)"
      using write_mine[OF i' e(1)] True mq by (simp add: unat_sat_add)
    then show ?thesis using i' True standing_entry[OF inv old[OF True]] by (simp add: r next_delay)
  next
    case False
    then have "\<nexists>f. device_entry mine b i f" using e mq by (auto simp: device_entry_def)
    then have "standing mine (b[i := Some ?x]) = standing mine b" using write_other[OF inv i' e(1)] False mq by simp
    then show ?thesis using i' False by (simp add: r)
  qed
next
  case None
  obtain i where i: "i < length b" "backoff_replacement t b = Some i" using backoff_replacement_Some[OF ne] by blast
  let ?x = "\<lparr>pb_peer = q, pb_failure_count = 1, pb_blocked_until_ms = sat_add t 2000\<rparr>"
  note r = record_failure_new[OF None i(2)]
  have none: "\<not> device_entry mine b j e" if "mine q" for j e
  proof
    assume d: "device_entry mine b j e"
    then have m: "Some e \<in> set b" "pb_peer e \<in> set ps" using inv by (auto simp: device_entry_def backoff_inv_def dest: nth_mem)
    then have "matches_peer (pb_peer e) q" using one_device_iff[OF dev q m(2) that] d by (simp add: device_entry_def)
    then show False using None m(1) by (auto simp: peer_slot_def position_None_iff)
  qed
  have i': "backoff_inv mine (set ps) (b[i := Some ?x])" using q none by (intro write_inv[OF inv i(1)]) auto
  show ?thesis
  proof (cases "mine q")
    case True
    have "standing mine b = None" using none[OF True] by (intro standing_none)
    then show ?thesis using i' write_mine[OF i' i(1)] True by (simp add: r)
  next
    case False
    note w = write_other[OF inv i' i(1)]
    have "crowded_out mine q t b" if "device_entry mine b i e" for e
      using that None replacement_full[OF i(2) _ i(1), of e] device_entry_mem[OF that]
      by (auto simp: crowded_out_def device_entry_def list_ex_iff)
    then show ?thesis using i' w False by (auto simp: r)
  qed
qed

lemma clear_peer_step:
  assumes inv: "backoff_inv mine (set ps) b" and dev: "one_device mine ps" and q: "q \<in> set ps"
  shows "backoff_inv mine (set ps) (backoff_clear_peer q b) \<and> backoff_follows mine (BoClearPeer q) b (backoff_clear_peer q b)"
proof -
  have d: "device_entry mine (backoff_clear_peer q b) i e \<longleftrightarrow> device_entry mine b i e \<and> \<not> mine q" for i e
  proof -
    have "matches_peer (pb_peer e) q \<longleftrightarrow> mine q" if "device_entry mine b i e"
    proof -
      have pe: "pb_peer e \<in> set ps" "mine (pb_peer e)" using that inv by (auto simp: device_entry_def backoff_inv_def dest: nth_mem)
      show ?thesis using one_device_iff[OF dev pe(1) q pe(2)] matches_peer_sym by blast
    qed
    then show ?thesis by (auto simp: device_entry_def backoff_clear_peer_def split: option.splits if_splits)
  qed
  have "Some e \<in> set b" if "Some e \<in> set (backoff_clear_peer q b)" for e
    using that by (auto simp: backoff_clear_peer_def split: option.splits if_splits)
  then have i': "backoff_inv mine (set ps) (backoff_clear_peer q b)" using inv unfolding backoff_inv_def d by blast
  moreover have "standing mine (backoff_clear_peer q b) = (if mine q then None else standing mine b)"
  proof (cases "\<exists>i e. device_entry mine b i e \<and> \<not> mine q")
    case True
    then obtain i e where e: "device_entry mine b i e" "\<not> mine q" by blast
    then show ?thesis using standing_entry[OF inv e(1)] standing_entry[OF i', of i e] d by simp
  next
    case False
    then show ?thesis using standing_none[of mine "backoff_clear_peer q b"] standing_none[of mine b] d by auto
  qed
  ultimately show ?thesis by simp
qed

lemma pairing_step:
  assumes "backoff_inv mine (set ps) b" "one_device mine ps" "set (backoff_peers x) \<subseteq> set ps" "b \<noteq> []"
  shows "backoff_inv mine (set ps) (pairing_backoff_step x b) \<and> backoff_follows mine x b (pairing_backoff_step x b) \<and>
    pairing_backoff_step x b \<noteq> []"
proof (cases x)
  case (BoFail q t)
  moreover have "length (fst (backoff_record_failure q t b)) = length b"
    by (auto simp: backoff_record_failure_def Let_def split: option.split)
  ultimately show ?thesis using backoff_fail_step[OF assms(1,2) _ assms(4), of q t] assms(3,4)
    by (cases "fst (backoff_record_failure q t b)") auto
next
  case (BoClearPeer q)
  then show ?thesis using clear_peer_step[OF assms(1,2), of q] assms(3,4) by (simp add: backoff_clear_peer_def)
next
  case BoClear
  have "\<not> device_entry mine (backoff_clear b) i e" for i e by (auto simp: device_entry_def backoff_clear_def)
  then show ?thesis using standing_none[of mine "backoff_clear b"] BoClear assms(4)
    by (auto simp: backoff_inv_def backoff_clear_def)
qed

lemma pairing_reachable:
  "0 < cap \<Longrightarrow> one_device mine ps \<Longrightarrow> set (concat (map backoff_peers ops)) \<subseteq> set ps \<Longrightarrow>
    backoff_inv mine (set ps) (run pairing_backoff_step ops (pairing_backoff_new cap)) \<and>
    run pairing_backoff_step ops (pairing_backoff_new cap) \<noteq> []"
proof (induction ops rule: rev_induct)
  case Nil
  then show ?case by (auto simp: backoff_inv_def device_entry_def pairing_backoff_new_def)
next
  case (snoc x xs)
  then show ?case using pairing_step[of mine ps "run pairing_backoff_step xs (pairing_backoff_new cap)" x] by simp
qed

text \<open>
  C36: Failures lock a device out for exactly its growing delays. After any history of failed
  pairings of any peers, forgotten peers and cleared tables, a further operation acts on what the
  table knows of a device as follows. A failure of the device is answered with 2, 5, 15 or 30
  seconds for its first, second, third and any further failure on record, and blocks it until that
  delay is over; forgetting the device or clearing the table ends its record; and another peer
  touches it only by displacing it, when that peer is new, the table is full, and the block of the
  device is over or ends no later than all others. At every moment the device is blocked for
  exactly what is left of its delay, and no longer.
\<close>

theorem pairing_backoff_escalates:
  assumes "0 < cap" "mine p" "one_device mine (p # concat (map backoff_peers (ops @ [x])))"
  shows "let b = run pairing_backoff_step ops (pairing_backoff_new cap); b' = pairing_backoff_step x b in
    backoff_follows mine x b b' \<and> blocked_remaining_ms p t b' = block_left t (standing mine b')"
proof -
  let ?ps = "p # concat (map backoff_peers (ops @ [x]))"
  have s: "set (backoff_peers x) \<subseteq> set ?ps" by auto
  have o: "set (concat (map backoff_peers ops)) \<subseteq> set ?ps" by auto
  note r = pairing_reachable[OF assms(1,3) o]
  note step = pairing_step[OF conjunct1[OF r] assms(3) s conjunct2[OF r]]
  have p: "p \<in> set ?ps" by simp
  show ?thesis using step block_exact[OF conjunct1[OF step] assms(3) p assms(2), of t] unfolding Let_def by blast
qed

definition sample_peer :: ble_peer_identity where
  "sample_peer = \<lparr>pe_peer_address = [1, 2, 3, 4, 5, 6], pe_peer_irk = None\<rparr>"

definition other_peer :: ble_peer_identity where
  "other_peer = \<lparr>pe_peer_address = [2, 2, 3, 4, 5, 6], pe_peer_irk = Some [9]\<rparr>"

theorem pairing_backoff_escalates_witness:
  "let b = run pairing_backoff_step [BoFail sample_peer 0, BoFail other_peer 50, BoFail sample_peer 100] (pairing_backoff_new 2) in
   blocked_remaining_ms sample_peer 5000 b = Some 100 \<and> blocked_remaining_ms sample_peer 5100 b = None"
proof -
  let ?mine = "\<lambda>p. p = sample_peer" and ?ops = "[BoFail sample_peer 0, BoFail other_peer 50]" and ?x = "BoFail sample_peer 100"
  have ne: "other_peer \<noteq> sample_peer" "\<not> matches_peer sample_peer other_peer" "\<not> matches_peer other_peer sample_peer"
    by (simp_all add: sample_peer_def other_peer_def matches_peer_def)
  have dev: "one_device ?mine (sample_peer # concat (map backoff_peers (?ops @ [?x])))"
    using ne by (auto simp: one_device_def)
  have st: "standing ?mine (run pairing_backoff_step ?ops (pairing_backoff_new 2)) = Some (1, 2000)"
  proof -
    have "pairing_backoff_new 2 = [None, None]" by (simp add: pairing_backoff_new_def numeral_2_eq_2)
    then show ?thesis using ne
      by (simp add: backoff_record_failure_def backoff_replacement_def standing_def BLE_PAIRING_BACKOFF_STEPS_MS_def sat_add_def)
  qed
  show ?thesis
    using pairing_backoff_escalates[OF _ refl dev, of 2 5000] pairing_backoff_escalates[OF _ refl dev, of 2 5100] st
    by (simp add: Let_def block_left_def sat_add_def)
qed

section \<open>Connection slots\<close>

datatype connection_slot_error = CsInvalidSlot | CsInvalidHost | CsNoFreeSlot | CsDuplicateHost | CsDuplicatePeer

record ble_connection_entry =
  ce_host_id :: host_id
  ce_peer_identity :: ble_peer_identity

type_synonym ble_connection_slots = "ble_connection_entry option list"

text \<open>A slot token is the index with the host.\<close>

type_synonym ble_connection_slot = "nat \<times> host_id"

definition connection_slots_new :: "nat \<Rightarrow> ble_connection_slots" where
  "connection_slots_new slots = replicate slots None"

definition check_slot :: "nat \<Rightarrow> ble_connection_slots \<Rightarrow> connection_slot_error + unit" where
  "check_slot slot es = (if slot < length es then Inr () else Inl CsInvalidSlot)"

definition check_host :: "host_id \<Rightarrow> connection_slot_error + unit" where
  "check_host h = (case host_id_validated h of Inl e \<Rightarrow> Inl CsInvalidHost | Inr v \<Rightarrow> Inr ())"

fun unique_scan :: "host_id \<Rightarrow> ble_peer_identity \<Rightarrow> nat option \<Rightarrow> nat \<Rightarrow> ble_connection_slots \<Rightarrow> connection_slot_error + unit" where
  "unique_scan h p replacing slot [] = Inr ()"
| "unique_scan h p replacing slot (entry # es) =
     (if replacing = Some slot then unique_scan h p replacing (Suc slot) es
      else (case entry of
         None \<Rightarrow> unique_scan h p replacing (Suc slot) es
       | Some e \<Rightarrow>
           if ce_host_id e = h then Inl CsDuplicateHost
           else if matches_peer (ce_peer_identity e) p then Inl CsDuplicatePeer
           else unique_scan h p replacing (Suc slot) es))"

definition ensure_unique :: "host_id \<Rightarrow> ble_peer_identity \<Rightarrow> nat option \<Rightarrow> ble_connection_slots \<Rightarrow> connection_slot_error + unit" where
  "ensure_unique h p replacing es = unique_scan h p replacing 0 es"

definition connect_first_free :: "host_id \<Rightarrow> ble_peer_identity \<Rightarrow> ble_connection_slots \<Rightarrow>
    (ble_connection_slots, connection_slot_error, ble_connection_slot) outcome" where
  "connect_first_free h p es =
     (case bindE (check_host h) (\<lambda>_. ensure_unique h p None es) of
        Inl e \<Rightarrow> (es, Inl e)
      | Inr _ \<Rightarrow>
          (case position (\<lambda>e. e = None) es of
             Some slot \<Rightarrow> (es[slot := Some \<lparr>ce_host_id = h, ce_peer_identity = p\<rparr>], Inr (slot, h))
           | None \<Rightarrow> (es, Inl CsNoFreeSlot)))"

definition set_connected :: "nat \<Rightarrow> host_id \<Rightarrow> ble_peer_identity \<Rightarrow> ble_connection_slots \<Rightarrow>
    (ble_connection_slots, connection_slot_error, ble_connection_slot) outcome" where
  "set_connected slot h p es =
     (case bindE (check_slot slot es) (\<lambda>_. bindE (check_host h) (\<lambda>_. ensure_unique h p (Some slot) es)) of
        Inl e \<Rightarrow> (es, Inl e)
      | Inr _ \<Rightarrow> (es[slot := Some \<lparr>ce_host_id = h, ce_peer_identity = p\<rparr>], Inr (slot, h)))"

definition set_disconnected :: "nat \<Rightarrow> ble_connection_slots \<Rightarrow> (ble_connection_slots, connection_slot_error, ble_connection_slot option) outcome" where
  "set_disconnected slot es =
     (case check_slot slot es of
        Inl e \<Rightarrow> (es, Inl e)
      | Inr _ \<Rightarrow> (es[slot := None], Inr (map_option (\<lambda>e. (slot, ce_host_id e)) (es ! slot))))"

definition dispatch_slot_for_host :: "host_id \<Rightarrow> ble_connection_slots \<Rightarrow> ble_connection_slot option" where
  "dispatch_slot_for_host h es =
     map_option (\<lambda>slot. (slot, h)) (position (\<lambda>e. case e of Some x \<Rightarrow> ce_host_id x = h | None \<Rightarrow> False) es)"

definition entry_for_slot :: "nat \<Rightarrow> ble_connection_slots \<Rightarrow> ble_connection_entry option" where
  "entry_for_slot slot es = (if slot < length es then es ! slot else None)"

definition host_for_slot :: "nat \<Rightarrow> ble_connection_slots \<Rightarrow> host_id option" where
  "host_for_slot slot es = map_option ce_host_id (entry_for_slot slot es)"

definition slots_should_advertise :: "ble_connection_slots \<Rightarrow> bool" where
  "slots_should_advertise es = list_ex (\<lambda>e. e = None) es"

definition connected_count :: "ble_connection_slots \<Rightarrow> nat" where
  "connected_count es = length (flatten es)"

definition should_advertise_additional_connection :: "bool \<Rightarrow> nat \<Rightarrow> ble_connection_slots \<Rightarrow> bool" where
  "should_advertise_additional_connection pairing_window_open retained_session_count es =
     (slots_should_advertise es \<and> (pairing_window_open \<or> connected_count es < retained_session_count))"

definition slot_is_connected :: "nat \<Rightarrow> ble_connection_slots \<Rightarrow> bool" where
  "slot_is_connected slot es = (entry_for_slot slot es \<noteq> None)"

definition resolve_host_id :: "storage_state option \<Rightarrow> ble_peer_identity \<Rightarrow> host_id option \<Rightarrow> host_id option" where
  "resolve_host_id storage p pairing_host =
     (case Option.bind storage (\<lambda>st. find (\<lambda>h. case sh_bond h of Some bond \<Rightarrow> matches_bond p bond | None \<Rightarrow> False) (st_hosts st)) of
        Some h \<Rightarrow> Some (sh_host_id h)
      | None \<Rightarrow> pairing_host)"

subsection \<open>No computer is connected twice\<close>

definition apart :: "ble_connection_entry \<Rightarrow> ble_connection_entry \<Rightarrow> bool" where
  "apart x y \<longleftrightarrow> ce_host_id x \<noteq> ce_host_id y \<and> \<not> matches_peer (ce_peer_identity x) (ce_peer_identity y)"

definition slots_inv :: "ble_connection_slots \<Rightarrow> bool" where
  "slots_inv es \<longleftrightarrow>
     (\<forall>i<length es. \<forall>j<length es. \<forall>x y. i \<noteq> j \<longrightarrow> es ! i = Some x \<longrightarrow> es ! j = Some y \<longrightarrow> apart x y) \<and>
     (\<forall>i<length es. \<forall>x. es ! i = Some x \<longrightarrow> 1 \<le> ce_host_id x \<and> ce_host_id x \<le> 4)"

lemma unique_scan_iff:
  "unique_scan h p replacing k es = Inr () \<longleftrightarrow>
     (\<forall>i<length es. replacing \<noteq> Some (k + i) \<longrightarrow> (\<forall>e. es ! i = Some e \<longrightarrow> ce_host_id e \<noteq> h \<and> \<not> matches_peer (ce_peer_identity e) p))"
proof (induction es arbitrary: k)
  case Nil
  then show ?case by simp
next
  case (Cons entry es)
  have "unique_scan h p replacing k (entry # es) = Inr () \<longleftrightarrow>
      (replacing \<noteq> Some k \<longrightarrow> (\<forall>e. entry = Some e \<longrightarrow> ce_host_id e \<noteq> h \<and> \<not> matches_peer (ce_peer_identity e) p)) \<and> unique_scan h p replacing (Suc k) es = Inr ()"
    by (simp split: option.split)
  also have "\<dots> \<longleftrightarrow> (\<forall>i<length (entry # es). replacing \<noteq> Some (k + i) \<longrightarrow>
      (\<forall>e. (entry # es) ! i = Some e \<longrightarrow> ce_host_id e \<noteq> h \<and> \<not> matches_peer (ce_peer_identity e) p))"
    unfolding Cons.IH[of "Suc k"] length_Cons All_less_Suc2 by simp
  finally show ?case .
qed

lemma ensure_unique_iff:
  "ensure_unique h p replacing es = Inr () \<longleftrightarrow>
     (\<forall>i<length es. replacing \<noteq> Some i \<longrightarrow> (\<forall>e. es ! i = Some e \<longrightarrow> apart e \<lparr>ce_host_id = h, ce_peer_identity = p\<rparr>))"
  by (simp add: ensure_unique_def unique_scan_iff apart_def)

lemma apart_sym: "apart x y \<Longrightarrow> apart y x"
  using matches_peer_sym by (auto simp: apart_def)

lemma slots_insert:
  assumes "slots_inv es" "slot < length es" "1 \<le> h" "h \<le> 4"
    "\<And>i e. i < length es \<Longrightarrow> i \<noteq> slot \<Longrightarrow> es ! i = Some e \<Longrightarrow> apart e \<lparr>ce_host_id = h, ce_peer_identity = p\<rparr>"
  shows "slots_inv (es[slot := Some \<lparr>ce_host_id = h, ce_peer_identity = p\<rparr>])"
  using assms apart_sym unfolding slots_inv_def by (auto simp: nth_list_update)

lemma check_host_iff: "check_host h = Inr () \<longleftrightarrow> 1 \<le> h \<and> h \<le> 4"
  by (simp add: check_host_def host_id_validated_simps)

lemma connect_first_free_inv: "slots_inv es \<Longrightarrow> slots_inv (fst (connect_first_free h p es))"
proof (cases "bindE (check_host h) (\<lambda>_. ensure_unique h p None es)")
  case (Inr u)
  assume inv: "slots_inv es"
  have c: "1 \<le> h" "h \<le> 4" "ensure_unique h p None es = Inr ()" using Inr by (auto simp: bindE_Inr_iff check_host_iff)
  show ?thesis
    using inv c Inr slots_insert[OF inv _ c(1,2)] by (auto simp: connect_first_free_def ensure_unique_iff dest: position_SomeD split: option.split)
qed (simp add: connect_first_free_def)

lemma set_connected_inv: "slots_inv es \<Longrightarrow> slots_inv (fst (set_connected slot h p es))"
proof (cases "bindE (check_slot slot es) (\<lambda>_. bindE (check_host h) (\<lambda>_. ensure_unique h p (Some slot) es))")
  case (Inr u)
  assume inv: "slots_inv es"
  have c: "slot < length es" "1 \<le> h" "h \<le> 4" "ensure_unique h p (Some slot) es = Inr ()"
    using Inr by (auto simp: bindE_Inr_iff check_host_iff check_slot_def split: if_splits)
  then show ?thesis using inv Inr slots_insert[OF inv c(1-3)] by (auto simp: set_connected_def ensure_unique_iff)
qed (simp add: set_connected_def)

lemma set_disconnected_inv: "slots_inv es \<Longrightarrow> slots_inv (fst (set_disconnected slot es))"
  by (auto simp: set_disconnected_def slots_inv_def nth_update_in split: sum.split if_splits)

datatype slots_op = SConnectFree host_id ble_peer_identity | SConnect nat host_id ble_peer_identity | SDisconnect nat

fun slots_step :: "slots_op \<Rightarrow> ble_connection_slots \<Rightarrow> ble_connection_slots" where
  "slots_step (SConnectFree h p) es = fst (connect_first_free h p es)"
| "slots_step (SConnect slot h p) es = fst (set_connected slot h p es)"
| "slots_step (SDisconnect slot) es = fst (set_disconnected slot es)"

interpretation connection: op_system slots_step "\<lambda>x. True" slots_inv
proof
  fix es x assume "slots_inv es"
  then show "slots_inv (slots_step x es)" by (cases x) (simp_all add: connect_first_free_inv set_connected_inv set_disconnected_inv)
qed

lemma slots_reachable: "slots_inv (run slots_step ops (connection_slots_new n))"
  by (rule connection.run_inv) (simp_all add: slots_inv_def connection_slots_new_def list_all_iff)

lemma slots_step_length: "length (run slots_step ops es) = length es"
proof (induction ops arbitrary: es)
  case (Cons x ops)
  have "length (slots_step x es) = length es"
    by (cases x) (auto simp: connect_first_free_def set_connected_def set_disconnected_def split: sum.split option.split)
  then show ?case using Cons by simp
qed simp

text \<open>
  C35: No computer is connected twice. After any sequence of connections and disconnections two
  different slots hold different hosts and peers that do not match by address or identity
  key, every connected host is one of the four, and a report for a host is dispatched to a slot
  exactly if that slot holds the host.
\<close>

theorem connected_once:
  "(case run slots_step ops (connection_slots_new n) of es \<Rightarrow>
     length es = n \<and>
     list_all (\<lambda>i. list_all (\<lambda>j. i = j \<or> (case (es ! i, es ! j) of (Some x, Some y) \<Rightarrow> apart x y | _ \<Rightarrow> True)) [0..<n]) [0..<n] \<and>
     list_all (\<lambda>x. 1 \<le> ce_host_id x \<and> ce_host_id x \<le> 4) (flatten es) \<and>
     (\<forall>h slot. dispatch_slot_for_host h es = Some (slot, h) \<longleftrightarrow> host_for_slot slot es = Some h))"
proof -
  obtain es where r: "run slots_step ops (connection_slots_new n) = es" by simp
  have inv: "slots_inv es" and len: "length es = n"
    using slots_reachable[of ops n] slots_step_length[of ops "connection_slots_new n"] r by (simp_all add: connection_slots_new_def)
  have "dispatch_slot_for_host h es = Some (slot, h) \<longleftrightarrow> host_for_slot slot es = Some h" for h slot
  proof
    assume "dispatch_slot_for_host h es = Some (slot, h)"
    then have "position (\<lambda>e. case e of Some x \<Rightarrow> ce_host_id x = h | None \<Rightarrow> False) es = Some slot" by (auto simp: dispatch_slot_for_host_def)
    from position_SomeD[OF this] show "host_for_slot slot es = Some h" by (auto simp: host_for_slot_def entry_for_slot_def split: option.splits)
  next
    assume "host_for_slot slot es = Some h"
    then obtain x where x: "slot < length es" "es ! slot = Some x" "ce_host_id x = h" by (auto simp: host_for_slot_def entry_for_slot_def split: if_splits)
    have "\<not> (case es ! j of Some x \<Rightarrow> ce_host_id x = h | None \<Rightarrow> False)" if "j < slot" for j
    proof (cases "es ! j")
      case (Some y)
      have "j < length es" "j \<noteq> slot" using that x(1) by auto
      then have "apart y x" using inv x(1,2) Some unfolding slots_inv_def by blast
      then show ?thesis using x(3) Some by (simp add: apart_def)
    qed simp
    then show "dispatch_slot_for_host h es = Some (slot, h)" using x by (auto simp: dispatch_slot_for_host_def position_Some_iff)
  qed
  moreover have "list_all (\<lambda>i. list_all (\<lambda>j. i = j \<or> (case (es ! i, es ! j) of (Some x, Some y) \<Rightarrow> apart x y | _ \<Rightarrow> True)) [0..<n]) [0..<n]"
    using inv len unfolding slots_inv_def by (simp add: list_all_iff Ball_def split: option.split) blast
  moreover have "list_all (\<lambda>x. 1 \<le> ce_host_id x \<and> ce_host_id x \<le> 4) (flatten es)"
  proof (unfold list_all_iff, rule ballI)
    fix x assume "x \<in> set (flatten es)"
    then obtain i where "i < length es" "es ! i = Some x" by (metis in_set_conv_nth set_flatten)
    then show "1 \<le> ce_host_id x \<and> ce_host_id x \<le> 4" using inv unfolding slots_inv_def by blast
  qed
  ultimately show ?thesis using len unfolding r by simp
qed

end
