(* ===== verification/HS_UsbOutput.thy ===== *)
theory HS_UsbOutput
  imports HS_Reports HS_MirrorImage HS_Slots
begin

text \<open>
  Keyboard lamps of the plugged-in devices and the power policy of the USB bus
  (\<open>usb_hid/output.rs\<close>, \<open>power.rs\<close>): the parser finds the lamp bits in the report descriptor of a
  keyboard, and the output report is built from them. Whatever the descriptor says, the bits of an
  accepted layout lie inside the report, so building cannot go out of bounds, and every lamp
  is written to its own bit.
\<close>

unbundle bit_operations_syntax

section \<open>Layout and output report\<close>

definition MAX_KEYBOARD_LED_OUTPUT_REPORT_LEN :: nat where "MAX_KEYBOARD_LED_OUTPUT_REPORT_LEN = 8"
definition LED_USAGE_NUM_LOCK :: u16 where "LED_USAGE_NUM_LOCK = 0x01"
definition LED_USAGE_CAPS_LOCK :: u16 where "LED_USAGE_CAPS_LOCK = 0x02"
definition LED_USAGE_SCROLL_LOCK :: u16 where "LED_USAGE_SCROLL_LOCK = 0x03"
definition USAGE_PAGE_LED :: u16 where "USAGE_PAGE_LED = 0x08"
definition LED_NUM_LOCK :: u8 where "LED_NUM_LOCK = push_bit 0 1"
definition LED_CAPS_LOCK :: u8 where "LED_CAPS_LOCK = push_bit 1 1"
definition LED_SCROLL_LOCK :: u8 where "LED_SCROLL_LOCK = push_bit 2 1"

definition leds_contain :: "keyboard_led_state \<Rightarrow> u8 \<Rightarrow> bool" where
  "leds_contain leds flag = (leds AND flag = flag)"

datatype led_output_error = LoReportTooLong | LoMissingLedUsages

record bit_pos =
  bx_byte_index :: nat
  bx_bit_index :: u8

definition bit_pos_new :: "nat \<Rightarrow> u8 \<Rightarrow> bit_pos" where
  "bit_pos_new byte_index bit_index = \<lparr>bx_byte_index = byte_index, bx_bit_index = bit_index\<rparr>"

definition from_bit_offset :: "nat \<Rightarrow> bit_pos" where
  "from_bit_offset bit_offset = \<lparr>bx_byte_index = bit_offset div 8, bx_bit_index = of_nat (bit_offset mod 8)\<rparr>"

record keyboard_led_output_report =
  lo_report_id :: "u8 option"
  lo_byte_len :: nat
  lo_num_lock_bit :: "bit_pos option"
  lo_caps_lock_bit :: "bit_pos option"
  lo_scroll_lock_bit :: "bit_pos option"

record keyboard_led_output_bytes =
  lb_len :: nat
  lb_report_id :: "u8 option"
  lb_bytes :: bytes

definition led_boot_keyboard :: keyboard_led_output_report where
  "led_boot_keyboard = \<lparr>lo_report_id = None, lo_byte_len = 1, lo_num_lock_bit = Some (bit_pos_new 0 0),
     lo_caps_lock_bit = Some (bit_pos_new 0 1), lo_scroll_lock_bit = Some (bit_pos_new 0 2)\<rparr>"

text \<open>An index out of range panics; \<open>None\<close> stands for that.\<close>

definition set_led_bit :: "nat \<Rightarrow> bit_pos option \<Rightarrow> bool \<Rightarrow> bytes \<Rightarrow> bytes option" where
  "set_led_bit data_offset pos enabled bs =
     (case pos of
        None \<Rightarrow> Some bs
      | Some p \<Rightarrow>
          (let byte_index = data_offset + bx_byte_index p; mask = push_bit (unat (bx_bit_index p)) 1 in
           if byte_index < length bs \<and> bx_bit_index p < 8 then
             Some (bs[byte_index := (if enabled then bs ! byte_index OR mask else bs ! byte_index AND NOT mask)])
           else None))"

definition led_build :: "keyboard_led_output_report \<Rightarrow> keyboard_led_state \<Rightarrow> (led_output_error + keyboard_led_output_bytes) option" where
  "led_build r leds =
     (if lo_byte_len r > MAX_KEYBOARD_LED_OUTPUT_REPORT_LEN then Some (Inl LoReportTooLong)
      else
        (let bs = replicate MAX_KEYBOARD_LED_OUTPUT_REPORT_LEN 0;
             bs = (case lo_report_id r of Some i \<Rightarrow> bs[0 := i] | None \<Rightarrow> bs);
             data_offset = (case lo_report_id r of Some i \<Rightarrow> 1 | None \<Rightarrow> 0) in
         map_option (\<lambda>bs. Inr \<lparr>lb_len = lo_byte_len r, lb_report_id = lo_report_id r, lb_bytes = bs\<rparr>)
           (Option.bind (Option.bind (set_led_bit data_offset (lo_num_lock_bit r) (leds_contain leds LED_NUM_LOCK) bs)
              (set_led_bit data_offset (lo_caps_lock_bit r) (leds_contain leds LED_CAPS_LOCK)))
              (set_led_bit data_offset (lo_scroll_lock_bit r) (leds_contain leds LED_SCROLL_LOCK)))))"

definition led_bytes_slice :: "keyboard_led_output_bytes \<Rightarrow> bytes" where
  "led_bytes_slice b = take (lb_len b) (lb_bytes b)"

definition control_set_report :: "keyboard_led_output_bytes \<Rightarrow> u8 \<times> bytes" where
  "control_set_report b = (case lb_report_id b of Some i \<Rightarrow> (i, take (lb_len b) (lb_bytes b)) | None \<Rightarrow> (0, take (lb_len b) (lb_bytes b)))"

section \<open>The descriptor parser\<close>

definition MAX_OUTPUT_REPORTS :: nat where "MAX_OUTPUT_REPORTS = 16"
definition MAX_LOCAL_USAGES :: nat where "MAX_LOCAL_USAGES = 16"
definition MAX_GLOBAL_STACK_DEPTH :: nat where "MAX_GLOBAL_STACK_DEPTH = 4"

record global_state =
  gs_usage_page :: u16
  gs_report_size :: u8
  gs_report_count :: u16
  gs_report_id :: u8

definition global_empty :: global_state where
  "global_empty = \<lparr>gs_usage_page = 0, gs_report_size = 0, gs_report_count = 0, gs_report_id = 0\<rparr>"

text \<open>The local usages are a counted prefix of a fixed array: a bounded list.\<close>

record local_state =
  ls_usages :: "u16 list"
  ls_usage_min :: u16
  ls_usage_max :: u16
  ls_has_usage_range :: bool

definition local_empty :: local_state where
  "local_empty = \<lparr>ls_usages = [], ls_usage_min = 0, ls_usage_max = 0, ls_has_usage_range = False\<rparr>"

definition usage_at :: "nat \<Rightarrow> local_state \<Rightarrow> u16 option" where
  "usage_at index l =
     (if ls_has_usage_range l then
        (let i = of_nat index :: u16 in
         if unat (ls_usage_min l) + unat i < 2 ^ 16 \<and> ls_usage_min l + i \<le> ls_usage_max l then Some (ls_usage_min l + i) else None)
      else if index < length (ls_usages l) then Some (ls_usages l ! index) else None)"

record output_report_state =
  or_report_id :: u8
  or_bit_len :: nat
  or_num_lock_bit :: "bit_pos option"
  or_caps_lock_bit :: "bit_pos option"
  or_scroll_lock_bit :: "bit_pos option"

definition output_report_empty :: "u8 \<Rightarrow> output_report_state" where
  "output_report_empty i = \<lparr>or_report_id = i, or_bit_len = 0, or_num_lock_bit = None, or_caps_lock_bit = None, or_scroll_lock_bit = None\<rparr>"

definition has_keyboard_leds :: "output_report_state \<Rightarrow> bool" where
  "has_keyboard_leds r = (or_num_lock_bit r \<noteq> None \<or> or_caps_lock_bit r \<noteq> None \<or> or_scroll_lock_bit r \<noteq> None)"

record output_report_parser =
  op_global :: global_state
  op_local :: local_state
  op_global_stack :: "global_state list"
  op_reports :: "output_report_state list"
  op_has_report_ids :: bool
  op_collection_depth :: nat
  op_keyboard_application_depth :: "nat option"

definition output_parser_new :: output_report_parser where
  "output_parser_new = \<lparr>op_global = global_empty, op_local = local_empty, op_global_stack = [], op_reports = [],
     op_has_report_ids = False, op_collection_depth = 0, op_keyboard_application_depth = None\<rparr>"

definition usize_saturating_add :: "nat \<Rightarrow> nat \<Rightarrow> nat" where "usize_saturating_add a b = min (a + b) USIZE_MAX"
definition usize_saturating_mul :: "nat \<Rightarrow> nat \<Rightarrow> nat" where "usize_saturating_mul a b = min (a * b) USIZE_MAX"
definition usize_wrapping_add :: "nat \<Rightarrow> nat \<Rightarrow> nat" where "usize_wrapping_add a b = (a + b) mod (USIZE_MAX + 1)"

definition report_index :: "u8 \<Rightarrow> output_report_parser \<Rightarrow> output_report_parser \<times> nat option" where
  "report_index i s =
     (case position (\<lambda>r. or_report_id r = i) (op_reports s) of
        Some k \<Rightarrow> (s, Some k)
      | None \<Rightarrow>
          if length (op_reports s) = MAX_OUTPUT_REPORTS then (s, None)
          else (s\<lparr>op_reports := op_reports s @ [output_report_empty i]\<rparr>, Some (length (op_reports s))))"

definition assign_usage :: "local_state \<Rightarrow> nat \<Rightarrow> nat \<Rightarrow> output_report_state \<Rightarrow> output_report_state" where
  "assign_usage l bit_offset index r =
     (case usage_at index l of
        None \<Rightarrow> r
      | Some usage \<Rightarrow>
          (let b = Some (from_bit_offset (usize_wrapping_add bit_offset index)) in
           if usage = LED_USAGE_NUM_LOCK then r\<lparr>or_num_lock_bit := b\<rparr>
           else if usage = LED_USAGE_CAPS_LOCK then r\<lparr>or_caps_lock_bit := b\<rparr>
           else if usage = LED_USAGE_SCROLL_LOCK then r\<lparr>or_scroll_lock_bit := b\<rparr>
           else r))"

definition parse_output :: "u8 \<Rightarrow> output_report_parser \<Rightarrow> output_report_parser" where
  "parse_output flags s =
     (let report_size = unat (gs_report_size (op_global s)); report_count = unat (gs_report_count (op_global s)) in
      case report_index (gs_report_id (op_global s)) s of
        (s, None) \<Rightarrow> s\<lparr>op_local := local_empty\<rparr>
      | (s, Some k) \<Rightarrow>
          (let r = op_reports s ! k;
               bit_offset = or_bit_len r;
               r = r\<lparr>or_bit_len := usize_saturating_add bit_offset (usize_saturating_mul report_size report_count)\<rparr>;
               is_constant = (flags AND 0x01 \<noteq> 0); is_variable = (flags AND 0x02 \<noteq> 0);
               r = (if \<not> is_constant \<and> is_variable \<and> report_size = 1 \<and> gs_usage_page (op_global s) = USAGE_PAGE_LED
                      \<and> op_keyboard_application_depth s \<noteq> None
                    then fold (assign_usage (op_local s) bit_offset) [0..<report_count] r else r) in
           s\<lparr>op_reports := (op_reports s)[k := r], op_local := local_empty\<rparr>))"

definition begin_collection :: "u8 \<Rightarrow> output_report_parser \<Rightarrow> output_report_parser" where
  "begin_collection collection_type s =
     (let s = s\<lparr>op_collection_depth := usize_saturating_add (op_collection_depth s) 1\<rparr>;
          s = (if collection_type = 0x01 \<and> gs_usage_page (op_global s) = 0x01 \<and> usage_at 0 (op_local s) \<in> {Some 0x06, Some 0x07}
               then s\<lparr>op_keyboard_application_depth := Some (op_collection_depth s)\<rparr> else s) in
      s\<lparr>op_local := local_empty\<rparr>)"

definition end_collection :: "output_report_parser \<Rightarrow> output_report_parser" where
  "end_collection s =
     (let s = (if op_keyboard_application_depth s = Some (op_collection_depth s) then s\<lparr>op_keyboard_application_depth := None\<rparr> else s) in
      s\<lparr>op_collection_depth := op_collection_depth s - 1, op_local := local_empty\<rparr>)"

definition parse_item :: "u8 \<Rightarrow> u32 \<Rightarrow> output_report_parser \<Rightarrow> output_report_parser" where
  "parse_item prefix data s =
     (let item_type = drop_bit 2 prefix AND 0x03; tag = drop_bit 4 prefix; g = op_global s; l = op_local s in
      if item_type = 1 \<and> tag = 0 then s\<lparr>op_global := g\<lparr>gs_usage_page := ucast data\<rparr>\<rparr>
      else if item_type = 1 \<and> tag = 7 then s\<lparr>op_global := g\<lparr>gs_report_size := ucast data\<rparr>\<rparr>
      else if item_type = 1 \<and> tag = 8 then s\<lparr>op_global := g\<lparr>gs_report_id := ucast data\<rparr>, op_has_report_ids := True\<rparr>
      else if item_type = 1 \<and> tag = 9 then s\<lparr>op_global := g\<lparr>gs_report_count := ucast data\<rparr>\<rparr>
      else if item_type = 1 \<and> tag = 10 \<and> length (op_global_stack s) < MAX_GLOBAL_STACK_DEPTH then s\<lparr>op_global_stack := op_global_stack s @ [g]\<rparr>
      else if item_type = 1 \<and> tag = 11 \<and> op_global_stack s \<noteq> [] then s\<lparr>op_global := last (op_global_stack s), op_global_stack := butlast (op_global_stack s)\<rparr>
      else if item_type = 2 \<and> tag = 0 \<and> length (ls_usages l) < MAX_LOCAL_USAGES then s\<lparr>op_local := l\<lparr>ls_usages := ls_usages l @ [ucast data]\<rparr>\<rparr>
      else if item_type = 2 \<and> tag = 1 then s\<lparr>op_local := l\<lparr>ls_usage_min := ucast data, ls_has_usage_range := True\<rparr>\<rparr>
      else if item_type = 2 \<and> tag = 2 then s\<lparr>op_local := l\<lparr>ls_usage_max := ucast data, ls_has_usage_range := True\<rparr>\<rparr>
      else if item_type = 0 \<and> tag = 9 then parse_output (ucast data) s
      else if item_type = 0 \<and> tag = 10 then begin_collection (ucast data) s
      else if item_type = 0 \<and> tag = 12 then end_collection s
      else if item_type = 0 \<and> (tag = 8 \<or> tag = 11) then s\<lparr>op_local := local_empty\<rparr>
      else s)"

text \<open>\<open>data |= byte << (index * 8)\<close> over the bytes of an item: the little-endian value.\<close>

function output_parse :: "bytes \<Rightarrow> nat \<Rightarrow> output_report_parser \<Rightarrow> output_report_parser" where
  "output_parse d offset s =
     (if offset < length d then
        (let prefix = d ! offset; offset = offset + 1 in
         if prefix = 0xfe then
           if offset + 2 > length d then s
           else let item_end = offset + 2 + unat (d ! offset) in if item_end > length d then s else output_parse d item_end s
         else
           (let n = (if prefix AND 0x03 = 3 then 4 else unat (prefix AND 0x03)) in
            if offset + n > length d then s
            else output_parse d (offset + n) (parse_item prefix (from_le (subslice offset (offset + n) d)) s)))
      else s)"
  by pat_completeness auto
termination
  by (relation "measure (\<lambda>(d, offset, s). length d - offset)") auto

declare output_parse.simps [simp del]

definition keyboard_led_report :: "output_report_parser \<Rightarrow> led_output_error + keyboard_led_output_report" where
  "keyboard_led_report s =
     (case find has_keyboard_leds (op_reports s) of
        None \<Rightarrow> Inl LoMissingLedUsages
      | Some r \<Rightarrow>
          (let payload_len = (or_bit_len r + 7) div 8;
               byte_len = payload_len + (if op_has_report_ids s then 1 else 0) in
           if byte_len > MAX_KEYBOARD_LED_OUTPUT_REPORT_LEN then Inl LoReportTooLong
           else Inr \<lparr>lo_report_id = (if op_has_report_ids s then Some (or_report_id r) else None), lo_byte_len = byte_len,
                  lo_num_lock_bit = or_num_lock_bit r, lo_caps_lock_bit = or_caps_lock_bit r, lo_scroll_lock_bit = or_scroll_lock_bit r\<rparr>))"

definition led_from_report_descriptor :: "bytes \<Rightarrow> led_output_error + keyboard_led_output_report" where
  "led_from_report_descriptor d = keyboard_led_report (output_parse d 0 output_parser_new)"

section \<open>Lamp bits stay inside the report\<close>

definition lamps :: "output_report_state \<Rightarrow> bit_pos option list" where
  "lamps r = [or_num_lock_bit r, or_caps_lock_bit r, or_scroll_lock_bit r]"

definition lamps_ok :: "nat \<Rightarrow> output_report_state \<Rightarrow> bool" where
  "lamps_ok n r \<longleftrightarrow> set (flatten (lamps r)) \<subseteq> from_bit_offset ` {..<n} \<and> distinct (flatten (lamps r))"

lemma unat_mod8: "unat (of_nat (p mod 8) :: u8) = p mod 8"
proof -
  have "p mod 8 < 8" by simp
  then have "p mod 8 < 2 ^ LENGTH(8)" by (rule less_trans) simp
  then show ?thesis by (rule unat_of_nat_small)
qed

lemma from_bit_offset_inj: "from_bit_offset p = from_bit_offset q \<longleftrightarrow> p = q"
proof
  assume a: "from_bit_offset p = from_bit_offset q"
  then have "p div 8 = q div 8" "(of_nat (p mod 8) :: u8) = of_nat (q mod 8)" by (simp_all add: from_bit_offset_def)
  then have "p div 8 = q div 8" "p mod 8 = q mod 8" using unat_mod8[of p] unat_mod8[of q] by (metis, metis)
  then show "p = q" by (metis div_mult_mod_eq)
qed simp

lemma lamps_ok_mono: "lamps_ok n r \<Longrightarrow> n \<le> m \<Longrightarrow> lamps_ok m r"
  unfolding lamps_ok_def by (metis image_mono lessThan_subset_iff order_trans)

lemma assign_usage_ok:
  assumes "lamps_ok n r" "usize_wrapping_add bit_offset index = n"
  shows "lamps_ok (Suc n) (assign_usage l bit_offset index r)" "or_bit_len (assign_usage l bit_offset index r) = or_bit_len r"
    "or_report_id (assign_usage l bit_offset index r) = or_report_id r"
proof -
  have new: "from_bit_offset n \<notin> from_bit_offset ` {..<n}" using from_bit_offset_inj by auto
  then have fresh: "from_bit_offset n \<notin> set (flatten (lamps r))" using assms(1) unfolding lamps_ok_def by blast
  have mem: "from_bit_offset n \<in> from_bit_offset ` {..<Suc n}" by simp
  have old: "lamps_ok (Suc n) r" by (rule lamps_ok_mono[OF assms(1)]) simp
  show "lamps_ok (Suc n) (assign_usage l bit_offset index r)"
    using old fresh mem unfolding lamps_ok_def assign_usage_def assms(2) lamps_def Let_def
    by (cases "or_num_lock_bit r"; cases "or_caps_lock_bit r"; cases "or_scroll_lock_bit r") (auto split: option.split)
  show "or_bit_len (assign_usage l bit_offset index r) = or_bit_len r" "or_report_id (assign_usage l bit_offset index r) = or_report_id r"
    by (simp_all add: assign_usage_def Let_def split: option.split)
qed

lemma assign_all_ok:
  assumes "lamps_ok b r" "b + n \<le> USIZE_MAX"
  shows "lamps_ok (b + n) (fold (assign_usage l b) [0..<n] r) \<and> or_bit_len (fold (assign_usage l b) [0..<n] r) = or_bit_len r"
  using assms(2)
proof (induction n)
  case 0
  then show ?case using assms(1) by simp
next
  case (Suc n)
  then have w: "usize_wrapping_add b n = b + n" by (simp add: usize_wrapping_add_def)
  show ?case using Suc assign_usage_ok[OF _ w] by simp
qed

definition report_ok :: "output_report_state \<Rightarrow> bool" where
  "report_ok r \<longleftrightarrow> or_bit_len r < USIZE_MAX \<longrightarrow> lamps_ok (or_bit_len r) r"

definition parser_ok :: "output_report_parser \<Rightarrow> bool" where
  "parser_ok s \<longleftrightarrow> (\<forall>r\<in>set (op_reports s). report_ok r)"

lemma output_report_empty_ok: "report_ok (output_report_empty i)"
  by (simp add: report_ok_def lamps_ok_def lamps_def output_report_empty_def)

lemma lamps_ok_len [simp]: "lamps_ok n (r\<lparr>or_bit_len := m\<rparr>) = lamps_ok n r"
  by (simp add: lamps_ok_def lamps_def)

lemma assign_all_len: "or_bit_len (fold (assign_usage l b) is r) = or_bit_len r"
  by (induction "is" arbitrary: r) (auto simp: assign_usage_def Let_def split: option.split)

lemma extend_report_ok:
  assumes "report_ok r" "r' = r\<lparr>or_bit_len := usize_saturating_add (or_bit_len r) (usize_saturating_mul z count)\<rparr>"
    "r'' = r' \<or> z = 1 \<and> r'' = fold (assign_usage l (or_bit_len r)) [0..<count] r'"
  shows "report_ok r''"
  unfolding report_ok_def
proof
  assume less: "or_bit_len r'' < USIZE_MAX"
  have len: "or_bit_len r'' = usize_saturating_add (or_bit_len r) (usize_saturating_mul z count)" using assms(2,3) by (auto simp: assign_all_len)
  then have sum: "or_bit_len r'' = or_bit_len r + z * count" "or_bit_len r < USIZE_MAX"
    using less by (auto simp: usize_saturating_add_def usize_saturating_mul_def min_def split: if_splits)
  then have ok: "lamps_ok (or_bit_len r) r'" using assms(1,2) by (simp add: report_ok_def)
  show "lamps_ok (or_bit_len r'') r''"
  proof (cases "r'' = r'")
    case True
    then show ?thesis using lamps_ok_mono[OF ok] sum by simp
  next
    case False
    then have "z = 1" "r'' = fold (assign_usage l (or_bit_len r)) [0..<count] r'" using assms(3) by auto
    moreover from this have "or_bit_len r'' = or_bit_len r + count" using sum(1) by simp
    ultimately show ?thesis using assign_all_ok[OF ok, of count l] less by (metis nat_less_le)
  qed
qed

lemma report_index_ok:
  "parser_ok s \<Longrightarrow> report_index i s = (s', k) \<Longrightarrow> parser_ok s' \<and> (\<forall>j. k = Some j \<longrightarrow> j < length (op_reports s'))"
  by (auto simp: report_index_def parser_ok_def output_report_empty_ok dest: position_SomeD split: option.splits if_splits)

lemma parse_output_ok: "parser_ok s \<Longrightarrow> parser_ok (parse_output flags s)"
proof -
  assume ok: "parser_ok s"
  obtain s' k where i: "report_index (gs_report_id (op_global s)) s = (s', k)" by fastforce
  note ok' = report_index_ok[OF ok i]
  show ?thesis
  proof (cases k)
    case None
    then show ?thesis using i ok' by (simp add: parse_output_def parser_ok_def)
  next
    case (Some j)
    let ?n = "unat (gs_report_count (op_global s))" and ?z = "unat (gs_report_size (op_global s))" and ?r = "op_reports s' ! j"
    let ?r' = "?r\<lparr>or_bit_len := usize_saturating_add (or_bit_len ?r) (usize_saturating_mul ?z ?n)\<rparr>"
    have j: "report_ok ?r" using ok' Some by (simp add: parser_ok_def)
    obtain r'' where p: "parse_output flags s = s'\<lparr>op_reports := (op_reports s')[j := r''], op_local := local_empty\<rparr>"
      "r'' = ?r' \<or> ?z = 1 \<and> r'' = fold (assign_usage (op_local s') (or_bit_len ?r)) [0..<?n] ?r'"
      by (simp add: parse_output_def i Some Let_def del: upt_Suc)
    have "report_ok r''" by (rule extend_report_ok[OF j refl p(2)])
    then show ?thesis using ok' set_update_subset_insert[of "op_reports s'" j r''] by (auto simp: p(1) parser_ok_def)
  qed
qed

lemma if_either: "P x \<Longrightarrow> P y \<Longrightarrow> P (if c then x else y)"
  by simp

lemma parse_item_ok: "parser_ok s \<Longrightarrow> parser_ok (parse_item prefix data s)"
proof -
  assume ok: "parser_ok s"
  have same: "parser_ok s'" if "op_reports s' = op_reports s" for s' using ok that by (simp add: parser_ok_def)
  have collection: "op_reports (begin_collection (ucast data) s) = op_reports s" "op_reports (end_collection s) = op_reports s"
    by (simp_all add: begin_collection_def end_collection_def Let_def)
  show ?thesis unfolding parse_item_def Let_def
    by (intro if_either[where P = parser_ok] parse_output_ok[OF ok]) (rule same, simp add: collection)+
qed

lemma output_parse_ok: "parser_ok s \<Longrightarrow> parser_ok (output_parse d offset s)"
proof (induction d offset s rule: output_parse.induct)
  case (1 d offset s)
  show ?case by (subst output_parse.simps) (use 1 in \<open>simp add: Let_def parse_item_ok\<close>)
qed

section \<open>Building the output report\<close>

definition pos_inside :: "nat \<Rightarrow> bit_pos option \<Rightarrow> bool" where
  "pos_inside n pos = (case pos of None \<Rightarrow> True | Some p \<Rightarrow> bx_byte_index p < n \<and> bx_bit_index p < 8)"

definition lamp_at :: "nat \<Rightarrow> bit_pos option \<Rightarrow> nat \<Rightarrow> nat \<Rightarrow> bool" where
  "lamp_at off pos j k = (case pos of None \<Rightarrow> False | Some p \<Rightarrow> j = off + bx_byte_index p \<and> k = unat (bx_bit_index p))"

lemma set_led_bit_effect:
  assumes "pos_inside n pos" "off + n \<le> length bs"
  shows "\<exists>bs'. set_led_bit off pos enabled bs = Some bs' \<and> length bs' = length bs \<and>
    (\<forall>j<length bs. \<forall>k<8. bit (bs' ! j) k = (if lamp_at off pos j k then enabled else bit (bs ! j) k))"
proof (cases pos)
  case None
  then show ?thesis by (simp add: set_led_bit_def lamp_at_def)
next
  case (Some p)
  then have p: "off + bx_byte_index p < length bs" "bx_bit_index p < 8" using assms by (auto simp: pos_inside_def)
  then show ?thesis
    by (auto simp: Some set_led_bit_def lamp_at_def Let_def nth_list_update bit_simps)
qed

definition layout_ok :: "keyboard_led_output_report \<Rightarrow> bool" where
  "layout_ok r \<longleftrightarrow>
     (let off = (if lo_report_id r = None then 0 else 1); n = lo_byte_len r - off; ps = [lo_num_lock_bit r, lo_caps_lock_bit r, lo_scroll_lock_bit r] in
      off \<le> lo_byte_len r \<and> lo_byte_len r \<le> MAX_KEYBOARD_LED_OUTPUT_REPORT_LEN \<and> list_all (pos_inside n) ps \<and> distinct (flatten ps))"

lemma from_bit_offset_inside: "p < n \<Longrightarrow> bx_byte_index (from_bit_offset p) < (n + 7) div 8 \<and> bx_bit_index (from_bit_offset p) < 8"
  by (auto simp: from_bit_offset_def word_less_nat_alt unat_mod8)

lemma led_layout_ok: "led_from_report_descriptor d = Inr r \<Longrightarrow> layout_ok r"
proof -
  assume "led_from_report_descriptor d = Inr r"
  then obtain x s where x: "find has_keyboard_leds (op_reports s) = Some x" "s = output_parse d 0 output_parser_new"
    "r = \<lparr>lo_report_id = (if op_has_report_ids s then Some (or_report_id x) else None),
          lo_byte_len = (or_bit_len x + 7) div 8 + (if op_has_report_ids s then 1 else 0), lo_num_lock_bit = or_num_lock_bit x,
          lo_caps_lock_bit = or_caps_lock_bit x, lo_scroll_lock_bit = or_scroll_lock_bit x\<rparr>"
    "(or_bit_len x + 7) div 8 + (if op_has_report_ids s then 1 else 0) \<le> MAX_KEYBOARD_LED_OUTPUT_REPORT_LEN"
    unfolding led_from_report_descriptor_def keyboard_led_report_def Let_def by (auto split: option.splits if_splits)
  have "parser_ok s" unfolding x(2) by (rule output_parse_ok) (simp add: parser_ok_def output_parser_new_def)
  moreover have "x \<in> set (op_reports s)" using x(1) by (auto simp: find_Some_iff)
  moreover have "or_bit_len x < USIZE_MAX" using x(4) by (simp add: MAX_KEYBOARD_LED_OUTPUT_REPORT_LEN_def USIZE_MAX_def)
  ultimately have ok: "lamps_ok (or_bit_len x) x" by (simp add: parser_ok_def report_ok_def)
  have "list_all (pos_inside ((or_bit_len x + 7) div 8)) (lamps x)"
    unfolding list_all_iff pos_inside_def
  proof
    fix pos assume pos: "pos \<in> set (lamps x)"
    show "case pos of None \<Rightarrow> True | Some p \<Rightarrow> bx_byte_index p < (or_bit_len x + 7) div 8 \<and> bx_bit_index p < 8"
    proof (cases pos)
      case (Some p)
      then have "p \<in> from_bit_offset ` {..<or_bit_len x}" using ok pos unfolding lamps_ok_def by (metis set_flatten subsetD)
      then show ?thesis using from_bit_offset_inside Some by auto
    qed simp
  qed
  then show ?thesis using ok x(3,4) by (simp add: layout_ok_def Let_def lamps_ok_def lamps_def)
qed

lemma distinct_three:
  assumes "distinct (flatten [a, b, c])"
  shows "a = Some x \<Longrightarrow> b \<noteq> Some x" "a = Some x \<Longrightarrow> c \<noteq> Some x" "b = Some x \<Longrightarrow> c \<noteq> Some x"
  using assms by (cases a; cases b; cases c; auto)+

lemma layout_build:
  assumes "layout_ok r"
  shows "\<exists>b. led_build r leds = Some (Inr b) \<and> lb_len b = lo_byte_len r \<and> length (lb_bytes b) = 8 \<and>
    (\<forall>j<8. \<forall>k<8. bit (lb_bytes b ! j) k \<longleftrightarrow>
       (case lo_report_id r of Some i \<Rightarrow> j = 0 \<and> bit i k | None \<Rightarrow> False) \<or>
       (let off = (if lo_report_id r = None then 0 else 1) in
        lamp_at off (lo_num_lock_bit r) j k \<and> leds_contain leds LED_NUM_LOCK \<or>
        lamp_at off (lo_caps_lock_bit r) j k \<and> leds_contain leds LED_CAPS_LOCK \<or>
        lamp_at off (lo_scroll_lock_bit r) j k \<and> leds_contain leds LED_SCROLL_LOCK))"
proof -
  let ?off = "if lo_report_id r = None then 0 else 1" let ?n = "lo_byte_len r - ?off"
  let ?z = "replicate 8 (0 :: u8)" let ?b0 = "case lo_report_id r of Some i \<Rightarrow> ?z[0 := i] | None \<Rightarrow> ?z"
  have ins: "pos_inside ?n (lo_num_lock_bit r)" "pos_inside ?n (lo_caps_lock_bit r)" "pos_inside ?n (lo_scroll_lock_bit r)"
    and dist: "distinct (flatten [lo_num_lock_bit r, lo_caps_lock_bit r, lo_scroll_lock_bit r])" and len: "?off + ?n \<le> 8" "lo_byte_len r \<le> 8"
    using assms by (auto simp: layout_ok_def Let_def MAX_KEYBOARD_LED_OUTPUT_REPORT_LEN_def)
  have l0: "length ?b0 = 8" by (simp split: option.split)
  obtain b1 where b1: "set_led_bit ?off (lo_num_lock_bit r) (leds_contain leds LED_NUM_LOCK) ?b0 = Some b1" "length b1 = 8"
    "\<And>j k. j < 8 \<Longrightarrow> k < 8 \<Longrightarrow> bit (b1 ! j) k = (if lamp_at ?off (lo_num_lock_bit r) j k then leds_contain leds LED_NUM_LOCK else bit (?b0 ! j) k)"
    using set_led_bit_effect[OF ins(1), of ?off ?b0 "leds_contain leds LED_NUM_LOCK"] len l0 by auto
  obtain b2 where b2: "set_led_bit ?off (lo_caps_lock_bit r) (leds_contain leds LED_CAPS_LOCK) b1 = Some b2" "length b2 = 8"
    "\<And>j k. j < 8 \<Longrightarrow> k < 8 \<Longrightarrow> bit (b2 ! j) k = (if lamp_at ?off (lo_caps_lock_bit r) j k then leds_contain leds LED_CAPS_LOCK else bit (b1 ! j) k)"
    using set_led_bit_effect[OF ins(2), of ?off b1 "leds_contain leds LED_CAPS_LOCK"] len b1(2) by auto
  obtain b3 where b3: "set_led_bit ?off (lo_scroll_lock_bit r) (leds_contain leds LED_SCROLL_LOCK) b2 = Some b3" "length b3 = 8"
    "\<And>j k. j < 8 \<Longrightarrow> k < 8 \<Longrightarrow> bit (b3 ! j) k = (if lamp_at ?off (lo_scroll_lock_bit r) j k then leds_contain leds LED_SCROLL_LOCK else bit (b2 ! j) k)"
    using set_led_bit_effect[OF ins(3), of ?off b2 "leds_contain leds LED_SCROLL_LOCK"] len b2(2) by auto
  have off: "(case lo_report_id r of Some i \<Rightarrow> 1 | None \<Rightarrow> 0) = ?off" by (simp split: option.split)
  have built: "led_build r leds = Some (Inr \<lparr>lb_len = lo_byte_len r, lb_report_id = lo_report_id r, lb_bytes = b3\<rparr>)"
    unfolding led_build_def Let_def off MAX_KEYBOARD_LED_OUTPUT_REPORT_LEN_def b1(1) bind.bind_lunit b2(1) b3(1) using len(2) by simp
  have apart: "\<not> (lamp_at ?off p j k \<and> lamp_at ?off q j k)" if ne: "\<And>x. p = Some x \<Longrightarrow> q \<noteq> Some x" for p q j k
  proof
    assume "lamp_at ?off p j k \<and> lamp_at ?off q j k"
    then obtain x y where "p = Some x" "q = Some y" "bx_byte_index x = bx_byte_index y" "unat (bx_bit_index x) = unat (bx_bit_index y)"
      by (auto simp: lamp_at_def split: option.splits)
    moreover from this have "x = y" by (cases x; cases y) (simp add: word_unat_eq_iff)
    ultimately show False using ne by blast
  qed
  have pq: "\<And>x. lo_num_lock_bit r = Some x \<Longrightarrow> lo_caps_lock_bit r \<noteq> Some x" "\<And>x. lo_num_lock_bit r = Some x \<Longrightarrow> lo_scroll_lock_bit r \<noteq> Some x"
    "\<And>x. lo_caps_lock_bit r = Some x \<Longrightarrow> lo_scroll_lock_bit r \<noteq> Some x"
    using distinct_three[OF dist] by simp_all
  have zero: "bit (?b0 ! j) k \<longleftrightarrow> (case lo_report_id r of Some i \<Rightarrow> j = 0 \<and> bit i k | None \<Rightarrow> False)" if "j < 8" for j k
    using that by (auto simp: nth_list_update split: option.split)
  have head: "\<not> lamp_at ?off p 0 k" if "lo_report_id r \<noteq> None" for p k using that by (auto simp: lamp_at_def split: option.split)
  have "bit (b3 ! j) k \<longleftrightarrow> (case lo_report_id r of Some i \<Rightarrow> j = 0 \<and> bit i k | None \<Rightarrow> False) \<or>
        lamp_at ?off (lo_num_lock_bit r) j k \<and> leds_contain leds LED_NUM_LOCK \<or>
        lamp_at ?off (lo_caps_lock_bit r) j k \<and> leds_contain leds LED_CAPS_LOCK \<or>
        lamp_at ?off (lo_scroll_lock_bit r) j k \<and> leds_contain leds LED_SCROLL_LOCK" if "j < 8" "k < 8" for j k
    unfolding b3(3)[OF that] b2(3)[OF that] b1(3)[OF that] zero[OF that(1)]
    using apart[of "lo_num_lock_bit r" "lo_caps_lock_bit r" j k] apart[of "lo_num_lock_bit r" "lo_scroll_lock_bit r" j k]
      apart[of "lo_caps_lock_bit r" "lo_scroll_lock_bit r" j k] pq head[of _ k]
    by (cases "lo_report_id r") auto
  then show ?thesis using built b3(2) by (simp add: Let_def)
qed

text \<open>
  C40: Lamps are written where the keyboard expects them. Whatever report descriptor a device sends,
  if the parser accepts a lamp layout from it, building the output report never goes out of bounds
  and never fails, the report is at most eight bytes long, and its set bits are exactly those of
  the report identifier and, at its own position, of each lamp that is on.
\<close>

theorem led_output_exact:
  assumes "led_from_report_descriptor d = Inr r"
  shows "\<exists>b. led_build r leds = Some (Inr b) \<and> lb_len b = lo_byte_len r \<and> lo_byte_len r \<le> 8 \<and> length (lb_bytes b) = 8 \<and>
    (\<forall>j<8. \<forall>k<8. bit (lb_bytes b ! j) k \<longleftrightarrow>
       (case lo_report_id r of Some i \<Rightarrow> j = 0 \<and> bit i k | None \<Rightarrow> False) \<or>
       (let off = (if lo_report_id r = None then 0 else 1) in
        lamp_at off (lo_num_lock_bit r) j k \<and> leds_contain leds LED_NUM_LOCK \<or>
        lamp_at off (lo_caps_lock_bit r) j k \<and> leds_contain leds LED_CAPS_LOCK \<or>
        lamp_at off (lo_scroll_lock_bit r) j k \<and> leds_contain leds LED_SCROLL_LOCK))"
proof -
  have ok: "layout_ok r" by (rule led_layout_ok[OF assms])
  then have "lo_byte_len r \<le> 8" by (simp add: layout_ok_def Let_def MAX_KEYBOARD_LED_OUTPUT_REPORT_LEN_def)
  then show ?thesis using layout_build[OF ok, of leds] by blast
qed

definition sample_led_descriptor :: bytes where
  "sample_led_descriptor = [0x05, 1, 0x09, 6, 0xa1, 1, 0x85, 4, 0x05, 8, 0x19, 1, 0x29, 3, 0x75, 1, 0x95, 3, 0x91, 2, 0xc0]"

theorem led_output_exact_witness:
  "\<exists>r b. led_from_report_descriptor sample_led_descriptor = Inr r \<and> led_build r LED_CAPS_LOCK = Some (Inr b) \<and> bit (lb_bytes b ! 1) 1 \<and> \<not> bit (lb_bytes b ! 1) 0"
proof -
  let ?r = "\<lparr>lo_report_id = Some 4, lo_byte_len = 2, lo_num_lock_bit = Some (bit_pos_new 0 0), lo_caps_lock_bit = Some (bit_pos_new 0 1), lo_scroll_lock_bit = Some (bit_pos_new 0 2)\<rparr>"
  have up: "[0..<3] = [0, 1, 2 :: nat]" by (simp add: upt_rec)
  have r: "led_from_report_descriptor sample_led_descriptor = Inr ?r"
    by (simp add: led_from_report_descriptor_def sample_led_descriptor_def output_parse.simps output_parser_new_def parse_item_def Let_def subslice_def
        begin_collection_def end_collection_def parse_output_def report_index_def usage_at_def local_empty_def global_empty_def USAGE_PAGE_LED_def
        MAX_LOCAL_USAGES_def MAX_OUTPUT_REPORTS_def usize_saturating_add_def usize_saturating_mul_def usize_wrapping_add_def USIZE_MAX_def assign_usage_def
        output_report_empty_def LED_USAGE_NUM_LOCK_def LED_USAGE_CAPS_LOCK_def LED_USAGE_SCROLL_LOCK_def keyboard_led_report_def has_keyboard_leds_def
        MAX_KEYBOARD_LED_OUTPUT_REPORT_LEN_def from_bit_offset_def bit_pos_new_def up)
  have c: "leds_contain LED_CAPS_LOCK LED_CAPS_LOCK" by (simp add: leds_contain_def)
  obtain b where b: "led_build ?r LED_CAPS_LOCK = Some (Inr b)"
    "\<And>j k. j < 8 \<Longrightarrow> k < 8 \<Longrightarrow> bit (lb_bytes b ! j) k \<longleftrightarrow> j = 0 \<and> bit (4 :: u8) k \<or> lamp_at 1 (Some (bit_pos_new 0 0)) j k \<and> leds_contain LED_CAPS_LOCK LED_NUM_LOCK \<or>
        lamp_at 1 (Some (bit_pos_new 0 1)) j k \<and> leds_contain LED_CAPS_LOCK LED_CAPS_LOCK \<or>
        lamp_at 1 (Some (bit_pos_new 0 2)) j k \<and> leds_contain LED_CAPS_LOCK LED_SCROLL_LOCK"
    using led_output_exact[OF r, of LED_CAPS_LOCK] by (auto simp: Let_def)
  have n: "\<not> leds_contain LED_CAPS_LOCK LED_NUM_LOCK" by code_simp
  show ?thesis using r b(1) b(2)[of 1 1] b(2)[of 1 0] c n by (auto simp: lamp_at_def bit_pos_new_def)
qed

section \<open>Bus power\<close>

definition USB_HOST_SUSPEND_DELAY_MS :: u64 where "USB_HOST_SUSPEND_DELAY_MS = 3000"

datatype usb_host_bus_state = BusRunning | BusSuspended

record usb_host_power_policy =
  pw_state :: usb_host_bus_state
  pw_suspend_deadline_ms :: "u64 option"

definition power_policy_new :: usb_host_power_policy where
  "power_policy_new = \<lparr>pw_state = BusRunning, pw_suspend_deadline_ms = None\<rparr>"

definition power_update :: "u64 \<Rightarrow> bool \<Rightarrow> bool \<Rightarrow> usb_host_power_policy \<Rightarrow> usb_host_power_policy \<times> usb_host_bus_state option" where
  "power_update now usb_device_present computer_connected w =
     (if \<not> usb_device_present \<or> computer_connected then
        (let w = w\<lparr>pw_suspend_deadline_ms := None\<rparr> in
         if pw_state w = BusSuspended then (w\<lparr>pw_state := BusRunning\<rparr>, Some BusRunning) else (w, None))
      else if pw_state w = BusSuspended then (w, None)
      else
        (let deadline = (case pw_suspend_deadline_ms w of Some t \<Rightarrow> t | None \<Rightarrow> sat_add now USB_HOST_SUSPEND_DELAY_MS);
             w = w\<lparr>pw_suspend_deadline_ms := Some deadline\<rparr> in
         if now < deadline then (w, None)
         else (w\<lparr>pw_suspend_deadline_ms := None, pw_state := BusSuspended\<rparr>, Some BusSuspended)))"

text \<open>The bus is suspended only after a delay without computer, counted from the first update that saw none.\<close>

lemma power_update_suspends:
  assumes "snd (power_update now present connected w) = Some BusSuspended"
  shows "present \<and> \<not> connected \<and> pw_state w = BusRunning \<and>
    (case pw_suspend_deadline_ms w of Some t \<Rightarrow> t \<le> now | None \<Rightarrow> sat_add now USB_HOST_SUSPEND_DELAY_MS \<le> now)"
  using assms by (cases "pw_state w") (auto simp: power_update_def Let_def not_less split: if_splits option.splits)

lemma power_update_runs: "connected \<or> \<not> present \<Longrightarrow> pw_state (fst (power_update now present connected w)) = BusRunning"
  by (cases "pw_state w") (auto simp: power_update_def Let_def)

end
