(* ===== verification/HS_RuntimeCommands.thy ===== *)
theory HS_RuntimeCommands
  imports HS_BridgeActions HS_Management HS_ProfileTransfer HS_UsbOutput HS_Movement HS_Slots
begin

text \<open>
  The commands the runtime hands to the tasks around it (\<open>runtime/command.rs\<close>), their routing to
  the queue of each task (\<open>runtime/queues.rs\<close>) and the diagnostics counters
  (\<open>runtime/diagnostics.rs\<close>). A batch is validated before a queue changes; the theorem at the
  end shows that the validation and the dispatch count the same, so a batch is either delivered
  whole or not at all. The flag \<open>w\<close> is the \<open>dual-s3-wired\<close> feature; the capacities are the
  const parameters of the queues.
\<close>

section \<open>Diagnostics\<close>

datatype runtime_diagnostics_event =
  DeResetReason u8 | DeBrownout | DeBleDisconnected host_id u8 | DeBleNotifyFailed | DeBleNotifyTimedOut bool
  | DeBleManagementNotifyTimedOut | DeUsbLedWriteTimedOut | DeUsbError | DeFlashWrite bool

record runtime_counters =
  rc_runtime_input_queue_high_watermark :: u16
  rc_ble_control_queue_high_watermark :: u16
  rc_ble_notify_queue_high_watermark :: u16
  rc_usb_command_queue_high_watermark :: u16
  rc_storage_queue_high_watermark :: u16
  rc_status_queue_high_watermark :: u16
  rc_ble_notify_dropped :: u32
  rc_ble_notify_timeouts :: u32
  rc_critical_release_failures :: u32
  rc_mouse_reports_coalesced :: u32
  rc_mouse_movement_saturated :: u32
  rc_mirror_non_target_input_dropped :: u32
  rc_status_updates_dropped :: u32
  rc_usb_led_write_timeouts :: u32

definition runtime_counters_new :: runtime_counters where
  "runtime_counters_new =
     \<lparr>rc_runtime_input_queue_high_watermark = 0, rc_ble_control_queue_high_watermark = 0,
      rc_ble_notify_queue_high_watermark = 0, rc_usb_command_queue_high_watermark = 0,
      rc_storage_queue_high_watermark = 0, rc_status_queue_high_watermark = 0, rc_ble_notify_dropped = 0,
      rc_ble_notify_timeouts = 0, rc_critical_release_failures = 0, rc_mouse_reports_coalesced = 0,
      rc_mouse_movement_saturated = 0, rc_mirror_non_target_input_dropped = 0, rc_status_updates_dropped = 0,
      rc_usb_led_write_timeouts = 0\<rparr>"

record runtime_transport_metrics =
  tm_runtime_input_depth :: nat
  tm_ble_control_depth :: nat
  tm_ble_notify_depth :: nat
  tm_usb_depth :: nat
  tm_storage_depth :: nat
  tm_status_depth :: nat
  tm_mouse :: movement_stats
  tm_status_updates_dropped :: u32

definition saturating_depth :: "nat \<Rightarrow> u16" where
  "saturating_depth depth = of_nat (min depth 65535)"

lemma unat_saturating_depth: "unat (saturating_depth n) = min n 65535"
  by (simp add: saturating_depth_def unat_of_nat_small min_def)

section \<open>Commands\<close>

record status_snapshot =
  ss_sequence :: u64
  ss_active_host :: "host_id option"
  ss_connected_hosts :: u8
  ss_pairing_host :: "host_id option"
  ss_usb_interface_count :: u8
  ss_quiescing :: bool
  ss_bridge_stats :: bridge_stats
  ss_runtime_counters :: runtime_counters

definition status_snapshot_empty :: status_snapshot where
  "status_snapshot_empty =
     \<lparr>ss_sequence = 0, ss_active_host = None, ss_connected_hosts = 0, ss_pairing_host = None, ss_usb_interface_count = 0,
      ss_quiescing = False, ss_bridge_stats = bridge_stats_new, ss_runtime_counters = runtime_counters_new\<rparr>"

definition snapshot_bridge_status :: "status_snapshot \<Rightarrow> bridge_status" where
  "snapshot_bridge_status s = \<lparr>bst_active_target = ss_active_host s, bst_pairable_host = ss_pairing_host s\<rparr>"

definition RUNTIME_HOSTS_MAX :: nat where "RUNTIME_HOSTS_MAX = STORED_HOSTS_MAX"

definition snapshot_connected_hosts :: "status_snapshot \<Rightarrow> host_id list" where
  "snapshot_connected_hosts s =
     map (\<lambda>slot. of_nat (slot + 1)) (filter (\<lambda>slot. ss_connected_hosts s AND push_bit slot 1 \<noteq> 0) [0..<RUNTIME_HOSTS_MAX])"

datatype ble_hid_report = BleKeyboard keyboard_report | BleMouse mouse_report | BleConsumer consumer_report

fun ble_report_of :: "standard_hid_report \<Rightarrow> ble_hid_report" where
  "ble_report_of (KeyboardReport r) = BleKeyboard r"
| "ble_report_of (MouseReport r) = BleMouse r"
| "ble_report_of (ConsumerReport r) = BleConsumer r"

fun standard_report_of :: "ble_hid_report \<Rightarrow> standard_hid_report" where
  "standard_report_of (BleKeyboard r) = KeyboardReport r"
| "standard_report_of (BleMouse r) = MouseReport r"
| "standard_report_of (BleConsumer r) = ConsumerReport r"

fun ble_report_kind :: "ble_hid_report \<Rightarrow> report_kind" where
  "ble_report_kind (BleKeyboard _) = RkKeyboard"
| "ble_report_kind (BleMouse _) = RkMouse"
| "ble_report_kind (BleConsumer _) = RkConsumer"

lemma report_conversion [simp]:
  "standard_report_of (ble_report_of r) = r" "ble_report_kind (ble_report_of r) = report_kind_of r"
  "ble_report_of (standard_report_of b) = b"
  by (cases r; simp)+ (cases b; simp)

datatype runtime_effect = SetLogLevel u8

datatype command_class = ClassCritical | ClassRealtime | ClassBestEffort

datatype ble_command_lane = LaneControl | LaneNotify

datatype ble_task_command =
  BtNotify host_id ble_hid_report notify_reason | BtAllowPairing host_id | BtRejectPairing host_id
  | BtClearBond host_id "stored_bond option" | BtActivateInput host_id
  | BtManagementResponse host_id management_response | BtManagementEvent host_id management_event

datatype device_task_command =
  DtStandardReport standard_hid_report notify_reason | DtReleaseAll | DtActivateFallback u32
  | DtActivateMirror activate_profile | DtProfileBegin profile_begin | DtProfileChunk profile_chunk_data
  | DtProfileCommit u32 | DtRawEndpointIn raw_endpoint_report | DtControlResponse control_response
  | DtManagementResponse management_response | DtManagementEvent management_event

fun device_command_class :: "device_task_command \<Rightarrow> command_class" where
  "device_command_class (DtStandardReport _ reason) = (if reason = NrInput then ClassRealtime else ClassCritical)"
| "device_command_class DtReleaseAll = ClassCritical"
| "device_command_class (DtActivateFallback _) = ClassCritical"
| "device_command_class (DtActivateMirror _) = ClassCritical"
| "device_command_class (DtProfileBegin _) = ClassBestEffort"
| "device_command_class (DtProfileChunk _) = ClassBestEffort"
| "device_command_class (DtProfileCommit _) = ClassBestEffort"
| "device_command_class (DtRawEndpointIn _) = ClassRealtime"
| "device_command_class (DtControlResponse _) = ClassCritical"
| "device_command_class (DtManagementResponse _) = ClassCritical"
| "device_command_class (DtManagementEvent _) = ClassCritical"

fun device_command_of :: "profile_transfer_command \<Rightarrow> device_task_command" where
  "device_command_of (PtBegin b) = DtProfileBegin b"
| "device_command_of (PtChunk c) = DtProfileChunk c"
| "device_command_of (PtCommit transfer_id) = DtProfileCommit transfer_id"

fun changes_advertising_policy :: "ble_task_command \<Rightarrow> bool" where
  "changes_advertising_policy (BtAllowPairing _) = True"
| "changes_advertising_policy (BtRejectPairing _) = True"
| "changes_advertising_policy (BtClearBond _ _) = True"
| "changes_advertising_policy _ = False"

fun ble_command_lane_of :: "ble_task_command \<Rightarrow> ble_command_lane" where
  "ble_command_lane_of (BtNotify _ _ reason) = (if reason = NrInput then LaneNotify else LaneControl)"
| "ble_command_lane_of _ = LaneControl"

fun ble_command_class :: "ble_task_command \<Rightarrow> command_class" where
  "ble_command_class (BtNotify _ _ reason) = (if reason = NrInput then ClassRealtime else ClassCritical)"
| "ble_command_class (BtManagementEvent _ _) = ClassBestEffort"
| "ble_command_class _ = ClassCritical"

datatype usb_host_task_command =
  UtKeyboardLedWrite interface_id device_id keyboard_led_output_bytes | UtSetBusState usb_host_bus_state
  | UtMirrorEndpointOut device_id raw_endpoint_report | UtMirrorControlRequest device_id control_request

fun usb_command_class :: "usb_host_task_command \<Rightarrow> command_class" where
  "usb_command_class (UtKeyboardLedWrite _ _ _) = ClassRealtime"
| "usb_command_class _ = ClassCritical"

fun led_target :: "usb_host_task_command \<Rightarrow> (interface_id \<times> device_id) option" where
  "led_target (UtKeyboardLedWrite i d _) = Some (i, d)"
| "led_target _ = None"

fun target_device_id :: "usb_host_task_command \<Rightarrow> device_id option" where
  "target_device_id (UtKeyboardLedWrite _ d _) = Some d"
| "target_device_id (UtSetBusState _) = None"
| "target_device_id (UtMirrorEndpointOut d _) = Some d"
| "target_device_id (UtMirrorControlRequest d _) = Some d"

datatype storage_task_command = StPersist storage_state persist_priority | StFactoryReset

definition storage_command_class :: "storage_task_command \<Rightarrow> command_class" where
  "storage_command_class c = ClassCritical"

record management_task_response =
  mt_destination :: management_destination
  mt_response :: management_response

record status_task_command =
  sc_status :: bridge_status
  sc_snapshot :: status_snapshot
  sc_management :: "management_task_response option"

definition status_command_class :: "status_task_command \<Rightarrow> command_class" where
  "status_command_class c = (if sc_management c \<noteq> None then ClassCritical else ClassBestEffort)"

datatype runtime_command =
    RcBle ble_task_command
  | RcDevice device_task_command
  | RcUsbKeyboardLedWrite interface_id device_id keyboard_led_output_bytes
  | RcSetUsbHostBusState usb_host_bus_state
  | RcUsbMirrorEndpointOut device_id raw_endpoint_report
  | RcUsbMirrorControlRequest device_id control_request
  | RcPersistStorage storage_state persist_priority
  | RcStatusChanged status_snapshot
  | RcManagementResponse management_destination management_response
  | RcApplyEffect runtime_effect

section \<open>Queues\<close>

definition RUNTIME_COMMAND_CAPACITY :: nat where "RUNTIME_COMMAND_CAPACITY = RUNTIME_BRIDGE_ACTION_CAPACITY + 1"
definition RUNTIME_BLE_COMMAND_QUEUE_CAPACITY :: nat where "RUNTIME_BLE_COMMAND_QUEUE_CAPACITY = RUNTIME_COMMAND_CAPACITY"
definition RUNTIME_USB_COMMAND_QUEUE_CAPACITY :: nat where "RUNTIME_USB_COMMAND_QUEUE_CAPACITY = RUNTIME_COMMAND_CAPACITY"
definition RUNTIME_DEVICE_COMMAND_QUEUE_CAPACITY :: nat where "RUNTIME_DEVICE_COMMAND_QUEUE_CAPACITY = RUNTIME_COMMAND_CAPACITY"
definition RUNTIME_STORAGE_COMMAND_QUEUE_CAPACITY :: nat where "RUNTIME_STORAGE_COMMAND_QUEUE_CAPACITY = RUNTIME_COMMAND_CAPACITY"
definition RUNTIME_STATUS_COMMAND_QUEUE_CAPACITY :: nat where "RUNTIME_STATUS_COMMAND_QUEUE_CAPACITY = RUNTIME_COMMAND_CAPACITY"

datatype runtime_dispatch_error =
  RdBleQueueCapacity | RdDeviceQueueCapacity | RdUsbQueueCapacity | RdStorageQueueCapacity | RdStatusQueueCapacity
  | RdEffectQueueCapacity

record runtime_command_queues =
  qu_ble :: "ble_task_command list"
  qu_device :: "device_task_command list"
  qu_usb_host :: "usb_host_task_command list"
  qu_storage :: "storage_task_command list"
  qu_status :: "status_task_command list"
  qu_effects :: "runtime_effect list"

definition queues_new :: runtime_command_queues where
  "queues_new = \<lparr>qu_ble = [], qu_device = [], qu_usb_host = [], qu_storage = [], qu_status = [], qu_effects = []\<rparr>"

definition queues_clear :: "runtime_command_queues \<Rightarrow> runtime_command_queues" where
  "queues_clear q = q\<lparr>qu_ble := [], qu_device := [], qu_usb_host := [], qu_storage := [], qu_status := [], qu_effects := []\<rparr>"

record queue_capacities =
  qc_ble :: nat
  qc_usb_host :: nat
  qc_storage :: nat
  qc_status :: nat

definition default_queue_capacities :: queue_capacities where
  "default_queue_capacities =
     \<lparr>qc_ble = RUNTIME_BLE_COMMAND_QUEUE_CAPACITY, qc_usb_host = RUNTIME_USB_COMMAND_QUEUE_CAPACITY,
      qc_storage = RUNTIME_STORAGE_COMMAND_QUEUE_CAPACITY, qc_status = RUNTIME_STATUS_COMMAND_QUEUE_CAPACITY\<rparr>"

record lane_counts =
  lc_ble :: nat
  lc_device :: nat
  lc_usb :: nat
  lc_storage :: nat
  lc_status :: nat
  lc_effects :: nat

definition lane_counts_zero :: lane_counts where
  "lane_counts_zero = \<lparr>lc_ble = 0, lc_device = 0, lc_usb = 0, lc_storage = 0, lc_status = 0, lc_effects = 0\<rparr>"

fun count_command :: "bool \<Rightarrow> runtime_command \<Rightarrow> lane_counts \<Rightarrow> lane_counts" where
  "count_command w (RcBle _) n = n\<lparr>lc_ble := lc_ble n + 1\<rparr>"
| "count_command w (RcDevice _) n = n\<lparr>lc_device := lc_device n + 1\<rparr>"
| "count_command w (RcUsbKeyboardLedWrite _ _ _) n = n\<lparr>lc_usb := lc_usb n + 1\<rparr>"
| "count_command w (RcSetUsbHostBusState _) n = n\<lparr>lc_usb := lc_usb n + 1\<rparr>"
| "count_command w (RcUsbMirrorEndpointOut _ _) n = n\<lparr>lc_usb := lc_usb n + 1\<rparr>"
| "count_command w (RcUsbMirrorControlRequest _ _) n = n\<lparr>lc_usb := lc_usb n + 1\<rparr>"
| "count_command w (RcPersistStorage _ _) n = n\<lparr>lc_storage := lc_storage n + 1\<rparr>"
| "count_command w (RcStatusChanged _) n = n\<lparr>lc_status := lc_status n + 1\<rparr>"
| "count_command w (RcManagementResponse destination _) n =
     (if w \<and> destination = DestWiredHid then n\<lparr>lc_device := lc_device n + 1\<rparr> else n\<lparr>lc_status := lc_status n + 1\<rparr>)"
| "count_command w (RcApplyEffect _) n = n\<lparr>lc_effects := lc_effects n + 1\<rparr>"

definition validate_capacity :: "bool \<Rightarrow> queue_capacities \<Rightarrow> runtime_command list \<Rightarrow> runtime_dispatch_error + unit" where
  "validate_capacity w c commands =
     (let n = fold (count_command w) commands lane_counts_zero in
      if lc_ble n > qc_ble c then Inl RdBleQueueCapacity
      else if w \<and> lc_device n > RUNTIME_DEVICE_COMMAND_QUEUE_CAPACITY then Inl RdDeviceQueueCapacity
      else if lc_usb n > qc_usb_host c then Inl RdUsbQueueCapacity
      else if lc_storage n > qc_storage c then Inl RdStorageQueueCapacity
      else if lc_status n > qc_status c then Inl RdStatusQueueCapacity
      else if lc_effects n > qc_status c then Inl RdEffectQueueCapacity
      else Inr ())"

text \<open>Appending to one lane, with the error of that lane when it is full.\<close>

definition push_lane :: "nat \<Rightarrow> 'e \<Rightarrow> 'a list \<Rightarrow> 'a \<Rightarrow> ('a list \<Rightarrow> 'q) \<Rightarrow> 'q \<Rightarrow> ('q, 'e, unit) outcome" where
  "push_lane cap err xs x put q = (case vec_push cap xs x of Some ys \<Rightarrow> (put ys, Inr ()) | None \<Rightarrow> (q, Inl err))"

definition push_usb :: "queue_capacities \<Rightarrow> usb_host_task_command \<Rightarrow> runtime_command_queues \<Rightarrow>
    (runtime_command_queues, runtime_dispatch_error, unit) outcome" where
  "push_usb c x q = push_lane (qc_usb_host c) RdUsbQueueCapacity (qu_usb_host q) x (\<lambda>xs. q\<lparr>qu_usb_host := xs\<rparr>) q"

definition push_status_command :: "queue_capacities \<Rightarrow> status_task_command \<Rightarrow> runtime_command_queues \<Rightarrow>
    (runtime_command_queues, runtime_dispatch_error, unit) outcome" where
  "push_status_command c x q = push_lane (qc_status c) RdStatusQueueCapacity (qu_status q) x (\<lambda>xs. q\<lparr>qu_status := xs\<rparr>) q"

definition response_status :: "management_response \<Rightarrow> bridge_status" where
  "response_status r =
     (case mp_payload r of
        MpStatus s \<Rightarrow> \<lparr>bst_active_target = st_active_host s, bst_pairable_host = st_pairing_host s\<rparr>
      | _ \<Rightarrow> \<lparr>bst_active_target = None, bst_pairable_host = None\<rparr>)"

definition response_command :: "management_destination \<Rightarrow> management_response \<Rightarrow> status_task_command" where
  "response_command destination r =
     \<lparr>sc_status = response_status r, sc_snapshot = status_snapshot_empty,
      sc_management = Some \<lparr>mt_destination = destination, mt_response = r\<rparr>\<rparr>"

definition snapshot_command :: "status_snapshot \<Rightarrow> status_task_command" where
  "snapshot_command s = \<lparr>sc_status = snapshot_bridge_status s, sc_snapshot = s, sc_management = None\<rparr>"

fun dispatch_one :: "bool \<Rightarrow> queue_capacities \<Rightarrow> runtime_command \<Rightarrow> runtime_command_queues \<Rightarrow>
    (runtime_command_queues, runtime_dispatch_error, unit) outcome" where
  "dispatch_one w c (RcBle x) q = push_lane (qc_ble c) RdBleQueueCapacity (qu_ble q) x (\<lambda>xs. q\<lparr>qu_ble := xs\<rparr>) q"
| "dispatch_one w c (RcDevice x) q =
     push_lane RUNTIME_DEVICE_COMMAND_QUEUE_CAPACITY RdDeviceQueueCapacity (qu_device q) x (\<lambda>xs. q\<lparr>qu_device := xs\<rparr>) q"
| "dispatch_one w c (RcUsbKeyboardLedWrite i d bs) q = push_usb c (UtKeyboardLedWrite i d bs) q"
| "dispatch_one w c (RcSetUsbHostBusState s) q = push_usb c (UtSetBusState s) q"
| "dispatch_one w c (RcUsbMirrorEndpointOut d r) q = push_usb c (UtMirrorEndpointOut d r) q"
| "dispatch_one w c (RcUsbMirrorControlRequest d r) q = push_usb c (UtMirrorControlRequest d r) q"
| "dispatch_one w c (RcPersistStorage s priority) q =
     push_lane (qc_storage c) RdStorageQueueCapacity (qu_storage q) (StPersist s priority) (\<lambda>xs. q\<lparr>qu_storage := xs\<rparr>) q"
| "dispatch_one w c (RcStatusChanged s) q = push_status_command c (snapshot_command s) q"
| "dispatch_one w c (RcManagementResponse destination r) q =
     (if w \<and> destination = DestWiredHid then
        (if length (qu_device q) < RUNTIME_DEVICE_COMMAND_QUEUE_CAPACITY
         then (q\<lparr>qu_device := DtManagementResponse r # qu_device q\<rparr>, Inr ()) else (q, Inl RdDeviceQueueCapacity))
      else push_status_command c (response_command destination r) q)"
| "dispatch_one w c (RcApplyEffect e) q =
     push_lane (qc_status c) RdEffectQueueCapacity (qu_effects q) e (\<lambda>xs. q\<lparr>qu_effects := xs\<rparr>) q"

fun dispatch_loop :: "bool \<Rightarrow> queue_capacities \<Rightarrow> runtime_command list \<Rightarrow> runtime_command_queues \<Rightarrow>
    (runtime_command_queues, runtime_dispatch_error, unit) outcome" where
  "dispatch_loop w c [] q = (q, Inr ())"
| "dispatch_loop w c (x # xs) q = andThen (dispatch_one w c x q) (\<lambda>_ q'. dispatch_loop w c xs q')"

definition dispatch_from :: "bool \<Rightarrow> queue_capacities \<Rightarrow> runtime_command list \<Rightarrow> runtime_command_queues \<Rightarrow>
    (runtime_command_queues, runtime_dispatch_error, unit) outcome" where
  "dispatch_from w c commands q =
     (case validate_capacity w c commands of
        Inl e \<Rightarrow> (q, Inl e)
      | Inr _ \<Rightarrow> dispatch_loop w c commands (queues_clear q))"

section \<open>A batch is delivered whole or not at all\<close>

text \<open>What each command contributes to each lane.\<close>

fun to_ble :: "runtime_command \<Rightarrow> ble_task_command list" where
  "to_ble (RcBle x) = [x]" | "to_ble _ = []"

fun to_device :: "runtime_command \<Rightarrow> device_task_command list" where
  "to_device (RcDevice x) = [x]" | "to_device _ = []"

fun to_wired_response :: "bool \<Rightarrow> runtime_command \<Rightarrow> device_task_command list" where
  "to_wired_response w (RcManagementResponse destination r) =
     (if w \<and> destination = DestWiredHid then [DtManagementResponse r] else [])"
| "to_wired_response w _ = []"

fun to_usb :: "runtime_command \<Rightarrow> usb_host_task_command list" where
  "to_usb (RcUsbKeyboardLedWrite i d bs) = [UtKeyboardLedWrite i d bs]"
| "to_usb (RcSetUsbHostBusState s) = [UtSetBusState s]"
| "to_usb (RcUsbMirrorEndpointOut d r) = [UtMirrorEndpointOut d r]"
| "to_usb (RcUsbMirrorControlRequest d r) = [UtMirrorControlRequest d r]"
| "to_usb _ = []"

fun to_storage :: "runtime_command \<Rightarrow> storage_task_command list" where
  "to_storage (RcPersistStorage s p) = [StPersist s p]" | "to_storage _ = []"

fun to_status :: "bool \<Rightarrow> runtime_command \<Rightarrow> status_task_command list" where
  "to_status w (RcStatusChanged s) = [snapshot_command s]"
| "to_status w (RcManagementResponse destination r) =
     (if w \<and> destination = DestWiredHid then [] else [response_command destination r])"
| "to_status w _ = []"

fun to_effects :: "runtime_command \<Rightarrow> runtime_effect list" where
  "to_effects (RcApplyEffect e) = [e]" | "to_effects _ = []"

definition lane :: "(runtime_command \<Rightarrow> 'a list) \<Rightarrow> runtime_command list \<Rightarrow> 'a list" where
  "lane f commands = concat (map f commands)"

lemma lane_simps [simp]: "lane f [] = []" "lane f (x # xs) = f x @ lane f xs"
  by (simp_all add: lane_def)

text \<open>
  The queues a batch stands for: every command once, in the order of the batch, except that the
  answers to the wired management client come before the other commands of the second chip.
\<close>

definition batch_queues :: "bool \<Rightarrow> runtime_command list \<Rightarrow> runtime_command_queues" where
  "batch_queues w commands =
     \<lparr>qu_ble = lane to_ble commands, qu_device = rev (lane (to_wired_response w) commands) @ lane to_device commands,
      qu_usb_host = lane to_usb commands, qu_storage = lane to_storage commands,
      qu_status = lane (to_status w) commands, qu_effects = lane to_effects commands\<rparr>"

definition queues_fit :: "bool \<Rightarrow> queue_capacities \<Rightarrow> runtime_command_queues \<Rightarrow> bool" where
  "queues_fit w c q =
     (length (qu_ble q) \<le> qc_ble c \<and> (w \<longrightarrow> length (qu_device q) \<le> RUNTIME_DEVICE_COMMAND_QUEUE_CAPACITY) \<and>
      length (qu_usb_host q) \<le> qc_usb_host c \<and> length (qu_storage q) \<le> qc_storage c \<and>
      length (qu_status q) \<le> qc_status c \<and> length (qu_effects q) \<le> qc_status c)"

text \<open>The single-chip build has no commands for the second chip.\<close>

definition build_command :: "bool \<Rightarrow> runtime_command \<Rightarrow> bool" where
  "build_command w c = (w \<or> (case c of RcDevice _ \<Rightarrow> False | RcUsbMirrorEndpointOut _ _ \<Rightarrow> False | RcUsbMirrorControlRequest _ _ \<Rightarrow> False | _ \<Rightarrow> True))"

lemma count_commands:
  "fold (count_command w) commands n =
     \<lparr>lc_ble = lc_ble n + length (lane to_ble commands),
      lc_device = lc_device n + length (lane (to_wired_response w) commands) + length (lane to_device commands),
      lc_usb = lc_usb n + length (lane to_usb commands), lc_storage = lc_storage n + length (lane to_storage commands),
      lc_status = lc_status n + length (lane (to_status w) commands), lc_effects = lc_effects n + length (lane to_effects commands)\<rparr>"
proof (induction commands arbitrary: n)
  case (Cons x xs)
  show ?case by (cases x) (simp_all add: Cons.IH)
qed simp

lemma validate_iff: "validate_capacity w c commands = Inr () \<longleftrightarrow> queues_fit w c (batch_queues w commands)"
  by (auto simp: validate_capacity_def count_commands lane_counts_zero_def queues_fit_def batch_queues_def Let_def)

text \<open>Both sides of the dispatch loop: what is queued already and what is still to come.\<close>

definition appended :: "bool \<Rightarrow> runtime_command_queues \<Rightarrow> runtime_command list \<Rightarrow> runtime_command_queues" where
  "appended w q commands =
     \<lparr>qu_ble = qu_ble q @ lane to_ble commands,
      qu_device = rev (lane (to_wired_response w) commands) @ qu_device q @ lane to_device commands,
      qu_usb_host = qu_usb_host q @ lane to_usb commands, qu_storage = qu_storage q @ lane to_storage commands,
      qu_status = qu_status q @ lane (to_status w) commands, qu_effects = qu_effects q @ lane to_effects commands\<rparr>"

lemma appended_simps: "appended w q [] = q" "appended w (queues_clear q) commands = batch_queues w commands"
  by (simp_all add: appended_def queues_clear_def batch_queues_def)

lemma dispatch_one_appends:
  assumes "queues_fit w c (appended w q (x # xs))" "build_command w x"
  shows "dispatch_one w c x q = (appended w q [x], Inr ()) \<and> appended w (appended w q [x]) xs = appended w q (x # xs)"
  using assms
  by (cases x) (auto simp: push_lane_def push_usb_def push_status_command_def appended_def queues_fit_def
      build_command_def vec_push_def split: if_splits)

lemma dispatch_loop_appends:
  "queues_fit w c (appended w q xs) \<Longrightarrow> list_all (build_command w) xs \<Longrightarrow> dispatch_loop w c xs q = (appended w q xs, Inr ())"
proof (induction xs arbitrary: q)
  case (Cons x xs)
  then show ?case using dispatch_one_appends[of w c q x xs] by (simp add: andThen_def)
qed (simp add: appended_simps)

text \<open>
  A batch of runtime commands reaches the tasks whole or not at all. When every lane fits its
  queue, dispatching the batch succeeds and afterwards each queue holds exactly the commands of
  its task in batch order, with the answers to the wired management client ahead of the other
  commands for the second chip; otherwise it fails and leaves all queues as they were.
\<close>

theorem dispatch_all_or_nothing:
  assumes "list_all (build_command w) commands"
  shows "if queues_fit w c (batch_queues w commands)
    then dispatch_from w c commands q = (batch_queues w commands, Inr ())
    else \<exists>e. dispatch_from w c commands q = (q, Inl e)"
proof (cases "queues_fit w c (batch_queues w commands)")
  case True
  then show ?thesis using dispatch_loop_appends[of w c "queues_clear q" commands] assms validate_iff[of w c commands]
    by (simp add: dispatch_from_def appended_simps)
next
  case False
  then obtain e where "validate_capacity w c commands = Inl e"
    using validate_iff[of w c commands] by (cases "validate_capacity w c commands") auto
  with False show ?thesis by (simp add: dispatch_from_def)
qed

theorem dispatch_all_or_nothing_witness:
  "if queues_fit True default_queue_capacities (batch_queues True [RcDevice DtReleaseAll, RcApplyEffect (SetLogLevel 2)])
    then dispatch_from True default_queue_capacities [RcDevice DtReleaseAll, RcApplyEffect (SetLogLevel 2)] queues_new
       = (batch_queues True [RcDevice DtReleaseAll, RcApplyEffect (SetLogLevel 2)], Inr ())
    else \<exists>e. dispatch_from True default_queue_capacities [RcDevice DtReleaseAll, RcApplyEffect (SetLogLevel 2)] queues_new = (queues_new, Inl e)"
  by (rule dispatch_all_or_nothing) (simp add: build_command_def)

text \<open>A batch that fits the command vector fits the queues of the default build.\<close>

lemma lane_lengths:
  "length (lane to_ble xs) \<le> length xs" "length (lane (to_wired_response w) xs) + length (lane to_device xs) \<le> length xs"
  "length (lane to_usb xs) \<le> length xs" "length (lane to_storage xs) \<le> length xs"
  "length (lane (to_status w) xs) \<le> length xs" "length (lane to_effects xs) \<le> length xs"
proof (induction xs)
  case (Cons x xs)
  case 1 show ?case using Cons(1) by (cases x) simp_all
  case 2 show ?case using Cons(2) by (cases x) auto
  case 3 show ?case using Cons(3) by (cases x) simp_all
  case 4 show ?case using Cons(4) by (cases x) simp_all
  case 5 show ?case using Cons(5) by (cases x) auto
  case 6 show ?case using Cons(6) by (cases x) simp_all
qed simp_all

lemmas queue_capacity_defs = RUNTIME_BLE_COMMAND_QUEUE_CAPACITY_def RUNTIME_USB_COMMAND_QUEUE_CAPACITY_def
  RUNTIME_DEVICE_COMMAND_QUEUE_CAPACITY_def RUNTIME_STORAGE_COMMAND_QUEUE_CAPACITY_def
  RUNTIME_STATUS_COMMAND_QUEUE_CAPACITY_def

lemma default_queues_fit:
  assumes "length commands \<le> RUNTIME_COMMAND_CAPACITY"
  shows "queues_fit w default_queue_capacities (batch_queues w commands)"
  using assms lane_lengths(1,3,4,6)[of commands] lane_lengths(2,5)[where xs = commands and w = w]
  by (auto simp: queues_fit_def batch_queues_def default_queue_capacities_def queue_capacity_defs)

end
