(* ===== verification/HS_BleEvents.thy ===== *)
theory HS_BleEvents
  imports HS_RuntimeCommands
begin

text \<open>
  The Bluetooth side of the runtime's boundary. \<open>ble.rs\<close>, \<open>ble_runtime.rs\<close> and the owned events
  of \<open>runtime/message.rs\<close>: a write to an attribute becomes a bridge event. \<open>reports/ble_hid.rs\<close>
  and \<open>ble_notify.rs\<close>: the announced report map, and a report becomes a notification. The
  theorems show that a report arrives on its own characteristic byte for byte, and that a computer
  that lays out its lamp report as the announced map says is understood.
\<close>

section \<open>Report identifiers and report map\<close>

definition KEYBOARD_REPORT_ID :: u8 where "KEYBOARD_REPORT_ID = 1"
definition MOUSE_REPORT_ID :: u8 where "MOUSE_REPORT_ID = 2"
definition CONSUMER_REPORT_ID :: u8 where "CONSUMER_REPORT_ID = 3"
definition INPUT_REPORT_TYPE :: u8 where "INPUT_REPORT_TYPE = 1"
definition OUTPUT_REPORT_TYPE :: u8 where "OUTPUT_REPORT_TYPE = 2"
definition FEATURE_REPORT_TYPE :: u8 where "FEATURE_REPORT_TYPE = 3"
definition HID_INFORMATION :: bytes where "HID_INFORMATION = [0x11, 0x01, 0x00, 0x03]"
definition BLE_HID_INPUT_REPORT_MAX_LEN :: nat where "BLE_HID_INPUT_REPORT_MAX_LEN = KEYBOARD_REPORT_LEN"
definition BLE_HID_NOTIFY_MAX_LEN :: nat where "BLE_HID_NOTIFY_MAX_LEN = BLE_HID_INPUT_REPORT_MAX_LEN"
definition BLE_HID_NOTIFICATIONS_PER_REPORT_MAX :: nat where "BLE_HID_NOTIFICATIONS_PER_REPORT_MAX = 1"
definition BLE_CONSUMER_USAGE_MAX :: u16 where "BLE_CONSUMER_USAGE_MAX = 0x03ff"

definition V1_KEYBOARD_REPORT_MAP :: bytes where
  "V1_KEYBOARD_REPORT_MAP =
     [0x05, 0x01, 0x09, 0x06, 0xa1, 0x01, 0x85, KEYBOARD_REPORT_ID, 0x05, 0x07, 0x19, 0xe0, 0x29, 0xe7,
      0x15, 0x00, 0x25, 0x01, 0x75, 0x01, 0x95, 0x08, 0x81, 0x02, 0x95, 0x01, 0x75, 0x08, 0x81, 0x01, 0x95,
      0x05, 0x75, 0x01, 0x05, 0x08, 0x19, 0x01, 0x29, 0x05, 0x91, 0x02, 0x95, 0x01, 0x75, 0x03, 0x91, 0x01,
      0x95, of_nat KEYBOARD_6KRO_KEY_CAPACITY, 0x75, 0x08, 0x15, 0x00, 0x26, 0xff, 0x00, 0x05, 0x07, 0x19,
      0x00, 0x2a, 0xff, 0x00, 0x81, 0x00, 0xc0]"

definition V1_MOUSE_REPORT_MAP :: bytes where
  "V1_MOUSE_REPORT_MAP =
     [0x05, 0x01, 0x09, 0x02, 0xa1, 0x01, 0x85, MOUSE_REPORT_ID, 0x09, 0x01, 0xa1, 0x00, 0x05, 0x09, 0x19,
      0x01, 0x29, 0x05, 0x15, 0x00, 0x25, 0x01, 0x75, 0x01, 0x95, 0x05, 0x81, 0x02, 0x75, 0x03, 0x95, 0x01,
      0x81, 0x01, 0x05, 0x01, 0x09, 0x30, 0x09, 0x31, 0x16, 0x00, 0x80, 0x26, 0xff, 0x7f, 0x75, 0x10, 0x95,
      0x02, 0x81, 0x06, 0x09, 0x38, 0x15, 0x81, 0x25, 0x7f, 0x75, 0x08, 0x95, 0x01, 0x81, 0x06, 0x05, 0x0c,
      0x0a, 0x38, 0x02, 0x95, 0x01, 0x81, 0x06, 0xc0, 0xc0]"

definition V1_CONSUMER_REPORT_MAP :: bytes where
  "V1_CONSUMER_REPORT_MAP =
     [0x05, 0x0c, 0x09, 0x01, 0xa1, 0x01, 0x85, CONSUMER_REPORT_ID, 0x15, 0x00, 0x26, 0xff, 0x03, 0x19,
      0x00, 0x2a, 0xff, 0x03, 0x75, 0x10, 0x95, 0x01, 0x81, 0x00, 0xc0]"

text \<open>The nested loops that copy the three maps behind one another.\<close>

definition combined_report_map :: bytes where
  "combined_report_map = concat [V1_KEYBOARD_REPORT_MAP, V1_MOUSE_REPORT_MAP, V1_CONSUMER_REPORT_MAP]"

definition V1_COMBINED_REPORT_MAP :: bytes where "V1_COMBINED_REPORT_MAP = combined_report_map"

section \<open>Notifications\<close>

record ble_hid_input_report =
  bi_len :: nat
  bi_bytes :: bytes

definition input_report_from :: "ble_hid_report \<Rightarrow> ble_hid_input_report" where
  "input_report_from r =
     (let bs = replicate BLE_HID_INPUT_REPORT_MAX_LEN 0 in
      case r of
        BleKeyboard k \<Rightarrow> \<lparr>bi_len = KEYBOARD_REPORT_LEN, bi_bytes = write_at 0 k bs\<rparr>
      | BleMouse m \<Rightarrow> \<lparr>bi_len = MOUSE_REPORT_LEN, bi_bytes = write_at 0 m bs\<rparr>
      | BleConsumer c \<Rightarrow> \<lparr>bi_len = CONSUMER_REPORT_LEN, bi_bytes = write_at 0 c bs\<rparr>)"

definition input_report_slice :: "ble_hid_input_report \<Rightarrow> bytes" where
  "input_report_slice r = take (bi_len r) (bi_bytes r)"

datatype ble_hid_characteristic = ChKeyboardInputReport | ChMouseInputReport | ChConsumerInputReport

record ble_hid_notification =
  bn_characteristic :: ble_hid_characteristic
  bn_len :: nat
  bn_bytes :: bytes

definition notification_slice :: "ble_hid_notification \<Rightarrow> bytes" where
  "notification_slice n = take (bn_len n) (bn_bytes n)"

datatype ble_hid_notification_error = BnCapacity

fun input_report_characteristic :: "report_kind \<Rightarrow> ble_hid_characteristic" where
  "input_report_characteristic RkKeyboard = ChKeyboardInputReport"
| "input_report_characteristic RkMouse = ChMouseInputReport"
| "input_report_characteristic RkConsumer = ChConsumerInputReport"
| "input_report_characteristic RkKeyboardOutput = ChKeyboardInputReport"

fun report_kind_id :: "report_kind \<Rightarrow> u8" where
  "report_kind_id RkKeyboard = KEYBOARD_REPORT_ID"
| "report_kind_id RkKeyboardOutput = KEYBOARD_REPORT_ID"
| "report_kind_id RkMouse = MOUSE_REPORT_ID"
| "report_kind_id RkConsumer = CONSUMER_REPORT_ID"

fun report_type :: "report_kind \<Rightarrow> u8" where
  "report_type RkKeyboardOutput = OUTPUT_REPORT_TYPE"
| "report_type _ = INPUT_REPORT_TYPE"

definition push_notification :: "nat \<Rightarrow> ble_hid_notification list \<Rightarrow> ble_hid_notification \<Rightarrow>
    (ble_hid_notification list, ble_hid_notification_error, unit) outcome" where
  "push_notification cap out n = (case vec_push cap out n of Some out' \<Rightarrow> (out', Inr ()) | None \<Rightarrow> (out, Inl BnCapacity))"

definition padded_notification_bytes :: "bytes \<Rightarrow> bytes" where
  "padded_notification_bytes bs = write_at 0 bs (replicate BLE_HID_NOTIFY_MAX_LEN 0)"

definition notifications_for_input_report :: "nat \<Rightarrow> ble_hid_report \<Rightarrow>
    (ble_hid_notification list, ble_hid_notification_error, unit) outcome" where
  "notifications_for_input_report cap r =
     (let input = input_report_from r in
      push_notification cap []
        \<lparr>bn_characteristic = input_report_characteristic (ble_report_kind r), bn_len = length (input_report_slice input),
         bn_bytes = padded_notification_bytes (input_report_slice input)\<rparr>)"

text \<open>
  The sink is a parameter: a function of the characteristic and the value that returns its new
  state and whether it accepted them.
\<close>

type_synonym ('k, 'e) notification_sink = "ble_hid_characteristic \<Rightarrow> bytes \<Rightarrow> 'k \<Rightarrow> ('k, 'e, unit) outcome"

datatype 'e notification_dispatch_error = NdPlan ble_hid_notification_error | NdSink ble_hid_characteristic 'e

fun send_notifications :: "('k, 'e) notification_sink \<Rightarrow> ble_hid_notification list \<Rightarrow> 'k \<Rightarrow>
    ('k, 'e notification_dispatch_error, unit) outcome" where
  "send_notifications send [] k = (k, Inr ())"
| "send_notifications send (n # ns) k =
     (case send (bn_characteristic n) (notification_slice n) k of
        (k', Inl e) \<Rightarrow> (k', Inl (NdSink (bn_characteristic n) e))
      | (k', Inr _) \<Rightarrow> send_notifications send ns k')"

definition dispatch_input_report_notifications :: "('k, 'e) notification_sink \<Rightarrow> ble_hid_report \<Rightarrow> 'k \<Rightarrow>
    ('k, 'e notification_dispatch_error, unit) outcome" where
  "dispatch_input_report_notifications send r k =
     (case notifications_for_input_report BLE_HID_NOTIFICATIONS_PER_REPORT_MAX r of
        (_, Inl e) \<Rightarrow> (k, Inl (NdPlan e))
      | (ns, Inr _) \<Rightarrow> send_notifications send ns k)"

fun dispatch_ble_task_command :: "('k, 'e) notification_sink \<Rightarrow> ble_task_command \<Rightarrow> 'k \<Rightarrow>
    ('k, 'e notification_dispatch_error, unit) outcome" where
  "dispatch_ble_task_command send (BtNotify _ r _) k = dispatch_input_report_notifications send r k"
| "dispatch_ble_task_command send _ k = (k, Inr ())"

datatype ble_typed_notification = TnKeyboardInputReport bytes | TnMouseInputReport bytes | TnConsumerInputReport bytes

fun typed_characteristic :: "ble_typed_notification \<Rightarrow> ble_hid_characteristic" where
  "typed_characteristic (TnKeyboardInputReport _) = ChKeyboardInputReport"
| "typed_characteristic (TnMouseInputReport _) = ChMouseInputReport"
| "typed_characteristic (TnConsumerInputReport _) = ChConsumerInputReport"

datatype ble_typed_notification_error = TnLengthMismatch ble_hid_characteristic

definition notification_array :: "nat \<Rightarrow> ble_hid_notification \<Rightarrow> ble_typed_notification_error + bytes" where
  "notification_array n notification =
     (let bs = notification_slice notification in
      if length bs \<noteq> n then Inl (TnLengthMismatch (bn_characteristic notification)) else Inr bs)"

definition typed_notification :: "ble_hid_notification \<Rightarrow> ble_typed_notification_error + ble_typed_notification" where
  "typed_notification n =
     (case bn_characteristic n of
        ChKeyboardInputReport \<Rightarrow> bindE (notification_array 8 n) (\<lambda>bs. Inr (TnKeyboardInputReport bs))
      | ChMouseInputReport \<Rightarrow> bindE (notification_array MOUSE_REPORT_LEN n) (\<lambda>bs. Inr (TnMouseInputReport bs))
      | ChConsumerInputReport \<Rightarrow> bindE (notification_array 2 n) (\<lambda>bs. Inr (TnConsumerInputReport bs)))"

section \<open>Attribute writes\<close>

datatype ble_hid_attribute =
  AtKeyboardInputCccd | AtMouseInputCccd | AtConsumerInputCccd | AtKeyboardOutputCccd | AtKeyboardOutputReport
  | AtBootKeyboardOutputReport | AtUnknown

datatype ble_host_adapter_event =
  BhConnected | BhDisconnected | BhSecurityChanged bool bool "stored_bond option" | BhGattWrite bool ble_hid_attribute bytes

datatype ble_host_adapter_error =
  BaOutput ble_keyboard_output_error | BaInvalidCccdLength | BaInvalidOutputReportLength | BaEncryptionRequired | BaEventCapacity

definition push_bridge_event :: "nat \<Rightarrow> bridge_event list \<Rightarrow> bridge_event \<Rightarrow> ble_host_adapter_error + bridge_event list" where
  "push_bridge_event cap out ev = (case vec_push cap out ev of Some out' \<Rightarrow> Inr out' | None \<Rightarrow> Inl BaEventCapacity)"

definition cccd_notify_enabled :: "bytes \<Rightarrow> ble_host_adapter_error + bool" where
  "cccd_notify_enabled data =
     (case data of [lo, hi] \<Rightarrow> Inr ((from_le [lo, hi] :: u16) AND 0x0001 \<noteq> 0) | _ \<Rightarrow> Inl BaInvalidCccdLength)"

definition push_cccd_event :: "nat \<Rightarrow> host_id \<Rightarrow> report_kind \<Rightarrow> bytes \<Rightarrow> bridge_event list \<Rightarrow> ble_host_adapter_error + bridge_event list" where
  "push_cccd_event cap h report data out =
     bindE (cccd_notify_enabled data) (\<lambda>enabled. push_bridge_event cap out (EvCccdChanged h report enabled))"

definition keyboard_output_report_payload :: "bytes \<Rightarrow> ble_host_adapter_error + bytes" where
  "keyboard_output_report_payload data =
     (case data of
        [bits] \<Rightarrow> Inr [bits]
      | [i, bits] \<Rightarrow> if i = KEYBOARD_REPORT_ID then Inr [bits] else Inl BaInvalidOutputReportLength
      | _ \<Rightarrow> Inl BaInvalidOutputReportLength)"

definition push_led_event :: "nat \<Rightarrow> host_id \<Rightarrow> bytes \<Rightarrow> bridge_event list \<Rightarrow> ble_host_adapter_error + bridge_event list" where
  "push_led_event cap h payload out =
     (case keyboard_led_event_from_ble_output h payload of Inl e \<Rightarrow> Inl (BaOutput e) | Inr ev \<Rightarrow> push_bridge_event cap out ev)"

fun bridge_events_from_gatt_write :: "nat \<Rightarrow> host_id \<Rightarrow> ble_hid_attribute \<Rightarrow> bytes \<Rightarrow> bridge_event list \<Rightarrow>
    ble_host_adapter_error + bridge_event list" where
  "bridge_events_from_gatt_write cap h AtKeyboardInputCccd data out = push_cccd_event cap h RkKeyboard data out"
| "bridge_events_from_gatt_write cap h AtMouseInputCccd data out = push_cccd_event cap h RkMouse data out"
| "bridge_events_from_gatt_write cap h AtConsumerInputCccd data out = push_cccd_event cap h RkConsumer data out"
| "bridge_events_from_gatt_write cap h AtKeyboardOutputCccd data out = push_cccd_event cap h RkKeyboardOutput data out"
| "bridge_events_from_gatt_write cap h AtKeyboardOutputReport data out =
     bindE (keyboard_output_report_payload data) (\<lambda>payload. push_led_event cap h payload out)"
| "bridge_events_from_gatt_write cap h AtBootKeyboardOutputReport data out = push_led_event cap h data out"
| "bridge_events_from_gatt_write cap h AtUnknown data out = Inr out"

fun bridge_events_from_ble_host_event :: "nat \<Rightarrow> host_id \<Rightarrow> ble_host_adapter_event \<Rightarrow> ble_host_adapter_error + bridge_event list" where
  "bridge_events_from_ble_host_event cap h BhConnected = push_bridge_event cap [] (EvHostConnected h)"
| "bridge_events_from_ble_host_event cap h BhDisconnected = push_bridge_event cap [] (EvHostDisconnected h)"
| "bridge_events_from_ble_host_event cap h (BhSecurityChanged encrypted bonded bond) =
     push_bridge_event cap [] (EvHostSecurityChanged h encrypted bonded bond)"
| "bridge_events_from_ble_host_event cap h (BhGattWrite encrypted attribute data) =
     (if \<not> encrypted then Inl BaEncryptionRequired else bridge_events_from_gatt_write cap h attribute data [])"

section \<open>Owned events and attribute handles\<close>

definition RUNTIME_BLE_GATT_WRITE_MAX_LEN :: nat where "RUNTIME_BLE_GATT_WRITE_MAX_LEN = 2"

record runtime_ble_gatt_write =
  gw_len :: u8
  gw_bytes :: bytes

datatype runtime_input_message_error = RmBleGattWriteTooLong

definition gatt_write_from_slice :: "bytes \<Rightarrow> runtime_input_message_error + runtime_ble_gatt_write" where
  "gatt_write_from_slice data =
     (if length data > RUNTIME_BLE_GATT_WRITE_MAX_LEN then Inl RmBleGattWriteTooLong
      else Inr \<lparr>gw_len = of_nat (length data), gw_bytes = write_at 0 data (replicate RUNTIME_BLE_GATT_WRITE_MAX_LEN 0)\<rparr>)"

definition gatt_write_slice :: "runtime_ble_gatt_write \<Rightarrow> bytes" where
  "gatt_write_slice g = take (unat (gw_len g)) (gw_bytes g)"

datatype runtime_ble_host_event =
  ReConnected | ReDisconnected | ReSecurityChanged bool bool "stored_bond option"
  | ReGattWrite bool ble_hid_attribute runtime_ble_gatt_write

fun ble_event_as_borrowed :: "runtime_ble_host_event \<Rightarrow> ble_host_adapter_event" where
  "ble_event_as_borrowed ReConnected = BhConnected"
| "ble_event_as_borrowed ReDisconnected = BhDisconnected"
| "ble_event_as_borrowed (ReSecurityChanged encrypted bonded bond) = BhSecurityChanged encrypted bonded bond"
| "ble_event_as_borrowed (ReGattWrite encrypted attribute data) = BhGattWrite encrypted attribute (gatt_write_slice data)"

fun ble_event_try_from :: "ble_host_adapter_event \<Rightarrow> runtime_input_message_error + runtime_ble_host_event" where
  "ble_event_try_from BhConnected = Inr ReConnected"
| "ble_event_try_from BhDisconnected = Inr ReDisconnected"
| "ble_event_try_from (BhSecurityChanged encrypted bonded bond) = Inr (ReSecurityChanged encrypted bonded bond)"
| "ble_event_try_from (BhGattWrite encrypted attribute data) =
     bindE (gatt_write_from_slice data) (\<lambda>g. Inr (ReGattWrite encrypted attribute g))"

record ble_hid_attribute_handles =
  ah_keyboard_input_cccd :: "u16 option"
  ah_mouse_input_cccd :: "u16 option"
  ah_consumer_input_cccd :: "u16 option"
  ah_keyboard_output_cccd :: "u16 option"
  ah_keyboard_output_report :: u16
  ah_boot_keyboard_output_report :: "u16 option"

definition handles_resolve :: "ble_hid_attribute_handles \<Rightarrow> u16 \<Rightarrow> ble_hid_attribute" where
  "handles_resolve a handle =
     (if ah_keyboard_output_report a = handle then AtKeyboardOutputReport
      else if ah_boot_keyboard_output_report a = Some handle then AtBootKeyboardOutputReport
      else if ah_keyboard_input_cccd a = Some handle then AtKeyboardInputCccd
      else if ah_mouse_input_cccd a = Some handle then AtMouseInputCccd
      else if ah_consumer_input_cccd a = Some handle then AtConsumerInputCccd
      else if ah_keyboard_output_cccd a = Some handle then AtKeyboardOutputCccd
      else AtUnknown)"

section \<open>Reports reach their characteristic\<close>

definition report_well_sized :: "standard_hid_report \<Rightarrow> bool" where
  "report_well_sized r =
     (case r of KeyboardReport bs \<Rightarrow> length bs = KEYBOARD_REPORT_LEN | MouseReport bs \<Rightarrow> length bs = MOUSE_REPORT_LEN
      | ConsumerReport bs \<Rightarrow> length bs = CONSUMER_REPORT_LEN)"

fun report_bytes :: "standard_hid_report \<Rightarrow> bytes" where
  "report_bytes (KeyboardReport bs) = bs"
| "report_bytes (MouseReport bs) = bs"
| "report_bytes (ConsumerReport bs) = bs"

text \<open>One notification, on the characteristic of the report's kind, with the report's bytes.\<close>

lemma report_notified:
  assumes "report_well_sized r"
  shows "notifications_for_input_report BLE_HID_NOTIFICATIONS_PER_REPORT_MAX (ble_report_of r) =
    ([\<lparr>bn_characteristic = input_report_characteristic (report_kind_of r), bn_len = length (report_bytes r),
       bn_bytes = report_bytes r @ replicate (8 - length (report_bytes r)) 0\<rparr>], Inr ())"
  using assms
  by (cases r) (simp_all add: notifications_for_input_report_def push_notification_def input_report_from_def input_report_slice_def
      padded_notification_bytes_def report_well_sized_def write_at_def BLE_HID_INPUT_REPORT_MAX_LEN_def BLE_HID_NOTIFY_MAX_LEN_def
      BLE_HID_NOTIFICATIONS_PER_REPORT_MAX_def KEYBOARD_REPORT_LEN_def MOUSE_REPORT_LEN_def CONSUMER_REPORT_LEN_def vec_push_def Let_def)

lemma notify_command_sends:
  assumes "report_well_sized r"
  shows "dispatch_ble_task_command send (BtNotify h (ble_report_of r) reason) k =
    (case send (input_report_characteristic (report_kind_of r)) (report_bytes r) k of
       (k', Inl e) \<Rightarrow> (k', Inl (NdSink (input_report_characteristic (report_kind_of r)) e)) | (k', Inr _) \<Rightarrow> (k', Inr ()))"
  by (simp add: dispatch_input_report_notifications_def report_notified[OF assms] notification_slice_def)

lemma notification_types:
  assumes "report_well_sized r"
  shows "\<exists>n t. fst (notifications_for_input_report BLE_HID_NOTIFICATIONS_PER_REPORT_MAX (ble_report_of r)) = [n] \<and>
    typed_notification n = Inr t \<and> typed_characteristic t = input_report_characteristic (report_kind_of r)"
  using assms unfolding report_notified[OF assms]
  by (cases r) (simp_all add: typed_notification_def notification_array_def notification_slice_def report_well_sized_def
      KEYBOARD_REPORT_LEN_def MOUSE_REPORT_LEN_def CONSUMER_REPORT_LEN_def)

section \<open>Owned events lose nothing\<close>

lemma gatt_write_roundtrip: "gatt_write_from_slice data = Inr g \<Longrightarrow> gatt_write_slice g = data"
  by (auto simp: gatt_write_from_slice_def gatt_write_slice_def write_at_def RUNTIME_BLE_GATT_WRITE_MAX_LEN_def unat_of_nat_small split: if_splits)

lemma ble_event_roundtrip: "ble_event_try_from e = Inr m \<Longrightarrow> ble_event_as_borrowed m = e"
  by (cases e) (auto simp: bindE_Inr_iff gatt_write_roundtrip)

lemma translated_write_short:
  "bridge_events_from_gatt_write cap h attribute data [] = Inr (ev # evs) \<Longrightarrow> length data \<le> RUNTIME_BLE_GATT_WRITE_MAX_LEN"
  by (cases attribute) (auto simp: push_cccd_event_def cccd_notify_enabled_def keyboard_output_report_payload_def push_led_event_def
      keyboard_led_event_from_ble_output_def led_output_from_bytes_def RUNTIME_BLE_GATT_WRITE_MAX_LEN_def bindE_Inr_iff bindE_def
      split: list.splits if_splits sum.splits)

lemma translated_event_owned:
  assumes "bridge_events_from_ble_host_event cap h e = Inr (ev # evs)"
  shows "\<exists>m. ble_event_try_from e = Inr m \<and> ble_event_as_borrowed m = e"
proof -
  have "\<exists>m. ble_event_try_from e = Inr m"
  proof (cases e)
    case (BhGattWrite encrypted attribute data)
    then have "length data \<le> RUNTIME_BLE_GATT_WRITE_MAX_LEN" using assms translated_write_short by (auto split: if_splits)
    then show ?thesis using BhGattWrite by (simp add: gatt_write_from_slice_def)
  qed simp_all
  then show ?thesis using ble_event_roundtrip by blast
qed

section \<open>The announced lamps are understood\<close>

definition RUNTIME_BLE_EVENT_CAPACITY :: nat where "RUNTIME_BLE_EVENT_CAPACITY = 2"

definition announced_lamps :: keyboard_led_output_report where
  "announced_lamps = \<lparr>lo_report_id = Some KEYBOARD_REPORT_ID, lo_byte_len = 2, lo_num_lock_bit = Some (bit_pos_new 0 0),
     lo_caps_lock_bit = Some (bit_pos_new 0 1), lo_scroll_lock_bit = Some (bit_pos_new 0 2)\<rparr>"

lemma announced_map_parses: "led_from_report_descriptor V1_COMBINED_REPORT_MAP = Inr announced_lamps"
proof -
  have up: "[0..<5] = [0, 1, 2, 3, 4 :: nat]" by (simp add: upt_rec)
  show ?thesis
    by (simp add: led_from_report_descriptor_def V1_COMBINED_REPORT_MAP_def combined_report_map_def V1_KEYBOARD_REPORT_MAP_def V1_MOUSE_REPORT_MAP_def
        V1_CONSUMER_REPORT_MAP_def KEYBOARD_REPORT_ID_def MOUSE_REPORT_ID_def CONSUMER_REPORT_ID_def KEYBOARD_6KRO_KEY_CAPACITY_def announced_lamps_def
        output_parse.simps output_parser_new_def parse_item_def Let_def subslice_def
        begin_collection_def end_collection_def parse_output_def report_index_def usage_at_def local_empty_def global_empty_def USAGE_PAGE_LED_def
        MAX_LOCAL_USAGES_def MAX_OUTPUT_REPORTS_def usize_saturating_add_def usize_saturating_mul_def usize_wrapping_add_def USIZE_MAX_def assign_usage_def
        output_report_empty_def LED_USAGE_NUM_LOCK_def LED_USAGE_CAPS_LOCK_def LED_USAGE_SCROLL_LOCK_def keyboard_led_report_def has_keyboard_leds_def
        MAX_KEYBOARD_LED_OUTPUT_REPORT_LEN_def from_bit_offset_def bit_pos_new_def up)
qed

lemma bit_one_shifted: "bit (push_bit k 1 :: u8) n \<longleftrightarrow> n = k \<and> n < 8"
  by (auto simp: bit_simps)

lemma contains_bit:
  assumes "n < 8"
  shows "(leds :: u8) AND push_bit n 1 = push_bit n 1 \<longleftrightarrow> bit leds n"
proof
  assume "leds AND push_bit n 1 = push_bit n 1"
  then have "bit (leds AND push_bit n 1) n" using bit_one_shifted[of n n] assms by simp
  then show "bit leds n" by (simp add: bit_and_iff)
next
  assume "bit leds n"
  then show "leds AND push_bit n 1 = push_bit n 1"
    by (intro bit_word_eqI) (auto simp: bit_simps)
qed

lemma lamp_byte:
  "(((if leds_contain leds LED_NUM_LOCK then 1 else 0) OR (if leds_contain leds LED_CAPS_LOCK then 2 else 0)
      OR (if leds_contain leds LED_SCROLL_LOCK then 4 else 0)) :: u8) = leds AND 7"
proof -
  have b: "leds_contain leds LED_NUM_LOCK = bit leds 0" "leds_contain leds LED_CAPS_LOCK = bit leds 1" "leds_contain leds LED_SCROLL_LOCK = bit leds 2"
    using contains_bit[of 0 leds] contains_bit[of 1 leds] contains_bit[of 2 leds]
    unfolding leds_contain_def LED_NUM_LOCK_def LED_CAPS_LOCK_def LED_SCROLL_LOCK_def by simp_all
  have lit: "bit (if c then push_bit k 1 else 0 :: u8) n \<longleftrightarrow> c \<and> n = k \<and> n < 8" for c k n by (auto simp: bit_simps)
  have v: "push_bit 0 1 = (1 :: u8)" "push_bit 1 1 = (2 :: u8)" "push_bit 2 1 = (4 :: u8)" "mask 3 = (7 :: u8)"
    by (simp_all add: push_bit_eq_mult mask_eq_exp_minus_1)
  have "bit ((if bit leds 0 then push_bit 0 1 else 0 :: u8) OR (if bit leds 1 then push_bit 1 1 else 0)
      OR (if bit leds 2 then push_bit 2 1 else 0)) n = bit (leds AND mask 3) n" if "n < 8" for n
    using that unfolding bit_or_iff bit_and_iff lit bit_mask_iff by (auto simp: less_Suc_eq numeral_3_eq_3 numeral_2_eq_2)
  then have "((if bit leds 0 then push_bit 0 1 else 0 :: u8) OR (if bit leds 1 then push_bit 1 1 else 0)
      OR (if bit leds 2 then push_bit 2 1 else 0)) = leds AND mask 3" by (intro bit_word_eqI) simp
  then show ?thesis unfolding b v .
qed

text \<open>
  A computer that follows the announced report map is understood. The parser of lamp reports
  accepts the map the bridge announces over Bluetooth, and the report it describes, built for any
  lamp state and written to the output report characteristic, is translated into exactly the event
  that sets the three lamps of that state for this computer.
\<close>

theorem announced_lamps_understood:
  "\<exists>r b. led_from_report_descriptor V1_COMBINED_REPORT_MAP = Inr r \<and> led_build r leds = Some (Inr b) \<and>
     bridge_events_from_ble_host_event RUNTIME_BLE_EVENT_CAPACITY h (BhGattWrite True AtKeyboardOutputReport (led_bytes_slice b)) =
       Inr [EvHostKeyboardLedChanged h (leds AND 7)]"
proof -
  have z: "replicate 8 (0 :: u8) = [0, 0, 0, 0, 0, 0, 0, 0]" by (simp add: numeral_eq_Suc)
  have "\<exists>b. led_build announced_lamps leds = Some (Inr b) \<and> led_bytes_slice b = [KEYBOARD_REPORT_ID, leds AND 7]"
    unfolding lamp_byte[symmetric]
    by (simp add: led_build_def announced_lamps_def set_led_bit_def bit_pos_new_def led_bytes_slice_def MAX_KEYBOARD_LED_OUTPUT_REPORT_LEN_def Let_def z)
  then obtain b where b: "led_build announced_lamps leds = Some (Inr b)" "led_bytes_slice b = [KEYBOARD_REPORT_ID, leds AND 7]" by blast
  have m: "(leds AND 7) AND 7 = leds AND 7" by (simp add: and.assoc)
  have "bridge_events_from_ble_host_event RUNTIME_BLE_EVENT_CAPACITY h (BhGattWrite True AtKeyboardOutputReport (led_bytes_slice b)) =
      Inr [EvHostKeyboardLedChanged h (leds AND 7)]"
    unfolding b(2)
    by (simp add: keyboard_output_report_payload_def push_led_event_def keyboard_led_event_from_ble_output_def led_output_from_bytes_def
        leds_from_bits_truncate_def push_bridge_event_def vec_push_def RUNTIME_BLE_EVENT_CAPACITY_def and.assoc)
  then show ?thesis using announced_map_parses b(1) by blast
qed

end
