(* ===== verification/Spec2Isabelle.thy ===== *)
theory Spec2Isabelle
  imports HS_Aggregator HS_Movement HS_Reports HS_Routing HS_Profiles HS_FlashJournal HS_BridgeLimits HS_Reliable HS_Message
    HS_Fragment HS_ProfileTransfer HS_ProfileStore HS_LinkTiming HS_MirrorControl HS_Frame HS_Management HS_DeviceLink
    HS_Domain HS_Support HS_Fallback HS_BleConnection HS_UsbOutput HS_RuntimeCommands HS_BleEvents
begin

text \<open>
  A verification library for HIDShift, a USB-to-Bluetooth keyboard and mouse bridge. Keyboards and
  mice are plugged into the bridge; their input goes to one of up to four Bluetooth computers or,
  in the dual-chip build, to a computer on a USB cable behind a second chip. The library models
  the hardware-independent crate under \<open>src/src\<close>; the names of definitions follow the
  Rust names, with a prefix where two types share a method name.

  \<^bold>\<open>Parts and how they interact.\<close> USB reports become input frames, which the aggregator merges into
  one physical input state over all devices. The bridge turns a change of that state into reports
  for the selected target, hides what was held when the target changed, and keeps the table of
  Bluetooth hosts. Input profiles transform frames per device before they reach the bridge and
  recognise the switch shortcut. Movement waits in the coalescer and the accumulator until a
  report can be sent. The storage writer keeps hosts, profiles and settings in flash. In the
  dual-chip build reports travel over an SPI link in cells, and the second chip can present a copy
  of a USB device, whose descriptors travel over the same link as a profile image.

  \<^bold>\<open>Theories.\<close>
  \<^item> \<open>HS_Prelude\<close>: machine words, bounded vectors, saturating arithmetic, little-endian bytes,
    slices, and the convention for methods that change their receiver and may fail.
    \<open>HS_Runs\<close>: sequences of operations and the locale of inductive invariants that the
    component theories interpret. \<open>HS_Slots\<close>: arrays of options.
  \<^item> \<open>HS_Checksum\<close> (\<open>ids.rs\<close>, \<open>checksum.rs\<close>): identifiers and both checksums; a
    locale of byte-absorbing registers, interpreted for CRC-16 and CRC-32, shows that no change
    confined to one byte is missed.
  \<^item> \<open>HS_Keyboard\<close>, \<open>HS_Reports\<close>, \<open>HS_Aggregator\<close> (\<open>input/\<close>,
    \<open>reports/\<close>): the input state, the six-key report with its suppression, and the merge of
    all devices. The incremental aggregate equals a rebuild, is the union of what the devices
    hold, and a frame changes one row only.
  \<^item> \<open>HS_Movement\<close> (\<open>input/movement_queue.rs\<close>, \<open>mouse_accumulator.rs\<close>): movement
    is conserved up to explicit clipping, and draining ends.
  \<^item> \<open>HS_Routing\<close> (\<open>routing.rs\<close>, \<open>output_target.rs\<close>): target cycling and the
    output target state.
  \<^item> \<open>HS_Profiles\<close> (\<open>settings.rs\<close>, \<open>domain/input_profile.rs\<close>): settings schema,
    transform with remainders, shortcut, registry with eviction.
  \<^item> \<open>HS_StorageCodec\<close>, \<open>HS_StoragePersist\<close>, \<open>HS_FlashJournal\<close>
    (\<open>storage.rs\<close>): the image format, the writer with its retry policy, and the journal in
    flash. The flash driver is a parameter: a memory with read, write and erase that behave as the
    driver documents; the properties that use it have an instance of it in their witnesses.
  \<^item> \<open>HS_HostState\<close> (\<open>bridge/host_state.rs\<close>, \<open>bridge/pairing.rs\<close>): the host table.
  \<^item> \<open>HS_Bridge\<close>, \<open>HS_BridgeInv\<close>, \<open>HS_BridgeProps\<close>, \<open>HS_BridgeHeld\<close>,
    \<open>HS_BridgeActions\<close>, \<open>HS_BridgeLimits\<close> (\<open>bridge/mod.rs\<close>): the bridge with every
    event. The flag \<open>w\<close> is the cargo feature of the dual-chip build, \<open>cap\<close> the capacity of
    the action vector. One invariant over all operations carries four results: reports reach the
    selected target only, held input stays hidden after a switch, a switch releases the previous
    target first, and the action vector of the runtime is large enough but for one event.
  \<^item> \<open>HS_Cell\<close>, \<open>HS_Reliable\<close> (\<open>interchip/cell.rs\<close>, \<open>record.rs\<close>,
    \<open>reliable.rs\<close>): the wire formats are canonical, and the link delivers exactly once and
    in order over a lossy channel.
  \<^item> \<open>HS_Message\<close> (\<open>interchip/message.rs\<close>, \<open>input_batch.rs\<close>): the messages
    inside the records; every codec interprets one locale of exact codecs, and a batch of input
    reports keeps their order.
  \<^item> \<open>HS_Fragment\<close> (\<open>interchip/control_fragment.rs\<close>): control requests and responses
    cut into fragments; one locale of assemblers, interpreted for both directions, refines an
    abstract collector, so messages come back whole and are never mixed.
  \<^item> \<open>HS_LinkTiming\<close> (\<open>interchip/handshake.rs\<close>, \<open>recovery.rs\<close>,
    \<open>rate_budget.rs\<close>): one transfer per arm cycle, recovery phases, watchdog and the rate
    of input reports.
  \<^item> \<open>HS_MirrorImage\<close>, \<open>HS_MirrorPlan\<close> (\<open>mirror/image.rs\<close>, \<open>parser.rs\<close>,
    \<open>validator.rs\<close>, \<open>plan.rs\<close>, \<open>capture.rs\<close>): the image of a mirrored USB
    device is canonical, and an accepted plan is presentable.
  \<^item> \<open>HS_ProfileTransfer\<close> (\<open>interchip/profile_transfer.rs\<close>): a captured profile
    arrives on the second chip, where only validated images are committed.
  \<^item> \<open>HS_ProfileStore\<close> (\<open>mirror/store.rs\<close>): the two-slot store in flash; its back end is a
    parameter, as for the storage writer.
  \<^item> \<open>HS_MirrorControl\<close> (\<open>mirror/control.rs\<close>, \<open>candidate.rs\<close>): the forwarder of
    control requests and the registry of mirror candidates.
  \<^item> \<open>HS_Frame\<close>, \<open>HS_Management\<close> (\<open>management/frame.rs\<close>, \<open>management.rs\<close>): the
    management protocol. Frames survive byte stuffing, every message survives the wire, and the
    stream decoder overruns its input on a frame that lost its last byte, unless that byte is the
    code of an empty block.
  \<^item> \<open>HS_DeviceLink\<close> (\<open>interchip/device.rs\<close>): the second chip's end of the SPI link. It
    answers every transaction with a valid cell and produces events only for a host that has
    introduced itself, one cell after the other.
  \<^item> \<open>HS_Domain\<close> (\<open>domain/destination.rs\<close>, \<open>revision.rs\<close>, \<open>update.rs\<close>): sessions
    and connected destinations correspond, and a firmware update is committed only at the end
    of its whole chain of five accepted calls, shown over an inductive relation of its transitions.
  \<^item> \<open>HS_Support\<close> (\<open>support/\<close>, \<open>target_control.rs\<close>, \<open>remote_wakeup.rs\<close>): the log
    ring is the end of the log, the line buffer splits the stream, and the gestures of the button are exactly the
    debounced presses of the sample history, each classified by its own length.
  \<^item> \<open>HS_Fallback\<close> (\<open>fallback.rs\<close>): the constant device of the second chip passes the
    validator of mirrored devices.
  \<^item> \<open>HS_BleConnection\<close> (\<open>ble_connection.rs\<close>): connection slots, revoked bonds and the
    back-off of failed pairings, whose lock-outs are exact over any history of all peers.
  \<^item> \<open>HS_UsbOutput\<close> (\<open>usb_hid/output.rs\<close>, \<open>power.rs\<close>): the parser of lamp reports, whose
    accepted layouts never leave the report buffer, and the power policy of the USB bus.
  \<^item> \<open>HS_RuntimeCommands\<close> (\<open>runtime/command.rs\<close>, \<open>queues.rs\<close>, \<open>diagnostics.rs\<close>): the commands
    for the tasks around the core; a batch reaches its queues whole or not at all.
  \<^item> \<open>HS_BleEvents\<close> (\<open>ble.rs\<close>, \<open>ble_notify.rs\<close>, \<open>ble_runtime.rs\<close>, \<open>reports/ble_hid.rs\<close>):
    attribute writes become bridge events and reports become notifications; a computer that
    follows the announced report map is understood.

  \<^bold>\<open>Bounds and fuel.\<close> Loops over lists are structural recursion; the record iterator terminates by
  its count, the retry loop by the queue's length. The scan of a flash slot carries the number of
  records as its bound, which is the number of records a slot holds. Iterators over the records of
  an image are drained with their record count as fuel, the transfer encoder with the image length
  plus three, which bounds its chunks; the descriptor walk and the read-back loop of the profile
  store terminate because their offset grows. The link theorem lets cells
  and acknowledgements be up to 65531 cells old: older ones would meet their own sequence number
  again, which the transport excludes because both chips exchange one cell per transaction. It is
  about one session; what an acknowledgement left over from another session does is shown apart.

  \<^bold>\<open>Not modelled.\<close> The firmware tasks, which are asynchronous glue around drivers outside the
  repository; the vendored Bluetooth and USB stacks; the desktop, web and command line tools; and, of
  the core crate, the dispatcher of the runtime with its management handler, and the decoders of
  USB input reports, which are the next parts of the plan.
\<close>

end
